(* ===== verification/Prelude.thy ===== *)
theory Prelude imports Main "HOL-Library.Word" "HOL-Library.Sublist" "HOL-Library.Char_ord" "HOL-Library.List_Lexorder" begin

section \<open>Prelude: results, machine integers, strings\<close>

text \<open>
  What every component shares: the result type that stands for Rust's \<open>Result\<close>
  together with a panic, 64-bit integers with Rust's checked addition, the byte-level
  model of \<open>str::trim\<close>, the duplicate scan the validators write with a
  \<open>HashSet\<close>, and the collections of rules the component theories extend.
\<close>

named_theorems store_rules \<open>facts about single store operations\<close>
named_theorems inv_intros \<open>preservation of the component invariants\<close>
named_theorems frame_rules \<open>what an operation leaves unchanged\<close>

subsection \<open>Results\<close>

text \<open>
  \<open>Ok\<close> and \<open>Err\<close> are Rust's constructors. \<open>Panic\<close> is the outcome of
  an \<open>unwrap\<close>, \<open>expect\<close> or index that fails, so that the absence of panics is
  something to prove and not an assumption of the model.
\<close>

datatype ('a, 'e) result = Ok 'a | Err 'e | Panic

fun rbind :: "('a, 'e) result \<Rightarrow> ('a \<Rightarrow> ('b, 'e) result) \<Rightarrow> ('b, 'e) result" where
  "rbind (Ok x) f = f x"
| "rbind (Err e) f = Err e"
| "rbind Panic f = Panic"

fun map_err :: "('e \<Rightarrow> 'f) \<Rightarrow> ('a, 'e) result \<Rightarrow> ('a, 'f) result" where
  "map_err f (Ok x) = Ok x"
| "map_err f (Err e) = Err (f e)"
| "map_err f Panic = Panic"

definition ok_or :: "'e \<Rightarrow> 'a option \<Rightarrow> ('a, 'e) result" where
  "ok_or e x = (case x of None \<Rightarrow> Err e | Some v \<Rightarrow> Ok v)"

definition require_ok :: "bool \<Rightarrow> 'e \<Rightarrow> (unit, 'e) result" where
  "require_ok b e = (if b then Ok () else Err e)"

lemma ok_or_simps [simp]:
  "ok_or e None = Err e" "ok_or e (Some v) = Ok v"
  by (simp_all add: ok_or_def)

lemma ok_or_eq [simp]:
  "ok_or e x = Ok v \<longleftrightarrow> x = Some v"
  "ok_or e x = Err e' \<longleftrightarrow> x = None \<and> e' = e"
  "ok_or e x \<noteq> Panic"
  by (auto simp: ok_or_def split: option.splits)

lemma rbind_eq_Ok: "rbind r f = Ok y \<longleftrightarrow> (\<exists>x. r = Ok x \<and> f x = Ok y)"
  by (cases r) auto

lemma rbind_eq_Panic: "rbind r f = Panic \<longleftrightarrow> r = Panic \<or> (\<exists>x. r = Ok x \<and> f x = Panic)"
  by (cases r) auto

lemma rbind_assoc: "rbind (rbind r f) g = rbind r (\<lambda>x. rbind (f x) g)"
  by (cases r) auto

lemma require_ok_eq [simp]:
  "require_ok b e = Ok u \<longleftrightarrow> b"
  "require_ok b e = Err e' \<longleftrightarrow> \<not> b \<and> e' = e"
  "require_ok b e \<noteq> Panic"
  by (auto simp: require_ok_def)

subsection \<open>Machine integers\<close>

text \<open>\<open>u64\<close> is 64 bits wide; \<open>usize\<close> is modelled for a 64-bit target.\<close>

type_synonym u64 = "64 word"

abbreviation u64_max :: u64 where "u64_max \<equiv> 18446744073709551615"

definition checked_add :: "u64 \<Rightarrow> u64 \<Rightarrow> u64 option" where
  "checked_add a b = (if unat a + unat b < 2 ^ 64 then Some (a + b) else None)"

definition u64_of_usize :: "nat \<Rightarrow> u64 option" where
  "u64_of_usize n = (if n < 2 ^ 64 then Some (word_of_nat n) else None)"

lemma unat_lt_2_64 [simp]: "unat (x :: u64) < 18446744073709551616"
  using unsigned_less [where ?'a = nat, of x] by simp

lemma checked_add_Some: "checked_add a b = Some c \<Longrightarrow> unat c = unat a + unat b"
  by (auto simp: checked_add_def unat_word_ariths split: if_splits)

lemma unat_eq_u64_max: "unat (a :: u64) = 18446744073709551615 \<longleftrightarrow> a = u64_max"
proof
  assume "unat a = 18446744073709551615"
  then have "unat a = unat u64_max" by simp
  then show "a = u64_max" by (simp only: word_unat_eq_iff)
qed simp

lemma checked_add_1: "checked_add a 1 = (if a = u64_max then None else Some (a + 1))"
proof -
  have "unat a + 1 < 2 ^ 64 \<longleftrightarrow> a \<noteq> u64_max"
    using unat_lt_2_64 [of a] unat_eq_u64_max [of a] by (simp, linarith)
  then show ?thesis by (simp add: checked_add_def)
qed

lemma checked_add_1_neq: "checked_add a 1 = Some b \<Longrightarrow> b \<noteq> a"
  by (auto dest: checked_add_Some)

lemma u64_of_usize_Some: "u64_of_usize n = Some w \<Longrightarrow> unat w = n"
  by (auto simp: u64_of_usize_def unat_of_nat split: if_splits)

subsection \<open>Blank strings\<close>

text \<open>
  Strings are UTF-8 byte lists. \<open>str::trim\<close> removes leading and trailing characters
  of Unicode's White_Space property; \<open>white_spaces\<close> lists their encodings.
  The code under verification only asks whether the trimmed string is empty, or compares
  the trimmed string with an ASCII literal.
\<close>

definition white_spaces :: "string list" where
  "white_spaces =
     [[CHR 0x09], [CHR 0x0A], [CHR 0x0B], [CHR 0x0C], [CHR 0x0D], [CHR 0x20],
      [CHR 0xC2, CHR 0x85], [CHR 0xC2, CHR 0xA0], [CHR 0xE1, CHR 0x9A, CHR 0x80],
      [CHR 0xE2, CHR 0x80, CHR 0x80], [CHR 0xE2, CHR 0x80, CHR 0x81],
      [CHR 0xE2, CHR 0x80, CHR 0x82], [CHR 0xE2, CHR 0x80, CHR 0x83],
      [CHR 0xE2, CHR 0x80, CHR 0x84], [CHR 0xE2, CHR 0x80, CHR 0x85],
      [CHR 0xE2, CHR 0x80, CHR 0x86], [CHR 0xE2, CHR 0x80, CHR 0x87],
      [CHR 0xE2, CHR 0x80, CHR 0x88], [CHR 0xE2, CHR 0x80, CHR 0x89],
      [CHR 0xE2, CHR 0x80, CHR 0x8A], [CHR 0xE2, CHR 0x80, CHR 0xA8],
      [CHR 0xE2, CHR 0x80, CHR 0xA9], [CHR 0xE2, CHR 0x80, CHR 0xAF],
      [CHR 0xE2, CHR 0x81, CHR 0x9F], [CHR 0xE3, CHR 0x80, CHR 0x80]]"

text \<open>Strip whole characters of a list of encodings from the front.\<close>

function strip_start :: "string list \<Rightarrow> string \<Rightarrow> string" where
  "strip_start ws s =
     (case find (\<lambda>w. w \<noteq> [] \<and> prefix w s) ws of
        None \<Rightarrow> s
      | Some w \<Rightarrow> strip_start ws (drop (length w) s))"
  by pat_completeness auto
termination
  by (relation "measure (\<lambda>(ws, s). length s)")
    (auto simp: find_Some_iff prefix_def)

declare strip_start.simps [simp del]

definition trim_start :: "string \<Rightarrow> string" where
  "trim_start s = strip_start white_spaces s"

definition trim_end :: "string \<Rightarrow> string" where
  "trim_end s = rev (strip_start (map rev white_spaces) (rev s))"

definition trim :: "string \<Rightarrow> string" where
  "trim s = trim_end (trim_start s)"

definition blank :: "string \<Rightarrow> bool" where
  "blank s \<longleftrightarrow> trim s = []"

lemma strip_start_no_match:
  "\<forall>w \<in> set ws. w \<noteq> [] \<longrightarrow> \<not> prefix w s \<Longrightarrow> strip_start ws s = s"
  by (subst strip_start.simps) (auto split: option.split simp: find_Some_iff)

lemma strip_start_Nil [simp]: "strip_start ws [] = []"
  by (rule strip_start_no_match) simp

lemma trim_Nil [simp]: "trim [] = []" "trim_start [] = []" "trim_end [] = []"
  by (simp_all add: trim_def trim_start_def trim_end_def)

lemma blank_Nil [simp]: "blank []"
  by (simp add: blank_def)

lemma not_blankD: "\<not> blank s \<Longrightarrow> s \<noteq> []"
  by auto

text \<open>A string whose first and last bytes are printable ASCII is left alone.\<close>

definition plain_char :: "char \<Rightarrow> bool" where
  "plain_char c \<longleftrightarrow> of_char c > (32::nat) \<and> of_char c < (128::nat)"

lemma plain_no_prefix:
  assumes "plain_char c" and "w \<in> set white_spaces"
  shows "\<not> prefix w (c # s)" and "\<not> prefix (rev w) (c # s)"
  using assms unfolding plain_char_def white_spaces_def by auto

lemma trim_plain:
  assumes "plain_char (hd s)" and "plain_char (last s)" and "s \<noteq> []"
  shows "trim s = s"
proof -
  from assms(3) obtain c cs where s: "s = c # cs" by (cases s) auto
  with assms(1) have "plain_char c" by simp
  then have start: "trim_start s = s"
    using plain_no_prefix s unfolding trim_start_def by (intro strip_start_no_match) auto
  from assms(3) obtain d ds where r: "rev s = d # ds" by (cases "rev s") auto
  with assms(2) have "plain_char d" by (metis hd_rev list.sel(1))
  then have "trim_end s = s"
    using plain_no_prefix r unfolding trim_end_def
    by (subst strip_start_no_match) auto
  with start show ?thesis by (simp add: trim_def)
qed

lemma not_blank_plain: "plain_char (hd s) \<Longrightarrow> plain_char (last s) \<Longrightarrow> s \<noteq> [] \<Longrightarrow> \<not> blank s"
  by (simp add: blank_def trim_plain)

subsection \<open>The duplicate scan\<close>

text \<open>
  \<open>xs.iter().any(|x| bad(x) || !ids.insert(key(x)))\<close> with a \<open>HashSet\<close> that
  starts as \<open>seen\<close>: true at the first bad element or repeated key.
\<close>

fun scan_bad :: "('a \<Rightarrow> bool) \<Rightarrow> ('a \<Rightarrow> 'k) \<Rightarrow> 'k list \<Rightarrow> 'a list \<Rightarrow> bool" where
  "scan_bad bad key seen [] = False"
| "scan_bad bad key seen (x # xs) =
     (bad x \<or> key x \<in> set seen \<or> scan_bad bad key (key x # seen) xs)"

lemma scan_bad_iff:
  "scan_bad bad key seen xs \<longleftrightarrow>
     (\<exists>x \<in> set xs. bad x) \<or> \<not> distinct (map key xs) \<or> set (map key xs) \<inter> set seen \<noteq> {}"
  by (induction xs arbitrary: seen) auto

corollary scan_bad_fresh:
  "scan_bad bad key [] xs \<longleftrightarrow> (\<exists>x \<in> set xs. bad x) \<or> \<not> distinct (map key xs)"
  by (simp add: scan_bad_iff)

subsection \<open>Maps and lists\<close>

lemma map_of_filter_key: "map_of (filter (\<lambda>p. P (fst p)) xs) k = (if P k then map_of xs k else None)"
  by (induction xs) auto

lemma nth_error_append: "i < length xs \<Longrightarrow> (xs @ [y]) ! i = xs ! i"
  by (simp add: nth_append)

lemma all_less_Suc: "(\<forall>i < Suc n. P i) \<longleftrightarrow> (\<forall>i < n. P i) \<and> P n"
  by (auto simp: less_Suc_eq)

lemma not_in_set_filter: "P x = False \<Longrightarrow> x \<notin> set (filter P xs)"
  by simp

end
