(* ===== verification/Ids.thy ===== *)
theory Ids imports Prelude begin

section \<open>Identifiers (src/id.rs)\<close>

text \<open>
  The macro \<open>identifier!\<close> generates seven newtypes around \<open>String\<close> from one
  definition. The model has one polymorphic newtype; its phantom parameter keeps the
  seven kinds apart as the Rust types do. The private field is reached through
  \<open>id_new\<close> only, so every identifier of a running program satisfies \<open>id_ok\<close>.
\<close>

datatype invalid_id = InvalidId

datatype 'k ident = Ident (as_str: string)

datatype slot_tag = SlotTag
datatype session_tag = SessionTag
datatype run_tag = RunTag
datatype continuation_tag = ContinuationTag
datatype record_tag = RecordTag
datatype resource_tag = ResourceTag
datatype actor_tag = ActorTag

type_synonym slot_id = "slot_tag ident"
type_synonym session_id = "session_tag ident"
type_synonym run_id = "run_tag ident"
type_synonym continuation_id = "continuation_tag ident"
type_synonym record_id = "record_tag ident"
type_synonym resource_id = "resource_tag ident"
type_synonym actor_id = "actor_tag ident"

definition id_new :: "string \<Rightarrow> ('k ident, invalid_id) result" where
  "id_new value = (if blank value then Err InvalidId else Ok (Ident value))"

text \<open>\<open>TryFrom<String>\<close>, which serde uses on every stored identifier.\<close>

definition id_try_from :: "string \<Rightarrow> ('k ident, invalid_id) result" where
  "id_try_from value = id_new value"

definition id_display :: "'k ident \<Rightarrow> string" where
  "id_display i = as_str i"

definition id_ok :: "'k ident \<Rightarrow> bool" where
  "id_ok i \<longleftrightarrow> \<not> blank (as_str i)"

text \<open>\<open>derive(PartialOrd, Ord)\<close>: the byte order of the wrapped string.\<close>

instantiation ident :: (type) linorder
begin

definition less_eq_ident :: "'a ident \<Rightarrow> 'a ident \<Rightarrow> bool" where
  "less_eq_ident a b \<longleftrightarrow> as_str a \<le> as_str b"

definition less_ident :: "'a ident \<Rightarrow> 'a ident \<Rightarrow> bool" where
  "less_ident a b \<longleftrightarrow> as_str a < as_str b"

instance
  by standard (auto simp: less_eq_ident_def less_ident_def intro: ident.expand)

end

lemma id_new_Ok_iff: "id_new s = Ok i \<longleftrightarrow> \<not> blank s \<and> i = Ident s"
  by (auto simp: id_new_def)

lemma id_new_ok: "id_new s = Ok i \<Longrightarrow> id_ok i"
  by (simp add: id_new_Ok_iff id_ok_def)

lemma id_roundtrip: "id_ok i \<Longrightarrow> id_try_from (id_display i) = Ok i"
  by (simp add: id_ok_def id_try_from_def id_new_def id_display_def)

end
