(* ===== verification/Btree.thy ===== *)
theory Btree imports Prelude begin

section \<open>Ordered maps\<close>

text \<open>
  \<open>BTreeMap<String, V>\<close> as the list of its entries in key order. The locale
  \<open>string_map\<close> is the interface the clients rely on (what a lookup returns after an
  insertion or a collection, what the invariant says); the interpretation \<open>bt\<close>
  discharges it for the sorted lists below.
\<close>

type_synonym 'v btree = "(string \<times> 'v) list"

fun bt_insert :: "string \<Rightarrow> 'v \<Rightarrow> 'v btree \<Rightarrow> 'v btree" where
  "bt_insert k v [] = [(k, v)]"
| "bt_insert k v ((k', v') # m) =
     (if k < k' then (k, v) # (k', v') # m
      else if k = k' then (k, v) # m
      else (k', v') # bt_insert k v m)"

definition bt_get :: "'v btree \<Rightarrow> string \<Rightarrow> 'v option" where
  "bt_get m k = map_of m k"

definition bt_keys :: "'v btree \<Rightarrow> string list" where
  "bt_keys m = map fst m"

definition bt_values :: "'v btree \<Rightarrow> 'v list" where
  "bt_values m = map snd m"

text \<open>\<open>iter().collect()\<close>: the last entry of a key wins.\<close>

definition bt_collect :: "(string \<times> 'v) list \<Rightarrow> 'v btree" where
  "bt_collect kvs = fold (\<lambda>(k, v) m. bt_insert k v m) kvs []"

definition bt_ok :: "'v btree \<Rightarrow> bool" where
  "bt_ok m \<longleftrightarrow> sorted_wrt (<) (map fst m)"

lemma bt_insert_keys: "set (map fst (bt_insert k v m)) = insert k (set (map fst m))"
  by (induction k v m rule: bt_insert.induct) auto

lemma bt_insert_ok: "bt_ok m \<Longrightarrow> bt_ok (bt_insert k v m)"
proof (induction k v m rule: bt_insert.induct)
  case (1 k v)
  then show ?case by (simp add: bt_ok_def)
next
  case (2 k v k' v' m)
  then have tl: "bt_ok m" and hd: "\<forall>x \<in> set (map fst m). k' < x"
    by (auto simp: bt_ok_def)
  show ?case
  proof (cases "k' < k")
    case True
    then have "bt_insert k v ((k', v') # m) = (k', v') # bt_insert k v m" by auto
    moreover have "bt_ok (bt_insert k v m)" using "2.IH" True tl by auto
    moreover have "\<forall>x \<in> set (map fst (bt_insert k v m)). k' < x"
      using hd True by (simp only: bt_insert_keys) auto
    ultimately show ?thesis by (auto simp: bt_ok_def)
  next
    case False
    with "2.prems" hd show ?thesis by (auto simp: bt_ok_def)
  qed
qed

lemma bt_insert_get: "map_of (bt_insert k v m) = (map_of m)(k \<mapsto> v)"
  by (induction k v m rule: bt_insert.induct) (auto simp: fun_eq_iff)

locale string_map =
  fixes empty :: 'm
    and insert_at :: "string \<Rightarrow> 'v \<Rightarrow> 'm \<Rightarrow> 'm"
    and lookup :: "'m \<Rightarrow> string \<Rightarrow> 'v option"
    and invar :: "'m \<Rightarrow> bool"
  assumes lookup_empty: "lookup empty k = None"
    and lookup_insert: "invar m \<Longrightarrow> lookup (insert_at k v m) = (lookup m)(k \<mapsto> v)"
    and invar_empty: "invar empty"
    and invar_insert: "invar m \<Longrightarrow> invar (insert_at k v m)"
begin

lemma fold_invar: "invar m \<Longrightarrow> invar (fold (\<lambda>(k, v). insert_at k v) kvs m)"
  by (induction kvs arbitrary: m) (auto intro: invar_insert)

lemma fold_lookup:
  "invar m \<Longrightarrow> lookup (fold (\<lambda>(k, v). insert_at k v) kvs m) = lookup m ++ map_of (rev kvs)"
  by (induction kvs arbitrary: m) (auto simp: lookup_insert invar_insert)

lemma collect_lookup: "lookup (fold (\<lambda>(k, v). insert_at k v) kvs empty) k = map_of (rev kvs) k"
  using fold_lookup [OF invar_empty, of kvs]
  by (simp add: lookup_empty map_add_def split: option.split)

lemma collect_distinct:
  "distinct (map fst kvs) \<Longrightarrow> (k, v) \<in> set kvs \<Longrightarrow>
   lookup (fold (\<lambda>(k, v). insert_at k v) kvs empty) k = Some v"
  by (simp add: collect_lookup map_of_eq_Some_iff rev_map [symmetric])

end

interpretation bt: string_map "[]" bt_insert bt_get bt_ok
  by unfold_locales (auto simp: bt_get_def bt_insert_get bt_insert_ok bt_ok_def [of "[]"])

lemma bt_collect_ok: "bt_ok (bt_collect kvs)"
  unfolding bt_collect_def using bt.fold_invar [OF bt.invar_empty] by (simp add: split_def)

lemma bt_collect_get: "bt_get (bt_collect kvs) k = map_of (rev kvs) k"
  unfolding bt_collect_def using bt.collect_lookup by (simp add: split_def)

lemma bt_values_iff: "bt_ok m \<Longrightarrow> v \<in> set (bt_values m) \<longleftrightarrow> (\<exists>k. bt_get m k = Some v)"
proof -
  assume "bt_ok m"
  then have "distinct (map fst m)"
    by (auto simp: bt_ok_def strict_sorted_iff)
  then show ?thesis by (force simp: bt_values_def bt_get_def map_of_eq_Some_iff)
qed

lemma bt_keys_iff: "k \<in> set (bt_keys m) \<longleftrightarrow> bt_get m k \<noteq> None"
  by (auto simp: bt_keys_def bt_get_def map_of_eq_None_iff)

end
