(* ===== verification/Data_Model.thy ===== *)
theory Data_Model imports Ids Btree begin

section \<open>The data model (src/model.rs, src/authority.rs, src/configuration.rs)\<close>

text \<open>
  Structs are records with the source's fields under a prefix of their own, enums are
  datatypes with the source's constructors. A \<open>Vec\<close> is a list. A \<open>BTreeMap\<close>
  is the association list of its entries in key order (theory Btree).
  \<open>serde_json::Value\<close> is a type parameter \<open>'v\<close> wherever it occurs.
\<close>

subsection \<open>src/model.rs\<close>

record 'c slot =
  slot_ident :: slot_id
  slot_driver :: string
  slot_config :: 'c

record session =
  session_ident :: session_id

record resource_ref =
  res_id :: resource_id
  res_revision :: string

datatype instruction_role = Base | Supplemental

record instruction_ref =
  ins_resource :: resource_ref
  ins_role :: instruction_role

record context_manifest =
  cm_records :: "record_id list"
  cm_instructions :: "instruction_ref list"
  cm_resources :: "resource_ref list"

text \<open>\<open>derive(Default)\<close>\<close>

definition default_manifest :: context_manifest where
  "default_manifest = \<lparr>cm_records = [], cm_instructions = [], cm_resources = []\<rparr>"

record 'p rec =
  r_id :: record_id
  r_session :: session_id
  r_run :: "run_id option"
  r_sequence :: u64
  r_actor :: actor_id
  r_reply :: "record_id option"
  r_payload :: 'p

datatype content = Text string | Resource resource_ref

record message =
  msg_content :: "content list"

subsection \<open>src/authority.rs\<close>

record tool_ref =
  tool_name :: string
  tool_revision :: string

record tool_scope =
  scope_session :: session_id
  scope_slot :: slot_id

record tool_grant =
  grant_issuer :: actor_id
  grant_subject :: actor_id
  grant_scope :: tool_scope
  grant_tools :: "tool_ref list"

subsection \<open>src/configuration.rs\<close>

datatype config_value = Select string | Boolean bool

type_synonym config_values = "config_value btree"

record run_configuration =
  rc_requested :: config_values
  rc_confirmed :: "config_values option"

definition default_run_configuration :: run_configuration where
  "default_run_configuration = \<lparr>rc_requested = [], rc_confirmed = None\<rparr>"

record config_choice =
  cc_value :: string
  cc_label :: string
  cc_description :: "string option"
  cc_group :: "string option"

record config_option =
  co_id :: string
  co_label :: string
  co_description :: "string option"
  co_category :: "string option"
  co_current :: config_value
  co_choices :: "config_choice list"

record session_configuration =
  sc_options :: "config_option list option"
  sc_values :: run_configuration
  sc_pending :: bool
  sc_uncertain :: bool

end
