(* ===== verification/Run_Lifecycle.thy ===== *)
theory Run_Lifecycle imports Data_Model begin

section \<open>The run life cycle (src/run.rs)\<close>

text \<open>
  \<open>run_apply\<close> is \<open>Run::apply\<close>, one equation per arm of its match in the source's
  order. Properties of single events are lifted to event sequences by induction; the step
  relation \<open>run_step\<close> gives the reachable runs.
\<close>

record 'c run_spec =
  rs_id :: run_id
  rs_session :: session_id
  rs_slot :: slot_id
  rs_context :: context_manifest
  rs_config :: 'c
  rs_continuation :: "continuation_id option"

datatype run_status =
  Queued | Starting | Running | Cancelling | Completed | Failed | Cancelled | Unknown

definition is_terminal :: "run_status \<Rightarrow> bool" where
  "is_terminal s \<longleftrightarrow> s = Completed \<or> s = Failed \<or> s = Cancelled"

datatype run_event =
  DispatchStarted | Started | CancellationRequested | CompletedEvent | FailedEvent
| CancellationConfirmed | ConnectionLost | RecoveredRunning

record invalid_transition =
  it_status :: run_status
  it_event :: run_event

record 'c run =
  run_spec_of :: "'c run_spec"
  run_status_of :: run_status
  run_cancel_requested :: bool

definition run_new :: "'c run_spec \<Rightarrow> 'c run" where
  "run_new spec = \<lparr>run_spec_of = spec, run_status_of = Queued, run_cancel_requested = False\<rparr>"

fun run_next :: "run_status \<Rightarrow> run_event \<Rightarrow> bool \<Rightarrow> run_status option" where
  "run_next Queued DispatchStarted _ = Some Starting"
| "run_next Starting Started _ = Some Running"
| "run_next Cancelling Started _ = Some Cancelling"
| "run_next Queued CancellationRequested _ = Some Cancelled"
| "run_next Queued FailedEvent _ = Some Failed"
| "run_next Starting FailedEvent _ = Some Failed"
| "run_next Running FailedEvent _ = Some Failed"
| "run_next Cancelling FailedEvent _ = Some Failed"
| "run_next Unknown FailedEvent _ = Some Failed"
| "run_next Starting CancellationRequested _ = Some Cancelling"
| "run_next Running CancellationRequested _ = Some Cancelling"
| "run_next Cancelling CancellationRequested _ = Some Cancelling"
| "run_next Unknown CancellationRequested _ = Some Unknown"
| "run_next Starting CompletedEvent _ = Some Completed"
| "run_next Running CompletedEvent _ = Some Completed"
| "run_next Cancelling CompletedEvent _ = Some Completed"
| "run_next Unknown CompletedEvent _ = Some Completed"
| "run_next Starting CancellationConfirmed _ = Some Cancelled"
| "run_next Running CancellationConfirmed _ = Some Cancelled"
| "run_next Cancelling CancellationConfirmed _ = Some Cancelled"
| "run_next Unknown CancellationConfirmed _ = Some Cancelled"
| "run_next Starting ConnectionLost _ = Some Unknown"
| "run_next Running ConnectionLost _ = Some Unknown"
| "run_next Cancelling ConnectionLost _ = Some Unknown"
| "run_next Unknown RecoveredRunning True = Some Cancelling"
| "run_next Unknown RecoveredRunning False = Some Running"
| "run_next _ _ _ = None"

definition run_apply ::
  "'c run \<Rightarrow> run_event \<Rightarrow> (run_status, invalid_transition) result \<times> 'c run" where
  "run_apply r e =
     (case run_next (run_status_of r) e (run_cancel_requested r) of
        None \<Rightarrow> (Err \<lparr>it_status = run_status_of r, it_event = e\<rparr>, r)
      | Some next \<Rightarrow>
          (let r1 = (if e = CancellationRequested then r\<lparr>run_cancel_requested := True\<rparr> else r)
           in (Ok next, r1\<lparr>run_status_of := next\<rparr>)))"

text \<open>A sequence of delivered facts: rejected ones leave the run as it was.\<close>

fun run_all :: "'c run \<Rightarrow> run_event list \<Rightarrow> 'c run" where
  "run_all r [] = r"
| "run_all r (e # es) = run_all (snd (run_apply r e)) es"

subsection \<open>Single events\<close>

lemma run_next_status_split:
  "run_next s e c = Some s' \<Longrightarrow>
     \<not> is_terminal s \<and> (s' = Queued \<longrightarrow> False) \<and>
     (s' = Completed \<longrightarrow> e = CompletedEvent) \<and>
     (s' = Failed \<longrightarrow> e = FailedEvent) \<and>
     (s' = Starting \<longrightarrow> s = Queued \<and> e = DispatchStarted)"
  by (cases "(s, e, c)" rule: run_next.cases) (auto simp: is_terminal_def)

lemma run_apply_Err_unchanged: "fst (run_apply r e) = Err x \<Longrightarrow> snd (run_apply r e) = r"
  by (auto simp: run_apply_def Let_def split: option.splits)

lemma run_apply_no_panic: "fst (run_apply r e) \<noteq> Panic"
  by (auto simp: run_apply_def Let_def split: option.splits)

lemma run_apply_spec: "run_spec_of (snd (run_apply r e)) = run_spec_of r"
  by (auto simp: run_apply_def Let_def split: option.splits)

lemma run_apply_status:
  "run_status_of (snd (run_apply r e)) =
     (case run_next (run_status_of r) e (run_cancel_requested r) of
        None \<Rightarrow> run_status_of r | Some s \<Rightarrow> s)"
  by (auto simp: run_apply_def Let_def split: option.splits)

lemma run_apply_flag:
  "run_cancel_requested (snd (run_apply r e)) \<longleftrightarrow>
     run_cancel_requested r \<or>
     e = CancellationRequested \<and> run_next (run_status_of r) e (run_cancel_requested r) \<noteq> None"
  by (auto simp: run_apply_def Let_def split: option.splits)

lemmas run_apply_facts = run_apply_spec run_apply_status run_apply_flag

lemma terminal_next: "is_terminal s \<Longrightarrow> run_next s e c = None"
  using run_next_status_split by (cases "run_next s e c") auto

lemma terminal_rejects:
  "is_terminal (run_status_of r) \<Longrightarrow>
     run_apply r e = (Err \<lparr>it_status = run_status_of r, it_event = e\<rparr>, r)"
  by (simp add: run_apply_def terminal_next)

subsection \<open>Sequences of events\<close>

lemma run_all_append: "run_all r (es @ fs) = run_all (run_all r es) fs"
  by (induction es arbitrary: r) auto

lemma run_all_spec: "run_spec_of (run_all r es) = run_spec_of r"
  by (induction es arbitrary: r) (simp_all add: run_apply_spec)

lemma run_all_terminal_fixed: "is_terminal (run_status_of r) \<Longrightarrow> run_all r es = r"
  by (induction es) (simp_all add: terminal_rejects)

lemma run_all_flag_mono: "run_cancel_requested r \<Longrightarrow> run_cancel_requested (run_all r es)"
  by (induction es arbitrary: r) (simp_all add: run_apply_flag)

text \<open>
  What the flag and the status know of each other: a queued run has no request, a
  cancelling run has one.
\<close>

definition run_inv :: "'c run \<Rightarrow> bool" where
  "run_inv r \<longleftrightarrow>
     (run_status_of r = Queued \<longrightarrow> \<not> run_cancel_requested r) \<and>
     (run_status_of r = Cancelling \<longrightarrow> run_cancel_requested r) \<and>
     (run_status_of r = Running \<or> run_status_of r = Starting \<longrightarrow> \<not> run_cancel_requested r)"

lemma run_inv_new [inv_intros]: "run_inv (run_new spec)"
  by (simp add: run_inv_def run_new_def)

lemma run_inv_apply [inv_intros]: "run_inv r \<Longrightarrow> run_inv (snd (run_apply r e))"
  unfolding run_inv_def run_apply_facts
  by (cases "(run_status_of r, e, run_cancel_requested r)" rule: run_next.cases) auto

lemma run_inv_all [inv_intros]: "run_inv r \<Longrightarrow> run_inv (run_all r es)"
  by (induction es arbitrary: r) (simp_all add: run_inv_apply)

inductive run_reachable :: "'c run_spec \<Rightarrow> 'c run \<Rightarrow> bool" for spec where
  init: "run_reachable spec (run_new spec)"
| event: "run_reachable spec r \<Longrightarrow> run_reachable spec (snd (run_apply r e))"

lemma run_reachable_all: "run_reachable spec r \<longleftrightarrow> (\<exists>es. r = run_all (run_new spec) es)"
proof
  assume "run_reachable spec r"
  then show "\<exists>es. r = run_all (run_new spec) es"
  proof induction
    case init
    have "run_new spec = run_all (run_new spec) []" by simp
    then show ?case by blast
  next
    case (event r e)
    then obtain es where "r = run_all (run_new spec) es" by blast
    then have "snd (run_apply r e) = run_all (run_new spec) (es @ [e])"
      by (simp add: run_all_append)
    then show ?case by blast
  qed
next
  have "run_reachable spec q \<Longrightarrow> run_reachable spec (run_all q es)" for q es
    by (induction es arbitrary: q) (auto intro: run_reachable.event)
  moreover assume "\<exists>es. r = run_all (run_new spec) es"
  ultimately show "run_reachable spec r" using run_reachable.init by metis
qed

lemma run_reachable_inv: "run_reachable spec r \<Longrightarrow> run_inv r"
  by (induction rule: run_reachable.induct) (auto intro: inv_intros)

subsection \<open>Properties\<close>

definition sample_spec :: "run_configuration run_spec" where
  "sample_spec =
     \<lparr>rs_id = Ident ''r'', rs_session = Ident ''s'', rs_slot = Ident ''a'',
      rs_context = default_manifest, rs_config = default_run_configuration, rs_continuation = None\<rparr>"

text \<open>
  C21: A run that has reached a terminal status (completed, failed, cancelled) absorbs every
  later fact: no sequence of events changes its status, its specification or its
  cancellation flag, and each single event is answered with the error that names the
  unchanged status and the rejected event.
\<close>

theorem run_terminal_absorbing:
  assumes "is_terminal (run_status_of r)"
  shows "run_all r es = r \<and>
         run_apply r e = (Err \<lparr>it_status = run_status_of r, it_event = e\<rparr>, r)"
  using assms by (simp add: run_all_terminal_fixed terminal_rejects)

theorem run_terminal_absorbing_witness:
  "run_all (run_all (run_new sample_spec) [DispatchStarted, CompletedEvent]) [Started, ConnectionLost] =
   run_all (run_new sample_spec) [DispatchStarted, CompletedEvent]"
  by (rule run_terminal_absorbing [where e = Started, THEN conjunct1])
    (simp add: run_new_def run_apply_def is_terminal_def)

text \<open>
  Cancellation intent is never lost. Once a run that follows its life cycle from its
  creation has recorded a cancellation request, the flag stays set under every later
  sequence of events, and the run is never again reported as queued, starting or running:
  in particular a run recovered after a lost connection comes back as cancelling.
\<close>

theorem run_cancellation_retained:
  assumes "run_reachable spec r" and "run_cancel_requested r"
  shows "run_cancel_requested (run_all r es) \<and>
         run_status_of (run_all r es) \<in> {Cancelling, Unknown, Completed, Failed, Cancelled}"
proof -
  have flag: "run_cancel_requested (run_all r es)" using assms(2) by (rule run_all_flag_mono)
  have "run_inv (run_all r es)" by (rule run_inv_all [OF run_reachable_inv [OF assms(1)]])
  with flag show ?thesis by (cases "run_status_of (run_all r es)") (auto simp: run_inv_def)
qed

theorem run_cancellation_retained_witness:
  "run_cancel_requested (run_all (run_all (run_new sample_spec)
     [DispatchStarted, Started, CancellationRequested]) [ConnectionLost, RecoveredRunning])"
  by (rule run_cancellation_retained [where spec = sample_spec, THEN conjunct1])
    (unfold run_reachable_all, blast, simp add: run_new_def run_apply_def)

end
