(* ===== verification/Records.thy ===== *)
theory Records imports Run_Lifecycle begin

section \<open>Transcript payloads (src/records.rs, src/records/question.rs)\<close>

text \<open>
  The payload of a record, its state, drafts and snapshots, and the validation of
  structured questions and answers. \<open>Value\<close> is the type parameter \<open>'v\<close>.
\<close>

subsection \<open>Errors\<close>

datatype store_error =
  InvalidExecutionRelation | ExecutionRelationConflict | ExecutionCycle
| MissingSession | MissingRun | MissingRecord | IdentityConflict | WrongSession
| RevisionConflict | Finalized | InvalidPayload | InvalidDecision | AlreadyResolved
| OpenContextRecord | InvalidPageSize | InvalidChangeCursor | ReadOnly
| StorageTimedOut | StorageUnavailable | StorageOverloaded
| SchemaMigrationRequired int int
| SequenceExhausted | Poisoned | Busy | Database string | CorruptData string
| UnsupportedSchemaVersion int | UnsupportedDataVersion nat | UnversionedSchema
| MissingContinuation | ContinuationClaimed | ContinuationConflict | InvalidContinuation

subsection \<open>Questions\<close>

record question_option =
  qo_id :: string
  qo_label :: string

text \<open>\<open>max_bytes\<close> is a \<open>usize\<close>, \<open>min\<close> and \<open>max\<close> are \<open>i64\<close>.\<close>

datatype question_field_kind =
  TextField nat
| BooleanField
| IntegerField int int
| SelectField "question_option list"

record question_field =
  qf_id :: string
  qf_label :: string
  qf_required :: bool
  qf_kind :: question_field_kind

record question =
  q_title :: string
  q_fields :: "question_field list"

datatype answer_value =
  TextAnswer string | BooleanAnswer bool | IntegerAnswer int | SelectedAnswer string

datatype answer_outcome = Submitted "answer_value btree" | Declined | AnswerCancelled

datatype answer_delivery = Stored | AnswerQueued | AnswerUnknown

definition options_bad :: "question_option list \<Rightarrow> bool" where
  "options_bad options \<longleftrightarrow>
     options = [] \<or> length options > 256 \<or>
     scan_bad (\<lambda>opt. blank (qo_id opt) \<or> blank (qo_label opt)) qo_id [] options"

definition kind_bad :: "question_field_kind \<Rightarrow> bool" where
  "kind_bad kind =
     (case kind of
        TextField max_bytes \<Rightarrow> max_bytes = 0
      | IntegerField mn mx \<Rightarrow> mn > mx
      | SelectField options \<Rightarrow> options_bad options
      | BooleanField \<Rightarrow> False)"

text \<open>The loop over the fields, with the set of field identifiers seen so far.\<close>

fun validate_fields :: "string list \<Rightarrow> question_field list \<Rightarrow> (unit, store_error) result" where
  "validate_fields seen [] = Ok ()"
| "validate_fields seen (field # fs) =
     (if blank (qf_id field) \<or> blank (qf_label field) \<or> qf_id field \<in> set seen
      then Err InvalidPayload
      else if kind_bad (qf_kind field) then Err InvalidPayload
      else validate_fields (qf_id field # seen) fs)"

definition question_validate :: "question \<Rightarrow> (unit, store_error) result" where
  "question_validate q =
     (if blank (q_title q) \<or> q_fields q = [] \<or> length (q_fields q) > 64
      then Err InvalidPayload
      else validate_fields [] (q_fields q))"

definition answer_value_valid :: "question_field \<Rightarrow> answer_value \<Rightarrow> bool" where
  "answer_value_valid field value =
     (case (qf_kind field, value) of
        (TextField max_bytes, TextAnswer text) \<Rightarrow>
          length text \<le> max_bytes \<and> (\<not> qf_required field \<or> \<not> blank text)
      | (BooleanField, BooleanAnswer _) \<Rightarrow> True
      | (IntegerField mn mx, IntegerAnswer v) \<Rightarrow> mn \<le> v \<and> v \<le> mx
      | (SelectField options, SelectedAnswer i) \<Rightarrow> (\<exists>opt \<in> set options. qo_id opt = i)
      | _ \<Rightarrow> False)"

fun validate_values ::
  "answer_value btree \<Rightarrow> question_field list \<Rightarrow> (unit, store_error) result" where
  "validate_values values [] = Ok ()"
| "validate_values values (field # fs) =
     (case bt_get values (qf_id field) of
        None \<Rightarrow> if qf_required field then Err InvalidDecision else validate_values values fs
      | Some v \<Rightarrow>
          if answer_value_valid field v then validate_values values fs
          else Err InvalidDecision)"

definition validate_answer :: "question \<Rightarrow> answer_outcome \<Rightarrow> (unit, store_error) result" where
  "validate_answer q outcome =
     rbind (question_validate q) (\<lambda>_.
       (case outcome of
          Submitted values \<Rightarrow>
            if \<exists>key \<in> set (bt_keys values). \<not> (\<exists>field \<in> set (q_fields q). qf_id field = key)
            then Err InvalidDecision
            else validate_values values (q_fields q)
        | _ \<Rightarrow> Ok ()))"

subsection \<open>Payloads\<close>

datatype message_kind = User | Agent | Reasoning

datatype tool_status = ToolPending | ToolRunning | ToolCompleted | ToolFailed | ToolUnknown

record 'v tool_activity =
  ta_title :: string
  ta_status :: tool_status
  ta_input :: "'v option"
  ta_output :: "'v option"
  ta_extensions :: "'v btree"

record permission_option =
  po_id :: string
  po_label :: string
  po_effect :: string

datatype permission_outcome = Selected string | PermissionCancelled

datatype decision_delivery = DecisionQueued | DecisionUnknown

datatype completion_reason =
  ReasonCompleted | Refused | TokenLimit | StepLimit | ReasonCancelled | Other string

datatype 'v payload =
  PQuestion question
| PAnswer answer_outcome answer_delivery
| PMessage message_kind message
| PTool "'v tool_activity"
| PPermission string "permission_option list"
| PDecision permission_outcome decision_delivery
| PFailure string
| PRunFinished completion_reason
| PExtension string string 'v

datatype record_state = Open | Complete | Interrupted

definition is_final :: "record_state \<Rightarrow> bool" where
  "is_final s \<longleftrightarrow> s \<noteq> Open"

record source_ref =
  src_namespace :: string
  src_id :: string

record 'v draft =
  d_id :: record_id
  d_session :: session_id
  d_run :: "run_id option"
  d_actor :: actor_id
  d_reply :: "record_id option"
  d_source :: "source_ref option"
  d_payload :: "'v payload"
  d_state :: record_state

record 'v snapshot =
  sn_record :: "'v payload rec"
  sn_source :: "source_ref option"
  sn_revision :: u64
  sn_state :: record_state

text \<open>Requests are answered through \<open>resolve\<close> only; responses are only made by it.\<close>

definition is_request :: "'v payload \<Rightarrow> bool" where
  "is_request p = (case p of PPermission _ _ \<Rightarrow> True | PQuestion _ \<Rightarrow> True | _ \<Rightarrow> False)"

definition is_response :: "'v payload \<Rightarrow> bool" where
  "is_response p = (case p of PDecision _ _ \<Rightarrow> True | PAnswer _ _ \<Rightarrow> True | _ \<Rightarrow> False)"

lemma request_not_response [simp]: "is_request p \<Longrightarrow> \<not> is_response p"
  by (auto simp: is_request_def is_response_def split: payload.splits)

subsection \<open>Questions: what validation establishes\<close>

definition field_wf :: "question_field \<Rightarrow> bool" where
  "field_wf field \<longleftrightarrow>
     \<not> blank (qf_id field) \<and> \<not> blank (qf_label field) \<and> \<not> kind_bad (qf_kind field)"

definition question_wf :: "question \<Rightarrow> bool" where
  "question_wf q \<longleftrightarrow>
     \<not> blank (q_title q) \<and> q_fields q \<noteq> [] \<and> length (q_fields q) \<le> 64 \<and>
     list_all field_wf (q_fields q) \<and> distinct (map qf_id (q_fields q))"

lemma validate_fields_Ok_iff:
  "validate_fields seen fs = Ok () \<longleftrightarrow>
     list_all field_wf fs \<and> distinct (map qf_id fs) \<and>
     set (map qf_id fs) \<inter> set seen = {}"
  by (induction fs arbitrary: seen) (auto simp: field_wf_def)

lemma validate_fields_cases:
  "validate_fields seen fs = Ok () \<or> validate_fields seen fs = Err InvalidPayload"
  by (induction fs arbitrary: seen) auto

lemma question_validate_Ok_iff: "question_validate q = Ok () \<longleftrightarrow> question_wf q"
  by (auto simp: question_validate_def question_wf_def validate_fields_Ok_iff not_less)

lemma question_validate_cases: "question_validate q = Ok () \<or> question_validate q = Err InvalidPayload"
  using validate_fields_cases by (auto simp: question_validate_def)

lemma question_validate_Err_iff: "question_validate q = Err e \<longleftrightarrow> \<not> question_wf q \<and> e = InvalidPayload"
  using question_validate_cases [of q] question_validate_Ok_iff [of q] by auto

text \<open>What an accepted submission says about every field.\<close>

definition answers_field :: "answer_value btree \<Rightarrow> question_field \<Rightarrow> bool" where
  "answers_field values field =
     (case bt_get values (qf_id field) of
        None \<Rightarrow> \<not> qf_required field
      | Some v \<Rightarrow> answer_value_valid field v)"

lemma validate_values_Ok_iff: "validate_values values fs = Ok () \<longleftrightarrow> list_all (answers_field values) fs"
  by (induction fs) (auto simp: answers_field_def split: option.splits)

lemma validate_values_cases:
  "validate_values values fs = Ok () \<or> validate_values values fs = Err InvalidDecision"
  by (induction fs) (auto split: option.splits)

definition submission_wf :: "question \<Rightarrow> answer_value btree \<Rightarrow> bool" where
  "submission_wf q values \<longleftrightarrow>
     set (bt_keys values) \<subseteq> set (map qf_id (q_fields q)) \<and>
     list_all (answers_field values) (q_fields q)"

lemma validate_answer_Ok_iff:
  "validate_answer q outcome = Ok () \<longleftrightarrow>
     question_wf q \<and> (\<forall>values. outcome = Submitted values \<longrightarrow> submission_wf q values)"
  using question_validate_cases [of q] question_validate_Ok_iff [of q]
  by (cases outcome) (auto simp: validate_answer_def submission_wf_def validate_values_Ok_iff)

lemma validate_answer_no_panic: "validate_answer q outcome \<noteq> Panic"
proof (cases outcome)
  case (Submitted vs)
  then show ?thesis
    using question_validate_cases [of q] validate_values_cases [of vs "q_fields q"]
    by (auto simp: validate_answer_def)
next
  case Declined
  then show ?thesis using question_validate_cases [of q] by (auto simp: validate_answer_def)
next
  case AnswerCancelled
  then show ?thesis using question_validate_cases [of q] by (auto simp: validate_answer_def)
qed

lemma validate_answer_Ok_unit: "validate_answer q outcome = Ok u \<longleftrightarrow> validate_answer q outcome = Ok ()"
  by simp

end
