(* ===== verification/Rules.thy ===== *)
theory Rules imports Records begin

section \<open>Record rules (src/records/rules.rs)\<close>

text \<open>
  The four rules both stores share: when a draft repeats the creation of a record, when a
  payload is acceptable in a state, the compare-and-swap checkpoint and the resolution of
  a request.
\<close>

definition same_draft :: "'v snapshot \<Rightarrow> 'v draft \<Rightarrow> bool" where
  "same_draft s d \<longleftrightarrow>
     (let r = sn_record s in
        r_id r = d_id d \<and> r_session r = d_session d \<and> r_run r = d_run d \<and>
        r_actor r = d_actor d \<and> r_reply r = d_reply d \<and> r_payload r = d_payload d \<and>
        sn_source s = d_source d \<and> sn_state s = d_state d)"

definition validate :: "'v payload \<Rightarrow> record_state \<Rightarrow> (unit, store_error) result" where
  "validate p state =
     rbind (case p of PQuestion q \<Rightarrow> question_validate q | _ \<Rightarrow> Ok ()) (\<lambda>_.
       if (case p of
             PPermission _ options \<Rightarrow> scan_bad (\<lambda>opt. blank (po_id opt)) po_id [] options
           | _ \<Rightarrow> False)
       then Err InvalidPayload
       else if is_response p \<and> state \<noteq> Complete then Err InvalidPayload
       else Ok ())"

text \<open>\<open>std::mem::discriminant\<close>: the constructor alone.\<close>

fun payload_tag :: "'v payload \<Rightarrow> nat" where
  "payload_tag (PQuestion _) = 0"
| "payload_tag (PAnswer _ _) = 1"
| "payload_tag (PMessage _ _) = 2"
| "payload_tag (PTool _) = 3"
| "payload_tag (PPermission _ _) = 4"
| "payload_tag (PDecision _ _) = 5"
| "payload_tag (PFailure _) = 6"
| "payload_tag (PRunFinished _) = 7"
| "payload_tag (PExtension _ _ _) = 8"

definition message_kind_changes :: "'v payload \<Rightarrow> 'v payload \<Rightarrow> bool" where
  "message_kind_changes old new =
     (case (old, new) of (PMessage k _, PMessage k' _) \<Rightarrow> k \<noteq> k' | _ \<Rightarrow> False)"

definition bump_revision ::
  "'v snapshot \<Rightarrow> ('v snapshot \<Rightarrow> 'v snapshot) \<Rightarrow> ('v snapshot, store_error) result" where
  "bump_revision s f =
     (case checked_add (sn_revision s) 1 of
        None \<Rightarrow> Err SequenceExhausted
      | Some r \<Rightarrow> Ok ((f s)\<lparr>sn_revision := r\<rparr>))"

definition rules_checkpoint ::
  "'v snapshot \<Rightarrow> u64 \<Rightarrow> 'v payload \<Rightarrow> record_state \<Rightarrow> ('v snapshot, store_error) result" where
  "rules_checkpoint current expected p next =
     (if r_payload (sn_record current) = p \<and> sn_state current = next \<and>
         (sn_revision current = expected \<or> Some (sn_revision current) = checked_add expected 1)
      then Ok current
      else if sn_revision current \<noteq> expected then Err RevisionConflict
      else if is_final (sn_state current) then Err Finalized
      else if payload_tag (r_payload (sn_record current)) \<noteq> payload_tag p then Err InvalidPayload
      else if message_kind_changes (r_payload (sn_record current)) p then Err InvalidPayload
      else if is_request p \<and> (p \<noteq> r_payload (sn_record current) \<or> next = Complete)
      then Err InvalidDecision
      else rbind (validate p next) (\<lambda>_.
        bump_revision current
          (\<lambda>s. s\<lparr>sn_record := (sn_record s)\<lparr>r_payload := p\<rparr>, sn_state := next\<rparr>)))"

text \<open>The match on the request's and the response's payloads.\<close>

definition decision_fits :: "'v payload \<Rightarrow> 'v payload \<Rightarrow> (unit, store_error) result" where
  "decision_fits request response =
     (case (request, response) of
        (PPermission _ options, PDecision outcome _) \<Rightarrow>
          (case outcome of
             Selected i \<Rightarrow>
               if \<not> (\<exists>opt \<in> set options. po_id opt = i) then Err InvalidDecision else Ok ()
           | _ \<Rightarrow> Ok ())
      | (PQuestion q, PAnswer outcome _) \<Rightarrow> validate_answer q outcome
      | _ \<Rightarrow> Err InvalidDecision)"

definition resolve_request ::
  "'v snapshot \<Rightarrow> u64 \<Rightarrow> 'v draft \<Rightarrow> ('v snapshot, store_error) result" where
  "resolve_request original expected decision =
     (if sn_revision original \<noteq> expected then Err RevisionConflict
      else if sn_state original \<noteq> Open then Err Finalized
      else if d_reply decision \<noteq> Some (r_id (sn_record original)) \<or>
              d_session decision \<noteq> r_session (sn_record original) \<or>
              d_run decision \<noteq> r_run (sn_record original)
      then Err InvalidDecision
      else rbind (decision_fits (r_payload (sn_record original)) (d_payload decision)) (\<lambda>_.
        bump_revision original (\<lambda>s. s\<lparr>sn_state := Complete\<rparr>)))"

subsection \<open>Validation\<close>

definition payload_ok :: "'v payload \<Rightarrow> record_state \<Rightarrow> bool" where
  "payload_ok p state \<longleftrightarrow>
     (case p of
        PQuestion q \<Rightarrow> question_wf q
      | PPermission _ options \<Rightarrow>
          (\<forall>opt \<in> set options. \<not> blank (po_id opt)) \<and> distinct (map po_id options)
      | _ \<Rightarrow> True) \<and>
     (is_response p \<longrightarrow> state = Complete)"

lemma validate_Ok_iff [store_rules]: "validate p state = Ok () \<longleftrightarrow> payload_ok p state"
  by (cases p)
    (auto simp: validate_def payload_ok_def is_response_def scan_bad_fresh rbind_eq_Ok
      question_validate_Ok_iff)

lemma validate_cases: "validate p state = Ok () \<or> validate p state = Err InvalidPayload"
proof (cases p)
  case (PQuestion q)
  then show ?thesis
    using question_validate_cases [of q] by (auto simp: validate_def is_response_def)
qed (auto simp: validate_def)

lemma validate_no_panic [simp]: "validate p state \<noteq> Panic"
  using validate_cases [of p state] by auto

lemma payload_tag_is_request: "payload_tag p = payload_tag q \<Longrightarrow> is_request p \<longleftrightarrow> is_request q"
  by (cases p; cases q) (simp_all add: is_request_def)

lemma payload_tag_is_response: "payload_tag p = payload_tag q \<Longrightarrow> is_response p \<longleftrightarrow> is_response q"
  by (cases p; cases q) (simp_all add: is_response_def)

subsection \<open>Checkpoints\<close>

text \<open>What an accepted checkpoint leaves alone: identity, order and attribution.\<close>

definition same_identity :: "'v snapshot \<Rightarrow> 'v snapshot \<Rightarrow> bool" where
  "same_identity s t \<longleftrightarrow>
     r_id (sn_record s) = r_id (sn_record t) \<and>
     r_session (sn_record s) = r_session (sn_record t) \<and>
     r_run (sn_record s) = r_run (sn_record t) \<and>
     r_sequence (sn_record s) = r_sequence (sn_record t) \<and>
     r_actor (sn_record s) = r_actor (sn_record t) \<and>
     r_reply (sn_record s) = r_reply (sn_record t) \<and>
     sn_source s = sn_source t \<and>
     payload_tag (r_payload (sn_record s)) = payload_tag (r_payload (sn_record t))"

lemma same_identity_refl [simp]: "same_identity s s"
  by (simp add: same_identity_def)

lemma same_identity_trans: "same_identity s t \<Longrightarrow> same_identity t u \<Longrightarrow> same_identity s u"
  by (simp add: same_identity_def)

lemma bump_revision_Ok:
  "bump_revision s f = Ok t \<longleftrightarrow>
     (\<exists>r. checked_add (sn_revision s) 1 = Some r \<and> t = (f s)\<lparr>sn_revision := r\<rparr>)"
  by (auto simp: bump_revision_def split: option.splits)

lemma bump_revision_no_panic [simp]: "bump_revision s f \<noteq> Panic"
  by (auto simp: bump_revision_def split: option.splits)

lemma rules_checkpoint_Ok_cases:
  assumes "rules_checkpoint cur expected p next = Ok new"
  obtains (repeat) "new = cur" "r_payload (sn_record cur) = p" "sn_state cur = next"
      "sn_revision cur = expected \<or> Some (sn_revision cur) = checked_add expected 1"
  | (applied) r where "sn_revision cur = expected" "sn_state cur = Open"
      "payload_tag (r_payload (sn_record cur)) = payload_tag p"
      "\<not> message_kind_changes (r_payload (sn_record cur)) p"
      "is_request p \<Longrightarrow> p = r_payload (sn_record cur) \<and> next \<noteq> Complete"
      "payload_ok p next" "checked_add expected 1 = Some r"
      "new = cur\<lparr>sn_record := (sn_record cur)\<lparr>r_payload := p\<rparr>, sn_state := next, sn_revision := r\<rparr>"
proof (cases "r_payload (sn_record cur) = p \<and> sn_state cur = next \<and>
    (sn_revision cur = expected \<or> Some (sn_revision cur) = checked_add expected 1)")
  case True
  with assms have "new = cur" by (simp add: rules_checkpoint_def)
  with True show ?thesis using repeat by blast
next
  case False
  then have rest: "sn_revision cur = expected" "sn_state cur = Open"
      "payload_tag (r_payload (sn_record cur)) = payload_tag p"
      "\<not> message_kind_changes (r_payload (sn_record cur)) p"
      "\<not> (is_request p \<and> (p \<noteq> r_payload (sn_record cur) \<or> next = Complete))"
      "rbind (validate p next) (\<lambda>_. bump_revision cur
        (\<lambda>s. s\<lparr>sn_record := (sn_record s)\<lparr>r_payload := p\<rparr>, sn_state := next\<rparr>)) = Ok new"
    using assms by (simp_all add: rules_checkpoint_def is_final_def del: not_None_eq split: if_split_asm)
  then obtain r where "payload_ok p next" "checked_add expected 1 = Some r"
      "new = cur\<lparr>sn_record := (sn_record cur)\<lparr>r_payload := p\<rparr>, sn_state := next, sn_revision := r\<rparr>"
    by (auto simp: rbind_eq_Ok bump_revision_Ok validate_Ok_iff)
  with rest show ?thesis using applied by blast
qed

lemma rules_checkpoint_identity [store_rules]:
  "rules_checkpoint cur expected p next = Ok new \<Longrightarrow> same_identity cur new"
  by (erule rules_checkpoint_Ok_cases) (auto simp: same_identity_def)

lemma rules_checkpoint_result [store_rules]:
  "rules_checkpoint cur expected p next = Ok new \<Longrightarrow>
     r_payload (sn_record new) = p \<and> sn_state new = next"
  by (erule rules_checkpoint_Ok_cases) auto

lemma rules_checkpoint_final [store_rules]:
  "rules_checkpoint cur expected p next = Ok new \<Longrightarrow> is_final (sn_state cur) \<Longrightarrow> new = cur"
  by (erule rules_checkpoint_Ok_cases) (auto simp: is_final_def)

lemma rules_checkpoint_revision [store_rules]:
  "rules_checkpoint cur expected p next = Ok new \<Longrightarrow>
     new = cur \<or> unat (sn_revision new) = Suc (unat (sn_revision cur))"
  by (erule rules_checkpoint_Ok_cases) (auto dest: checked_add_Some)

lemma rules_checkpoint_no_panic [simp]: "rules_checkpoint cur expected p next \<noteq> Panic"
  by (auto simp: rules_checkpoint_def rbind_eq_Panic)

lemma rules_checkpoint_ok:
  "rules_checkpoint cur expected p next = Ok new \<Longrightarrow>
   payload_ok (r_payload (sn_record cur)) (sn_state cur) \<Longrightarrow>
   payload_ok (r_payload (sn_record new)) (sn_state new)"
  by (erule rules_checkpoint_Ok_cases) auto

text \<open>Repeating an accepted checkpoint with the same expectation returns the same snapshot.\<close>

lemma rules_checkpoint_retry:
  assumes "rules_checkpoint cur expected p next = Ok new"
  shows "rules_checkpoint new expected p next = Ok new"
  using assms
proof (cases rule: rules_checkpoint_Ok_cases)
  case repeat
  then show ?thesis by (simp add: rules_checkpoint_def)
next
  case (applied r)
  then show ?thesis by (simp add: rules_checkpoint_def)
qed

text \<open>Of two writers that expect the same revision, only the one that agrees can follow.\<close>

lemma rules_checkpoint_race:
  assumes "rules_checkpoint cur expected p next = Ok new" and "new \<noteq> cur"
    and "p' \<noteq> p \<or> next' \<noteq> next"
  shows "rules_checkpoint new expected p' next' = Err RevisionConflict"
  using assms(1)
proof (cases rule: rules_checkpoint_Ok_cases)
  case repeat
  with assms(2) show ?thesis by simp
next
  case (applied r)
  then have "sn_revision new \<noteq> expected" by (auto dest: checked_add_1_neq)
  moreover have "\<not> (r_payload (sn_record new) = p' \<and> sn_state new = next')"
    using applied assms(3) by auto
  ultimately show ?thesis by (auto simp: rules_checkpoint_def)
qed

subsection \<open>Resolutions\<close>

definition response_fits :: "'v payload \<Rightarrow> 'v payload \<Rightarrow> bool" where
  "response_fits request response \<longleftrightarrow>
     (case (request, response) of
        (PPermission _ options, PDecision outcome _) \<Rightarrow>
          (\<forall>i. outcome = Selected i \<longrightarrow> i \<in> set (map po_id options))
      | (PQuestion q, PAnswer outcome _) \<Rightarrow> validate_answer q outcome = Ok ()
      | _ \<Rightarrow> False)"

lemma decision_fits_Ok_iff: "decision_fits p q = Ok () \<longleftrightarrow> response_fits p q"
  by (auto simp: decision_fits_def response_fits_def split: payload.splits permission_outcome.splits)

lemma response_fits_kinds: "response_fits p q \<Longrightarrow> is_request p \<and> is_response q"
  by (auto simp: response_fits_def is_request_def is_response_def split: payload.splits)

lemma decision_fits_no_panic [simp]: "decision_fits p q \<noteq> Panic"
  using validate_answer_no_panic
  by (auto simp: decision_fits_def split: payload.splits permission_outcome.splits)

lemma resolve_request_Ok_iff:
  "resolve_request orig expected d = Ok new \<longleftrightarrow>
     sn_revision orig = expected \<and> sn_state orig = Open \<and>
     d_reply d = Some (r_id (sn_record orig)) \<and>
     d_session d = r_session (sn_record orig) \<and> d_run d = r_run (sn_record orig) \<and>
     response_fits (r_payload (sn_record orig)) (d_payload d) \<and>
     (\<exists>r. checked_add (sn_revision orig) 1 = Some r \<and>
        new = orig\<lparr>sn_state := Complete, sn_revision := r\<rparr>)"
  by (auto simp: resolve_request_def rbind_eq_Ok bump_revision_Ok decision_fits_Ok_iff [symmetric])

lemma resolve_request_no_panic [simp]: "resolve_request orig expected d \<noteq> Panic"
  by (auto simp: resolve_request_def rbind_eq_Panic)

lemma resolve_request_identity [store_rules]:
  "resolve_request orig expected d = Ok new \<Longrightarrow> same_identity orig new"
  by (auto simp: resolve_request_Ok_iff same_identity_def)

end
