(* ===== verification/Continuations.thy ===== *)
theory Continuations imports Rules begin

section \<open>Provider continuations (src/records/continuation.rs)\<close>

text \<open>
  Single-use handoffs of native provider sessions: validation, the in-memory
  \<open>Registry\<close> with its two hash maps, and the contract \<open>continuation_store\<close>
  every store of continuations keeps. The registry interprets it here; the stores do in
  their own theories.
\<close>

record 'v continuation =
  k_id :: continuation_id
  k_session :: session_id
  k_slot :: slot_id
  k_adapter :: string
  k_scope :: string
  k_native_key :: string
  k_predecessor :: "continuation_id option"
  k_data :: 'v

datatype continuation_state = Available | Claimed

record 'v continuation_record =
  cr_continuation :: "'v continuation"
  cr_state :: continuation_state
  cr_latest :: bool

definition continuation_validate :: "'v continuation \<Rightarrow> (unit, store_error) result" where
  "continuation_validate c =
     (if blank (k_adapter c) \<or> blank (k_scope c) \<or> blank (k_native_key c) \<or>
         k_predecessor c = Some (k_id c)
      then Err InvalidContinuation else Ok ())"

definition validate_successor ::
  "'v continuation \<Rightarrow> 'v continuation_record option \<Rightarrow> (unit, store_error) result" where
  "validate_successor c latest =
     (case (latest, k_predecessor c) of
        (None, None) \<Rightarrow> Ok ()
      | (Some prev, Some i) \<Rightarrow>
          if cr_latest prev \<and> cr_state prev = Claimed \<and> k_id (cr_continuation prev) = i \<and>
             k_session (cr_continuation prev) = k_session c \<and>
             k_slot (cr_continuation prev) = k_slot c
          then Ok () else Err ContinuationConflict
      | _ \<Rightarrow> Err ContinuationConflict)"

type_synonym native_key = "string \<times> string \<times> string"

definition continuation_key :: "'v continuation \<Rightarrow> native_key" where
  "continuation_key c = (k_adapter c, k_scope c, k_native_key c)"

record 'v registry =
  reg_records :: "continuation_id \<rightharpoonup> 'v continuation_record"
  reg_latest :: "native_key \<rightharpoonup> continuation_id"

definition empty_registry :: "'v registry" where
  "empty_registry = \<lparr>reg_records = Map.empty, reg_latest = Map.empty\<rparr>"

definition registry_previous :: "'v registry \<Rightarrow> 'v continuation \<Rightarrow> 'v continuation_record option" where
  "registry_previous g c =
     (case reg_latest g (continuation_key c) of None \<Rightarrow> None | Some i \<Rightarrow> reg_records g i)"

definition demote ::
  "'v continuation_record option \<Rightarrow> (continuation_id \<rightharpoonup> 'v continuation_record) \<Rightarrow>
   (continuation_id \<rightharpoonup> 'v continuation_record)" where
  "demote previous m =
     (case previous of
        None \<Rightarrow> m
      | Some p \<Rightarrow> m(k_id (cr_continuation p) \<mapsto> p\<lparr>cr_latest := False\<rparr>))"

definition fresh_record :: "'v continuation \<Rightarrow> 'v continuation_record" where
  "fresh_record c = \<lparr>cr_continuation = c, cr_state = Available, cr_latest = True\<rparr>"

definition registry_save ::
  "'v continuation \<Rightarrow> 'v registry \<Rightarrow> ('v continuation_record, store_error) result \<times> 'v registry" where
  "registry_save c g =
     (case continuation_validate c of
        Err e \<Rightarrow> (Err e, g)
      | Panic \<Rightarrow> (Panic, g)
      | Ok _ \<Rightarrow>
          (case reg_records g (k_id c) of
             Some existing \<Rightarrow>
               (if cr_continuation existing = c then Ok existing else Err IdentityConflict, g)
           | None \<Rightarrow>
               (case validate_successor c (registry_previous g c) of
                  Err e \<Rightarrow> (Err e, g)
                | Panic \<Rightarrow> (Panic, g)
                | Ok _ \<Rightarrow>
                    (Ok (fresh_record c),
                     \<lparr>reg_records = (demote (registry_previous g c) (reg_records g))
                        (k_id c \<mapsto> fresh_record c),
                      reg_latest = (reg_latest g)(continuation_key c \<mapsto> k_id c)\<rparr>))))"

definition registry_get ::
  "continuation_id \<Rightarrow> 'v registry \<Rightarrow> ('v continuation_record, store_error) result" where
  "registry_get i g = ok_or MissingContinuation (reg_records g i)"

definition registry_claim ::
  "continuation_id \<Rightarrow> 'v registry \<Rightarrow> ('v continuation_record, store_error) result \<times> 'v registry" where
  "registry_claim i g =
     (case registry_get i g of
        Err e \<Rightarrow> (Err e, g)
      | Panic \<Rightarrow> (Panic, g)
      | Ok r \<Rightarrow>
          if cr_state r \<noteq> Available \<or> \<not> cr_latest r then (Err ContinuationClaimed, g)
          else
            (let r' = r\<lparr>cr_state := Claimed\<rparr>
             in (Ok r', g\<lparr>reg_records := (reg_records g)(i \<mapsto> r')\<rparr>)))"

subsection \<open>The contract of a continuation store\<close>

datatype 'v continuation_op = SaveOp "'v continuation" | ClaimOp continuation_id

text \<open>One operation of a store given by its save and claim functions.\<close>

definition continuation_apply ::
  "('v continuation \<Rightarrow> 's \<Rightarrow> ('v continuation_record, store_error) result \<times> 's) \<Rightarrow>
   (continuation_id \<Rightarrow> 's \<Rightarrow> ('v continuation_record, store_error) result \<times> 's) \<Rightarrow>
   'v continuation_op \<Rightarrow> 's \<Rightarrow> ('v continuation_record, store_error) result \<times> 's" where
  "continuation_apply save claim oper s =
     (case oper of SaveOp c \<Rightarrow> save c s | ClaimOp i \<Rightarrow> claim i s)"

text \<open>How many operations of a sequence successfully claim \<open>i\<close>.\<close>

fun granted_claims ::
  "('v continuation \<Rightarrow> 's \<Rightarrow> ('v continuation_record, store_error) result \<times> 's) \<Rightarrow>
   (continuation_id \<Rightarrow> 's \<Rightarrow> ('v continuation_record, store_error) result \<times> 's) \<Rightarrow>
   continuation_id \<Rightarrow> 'v continuation_op list \<Rightarrow> 's \<Rightarrow> nat" where
  "granted_claims save claim i [] s = 0"
| "granted_claims save claim i (oper # ops) s =
     (case continuation_apply save claim oper s of (res, s') \<Rightarrow>
        (if oper = ClaimOp i \<and> (\<exists>r. res = Ok r) then 1 else 0) +
        granted_claims save claim i ops s')"

locale continuation_store =
  fixes save :: "'v continuation \<Rightarrow> 's \<Rightarrow> ('v continuation_record, store_error) result \<times> 's"
    and get :: "continuation_id \<Rightarrow> 's \<Rightarrow> ('v continuation_record, store_error) result"
    and claim :: "continuation_id \<Rightarrow> 's \<Rightarrow> ('v continuation_record, store_error) result \<times> 's"
    and inv :: "'s \<Rightarrow> bool"
  assumes inv_save: "inv s \<Longrightarrow> inv (snd (save c s))"
    and inv_claim: "inv s \<Longrightarrow> inv (snd (claim i s))"
    and claim_Ok: "inv s \<Longrightarrow> claim i s = (Ok r, s') \<Longrightarrow>
          cr_state r = Claimed \<and> get i s' = Ok r \<and>
          (\<exists>r0. get i s = Ok r0 \<and> cr_state r0 = Available \<and> cr_latest r0)"
    and claim_claimed: "inv s \<Longrightarrow> get i s = Ok r \<Longrightarrow> cr_state r = Claimed \<Longrightarrow>
          fst (claim i s) = Err ContinuationClaimed"
    and claimed_save: "inv s \<Longrightarrow> get i s = Ok r \<Longrightarrow> cr_state r = Claimed \<Longrightarrow>
          \<exists>r'. get i (snd (save c s)) = Ok r' \<and> cr_state r' = Claimed"
    and claimed_claim: "inv s \<Longrightarrow> get i s = Ok r \<Longrightarrow> cr_state r = Claimed \<Longrightarrow>
          \<exists>r'. get i (snd (claim j s)) = Ok r' \<and> cr_state r' = Claimed"
begin

lemma inv_apply: "inv s \<Longrightarrow> inv (snd (continuation_apply save claim oper s))"
  by (cases oper) (simp_all add: continuation_apply_def inv_save inv_claim)

lemma claimed_apply:
  assumes "inv s" "get i s = Ok r" "cr_state r = Claimed"
  shows "\<exists>r'. get i (snd (continuation_apply save claim oper s)) = Ok r' \<and> cr_state r' = Claimed"
  using assms by (cases oper) (auto simp: continuation_apply_def intro: claimed_save claimed_claim)

lemma no_claim_after:
  "inv s \<Longrightarrow> get i s = Ok r \<Longrightarrow> cr_state r = Claimed \<Longrightarrow>
     granted_claims save claim i ops s = 0"
proof (induction ops arbitrary: s r)
  case Nil
  then show ?case by simp
next
  case (Cons oper ops)
  obtain res s' where app: "continuation_apply save claim oper s = (res, s')" by force
  have "inv s'" using inv_apply [OF Cons.prems(1), of oper] app by simp
  moreover obtain r' where "get i s' = Ok r'" "cr_state r' = Claimed"
    using claimed_apply [OF Cons.prems, of oper] app by auto
  ultimately have "granted_claims save claim i ops s' = 0" by (rule Cons.IH)
  moreover have "\<not> (oper = ClaimOp i \<and> (\<exists>r. res = Ok r))"
    using claim_claimed [OF Cons.prems] app by (auto simp: continuation_apply_def)
  ultimately show ?case by (simp add: app)
qed

lemma claim_at_most_once: "inv s \<Longrightarrow> granted_claims save claim i ops s \<le> 1"
proof (induction ops arbitrary: s)
  case Nil
  then show ?case by simp
next
  case (Cons oper ops)
  obtain res s' where app: "continuation_apply save claim oper s = (res, s')" by force
  have inv: "inv s'" using inv_apply [OF Cons.prems, of oper] app by simp
  show ?case
  proof (cases "oper = ClaimOp i \<and> (\<exists>r. res = Ok r)")
    case True
    then obtain r where "claim i s = (Ok r, s')"
      using app by (auto simp: continuation_apply_def)
    then have "cr_state r = Claimed" "get i s' = Ok r"
      using claim_Ok [OF Cons.prems] by blast+
    then have "granted_claims save claim i ops s' = 0"
      using no_claim_after [OF inv] by blast
    with app show ?thesis by simp
  next
    case False
    with Cons.IH [OF inv] app show ?thesis by auto
  qed
qed

end

subsection \<open>The registry keeps the contract\<close>

definition continuation_ok :: "'v continuation \<Rightarrow> bool" where
  "continuation_ok c \<longleftrightarrow>
     \<not> blank (k_adapter c) \<and> \<not> blank (k_scope c) \<and> \<not> blank (k_native_key c) \<and>
     k_predecessor c \<noteq> Some (k_id c)"

lemma continuation_validate_Ok_iff: "continuation_validate c = Ok u \<longleftrightarrow> continuation_ok c"
  by (auto simp: continuation_validate_def continuation_ok_def)

lemma continuation_validate_no_panic [simp]: "continuation_validate c \<noteq> Panic"
  by (simp add: continuation_validate_def)

lemma validate_successor_Ok_iff:
  "validate_successor c latest = Ok u \<longleftrightarrow>
     (case latest of
        None \<Rightarrow> k_predecessor c = None
      | Some prev \<Rightarrow>
          cr_latest prev \<and> cr_state prev = Claimed \<and>
          k_predecessor c = Some (k_id (cr_continuation prev)) \<and>
          k_session (cr_continuation prev) = k_session c \<and>
          k_slot (cr_continuation prev) = k_slot c)"
  by (auto simp: validate_successor_def split: option.splits)

lemma validate_successor_no_panic [simp]: "validate_successor c latest \<noteq> Panic"
  by (auto simp: validate_successor_def split: option.splits)

text \<open>
  The two maps describe the same chains: every key with records has one latest record,
  the others are claimed, and a predecessor is a superseded record of the same native
  session, owner and slot.
\<close>

definition reg_inv :: "'v registry \<Rightarrow> bool" where
  "reg_inv g \<longleftrightarrow>
     (\<forall>i r. reg_records g i = Some r \<longrightarrow>
        k_id (cr_continuation r) = i \<and> continuation_ok (cr_continuation r) \<and>
        (cr_latest r \<longleftrightarrow> reg_latest g (continuation_key (cr_continuation r)) = Some i) \<and>
        (\<not> cr_latest r \<longrightarrow> cr_state r = Claimed) \<and>
        (\<forall>p. k_predecessor (cr_continuation r) = Some p \<longrightarrow>
           (\<exists>q. reg_records g p = Some q \<and> \<not> cr_latest q \<and> cr_state q = Claimed \<and>
              continuation_key (cr_continuation q) = continuation_key (cr_continuation r) \<and>
              k_session (cr_continuation q) = k_session (cr_continuation r) \<and>
              k_slot (cr_continuation q) = k_slot (cr_continuation r)))) \<and>
     (\<forall>key i. reg_latest g key = Some i \<longrightarrow>
        (\<exists>r. reg_records g i = Some r \<and> continuation_key (cr_continuation r) = key))"

lemma reg_inv_empty [inv_intros]: "reg_inv empty_registry"
  by (simp add: reg_inv_def empty_registry_def)

lemma registry_save_cases:
  obtains (unchanged) e where "registry_save c g = (e, g)"
      "\<And>r. e = Ok r \<Longrightarrow> reg_records g (k_id c) = Some r \<and> cr_continuation r = c" "e \<noteq> Panic"
  | (stored) "continuation_ok c" "reg_records g (k_id c) = None"
      "validate_successor c (registry_previous g c) = Ok ()"
      "registry_save c g = (Ok (fresh_record c),
         \<lparr>reg_records = (demote (registry_previous g c) (reg_records g))(k_id c \<mapsto> fresh_record c),
          reg_latest = (reg_latest g)(continuation_key c \<mapsto> k_id c)\<rparr>)"
proof (cases "continuation_validate c")
  case (Ok u)
  then have okc: "continuation_ok c" by (simp add: continuation_validate_Ok_iff)
  show ?thesis
  proof (cases "reg_records g (k_id c)")
    case None
    show ?thesis
    proof (cases "validate_successor c (registry_previous g c)")
      case (Ok u')
      with \<open>continuation_validate c = Ok u\<close> None okc show ?thesis
        by (intro stored) (simp_all add: registry_save_def)
    next
      case (Err e)
      with \<open>continuation_validate c = Ok u\<close> None show ?thesis
        by (intro unchanged [of "Err e"]) (simp_all add: registry_save_def)
    qed simp
  next
    case (Some r)
    with Ok show ?thesis
      by (intro unchanged [of "if cr_continuation r = c then Ok r else Err IdentityConflict"])
        (auto simp: registry_save_def split: if_splits)
  qed
next
  case (Err e)
  then show ?thesis by (intro unchanged [of "Err e"]) (simp_all add: registry_save_def)
qed simp

lemma registry_claim_cases:
  obtains (unchanged) e where "registry_claim i g = (Err e, g)"
  | (claimed) r where "reg_records g i = Some r" "cr_state r = Available" "cr_latest r"
      "registry_claim i g = (Ok (r\<lparr>cr_state := Claimed\<rparr>),
         g\<lparr>reg_records := (reg_records g)(i \<mapsto> r\<lparr>cr_state := Claimed\<rparr>)\<rparr>)"
proof (cases "reg_records g i")
  case None
  then show ?thesis by (intro unchanged) (simp add: registry_claim_def registry_get_def)
next
  case (Some r)
  show ?thesis
  proof (cases "cr_state r = Available \<and> cr_latest r")
    case True
    with Some show ?thesis
      by (intro claimed) (simp_all add: registry_claim_def registry_get_def Let_def)
  next
    case False
    with Some show ?thesis
      by (intro unchanged [of ContinuationClaimed]) (auto simp: registry_claim_def registry_get_def)
  qed
qed


lemma reg_invD:
  assumes "reg_inv g" and "reg_records g i = Some r"
  shows "k_id (cr_continuation r) = i" and "continuation_ok (cr_continuation r)"
    and "cr_latest r \<longleftrightarrow> reg_latest g (continuation_key (cr_continuation r)) = Some i"
    and "\<not> cr_latest r \<Longrightarrow> cr_state r = Claimed"
    and "k_predecessor (cr_continuation r) = Some p \<Longrightarrow>
           \<exists>q. reg_records g p = Some q \<and> \<not> cr_latest q \<and> cr_state q = Claimed \<and>
              continuation_key (cr_continuation q) = continuation_key (cr_continuation r) \<and>
              k_session (cr_continuation q) = k_session (cr_continuation r) \<and>
              k_slot (cr_continuation q) = k_slot (cr_continuation r)"
  using assms unfolding reg_inv_def by blast+

lemma reg_inv_latest:
  "reg_inv g \<Longrightarrow> reg_latest g key = Some i \<Longrightarrow>
     \<exists>r. reg_records g i = Some r \<and> cr_latest r \<and> continuation_key (cr_continuation r) = key"
  unfolding reg_inv_def by blast

lemma registry_previous_Some:
  assumes "reg_inv g" and "registry_previous g c = Some p"
  shows "reg_records g (k_id (cr_continuation p)) = Some p" and "cr_latest p"
    and "continuation_key (cr_continuation p) = continuation_key c"
    and "reg_latest g (continuation_key c) = Some (k_id (cr_continuation p))"
proof -
  from assms(2) obtain i where i: "reg_latest g (continuation_key c) = Some i"
    and r: "reg_records g i = Some p"
    by (auto simp: registry_previous_def split: option.splits)
  from reg_invD(1) [OF assms(1) r] have k: "k_id (cr_continuation p) = i" .
  show "reg_records g (k_id (cr_continuation p)) = Some p"
    and "reg_latest g (continuation_key c) = Some (k_id (cr_continuation p))"
    using i r k by simp_all
  show "cr_latest p" and "continuation_key (cr_continuation p) = continuation_key c"
    using reg_inv_latest [OF assms(1) i] r by simp_all
qed

lemma registry_previous_None:
  "reg_inv g \<Longrightarrow> registry_previous g c = None \<longleftrightarrow> reg_latest g (continuation_key c) = None"
  using reg_inv_latest by (fastforce simp: registry_previous_def split: option.splits)

lemma reg_inv_stored:
  assumes inv: "reg_inv g" and okc: "continuation_ok c" and new: "reg_records g (k_id c) = None"
    and succ: "validate_successor c (registry_previous g c) = Ok ()"
  shows "reg_inv \<lparr>reg_records = (demote (registry_previous g c) (reg_records g))(k_id c \<mapsto> fresh_record c),
          reg_latest = (reg_latest g)(continuation_key c \<mapsto> k_id c)\<rparr>" (is "reg_inv ?g")
proof (cases "registry_previous g c")
  case None
  with succ have nopred: "k_predecessor c = None" by (simp add: validate_successor_Ok_iff)
  have nolat: "reg_latest g (continuation_key c) = None"
    using None registry_previous_None [OF inv] by simp
  have other: "continuation_key (cr_continuation r) \<noteq> continuation_key c \<or> \<not> cr_latest r"
    if "reg_records g i = Some r" for i r
    using reg_invD(3) [OF inv that] nolat by auto
  show ?thesis
    unfolding reg_inv_def
  proof (intro conjI allI impI)
    fix i r assume "reg_records ?g i = Some r"
    then consider "i = k_id c" "r = fresh_record c" | "i \<noteq> k_id c" "reg_records g i = Some r"
      by (auto simp: None demote_def split: if_splits)
    then have four: "k_id (cr_continuation r) = i \<and> continuation_ok (cr_continuation r) \<and>
      cr_latest r = (reg_latest ?g (continuation_key (cr_continuation r)) = Some i) \<and>
      (\<not> cr_latest r \<longrightarrow> cr_state r = Claimed)"
    proof cases
      case 1
      with okc show ?thesis by (simp add: fresh_record_def)
    next
      case 2
      from reg_invD(1-4) [OF inv 2(2)] other [OF 2(2)] 2(1) show ?thesis by auto
    qed
    from four show "k_id (cr_continuation r) = i" "continuation_ok (cr_continuation r)"
      "cr_latest r = (reg_latest ?g (continuation_key (cr_continuation r)) = Some i)"
      "\<not> cr_latest r \<Longrightarrow> cr_state r = Claimed"
      by blast+
  next
    fix i r p assume "reg_records ?g i = Some r" "k_predecessor (cr_continuation r) = Some p"
    then have "reg_records g i = Some r"
      using nopred by (auto simp: None demote_def fresh_record_def split: if_splits)
    from reg_invD(5) [OF inv this \<open>k_predecessor (cr_continuation r) = Some p\<close>]
    show "\<exists>q. reg_records ?g p = Some q \<and> \<not> cr_latest q \<and> cr_state q = Claimed \<and>
        continuation_key (cr_continuation q) = continuation_key (cr_continuation r) \<and>
        k_session (cr_continuation q) = k_session (cr_continuation r) \<and>
        k_slot (cr_continuation q) = k_slot (cr_continuation r)"
      using new by (auto simp: None demote_def)
  next
    fix key i assume "reg_latest ?g key = Some i"
    then show "\<exists>r. reg_records ?g i = Some r \<and> continuation_key (cr_continuation r) = key"
      using reg_inv_latest [OF inv] new
      by (fastforce simp: None demote_def fresh_record_def split: if_splits)
  qed
next
  case (Some prev)
  note P = registry_previous_Some [OF inv Some]
  from succ Some have S: "cr_state prev = Claimed" "k_predecessor c = Some (k_id (cr_continuation prev))"
      "k_session (cr_continuation prev) = k_session c" "k_slot (cr_continuation prev) = k_slot c"
    by (simp_all add: validate_successor_Ok_iff)
  let ?p = "k_id (cr_continuation prev)"
  have ne: "?p \<noteq> k_id c" using P(1) new by auto
  have lat: "cr_latest r \<Longrightarrow> continuation_key (cr_continuation r) = continuation_key c \<Longrightarrow> i = ?p"
    if "reg_records g i = Some r" for i r
    using reg_invD(3) [OF inv that] P(4) by auto
  have look: "reg_records ?g i =
      (if i = k_id c then Some (fresh_record c)
       else if i = ?p then Some (prev\<lparr>cr_latest := False\<rparr>) else reg_records g i)" for i
    by (simp add: Some demote_def)
  show ?thesis
    unfolding reg_inv_def
  proof (intro conjI allI impI)
    fix i r assume "reg_records ?g i = Some r"
    then consider "i = k_id c" "r = fresh_record c"
      | "i \<noteq> k_id c" "i = ?p" "r = prev\<lparr>cr_latest := False\<rparr>"
      | "i \<noteq> k_id c" "i \<noteq> ?p" "reg_records g i = Some r"
      unfolding look by (auto split: if_splits)
    then have four: "k_id (cr_continuation r) = i \<and> continuation_ok (cr_continuation r) \<and>
      cr_latest r = (reg_latest ?g (continuation_key (cr_continuation r)) = Some i) \<and>
      (\<not> cr_latest r \<longrightarrow> cr_state r = Claimed)"
    proof cases
      case 1
      with okc show ?thesis by (simp add: fresh_record_def)
    next
      case 2
      with reg_invD(2) [OF inv P(1)] P(3) S(1) show ?thesis by simp
    next
      case 3
      from reg_invD(1-4) [OF inv 3(3)] lat [OF 3(3)] 3(1,2) P(4) show ?thesis by auto
    qed
    from four show "k_id (cr_continuation r) = i" "continuation_ok (cr_continuation r)"
      "cr_latest r = (reg_latest ?g (continuation_key (cr_continuation r)) = Some i)"
      "\<not> cr_latest r \<Longrightarrow> cr_state r = Claimed"
      by blast+
  next
    fix i r p assume r: "reg_records ?g i = Some r" and p: "k_predecessor (cr_continuation r) = Some p"
    let ?goal = "\<lambda>q. \<not> cr_latest q \<and> cr_state q = Claimed \<and>
        continuation_key (cr_continuation q) = continuation_key (cr_continuation r) \<and>
        k_session (cr_continuation q) = k_session (cr_continuation r) \<and>
        k_slot (cr_continuation q) = k_slot (cr_continuation r)"
    show "\<exists>q. reg_records ?g p = Some q \<and> ?goal q"
    proof (cases "i = k_id c")
      case True
      with r p S P ne show ?thesis unfolding look by (auto simp: fresh_record_def)
    next
      case False
      then obtain r0 where r0: "reg_records g i = Some r0"
          and same: "cr_continuation r = cr_continuation r0"
        using r P(1) unfolding look by (auto split: if_splits)
      obtain q where "reg_records g p = Some q" "?goal q" "\<not> cr_latest q"
        using reg_invD(5) [OF inv r0] p same by auto
      moreover have "p \<noteq> ?p" using P(1,2) calculation by auto
      moreover have "p \<noteq> k_id c" using new calculation by auto
      ultimately show ?thesis unfolding look by auto
    qed
  next
    fix key i assume "reg_latest ?g key = Some i"
    then show "\<exists>r. reg_records ?g i = Some r \<and> continuation_key (cr_continuation r) = key"
      using reg_inv_latest [OF inv] P(1,3) new unfolding look
      by (fastforce simp: fresh_record_def split: if_splits)
  qed
qed

lemma reg_inv_save [inv_intros]: "reg_inv g \<Longrightarrow> reg_inv (snd (registry_save c g))"
  by (rule registry_save_cases [of c g]) (simp_all add: reg_inv_stored)

lemma reg_inv_claim [inv_intros]:
  assumes inv: "reg_inv g"
  shows "reg_inv (snd (registry_claim i g))"
proof (rule registry_claim_cases [of i g])
  fix e assume "registry_claim i g = (Err e, g)"
  with inv show ?thesis by simp
next
  fix r assume r: "reg_records g i = Some r" "cr_state r = Available" "cr_latest r"
    and c: "registry_claim i g = (Ok (r\<lparr>cr_state := Claimed\<rparr>),
         g\<lparr>reg_records := (reg_records g)(i \<mapsto> r\<lparr>cr_state := Claimed\<rparr>)\<rparr>)"
  let ?g = "g\<lparr>reg_records := (reg_records g)(i \<mapsto> r\<lparr>cr_state := Claimed\<rparr>)\<rparr>"
  have keep: "\<exists>x0. reg_records g j = Some x0 \<and> cr_continuation x0 = cr_continuation x \<and>
      cr_latest x0 = cr_latest x \<and> (cr_state x0 = Claimed \<longrightarrow> cr_state x = Claimed)"
    if "reg_records ?g j = Some x" for j x
    using that r by (auto split: if_splits)
  have fwd: "\<exists>x. reg_records ?g j = Some x \<and> cr_continuation x = cr_continuation x0 \<and>
      cr_latest x = cr_latest x0 \<and> (cr_state x0 = Claimed \<longrightarrow> cr_state x = Claimed)"
    if "reg_records g j = Some x0" for j x0
    using that r by auto
  have "reg_inv ?g"
    unfolding reg_inv_def
  proof (intro conjI allI impI)
    fix j x assume x: "reg_records ?g j = Some x"
    from keep [OF this] obtain x0 where x0: "reg_records g j = Some x0"
      "cr_continuation x0 = cr_continuation x" "cr_latest x0 = cr_latest x"
      "cr_state x0 = Claimed \<longrightarrow> cr_state x = Claimed" by blast
    note D = reg_invD [OF inv x0(1)]
    show "k_id (cr_continuation x) = j" "continuation_ok (cr_continuation x)"
      "cr_latest x = (reg_latest ?g (continuation_key (cr_continuation x)) = Some j)"
      "\<not> cr_latest x \<Longrightarrow> cr_state x = Claimed"
      using D(1-4) x0 by auto
    fix p assume "k_predecessor (cr_continuation x) = Some p"
    with D(5) [of p] x0(2) obtain q0 where q0: "reg_records g p = Some q0" "\<not> cr_latest q0"
        "cr_state q0 = Claimed" "continuation_key (cr_continuation q0) = continuation_key (cr_continuation x)"
        "k_session (cr_continuation q0) = k_session (cr_continuation x)"
        "k_slot (cr_continuation q0) = k_slot (cr_continuation x)" by auto
    with fwd [OF q0(1)] show "\<exists>q. reg_records ?g p = Some q \<and> \<not> cr_latest q \<and> cr_state q = Claimed \<and>
        continuation_key (cr_continuation q) = continuation_key (cr_continuation x) \<and>
        k_session (cr_continuation q) = k_session (cr_continuation x) \<and>
        k_slot (cr_continuation q) = k_slot (cr_continuation x)"
      by metis
  next
    fix key j assume "reg_latest ?g key = Some j"
    with reg_inv_latest [OF inv] r(1)
    show "\<exists>x. reg_records ?g j = Some x \<and> continuation_key (cr_continuation x) = key"
      by fastforce
  qed
  with c show ?thesis by simp
qed

lemma registry_claim_Ok:
  "registry_claim i g = (Ok r, g') \<Longrightarrow>
     cr_state r = Claimed \<and> registry_get i g' = Ok r \<and>
     (\<exists>r0. registry_get i g = Ok r0 \<and> cr_state r0 = Available \<and> cr_latest r0)"
  by (rule registry_claim_cases [of i g]) (auto simp: registry_get_def)

lemma registry_claim_claimed:
  "registry_get i g = Ok r \<Longrightarrow> cr_state r = Claimed \<Longrightarrow>
     fst (registry_claim i g) = Err ContinuationClaimed"
  by (simp add: registry_claim_def)

lemma registry_save_claimed:
  assumes inv: "reg_inv g" and r: "registry_get i g = Ok r" "cr_state r = Claimed"
  shows "\<exists>r'. registry_get i (snd (registry_save c g)) = Ok r' \<and> cr_state r' = Claimed"
proof (rule registry_save_cases [of c g])
  assume new: "reg_records g (k_id c) = None"
    and st: "registry_save c g = (Ok (fresh_record c),
         \<lparr>reg_records = (demote (registry_previous g c) (reg_records g))(k_id c \<mapsto> fresh_record c),
          reg_latest = (reg_latest g)(continuation_key c \<mapsto> k_id c)\<rparr>)"
  then show ?thesis
    using r registry_previous_Some(1) [OF inv]
    by (auto simp: registry_get_def demote_def split: option.splits)
qed (use r in auto)

lemma registry_claim_keeps_claimed:
  "registry_get i g = Ok r \<Longrightarrow> cr_state r = Claimed \<Longrightarrow>
     \<exists>r'. registry_get i (snd (registry_claim j g)) = Ok r' \<and> cr_state r' = Claimed"
  by (rule registry_claim_cases [of j g]) (auto simp: registry_get_def)

interpretation reg: continuation_store registry_save registry_get registry_claim reg_inv
  by unfold_locales
    (auto intro: inv_intros registry_claim_Ok [THEN conjunct1]
      registry_claim_Ok [THEN conjunct2, THEN conjunct1]
      registry_claim_Ok [THEN conjunct2, THEN conjunct2]
      registry_claim_claimed registry_save_claimed registry_claim_keeps_claimed)

text \<open>At most one handle of a native session is available, and it is the latest.\<close>

lemma reg_inv_available_unique:
  assumes "reg_inv g" and "reg_records g i = Some r" and "reg_records g j = Some q"
    and "cr_state r = Available" and "cr_state q = Available"
    and "continuation_key (cr_continuation r) = continuation_key (cr_continuation q)"
  shows "i = j"
proof -
  have "cr_latest r" using reg_invD(4) [OF assms(1,2)] assms(4) by auto
  moreover have "cr_latest q" using reg_invD(4) [OF assms(1,3)] assms(5) by auto
  ultimately show ?thesis
    using reg_invD(3) [OF assms(1,2)] reg_invD(3) [OF assms(1,3)] assms(6) by simp
qed

lemma registry_save_no_panic: "fst (registry_save c g) \<noteq> Panic"
  by (rule registry_save_cases [of c g]) auto

lemma registry_claim_no_panic: "fst (registry_claim i g) \<noteq> Panic"
  by (rule registry_claim_cases [of i g]) auto

text \<open>Saving the same descriptor again returns what is stored and changes nothing.\<close>

lemma registry_save_retry:
  assumes "registry_save c g = (Ok r, g')"
  shows "\<exists>r'. registry_save c g' = (Ok r', g') \<and> cr_continuation r' = c"
proof (rule registry_save_cases [of c g])
  fix e assume "registry_save c g = (e, g)"
    "\<And>r. e = Ok r \<Longrightarrow> reg_records g (k_id c) = Some r \<and> cr_continuation r = c"
  with assms show ?thesis by force
next
  assume "continuation_ok c" and st: "registry_save c g = (Ok (fresh_record c),
         \<lparr>reg_records = (demote (registry_previous g c) (reg_records g))(k_id c \<mapsto> fresh_record c),
          reg_latest = (reg_latest g)(continuation_key c \<mapsto> k_id c)\<rparr>)"
  then have "continuation_validate c = Ok ()" by (simp add: continuation_validate_Ok_iff)
  with st assms show ?thesis by (auto simp: registry_save_def fresh_record_def)
qed

end
