(* ===== verification/Execution.thy ===== *)
theory Execution imports Continuations begin

section \<open>Execution relations (src/execution.rs, first part)\<close>

text \<open>
  Bridge-managed children: the delegation, the recorded relation and its validation. What
  a validated relation says about authority is stated once here; the stores keep it for
  every recorded edge, and the plan of a child run (theory Child_Plan) checks it first.
\<close>

type_synonym spec = "run_configuration run_spec"

record delegation_grant =
  dg_issuer :: actor_id
  dg_subject :: actor_id
  dg_parent :: run_id
  dg_context :: context_manifest
  dg_tools :: "tool_ref list"

record child_request =
  req_id :: run_id
  req_slot :: slot_id
  req_actor :: actor_id
  req_context :: context_manifest
  req_tools :: "tool_ref list"

record execution_relation =
  er_parent :: run_id
  er_child :: run_id
  er_parent_authority :: tool_grant
  er_delegation :: delegation_grant
  er_child_authority :: tool_grant

definition relation_validate ::
  "execution_relation \<Rightarrow> spec \<Rightarrow> spec \<Rightarrow> (unit, store_error) result" where
  "relation_validate e parent child =
     (let parent_scope = \<lparr>scope_session = rs_session parent, scope_slot = rs_slot parent\<rparr>;
          child_scope = \<lparr>scope_session = rs_session child, scope_slot = rs_slot child\<rparr>
      in if er_parent e = er_child e
          \<or> er_parent e \<noteq> rs_id parent
          \<or> er_child e \<noteq> rs_id child
          \<or> dg_parent (er_delegation e) \<noteq> rs_id parent
          \<or> rs_session parent \<noteq> rs_session child
          \<or> rs_continuation child \<noteq> None
          \<or> grant_scope (er_parent_authority e) \<noteq> parent_scope
          \<or> grant_scope (er_child_authority e) \<noteq> child_scope
          \<or> grant_issuer (er_parent_authority e) \<noteq> dg_issuer (er_delegation e)
          \<or> grant_issuer (er_child_authority e) \<noteq> dg_issuer (er_delegation e)
          \<or> grant_subject (er_parent_authority e) \<noteq> dg_subject (er_delegation e)
          \<or> (\<exists>tool \<in> set (grant_tools (er_child_authority e)).
               tool \<notin> set (grant_tools (er_parent_authority e)) \<or>
               tool \<notin> set (dg_tools (er_delegation e)))
          \<or> (\<exists>i \<in> set (cm_records (rs_context child)).
               i \<notin> set (cm_records (dg_context (er_delegation e))))
          \<or> (\<exists>r \<in> set (cm_resources (rs_context child)).
               r \<notin> set (cm_resources (dg_context (er_delegation e))))
          \<or> (\<exists>r \<in> set (cm_instructions (rs_context child)).
               r \<notin> set (cm_instructions (dg_context (er_delegation e))))
         then Err InvalidExecutionRelation
         else Ok ())"

text \<open>One grant narrows another: same issuer and session, no tool that was not held.\<close>

definition narrows :: "tool_grant \<Rightarrow> tool_grant \<Rightarrow> bool" where
  "narrows g h \<longleftrightarrow>
     grant_issuer g = grant_issuer h \<and>
     scope_session (grant_scope g) = scope_session (grant_scope h) \<and>
     set (grant_tools g) \<subseteq> set (grant_tools h)"

definition manifest_within :: "context_manifest \<Rightarrow> context_manifest \<Rightarrow> bool" where
  "manifest_within m n \<longleftrightarrow>
     set (cm_records m) \<subseteq> set (cm_records n) \<and>
     set (cm_resources m) \<subseteq> set (cm_resources n) \<and>
     set (cm_instructions m) \<subseteq> set (cm_instructions n)"

lemma narrows_refl [simp]: "narrows g g"
  by (simp add: narrows_def)

lemma narrows_trans: "narrows g h \<Longrightarrow> narrows h k \<Longrightarrow> narrows g k"
  by (auto simp: narrows_def)

lemma relation_validate_Ok_iff:
  "relation_validate e parent child = Ok u \<longleftrightarrow>
     er_parent e \<noteq> er_child e \<and> er_parent e = rs_id parent \<and> er_child e = rs_id child \<and>
     dg_parent (er_delegation e) = rs_id parent \<and> rs_session parent = rs_session child \<and>
     rs_continuation child = None \<and>
     grant_scope (er_parent_authority e) =
       \<lparr>scope_session = rs_session parent, scope_slot = rs_slot parent\<rparr> \<and>
     grant_scope (er_child_authority e) =
       \<lparr>scope_session = rs_session child, scope_slot = rs_slot child\<rparr> \<and>
     grant_issuer (er_parent_authority e) = dg_issuer (er_delegation e) \<and>
     grant_issuer (er_child_authority e) = dg_issuer (er_delegation e) \<and>
     grant_subject (er_parent_authority e) = dg_subject (er_delegation e) \<and>
     set (grant_tools (er_child_authority e)) \<subseteq>
       set (grant_tools (er_parent_authority e)) \<inter> set (dg_tools (er_delegation e)) \<and>
     manifest_within (rs_context child) (dg_context (er_delegation e))"
  unfolding relation_validate_def Let_def manifest_within_def
  by (simp split: if_split) blast

lemma relation_validate_cases:
  "relation_validate e parent child = Ok () \<or>
   relation_validate e parent child = Err InvalidExecutionRelation"
  by (simp add: relation_validate_def Let_def)

lemma relation_validate_no_panic [simp]: "relation_validate e parent child \<noteq> Panic"
  using relation_validate_cases [of e parent child] by auto

lemma relation_validate_narrows:
  "relation_validate e parent child = Ok u \<Longrightarrow> narrows (er_child_authority e) (er_parent_authority e)"
  by (auto simp: relation_validate_Ok_iff narrows_def)

subsection \<open>Edges and ancestors\<close>

text \<open>The recorded edges, keyed by the child as in both stores.\<close>

type_synonym relations = "(run_id \<times> execution_relation) list"

definition put_relation :: "execution_relation \<Rightarrow> relations \<Rightarrow> relations" where
  "put_relation e rels = rels @ [(er_child e, e)]"

text \<open>
  The loop of \<open>link_execution\<close>: follow the parents of \<open>ancestor\<close>; true when the
  walk ends at a run without a parent, false when it meets the child or a run it has seen.
\<close>

function ancestors_clear :: "relations \<Rightarrow> run_id \<Rightarrow> run_id \<Rightarrow> run_id list \<Rightarrow> bool" where
  "ancestors_clear rels child ancestor visited =
     (if ancestor = child \<or> ancestor \<in> set visited then False
      else (case map_of rels ancestor of
              Some edge \<Rightarrow> ancestors_clear rels child (er_parent edge) (ancestor # visited)
            | None \<Rightarrow> True))"
  by pat_completeness auto
termination
proof (relation "measure (\<lambda>(rels, child, a, visited). card (set (map fst rels) - set visited))",
    goal_cases)
  case 1
  show ?case by simp
next
  case (2 rels child a visited edge)
  then have "a \<in> set (map fst rels)" "a \<notin> set visited"
    by (auto dest: map_of_SomeD intro: rev_image_eqI)
  then have "set (map fst rels) - set (a # visited) \<subset> set (map fst rels) - set visited"
    by auto
  then show ?case by (simp add: psubset_card_mono)
qed

declare ancestors_clear.simps [simp del]

definition parent_edges :: "relations \<Rightarrow> (run_id \<times> run_id) set" where
  "parent_edges rels = {(c, er_parent e) | c e. map_of rels c = Some e}"

lemma parent_edges_iff: "(c, p) \<in> parent_edges rels \<longleftrightarrow> (\<exists>e. map_of rels c = Some e \<and> er_parent e = p)"
  by (auto simp: parent_edges_def)

text \<open>A walk that ends has not met the child.\<close>

lemma ancestors_clear_unreachable:
  "ancestors_clear rels child a visited \<Longrightarrow> (a, child) \<notin> (parent_edges rels)\<^sup>*"
proof (induction rels child a visited rule: ancestors_clear.induct)
  case (1 rels child a visited)
  from "1.prems" have ne: "a \<noteq> child" "a \<notin> set visited"
    by (auto simp: ancestors_clear.simps [of rels child a] split: if_splits)
  show ?case
  proof
    assume "(a, child) \<in> (parent_edges rels)\<^sup>*"
    with ne(1) obtain p where p: "(a, p) \<in> parent_edges rels" "(p, child) \<in> (parent_edges rels)\<^sup>*"
      by (auto elim: converse_rtranclE)
    then obtain e where e: "map_of rels a = Some e" "er_parent e = p"
      by (auto simp: parent_edges_iff)
    with "1.prems" ne have "ancestors_clear rels child p (a # visited)"
      by (simp add: ancestors_clear.simps [of rels child a])
    with "1.IH" e ne p(2) show False by auto
  qed
qed

text \<open>In an acyclic store the walk from a run meets only runs it has not seen.\<close>

lemma ancestors_clear_total:
  assumes "acyclic (parent_edges rels)" and "(a, child) \<notin> (parent_edges rels)\<^sup>*"
    and "\<forall>v \<in> set visited. (a, v) \<notin> (parent_edges rels)\<^sup>*"
  shows "ancestors_clear rels child a visited"
  using assms
proof (induction rels child a visited rule: ancestors_clear.induct)
  case (1 rels child a visited)
  then have ne: "a \<noteq> child" "a \<notin> set visited" by auto
  show ?case
  proof (cases "map_of rels a")
    case None
    with ne show ?thesis by (simp add: ancestors_clear.simps [of rels child a])
  next
    case (Some e)
    then have step: "(a, er_parent e) \<in> parent_edges rels" by (auto simp: parent_edges_iff)
    have "(er_parent e, v) \<notin> (parent_edges rels)\<^sup>*" if "v \<in> set (a # visited)" for v
    proof
      assume v: "(er_parent e, v) \<in> (parent_edges rels)\<^sup>*"
      with step have "(a, v) \<in> (parent_edges rels)\<^sup>+" by (rule rtrancl_into_trancl2)
      with "1.prems"(1,3) that show False by (auto simp: acyclic_def dest: trancl_into_rtrancl)
    qed
    moreover have "(er_parent e, child) \<notin> (parent_edges rels)\<^sup>*"
      using "1.prems"(2) step by (auto intro: converse_rtrancl_into_rtrancl)
    ultimately have "ancestors_clear rels child (er_parent e) (a # visited)"
      using "1.IH" [OF _ Some] ne "1.prems"(1) by blast
    with ne Some show ?thesis by (simp add: ancestors_clear.simps [of rels child a])
  qed
qed

lemma put_relation_lookup:
  "map_of rels (er_child e) = None \<Longrightarrow>
     map_of (put_relation e rels) = (map_of rels)(er_child e \<mapsto> e)"
  by (auto simp: put_relation_def map_add_def fun_eq_iff split: option.splits)

lemma put_relation_edges:
  "map_of rels (er_child e) = None \<Longrightarrow>
     parent_edges (put_relation e rels) = insert (er_child e, er_parent e) (parent_edges rels)"
  by (auto simp: put_relation_lookup parent_edges_def)

text \<open>The stored edges describe existing runs, narrow authority and have no cycle.\<close>

definition relations_inv :: "(run_id \<rightharpoonup> spec) \<Rightarrow> relations \<Rightarrow> bool" where
  "relations_inv runs rels \<longleftrightarrow>
     distinct (map fst rels) \<and>
     (\<forall>c e. map_of rels c = Some e \<longrightarrow>
        er_child e = c \<and>
        (\<exists>ps cs. runs (er_parent e) = Some ps \<and> runs c = Some cs \<and>
           relation_validate e ps cs = Ok ()) \<and>
        (\<forall>up. map_of rels (er_parent e) = Some up \<longrightarrow>
           er_child_authority up = er_parent_authority e)) \<and>
     acyclic (parent_edges rels)"

lemma relations_inv_Nil [simp]: "relations_inv runs []"
  by (simp add: relations_inv_def parent_edges_def acyclic_def)

lemma relations_inv_put:
  assumes inv: "relations_inv runs rels" and new: "map_of rels (er_child e) = None"
    and runs: "runs (er_parent e) = Some ps" "runs (er_child e) = Some cs"
    and ok: "relation_validate e ps cs = Ok ()"
    and up: "\<And>edge. map_of rels (er_parent e) = Some edge \<Longrightarrow>
               er_child_authority edge = er_parent_authority e"
    and down: "\<And>edge. edge \<in> set (map snd rels) \<Longrightarrow> er_parent edge = er_child e \<Longrightarrow>
               er_parent_authority edge = er_child_authority e"
    and clear: "ancestors_clear rels (er_child e) (er_parent e) []"
  shows "relations_inv runs (put_relation e rels)"
  unfolding relations_inv_def
proof (intro conjI allI impI)
  show "distinct (map fst (put_relation e rels))"
    using inv new by (auto simp: relations_inv_def put_relation_def map_of_eq_None_iff)
  show "acyclic (parent_edges (put_relation e rels))"
    using inv ancestors_clear_unreachable [OF clear]
    by (simp add: put_relation_edges [OF new] relations_inv_def)
  have self: "er_parent e \<noteq> er_child e" using ok unfolding relation_validate_Ok_iff by (rule conjunct1)
  fix c x assume x: "map_of (put_relation e rels) c = Some x"
  then consider "c = er_child e" "x = e" | "c \<noteq> er_child e" "map_of rels c = Some x"
    by (auto simp: put_relation_lookup [OF new] split: if_splits)
  note cases = this
  show "er_child x = c" using cases inv by cases (auto simp: relations_inv_def)
  show "\<exists>ps cs. runs (er_parent x) = Some ps \<and> runs c = Some cs \<and> relation_validate x ps cs = Ok ()"
    using cases runs ok inv by cases (auto simp: relations_inv_def)
  fix upper assume upper: "map_of (put_relation e rels) (er_parent x) = Some upper"
  show "er_child_authority upper = er_parent_authority x"
    using cases
  proof cases
    case 1
    with upper up self show ?thesis by (simp add: put_relation_lookup [OF new])
  next
    case 2
    show ?thesis
    proof (cases "er_parent x = er_child e")
      case True
      with upper have "upper = e" by (simp add: put_relation_lookup [OF new])
      moreover have "x \<in> set (map snd rels)" using 2(2) by (force dest: map_of_SomeD)
      ultimately show ?thesis using down True by simp
    next
      case False
      with upper 2 inv show ?thesis
        by (simp add: put_relation_lookup [OF new] relations_inv_def)
    qed
  qed
qed

lemma relations_inv_runs:
  "relations_inv runs rels \<Longrightarrow> runs r = None \<Longrightarrow> relations_inv (runs(r \<mapsto> spec)) rels"
  by (fastforce simp: relations_inv_def)

text \<open>Along recorded edges authority only narrows.\<close>

lemma relations_chain_narrows:
  assumes inv: "relations_inv runs rels"
    and path: "(c, a) \<in> (parent_edges rels)\<^sup>*"
    and e: "map_of rels c = Some e" and d: "map_of rels a = Some d"
  shows "narrows (er_child_authority e) (er_child_authority d)"
  using path e
proof (induction arbitrary: e rule: converse_rtrancl_induct)
  case base
  with d show ?case by simp
next
  case (step x y)
  from step.hyps(1) step.prems have y: "y = er_parent e" by (auto simp: parent_edges_iff)
  obtain f where f: "map_of rels y = Some f"
    using step.hyps(2) d by (cases rule: converse_rtranclE) (auto simp: parent_edges_iff)
  have "narrows (er_child_authority f) (er_child_authority d)" by (rule step.IH [OF f])
  moreover have "er_child_authority f = er_parent_authority e"
    using inv step.prems f y by (auto simp: relations_inv_def)
  moreover have "narrows (er_child_authority e) (er_parent_authority e)"
    using inv step.prems relation_validate_narrows by (fastforce simp: relations_inv_def)
  ultimately show ?case using narrows_trans by metis
qed

end
