(* ===== verification/Store_Interface.thy ===== *)
theory Store_Interface imports Execution begin

section \<open>The store traits (src/records.rs, src/execution.rs)\<close>

text \<open>
  A Rust trait is a record of its operations, so that code generic in a store is a
  definition over such a record, and a store is a value of it. Operations that mutate
  return the new state; reads return a result only. \<open>list\<close> returns the state as well,
  since indexing under the lock can panic and poison it.

  The locale \<open>record_store\<close> is the contract of \<open>RecordStore\<close> as its clients use
  it, \<open>execution_store\<close> extends it for \<open>ExecutionStore\<close>. Lemmas proved here once
  hold for every store that interprets them.
\<close>

record ('v, 's) record_store_ops =
  op_create_session :: "session_id \<Rightarrow> 's \<Rightarrow> (unit, store_error) result \<times> 's"
  op_register_run :: "spec \<Rightarrow> 's \<Rightarrow> (bool, store_error) result \<times> 's"
  op_insert :: "'v draft \<Rightarrow> 's \<Rightarrow> ('v snapshot, store_error) result \<times> 's"
  op_checkpoint :: "record_id \<Rightarrow> u64 \<Rightarrow> 'v payload \<Rightarrow> record_state \<Rightarrow> 's \<Rightarrow>
    ('v snapshot, store_error) result \<times> 's"
  op_resolve :: "record_id \<Rightarrow> u64 \<Rightarrow> 'v draft \<Rightarrow> 's \<Rightarrow> ('v snapshot, store_error) result \<times> 's"
  op_get :: "record_id \<Rightarrow> 's \<Rightarrow> ('v snapshot, store_error) result"
  op_get_run :: "run_id \<Rightarrow> 's \<Rightarrow> (spec, store_error) result"
  op_list :: "session_id \<Rightarrow> u64 option \<Rightarrow> nat \<Rightarrow> 's \<Rightarrow>
    ('v snapshot list, store_error) result \<times> 's"

record 's execution_store_ops =
  op_link_execution :: "execution_relation \<Rightarrow> 's \<Rightarrow> (execution_relation, store_error) result \<times> 's"
  op_execution_parent :: "run_id \<Rightarrow> 's \<Rightarrow> (execution_relation option, store_error) result"
  op_execution_children :: "run_id \<Rightarrow> 's \<Rightarrow> (execution_relation list, store_error) result"

text \<open>The page cursor: \<open>after.checked_add(1)\<close> as a \<open>usize\<close>, saturating.\<close>

definition list_start :: "u64 option \<Rightarrow> nat" where
  "list_start after =
     (case after of
        None \<Rightarrow> 0
      | Some cursor \<Rightarrow> (case checked_add cursor 1 of Some n \<Rightarrow> unat n | None \<Rightarrow> 2 ^ 64 - 1))"

lemma list_start_Some: "list_start (Some c) = (if c = u64_max then 2 ^ 64 - 1 else Suc (unat c))"
proof (cases "c = u64_max")
  case False
  then have "checked_add c 1 = Some (c + 1)" by (simp add: checked_add_1)
  then show ?thesis using checked_add_Some [of c 1 "c + 1"] False by (simp add: list_start_def)
qed (simp add: list_start_def checked_add_1)

text \<open>One mutation of a store, whichever it is.\<close>

datatype 'v store_op =
  CreateSession session_id
| RegisterRun spec
| Insert "'v draft"
| Checkpoint record_id u64 "'v payload" record_state
| Resolve record_id u64 "'v draft"

definition store_exec :: "('v, 's) record_store_ops \<Rightarrow> 'v store_op \<Rightarrow> 's \<Rightarrow> 's" where
  "store_exec S oper s =
     (case oper of
        CreateSession i \<Rightarrow> snd (op_create_session S i s)
      | RegisterRun spec \<Rightarrow> snd (op_register_run S spec s)
      | Insert d \<Rightarrow> snd (op_insert S d s)
      | Checkpoint i e p n \<Rightarrow> snd (op_checkpoint S i e p n s)
      | Resolve i e d \<Rightarrow> snd (op_resolve S i e d s))"

inductive store_steps :: "('v, 's) record_store_ops \<Rightarrow> 's \<Rightarrow> 's \<Rightarrow> bool" for S where
  refl: "store_steps S s s"
| step: "store_steps S s t \<Longrightarrow> store_steps S s (store_exec S oper t)"

text \<open>How the stored snapshot of a record may develop.\<close>

definition snapshot_evolves :: "'v snapshot \<Rightarrow> 'v snapshot \<Rightarrow> bool" where
  "snapshot_evolves x y \<longleftrightarrow>
     same_identity x y \<and> unat (sn_revision x) \<le> unat (sn_revision y) \<and>
     (sn_revision x = sn_revision y \<longrightarrow> x = y) \<and>
     (is_final (sn_state x) \<longrightarrow> x = y)"

lemma snapshot_evolves_refl [simp]: "snapshot_evolves x x"
  by (simp add: snapshot_evolves_def)

lemma snapshot_evolves_trans:
  assumes xy: "snapshot_evolves x y" and yz: "snapshot_evolves y z"
  shows "snapshot_evolves x z"
proof -
  have "same_identity x z"
    using xy yz same_identity_trans unfolding snapshot_evolves_def by blast
  moreover have le: "unat (sn_revision x) \<le> unat (sn_revision y)" "unat (sn_revision y) \<le> unat (sn_revision z)"
    using xy yz unfolding snapshot_evolves_def by blast+
  moreover have "x = z" if "sn_revision x = sn_revision z"
  proof -
    have "unat (sn_revision x) = unat (sn_revision y)" "unat (sn_revision y) = unat (sn_revision z)"
      using le that by simp_all
    then have "sn_revision x = sn_revision y" "sn_revision y = sn_revision z"
      by (simp_all only: word_unat_eq_iff)
    then show ?thesis using xy yz unfolding snapshot_evolves_def by blast
  qed
  moreover have "x = z" if "is_final (sn_state x)"
  proof -
    have "x = y" using xy that unfolding snapshot_evolves_def by blast
    moreover have "y = z" using yz that calculation unfolding snapshot_evolves_def by blast
    ultimately show ?thesis by simp
  qed
  ultimately show ?thesis unfolding snapshot_evolves_def using order_trans by blast
qed

lemma snapshot_evolves_checkpoint:
  "rules_checkpoint cur e p n = Ok new \<Longrightarrow> snapshot_evolves cur new"
  using rules_checkpoint_identity [of cur e p n new] rules_checkpoint_final [of cur e p n new]
    rules_checkpoint_revision [of cur e p n new]
  by (auto simp: snapshot_evolves_def)

lemma snapshot_evolves_resolve:
  "resolve_request orig e d = Ok new \<Longrightarrow> snapshot_evolves orig new"
  using resolve_request_identity [of orig e d new]
  by (auto simp: snapshot_evolves_def resolve_request_Ok_iff is_final_def
      dest: checked_add_Some)

text \<open>
  What a client of a record store relies on: the invariant is kept, and every read after
  an operation is determined by the read before it.
\<close>

locale record_store =
  fixes S :: "('v, 's) record_store_ops"
    and inv :: "'s \<Rightarrow> bool"
  assumes inv_exec: "inv s \<Longrightarrow> inv (store_exec S oper s)"
    and get_create: "op_get S i (snd (op_create_session S sess s)) = op_get S i s"
    and get_register: "op_get S i (snd (op_register_run S spec s)) = op_get S i s"
    and insert_known: "inv s \<Longrightarrow> op_get S (d_id d) s = Ok x \<Longrightarrow>
          op_get S i (snd (op_insert S d s)) = op_get S i s"
    and insert_frame: "inv s \<Longrightarrow> i \<noteq> d_id d \<Longrightarrow> op_get S i (snd (op_insert S d s)) = op_get S i s"
    and insert_Ok: "inv s \<Longrightarrow> op_insert S d s = (Ok x, s') \<Longrightarrow>
          op_get S (d_id d) s' = Ok x \<and> r_id (sn_record x) = d_id d"
    and insert_fresh: "inv s \<Longrightarrow> op_insert S d s = (Ok x, s') \<Longrightarrow>
          op_get S (d_id d) s = Err MissingRecord \<Longrightarrow> same_draft x d \<and> sn_revision x = 0"
    and insert_Err: "inv s \<Longrightarrow> op_insert S d s = (Err err, s') \<Longrightarrow> s' = s"
    and checkpoint_Ok: "inv s \<Longrightarrow> op_checkpoint S i e p n s = (Ok x, s') \<Longrightarrow>
          (\<exists>cur. op_get S i s = Ok cur \<and> rules_checkpoint cur e p n = Ok x) \<and>
          op_get S i s' = Ok x"
    and checkpoint_frame: "inv s \<Longrightarrow> j \<noteq> i \<Longrightarrow>
          op_get S j (snd (op_checkpoint S i e p n s)) = op_get S j s"
    and checkpoint_Err: "inv s \<Longrightarrow> op_checkpoint S i e p n s = (Err err, s') \<Longrightarrow> s' = s"
    and resolve_known: "inv s \<Longrightarrow> op_get S (d_id d) s = Ok x \<Longrightarrow>
          op_get S i (snd (op_resolve S q e d s)) = op_get S i s"
    and resolve_request_read: "inv s \<Longrightarrow> op_get S q s = Ok x \<Longrightarrow>
          \<exists>y. op_get S q (snd (op_resolve S q e d s)) = Ok y \<and>
              (y = x \<or> resolve_request x e d = Ok y)"
    and resolve_frame: "inv s \<Longrightarrow> i \<noteq> q \<Longrightarrow> i \<noteq> d_id d \<Longrightarrow>
          op_get S i (snd (op_resolve S q e d s)) = op_get S i s"
    and resolve_Ok: "inv s \<Longrightarrow> op_resolve S q e d s = (Ok x, s') \<Longrightarrow>
          op_get S (d_id d) s' = Ok x \<and> same_draft x d \<and> is_response (d_payload d) \<and>
          (\<exists>y. op_get S q s' = Ok y \<and> sn_state y = Complete)"
    and resolve_Err: "inv s \<Longrightarrow> op_resolve S q e d s = (Err err, s') \<Longrightarrow> s' = s"
    and no_panic: "inv s \<Longrightarrow> fst (op_insert S d s) \<noteq> Panic \<and>
          fst (op_checkpoint S i e p n s) \<noteq> Panic \<and> fst (op_resolve S q e d s) \<noteq> Panic"
begin

lemma evolves_exec:
  assumes inv: "inv s" and x: "op_get S i s = Ok x"
  shows "\<exists>y. op_get S i (store_exec S oper s) = Ok y \<and> snapshot_evolves x y"
proof (cases oper)
  case (CreateSession j)
  with x get_create show ?thesis by (auto simp: store_exec_def)
next
  case (RegisterRun spec)
  with x get_register show ?thesis by (auto simp: store_exec_def)
next
  case (Insert d)
  then show ?thesis
    using x insert_known [OF inv] insert_frame [OF inv]
    by (cases "i = d_id d") (auto simp: store_exec_def)
next
  case (Checkpoint j e p n)
  show ?thesis
  proof (cases "i = j")
    case True
    obtain res s' where app: "op_checkpoint S j e p n s = (res, s')" by force
    show ?thesis
    proof (cases res)
      case (Ok y)
      with app checkpoint_Ok [OF inv, of j e p n y s'] x True
      have "rules_checkpoint x e p n = Ok y" "op_get S i s' = Ok y" by auto
      with Checkpoint app show ?thesis
        using snapshot_evolves_checkpoint by (auto simp: store_exec_def)
    next
      case (Err err)
      with app checkpoint_Err [OF inv] have "s' = s" by blast
      with Checkpoint app x show ?thesis by (simp add: store_exec_def)
    next
      case Panic
      with app no_panic [OF inv, of _ j e p n] show ?thesis by simp
    qed
  next
    case False
    with Checkpoint x checkpoint_frame [OF inv] show ?thesis by (simp add: store_exec_def)
  qed
next
  case (Resolve q e d)
  consider "i = q" | "i \<noteq> q" "i = d_id d" | "i \<noteq> q" "i \<noteq> d_id d" by blast
  then show ?thesis
  proof cases
    case 1
    with Resolve resolve_request_read [OF inv, of q x e d] x show ?thesis
      using snapshot_evolves_resolve by (auto simp: store_exec_def)
  next
    case 2
    with Resolve x resolve_known [OF inv] show ?thesis by (simp add: store_exec_def)
  next
    case 3
    with Resolve x resolve_frame [OF inv] show ?thesis by (simp add: store_exec_def)
  qed
qed

lemma evolves_steps:
  assumes "store_steps S s t" and "inv s" and "op_get S i s = Ok x"
  shows "inv t \<and> (\<exists>y. op_get S i t = Ok y \<and> snapshot_evolves x y)"
  using assms
proof (induction rule: store_steps.induct)
  case (refl s)
  then show ?case by auto
next
  case (step s t oper)
  then obtain y where y: "inv t" "op_get S i t = Ok y" "snapshot_evolves x y" by blast
  from evolves_exec [OF y(1,2)] obtain z where
    "op_get S i (store_exec S oper t) = Ok z" "snapshot_evolves y z" by blast
  with y(3) inv_exec [OF y(1)] show ?case using snapshot_evolves_trans by blast
qed

lemma finalized_immutable:
  assumes "store_steps S s t" and "inv s" and "op_get S i s = Ok x" and "is_final (sn_state x)"
  shows "op_get S i t = Ok x"
  using evolves_steps [OF assms(1-3)] assms(4) by (auto simp: snapshot_evolves_def)

end

text \<open>A store that also keeps execution relations: the chain law its clients rely on.\<close>

locale execution_store = record_store S inv
  for S :: "('v, 's) record_store_ops" and inv :: "'s \<Rightarrow> bool" +
  fixes E :: "'s execution_store_ops"
  assumes parent_Ok: "inv s \<Longrightarrow> op_execution_parent E c s = Ok (Some e) \<Longrightarrow>
        er_child e = c \<and>
        (\<exists>ps cs. op_get_run S (er_parent e) s = Ok ps \<and> op_get_run S c s = Ok cs \<and>
           relation_validate e ps cs = Ok ())"
    and link_inv: "inv s \<Longrightarrow> inv (snd (op_link_execution E e s))"
    and link_Ok: "inv s \<Longrightarrow> op_link_execution E e s = (Ok x, s') \<Longrightarrow>
        x = e \<and> op_execution_parent E (er_child e) s' = Ok (Some e)"
    and link_once: "inv s \<Longrightarrow> op_execution_parent E c s = Ok (Some x) \<Longrightarrow>
        op_execution_parent E c (snd (op_link_execution E e s)) = Ok (Some x)"
begin

lemma link_narrows:
  assumes "inv s" and "op_link_execution E e s = (Ok x, s')"
  shows "narrows (er_child_authority e) (er_parent_authority e)"
proof -
  from link_Ok [OF assms] have "op_execution_parent E (er_child e) s' = Ok (Some e)" by simp
  moreover have "inv s'" using link_inv [OF assms(1), of e] assms(2) by simp
  ultimately show ?thesis using parent_Ok relation_validate_narrows by blast
qed

lemma relink_conflict:
  assumes "inv s" and "op_link_execution E e s = (Ok x, s')"
    and "er_child f = er_child e" and "f \<noteq> e"
  shows "fst (op_link_execution E f s') \<noteq> Ok y"
proof
  assume ok: "fst (op_link_execution E f s') = Ok y"
  have inv': "inv s'" using link_inv [OF assms(1), of e] assms(2) by simp
  obtain s'' where app: "op_link_execution E f s' = (Ok y, s'')"
    using ok by (cases "op_link_execution E f s'") auto
  from link_Ok [OF assms(1,2)] have "op_execution_parent E (er_child e) s' = Ok (Some e)" by simp
  from link_once [OF inv' this, of f] app
  have "op_execution_parent E (er_child e) s'' = Ok (Some e)" by simp
  moreover from link_Ok [OF inv' app] assms(3)
  have "op_execution_parent E (er_child e) s'' = Ok (Some f)" by simp
  ultimately show False using assms(4) by simp
qed

end

end
