(* ===== verification/Memory_Store.thy ===== *)
theory Memory_Store imports Store_Interface begin

section \<open>The in-memory store (src/records/memory.rs)\<close>

text \<open>
  The state behind the mutex with its six maps, and every operation of
  \<open>RecordStore\<close>, \<open>ContinuationStore\<close> and \<open>ExecutionStore\<close> for
  \<open>MemoryStore\<close>. \<open>ms_poisoned\<close> is the mutex's poison flag: a panic under the
  lock sets it, and every later operation answers \<open>Poisoned\<close>.
\<close>

record 'v entry =
  en_initial :: "'v snapshot"
  en_current :: "'v snapshot"

record 'v memory_state =
  ms_poisoned :: bool
  ms_relations :: relations
  ms_continuations :: "'v registry"
  ms_sessions :: "session_id \<rightharpoonup> record_id list"
  ms_runs :: "run_id \<rightharpoonup> spec"
  ms_records :: "record_id \<rightharpoonup> 'v entry"
  ms_decisions :: "record_id \<rightharpoonup> record_id"

definition memory_default :: "'v memory_state" where
  "memory_default =
     \<lparr>ms_poisoned = False, ms_relations = [], ms_continuations = empty_registry,
      ms_sessions = Map.empty, ms_runs = Map.empty, ms_records = Map.empty,
      ms_decisions = Map.empty\<rparr>"

text \<open>\<open>lock().map_err(|_| Poisoned)\<close> around a body, and around a read.\<close>

definition with_lock ::
  "('v memory_state \<Rightarrow> ('a, store_error) result \<times> 'v memory_state) \<Rightarrow>
   'v memory_state \<Rightarrow> ('a, store_error) result \<times> 'v memory_state" where
  "with_lock body s =
     (if ms_poisoned s then (Err Poisoned, s)
      else (case body s of
              (Panic, s') \<Rightarrow> (Panic, s'\<lparr>ms_poisoned := True\<rparr>)
            | (Ok x, s') \<Rightarrow> (Ok x, s')
            | (Err e, s') \<Rightarrow> (Err e, s')))"

definition read_lock ::
  "('v memory_state \<Rightarrow> ('a, store_error) result) \<Rightarrow> 'v memory_state \<Rightarrow> ('a, store_error) result" where
  "read_lock body s = (if ms_poisoned s then Err Poisoned else body s)"

subsection \<open>Execution relations\<close>

text \<open>The loop over the child's context records.\<close>

fun context_in_session ::
  "(record_id \<rightharpoonup> 'v entry) \<Rightarrow> session_id \<Rightarrow> record_id list \<Rightarrow> (unit, store_error) result" where
  "context_in_session recs sess [] = Ok ()"
| "context_in_session recs sess (i # is) =
     (case recs i of
        None \<Rightarrow> Err MissingRecord
      | Some en \<Rightarrow>
          if r_session (sn_record (en_current en)) \<noteq> sess then Err WrongSession
          else context_in_session recs sess is)"

definition memory_link_execution ::
  "execution_relation \<Rightarrow> 'v memory_state \<Rightarrow> (execution_relation, store_error) result \<times> 'v memory_state" where
  "memory_link_execution e = with_lock (\<lambda>s.
     (case map_of (ms_relations s) (er_child e) of
        Some existing \<Rightarrow> (if existing = e then Ok existing else Err ExecutionRelationConflict, s)
      | None \<Rightarrow>
        (case ms_runs s (er_parent e) of
           None \<Rightarrow> (Err MissingRun, s)
         | Some parent \<Rightarrow>
        (case ms_runs s (er_child e) of
           None \<Rightarrow> (Err MissingRun, s)
         | Some child \<Rightarrow>
        (case relation_validate e parent child of
           Err err \<Rightarrow> (Err err, s)
         | Panic \<Rightarrow> (Panic, s)
         | Ok _ \<Rightarrow>
          if (case map_of (ms_relations s) (er_parent e) of
                None \<Rightarrow> False
              | Some edge \<Rightarrow> er_child_authority edge \<noteq> er_parent_authority e) \<or>
             (\<exists>edge \<in> set (map snd (ms_relations s)).
                er_parent edge = er_child e \<and> er_parent_authority edge \<noteq> er_child_authority e)
          then (Err InvalidExecutionRelation, s)
          else
            (case context_in_session (ms_records s) (rs_session child)
                    (cm_records (rs_context child)) of
               Err err \<Rightarrow> (Err err, s)
             | Panic \<Rightarrow> (Panic, s)
             | Ok _ \<Rightarrow>
                 if \<not> ancestors_clear (ms_relations s) (er_child e) (er_parent e) []
                 then (Err ExecutionCycle, s)
                 else (Ok e, s\<lparr>ms_relations := put_relation e (ms_relations s)\<rparr>)))))))"

definition memory_execution_parent ::
  "run_id \<Rightarrow> 'v memory_state \<Rightarrow> (execution_relation option, store_error) result" where
  "memory_execution_parent c = read_lock (\<lambda>s. Ok (map_of (ms_relations s) c))"

definition memory_execution_children ::
  "run_id \<Rightarrow> 'v memory_state \<Rightarrow> (execution_relation list, store_error) result" where
  "memory_execution_children p = read_lock (\<lambda>s.
     Ok (sort_key (\<lambda>e. as_str (er_child e))
           (filter (\<lambda>e. er_parent e = p) (map snd (ms_relations s)))))"

subsection \<open>Continuations\<close>

definition memory_save_continuation ::
  "'v continuation \<Rightarrow> 'v memory_state \<Rightarrow> ('v continuation_record, store_error) result \<times> 'v memory_state" where
  "memory_save_continuation c = with_lock (\<lambda>s.
     if ms_sessions s (k_session c) = None then (Err MissingSession, s)
     else (case registry_save c (ms_continuations s) of
             (res, g) \<Rightarrow> (res, s\<lparr>ms_continuations := g\<rparr>)))"

definition memory_get_continuation ::
  "continuation_id \<Rightarrow> 'v memory_state \<Rightarrow> ('v continuation_record, store_error) result" where
  "memory_get_continuation i = read_lock (\<lambda>s. registry_get i (ms_continuations s))"

definition memory_claim_continuation ::
  "continuation_id \<Rightarrow> 'v memory_state \<Rightarrow> ('v continuation_record, store_error) result \<times> 'v memory_state" where
  "memory_claim_continuation i = with_lock (\<lambda>s.
     (case registry_claim i (ms_continuations s) of
        (res, g) \<Rightarrow> (res, s\<lparr>ms_continuations := g\<rparr>)))"

subsection \<open>Records\<close>

text \<open>The snapshot a draft becomes at a sequence.\<close>

definition snapshot_of :: "'v draft \<Rightarrow> u64 \<Rightarrow> 'v snapshot" where
  "snapshot_of d seq =
     \<lparr>sn_record =
        \<lparr>r_id = d_id d, r_session = d_session d, r_run = d_run d, r_sequence = seq,
         r_actor = d_actor d, r_reply = d_reply d, r_payload = d_payload d\<rparr>,
      sn_source = d_source d, sn_revision = 0, sn_state = d_state d\<rparr>"

definition run_belongs ::
  "(run_id \<rightharpoonup> spec) \<Rightarrow> session_id \<Rightarrow> run_id option \<Rightarrow> (unit, store_error) result" where
  "run_belongs runs sess r =
     (case r of
        None \<Rightarrow> Ok ()
      | Some i \<Rightarrow>
          (case runs i of
             None \<Rightarrow> Err MissingRun
           | Some run \<Rightarrow> if rs_session run \<noteq> sess then Err WrongSession else Ok ()))"

definition prepare :: "'v memory_state \<Rightarrow> 'v draft \<Rightarrow> ('v snapshot, store_error) result" where
  "prepare s d =
     rbind (validate (d_payload d) (d_state d)) (\<lambda>_.
     rbind (ok_or MissingSession (ms_sessions s (d_session d))) (\<lambda>sess.
     rbind (run_belongs (ms_runs s) (d_session d) (d_run d)) (\<lambda>_.
     rbind (case d_reply d of
              None \<Rightarrow> Ok ()
            | Some reply \<Rightarrow> if ms_records s reply = None then Err MissingRecord else Ok ()) (\<lambda>_.
     rbind (ok_or SequenceExhausted (u64_of_usize (length sess))) (\<lambda>seq.
       Ok (snapshot_of d seq))))))"

definition commit :: "'v snapshot \<Rightarrow> 'v memory_state \<Rightarrow> (unit, store_error) result \<times> 'v memory_state" where
  "commit x s =
     (case ms_sessions s (r_session (sn_record x)) of
        None \<Rightarrow> (Panic, s)
      | Some ids \<Rightarrow>
          (Ok (), s\<lparr>ms_sessions := (ms_sessions s)(r_session (sn_record x) \<mapsto> ids @ [r_id (sn_record x)]),
                    ms_records := (ms_records s)(r_id (sn_record x) \<mapsto>
                      \<lparr>en_initial = x, en_current = x\<rparr>)\<rparr>))"

definition memory_create_session ::
  "session_id \<Rightarrow> 'v memory_state \<Rightarrow> (unit, store_error) result \<times> 'v memory_state" where
  "memory_create_session i = with_lock (\<lambda>s.
     (Ok (), (case ms_sessions s i of
                Some _ \<Rightarrow> s
              | None \<Rightarrow> s\<lparr>ms_sessions := (ms_sessions s)(i \<mapsto> [])\<rparr>)))"

text \<open>The claimed continuation a run names, and its selected records.\<close>

definition continuation_usable ::
  "spec \<Rightarrow> 'v continuation_record \<Rightarrow> bool" where
  "continuation_usable spec saved \<longleftrightarrow>
     cr_state saved = Claimed \<and> cr_latest saved \<and>
     k_session (cr_continuation saved) = rs_session spec \<and>
     k_slot (cr_continuation saved) = rs_slot spec"

fun context_final ::
  "(record_id \<rightharpoonup> 'v entry) \<Rightarrow> record_id list \<Rightarrow> (unit, store_error) result" where
  "context_final recs [] = Ok ()"
| "context_final recs (i # is) =
     (case recs i of
        None \<Rightarrow> Err MissingRecord
      | Some en \<Rightarrow>
          if \<not> is_final (sn_state (en_current en)) then Err OpenContextRecord
          else context_final recs is)"

definition memory_register_run ::
  "spec \<Rightarrow> 'v memory_state \<Rightarrow> (bool, store_error) result \<times> 'v memory_state" where
  "memory_register_run spec = with_lock (\<lambda>s.
     (case ms_runs s (rs_id spec) of
        Some existing \<Rightarrow> (if existing = spec then Ok False else Err IdentityConflict, s)
      | None \<Rightarrow>
          if ms_sessions s (rs_session spec) = None then (Err MissingSession, s)
          else
            (case (case rs_continuation spec of
                     None \<Rightarrow> Ok ()
                   | Some i \<Rightarrow> rbind (registry_get i (ms_continuations s)) (\<lambda>saved.
                       if continuation_usable spec saved then Ok () else Err InvalidContinuation)) of
               Err e \<Rightarrow> (Err e, s)
             | Panic \<Rightarrow> (Panic, s)
             | Ok _ \<Rightarrow>
                 (case context_final (ms_records s) (cm_records (rs_context spec)) of
                    Err e \<Rightarrow> (Err e, s)
                  | Panic \<Rightarrow> (Panic, s)
                  | Ok _ \<Rightarrow> (Ok True, s\<lparr>ms_runs := (ms_runs s)(rs_id spec \<mapsto> spec)\<rparr>)))))"

text \<open>The common tail of insertion and resolution.\<close>

definition commit_ok ::
  "'v snapshot \<Rightarrow> 'v memory_state \<Rightarrow> ('v snapshot, store_error) result \<times> 'v memory_state" where
  "commit_ok x s =
     (case commit x s of
        (Ok _, s') \<Rightarrow> (Ok x, s')
      | (Err e, s') \<Rightarrow> (Err e, s')
      | (Panic, s') \<Rightarrow> (Panic, s'))"

definition memory_insert ::
  "'v draft \<Rightarrow> 'v memory_state \<Rightarrow> ('v snapshot, store_error) result \<times> 'v memory_state" where
  "memory_insert d = with_lock (\<lambda>s.
     if is_response (d_payload d) then (Err InvalidDecision, s)
     else
       (case ms_records s (d_id d) of
          Some en \<Rightarrow>
            (if same_draft (en_initial en) d then Ok (en_current en) else Err IdentityConflict, s)
        | None \<Rightarrow>
            if is_request (d_payload d) \<and> d_state d \<noteq> Open then (Err InvalidPayload, s)
            else
              (case prepare s d of
                 Err e \<Rightarrow> (Err e, s)
               | Panic \<Rightarrow> (Panic, s)
               | Ok x \<Rightarrow> commit_ok x s)))"

definition memory_checkpoint ::
  "record_id \<Rightarrow> u64 \<Rightarrow> 'v payload \<Rightarrow> record_state \<Rightarrow> 'v memory_state \<Rightarrow>
   ('v snapshot, store_error) result \<times> 'v memory_state" where
  "memory_checkpoint i expected p next = with_lock (\<lambda>s.
     (case ms_records s i of
        None \<Rightarrow> (Err MissingRecord, s)
      | Some en \<Rightarrow>
          (case rules_checkpoint (en_current en) expected p next of
             Err e \<Rightarrow> (Err e, s)
           | Panic \<Rightarrow> (Panic, s)
           | Ok x \<Rightarrow> (Ok x, s\<lparr>ms_records := (ms_records s)(i \<mapsto> en\<lparr>en_current := x\<rparr>)\<rparr>))))"

definition memory_resolve ::
  "record_id \<Rightarrow> u64 \<Rightarrow> 'v draft \<Rightarrow> 'v memory_state \<Rightarrow>
   ('v snapshot, store_error) result \<times> 'v memory_state" where
  "memory_resolve request expected d = with_lock (\<lambda>s.
     (case ms_decisions s request of
        Some existing \<Rightarrow>
          (case ms_records s existing of
             None \<Rightarrow> (Panic, s)
           | Some en \<Rightarrow>
               (if same_draft (en_initial en) d then Ok (en_current en) else Err AlreadyResolved, s))
      | None \<Rightarrow>
          if ms_records s (d_id d) \<noteq> None then (Err IdentityConflict, s)
          else
            (case ms_records s request of
               None \<Rightarrow> (Err MissingRecord, s)
             | Some en \<Rightarrow>
                 (case resolve_request (en_current en) expected d of
                    Err e \<Rightarrow> (Err e, s)
                  | Panic \<Rightarrow> (Panic, s)
                  | Ok resolved \<Rightarrow>
                      (case prepare s d of
                         Err e \<Rightarrow> (Err e, s)
                       | Panic \<Rightarrow> (Panic, s)
                       | Ok x \<Rightarrow>
                           commit_ok x
                             (s\<lparr>ms_decisions := (ms_decisions s)(request \<mapsto> r_id (sn_record x)),
                               ms_records := (ms_records s)(request \<mapsto> en\<lparr>en_current := resolved\<rparr>)\<rparr>))))))"

definition memory_get :: "record_id \<Rightarrow> 'v memory_state \<Rightarrow> ('v snapshot, store_error) result" where
  "memory_get i = read_lock (\<lambda>s. ok_or MissingRecord (map_option en_current (ms_records s i)))"

definition memory_get_run :: "run_id \<Rightarrow> 'v memory_state \<Rightarrow> (spec, store_error) result" where
  "memory_get_run i = read_lock (\<lambda>s. ok_or MissingRun (ms_runs s i))"

text \<open>\<open>state.records[id]\<close> panics on an absent key.\<close>

fun current_of ::
  "(record_id \<rightharpoonup> 'v entry) \<Rightarrow> record_id list \<Rightarrow> ('v snapshot list, store_error) result" where
  "current_of recs [] = Ok []"
| "current_of recs (i # is) =
     (case recs i of
        None \<Rightarrow> Panic
      | Some en \<Rightarrow> rbind (current_of recs is) (\<lambda>xs. Ok (en_current en # xs)))"

definition memory_list ::
  "session_id \<Rightarrow> u64 option \<Rightarrow> nat \<Rightarrow> 'v memory_state \<Rightarrow>
   ('v snapshot list, store_error) result \<times> 'v memory_state" where
  "memory_list sess after limit s =
     (if \<not> (1 \<le> limit \<and> limit \<le> 1000) then (Err InvalidPageSize, s)
      else with_lock (\<lambda>s.
        (case ms_sessions s sess of
           None \<Rightarrow> (Err MissingSession, s)
         | Some ids \<Rightarrow>
             (current_of (ms_records s)
                (take limit (if list_start after \<le> length ids then drop (list_start after) ids else [])),
              s))) s)"

definition memory_store :: "('v, 'v memory_state) record_store_ops" where
  "memory_store =
     \<lparr>op_create_session = memory_create_session, op_register_run = memory_register_run,
      op_insert = memory_insert, op_checkpoint = memory_checkpoint,
      op_resolve = memory_resolve, op_get = memory_get, op_get_run = memory_get_run,
      op_list = memory_list\<rparr>"

definition memory_execution_store :: "'v memory_state execution_store_ops" where
  "memory_execution_store =
     \<lparr>op_link_execution = memory_link_execution,
      op_execution_parent = memory_execution_parent,
      op_execution_children = memory_execution_children\<rparr>"

end
