(* ===== verification/Memory_Proofs.thy ===== *)
theory Memory_Proofs imports Memory_Store begin

section \<open>The in-memory store keeps the contracts\<close>

text \<open>
  The representation invariant of \<open>memory_state\<close>, its preservation by every
  operation, and the interpretations of \<open>record_store\<close>, \<open>execution_store\<close> and
  \<open>continuation_store\<close> on the model of \<open>MemoryStore\<close>.
\<close>

subsection \<open>The invariant\<close>

definition entry_ok :: "record_id \<Rightarrow> 'v entry \<Rightarrow> bool" where
  "entry_ok i en \<longleftrightarrow>
     r_id (sn_record (en_current en)) = i \<and>
     snapshot_evolves (en_initial en) (en_current en) \<and> sn_revision (en_initial en) = 0 \<and>
     payload_ok (r_payload (sn_record (en_initial en))) (sn_state (en_initial en)) \<and>
     payload_ok (r_payload (sn_record (en_current en))) (sn_state (en_current en)) \<and>
     (is_request (r_payload (sn_record (en_initial en))) \<longrightarrow> sn_state (en_initial en) = Open)"

definition sessions_ok ::
  "(session_id \<rightharpoonup> record_id list) \<Rightarrow> (record_id \<rightharpoonup> 'v entry) \<Rightarrow> bool" where
  "sessions_ok sessions records \<longleftrightarrow>
     (\<forall>sess ids. sessions sess = Some ids \<longrightarrow>
        length ids \<le> 2 ^ 64 \<and>
        (\<forall>k < length ids. \<exists>en. records (ids ! k) = Some en \<and>
           r_session (sn_record (en_current en)) = sess \<and>
           unat (r_sequence (sn_record (en_current en))) = k))"

definition records_ok ::
  "(session_id \<rightharpoonup> record_id list) \<Rightarrow> (run_id \<rightharpoonup> spec) \<Rightarrow> (record_id \<rightharpoonup> 'v entry) \<Rightarrow> bool" where
  "records_ok sessions runs records \<longleftrightarrow>
     (\<forall>i en. records i = Some en \<longrightarrow>
        entry_ok i en \<and>
        (\<exists>ids. sessions (r_session (sn_record (en_current en))) = Some ids \<and>
           unat (r_sequence (sn_record (en_current en))) < length ids \<and>
           ids ! unat (r_sequence (sn_record (en_current en))) = i) \<and>
        (\<forall>r. r_run (sn_record (en_current en)) = Some r \<longrightarrow>
           (\<exists>spec. runs r = Some spec \<and> rs_session spec = r_session (sn_record (en_current en)))) \<and>
        (\<forall>p. r_reply (sn_record (en_current en)) = Some p \<longrightarrow> records p \<noteq> None))"

definition runs_ok ::
  "(session_id \<rightharpoonup> record_id list) \<Rightarrow> (run_id \<rightharpoonup> spec) \<Rightarrow> (record_id \<rightharpoonup> 'v entry) \<Rightarrow> bool" where
  "runs_ok sessions runs records \<longleftrightarrow>
     (\<forall>r spec. runs r = Some spec \<longrightarrow>
        rs_id spec = r \<and> sessions (rs_session spec) \<noteq> None \<and>
        (\<forall>i \<in> set (cm_records (rs_context spec)).
           \<exists>en. records i = Some en \<and> is_final (sn_state (en_current en))))"

definition conts_ok :: "(session_id \<rightharpoonup> record_id list) \<Rightarrow> 'v registry \<Rightarrow> bool" where
  "conts_ok sessions g \<longleftrightarrow>
     reg_inv g \<and>
     (\<forall>i r. reg_records g i = Some r \<longrightarrow> sessions (k_session (cr_continuation r)) \<noteq> None)"

definition core_inv :: "'v memory_state \<Rightarrow> bool" where
  "core_inv s \<longleftrightarrow>
     sessions_ok (ms_sessions s) (ms_records s) \<and>
     records_ok (ms_sessions s) (ms_runs s) (ms_records s) \<and>
     runs_ok (ms_sessions s) (ms_runs s) (ms_records s) \<and>
     conts_ok (ms_sessions s) (ms_continuations s) \<and>
     relations_inv (ms_runs s) (ms_relations s)"

text \<open>Decisions: one response per resolved request, and no other responses.\<close>

definition decisions_ok ::
  "(record_id \<rightharpoonup> 'v entry) \<Rightarrow> (record_id \<rightharpoonup> record_id) \<Rightarrow> bool" where
  "decisions_ok records decisions \<longleftrightarrow>
     (\<forall>q d. decisions q = Some d \<longrightarrow>
        (\<exists>eq ed. records q = Some eq \<and> records d = Some ed \<and>
           sn_state (en_current eq) = Complete \<and>
           response_fits (r_payload (sn_record (en_current eq))) (r_payload (sn_record (en_current ed))) \<and>
           r_reply (sn_record (en_current ed)) = Some q \<and>
           r_session (sn_record (en_current ed)) = r_session (sn_record (en_current eq)) \<and>
           r_run (sn_record (en_current ed)) = r_run (sn_record (en_current eq)))) \<and>
     (\<forall>d ed. records d = Some ed \<longrightarrow> is_response (r_payload (sn_record (en_current ed))) \<longrightarrow>
        (\<exists>q. decisions q = Some d)) \<and>
     (\<forall>q eq. records q = Some eq \<longrightarrow> is_request (r_payload (sn_record (en_current eq))) \<longrightarrow>
        sn_state (en_current eq) = Complete \<longrightarrow> decisions q \<noteq> None)"

definition ms_inv :: "'v memory_state \<Rightarrow> bool" where
  "ms_inv s \<longleftrightarrow> core_inv s \<and> decisions_ok (ms_records s) (ms_decisions s)"

lemma ms_inv_default [inv_intros]: "ms_inv memory_default"
  by (simp add: ms_inv_def core_inv_def decisions_ok_def sessions_ok_def records_ok_def runs_ok_def
      conts_ok_def reg_inv_empty memory_default_def)
    (simp add: empty_registry_def)

subsection \<open>Changes of single maps\<close>

lemma core_inv_session:
  assumes "core_inv s" and "ms_sessions s i = None"
  shows "core_inv (s\<lparr>ms_sessions := (ms_sessions s)(i \<mapsto> [])\<rparr>)"
proof -
  have "sessions_ok ((ms_sessions s)(i \<mapsto> [])) (ms_records s)"
    using assms by (auto simp: core_inv_def sessions_ok_def)
  moreover have "records_ok ((ms_sessions s)(i \<mapsto> [])) (ms_runs s) (ms_records s)"
    using assms unfolding core_inv_def records_ok_def by (auto, metis option.distinct(1))
  moreover have "runs_ok ((ms_sessions s)(i \<mapsto> [])) (ms_runs s) (ms_records s)"
    using assms by (auto simp: core_inv_def runs_ok_def)
  moreover have "conts_ok ((ms_sessions s)(i \<mapsto> [])) (ms_continuations s)"
    using assms by (auto simp: core_inv_def conts_ok_def)
  ultimately show ?thesis using assms(1) by (simp add: core_inv_def)
qed

lemma records_ok_run:
  assumes ok: "records_ok sessions runs recs" and new: "runs k = None"
  shows "records_ok sessions (runs(k \<mapsto> spec)) recs"
  unfolding records_ok_def
proof (intro allI impI conjI)
  fix i en assume en: "recs i = Some en"
  note D = ok [unfolded records_ok_def, rule_format, OF en]
  show "entry_ok i en" using D by blast
  show "\<exists>ids. sessions (r_session (sn_record (en_current en))) = Some ids \<and>
      unat (r_sequence (sn_record (en_current en))) < length ids \<and>
      ids ! unat (r_sequence (sn_record (en_current en))) = i" using D by blast
  fix r
  show "recs r \<noteq> None" if "r_reply (sn_record (en_current en)) = Some r" for r using D that by blast
  assume "r_run (sn_record (en_current en)) = Some r"
  with D obtain sp where "runs r = Some sp" "rs_session sp = r_session (sn_record (en_current en))"
    by blast
  with new show "\<exists>sp. (runs(k \<mapsto> spec)) r = Some sp \<and> rs_session sp = r_session (sn_record (en_current en))"
    by auto
qed

lemma core_inv_run:
  assumes "core_inv s" and "ms_runs s (rs_id spec) = None" and "ms_sessions s (rs_session spec) \<noteq> None"
    and "\<forall>i \<in> set (cm_records (rs_context spec)).
           \<exists>en. ms_records s i = Some en \<and> is_final (sn_state (en_current en))"
  shows "core_inv (s\<lparr>ms_runs := (ms_runs s)(rs_id spec \<mapsto> spec)\<rparr>)"
proof -
  have "records_ok (ms_sessions s) ((ms_runs s)(rs_id spec \<mapsto> spec)) (ms_records s)"
    using assms(1,2) by (auto simp: core_inv_def intro: records_ok_run)
  moreover have "runs_ok (ms_sessions s) ((ms_runs s)(rs_id spec \<mapsto> spec)) (ms_records s)"
    using assms by (auto simp: core_inv_def runs_ok_def)
  ultimately show ?thesis
    using assms(1,2) by (simp add: core_inv_def relations_inv_runs)
qed

lemma core_inv_continuations:
  assumes "core_inv s" and "conts_ok (ms_sessions s) g"
  shows "core_inv (s\<lparr>ms_continuations := g\<rparr>)"
  using assms by (simp add: core_inv_def)

lemma core_inv_relations:
  assumes "core_inv s" and "relations_inv (ms_runs s) rels"
  shows "core_inv (s\<lparr>ms_relations := rels\<rparr>)"
  using assms by (simp add: core_inv_def)

lemma entry_ok_update:
  "entry_ok i en \<Longrightarrow> snapshot_evolves (en_current en) x \<Longrightarrow>
   payload_ok (r_payload (sn_record x)) (sn_state x) \<Longrightarrow> entry_ok i (en\<lparr>en_current := x\<rparr>)"
  using snapshot_evolves_trans [of "en_initial en" "en_current en" x]
  by (simp add: entry_ok_def) (simp add: snapshot_evolves_def same_identity_def)

text \<open>Replacing the current snapshot of one record by a later one.\<close>

lemma core_inv_update:
  assumes inv: "core_inv s" and en: "ms_records s i = Some en"
    and ev: "snapshot_evolves (en_current en) x"
    and ok: "payload_ok (r_payload (sn_record x)) (sn_state x)"
  shows "core_inv (s\<lparr>ms_records := (ms_records s)(i \<mapsto> en\<lparr>en_current := x\<rparr>)\<rparr>)" (is "core_inv ?t")
proof -
  have same: "r_id (sn_record x) = r_id (sn_record (en_current en))"
      "r_session (sn_record x) = r_session (sn_record (en_current en))"
      "r_run (sn_record x) = r_run (sn_record (en_current en))"
      "r_sequence (sn_record x) = r_sequence (sn_record (en_current en))"
      "r_reply (sn_record x) = r_reply (sn_record (en_current en))"
    using ev by (simp_all add: snapshot_evolves_def same_identity_def)
  have eno: "entry_ok i en" using inv en by (auto simp: core_inv_def records_ok_def)
  have S: "sessions_ok (ms_sessions s) (ms_records s)" using inv by (simp add: core_inv_def)
  have "sessions_ok (ms_sessions ?t) (ms_records ?t)"
    unfolding sessions_ok_def
  proof (intro allI impI conjI)
    fix sess ids assume "ms_sessions ?t sess = Some ids"
    then have l: "ms_sessions s sess = Some ids" by simp
    note D = S [unfolded sessions_ok_def, rule_format, OF l]
    show "length ids \<le> 2 ^ 64" using D by blast
    fix k assume "k < length ids"
    with D obtain f where f: "ms_records s (ids ! k) = Some f"
      "r_session (sn_record (en_current f)) = sess" "unat (r_sequence (sn_record (en_current f))) = k"
      by blast
    show "\<exists>f. ms_records ?t (ids ! k) = Some f \<and> r_session (sn_record (en_current f)) = sess \<and>
        unat (r_sequence (sn_record (en_current f))) = k"
      using f en same by (cases "ids ! k = i") auto
  qed
  moreover have "records_ok (ms_sessions ?t) (ms_runs ?t) (ms_records ?t)"
    unfolding records_ok_def
  proof (intro allI impI)
    fix j f assume "ms_records ?t j = Some f"
    then consider "j = i" "f = en\<lparr>en_current := x\<rparr>" | "j \<noteq> i" "ms_records s j = Some f"
      by (auto split: if_splits)
    then show "entry_ok j f \<and>
        (\<exists>ids. ms_sessions ?t (r_session (sn_record (en_current f))) = Some ids \<and>
           unat (r_sequence (sn_record (en_current f))) < length ids \<and>
           ids ! unat (r_sequence (sn_record (en_current f))) = j) \<and>
        (\<forall>r. r_run (sn_record (en_current f)) = Some r \<longrightarrow>
           (\<exists>spec. ms_runs ?t r = Some spec \<and> rs_session spec = r_session (sn_record (en_current f)))) \<and>
        (\<forall>p. r_reply (sn_record (en_current f)) = Some p \<longrightarrow> ms_records ?t p \<noteq> None)"
    proof cases
      case 1
      with entry_ok_update [OF eno ev ok] inv en same show ?thesis
        by (auto simp: core_inv_def records_ok_def)
    next
      case 2
      with inv show ?thesis by (auto simp: core_inv_def records_ok_def)
    qed
  qed
  moreover have "runs_ok (ms_sessions ?t) (ms_runs ?t) (ms_records ?t)"
    unfolding runs_ok_def
  proof (intro allI impI conjI ballI)
    fix r spec assume "ms_runs ?t r = Some spec"
    then have r: "ms_runs s r = Some spec" by simp
    have "runs_ok (ms_sessions s) (ms_runs s) (ms_records s)" using inv by (simp add: core_inv_def)
    note D = this [unfolded runs_ok_def, rule_format, OF r]
    show "rs_id spec = r" "ms_sessions ?t (rs_session spec) \<noteq> None" using D by simp_all
    fix j assume "j \<in> set (cm_records (rs_context spec))"
    with D obtain f where f: "ms_records s j = Some f" "is_final (sn_state (en_current f))" by blast
    with en ev show "\<exists>f. ms_records ?t j = Some f \<and> is_final (sn_state (en_current f))"
      by (cases "j = i") (auto simp: snapshot_evolves_def)
  qed
  ultimately show ?thesis using inv by (simp add: core_inv_def)
qed

text \<open>Appending a new record to its session.\<close>

lemma snapshot_of_simps [simp]:
  "r_id (sn_record (snapshot_of d q)) = d_id d"
  "r_session (sn_record (snapshot_of d q)) = d_session d"
  "r_run (sn_record (snapshot_of d q)) = d_run d"
  "r_sequence (sn_record (snapshot_of d q)) = q"
  "r_actor (sn_record (snapshot_of d q)) = d_actor d"
  "r_reply (sn_record (snapshot_of d q)) = d_reply d"
  "r_payload (sn_record (snapshot_of d q)) = d_payload d"
  "sn_source (snapshot_of d q) = d_source d"
  "sn_revision (snapshot_of d q) = 0"
  "sn_state (snapshot_of d q) = d_state d"
  by (simp_all add: snapshot_of_def)

lemma same_draft_snapshot_of [simp]: "same_draft (snapshot_of d q) d"
  by (simp add: same_draft_def Let_def)

lemma run_belongs_Ok_iff:
  "run_belongs runs sess r = Ok u \<longleftrightarrow>
     (\<forall>i. r = Some i \<longrightarrow> (\<exists>spec. runs i = Some spec \<and> rs_session spec = sess))"
  by (auto simp: run_belongs_def split: option.splits)

lemma run_belongs_no_panic [simp]: "run_belongs runs sess r \<noteq> Panic"
  by (auto simp: run_belongs_def split: option.splits)

lemma prepare_Ok_iff:
  "prepare s d = Ok x \<longleftrightarrow>
     payload_ok (d_payload d) (d_state d) \<and>
     (\<exists>ids q. ms_sessions s (d_session d) = Some ids \<and> u64_of_usize (length ids) = Some q \<and>
        x = snapshot_of d q) \<and>
     (\<forall>i. d_run d = Some i \<longrightarrow> (\<exists>spec. ms_runs s i = Some spec \<and> rs_session spec = d_session d)) \<and>
     (\<forall>p. d_reply d = Some p \<longrightarrow> ms_records s p \<noteq> None)"
  by (auto simp: prepare_def rbind_eq_Ok validate_Ok_iff run_belongs_Ok_iff split: option.splits)

lemma prepare_no_panic [simp]: "prepare s d \<noteq> Panic"
  by (auto simp: prepare_def rbind_eq_Panic split: option.splits)

text \<open>The state after a commit whose session exists.\<close>

definition appended :: "'v snapshot \<Rightarrow> record_id list \<Rightarrow> 'v memory_state \<Rightarrow> 'v memory_state" where
  "appended x ids s =
     s\<lparr>ms_sessions := (ms_sessions s)(r_session (sn_record x) \<mapsto> ids @ [r_id (sn_record x)]),
       ms_records := (ms_records s)(r_id (sn_record x) \<mapsto> \<lparr>en_initial = x, en_current = x\<rparr>)\<rparr>"

lemma commit_ok_appended:
  "ms_sessions s (r_session (sn_record x)) = Some ids \<Longrightarrow> commit_ok x s = (Ok x, appended x ids s)"
  by (simp add: commit_ok_def commit_def appended_def)

lemma core_inv_appended:
  assumes inv: "core_inv s" and new: "ms_records s (d_id d) = None"
    and ids: "ms_sessions s (d_session d) = Some ids" "u64_of_usize (length ids) = Some q"
    and ok: "payload_ok (d_payload d) (d_state d)"
    and run: "\<forall>i. d_run d = Some i \<longrightarrow> (\<exists>spec. ms_runs s i = Some spec \<and> rs_session spec = d_session d)"
    and reply: "\<forall>p. d_reply d = Some p \<longrightarrow> ms_records s p \<noteq> None"
    and req: "is_request (d_payload d) \<longrightarrow> d_state d = Open"
  shows "core_inv (appended (snapshot_of d q) ids s)" (is "core_inv ?t")
proof -
  have q: "unat q = length ids" by (rule u64_of_usize_Some [OF ids(2)])
  have len: "length ids < 2 ^ 64" using ids(2) by (simp add: u64_of_usize_def split: if_splits)
  have old: "j \<noteq> d_id d" if "ms_records s j = Some f" for j f using that new by auto
  have S: "sessions_ok (ms_sessions s) (ms_records s)"
    and R: "records_ok (ms_sessions s) (ms_runs s) (ms_records s)"
    using inv by (simp_all add: core_inv_def)
  have "sessions_ok (ms_sessions ?t) (ms_records ?t)"
    unfolding sessions_ok_def
  proof (intro allI impI)
    fix sess l assume l: "ms_sessions ?t sess = Some l"
    show "length l \<le> 2 ^ 64 \<and> (\<forall>k<length l. \<exists>en. ms_records ?t (l ! k) = Some en \<and>
        r_session (sn_record (en_current en)) = sess \<and> unat (r_sequence (sn_record (en_current en))) = k)"
    proof (cases "sess = d_session d")
      case True
      with l have "l = ids @ [d_id d]" by (simp add: appended_def)
      note D = S [unfolded sessions_ok_def, rule_format, OF ids(1)]
      show ?thesis
      proof (intro conjI allI impI)
        show "length l \<le> 2 ^ 64" using len \<open>l = _\<close> by simp
        fix k assume "k < length l"
        then consider "k = length ids" | "k < length ids" using \<open>l = _\<close> by fastforce
        then show "\<exists>en. ms_records ?t (l ! k) = Some en \<and> r_session (sn_record (en_current en)) = sess \<and>
            unat (r_sequence (sn_record (en_current en))) = k"
        proof cases
          case 1
          with \<open>l = _\<close> True q show ?thesis by (simp add: appended_def)
        next
          case 2
          with D obtain f where "ms_records s (ids ! k) = Some f"
            "r_session (sn_record (en_current f)) = sess" "unat (r_sequence (sn_record (en_current f))) = k"
            using True by blast
          with 2 \<open>l = _\<close> old show ?thesis by (auto simp: appended_def nth_append)
        qed
      qed
    next
      case False
      with l S old show ?thesis by (fastforce simp: appended_def sessions_ok_def)
    qed
  qed
  moreover have "records_ok (ms_sessions ?t) (ms_runs ?t) (ms_records ?t)"
    unfolding records_ok_def
  proof (intro allI impI)
    fix j f assume "ms_records ?t j = Some f"
    then consider "j = d_id d" "f = \<lparr>en_initial = snapshot_of d q, en_current = snapshot_of d q\<rparr>"
      | "j \<noteq> d_id d" "ms_records s j = Some f"
      by (auto simp: appended_def split: if_splits)
    then show "entry_ok j f \<and>
        (\<exists>ids. ms_sessions ?t (r_session (sn_record (en_current f))) = Some ids \<and>
           unat (r_sequence (sn_record (en_current f))) < length ids \<and>
           ids ! unat (r_sequence (sn_record (en_current f))) = j) \<and>
        (\<forall>r. r_run (sn_record (en_current f)) = Some r \<longrightarrow>
           (\<exists>spec. ms_runs ?t r = Some spec \<and> rs_session spec = r_session (sn_record (en_current f)))) \<and>
        (\<forall>p. r_reply (sn_record (en_current f)) = Some p \<longrightarrow> ms_records ?t p \<noteq> None)"
    proof cases
      case 1
      with ok run reply req q show ?thesis by (auto simp: appended_def entry_ok_def)
    next
      case 2
      with R have "entry_ok j f" and run': "\<forall>r. r_run (sn_record (en_current f)) = Some r \<longrightarrow>
           (\<exists>spec. ms_runs s r = Some spec \<and> rs_session spec = r_session (sn_record (en_current f)))"
        and rep': "\<forall>p. r_reply (sn_record (en_current f)) = Some p \<longrightarrow> ms_records s p \<noteq> None"
        and "\<exists>ids. ms_sessions s (r_session (sn_record (en_current f))) = Some ids \<and>
           unat (r_sequence (sn_record (en_current f))) < length ids \<and>
           ids ! unat (r_sequence (sn_record (en_current f))) = j"
        unfolding records_ok_def by blast+
      then obtain l where "ms_sessions s (r_session (sn_record (en_current f))) = Some l"
           "unat (r_sequence (sn_record (en_current f))) < length l"
           "l ! unat (r_sequence (sn_record (en_current f))) = j" by blast
      with \<open>entry_ok j f\<close> run' rep' ids(1) show ?thesis
        by (auto simp: appended_def nth_append)
    qed
  qed
  moreover have "runs_ok (ms_sessions ?t) (ms_runs ?t) (ms_records ?t)"
    using inv old unfolding core_inv_def runs_ok_def by (fastforce simp: appended_def)
  moreover have "conts_ok (ms_sessions ?t) (ms_continuations ?t)"
    using inv by (auto simp: appended_def core_inv_def conts_ok_def)
  moreover have "relations_inv (ms_runs ?t) (ms_relations ?t)"
    using inv by (simp add: appended_def core_inv_def)
  ultimately show ?thesis by (simp add: core_inv_def)
qed

subsection \<open>What each operation does\<close>

text \<open>
  One case rule per operation: it returns without touching the state, or it makes the
  one change its name says. The invariant and the contract follow from these rules.
\<close>

lemma memory_create_session_cases:
  obtains (unchanged) res where "memory_create_session i s = (res, s)" "res \<noteq> Panic"
  | (created) "\<not> ms_poisoned s" "ms_sessions s i = None"
      "memory_create_session i s = (Ok (), s\<lparr>ms_sessions := (ms_sessions s)(i \<mapsto> [])\<rparr>)"
  by (cases "ms_poisoned s"; cases "ms_sessions s i")
    (auto simp: memory_create_session_def with_lock_def)

lemma context_final_Ok_iff:
  "context_final recs is = Ok u \<longleftrightarrow>
     (\<forall>i \<in> set is. \<exists>en. recs i = Some en \<and> is_final (sn_state (en_current en)))"
  by (induction "is") (auto split: option.splits)

lemma context_final_no_panic [simp]: "context_final recs is \<noteq> Panic"
  by (induction "is") (auto split: option.splits)

lemma registry_get_no_panic [simp]: "registry_get i g \<noteq> Panic"
  by (simp add: registry_get_def)

lemma memory_register_run_cases:
  obtains (unchanged) res where "memory_register_run spec s = (res, s)" "res \<noteq> Panic"
      "\<And>b. res = Ok b \<Longrightarrow> \<not> b \<and> \<not> ms_poisoned s \<and> ms_runs s (rs_id spec) = Some spec"
  | (registered) "\<not> ms_poisoned s" "ms_runs s (rs_id spec) = None"
      "ms_sessions s (rs_session spec) \<noteq> None"
      "\<And>i. rs_continuation spec = Some i \<Longrightarrow>
         \<exists>saved. registry_get i (ms_continuations s) = Ok saved \<and> continuation_usable spec saved"
      "\<forall>i \<in> set (cm_records (rs_context spec)).
         \<exists>en. ms_records s i = Some en \<and> is_final (sn_state (en_current en))"
      "memory_register_run spec s = (Ok True, s\<lparr>ms_runs := (ms_runs s)(rs_id spec \<mapsto> spec)\<rparr>)"
proof (cases "ms_poisoned s \<or> ms_runs s (rs_id spec) \<noteq> None \<or> ms_sessions s (rs_session spec) = None")
  case True
  then consider "ms_poisoned s" | old where "\<not> ms_poisoned s" "ms_runs s (rs_id spec) = Some old"
    | "\<not> ms_poisoned s" "ms_runs s (rs_id spec) = None" "ms_sessions s (rs_session spec) = None" by auto
  then show ?thesis
    by cases (rule unchanged [of "fst (memory_register_run spec s)"];
      simp add: memory_register_run_def with_lock_def split: if_splits)+
next
  case False
  define chk where "chk = (case rs_continuation spec of None \<Rightarrow> Ok ()
     | Some i \<Rightarrow> rbind (registry_get i (ms_continuations s)) (\<lambda>saved.
         if continuation_usable spec saved then Ok () else Err InvalidContinuation))"
  define ctx where "ctx = context_final (ms_records s) (cm_records (rs_context spec))"
  have app: "memory_register_run spec s = with_lock (\<lambda>s.
     (case chk of Err e \<Rightarrow> (Err e, s) | Panic \<Rightarrow> (Panic, s)
      | Ok _ \<Rightarrow> (case ctx of Err e \<Rightarrow> (Err e, s) | Panic \<Rightarrow> (Panic, s)
         | Ok _ \<Rightarrow> (Ok True, s\<lparr>ms_runs := (ms_runs s)(rs_id spec \<mapsto> spec)\<rparr>)))) s"
    using False unfolding memory_register_run_def with_lock_def chk_def [symmetric] ctx_def [symmetric]
    by auto
  have np: "chk \<noteq> Panic" "ctx \<noteq> Panic"
    by (auto simp: chk_def ctx_def rbind_eq_Panic split: option.splits)
  show ?thesis
  proof (cases "chk = Ok () \<and> ctx = Ok ()")
    case True
    show ?thesis
    proof (rule registered)
      show "memory_register_run spec s = (Ok True, s\<lparr>ms_runs := (ms_runs s)(rs_id spec \<mapsto> spec)\<rparr>)"
        using True False by (simp add: app with_lock_def)
      show "\<forall>i \<in> set (cm_records (rs_context spec)).
         \<exists>en. ms_records s i = Some en \<and> is_final (sn_state (en_current en))"
        using True by (simp add: ctx_def context_final_Ok_iff)
      show "\<exists>saved. registry_get i (ms_continuations s) = Ok saved \<and> continuation_usable spec saved"
        if "rs_continuation spec = Some i" for i
        using True that by (auto simp: chk_def rbind_eq_Ok split: if_splits)
    qed (use False in auto)
  next
    case nok: False
    then show ?thesis
      using np False
      by (intro unchanged [of "fst (memory_register_run spec s)"])
        (auto simp: app with_lock_def split: result.splits)
  qed
qed

lemma memory_insert_cases:
  obtains (unchanged) res where "memory_insert d s = (res, s)" "res \<noteq> Panic"
      "\<And>x. res = Ok x \<Longrightarrow> \<not> ms_poisoned s \<and> (\<exists>en. ms_records s (d_id d) = Some en \<and>
         same_draft (en_initial en) d \<and> x = en_current en)"
  | (inserted) ids q where "\<not> ms_poisoned s" "\<not> is_response (d_payload d)"
      "ms_records s (d_id d) = None" "is_request (d_payload d) \<longrightarrow> d_state d = Open"
      "ms_sessions s (d_session d) = Some ids" "u64_of_usize (length ids) = Some q"
      "prepare s d = Ok (snapshot_of d q)"
      "memory_insert d s = (Ok (snapshot_of d q), appended (snapshot_of d q) ids s)"
proof (cases "\<not> ms_poisoned s \<and> \<not> is_response (d_payload d) \<and> ms_records s (d_id d) = None \<and>
    (is_request (d_payload d) \<longrightarrow> d_state d = Open) \<and> (\<exists>x. prepare s d = Ok x)")
  case True
  then obtain x where x: "prepare s d = Ok x" by blast
  then obtain ids q where i: "ms_sessions s (d_session d) = Some ids" "u64_of_usize (length ids) = Some q"
      "x = snapshot_of d q" by (auto simp: prepare_Ok_iff)
  have "memory_insert d s = (Ok x, appended x ids s)"
    using True x i commit_ok_appended [of s x ids]
    by (simp add: memory_insert_def with_lock_def)
  with True x i show ?thesis by (intro inserted [of ids q]) auto
next
  case False
  then consider "ms_poisoned s" | "\<not> ms_poisoned s" "is_response (d_payload d)"
    | en where "\<not> ms_poisoned s" "\<not> is_response (d_payload d)" "ms_records s (d_id d) = Some en"
    | "\<not> ms_poisoned s" "\<not> is_response (d_payload d)" "ms_records s (d_id d) = None"
        "is_request (d_payload d)" "d_state d \<noteq> Open"
    | e where "\<not> ms_poisoned s" "\<not> is_response (d_payload d)" "ms_records s (d_id d) = None"
        "is_request (d_payload d) \<longrightarrow> d_state d = Open" "prepare s d = Err e"
    using prepare_no_panic [of s d] by (cases "prepare s d") auto
  then show ?thesis
    by cases (rule unchanged [of "fst (memory_insert d s)"];
      simp add: memory_insert_def with_lock_def split: if_splits)+
qed

lemma memory_checkpoint_cases:
  obtains (unchanged) e where "memory_checkpoint i expected p next s = (Err e, s)"
  | (written) en x where "\<not> ms_poisoned s" "ms_records s i = Some en"
      "rules_checkpoint (en_current en) expected p next = Ok x"
      "memory_checkpoint i expected p next s =
         (Ok x, s\<lparr>ms_records := (ms_records s)(i \<mapsto> en\<lparr>en_current := x\<rparr>)\<rparr>)"
proof (cases "ms_poisoned s \<or> ms_records s i = None")
  case True
  then have "\<exists>e. memory_checkpoint i expected p next s = (Err e, s)"
    by (cases "ms_poisoned s") (simp_all add: memory_checkpoint_def with_lock_def)
  with unchanged show ?thesis by blast
next
  case False
  then obtain en where en: "ms_records s i = Some en" "\<not> ms_poisoned s" by auto
  then show ?thesis
    using unchanged written rules_checkpoint_no_panic [of "en_current en" expected p "next"]
    by (cases "rules_checkpoint (en_current en) expected p next")
      (auto simp: memory_checkpoint_def with_lock_def)
qed

text \<open>The state in which a resolution has stored the resolved request.\<close>

definition decided ::
  "record_id \<Rightarrow> 'v entry \<Rightarrow> 'v snapshot \<Rightarrow> record_id \<Rightarrow> 'v memory_state \<Rightarrow> 'v memory_state" where
  "decided q en resolved i s =
     s\<lparr>ms_decisions := (ms_decisions s)(q \<mapsto> i),
       ms_records := (ms_records s)(q \<mapsto> en\<lparr>en_current := resolved\<rparr>)\<rparr>"

lemma memory_resolve_cases:
  obtains (known) dec where "\<not> ms_poisoned s" "ms_decisions s request = Some dec"
      "memory_resolve request expected d s =
         (case ms_records s dec of
            None \<Rightarrow> (Panic, s\<lparr>ms_poisoned := True\<rparr>)
          | Some en \<Rightarrow>
              (if same_draft (en_initial en) d then Ok (en_current en) else Err AlreadyResolved, s))"
  | (refused) e where "memory_resolve request expected d s = (Err e, s)"
  | (resolved) en res ids q where "\<not> ms_poisoned s" "ms_decisions s request = None"
      "ms_records s (d_id d) = None" "ms_records s request = Some en"
      "resolve_request (en_current en) expected d = Ok res"
      "prepare s d = Ok (snapshot_of d q)"
      "ms_sessions s (d_session d) = Some ids" "u64_of_usize (length ids) = Some q"
      "memory_resolve request expected d s =
         (Ok (snapshot_of d q), appended (snapshot_of d q) ids (decided request en res (d_id d) s))"
proof -
  note R = memory_resolve_def with_lock_def
  consider "ms_poisoned s" | dec where "\<not> ms_poisoned s" "ms_decisions s request = Some dec"
    | "\<not> ms_poisoned s" "ms_decisions s request = None" "ms_records s (d_id d) \<noteq> None"
    | "\<not> ms_poisoned s" "ms_decisions s request = None" "ms_records s (d_id d) = None"
        "ms_records s request = None"
    | en where "\<not> ms_poisoned s" "ms_decisions s request = None" "ms_records s (d_id d) = None"
        "ms_records s request = Some en"
    by (cases "ms_poisoned s"; cases "ms_decisions s request"; cases "ms_records s (d_id d)";
        cases "ms_records s request") auto
  then show ?thesis
  proof cases
    case 1
    then show ?thesis by (intro refused) (simp add: R)
  next
    case (2 dec)
    then show ?thesis by (intro known [of dec]) (auto simp: R split: option.splits)
  next
    case 3
    then show ?thesis by (intro refused [of IdentityConflict]) (simp add: R)
  next
    case 4
    then show ?thesis by (intro refused [of MissingRecord]) (simp add: R)
  next
    case (5 en)
    show ?thesis
    proof (cases "resolve_request (en_current en) expected d")
      case (Ok res)
      show ?thesis
      proof (cases "prepare s d")
        case prep: (Ok x)
        then obtain ids q where i: "ms_sessions s (d_session d) = Some ids"
            "u64_of_usize (length ids) = Some q" "x = snapshot_of d q" by (auto simp: prepare_Ok_iff)
        then have "commit_ok x (decided request en res (d_id d) s) =
            (Ok x, appended x ids (decided request en res (d_id d) s))"
          by (intro commit_ok_appended) (simp add: decided_def)
        with i prep have "memory_resolve request expected d s =
           (Ok (snapshot_of d q), appended (snapshot_of d q) ids (decided request en res (d_id d) s))"
          using 5 Ok by (simp add: R decided_def)
        with 5 Ok prep i show ?thesis by (intro resolved [of en res q ids]) auto
      next
        case (Err e)
        with 5 Ok show ?thesis by (intro refused [of e]) (simp add: R)
      qed simp
    next
      case (Err e)
      with 5 show ?thesis by (intro refused [of e]) (simp add: R)
    qed simp
  qed
qed

subsection \<open>Preservation of the decisions\<close>

lemma decisionsD:
  assumes "decisions_ok recs decs"
  shows "decs q = Some d \<Longrightarrow>
        (\<exists>eq ed. recs q = Some eq \<and> recs d = Some ed \<and> sn_state (en_current eq) = Complete \<and>
           response_fits (r_payload (sn_record (en_current eq))) (r_payload (sn_record (en_current ed))) \<and>
           r_reply (sn_record (en_current ed)) = Some q \<and>
           r_session (sn_record (en_current ed)) = r_session (sn_record (en_current eq)) \<and>
           r_run (sn_record (en_current ed)) = r_run (sn_record (en_current eq)))"
    and "recs d = Some ed \<Longrightarrow> is_response (r_payload (sn_record (en_current ed))) \<Longrightarrow> \<exists>q. decs q = Some d"
    and "recs q = Some eq \<Longrightarrow> is_request (r_payload (sn_record (en_current eq))) \<Longrightarrow>
        sn_state (en_current eq) = Complete \<Longrightarrow> decs q \<noteq> None"
  using assms unfolding decisions_ok_def by blast+

text \<open>Rewriting a record that is open, or not at all, keeps every decision.\<close>

lemma decisions_ok_checkpoint:
  assumes ok: "decisions_ok recs decs" and en: "recs i = Some en"
    and pok: "payload_ok (r_payload (sn_record (en_current en))) (sn_state (en_current en))"
    and cp: "rules_checkpoint (en_current en) expected p next = Ok x"
  shows "decisions_ok (recs(i \<mapsto> en\<lparr>en_current := x\<rparr>)) decs"
proof (cases "x = en_current en")
  case True
  with en have "recs(i \<mapsto> en\<lparr>en_current := x\<rparr>) = recs" by (auto simp: fun_eq_iff)
  with ok show ?thesis by simp
next
  case False
  with cp obtain r where op: "sn_state (en_current en) = Open"
    and tag: "payload_tag (r_payload (sn_record (en_current en))) = payload_tag p"
    and req: "is_request p \<Longrightarrow> next \<noteq> Complete"
    and x: "x = (en_current en)\<lparr>sn_record := (sn_record (en_current en))\<lparr>r_payload := p\<rparr>,
                sn_state := next, sn_revision := r\<rparr>"
    by (elim rules_checkpoint_Ok_cases) auto
  have nresp: "\<not> is_response (r_payload (sn_record (en_current en)))"
    using pok op by (auto simp: payload_ok_def)
  have ndec: "q \<noteq> i \<and> d \<noteq> i" if "decs q = Some d" for q d
    using decisionsD(1) [OF ok that] en op nresp response_fits_kinds by fastforce
  let ?recs = "recs(i \<mapsto> en\<lparr>en_current := x\<rparr>)"
  show ?thesis
    unfolding decisions_ok_def
  proof (intro conjI allI impI)
    fix q d assume qd: "decs q = Some d"
    with ndec have ne: "q \<noteq> i" "d \<noteq> i" by blast+
    then have look: "?recs q = recs q" "?recs d = recs d" by simp_all
    show "\<exists>eq ed. ?recs q = Some eq \<and> ?recs d = Some ed \<and> sn_state (en_current eq) = Complete \<and>
           response_fits (r_payload (sn_record (en_current eq))) (r_payload (sn_record (en_current ed))) \<and>
           r_reply (sn_record (en_current ed)) = Some q \<and>
           r_session (sn_record (en_current ed)) = r_session (sn_record (en_current eq)) \<and>
           r_run (sn_record (en_current ed)) = r_run (sn_record (en_current eq))"
      unfolding look by (rule decisionsD(1) [OF ok qd])
  next
    fix d ed assume d: "?recs d = Some ed" "is_response (r_payload (sn_record (en_current ed)))"
    have "d \<noteq> i" using d nresp payload_tag_is_response [OF tag] by (auto simp: x)
    with d show "\<exists>q. decs q = Some d" using decisionsD(2) [OF ok] by auto
  next
    fix q eq assume q: "?recs q = Some eq" "is_request (r_payload (sn_record (en_current eq)))"
      "sn_state (en_current eq) = Complete"
    have "q \<noteq> i" using q req by (auto simp: x)
    with q show "decs q \<noteq> None" using decisionsD(3) [OF ok] by auto
  qed
qed

lemma decisions_ok_insert:
  assumes ok: "decisions_ok recs decs" and new: "recs (d_id d) = None"
    and resp: "\<not> is_response (d_payload d)" and req: "is_request (d_payload d) \<longrightarrow> d_state d = Open"
  shows "decisions_ok (recs(d_id d \<mapsto> \<lparr>en_initial = snapshot_of d q, en_current = snapshot_of d q\<rparr>)) decs"
    (is "decisions_ok ?recs decs")
  unfolding decisions_ok_def
proof (intro conjI allI impI)
  fix r e assume re: "decs r = Some e"
  from decisionsD(1) [OF ok re] new have ne: "r \<noteq> d_id d" "e \<noteq> d_id d" by auto
  then have look: "?recs r = recs r" "?recs e = recs e" by simp_all
  show "\<exists>eq ed. ?recs r = Some eq \<and> ?recs e = Some ed \<and> sn_state (en_current eq) = Complete \<and>
         response_fits (r_payload (sn_record (en_current eq))) (r_payload (sn_record (en_current ed))) \<and>
         r_reply (sn_record (en_current ed)) = Some r \<and>
         r_session (sn_record (en_current ed)) = r_session (sn_record (en_current eq)) \<and>
         r_run (sn_record (en_current ed)) = r_run (sn_record (en_current eq))"
    unfolding look by (rule decisionsD(1) [OF ok re])
next
  fix e ee assume "?recs e = Some ee" "is_response (r_payload (sn_record (en_current ee)))"
  with resp show "\<exists>q. decs q = Some e" using decisionsD(2) [OF ok] by (auto split: if_splits)
next
  fix r er assume "?recs r = Some er" "is_request (r_payload (sn_record (en_current er)))"
    "sn_state (en_current er) = Complete"
  with req show "decs r \<noteq> None" using decisionsD(3) [OF ok] by (auto split: if_splits)
qed

lemma decisions_ok_resolve:
  assumes ok: "decisions_ok recs decs" and new: "recs (d_id d) = None"
    and en: "recs request = Some en" and fresh: "decs request = None"
    and res: "resolve_request (en_current en) expected d = Ok res"
    and rid: "r_id (sn_record (en_current en)) = request"
  shows "decisions_ok (recs(request \<mapsto> en\<lparr>en_current := res\<rparr>,
           d_id d \<mapsto> \<lparr>en_initial = snapshot_of d q, en_current = snapshot_of d q\<rparr>))
         (decs(request \<mapsto> d_id d))" (is "decisions_ok ?recs ?decs")
proof -
  have ne: "d_id d \<noteq> request" using new en by auto
  have fits: "response_fits (r_payload (sn_record (en_current en))) (d_payload d)"
    and sess: "d_session d = r_session (sn_record (en_current en))"
    and run: "d_run d = r_run (sn_record (en_current en))"
    and op: "sn_state (en_current en) = Open"
    and x: "\<exists>r. res = (en_current en)\<lparr>sn_state := Complete, sn_revision := r\<rparr>"
    and reply0: "d_reply d = Some (r_id (sn_record (en_current en)))"
    using res by (auto simp: resolve_request_Ok_iff)
  have isr: "is_request (r_payload (sn_record (en_current en)))" "is_response (d_payload d)"
    using response_fits_kinds [OF fits] by blast+
  have open_no: "r \<noteq> request \<and> e \<noteq> request \<and> e \<noteq> d_id d \<and> r \<noteq> d_id d" if "decs r = Some e" for r e
    using decisionsD(1) [OF ok that] fresh that en new isr(1) response_fits_kinds
      request_not_response by fastforce
  show ?thesis
    unfolding decisions_ok_def
  proof (intro conjI allI impI)
    fix r e assume re: "?decs r = Some e"
    show "\<exists>eq ed. ?recs r = Some eq \<and> ?recs e = Some ed \<and> sn_state (en_current eq) = Complete \<and>
       response_fits (r_payload (sn_record (en_current eq))) (r_payload (sn_record (en_current ed))) \<and>
       r_reply (sn_record (en_current ed)) = Some r \<and>
       r_session (sn_record (en_current ed)) = r_session (sn_record (en_current eq)) \<and>
       r_run (sn_record (en_current ed)) = r_run (sn_record (en_current eq))"
    proof (cases "r = request")
      case True
      with re ne x fits sess run reply0 rid show ?thesis by auto
    next
      case False
      with re have old: "decs r = Some e" by simp
      from open_no [OF old] have look: "?recs r = recs r" "?recs e = recs e" by simp_all
      show ?thesis unfolding look by (rule decisionsD(1) [OF ok old])
    qed
  next
    fix e ee assume e: "?recs e = Some ee" "is_response (r_payload (sn_record (en_current ee)))"
    show "\<exists>q. ?decs q = Some e"
    proof (cases "e = d_id d")
      case True
      then show ?thesis by auto
    next
      case False
      with e x isr(1) have "e \<noteq> request" by (auto dest: request_not_response)
      with e False obtain q where q: "decs q = Some e" using decisionsD(2) [OF ok] by auto
      with fresh have "q \<noteq> request" by auto
      with q show ?thesis by auto
    qed
  next
    fix r er assume r: "?recs r = Some er" "is_request (r_payload (sn_record (en_current er)))"
      "sn_state (en_current er) = Complete"
    have "r \<noteq> d_id d" using r isr(2) by (auto dest: request_not_response)
    with r show "?decs r \<noteq> None" using decisionsD(3) [OF ok] by (auto split: if_splits)
  qed
qed

subsection \<open>Preservation of the invariant\<close>

lemma ms_inv_entry: "ms_inv s \<Longrightarrow> ms_records s i = Some en \<Longrightarrow> entry_ok i en"
  by (auto simp: ms_inv_def core_inv_def records_ok_def)

lemma core_inv_fields [simp]:
  "core_inv (s\<lparr>ms_decisions := d\<rparr>) = core_inv s" "core_inv (s\<lparr>ms_poisoned := b\<rparr>) = core_inv s"
  by (simp_all add: core_inv_def)

lemma ms_inv_create_session [inv_intros]: "ms_inv s \<Longrightarrow> ms_inv (snd (memory_create_session i s))"
  by (rule memory_create_session_cases [of i s]) (auto simp: ms_inv_def core_inv_session)

lemma ms_inv_register_run [inv_intros]: "ms_inv s \<Longrightarrow> ms_inv (snd (memory_register_run spec s))"
  by (rule memory_register_run_cases [of spec s]) (auto simp: ms_inv_def core_inv_run)

lemma prepared_inv:
  assumes inv: "core_inv s" and new: "ms_records s (d_id d) = None"
    and prep: "prepare s d = Ok (snapshot_of d q)"
    and ids: "ms_sessions s (d_session d) = Some ids" "u64_of_usize (length ids) = Some q"
    and req: "is_request (d_payload d) \<longrightarrow> d_state d = Open"
  shows "core_inv (appended (snapshot_of d q) ids s)"
  using prep by (intro core_inv_appended [OF inv new ids _ _ _ req]) (auto simp: prepare_Ok_iff)

lemma ms_inv_insert [inv_intros]:
  assumes inv: "ms_inv s"
  shows "ms_inv (snd (memory_insert d s))"
proof (rule memory_insert_cases [of d s])
  fix ids q
  assume "\<not> is_response (d_payload d)" "ms_records s (d_id d) = None"
    "is_request (d_payload d) \<longrightarrow> d_state d = Open" "ms_sessions s (d_session d) = Some ids"
    "u64_of_usize (length ids) = Some q" "prepare s d = Ok (snapshot_of d q)"
    "memory_insert d s = (Ok (snapshot_of d q), appended (snapshot_of d q) ids s)"
  with inv show ?thesis
    using prepared_inv [of s d q ids] decisions_ok_insert [of "ms_records s" "ms_decisions s" d q]
    by (simp add: ms_inv_def appended_def)
qed (use inv in auto)

lemma ms_inv_checkpoint [inv_intros]:
  assumes inv: "ms_inv s"
  shows "ms_inv (snd (memory_checkpoint i expected p next s))"
proof (rule memory_checkpoint_cases [of i expected p "next" s])
  fix en x assume en: "ms_records s i = Some en"
    and cp: "rules_checkpoint (en_current en) expected p next = Ok x"
    and app: "memory_checkpoint i expected p next s =
         (Ok x, s\<lparr>ms_records := (ms_records s)(i \<mapsto> en\<lparr>en_current := x\<rparr>)\<rparr>)"
  have pok: "payload_ok (r_payload (sn_record (en_current en))) (sn_state (en_current en))"
    using ms_inv_entry [OF inv en] by (simp add: entry_ok_def)
  have "core_inv (s\<lparr>ms_records := (ms_records s)(i \<mapsto> en\<lparr>en_current := x\<rparr>)\<rparr>)"
    using inv by (intro core_inv_update [OF _ en snapshot_evolves_checkpoint [OF cp] rules_checkpoint_ok [OF cp pok]])
      (simp add: ms_inv_def)
  moreover have "decisions_ok ((ms_records s)(i \<mapsto> en\<lparr>en_current := x\<rparr>)) (ms_decisions s)"
    using inv en pok cp by (intro decisions_ok_checkpoint [of "ms_records s"]) (simp_all add: ms_inv_def)
  ultimately show ?thesis by (simp add: app ms_inv_def)
qed (use inv in auto)

lemma ms_inv_known_decision:
  assumes "ms_inv s" and "ms_decisions s q = Some d"
  obtains eq ed where "ms_records s q = Some eq" "ms_records s d = Some ed"
    "sn_state (en_current eq) = Complete"
    "response_fits (r_payload (sn_record (en_current eq))) (r_payload (sn_record (en_current ed)))"
    "r_reply (sn_record (en_current ed)) = Some q"
  using assms decisionsD(1) [of "ms_records s" "ms_decisions s" q d] by (auto simp: ms_inv_def)

lemma ms_inv_resolve [inv_intros]:
  assumes inv: "ms_inv s"
  shows "ms_inv (snd (memory_resolve request expected d s))"
proof (rule memory_resolve_cases [of s request expected d])
  fix dec assume "ms_decisions s request = Some dec"
    and app: "memory_resolve request expected d s =
         (case ms_records s dec of
            None \<Rightarrow> (Panic, s\<lparr>ms_poisoned := True\<rparr>)
          | Some en \<Rightarrow>
              (if same_draft (en_initial en) d then Ok (en_current en) else Err AlreadyResolved, s))"
  then obtain en where "ms_records s dec = Some en" using inv ms_inv_known_decision by metis
  with inv app show ?thesis by simp
next
  fix en res ids q
  assume fresh: "ms_decisions s request = None" and new: "ms_records s (d_id d) = None"
    and en: "ms_records s request = Some en"
    and res: "resolve_request (en_current en) expected d = Ok res"
    and prep: "prepare s d = Ok (snapshot_of d q)"
    and ids: "ms_sessions s (d_session d) = Some ids" "u64_of_usize (length ids) = Some q"
    and app: "memory_resolve request expected d s =
         (Ok (snapshot_of d q), appended (snapshot_of d q) ids (decided request en res (d_id d) s))"
  let ?s = "decided request en res (d_id d) s"
  have eok: "entry_ok request en" by (rule ms_inv_entry [OF inv en])
  then have rid: "r_id (sn_record (en_current en)) = request" by (simp add: entry_ok_def)
  have "is_request (r_payload (sn_record (en_current en))) \<and> is_response (d_payload d)"
    using res by (intro response_fits_kinds) (simp add: resolve_request_Ok_iff)
  then have resp: "is_response (d_payload d)" "\<not> is_response (r_payload (sn_record (en_current en)))"
    using request_not_response by blast+
  have rok: "payload_ok (r_payload (sn_record res)) (sn_state res)"
    using eok res resp(2) by (auto simp: entry_ok_def resolve_request_Ok_iff payload_ok_def)
  have core: "core_inv ?s"
    using inv core_inv_update [OF _ en snapshot_evolves_resolve [OF res] rok]
    by (simp add: decided_def ms_inv_def core_inv_def)
  have "d_id d \<noteq> request" using new en by auto
  then have new': "ms_records ?s (d_id d) = None" using new by (simp add: decided_def)
  have prep': "prepare ?s d = Ok (snapshot_of d q)"
    using prep by (simp add: decided_def prepare_Ok_iff)
  have "core_inv (appended (snapshot_of d q) ids ?s)"
    using ids resp(1) by (intro prepared_inv [OF core new' prep'])
      (auto simp: decided_def dest: request_not_response)
  moreover have "decisions_ok (ms_records (appended (snapshot_of d q) ids ?s))
      (ms_decisions (appended (snapshot_of d q) ids ?s))"
    using decisions_ok_resolve [of "ms_records s" "ms_decisions s" d request en expected res q]
      new en fresh res rid inv
    by (simp add: ms_inv_def appended_def decided_def)
  ultimately show ?thesis by (simp add: app ms_inv_def)
qed (use inv in auto)

lemma registry_save_sessions:
  assumes "\<forall>i r. reg_records g i = Some r \<longrightarrow> sessions (k_session (cr_continuation r)) \<noteq> None"
    and "sessions (k_session c) \<noteq> None"
  shows "reg_records (snd (registry_save c g)) i = Some r \<Longrightarrow>
         sessions (k_session (cr_continuation r)) \<noteq> None"
  using assms
  by (rule_tac registry_save_cases [of c g])
    (auto simp: demote_def fresh_record_def registry_previous_def split: option.splits if_splits)

lemma registry_claim_sessions:
  assumes "\<forall>i r. reg_records g i = Some r \<longrightarrow> sessions (k_session (cr_continuation r)) \<noteq> None"
  shows "reg_records (snd (registry_claim j g)) i = Some r \<Longrightarrow>
         sessions (k_session (cr_continuation r)) \<noteq> None"
  using assms by (rule_tac registry_claim_cases [of j g]) (auto split: if_splits)

lemma conts_ok_save:
  "conts_ok sessions g \<Longrightarrow> sessions (k_session c) \<noteq> None \<Longrightarrow> conts_ok sessions (snd (registry_save c g))"
  unfolding conts_ok_def
  using reg_inv_save [of g c] registry_save_sessions [of g sessions c] by blast

lemma conts_ok_claim: "conts_ok sessions g \<Longrightarrow> conts_ok sessions (snd (registry_claim i g))"
  unfolding conts_ok_def
  using reg_inv_claim [of g i] registry_claim_sessions [of g sessions i] by blast

lemma memory_save_continuation_eq:
  "memory_save_continuation c s =
     (if ms_poisoned s then (Err Poisoned, s)
      else if ms_sessions s (k_session c) = None then (Err MissingSession, s)
      else (fst (registry_save c (ms_continuations s)),
            s\<lparr>ms_continuations := snd (registry_save c (ms_continuations s))\<rparr>))"
  using registry_save_no_panic [of c "ms_continuations s"]
  by (auto simp: memory_save_continuation_def with_lock_def split: prod.splits result.splits)

lemma memory_claim_continuation_eq:
  "memory_claim_continuation i s =
     (if ms_poisoned s then (Err Poisoned, s)
      else (fst (registry_claim i (ms_continuations s)),
            s\<lparr>ms_continuations := snd (registry_claim i (ms_continuations s))\<rparr>))"
  using registry_claim_no_panic [of i "ms_continuations s"]
  by (auto simp: memory_claim_continuation_def with_lock_def split: prod.splits result.splits)

lemma ms_inv_save_continuation [inv_intros]: "ms_inv s \<Longrightarrow> ms_inv (snd (memory_save_continuation c s))"
  by (auto simp: memory_save_continuation_eq ms_inv_def core_inv_def intro: conts_ok_save)

lemma ms_inv_claim_continuation [inv_intros]: "ms_inv s \<Longrightarrow> ms_inv (snd (memory_claim_continuation i s))"
  by (auto simp: memory_claim_continuation_eq ms_inv_def core_inv_def intro: conts_ok_claim)

end
