(* ===== verification/Memory_Contracts.thy ===== *)
theory Memory_Contracts imports Memory_Proofs begin

section \<open>The in-memory store and its clients' contracts\<close>

text \<open>
  Execution relations and pagination of \<open>MemoryStore\<close>, and the interpretations
  \<open>mem\<close>, \<open>memx\<close> and \<open>memc\<close> of the three store contracts.
\<close>

subsection \<open>Execution relations\<close>

lemma context_in_session_Ok_iff:
  "context_in_session recs sess is = Ok u \<longleftrightarrow>
     (\<forall>i \<in> set is. \<exists>en. recs i = Some en \<and> r_session (sn_record (en_current en)) = sess)"
  by (induction "is") (auto split: option.splits)

lemma context_in_session_no_panic [simp]: "context_in_session recs sess is \<noteq> Panic"
  by (induction "is") (auto split: option.splits)

lemma memory_link_cases:
  obtains (unchanged) res where "memory_link_execution e s = (res, s)" "res \<noteq> Panic"
      "\<And>x. res = Ok x \<Longrightarrow> \<not> ms_poisoned s \<and> x = e \<and> map_of (ms_relations s) (er_child e) = Some e"
  | (linked) ps cs where "\<not> ms_poisoned s" "map_of (ms_relations s) (er_child e) = None"
      "ms_runs s (er_parent e) = Some ps" "ms_runs s (er_child e) = Some cs"
      "relation_validate e ps cs = Ok ()"
      "\<And>edge. map_of (ms_relations s) (er_parent e) = Some edge \<Longrightarrow>
         er_child_authority edge = er_parent_authority e"
      "\<And>edge. edge \<in> set (map snd (ms_relations s)) \<Longrightarrow> er_parent edge = er_child e \<Longrightarrow>
         er_parent_authority edge = er_child_authority e"
      "ancestors_clear (ms_relations s) (er_child e) (er_parent e) []"
      "memory_link_execution e s = (Ok e, s\<lparr>ms_relations := put_relation e (ms_relations s)\<rparr>)"
proof -
  note L = memory_link_execution_def with_lock_def
  consider "ms_poisoned s" | x where "\<not> ms_poisoned s" "map_of (ms_relations s) (er_child e) = Some x"
    | "\<not> ms_poisoned s" "map_of (ms_relations s) (er_child e) = None"
        "ms_runs s (er_parent e) = None \<or> ms_runs s (er_child e) = None"
    | ps cs where "\<not> ms_poisoned s" "map_of (ms_relations s) (er_child e) = None"
        "ms_runs s (er_parent e) = Some ps" "ms_runs s (er_child e) = Some cs"
    by (cases "ms_poisoned s"; cases "map_of (ms_relations s) (er_child e)";
        cases "ms_runs s (er_parent e)"; cases "ms_runs s (er_child e)") auto
  then show ?thesis
  proof cases
    case 1
    then show ?thesis by (intro unchanged [of "Err Poisoned"]) (simp_all add: L)
  next
    case (2 x)
    then show ?thesis
      by (intro unchanged [of "if x = e then Ok x else Err ExecutionRelationConflict"])
        (simp_all add: L split: if_splits)
  next
    case 3
    then show ?thesis
      by (intro unchanged [of "Err MissingRun"]) (auto simp: L split: option.splits)
  next
    case (4 ps cs)
    define mism where "mism \<longleftrightarrow> (case map_of (ms_relations s) (er_parent e) of
                None \<Rightarrow> False
              | Some edge \<Rightarrow> er_child_authority edge \<noteq> er_parent_authority e) \<or>
             (\<exists>edge \<in> set (map snd (ms_relations s)).
                er_parent edge = er_child e \<and> er_parent_authority edge \<noteq> er_child_authority e)"
    define ctx where "ctx = context_in_session (ms_records s) (rs_session cs) (cm_records (rs_context cs))"
    define ok where "ok \<longleftrightarrow> ancestors_clear (ms_relations s) (er_child e) (er_parent e) []"
    have app: "memory_link_execution e s =
       (case (case relation_validate e ps cs of
           Err err \<Rightarrow> (Err err, s) | Panic \<Rightarrow> (Panic, s)
         | Ok _ \<Rightarrow> if mism then (Err InvalidExecutionRelation, s)
             else (case ctx of Err err \<Rightarrow> (Err err, s) | Panic \<Rightarrow> (Panic, s)
               | Ok _ \<Rightarrow> if \<not> ok then (Err ExecutionCycle, s)
                   else (Ok e, s\<lparr>ms_relations := put_relation e (ms_relations s)\<rparr>))) of
          (Panic, s') \<Rightarrow> (Panic, s'\<lparr>ms_poisoned := True\<rparr>)
        | (Ok x, s') \<Rightarrow> (Ok x, s') | (Err e, s') \<Rightarrow> (Err e, s'))"
      using 4 unfolding L mism_def ctx_def ok_def
      by (simp only: option.case if_False HOL.simp_thms)
    show ?thesis
    proof (cases "relation_validate e ps cs = Ok () \<and> \<not> mism \<and> ctx = Ok () \<and> ok")
      case True
      with 4 show ?thesis
        by (intro linked [of ps cs]) (auto simp: app mism_def ok_def)
    next
      case False
      have "ctx \<noteq> Panic" by (simp add: ctx_def)
      with False have "\<exists>err. memory_link_execution e s = (Err err, s)"
        using relation_validate_no_panic [of e ps cs]
        by (cases "relation_validate e ps cs"; cases ctx) (auto simp: app)
      then show ?thesis using unchanged by fastforce
    qed
  qed
qed

lemma ms_inv_link [inv_intros]:
  assumes inv: "ms_inv s"
  shows "ms_inv (snd (memory_link_execution e s))"
proof (rule memory_link_cases [of e s])
  fix ps cs
  assume new: "map_of (ms_relations s) (er_child e) = None"
    and runs: "ms_runs s (er_parent e) = Some ps" "ms_runs s (er_child e) = Some cs"
    and ok: "relation_validate e ps cs = Ok ()"
    and up: "\<And>edge. map_of (ms_relations s) (er_parent e) = Some edge \<Longrightarrow>
         er_child_authority edge = er_parent_authority e"
    and down: "\<And>edge. edge \<in> set (map snd (ms_relations s)) \<Longrightarrow> er_parent edge = er_child e \<Longrightarrow>
         er_parent_authority edge = er_child_authority e"
    and clear: "ancestors_clear (ms_relations s) (er_child e) (er_parent e) []"
    and app: "memory_link_execution e s = (Ok e, s\<lparr>ms_relations := put_relation e (ms_relations s)\<rparr>)"
  have "relations_inv (ms_runs s) (ms_relations s)" using inv by (simp add: ms_inv_def core_inv_def)
  from relations_inv_put [OF this new runs ok up down clear]
  have "relations_inv (ms_runs s) (put_relation e (ms_relations s))" .
  with inv show ?thesis by (simp add: app ms_inv_def core_inv_relations)
qed (use inv in auto)

lemma memory_link_parent:
  "memory_link_execution e s = (Ok x, s') \<Longrightarrow>
     x = e \<and> memory_execution_parent (er_child e) s' = Ok (Some e)"
  by (rule memory_link_cases [of e s]) (auto simp: memory_execution_parent_def read_lock_def put_relation_lookup)

lemma memory_link_once:
  "memory_execution_parent c s = Ok (Some x) \<Longrightarrow>
     memory_execution_parent c (snd (memory_link_execution e s)) = Ok (Some x)"
  by (rule memory_link_cases [of e s])
    (auto simp: memory_execution_parent_def read_lock_def put_relation_lookup split: if_splits)

subsection \<open>Reads after operations\<close>

lemma memory_get_eq:
  "memory_get i s = (if ms_poisoned s then Err Poisoned
     else case ms_records s i of None \<Rightarrow> Err MissingRecord | Some en \<Rightarrow> Ok (en_current en))"
  by (simp add: memory_get_def read_lock_def split: option.split)

lemma memory_get_Ok:
  "memory_get i s = Ok x \<longleftrightarrow> \<not> ms_poisoned s \<and> (\<exists>en. ms_records s i = Some en \<and> en_current en = x)"
  by (auto simp: memory_get_eq split: option.splits)

lemma appended_get:
  "ms_poisoned (appended x ids s) = ms_poisoned s"
  "ms_records (appended x ids s) = (ms_records s)(r_id (sn_record x) \<mapsto> \<lparr>en_initial = x, en_current = x\<rparr>)"
  by (simp_all add: appended_def)

lemma decided_get:
  "ms_poisoned (decided q en res i s) = ms_poisoned s"
  "ms_records (decided q en res i s) = (ms_records s)(q \<mapsto> en\<lparr>en_current := res\<rparr>)"
  by (simp_all add: decided_def)

lemmas memory_store_ops =
  store_exec_def memory_store_def memory_get_eq appended_get decided_get

lemma memory_no_panic:
  assumes inv: "ms_inv s"
  shows "fst (memory_insert d s) \<noteq> Panic" and "fst (memory_checkpoint i e p n s) \<noteq> Panic"
    and "fst (memory_resolve q e d s) \<noteq> Panic"
proof -
  show "fst (memory_insert d s) \<noteq> Panic" by (rule memory_insert_cases [of d s]) auto
  show "fst (memory_checkpoint i e p n s) \<noteq> Panic"
    by (rule memory_checkpoint_cases [of i e p n s]) auto
  show "fst (memory_resolve q e d s) \<noteq> Panic"
  proof (rule memory_resolve_cases [of s q e d])
    fix dec assume "ms_decisions s q = Some dec"
      and app: "memory_resolve q e d s =
         (case ms_records s dec of
            None \<Rightarrow> (Panic, s\<lparr>ms_poisoned := True\<rparr>)
          | Some en \<Rightarrow>
              (if same_draft (en_initial en) d then Ok (en_current en) else Err AlreadyResolved, s))"
    then obtain en where "ms_records s dec = Some en" using inv ms_inv_known_decision by metis
    with app show ?thesis by simp
  qed auto
qed

text \<open>A resolution that is not a fresh one leaves the state alone.\<close>

lemma memory_resolve_shape:
  assumes inv: "ms_inv s"
  obtains (unchanged) res where "memory_resolve q e d s = (res, s)" "res \<noteq> Panic"
      "\<And>x. res = Ok x \<Longrightarrow> \<not> ms_poisoned s \<and> (\<exists>dec en. ms_decisions s q = Some dec \<and>
          ms_records s dec = Some en \<and> same_draft (en_initial en) d \<and> x = en_current en)"
  | (resolved) en res ids k where "\<not> ms_poisoned s" "ms_decisions s q = None"
      "ms_records s (d_id d) = None" "ms_records s q = Some en"
      "resolve_request (en_current en) e d = Ok res" "prepare s d = Ok (snapshot_of d k)"
      "ms_sessions s (d_session d) = Some ids" "u64_of_usize (length ids) = Some k"
      "memory_resolve q e d s =
         (Ok (snapshot_of d k), appended (snapshot_of d k) ids (decided q en res (d_id d) s))"
proof (rule memory_resolve_cases [of s q e d])
  fix dec assume nop: "\<not> ms_poisoned s" and dec: "ms_decisions s q = Some dec"
    and app: "memory_resolve q e d s =
       (case ms_records s dec of
          None \<Rightarrow> (Panic, s\<lparr>ms_poisoned := True\<rparr>)
        | Some en \<Rightarrow>
            (if same_draft (en_initial en) d then Ok (en_current en) else Err AlreadyResolved, s))"
  obtain en where en: "ms_records s dec = Some en" using inv dec ms_inv_known_decision by metis
  show thesis
    by (rule unchanged [of "if same_draft (en_initial en) d then Ok (en_current en) else Err AlreadyResolved"])
      (use nop dec app en in \<open>auto split: if_splits\<close>)
qed (use unchanged resolved in blast)+

subsection \<open>The record contract\<close>

lemma memory_insert_known:
  "memory_get (d_id d) s = Ok x \<Longrightarrow> memory_get i (snd (memory_insert d s)) = memory_get i s"
  by (rule memory_insert_cases [of d s]) (auto simp: memory_get_Ok)

lemma memory_insert_frame:
  "i \<noteq> d_id d \<Longrightarrow> memory_get i (snd (memory_insert d s)) = memory_get i s"
  by (rule memory_insert_cases [of d s]) (auto simp: memory_get_eq appended_get)

lemma memory_insert_Ok:
  assumes inv: "ms_inv s" and ins: "memory_insert d s = (Ok x, s')"
  shows "memory_get (d_id d) s' = Ok x \<and> r_id (sn_record x) = d_id d"
    and "memory_get (d_id d) s = Err MissingRecord \<Longrightarrow> same_draft x d \<and> sn_revision x = 0"
proof -
  have "(memory_get (d_id d) s' = Ok x \<and> r_id (sn_record x) = d_id d) \<and>
      (memory_get (d_id d) s = Err MissingRecord \<longrightarrow> same_draft x d \<and> sn_revision x = 0)"
  proof (rule memory_insert_cases [of d s])
    fix res
    assume "memory_insert d s = (res, s)"
      "\<And>x. res = Ok x \<Longrightarrow> \<not> ms_poisoned s \<and> (\<exists>en. ms_records s (d_id d) = Some en \<and>
         same_draft (en_initial en) d \<and> x = en_current en)"
    with ins obtain en where "s' = s" "\<not> ms_poisoned s" "ms_records s (d_id d) = Some en"
      "x = en_current en" by auto
    with ms_inv_entry [OF inv] show ?thesis by (auto simp: memory_get_eq entry_ok_def)
  qed (use ins in \<open>auto simp: memory_get_eq appended_get\<close>)
  then show "memory_get (d_id d) s' = Ok x \<and> r_id (sn_record x) = d_id d"
    and "memory_get (d_id d) s = Err MissingRecord \<Longrightarrow> same_draft x d \<and> sn_revision x = 0"
    by blast+
qed

lemma memory_checkpoint_Ok:
  "memory_checkpoint i e p n s = (Ok x, s') \<Longrightarrow>
     (\<exists>cur. memory_get i s = Ok cur \<and> rules_checkpoint cur e p n = Ok x) \<and> memory_get i s' = Ok x"
  by (rule memory_checkpoint_cases [of i e p n s]) (auto simp: memory_get_eq)

lemma memory_resolve_known:
  "ms_inv s \<Longrightarrow> memory_get (d_id d) s = Ok x \<Longrightarrow>
     memory_get i (snd (memory_resolve q e d s)) = memory_get i s"
  by (rule memory_resolve_shape [of s q e d]) (auto simp: memory_get_Ok)

lemma memory_resolve_request:
  "ms_inv s \<Longrightarrow> memory_get q s = Ok x \<Longrightarrow>
     \<exists>y. memory_get q (snd (memory_resolve q e d s)) = Ok y \<and> (y = x \<or> resolve_request x e d = Ok y)"
  by (rule memory_resolve_shape [of s q e d])
    (auto simp: memory_get_eq appended_get decided_get split: if_splits)

lemma memory_resolve_frame:
  "ms_inv s \<Longrightarrow> i \<noteq> q \<Longrightarrow> i \<noteq> d_id d \<Longrightarrow>
     memory_get i (snd (memory_resolve q e d s)) = memory_get i s"
  by (rule memory_resolve_shape [of s q e d])
    (auto simp: memory_get_eq appended_get decided_get)

text \<open>
  A stored response is what its draft said: it was complete at creation, and complete
  records never change.
\<close>

lemma ms_inv_response:
  assumes inv: "ms_inv s" and dec: "ms_decisions s q = Some i" and en: "ms_records s i = Some en"
  shows "en_current en = en_initial en" and "is_response (r_payload (sn_record (en_initial en)))"
proof -
  have e: "entry_ok i en" by (rule ms_inv_entry [OF inv en])
  obtain eq ed where "ms_records s q = Some eq" "ms_records s i = Some ed"
    "response_fits (r_payload (sn_record (en_current eq))) (r_payload (sn_record (en_current ed)))"
    by (rule ms_inv_known_decision [OF inv dec]) blast
  with en have "response_fits (r_payload (sn_record (en_current eq))) (r_payload (sn_record (en_current en)))"
    by simp
  then have cur: "is_response (r_payload (sn_record (en_current en)))"
    using response_fits_kinds by blast
  have ev: "snapshot_evolves (en_initial en) (en_current en)" using e by (simp add: entry_ok_def)
  then show resp: "is_response (r_payload (sn_record (en_initial en)))"
    using cur payload_tag_is_response by (auto simp: snapshot_evolves_def same_identity_def)
  have "sn_state (en_initial en) = Complete" using e resp by (simp add: entry_ok_def payload_ok_def)
  with ev show "en_current en = en_initial en" by (simp add: snapshot_evolves_def is_final_def)
qed

lemma memory_resolve_Ok:
  assumes inv: "ms_inv s" and res: "memory_resolve q e d s = (Ok x, s')"
  shows "memory_get (d_id d) s' = Ok x \<and> same_draft x d \<and> is_response (d_payload d) \<and>
     (\<exists>y. memory_get q s' = Ok y \<and> sn_state y = Complete)"
proof (rule memory_resolve_shape [OF inv, of q e d])
  fix out assume "memory_resolve q e d s = (out, s)"
    and ok: "\<And>x. out = Ok x \<Longrightarrow> \<not> ms_poisoned s \<and> (\<exists>dec en. ms_decisions s q = Some dec \<and>
          ms_records s dec = Some en \<and> same_draft (en_initial en) d \<and> x = en_current en)"
  from res \<open>memory_resolve q e d s = (out, s)\<close> have "out = Ok x" and s': "s' = s" by simp_all
  from ok [OF this(1)] obtain dec en where np: "\<not> ms_poisoned s"
    and dec: "ms_decisions s q = Some dec" and en: "ms_records s dec = Some en"
    and draft: "same_draft (en_initial en) d" and x: "x = en_current en" by blast
  note R = ms_inv_response [OF inv dec en]
  have "r_id (sn_record (en_current en)) = dec" using ms_inv_entry [OF inv en] by (simp add: entry_ok_def)
  with draft R have dd: "d_id d = dec" by (simp add: same_draft_def Let_def)
  have "is_response (d_payload d)" using draft R(2) by (simp add: same_draft_def Let_def)
  moreover obtain eq where "ms_records s q = Some eq" "sn_state (en_current eq) = Complete"
    by (rule ms_inv_known_decision [OF inv dec]) blast
  ultimately show ?thesis using s' np en x draft R(1) dd by (simp add: memory_get_eq)
next
  fix en r ids k
  assume "ms_records s (d_id d) = None" "ms_records s q = Some en" "\<not> ms_poisoned s"
    and rr: "resolve_request (en_current en) e d = Ok r"
    and "memory_resolve q e d s =
         (Ok (snapshot_of d k), appended (snapshot_of d k) ids (decided q en r (d_id d) s))"
  moreover from this have "d_id d \<noteq> q" by auto
  moreover have "is_response (d_payload d)" "sn_state r = Complete"
    using rr response_fits_kinds by (auto simp: resolve_request_Ok_iff)
  ultimately show ?thesis using res by (auto simp: memory_get_eq appended_get decided_get)
qed

lemma memory_unchanged_Err:
  assumes inv: "ms_inv s"
  shows "memory_insert d s = (Err err, s') \<Longrightarrow> s' = s"
    and "memory_checkpoint i e p n s = (Err err, s') \<Longrightarrow> s' = s"
    and "memory_resolve q e d s = (Err err, s') \<Longrightarrow> s' = s"
proof -
  show "memory_insert d s = (Err err, s') \<Longrightarrow> s' = s" by (rule memory_insert_cases [of d s]) auto
  show "memory_checkpoint i e p n s = (Err err, s') \<Longrightarrow> s' = s"
    by (rule memory_checkpoint_cases [of i e p n s]) auto
  show "memory_resolve q e d s = (Err err, s') \<Longrightarrow> s' = s"
    by (rule memory_resolve_shape [OF inv, of q e d]) auto
qed

lemma ms_inv_exec [inv_intros]: "ms_inv s \<Longrightarrow> ms_inv (store_exec memory_store oper s)"
  by (cases oper) (simp_all add: store_exec_def memory_store_def inv_intros)

lemma memory_checkpoint_frame:
  "j \<noteq> i \<Longrightarrow> memory_get j (snd (memory_checkpoint i e p n s)) = memory_get j s"
  by (rule memory_checkpoint_cases [of i e p n s]) (auto simp: memory_get_eq)

lemma memory_get_create: "memory_get i (snd (memory_create_session sess s)) = memory_get i s"
  by (rule memory_create_session_cases [of sess s]) (auto simp: memory_get_eq)

lemma memory_get_register: "memory_get i (snd (memory_register_run spec s)) = memory_get i s"
  by (rule memory_register_run_cases [of spec s]) (auto simp: memory_get_eq)

lemma memory_store_sel:
  "op_create_session memory_store = memory_create_session"
  "op_register_run memory_store = memory_register_run"
  "op_insert memory_store = memory_insert" "op_checkpoint memory_store = memory_checkpoint"
  "op_resolve memory_store = memory_resolve" "op_get memory_store = memory_get"
  "op_get_run memory_store = memory_get_run" "op_list memory_store = memory_list"
  "op_link_execution memory_execution_store = memory_link_execution"
  "op_execution_parent memory_execution_store = memory_execution_parent"
  "op_execution_children memory_execution_store = memory_execution_children"
  by (simp_all add: memory_store_def memory_execution_store_def)

lemmas memory_laws =
  memory_get_create memory_get_register memory_insert_known memory_insert_frame memory_insert_Ok
  memory_unchanged_Err memory_checkpoint_Ok memory_checkpoint_frame memory_resolve_known
  memory_resolve_request memory_resolve_Ok memory_resolve_frame

interpretation mem: record_store memory_store ms_inv
  by (unfold_locales; (rule ms_inv_exec, assumption)?; unfold memory_store_sel)
    (rule memory_laws, assumption?, assumption?, assumption?; fail | intro conjI memory_no_panic; assumption)+

subsection \<open>The execution and continuation contracts\<close>

lemma memory_parent_relation:
  assumes inv: "ms_inv s" and par: "memory_execution_parent c s = Ok (Some e)"
  shows "er_child e = c \<and>
     (\<exists>ps cs. memory_get_run (er_parent e) s = Ok ps \<and> memory_get_run c s = Ok cs \<and>
        relation_validate e ps cs = Ok ())"
proof -
  from par have np: "\<not> ms_poisoned s" and e: "map_of (ms_relations s) c = Some e"
    by (auto simp: memory_execution_parent_def read_lock_def split: if_splits)
  have "relations_inv (ms_runs s) (ms_relations s)" using inv by (simp add: ms_inv_def core_inv_def)
  with e np show ?thesis by (auto simp: relations_inv_def memory_get_run_def read_lock_def)
qed

interpretation memx: execution_store memory_store ms_inv memory_execution_store
  by (unfold_locales; unfold memory_store_sel)
    (rule memory_parent_relation ms_inv_link memory_link_parent memory_link_once, assumption, assumption?)+

lemma memory_get_continuation_Ok:
  "memory_get_continuation i s = Ok r \<longleftrightarrow>
     \<not> ms_poisoned s \<and> registry_get i (ms_continuations s) = Ok r"
  by (simp add: memory_get_continuation_def read_lock_def)

lemma memory_reg_inv: "ms_inv s \<Longrightarrow> reg_inv (ms_continuations s)"
  by (simp add: ms_inv_def core_inv_def conts_ok_def)

interpretation memc: continuation_store memory_save_continuation memory_get_continuation
    memory_claim_continuation ms_inv
proof unfold_locales
  fix s :: "'a memory_state" and c i j r s'
  assume inv: "ms_inv s"
  show "ms_inv (snd (memory_save_continuation c s))" "ms_inv (snd (memory_claim_continuation i s))"
    using inv by (simp_all add: inv_intros)
  note R = memory_reg_inv [OF inv]
  show "memory_claim_continuation i s = (Ok r, s') \<Longrightarrow>
      cr_state r = Claimed \<and> memory_get_continuation i s' = Ok r \<and>
      (\<exists>r0. memory_get_continuation i s = Ok r0 \<and> cr_state r0 = Available \<and> cr_latest r0)"
    using reg.claim_Ok [OF R, of i r] 
    by (auto simp: memory_claim_continuation_eq memory_get_continuation_Ok prod_eq_iff split: if_splits)
  assume g: "memory_get_continuation i s = Ok r" "cr_state r = Claimed"
  then have np: "\<not> ms_poisoned s" and r: "registry_get i (ms_continuations s) = Ok r"
    by (simp_all add: memory_get_continuation_Ok)
  show "fst (memory_claim_continuation i s) = Err ContinuationClaimed"
    using reg.claim_claimed [OF R r g(2)] np by (simp add: memory_claim_continuation_eq)
  show "\<exists>r'. memory_get_continuation i (snd (memory_save_continuation c s)) = Ok r' \<and> cr_state r' = Claimed"
    using reg.claimed_save [OF R r g(2), of c] np r g(2)
    by (auto simp: memory_save_continuation_eq memory_get_continuation_Ok)
  show "\<exists>r'. memory_get_continuation i (snd (memory_claim_continuation j s)) = Ok r' \<and> cr_state r' = Claimed"
    using reg.claimed_claim [OF R r g(2), of j] np
    by (auto simp: memory_claim_continuation_eq memory_get_continuation_Ok)
qed

subsection \<open>Pagination\<close>

lemma current_of_Ok:
  "(\<forall>i \<in> set is. recs i \<noteq> None) \<Longrightarrow> current_of recs is = Ok (map (\<lambda>i. en_current (the (recs i))) is)"
  by (induction "is") auto

text \<open>What the session's page consists of.\<close>

lemma memory_list_eq:
  assumes inv: "ms_inv s"
  shows "memory_list sess after limit s =
    (if \<not> (1 \<le> limit \<and> limit \<le> 1000) then Err InvalidPageSize
     else if ms_poisoned s then Err Poisoned
     else case ms_sessions s sess of
            None \<Rightarrow> Err MissingSession
          | Some ids \<Rightarrow> Ok (map (\<lambda>i. en_current (the (ms_records s i)))
              (take limit (drop (list_start after) ids))), s)"
proof (cases "1 \<le> limit \<and> limit \<le> 1000 \<and> \<not> ms_poisoned s \<and> ms_sessions s sess \<noteq> None")
  case True
  then obtain ids where ids: "ms_sessions s sess = Some ids" by auto
  have "sessions_ok (ms_sessions s) (ms_records s)" using inv by (simp add: ms_inv_def core_inv_def)
  with ids have all: "\<forall>i \<in> set ids. ms_records s i \<noteq> None"
    by (fastforce simp: sessions_ok_def in_set_conv_nth)
  have page: "(if list_start after \<le> length ids then drop (list_start after) ids else []) =
      drop (list_start after) ids" by simp
  have "\<forall>i \<in> set (take limit (drop (list_start after) ids)). ms_records s i \<noteq> None"
    using all by (auto dest!: in_set_takeD in_set_dropD)
  with True ids show ?thesis
    by (simp only: memory_list_def with_lock_def page) (simp add: current_of_Ok)
qed (auto simp: memory_list_def with_lock_def split: option.splits)

lemma session_record:
  assumes inv: "ms_inv s" and ids: "ms_sessions s sess = Some ids" and k: "k < length ids"
  obtains en where "ms_records s (ids ! k) = Some en" "r_session (sn_record (en_current en)) = sess"
    "unat (r_sequence (sn_record (en_current en))) = k" "r_id (sn_record (en_current en)) = ids ! k"
proof -
  have "sessions_ok (ms_sessions s) (ms_records s)" using inv by (simp add: ms_inv_def core_inv_def)
  with ids k obtain en where "ms_records s (ids ! k) = Some en" "r_session (sn_record (en_current en)) = sess"
    "unat (r_sequence (sn_record (en_current en))) = k" unfolding sessions_ok_def by blast
  moreover have "r_id (sn_record (en_current en)) = ids ! k"
    using ms_inv_entry [OF inv] calculation(1) by (auto simp: entry_ok_def)
  ultimately show ?thesis using that by blast
qed

text \<open>A client that follows the sequence of the last record of each page.\<close>

fun read_pages ::
  "(u64 option \<Rightarrow> ('v snapshot list, store_error) result) \<Rightarrow> nat \<Rightarrow> u64 option \<Rightarrow> 'v snapshot list" where
  "read_pages page 0 after = []"
| "read_pages page (Suc n) after =
     (case page after of
        Ok [] \<Rightarrow> []
      | Ok (x # xs) \<Rightarrow>
          (x # xs) @ read_pages page n (Some (r_sequence (sn_record (last (x # xs)))))
      | _ \<Rightarrow> [])"

lemma read_pages_drop:
  assumes inv: "ms_inv s" and ids: "ms_sessions s sess = Some ids" and np: "\<not> ms_poisoned s"
    and limit: "1 \<le> limit" "limit \<le> 1000" and len: "length ids < 2 ^ 64"
  shows "length ids \<le> list_start after + n \<Longrightarrow> 
     read_pages (\<lambda>a. fst (memory_list sess a limit s)) n after =
     map (\<lambda>i. en_current (the (ms_records s i))) (drop (list_start after) ids)"
proof (induction n arbitrary: after)
  case 0
  then show ?case by simp
next
  case (Suc n)
  let ?cur = "\<lambda>i. en_current (the (ms_records s i))"
  let ?start = "list_start after"
  let ?page = "take limit (drop ?start ids)"
  have page: "fst (memory_list sess after limit s) = Ok (map ?cur ?page)"
    using np ids limit by (simp add: memory_list_eq [OF inv])
  show ?case
  proof (cases "?start < length ids")
    case False
    with page show ?thesis by simp
  next
    case True
    then have ne: "?page \<noteq> []" using limit by simp
    let ?k = "min limit (length ids - ?start)"
    have last: "last ?page = ids ! (?start + ?k - 1)"
      using True ne limit by (subst last_conv_nth) (auto simp: min_def)
    have kk: "?start + ?k - 1 < length ids" using True limit by linarith
    obtain en where en: "ms_records s (ids ! (?start + ?k - 1)) = Some en"
      "unat (r_sequence (sn_record (en_current en))) = ?start + ?k - 1"
      by (rule session_record [OF inv ids kk]) blast
    let ?c = "r_sequence (sn_record (last (map ?cur ?page)))"
    have c: "unat ?c = ?start + ?k - 1" using ne last en by (simp add: last_map)
    have next_start: "list_start (Some ?c) = ?start + ?k"
    proof (cases "?c = u64_max")
      case True
      with c have "?start + ?k - 1 = 2 ^ 64 - 1" using unat_eq_u64_max [of ?c] by simp
      with kk len show ?thesis by simp
    next
      case False
      with c limit True show ?thesis by (simp add: list_start_Some)
    qed
    obtain x xs where xs: "map ?cur ?page = x # xs" using ne by (cases "map ?cur ?page") auto
    have "read_pages (\<lambda>a. fst (memory_list sess a limit s)) (Suc n) after =
        map ?cur ?page @ read_pages (\<lambda>a. fst (memory_list sess a limit s)) n (Some ?c)"
      using page xs by simp
    also have "read_pages (\<lambda>a. fst (memory_list sess a limit s)) n (Some ?c) =
        map ?cur (drop (list_start (Some ?c)) ids)"
      using Suc.prems limit True next_start by (intro Suc.IH) linarith
    also have "drop (list_start (Some ?c)) ids = drop limit (drop ?start ids)"
      unfolding next_start by (simp add: min_def add.commute)
    finally have "read_pages (\<lambda>a. fst (memory_list sess a limit s)) (Suc n) after =
        map ?cur (?page @ drop limit (drop ?start ids))" by (simp only: map_append)
    then show ?thesis by (simp only: append_take_drop_id)
  qed
qed

subsection \<open>Reachable states\<close>

text \<open>Every mutation of a \<open>MemoryStore\<close>, through any of its three traits.\<close>

inductive memory_step :: "'v memory_state \<Rightarrow> 'v memory_state \<Rightarrow> bool" where
  records: "memory_step s (store_exec memory_store oper s)"
| link: "memory_step s (snd (memory_link_execution e s))"
| save: "memory_step s (snd (memory_save_continuation c s))"
| claim: "memory_step s (snd (memory_claim_continuation i s))"

inductive_cases memory_stepE: "memory_step s t"

inductive memory_reachable :: "'v memory_state \<Rightarrow> bool" where
  init: "memory_reachable memory_default"
| step: "memory_reachable s \<Longrightarrow> memory_step s t \<Longrightarrow> memory_reachable t"

lemma ms_inv_step [inv_intros]: "memory_step s t \<Longrightarrow> ms_inv s \<Longrightarrow> ms_inv t"
  by (erule memory_stepE) (auto intro: inv_intros)

lemma memory_reachable_ms_inv: "memory_reachable s \<Longrightarrow> ms_inv s"
  by (induction rule: memory_reachable.induct) (auto intro: inv_intros)


lemma memory_step_poisoned: "memory_step s t \<Longrightarrow> ms_inv s \<Longrightarrow> ms_poisoned t = ms_poisoned s"
proof (erule memory_stepE)
  fix oper assume inv: "ms_inv s" and t: "t = store_exec memory_store oper s"
  show ?thesis
  proof (cases oper)
    case (CreateSession i)
    with t show ?thesis
      by (rule_tac memory_create_session_cases [of i s]) (auto simp: store_exec_def memory_store_sel)
  next
    case (RegisterRun spec)
    with t show ?thesis
      by (rule_tac memory_register_run_cases [of spec s]) (auto simp: store_exec_def memory_store_sel)
  next
    case (Insert d)
    with t show ?thesis
      by (rule_tac memory_insert_cases [of d s]) (auto simp: store_exec_def memory_store_sel appended_get)
  next
    case (Checkpoint i e p n)
    with t show ?thesis
      by (rule_tac memory_checkpoint_cases [of i e p n s]) (auto simp: store_exec_def memory_store_sel)
  next
    case (Resolve q e d)
    with t show ?thesis
      by (rule_tac memory_resolve_shape [OF inv, of q e d])
        (auto simp: store_exec_def memory_store_sel appended_get decided_get)
  qed
next
  fix e assume "t = snd (memory_link_execution e s)"
  then show ?thesis by (rule_tac memory_link_cases [of e s]) auto
qed (auto simp: memory_save_continuation_eq memory_claim_continuation_eq)

lemma memory_reachable_not_poisoned: "memory_reachable s \<Longrightarrow> \<not> ms_poisoned s"
proof (induction rule: memory_reachable.induct)
  case (step s t)
  then show ?case using memory_step_poisoned memory_reachable_ms_inv by blast
qed (simp add: memory_default_def)

subsection \<open>Properties\<close>

text \<open>A session with an open question, its answer, and a run.\<close>

definition sample_question :: question where
  "sample_question =
     \<lparr>q_title = ''t'', q_fields = [\<lparr>qf_id = ''f'', qf_label = ''l'', qf_required = False, qf_kind = BooleanField\<rparr>]\<rparr>"

definition sample_draft :: "nat draft" where
  "sample_draft =
     \<lparr>d_id = Ident ''q'', d_session = Ident ''s'', d_run = None, d_actor = Ident ''a'', d_reply = None,
      d_source = None, d_payload = PQuestion sample_question, d_state = Open\<rparr>"

definition sample_answer :: "string \<Rightarrow> nat draft" where
  "sample_answer i =
     \<lparr>d_id = Ident i, d_session = Ident ''s'', d_run = None, d_actor = Ident ''u'',
      d_reply = Some (Ident ''q''), d_source = None,
      d_payload = PAnswer Declined Stored, d_state = Complete\<rparr>"

definition sample_state :: "nat memory_state" where
  "sample_state =
     snd (memory_insert sample_draft (snd (memory_create_session (Ident ''s'') memory_default)))"

definition sample_resolved :: "nat memory_state" where
  "sample_resolved = snd (memory_resolve (Ident ''q'') 0 (sample_answer ''d'') sample_state)"

lemma sample_not_blank: "\<not> blank ''t''" "\<not> blank ''f''" "\<not> blank ''l''"
  by (rule not_blank_plain; simp add: plain_char_def)+

lemma sample_question_ok: "question_validate sample_question = Ok ()"
  by (simp add: question_validate_Ok_iff question_wf_def sample_question_def field_wf_def
      kind_bad_def sample_not_blank)

lemmas sample_run =
  memory_create_session_def memory_insert_def memory_resolve_def memory_default_def with_lock_def
  sample_draft_def sample_answer_def is_response_def is_request_def prepare_def validate_def
  run_belongs_def u64_of_usize_def commit_ok_def commit_def snapshot_of_def sample_question_ok
  resolve_request_def decision_fits_def validate_answer_def bump_revision_def checked_add_def

lemma sample_state_eq:
  "ms_poisoned sample_state = False" "ms_decisions sample_state = Map.empty"
  "ms_sessions sample_state = [Ident ''s'' \<mapsto> [Ident ''q'']]"
  "ms_records sample_state =
     [Ident ''q'' \<mapsto> \<lparr>en_initial = snapshot_of sample_draft 0, en_current = snapshot_of sample_draft 0\<rparr>]"
  by (simp_all add: sample_state_def sample_run)

lemma memory_default_reachable: "memory_reachable memory_default"
  by (rule memory_reachable.init)

lemma memory_exec_reachable: "memory_reachable s \<Longrightarrow> memory_reachable (store_exec memory_store oper s)"
  by (rule memory_reachable.step [OF _ memory_step.records])

lemma sample_state_reachable: "memory_reachable sample_state"
proof -
  have "memory_reachable (store_exec memory_store (Insert sample_draft)
      (store_exec memory_store (CreateSession (Ident ''s'')) memory_default))"
    by (intro memory_exec_reachable memory_default_reachable)
  then show ?thesis by (simp add: store_exec_def memory_store_sel sample_state_def)
qed

lemma sample_resolve_Ok:
  "memory_resolve (Ident ''q'') 0 (sample_answer ''d'') sample_state =
     (Ok (snapshot_of (sample_answer ''d'') 1), sample_resolved)"
proof -
  have "fst (memory_resolve (Ident ''q'') 0 (sample_answer ''d'') sample_state) =
      Ok (snapshot_of (sample_answer ''d'') 1)"
    unfolding memory_resolve_def with_lock_def
    by (simp add: sample_state_eq)
      (simp add: sample_run sample_state_eq)
  then show ?thesis by (simp add: sample_resolved_def prod_eq_iff)
qed

text \<open>
  C4: Finalized records are immutable. Once a record of a reachable in-memory store is
  complete or interrupted, a read returns exactly the same snapshot (payload, revision,
  state, identity, order) after every later sequence of creations, run registrations,
  insertions, checkpoints and resolutions.
\<close>

theorem memory_finalized_immutable:
  assumes "memory_reachable s" and "memory_get i s = Ok x" and "is_final (sn_state x)"
    and "store_steps memory_store s t"
  shows "memory_get i t = Ok x"
  using mem.finalized_immutable [OF assms(4) memory_reachable_ms_inv [OF assms(1)]] assms(2,3)
  by (simp add: memory_store_sel)

lemma sample_resolved_reachable: "memory_reachable sample_resolved"
proof -
  have "memory_reachable (store_exec memory_store
      (Resolve (Ident ''q'') 0 (sample_answer ''d'')) sample_state)"
    by (intro memory_exec_reachable sample_state_reachable)
  then show ?thesis by (simp add: store_exec_def memory_store_sel sample_resolved_def)
qed

lemma sample_resolved_get: "memory_get (Ident ''d'') sample_resolved = Ok (snapshot_of (sample_answer ''d'') 1)"
  using memory_resolve_Ok [OF memory_reachable_ms_inv [OF sample_state_reachable] sample_resolve_Ok]
  by (simp add: sample_answer_def)

theorem memory_finalized_immutable_witness:
  "memory_get (Ident ''d'')
     (store_exec memory_store (Checkpoint (Ident ''d'') 0 (PFailure ''x'') Open) sample_resolved) =
   Ok (snapshot_of (sample_answer ''d'') 1)"
  by (rule memory_finalized_immutable [OF sample_resolved_reachable sample_resolved_get _
        store_steps.step [OF store_steps.refl]])
    (simp add: sample_answer_def is_final_def)

lemma memory_resolve_decides:
  assumes inv: "ms_inv s" and res: "memory_resolve q e d s = (Ok x, s')"
  shows "ms_decisions s' q = Some (d_id d)"
proof (rule memory_resolve_shape [OF inv, of q e d])
  fix out assume "memory_resolve q e d s = (out, s)" and
    ok: "\<And>x. out = Ok x \<Longrightarrow> \<not> ms_poisoned s \<and> (\<exists>dec en. ms_decisions s q = Some dec \<and>
      ms_records s dec = Some en \<and> same_draft (en_initial en) d \<and> x = en_current en)"
  with res have "s' = s" "out = Ok x" by simp_all
  from ok [OF this(2)] obtain dec en where dec: "ms_decisions s q = Some dec"
    "ms_records s dec = Some en" "same_draft (en_initial en) d" by blast
  have "dec = d_id d" using dec ms_inv_entry [OF inv dec(2)]
    by (simp add: entry_ok_def snapshot_evolves_def same_identity_def same_draft_def Let_def)
  with dec \<open>s' = s\<close> show ?thesis by simp
qed (use res in \<open>auto simp: appended_def decided_def\<close>)

lemma memory_decisions_mono:
  assumes inv: "ms_inv s" and dec: "ms_decisions s q = Some d"
  shows "ms_decisions (store_exec memory_store oper s) q = Some d"
proof (cases oper)
  case (CreateSession i)
  with dec show ?thesis
    by (rule_tac memory_create_session_cases [of i s]) (auto simp: store_exec_def memory_store_sel)
next
  case (RegisterRun spec)
  with dec show ?thesis
    by (rule_tac memory_register_run_cases [of spec s]) (auto simp: store_exec_def memory_store_sel)
next
  case (Insert x)
  with dec show ?thesis
    by (rule_tac memory_insert_cases [of x s]) (auto simp: store_exec_def memory_store_sel appended_def)
next
  case (Checkpoint i e p n)
  with dec show ?thesis
    by (rule_tac memory_checkpoint_cases [of i e p n s]) (auto simp: store_exec_def memory_store_sel)
next
  case (Resolve r e x)
  with dec show ?thesis
    by (rule_tac memory_resolve_shape [OF inv, of r e x])
      (auto simp: store_exec_def memory_store_sel appended_def decided_def)
qed

lemma memory_decisions_steps:
  "store_steps memory_store s t \<Longrightarrow> ms_inv s \<Longrightarrow> ms_decisions s q = Some d \<Longrightarrow>
     ms_inv t \<and> ms_decisions t q = Some d"
  by (induction rule: store_steps.induct) (simp_all add: memory_decisions_mono ms_inv_exec)

text \<open>
  C5: A request is resolved at most once. After a resolution of a request has succeeded on
  a reachable store, every later resolution of that request, whatever its revision and
  after any other mutations, either is the very same draft, which is answered with the
  stored response, or is refused with \<open>AlreadyResolved\<close>; the store is not changed.
\<close>

theorem memory_resolve_once:
  assumes "memory_reachable s" and "memory_resolve q e d s = (Ok x, s')"
    and "store_steps memory_store s' t"
  shows "memory_resolve q e' d' t = (if same_draft x d' then Ok x else Err AlreadyResolved, t)"
proof -
  have inv: "ms_inv s" by (rule memory_reachable_ms_inv [OF assms(1)])
  have inv': "ms_inv s'" using ms_inv_resolve [OF inv, of q e d] assms(2) by simp
  note R = memory_resolve_Ok [OF inv assms(2)]
  have dec: "ms_inv t" "ms_decisions t q = Some (d_id d)"
    using memory_decisions_steps [OF assms(3) inv' memory_resolve_decides [OF inv assms(2)]] by blast+
  obtain y where y: "memory_get (d_id d) t = Ok y" "snapshot_evolves x y"
    using mem.evolves_steps [OF assms(3) inv', of "d_id d" x] R by (auto simp: memory_store_sel)
  then obtain en where en: "ms_records t (d_id d) = Some en" "en_current en = y" "\<not> ms_poisoned t"
    by (auto simp: memory_get_Ok)
  obtain enx where enx: "ms_records s' (d_id d) = Some enx" "en_current enx = x"
    using R by (auto simp: memory_get_Ok)
  have "sn_state x = Complete"
    using ms_inv_entry [OF inv' enx(1)] enx(2) R
    by (auto simp: entry_ok_def payload_ok_def same_draft_def Let_def)
  with y have "y = x" by (simp add: snapshot_evolves_def is_final_def)
  moreover have "en_initial en = en_current en" using ms_inv_response [OF dec en(1)] by simp
  ultimately show ?thesis
    using en dec by (simp add: memory_resolve_def with_lock_def)
qed

theorem memory_resolve_once_witness:
  "fst (memory_resolve (Ident ''q'') 7 (sample_answer ''z'') sample_resolved) = Err AlreadyResolved"
  by (simp add: memory_resolve_once [OF sample_state_reachable sample_resolve_Ok store_steps.refl]
      same_draft_def sample_answer_def)



text \<open>
  Pagination is complete and ordered. A client of a reachable store that follows the
  sequence of the last record of each page, with any page size from 1 to 1000, reads the
  current snapshot of every record of the session exactly once, the \<open>k\<close>-th with
  session-local sequence \<open>k\<close>.
\<close>

theorem memory_pages_complete:
  assumes "memory_reachable s" and "ms_sessions s sess = Some ids" and "length ids < 2 ^ 64"
    and "1 \<le> limit" and "limit \<le> 1000" and "length ids \<le> fuel"
  shows "let xs = read_pages (\<lambda>a. fst (memory_list sess a limit s)) fuel None in
     map (\<lambda>x. r_id (sn_record x)) xs = ids \<and>
     map (\<lambda>x. unat (r_sequence (sn_record x))) xs = [0..<length ids] \<and>
     list_all (\<lambda>x. memory_get (r_id (sn_record x)) s = Ok x \<and> r_session (sn_record x) = sess) xs"
proof -
  note inv = memory_reachable_ms_inv [OF assms(1)] and np = memory_reachable_not_poisoned [OF assms(1)]
  let ?cur = "\<lambda>i. en_current (the (ms_records s i))"
  have pages: "read_pages (\<lambda>a. fst (memory_list sess a limit s)) fuel None = map ?cur ids"
    using read_pages_drop [OF inv assms(2) np assms(4,5,3), of None fuel] assms(6)
    by (simp add: list_start_def)
  have at: "r_id (sn_record (?cur (ids ! k))) = ids ! k \<and> unat (r_sequence (sn_record (?cur (ids ! k)))) = k \<and>
      memory_get (ids ! k) s = Ok (?cur (ids ! k)) \<and> r_session (sn_record (?cur (ids ! k))) = sess"
    if "k < length ids" for k
    using that np by (rule_tac session_record [OF inv assms(2) that]) (simp add: memory_get_eq)
  have "map (\<lambda>i. r_id (sn_record (?cur i))) ids = ids"
    by (rule nth_equalityI) (simp_all add: at)
  moreover have "map (\<lambda>i. unat (r_sequence (sn_record (?cur i)))) ids = [0..<length ids]"
    by (rule nth_equalityI) (simp_all add: at)
  moreover have "list_all (\<lambda>x. memory_get (r_id (sn_record x)) s = Ok x \<and> r_session (sn_record x) = sess)
      (map ?cur ids)"
    by (simp add: list_all_length at)
  ultimately show ?thesis by (simp add: pages Let_def comp_def)
qed

theorem memory_pages_complete_witness:
  "map (\<lambda>x. r_id (sn_record x)) (read_pages (\<lambda>a. fst (memory_list (Ident ''s'') a 1 sample_state)) 3 None) =
   [Ident ''q'']"
  using memory_pages_complete [OF sample_state_reachable, of "Ident ''s''" "[Ident ''q'']" 1 3]
  by (simp add: sample_state_eq Let_def)

text \<open>The first snapshot of a record is kept for the comparison of retries.\<close>

lemma memory_initial_mono:
  assumes inv: "ms_inv s" and en: "ms_records s i = Some en"
  shows "\<exists>f. ms_records (store_exec memory_store oper s) i = Some f \<and> en_initial f = en_initial en"
proof (cases oper)
  case (CreateSession j)
  with en show ?thesis
    by (rule_tac memory_create_session_cases [of j s]) (auto simp: store_exec_def memory_store_sel)
next
  case (RegisterRun spec)
  with en show ?thesis
    by (rule_tac memory_register_run_cases [of spec s]) (auto simp: store_exec_def memory_store_sel)
next
  case (Insert x)
  with en show ?thesis
    by (rule_tac memory_insert_cases [of x s]) (auto simp: store_exec_def memory_store_sel appended_get)
next
  case (Checkpoint j e p n)
  with en show ?thesis
    by (rule_tac memory_checkpoint_cases [of j e p n s]) (auto simp: store_exec_def memory_store_sel)
next
  case (Resolve r e x)
  with en show ?thesis
    by (rule_tac memory_resolve_shape [OF inv, of r e x])
      (auto simp: store_exec_def memory_store_sel appended_get decided_get)
qed

lemma memory_initial_steps:
  "store_steps memory_store s t \<Longrightarrow> ms_inv s \<Longrightarrow> ms_records s i = Some en \<Longrightarrow>
     ms_inv t \<and> ms_poisoned t = ms_poisoned s \<and>
     (\<exists>f. ms_records t i = Some f \<and> en_initial f = en_initial en)"
proof (induction rule: store_steps.induct)
  case (step s t oper)
  then obtain f where "ms_inv t" "ms_poisoned t = ms_poisoned s" "ms_records t i = Some f"
    "en_initial f = en_initial en" by blast
  with memory_initial_mono [of t i f oper] memory_step_poisoned [OF memory_step.records, of t oper]
  show ?case by (auto intro: ms_inv_exec)
qed simp

text \<open>
  Insertion is idempotent. Repeating, on the store that a successful insertion left and
  after any further mutations, the draft that created a record succeeds, returns the
  record's current snapshot and changes nothing.
\<close>

theorem memory_insert_retry:
  assumes "memory_reachable s" and "memory_insert d s = (Ok x, s')"
    and "store_steps memory_store s' t"
  shows "\<exists>y. memory_insert d t = (Ok y, t) \<and> memory_get (d_id d) t = Ok y \<and> snapshot_evolves x y"
proof -
  have inv: "ms_inv s" by (rule memory_reachable_ms_inv [OF assms(1)])
  have inv': "ms_inv s'" using ms_inv_insert [OF inv, of d] assms(2) by simp
  have get: "memory_get (d_id d) s' = Ok x" using memory_insert_Ok(1) [OF inv assms(2)] by blast
  have resp: "\<not> is_response (d_payload d)"
    using assms(2) by (auto simp: memory_insert_def with_lock_def split: if_splits)
  obtain en where en: "ms_records s' (d_id d) = Some en" "\<not> ms_poisoned s'" "same_draft (en_initial en) d"
    by (rule memory_insert_cases [of d s])
      (use assms(2) in \<open>auto simp: appended_get\<close>)
  obtain f where f: "ms_poisoned t = ms_poisoned s'" "ms_records t (d_id d) = Some f"
    "en_initial f = en_initial en"
    using memory_initial_steps [OF assms(3) inv' en(1)] by blast
  obtain y where y: "memory_get (d_id d) t = Ok y" "snapshot_evolves x y"
    using mem.evolves_steps [OF assms(3) inv', of "d_id d" x] get by (auto simp: memory_store_sel)
  with f en resp have "memory_insert d t = (Ok y, t)"
    by (auto simp: memory_insert_def with_lock_def memory_get_Ok)
  with y show ?thesis by blast
qed

lemma sample_insert_Ok:
  "memory_insert sample_draft (snd (memory_create_session (Ident ''s'') memory_default)) =
     (Ok (snapshot_of sample_draft 0), sample_state)"
  unfolding sample_state_def by (simp add: prod_eq_iff) (simp add: sample_run)

theorem memory_insert_retry_witness:
  "\<exists>y. memory_insert sample_draft sample_resolved = (Ok y, sample_resolved) \<and>
       memory_get (Ident ''q'') sample_resolved = Ok y \<and> snapshot_evolves (snapshot_of sample_draft 0) y"
proof -
  have r: "memory_reachable (snd (memory_create_session (Ident ''s'') memory_default))"
    using memory_exec_reachable [OF memory_default_reachable, of "CreateSession (Ident ''s'')"]
    by (simp add: store_exec_def memory_store_sel)
  have "store_steps memory_store sample_state
      (store_exec memory_store (Resolve (Ident ''q'') 0 (sample_answer ''d'')) sample_state)"
    by (intro store_steps.intros)
  then have "store_steps memory_store sample_state sample_resolved"
    by (simp add: store_exec_def memory_store_sel sample_resolved_def)
  from memory_insert_retry [OF r sample_insert_Ok this] show ?thesis
    by (simp add: sample_draft_def)
qed

text \<open>
  C14: A provider continuation is claimed at most once: whatever sequence of saves and claims
  runs against a reachable in-memory store, at most one claim of a given handle succeeds.
\<close>

theorem memory_claim_once:
  assumes "memory_reachable s"
  shows "granted_claims memory_save_continuation memory_claim_continuation i ops s \<le> 1"
  by (rule memc.claim_at_most_once [OF memory_reachable_ms_inv [OF assms]])

definition sample_continuation :: "nat continuation" where
  "sample_continuation =
     \<lparr>k_id = Ident ''k'', k_session = Ident ''s'', k_slot = Ident ''a'', k_adapter = ''p'',
      k_scope = ''w'', k_native_key = ''n'', k_predecessor = None, k_data = 0\<rparr>"

theorem memory_claim_once_witness:
  "granted_claims memory_save_continuation memory_claim_continuation (Ident ''k'')
     [SaveOp sample_continuation, ClaimOp (Ident ''k''), ClaimOp (Ident ''k'')] sample_state \<le> 1"
  by (rule memory_claim_once [OF sample_state_reachable])

text \<open>
  C6: The execution relations of a reachable store form a forest of runs in which authority
  only narrows: no run is its own ancestor, and a descendant's grant has the issuer and the
  session of every recorded ancestor's child grant and only tools that grant contains.
\<close>

theorem memory_authority_narrows:
  assumes "memory_reachable s"
  shows "acyclic (parent_edges (ms_relations s)) \<and>
    (\<forall>c a e d. (c, a) \<in> (parent_edges (ms_relations s))\<^sup>* \<longrightarrow>
       memory_execution_parent c s = Ok (Some e) \<longrightarrow> memory_execution_parent a s = Ok (Some d) \<longrightarrow>
       narrows (er_child_authority e) (er_child_authority d))"
proof -
  have inv: "relations_inv (ms_runs s) (ms_relations s)"
    using memory_reachable_ms_inv [OF assms] by (simp add: ms_inv_def core_inv_def)
  moreover have "narrows (er_child_authority e) (er_child_authority d)"
    if "(c, a) \<in> (parent_edges (ms_relations s))\<^sup>*"
      "memory_execution_parent c s = Ok (Some e)" "memory_execution_parent a s = Ok (Some d)" for c a e d
    using relations_chain_narrows [OF inv that(1)] that(2,3)
    by (simp add: memory_execution_parent_def read_lock_def split: if_splits)
  ultimately show ?thesis unfolding relations_inv_def by blast
qed

definition sample_run_spec :: "string \<Rightarrow> spec" where
  "sample_run_spec i = sample_spec\<lparr>rs_id := Ident i\<rparr>"

definition sample_grant :: "tool_ref list \<Rightarrow> tool_grant" where
  "sample_grant tools =
     \<lparr>grant_issuer = Ident ''o'', grant_subject = Ident ''b'',
      grant_scope = \<lparr>scope_session = Ident ''s'', scope_slot = Ident ''a''\<rparr>, grant_tools = tools\<rparr>"

definition sample_relation :: "string \<Rightarrow> string \<Rightarrow> tool_ref list \<Rightarrow> tool_ref list \<Rightarrow> execution_relation" where
  "sample_relation p c ps cs =
     \<lparr>er_parent = Ident p, er_child = Ident c, er_parent_authority = sample_grant ps,
      er_delegation = \<lparr>dg_issuer = Ident ''o'', dg_subject = Ident ''b'', dg_parent = Ident p,
        dg_context = default_manifest, dg_tools = ps\<rparr>,
      er_child_authority = sample_grant cs\<rparr>"

definition sample_tool :: "string \<Rightarrow> tool_ref" where
  "sample_tool n = \<lparr>tool_name = n, tool_revision = ''1''\<rparr>"

definition sample_rel1 :: execution_relation where
  "sample_rel1 = sample_relation ''r1'' ''r2'' [sample_tool ''x'', sample_tool ''y''] [sample_tool ''x'']"

definition sample_rel2 :: execution_relation where
  "sample_rel2 = sample_relation ''r2'' ''r3'' [sample_tool ''x''] []"

definition sample_runs_state :: "nat memory_state" where
  "sample_runs_state =
     snd (memory_register_run (sample_run_spec ''r3'')
       (snd (memory_register_run (sample_run_spec ''r2'')
         (snd (memory_register_run (sample_run_spec ''r1'') sample_state)))))"

definition sample_linked :: "nat memory_state" where
  "sample_linked = snd (memory_link_execution sample_rel2 (snd (memory_link_execution sample_rel1 sample_runs_state)))"

lemma sample_runs_state_eq:
  "sample_runs_state = sample_state\<lparr>ms_runs := [Ident ''r1'' \<mapsto> sample_run_spec ''r1'',
     Ident ''r2'' \<mapsto> sample_run_spec ''r2'', Ident ''r3'' \<mapsto> sample_run_spec ''r3'']\<rparr>"
proof -
  have r: "memory_register_run (sample_run_spec i) s = (Ok True, s\<lparr>ms_runs := (ms_runs s)(Ident i \<mapsto> sample_run_spec i)\<rparr>)"
    if "\<not> ms_poisoned s" "ms_runs s (Ident i) = None" "ms_sessions s (Ident ''s'') \<noteq> None" for i and s :: "nat memory_state"
    using that by (auto simp: memory_register_run_def with_lock_def sample_run_spec_def sample_spec_def default_manifest_def)
  have "ms_runs sample_state = Map.empty" by (simp add: sample_state_def sample_run)
  then show ?thesis by (simp add: sample_runs_state_def r sample_state_eq)
qed

lemma sample_runs_reachable: "memory_reachable sample_runs_state"
proof -
  have "memory_reachable (snd (memory_register_run spec s))" if "memory_reachable s" for spec and s :: "nat memory_state"
    using memory_exec_reachable [OF that, of "RegisterRun spec"] by (simp add: store_exec_def memory_store_sel)
  then show ?thesis unfolding sample_runs_state_def using sample_state_reachable by blast
qed

lemma sample_linked_relations:
  "ms_relations sample_linked = [(Ident ''r2'', sample_rel1), (Ident ''r3'', sample_rel2)]"
  "ms_poisoned sample_linked = False"
proof -
  note D = sample_rel1_def sample_rel2_def sample_relation_def sample_grant_def sample_tool_def
    sample_run_spec_def sample_spec_def default_manifest_def relation_validate_def Let_def
    put_relation_def ancestors_clear.simps
  have e: "ms_relations sample_state = []" by (simp add: sample_state_def sample_run)
  have 1: "memory_link_execution sample_rel1 sample_runs_state =
      (Ok sample_rel1, sample_runs_state\<lparr>ms_relations := [(Ident ''r2'', sample_rel1)]\<rparr>)"
    by (simp add: memory_link_execution_def with_lock_def sample_runs_state_eq sample_state_eq e D)
  have "memory_link_execution sample_rel2 (sample_runs_state\<lparr>ms_relations := [(Ident ''r2'', sample_rel1)]\<rparr>) =
      (Ok sample_rel2, sample_runs_state\<lparr>ms_relations := [(Ident ''r2'', sample_rel1), (Ident ''r3'', sample_rel2)]\<rparr>)"
    by (simp add: memory_link_execution_def with_lock_def sample_runs_state_eq sample_state_eq e D)
  with 1 show "ms_relations sample_linked = [(Ident ''r2'', sample_rel1), (Ident ''r3'', sample_rel2)]"
    "ms_poisoned sample_linked = False"
    by (simp_all add: sample_linked_def sample_runs_state_eq sample_state_eq)
qed

theorem memory_authority_narrows_witness: "narrows (er_child_authority sample_rel2) (er_child_authority sample_rel1)"
proof -
  have r: "memory_reachable sample_linked"
    unfolding sample_linked_def
    by (intro memory_reachable.step [OF _ memory_step.link] sample_runs_reachable)
  have "(Ident ''r3'', Ident ''r2'') \<in> parent_edges (ms_relations sample_linked)"
    by (simp add: parent_edges_iff sample_linked_relations) (simp add: sample_rel2_def sample_relation_def)
  then have "(Ident ''r3'', Ident ''r2'') \<in> (parent_edges (ms_relations sample_linked))\<^sup>*" by blast
  then show ?thesis
    using memory_authority_narrows [OF r]
    by (auto simp: memory_execution_parent_def read_lock_def sample_linked_relations)
qed

end
