(* ===== verification/Child_Plan.thy ===== *)
theory Child_Plan imports Memory_Contracts begin

section \<open>Child plans (src/execution.rs, second part)\<close>

text \<open>
  \<open>ChildPlan\<close>, generic in the execution store as in the source: the store is the pair
  of operation records \<open>S\<close> and \<open>E\<close> and its state. The properties are stated for
  the in-memory store.
\<close>

record child_plan =
  cp_parent :: spec
  cp_request :: child_request
  cp_relation :: execution_relation

text \<open>\<open>store.execution_parent(..)?.is_some_and(|edge| edge.child_authority != g)\<close>\<close>

definition edge_mismatch :: "execution_relation option \<Rightarrow> tool_grant \<Rightarrow> bool" where
  "edge_mismatch edge g = (case edge of None \<Rightarrow> False | Some e \<Rightarrow> er_child_authority e \<noteq> g)"

definition plan_relation :: "spec \<Rightarrow> tool_grant \<Rightarrow> delegation_grant \<Rightarrow> child_request \<Rightarrow> execution_relation" where
  "plan_relation parent parent_authority delegation request =
     \<lparr>er_parent = rs_id parent, er_child = req_id request,
      er_parent_authority = parent_authority, er_delegation = delegation,
      er_child_authority =
        \<lparr>grant_issuer = dg_issuer delegation, grant_subject = req_actor request,
         grant_scope = \<lparr>scope_session = rs_session parent, scope_slot = req_slot request\<rparr>,
         grant_tools = req_tools request\<rparr>\<rparr>"

definition provisional_run :: "spec \<Rightarrow> child_request \<Rightarrow> spec" where
  "provisional_run parent request =
     \<lparr>rs_id = req_id request, rs_session = rs_session parent, rs_slot = req_slot request,
      rs_context = req_context request, rs_config = default_run_configuration,
      rs_continuation = None\<rparr>"

definition child_plan_new ::
  "('v, 's) record_store_ops \<Rightarrow> 's execution_store_ops \<Rightarrow> tool_grant \<Rightarrow> delegation_grant \<Rightarrow>
   child_request \<Rightarrow> 's \<Rightarrow> (child_plan, store_error) result" where
  "child_plan_new S E parent_authority delegation request s =
     rbind (op_get_run S (dg_parent delegation) s) (\<lambda>parent.
     rbind (op_execution_parent E (rs_id parent) s) (\<lambda>edge.
       if edge_mismatch edge parent_authority then Err InvalidExecutionRelation
       else
         (let relation = plan_relation parent parent_authority delegation request in
          rbind (relation_validate relation parent (provisional_run parent request)) (\<lambda>_.
            Ok \<lparr>cp_parent = parent, cp_request = request, cp_relation = relation\<rparr>))))"

definition child_plan_authority :: "child_plan \<Rightarrow> tool_grant" where
  "child_plan_authority p = er_child_authority (cp_relation p)"

definition child_plan_validate_run ::
  "('v, 's) record_store_ops \<Rightarrow> 's execution_store_ops \<Rightarrow> child_plan \<Rightarrow> spec \<Rightarrow> 's \<Rightarrow>
   (execution_relation, store_error) result" where
  "child_plan_validate_run S E p child s =
     rbind (op_get_run S (rs_id (cp_parent p)) s) (\<lambda>run.
       if run \<noteq> cp_parent p \<or> rs_context child \<noteq> req_context (cp_request p)
       then Err InvalidExecutionRelation
       else
         rbind (op_execution_parent E (rs_id (cp_parent p)) s) (\<lambda>edge.
           if edge_mismatch edge (er_parent_authority (cp_relation p))
           then Err InvalidExecutionRelation
           else
             rbind (relation_validate (cp_relation p) (cp_parent p) child) (\<lambda>_.
               Ok (cp_relation p))))"

lemma child_plan_new_Ok_iff:
  "child_plan_new S E auth del req s = Ok p \<longleftrightarrow>
     (\<exists>parent edge. op_get_run S (dg_parent del) s = Ok parent \<and>
        op_execution_parent E (rs_id parent) s = Ok edge \<and> \<not> edge_mismatch edge auth \<and>
        relation_validate (plan_relation parent auth del req) parent (provisional_run parent req) = Ok () \<and>
        p = \<lparr>cp_parent = parent, cp_request = req, cp_relation = plan_relation parent auth del req\<rparr>)"
  by (auto simp: child_plan_new_def rbind_eq_Ok Let_def)

lemma child_plan_validate_run_Ok_iff:
  "child_plan_validate_run S E p child s = Ok e \<longleftrightarrow>
     op_get_run S (rs_id (cp_parent p)) s = Ok (cp_parent p) \<and>
     rs_context child = req_context (cp_request p) \<and>
     (\<exists>edge. op_execution_parent E (rs_id (cp_parent p)) s = Ok edge \<and>
        \<not> edge_mismatch edge (er_parent_authority (cp_relation p))) \<and>
     relation_validate (cp_relation p) (cp_parent p) child = Ok () \<and> e = cp_relation p"
  by (auto simp: child_plan_validate_run_def rbind_eq_Ok)

subsection \<open>Properties\<close>

text \<open>
  C34: A child plan bounds the child. Whenever a plan was made on some state of an execution
  store and a run was validated against it on a later one, the relation to be recorded gives
  the child exactly the requested tools, which the parent's grant and the delegation both
  contain; the run has exactly the requested context, which lies within the delegated
  context; it runs in the parent's session, without a provider continuation, under the
  delegation's issuer.
\<close>

theorem child_plan_bounds:
  assumes "child_plan_new S E auth del req s = Ok p"
    and "child_plan_validate_run S E p child s' = Ok e"
  shows "er_child_authority e = child_plan_authority p \<and>
    grant_tools (child_plan_authority p) = req_tools req \<and>
    set (req_tools req) \<subseteq> set (grant_tools auth) \<inter> set (dg_tools del) \<and>
    grant_subject (child_plan_authority p) = req_actor req \<and>
    rs_context child = req_context req \<and> manifest_within (req_context req) (dg_context del) \<and>
    rs_id child = req_id req \<and> rs_session child = rs_session (cp_parent p) \<and>
    rs_slot child = req_slot req \<and> rs_continuation child = None \<and>
    narrows (er_child_authority e) auth \<and> grant_subject auth = dg_subject del"
  using assms relation_validate_narrows [of e "cp_parent p" child]
  by (auto simp: child_plan_new_Ok_iff child_plan_validate_run_Ok_iff child_plan_authority_def
      plan_relation_def relation_validate_Ok_iff)

definition sample_delegation :: delegation_grant where
  "sample_delegation = er_delegation sample_rel1"

definition sample_request :: child_request where
  "sample_request = \<lparr>req_id = Ident ''r2'', req_slot = Ident ''a'', req_actor = Ident ''b'',
     req_context = default_manifest, req_tools = [sample_tool ''x'']\<rparr>"

definition sample_plan :: child_plan where
  "sample_plan = \<lparr>cp_parent = sample_run_spec ''r1'', cp_request = sample_request, cp_relation = sample_rel1\<rparr>"

lemmas sample_plan_defs =
  sample_plan_def sample_delegation_def sample_request_def sample_rel1_def sample_relation_def
  sample_grant_def sample_run_spec_def sample_spec_def default_manifest_def default_run_configuration_def

lemma sample_relations_None: "ms_relations sample_state = []" "ms_relations sample_runs_state = []"
  by (simp_all add: sample_runs_state_eq) (simp_all add: sample_state_def sample_run)

lemma sample_plan_new:
  "child_plan_new memory_store memory_execution_store (er_parent_authority sample_rel1)
     sample_delegation sample_request sample_runs_state = Ok sample_plan"
  by (simp add: child_plan_new_Ok_iff memory_store_sel memory_get_run_def read_lock_def
      sample_runs_state_eq sample_state_eq memory_execution_parent_def edge_mismatch_def sample_relations_None)
    (simp add: plan_relation_def
      provisional_run_def relation_validate_def Let_def sample_plan_defs sample_tool_def)

lemma sample_plan_validate:
  "child_plan_validate_run memory_store memory_execution_store sample_plan (sample_run_spec ''r2'')
     sample_runs_state = Ok sample_rel1"
  by (simp add: child_plan_validate_run_Ok_iff memory_store_sel memory_get_run_def read_lock_def
      sample_runs_state_eq sample_state_eq memory_execution_parent_def edge_mismatch_def sample_relations_None)
    (simp add: relation_validate_def Let_def sample_plan_defs sample_tool_def)

theorem child_plan_bounds_witness:
  "set (req_tools sample_request) \<subseteq> set (grant_tools (er_parent_authority sample_rel1))"
  using child_plan_bounds [OF sample_plan_new sample_plan_validate] by blast

lemma childless_unreachable:
  assumes "\<forall>e \<in> set (map snd rels). er_parent e \<noteq> c" and "p \<noteq> c"
  shows "(p, c) \<notin> (parent_edges rels)\<^sup>*"
proof
  assume "(p, c) \<in> (parent_edges rels)\<^sup>*"
  then show False
    using assms(2)
  proof (cases rule: rtranclE)
    case (step y)
    then obtain e where "map_of rels y = Some e" "er_parent e = c" by (auto simp: parent_edges_iff)
    then have "e \<in> set (map snd rels)" by (force dest: map_of_SomeD)
    with assms(1) \<open>er_parent e = c\<close> show ?thesis by blast
  qed simp
qed

text \<open>
  A validated child run can be recorded. On a reachable in-memory store, a run that is
  registered, validated against a plan, has no recorded parent and no recorded children, and
  whose selected records belong to its session is linked: no error path applies, and the
  relation is the plan's.
\<close>

theorem child_plan_links:
  assumes "memory_reachable s"
    and "child_plan_validate_run memory_store memory_execution_store p child s = Ok e"
    and "memory_get_run (rs_id child) s = Ok child"
    and "memory_execution_parent (rs_id child) s = Ok None"
    and "memory_execution_children (rs_id child) s = Ok []"
    and "\<forall>i \<in> set (cm_records (rs_context child)).
           \<exists>x. memory_get i s = Ok x \<and> r_session (sn_record x) = rs_session child"
  shows "fst (memory_link_execution e s) = Ok e \<and>
         memory_execution_parent (rs_id child) (snd (memory_link_execution e s)) = Ok (Some e)"
proof -
  have inv: "relations_inv (ms_runs s) (ms_relations s)"
    using memory_reachable_ms_inv [OF assms(1)] by (simp add: ms_inv_def core_inv_def)
  have np: "\<not> ms_poisoned s" by (rule memory_reachable_not_poisoned [OF assms(1)])
  from assms(2) have val: "relation_validate e (cp_parent p) child = Ok ()"
    and par: "ms_runs s (rs_id (cp_parent p)) = Some (cp_parent p)"
    and mis: "\<not> edge_mismatch (map_of (ms_relations s) (rs_id (cp_parent p))) (er_parent_authority e)"
    using np by (auto simp: child_plan_validate_run_Ok_iff memory_store_sel memory_get_run_def
        read_lock_def memory_execution_parent_def)
  have ids: "er_child e = rs_id child" "er_parent e = rs_id (cp_parent p)" "er_parent e \<noteq> er_child e"
    using val unfolding relation_validate_Ok_iff by blast+
  have none: "map_of (ms_relations s) (er_child e) = None"
    using assms(4) np ids by (simp add: memory_execution_parent_def read_lock_def)
  have "filter (\<lambda>e. er_parent e = rs_id child) (map snd (ms_relations s)) = []"
    using assms(5) np by (simp add: memory_execution_children_def read_lock_def)
      (metis list.size(3) length_0_conv length_sort)
  then have leaf: "\<forall>x \<in> set (map snd (ms_relations s)). er_parent x \<noteq> er_child e"
    using ids by (simp add: filter_empty_conv)
  have clear: "ancestors_clear (ms_relations s) (er_child e) (er_parent e) []"
    using inv childless_unreachable [OF leaf ids(3)]
    by (intro ancestors_clear_total) (simp_all add: relations_inv_def)
  have ctx: "context_in_session (ms_records s) (rs_session child) (cm_records (rs_context child)) = Ok ()"
    using assms(6) by (fastforce simp: context_in_session_Ok_iff memory_get_Ok)
  have "memory_link_execution e s = (Ok e, s\<lparr>ms_relations := put_relation e (ms_relations s)\<rparr>)"
    using np none par assms(3) ids val mis leaf clear ctx
    by (auto simp: memory_link_execution_def with_lock_def memory_get_run_def read_lock_def
        edge_mismatch_def split: option.splits)
  then show ?thesis using memory_link_parent [of e s] ids by auto
qed

theorem child_plan_links_witness: "fst (memory_link_execution sample_rel1 sample_runs_state) = Ok sample_rel1"
  by (rule child_plan_links [OF sample_runs_reachable sample_plan_validate, THEN conjunct1])
    (simp_all add: memory_get_run_def read_lock_def memory_execution_parent_def
      memory_execution_children_def sample_relations_None,
     simp_all add: sample_runs_state_eq sample_state_eq sample_run_spec_def sample_spec_def default_manifest_def)

end
