(* ===== verification/Resources.thy ===== *)
theory Resources imports Store_Interface begin

section \<open>Resources (src/context.rs, first part)\<close>

text \<open>
  Immutable resources and \<open>MemoryResourceStore\<close>, with the text checks the context
  preparation makes: \<open>std::str::from_utf8\<close> and the media type before the first
  semicolon. The locale \<open>resource_archive\<close> is the contract of \<open>ResourceStore\<close>
  and \<open>ResourceArchive\<close>: an exact revision never changes.
\<close>

subsection \<open>UTF-8\<close>

text \<open>Bytes are characters of HOL strings; \<open>byte_in\<close> is a range pattern.\<close>

definition byte_in :: "nat \<Rightarrow> nat \<Rightarrow> char \<Rightarrow> bool" where
  "byte_in lo hi c \<longleftrightarrow> lo \<le> of_char c \<and> of_char c \<le> hi"

abbreviation cont_byte :: "char \<Rightarrow> bool" where
  "cont_byte \<equiv> byte_in 0x80 0xBF"

text \<open>The second byte a leading byte allows, and how many plain continuation bytes follow.\<close>

definition utf8_lead :: "char \<Rightarrow> ((char \<Rightarrow> bool) \<times> nat) option" where
  "utf8_lead c =
     (if byte_in 0xC2 0xDF c then Some (cont_byte, 0)
      else if byte_in 0xE0 0xE0 c then Some (byte_in 0xA0 0xBF, 1)
      else if byte_in 0xE1 0xEC c \<or> byte_in 0xEE 0xEF c then Some (cont_byte, 1)
      else if byte_in 0xED 0xED c then Some (byte_in 0x80 0x9F, 1)
      else if byte_in 0xF0 0xF0 c then Some (byte_in 0x90 0xBF, 2)
      else if byte_in 0xF1 0xF3 c then Some (cont_byte, 2)
      else if byte_in 0xF4 0xF4 c then Some (byte_in 0x80 0x8F, 2)
      else None)"

function utf8_ok :: "string \<Rightarrow> bool" where
  "utf8_ok [] = True"
| "utf8_ok (c # s) =
     (if byte_in 0 0x7F c then utf8_ok s
      else (case utf8_lead c of
              None \<Rightarrow> False
            | Some (second, n) \<Rightarrow>
                (case s of
                   [] \<Rightarrow> False
                 | d # t \<Rightarrow>
                     second d \<and> n \<le> length t \<and> list_all cont_byte (take n t) \<and> utf8_ok (drop n t))))"
  by pat_completeness auto
termination by (relation "measure length") auto

lemma utf8_ok_ascii: "list_all (byte_in 0 0x7F) s \<Longrightarrow> utf8_ok s"
  by (induction s) auto

lemma utf8_ok_append: "utf8_ok s \<Longrightarrow> utf8_ok t \<Longrightarrow> utf8_ok (s @ t)"
proof (induction s rule: utf8_ok.induct)
  case (2 c s)
  show ?case
  proof (cases "byte_in 0 0x7F c")
    case True
    with 2 show ?thesis by simp
  next
    case False
    obtain second n d u where lead: "utf8_lead c = Some (second, n)" and s: "s = d # u"
      and rest: "second d" "n \<le> length u" "list_all cont_byte (take n u)" "utf8_ok (drop n u)"
      using "2.prems"(1) False by (cases "utf8_lead c"; cases s) auto
    have "utf8_ok (drop n u @ t)" using 2 False lead s rest by blast
    with False lead s rest show ?thesis by simp
  qed
qed simp

subsection \<open>Resources\<close>

record resource =
  rsc_reference :: resource_ref
  rsc_media_type :: string
  rsc_bytes :: string

datatype resource_error = StoreFailed store_error | Missing | Invalid | RevisionConflicts | ResourcesPoisoned

type_synonym resource_key = "resource_id \<times> string"

definition resource_key :: "resource_ref \<Rightarrow> resource_key" where
  "resource_key r = (res_id r, res_revision r)"

text \<open>\<open>media_type.split(';').next()\<close> trimmed is one of the two text types.\<close>

definition text_media :: "string \<Rightarrow> bool" where
  "text_media media \<longleftrightarrow>
     trim (takeWhile (\<lambda>c. c \<noteq> CHR '';'') media) \<in> {''text/plain'', ''text/markdown''}"

definition text_resource :: "resource \<Rightarrow> bool" where
  "text_resource r \<longleftrightarrow> text_media (rsc_media_type r) \<and> utf8_ok (rsc_bytes r)"

record resource_state =
  rst_poisoned :: bool
  rst_resources :: "resource_key \<rightharpoonup> resource"

definition resources_default :: resource_state where
  "resources_default = \<lparr>rst_poisoned = False, rst_resources = Map.empty\<rparr>"

definition resources_put ::
  "resource \<Rightarrow> resource_state \<Rightarrow> (resource, resource_error) result \<times> resource_state" where
  "resources_put r s =
     (if blank (res_revision (rsc_reference r)) \<or> blank (rsc_media_type r) then (Err Invalid, s)
      else if rst_poisoned s then (Err ResourcesPoisoned, s)
      else
        (case rst_resources s (resource_key (rsc_reference r)) of
           Some existing \<Rightarrow> (if existing = r then Ok existing else Err RevisionConflicts, s)
         | None \<Rightarrow>
             (Ok r, s\<lparr>rst_resources := (rst_resources s)(resource_key (rsc_reference r) \<mapsto> r)\<rparr>)))"

definition resources_get :: "resource_ref \<Rightarrow> resource_state \<Rightarrow> (resource, resource_error) result" where
  "resources_get r s =
     (if blank (res_revision r) then Err Invalid
      else if rst_poisoned s then Err ResourcesPoisoned
      else ok_or Missing (rst_resources s (resource_key r)))"

subsection \<open>The archive contract\<close>

fun puts ::
  "(resource \<Rightarrow> 's \<Rightarrow> (resource, resource_error) result \<times> 's) \<Rightarrow> resource list \<Rightarrow> 's \<Rightarrow> 's" where
  "puts put [] s = s"
| "puts put (r # rs) s = puts put rs (snd (put r s))"

locale resource_archive =
  fixes put :: "resource \<Rightarrow> 's \<Rightarrow> (resource, resource_error) result \<times> 's"
    and get :: "resource_ref \<Rightarrow> 's \<Rightarrow> (resource, resource_error) result"
    and inv :: "'s \<Rightarrow> bool"
  assumes inv_put: "inv s \<Longrightarrow> inv (snd (put r s))"
    and put_Ok: "inv s \<Longrightarrow> put r s = (Ok x, s') \<Longrightarrow> x = r \<and> get (rsc_reference r) s' = Ok r"
    and get_exact: "inv s \<Longrightarrow> get ref s = Ok x \<Longrightarrow> rsc_reference x = ref"
    and get_stable: "inv s \<Longrightarrow> get ref s = Ok x \<Longrightarrow> get ref (snd (put r s)) = Ok x"
begin

lemma puts_stable: "inv s \<Longrightarrow> get ref s = Ok x \<Longrightarrow> inv (puts put rs s) \<and> get ref (puts put rs s) = Ok x"
  by (induction rs arbitrary: s) (auto intro: inv_put get_stable)

lemma put_stable:
  "inv s \<Longrightarrow> put r s = (Ok x, s') \<Longrightarrow> get (rsc_reference r) (puts put rs s') = Ok r"
  using put_Ok [of s r x s'] inv_put [of s r] puts_stable [of s' "rsc_reference r" r rs] by simp

end

definition resources_inv :: "resource_state \<Rightarrow> bool" where
  "resources_inv s \<longleftrightarrow>
     (\<forall>k r. rst_resources s k = Some r \<longrightarrow> resource_key (rsc_reference r) = k \<and>
        \<not> blank (res_revision (rsc_reference r)) \<and> \<not> blank (rsc_media_type r))"

lemma resource_key_inj: "resource_key a = resource_key b \<longleftrightarrow> (a :: resource_ref) = b"
  by (auto simp: resource_key_def)

lemma resources_inv_default [inv_intros]: "resources_inv resources_default"
  by (simp add: resources_inv_def resources_default_def)

lemma resources_inv_put [inv_intros]: "resources_inv s \<Longrightarrow> resources_inv (snd (resources_put r s))"
  by (auto simp: resources_inv_def resources_put_def split: option.splits)

lemma resources_get_exact:
  assumes "resources_inv s" and "resources_get ref s = Ok x"
  shows "rsc_reference x = ref"
proof -
  from assms(2) have "rst_resources s (resource_key ref) = Some x"
    by (simp add: resources_get_def split: if_splits)
  with assms(1) have "resource_key (rsc_reference x) = resource_key ref"
    unfolding resources_inv_def by blast
  then show ?thesis by (simp only: resource_key_inj)
qed

interpretation arch: resource_archive resources_put resources_get resources_inv
  by (unfold_locales, rule resources_inv_put, assumption)
    (auto simp: resources_put_def resources_get_exact,
     auto simp: resources_get_def split: if_splits option.splits)

lemma resources_no_panic: "fst (resources_put r s) \<noteq> Panic" "resources_get ref s \<noteq> Panic"
  by (auto simp: resources_put_def resources_get_def split: option.splits)

subsection \<open>Properties\<close>

text \<open>
  A stored revision is immutable. After a put has succeeded on any state that puts have
  produced, reading that exact reference returns exactly the put resource, whatever is put
  afterwards.
\<close>

theorem resources_revision_immutable:
  assumes "resources_put r (puts resources_put before resources_default) = (Ok x, s)"
  shows "resources_get (rsc_reference r) (puts resources_put later s) = Ok r"
proof -
  have "resources_inv (puts resources_put before s0)" if "resources_inv s0" for s0
    using that by (induction before arbitrary: s0) (auto intro: inv_intros)
  then have "resources_inv (puts resources_put before resources_default)" by (simp add: inv_intros)
  then show ?thesis using assms by (rule arch.put_stable)
qed

definition sample_resource :: "string \<Rightarrow> resource" where
  "sample_resource bytes =
     \<lparr>rsc_reference = \<lparr>res_id = Ident ''d'', res_revision = ''1''\<rparr>, rsc_media_type = ''text/plain'',
      rsc_bytes = bytes\<rparr>"

lemma sample_resource_not_blank: "\<not> blank ''1''" "\<not> blank ''text/plain''"
  by (rule not_blank_plain; simp add: plain_char_def)+

theorem resources_revision_immutable_witness:
  "resources_get \<lparr>res_id = Ident ''d'', res_revision = ''1''\<rparr>
     (puts resources_put [sample_resource ''other'']
       (snd (resources_put (sample_resource ''x'') resources_default))) = Ok (sample_resource ''x'')"
proof -
  have "resources_put (sample_resource ''x'') (puts resources_put [] resources_default) =
      (Ok (sample_resource ''x''), snd (resources_put (sample_resource ''x'') resources_default))"
    by (simp add: resources_put_def resources_default_def sample_resource_def sample_resource_not_blank)
  from resources_revision_immutable [OF this, of "[sample_resource ''other'']"] show ?thesis
    by (simp add: sample_resource_def)
qed

end
