(* ===== verification/Context_Prep.thy ===== *)
theory Context_Prep imports Resources begin

section \<open>Context preparation (src/context.rs, second part)\<close>

text \<open>
  \<open>prepare\<close> and \<open>prepare_with_policy\<close>: an explicit selection of records,
  instructions and resources is resolved under item and byte limits, an instruction grant,
  and named omissions. Both are generic in the stores: \<open>S\<close> and its state for the
  records, a lookup function for the resources. The mutable locals of the source
  (\<open>remaining\<close>, \<open>prepared\<close>, \<open>resolved\<close>) are the fields of \<open>prep\<close>;
  an error drops them, so the loops return them in the \<open>Ok\<close> branch only.
\<close>

record instruction_grant =
  ig_issuer :: actor_id
  ig_subject :: actor_id
  ig_instructions :: "instruction_ref list"

record instruction_authorization =
  ia_requester :: actor_id
  ia_grant :: instruction_grant

datatype context_item =
  RecordItem record_id
| InstructionItem instruction_ref
| ResourceItem resource_ref

record context_omission =
  om_item :: context_item
  om_reason :: string

datatype skill_delivery = RequireNative | SupplementalText | Omit string

record skill_request =
  sk_resource :: resource_ref
  sk_delivery :: skill_delivery

record context_policy =
  pol_skills :: "skill_request list"
  pol_omissions :: "context_omission list"
  pol_authorization :: "instruction_authorization option"

definition default_policy :: context_policy where
  "default_policy = \<lparr>pol_skills = [], pol_omissions = [], pol_authorization = None\<rparr>"

definition policy_for_host :: "actor_id \<Rightarrow> instruction_ref list \<Rightarrow> context_policy" where
  "policy_for_host host instructions =
     \<lparr>pol_skills = [], pol_omissions = [],
      pol_authorization = Some \<lparr>ia_requester = host,
        ia_grant = \<lparr>ig_issuer = host, ig_subject = host, ig_instructions = instructions\<rparr>\<rparr>\<rparr>"

record context_limits =
  max_items :: nat
  max_resource_bytes :: nat

record prepared_instruction =
  pi_reference :: instruction_ref
  pi_resource :: resource

record 'v prepared_context =
  pc_requested_manifest :: context_manifest
  pc_policy :: context_policy
  pc_manifest :: context_manifest
  pc_records :: "'v snapshot list"
  pc_instructions :: "prepared_instruction list"
  pc_resources :: "resource list"
  pc_resource_bytes :: nat

datatype context_error =
  InvalidSkillRequest
| InstructionUnauthorized
| InvalidOmission
| ReferencedOmission resource_ref
| RecordsFailed store_error
| ResourceFailed resource_ref resource_error
| RecordOutsideScope record_id
| OpenRecord record_id
| InvalidInstruction resource_ref
| ItemLimit
| ResourceByteLimit

text \<open>\<open>usize::checked_add\<close> on a 64-bit target.\<close>

definition usize_checked_add :: "nat \<Rightarrow> nat \<Rightarrow> nat option" where
  "usize_checked_add a b = (if a + b < 2 ^ 64 then Some (a + b) else None)"

definition check_count :: "context_manifest \<Rightarrow> context_limits \<Rightarrow> (unit, context_error) result" where
  "check_count m limits =
     (case usize_checked_add (length (cm_records m)) (length (cm_instructions m)) of
        None \<Rightarrow> Err ItemLimit
      | Some n \<Rightarrow>
          (case usize_checked_add n (length (cm_resources m)) of
             None \<Rightarrow> Err ItemLimit
           | Some count \<Rightarrow> if count \<le> max_items limits then Ok () else Err ItemLimit))"

record 'v prep =
  pr_remaining :: nat
  pr_prepared :: "'v prepared_context"
  pr_resolved :: "resource_key \<rightharpoonup> resource"

definition consume :: "'v prep \<Rightarrow> ('v prep, context_error) result" where
  "consume p =
     (case pr_remaining p of 0 \<Rightarrow> Err ItemLimit | Suc n \<Rightarrow> Ok (p\<lparr>pr_remaining := n\<rparr>))"

type_synonym resource_lookup = "resource_ref \<Rightarrow> (resource, resource_error) result"

definition resolve_resource ::
  "resource_lookup \<Rightarrow> context_limits \<Rightarrow> resource_ref list \<Rightarrow> resource_ref \<Rightarrow> 'v prep \<Rightarrow>
   (resource \<times> 'v prep, context_error) result" where
  "resolve_resource lookup limits forbidden ref p =
     (if ref \<in> set forbidden then Err (ReferencedOmission ref)
      else
        (case pr_resolved p (resource_key ref) of
           Some r \<Rightarrow> Ok (r, p)
         | None \<Rightarrow>
             rbind (map_err (ResourceFailed ref) (lookup ref)) (\<lambda>r.
               if rsc_reference r \<noteq> ref then Err (ResourceFailed ref RevisionConflicts)
               else
                 (case usize_checked_add (pc_resource_bytes (pr_prepared p)) (length (rsc_bytes r)) of
                    None \<Rightarrow> Err ResourceByteLimit
                  | Some bytes \<Rightarrow>
                      if \<not> bytes \<le> max_resource_bytes limits then Err ResourceByteLimit
                      else
                        Ok (r, p\<lparr>pr_prepared := (pr_prepared p)
                                  \<lparr>pc_resource_bytes := bytes,
                                   pc_resources := pc_resources (pr_prepared p) @ [r]\<rparr>,
                                pr_resolved := (pr_resolved p)(resource_key ref \<mapsto> r)\<rparr>)))))"

text \<open>The loop over the content of a selected message.\<close>

fun prepare_contents ::
  "resource_lookup \<Rightarrow> context_limits \<Rightarrow> resource_ref list \<Rightarrow> content list \<Rightarrow> 'v prep \<Rightarrow>
   ('v prep, context_error) result" where
  "prepare_contents lookup limits forbidden [] p = Ok p"
| "prepare_contents lookup limits forbidden (Text _ # cs) p =
     prepare_contents lookup limits forbidden cs p"
| "prepare_contents lookup limits forbidden (Resource ref # cs) p =
     rbind (consume p) (\<lambda>p.
     rbind (resolve_resource lookup limits forbidden ref p) (\<lambda>(_, p).
       prepare_contents lookup limits forbidden cs p))"

definition message_contents :: "'v payload \<Rightarrow> content list" where
  "message_contents p = (case p of PMessage _ m \<Rightarrow> msg_content m | _ \<Rightarrow> [])"

fun prepare_records ::
  "(record_id \<Rightarrow> ('v snapshot, store_error) result) \<Rightarrow> resource_lookup \<Rightarrow> session_id list \<Rightarrow>
   context_limits \<Rightarrow> resource_ref list \<Rightarrow> record_id list \<Rightarrow> 'v prep \<Rightarrow>
   ('v prep, context_error) result" where
  "prepare_records get lookup allowed limits forbidden [] p = Ok p"
| "prepare_records get lookup allowed limits forbidden (i # is) p =
     rbind (consume p) (\<lambda>p.
     rbind (map_err RecordsFailed (get i)) (\<lambda>x.
       if r_session (sn_record x) \<notin> set allowed then Err (RecordOutsideScope i)
       else if \<not> is_final (sn_state x) then Err (OpenRecord i)
       else
         rbind (prepare_contents lookup limits forbidden
                  (message_contents (r_payload (sn_record x))) p) (\<lambda>p.
           prepare_records get lookup allowed limits forbidden is
             (p\<lparr>pr_prepared := (pr_prepared p)
                  \<lparr>pc_records := pc_records (pr_prepared p) @ [x]\<rparr>\<rparr>))))"

fun prepare_instructions ::
  "resource_lookup \<Rightarrow> context_limits \<Rightarrow> resource_ref list \<Rightarrow> instruction_ref list \<Rightarrow> 'v prep \<Rightarrow>
   ('v prep, context_error) result" where
  "prepare_instructions lookup limits forbidden [] p = Ok p"
| "prepare_instructions lookup limits forbidden (ins # rest) p =
     rbind (consume p) (\<lambda>p.
     rbind (resolve_resource lookup limits forbidden (ins_resource ins) p) (\<lambda>(r, p).
       if \<not> text_resource r then Err (InvalidInstruction (ins_resource ins))
       else
         prepare_instructions lookup limits forbidden rest
           (p\<lparr>pr_prepared := (pr_prepared p)
                \<lparr>pc_instructions := pc_instructions (pr_prepared p) @
                   [\<lparr>pi_reference = ins, pi_resource = r\<rparr>]\<rparr>\<rparr>)))"

fun prepare_resources ::
  "resource_lookup \<Rightarrow> context_limits \<Rightarrow> resource_ref list \<Rightarrow> resource_ref list \<Rightarrow> 'v prep \<Rightarrow>
   ('v prep, context_error) result" where
  "prepare_resources lookup limits forbidden [] p = Ok p"
| "prepare_resources lookup limits forbidden (ref # rest) p =
     rbind (consume p) (\<lambda>p.
     rbind (resolve_resource lookup limits forbidden ref p) (\<lambda>(_, p).
       prepare_resources lookup limits forbidden rest p))"

definition prep_start :: "context_manifest \<Rightarrow> context_limits \<Rightarrow> 'v prep" where
  "prep_start m limits =
     \<lparr>pr_remaining = max_items limits,
      pr_prepared = \<lparr>pc_requested_manifest = m, pc_policy = default_policy, pc_manifest = m,
        pc_records = [], pc_instructions = [], pc_resources = [], pc_resource_bytes = 0\<rparr>,
      pr_resolved = Map.empty\<rparr>"

definition prepare_inner ::
  "context_manifest \<Rightarrow> (record_id \<Rightarrow> ('v snapshot, store_error) result) \<Rightarrow> resource_lookup \<Rightarrow>
   session_id list \<Rightarrow> context_limits \<Rightarrow> resource_ref list \<Rightarrow>
   ('v prepared_context, context_error) result" where
  "prepare_inner m get lookup allowed limits forbidden =
     rbind (check_count m limits) (\<lambda>_.
     rbind (prepare_records get lookup allowed limits forbidden (cm_records m) (prep_start m limits)) (\<lambda>p.
     rbind (prepare_instructions lookup limits forbidden (cm_instructions m) p) (\<lambda>p.
     rbind (prepare_resources lookup limits forbidden (cm_resources m) p) (\<lambda>p.
       Ok (pr_prepared p)))))"

definition context_prepare ::
  "context_manifest \<Rightarrow> (record_id \<Rightarrow> ('v snapshot, store_error) result) \<Rightarrow> resource_lookup \<Rightarrow>
   session_id list \<Rightarrow> context_limits \<Rightarrow> ('v prepared_context, context_error) result" where
  "context_prepare m get lookup allowed limits = prepare_inner m get lookup allowed limits []"

subsection \<open>The policy\<close>

definition skill_instruction :: "skill_request \<Rightarrow> instruction_ref" where
  "skill_instruction s = \<lparr>ins_resource = sk_resource s, ins_role = Supplemental\<rparr>"

definition empty_omit :: "skill_delivery \<Rightarrow> bool" where
  "empty_omit d = (case d of Omit reason \<Rightarrow> blank reason | _ \<Rightarrow> False)"

text \<open>First loop over the skills: distinct, revisioned, explained.\<close>

definition skills_bad :: "skill_request list \<Rightarrow> bool" where
  "skills_bad skills =
     scan_bad (\<lambda>s. blank (res_revision (sk_resource s)) \<or> empty_omit (sk_delivery s)) sk_resource [] skills"

definition authorization_bad :: "instruction_authorization option \<Rightarrow> instruction_ref list \<Rightarrow> bool" where
  "authorization_bad auth instructions =
     (case auth of
        Some a \<Rightarrow>
          ia_requester a \<noteq> ig_subject (ia_grant a) \<or>
          (\<exists>i \<in> set instructions. i \<notin> set (ig_instructions (ia_grant a)))
      | None \<Rightarrow> instructions \<noteq> [])"

text \<open>The loop over the omissions: the remaining selection, what was omitted, what is forbidden.\<close>

fun apply_omissions ::
  "context_omission list \<Rightarrow> context_manifest \<Rightarrow> context_item list \<Rightarrow> resource_ref list \<Rightarrow>
   (context_manifest \<times> context_item list \<times> resource_ref list, context_error) result" where
  "apply_omissions [] m omitted forbidden = Ok (m, omitted, forbidden)"
| "apply_omissions (om # oms) m omitted forbidden =
     (if blank (om_reason om) \<or> om_item om \<in> set omitted then Err InvalidOmission
      else
        (let (exists, m', forbidden') =
           (case om_item om of
              RecordItem i \<Rightarrow>
                (i \<in> set (cm_records m),
                 m\<lparr>cm_records := filter (\<lambda>x. x \<noteq> i) (cm_records m)\<rparr>, forbidden)
            | InstructionItem i \<Rightarrow>
                (i \<in> set (cm_instructions m),
                 m\<lparr>cm_instructions := filter (\<lambda>x. x \<noteq> i) (cm_instructions m)\<rparr>, forbidden)
            | ResourceItem r \<Rightarrow>
                (r \<in> set (cm_resources m),
                 m\<lparr>cm_resources := filter (\<lambda>x. x \<noteq> r) (cm_resources m)\<rparr>, forbidden @ [r]))
         in if \<not> exists then Err InvalidOmission
            else apply_omissions oms m' (omitted @ [om_item om]) forbidden'))"

fun apply_skills ::
  "skill_request list \<Rightarrow> context_item list \<Rightarrow> context_manifest \<Rightarrow> resource_ref list \<Rightarrow>
   (context_manifest \<times> resource_ref list, context_error) result" where
  "apply_skills [] omitted m forbidden = Ok (m, forbidden)"
| "apply_skills (s # ss) omitted m forbidden =
     (case sk_delivery s of
        SupplementalText \<Rightarrow>
          if InstructionItem (skill_instruction s) \<in> set omitted then Err InvalidSkillRequest
          else
            apply_skills ss omitted
              (if skill_instruction s \<in> set (cm_instructions m) then m
               else m\<lparr>cm_instructions := cm_instructions m @ [skill_instruction s]\<rparr>) forbidden
      | RequireNative \<Rightarrow>
          apply_skills ss omitted
            (if sk_resource s \<in> set (cm_resources m) then m
             else m\<lparr>cm_resources := cm_resources m @ [sk_resource s]\<rparr>) forbidden
      | Omit _ \<Rightarrow> apply_skills ss omitted m (forbidden @ [sk_resource s]))"

text \<open>The last loop: every delivered skill is a resolved text.\<close>

fun check_skills :: "skill_request list \<Rightarrow> resource list \<Rightarrow> (unit, context_error) result" where
  "check_skills [] resources = Ok ()"
| "check_skills (s # ss) resources =
     (case sk_delivery s of
        Omit _ \<Rightarrow> check_skills ss resources
      | _ \<Rightarrow>
          (case find (\<lambda>r. rsc_reference r = sk_resource s) resources of
             None \<Rightarrow> Err InvalidSkillRequest
           | Some r \<Rightarrow>
               if \<not> text_resource r then Err InvalidSkillRequest
               else check_skills ss resources))"

definition authorized_manifest :: "context_manifest \<Rightarrow> context_policy \<Rightarrow> context_manifest" where
  "authorized_manifest m policy =
     m\<lparr>cm_instructions := cm_instructions m @ map skill_instruction (pol_skills policy)\<rparr>"

definition prepare_with_policy ::
  "context_manifest \<Rightarrow> (record_id \<Rightarrow> ('v snapshot, store_error) result) \<Rightarrow> resource_lookup \<Rightarrow>
   session_id list \<Rightarrow> context_limits \<Rightarrow> context_policy \<Rightarrow>
   ('v prepared_context, context_error) result" where
  "prepare_with_policy m get lookup allowed limits policy =
     rbind (check_count m limits) (\<lambda>_.
       if length (pol_skills policy) > max_items limits then Err ItemLimit
       else if skills_bad (pol_skills policy) then Err InvalidSkillRequest
       else
         rbind (check_count (authorized_manifest m policy) limits) (\<lambda>_.
           if length (pol_omissions policy) > max_items limits then Err ItemLimit
           else if (case pol_authorization policy of
                      None \<Rightarrow> False
                    | Some a \<Rightarrow> length (ig_instructions (ia_grant a)) > max_items limits)
           then Err ItemLimit
           else if authorization_bad (pol_authorization policy)
                     (cm_instructions (authorized_manifest m policy))
           then Err InstructionUnauthorized
           else
             rbind (apply_omissions (pol_omissions policy) m [] []) (\<lambda>(selected, omitted, forbidden).
             rbind (apply_skills (pol_skills policy) omitted selected forbidden) (\<lambda>(selected, forbidden).
             rbind (prepare_inner selected get lookup allowed limits forbidden) (\<lambda>prepared.
             rbind (check_skills (pol_skills policy) (pc_resources prepared)) (\<lambda>_.
               Ok (prepared\<lparr>pc_requested_manifest := m, pc_policy := policy\<rparr>)))))))"

subsection \<open>What the loops keep\<close>

text \<open>The facts about \<open>prepared\<close> and \<open>resolved\<close> that hold at every step.\<close>

definition prep_ok ::
  "resource_lookup \<Rightarrow> session_id list \<Rightarrow> context_limits \<Rightarrow> resource_ref list \<Rightarrow> 'v prep \<Rightarrow> bool" where
  "prep_ok lookup allowed limits forbidden p \<longleftrightarrow>
     (let c = pr_prepared p in
        pc_resource_bytes c = sum_list (map (\<lambda>r. length (rsc_bytes r)) (pc_resources c)) \<and>
        pc_resource_bytes c \<le> max_resource_bytes limits \<and>
        distinct (map rsc_reference (pc_resources c)) \<and>
        (\<forall>ref r. pr_resolved p (resource_key ref) = Some r \<longleftrightarrow>
           r \<in> set (pc_resources c) \<and> rsc_reference r = ref) \<and>
        (\<forall>r \<in> set (pc_resources c). lookup (rsc_reference r) = Ok r \<and> rsc_reference r \<notin> set forbidden) \<and>
        (\<forall>x \<in> set (pc_records c). r_session (sn_record x) \<in> set allowed \<and> is_final (sn_state x)) \<and>
        (\<forall>i \<in> set (pc_instructions c). text_resource (pi_resource i) \<and>
           pi_resource i \<in> set (pc_resources c) \<and>
           rsc_reference (pi_resource i) = ins_resource (pi_reference i)))"

lemma prep_ok_resolved:
  "prep_ok lookup allowed limits forbidden p \<Longrightarrow> r \<in> set (pc_resources (pr_prepared p)) \<Longrightarrow>
     pr_resolved p (resource_key (rsc_reference r)) = Some r"
  by (simp add: prep_ok_def Let_def)

lemma prep_start_simps [simp]:
  "pc_records (pr_prepared (prep_start m limits)) = []"
  "pc_instructions (pr_prepared (prep_start m limits)) = []"
  "pc_resources (pr_prepared (prep_start m limits)) = []"
  "pc_manifest (pr_prepared (prep_start m limits)) = m"
  "pr_remaining (prep_start m limits) = max_items limits"
  by (simp_all add: prep_start_def)

lemma prep_ok_start: "prep_ok lookup allowed limits forbidden (prep_start m limits)"
  by (simp add: prep_ok_def prep_start_def)

lemma consume_Ok_iff: "consume p = Ok q \<longleftrightarrow> (\<exists>n. pr_remaining p = Suc n \<and> q = p\<lparr>pr_remaining := n\<rparr>)"
  by (auto simp: consume_def split: nat.splits)

lemma prep_ok_remaining [simp]:
  "prep_ok lookup allowed limits forbidden (p\<lparr>pr_remaining := n\<rparr>) = prep_ok lookup allowed limits forbidden p"
  by (simp add: prep_ok_def)

lemma prep_ok_consume:
  "consume p = Ok q \<Longrightarrow> prep_ok lookup allowed limits forbidden p \<Longrightarrow>
     prep_ok lookup allowed limits forbidden q \<and> pr_prepared q = pr_prepared p"
  by (auto simp: consume_Ok_iff)

text \<open>One resolution: the resource is the exact one, and resources are only added.\<close>

definition prep_extends :: "'v prep \<Rightarrow> 'v prep \<Rightarrow> bool" where
  "prep_extends p q \<longleftrightarrow>
     set (pc_resources (pr_prepared p)) \<subseteq> set (pc_resources (pr_prepared q)) \<and>
     pc_records (pr_prepared q) = pc_records (pr_prepared p) \<and>
     pc_instructions (pr_prepared q) = pc_instructions (pr_prepared p) \<and>
     pc_manifest (pr_prepared q) = pc_manifest (pr_prepared p)"

lemma prep_extends_refl [simp]: "prep_extends p p"
  by (simp add: prep_extends_def)

lemma prep_extends_trans: "prep_extends p q \<Longrightarrow> prep_extends q r \<Longrightarrow> prep_extends p r"
  by (auto simp: prep_extends_def)

lemma resolve_resource_ok:
  assumes res: "resolve_resource lookup limits forbidden ref p = Ok (r, q)"
    and inv: "prep_ok lookup allowed limits forbidden p"
  shows "prep_ok lookup allowed limits forbidden q \<and> prep_extends p q \<and>
         r \<in> set (pc_resources (pr_prepared q)) \<and> rsc_reference r = ref \<and>
         pr_remaining q = pr_remaining p"
proof (cases "pr_resolved p (resource_key ref)")
  case (Some x)
  with res have "r = x" "q = p" by (simp_all add: resolve_resource_def split: if_splits)
  with inv Some show ?thesis by (auto simp: prep_ok_def Let_def resource_key_inj)
next
  case None
  with res obtain bytes where look: "lookup ref = Ok r" "rsc_reference r = ref" "ref \<notin> set forbidden"
    and size: "usize_checked_add (pc_resource_bytes (pr_prepared p)) (length (rsc_bytes r)) = Some bytes"
      "bytes \<le> max_resource_bytes limits"
    and q: "q = p\<lparr>pr_prepared := (pr_prepared p)\<lparr>pc_resource_bytes := bytes,
              pc_resources := pc_resources (pr_prepared p) @ [r]\<rparr>,
            pr_resolved := (pr_resolved p)(resource_key ref \<mapsto> r)\<rparr>"
    by (cases "lookup ref") (auto simp: resolve_resource_def split: if_splits option.splits)
  have new: "\<forall>x \<in> set (pc_resources (pr_prepared p)). rsc_reference x \<noteq> ref"
    using prep_ok_resolved [OF inv] None by auto
  have bytes: "bytes = pc_resource_bytes (pr_prepared p) + length (rsc_bytes r)"
    using size(1) by (simp add: usize_checked_add_def split: if_splits)
  have iff: "pr_resolved q (resource_key k) = Some x \<longleftrightarrow>
      x \<in> set (pc_resources (pr_prepared q)) \<and> rsc_reference x = k" for k x
  proof (cases "k = ref")
    case True
    with new look(2) show ?thesis by (auto simp: q)
  next
    case False
    then have "pr_resolved q (resource_key k) = pr_resolved p (resource_key k)"
      by (simp add: q resource_key_inj)
    moreover have "(x \<in> set (pc_resources (pr_prepared q)) \<and> rsc_reference x = k) =
        (x \<in> set (pc_resources (pr_prepared p)) \<and> rsc_reference x = k)"
      using False look(2) by (auto simp: q)
    ultimately show ?thesis using inv by (simp add: prep_ok_def Let_def)
  qed
  have "distinct (map rsc_reference (pc_resources (pr_prepared q)))"
    using inv new look(2) by (auto simp: q prep_ok_def Let_def)
  with inv look size(2) bytes iff have "prep_ok lookup allowed limits forbidden q"
    unfolding prep_ok_def Let_def by (simp add: q)
  then show ?thesis using look by (simp add: q prep_extends_def subset_insertI)
qed

text \<open>The references a list of contents holds, and what resolving them consumes.\<close>

definition content_refs :: "content list \<Rightarrow> resource_ref list" where
  "content_refs cs = [ref. Resource ref \<leftarrow> cs]"

lemma content_refs_simps [simp]:
  "content_refs [] = []" "content_refs (Text t # cs) = content_refs cs"
  "content_refs (Resource ref # cs) = ref # content_refs cs"
  by (simp_all add: content_refs_def)

definition resolved_refs :: "'v prep \<Rightarrow> resource_ref set" where
  "resolved_refs p = rsc_reference ` set (pc_resources (pr_prepared p))"

lemma prep_extends_refs: "prep_extends p q \<Longrightarrow> resolved_refs p \<subseteq> resolved_refs q"
  by (auto simp: prep_extends_def resolved_refs_def)

lemma prepare_resources_ok:
  assumes "prepare_resources lookup limits forbidden refs p = Ok q"
    and "prep_ok lookup allowed limits forbidden p"
  shows "prep_ok lookup allowed limits forbidden q \<and> prep_extends p q \<and>
         set refs \<subseteq> resolved_refs q \<and> pr_remaining p = pr_remaining q + length refs"
  using assms
proof (induction refs arbitrary: p)
  case Nil
  then show ?case by simp
next
  case (Cons ref refs)
  from Cons.prems(1) obtain p1 r p2 where c: "consume p = Ok p1"
    and r: "resolve_resource lookup limits forbidden ref p1 = Ok (r, p2)"
    and rest: "prepare_resources lookup limits forbidden refs p2 = Ok q"
    by (auto simp: rbind_eq_Ok)
  from prep_ok_consume [OF c Cons.prems(2)] have p1: "prep_ok lookup allowed limits forbidden p1"
    "pr_prepared p1 = pr_prepared p" by blast+
  note R = resolve_resource_ok [OF r p1(1)]
  from R have p2: "prep_ok lookup allowed limits forbidden p2" by blast
  note I = Cons.IH [OF rest p2]
  have "prep_extends p p1" using p1(2) by (simp add: prep_extends_def)
  then have "prep_extends p q" using R I prep_extends_trans by blast
  moreover have "ref \<in> resolved_refs q"
    using R I prep_extends_refs [of p2 q] by (auto simp: resolved_refs_def)
  moreover have "pr_remaining p = Suc (pr_remaining p1)" using c by (auto simp: consume_Ok_iff)
  ultimately show ?case using I R by simp
qed

lemma prepare_contents_resources:
  "prepare_contents lookup limits forbidden cs p = prepare_resources lookup limits forbidden (content_refs cs) p"
  by (induction lookup limits forbidden cs p rule: prepare_contents.induct) (auto simp: split_def)

text \<open>The items a list of snapshots costs: each one and its attachments.\<close>

definition record_refs :: "'v snapshot \<Rightarrow> resource_ref list" where
  "record_refs x = content_refs (message_contents (r_payload (sn_record x)))"

lemma prepare_records_ok:
  assumes "prepare_records get lookup allowed limits forbidden is p = Ok q"
    and "prep_ok lookup allowed limits forbidden p"
  shows "\<exists>xs. prep_ok lookup allowed limits forbidden q \<and>
         set (pc_resources (pr_prepared p)) \<subseteq> set (pc_resources (pr_prepared q)) \<and>
         pc_records (pr_prepared q) = pc_records (pr_prepared p) @ xs \<and>
         map get is = map Ok xs \<and>
         pc_instructions (pr_prepared q) = pc_instructions (pr_prepared p) \<and>
         pc_manifest (pr_prepared q) = pc_manifest (pr_prepared p) \<and>
         (\<forall>x \<in> set xs. set (record_refs x) \<subseteq> resolved_refs q) \<and>
         pr_remaining p = pr_remaining q + length xs + sum_list (map (\<lambda>x. length (record_refs x)) xs)"
  using assms
proof (induction "is" arbitrary: p)
  case Nil
  then show ?case by simp
next
  case (Cons i "is")
  from Cons.prems(1) obtain p1 x p2 where c: "consume p = Ok p1" and x: "get i = Ok x"
    and ok: "r_session (sn_record x) \<in> set allowed" "is_final (sn_state x)"
    and r: "prepare_contents lookup limits forbidden (message_contents (r_payload (sn_record x))) p1 = Ok p2"
    and rest: "prepare_records get lookup allowed limits forbidden is
        (p2\<lparr>pr_prepared := (pr_prepared p2)\<lparr>pc_records := pc_records (pr_prepared p2) @ [x]\<rparr>\<rparr>) = Ok q"
      (is "prepare_records _ _ _ _ _ _ ?p3 = _")
    by (cases "get i") (auto simp: rbind_eq_Ok split: if_splits)
  from prep_ok_consume [OF c Cons.prems(2)] have p1: "prep_ok lookup allowed limits forbidden p1"
    "pr_prepared p1 = pr_prepared p" by blast+
  note R = prepare_resources_ok [OF r [unfolded prepare_contents_resources] p1(1)]
  have "prep_ok lookup allowed limits forbidden ?p3" using R ok by (auto simp: prep_ok_def Let_def)
  from Cons.IH [OF rest this] obtain xs where I: "prep_ok lookup allowed limits forbidden q"
      "set (pc_resources (pr_prepared p2)) \<subseteq> set (pc_resources (pr_prepared q))"
      "pc_records (pr_prepared q) = pc_records (pr_prepared p2) @ [x] @ xs" "map get is = map Ok xs"
      "pc_instructions (pr_prepared q) = pc_instructions (pr_prepared p2)"
      "pc_manifest (pr_prepared q) = pc_manifest (pr_prepared p2)"
      "\<forall>x \<in> set xs. set (record_refs x) \<subseteq> resolved_refs q"
      "pr_remaining p2 = pr_remaining q + length xs + sum_list (map (\<lambda>x. length (record_refs x)) xs)"
    by auto
  have "set (record_refs x) \<subseteq> resolved_refs q"
    using R I(2) unfolding record_refs_def resolved_refs_def by blast
  moreover have "pr_remaining p = Suc (pr_remaining p1)" using c by (auto simp: consume_Ok_iff)
  ultimately show ?case
    using I R p1(2) x by (intro exI [of _ "x # xs"]) (auto simp: prep_extends_def record_refs_def)
qed

lemma prepare_instructions_ok:
  assumes "prepare_instructions lookup limits forbidden ins p = Ok q"
    and "prep_ok lookup allowed limits forbidden p"
  shows "prep_ok lookup allowed limits forbidden q \<and>
         set (pc_resources (pr_prepared p)) \<subseteq> set (pc_resources (pr_prepared q)) \<and>
         pc_records (pr_prepared q) = pc_records (pr_prepared p) \<and>
         map pi_reference (pc_instructions (pr_prepared q)) =
           map pi_reference (pc_instructions (pr_prepared p)) @ ins \<and>
         pc_manifest (pr_prepared q) = pc_manifest (pr_prepared p) \<and>
         pr_remaining p = pr_remaining q + length ins"
  using assms
proof (induction ins arbitrary: p)
  case Nil
  then show ?case by simp
next
  case (Cons i ins)
  from Cons.prems(1) obtain p1 r p2 where c: "consume p = Ok p1"
    and r: "resolve_resource lookup limits forbidden (ins_resource i) p1 = Ok (r, p2)"
    and ok: "text_resource r"
    and rest: "prepare_instructions lookup limits forbidden ins
        (p2\<lparr>pr_prepared := (pr_prepared p2)\<lparr>pc_instructions := pc_instructions (pr_prepared p2) @
             [\<lparr>pi_reference = i, pi_resource = r\<rparr>]\<rparr>\<rparr>) = Ok q" (is "prepare_instructions _ _ _ _ ?p3 = _")
    by (auto simp: rbind_eq_Ok split: if_splits)
  from prep_ok_consume [OF c Cons.prems(2)] have p1: "prep_ok lookup allowed limits forbidden p1"
    "pr_prepared p1 = pr_prepared p" by blast+
  note R = resolve_resource_ok [OF r p1(1)]
  have "prep_ok lookup allowed limits forbidden ?p3" using R ok by (auto simp: prep_ok_def Let_def)
  note I = Cons.IH [OF rest this]
  have "pr_remaining p = Suc (pr_remaining p1)" using c by (auto simp: consume_Ok_iff)
  then show ?case using I R p1(2) by (auto simp: prep_extends_def)
qed

subsection \<open>Prepared contexts\<close>

text \<open>What a prepared context is, against the stores it was resolved from.\<close>

definition context_exact ::
  "(record_id \<Rightarrow> ('v snapshot, store_error) result) \<Rightarrow> resource_lookup \<Rightarrow> session_id list \<Rightarrow>
   'v prepared_context \<Rightarrow> bool" where
  "context_exact get lookup allowed c \<longleftrightarrow>
     map get (cm_records (pc_manifest c)) = map Ok (pc_records c) \<and>
     (\<forall>x \<in> set (pc_records c). r_session (sn_record x) \<in> set allowed \<and> is_final (sn_state x)) \<and>
     map pi_reference (pc_instructions c) = cm_instructions (pc_manifest c) \<and>
     (\<forall>i \<in> set (pc_instructions c). text_resource (pi_resource i) \<and>
        lookup (ins_resource (pi_reference i)) = Ok (pi_resource i)) \<and>
     (\<forall>r \<in> set (pc_resources c). lookup (rsc_reference r) = Ok r) \<and>
     distinct (map rsc_reference (pc_resources c)) \<and>
     set (cm_resources (pc_manifest c)) \<union> set (map ins_resource (cm_instructions (pc_manifest c))) \<union>
       (\<Union>x \<in> set (pc_records c). set (record_refs x)) \<subseteq> rsc_reference ` set (pc_resources c)"

definition context_within :: "context_limits \<Rightarrow> 'v prepared_context \<Rightarrow> bool" where
  "context_within limits c \<longleftrightarrow>
     length (pc_records c) + sum_list (map (\<lambda>x. length (record_refs x)) (pc_records c)) +
       length (pc_instructions c) + length (cm_resources (pc_manifest c)) \<le> max_items limits \<and>
     pc_resource_bytes c = sum_list (map (\<lambda>r. length (rsc_bytes r)) (pc_resources c)) \<and>
     pc_resource_bytes c \<le> max_resource_bytes limits"

lemma prepare_inner_ok:
  assumes "prepare_inner m get lookup allowed limits forbidden = Ok c"
  shows "pc_manifest c = m \<and> context_exact get lookup allowed c \<and> context_within limits c \<and>
         (\<forall>r \<in> set (pc_resources c). rsc_reference r \<notin> set forbidden)"
proof -
  obtain p1 p2 p3 where
    r1: "prepare_records get lookup allowed limits forbidden (cm_records m) (prep_start m limits) = Ok p1" and
    r2: "prepare_instructions lookup limits forbidden (cm_instructions m) p1 = Ok p2" and
    r3: "prepare_resources lookup limits forbidden (cm_resources m) p2 = Ok p3" and
    c: "c = pr_prepared p3"
    using assms by (auto simp: prepare_inner_def rbind_eq_Ok)
  obtain xs where A: "prep_ok lookup allowed limits forbidden p1"
      "pc_records (pr_prepared p1) = xs" "map get (cm_records m) = map Ok xs"
      "pc_instructions (pr_prepared p1) = []" "pc_manifest (pr_prepared p1) = m"
      "\<forall>x \<in> set xs. set (record_refs x) \<subseteq> resolved_refs p1"
      "max_items limits = pr_remaining p1 + length xs + sum_list (map (\<lambda>x. length (record_refs x)) xs)"
    using prepare_records_ok [OF r1 prep_ok_start] by auto
  note B = prepare_instructions_ok [OF r2 A(1)]
  then have "prep_ok lookup allowed limits forbidden p2" by blast
  note D = prepare_resources_ok [OF r3 this]
  have inv: "prep_ok lookup allowed limits forbidden p3" using D by blast
  have man: "pc_manifest c = m" and recs: "pc_records c = xs"
    and ins: "map pi_reference (pc_instructions c) = cm_instructions m"
    using A B D by (simp_all add: c prep_extends_def)
  have "resolved_refs p1 \<subseteq> resolved_refs p3" "set (cm_resources m) \<subseteq> resolved_refs p3"
    using B D by (auto simp: resolved_refs_def prep_extends_def)
  moreover have insres: "\<forall>i \<in> set (pc_instructions c). text_resource (pi_resource i) \<and>
      pi_resource i \<in> set (pc_resources c) \<and> rsc_reference (pi_resource i) = ins_resource (pi_reference i)"
    using inv by (simp add: prep_ok_def Let_def c)
  moreover have "set (map ins_resource (cm_instructions m)) \<subseteq> resolved_refs p3"
  proof
    fix ref assume "ref \<in> set (map ins_resource (cm_instructions m))"
    then obtain i where "i \<in> set (pc_instructions c)" "ref = ins_resource (pi_reference i)"
      unfolding ins [symmetric] by auto
    with insres show "ref \<in> resolved_refs p3" by (force simp: resolved_refs_def c)
  qed
  ultimately have refs: "set (cm_resources m) \<union> set (map ins_resource (cm_instructions m)) \<union>
       (\<Union>x \<in> set xs. set (record_refs x)) \<subseteq> resolved_refs p3" using A(6) by blast
  have look: "\<forall>r \<in> set (pc_resources c). lookup (rsc_reference r) = Ok r \<and> rsc_reference r \<notin> set forbidden"
    and recs_ok: "\<forall>x \<in> set (pc_records c). r_session (sn_record x) \<in> set allowed \<and> is_final (sn_state x)"
    and dist: "distinct (map rsc_reference (pc_resources c))"
    and bytes: "pc_resource_bytes c = sum_list (map (\<lambda>r. length (rsc_bytes r)) (pc_resources c))"
      "pc_resource_bytes c \<le> max_resource_bytes limits"
    using inv unfolding prep_ok_def Let_def c by blast+
  have "\<forall>i \<in> set (pc_instructions c). lookup (ins_resource (pi_reference i)) = Ok (pi_resource i)"
    using insres look by metis
  then have "context_exact get lookup allowed c"
    unfolding context_exact_def man recs
    using A(3) recs_ok recs ins insres look dist refs by (simp add: resolved_refs_def c)
  moreover have "length (pc_instructions c) = length (cm_instructions m)"
    using arg_cong [OF ins, of length] by simp
  then have "context_within limits c"
    using bytes A(7) B D by (simp add: context_within_def recs man)
  ultimately show ?thesis using man look by blast
qed

subsection \<open>The policy's omissions and authorization\<close>

definition item_in :: "context_item \<Rightarrow> context_manifest \<Rightarrow> bool" where
  "item_in item m =
     (case item of
        RecordItem i \<Rightarrow> i \<in> set (cm_records m)
      | InstructionItem i \<Rightarrow> i \<in> set (cm_instructions m)
      | ResourceItem r \<Rightarrow> r \<in> set (cm_resources m))"

definition manifest_subset :: "context_manifest \<Rightarrow> context_manifest \<Rightarrow> bool" where
  "manifest_subset m n \<longleftrightarrow>
     set (cm_records m) \<subseteq> set (cm_records n) \<and>
     set (cm_instructions m) \<subseteq> set (cm_instructions n) \<and>
     set (cm_resources m) \<subseteq> set (cm_resources n)"

lemma item_in_subset: "manifest_subset m n \<Longrightarrow> item_in i m \<Longrightarrow> item_in i n"
  by (auto simp: manifest_subset_def item_in_def split: context_item.splits)

lemma apply_omissions_ok:
  assumes "apply_omissions oms m omitted forbidden = Ok (m', omitted', forbidden')"
    and "\<forall>i \<in> set omitted. \<not> item_in i m"
    and "\<forall>r. ResourceItem r \<in> set omitted \<longrightarrow> r \<in> set forbidden"
  shows "manifest_subset m' m \<and> omitted' = omitted @ map om_item oms \<and>
         (\<forall>i \<in> set omitted'. \<not> item_in i m') \<and>
         (\<forall>r. ResourceItem r \<in> set omitted' \<longrightarrow> r \<in> set forbidden')"
  using assms
proof (induction oms arbitrary: m omitted forbidden)
  case Nil
  then show ?case by (simp add: manifest_subset_def)
next
  case (Cons om oms)
  let ?item = "om_item om"
  define m1 where "m1 = (case ?item of
      RecordItem i \<Rightarrow> m\<lparr>cm_records := filter (\<lambda>x. x \<noteq> i) (cm_records m)\<rparr>
    | InstructionItem i \<Rightarrow> m\<lparr>cm_instructions := filter (\<lambda>x. x \<noteq> i) (cm_instructions m)\<rparr>
    | ResourceItem r \<Rightarrow> m\<lparr>cm_resources := filter (\<lambda>x. x \<noteq> r) (cm_resources m)\<rparr>)"
  define f1 where "f1 = (case ?item of ResourceItem r \<Rightarrow> forbidden @ [r] | _ \<Rightarrow> forbidden)"
  from Cons.prems(1) have rest: "apply_omissions oms m1 (omitted @ [?item]) f1 = Ok (m', omitted', forbidden')"
    by (cases ?item) (auto simp: m1_def f1_def Let_def split: if_splits)
  have sub: "manifest_subset m1 m"
    by (auto simp: m1_def manifest_subset_def split: context_item.splits)
  have gone: "\<not> item_in ?item m1"
    by (auto simp: m1_def item_in_def split: context_item.splits)
  have "\<forall>i \<in> set (omitted @ [?item]). \<not> item_in i m1"
    using Cons.prems(2) gone item_in_subset [OF sub] by auto
  moreover have "\<forall>r. ResourceItem r \<in> set (omitted @ [?item]) \<longrightarrow> r \<in> set f1"
    using Cons.prems(3) by (auto simp: f1_def split: context_item.splits)
  ultimately have "manifest_subset m' m1 \<and> omitted' = (omitted @ [?item]) @ map om_item oms \<and>
         (\<forall>i \<in> set omitted'. \<not> item_in i m') \<and>
         (\<forall>r. ResourceItem r \<in> set omitted' \<longrightarrow> r \<in> set forbidden')"
    using Cons.IH [OF rest] by blast
  with sub show ?case by (auto simp: manifest_subset_def)
qed

lemma apply_skills_ok:
  assumes "apply_skills ss omitted m forbidden = Ok (m', forbidden')"
  shows "set forbidden \<subseteq> set forbidden' \<and>
    cm_records m' = cm_records m \<and>
    set (cm_instructions m') \<subseteq> set (cm_instructions m) \<union> set (map skill_instruction ss) \<and>
    (\<forall>s \<in> set ss. \<forall>reason. sk_delivery s = Omit reason \<longrightarrow> sk_resource s \<in> set forbidden') \<and>
    (\<forall>s \<in> set ss. sk_delivery s = SupplementalText \<longrightarrow> skill_instruction s \<in> set (cm_instructions m')) \<and>
    (\<forall>i. InstructionItem i \<in> set omitted \<longrightarrow> i \<notin> set (cm_instructions m) \<longrightarrow>
       i \<notin> set (cm_instructions m'))"
  using assms
proof (induction ss omitted m forbidden rule: apply_skills.induct)
  case (2 s ss omitted m forbidden)
  show ?case
  proof (cases "sk_delivery s")
    case RequireNative
    with "2.prems" "2.IH"(1) show ?thesis by (auto split: if_splits)
  next
    case SupplementalText
    with "2.prems" have no: "InstructionItem (skill_instruction s) \<notin> set omitted"
      and run: "apply_skills ss omitted
          (if skill_instruction s \<in> set (cm_instructions m) then m
           else m\<lparr>cm_instructions := cm_instructions m @ [skill_instruction s]\<rparr>) forbidden = Ok (m', forbidden')"
      by (auto split: if_splits)
    have mono: "set (cm_instructions m0) \<subseteq> set (cm_instructions m')"
      if "apply_skills ss omitted m0 f0 = Ok (m', f')" for m0 f0 f'
      using that
      by (induction ss omitted m0 f0 rule: apply_skills.induct)
        (auto split: skill_delivery.splits if_splits)
    from mono [OF run] have "skill_instruction s \<in> set (cm_instructions m')" by (auto split: if_splits)
    with "2.IH"(2) [OF SupplementalText no run] SupplementalText no show ?thesis
      by (auto split: if_splits)
  next
    case (Omit reason)
    with "2.prems" "2.IH"(3) show ?thesis by auto
  qed
qed simp

lemma prepare_with_policy_Ok:
  assumes "prepare_with_policy m get lookup allowed limits policy = Ok c"
  obtains sel omitted forbidden sel' forbidden' c0 where
    "apply_omissions (pol_omissions policy) m [] [] = Ok (sel, omitted, forbidden)"
    "apply_skills (pol_skills policy) omitted sel forbidden = Ok (sel', forbidden')"
    "prepare_inner sel' get lookup allowed limits forbidden' = Ok c0"
    "check_skills (pol_skills policy) (pc_resources c0) = Ok ()"
    "c = c0\<lparr>pc_requested_manifest := m, pc_policy := policy\<rparr>"
    "\<not> authorization_bad (pol_authorization policy) (cm_instructions (authorized_manifest m policy))"
    "\<not> skills_bad (pol_skills policy)"
  using assms
  by (auto simp: prepare_with_policy_def rbind_eq_Ok split_def split: if_splits)

lemma check_skills_Ok_iff:
  "check_skills ss resources = Ok () \<longleftrightarrow>
     (\<forall>s \<in> set ss. (\<exists>reason. sk_delivery s = Omit reason) \<or>
        (\<exists>r. find (\<lambda>r. rsc_reference r = sk_resource s) resources = Some r \<and> text_resource r))"
  by (induction ss) (auto split: skill_delivery.splits option.splits)

subsection \<open>Properties\<close>

text \<open>
  C17: A prepared context is exact and within its limits. Its records are what the store
  holds under the selected identifiers, finalized and from the allowed sessions; each
  instruction is the exact stored revision and valid text; every resource a selection or a
  selected message names is resolved once, to what the resource store holds; records,
  attachments, instructions and resources together stay within the item limit and the bytes
  within the byte limit.
\<close>

theorem context_prepared_exact:
  assumes "prepare_with_policy m get lookup allowed limits policy = Ok c"
  shows "context_exact get lookup allowed c \<and> context_within limits c \<and>
         pc_requested_manifest c = m \<and> pc_policy c = policy"
  using assms
proof (rule prepare_with_policy_Ok)
  fix sel' forbidden' and c0 :: "'a prepared_context"
  assume "prepare_inner sel' get lookup allowed limits forbidden' = Ok c0"
    and c: "c = c0\<lparr>pc_requested_manifest := m, pc_policy := policy\<rparr>"
  from prepare_inner_ok [OF this(1)]
  have "context_exact get lookup allowed c0" "context_within limits c0" by blast+
  then show ?thesis by (simp add: c context_exact_def context_within_def)
qed

definition sample_snapshot :: "nat snapshot" where
  "sample_snapshot =
     \<lparr>sn_record = \<lparr>r_id = Ident ''m'', r_session = Ident ''s'', r_run = None, r_sequence = 0,
        r_actor = Ident ''a'', r_reply = None,
        r_payload = PMessage User \<lparr>msg_content = [Resource \<lparr>res_id = Ident ''d'', res_revision = ''1''\<rparr>]\<rparr>\<rparr>,
      sn_source = None, sn_revision = 0, sn_state = Complete\<rparr>"

definition sample_get :: "record_id \<Rightarrow> (nat snapshot, store_error) result" where
  "sample_get i = (if i = Ident ''m'' then Ok sample_snapshot else Err MissingRecord)"

definition sample_lookup :: resource_lookup where
  "sample_lookup ref = resources_get ref (snd (resources_put (sample_resource ''x'') resources_default))"

definition sample_instruction :: instruction_ref where
  "sample_instruction =
     \<lparr>ins_resource = \<lparr>res_id = Ident ''d'', res_revision = ''1''\<rparr>, ins_role = Supplemental\<rparr>"

definition sample_manifest :: context_manifest where
  "sample_manifest =
     \<lparr>cm_records = [Ident ''m''], cm_instructions = [sample_instruction], cm_resources = [\<lparr>res_id = Ident ''z'', res_revision = ''1''\<rparr>]\<rparr>"

definition sample_policy :: context_policy where
  "sample_policy = (policy_for_host (Ident ''h'') [sample_instruction])
     \<lparr>pol_omissions := [\<lparr>om_item = ResourceItem \<lparr>res_id = Ident ''z'', res_revision = ''1''\<rparr>, om_reason = ''x''\<rparr>]\<rparr>"

definition sample_limits :: context_limits where
  "sample_limits = \<lparr>max_items = 3, max_resource_bytes = 1\<rparr>"

lemma sample_lookup_eq:
  "sample_lookup \<lparr>res_id = Ident ''d'', res_revision = ''1''\<rparr> = Ok (sample_resource ''x'')"
  by (simp add: sample_lookup_def resources_put_def resources_get_def resources_default_def
      sample_resource_def sample_resource_not_blank resource_key_def)

lemma sample_text: "text_resource (sample_resource ''x'')" "\<not> blank ''x''"
proof -
  have "trim ''text/plain'' = ''text/plain''" by (rule trim_plain) (simp_all add: plain_char_def)
  then show "text_resource (sample_resource ''x'')"
    by (simp add: text_resource_def text_media_def sample_resource_def byte_in_def)
  show "\<not> blank ''x''" by (rule not_blank_plain) (simp_all add: plain_char_def)
qed

lemma sample_prepared: "\<exists>c. prepare_with_policy sample_manifest sample_get sample_lookup [Ident ''s'']
    sample_limits sample_policy = Ok c"
  by (simp add: prepare_with_policy_def check_count_def usize_checked_add_def sample_manifest_def
      sample_limits_def sample_policy_def policy_for_host_def skills_bad_def authorized_manifest_def
      authorization_bad_def prepare_inner_def prep_start_def consume_def sample_text)
    (simp add: sample_get_def sample_snapshot_def is_final_def message_contents_def consume_def
      resolve_resource_def sample_lookup_eq sample_text sample_instruction_def
      usize_checked_add_def resource_key_def, simp add: sample_resource_def)

theorem context_prepared_exact_witness:
  "\<exists>c. prepare_with_policy sample_manifest sample_get sample_lookup [Ident ''s'']
         sample_limits sample_policy = Ok c \<and> context_within sample_limits c"
  using sample_prepared context_prepared_exact by blast

text \<open>
  C16: A policy's authorization and omissions are enforced. When preparation succeeds, the
  requester is the subject of the instruction grant, every supplied instruction was granted
  exactly, no item the policy omits is part of the prepared manifest, no resource it omits
  (directly or as a skill) was resolved at all, and every skill that is not omitted was
  resolved as text.
\<close>

theorem context_policy_enforced:
  assumes "prepare_with_policy m get lookup allowed limits policy = Ok c"
  shows "(\<forall>i \<in> set (cm_instructions (pc_manifest c)). \<exists>auth. pol_authorization policy = Some auth \<and>
            ia_requester auth = ig_subject (ia_grant auth) \<and> i \<in> set (ig_instructions (ia_grant auth))) \<and>
         (\<forall>om \<in> set (pol_omissions policy). \<not> item_in (om_item om) (pc_manifest c)) \<and>
         (\<forall>om \<in> set (pol_omissions policy). \<forall>ref. om_item om = ResourceItem ref \<longrightarrow>
            ref \<notin> rsc_reference ` set (pc_resources c)) \<and>
         (\<forall>s \<in> set (pol_skills policy).
            if \<exists>reason. sk_delivery s = Omit reason then sk_resource s \<notin> rsc_reference ` set (pc_resources c)
            else \<exists>r \<in> set (pc_resources c). rsc_reference r = sk_resource s \<and> text_resource r)"
  using assms
proof (rule prepare_with_policy_Ok)
  fix sel omitted forbidden sel' forbidden' and c0 :: "'a prepared_context"
  assume om: "apply_omissions (pol_omissions policy) m [] [] = Ok (sel, omitted, forbidden)"
    and sk: "apply_skills (pol_skills policy) omitted sel forbidden = Ok (sel', forbidden')"
    and pre: "prepare_inner sel' get lookup allowed limits forbidden' = Ok c0"
    and chk: "check_skills (pol_skills policy) (pc_resources c0) = Ok ()"
    and c: "c = c0\<lparr>pc_requested_manifest := m, pc_policy := policy\<rparr>"
    and auth: "\<not> authorization_bad (pol_authorization policy) (cm_instructions (authorized_manifest m policy))"
  note O = apply_omissions_ok [OF om, simplified]
  note S = apply_skills_ok [OF sk]
  note P = prepare_inner_ok [OF pre]
  have man: "pc_manifest c = sel'" and res: "pc_resources c = pc_resources c0" using P by (simp_all add: c)
  have no_forbidden: "ref \<notin> rsc_reference ` set (pc_resources c)" if "ref \<in> set forbidden'" for ref
    using that P by (auto simp: c)
  have resolved: "set (cm_resources sel') \<subseteq> rsc_reference ` set (pc_resources c)"
    using P unfolding context_exact_def res by blast
  have "set (cm_instructions sel') \<subseteq> set (cm_instructions (authorized_manifest m policy))"
    using O S unfolding authorized_manifest_def manifest_subset_def by auto
  then have 1: "\<forall>i \<in> set (cm_instructions sel'). \<exists>a. pol_authorization policy = Some a \<and>
      ia_requester a = ig_subject (ia_grant a) \<and> i \<in> set (ig_instructions (ia_grant a))"
    using auth by (cases "pol_authorization policy") (auto simp: authorization_bad_def)
  have 2: "\<not> item_in (om_item x) sel'" if o: "x \<in> set (pol_omissions policy)" for x
  proof -
    have omitted: "om_item x \<in> set omitted" "\<not> item_in (om_item x) sel" using o O by auto
    show ?thesis
    proof (cases "om_item x")
    case (RecordItem i)
    with omitted have "i \<notin> set (cm_records sel)" by (auto simp: item_in_def)
    with RecordItem S show ?thesis by (simp add: item_in_def)
  next
    case (InstructionItem i)
    with omitted have "InstructionItem i \<in> set omitted" "i \<notin> set (cm_instructions sel)"
      by (auto simp: item_in_def)
    with S have "i \<notin> set (cm_instructions sel')" by blast
    with InstructionItem show ?thesis by (simp add: item_in_def)
  next
    case (ResourceItem ref)
    with omitted have "ResourceItem ref \<in> set omitted" by simp
    with O S have "ref \<in> set forbidden'" by blast
    with no_forbidden resolved have "ref \<notin> set (cm_resources sel')" by blast
    with ResourceItem show ?thesis by (simp add: item_in_def)
  qed
  qed
  have 3: "ref \<notin> rsc_reference ` set (pc_resources c)"
    if "x \<in> set (pol_omissions policy)" "om_item x = ResourceItem ref" for x ref
  proof (rule no_forbidden)
    have "ResourceItem ref \<in> om_item ` set (pol_omissions policy)" using that by (metis imageI)
    then have "ResourceItem ref \<in> set omitted" using O by simp
    then show "ref \<in> set forbidden'" using O S by blast
  qed
  have 4: "if \<exists>reason. sk_delivery s = Omit reason then sk_resource s \<notin> rsc_reference ` set (pc_resources c)
            else \<exists>r \<in> set (pc_resources c). rsc_reference r = sk_resource s \<and> text_resource r"
    if "s \<in> set (pol_skills policy)" for s
  proof (cases "\<exists>reason. sk_delivery s = Omit reason")
    case True
    with that S have "sk_resource s \<in> set forbidden'" by blast
    with True no_forbidden show ?thesis by simp
  next
    case False
    with that chk obtain r where "find (\<lambda>r. rsc_reference r = sk_resource s) (pc_resources c0) = Some r"
      "text_resource r" unfolding check_skills_Ok_iff by blast
    then have "r \<in> set (pc_resources c)" "rsc_reference r = sk_resource s" "text_resource r"
      unfolding res by (auto simp: find_Some_iff)
    with False show ?thesis by auto
  qed
  show ?thesis unfolding man using 1 2 3 4 by blast
qed

theorem context_policy_enforced_witness:
  "\<exists>c. prepare_with_policy sample_manifest sample_get sample_lookup [Ident ''s'']
         sample_limits sample_policy = Ok c \<and>
       \<lparr>res_id = Ident ''z'', res_revision = ''1''\<rparr> \<notin> rsc_reference ` set (pc_resources c)"
  using sample_prepared context_policy_enforced [of sample_manifest sample_get sample_lookup
      "[Ident ''s'']" sample_limits sample_policy]
  by (fastforce simp: sample_policy_def)

end
