(* ===== verification/Text_Format.thy ===== *)
theory Text_Format imports Prelude begin

section \<open>Formatted text\<close>

text \<open>
  The parts of Rust's \<open>format!\<close> the identifiers of the program are built with: decimal
  numbers and length-prefixed strings. A length prefix makes a composed identifier
  unambiguous; \<open>sized_inj\<close> is that fact.
\<close>

function decimal :: "nat \<Rightarrow> string" where
  "decimal n = (if n < 10 then [char_of (48 + n)] else decimal (n div 10) @ [char_of (48 + n mod 10)])"
  by pat_completeness auto
termination by (relation "measure id") auto

declare decimal.simps [simp del]

text \<open>\<open>format!("{}:{s}", s.len())\<close>\<close>

definition sized :: "string \<Rightarrow> string" where
  "sized s = decimal (length s) @ '':'' @ s"

definition is_digit :: "char \<Rightarrow> bool" where
  "is_digit c \<longleftrightarrow> 48 \<le> (of_char c :: nat) \<and> (of_char c :: nat) \<le> 57"

lemma of_char_digit: "d < 10 \<Longrightarrow> of_char (char_of (48 + d :: nat) :: char) = 48 + d"
  by (simp add: of_char_of)

lemma decimal_digits: "list_all is_digit (decimal n)"
proof (induction n rule: decimal.induct)
  case (1 n)
  show ?case
  proof (cases "n < 10")
    case True
    then show ?thesis by (simp add: decimal.simps [of n] is_digit_def of_char_digit)
  next
    case False
    have "is_digit (char_of (48 + n mod 10))" by (simp add: is_digit_def of_char_digit)
    with 1 False show ?thesis by (simp add: decimal.simps [of n])
  qed
qed

definition undecimal :: "string \<Rightarrow> nat" where
  "undecimal s = foldl (\<lambda>n c. 10 * n + (of_char c - 48)) 0 s"

lemma undecimal_snoc: "undecimal (s @ [c]) = 10 * undecimal s + (of_char c - 48)"
  by (simp add: undecimal_def)

lemma undecimal_decimal: "undecimal (decimal n) = n"
proof (induction n rule: decimal.induct)
  case (1 n)
  show ?case
  proof (cases "n < 10")
    case True
    then show ?thesis by (simp add: decimal.simps [of n] undecimal_def of_char_digit)
  next
    case False
    have "(of_char (char_of (48 + n mod 10) :: char) :: nat) = 48 + n mod 10"
      by (rule of_char_digit) simp
    with 1 False show ?thesis
      by (simp add: decimal.simps [of n] undecimal_snoc)
  qed
qed

lemma decimal_inj: "decimal m = decimal n \<longleftrightarrow> m = n"
  using undecimal_decimal by metis

lemma colon_not_digit: "\<not> is_digit (CHR '':'')"
  by (simp add: is_digit_def)

text \<open>Text behind a run of digits is found again at the first non-digit.\<close>

lemma digits_split:
  assumes "xs @ c # s = ys @ d # t" and "list_all is_digit xs" and "list_all is_digit ys"
    and "\<not> is_digit c" and "\<not> is_digit d"
  shows "xs = ys \<and> c = d \<and> s = t"
proof -
  have "takeWhile is_digit (xs @ c # s) = xs" "dropWhile is_digit (xs @ c # s) = c # s"
    using assms(2,4) by (simp_all add: list_all_iff takeWhile_append dropWhile_append)
  moreover have "takeWhile is_digit (ys @ d # t) = ys" "dropWhile is_digit (ys @ d # t) = d # t"
    using assms(3,5) by (simp_all add: list_all_iff takeWhile_append dropWhile_append)
  ultimately show ?thesis using assms(1) by simp
qed

lemma sized_append_inj: "sized s @ u = sized t @ v \<longleftrightarrow> s = t \<and> u = v"
proof
  assume "sized s @ u = sized t @ v"
  then have eq: "decimal (length s) @ CHR '':'' # (s @ u) = decimal (length t) @ CHR '':'' # (t @ v)"
    by (simp add: sized_def)
  from digits_split [OF this decimal_digits decimal_digits colon_not_digit colon_not_digit]
  have "length s = length t" "s @ u = t @ v" by (simp_all add: decimal_inj)
  then show "s = t \<and> u = v" by simp
qed simp

lemma sized_inj: "sized s = sized t \<longleftrightarrow> s = t"
  using sized_append_inj [of s "[]" t "[]"] by simp

end
