(* ===== verification/Questions.thy ===== *)
theory Questions imports Memory_Contracts Text_Format begin

section \<open>Awaitable questions (src/questions.rs)\<close>

text \<open>
  \<open>PendingQuestion\<close> and its responders. The gate is the mutex-protected pair of the
  source: the sender half of the one-shot channel and the resolution the responders saw.
  \<open>gate_channel\<close> is what the channel holds. Every responder call runs under the gate's
  lock, so calls are steps; the store is any record store \<open>S\<close>, whose state other
  components may change between the steps.
\<close>

datatype question_error = QStore store_error | NotQuestion | AlreadyExists | ReceiverClosed

record 'v gate =
  gate_poisoned :: bool
  gate_sender :: bool
  gate_resolved :: "'v snapshot option"
  gate_channel :: "'v snapshot option"

record 'v shared =
  sh_request :: "'v snapshot"
  sh_host :: actor_id

definition fresh_gate :: "'v gate" where
  "fresh_gate = \<lparr>gate_poisoned = False, gate_sender = True, gate_resolved = None, gate_channel = None\<rparr>"

text \<open>\<open>format!("question/{}:{raw_id}/answer", raw_id.len())\<close>\<close>

definition answer_text :: "string \<Rightarrow> string" where
  "answer_text raw = ''question/'' @ sized raw @ ''/answer''"

definition answer_draft :: "'v shared \<Rightarrow> record_id \<Rightarrow> actor_id \<Rightarrow> answer_outcome \<Rightarrow> 'v draft" where
  "answer_draft sh i actor outcome =
     (let r = sn_record (sh_request sh) in
      \<lparr>d_id = i, d_session = r_session r, d_run = r_run r, d_actor = actor,
       d_reply = Some (r_id r), d_source = None, d_payload = PAnswer outcome Stored,
       d_state = Complete\<rparr>)"

definition responder_resolve ::
  "('v, 's) record_store_ops \<Rightarrow> 'v shared \<Rightarrow> actor_id \<Rightarrow> answer_outcome \<Rightarrow> bool \<Rightarrow>
   's \<times> 'v gate \<Rightarrow> ('v snapshot, question_error) result \<times> 's \<times> 'v gate" where
  "responder_resolve S sh actor outcome accept_existing sg =
     (case sg of (s, g) \<Rightarrow>
       if gate_poisoned g then (Err (QStore Poisoned), s, g)
       else
         (case gate_resolved g of
            Some existing \<Rightarrow>
              (if accept_existing \<or>
                  (r_actor (sn_record existing) = actor \<and>
                   r_payload (sn_record existing) = PAnswer outcome Stored)
               then Ok existing else Err (QStore AlreadyResolved), s, g)
          | None \<Rightarrow>
              (case id_new (answer_text (as_str (r_id (sn_record (sh_request sh))))) of
                 Ok i \<Rightarrow>
                   (case op_resolve S (r_id (sn_record (sh_request sh))) (sn_revision (sh_request sh))
                           (answer_draft sh i actor outcome) s of
                      (Ok answer, s') \<Rightarrow>
                        (Ok answer, s',
                         g\<lparr>gate_resolved := Some answer, gate_sender := False,
                           gate_channel := (if gate_sender g then Some answer else gate_channel g)\<rparr>)
                    | (Err e, s') \<Rightarrow> (Err (QStore e), s', g)
                    | (Panic, s') \<Rightarrow> (Panic, s', g\<lparr>gate_poisoned := True\<rparr>))
               | _ \<Rightarrow> (Panic, s, g\<lparr>gate_poisoned := True\<rparr>))))"

definition responder_answer ::
  "('v, 's) record_store_ops \<Rightarrow> 'v shared \<Rightarrow> actor_id \<Rightarrow> answer_outcome \<Rightarrow>
   's \<times> 'v gate \<Rightarrow> ('v snapshot, question_error) result \<times> 's \<times> 'v gate" where
  "responder_answer S sh actor outcome = responder_resolve S sh actor outcome False"

definition responder_cancel ::
  "('v, 's) record_store_ops \<Rightarrow> 'v shared \<Rightarrow>
   's \<times> 'v gate \<Rightarrow> ('v snapshot, question_error) result \<times> 's \<times> 'v gate" where
  "responder_cancel S sh = responder_resolve S sh (sh_host sh) AnswerCancelled True"

definition question_open ::
  "('v, 's) record_store_ops \<Rightarrow> 'v draft \<Rightarrow> actor_id \<Rightarrow> 's \<Rightarrow>
   ('v shared \<times> 'v gate, question_error) result \<times> 's" where
  "question_open S request host s =
     (if (\<forall>q. d_payload request \<noteq> PQuestion q) \<or> d_state request \<noteq> Open then (Err NotQuestion, s)
      else
        (case op_get S (d_id request) s of
           Ok _ \<Rightarrow> (Err AlreadyExists, s)
         | Panic \<Rightarrow> (Panic, s)
         | Err e \<Rightarrow>
             if e \<noteq> MissingRecord then (Err (QStore e), s)
             else
               (case op_insert S request s of
                  (Ok x, s') \<Rightarrow>
                    (if sn_state x \<noteq> Open then Err (QStore Finalized)
                     else Ok (\<lparr>sh_request = x, sh_host = host\<rparr>, fresh_gate), s')
                | (Err e, s') \<Rightarrow> (Err (QStore e), s')
                | (Panic, s') \<Rightarrow> (Panic, s'))))"

text \<open>
  One poll of \<open>wait\<close>: the receiver first, then the cancellation token; \<open>None\<close> when
  neither is ready. Dropping the pending question is a cancellation whose result is ignored.
\<close>

definition question_poll ::
  "('v, 's) record_store_ops \<Rightarrow> 'v shared \<Rightarrow> bool \<Rightarrow> 's \<times> 'v gate \<Rightarrow>
   ('v snapshot, question_error) result option \<times> 's \<times> 'v gate" where
  "question_poll S sh cancelled sg =
     (case gate_channel (snd sg) of
        Some answer \<Rightarrow> (Some (Ok answer), sg)
      | None \<Rightarrow>
          if \<not> gate_sender (snd sg) then (Some (Err ReceiverClosed), sg)
          else if cancelled then (case responder_cancel S sh sg of (res, sg') \<Rightarrow> (Some res, sg'))
          else (None, sg))"

definition question_drop :: "('v, 's) record_store_ops \<Rightarrow> 'v shared \<Rightarrow> 's \<times> 'v gate \<Rightarrow> 's \<times> 'v gate" where
  "question_drop S sh sg = snd (responder_cancel S sh sg)"

text \<open>What can happen to an open question: responders, the waiter, and everything else.\<close>

inductive question_step ::
  "('v, 's) record_store_ops \<Rightarrow> 'v shared \<Rightarrow> 's \<times> 'v gate \<Rightarrow> 's \<times> 'v gate \<Rightarrow> bool" for S sh where
  answer: "question_step S sh sg (snd (responder_answer S sh actor outcome sg))"
| poll: "question_step S sh sg (snd (question_poll S sh cancelled sg))"
| drop: "question_step S sh sg (question_drop S sh sg)"
| other: "question_step S sh (s, g) (store_exec S oper s, g)"

inductive_cases question_stepE: "question_step S sh sg sg'"

inductive question_steps ::
  "('v, 's) record_store_ops \<Rightarrow> 'v shared \<Rightarrow> 's \<times> 'v gate \<Rightarrow> 's \<times> 'v gate \<Rightarrow> bool" for S sh where
  refl: "question_steps S sh sg sg"
| step: "question_steps S sh sg sg' \<Longrightarrow> question_step S sh sg' sg'' \<Longrightarrow> question_steps S sh sg sg''"

subsection \<open>Answer identifiers\<close>

lemma answer_text_inj: "answer_text a = answer_text b \<longleftrightarrow> a = b"
  unfolding answer_text_def by (simp add: sized_inj)

lemma answer_text_new: "id_new (answer_text raw) = Ok (Ident (answer_text raw))"
proof -
  have "\<not> blank (answer_text raw)"
    by (rule not_blank_plain) (simp_all add: answer_text_def plain_char_def)
  then show ?thesis by (simp add: id_new_def)
qed

subsection \<open>The gate\<close>

text \<open>What the gate knows is what the channel carries and what the store holds.\<close>

definition gate_inv ::
  "('v, 's) record_store_ops \<Rightarrow> ('s \<Rightarrow> bool) \<Rightarrow> 'v shared \<Rightarrow> 's \<times> 'v gate \<Rightarrow> bool" where
  "gate_inv S ok sh sg \<longleftrightarrow>
     (case sg of (s, g) \<Rightarrow>
        ok s \<and> \<not> gate_poisoned g \<and>
        gate_sender g = (gate_resolved g = None) \<and> gate_channel g = gate_resolved g \<and>
        (\<forall>x. gate_resolved g = Some x \<longrightarrow>
           is_final (sn_state x) \<and> op_get S (r_id (sn_record x)) s = Ok x \<and>
           r_reply (sn_record x) = Some (r_id (sn_record (sh_request sh)))))"

lemma responder_resolve_unresolved:
  assumes "gate_resolved g = None" and "\<not> gate_poisoned g"
  shows "responder_resolve S sh actor outcome acc (s, g) =
    (case op_resolve S (r_id (sn_record (sh_request sh))) (sn_revision (sh_request sh))
            (answer_draft sh (Ident (answer_text (as_str (r_id (sn_record (sh_request sh)))))) actor outcome) s of
       (Ok answer, s') \<Rightarrow>
         (Ok answer, s', g\<lparr>gate_resolved := Some answer, gate_sender := False,
             gate_channel := (if gate_sender g then Some answer else gate_channel g)\<rparr>)
     | (Err e, s') \<Rightarrow> (Err (QStore e), s', g)
     | (Panic, s') \<Rightarrow> (Panic, s', g\<lparr>gate_poisoned := True\<rparr>))"
  using assms by (simp add: responder_resolve_def answer_text_new)

lemma responder_resolve_resolved:
  "gate_resolved g = Some x \<Longrightarrow> \<not> gate_poisoned g \<Longrightarrow>
   responder_resolve S sh actor outcome acc (s, g) =
     (if acc \<or> (r_actor (sn_record x) = actor \<and> r_payload (sn_record x) = PAnswer outcome Stored)
      then Ok x else Err (QStore AlreadyResolved), s, g)"
  by (simp add: responder_resolve_def)

context record_store
begin

lemma gate_resolve:
  assumes "gate_inv S inv sh (s, g)"
  shows "gate_inv S inv sh (snd (responder_resolve S sh actor outcome acc (s, g)))"
    and "fst (responder_resolve S sh actor outcome acc (s, g)) \<noteq> Panic"
    and "gate_resolved g = Some x \<Longrightarrow> snd (responder_resolve S sh actor outcome acc (s, g)) = (s, g)"
    and "fst (responder_resolve S sh actor outcome acc (s, g)) = Ok y \<Longrightarrow>
         gate_resolved (snd (snd (responder_resolve S sh actor outcome acc (s, g)))) = Some y"
proof -
  let ?q = "r_id (sn_record (sh_request sh))"
  let ?e = "sn_revision (sh_request sh)"
  let ?d = "answer_draft sh (Ident (answer_text (as_str ?q))) actor outcome"
  have inv: "inv s" "\<not> gate_poisoned g" using assms by (simp_all add: gate_inv_def)
  have "gate_inv S inv sh (snd (responder_resolve S sh actor outcome acc (s, g))) \<and>
      fst (responder_resolve S sh actor outcome acc (s, g)) \<noteq> Panic \<and>
      (gate_resolved g = Some x \<longrightarrow> snd (responder_resolve S sh actor outcome acc (s, g)) = (s, g)) \<and>
      (fst (responder_resolve S sh actor outcome acc (s, g)) = Ok y \<longrightarrow>
         gate_resolved (snd (snd (responder_resolve S sh actor outcome acc (s, g)))) = Some y)"
  proof (cases "gate_resolved g")
    case (Some z)
    with assms inv(2) show ?thesis by (simp add: responder_resolve_resolved)
  next
    case None
    obtain res s' where app: "op_resolve S ?q ?e ?d s = (res, s')" by force
    have exec: "inv s'" using inv_exec [OF inv(1), of "Resolve ?q ?e ?d"] app by (simp add: store_exec_def)
    show ?thesis
    proof (cases res)
      case (Ok a)
      from resolve_Ok [OF inv(1) app [unfolded Ok]]
      have a: "op_get S (d_id ?d) s' = Ok a" "same_draft a ?d" by blast+
      then have "r_id (sn_record a) = d_id ?d" "is_final (sn_state a)"
        "r_reply (sn_record a) = Some ?q"
        by (simp_all add: same_draft_def Let_def answer_draft_def is_final_def)
      with a None app Ok exec inv assms show ?thesis
        by (simp add: responder_resolve_unresolved gate_inv_def)
    next
      case (Err e)
      with app resolve_Err [OF inv(1)] have "s' = s" by blast
      with None app Err assms inv show ?thesis by (simp add: responder_resolve_unresolved)
    next
      case Panic
      with app no_panic [OF inv(1), where q = ?q and e = ?e and d = ?d] show ?thesis by simp
    qed
  qed
  then show "gate_inv S inv sh (snd (responder_resolve S sh actor outcome acc (s, g)))"
    and "fst (responder_resolve S sh actor outcome acc (s, g)) \<noteq> Panic"
    and "gate_resolved g = Some x \<Longrightarrow> snd (responder_resolve S sh actor outcome acc (s, g)) = (s, g)"
    and "fst (responder_resolve S sh actor outcome acc (s, g)) = Ok y \<Longrightarrow>
         gate_resolved (snd (snd (responder_resolve S sh actor outcome acc (s, g)))) = Some y"
    by blast+
qed

lemma gate_step:
  assumes "question_step S sh sg sg'" and "gate_inv S inv sh sg"
  shows "gate_inv S inv sh sg' \<and> (\<forall>x. gate_resolved (snd sg) = Some x \<longrightarrow> gate_resolved (snd sg') = Some x)"
  using assms(1)
proof (cases rule: question_step.cases)
  case (answer actor outcome)
  obtain s g where sg: "sg = (s, g)" by force
  show ?thesis
    using gate_resolve(1,3) [where sh = sh and s = s and g = g and actor = actor and outcome = outcome and acc = False] assms(2)
    unfolding answer responder_answer_def sg by force
next
  case (poll cancelled)
  obtain s g where sg: "sg = (s, g)" by force
  show ?thesis
    using gate_resolve(1,3) [where sh = sh and s = s and g = g and actor = "sh_host sh"
        and outcome = AnswerCancelled and acc = True] assms(2)
    unfolding poll question_poll_def responder_cancel_def sg
    by (force split: option.splits prod.splits)
next
  case drop
  obtain s g where sg: "sg = (s, g)" by force
  show ?thesis
    using gate_resolve(1,3) [where sh = sh and s = s and g = g and actor = "sh_host sh"
        and outcome = AnswerCancelled and acc = True] assms(2)
    unfolding drop question_drop_def responder_cancel_def sg by force
next
  case (other s g oper)
  have "op_get S i (store_exec S oper s) = Ok x" if "op_get S i s = Ok x" "is_final (sn_state x)" "inv s" for i x
    using finalized_immutable [OF store_steps.step [OF store_steps.refl] that(3) that(1,2)] by simp
  with assms(2) other show ?thesis by (auto simp: gate_inv_def intro: inv_exec)
qed

lemma gate_steps:
  "question_steps S sh sg sg' \<Longrightarrow> gate_inv S inv sh sg \<Longrightarrow>
     gate_inv S inv sh sg' \<and> (\<forall>x. gate_resolved (snd sg) = Some x \<longrightarrow> gate_resolved (snd sg') = Some x)"
proof (induction rule: question_steps.induct)
  case (step sg sg' sg'')
  then show ?case using gate_step [of sh sg' sg''] by blast
qed simp

lemma open_gate:
  assumes "inv s" and "question_open S request host s = (Ok (sh, g), s')"
  shows "gate_inv S inv sh (s', g) \<and> g = fresh_gate \<and> sh_host sh = host \<and>
         op_get S (d_id request) s' = Ok (sh_request sh) \<and> r_id (sn_record (sh_request sh)) = d_id request \<and>
         same_draft (sh_request sh) request \<and> sn_revision (sh_request sh) = 0 \<and> sn_state (sh_request sh) = Open"
proof -
  from assms(2) obtain x where get: "op_get S (d_id request) s = Err MissingRecord"
    and ins: "op_insert S request s = (Ok x, s')" and x: "sn_state x = Open"
    and sh: "sh = \<lparr>sh_request = x, sh_host = host\<rparr>" "g = fresh_gate"
    by (auto simp: question_open_def split: if_splits result.splits prod.splits)
  have "inv s'" using inv_exec [OF assms(1), of "Insert request"] ins by (simp add: store_exec_def)
  with insert_Ok [OF assms(1) ins] insert_fresh [OF assms(1) ins get] x sh show ?thesis
    by (simp add: gate_inv_def fresh_gate_def)
qed

end

subsection \<open>Properties\<close>

lemma responder_answer_eq:
  assumes "gate_inv S ok sh (s, g)" and "gate_resolved g = Some x"
  shows "responder_answer S sh actor outcome (s, g) =
     (if r_actor (sn_record x) = actor \<and> r_payload (sn_record x) = PAnswer outcome Stored
      then Ok x else Err (QStore AlreadyResolved), s, g)"
    and "question_poll S sh c (s, g) = (Some (Ok x), s, g)"
  using assms by (simp_all add: responder_answer_def responder_resolve_resolved gate_inv_def question_poll_def)

text \<open>
  C13: A question is answered once. After a responder's answer (or a cancellation) succeeded
  on a question opened on a reachable store, and after any further answers, polls, drops and
  unrelated store mutations, the waiter receives exactly that answer, the store holds it,
  and every later answer either repeats it (same actor, same outcome) and gets it back or is
  refused as already resolved, with no change.
\<close>

theorem question_answered_once:
  assumes "memory_reachable s0"
    and "question_open memory_store request host s0 = (Ok (sh, g0), s1)"
    and "question_steps memory_store sh (s1, g0) (s, g)"
    and "responder_resolve memory_store sh actor outcome acc (s, g) = (Ok x, s', g')"
    and "question_steps memory_store sh (s', g') (t, h)"
  shows "question_poll memory_store sh cancelled (t, h) = (Some (Ok x), t, h) \<and>
    memory_get (r_id (sn_record x)) t = Ok x \<and>
    responder_answer memory_store sh a o' (t, h) =
      (if r_actor (sn_record x) = a \<and> r_payload (sn_record x) = PAnswer o' Stored
       then Ok x else Err (QStore AlreadyResolved), t, h)"
proof -
  have inv0: "ms_inv s0" by (rule memory_reachable_ms_inv [OF assms(1)])
  have g1: "gate_inv memory_store ms_inv sh (s1, g0)" using mem.open_gate [OF inv0 assms(2)] by blast
  have g2: "gate_inv memory_store ms_inv sh (s, g)" using mem.gate_steps [OF assms(3) g1] by blast
  have g3: "gate_inv memory_store ms_inv sh (s', g')" "gate_resolved g' = Some x"
    using mem.gate_resolve(1) [OF g2, of actor outcome acc]
      mem.gate_resolve(4) [OF g2, of actor outcome acc x] assms(4) by simp_all
  have g4: "gate_inv memory_store ms_inv sh (t, h)" "gate_resolved h = Some x"
    using mem.gate_steps [OF assms(5) g3(1)] g3(2) by auto
  then have "memory_get (r_id (sn_record x)) t = Ok x"
    by (simp add: gate_inv_def memory_store_sel)
  then show ?thesis using responder_answer_eq [OF g4] by simp
qed

definition sample_shared :: "nat shared" where
  "sample_shared = \<lparr>sh_request = snapshot_of sample_draft 0, sh_host = Ident ''h''\<rparr>"

lemma sample_open:
  "question_open memory_store sample_draft (Ident ''h'') (snd (memory_create_session (Ident ''s'') memory_default)) =
     (Ok (sample_shared, fresh_gate), sample_state)"
proof -
  have "memory_get (Ident ''q'') (snd (memory_create_session (Ident ''s'') memory_default)) = (Err MissingRecord :: (nat snapshot, _) result)"
    by (simp add: memory_get_eq sample_run)
  moreover have "d_id sample_draft = Ident ''q''" "d_payload sample_draft = PQuestion sample_question"
    "d_state sample_draft = Open" by (simp_all add: sample_draft_def)
  ultimately show ?thesis
    using sample_insert_Ok
    by (simp add: question_open_def memory_store_sel sample_shared_def)
qed

lemma sample_session_reachable: "memory_reachable (snd (memory_create_session (Ident ''s'') memory_default))"
  using memory_exec_reachable [OF memory_default_reachable, of "CreateSession (Ident ''s'')"]
  by (simp add: store_exec_def memory_store_sel)

definition sample_answered :: "(nat snapshot, question_error) result \<times> nat memory_state \<times> nat gate" where
  "sample_answered = responder_resolve memory_store sample_shared (Ident ''u'') Declined False (sample_state, fresh_gate)"

lemma sample_answered_Ok: "\<exists>x. fst sample_answered = Ok x"
proof -
  have "\<exists>x. fst (memory_resolve (Ident ''q'') 0
      (answer_draft sample_shared (Ident (answer_text ''q'')) (Ident ''u'') Declined) sample_state) = Ok x"
    unfolding memory_resolve_def with_lock_def
    by (simp add: sample_state_eq)
      (simp add: sample_run sample_state_eq answer_draft_def sample_shared_def Let_def answer_text_def)
  then show ?thesis
    unfolding sample_answered_def
    by (subst responder_resolve_unresolved)
      (auto simp: fresh_gate_def memory_store_sel sample_shared_def sample_draft_def split: prod.splits)
qed

theorem question_answered_once_witness:
  "\<exists>x. question_poll memory_store sample_shared True (snd sample_answered) = (Some (Ok x), snd sample_answered)"
proof -
  obtain x where "fst sample_answered = Ok x" using sample_answered_Ok by blast
  then have "responder_resolve memory_store sample_shared (Ident ''u'') Declined False (sample_state, fresh_gate) =
      (Ok x, fst (snd sample_answered), snd (snd sample_answered))"
    by (simp add: sample_answered_def prod_eq_iff)
  from question_answered_once [OF sample_session_reachable sample_open question_steps.refl this
      question_steps.refl, where cancelled = True]
  show ?thesis by auto
qed

text \<open>
  C35: Dropping an unanswered question closes it. If the request is still as it was opened,
  the answer's identifier is unused and the session is not exhausted, dropping the pending
  question resolves the request: it reads as complete afterwards, and the stored answer is
  the cancellation by the question's host.
\<close>

theorem question_drop_closes:
  assumes "memory_reachable s0"
    and "question_open memory_store request host s0 = (Ok (sh, g0), s1)"
    and "question_steps memory_store sh (s1, g0) (s, g)"
    and "gate_resolved g = None"
    and "memory_get (d_id request) s = Ok (sh_request sh)"
    and "memory_get (Ident (answer_text (as_str (d_id request)))) s = Err MissingRecord"
    and "\<forall>ids. ms_sessions s (d_session request) = Some ids \<longrightarrow> length ids < 2 ^ 64"
  shows "\<exists>x y. gate_resolved (snd (question_drop memory_store sh (s, g))) = Some x \<and>
    r_payload (sn_record x) = PAnswer AnswerCancelled Stored \<and> r_actor (sn_record x) = host \<and>
    memory_get (d_id request) (fst (question_drop memory_store sh (s, g))) = Ok y \<and> sn_state y = Complete"
proof -
  have inv0: "ms_inv s0" by (rule memory_reachable_ms_inv [OF assms(1)])
  note O = mem.open_gate [OF inv0 assms(2)]
  then have g1: "gate_inv memory_store ms_inv sh (s1, g0)" by blast
  have g2: "gate_inv memory_store ms_inv sh (s, g)" using mem.gate_steps [OF assms(3) g1] by blast
  then have inv: "ms_inv s" by (simp add: gate_inv_def)
  let ?q = "d_id request"
  let ?d = "answer_draft sh (Ident (answer_text (as_str ?q))) host AnswerCancelled"
  obtain en where en: "ms_records s ?q = Some en" "en_current en = sh_request sh" "\<not> ms_poisoned s"
    using assms(5) by (auto simp: memory_get_Ok)
  have isq: "\<exists>q. d_payload request = PQuestion q"
    using assms(2) by (auto simp: question_open_def split: if_splits)
  have req: "r_id (sn_record (sh_request sh)) = ?q" "sn_revision (sh_request sh) = 0"
    "sn_state (sh_request sh) = Open" "r_payload (sn_record (sh_request sh)) = d_payload request"
    "r_session (sn_record (sh_request sh)) = d_session request"
  proof -
    show "r_id (sn_record (sh_request sh)) = ?q" "sn_revision (sh_request sh) = 0"
      "sn_state (sh_request sh) = Open" using O by blast+
    have "same_draft (sh_request sh) request" using O by blast
    then show "r_payload (sn_record (sh_request sh)) = d_payload request"
      "r_session (sn_record (sh_request sh)) = d_session request"
      by (simp_all add: same_draft_def Let_def)
  qed
  have eok: "entry_ok ?q en" by (rule ms_inv_entry [OF inv en(1)])
  have nodec: "ms_decisions s ?q = None"
  proof (rule ccontr)
    assume "ms_decisions s ?q \<noteq> None"
    then obtain dec where "ms_decisions s ?q = Some dec" by blast
    then obtain eq where "ms_records s ?q = Some eq" "sn_state (en_current eq) = Complete"
      by (rule ms_inv_known_decision [OF inv]) blast
    with en req show False by simp
  qed
  have new: "ms_records s (Ident (answer_text (as_str ?q))) = None"
    using assms(6) en(3) by (auto simp: memory_get_eq split: option.splits)
  have fits: "response_fits (r_payload (sn_record (en_current en))) (PAnswer AnswerCancelled Stored)"
    using isq eok en(2) req
    by (auto simp: response_fits_def validate_answer_Ok_iff entry_ok_def payload_ok_def)
  have "\<exists>res. resolve_request (en_current en) 0 ?d = Ok res"
    using fits en(2) req
    by (simp add: resolve_request_Ok_iff answer_draft_def Let_def checked_add_def)
  then obtain res where res: "resolve_request (en_current en) 0 ?d = Ok res" by blast
  have core: "records_ok (ms_sessions s) (ms_runs s) (ms_records s)"
    using inv by (simp add: ms_inv_def core_inv_def)
  obtain ids where ids: "ms_sessions s (d_session request) = Some ids"
    and run: "\<forall>r. r_run (sn_record (sh_request sh)) = Some r \<longrightarrow>
        (\<exists>spec. ms_runs s r = Some spec \<and> rs_session spec = d_session request)"
    using core en req unfolding records_ok_def by metis
  have len: "u64_of_usize (length ids) = Some (word_of_nat (length ids))"
    using assms(7) ids by (simp add: u64_of_usize_def)
  have prep: "prepare s ?d = Ok (snapshot_of ?d (word_of_nat (length ids)))"
    using ids run len en(1) req
    by (auto simp: prepare_Ok_iff answer_draft_def Let_def payload_ok_def)
  have "\<exists>x s'. memory_resolve ?q 0 ?d s = (Ok x, s')"
  proof (rule memory_resolve_cases [of s ?q 0 ?d])
    fix dec assume "ms_decisions s ?q = Some dec"
    with nodec show ?thesis by simp
  next
    fix e assume "memory_resolve ?q 0 ?d s = (Err e, s)"
    moreover have "memory_resolve ?q 0 ?d s =
        commit_ok (snapshot_of ?d (word_of_nat (length ids)))
         (s\<lparr>ms_decisions := (ms_decisions s)(?q \<mapsto> d_id ?d),
           ms_records := (ms_records s)(?q \<mapsto> en\<lparr>en_current := res\<rparr>)\<rparr>)"
      using en nodec new res prep ids
      by (simp add: memory_resolve_def with_lock_def answer_draft_def Let_def req
          commit_ok_appended)
    ultimately show ?thesis
      using ids by (simp add: commit_ok_appended answer_draft_def Let_def req)
  qed blast
  then obtain x s' where ok: "memory_resolve ?q 0 ?d s = (Ok x, s')" by blast
  note R = memory_resolve_Ok [OF inv ok]
  have "question_drop memory_store sh (s, g) =
      (s', g\<lparr>gate_resolved := Some x, gate_sender := False,
             gate_channel := (if gate_sender g then Some x else gate_channel g)\<rparr>)"
    using ok O g2 assms(4) unfolding question_drop_def responder_cancel_def
    by (subst responder_resolve_unresolved) (auto simp: gate_inv_def memory_store_sel)
  with R show ?thesis by (auto simp: same_draft_def Let_def answer_draft_def)
qed

theorem question_drop_closes_witness:
  "\<exists>y. memory_get (Ident ''q'') (fst (question_drop memory_store sample_shared (sample_state, fresh_gate))) = Ok y \<and>
       sn_state y = Complete"
proof -
  have q: "d_id sample_draft = Ident ''q''" "d_session sample_draft = Ident ''s''"
    by (simp_all add: sample_draft_def)
  have "memory_get (d_id sample_draft) sample_state = Ok (sh_request sample_shared)"
    by (simp add: memory_get_eq sample_state_eq q sample_shared_def)
  moreover have "memory_get (Ident (answer_text (as_str (d_id sample_draft)))) sample_state = Err MissingRecord"
    by (simp add: memory_get_eq sample_state_eq q answer_text_def)
  moreover have "\<forall>ids. ms_sessions sample_state (d_session sample_draft) = Some ids \<longrightarrow> length ids < 2 ^ 64"
    by (simp add: sample_state_eq q)
  moreover have "gate_resolved (fresh_gate :: nat gate) = None" by (simp add: fresh_gate_def)
  ultimately show ?thesis
    using question_drop_closes [OF sample_session_reachable sample_open question_steps.refl] q
    by fastforce
qed

end
