(* ===== verification/Json.thy ===== *)
theory Json imports Btree begin

section \<open>The JSON interface (serde_json)\<close>

text \<open>
  \<open>serde_json::Value\<close> is third-party code: a type parameter \<open>'v\<close> with the record
  of the constructors and accessors the program uses, an argument of every definition that
  builds or reads JSON. \<open>json_laws\<close> is the documented behaviour the proofs rely on:
  accessors see through the constructors of their own kind and through no other. The
  instance at the end shows that the laws can hold, and is what witnesses compute with.
\<close>

record 'v json =
  j_object :: "(string \<times> 'v) list \<Rightarrow> 'v"
  j_array :: "'v list \<Rightarrow> 'v"
  j_string :: "string \<Rightarrow> 'v"
  j_number :: "nat \<Rightarrow> 'v"
  j_bool :: "bool \<Rightarrow> 'v"
  j_null :: 'v
  j_as_object :: "'v \<Rightarrow> (string \<times> 'v) list option"
  j_as_array :: "'v \<Rightarrow> 'v list option"
  j_as_str :: "'v \<Rightarrow> string option"
  j_as_u64 :: "'v \<Rightarrow> nat option"
  j_as_bool :: "'v \<Rightarrow> bool option"
  j_text :: "'v \<Rightarrow> string"

text \<open>\<open>Value::get\<close> and indexing, which yields \<open>Null\<close> where there is nothing.\<close>

definition j_get :: "'v json \<Rightarrow> 'v \<Rightarrow> string \<Rightarrow> 'v option" where
  "j_get J v k = (case j_as_object J v of None \<Rightarrow> None | Some m \<Rightarrow> map_of m k)"

definition j_index :: "'v json \<Rightarrow> 'v \<Rightarrow> string \<Rightarrow> 'v" where
  "j_index J v k = (case j_get J v k of None \<Rightarrow> j_null J | Some x \<Rightarrow> x)"

definition j_is_object :: "'v json \<Rightarrow> 'v \<Rightarrow> bool" where
  "j_is_object J v \<longleftrightarrow> j_as_object J v \<noteq> None"

text \<open>\<open>value == "text"\<close>\<close>

definition j_is :: "'v json \<Rightarrow> 'v \<Rightarrow> string \<Rightarrow> bool" where
  "j_is J v s \<longleftrightarrow> j_as_str J v = Some s"

definition json_laws :: "'v json \<Rightarrow> bool" where
  "json_laws J \<longleftrightarrow>
     (\<forall>m. \<exists>m'. j_as_object J (j_object J m) = Some m' \<and>
        (distinct (map fst m) \<longrightarrow> map_of m' = map_of m)) \<and>
     (\<forall>xs. j_as_array J (j_array J xs) = Some xs) \<and>
     (\<forall>s. j_as_str J (j_string J s) = Some s) \<and>
     (\<forall>n < 2 ^ 64. j_as_u64 J (j_number J n) = Some n) \<and>
     (\<forall>b. j_as_bool J (j_bool J b) = Some b) \<and>
     (\<forall>v n. j_as_u64 J v = Some n \<longrightarrow> n < 2 ^ 64) \<and>
     (\<forall>v m s. j_as_object J v = Some m \<longrightarrow> j_as_str J v \<noteq> Some s) \<and>
     (\<forall>s. j_as_object J (j_string J s) = None) \<and>
     j_as_object J (j_null J) = None \<and> j_as_str J (j_null J) = None \<and> j_as_u64 J (j_null J) = None"

lemma json_lawsD:
  assumes "json_laws J"
  shows "j_as_array J (j_array J xs) = Some xs" and "j_as_str J (j_string J s) = Some s"
    and "n < 2 ^ 64 \<Longrightarrow> j_as_u64 J (j_number J n) = Some n" and "j_as_bool J (j_bool J b) = Some b"
    and "j_as_u64 J v = Some k \<Longrightarrow> k < 2 ^ 64" and "j_as_str J (j_null J) = None"
    and "j_as_u64 J (j_null J) = None" and "j_as_object J (j_null J) = None"
    and "j_as_object J (j_string J s) = None"
  using assms unfolding json_laws_def by blast+

lemma json_get_object:
  assumes "json_laws J" and "distinct (map fst m)"
  shows "j_get J (j_object J m) k = map_of m k" and "j_is_object J (j_object J m)"
proof -
  obtain m' where "j_as_object J (j_object J m) = Some m'" "map_of m' = map_of m"
    using assms unfolding json_laws_def by blast
  then show "j_get J (j_object J m) k = map_of m k" "j_is_object J (j_object J m)"
    by (simp_all add: j_get_def j_is_object_def)
qed

lemma json_index_object:
  "json_laws J \<Longrightarrow> distinct (map fst m) \<Longrightarrow> map_of m k = Some x \<Longrightarrow> j_index J (j_object J m) k = x"
  by (simp add: j_index_def json_get_object)

lemma json_index_is: "json_laws J \<Longrightarrow> j_is J (j_index J v k) s \<Longrightarrow> j_is_object J v"
  by (auto simp: j_is_def j_index_def j_get_def j_is_object_def json_lawsD split: option.splits)

subsection \<open>An instance\<close>

datatype tree = TObj "(string \<times> tree) list" | TArr "tree list" | TStr string | TNum nat | TBool bool | TNull

definition tree_json :: "tree json" where
  "tree_json =
     \<lparr>j_object = TObj, j_array = TArr, j_string = TStr, j_number = TNum, j_bool = TBool, j_null = TNull,
      j_as_object = (\<lambda>v. case v of TObj m \<Rightarrow> Some m | _ \<Rightarrow> None),
      j_as_array = (\<lambda>v. case v of TArr xs \<Rightarrow> Some xs | _ \<Rightarrow> None),
      j_as_str = (\<lambda>v. case v of TStr s \<Rightarrow> Some s | _ \<Rightarrow> None),
      j_as_u64 = (\<lambda>v. case v of TNum n \<Rightarrow> if n < 2 ^ 64 then Some n else None | _ \<Rightarrow> None),
      j_as_bool = (\<lambda>v. case v of TBool b \<Rightarrow> Some b | _ \<Rightarrow> None),
      j_text = (\<lambda>v. ''{}'')\<rparr>"

lemma tree_json_laws: "json_laws tree_json"
  by (auto simp: json_laws_def tree_json_def split: tree.splits if_splits)

end
