(* ===== verification/Tools.thy ===== *)
theory Tools imports Json Data_Model begin

section \<open>Application tools (src/tools.rs, src/tools/dynamic.rs, src/mcp.rs)\<close>

text \<open>
  The registry of typed and dynamic tools, scope authorization, invocation, and the MCP
  adapter bound to one grant. A handler is a function of the invocation and the arguments;
  \<open>tool_invoke\<close> returns, besides the result, the call it made to a handler, so that the
  theorems can say when none is made. JSON, the serde decoders, schemars and the schema
  validator are parameters.
\<close>

record 'v tool_definition =
  td_reference :: tool_ref
  td_description :: string
  td_input_schema :: 'v

text \<open>The cancellation token: cancelled at admission, or before the handler is done.\<close>

record tool_invocation =
  ti_host :: actor_id
  ti_actor :: actor_id
  ti_scope :: tool_scope
  ti_cancelled :: bool
  ti_cancels_during :: bool

datatype tool_error =
  InvalidDefinition
| InvalidSchema string
| DuplicateDefinition
| NotGranted
| UnknownTool
| InvalidArguments string
| HandlerError string
| InvalidResult string
| ToolCancelled

type_synonym 'v handler = "tool_invocation \<Rightarrow> 'v \<Rightarrow> ('v, tool_error) result"

record 'v tool_entry =
  te_definition :: "'v tool_definition"
  te_handler :: "'v handler"

type_synonym 'v tool_registry = "'v tool_entry btree"

definition ascii_alphanumeric :: "char \<Rightarrow> bool" where
  "ascii_alphanumeric c \<longleftrightarrow>
     (let n = of_char c :: nat in
        (48 \<le> n \<and> n \<le> 57) \<or> (65 \<le> n \<and> n \<le> 90) \<or> (97 \<le> n \<and> n \<le> 122))"

definition tool_name_bad :: "string \<Rightarrow> bool" where
  "tool_name_bad name \<longleftrightarrow>
     name = [] \<or> length name > 128 \<or>
     \<not> list_all (\<lambda>c. ascii_alphanumeric c \<or> c \<in> {CHR ''_'', CHR ''-'', CHR ''.''}) name"

text \<open>The typed handler closure around \<open>handler\<close>.\<close>

definition typed_handler ::
  "'v json \<Rightarrow> ('v \<Rightarrow> ('i, string) result) \<Rightarrow> ('o \<Rightarrow> ('v, string) result) \<Rightarrow>
   (tool_invocation \<Rightarrow> 'i \<Rightarrow> ('o, tool_error) result) \<Rightarrow> 'v handler" where
  "typed_handler J decode encode handler context arguments =
     (if \<not> j_is_object J arguments then Err (InvalidArguments ''arguments must be an object'')
      else rbind (map_err InvalidArguments (decode arguments)) (\<lambda>input.
           rbind (handler context input) (\<lambda>output.
             map_err InvalidResult (encode output))))"

text \<open>\<open>schema\<close> is what schemars and serde produce for the input type.\<close>

definition register_handler ::
  "'v json \<Rightarrow> ('v, string) result \<Rightarrow> tool_ref \<Rightarrow> string \<Rightarrow> 'v handler \<Rightarrow>
   'v tool_registry \<Rightarrow> (unit, tool_error) result \<times> 'v tool_registry" where
  "register_handler J schema reference description handler reg =
     (if tool_name_bad (tool_name reference) \<or> blank (tool_revision reference) \<or> blank description
      then (Err InvalidDefinition, reg)
      else if bt_get reg (tool_name reference) \<noteq> None then (Err DuplicateDefinition, reg)
      else
        (case map_err (\<lambda>_. InvalidDefinition) schema of
           Err e \<Rightarrow> (Err e, reg)
         | Panic \<Rightarrow> (Panic, reg)
         | Ok input_schema \<Rightarrow>
             if \<not> j_is J (j_index J input_schema ''type'') ''object'' then (Err InvalidDefinition, reg)
             else
               (Ok (), bt_insert (tool_name reference)
                  \<lparr>te_definition = \<lparr>td_reference = reference, td_description = description,
                     td_input_schema = input_schema\<rparr>,
                   te_handler = handler\<rparr> reg)))"

text \<open>Typed registration, for any input and output type with their codecs.\<close>

definition tool_register ::
  "'v json \<Rightarrow> ('v, string) result \<Rightarrow> ('v \<Rightarrow> ('i, string) result) \<Rightarrow> ('o \<Rightarrow> ('v, string) result) \<Rightarrow>
   tool_ref \<Rightarrow> string \<Rightarrow> (tool_invocation \<Rightarrow> 'i \<Rightarrow> ('o, tool_error) result) \<Rightarrow>
   'v tool_registry \<Rightarrow> (unit, tool_error) result \<times> 'v tool_registry" where
  "tool_register J schema decode encode reference description handler =
     register_handler J schema reference description (typed_handler J decode encode handler)"

subsection \<open>Dynamic schemas\<close>

definition plain_keywords :: "string list" where
  "plain_keywords =
     [''type'', ''title'', ''description'', ''enum'', ''const'', ''required'', ''minLength'',
      ''maxLength'', ''minimum'', ''maximum'', ''exclusiveMinimum'', ''exclusiveMaximum'',
      ''minItems'', ''maxItems'', ''uniqueItems'', ''minProperties'', ''maxProperties'']"

definition draft_uri :: string where
  "draft_uri = ''https://json-schema.org/draft/2020-12/schema''"

text \<open>
  \<open>check_schema\<close> with its shared node counter. The recursion is bounded by the depth
  limit, so the loops below are on \<open>17 - depth\<close>: \<open>check_schema J fuel\<close> is the call at
  depth \<open>17 - fuel\<close>.
\<close>

fun check_all ::
  "('v \<Rightarrow> nat \<Rightarrow> (unit, tool_error) result \<times> nat) \<Rightarrow> 'v list \<Rightarrow> nat \<Rightarrow>
   (unit, tool_error) result \<times> nat" where
  "check_all check [] nodes = (Ok (), nodes)"
| "check_all check (v # vs) nodes =
     (case check v nodes of
        (Ok _, nodes') \<Rightarrow> check_all check vs nodes'
      | (Err e, nodes') \<Rightarrow> (Err e, nodes')
      | (Panic, nodes') \<Rightarrow> (Panic, nodes'))"

definition check_key ::
  "'v json \<Rightarrow> ('v \<Rightarrow> nat \<Rightarrow> (unit, tool_error) result \<times> nat) \<Rightarrow> string \<times> 'v \<Rightarrow> nat \<Rightarrow>
   (unit, tool_error) result \<times> nat" where
  "check_key J check kv nodes =
     (case kv of (key, v) \<Rightarrow>
        if key = ''$schema'' \<and> j_is J v draft_uri then (Ok (), nodes)
        else if key \<in> set plain_keywords then (Ok (), nodes)
        else if key = ''properties'' then
          (case j_as_object J v of
             None \<Rightarrow> (Err InvalidDefinition, nodes)
           | Some m \<Rightarrow> check_all check (map snd m) nodes)
        else if key = ''items'' \<or> key = ''additionalProperties'' then check v nodes
        else (Err (InvalidSchema (''unsupported schema keyword: '' @ key)), nodes))"

text \<open>The loop over the entries is the same early-return loop over another body.\<close>

fun check_keys ::
  "'v json \<Rightarrow> ('v \<Rightarrow> nat \<Rightarrow> (unit, tool_error) result \<times> nat) \<Rightarrow> (string \<times> 'v) list \<Rightarrow> nat \<Rightarrow>
   (unit, tool_error) result \<times> nat" where
  "check_keys J check [] nodes = (Ok (), nodes)"
| "check_keys J check (kv # rest) nodes =
     (case check_key J check kv nodes of
        (Ok _, nodes') \<Rightarrow> check_keys J check rest nodes'
      | (Err e, nodes') \<Rightarrow> (Err e, nodes')
      | (Panic, nodes') \<Rightarrow> (Panic, nodes'))"

fun check_schema :: "'v json \<Rightarrow> nat \<Rightarrow> 'v \<Rightarrow> nat \<Rightarrow> (unit, tool_error) result \<times> nat" where
  "check_schema J 0 v nodes =
     (Err (InvalidSchema ''schema exceeds node/depth limits''), Suc nodes)"
| "check_schema J (Suc fuel) v nodes =
     (if Suc nodes > 256
      then (Err (InvalidSchema ''schema exceeds node/depth limits''), Suc nodes)
      else if j_as_bool J v \<noteq> None then (Ok (), Suc nodes)
      else
        (case j_as_object J v of
           None \<Rightarrow> (Err InvalidDefinition, Suc nodes)
         | Some m \<Rightarrow> check_keys J (check_schema J fuel) m (Suc nodes)))"

definition compile_schema ::
  "'v json \<Rightarrow> ('v \<Rightarrow> ('v \<Rightarrow> bool, string) result) \<Rightarrow> 'v \<Rightarrow> ('v \<Rightarrow> bool, tool_error) result" where
  "compile_schema J build schema =
     (if length (j_text J schema) > 65536 then Err (InvalidSchema ''schema exceeds byte limit'')
      else rbind (fst (check_schema J 17 schema 0)) (\<lambda>_. map_err InvalidSchema (build schema)))"

text \<open>The dynamic handler closure: byte limit, then schema, then the handler.\<close>

definition dynamic_handler :: "'v json \<Rightarrow> ('v \<Rightarrow> bool) \<Rightarrow> 'v handler \<Rightarrow> 'v handler" where
  "dynamic_handler J validator handler context input =
     (if length (j_text J input) > 65536 then Err (InvalidArguments ''arguments exceed byte limit'')
      else if \<not> validator input
      then Err (InvalidArguments ''arguments do not match the registered schema'')
      else handler context input)"

definition tool_register_dynamic ::
  "'v json \<Rightarrow> ('v \<Rightarrow> ('v \<Rightarrow> bool, string) result) \<Rightarrow> 'v tool_definition \<Rightarrow> 'v handler \<Rightarrow>
   'v tool_registry \<Rightarrow> (unit, tool_error) result \<times> 'v tool_registry" where
  "tool_register_dynamic J build d handler reg =
     (if tool_name_bad (tool_name (td_reference d)) \<or> blank (tool_revision (td_reference d)) \<or>
         blank (td_description d) \<or> \<not> j_is J (j_index J (td_input_schema d) ''type'') ''object'' \<or>
         length (j_text J (td_input_schema d)) > 65536
      then (Err InvalidDefinition, reg)
      else if bt_get reg (tool_name (td_reference d)) \<noteq> None then (Err DuplicateDefinition, reg)
      else
        (case compile_schema J build (td_input_schema d) of
           Err e \<Rightarrow> (Err e, reg)
         | Panic \<Rightarrow> (Panic, reg)
         | Ok validator \<Rightarrow>
             (Ok (), bt_insert (tool_name (td_reference d))
                \<lparr>te_definition = d, te_handler = dynamic_handler J validator handler\<rparr> reg)))"

subsection \<open>Authorization and invocation\<close>

definition authorize_scope :: "tool_grant \<Rightarrow> tool_invocation \<Rightarrow> (unit, tool_error) result" where
  "authorize_scope grant ti =
     (if grant_issuer grant \<noteq> ti_host ti \<or> grant_subject grant \<noteq> ti_actor ti \<or>
         grant_scope grant \<noteq> ti_scope ti
      then Err NotGranted else Ok ())"

definition tool_catalog ::
  "'v tool_registry \<Rightarrow> tool_grant \<Rightarrow> tool_invocation \<Rightarrow> ('v tool_definition list, tool_error) result" where
  "tool_catalog reg grant ti =
     rbind (authorize_scope grant ti) (\<lambda>_.
       Ok (map te_definition
             (filter (\<lambda>e. td_reference (te_definition e) \<in> set (grant_tools grant)) (bt_values reg))))"

text \<open>
  The result and the handler call. \<open>select!\<close> is biased to the token: a token that is
  cancelled before the handler is done wins.
\<close>

definition tool_invoke ::
  "'v tool_registry \<Rightarrow> string \<Rightarrow> 'v \<Rightarrow> tool_grant \<Rightarrow> tool_invocation \<Rightarrow>
   ('v, tool_error) result \<times> ('v tool_entry \<times> tool_invocation \<times> 'v) option" where
  "tool_invoke reg name arguments grant ti =
     (case authorize_scope grant ti of
        Err e \<Rightarrow> (Err e, None)
      | Panic \<Rightarrow> (Panic, None)
      | Ok _ \<Rightarrow>
          if \<not> (\<exists>tool \<in> set (grant_tools grant). tool_name tool = name) then (Err NotGranted, None)
          else
            (case bt_get reg name of
               None \<Rightarrow> (Err UnknownTool, None)
             | Some entry \<Rightarrow>
                 if td_reference (te_definition entry) \<notin> set (grant_tools grant) then (Err NotGranted, None)
                 else if ti_cancelled ti then (Err ToolCancelled, None)
                 else
                   (if ti_cancels_during ti then Err ToolCancelled
                    else te_handler entry ti arguments,
                    Some (entry, ti, arguments))))"

subsection \<open>The MCP adapter\<close>

record 'v mcp_tool =
  mt_name :: string
  mt_description :: string
  mt_schema :: "(string \<times> 'v) list"

record 'v mcp_server =
  mcp_registry :: "'v tool_registry"
  mcp_grant :: tool_grant
  mcp_scope :: tool_scope
  mcp_actor :: actor_id
  mcp_host :: actor_id
  mcp_catalog :: "'v mcp_tool list"

text \<open>\<open>definition.input_schema.as_object().unwrap()\<close> panics on another kind of value.\<close>

fun mcp_tools :: "'v json \<Rightarrow> 'v tool_definition list \<Rightarrow> ('v mcp_tool list, tool_error) result" where
  "mcp_tools J [] = Ok []"
| "mcp_tools J (d # ds) =
     (case j_as_object J (td_input_schema d) of
        None \<Rightarrow> Panic
      | Some m \<Rightarrow>
          rbind (mcp_tools J ds) (\<lambda>ts.
            Ok (\<lparr>mt_name = tool_name (td_reference d), mt_description = td_description d,
                 mt_schema = m\<rparr> # ts)))"

definition mcp_new ::
  "'v json \<Rightarrow> 'v tool_registry \<Rightarrow> tool_grant \<Rightarrow> tool_scope \<Rightarrow> actor_id \<Rightarrow> actor_id \<Rightarrow>
   ('v mcp_server, tool_error) result" where
  "mcp_new J reg grant scope actor host =
     rbind (tool_catalog reg grant
              \<lparr>ti_host = host, ti_actor = actor, ti_scope = scope, ti_cancelled = False,
               ti_cancels_during = False\<rparr>) (\<lambda>defs.
     rbind (mcp_tools J defs) (\<lambda>catalog.
       Ok \<lparr>mcp_registry = reg, mcp_grant = grant, mcp_scope = scope, mcp_actor = actor,
           mcp_host = host, mcp_catalog = catalog\<rparr>))"

datatype mcp_error = InvalidParams string

definition mcp_list_tools :: "'v mcp_server \<Rightarrow> bool \<Rightarrow> ('v mcp_tool list, mcp_error) result" where
  "mcp_list_tools srv has_cursor =
     (if has_cursor then Err (InvalidParams ''unsupported tool cursor'') else Ok (mcp_catalog srv))"

datatype mcp_reply = Success string | Failure string

text \<open>\<open>show_error\<close> stands for the derived \<open>Debug\<close> text of an error.\<close>

definition mcp_call_tool ::
  "'v json \<Rightarrow> (tool_error \<Rightarrow> string) \<Rightarrow> 'v mcp_server \<Rightarrow> bool \<Rightarrow> string \<Rightarrow> (string \<times> 'v) list option \<Rightarrow>
   bool \<Rightarrow> bool \<Rightarrow> (mcp_reply, mcp_error) result \<times> ('v tool_entry \<times> tool_invocation \<times> 'v) option" where
  "mcp_call_tool J show_error srv has_task name arguments cancelled during =
     (if has_task then (Err (InvalidParams ''MCP task execution is not supported''), None)
      else
        (let ti = \<lparr>ti_host = mcp_host srv, ti_actor = mcp_actor srv, ti_scope = mcp_scope srv,
               ti_cancelled = cancelled, ti_cancels_during = during\<rparr>;
             args = j_object J (case arguments of None \<Rightarrow> [] | Some m \<Rightarrow> m)
         in case tool_invoke (mcp_registry srv) name args (mcp_grant srv) ti of
              (Ok v, call) \<Rightarrow> (Ok (Success (j_text J v)), call)
            | (Err e, call) \<Rightarrow> (Ok (Failure (''application tool: '' @ show_error e)), call)
            | (Panic, call) \<Rightarrow> (Panic, call)))"

subsection \<open>Registries\<close>

text \<open>The registries a host can build.\<close>

inductive registry_built :: "'v json \<Rightarrow> 'v tool_registry \<Rightarrow> bool" for J where
  empty: "registry_built J []"
| typed: "registry_built J reg \<Longrightarrow>
    registry_built J (snd (register_handler J schema reference description handler reg))"
| dynamic: "registry_built J reg \<Longrightarrow>
    registry_built J (snd (tool_register_dynamic J build d handler reg))"

definition tool_entry_ok :: "'v json \<Rightarrow> string \<Rightarrow> 'v tool_entry \<Rightarrow> bool" where
  "tool_entry_ok J name e \<longleftrightarrow>
     tool_name (td_reference (te_definition e)) = name \<and> \<not> tool_name_bad name \<and>
     \<not> blank (tool_revision (td_reference (te_definition e))) \<and>
     \<not> blank (td_description (te_definition e)) \<and>
     j_is J (j_index J (td_input_schema (te_definition e)) ''type'') ''object''"

definition registry_ok :: "'v json \<Rightarrow> 'v tool_registry \<Rightarrow> bool" where
  "registry_ok J reg \<longleftrightarrow>
     bt_ok reg \<and> (\<forall>name e. bt_get reg name = Some e \<longrightarrow> tool_entry_ok J name e)"

lemma registry_ok_insert:
  "registry_ok J reg \<Longrightarrow> tool_entry_ok J name e \<Longrightarrow> registry_ok J (bt_insert name e reg)"
  by (auto simp: registry_ok_def bt.invar_insert bt.lookup_insert)

lemma registry_ok_register:
  "registry_ok J reg \<Longrightarrow>
   registry_ok J (snd (register_handler J schema reference description handler reg))"
  by (simp add: register_handler_def split: result.split)
    (auto simp: tool_entry_ok_def intro!: registry_ok_insert)

lemma registry_ok_register_dynamic:
  "registry_ok J reg \<Longrightarrow> registry_ok J (snd (tool_register_dynamic J build d handler reg))"
  by (simp add: tool_register_dynamic_def split: result.split)
    (auto simp: tool_entry_ok_def intro!: registry_ok_insert)

lemma registry_built_ok: "registry_built J reg \<Longrightarrow> registry_ok J reg"
proof (induction rule: registry_built.induct)
  case empty
  show ?case by (simp add: registry_ok_def bt.invar_empty bt.lookup_empty)
qed (simp_all add: registry_ok_register registry_ok_register_dynamic)

lemma authorize_scope_Ok_iff:
  "authorize_scope grant ti = Ok u \<longleftrightarrow>
     grant_issuer grant = ti_host ti \<and> grant_subject grant = ti_actor ti \<and> grant_scope grant = ti_scope ti"
  by (simp add: authorize_scope_def)

text \<open>When a handler is called.\<close>

lemma tool_invoke_call_iff:
  assumes "registry_ok J reg"
  shows "snd (tool_invoke reg name arguments grant ti) = Some (entry, ti', arguments') \<longleftrightarrow>
    authorize_scope grant ti = Ok () \<and> bt_get reg name = Some entry \<and>
    td_reference (te_definition entry) \<in> set (grant_tools grant) \<and> \<not> ti_cancelled ti \<and>
    ti' = ti \<and> arguments' = arguments"
proof -
  have name: "tool_name (td_reference (te_definition e)) = name" if "bt_get reg name = Some e" for e
    using assms that by (auto simp: registry_ok_def tool_entry_ok_def)
  show ?thesis
    using name by (auto simp: tool_invoke_def authorize_scope_def split: option.splits)
qed

lemma tool_invoke_result:
  "snd (tool_invoke reg name arguments grant ti) = None \<Longrightarrow>
     fst (tool_invoke reg name arguments grant ti) \<in> {Err NotGranted, Err UnknownTool, Err ToolCancelled}"
  by (auto simp: tool_invoke_def authorize_scope_def split: option.splits if_splits)

lemma mcp_tools_total:
  assumes "json_laws J"
    and "\<forall>d \<in> set ds. j_is J (j_index J (td_input_schema d) ''type'') ''object''"
  shows "\<exists>ts. mcp_tools J ds = Ok ts \<and> map mt_name ts = map (\<lambda>d. tool_name (td_reference d)) ds"
  using assms(2)
proof (induction ds)
  case (Cons d ds)
  then have "j_is_object J (td_input_schema d)"
    using json_index_is [OF assms(1), of "td_input_schema d" "''type''" "''object''"] by simp
  then obtain m where "j_as_object J (td_input_schema d) = Some m" by (auto simp: j_is_object_def)
  with Cons show ?case by auto
qed simp

subsection \<open>What a checked schema is\<close>

text \<open>
  The reference: the subschemas of a node, when every keyword is supported, and the number
  of nodes of a schema that is at most \<open>n\<close> levels deep.
\<close>

definition key_children :: "'v json \<Rightarrow> string \<times> 'v \<Rightarrow> 'v list option" where
  "key_children J kv =
     (case kv of (key, v) \<Rightarrow>
        if key = ''$schema'' \<and> j_is J v draft_uri \<or> key \<in> set plain_keywords then Some []
        else if key = ''properties'' then map_option (map snd) (j_as_object J v)
        else if key = ''items'' \<or> key = ''additionalProperties'' then Some [v]
        else None)"

fun sum_sizes :: "nat option list \<Rightarrow> nat option" where
  "sum_sizes [] = Some 0"
| "sum_sizes (x # xs) =
     (case (x, sum_sizes xs) of (Some m, Some n) \<Rightarrow> Some (m + n) | _ \<Rightarrow> None)"

fun schema_size :: "'v json \<Rightarrow> nat \<Rightarrow> 'v \<Rightarrow> nat option" where
  "schema_size J 0 v = None"
| "schema_size J (Suc n) v =
     (if j_as_bool J v \<noteq> None then Some 1
      else
        (case j_as_object J v of
           None \<Rightarrow> None
         | Some m \<Rightarrow>
             map_option Suc (sum_sizes (map (\<lambda>kv.
               case key_children J kv of
                 None \<Rightarrow> None
               | Some vs \<Rightarrow> sum_sizes (map (schema_size J n) vs)) m))))"

text \<open>A check counts: it accepts exactly what has a size that still fits.\<close>

definition counts :: "('a \<Rightarrow> nat \<Rightarrow> (unit, tool_error) result \<times> nat) \<Rightarrow> ('a \<Rightarrow> nat option) \<Rightarrow> bool" where
  "counts check size_of \<longleftrightarrow>
     (\<forall>v k. k \<le> 256 \<longrightarrow>
        (case size_of v of
           None \<Rightarrow> fst (check v k) \<noteq> Ok ()
         | Some n \<Rightarrow> if k + n \<le> 256 then check v k = (Ok (), k + n) else fst (check v k) \<noteq> Ok ()))"

lemma countsD:
  assumes "counts check size_of" and "k \<le> 256"
  shows "size_of v = None \<Longrightarrow> fst (check v k) \<noteq> Ok ()"
    and "size_of v = Some n \<Longrightarrow> k + n \<le> 256 \<Longrightarrow> check v k = (Ok (), k + n)"
    and "size_of v = Some n \<Longrightarrow> \<not> k + n \<le> 256 \<Longrightarrow> fst (check v k) \<noteq> Ok ()"
  using assms(1) [unfolded counts_def, rule_format, OF assms(2), of v] by simp_all

text \<open>The early-return loop over a counting check counts.\<close>

lemma counts_loop:
  assumes step: "counts check size_of"
    and nil: "\<And>k. loop [] k = (Ok (), k)"
    and cons: "\<And>x xs k. loop (x # xs) k =
        (case check x k of (Ok _, k') \<Rightarrow> loop xs k' | (Err e, k') \<Rightarrow> (Err e, k') | (Panic, k') \<Rightarrow> (Panic, k'))"
  shows "counts loop (\<lambda>xs. sum_sizes (map size_of xs))"
proof -
  have "k \<le> 256 \<Longrightarrow>
      (case sum_sizes (map size_of xs) of
         None \<Rightarrow> fst (loop xs k) \<noteq> Ok ()
       | Some n \<Rightarrow> if k + n \<le> 256 then loop xs k = (Ok (), k + n) else fst (loop xs k) \<noteq> Ok ())" for xs k
  proof (induction xs arbitrary: k)
    case Nil
    then show ?case by (simp add: nil)
  next
    case (Cons x xs)
    show ?case
    proof (cases "fst (check x k) = Ok ()")
      case False
      then have no: "fst (loop (x # xs) k) \<noteq> Ok ()"
        by (cases "check x k"; cases "fst (check x k)") (auto simp: cons)
      moreover have "\<not> k + n \<le> 256" if "sum_sizes (map size_of (x # xs)) = Some n" for n
      proof
        assume le: "k + n \<le> 256"
        from that obtain m r where "size_of x = Some m" "n = m + r" by (auto split: option.splits)
        with countsD(2) [OF step Cons.prems, of x m] le False show False by simp
      qed
      ultimately show ?thesis by (auto split: option.split)
    next
      case True
      then obtain m where m: "size_of x = Some m" using countsD(1) [OF step Cons.prems, of x] by auto
      with True have le: "k + m \<le> 256" using countsD(3) [OF step Cons.prems, of x m] by auto
      have "check x k = (Ok (), k + m)" by (rule countsD(2) [OF step Cons.prems m le])
      then have "loop (x # xs) k = loop xs (k + m)" by (simp add: cons)
      with Cons.IH [OF le] m show ?thesis by (auto split: option.splits if_splits simp: add.assoc)
    qed
  qed
  then show ?thesis unfolding counts_def by blast
qed

lemma counts_check_all: "counts check size_of \<Longrightarrow> counts (check_all check) (\<lambda>vs. sum_sizes (map size_of vs))"
  by (rule counts_loop) simp_all

lemma counts_check_key:
  fixes J :: "'v json"
  assumes "counts check size_of"
  shows "counts (check_key J check) (\<lambda>kv. case key_children J kv of
           None \<Rightarrow> None | Some vs \<Rightarrow> sum_sizes (map size_of vs))"
  unfolding counts_def
proof (intro allI impI)
  fix kv :: "string \<times> 'v" and k :: nat assume k: "k \<le> 256"
  obtain key v where kv: "kv = (key, v)" by force
  define plain where "plain \<longleftrightarrow> (key = ''$schema'' \<and> j_is J v draft_uri) \<or> key \<in> set plain_keywords"
  have ch: "key_children J kv =
      (if plain then Some [] else if key = ''properties'' then map_option (map snd) (j_as_object J v)
       else if key = ''items'' \<or> key = ''additionalProperties'' then Some [v] else None)"
    by (simp only: kv key_children_def prod.case plain_def)
  have ck: "check_key J check kv k =
      (if plain then (Ok (), k)
       else if key = ''properties'' then
         (case j_as_object J v of None \<Rightarrow> (Err InvalidDefinition, k)
          | Some m \<Rightarrow> check_all check (map snd m) k)
       else if key = ''items'' \<or> key = ''additionalProperties'' then check v k
       else (Err (InvalidSchema (''unsupported schema keyword: '' @ key)), k))"
    by (simp add: kv check_key_def plain_def)
  have one: "sum_sizes (map size_of [v]) = size_of v" by (simp split: option.split)
  note B = assms [unfolded counts_def, rule_format, OF k, of v]
  consider "plain" | "\<not> plain" "key = ''properties''" "j_as_object J v = None"
    | m where "\<not> plain" "key = ''properties''" "j_as_object J v = Some m"
    | "\<not> plain" "key \<noteq> ''properties''" "key = ''items'' \<or> key = ''additionalProperties''"
    | "\<not> plain" "key \<noteq> ''properties''" "\<not> (key = ''items'' \<or> key = ''additionalProperties'')"
    by (cases "j_as_object J v") auto
  then show "case (case key_children J kv of None \<Rightarrow> None | Some vs \<Rightarrow> sum_sizes (map size_of vs)) of
         None \<Rightarrow> fst (check_key J check kv k) \<noteq> Ok ()
       | Some n \<Rightarrow> if k + n \<le> 256 then check_key J check kv k = (Ok (), k + n)
                   else fst (check_key J check kv k) \<noteq> Ok ()"
  proof cases
    case 1
    with k show ?thesis by (simp add: ch ck)
  next
    case 2
    then show ?thesis by (simp add: ch ck)
  next
    case (3 m)
    then have "key_children J kv = Some (map snd m)"
      "check_key J check kv k = check_all check (map snd m) k"
      by (simp_all only: ch ck if_False if_True option.case option.map HOL.simp_thms)
    with counts_check_all [OF assms, unfolded counts_def, rule_format, OF k, of "map snd m"]
    show ?thesis by (simp only: option.case)
  next
    case 4
    then have "key_children J kv = Some [v]" "check_key J check kv k = check v k"
      by (simp_all only: ch ck if_False if_True)
    with B one show ?thesis by (simp only: option.case)
  next
    case 5
    then show ?thesis by (simp add: ch ck)
  qed
qed

lemma counts_check_schema: "counts (check_schema J n) (schema_size J n)"
proof (induction n)
  case 0
  then show ?case by (simp add: counts_def)
next
  case (Suc n)
  have keys: "counts (check_keys J (check_schema J n)) (\<lambda>m. sum_sizes (map (\<lambda>kv.
      case key_children J kv of None \<Rightarrow> None | Some vs \<Rightarrow> sum_sizes (map (schema_size J n) vs)) m))"
    by (rule counts_loop [OF counts_check_key [OF Suc]]) simp_all
  show ?case
    unfolding counts_def
  proof (intro allI impI)
    fix v and k :: nat assume "k \<le> 256"
    show "case schema_size J (Suc n) v of
         None \<Rightarrow> fst (check_schema J (Suc n) v k) \<noteq> Ok ()
       | Some s \<Rightarrow> if k + s \<le> 256 then check_schema J (Suc n) v k = (Ok (), k + s)
                   else fst (check_schema J (Suc n) v k) \<noteq> Ok ()"
    proof (cases "j_as_object J v")
      case None
      with \<open>k \<le> 256\<close> show ?thesis by auto
    next
      case (Some m)
      with \<open>k \<le> 256\<close> show ?thesis
        using keys [unfolded counts_def, rule_format, of "Suc k" m]
        by (auto split: option.split option.splits if_splits)
    qed
  qed
qed

subsection \<open>Properties\<close>

definition grant_matches :: "tool_grant \<Rightarrow> tool_invocation \<Rightarrow> bool" where
  "grant_matches grant ti \<longleftrightarrow>
     grant_issuer grant = ti_host ti \<and> grant_subject grant = ti_actor ti \<and> grant_scope grant = ti_scope ti"

definition grant_covers :: "tool_grant \<Rightarrow> 'v tool_registry \<Rightarrow> string \<Rightarrow> bool" where
  "grant_covers grant reg name \<longleftrightarrow>
     (\<exists>e. bt_get reg name = Some e \<and> td_reference (te_definition e) \<in> set (grant_tools grant))"

text \<open>
  C15: A handler is called only under an exact grant, and a refusal says why. On every registry a
  host can build, an invocation reaches a handler exactly when the grant's issuer, subject and
  scope are those of the invocation, the named tool is registered, its registered revision is
  granted, and the invocation is not cancelled yet; the handler then gets the invocation's own
  context and arguments and its answer is returned, or \<open>Cancelled\<close> if the token is cancelled first.
  If no handler runs, the answer is \<open>UnknownTool\<close> exactly if the grant is for this invocation and
  names the tool but no such tool is registered, \<open>Cancelled\<close> exactly if only the cancellation stood
  in the way, and \<open>NotGranted\<close> otherwise.
\<close>

theorem tool_call_needs_grant:
  assumes "registry_built J reg"
  shows "(snd (tool_invoke reg name arguments grant ti) = Some (entry, ti', arguments') \<longleftrightarrow>
      grant_matches grant ti \<and> bt_get reg name = Some entry \<and> tool_name (td_reference (te_definition entry)) = name \<and>
      td_reference (te_definition entry) \<in> set (grant_tools grant) \<and>
      \<not> ti_cancelled ti \<and> ti' = ti \<and> arguments' = arguments) \<and>
    fst (tool_invoke reg name arguments grant ti) =
      (case snd (tool_invoke reg name arguments grant ti) of
         Some (e, _, _) \<Rightarrow> if ti_cancels_during ti then Err ToolCancelled else te_handler e ti arguments
       | None \<Rightarrow>
           if grant_matches grant ti \<and> grant_covers grant reg name then Err ToolCancelled
           else if grant_matches grant ti \<and> bt_get reg name = None \<and> name \<in> tool_name ` set (grant_tools grant)
           then Err UnknownTool
           else Err NotGranted)"
proof -
  have ok: "registry_ok J reg" by (rule registry_built_ok [OF assms])
  have name: "tool_name (td_reference (te_definition e)) = name" if "bt_get reg name = Some e" for e
    using ok that by (auto simp: registry_ok_def tool_entry_ok_def)
  have "fst (tool_invoke reg name arguments grant ti) =
      (case snd (tool_invoke reg name arguments grant ti) of
         Some (e, _, _) \<Rightarrow> if ti_cancels_during ti then Err ToolCancelled else te_handler e ti arguments
       | None \<Rightarrow>
           if grant_matches grant ti \<and> grant_covers grant reg name then Err ToolCancelled
           else if grant_matches grant ti \<and> bt_get reg name = None \<and> name \<in> tool_name ` set (grant_tools grant)
           then Err UnknownTool
           else Err NotGranted)"
    using name by (auto simp: tool_invoke_def authorize_scope_def grant_matches_def grant_covers_def split: option.splits)
  then show ?thesis
    using tool_invoke_call_iff [OF ok, of name arguments grant ti entry ti' arguments'] name
    by (auto simp: authorize_scope_Ok_iff grant_matches_def)
qed

definition sample_tool_ref :: tool_ref where
  "sample_tool_ref = \<lparr>tool_name = ''echo'', tool_revision = ''1''\<rparr>"

definition sample_registry :: "tree tool_registry" where
  "sample_registry = snd (register_handler tree_json (Ok (TObj [(''type'', TStr ''object'')]))
     sample_tool_ref ''d'' (\<lambda>_ v. Ok v) [])"

definition sample_tool_grant :: tool_grant where
  "sample_tool_grant = \<lparr>grant_issuer = Ident ''h'', grant_subject = Ident ''a'',
     grant_scope = \<lparr>scope_session = Ident ''s'', scope_slot = Ident ''l''\<rparr>, grant_tools = [sample_tool_ref]\<rparr>"

definition sample_invocation :: tool_invocation where
  "sample_invocation = \<lparr>ti_host = Ident ''h'', ti_actor = Ident ''a'',
     ti_scope = \<lparr>scope_session = Ident ''s'', scope_slot = Ident ''l''\<rparr>, ti_cancelled = False,
     ti_cancels_during = False\<rparr>"

lemma sample_registry_built: "registry_built tree_json sample_registry"
  unfolding sample_registry_def by (intro registry_built.intros)

lemma sample_registry_eq:
  "sample_registry = [(''echo'', \<lparr>te_definition = \<lparr>td_reference = sample_tool_ref, td_description = ''d'',
     td_input_schema = TObj [(''type'', TStr ''object'')]\<rparr>, te_handler = (\<lambda>_ v. Ok v)\<rparr>)]"
proof -
  have "\<not> blank ''1''" "\<not> blank ''d''" by (rule not_blank_plain; simp add: plain_char_def)+
  then show ?thesis
    by (simp add: sample_registry_def register_handler_def sample_tool_ref_def tool_name_bad_def
        ascii_alphanumeric_def Let_def bt_get_def j_is_def j_index_def j_get_def tree_json_def)
qed

theorem tool_call_needs_grant_witness:
  "snd (tool_invoke sample_registry ''echo'' TNull sample_tool_grant sample_invocation) \<noteq> None \<and>
   snd (tool_invoke sample_registry ''echo'' TNull (sample_tool_grant\<lparr>grant_tools := []\<rparr>) sample_invocation) = None"
proof -
  have "bt_get sample_registry ''echo'' \<noteq> None" by (simp add: sample_registry_eq bt_get_def)
  then obtain e where e: "bt_get sample_registry ''echo'' = Some e" by blast
  then have "td_reference (te_definition e) = sample_tool_ref" by (auto simp: sample_registry_eq bt_get_def)
  with e tool_call_needs_grant [OF sample_registry_built, of "''echo''" TNull sample_tool_grant
      sample_invocation e sample_invocation TNull]
  have "snd (tool_invoke sample_registry ''echo'' TNull sample_tool_grant sample_invocation) =
      Some (e, sample_invocation, TNull)"
    by (simp add: sample_tool_grant_def sample_invocation_def sample_tool_ref_def grant_matches_def)
  moreover have "snd (tool_invoke sample_registry ''echo'' TNull (sample_tool_grant\<lparr>grant_tools := []\<rparr>) sample_invocation) = None"
    by (simp add: tool_invoke_def authorize_scope_def sample_tool_grant_def sample_invocation_def)
  ultimately show ?thesis by simp
qed

text \<open>
  C36: Discovery and invocation agree. For an invocation in the grant's scope that is not
  cancelled, the catalog lists a tool of a given name, once, exactly when invoking that name
  reaches a handler; and the MCP adapter for such a registry is always built, without a
  panic, with exactly the catalog's names.
\<close>

theorem tool_catalog_callable:
  assumes "registry_built J reg" and "json_laws J"
    and "authorize_scope grant ti = Ok ()" and "\<not> ti_cancelled ti"
  shows "\<exists>defs. tool_catalog reg grant ti = Ok defs \<and>
    distinct (map (\<lambda>d. tool_name (td_reference d)) defs) \<and>
    (\<forall>name args. name \<in> set (map (\<lambda>d. tool_name (td_reference d)) defs) \<longleftrightarrow>
       snd (tool_invoke reg name args grant ti) \<noteq> None) \<and>
    (\<exists>srv. mcp_new J reg grant (ti_scope ti) (ti_actor ti) (ti_host ti) = Ok srv \<and>
       map mt_name (mcp_catalog srv) = map (\<lambda>d. tool_name (td_reference d)) defs)"
proof -
  have ok: "registry_ok J reg" by (rule registry_built_ok [OF assms(1)])
  let ?sel = "filter (\<lambda>e. td_reference (te_definition e) \<in> set (grant_tools grant)) (bt_values reg)"
  let ?defs = "map te_definition ?sel"
  let ?name = "\<lambda>d. tool_name (td_reference d)"
  have cat: "tool_catalog reg grant ti = Ok ?defs" using assms(3) by (simp add: tool_catalog_def)
  have entry: "tool_entry_ok J k e" if "(k, e) \<in> set reg" for k e
  proof -
    have "distinct (map fst reg)" using ok by (auto simp: registry_ok_def bt_ok_def strict_sorted_iff)
    with that have "bt_get reg k = Some e" by (simp add: bt_get_def)
    with ok show ?thesis by (simp add: registry_ok_def)
  qed
  have names: "map (\<lambda>e. ?name (te_definition e)) (bt_values reg) = map fst reg"
    unfolding bt_values_def using entry by (auto simp: tool_entry_ok_def)
  have "distinct (map fst reg)" using ok by (auto simp: registry_ok_def bt_ok_def strict_sorted_iff)
  then have "distinct (map (\<lambda>e. ?name (te_definition e)) (bt_values reg))" by (simp only: names)
  then have dist: "distinct (map ?name ?defs)" by (simp add: comp_def distinct_map_filter)
  have iff: "name \<in> set (map ?name ?defs) \<longleftrightarrow> snd (tool_invoke reg name args grant ti) \<noteq> None" for name args
  proof -
    have "name \<in> set (map ?name ?defs) \<longleftrightarrow>
        (\<exists>e. bt_get reg name = Some e \<and> td_reference (te_definition e) \<in> set (grant_tools grant))"
    proof
      assume "name \<in> set (map ?name ?defs)"
      then obtain e where e: "e \<in> set (bt_values reg)" "name = ?name (te_definition e)"
        "td_reference (te_definition e) \<in> set (grant_tools grant)" by auto
      then obtain k where k: "bt_get reg k = Some e"
        using ok by (auto simp: registry_ok_def bt_values_iff)
      with ok have "k = name" using e(2) by (auto simp: registry_ok_def tool_entry_ok_def)
      with k e(3) show "\<exists>e. bt_get reg name = Some e \<and> td_reference (te_definition e) \<in> set (grant_tools grant)"
        by blast
    next
      assume "\<exists>e. bt_get reg name = Some e \<and> td_reference (te_definition e) \<in> set (grant_tools grant)"
      then obtain e where e: "bt_get reg name = Some e" "td_reference (te_definition e) \<in> set (grant_tools grant)"
        by blast
      then have "e \<in> set (bt_values reg)" "?name (te_definition e) = name"
        using ok by (auto simp: registry_ok_def bt_values_iff tool_entry_ok_def)
      with e(2) show "name \<in> set (map ?name ?defs)" by force
    qed
    also have "\<dots> \<longleftrightarrow> (\<exists>e. snd (tool_invoke reg name args grant ti) = Some (e, ti, args))"
      using tool_invoke_call_iff [OF ok, of name args grant ti] assms(3,4) by auto
    also have "\<dots> \<longleftrightarrow> snd (tool_invoke reg name args grant ti) \<noteq> None"
      using tool_invoke_call_iff [OF ok, of name args grant ti] by auto
    finally show ?thesis .
  qed
  have "authorize_scope grant \<lparr>ti_host = ti_host ti, ti_actor = ti_actor ti, ti_scope = ti_scope ti,
      ti_cancelled = False, ti_cancels_during = False\<rparr> = Ok ()"
    using assms(3) by (simp add: authorize_scope_Ok_iff)
  moreover have "\<forall>d \<in> set ?defs. j_is J (j_index J (td_input_schema d) ''type'') ''object''"
    using entry by (auto simp: bt_values_def tool_entry_ok_def)
  then obtain ts where "mcp_tools J ?defs = Ok ts" "map mt_name ts = map ?name ?defs"
    using mcp_tools_total [OF assms(2)] by blast
  ultimately have "\<exists>srv. mcp_new J reg grant (ti_scope ti) (ti_actor ti) (ti_host ti) = Ok srv \<and>
       map mt_name (mcp_catalog srv) = map ?name ?defs"
    by (simp add: mcp_new_def tool_catalog_def)
  with cat dist iff show ?thesis by blast
qed

theorem tool_catalog_callable_witness:
  "\<exists>defs. tool_catalog sample_registry sample_tool_grant sample_invocation = Ok defs \<and>
     distinct (map (\<lambda>d. tool_name (td_reference d)) defs)"
proof -
  have "authorize_scope sample_tool_grant sample_invocation = Ok ()" "\<not> ti_cancelled sample_invocation"
    by (simp_all add: authorize_scope_def sample_tool_grant_def sample_invocation_def)
  from tool_catalog_callable [OF sample_registry_built tree_json_laws this] show ?thesis by blast
qed

text \<open>
  The schema check accepts exactly the bounded schemas: it succeeds if and only if every
  node is a boolean or an object with supported keywords only, no node is more than 16 levels
  deep and there are at most 256 nodes, and it then has counted every node.
\<close>

theorem schema_check_bounded:
  "fst (check_schema J 17 schema 0) = Ok () \<longleftrightarrow> (\<exists>n. schema_size J 17 schema = Some n \<and> n \<le> 256)"
  using counts_check_schema [of J 17, unfolded counts_def, rule_format, of 0 schema]
  by (auto split: option.splits if_splits)

end
