(* ===== verification/Structured.thy ===== *)
theory Structured imports Prelude begin

section \<open>Structured results (src/structured.rs)\<close>

text \<open>
  \<open>JsonContract\<close>: the host's validation of a text a provider returned. The serde parser
  of the expected type is a parameter; its errors carry serde's category.
\<close>

datatype json_rejection =
  MissingOutput
| AmbiguousOutput
| NonTextOutput
| OutputTooLarge
| InvalidJson string
| InvalidShape string
| InvalidValue string
| Incomplete string

datatype invalid_contract = InvalidContract

datatype parse_error = DataError string | SyntaxError string

record 't json_contract =
  jc_name :: string
  jc_revision :: string
  jc_instructions :: string
  jc_max_bytes :: nat
  jc_check :: "('t \<Rightarrow> (unit, string) result) option"

definition contract_new ::
  "string \<Rightarrow> string \<Rightarrow> string \<Rightarrow> nat \<Rightarrow> ('t json_contract, invalid_contract) result" where
  "contract_new name revision instructions max_bytes =
     (if blank name \<or> blank revision \<or> blank instructions \<or> max_bytes = 0 then Err InvalidContract
      else Ok \<lparr>jc_name = name, jc_revision = revision, jc_instructions = instructions,
               jc_max_bytes = max_bytes, jc_check = None\<rparr>)"

definition with_validation ::
  "('t \<Rightarrow> (unit, string) result) \<Rightarrow> 't json_contract \<Rightarrow> 't json_contract" where
  "with_validation check c = c\<lparr>jc_check := Some check\<rparr>"

definition parse_rejection :: "parse_error \<Rightarrow> json_rejection" where
  "parse_rejection e = (case e of DataError s \<Rightarrow> InvalidShape s | SyntaxError s \<Rightarrow> InvalidJson s)"

definition contract_validate ::
  "(string \<Rightarrow> ('t, parse_error) result) \<Rightarrow> 't json_contract \<Rightarrow> string \<Rightarrow> ('t, json_rejection) result" where
  "contract_validate parse c text =
     (if length text > jc_max_bytes c then Err OutputTooLarge
      else if blank text then Err MissingOutput
      else
        rbind (map_err parse_rejection (parse text)) (\<lambda>value.
        rbind (case jc_check c of None \<Rightarrow> Ok () | Some check \<Rightarrow> map_err InvalidValue (check value)) (\<lambda>_.
          Ok value)))"

lemma map_err_eq_Ok [simp]: "map_err f r = Ok x \<longleftrightarrow> r = Ok x"
  by (cases r) auto

lemma map_err_eq_Err: "map_err f r = Err e \<longleftrightarrow> (\<exists>e'. r = Err e' \<and> e = f e')"
  by (cases r) auto

lemma contract_validate_Ok_iff:
  "contract_validate parse c text = Ok value \<longleftrightarrow>
     length text \<le> jc_max_bytes c \<and> \<not> blank text \<and> parse text = Ok value \<and>
     (\<forall>check. jc_check c = Some check \<longrightarrow> check value = Ok ())"
  by (auto simp: contract_validate_def rbind_eq_Ok split: option.splits)

subsection \<open>Properties\<close>

text \<open>
  A contract made by the constructor accepts a text exactly when it is within the byte
  limit, not blank, parses as one value of the expected type without any repair, and passes
  the application's check if there is one; the accepted value is the parsed one. An oversized
  text is rejected before it is parsed, whatever the parser does with it.
\<close>

theorem contract_accepts_exactly:
  assumes "contract_new name revision instructions limit = Ok c0"
    and "c = (case check of None \<Rightarrow> c0 | Some f \<Rightarrow> with_validation f c0)"
  shows "(contract_validate parse c text = Ok value \<longleftrightarrow>
      length text \<le> limit \<and> \<not> blank text \<and> parse text = Ok value \<and>
      (\<forall>f. check = Some f \<longrightarrow> f value = Ok ())) \<and>
    (limit < length text \<longrightarrow> contract_validate parse c text = Err OutputTooLarge) \<and>
    0 < limit \<and> jc_name c = name \<and> jc_revision c = revision \<and> \<not> blank name \<and> \<not> blank revision"
  using assms
proof -
  have over: "limit < length text \<Longrightarrow> contract_validate parse c text = Err OutputTooLarge"
    using assms by (auto simp: contract_validate_def contract_new_def with_validation_def
        split: if_splits option.splits)
  show ?thesis
    using assms over by (auto simp: contract_validate_Ok_iff contract_new_def with_validation_def
        split: if_splits option.splits)
qed

theorem contract_accepts_exactly_witness:
  "\<exists>c :: nat json_contract. contract_new ''n'' ''1'' ''i'' 2 = Ok c \<and>
     contract_validate (\<lambda>_. Ok 7) (with_validation (\<lambda>v. if v = 7 then Ok () else Err ''no'') c) ''7'' = Ok 7 \<and>
     contract_validate (\<lambda>_. Ok 7) c ''777'' = Err OutputTooLarge"
proof -
  have nb: "\<not> blank ''n''" "\<not> blank ''1''" "\<not> blank ''i''" "\<not> blank ''7''"
    by (rule not_blank_plain; simp add: plain_char_def)+
  then obtain c :: "nat json_contract" where c: "contract_new ''n'' ''1'' ''i'' 2 = Ok c"
    by (auto simp: contract_new_def)
  have "contract_validate (\<lambda>_. Ok 7) (with_validation (\<lambda>v. if v = 7 then Ok () else Err ''no'') c) ''7'' = Ok 7"
    using contract_accepts_exactly [OF c, of _ "Some (\<lambda>v. if v = 7 then Ok () else Err ''no'')"
        "\<lambda>_. Ok 7" "''7''" 7] nb by simp
  moreover have "contract_validate (\<lambda>_. Ok 7) c ''777'' = Err OutputTooLarge"
    using contract_accepts_exactly [OF c, of c None "\<lambda>_. Ok 7" "''777''"] by simp
  ultimately show ?thesis using c by blast
qed

end
