(* ===== verification/Receipts.thy ===== *)
theory Receipts imports Json Structured Rules begin

section \<open>Receipts (src/records/receipts.rs)\<close>

text \<open>
  The version-aware reader of bridge-owned evidence. The evidence types are records and
  datatypes; serde's derived deserializers are the fields of \<open>receipt_codec\<close>. What the
  reader adds to them (namespace, version gate, consistency requirements) is modelled whole.
\<close>

record record_revision =
  rr_id :: record_id
  rr_revision :: u64

datatype receipt_item =
  ReceiptRecord record_id
| ReceiptResource resource_ref
| ReceiptInstruction instruction_ref

record omission =
  omi_item :: receipt_item
  omi_reason :: string

record instruction_authority =
  au_issuer :: actor_id
  au_requester :: actor_id
  au_subject :: actor_id
  au_granted :: "instruction_ref list"

record skill_evidence =
  se_resource :: resource_ref
  se_planned_delivery :: string
  se_local_availability :: string
  se_native_availability :: string
  se_native_activation :: string
  se_reason :: "string option"

record context_policy_evidence =
  pe_omissions :: "omission list"
  pe_instruction_authority :: "instruction_authority option"
  pe_requested_context :: context_manifest
  pe_skills :: "skill_evidence list"

record image_evidence =
  ie_reference :: resource_ref
  ie_media_type :: string
  ie_sha256 :: string
  ie_bytes :: u64
  ie_prompt_block :: u64

record prepared_input =
  in_encoding :: string
  in_context_mode :: string
  in_wire_text :: string
  in_wire_bytes :: u64
  in_omissions :: "omission list"
  in_images :: "image_evidence list option"
  in_resource_retention :: "string option"
  in_instruction_authority :: "instruction_authority option"
  in_requested_context :: "context_manifest option"
  in_skills :: "skill_evidence list option"

datatype input_stage =
  Prepared prepared_input
| DispatchAttempted
| ResponseReceived string
| InputUnknown

record input_receipt =
  ir_version :: nat
  ir_stage :: input_stage

record selected_instruction =
  si_id :: resource_id
  si_revision :: string
  si_role :: instruction_role
  si_delivery :: string

datatype restoration_strategy =
  NativeResume continuation_id string bool
| PortableSelection string session_id slot_id "record_revision list" "resource_ref list"
    "selected_instruction list" "string list" string "context_policy_evidence option"

record restoration_receipt =
  re_version :: nat
  re_strategy :: restoration_strategy

record contract_identity =
  ci_name :: string
  ci_revision :: string

record result_contract =
  rk_version :: nat
  rk_name :: string
  rk_revision :: string
  rk_mode :: string
  rk_native_enforcement :: bool
  rk_max_validation_bytes :: u64
  rk_validator :: string
  rk_application_validation :: bool
  rk_wire_text :: string

datatype validation_outcome = Valid | Rejected json_rejection

record result_validation =
  rv_version :: nat
  rv_contract :: contract_identity
  rv_mode :: string
  rv_native_enforcement :: bool
  rv_sources :: "record_revision list"
  rv_validation :: validation_outcome

record configuration_report =
  cr_confirmed :: "config_values option"

datatype 'v tool_outcome = ToolSuccess 'v | ToolError string

datatype 'v tool_stage = ToolDispatchAttempted 'v | ToolReturned "'v tool_outcome" | ToolStageUnknown string

record 'v tool_receipt =
  tr_version :: nat
  tr_invocation_id :: string
  tr_binding_id :: string
  tr_scope :: tool_scope
  tr_tool :: tool_ref
  tr_issuer :: actor_id
  tr_subject :: actor_id
  tr_stage :: "'v tool_stage"

datatype 'v receipt =
  InputR input_receipt
| RestorationR restoration_receipt
| ResultContractR result_contract
| ResultValidationR result_validation
| ConfigurationReportR configuration_report
| ToolInvocationR "'v tool_receipt"
| Unsupported string nat

record receipt_error =
  rer_name :: string
  rer_reason :: string

text \<open>serde's deserializers; an error is its text.\<close>

record 'v receipt_codec =
  dec_input :: "'v \<Rightarrow> (input_receipt, string) result"
  dec_restoration :: "'v \<Rightarrow> (restoration_receipt, string) result"
  dec_contract :: "'v \<Rightarrow> (result_contract, string) result"
  dec_validation :: "'v \<Rightarrow> (result_validation, string) result"
  dec_configuration :: "'v \<Rightarrow> (configuration_report, string) result"
  dec_tool :: "'v \<Rightarrow> ('v tool_receipt, string) result"

definition decode_receipt ::
  "('v \<Rightarrow> ('t, string) result) \<Rightarrow> string \<Rightarrow> 'v \<Rightarrow> ('t, receipt_error) result" where
  "decode_receipt dec name data = map_err (\<lambda>reason. \<lparr>rer_name = name, rer_reason = reason\<rparr>) (dec data)"

definition require :: "string \<Rightarrow> bool \<Rightarrow> string \<Rightarrow> (unit, receipt_error) result" where
  "require name condition reason =
     (if condition then Ok () else Err \<lparr>rer_name = name, rer_reason = reason\<rparr>)"

definition skill_valid :: "skill_evidence \<Rightarrow> bool" where
  "skill_valid s \<longleftrightarrow>
     se_native_availability s = ''unknown'' \<and> se_native_activation s = ''not_observed'' \<and>
     (if se_planned_delivery s \<in> {''supplemental_text'', ''require_native''}
      then se_local_availability s = ''resolved'' \<and> se_reason s = None
      else if se_planned_delivery s = ''omitted''
      then se_local_availability s = ''not_checked'' \<and>
           (case se_reason s of None \<Rightarrow> False | Some r \<Rightarrow> \<not> blank r)
      else False)"

definition skills_valid :: "skill_evidence list \<Rightarrow> bool" where
  "skills_valid skills = list_all skill_valid skills"

definition is_hex_digit :: "char \<Rightarrow> bool" where
  "is_hex_digit c \<longleftrightarrow>
     (let n = of_char c :: nat in
        (48 \<le> n \<and> n \<le> 57) \<or> (65 \<le> n \<and> n \<le> 70) \<or> (97 \<le> n \<and> n \<le> 102))"

definition image_valid :: "image_evidence \<Rightarrow> bool" where
  "image_valid i \<longleftrightarrow>
     length (ie_sha256 i) = 64 \<and> list_all is_hex_digit (ie_sha256 i) \<and> ie_prompt_block i > 0"

definition known_receipts :: "string list" where
  "known_receipts =
     [''input_receipt'', ''restoration'', ''result_contract'', ''result_validation'',
      ''configuration_report'', ''tool_invocation'']"

text \<open>The requirements on a prepared input, in the source's order.\<close>

definition check_prepared :: "'v json \<Rightarrow> string \<Rightarrow> nat \<Rightarrow> 'v \<Rightarrow> prepared_input \<Rightarrow> (unit, receipt_error) result" where
  "check_prepared J name version data input =
     rbind (require name (in_context_mode input = ''append_to_native'') ''unsupported context mode'') (\<lambda>_.
     rbind
       (if in_encoding input = ''agent_bridge.text_context.v1'' then
          require name
            (in_images input = None \<and> unat (in_wire_bytes input) = length (in_wire_text input))
            ''inconsistent text encoding or byte count''
        else if in_encoding input = ''agent_bridge.media_context.v1'' then
          require name
            (version \<ge> 2 \<and> (case in_images input of None \<Rightarrow> False | Some images \<Rightarrow> images \<noteq> []) \<and>
             in_resource_retention input = Some ''supplied_resource_store'' \<and>
             unat (in_wire_bytes input) \<ge> length (in_wire_text input))
            ''incomplete image evidence''
        else Err \<lparr>rer_name = name, rer_reason = ''unsupported input encoding''\<rparr>) (\<lambda>_.
     rbind
       (case in_images input of
          None \<Rightarrow> Ok ()
        | Some images \<Rightarrow> require name (list_all image_valid images) ''invalid image descriptor'') (\<lambda>_.
     rbind
       (if version = 3 then
          require name (j_get J data ''instruction_authority'' \<noteq> None \<and> in_requested_context input \<noteq> None)
            ''missing policy evidence''
        else Ok ()) (\<lambda>_.
     rbind
       (require name
          (version \<ge> 3 \<or> (in_omissions input = [] \<and> in_instruction_authority input = None \<and>
             in_requested_context input = None))
          ''policy evidence requires version 3 or later'') (\<lambda>_.
     rbind
       (require name
          ((in_omissions input = [] \<and> in_instruction_authority input = None) \<or>
           in_requested_context input \<noteq> None)
          ''policy evidence is missing requested context'') (\<lambda>_.
     rbind
       (if version = 4 then require name (in_skills input \<noteq> None) ''missing skill evidence'' else Ok ()) (\<lambda>_.
     rbind
       (require name (version \<ge> 4 \<or> in_skills input = None) ''skills require receipt version 4'') (\<lambda>_.
       require name (case in_skills input of None \<Rightarrow> True | Some skills \<Rightarrow> skills_valid skills)
         ''inconsistent skill evidence''))))))))"

definition check_restoration :: "string \<Rightarrow> nat \<Rightarrow> restoration_strategy \<Rightarrow> (unit, receipt_error) result" where
  "check_restoration name version strategy =
     (case strategy of
        NativeResume _ native_context replayed \<Rightarrow>
          require name (version = 1 \<and> native_context = ''reused_uninspected'' \<and> \<not> replayed)
            ''inconsistent native restoration''
      | PortableSelection native_context _ _ _ _ selected _ delivery policy \<Rightarrow>
          rbind
            (require name
               (native_context = ''new_session'' \<and> delivery = ''pending_first_run'' \<and>
                list_all (\<lambda>i. si_role i = Supplemental \<and> si_delivery i = ''user_text'') selected)
               ''inconsistent portable restoration'') (\<lambda>_.
          rbind (require name (version \<noteq> 2 \<or> policy \<noteq> None) ''missing policy evidence'') (\<lambda>_.
          rbind
            (require name (version \<noteq> 1 \<or> policy = None)
               ''policy evidence requires restoration version 2 or later'') (\<lambda>_.
          rbind
            (require name
               (version \<ge> 3 \<or> (case policy of None \<Rightarrow> True | Some p \<Rightarrow> pe_skills p = []))
               ''skills require restoration version 3'') (\<lambda>_.
            require name (case policy of None \<Rightarrow> True | Some p \<Rightarrow> skills_valid (pe_skills p))
              ''inconsistent skill evidence'')))))"

definition check_contract :: "string \<Rightarrow> result_contract \<Rightarrow> (unit, receipt_error) result" where
  "check_contract name c =
     require name
       (rk_mode c = ''validate_returned_text'' \<and> \<not> rk_native_enforcement c \<and>
        rk_validator c = ''serde_deserialize'' \<and> rk_max_validation_bytes c > 0 \<and>
        \<not> blank (rk_name c) \<and> \<not> blank (rk_revision c))
       ''inconsistent result contract''"

definition check_validation :: "'v json \<Rightarrow> string \<Rightarrow> 'v \<Rightarrow> result_validation \<Rightarrow> (unit, receipt_error) result" where
  "check_validation J name data v =
     rbind
       (require name
          (rv_mode v = ''validate_returned_text'' \<and> \<not> rv_native_enforcement v \<and>
           \<not> blank (ci_name (rv_contract v)) \<and> \<not> blank (ci_revision (rv_contract v)))
          ''inconsistent result validation'') (\<lambda>_.
       require name
         (rv_validation v \<noteq> Valid \<or> j_get J (j_index J data ''validation'') ''rejection'' = None)
         ''valid outcome contains rejection'')"

definition check_tool :: "string \<Rightarrow> 'v tool_receipt \<Rightarrow> (unit, receipt_error) result" where
  "check_tool name t =
     require name
       (\<not> blank (tr_invocation_id t) \<and> \<not> blank (tr_binding_id t) \<and>
        \<not> blank (tool_name (tr_tool t)) \<and> \<not> blank (tool_revision (tr_tool t)))
       ''invalid invocation identity''"

definition receipt_supported :: "string \<Rightarrow> nat \<Rightarrow> bool" where
  "receipt_supported name version =
     (if name = ''input_receipt'' then version \<le> 4
      else if name = ''restoration'' then version \<le> 3
      else if name \<in> {''result_contract'', ''result_validation'', ''tool_invocation''} then version = 1
      else False)"

text \<open>\<open>as_u64\<close>, \<open>u32::try_from\<close>, positive.\<close>

definition receipt_version :: "'v json \<Rightarrow> 'v \<Rightarrow> nat option" where
  "receipt_version J data =
     (case j_as_u64 J (j_index J data ''version'') of
        None \<Rightarrow> None
      | Some v \<Rightarrow> if v < 2 ^ 32 \<and> v > 0 then Some v else None)"

definition receipt_decode ::
  "'v json \<Rightarrow> 'v receipt_codec \<Rightarrow> string \<Rightarrow> nat \<Rightarrow> 'v \<Rightarrow> ('v receipt, receipt_error) result" where
  "receipt_decode J D name version data =
     (if name = ''tool_invocation'' then
        rbind (decode_receipt (dec_tool D) name data) (\<lambda>value.
        rbind (check_tool name value) (\<lambda>_. Ok (ToolInvocationR value)))
      else if name = ''input_receipt'' then
        rbind (decode_receipt (dec_input D) name data) (\<lambda>value.
        rbind (case ir_stage value of
                 Prepared input \<Rightarrow> check_prepared J name version data input
               | _ \<Rightarrow> Ok ()) (\<lambda>_. Ok (InputR value)))
      else if name = ''restoration'' then
        rbind (decode_receipt (dec_restoration D) name data) (\<lambda>value.
        rbind (check_restoration name version (re_strategy value)) (\<lambda>_. Ok (RestorationR value)))
      else if name = ''result_contract'' then
        rbind (decode_receipt (dec_contract D) name data) (\<lambda>value.
        rbind (check_contract name value) (\<lambda>_. Ok (ResultContractR value)))
      else if name = ''result_validation'' then
        rbind (decode_receipt (dec_validation D) name data) (\<lambda>value.
        rbind (check_validation J name data value) (\<lambda>_. Ok (ResultValidationR value)))
      else Panic)"

definition receipt_read ::
  "'v json \<Rightarrow> 'v receipt_codec \<Rightarrow> 'v payload \<Rightarrow> ('v receipt option, receipt_error) result" where
  "receipt_read J D payload =
     (case payload of
        PExtension namespace name data \<Rightarrow>
          if namespace \<noteq> ''agent_bridge'' \<or> name \<notin> set known_receipts then Ok None
          else
            rbind (require name (j_is_object J data) ''expected an object'') (\<lambda>_.
              if name = ''configuration_report'' \<and> j_get J data ''version'' = None then
                rbind (require name (j_get J data ''confirmed'' \<noteq> None) ''missing confirmed report'') (\<lambda>_.
                rbind (decode_receipt (dec_configuration D) name data) (\<lambda>value.
                  Ok (Some (ConfigurationReportR value))))
              else
                (case receipt_version J data of
                   None \<Rightarrow> Err \<lparr>rer_name = name, rer_reason = ''missing or invalid version''\<rparr>
                 | Some version \<Rightarrow>
                     if \<not> receipt_supported name version then Ok (Some (Unsupported name version))
                     else
                       rbind (receipt_decode J D name version data) (\<lambda>receipt. Ok (Some receipt))))
      | _ \<Rightarrow> Ok None)"

subsection \<open>Lemmas\<close>

lemma require_eq [simp]:
  "require name c reason = Ok u \<longleftrightarrow> c"
  "require name c reason \<noteq> Panic"
  by (simp_all add: require_def)

definition codec_total :: "'v receipt_codec \<Rightarrow> bool" where
  "codec_total D \<longleftrightarrow>
     (\<forall>v. dec_input D v \<noteq> Panic \<and> dec_restoration D v \<noteq> Panic \<and> dec_contract D v \<noteq> Panic \<and>
        dec_validation D v \<noteq> Panic \<and> dec_configuration D v \<noteq> Panic \<and> dec_tool D v \<noteq> Panic)"

lemma decode_receipt_eq:
  "decode_receipt dec name data = Ok x \<longleftrightarrow> dec data = Ok x"
  "decode_receipt dec name data = Panic \<longleftrightarrow> dec data = Panic"
  by (cases "dec data"; simp add: decode_receipt_def)+

lemma check_no_panic [simp]:
  "check_prepared J name version data input \<noteq> Panic" "check_restoration name version strategy \<noteq> Panic"
  "check_contract name c \<noteq> Panic" "check_validation J name data v \<noteq> Panic" "check_tool name t \<noteq> Panic"
  by (simp_all add: check_prepared_def check_restoration_def check_contract_def check_validation_def
      check_tool_def rbind_eq_Panic split: option.split restoration_strategy.split)

lemma supported_decodes:
  "codec_total D \<Longrightarrow> receipt_supported name version \<Longrightarrow> receipt_decode J D name version data \<noteq> Panic"
  unfolding receipt_supported_def receipt_decode_def codec_total_def
  by (auto simp: rbind_eq_Panic decode_receipt_eq split: if_splits input_stage.splits)

lemma receipt_decode_supported [simp]: "receipt_decode J D name version data \<noteq> Ok (Unsupported n v)"
  by (auto simp: receipt_decode_def rbind_eq_Ok split: if_splits)

lemma receipt_version_index:
  "json_laws J \<Longrightarrow> receipt_version J data = Some v \<Longrightarrow> j_get J data ''version'' \<noteq> None"
  by (auto simp: receipt_version_def j_index_def json_lawsD split: option.splits)

text \<open>What the reader guarantees of evidence it hands out.\<close>

definition prepared_consistent :: "prepared_input \<Rightarrow> bool" where
  "prepared_consistent input \<longleftrightarrow>
     in_context_mode input = ''append_to_native'' \<and>
     (in_encoding input = ''agent_bridge.text_context.v1'' \<and> in_images input = None \<and>
        unat (in_wire_bytes input) = length (in_wire_text input) \<or>
      in_encoding input = ''agent_bridge.media_context.v1'' \<and>
        (\<exists>images. in_images input = Some images \<and> images \<noteq> [] \<and> list_all image_valid images) \<and>
        in_resource_retention input = Some ''supplied_resource_store'' \<and>
        length (in_wire_text input) \<le> unat (in_wire_bytes input)) \<and>
     (in_omissions input \<noteq> [] \<or> in_instruction_authority input \<noteq> None \<longrightarrow>
        in_requested_context input \<noteq> None) \<and>
     (\<forall>skills. in_skills input = Some skills \<longrightarrow> skills_valid skills)"

definition receipt_consistent :: "'v receipt \<Rightarrow> bool" where
  "receipt_consistent r =
     (case r of
        InputR i \<Rightarrow> (\<forall>input. ir_stage i = Prepared input \<longrightarrow> prepared_consistent input)
      | RestorationR x \<Rightarrow>
          (case re_strategy x of
             NativeResume _ ctx replayed \<Rightarrow> ctx = ''reused_uninspected'' \<and> \<not> replayed
           | PortableSelection ctx _ _ _ _ selected _ delivery policy \<Rightarrow>
               ctx = ''new_session'' \<and> delivery = ''pending_first_run'' \<and>
               (\<forall>i \<in> set selected. si_role i = Supplemental \<and> si_delivery i = ''user_text'') \<and>
               (\<forall>p. policy = Some p \<longrightarrow> skills_valid (pe_skills p)))
      | ResultContractR c \<Rightarrow> \<not> rk_native_enforcement c \<and> rk_mode c = ''validate_returned_text'' \<and>
          rk_max_validation_bytes c > 0
      | ResultValidationR v \<Rightarrow> \<not> rv_native_enforcement v \<and> rv_mode v = ''validate_returned_text''
      | ConfigurationReportR _ \<Rightarrow> True
      | ToolInvocationR t \<Rightarrow> \<not> blank (tr_invocation_id t) \<and> \<not> blank (tr_binding_id t) \<and>
          \<not> blank (tool_name (tr_tool t)) \<and> \<not> blank (tool_revision (tr_tool t))
      | Unsupported _ _ \<Rightarrow> True)"

lemma check_prepared_consistent:
  "check_prepared J name version data input = Ok () \<Longrightarrow> prepared_consistent input"
  unfolding check_prepared_def prepared_consistent_def
  by (auto simp: rbind_eq_Ok split: if_splits option.splits)

lemma check_restoration_Ok:
  "check_restoration name version s = Ok () \<Longrightarrow>
     (case s of
        NativeResume _ ctx replayed \<Rightarrow> ctx = ''reused_uninspected'' \<and> \<not> replayed
      | PortableSelection ctx _ _ _ _ selected _ delivery policy \<Rightarrow>
          ctx = ''new_session'' \<and> delivery = ''pending_first_run'' \<and>
          (\<forall>i \<in> set selected. si_role i = Supplemental \<and> si_delivery i = ''user_text'') \<and>
          (\<forall>p. policy = Some p \<longrightarrow> skills_valid (pe_skills p)))"
  unfolding check_restoration_def
  by (cases s) (auto simp: rbind_eq_Ok list_all_iff split: option.splits)

lemma receipt_decode_consistent:
  "receipt_decode J D name version data = Ok r \<Longrightarrow> receipt_consistent r"
  unfolding receipt_decode_def receipt_consistent_def
  by (auto simp: rbind_eq_Ok check_contract_def check_validation_def check_tool_def
      dest!: check_restoration_Ok check_prepared_consistent split: if_splits)

subsection \<open>Properties\<close>

text \<open>
  The receipt reader classifies every payload and never panics: it returns nothing
  exactly for payloads that are not bridge-owned evidence of a known name, and it reports an
  unsupported receipt exactly when the evidence carries a valid version outside the range of
  its name, without decoding it.
\<close>

theorem receipt_read_classifies:
  assumes "json_laws J" and "codec_total D"
  shows "receipt_read J D p \<noteq> Panic \<and>
    (receipt_read J D p = Ok None \<longleftrightarrow>
       \<not> (\<exists>name data. p = PExtension ''agent_bridge'' name data \<and> name \<in> set known_receipts)) \<and>
    (receipt_read J D p = Ok (Some (Unsupported n v)) \<longleftrightarrow>
       (\<exists>data. p = PExtension ''agent_bridge'' n data \<and> n \<in> set known_receipts \<and> j_is_object J data \<and>
          receipt_version J data = Some v \<and> \<not> receipt_supported n v))"
proof (cases "\<exists>name data. p = PExtension ''agent_bridge'' name data \<and> name \<in> set known_receipts")
  case False
  then show ?thesis by (cases p) (auto simp: receipt_read_def)
next
  case True
  then obtain name data where p: "p = PExtension ''agent_bridge'' name data" "name \<in> set known_receipts"
    by blast
  have no_panic: "receipt_read J D p \<noteq> Panic"
    using assms(2) supported_decodes [OF assms(2)]
    by (auto simp: receipt_read_def p rbind_eq_Panic decode_receipt_eq codec_total_def split: option.splits)
  have not_none: "receipt_read J D p \<noteq> Ok None"
    by (auto simp: receipt_read_def p rbind_eq_Ok split: option.splits if_splits)
  have uns: "receipt_read J D p = Ok (Some (Unsupported n v)) \<longleftrightarrow>
      name = n \<and> j_is_object J data \<and> receipt_version J data = Some v \<and> \<not> receipt_supported n v"
    using receipt_version_index [OF assms(1), of data v]
    by (auto simp: receipt_read_def p rbind_eq_Ok split: option.splits if_splits)
  show ?thesis using no_panic not_none uns p by auto
qed

definition sample_codec :: "tree receipt_codec" where
  "sample_codec =
     \<lparr>dec_input = (\<lambda>_. Ok \<lparr>ir_version = 1, ir_stage = DispatchAttempted\<rparr>), dec_restoration = (\<lambda>_. Err ''x''),
      dec_contract = (\<lambda>_. Err ''x''), dec_validation = (\<lambda>_. Err ''x''), dec_configuration = (\<lambda>_. Err ''x''),
      dec_tool = (\<lambda>_. Err ''x'')\<rparr>"

definition sample_receipt :: "nat \<Rightarrow> tree payload" where
  "sample_receipt v = PExtension ''agent_bridge'' ''input_receipt'' (TObj [(''version'', TNum v)])"

theorem receipt_read_classifies_witness:
  "receipt_read tree_json sample_codec (sample_receipt 9) = Ok (Some (Unsupported ''input_receipt'' 9))"
  using receipt_read_classifies [of tree_json sample_codec "sample_receipt 9" "''input_receipt''" 9]
  by (simp add: tree_json_laws codec_total_def sample_codec_def)
    (simp add: sample_receipt_def known_receipts_def receipt_supported_def receipt_version_def
      j_index_def j_get_def j_is_object_def tree_json_def)

text \<open>
  Evidence that is handed out is consistent. Whatever the deserializers produce, a
  decoded receipt satisfies the requirements of its kind: byte counts and image descriptors
  match the encoding, policy evidence comes with the requested context, no skill claims an
  observed native activation, restorations claim no replay, contracts and validations claim
  no native enforcement, and tool receipts carry complete identities.
\<close>

theorem receipt_read_consistent:
  assumes "receipt_read J D p = Ok (Some r)"
  shows "receipt_consistent r"
  using assms receipt_decode_consistent
  by (cases p) (auto simp: receipt_read_def rbind_eq_Ok receipt_consistent_def
      split: option.splits if_splits)

theorem receipt_read_consistent_witness:
  "receipt_consistent (InputR \<lparr>ir_version = 1, ir_stage = DispatchAttempted\<rparr> :: tree receipt)"
proof (rule receipt_read_consistent)
  show "receipt_read tree_json sample_codec (sample_receipt 2) =
      Ok (Some (InputR \<lparr>ir_version = 1, ir_stage = DispatchAttempted\<rparr>))"
    by (simp add: receipt_read_def sample_receipt_def known_receipts_def require_def j_is_object_def
        tree_json_def receipt_version_def j_index_def j_get_def receipt_supported_def
        receipt_decode_def decode_receipt_def sample_codec_def)
qed

end
