(* ===== verification/Acp_Config.thy ===== *)
theory Acp_Config imports Data_Model Records begin

section \<open>Session configuration over ACP (src/acp/configuration.rs, src/acp.rs)\<close>

text \<open>
  The provider's option catalog, its normalization, the state a session keeps of it, and the
  exchange that changes one option. The protocol crate's catalog types are datatypes with
  the constructors the source matches on and one for all others (they are
  \<open>non_exhaustive\<close>); the text a category serializes to is a parameter. An exchange is the
  sequence of its local steps, so that reports of the provider may come between them.
\<close>

subsection \<open>Errors (src/acp.rs)\<close>

datatype acp_error =
  InitializationTimedOut
| ClosedBeforeInitialization
| UnsupportedProtocolVersion
| ShutdownTimedOut
| RequestTimedOut
| AcpClosed
| InvalidWorkingDirectory
| InvalidMcpCommand
| UnsupportedMcpTransport
| EmptyPrompt
| SessionUnavailable
| InvalidPermission
| EventBufferFull
| ResumeUnsupported
| ContinuationScopeRequired
| IncompatibleContinuation
| UnsafeHandoff
| ConfigurationUnsupported
| UnknownConfigurationOption
| InvalidConfigurationValue
| InvalidConfiguration
| ConfigurationUncertain
| ConfigurationRejected
| ConfigurationChanged
| ModelSelectorUnavailable
| AcpStore store_error
| Protocol string
| AcpTask string

subsection \<open>The provider's catalog\<close>

record select_option =
  so_value :: string
  so_name :: string
  so_description :: "string option"

datatype select_options =
  Ungrouped "select_option list"
| Grouped "(string \<times> select_option list) list"
| OtherOptions

datatype option_kind = BooleanKind bool | SelectKind string select_options | OtherKind

record 'c native_option =
  no_id :: string
  no_name :: string
  no_description :: "string option"
  no_category :: "'c option"
  no_kind :: option_kind

definition choice :: "string option \<Rightarrow> select_option \<Rightarrow> config_choice" where
  "choice grp opt =
     \<lparr>cc_value = so_value opt, cc_label = so_name opt, cc_description = so_description opt, cc_group = grp\<rparr>"

fun option_choices :: "select_options \<Rightarrow> (config_choice list, acp_error) result" where
  "option_choices (Ungrouped opts) = Ok (map (choice None) opts)"
| "option_choices (Grouped groups) =
     Ok (concat (map (\<lambda>(name, opts). map (choice (Some name)) opts) groups))"
| "option_choices OtherOptions = Err InvalidConfiguration"

fun option_value :: "option_kind \<Rightarrow> (config_value \<times> config_choice list, acp_error) result" where
  "option_value (BooleanKind value) = Ok (Boolean value, [])"
| "option_value (SelectKind current opts) =
     rbind (option_choices opts) (\<lambda>choices.
       if scan_bad (\<lambda>c. blank (cc_value c)) cc_value [] choices then Err InvalidConfiguration
       else Ok (Select current, choices))"
| "option_value OtherKind = Err InvalidConfiguration"

text \<open>The iterator with its set of identifiers seen; \<open>collect\<close> stops at the first error.\<close>

fun normalize_from ::
  "('c \<Rightarrow> string option) \<Rightarrow> string list \<Rightarrow> 'c native_option list \<Rightarrow> (config_option list, acp_error) result" where
  "normalize_from category seen [] = Ok []"
| "normalize_from category seen (opt # opts) =
     (if blank (no_id opt) \<or> no_id opt \<in> set seen then Err InvalidConfiguration
      else
        rbind (option_value (no_kind opt)) (\<lambda>(current, choices).
        rbind (normalize_from category (no_id opt # seen) opts) (\<lambda>rest.
          Ok (\<lparr>co_id = no_id opt, co_label = no_name opt, co_description = no_description opt,
               co_category = Option.bind (no_category opt) category,
               co_current = current, co_choices = choices\<rparr> # rest))))"

definition normalize ::
  "('c \<Rightarrow> string option) \<Rightarrow> 'c native_option list \<Rightarrow> (config_option list, acp_error) result" where
  "normalize category opts = normalize_from category [] opts"

subsection \<open>The configuration state\<close>

record config_state =
  cs_options :: "config_option list option"
  cs_requested :: config_values
  cs_pending :: bool
  cs_uncertain :: bool

definition config_new ::
  "('c \<Rightarrow> string option) \<Rightarrow> 'c native_option list option \<Rightarrow> (config_state, acp_error) result" where
  "config_new category opts =
     (case opts of
        None \<Rightarrow> Ok \<lparr>cs_options = None, cs_requested = [], cs_pending = False, cs_uncertain = False\<rparr>
      | Some opts \<Rightarrow>
          rbind (normalize category opts) (\<lambda>catalog.
            Ok \<lparr>cs_options = Some catalog, cs_requested = [], cs_pending = False, cs_uncertain = False\<rparr>))"

definition config_observe ::
  "('c \<Rightarrow> string option) \<Rightarrow> 'c native_option list \<Rightarrow> config_state \<Rightarrow> config_state" where
  "config_observe category opts st =
     (case normalize category opts of
        Ok catalog \<Rightarrow> st\<lparr>cs_options := Some catalog, cs_uncertain := False\<rparr>
      | _ \<Rightarrow> st\<lparr>cs_uncertain := True\<rparr>)"

definition catalog_values :: "config_option list \<Rightarrow> config_values" where
  "catalog_values catalog = bt_collect (map (\<lambda>opt. (co_id opt, co_current opt)) catalog)"

definition config_snapshot :: "config_state \<Rightarrow> session_configuration" where
  "config_snapshot st =
     \<lparr>sc_options = cs_options st,
      sc_values =
        \<lparr>rc_requested = cs_requested st,
         rc_confirmed =
           (if cs_pending st \<or> cs_uncertain st then None else map_option catalog_values (cs_options st))\<rparr>,
      sc_pending = cs_pending st, sc_uncertain = cs_uncertain st\<rparr>"

definition config_for_run :: "config_state \<Rightarrow> (run_configuration, acp_error) result" where
  "config_for_run st =
     (if cs_pending st \<or> cs_uncertain st then Err ConfigurationUncertain
      else Ok \<lparr>rc_requested = cs_requested st,
               rc_confirmed = map_option catalog_values (cs_options st)\<rparr>)"

subsection \<open>Setup\<close>

text \<open>What a wait for the one-shot answer of a callback ends with.\<close>

datatype 'r wait = Delivered 'r | SenderDropped | TimedOut

text \<open>
  The callback of a session setup: \<open>live sid\<close> says whether the routes hold a configuration
  of that native session that is still owned by a handle.
\<close>

definition setup_receive ::
  "('c \<Rightarrow> string option) \<Rightarrow> ('n \<Rightarrow> bool) \<Rightarrow> ('n \<times> 'c native_option list option, string) result \<Rightarrow>
   ('n \<times> config_state, acp_error) result" where
  "setup_receive category live response =
     rbind (map_err Protocol response) (\<lambda>(sid, opts).
     rbind (config_new category opts) (\<lambda>st.
       if live sid then Err SessionUnavailable else Ok (sid, st)))"

definition setup_wait :: "('r, acp_error) result wait \<Rightarrow> ('r, acp_error) result" where
  "setup_wait w =
     (case w of Delivered r \<Rightarrow> r | SenderDropped \<Rightarrow> Err AcpClosed | TimedOut \<Rightarrow> Err RequestTimedOut)"

subsection \<open>Changing an option\<close>

definition value_offered :: "config_option \<Rightarrow> config_value \<Rightarrow> bool" where
  "value_offered opt value =
     (case (co_current opt, value) of
        (Boolean _, Boolean _) \<Rightarrow> True
      | (Select _, Select v) \<Rightarrow> v \<in> cc_value ` set (co_choices opt)
      | _ \<Rightarrow> False)"

text \<open>Up to the request: the guards on the session, then those on the catalog.\<close>

definition set_option_begin ::
  "bool \<Rightarrow> bool \<Rightarrow> bool \<Rightarrow> string \<Rightarrow> config_value \<Rightarrow> config_state \<Rightarrow>
   (unit, acp_error) result \<times> config_state" where
  "set_option_begin retired quiescent closed i value st =
     (if retired \<or> \<not> quiescent then (Err SessionUnavailable, st)
      else if closed then (Err AcpClosed, st)
      else if cs_pending st then (Err ConfigurationUncertain, st)
      else
        (case cs_options st of
           None \<Rightarrow> (Err ConfigurationUnsupported, st)
         | Some catalog \<Rightarrow>
             (case find (\<lambda>opt. co_id opt = i) catalog of
                None \<Rightarrow> (Err UnknownConfigurationOption, st)
              | Some opt \<Rightarrow>
                  if \<not> value_offered opt value then (Err InvalidConfigurationValue, st)
                  else (Ok (), st\<lparr>cs_pending := True\<rparr>))))"

text \<open>The callback with the provider's answer.\<close>

definition set_option_receive ::
  "('c \<Rightarrow> string option) \<Rightarrow> string \<Rightarrow> config_value \<Rightarrow> ('c native_option list, string) result \<Rightarrow>
   config_state \<Rightarrow> (session_configuration, acp_error) result \<times> config_state" where
  "set_option_receive category i value response st =
     (let st = st\<lparr>cs_pending := False, cs_uncertain := True\<rparr> in
        (case rbind (map_err Protocol response) (normalize category) of
           Ok catalog \<Rightarrow>
             (let accepted = (\<exists>opt \<in> set catalog. co_id opt = i \<and> co_current opt = value);
                  st = st\<lparr>cs_options := Some catalog, cs_uncertain := False\<rparr>
              in if \<not> accepted then (Err ConfigurationRejected, st)
                 else
                   (let st = st\<lparr>cs_requested := bt_insert i value (cs_requested st)\<rparr>
                    in (Ok (config_snapshot st), st)))
         | Err e \<Rightarrow> (Err e, st)
         | Panic \<Rightarrow> (Panic, st)))"

text \<open>The request could not be sent.\<close>

definition set_option_unsent ::
  "string \<Rightarrow> config_state \<Rightarrow> (session_configuration, acp_error) result \<times> config_state" where
  "set_option_unsent e st = (Err (Protocol e), st\<lparr>cs_pending := False, cs_uncertain := True\<rparr>)"

text \<open>The wait for the callback's result.\<close>

definition set_option_wait ::
  "(session_configuration, acp_error) result wait \<Rightarrow> config_state \<Rightarrow>
   (session_configuration, acp_error) result \<times> config_state" where
  "set_option_wait w st =
     (case w of
        Delivered r \<Rightarrow> (r, st)
      | SenderDropped \<Rightarrow> (Err AcpClosed, st\<lparr>cs_uncertain := True\<rparr>)
      | TimedOut \<Rightarrow> (Err RequestTimedOut, st\<lparr>cs_uncertain := True\<rparr>))"

text \<open>\<open>set_model\<close> resolves to \<open>set_option\<close> of the only model selector.\<close>

definition model_option :: "config_state \<Rightarrow> (string, acp_error) result" where
  "model_option st =
     rbind (ok_or ConfigurationUnsupported (sc_options (config_snapshot st))) (\<lambda>catalog.
       (case filter (\<lambda>opt. co_category opt = Some ''model'') catalog of
          [opt] \<Rightarrow> Ok (co_id opt)
        | _ \<Rightarrow> Err ModelSelectorUnavailable))"

definition set_model_begin ::
  "bool \<Rightarrow> bool \<Rightarrow> bool \<Rightarrow> string \<Rightarrow> config_state \<Rightarrow> (string, acp_error) result \<times> config_state" where
  "set_model_begin retired quiescent closed model st =
     (case model_option st of
        Ok i \<Rightarrow>
          (case set_option_begin retired quiescent closed i (Select model) st of
             (Ok _, st') \<Rightarrow> (Ok i, st')
           | (Err e, st') \<Rightarrow> (Err e, st')
           | (Panic, st') \<Rightarrow> (Panic, st'))
      | Err e \<Rightarrow> (Err e, st)
      | Panic \<Rightarrow> (Panic, st))"

subsection \<open>Sequences of steps\<close>

text \<open>
  What happens to a session's configuration: reports of the provider at any time, the
  start of an exchange, the end of its request, and a failed wait. \<open>cm_inflight\<close> is the
  callback that is registered with the connection, if any. \<open>Began\<close> records an exchange
  whose guards have passed; a refused one changes nothing.
\<close>

datatype 'c config_event =
  Observed "'c native_option list"
| Began string config_value
| Received "('c native_option list, string) result"
| Unsent string
| WaitFailed

record config_machine =
  cm_state :: config_state
  cm_inflight :: "(string \<times> config_value) option"

inductive config_trace ::
  "('c \<Rightarrow> string option) \<Rightarrow> config_state \<Rightarrow> 'c config_event list \<Rightarrow> config_machine \<Rightarrow> bool"
  for category st0 where
  config_start: "config_trace category st0 [] \<lparr>cm_state = st0, cm_inflight = None\<rparr>"
| config_observed:
    "config_trace category st0 es m \<Longrightarrow>
     config_trace category st0 (es @ [Observed report])
       (m\<lparr>cm_state := config_observe category report (cm_state m)\<rparr>)"
| config_began:
    "config_trace category st0 es m \<Longrightarrow>
     set_option_begin False True False i value (cm_state m) = (Ok (), st) \<Longrightarrow>
     config_trace category st0 (es @ [Began i value]) \<lparr>cm_state = st, cm_inflight = Some (i, value)\<rparr>"
| config_received:
    "config_trace category st0 es m \<Longrightarrow> cm_inflight m = Some (i, value) \<Longrightarrow>
     config_trace category st0 (es @ [Received response])
       \<lparr>cm_state = snd (set_option_receive category i value response (cm_state m)), cm_inflight = None\<rparr>"
| config_unsent:
    "config_trace category st0 es m \<Longrightarrow> cm_inflight m \<noteq> None \<Longrightarrow>
     config_trace category st0 (es @ [Unsent e])
       \<lparr>cm_state = snd (set_option_unsent e (cm_state m)), cm_inflight = None\<rparr>"
| config_wait_failed:
    "config_trace category st0 es m \<Longrightarrow> w = SenderDropped \<or> w = TimedOut \<Longrightarrow>
     config_trace category st0 (es @ [WaitFailed])
       (m\<lparr>cm_state := snd (set_option_wait w (cm_state m))\<rparr>)"

subsection \<open>Normalization\<close>

definition catalog_ok :: "config_option list \<Rightarrow> bool" where
  "catalog_ok catalog \<longleftrightarrow>
     distinct (map co_id catalog) \<and>
     (\<forall>opt \<in> set catalog. \<not> blank (co_id opt) \<and> distinct (map cc_value (co_choices opt)) \<and>
        (\<forall>c \<in> set (co_choices opt). \<not> blank (cc_value c)) \<and>
        (\<forall>b. co_current opt = Boolean b \<longrightarrow> co_choices opt = []))"

lemma option_value_Ok:
  assumes "option_value k = Ok (current, choices)"
  shows "distinct (map cc_value choices) \<and> (\<forall>c \<in> set choices. \<not> blank (cc_value c)) \<and>
    (\<forall>b. current = Boolean b \<longrightarrow> choices = [])"
  using assms by (cases k) (auto simp: rbind_eq_Ok scan_bad_fresh split: if_splits)

lemma option_choices_no_panic: "option_choices opts \<noteq> Panic"
  by (cases opts) auto

lemma option_value_no_panic: "option_value k \<noteq> Panic"
  using option_choices_no_panic by (cases k) (auto simp: rbind_eq_Panic)

lemma normalize_from_Ok:
  assumes "normalize_from category seen opts = Ok catalog"
  shows "map co_id catalog = map no_id opts \<and> catalog_ok catalog \<and>
    set (map co_id catalog) \<inter> set seen = {}"
  using assms
proof (induction category seen opts arbitrary: catalog rule: normalize_from.induct)
  case (1 category seen)
  then show ?case by (simp add: catalog_ok_def)
next
  case (2 category seen opt opts)
  from 2(2) obtain current choices rest where
    id: "\<not> blank (no_id opt)" "no_id opt \<notin> set seen"
    and kind: "option_value (no_kind opt) = Ok (current, choices)"
    and rest: "normalize_from category (no_id opt # seen) opts = Ok rest"
    and cat: "catalog = \<lparr>co_id = no_id opt, co_label = no_name opt, co_description = no_description opt,
      co_category = Option.bind (no_category opt) category,
      co_current = current, co_choices = choices\<rparr> # rest"
    by (auto simp: rbind_eq_Ok split: if_splits)
  have "\<not> (blank (no_id opt) \<or> no_id opt \<in> set seen)" using id by simp
  note IH = "2.IH" [OF this rest]
  have fresh: "no_id opt \<notin> set (map co_id rest)" using IH by (auto simp del: set_map)
  have "catalog_ok catalog"
    using conjunct1 [OF conjunct2 [OF IH]] id fresh option_value_Ok [OF kind]
    by (simp add: cat catalog_ok_def)
  moreover have "set (map co_id rest) \<inter> set seen = {}" using IH by (auto simp del: set_map)
  ultimately show ?case using conjunct1 [OF IH] id by (simp add: cat del: set_map)
qed

lemma normalize_from_no_panic: "normalize_from category seen opts \<noteq> Panic"
  by (induction category seen opts rule: normalize_from.induct)
    (auto simp: rbind_eq_Panic option_value_no_panic)

lemma normalize_Ok:
  "normalize category opts = Ok catalog \<Longrightarrow> map co_id catalog = map no_id opts \<and> catalog_ok catalog"
  using normalize_from_Ok by (auto simp: normalize_def)

lemma normalize_no_panic [simp]: "normalize category opts \<noteq> Panic"
  by (simp add: normalize_def normalize_from_no_panic)

subsection \<open>What a sequence of steps establishes\<close>

lemma begin_Ok_iff:
  "set_option_begin retired quiescent closed i value st = (Ok (), st') \<longleftrightarrow>
     \<not> retired \<and> quiescent \<and> \<not> closed \<and> \<not> cs_pending st \<and> st' = st\<lparr>cs_pending := True\<rparr> \<and>
     (\<exists>catalog opt. cs_options st = Some catalog \<and> find (\<lambda>opt. co_id opt = i) catalog = Some opt \<and>
        value_offered opt value)"
  by (auto simp: set_option_begin_def split: option.splits if_splits)

lemma begin_refused:
  "fst (set_option_begin retired quiescent closed i value st) \<noteq> Ok () \<Longrightarrow>
     snd (set_option_begin retired quiescent closed i value st) = st"
  by (auto simp: set_option_begin_def split: option.splits if_splits)

lemma receive_state:
  "snd (set_option_receive category i value response st) =
     (case rbind (map_err Protocol response) (normalize category) of
        Ok catalog \<Rightarrow>
          st\<lparr>cs_pending := False, cs_uncertain := False, cs_options := Some catalog,
             cs_requested :=
               (if \<exists>opt \<in> set catalog. co_id opt = i \<and> co_current opt = value
                then bt_insert i value (cs_requested st) else cs_requested st)\<rparr>
      | _ \<Rightarrow> st\<lparr>cs_pending := False, cs_uncertain := True\<rparr>)"
  by (auto simp: set_option_receive_def Let_def split: result.splits)

lemma pending_inflight:
  "config_trace category st0 es m \<Longrightarrow> cs_pending st0 = False \<Longrightarrow>
     cs_pending (cm_state m) = (cm_inflight m \<noteq> None)"
  by (induction rule: config_trace.induct)
    (auto simp: config_observe_def begin_Ok_iff receive_state set_option_unsent_def set_option_wait_def
      split: result.splits wait.splits)

text \<open>The catalog an event reports, if it is a complete and valid one.\<close>

definition reported :: "('c \<Rightarrow> string option) \<Rightarrow> 'c config_event \<Rightarrow> config_option list option" where
  "reported category e =
     (case e of
        Observed report \<Rightarrow> (case normalize category report of Ok catalog \<Rightarrow> Some catalog | _ \<Rightarrow> None)
      | Received (Ok report) \<Rightarrow> (case normalize category report of Ok catalog \<Rightarrow> Some catalog | _ \<Rightarrow> None)
      | _ \<Rightarrow> None)"

lemma trace_current:
  assumes "config_trace category st0 es m" and "\<not> cs_pending st0"
    and "\<not> cs_pending (cm_state m)" and "\<not> cs_uncertain (cm_state m)" and "es \<noteq> []"
  shows "reported category (last es) \<noteq> None \<and> cs_options (cm_state m) = reported category (last es)"
  using assms
  by (cases rule: config_trace.cases)
    (auto simp: config_observe_def reported_def begin_Ok_iff receive_state set_option_unsent_def
      set_option_wait_def rbind_eq_Ok rbind_eq_Panic split: result.splits wait.splits)

text \<open>An exchange that was begun with a value the catalog offered, and its confirmation.\<close>

definition begun ::
  "('c \<Rightarrow> string option) \<Rightarrow> config_state \<Rightarrow> 'c config_event list \<Rightarrow> string \<Rightarrow> config_value \<Rightarrow> bool" where
  "begun category st0 es i value \<longleftrightarrow>
     (\<exists>es1 es2 m catalog opt. es = es1 @ Began i value # es2 \<and> config_trace category st0 es1 m \<and>
        cs_options (cm_state m) = Some catalog \<and> opt \<in> set catalog \<and> co_id opt = i \<and>
        value_offered opt value)"

definition change_confirmed ::
  "('c \<Rightarrow> string option) \<Rightarrow> config_state \<Rightarrow> 'c config_event list \<Rightarrow> string \<Rightarrow> config_value \<Rightarrow> bool" where
  "change_confirmed category st0 es i value \<longleftrightarrow>
     (\<exists>es1 report es2 catalog opt. es = es1 @ Received (Ok report) # es2 \<and> begun category st0 es1 i value \<and>
        normalize category report = Ok catalog \<and> opt \<in> set catalog \<and> co_id opt = i \<and>
        co_current opt = value)"

lemma begun_append: "begun category st0 es i value \<Longrightarrow> begun category st0 (es @ es') i value"
  unfolding begun_def by (elim exE conjE, intro exI conjI) (simp, assumption+)

lemma change_confirmed_append:
  "change_confirmed category st0 es i value \<Longrightarrow> change_confirmed category st0 (es @ es') i value"
  unfolding change_confirmed_def by (elim exE conjE, intro exI conjI) (simp, assumption+)

lemma begun_now:
  assumes "config_trace category st0 es m" and "set_option_begin r q c i value (cm_state m) = (Ok (), st)"
  shows "begun category st0 (es @ [Began i value]) i value"
proof -
  from assms(2) obtain catalog opt where "cs_options (cm_state m) = Some catalog" "value_offered opt value"
    "find (\<lambda>opt. co_id opt = i) catalog = Some opt"
    by (auto simp: begin_Ok_iff)
  then have "opt \<in> set catalog" "co_id opt = i" by (auto simp: find_Some_iff)
  with \<open>cs_options (cm_state m) = Some catalog\<close> \<open>value_offered opt value\<close> assms(1) show ?thesis
    unfolding begun_def by blast
qed

lemma trace_begun:
  assumes "config_trace category st0 es m" and "cm_inflight m = Some (i, value)"
  shows "begun category st0 es i value"
  using assms by (induction rule: config_trace.induct) (auto intro: begun_append begun_now)

lemma received_confirmed:
  assumes "begun category st0 es i value" and "normalize category report = Ok catalog"
    and "opt \<in> set catalog" and "co_id opt = i" and "co_current opt = value"
  shows "change_confirmed category st0 (es @ [Received (Ok report)]) i value"
  unfolding change_confirmed_def using assms by blast

lemma observe_requested [simp]: "cs_requested (config_observe category report st) = cs_requested st"
  by (simp add: config_observe_def split: result.splits)

lemma unsent_wait_requested [simp]:
  "cs_requested (snd (set_option_unsent e st)) = cs_requested st"
  "cs_requested (snd (set_option_wait w st)) = cs_requested st"
  by (simp_all add: set_option_unsent_def set_option_wait_def split: wait.splits)

lemma receive_requested:
  assumes "bt_get (cs_requested (snd (set_option_receive category i value response st))) i' = Some value'"
  shows "bt_get (cs_requested st) i' = Some value' \<or>
    i' = i \<and> value' = value \<and> (\<exists>report catalog opt. response = Ok report \<and>
      normalize category report = Ok catalog \<and> opt \<in> set catalog \<and> co_id opt = i \<and> co_current opt = value)"
  using assms
  by (cases response)
    (auto simp: receive_state bt_get_def bt_insert_get split: result.splits if_splits)

lemma trace_requested:
  assumes "config_trace category st0 es m" and "cs_requested st0 = []"
    and "bt_get (cs_requested (cm_state m)) i = Some value"
  shows "change_confirmed category st0 es i value"
  using assms(1,3)
proof (induction rule: config_trace.induct)
  case config_start
  then show ?case using assms(2) by (simp add: bt_get_def)
next
  case (config_received es m i0 value0 response)
  from receive_requested [OF config_received(4) [simplified]] config_received.IH
    received_confirmed [OF trace_begun [OF config_received(1,2)]]
  show ?case by (blast intro: change_confirmed_append)
qed (auto simp: begin_Ok_iff intro: change_confirmed_append)

lemma config_new_state:
  "config_new category opts = Ok st \<Longrightarrow> \<not> cs_pending st \<and> \<not> cs_uncertain st \<and> cs_requested st = []"
  by (auto simp: config_new_def rbind_eq_Ok split: option.splits)

subsection \<open>Properties\<close>

definition sample_option :: "string \<Rightarrow> unit native_option" where
  "sample_option current =
     \<lparr>no_id = ''m'', no_name = ''Model'', no_description = None, no_category = Some (),
      no_kind = SelectKind current (Ungrouped
        [\<lparr>so_value = ''a'', so_name = ''A'', so_description = None\<rparr>,
         \<lparr>so_value = ''b'', so_name = ''B'', so_description = None\<rparr>])\<rparr>"

lemma sample_normalize:
  "normalize category [sample_option v] = Ok [\<lparr>co_id = ''m'', co_label = ''Model'', co_description = None,
     co_category = category (), co_current = Select v,
     co_choices = [\<lparr>cc_value = ''a'', cc_label = ''A'', cc_description = None, cc_group = None\<rparr>,
       \<lparr>cc_value = ''b'', cc_label = ''B'', cc_description = None, cc_group = None\<rparr>]\<rparr>]"
proof -
  have "\<not> blank ''m''" "\<not> blank ''a''" "\<not> blank ''b''"
    by (rule not_blank_plain; simp add: plain_char_def)+
  then show ?thesis by (simp add: normalize_def sample_option_def choice_def)
qed

definition sample_config :: config_state where
  "sample_config =
     \<lparr>cs_options = Some [\<lparr>co_id = ''m'', co_label = ''Model'', co_description = None,
        co_category = Some ''model'', co_current = Select ''a'',
        co_choices = [\<lparr>cc_value = ''a'', cc_label = ''A'', cc_description = None, cc_group = None\<rparr>,
          \<lparr>cc_value = ''b'', cc_label = ''B'', cc_description = None, cc_group = None\<rparr>]\<rparr>],
      cs_requested = [], cs_pending = False, cs_uncertain = False\<rparr>"

lemma sample_config_new: "config_new (\<lambda>_. Some ''model'') (Some [sample_option ''a'']) = Ok sample_config"
  by (simp add: config_new_def sample_normalize sample_config_def)

text \<open>The exchange of the sample: the value \<open>b\<close> is begun and confirmed.\<close>

lemma sample_exchange:
  "\<exists>m. config_trace (\<lambda>_. Some ''model'') sample_config
       [Began ''m'' (Select ''b''), Received (Ok [sample_option ''b''])] m \<and>
     bt_get (rc_requested (sc_values (config_snapshot (cm_state m)))) ''m'' = Some (Select ''b'') \<and>
     config_for_run (cm_state m) = Ok \<lparr>rc_requested = [(''m'', Select ''b'')],
       rc_confirmed = Some [(''m'', Select ''b'')]\<rparr>"
proof -
  let ?c = "\<lambda>_ :: unit. Some ''model''"
  have start: "config_trace ?c sample_config [] \<lparr>cm_state = sample_config, cm_inflight = None\<rparr>"
    by (rule config_start)
  have "set_option_begin False True False ''m'' (Select ''b'') sample_config =
      (Ok (), sample_config\<lparr>cs_pending := True\<rparr>)"
    by (simp add: begin_Ok_iff) (simp add: sample_config_def value_offered_def)
  with config_began [OF start, of "''m''" "Select ''b''"]
  have "config_trace ?c sample_config [Began ''m'' (Select ''b'')]
      \<lparr>cm_state = sample_config\<lparr>cs_pending := True\<rparr>, cm_inflight = Some (''m'', Select ''b'')\<rparr>"
    by simp
  from config_received [OF this, of "''m''" "Select ''b''" "Ok [sample_option ''b'']"] show ?thesis
    by (intro exI conjI) (assumption | simp add: receive_state sample_normalize config_snapshot_def
      config_for_run_def sample_config_def bt_get_def catalog_values_def bt_collect_def)+
qed

text \<open>
  C33: A run is only ever given a configuration that is settled. Whatever sequence of
  reports, exchanges, failures and timeouts a session has seen since its setup, a run gets a
  configuration only if no exchange is in flight and the last thing that happened is a
  complete and valid catalog, and the confirmed values are exactly that catalog's. An
  invalid or failed report never leaves an earlier confirmation usable.
\<close>

theorem config_for_run_settled:
  assumes "config_new category setup = Ok st0" and "config_trace category st0 es m"
    and "config_for_run (cm_state m) = Ok rc" and "es \<noteq> []"
  shows "cm_inflight m = None \<and>
    (\<exists>report catalog. (last es = Observed report \<or> last es = Received (Ok report)) \<and>
       normalize category report = Ok catalog \<and> rc_confirmed rc = Some (catalog_values catalog))"
proof -
  note st0 = config_new_state [OF assms(1)]
  from assms(3) have m: "\<not> cs_pending (cm_state m)" "\<not> cs_uncertain (cm_state m)"
      "rc_confirmed rc = map_option catalog_values (cs_options (cm_state m))"
    by (auto simp: config_for_run_def split: if_splits)
  have "reported category (last es) \<noteq> None \<and> cs_options (cm_state m) = reported category (last es)"
    by (rule trace_current [OF assms(2) _ m(1,2) assms(4)]) (simp add: st0)
  moreover have "cm_inflight m = None" using m(1) pending_inflight [OF assms(2)] st0 by blast
  ultimately show ?thesis
    using m(3) by (auto simp: reported_def split: config_event.splits result.splits)
qed

theorem config_for_run_settled_witness:
  "\<exists>m report catalog. config_trace (\<lambda>_. Some ''model'') sample_config
       [Began ''m'' (Select ''b''), Received (Ok [sample_option ''b''])] m \<and> cm_inflight m = None \<and>
     normalize (\<lambda>_ :: unit. Some ''model'') report = Ok catalog \<and>
     [(''m'', Select ''b'')] = catalog_values catalog"
proof -
  obtain m where m: "config_trace (\<lambda>_. Some ''model'') sample_config
       [Began ''m'' (Select ''b''), Received (Ok [sample_option ''b''])] m"
    "config_for_run (cm_state m) = Ok \<lparr>rc_requested = [(''m'', Select ''b'')],
       rc_confirmed = Some [(''m'', Select ''b'')]\<rparr>"
    using sample_exchange by blast
  note settled = config_for_run_settled [OF sample_config_new m list.simps(3)]
  then obtain report catalog where "normalize (\<lambda>_ :: unit. Some ''model'') report = Ok catalog"
    "rc_confirmed \<lparr>rc_requested = [(''m'', Select ''b'')],
       rc_confirmed = Some [(''m'', Select ''b'')]\<rparr> = Some (catalog_values catalog)"
    by blast
  then show ?thesis using m(1) settled by (intro exI conjI) (assumption | simp)+
qed

text \<open>
  A value counts as requested only once the provider has confirmed it: for every value
  in the requested configuration there was an exchange for it, begun while the catalog
  offered the value, whose answer was a valid catalog that reports this value as current.
\<close>

theorem config_requested_confirmed:
  assumes "config_new category setup = Ok st0" and "config_trace category st0 es m"
    and "bt_get (rc_requested (sc_values (config_snapshot (cm_state m)))) i = Some value"
  shows "change_confirmed category st0 es i value"
  using trace_requested [OF assms(2)] config_new_state [OF assms(1)] assms(3)
  by (simp add: config_snapshot_def)

theorem config_requested_confirmed_witness:
  "\<exists>st0 m. config_new (\<lambda>_. Some ''model'') (Some [sample_option ''a'']) = Ok st0 \<and>
     config_trace (\<lambda>_. Some ''model'') st0 [Began ''m'' (Select ''b''), Received (Ok [sample_option ''b''])] m \<and>
     bt_get (rc_requested (sc_values (config_snapshot (cm_state m)))) ''m'' = Some (Select ''b'') \<and>
     change_confirmed (\<lambda>_. Some ''model'') st0 [Began ''m'' (Select ''b''), Received (Ok [sample_option ''b''])]
       ''m'' (Select ''b'')"
  using sample_exchange sample_config_new config_requested_confirmed by blast

end
