(* ===== verification/Acp_Route.thy ===== *)
theory Acp_Route imports Acp_Config Run_Lifecycle "HOL-Library.Multiset" begin

section \<open>Event routing of one ACP run (src/acp/session.rs)\<close>

text \<open>
  The bounded channel between the connection's callbacks and the consumer of a run, and the
  permission requests waiting for a decision. The protocol crate's update and request types
  are datatypes and records with the parts the source reads; everything else of them is
  opaque (\<open>'n\<close>). A responder is the token of its request; what is handed to it is
  logged in \<open>rt_answers\<close>. The error of handing over, if any (\<open>link\<close>), and the order in which a
  \<open>HashMap\<close> is drained (\<open>ord\<close>) are parameters of every operation.
\<close>

subsection \<open>Native types\<close>

datatype 'n content_block = TextBlock string | OtherBlock 'n

record 'n content_chunk =
  ch_content :: "'n content_block"
  ch_message_id :: "string option"
  ch_meta :: "'n option"

datatype native_tool_status = NativePending | NativeInProgress | NativeCompleted | NativeFailed | NativeOther

record ('n, 'v) tool_call =
  tc_id :: string
  tc_title :: string
  tc_status :: native_tool_status
  tc_raw_input :: "'v option"
  tc_raw_output :: "'v option"
  tc_meta :: "'n option"
  tc_rest :: 'n

record 'n tool_call_update =
  tu_id :: string
  tu_title :: "string option"
  tu_fields :: 'n
  tu_meta :: "'n option"

datatype ('n, 'v) session_update =
  AgentMessageChunk "'n content_chunk"
| AgentThoughtChunk "'n content_chunk"
| ToolCallUpdated "('n, 'v) tool_call"
| ToolCallFields "'n tool_call_update"
| ConfigOptionUpdate "'n native_option list"
| OtherUpdate 'n

record 'n native_permission_option =
  np_id :: string
  np_name :: string
  np_kind :: 'n

record 'n permission_request =
  pq_options :: "'n native_permission_option list"
  pq_tool_call :: "'n tool_call_update"

datatype stop_reason =
  StopEndTurn | StopMaxTokens | StopMaxTurnRequests | StopRefusal | StopCancelled | StopOther string

subsection \<open>The route\<close>

definition event_capacity :: nat where
  "event_capacity = 256"

definition permission_capacity :: nat where
  "permission_capacity = 32"

record permission_id =
  pid_run :: run_id
  pid_sequence :: u64

datatype ('n, 'v) acp_event =
  Update "('n, 'v) session_update"
| PermissionEvent permission_id "'n permission_request"
| PermissionResolved permission_id permission_outcome decision_delivery
| Finished stop_reason

text \<open>The result of the prompt request: the protocol's error or the reason for stopping.\<close>

type_synonym prompt_result = "string + stop_reason"

datatype ('n, 'v) delivery = Event "('n, 'v) acp_event" | FinishedDelivery prompt_result

record pending_permission =
  pp_options :: "string list"
  pp_token :: nat

type_synonym pending_map = "(permission_id \<times> pending_permission) list"

record ('n, 'v) route =
  rt_run_id :: run_id
  rt_queue :: "('n, 'v) delivery list"
  rt_pending :: pending_map
  rt_next :: u64
  rt_accepting :: bool
  rt_cancelling :: bool
  rt_overflow :: bool
  rt_fault :: bool
  rt_answers :: "(nat \<times> permission_outcome) list"

text \<open>The protocol crate's errors are their texts.\<close>

definition internal_error :: string where
  "internal_error = ''Internal error''"

definition reply_result :: "string option \<Rightarrow> (unit, string) result" where
  "reply_result e = (case e of None \<Rightarrow> Ok () | Some e \<Rightarrow> Err e)"

definition route_new :: "run_id \<Rightarrow> ('n, 'v) route" where
  "route_new i =
     \<lparr>rt_run_id = i, rt_queue = [], rt_pending = [], rt_next = 0, rt_accepting = True,
      rt_cancelling = False, rt_overflow = False, rt_fault = False, rt_answers = []\<rparr>"

text \<open>\<open>mpsc::Sender::try_send\<close> on the bounded channel.\<close>

definition try_send :: "('n, 'v) delivery \<Rightarrow> ('n, 'v) route \<Rightarrow> ('n, 'v) route option" where
  "try_send message r =
     (if length (rt_queue r) < event_capacity then Some (r\<lparr>rt_queue := rt_queue r @ [message]\<rparr>) else None)"

definition respond_to :: "nat \<Rightarrow> permission_outcome \<Rightarrow> ('n, 'v) route \<Rightarrow> ('n, 'v) route" where
  "respond_to token outcome r = r\<lparr>rt_answers := rt_answers r @ [(token, outcome)]\<rparr>"

definition delivery_of :: "string option \<Rightarrow> decision_delivery" where
  "delivery_of e = (case e of None \<Rightarrow> DecisionQueued | Some _ \<Rightarrow> DecisionUnknown)"

fun drain_permissions :: "(nat \<Rightarrow> string option) \<Rightarrow> pending_map \<Rightarrow> ('n, 'v) route \<Rightarrow> ('n, 'v) route" where
  "drain_permissions link [] r = r"
| "drain_permissions link ((i, p) # ps) r =
     (let r = respond_to (pp_token p) PermissionCancelled r in
        if rt_accepting r then
          (case try_send (Event (PermissionResolved i PermissionCancelled (delivery_of (link (pp_token p))))) r of
             Some r' \<Rightarrow> drain_permissions link ps r'
           | None \<Rightarrow>
               drain_permissions link ps (r\<lparr>rt_overflow := True, rt_accepting := False, rt_fault := True\<rparr>))
        else drain_permissions link ps r)"

definition cancel_permissions ::
  "(pending_map \<Rightarrow> pending_map) \<Rightarrow> (nat \<Rightarrow> string option) \<Rightarrow> ('n, 'v) route \<Rightarrow> ('n, 'v) route" where
  "cancel_permissions ord link r = drain_permissions link (ord (rt_pending r)) (r\<lparr>rt_pending := []\<rparr>)"

definition route_close ::
  "(pending_map \<Rightarrow> pending_map) \<Rightarrow> (nat \<Rightarrow> string option) \<Rightarrow> ('n, 'v) route \<Rightarrow> ('n, 'v) route" where
  "route_close ord link r = cancel_permissions ord link (r\<lparr>rt_accepting := False\<rparr>)"

definition route_deliver ::
  "(pending_map \<Rightarrow> pending_map) \<Rightarrow> (nat \<Rightarrow> string option) \<Rightarrow> ('n, 'v) delivery \<Rightarrow> ('n, 'v) route \<Rightarrow>
   (unit, string) result \<times> ('n, 'v) route" where
  "route_deliver ord link message r =
     (if \<not> rt_accepting r then (Ok (), r)
      else
        (case try_send message r of
           Some r' \<Rightarrow> (Ok (), r')
         | None \<Rightarrow>
             (Err internal_error, (route_close ord link (r\<lparr>rt_overflow := True\<rparr>))\<lparr>rt_fault := True\<rparr>)))"

text \<open>\<open>HashMap::insert\<close>\<close>

definition pending_insert :: "permission_id \<Rightarrow> pending_permission \<Rightarrow> pending_map \<Rightarrow> pending_map" where
  "pending_insert i p m = filter (\<lambda>e. fst e \<noteq> i) m @ [(i, p)]"

text \<open>\<open>route_permission\<close> once the active route is found.\<close>

definition route_ask ::
  "(pending_map \<Rightarrow> pending_map) \<Rightarrow> (nat \<Rightarrow> string option) \<Rightarrow> 'n permission_request \<Rightarrow> nat \<Rightarrow> ('n, 'v) route \<Rightarrow>
   (unit, string) result \<times> ('n, 'v) route" where
  "route_ask ord link request token r =
     (if \<not> rt_accepting r then
        (reply_result (link token), respond_to token PermissionCancelled r)
      else if length (rt_pending r) \<ge> permission_capacity then
        (Err internal_error,
         (route_close ord link ((respond_to token PermissionCancelled r)\<lparr>rt_overflow := True\<rparr>))\<lparr>rt_fault := True\<rparr>)
      else
        (let i = \<lparr>pid_run = rt_run_id r, pid_sequence = rt_next r\<rparr>;
             r = r\<lparr>rt_next := rt_next r + 1,
                   rt_pending := pending_insert i
                     \<lparr>pp_options = map np_id (pq_options request), pp_token = token\<rparr> (rt_pending r)\<rparr>
         in (case route_deliver ord link (Event (PermissionEvent i request)) r of
               (Ok u, r) \<Rightarrow> (Ok (), if rt_cancelling r then cancel_permissions ord link r else r)
             | (e, r) \<Rightarrow> (e, r))))"

text \<open>The callback with the prompt's response.\<close>

definition route_complete ::
  "(pending_map \<Rightarrow> pending_map) \<Rightarrow> (nat \<Rightarrow> string option) \<Rightarrow> prompt_result \<Rightarrow> ('n, 'v) route \<Rightarrow>
   (unit, string) result \<times> ('n, 'v) route" where
  "route_complete ord link response r =
     (case route_deliver ord link (FinishedDelivery response) (cancel_permissions ord link r) of
        (Ok u, r) \<Rightarrow> (Ok (), route_close ord link r)
      | (e, r) \<Rightarrow> (e, r))"

text \<open>\<open>AcpRun::respond\<close>\<close>

definition route_respond ::
  "(pending_map \<Rightarrow> pending_map) \<Rightarrow> (nat \<Rightarrow> string option) \<Rightarrow> permission_id \<Rightarrow> string option \<Rightarrow> ('n, 'v) route \<Rightarrow>
   (unit, acp_error) result \<times> ('n, 'v) route" where
  "route_respond ord link i opt r =
     (case map_of (rt_pending r) i of
        None \<Rightarrow> (Err InvalidPermission, r)
      | Some p \<Rightarrow>
          if \<exists>x. opt = Some x \<and> x \<notin> set (pp_options p) then (Err InvalidPermission, r)
          else
            (let outcome = (case opt of Some x \<Rightarrow> Selected x | None \<Rightarrow> PermissionCancelled);
                 error = link (pp_token p);
                 r = respond_to (pp_token p) outcome
                       (r\<lparr>rt_pending := filter (\<lambda>e. fst e \<noteq> i) (rt_pending r)\<rparr>)
             in (case route_deliver ord link (Event (PermissionResolved i outcome (delivery_of error))) r of
                   (Ok u, r) \<Rightarrow> (map_err Protocol (reply_result error), r)
                 | (e, r) \<Rightarrow> (Err EventBufferFull, r))))"

subsection \<open>What draining does\<close>

definition resolved_event :: "(nat \<Rightarrow> string option) \<Rightarrow> permission_id \<times> pending_permission \<Rightarrow> ('n, 'v) delivery" where
  "resolved_event link e =
     Event (PermissionResolved (fst e) PermissionCancelled (delivery_of (link (pp_token (snd e)))))"

definition cancelled :: "pending_map \<Rightarrow> (nat \<times> permission_outcome) list" where
  "cancelled ps = map (\<lambda>e. (pp_token (snd e), PermissionCancelled)) ps"

lemma try_send_Some:
  "try_send m r = Some r' \<longleftrightarrow>
     length (rt_queue r) < event_capacity \<and> r' = r\<lparr>rt_queue := rt_queue r @ [m]\<rparr>"
  by (auto simp: try_send_def)

lemma drain_closed:
  "\<not> rt_accepting r \<Longrightarrow> drain_permissions link ps r = r\<lparr>rt_answers := rt_answers r @ cancelled ps\<rparr>"
proof (induction ps arbitrary: r)
  case (Cons e ps)
  obtain i p where "e = (i, p)" by (cases e)
  with Cons.prems Cons.IH [of "respond_to (pp_token p) PermissionCancelled r"] show ?case
    by (simp add: respond_to_def cancelled_def)
qed (simp add: cancelled_def)

lemma drain_permissions_eq:
  assumes "length (rt_queue r) \<le> event_capacity"
  shows "drain_permissions link ps r =
    (if \<not> rt_accepting r then r\<lparr>rt_answers := rt_answers r @ cancelled ps\<rparr>
     else if length (rt_queue r) + length ps \<le> event_capacity
     then r\<lparr>rt_answers := rt_answers r @ cancelled ps,
            rt_queue := rt_queue r @ map (resolved_event link) ps\<rparr>
     else r\<lparr>rt_answers := rt_answers r @ cancelled ps,
            rt_queue := rt_queue r @ map (resolved_event link) (take (event_capacity - length (rt_queue r)) ps),
            rt_overflow := True, rt_accepting := False, rt_fault := True\<rparr>)"
  using assms
proof (induction ps arbitrary: r)
  case Nil
  then show ?case by (simp add: cancelled_def)
next
  case (Cons e ps)
  obtain i p where e: "e = (i, p)" by (cases e)
  let ?r = "respond_to (pp_token p) PermissionCancelled r"
  let ?m = "Event (PermissionResolved i PermissionCancelled (delivery_of (link (pp_token p)))) :: ('a, 'b) delivery"
  show ?case
  proof (cases "rt_accepting r")
    case False
    then show ?thesis by (simp add: drain_closed)
  next
    case acc: True
    show ?thesis
    proof (cases "length (rt_queue r) < event_capacity")
      case True
      then have "try_send ?m ?r = Some (?r\<lparr>rt_queue := rt_queue ?r @ [?m]\<rparr>)"
        by (simp add: try_send_def respond_to_def)
      moreover have "length (rt_queue (?r\<lparr>rt_queue := rt_queue ?r @ [?m]\<rparr>)) \<le> event_capacity"
        using True by (simp add: respond_to_def)
      ultimately show ?thesis
        using acc True Cons.IH [of "?r\<lparr>rt_queue := rt_queue ?r @ [?m]\<rparr>"]
        by (auto simp: e respond_to_def cancelled_def resolved_event_def take_Cons' Suc_diff_Suc)
    next
      case False
      with Cons.prems have "length (rt_queue r) = event_capacity" by simp
      then show ?thesis
        using acc by (simp add: e respond_to_def cancelled_def try_send_def drain_closed)
    qed
  qed
qed

lemma cancel_permissions_closed:
  "\<not> rt_accepting r \<Longrightarrow> cancel_permissions ord link r =
     r\<lparr>rt_pending := [], rt_answers := rt_answers r @ cancelled (ord (rt_pending r))\<rparr>"
  by (simp add: cancel_permissions_def drain_closed)

lemma route_close_eq:
  "route_close ord link r =
     r\<lparr>rt_pending := [], rt_accepting := False, rt_answers := rt_answers r @ cancelled (ord (rt_pending r))\<rparr>"
  by (simp add: route_close_def cancel_permissions_closed)

subsection \<open>The invariant of a route\<close>

text \<open>
  Relative to the requests asked so far (tokens with the options offered): every token is
  either pending or answered, once each; a selected option was offered; pending
  identifiers are distinct, of this run and already allocated; a closed route has nothing
  pending; the capacities hold.
\<close>

definition drain_order :: "(pending_map \<Rightarrow> pending_map) \<Rightarrow> bool" where
  "drain_order ord \<longleftrightarrow> (\<forall>m. mset (ord m) = mset m)"

definition route_tokens :: "('n, 'v) route \<Rightarrow> nat multiset" where
  "route_tokens r = mset (map (pp_token \<circ> snd) (rt_pending r)) + mset (map fst (rt_answers r))"

definition offered :: "(nat \<times> string list) list \<Rightarrow> nat \<Rightarrow> string \<Rightarrow> bool" where
  "offered asked token x \<longleftrightarrow> (\<exists>opts. (token, opts) \<in> set asked \<and> x \<in> set opts)"

lemma offered_append [simp]:
  "offered (asked @ asked') token x \<longleftrightarrow> offered asked token x \<or> offered asked' token x"
  "offered [(t, opts)] token x \<longleftrightarrow> token = t \<and> x \<in> set opts"
  by (auto simp: offered_def)

definition route_fair :: "(nat \<times> string list) list \<Rightarrow> ('n, 'v) route \<Rightarrow> bool" where
  "route_fair asked r \<longleftrightarrow>
     route_tokens r = mset (map fst asked) \<and>
     (\<forall>e \<in> set (rt_pending r). (pp_token (snd e), pp_options (snd e)) \<in> set asked) \<and>
     (\<forall>token x. (token, Selected x) \<in> set (rt_answers r) \<longrightarrow> offered asked token x)"

definition route_ok :: "nat \<Rightarrow> ('n, 'v) route \<Rightarrow> bool" where
  "route_ok n r \<longleftrightarrow>
     distinct (map fst (rt_pending r)) \<and>
     (\<forall>e \<in> set (rt_pending r). pid_run (fst e) = rt_run_id r \<and> unat (pid_sequence (fst e)) < unat (rt_next r)) \<and>
     unat (rt_next r) \<le> n \<and>
     length (rt_pending r) \<le> permission_capacity \<and>
     (\<not> rt_accepting r \<longrightarrow> rt_pending r = []) \<and>
     (rt_overflow r \<longrightarrow> \<not> rt_accepting r) \<and>
     length (rt_queue r) \<le> event_capacity"

definition route_inv :: "(nat \<times> string list) list \<Rightarrow> ('n, 'v) route \<Rightarrow> bool" where
  "route_inv asked r \<longleftrightarrow> route_fair asked r \<and> route_ok (length asked) r"

lemma route_new_inv: "route_inv [] (route_new i)"
  by (simp add: route_inv_def route_fair_def route_ok_def route_new_def route_tokens_def
      permission_capacity_def event_capacity_def)

lemma cancelled_simps [simp]:
  "map fst (cancelled ps) = map (pp_token \<circ> snd) ps"
  "(token, Selected x) \<notin> set (cancelled ps)"
  by (auto simp: cancelled_def)

lemma drain_orderD:
  assumes "drain_order ord"
  shows "set (ord m) = set m" and "length (ord m) = length m"
    and "mset (map f (ord m)) = mset (map f m)"
proof -
  have "mset (ord m) = mset m" using assms by (simp add: drain_order_def)
  then show "set (ord m) = set m" "length (ord m) = length m" "mset (map f (ord m)) = mset (map f m)"
    by (auto dest: mset_eq_setD mset_eq_length)
qed

text \<open>Answering the pending requests with a cancellation, whatever else changes.\<close>

lemma fair_cancelled:
  assumes "drain_order ord" and "route_fair asked r"
    and "rt_pending r' = []" and "rt_answers r' = rt_answers r @ cancelled (ord (rt_pending r))"
  shows "route_fair asked r'"
  using assms(2) drain_orderD(3) [OF assms(1), of "pp_token \<circ> snd" "rt_pending r"]
  by (auto simp: route_fair_def route_tokens_def assms(3,4) ac_simps simp del: mset_map)

lemma cancel_permissions_inv:
  assumes "drain_order ord" and "route_inv asked r"
  shows "route_inv asked (cancel_permissions ord link r)"
proof -
  have q: "length (rt_queue (r\<lparr>rt_pending := []\<rparr>)) \<le> event_capacity"
    using assms(2) by (simp add: route_inv_def route_ok_def)
  have "route_fair asked (cancel_permissions ord link r)"
    using assms(2) by - (rule fair_cancelled [OF assms(1), of asked r],
      simp_all add: route_inv_def cancel_permissions_def drain_permissions_eq [OF q])
  moreover have "route_ok (length asked) (cancel_permissions ord link r)"
    using assms(2) by (auto simp: route_inv_def route_ok_def cancel_permissions_def
        drain_permissions_eq [OF q] permission_capacity_def)
  ultimately show ?thesis by (simp add: route_inv_def)
qed

lemma route_close_inv:
  assumes "drain_order ord" and "route_inv asked r"
  shows "route_inv asked (route_close ord link r)"
proof -
  have "route_fair asked (route_close ord link r)"
    using assms(2) by - (rule fair_cancelled [OF assms(1), of asked r],
      simp_all add: route_inv_def route_close_eq)
  then show ?thesis
    using assms(2) by (auto simp: route_inv_def route_ok_def route_close_eq permission_capacity_def)
qed

lemma fair_same:
  "rt_pending r' = rt_pending r \<Longrightarrow> rt_answers r' = rt_answers r \<Longrightarrow> route_fair asked r' = route_fair asked r"
  by (simp add: route_fair_def route_tokens_def)

lemma route_deliver_cases:
  obtains (closed) "\<not> rt_accepting r" "route_deliver ord link m r = (Ok (), r)"
  | (sent) "rt_accepting r" "length (rt_queue r) < event_capacity"
      "route_deliver ord link m r = (Ok (), r\<lparr>rt_queue := rt_queue r @ [m]\<rparr>)"
  | (full) "rt_accepting r" "\<not> length (rt_queue r) < event_capacity"
      "route_deliver ord link m r = (Err internal_error, r\<lparr>rt_overflow := True, rt_fault := True,
         rt_pending := [], rt_accepting := False, rt_answers := rt_answers r @ cancelled (ord (rt_pending r))\<rparr>)"
  by (auto simp: route_deliver_def try_send_def route_close_eq)

lemma route_deliver_inv:
  assumes "drain_order ord" and "route_inv asked r"
  shows "route_inv asked (snd (route_deliver ord link m r))"
proof (cases rule: route_deliver_cases [of r ord link m])
  case closed
  then show ?thesis using assms by simp
next
  case sent
  have "route_fair asked (r\<lparr>rt_queue := rt_queue r @ [m]\<rparr>) = route_fair asked r" by (rule fair_same) simp_all
  then show ?thesis using sent assms(2) by (auto simp: route_inv_def route_ok_def)
next
  case full
  have "route_fair asked (snd (route_deliver ord link m r))"
    using assms(2) by - (rule fair_cancelled [OF assms(1), of asked r], simp_all add: full route_inv_def)
  then show ?thesis using full assms(2) by (auto simp: route_inv_def route_ok_def permission_capacity_def)
qed

text \<open>A request that is answered at once, and one that becomes pending.\<close>

lemma fair_respond_to:
  assumes "route_fair asked r" and "\<forall>x. outcome = Selected x \<longrightarrow> x \<in> set opts"
  shows "route_fair (asked @ [(token, opts)]) (respond_to token outcome r)"
  using assms by (auto simp: route_fair_def route_tokens_def respond_to_def)

lemma inv_respond_to:
  assumes "route_inv asked r" and "\<not> rt_accepting r"
  shows "route_inv (asked @ [(token, opts)]) (respond_to token PermissionCancelled r)"
  using assms fair_respond_to [of asked r PermissionCancelled opts token]
  by (auto simp: route_inv_def route_ok_def respond_to_def)

lemma fresh_permission:
  assumes "route_ok n r"
  shows "\<forall>e \<in> set (rt_pending r). fst e \<noteq> \<lparr>pid_run = i, pid_sequence = rt_next r\<rparr>"
  using assms by (auto simp: route_ok_def)

lemma unat_next: "unat (w :: u64) + 1 < 2 ^ 64 \<Longrightarrow> unat (w + 1) = unat w + 1"
  using checked_add_Some [of w 1] checked_add_1 [of w] by (cases "w = u64_max") auto

lemma route_insert_inv:
  assumes "route_inv asked r" and "rt_accepting r" and "length (rt_pending r) < permission_capacity"
    and "Suc (length asked) < 2 ^ 64"
  shows "route_inv (asked @ [(token, opts)])
    (r\<lparr>rt_next := rt_next r + 1,
       rt_pending := pending_insert \<lparr>pid_run = rt_run_id r, pid_sequence = rt_next r\<rparr>
         \<lparr>pp_options = opts, pp_token = token\<rparr> (rt_pending r)\<rparr>)"
proof -
  let ?i = "\<lparr>pid_run = rt_run_id r, pid_sequence = rt_next r\<rparr>"
  have ok: "route_ok (length asked) r" and fair: "route_fair asked r"
    using assms(1) by (simp_all add: route_inv_def)
  have fresh: "\<forall>e \<in> set (rt_pending r). fst e \<noteq> ?i" by (rule fresh_permission [OF ok])
  then have ins: "pending_insert ?i p (rt_pending r) = rt_pending r @ [(?i, p)]" for p
    by (simp add: pending_insert_def filter_id_conv)
  have next_val: "unat (rt_next r + 1) = unat (rt_next r) + 1"
    using ok assms(4) by (intro unat_next) (simp add: route_ok_def)
  have "\<forall>e \<in> set (rt_pending r). unat (pid_sequence (fst e)) < unat (rt_next r) + 1"
    using ok by (auto simp: route_ok_def)
  then have "route_ok (length (asked @ [(token, opts)]))
      (r\<lparr>rt_next := rt_next r + 1, rt_pending := rt_pending r @ [(?i, \<lparr>pp_options = opts, pp_token = token\<rparr>)]\<rparr>)"
    using ok fresh assms(2,3) by (auto simp: route_ok_def next_val image_iff)
  moreover have "route_fair (asked @ [(token, opts)])
      (r\<lparr>rt_next := rt_next r + 1, rt_pending := rt_pending r @ [(?i, \<lparr>pp_options = opts, pp_token = token\<rparr>)]\<rparr>)"
    using fair by (auto simp: route_fair_def route_tokens_def)
  ultimately show ?thesis by (simp add: ins route_inv_def)
qed

lemma route_ask_inv:
  assumes ord: "drain_order ord" and inv: "route_inv asked r" and "Suc (length asked) < 2 ^ 64"
  shows "route_inv (asked @ [(token, map np_id (pq_options request))])
    (snd (route_ask ord link request token r))"
proof -
  let ?asked = "asked @ [(token, map np_id (pq_options request))]"
  consider (closed) "\<not> rt_accepting r"
    | (full) "rt_accepting r" "permission_capacity \<le> length (rt_pending r)"
    | (room) "rt_accepting r" "length (rt_pending r) < permission_capacity"
    by linarith
  then show ?thesis
  proof cases
    case closed
    then show ?thesis using inv_respond_to [OF inv] by (simp add: route_ask_def)
  next
    case full
    let ?r = "respond_to token PermissionCancelled r"
    have eq: "snd (route_ask ord link request token r) =
        (route_close ord link (?r\<lparr>rt_overflow := True\<rparr>))\<lparr>rt_fault := True\<rparr>"
      by (simp add: route_ask_def full)
    have "route_fair ?asked ?r" using inv fair_respond_to [of asked r] by (simp add: route_inv_def)
    then have "route_fair ?asked (snd (route_ask ord link request token r))"
      by (rule fair_cancelled [OF ord]) (simp_all add: eq route_close_eq respond_to_def)
    moreover have "route_ok (length ?asked) (snd (route_ask ord link request token r))"
      using inv by (simp add: eq route_inv_def route_ok_def route_close_eq respond_to_def
          permission_capacity_def)
    ultimately show ?thesis by (simp add: route_inv_def)
  next
    case room
    let ?i = "\<lparr>pid_run = rt_run_id r, pid_sequence = rt_next r\<rparr>"
    let ?r = "r\<lparr>rt_next := rt_next r + 1,
      rt_pending := pending_insert ?i
        \<lparr>pp_options = map np_id (pq_options request), pp_token = token\<rparr> (rt_pending r)\<rparr>"
    have "route_inv ?asked (snd (route_deliver ord link (Event (PermissionEvent ?i request)) ?r))"
      by (rule route_deliver_inv [OF ord route_insert_inv [OF inv room assms(3)]])
    then show ?thesis
      using room cancel_permissions_inv [OF ord]
      by (auto simp: route_ask_def Let_def split: prod.splits result.splits)
  qed
qed

lemma route_complete_inv:
  assumes "drain_order ord" and "route_inv asked r"
  shows "route_inv asked (snd (route_complete ord link response r))"
  using route_deliver_inv [OF assms(1) cancel_permissions_inv [OF assms], of link "FinishedDelivery response" link]
    route_close_inv [OF assms(1)]
  by (auto simp: route_complete_def split: prod.splits result.splits)

lemma mset_remove_key:
  "distinct (map fst m) \<Longrightarrow> map_of m i = Some p \<Longrightarrow>
     mset m = add_mset (i, p) (mset (filter (\<lambda>e. fst e \<noteq> i) m))"
proof (induction m)
  case (Cons e m)
  show ?case
  proof (cases "fst e = i")
    case True
    with Cons.prems have "\<forall>x \<in> set m. fst x \<noteq> i" by (auto simp: image_iff)
    then have "filter (\<lambda>e. fst e \<noteq> i) m = m" by (simp add: filter_id_conv)
    then show ?thesis using Cons.prems True by (cases e) simp
  next
    case False
    then show ?thesis using Cons by (cases e) auto
  qed
qed simp

text \<open>A decision: the request leaves the map and its token is answered.\<close>

lemma decide_inv:
  assumes inv: "route_inv asked r" and p: "map_of (rt_pending r) i = Some p"
    and sel: "\<forall>x. outcome = Selected x \<longrightarrow> x \<in> set (pp_options p)"
  shows "route_inv asked (respond_to (pp_token p) outcome
    (r\<lparr>rt_pending := filter (\<lambda>e. fst e \<noteq> i) (rt_pending r)\<rparr>))"
proof -
  let ?rest = "filter (\<lambda>e. fst e \<noteq> i) (rt_pending r)"
  have fair: "route_fair asked r" and ok: "route_ok (length asked) r" using inv by (simp_all add: route_inv_def)
  have m: "mset (rt_pending r) = add_mset (i, p) (mset ?rest)"
    using ok p by (intro mset_remove_key) (simp_all add: route_ok_def)
  have "(i, p) \<in> set (rt_pending r)" using p by (rule map_of_SomeD)
  then have mem: "(pp_token p, pp_options p) \<in> set asked" using fair by (force simp: route_fair_def)
  have "route_tokens (respond_to (pp_token p) outcome (r\<lparr>rt_pending := ?rest\<rparr>)) = route_tokens r"
    by (simp add: route_tokens_def respond_to_def m del: mset_filter)
  moreover have "\<forall>token x. (token, Selected x) \<in> set (rt_answers r @ [(pp_token p, outcome)]) \<longrightarrow>
      offered asked token x"
    using fair sel mem by (auto simp: route_fair_def offered_def)
  ultimately have "route_fair asked (respond_to (pp_token p) outcome (r\<lparr>rt_pending := ?rest\<rparr>))"
    using fair by (simp add: route_fair_def respond_to_def)
  moreover have "length ?rest \<le> permission_capacity"
    using ok by (auto simp: route_ok_def intro: order_trans [OF length_filter_le])
  then have "route_ok (length asked) (respond_to (pp_token p) outcome (r\<lparr>rt_pending := ?rest\<rparr>))"
    using ok by (simp add: route_ok_def respond_to_def distinct_map_filter)
  ultimately show ?thesis by (simp add: route_inv_def)
qed

lemma route_respond_inv:
  assumes ord: "drain_order ord" and inv: "route_inv asked r"
  shows "route_inv asked (snd (route_respond ord link i opt r))"
proof (cases "map_of (rt_pending r) i")
  case None
  then show ?thesis using inv by (simp add: route_respond_def)
next
  case (Some p)
  show ?thesis
  proof (cases "\<exists>x. opt = Some x \<and> x \<notin> set (pp_options p)")
    case True
    then show ?thesis using inv Some by (simp add: route_respond_def)
  next
    case False
    define outcome where "outcome = (case opt of Some x \<Rightarrow> Selected x | None \<Rightarrow> PermissionCancelled)"
    let ?r = "respond_to (pp_token p) outcome
      (r\<lparr>rt_pending := filter (\<lambda>e. fst e \<noteq> i) (rt_pending r)\<rparr>)"
    let ?m = "Event (PermissionResolved i outcome (delivery_of (link (pp_token p))))"
    have "\<forall>x. outcome = Selected x \<longrightarrow> x \<in> set (pp_options p)"
      using False by (auto simp: outcome_def split: option.splits)
    then have "route_inv asked (snd (route_deliver ord link ?m ?r))"
      by (rule route_deliver_inv [OF ord decide_inv [OF inv Some]])
    then show ?thesis
      using False Some by (auto simp: route_respond_def Let_def outcome_def [symmetric] split: prod.splits result.splits)
  qed
qed

subsection \<open>The channel\<close>

text \<open>The updates waiting in the channel; the prompt's response is always the last delivery.\<close>

fun delivered_update :: "('n, 'v) delivery \<Rightarrow> ('n, 'v) session_update list" where
  "delivered_update (Event (Update u)) = [u]"
| "delivered_update _ = []"

definition queue_updates :: "('n, 'v) delivery list \<Rightarrow> ('n, 'v) session_update list" where
  "queue_updates q = concat (map delivered_update q)"

fun is_finish :: "('n, 'v) delivery \<Rightarrow> bool" where
  "is_finish (FinishedDelivery x) = True"
| "is_finish (Event (Finished reason)) = True"
| "is_finish (Event e) = False"

definition channel_ok :: "prompt_result option \<Rightarrow> ('n, 'v) route \<Rightarrow> bool" where
  "channel_ok ended r \<longleftrightarrow>
     (rt_accepting r \<longrightarrow> ended = None \<and> list_all (\<lambda>m. \<not> is_finish m) (rt_queue r)) \<and>
     list_all (\<lambda>m. \<not> is_finish m) (butlast (rt_queue r)) \<and>
     (\<forall>m \<in> set (rt_queue r). is_finish m \<longrightarrow> (\<exists>x. m = FinishedDelivery x \<and> ended = Some x))"

lemma queue_updates_simps [simp]:
  "queue_updates [] = []" "queue_updates (q @ q') = queue_updates q @ queue_updates q'"
  "queue_updates (m # q) = delivered_update m @ queue_updates q"
  by (simp_all add: queue_updates_def)

lemma resolved_event_simps [simp]:
  "delivered_update (resolved_event link e) = []" "is_finish (resolved_event link e) = False"
  "queue_updates (map (resolved_event link) ps) = []"
  "list_all (\<lambda>m. \<not> is_finish m) (map (resolved_event link) ps)"
  "FinishedDelivery x \<noteq> resolved_event link e"
  by (auto simp: resolved_event_def queue_updates_def list_all_iff)

text \<open>The three ways a route's channel evolves.\<close>

definition channel_grows :: "('n, 'v) delivery list \<Rightarrow> ('n, 'v) route \<Rightarrow> ('n, 'v) route \<Rightarrow> bool" where
  "channel_grows q r r' \<longleftrightarrow>
     rt_queue r' = rt_queue r @ q \<and> (rt_accepting r' \<longrightarrow> rt_accepting r) \<and>
     (rt_overflow r \<longrightarrow> rt_overflow r') \<and> (\<not> rt_accepting r \<longrightarrow> q = [] \<and> rt_overflow r' = rt_overflow r)"

lemma channel_grows_refl: "channel_grows [] r r"
  by (simp add: channel_grows_def)

lemma channel_grows_trans:
  "channel_grows q r r' \<Longrightarrow> channel_grows q' r' r'' \<Longrightarrow> channel_grows (q @ q') r r''"
  by (auto simp: channel_grows_def)

lemma channel_ok_grows:
  assumes "channel_ok ended r" and "channel_grows q r r'" and "list_all (\<lambda>m. \<not> is_finish m) q"
  shows "channel_ok ended r'"
proof (cases "rt_accepting r")
  case True
  then have "ended = None" "list_all (\<lambda>m. \<not> is_finish m) (rt_queue r')"
    using assms by (auto simp: channel_ok_def channel_grows_def)
  then show ?thesis by (force simp: channel_ok_def list_all_iff dest: in_set_butlastD)
next
  case False
  then show ?thesis using assms by (auto simp: channel_ok_def channel_grows_def)
qed

lemma close_grows: "channel_grows [] r (route_close ord link r)"
  by (simp add: route_close_eq channel_grows_def)

lemma cancel_grows:
  assumes "route_inv asked r"
  shows "\<exists>ps. channel_grows (map (resolved_event link) ps) r (cancel_permissions ord link r) \<and>
    (rt_accepting r \<longrightarrow> \<not> rt_accepting (cancel_permissions ord link r) \<longrightarrow>
       rt_overflow (cancel_permissions ord link r))"
proof -
  have q: "length (rt_queue (r\<lparr>rt_pending := []\<rparr>)) \<le> event_capacity"
    using assms by (simp add: route_inv_def route_ok_def)
  have "\<not> rt_accepting r \<Longrightarrow> channel_grows (map (resolved_event link) []) r (cancel_permissions ord link r)"
    by (simp add: cancel_permissions_closed channel_grows_def)
  then show ?thesis
    by (cases "rt_accepting r")
      (auto simp: cancel_permissions_def drain_permissions_eq [OF q] channel_grows_def intro: exI [of _ "[]"])
qed

text \<open>A step that adds no update and no response; acceptance ends with an overflow only.\<close>

definition quiet :: "('n, 'v) route \<Rightarrow> ('n, 'v) route \<Rightarrow> bool" where
  "quiet r r' \<longleftrightarrow>
     (\<exists>q. channel_grows q r r' \<and> queue_updates q = [] \<and> list_all (\<lambda>m. \<not> is_finish m) q) \<and>
     (rt_accepting r \<longrightarrow> rt_accepting r' \<or> rt_overflow r')"

lemma quiet_refl: "quiet r r"
  by (auto simp: quiet_def channel_grows_def)

lemma quiet_trans:
  assumes "quiet r r'" and "quiet r' r''"
  shows "quiet r r''"
proof -
  from assms obtain q q' where q: "channel_grows q r r'" "queue_updates q = []" "list_all (\<lambda>m. \<not> is_finish m) q"
    and q': "channel_grows q' r' r''" "queue_updates q' = []" "list_all (\<lambda>m. \<not> is_finish m) q'"
    by (auto simp: quiet_def)
  have "channel_grows (q @ q') r r''" by (rule channel_grows_trans [OF q(1) q'(1)])
  moreover have "rt_accepting r \<longrightarrow> rt_accepting r'' \<or> rt_overflow r''"
    using assms q'(1) by (auto simp: quiet_def channel_grows_def)
  ultimately show ?thesis using q q' unfolding quiet_def by (intro conjI exI [of _ "q @ q'"]) simp_all
qed

lemma quiet_same:
  "rt_queue r' = rt_queue r \<Longrightarrow> rt_accepting r' = rt_accepting r \<Longrightarrow> rt_overflow r' = rt_overflow r \<Longrightarrow>
     quiet r r'"
  by (auto simp: quiet_def channel_grows_def intro: exI [of _ "[]"])

lemma quiet_cancel: "route_inv asked r \<Longrightarrow> quiet r (cancel_permissions ord link r)"
  using cancel_grows [of asked r link ord]
  by (auto simp: quiet_def)

lemma quiet_deliver:
  "\<not> is_finish m \<Longrightarrow> delivered_update m = [] \<Longrightarrow> quiet r (snd (route_deliver ord link m r))"
  by (cases rule: route_deliver_cases [of r ord link m])
    (auto simp: quiet_refl quiet_def channel_grows_def intro: exI [of _ "[m]"] exI [of _ "[]"])

lemma quiet_ask:
  assumes ord: "drain_order ord" and inv: "route_inv asked r" and bound: "Suc (length asked) < 2 ^ 64"
  shows "quiet r (snd (route_ask ord link request token r))"
proof -
  consider (closed) "\<not> rt_accepting r"
    | (full) "rt_accepting r" "permission_capacity \<le> length (rt_pending r)"
    | (room) "rt_accepting r" "length (rt_pending r) < permission_capacity"
    by linarith
  then show ?thesis
  proof cases
    case closed
    then show ?thesis by (auto simp: route_ask_def respond_to_def intro: quiet_same)
  next
    case full
    then have "snd (route_ask ord link request token r) =
        (route_close ord link ((respond_to token PermissionCancelled r)\<lparr>rt_overflow := True\<rparr>))\<lparr>rt_fault := True\<rparr>"
      by (simp add: route_ask_def)
    with full show ?thesis
      by (auto simp: quiet_def channel_grows_def route_close_eq respond_to_def intro: exI [of _ "[]"])
  next
    case room
    let ?i = "\<lparr>pid_run = rt_run_id r, pid_sequence = rt_next r\<rparr>"
    let ?r = "r\<lparr>rt_next := rt_next r + 1,
      rt_pending := pending_insert ?i
        \<lparr>pp_options = map np_id (pq_options request), pp_token = token\<rparr> (rt_pending r)\<rparr>"
    let ?r' = "snd (route_deliver ord link (Event (PermissionEvent ?i request)) ?r)"
    have "quiet r ?r" by (rule quiet_same) simp_all
    then have q: "quiet r ?r'" by (rule quiet_trans) (rule quiet_deliver, simp_all)
    have "quiet ?r' (cancel_permissions ord link ?r')"
      by (rule quiet_cancel [OF route_deliver_inv [OF ord route_insert_inv [OF inv room bound]]])
    with q show ?thesis
      using room quiet_trans [OF q] by (auto simp: route_ask_def Let_def split: prod.splits result.splits)
  qed
qed

lemma quiet_respond: "quiet r (snd (route_respond ord link i opt r))"
proof (cases "map_of (rt_pending r) i")
  case None
  then show ?thesis by (simp add: route_respond_def quiet_refl)
next
  case (Some p)
  let ?o = "case opt of Some x \<Rightarrow> Selected x | None \<Rightarrow> PermissionCancelled"
  let ?r = "respond_to (pp_token p) ?o (r\<lparr>rt_pending := filter (\<lambda>e. fst e \<noteq> i) (rt_pending r)\<rparr>)"
  let ?m = "Event (PermissionResolved i ?o (delivery_of (link (pp_token p))))"
  have "quiet r ?r" by (rule quiet_same) (simp_all add: respond_to_def)
  then have "quiet r (snd (route_deliver ord link ?m ?r))" by (rule quiet_trans) (rule quiet_deliver, simp_all)
  then show ?thesis
    using Some by (auto simp: route_respond_def Let_def quiet_refl split: prod.splits result.splits)
qed

text \<open>The response: nothing is accepted behind it.\<close>

lemma channel_None_no_finish:
  assumes "channel_ok None r"
  shows "list_all (\<lambda>m. \<not> is_finish m) (rt_queue r)"
  using assms by (auto simp: channel_ok_def list_all_iff)

lemma quiet_channel: "channel_ok ended r \<Longrightarrow> quiet r r' \<Longrightarrow> channel_ok ended r'"
  unfolding quiet_def using channel_ok_grows by blast

lemma quiet_updates: "quiet r r' \<Longrightarrow> queue_updates (rt_queue r') = queue_updates (rt_queue r)"
  by (auto simp: quiet_def channel_grows_def)

lemma quiet_overflow: "quiet r r' \<Longrightarrow> rt_overflow r \<Longrightarrow> rt_overflow r'"
  by (auto simp: quiet_def channel_grows_def)

lemma route_complete_eq:
  fixes r :: "('n, 'v) route"
  defines "c \<equiv> \<lambda>ord link. cancel_permissions ord link r"
  assumes "rt_pending (c ord link) = []"
  shows "rt_pending (snd (route_complete ord link response r)) = []"
    and "\<not> rt_accepting (snd (route_complete ord link response r))"
    and "rt_queue (snd (route_complete ord link response r)) =
      rt_queue (c ord link) @ (if rt_accepting (c ord link) \<and> length (rt_queue (c ord link)) < event_capacity
        then [FinishedDelivery response] else [])"
    and "rt_overflow (snd (route_complete ord link response r)) \<longleftrightarrow>
      rt_overflow (c ord link) \<or>
      rt_accepting (c ord link) \<and> \<not> length (rt_queue (c ord link)) < event_capacity"
  by (cases rule: route_deliver_cases [of "c ord link" ord link "FinishedDelivery response"];
      simp add: route_complete_def c_def route_close_eq)+

lemma drain_pending: "rt_pending (drain_permissions link ps r) = rt_pending r"
  by (induction link ps r rule: drain_permissions.induct)
    (auto simp: Let_def respond_to_def try_send_Some split: option.splits)

lemma cancel_pending [simp]: "rt_pending (cancel_permissions ord link r) = []"
  by (simp add: cancel_permissions_def drain_pending)

lemmas route_complete_facts = route_complete_eq [OF cancel_pending]

lemma complete_channel:
  assumes "route_inv asked r" and "channel_ok None r"
  shows "channel_ok (Some response) (snd (route_complete ord link response r))"
    and "queue_updates (rt_queue (snd (route_complete ord link response r))) = queue_updates (rt_queue r)"
    and "rt_overflow r \<Longrightarrow> rt_overflow (snd (route_complete ord link response r))"
proof -
  have q: "quiet r (cancel_permissions ord link r)" by (rule quiet_cancel [OF assms(1)])
  have "list_all (\<lambda>m. \<not> is_finish m) (rt_queue (cancel_permissions ord link r))"
    by (rule channel_None_no_finish [OF quiet_channel [OF assms(2) q]])
  then show "channel_ok (Some response) (snd (route_complete ord link response r))"
    by (auto simp: channel_ok_def route_complete_facts list_all_iff dest: in_set_butlastD)
  show "queue_updates (rt_queue (snd (route_complete ord link response r))) = queue_updates (rt_queue r)"
    by (simp add: route_complete_facts quiet_updates [OF q])
  show "rt_overflow r \<Longrightarrow> rt_overflow (snd (route_complete ord link response r))"
    using quiet_overflow [OF q] by (simp add: route_complete_facts)
qed

end
