(* ===== verification/Acp_Session.thy ===== *)
theory Acp_Session imports Acp_Route begin

section \<open>ACP sessions and runs (src/acp/session.rs)\<close>

text \<open>
  One native session of a connection and the run that borrows it. \<open>acp_run\<close> is
  \<open>AcpRun\<close>: it holds the session, the run's state machine and the route; between runs
  there is only the \<open>acp_session\<close>. Whether the connection has closed, what sending a
  request or notification returns, and the drain order are parameters. Mutexes are not
  poisoned: \<open>acp_no_panic\<close> shows that no operation panics.
\<close>

subsection \<open>State\<close>

record acp_session =
  as_session_id :: session_id
  as_slot_id :: slot_id
  as_predecessor :: "continuation_id option"
  as_retired :: bool
  as_quiescent :: bool
  as_fresh :: bool
  as_config :: config_state
  as_registered :: bool
  as_answers :: "(nat \<times> permission_outcome) list"

record ('n, 'v) acp_run =
  ar_session :: acp_session
  ar_run :: "run_configuration run"
  ar_input :: string
  ar_settled :: bool
  ar_route :: "('n, 'v) route"

text \<open>\<open>new_session\<close> after the setup exchange: a native identifier is used once.\<close>

definition session_new ::
  "session_id \<Rightarrow> slot_id \<Rightarrow> 'k \<Rightarrow> config_state \<Rightarrow> 'k set \<Rightarrow> (acp_session, acp_error) result \<times> 'k set" where
  "session_new sid slot native config sessions =
     (if native \<in> sessions then (Err SessionUnavailable, sessions)
      else
        (Ok \<lparr>as_session_id = sid, as_slot_id = slot, as_predecessor = None, as_retired = False,
             as_quiescent = True, as_fresh = True, as_config = config, as_registered = False,
             as_answers = []\<rparr>, insert native sessions))"

text \<open>\<open>validate_mcp\<close>; a command is the flag whether its path is absolute.\<close>

datatype mcp_spec = McpStdio bool | McpHttp | McpSse | McpOther

fun validate_mcp :: "bool \<Rightarrow> bool \<Rightarrow> mcp_spec list \<Rightarrow> (unit, acp_error) result" where
  "validate_mcp http sse [] = Ok ()"
| "validate_mcp http sse (server # servers) =
     (case server of
        McpStdio absolute \<Rightarrow> if \<not> absolute then Err InvalidMcpCommand else validate_mcp http sse servers
      | McpHttp \<Rightarrow> if http then validate_mcp http sse servers else Err UnsupportedMcpTransport
      | McpSse \<Rightarrow> if sse then validate_mcp http sse servers else Err UnsupportedMcpTransport
      | McpOther \<Rightarrow> Err UnsupportedMcpTransport)"

subsection \<open>Dispatch\<close>

definition acp_run_spec :: "run_id \<Rightarrow> acp_session \<Rightarrow> (run_configuration run_spec, acp_error) result" where
  "acp_run_spec i s =
     rbind (config_for_run (as_config s)) (\<lambda>config.
       Ok \<lparr>rs_id = i, rs_session = as_session_id s, rs_slot = as_slot_id s, rs_context = default_manifest,
           rs_config = config, rs_continuation = as_predecessor s\<rparr>)"

text \<open>\<open>sent\<close> is the error of sending the prompt request, if any.\<close>

definition acp_dispatch ::
  "(pending_map \<Rightarrow> pending_map) \<Rightarrow> (nat \<Rightarrow> string option) \<Rightarrow> bool \<Rightarrow> string option \<Rightarrow>
   run_configuration run_spec \<Rightarrow> string \<Rightarrow> acp_session \<Rightarrow> (('n, 'v) acp_run, acp_error) result \<times> acp_session" where
  "acp_dispatch ord link closed sent spec text s =
     (if blank text then (Err EmptyPrompt, s)
      else if as_retired s \<or> \<not> as_quiescent s then (Err SessionUnavailable, s)
      else if closed then (Err AcpClosed, s)
      else
        (case config_for_run (as_config s) of
           Err e \<Rightarrow> (Err e, s)
         | Panic \<Rightarrow> (Panic, s)
         | Ok config \<Rightarrow>
             if config \<noteq> rs_config spec then (Err ConfigurationChanged, s)
             else
               (let s = s\<lparr>as_quiescent := False, as_fresh := False, as_registered := True\<rparr>;
                    r = route_new (rs_id spec)
                in (case run_apply (run_new spec) DispatchStarted of
                      (Ok u, run) \<Rightarrow>
                        (case sent of
                           Some e \<Rightarrow>
                             (let r = route_close ord link r
                              in (Err (Protocol e),
                                  s\<lparr>as_registered := False, as_retired := True,
                                    as_answers := as_answers s @ rt_answers r\<rparr>))
                         | None \<Rightarrow>
                             (Ok \<lparr>ar_session = s, ar_run = run, ar_input = text, ar_settled = False,
                                  ar_route = r\<rparr>, s))
                    | _ \<Rightarrow> (Panic, s)))))"

subsection \<open>Callbacks\<close>

definition session_observe :: "('n \<Rightarrow> string option) \<Rightarrow> ('n, 'v) session_update \<Rightarrow> acp_session \<Rightarrow> acp_session" where
  "session_observe category u s =
     (case u of
        ConfigOptionUpdate opts \<Rightarrow> s\<lparr>as_config := config_observe category opts (as_config s)\<rparr>
      | _ \<Rightarrow> s)"

text \<open>\<open>route_update\<close> and \<open>route_permission\<close> while no run is registered.\<close>

definition session_idle_update ::
  "('n \<Rightarrow> string option) \<Rightarrow> ('n, 'v) session_update \<Rightarrow> acp_session \<Rightarrow> (unit, string) result \<times> acp_session" where
  "session_idle_update category u s = (Ok (), session_observe category u s)"

definition session_idle_ask ::
  "(nat \<Rightarrow> string option) \<Rightarrow> nat \<Rightarrow> acp_session \<Rightarrow> (unit, string) result \<times> acp_session" where
  "session_idle_ask link token s =
     (reply_result (link token), s\<lparr>as_answers := as_answers s @ [(token, PermissionCancelled)]\<rparr>)"

text \<open>The same while the run's route is registered, and the prompt's response.\<close>

definition acp_update ::
  "(pending_map \<Rightarrow> pending_map) \<Rightarrow> (nat \<Rightarrow> string option) \<Rightarrow> ('n \<Rightarrow> string option) \<Rightarrow>
   ('n, 'v) session_update \<Rightarrow> ('n, 'v) acp_run \<Rightarrow> (unit, string) result \<times> ('n, 'v) acp_run" where
  "acp_update ord link category u a =
     (let a = a\<lparr>ar_session := session_observe category u (ar_session a)\<rparr>;
          (x, r) = route_deliver ord link (Event (Update u)) (ar_route a)
      in (x, a\<lparr>ar_route := r\<rparr>))"

definition acp_ask ::
  "(pending_map \<Rightarrow> pending_map) \<Rightarrow> (nat \<Rightarrow> string option) \<Rightarrow> 'n permission_request \<Rightarrow> nat \<Rightarrow>
   ('n, 'v) acp_run \<Rightarrow> (unit, string) result \<times> ('n, 'v) acp_run" where
  "acp_ask ord link request token a =
     (let (x, r) = route_ask ord link request token (ar_route a) in (x, a\<lparr>ar_route := r\<rparr>))"

definition acp_complete ::
  "(pending_map \<Rightarrow> pending_map) \<Rightarrow> (nat \<Rightarrow> string option) \<Rightarrow> prompt_result \<Rightarrow>
   ('n, 'v) acp_run \<Rightarrow> (unit, string) result \<times> ('n, 'v) acp_run" where
  "acp_complete ord link response a =
     (let (x, r) = route_complete ord link response (ar_route a) in (x, a\<lparr>ar_route := r\<rparr>))"

subsection \<open>The consumer\<close>

text \<open>\<open>self.run.apply(event).unwrap()\<close>\<close>

definition apply_unwrap ::
  "run_event \<Rightarrow> ('n, 'v) acp_run \<Rightarrow> (unit, acp_error) result \<times> ('n, 'v) acp_run" where
  "apply_unwrap e a =
     (case run_apply (ar_run a) e of
        (Ok u, run) \<Rightarrow> (Ok (), a\<lparr>ar_run := run\<rparr>)
      | _ \<Rightarrow> (Panic, a))"

definition acp_unknown ::
  "(pending_map \<Rightarrow> pending_map) \<Rightarrow> (nat \<Rightarrow> string option) \<Rightarrow> ('n, 'v) acp_run \<Rightarrow>
   (unit, acp_error) result \<times> ('n, 'v) acp_run" where
  "acp_unknown ord link a =
     (case apply_unwrap ConnectionLost a of
        (Ok u, a) \<Rightarrow>
          (Ok (), a\<lparr>ar_settled := True, ar_session := (ar_session a)\<lparr>as_retired := True\<rparr>,
                   ar_route := route_close ord link (ar_route a)\<rparr>)
      | (x, a) \<Rightarrow> (x, a))"

text \<open>
  \<open>next\<close> as a poll: \<open>None\<close> while the wait goes on, which is when the channel is empty and
  the connection has not closed. The overflow mark is looked at in every poll; the source does so
  when \<open>next\<close> is called, so that a wait which is pending at the overflow still hands out the
  delivery it is woken by, and the call after it reports the error.
\<close>

definition acp_next ::
  "(pending_map \<Rightarrow> pending_map) \<Rightarrow> (nat \<Rightarrow> string option) \<Rightarrow> bool \<Rightarrow> ('n, 'v) acp_run \<Rightarrow>
   (('n, 'v) acp_event option, acp_error) result option \<times> ('n, 'v) acp_run" where
  "acp_next ord link closed a =
     (if ar_settled a then (Some (Ok None), a)
      else if rt_overflow (ar_route a) then
        (case acp_unknown ord link a of
           (Ok u, a) \<Rightarrow> (Some (Err EventBufferFull), a)
         | (x, a) \<Rightarrow> (Some Panic, a))
      else
        (case rt_queue (ar_route a) of
           [] \<Rightarrow>
             if \<not> closed then (None, a)
             else
               (case acp_unknown ord link a of
                  (Ok u, a) \<Rightarrow> (Some (Err AcpClosed), a)
                | (x, a) \<Rightarrow> (Some Panic, a))
         | Event event # rest \<Rightarrow>
             (let a = a\<lparr>ar_route := (ar_route a)\<lparr>rt_queue := rest\<rparr>\<rparr> in
                if run_status_of (ar_run a) = Starting then
                  (case apply_unwrap Started a of
                     (Ok u, a) \<Rightarrow> (Some (Ok (Some event)), a)
                   | (x, a) \<Rightarrow> (Some Panic, a))
                else (Some (Ok (Some event)), a))
         | FinishedDelivery response # rest \<Rightarrow>
             (let a = a\<lparr>ar_route := (ar_route a)\<lparr>rt_queue := rest\<rparr>, ar_settled := True\<rparr> in
                (case response of
                   Inr reason \<Rightarrow>
                     (let a = a\<lparr>ar_session := (ar_session a)\<lparr>as_quiescent := True\<rparr>\<rparr> in
                        (case apply_unwrap
                                (if reason = StopCancelled then CancellationConfirmed else CompletedEvent) a of
                           (Ok u, a) \<Rightarrow> (Some (Ok (Some (Finished reason))), a)
                         | (x, a) \<Rightarrow> (Some Panic, a)))
                 | Inl error \<Rightarrow>
                     (case apply_unwrap FailedEvent a of
                        (Ok u, a) \<Rightarrow>
                          (Some (Err (Protocol error)), a\<lparr>ar_session := (ar_session a)\<lparr>as_retired := True\<rparr>\<rparr>)
                      | (x, a) \<Rightarrow> (Some Panic, a))))))"

definition acp_respond ::
  "(pending_map \<Rightarrow> pending_map) \<Rightarrow> (nat \<Rightarrow> string option) \<Rightarrow> permission_id \<Rightarrow> string option \<Rightarrow>
   ('n, 'v) acp_run \<Rightarrow> (unit, acp_error) result \<times> ('n, 'v) acp_run" where
  "acp_respond ord link i opt a =
     (let (x, r) = route_respond ord link i opt (ar_route a) in (x, a\<lparr>ar_route := r\<rparr>))"

definition acp_permission_pending :: "permission_id \<Rightarrow> ('n, 'v) acp_run \<Rightarrow> bool" where
  "acp_permission_pending i a \<longleftrightarrow> map_of (rt_pending (ar_route a)) i \<noteq> None"

text \<open>\<open>sent\<close> is the error of sending the cancellation notification, if any.\<close>

definition acp_cancel ::
  "(pending_map \<Rightarrow> pending_map) \<Rightarrow> (nat \<Rightarrow> string option) \<Rightarrow> string option \<Rightarrow> ('n, 'v) acp_run \<Rightarrow>
   (unit, acp_error) result \<times> ('n, 'v) acp_run" where
  "acp_cancel ord link sent a =
     (if ar_settled a \<or> run_cancel_requested (ar_run a) then (Ok (), a)
      else
        (case apply_unwrap CancellationRequested a of
           (Ok u, a) \<Rightarrow>
             (map_err Protocol (reply_result sent),
              a\<lparr>ar_route := cancel_permissions ord link ((ar_route a)\<lparr>rt_cancelling := True\<rparr>)\<rparr>)
         | (x, a) \<Rightarrow> (x, a)))"

text \<open>Dropping the run gives the session back; the closed route is returned beside it.\<close>

definition acp_drop ::
  "(pending_map \<Rightarrow> pending_map) \<Rightarrow> (nat \<Rightarrow> string option) \<Rightarrow> string option \<Rightarrow> ('n, 'v) acp_run \<Rightarrow>
   acp_session \<times> ('n, 'v) route" where
  "acp_drop ord link sent a =
     (let a = (if ar_settled a then a
               else (let a = snd (acp_cancel ord link sent a)
                     in a\<lparr>ar_session := (ar_session a)\<lparr>as_retired := True\<rparr>\<rparr>));
          r = route_close ord link (ar_route a)
      in ((ar_session a)\<lparr>as_registered := False\<rparr>, r))"

subsection \<open>Sequences of steps of one run\<close>

text \<open>
  From the dispatch on: updates and permission requests of the provider, its one response,
  and the consumer's calls, in any order and with any parameters. The log records what came
  in and what \<open>next\<close> returned. Request tokens are fresh, and there are fewer than
  \<open>2 ^ 64\<close> requests, so that the run's permission counter does not wrap.
\<close>

datatype ('n, 'v) acp_log =
  GotUpdate "('n, 'v) session_update"
| Asked nat "'n permission_request"
| PromptEnded prompt_result
| NextGot "(('n, 'v) acp_event option, acp_error) result"
| Decided permission_id "string option"
| CancelAsked

fun asked_of :: "('n, 'v) acp_log \<Rightarrow> (nat \<times> string list) list" where
  "asked_of (Asked token request) = [(token, map np_id (pq_options request))]"
| "asked_of _ = []"

definition asked :: "('n, 'v) acp_log list \<Rightarrow> (nat \<times> string list) list" where
  "asked es = concat (map asked_of es)"

definition ended :: "('n, 'v) acp_log list \<Rightarrow> bool" where
  "ended es \<longleftrightarrow> (\<exists>x. PromptEnded x \<in> set es)"

inductive acp_trace ::
  "(pending_map \<Rightarrow> pending_map) \<Rightarrow> ('n \<Rightarrow> string option) \<Rightarrow> ('n, 'v) acp_run \<Rightarrow>
   ('n, 'v) acp_log list \<Rightarrow> ('n, 'v) acp_run \<Rightarrow> bool"
  for ord category a0 where
  trace_start: "acp_trace ord category a0 [] a0"
| trace_update:
    "acp_trace ord category a0 es a \<Longrightarrow>
     acp_trace ord category a0 (es @ [GotUpdate u]) (snd (acp_update ord link category u a))"
| trace_ask:
    "acp_trace ord category a0 es a \<Longrightarrow> token \<notin> fst ` set (asked es) \<Longrightarrow>
     Suc (length (asked es)) < 2 ^ 64 \<Longrightarrow>
     acp_trace ord category a0 (es @ [Asked token request]) (snd (acp_ask ord link request token a))"
| trace_end:
    "acp_trace ord category a0 es a \<Longrightarrow> \<not> ended es \<Longrightarrow>
     acp_trace ord category a0 (es @ [PromptEnded response]) (snd (acp_complete ord link response a))"
| trace_next:
    "acp_trace ord category a0 es a \<Longrightarrow> acp_next ord link closed a = (Some x, a') \<Longrightarrow>
     acp_trace ord category a0 (es @ [NextGot x]) a'"
| trace_respond:
    "acp_trace ord category a0 es a \<Longrightarrow>
     acp_trace ord category a0 (es @ [Decided i opt]) (snd (acp_respond ord link i opt a))"
| trace_cancel:
    "acp_trace ord category a0 es a \<Longrightarrow>
     acp_trace ord category a0 (es @ [CancelAsked]) (snd (acp_cancel ord link sent a))"

lemma asked_append [simp]: "asked (es @ [e]) = asked es @ asked_of e"
  by (simp add: asked_def)

lemma ended_append [simp]: "ended (es @ [e]) \<longleftrightarrow> ended es \<or> (\<exists>x. e = PromptEnded x)"
  by (auto simp: ended_def)

subsection \<open>What each step does to the run\<close>

text \<open>The consumer's status: a run that is not settled is active and holds its session.\<close>

definition active :: "run_status \<Rightarrow> bool" where
  "active s \<longleftrightarrow> s = Starting \<or> s = Running \<or> s = Cancelling"

lemma callback_frame [simp]:
  "ar_run (snd (acp_update ord link category u a)) = ar_run a"
  "ar_settled (snd (acp_update ord link category u a)) = ar_settled a"
  "as_retired (ar_session (snd (acp_update ord link category u a))) = as_retired (ar_session a)"
  "as_quiescent (ar_session (snd (acp_update ord link category u a))) = as_quiescent (ar_session a)"
  "ar_route (snd (acp_update ord link category u a)) =
     snd (route_deliver ord link (Event (Update u)) (ar_route a))"
  "ar_run (snd (acp_ask ord link request token a)) = ar_run a"
  "ar_settled (snd (acp_ask ord link request token a)) = ar_settled a"
  "ar_session (snd (acp_ask ord link request token a)) = ar_session a"
  "ar_route (snd (acp_ask ord link request token a)) = snd (route_ask ord link request token (ar_route a))"
  "ar_run (snd (acp_complete ord link response a)) = ar_run a"
  "ar_settled (snd (acp_complete ord link response a)) = ar_settled a"
  "ar_session (snd (acp_complete ord link response a)) = ar_session a"
  "ar_route (snd (acp_complete ord link response a)) = snd (route_complete ord link response (ar_route a))"
  "ar_run (snd (acp_respond ord link i opt a)) = ar_run a"
  "ar_settled (snd (acp_respond ord link i opt a)) = ar_settled a"
  "ar_session (snd (acp_respond ord link i opt a)) = ar_session a"
  "ar_route (snd (acp_respond ord link i opt a)) = snd (route_respond ord link i opt (ar_route a))"
  by (simp_all add: acp_update_def acp_ask_def acp_complete_def acp_respond_def session_observe_def
      split_def Let_def split: session_update.splits)

lemma apply_active:
  assumes "active (run_status_of (ar_run a))"
    and "e = ConnectionLost \<or> e = CompletedEvent \<or> e = CancellationConfirmed \<or> e = FailedEvent \<or>
      e = CancellationRequested \<or> e = Started \<and> run_status_of (ar_run a) = Starting"
  shows "\<exists>run. apply_unwrap e a = (Ok (), a\<lparr>ar_run := run\<rparr>) \<and>
    (e = CancellationRequested \<longrightarrow> run_status_of run = Cancelling) \<and>
    (e = Started \<longrightarrow> run_status_of run = Running)"
  using assms by (auto simp: active_def apply_unwrap_def run_apply_def Let_def)

lemma unknown_active:
  assumes "active (run_status_of (ar_run a))"
  shows "\<exists>run. acp_unknown ord link a =
    (Ok (), a\<lparr>ar_run := run, ar_settled := True, ar_session := (ar_session a)\<lparr>as_retired := True\<rparr>,
       ar_route := route_close ord link (ar_route a)\<rparr>)"
  using apply_active [OF assms, of ConnectionLost] by (auto simp: acp_unknown_def)

text \<open>\<open>next\<close>, case by case.\<close>

lemma acp_next_cases:
  assumes "\<not> ar_settled a \<longrightarrow> active (run_status_of (ar_run a))"
  obtains
    (settled) "ar_settled a" "acp_next ord link closed a = (Some (Ok None), a)"
  | (lost) run e where "\<not> ar_settled a" "e = EventBufferFull \<or> e = AcpClosed"
      "acp_next ord link closed a = (Some (Err e),
         a\<lparr>ar_run := run, ar_settled := True, ar_session := (ar_session a)\<lparr>as_retired := True\<rparr>,
           ar_route := route_close ord link (ar_route a)\<rparr>)"
  | (waiting) "\<not> ar_settled a" "acp_next ord link closed a = (None, a)"
  | (event) run event rest where "\<not> ar_settled a" "\<not> rt_overflow (ar_route a)"
      "rt_queue (ar_route a) = Event event # rest" "active (run_status_of run)"
      "acp_next ord link closed a = (Some (Ok (Some event)),
         a\<lparr>ar_run := run, ar_route := (ar_route a)\<lparr>rt_queue := rest\<rparr>\<rparr>)"
  | (finished) run reason rest where "\<not> ar_settled a" "\<not> rt_overflow (ar_route a)"
      "rt_queue (ar_route a) = FinishedDelivery (Inr reason) # rest"
      "acp_next ord link closed a = (Some (Ok (Some (Finished reason))),
         a\<lparr>ar_run := run, ar_settled := True, ar_session := (ar_session a)\<lparr>as_quiescent := True\<rparr>,
           ar_route := (ar_route a)\<lparr>rt_queue := rest\<rparr>\<rparr>)"
  | (failed) run error rest where "\<not> ar_settled a" "\<not> rt_overflow (ar_route a)"
      "rt_queue (ar_route a) = FinishedDelivery (Inl error) # rest"
      "acp_next ord link closed a = (Some (Err (Protocol error)),
         a\<lparr>ar_run := run, ar_settled := True, ar_session := (ar_session a)\<lparr>as_retired := True\<rparr>,
           ar_route := (ar_route a)\<lparr>rt_queue := rest\<rparr>\<rparr>)"
proof (cases "ar_settled a")
  case True
  then show ?thesis by (intro settled) (simp_all add: acp_next_def)
next
  case unsettled: False
  then have act: "active (run_status_of (ar_run a))" using assms by simp
  obtain run where unk: "acp_unknown ord link a =
      (Ok (), a\<lparr>ar_run := run, ar_settled := True, ar_session := (ar_session a)\<lparr>as_retired := True\<rparr>,
         ar_route := route_close ord link (ar_route a)\<rparr>)"
    using unknown_active [OF act] by blast
  show ?thesis
  proof (cases "rt_overflow (ar_route a)")
    case True
    then show ?thesis using unsettled by (intro lost [of EventBufferFull run]) (simp_all add: acp_next_def unk)
  next
    case flow: False
    show ?thesis
    proof (cases "rt_queue (ar_route a)")
      case Nil
      show ?thesis
      proof (cases closed)
        case True
        then show ?thesis using unsettled flow Nil by (intro lost [of AcpClosed run]) (simp_all add: acp_next_def unk)
      next
        case False
        then show ?thesis using unsettled flow Nil by (intro waiting) (simp_all add: acp_next_def)
      qed
    next
      case (Cons m rest)
      show ?thesis
      proof (cases m)
        case (Event event)
        let ?a = "a\<lparr>ar_route := (ar_route a)\<lparr>rt_queue := rest\<rparr>\<rparr>"
        show ?thesis
        proof (cases "run_status_of (ar_run a) = Starting")
          case True
          then obtain run' where "apply_unwrap Started ?a = (Ok (), ?a\<lparr>ar_run := run'\<rparr>)"
              "run_status_of run' = Running"
            using act apply_active [of ?a Started] by auto
          then show ?thesis using unsettled flow Cons Event True
            by (intro event [of event rest run']) (simp_all add: acp_next_def active_def)
        next
          case False
          then show ?thesis using unsettled flow Cons Event act
            by (intro event [of event rest "ar_run a"]) (simp_all add: acp_next_def)
        qed
      next
        case (FinishedDelivery response)
        show ?thesis
        proof (cases response)
          case (Inl error)
          let ?a = "a\<lparr>ar_route := (ar_route a)\<lparr>rt_queue := rest\<rparr>, ar_settled := True\<rparr>"
          obtain run' where "apply_unwrap FailedEvent ?a = (Ok (), ?a\<lparr>ar_run := run'\<rparr>)"
            using act apply_active [of ?a FailedEvent] by auto
          then show ?thesis using unsettled flow Cons FinishedDelivery Inl
            by (intro failed [of error rest run']) (simp_all add: acp_next_def)
        next
          case (Inr reason)
          let ?a = "a\<lparr>ar_route := (ar_route a)\<lparr>rt_queue := rest\<rparr>, ar_settled := True,
            ar_session := (ar_session a)\<lparr>as_quiescent := True\<rparr>\<rparr>"
          let ?e = "if reason = StopCancelled then CancellationConfirmed else CompletedEvent"
          obtain run' where "apply_unwrap ?e ?a = (Ok (), ?a\<lparr>ar_run := run'\<rparr>)"
            using act apply_active [of ?a ?e] by (cases "reason = StopCancelled") auto
          then show ?thesis using unsettled flow Cons FinishedDelivery Inr
            by (intro finished [of reason rest run']) (simp_all add: acp_next_def)
        qed
      qed
    qed
  qed
qed

subsection \<open>The invariant of a run\<close>

definition started :: "('n, 'v) acp_run \<Rightarrow> bool" where
  "started a \<longleftrightarrow>
     \<not> ar_settled a \<and> run_status_of (ar_run a) = Starting \<and> \<not> as_retired (ar_session a) \<and>
     \<not> as_quiescent (ar_session a) \<and> ar_route a = route_new (rs_id (run_spec_of (ar_run a)))"

lemma dispatch_started:
  "acp_dispatch ord link closed sent spec text s = (Ok a, s') \<Longrightarrow>
     started a \<and> \<not> as_retired s \<and> as_quiescent s \<and> run_spec_of (ar_run a) = spec"
  by (auto simp: acp_dispatch_def started_def run_apply_def run_new_def Let_def
      split: if_splits result.splits option.splits)

lemma cancel_cases:
  assumes "\<not> ar_settled a \<longrightarrow> active (run_status_of (ar_run a))"
  obtains (nothing) "acp_cancel ord link sent a = (Ok (), a)"
  | (asked) run where "\<not> ar_settled a" "run_status_of run = Cancelling"
      "acp_cancel ord link sent a = (map_err Protocol (reply_result sent),
         a\<lparr>ar_run := run,
           ar_route := cancel_permissions ord link ((ar_route a)\<lparr>rt_cancelling := True\<rparr>)\<rparr>)"
proof (cases "ar_settled a \<or> run_cancel_requested (ar_run a)")
  case True
  then have "acp_cancel ord link sent a = (Ok (), a)" by (auto simp: acp_cancel_def)
  then show ?thesis by (rule nothing)
next
  case False
  with assms apply_active [of a CancellationRequested] obtain run where
    "apply_unwrap CancellationRequested a = (Ok (), a\<lparr>ar_run := run\<rparr>)" "run_status_of run = Cancelling"
    by auto
  then show ?thesis using False by (intro asked [of run]) (simp_all add: acp_cancel_def)
qed

lemma trace_active:
  assumes "acp_trace ord category a0 es a" and "started a0"
  shows "\<not> ar_settled a \<longrightarrow> active (run_status_of (ar_run a))"
  using assms(1)
proof (induction rule: acp_trace.induct)
  case trace_start
  then show ?case using assms(2) by (simp add: started_def active_def)
next
  case (trace_next es a link closed x a')
  show ?case
    by (cases rule: acp_next_cases [OF trace_next.IH, of ord link closed])
      (use trace_next in auto)
next
  case (trace_cancel es a link sent)
  show ?case
    by (cases rule: cancel_cases [OF trace_cancel.IH, of ord link sent])
      (use trace_cancel in \<open>auto simp: active_def\<close>)
qed simp_all

lemma route_inv_cong:
  "rt_run_id r' = rt_run_id r \<Longrightarrow> rt_pending r' = rt_pending r \<Longrightarrow> rt_next r' = rt_next r \<Longrightarrow>
     rt_accepting r' = rt_accepting r \<Longrightarrow> rt_overflow r' = rt_overflow r \<Longrightarrow>
     rt_answers r' = rt_answers r \<Longrightarrow> length (rt_queue r') \<le> length (rt_queue r) \<Longrightarrow>
     route_inv requests r \<Longrightarrow> route_inv requests r'"
  by (auto simp: route_inv_def route_ok_def route_fair_def route_tokens_def)

lemma trace_route:
  assumes "acp_trace ord category a0 es a" and "started a0" and ord: "drain_order ord"
  shows "route_inv (asked es) (ar_route a)"
  using assms(1)
proof (induction rule: acp_trace.induct)
  case trace_start
  then show ?case using assms(2) route_new_inv by (simp add: started_def asked_def)
next
  case (trace_next es a link closed x a')
  show ?case
    by (cases rule: acp_next_cases [OF trace_active [OF trace_next.hyps(1) assms(2)], of ord link closed])
      (use trace_next route_close_inv [OF ord] in \<open>auto intro: route_inv_cong [of _ "ar_route a"]\<close>)
next
  case (trace_cancel es a link sent)
  have "route_inv (asked es) ((ar_route a)\<lparr>rt_cancelling := True\<rparr>)"
    by (rule route_inv_cong [OF _ _ _ _ _ _ _ trace_cancel.IH]) simp_all
  then show ?case
    using trace_cancel.IH cancel_permissions_inv [OF ord]
    by (cases rule: cancel_cases [OF trace_active [OF trace_cancel.hyps(1) assms(2)], of ord link sent]) auto
qed (use ord in \<open>auto intro: route_deliver_inv route_ask_inv route_complete_inv route_respond_inv\<close>)

subsection \<open>What the consumer has seen\<close>

fun response :: "('n, 'v) acp_log list \<Rightarrow> prompt_result option" where
  "response [] = None"
| "response (PromptEnded x # es) = Some x"
| "response (e # es) = response es"

fun update_of :: "('n, 'v) acp_log \<Rightarrow> ('n, 'v) session_update list" where
  "update_of (GotUpdate u) = [u]"
| "update_of _ = []"

text \<open>The updates up to the prompt's response, and those \<open>next\<close> has returned.\<close>

fun received :: "('n, 'v) acp_log list \<Rightarrow> ('n, 'v) session_update list" where
  "received [] = []"
| "received (e # es) = (if \<exists>x. e = PromptEnded x then [] else update_of e @ received es)"

fun consumed_of :: "('n, 'v) acp_log \<Rightarrow> ('n, 'v) session_update list" where
  "consumed_of (NextGot (Ok (Some (Update u)))) = [u]"
| "consumed_of _ = []"

definition consumed :: "('n, 'v) acp_log list \<Rightarrow> ('n, 'v) session_update list" where
  "consumed es = concat (map consumed_of es)"

definition finished_with :: "stop_reason \<Rightarrow> ('n, 'v) acp_log list \<Rightarrow> bool" where
  "finished_with reason es \<longleftrightarrow> NextGot (Ok (Some (Finished reason))) \<in> set es"

lemma response_append:
  "response (es @ [e]) = (case response es of None \<Rightarrow> response [e] | Some x \<Rightarrow> Some x)"
  by (induction es rule: response.induct) auto

lemma response_other [simp]:
  "response [GotUpdate u] = None" "response [Asked token request] = None" "response [NextGot x] = None"
  "response [Decided i opt] = None" "response [CancelAsked] = None"
  by simp_all

lemma ended_response: "ended es \<longleftrightarrow> response es \<noteq> None"
  by (induction es rule: response.induct) (auto simp: ended_def)

lemma received_append: "received (es @ [e]) = received es @ (if response es = None then update_of e else [])"
proof (induction es)
  case Nil
  then show ?case by (cases e) auto
next
  case (Cons a es)
  then show ?case by (cases a) auto
qed

lemma consumed_append [simp]: "consumed (es @ [e]) = consumed es @ consumed_of e"
  by (simp add: consumed_def)

lemma finished_append [simp]:
  "finished_with reason (es @ [e]) \<longleftrightarrow>
     finished_with reason es \<or> e = NextGot (Ok (Some (Finished reason)))"
  by (auto simp: finished_with_def)

definition seen_inv :: "('n, 'v) acp_log list \<Rightarrow> ('n, 'v) acp_run \<Rightarrow> bool" where
  "seen_inv es a \<longleftrightarrow>
     channel_ok (response es) (ar_route a) \<and>
     (\<not> ar_settled a \<longrightarrow> \<not> rt_overflow (ar_route a) \<longrightarrow>
        consumed es @ queue_updates (rt_queue (ar_route a)) = received es \<and>
        (response es = None \<longrightarrow> rt_accepting (ar_route a))) \<and>
     (ar_settled a \<longrightarrow> \<not> rt_accepting (ar_route a)) \<and>
     (\<forall>reason. finished_with reason es \<longrightarrow>
        ar_settled a \<and> response es = Some (Inr reason) \<and> consumed es = received es)"

text \<open>A step of the route that is quiet, with an entry of the log that is neither an update
  nor a response.\<close>

lemma seen_quiet:
  assumes "seen_inv es a" and "quiet (ar_route a) (ar_route a')" and "ar_settled a' = ar_settled a"
    and "response [e] = None" and "update_of e = []" and "consumed_of e = []"
    and "\<And>reason. e \<noteq> NextGot (Ok (Some (Finished reason)))"
  shows "seen_inv (es @ [e]) a'"
proof -
  have resp: "response (es @ [e]) = response es"
    using assms(4) by (simp add: response_append split: option.splits)
  have "channel_ok (response es) (ar_route a')"
    using assms(1) quiet_channel [OF _ assms(2)] by (simp add: seen_inv_def)
  moreover have "\<not> rt_overflow (ar_route a') \<Longrightarrow> \<not> rt_overflow (ar_route a)"
    using quiet_overflow [OF assms(2)] by blast
  moreover have "rt_accepting (ar_route a') \<Longrightarrow> rt_accepting (ar_route a)"
    "rt_accepting (ar_route a) \<Longrightarrow> rt_accepting (ar_route a') \<or> rt_overflow (ar_route a')"
    using assms(2) by (auto simp: quiet_def channel_grows_def)
  ultimately show ?thesis
    using assms quiet_updates [OF assms(2)]
    by (auto simp: seen_inv_def resp received_append)
qed

lemma seen_update:
  assumes "seen_inv es a"
  shows "seen_inv (es @ [GotUpdate u]) (snd (acp_update ord link category u a))"
proof (cases rule: route_deliver_cases [of "ar_route a" ord link "Event (Update u)"])
  case closed
  then show ?thesis
    using assms by (auto simp: seen_inv_def response_append received_append split: option.splits)
next
  case sent
  then have "response es = None" using assms by (simp add: seen_inv_def channel_ok_def)
  moreover have "list_all (\<lambda>m. \<not> is_finish m) (rt_queue (ar_route a) @ [Event (Update u)])"
    using sent assms by (simp add: seen_inv_def channel_ok_def)
  ultimately show ?thesis
    using assms sent
    by (auto simp: seen_inv_def response_append received_append channel_ok_def list_all_iff
        butlast_append split: if_splits)
next
  case full
  then have "response es = None" "\<not> ar_settled a" using assms by (auto simp: seen_inv_def channel_ok_def)
  then show ?thesis
    using assms full by (auto simp: seen_inv_def response_append received_append channel_ok_def)
qed

lemma seen_complete:
  assumes inv: "seen_inv es a" and route: "route_inv requests (ar_route a)" and "response es = None"
  shows "seen_inv (es @ [PromptEnded x]) (snd (acp_complete ord link x a))"
proof -
  note C = complete_channel [OF route, where response = x and ord = ord and link = link]
  have ch: "channel_ok None (ar_route a)" using inv assms(3) by (simp add: seen_inv_def)
  have resp: "response (es @ [PromptEnded x]) = Some x" using assms(3) by (simp add: response_append)
  have "received (es @ [PromptEnded x]) = received es" by (simp add: received_append)
  then show ?thesis
    using inv C(1,2) [OF ch] C(3) [OF ch] assms(3) route_complete_facts(2) [where ord = ord and link = link and r = "ar_route a" and response = x]
    by (auto simp: seen_inv_def resp)
qed

text \<open>Popping the head of the channel.\<close>

lemma channel_pop:
  assumes "channel_ok res r" and "rt_queue r = m # rest"
  shows "channel_ok res (r\<lparr>rt_queue := rest\<rparr>)" and "is_finish m \<Longrightarrow> rest = []"
proof -
  show *: "is_finish m \<Longrightarrow> rest = []"
    using assms by (auto simp: channel_ok_def split: if_splits)
  show "channel_ok res (r\<lparr>rt_queue := rest\<rparr>)"
    using assms * by (cases "rest = []") (auto simp: channel_ok_def)
qed

lemma consumed_event: "consumed_of (NextGot (Ok (Some event))) = delivered_update (Event event)"
  by (cases event) auto

lemma seen_next:
  assumes inv: "seen_inv es a" and act: "\<not> ar_settled a \<longrightarrow> active (run_status_of (ar_run a))"
    and step: "acp_next ord link closed a = (Some x, a')"
  shows "seen_inv (es @ [NextGot x]) a'"
  using act
proof (cases rule: acp_next_cases [where ord = ord and link = link and closed = closed])
  case settled
  then show ?thesis
    using inv step by (auto simp: seen_inv_def response_append received_append split: option.splits)
next
  case (lost run e)
  then have "channel_ok (response es) (route_close ord link (ar_route a))"
    using inv by (auto simp: seen_inv_def intro: channel_ok_grows [OF _ close_grows])
  moreover have "\<not> rt_accepting (route_close ord link (ar_route a))" by (simp add: route_close_eq)
  ultimately show ?thesis
    using lost inv step by (auto simp: seen_inv_def response_append received_append split: option.splits)
next
  case waiting
  then show ?thesis using step by simp
next
  case (event run ev rest)
  have "\<not> is_finish (Event ev)"
    using inv event by (auto simp: seen_inv_def channel_ok_def)
  moreover have "channel_ok (response es) ((ar_route a)\<lparr>rt_queue := rest\<rparr>)"
    using inv event channel_pop(1) by (auto simp: seen_inv_def)
  moreover have "consumed es @ delivered_update (Event ev) @ queue_updates rest = received es"
    using inv event by (simp add: seen_inv_def)
  ultimately show ?thesis
    using event inv step consumed_event [of ev]
    by (auto simp: seen_inv_def response_append received_append split: option.splits)
next
  case (finished run reason rest)
  have "channel_ok (response es) (ar_route a)" using inv by (simp add: seen_inv_def)
  from channel_pop(2) [OF this finished(3)] have "rest = []" by simp
  moreover have "response es = Some (Inr reason)"
    using inv finished by (auto simp: seen_inv_def channel_ok_def)
  moreover have "consumed es = received es"
    using inv finished \<open>rest = []\<close> by (simp add: seen_inv_def)
  moreover have "\<not> rt_accepting (ar_route a)"
    using inv finished by (auto simp: seen_inv_def channel_ok_def)
  ultimately show ?thesis
    using finished inv step
    by (auto simp: seen_inv_def response_append received_append channel_ok_def split: option.splits)
next
  case (failed run error rest)
  have ch: "channel_ok (response es) (ar_route a)" using inv by (simp add: seen_inv_def)
  have "channel_ok (response es) ((ar_route a)\<lparr>rt_queue := rest\<rparr>)" by (rule channel_pop(1) [OF ch failed(3)])
  moreover have "\<not> rt_accepting (ar_route a)" using ch failed by (auto simp: channel_ok_def)
  ultimately show ?thesis
    using failed inv step
    by (auto simp: seen_inv_def response_append received_append split: option.splits)
qed

lemma trace_seen:
  assumes "acp_trace ord category a0 es a" and "started a0" and ord: "drain_order ord"
  shows "seen_inv es a"
  using assms(1)
proof (induction rule: acp_trace.induct)
  case trace_start
  then show ?case
    using assms(2) by (auto simp: seen_inv_def started_def route_new_def channel_ok_def consumed_def finished_with_def)
next
  case (trace_update es a link u)
  then show ?case by (blast intro: seen_update)
next
  case (trace_ask es a token link request)
  show ?case
    by (rule seen_quiet [OF trace_ask.IH])
      (use quiet_ask [OF ord trace_route [OF trace_ask.hyps(1) assms(2) ord] trace_ask.hyps(3)] in simp_all)
next
  case (trace_end es a link response)
  then show ?case
    using seen_complete [OF trace_end.IH trace_route [OF trace_end.hyps(1) assms(2) ord]] ended_response by blast
next
  case (trace_next es a link closed x a')
  show ?case
    by (rule seen_next [OF trace_next.IH trace_active [OF trace_next.hyps(1) assms(2)] trace_next.hyps(2)])
next
  case (trace_respond es a link i opt)
  show ?case by (rule seen_quiet [OF trace_respond.IH]) (simp_all add: quiet_respond)
next
  case (trace_cancel es a link sent)
  have "quiet (ar_route a) (ar_route (snd (acp_cancel ord link sent a))) \<and>
      ar_settled (snd (acp_cancel ord link sent a)) = ar_settled a"
    using trace_active [OF trace_cancel.hyps(1) assms(2)]
  proof (cases rule: cancel_cases [where ord = ord and link = link and sent = sent])
    case nothing
    then show ?thesis by (simp add: quiet_refl)
  next
    case (asked run)
    have "quiet (ar_route a) ((ar_route a)\<lparr>rt_cancelling := True\<rparr>)" by (rule quiet_same) simp_all
    moreover have "route_inv (Acp_Session.asked es) ((ar_route a)\<lparr>rt_cancelling := True\<rparr>)"
      by (rule route_inv_cong [OF _ _ _ _ _ _ _ trace_route [OF trace_cancel.hyps(1) assms(2) ord]]) simp_all
    ultimately show ?thesis using asked quiet_trans quiet_cancel by (simp) blast
  qed
  then show ?case by (intro seen_quiet [OF trace_cancel.IH]) simp_all
qed

subsection \<open>The session after a run\<close>

definition session_inv :: "('n, 'v) acp_log list \<Rightarrow> ('n, 'v) acp_run \<Rightarrow> bool" where
  "session_inv es a \<longleftrightarrow>
     (if \<exists>reason. finished_with reason es
      then ar_settled a \<and> as_quiescent (ar_session a) \<and> \<not> as_retired (ar_session a)
      else if ar_settled a then as_retired (ar_session a)
      else \<not> as_quiescent (ar_session a) \<and> \<not> as_retired (ar_session a))"

lemma session_inv_same:
  "session_inv es a \<Longrightarrow> ar_settled a' = ar_settled a \<Longrightarrow>
     as_quiescent (ar_session a') = as_quiescent (ar_session a) \<Longrightarrow>
     as_retired (ar_session a') = as_retired (ar_session a) \<Longrightarrow>
     (\<And>reason. e \<noteq> NextGot (Ok (Some (Finished reason)))) \<Longrightarrow> session_inv (es @ [e]) a'"
  by (simp add: session_inv_def)

lemma trace_session:
  assumes "acp_trace ord category a0 es a" and "started a0" and "drain_order ord"
  shows "session_inv es a"
  using assms(1)
proof (induction rule: acp_trace.induct)
  case trace_start
  then show ?case using assms(2) by (simp add: session_inv_def started_def finished_with_def)
next
  case (trace_next es a link closed x a')
  have seen: "seen_inv es a" by (rule trace_seen [OF trace_next.hyps(1) assms(2,3)])
  show ?case
    using trace_active [OF trace_next.hyps(1) assms(2)]
  proof (cases rule: acp_next_cases [where ord = ord and link = link and closed = closed])
    case (event run ev rest)
    then have "\<not> is_finish (Event ev)" using seen by (auto simp: seen_inv_def channel_ok_def)
    then have "ev \<noteq> Finished reason" for reason by (cases ev) auto
    then show ?thesis using event trace_next by (auto simp: session_inv_def split: if_splits)
  qed (use trace_next in \<open>auto simp: session_inv_def split: if_splits\<close>)
next
  case (trace_cancel es a link sent)
  show ?case
    using trace_active [OF trace_cancel.hyps(1) assms(2)]
    by (cases rule: cancel_cases [where ord = ord and link = link and sent = sent])
      (auto intro: session_inv_same [OF trace_cancel.IH])
qed (auto intro: session_inv_same)

lemma drop_flags:
  assumes "\<not> ar_settled a \<longrightarrow> active (run_status_of (ar_run a))"
  shows "as_quiescent (fst (acp_drop ord link sent a)) = as_quiescent (ar_session a)"
    and "as_retired (fst (acp_drop ord link sent a)) \<longleftrightarrow> as_retired (ar_session a) \<or> \<not> ar_settled a"
proof -
  have "ar_session (snd (acp_cancel ord link sent a)) = ar_session a"
    using assms by (cases rule: cancel_cases [where ord = ord and link = link and sent = sent]) auto
  then show "as_quiescent (fst (acp_drop ord link sent a)) = as_quiescent (ar_session a)"
    and "as_retired (fst (acp_drop ord link sent a)) \<longleftrightarrow> as_retired (ar_session a) \<or> \<not> ar_settled a"
    by (auto simp: acp_drop_def Let_def)
qed

lemma drop_route:
  assumes act: "\<not> ar_settled a \<longrightarrow> active (run_status_of (ar_run a))" and ord: "drain_order ord"
    and inv: "route_inv requests (ar_route a)"
  shows "route_inv requests (snd (acp_drop ord link sent a)) \<and> rt_pending (snd (acp_drop ord link sent a)) = []"
proof -
  have "route_inv requests ((ar_route a)\<lparr>rt_cancelling := True\<rparr>)"
    by (rule route_inv_cong [OF _ _ _ _ _ _ _ inv]) simp_all
  note cancelled = cancel_permissions_inv [OF ord this]
  have "route_inv requests (ar_route (snd (acp_cancel ord link sent a)))"
    using act by (cases rule: cancel_cases [where ord = ord and link = link and sent = sent])
      (use inv cancelled in auto)
  then show ?thesis
    using inv route_close_inv [OF ord] by (auto simp: acp_drop_def Let_def) (simp_all add: route_close_eq)
qed

lemma next_no_panic:
  assumes "\<not> ar_settled a \<longrightarrow> active (run_status_of (ar_run a))"
  shows "fst (acp_next ord link closed a) \<noteq> Some Panic"
  using assms by (cases rule: acp_next_cases [where ord = ord and link = link and closed = closed]) auto

subsection \<open>A sample run\<close>

definition sample_acp_session :: acp_session where
  "sample_acp_session =
     \<lparr>as_session_id = Ident ''s'', as_slot_id = Ident ''slot'', as_predecessor = None, as_retired = False,
      as_quiescent = True, as_fresh = True,
      as_config = \<lparr>cs_options = None, cs_requested = [], cs_pending = False, cs_uncertain = False\<rparr>,
      as_registered = False, as_answers = []\<rparr>"

definition sample_run_spec :: "run_configuration run_spec" where
  "sample_run_spec =
     \<lparr>rs_id = Ident ''r'', rs_session = Ident ''s'', rs_slot = Ident ''slot'', rs_context = default_manifest,
      rs_config = default_run_configuration, rs_continuation = None\<rparr>"

definition sample_acp_run :: "(nat, nat) acp_run" where
  "sample_acp_run =
     \<lparr>ar_session = sample_acp_session\<lparr>as_quiescent := False, as_fresh := False, as_registered := True\<rparr>,
      ar_run = \<lparr>run_spec_of = sample_run_spec, run_status_of = Starting, run_cancel_requested = False\<rparr>,
      ar_input = ''hi'', ar_settled = False, ar_route = route_new (Ident ''r'')\<rparr>"

lemma sample_dispatch:
  "acp_dispatch id (\<lambda>_. None) False None sample_run_spec ''hi'' sample_acp_session =
     (Ok sample_acp_run, ar_session sample_acp_run)"
proof -
  have "\<not> blank ''hi''" by (rule not_blank_plain; simp add: plain_char_def)
  then show ?thesis
    by (simp add: acp_dispatch_def sample_acp_session_def sample_run_spec_def sample_acp_run_def
        config_for_run_def default_run_configuration_def run_apply_def run_new_def Let_def)
qed

lemma sample_drain_order: "drain_order id"
  by (simp add: drain_order_def)

definition sample_request :: "nat permission_request" where
  "sample_request =
     \<lparr>pq_options = [\<lparr>np_id = ''allow'', np_name = ''Allow'', np_kind = 0\<rparr>],
      pq_tool_call = \<lparr>tu_id = ''t'', tu_title = None, tu_fields = 0, tu_meta = None\<rparr>\<rparr>"

lemma sample_asked:
  "acp_trace id (\<lambda>_. None) sample_acp_run [Asked 7 sample_request]
     (snd (acp_ask id (\<lambda>_. None) sample_request 7 sample_acp_run))"
proof -
  have "acp_trace id (\<lambda>_. None) sample_acp_run ([] @ [Asked 7 sample_request])
      (snd (acp_ask id (\<lambda>_. None) sample_request 7 sample_acp_run))"
    by (rule trace_ask [OF trace_start]) (simp_all add: asked_def)
  then show ?thesis by simp
qed

definition sample_finished_log :: "(nat, nat) acp_log list" where
  "sample_finished_log =
     [GotUpdate (OtherUpdate 5), PromptEnded (Inr StopEndTurn), NextGot (Ok (Some (Update (OtherUpdate 5)))),
      NextGot (Ok (Some (Finished StopEndTurn)))]"

lemma sample_finished: "\<exists>a. acp_trace id (\<lambda>_. None) sample_acp_run sample_finished_log a"
proof -
  let ?tr = "acp_trace id (\<lambda>_. None) sample_acp_run"
  let ?q = "[Event (Update (OtherUpdate 5)), FinishedDelivery (Inr StopEndTurn)] :: (nat, nat) delivery list"
  let ?r = "(route_new (Ident ''r''))\<lparr>rt_queue := ?q, rt_accepting := False\<rparr>"
  let ?a1 = "snd (acp_update id (\<lambda>_. None) (\<lambda>_. None) (OtherUpdate 5) sample_acp_run)"
  let ?a2 = "snd (acp_complete id (\<lambda>_. None) (Inr StopEndTurn) ?a1)"
  have a2: "?a2 = sample_acp_run\<lparr>ar_route := ?r\<rparr>"
    by (simp add: acp_update_def acp_complete_def sample_acp_run_def session_observe_def route_deliver_def
        route_new_def try_send_def event_capacity_def route_complete_def cancel_permissions_def route_close_def
        Let_def)
  have "?tr ([] @ [GotUpdate (OtherUpdate 5)]) ?a1" by (rule trace_update [OF trace_start])
  then have "?tr (([] @ [GotUpdate (OtherUpdate 5)]) @ [PromptEnded (Inr StopEndTurn)]) ?a2"
    by (rule trace_end) (simp add: ended_def)
  then have 2: "?tr [GotUpdate (OtherUpdate 5), PromptEnded (Inr StopEndTurn)] (sample_acp_run\<lparr>ar_route := ?r\<rparr>)"
    by (simp add: a2)
  obtain a3 where 3: "acp_next id (\<lambda>_. None) False (sample_acp_run\<lparr>ar_route := ?r\<rparr>) =
      (Some (Ok (Some (Update (OtherUpdate 5)))), a3)"
      "ar_settled a3 = False" "run_status_of (ar_run a3) = Running" "rt_overflow (ar_route a3) = False"
      "rt_queue (ar_route a3) = [FinishedDelivery (Inr StopEndTurn)]"
    by (simp add: acp_next_def sample_acp_run_def route_new_def apply_unwrap_def run_apply_def Let_def)
  obtain a4 where 4: "acp_next id (\<lambda>_. None) False a3 = (Some (Ok (Some (Finished StopEndTurn))), a4)"
    using 3 by (simp add: acp_next_def apply_unwrap_def run_apply_def Let_def)
  from trace_next [OF trace_next [OF 2 3(1)] 4] show ?thesis by (auto simp: sample_finished_log_def)
qed

subsection \<open>Properties\<close>

text \<open>
  C7: Every permission request is answered exactly once. At any point of a run, the tokens
  of the requests are those pending and those answered, each once; an answer that selects an
  option selects one the request offered; at most 32 requests are pending, none once the
  prompt's response has arrived; and when the run has been dropped every request has been
  answered.
\<close>

theorem acp_requests_answered:
  assumes "acp_dispatch ord link0 closed0 sent0 spec text s = (Ok a0, s0)" and "drain_order ord"
    and "acp_trace ord category a0 es a"
  shows "mset (map fst (asked es)) =
      mset (map (pp_token \<circ> snd) (rt_pending (ar_route a))) + mset (map fst (rt_answers (ar_route a))) \<and>
    (\<forall>token x. (token, Selected x) \<in> set (rt_answers (ar_route a)) \<longrightarrow> offered (asked es) token x) \<and>
    length (rt_pending (ar_route a)) \<le> 32 \<and>
    (response es \<noteq> None \<longrightarrow> rt_pending (ar_route a) = []) \<and>
    mset (map fst (rt_answers (snd (acp_drop ord link sent a)))) = mset (map fst (asked es))"
proof -
  have st: "started a0" using dispatch_started [OF assms(1)] by blast
  have inv: "route_inv (asked es) (ar_route a)" by (rule trace_route [OF assms(3) st assms(2)])
  have seen: "seen_inv es a" by (rule trace_seen [OF assms(3) st assms(2)])
  note dropped = drop_route [OF trace_active [OF assms(3) st] assms(2) inv, of link sent]
  have "response es \<noteq> None \<longrightarrow> \<not> rt_accepting (ar_route a)"
    using seen by (auto simp: seen_inv_def channel_ok_def)
  then have "response es \<noteq> None \<longrightarrow> rt_pending (ar_route a) = []"
    using inv by (simp add: route_inv_def route_ok_def)
  moreover have "mset (map fst (rt_answers (snd (acp_drop ord link sent a)))) = mset (map fst (asked es))"
    using dropped by (auto simp: route_inv_def route_fair_def route_tokens_def)
  ultimately show ?thesis
    using inv by (simp add: route_inv_def route_fair_def route_ok_def route_tokens_def permission_capacity_def)
qed

theorem acp_requests_answered_witness:
  "mset (map fst (rt_answers (snd (acp_drop id (\<lambda>_. None) None
      (snd (acp_ask id (\<lambda>_. None) sample_request 7 sample_acp_run)))))) = {#7#}"
  using acp_requests_answered [OF sample_dispatch sample_drain_order sample_asked, of "\<lambda>_. None" None]
  by (simp add: asked_def)

text \<open>
  C8: No event is lost silently. When \<open>next\<close> has reported the end of a run, the provider's
  response with that reason has arrived and \<open>next\<close> has returned exactly the updates that
  arrived before it, in order; when an event did not fit into the channel, the next call
  reports \<open>EventBufferFull\<close> and the run never reports its end.
\<close>

theorem acp_no_event_lost:
  assumes "acp_dispatch ord link0 closed0 sent0 spec text s = (Ok a0, s0)" and "drain_order ord"
    and "acp_trace ord category a0 es a"
  shows "(\<forall>reason. finished_with reason es \<longrightarrow> response es = Some (Inr reason) \<and> consumed es = received es) \<and>
    (rt_overflow (ar_route a) \<and> \<not> ar_settled a \<longrightarrow>
       fst (acp_next ord link closed a) = Some (Err EventBufferFull) \<and>
       (\<forall>reason. \<not> finished_with reason es) \<and> ar_settled (snd (acp_next ord link closed a)))"
proof -
  have st: "started a0" using dispatch_started [OF assms(1)] by blast
  have seen: "seen_inv es a" by (rule trace_seen [OF assms(3) st assms(2)])
  have act: "\<not> ar_settled a \<longrightarrow> active (run_status_of (ar_run a))" by (rule trace_active [OF assms(3) st])
  have "fst (acp_next ord link closed a) = Some (Err EventBufferFull) \<and>
      ar_settled (snd (acp_next ord link closed a))"
    if "rt_overflow (ar_route a)" "\<not> ar_settled a"
    using that act unknown_active [of a ord link] by (auto simp: acp_next_def)
  then show ?thesis using seen by (auto simp: seen_inv_def)
qed

theorem acp_no_event_lost_witness:
  "response sample_finished_log = Some (Inr StopEndTurn) \<and> consumed sample_finished_log = [OtherUpdate 5] \<and>
   received sample_finished_log = [OtherUpdate 5]"
proof -
  obtain a where "acp_trace id (\<lambda>_. None) sample_acp_run sample_finished_log a" using sample_finished by blast
  from acp_no_event_lost [OF sample_dispatch sample_drain_order this]
  show ?thesis by (simp add: sample_finished_log_def finished_with_def consumed_def)
qed

text \<open>
  C31: A session is used again only after a run whose end was observed. When a run is
  dropped, its session takes another run (is quiescent and not retired) if and only if
  \<open>next\<close> had returned the end of the run; in every other case, a drop in mid-run, a lost
  connection, an overflow or a failed prompt included, the session is retired.
\<close>

theorem acp_session_reusable:
  assumes "acp_dispatch ord link0 closed0 sent0 spec text s = (Ok a0, s0)" and "drain_order ord"
    and "acp_trace ord category a0 es a"
  shows "((\<exists>reason. finished_with reason es) \<longleftrightarrow>
      as_quiescent (fst (acp_drop ord link sent a)) \<and> \<not> as_retired (fst (acp_drop ord link sent a))) \<and>
    (\<not> (\<exists>reason. finished_with reason es) \<longrightarrow>
       as_retired (fst (acp_drop ord link sent a)) \<and>
       (\<not> blank text' \<longrightarrow> acp_dispatch ord link closed sent' spec' text' (fst (acp_drop ord link sent a)) =
          (Err SessionUnavailable :: (('n, 'v) acp_run, acp_error) result, fst (acp_drop ord link sent a))))"
proof -
  have st: "started a0" using dispatch_started [OF assms(1)] by blast
  have inv: "session_inv es a" by (rule trace_session [OF assms(3) st assms(2)])
  note D = drop_flags [OF trace_active [OF assms(3) st], of ord link sent]
  have "\<not> (\<exists>reason. finished_with reason es) \<Longrightarrow> as_retired (fst (acp_drop ord link sent a))"
    using inv D(2) by (auto simp: session_inv_def split: if_splits)
  moreover have "(\<exists>reason. finished_with reason es) \<Longrightarrow>
      as_quiescent (fst (acp_drop ord link sent a)) \<and> \<not> as_retired (fst (acp_drop ord link sent a))"
    using inv D by (auto simp: session_inv_def)
  ultimately show ?thesis by (auto simp: acp_dispatch_def)
qed

theorem acp_session_reusable_witness:
  "\<exists>a. acp_trace id (\<lambda>_. None) sample_acp_run sample_finished_log a \<and>
     as_quiescent (fst (acp_drop id (\<lambda>_. None) None a)) \<and> \<not> as_retired (fst (acp_drop id (\<lambda>_. None) None a))"
proof -
  obtain a where a: "acp_trace id (\<lambda>_. None) sample_acp_run sample_finished_log a" using sample_finished by blast
  have "finished_with StopEndTurn sample_finished_log" by (simp add: sample_finished_log_def finished_with_def)
  with a acp_session_reusable [OF sample_dispatch sample_drain_order a, of "\<lambda>_. None" None] show ?thesis by blast
qed

text \<open>
  C32: No operation of a run panics: whatever has happened since the dispatch, none of the
  \<open>unwrap\<close>s on run transitions in \<open>next\<close>, \<open>respond\<close>, \<open>cancel\<close> and \<open>start_run\<close> fails.
\<close>

theorem acp_no_panic:
  assumes "acp_dispatch ord link0 closed0 sent0 spec text s = (Ok a0, s0)" and "drain_order ord"
    and "acp_trace ord category a0 es a"
  shows "fst (acp_next ord link closed a) \<noteq> Some Panic \<and> fst (acp_cancel ord link sent a) \<noteq> Panic \<and>
    fst (acp_respond ord link i opt a) \<noteq> Panic \<and> NextGot Panic \<notin> set es"
proof -
  have st: "started a0" using dispatch_started [OF assms(1)] by blast
  note act = trace_active [OF assms(3) st]
  have "fst (acp_next ord link closed a) \<noteq> Some Panic" by (rule next_no_panic [OF act])
  moreover have "fst (acp_cancel ord link sent a) \<noteq> Panic"
    using act by (cases rule: cancel_cases [where ord = ord and link = link and sent = sent])
      (auto simp: reply_result_def split: option.splits)
  moreover have "fst (acp_respond ord link i opt a) \<noteq> Panic"
    by (auto simp: acp_respond_def route_respond_def Let_def reply_result_def
        split: option.splits result.splits prod.splits)
  moreover have "NextGot Panic \<notin> set es"
    using assms(3)
  proof (induction rule: acp_trace.induct)
    case (trace_next es a link closed x a')
    then show ?case using next_no_panic [OF trace_active [OF trace_next.hyps(1) st], of ord link closed] by auto
  qed simp_all
  ultimately show ?thesis by blast
qed

theorem acp_no_panic_witness:
  "\<exists>a. acp_trace id (\<lambda>_. None) sample_acp_run sample_finished_log a \<and>
     fst (acp_next id (\<lambda>_. None) True a) \<noteq> Some Panic"
proof -
  obtain a where a: "acp_trace id (\<lambda>_. None) sample_acp_run sample_finished_log a" using sample_finished by blast
  with acp_no_panic [OF sample_dispatch sample_drain_order a, of "\<lambda>_. None" True] show ?thesis by blast
qed

end
