(* ===== verification/Effects.thy ===== *)
theory Effects imports Prelude begin

section \<open>Operations on a state\<close>

text \<open>
  An operation takes a state and returns its result with the state it leaves, also when it
  fails. \<open>and_then\<close> is the sequencing of Rust's \<open>?\<close>: an error or a panic ends the
  operation where it happens.
\<close>

type_synonym ('a, 'e, 's) operation = "'s \<Rightarrow> ('a, 'e) result \<times> 's"

definition give :: "'a \<Rightarrow> ('a, 'e, 's) operation" where
  "give x s = (Ok x, s)"

definition fail_with :: "'e \<Rightarrow> ('a, 'e, 's) operation" where
  "fail_with e s = (Err e, s)"

definition lift_result :: "('a, 'e) result \<Rightarrow> ('a, 'e, 's) operation" where
  "lift_result r s = (r, s)"

definition modify :: "('s \<Rightarrow> 's) \<Rightarrow> (unit, 'e, 's) operation" where
  "modify f s = (Ok (), f s)"

definition and_then :: "('a, 'e, 's) operation \<Rightarrow> ('a \<Rightarrow> ('b, 'e, 's) operation) \<Rightarrow> ('b, 'e, 's) operation" where
  "and_then m f s =
     (case m s of
        (Ok x, s') \<Rightarrow> f x s'
      | (Err e, s') \<Rightarrow> (Err e, s')
      | (Panic, s') \<Rightarrow> (Panic, s'))"

text \<open>An operation that looks at the state first.\<close>

definition with_state :: "('s \<Rightarrow> ('a, 'e, 's) operation) \<Rightarrow> ('a, 'e, 's) operation" where
  "with_state f s = f s s"

lemma operation_simps [simp]:
  "give x s = (Ok x, s)" "fail_with e s = (Err e, s)" "lift_result r s = (r, s)"
  "modify h s = (Ok (), h s)" "with_state f s = f s s"
  by (simp_all add: give_def fail_with_def lift_result_def modify_def with_state_def)

lemma and_then_simps [simp]:
  "m s = (Ok x, s') \<Longrightarrow> and_then m f s = f x s'"
  "m s = (Err e, s') \<Longrightarrow> and_then m f s = (Err e, s')"
  "m s = (Panic, s') \<Longrightarrow> and_then m f s = (Panic, s')"
  by (simp_all add: and_then_def)

lemma and_then_Ok:
  "and_then m f st = (Ok y, st') \<longleftrightarrow> (\<exists>x st1. m st = (Ok x, st1) \<and> f x st1 = (Ok y, st'))"
  by (auto simp: and_then_def split: prod.splits result.splits)

text \<open>
  What an operation establishes: from \<open>P\<close> it does not panic, ends in \<open>Q x\<close> with the value
  \<open>x\<close>, or in \<open>E\<close> with an error.
\<close>

definition triple ::
  "('s \<Rightarrow> bool) \<Rightarrow> ('a, 'e, 's) operation \<Rightarrow> ('a \<Rightarrow> 's \<Rightarrow> bool) \<Rightarrow> ('s \<Rightarrow> bool) \<Rightarrow> bool" where
  "triple P m Q E \<longleftrightarrow>
     (\<forall>s. P s \<longrightarrow> (case m s of (Ok x, t) \<Rightarrow> Q x t | (Err e, t) \<Rightarrow> E t | (Panic, t) \<Rightarrow> False))"

named_theorems triple_intros \<open>rules for establishing triples\<close>

lemma triple_basic [triple_intros]:
  "(\<And>s. P s \<Longrightarrow> Q x s) \<Longrightarrow> triple P (give x) Q E"
  "(\<And>s. P s \<Longrightarrow> E s) \<Longrightarrow> triple P (fail_with e) Q E"
  "(\<And>s. P s \<Longrightarrow> Q' () (h s)) \<Longrightarrow> triple P (modify h) Q' E"
  by (simp_all add: triple_def)

lemma triple_lift [triple_intros]:
  "r \<noteq> Panic \<Longrightarrow> (\<And>s e. P s \<Longrightarrow> E s) \<Longrightarrow> (\<And>s x. P s \<Longrightarrow> r = Ok x \<Longrightarrow> Q x s) \<Longrightarrow> triple P (lift_result r) Q E"
  by (cases r) (simp_all add: triple_def)

lemma triple_and_then [triple_intros]:
  "triple P m Q E \<Longrightarrow> (\<And>x. triple (Q x) (f x) Q' E) \<Longrightarrow> triple P (and_then m f) Q' E"
  by (fastforce simp: triple_def and_then_def split: prod.splits result.splits)

lemma triple_with_state [triple_intros]:
  "(\<And>s. P s \<Longrightarrow> triple ((=) s) (g s) Q E) \<Longrightarrow> triple P (with_state g) Q E"
  by (simp add: triple_def)

lemma triple_pair:
  "(\<And>s R. P (s, R) \<Longrightarrow> triple ((=) (s, R)) (g (s, R)) Q E) \<Longrightarrow> triple P (with_state g) Q E"
  by (auto simp: triple_def)

lemma triple_run: "m s = (Ok x, s) \<Longrightarrow> triple ((=) s) (f x) Q E \<Longrightarrow> triple ((=) s) (and_then m f) Q E"
  by (simp add: triple_def)

lemma triple_weaken:
  "triple P m Q E \<Longrightarrow> (\<And>s. P' s \<Longrightarrow> P s) \<Longrightarrow> (\<And>x s. Q x s \<Longrightarrow> Q' x s) \<Longrightarrow> (\<And>s. E s \<Longrightarrow> E' s) \<Longrightarrow>
   triple P' m Q' E'"
  by (fastforce simp: triple_def split: prod.splits result.splits)

lemma triple_pre: "triple P m Q E \<Longrightarrow> (\<And>s. P' s \<Longrightarrow> P s) \<Longrightarrow> triple P' m Q E"
  by (simp add: triple_def)

lemma triple_fixed: "(\<And>s. P s \<Longrightarrow> triple ((=) s) m Q E) \<Longrightarrow> triple P m Q E"
  by (simp add: triple_def)

lemma tripleD:
  assumes "triple P m Q E" and "P s" and "m s = (r, t)"
  shows "r \<noteq> Panic" and "r = Ok x \<Longrightarrow> Q x t" and "r = Err e \<Longrightarrow> E t"
  using assms by (auto simp: triple_def split: result.splits)

lemma triple_Ok: "triple P m Q E \<Longrightarrow> P s \<Longrightarrow> m s = (Ok x, t) \<Longrightarrow> Q x t"
  using tripleD(2) by metis

lemma triple_Err: "triple P m Q E \<Longrightarrow> P s \<Longrightarrow> m s = (Err e, t) \<Longrightarrow> E t"
  using tripleD(3) by metis

end
