(* ===== verification/Acp_Recorder.thy ===== *)
theory Acp_Recorder imports Acp_Session Store_Interface Text_Format Json Effects Context_Prep begin

section \<open>Recording an ACP run (src/acp/recording.rs)\<close>

text \<open>
  The recorder writes one run into a record store: the input, coalesced messages, tools,
  permissions and their decisions, evidence, the end. It is generic in the store, a record
  of operations over its state \<open>'s\<close>. What the protocol crate and serde compute is the
  record \<open>sdk\<close> of functions.
\<close>

subsection \<open>Parameters\<close>

record ('n, 'v) sdk =
  sdk_json :: "'v json"
  sdk_chunk :: "'n content_chunk \<Rightarrow> string + 'v"
  sdk_other :: "('n, 'v) session_update \<Rightarrow> string + 'v"
  sdk_call :: "('n, 'v) tool_call \<Rightarrow> string + 'v"
  sdk_kind :: "'n \<Rightarrow> string + 'v"
  sdk_stop :: "stop_reason \<Rightarrow> 'v"
  sdk_stop_text :: "stop_reason \<Rightarrow> string + string"
  sdk_new_call :: "string \<Rightarrow> string \<Rightarrow> ('n, 'v) tool_call"
  sdk_merge :: "'n \<Rightarrow> ('n, 'v) tool_call \<Rightarrow> ('n, 'v) tool_call"
  sdk_category :: "'n \<Rightarrow> string option"
  sdk_store_text :: "store_error \<Rightarrow> string"

text \<open>A tool call keeps its identifier when fields are merged into it.\<close>

definition sdk_laws :: "('n, 'v) sdk \<Rightarrow> bool" where
  "sdk_laws D \<longleftrightarrow>
     (\<forall>i title. tc_id (sdk_new_call D i title) = i) \<and>
     (\<forall>fields call. tc_id (sdk_merge D fields call) = tc_id call)"

subsection \<open>State\<close>

record record_actors =
  ra_user :: actor_id
  ra_agent :: actor_id
  ra_host :: actor_id

datatype recording_error =
  NativeStructuredOutputUnsupported
| RecContext context_error
| UnsupportedContext string
| RecStore store_error
| RecAgent acp_error
| RunAlreadyRecorded
| RecClosed
| MissingPermission
| Serialization string

record 'v working =
  wk_stored :: "'v snapshot"
  wk_payload :: "'v payload"
  wk_dirty :: bool

record ('n, 'v) recorder =
  rec_spec :: "run_configuration run_spec"
  rec_actors :: record_actors
  rec_records :: "'v working list"
  rec_messages :: "message_kind \<times> string \<rightharpoonup> nat"
  rec_anonymous :: "(message_kind \<times> nat) option"
  rec_tools :: "string \<rightharpoonup> nat \<times> ('n, 'v) tool_call"
  rec_permissions :: "permission_id \<rightharpoonup> nat"
  rec_finished :: bool
  rec_last_configuration :: "config_values option"
  rec_input_receipt :: bool
  rec_input_version :: nat
  rec_input_response :: bool

text \<open>\<open>?\<close> on serde's result.\<close>

definition serde :: "string + 'a \<Rightarrow> ('a, recording_error) result" where
  "serde x = (case x of Inl e \<Rightarrow> Err (Serialization e) | Inr v \<Rightarrow> Ok v)"

type_synonym ('a, 'n, 'v, 's) recording = "('a, recording_error, 's \<times> ('n, 'v) recorder) operation"

text \<open>Updating the recorder and calling the store.\<close>

definition on_recorder :: "(('n, 'v) recorder \<Rightarrow> ('n, 'v) recorder) \<Rightarrow> (unit, 'n, 'v, 's) recording" where
  "on_recorder f = modify (\<lambda>(s, R). (s, f R))"

definition on_store :: "('s \<Rightarrow> ('a, store_error) result \<times> 's) \<Rightarrow> ('a, 'n, 'v, 's) recording" where
  "on_store f st = (case f (fst st) of (x, s) \<Rightarrow> (map_err RecStore x, (s, snd st)))"

subsection \<open>Insertion\<close>

definition record_text :: "string \<Rightarrow> nat \<Rightarrow> string" where
  "record_text run n = ''run/'' @ sized run @ ''/record/'' @ decimal n"

text \<open>\<open>draft\<close>: the identifier is the position of the next record.\<close>

definition recorder_draft ::
  "('n, 'v) recorder \<Rightarrow> 'v payload \<Rightarrow> actor_id \<Rightarrow> record_id option \<Rightarrow> source_ref option \<Rightarrow> record_state \<Rightarrow>
   ('v draft, recording_error) result" where
  "recorder_draft R payload actor reply source state =
     (case id_new (record_text (as_str (rs_id (rec_spec R))) (length (rec_records R))) of
        Ok i \<Rightarrow>
          Ok \<lparr>d_id = i, d_session = rs_session (rec_spec R), d_run = Some (rs_id (rec_spec R)),
              d_actor = actor, d_reply = reply, d_source = source, d_payload = payload, d_state = state\<rparr>
      | _ \<Rightarrow> Panic)"

definition recorder_insert ::
  "('v, 's) record_store_ops \<Rightarrow> 'v payload \<Rightarrow> actor_id \<Rightarrow> record_id option \<Rightarrow> source_ref option \<Rightarrow>
   record_state \<Rightarrow> (nat, 'n, 'v, 's) recording" where
  "recorder_insert S payload actor reply source state =
     with_state (\<lambda>(_, R).
       and_then (lift_result (recorder_draft R payload actor reply source state)) (\<lambda>draft.
       and_then (on_store (op_insert S draft)) (\<lambda>stored.
       and_then (on_recorder (\<lambda>R. R\<lparr>rec_records :=
           rec_records R @ [\<lparr>wk_stored = stored, wk_payload = payload, wk_dirty = False\<rparr>]\<rparr>)) (\<lambda>_.
         give (length (rec_records R))))))"

text \<open>Evidence the host writes, and provider data kept as an extension.\<close>

definition host_evidence :: "('v, 's) record_store_ops \<Rightarrow> string \<Rightarrow> 'v \<Rightarrow> (unit, 'n, 'v, 's) recording" where
  "host_evidence S name data =
     with_state (\<lambda>(_, R).
       and_then (recorder_insert S (PExtension ''agent_bridge'' name data) (ra_host (rec_actors R))
         None None Complete) (\<lambda>_. give ()))"

definition recorder_restoration :: "('v, 's) record_store_ops \<Rightarrow> 'v \<Rightarrow> (unit, 'n, 'v, 's) recording" where
  "recorder_restoration S data = host_evidence S ''restoration'' data"

definition result_evidence :: "('v, 's) record_store_ops \<Rightarrow> string \<Rightarrow> 'v \<Rightarrow> (unit, 'n, 'v, 's) recording" where
  "result_evidence S name data = host_evidence S name data"

definition input_evidence :: "('v, 's) record_store_ops \<Rightarrow> 'v \<Rightarrow> (unit, 'n, 'v, 's) recording" where
  "input_evidence S data = host_evidence S ''input_receipt'' data"

definition versioned_state :: "'v json \<Rightarrow> nat \<Rightarrow> string \<Rightarrow> (string \<times> 'v) list \<Rightarrow> 'v" where
  "versioned_state J version state extra =
     j_object J ([(''version'', j_number J version), (''state'', j_string J state)] @ extra)"

definition prepare_input ::
  "('n, 'v) sdk \<Rightarrow> ('v, 's) record_store_ops \<Rightarrow> 'v \<Rightarrow> (unit, 'n, 'v, 's) recording" where
  "prepare_input D S receipt =
     (case j_as_u64 (sdk_json D) (j_index (sdk_json D) receipt ''version'') of
        None \<Rightarrow> lift_result Panic
      | Some version \<Rightarrow>
          and_then (on_recorder (\<lambda>R. R\<lparr>rec_input_version := version\<rparr>)) (\<lambda>_.
          and_then (input_evidence S receipt) (\<lambda>_.
            on_recorder (\<lambda>R. R\<lparr>rec_input_receipt := True\<rparr>))))"

definition input_dispatch_attempted ::
  "('n, 'v) sdk \<Rightarrow> ('v, 's) record_store_ops \<Rightarrow> (unit, 'n, 'v, 's) recording" where
  "input_dispatch_attempted D S =
     with_state (\<lambda>(_, R).
       input_evidence S (versioned_state (sdk_json D) (rec_input_version R) ''dispatch_attempted'' []))"

definition execution_evidence ::
  "('n, 'v) sdk \<Rightarrow> ('v, 's) record_store_ops \<Rightarrow> string \<Rightarrow> (unit, 'n, 'v, 's) recording" where
  "execution_evidence D S state =
     host_evidence S ''run_dispatch'' (versioned_state (sdk_json D) 1 state [])"

definition recorder_extension ::
  "('v, 's) record_store_ops \<Rightarrow> string \<Rightarrow> 'v \<Rightarrow> (unit, 'n, 'v, 's) recording" where
  "recorder_extension S name data =
     with_state (\<lambda>(_, R).
       and_then (recorder_insert S (PExtension ''acp'' name data) (ra_agent (rec_actors R))
         None None Complete) (\<lambda>_. give ()))"

text \<open>\<open>Recorder::new\<close>: the run is registered, then its evidence and its input are written.\<close>

definition recorder_start :: "run_configuration run_spec \<Rightarrow> record_actors \<Rightarrow> ('n, 'v) recorder" where
  "recorder_start spec actors =
     \<lparr>rec_spec = spec, rec_actors = actors, rec_records = [], rec_messages = Map.empty,
      rec_anonymous = None, rec_tools = Map.empty, rec_permissions = Map.empty, rec_finished = False,
      rec_last_configuration = rc_confirmed (rs_config spec), rec_input_receipt = False,
      rec_input_version = 1, rec_input_response = False\<rparr>"

definition recorder_new ::
  "('n, 'v) sdk \<Rightarrow> ('v, 's) record_store_ops \<Rightarrow> run_configuration run_spec \<Rightarrow> string \<Rightarrow> record_actors \<Rightarrow>
   's \<Rightarrow> (('n, 'v) recorder, recording_error) result \<times> 's" where
  "recorder_new D S spec input actors s =
     (case op_create_session S (rs_session spec) s of
        (Err e, s) \<Rightarrow> (Err (RecStore e), s)
      | (Panic, s) \<Rightarrow> (Panic, s)
      | (Ok _, s) \<Rightarrow>
          (case op_register_run S spec s of
             (Err e, s) \<Rightarrow> (Err (RecStore e), s)
           | (Panic, s) \<Rightarrow> (Panic, s)
           | (Ok registered, s) \<Rightarrow>
               if \<not> registered then (Err RunAlreadyRecorded, s)
               else
                 (case
                    and_then (execution_evidence D S ''prepared'') (\<lambda>_.
                    recorder_insert S (PMessage User \<lparr>msg_content = [Text input]\<rparr>) (ra_user actors)
                      None None Complete) (s, recorder_start spec actors) of
                    (Ok _, (s, R)) \<Rightarrow> (Ok R, s)
                  | (Err e, (s, R)) \<Rightarrow> (Err e, s)
                  | (Panic, (s, R)) \<Rightarrow> (Panic, s))))"

subsection \<open>Messages\<close>

text \<open>\<open>buffer.push_str\<close> on the last content if that is text.\<close>

definition push_text :: "string \<Rightarrow> 'v payload \<Rightarrow> 'v payload" where
  "push_text text p =
     (case p of
        PMessage kind m \<Rightarrow>
          (case rev (msg_content m) of
             Text buffer # before \<Rightarrow> PMessage kind \<lparr>msg_content = rev before @ [Text (buffer @ text)]\<rparr>
           | _ \<Rightarrow> p)
      | _ \<Rightarrow> p)"

text \<open>\<open>let working = &mut self.records[index]\<close>\<close>

definition edit_record :: "nat \<Rightarrow> ('v payload \<Rightarrow> 'v payload) \<Rightarrow> (unit, 'n, 'v, 's) recording" where
  "edit_record index f =
     with_state (\<lambda>(_, R).
       if index < length (rec_records R) then
         on_recorder (\<lambda>R. R\<lparr>rec_records := (rec_records R)[index :=
           (rec_records R ! index)\<lparr>wk_payload := f (wk_payload (rec_records R ! index)), wk_dirty := True\<rparr>]\<rparr>)
       else lift_result Panic)"

definition acp_source :: "string \<Rightarrow> source_ref" where
  "acp_source i = \<lparr>src_namespace = ''acp'', src_id = i\<rparr>"

definition message_index :: "message_kind \<Rightarrow> string option \<Rightarrow> ('n, 'v) recorder \<Rightarrow> nat option" where
  "message_index kind native R =
     (case native of
        Some i \<Rightarrow> rec_messages R (kind, i)
      | None \<Rightarrow>
          (case rec_anonymous R of
             Some (last_kind, index) \<Rightarrow> if last_kind = kind then Some index else None
           | None \<Rightarrow> None))"

definition new_message ::
  "('v, 's) record_store_ops \<Rightarrow> message_kind \<Rightarrow> string option \<Rightarrow> (nat, 'n, 'v, 's) recording" where
  "new_message S kind native =
     with_state (\<lambda>(_, R).
       and_then (recorder_insert S (PMessage kind \<lparr>msg_content = [Text '''']\<rparr>) (ra_agent (rec_actors R))
         None (map_option acp_source native) Open) (\<lambda>index.
       and_then (on_recorder (\<lambda>R.
           case native of
             Some i \<Rightarrow> R\<lparr>rec_messages := (rec_messages R)((kind, i) \<mapsto> index)\<rparr>
           | None \<Rightarrow> R)) (\<lambda>_.
         give index)))"

definition recorder_message ::
  "('n, 'v) sdk \<Rightarrow> ('v, 's) record_store_ops \<Rightarrow> message_kind \<Rightarrow> 'n content_chunk \<Rightarrow> (unit, 'n, 'v, 's) recording" where
  "recorder_message D S kind chunk =
     (case ch_content chunk of
        OtherBlock _ \<Rightarrow>
          and_then (on_recorder (\<lambda>R. R\<lparr>rec_anonymous := None\<rparr>)) (\<lambda>_.
          and_then (lift_result (serde (sdk_chunk D chunk))) (\<lambda>data.
            recorder_extension S ''message_content'' data))
      | TextBlock text \<Rightarrow>
          with_state (\<lambda>(_, R).
            and_then
              (case message_index kind (ch_message_id chunk) R of
                 Some index \<Rightarrow> give index
               | None \<Rightarrow> new_message S kind (ch_message_id chunk)) (\<lambda>index.
            and_then (on_recorder (\<lambda>R. R\<lparr>rec_anonymous :=
                (if ch_message_id chunk = None then Some (kind, index) else None)\<rparr>)) (\<lambda>_.
              edit_record index (push_text text)))))"

subsection \<open>Tools\<close>

definition tool_status_of :: "native_tool_status \<Rightarrow> tool_status" where
  "tool_status_of s =
     (case s of
        NativePending \<Rightarrow> ToolPending
      | NativeInProgress \<Rightarrow> ToolRunning
      | NativeCompleted \<Rightarrow> ToolCompleted
      | NativeFailed \<Rightarrow> ToolFailed
      | NativeOther \<Rightarrow> ToolUnknown)"

definition portable_keys :: "string list" where
  "portable_keys = [''toolCallId'', ''title'', ''status'', ''rawInput'', ''rawOutput'']"

definition tool_payload :: "('n, 'v) sdk \<Rightarrow> ('n, 'v) tool_call \<Rightarrow> ('v payload, recording_error) result" where
  "tool_payload D call =
     rbind (serde (sdk_call D call)) (\<lambda>details.
       let J = sdk_json D;
           details = (case j_as_object J details of
                        Some object \<Rightarrow> j_object J (filter (\<lambda>e. fst e \<notin> set portable_keys) object)
                      | None \<Rightarrow> details)
       in Ok (PTool \<lparr>ta_title = tc_title call, ta_status = tool_status_of (tc_status call),
                     ta_input = tc_raw_input call, ta_output = tc_raw_output call,
                     ta_extensions = bt_collect [(''acp'', details)]\<rparr>))"

definition recorder_tool ::
  "('n, 'v) sdk \<Rightarrow> ('v, 's) record_store_ops \<Rightarrow> ('n, 'v) tool_call \<Rightarrow> (unit, 'n, 'v, 's) recording" where
  "recorder_tool D S call =
     with_state (\<lambda>(_, R).
       and_then (lift_result (tool_payload D call)) (\<lambda>payload.
       and_then
         (case rec_tools R (tc_id call) of
            Some (index, _) \<Rightarrow> and_then (edit_record index (\<lambda>_. payload)) (\<lambda>_. give index)
          | None \<Rightarrow>
              recorder_insert S payload (ra_agent (rec_actors R)) None (Some (acp_source (tc_id call))) Open)
         (\<lambda>index.
           on_recorder (\<lambda>R. R\<lparr>rec_tools := (rec_tools R)(tc_id call \<mapsto> (index, call))\<rparr>))))"

definition merged_call :: "('n, 'v) sdk \<Rightarrow> 'n tool_call_update \<Rightarrow> ('n, 'v) recorder \<Rightarrow> ('n, 'v) tool_call" where
  "merged_call D u R =
     (let call = (case rec_tools R (tu_id u) of
                    Some (_, call) \<Rightarrow> call
                  | None \<Rightarrow> sdk_new_call D (tu_id u) ''Tool activity'');
          call = sdk_merge D (tu_fields u) call
      in if tu_meta u \<noteq> None then call\<lparr>tc_meta := tu_meta u\<rparr> else call)"

definition recorder_tool_update ::
  "('n, 'v) sdk \<Rightarrow> ('v, 's) record_store_ops \<Rightarrow> 'n tool_call_update \<Rightarrow> (unit, 'n, 'v, 's) recording" where
  "recorder_tool_update D S u = with_state (\<lambda>(_, R). recorder_tool D S (merged_call D u R))"

subsection \<open>Checkpoints and the end\<close>

text \<open>The loops over the working records; they return the records as far as they got.\<close>

fun checkpoint_records ::
  "('v, 's) record_store_ops \<Rightarrow> 'v working list \<Rightarrow> 's \<Rightarrow>
   (unit, recording_error) result \<times> 's \<times> 'v working list" where
  "checkpoint_records S [] s = (Ok (), s, [])"
| "checkpoint_records S (w # ws) s =
     (if wk_dirty w \<and> \<not> is_final (sn_state (wk_stored w)) then
        (case op_checkpoint S (r_id (sn_record (wk_stored w))) (sn_revision (wk_stored w)) (wk_payload w) Open s of
           (Err e, s) \<Rightarrow> (Err (RecStore e), s, w # ws)
         | (Panic, s) \<Rightarrow> (Panic, s, w # ws)
         | (Ok stored, s) \<Rightarrow>
             (let (x, s, ws) = checkpoint_records S ws s
              in (x, s, w\<lparr>wk_stored := stored, wk_dirty := False\<rparr> # ws)))
      else (let (x, s, ws) = checkpoint_records S ws s in (x, s, w # ws)))"

definition record_complete :: "bool \<Rightarrow> 'v payload \<Rightarrow> bool" where
  "record_complete complete p =
     (case p of
        PPermission _ _ \<Rightarrow> False
      | PTool tool \<Rightarrow> ta_status tool = ToolCompleted \<or> ta_status tool = ToolFailed
      | _ \<Rightarrow> complete)"

fun finish_records ::
  "('v, 's) record_store_ops \<Rightarrow> bool \<Rightarrow> 'v working list \<Rightarrow> 's \<Rightarrow>
   (unit, recording_error) result \<times> 's \<times> 'v working list" where
  "finish_records S complete [] s = (Ok (), s, [])"
| "finish_records S complete (w # ws) s =
     (if is_final (sn_state (wk_stored w)) then
        (let (x, s, ws) = finish_records S complete ws s in (x, s, w # ws))
      else
        (case op_checkpoint S (r_id (sn_record (wk_stored w))) (sn_revision (wk_stored w)) (wk_payload w)
                (if record_complete complete (wk_payload w) then Complete else Interrupted) s of
           (Err e, s) \<Rightarrow> (Err (RecStore e), s, w # ws)
         | (Panic, s) \<Rightarrow> (Panic, s, w # ws)
         | (Ok stored, s) \<Rightarrow>
             (let (x, s, ws) = finish_records S complete ws s
              in (x, s, w\<lparr>wk_stored := stored, wk_dirty := False\<rparr> # ws))))"

definition recorder_checkpoint :: "('v, 's) record_store_ops \<Rightarrow> (unit, 'n, 'v, 's) recording" where
  "recorder_checkpoint S st =
     (case st of (s, R) \<Rightarrow>
        (case checkpoint_records S (rec_records R) s of
           (x, s, ws) \<Rightarrow> (x, (s, R\<lparr>rec_records := ws\<rparr>))))"

definition recorder_finish :: "('v, 's) record_store_ops \<Rightarrow> bool \<Rightarrow> (unit, 'n, 'v, 's) recording" where
  "recorder_finish S complete =
     and_then
       (\<lambda>st. case st of (s, R) \<Rightarrow>
          (case finish_records S complete (rec_records R) s of
             (x, s, ws) \<Rightarrow> (x, (s, R\<lparr>rec_records := ws\<rparr>))))
       (\<lambda>_. on_recorder (\<lambda>R. R\<lparr>rec_finished := True\<rparr>))"

definition recorder_interrupt ::
  "('n, 'v) sdk \<Rightarrow> ('v, 's) record_store_ops \<Rightarrow> string \<Rightarrow> (unit, 'n, 'v, 's) recording" where
  "recorder_interrupt D S message =
     with_state (\<lambda>(_, R).
       if rec_finished R then give ()
       else
         and_then
           (if rec_input_receipt R \<and> \<not> rec_input_response R
            then input_evidence S (versioned_state (sdk_json D) (rec_input_version R) ''unknown'' [])
            else give ()) (\<lambda>_.
         and_then (recorder_insert S (PFailure message) (ra_host (rec_actors R)) None None Complete) (\<lambda>_.
           recorder_finish S False)))"

subsection \<open>Observing an event\<close>

definition config_json :: "'v json \<Rightarrow> config_value \<Rightarrow> 'v" where
  "config_json J v =
     (case v of
        Select x \<Rightarrow> j_object J [(''type'', j_string J ''select''), (''value'', j_string J x)]
      | Boolean b \<Rightarrow> j_object J [(''type'', j_string J ''boolean''), (''value'', j_bool J b)])"

definition report_json :: "'v json \<Rightarrow> config_values option \<Rightarrow> 'v" where
  "report_json J report =
     j_object J [(''confirmed'',
       case report of
         None \<Rightarrow> j_null J
       | Some values \<Rightarrow> j_object J (map (\<lambda>(k, v). (k, config_json J v)) values))]"

definition observed_report :: "('n, 'v) sdk \<Rightarrow> 'n native_option list \<Rightarrow> config_values option" where
  "observed_report D options =
     (case normalize (sdk_category D) options of Ok catalog \<Rightarrow> Some (catalog_values catalog) | _ \<Rightarrow> None)"

fun permission_options ::
  "('n, 'v) sdk \<Rightarrow> 'n native_permission_option list \<Rightarrow> (permission_option list, recording_error) result" where
  "permission_options D [] = Ok []"
| "permission_options D (opt # opts) =
     rbind (serde (sdk_kind D (np_kind opt))) (\<lambda>kind.
     rbind (permission_options D opts) (\<lambda>rest.
       Ok (\<lparr>po_id = np_id opt, po_label = np_name opt,
            po_effect = (case j_as_str (sdk_json D) kind of Some effect \<Rightarrow> effect | None \<Rightarrow> ''unknown'')\<rparr> # rest)))"

text \<open>\<open>self.records[index].stored\<close>\<close>

definition stored_at :: "nat \<Rightarrow> ('v snapshot, 'n, 'v, 's) recording" where
  "stored_at index =
     with_state (\<lambda>(_, R).
       if index < length (rec_records R) then give (wk_stored (rec_records R ! index)) else lift_result Panic)"

definition observe_permission ::
  "('n, 'v) sdk \<Rightarrow> ('v, 's) record_store_ops \<Rightarrow> permission_id \<Rightarrow> 'n permission_request \<Rightarrow>
   (unit, 'n, 'v, 's) recording" where
  "observe_permission D S i request =
     and_then (recorder_tool_update D S (pq_tool_call request)) (\<lambda>_.
     with_state (\<lambda>(_, R).
       case rec_tools R (tu_id (pq_tool_call request)) of
         None \<Rightarrow> lift_result Panic
       | Some (tool, _) \<Rightarrow>
           and_then (lift_result (permission_options D (pq_options request))) (\<lambda>options.
           and_then (stored_at tool) (\<lambda>stored.
           and_then
             (recorder_insert S
               (PPermission
                 (case tu_title (pq_tool_call request) of Some title \<Rightarrow> title | None \<Rightarrow> ''Tool permission'')
                 options)
               (ra_agent (rec_actors R)) (Some (r_id (sn_record stored))) None Open) (\<lambda>index.
             on_recorder (\<lambda>R. R\<lparr>rec_permissions := (rec_permissions R)(i \<mapsto> index)\<rparr>))))))"

definition observe_resolved ::
  "('v, 's) record_store_ops \<Rightarrow> permission_id \<Rightarrow> permission_outcome \<Rightarrow> decision_delivery \<Rightarrow>
   (unit, 'n, 'v, 's) recording" where
  "observe_resolved S i outcome delivery =
     with_state (\<lambda>(_, R).
       case rec_permissions R i of
         None \<Rightarrow> fail_with MissingPermission
       | Some index \<Rightarrow>
           and_then (stored_at index) (\<lambda>request.
             let request_id = r_id (sn_record request);
                 payload = PDecision outcome delivery
             in
               and_then (lift_result
                 (recorder_draft R payload (ra_host (rec_actors R)) (Some request_id) None Complete)) (\<lambda>draft.
               and_then (on_store (op_resolve S request_id (sn_revision request) draft)) (\<lambda>decision.
               and_then (on_store (\<lambda>s. (op_get S request_id s, s))) (\<lambda>current.
                 on_recorder (\<lambda>R. R\<lparr>rec_records :=
                   (rec_records R)[index := (rec_records R ! index)\<lparr>wk_stored := current\<rparr>] @
                   [\<lparr>wk_stored = decision, wk_payload = payload, wk_dirty = False\<rparr>]\<rparr>))))))"

definition finished_reason :: "('n, 'v) sdk \<Rightarrow> stop_reason \<Rightarrow> (completion_reason, recording_error) result" where
  "finished_reason D reason =
     (case reason of
        StopEndTurn \<Rightarrow> Ok ReasonCompleted
      | StopRefusal \<Rightarrow> Ok Refused
      | StopMaxTokens \<Rightarrow> Ok TokenLimit
      | StopMaxTurnRequests \<Rightarrow> Ok StepLimit
      | StopCancelled \<Rightarrow> Ok ReasonCancelled
      | StopOther _ \<Rightarrow> rbind (serde (sdk_stop_text D reason)) (\<lambda>text. Ok (Other text)))"

definition observe_finished ::
  "('n, 'v) sdk \<Rightarrow> ('v, 's) record_store_ops \<Rightarrow> stop_reason \<Rightarrow> (unit, 'n, 'v, 's) recording" where
  "observe_finished D S reason =
     with_state (\<lambda>(_, R).
       and_then
         (if rec_input_receipt R
          then
            and_then (input_evidence S (versioned_state (sdk_json D) (rec_input_version R) ''response_received''
                [(''stop_reason'', sdk_stop D reason)])) (\<lambda>_.
              on_recorder (\<lambda>R. R\<lparr>rec_input_response := True\<rparr>))
          else give ()) (\<lambda>_.
       and_then (lift_result (finished_reason D reason)) (\<lambda>normalized.
       and_then (recorder_insert S (PRunFinished normalized) (ra_agent (rec_actors R)) None None Complete) (\<lambda>_.
         recorder_finish S (reason = StopEndTurn \<or> reason = StopRefusal)))))"

definition observe_config ::
  "('n, 'v) sdk \<Rightarrow> ('v, 's) record_store_ops \<Rightarrow> 'n native_option list \<Rightarrow> (unit, 'n, 'v, 's) recording" where
  "observe_config D S options =
     with_state (\<lambda>(_, R).
       let report = observed_report D options in
         if report = rec_last_configuration R then give ()
         else
           and_then (on_recorder (\<lambda>R. R\<lparr>rec_last_configuration := report\<rparr>)) (\<lambda>_.
           and_then (recorder_insert S
               (PExtension ''agent_bridge'' ''configuration_report'' (report_json (sdk_json D) report))
               (ra_agent (rec_actors R)) None None Complete) (\<lambda>_. give ())))"

fun message_chunk :: "('n, 'v) acp_event \<Rightarrow> bool" where
  "message_chunk (Update (AgentMessageChunk _)) = True"
| "message_chunk (Update (AgentThoughtChunk _)) = True"
| "message_chunk _ = False"

definition observe_event ::
  "('n, 'v) sdk \<Rightarrow> ('v, 's) record_store_ops \<Rightarrow> ('n, 'v) acp_event \<Rightarrow> (unit, 'n, 'v, 's) recording" where
  "observe_event D S event =
     (case event of
        Update u \<Rightarrow>
          (case u of
             AgentMessageChunk chunk \<Rightarrow> recorder_message D S Agent chunk
           | AgentThoughtChunk chunk \<Rightarrow> recorder_message D S Reasoning chunk
           | ToolCallUpdated call \<Rightarrow> recorder_tool D S call
           | ToolCallFields update \<Rightarrow> recorder_tool_update D S update
           | ConfigOptionUpdate options \<Rightarrow> observe_config D S options
           | OtherUpdate _ \<Rightarrow>
               and_then (lift_result (serde (sdk_other D u))) (\<lambda>data.
                 recorder_extension S ''session_update'' data))
      | PermissionEvent i request \<Rightarrow> observe_permission D S i request
      | PermissionResolved i outcome delivery \<Rightarrow> observe_resolved S i outcome delivery
      | Finished reason \<Rightarrow> observe_finished D S reason)"

definition recorder_observe ::
  "('n, 'v) sdk \<Rightarrow> ('v, 's) record_store_ops \<Rightarrow> ('n, 'v) acp_event \<Rightarrow> (unit, 'n, 'v, 's) recording" where
  "recorder_observe D S event =
     with_state (\<lambda>(_, R).
       if rec_finished R then fail_with RecClosed
       else
         and_then
           (if message_chunk event then give () else on_recorder (\<lambda>R. R\<lparr>rec_anonymous := None\<rparr>)) (\<lambda>_.
           observe_event D S event))"

text \<open>\<open>snapshot\<close>: the live payloads with the stored identity and revision.\<close>

definition recorder_snapshot :: "('n, 'v) recorder \<Rightarrow> 'v snapshot list" where
  "recorder_snapshot R =
     map (\<lambda>w. (wk_stored w)\<lparr>sn_record := (sn_record (wk_stored w))\<lparr>r_payload := wk_payload w\<rparr>\<rparr>)
       (rec_records R)"

end
