(* ===== verification/Acp_Recorded.thy ===== *)
theory Acp_Recorded imports Acp_Recorder Structured begin

section \<open>Recorded runs (src/acp/recording.rs, src/acp.rs)\<close>

text \<open>
  A run and its recorder behind one handle. \<open>sent\<close> and \<open>link\<close> are as for the run; the
  store is threaded through the operations that write to it.
\<close>

subsection \<open>The text of an error\<close>

definition acp_error_text :: "(store_error \<Rightarrow> string) \<Rightarrow> acp_error \<Rightarrow> string" where
  "acp_error_text store_text e =
     (case e of
        InitializationTimedOut \<Rightarrow> ''ACP initialization timed out''
      | ClosedBeforeInitialization \<Rightarrow> ''ACP closed before initialization''
      | UnsupportedProtocolVersion \<Rightarrow> ''agent did not negotiate ACP v1''
      | ShutdownTimedOut \<Rightarrow> ''ACP shutdown timed out''
      | RequestTimedOut \<Rightarrow> ''ACP session setup timed out; no retry was attempted''
      | AcpClosed \<Rightarrow> ''ACP connection closed; execution outcome may be unknown''
      | InvalidWorkingDirectory \<Rightarrow> ''ACP requires an absolute working directory''
      | InvalidMcpCommand \<Rightarrow> ''ACP requires an absolute MCP executable path''
      | UnsupportedMcpTransport \<Rightarrow> ''agent does not advertise the requested MCP transport''
      | EmptyPrompt \<Rightarrow> ''prompt cannot be blank''
      | SessionUnavailable \<Rightarrow> ''session is active, retired, or returned a duplicate provider ID''
      | InvalidPermission \<Rightarrow> ''permission is resolved, unknown, or the option was not offered''
      | EventBufferFull \<Rightarrow> ''ACP event buffer filled; this run cannot be consumed reliably''
      | ResumeUnsupported \<Rightarrow> ''agent does not advertise native session resume''
      | ContinuationScopeRequired \<Rightarrow> ''set a nonempty continuation scope for this provider connection''
      | IncompatibleContinuation \<Rightarrow>
          ''continuation is incompatible with this scope, adapter, or agent version''
      | UnsafeHandoff \<Rightarrow> ''session has unfinished or uncertain work and cannot be handed off''
      | ConfigurationUnsupported \<Rightarrow> ''provider did not expose session configuration options''
      | UnknownConfigurationOption \<Rightarrow> ''configuration option was not offered by the provider''
      | InvalidConfigurationValue \<Rightarrow> ''value has the wrong type or was not offered for this option''
      | InvalidConfiguration \<Rightarrow> ''provider returned an invalid configuration catalog''
      | ConfigurationUncertain \<Rightarrow>
          ''configuration is pending or uncertain; wait for a report or reconnect''
      | ConfigurationRejected \<Rightarrow> ''provider did not confirm the requested option value''
      | ConfigurationChanged \<Rightarrow>
          ''configuration changed before dispatch; choose a new run ID and retry explicitly''
      | ModelSelectorUnavailable \<Rightarrow>
          ''provider does not expose exactly one model selector; use an explicit option ID''
      | AcpStore error \<Rightarrow> store_text error
      | Protocol error \<Rightarrow> ''ACP connection failed: '' @ error
      | AcpTask error \<Rightarrow> ''ACP connection task failed: '' @ error)"

subsection \<open>The handle\<close>

record ('n, 'v) recorded_run =
  rr_inner :: "('n, 'v) acp_run"
  rr_recorder :: "('n, 'v) recorder"
  rr_failed :: bool

definition recorded_new :: "('n, 'v) acp_run \<Rightarrow> ('n, 'v) recorder \<Rightarrow> ('n, 'v) recorded_run" where
  "recorded_new inner R = \<lparr>rr_inner = inner, rr_recorder = R, rr_failed = False\<rparr>"

definition recorded_snapshot :: "('n, 'v) recorded_run \<Rightarrow> 'v snapshot list" where
  "recorded_snapshot r = recorder_snapshot (rr_recorder r)"

text \<open>\<open>next\<close> as a poll, like \<open>acp_next\<close>.\<close>

definition recorded_next ::
  "('n, 'v) sdk \<Rightarrow> ('v, 's) record_store_ops \<Rightarrow> (pending_map \<Rightarrow> pending_map) \<Rightarrow> (nat \<Rightarrow> string option) \<Rightarrow>
   string option \<Rightarrow> bool \<Rightarrow> 's \<times> ('n, 'v) recorded_run \<Rightarrow>
   (('n, 'v) acp_event option, recording_error) result option \<times> 's \<times> ('n, 'v) recorded_run" where
  "recorded_next D S ord link sent closed st =
     (case st of (s, r) \<Rightarrow>
        if rr_failed r then (Some (Err RecClosed), s, r)
        else
          (case acp_next ord link closed (rr_inner r) of
             (None, inner) \<Rightarrow> (None, s, r\<lparr>rr_inner := inner\<rparr>)
           | (Some Panic, inner) \<Rightarrow> (Some Panic, s, r\<lparr>rr_inner := inner\<rparr>)
           | (Some (Err error), inner) \<Rightarrow>
               (case recorder_interrupt D S (acp_error_text (sdk_store_text D) error) (s, rr_recorder r) of
                  (x, s, R) \<Rightarrow>
                    (Some (case x of Ok _ \<Rightarrow> Err (RecAgent error) | Err e \<Rightarrow> Err e | Panic \<Rightarrow> Panic),
                     s, \<lparr>rr_inner = inner, rr_recorder = R, rr_failed = True\<rparr>))
           | (Some (Ok None), inner) \<Rightarrow> (Some (Ok None), s, r\<lparr>rr_inner := inner\<rparr>)
           | (Some (Ok (Some event)), inner) \<Rightarrow>
               (case recorder_observe D S event (s, rr_recorder r) of
                  (Ok _, s, R) \<Rightarrow>
                    (Some (Ok (Some event)), s, r\<lparr>rr_inner := inner, rr_recorder := R\<rparr>)
                | (Err e, s, R) \<Rightarrow>
                    (Some (Err e), s,
                     \<lparr>rr_inner = snd (acp_cancel ord link sent inner), rr_recorder = R, rr_failed = True\<rparr>)
                | (Panic, s, R) \<Rightarrow> (Some Panic, s, r\<lparr>rr_inner := inner, rr_recorder := R\<rparr>))))"

definition recorded_checkpoint ::
  "('v, 's) record_store_ops \<Rightarrow> (pending_map \<Rightarrow> pending_map) \<Rightarrow> (nat \<Rightarrow> string option) \<Rightarrow> string option \<Rightarrow>
   's \<times> ('n, 'v) recorded_run \<Rightarrow> (unit, recording_error) result \<times> 's \<times> ('n, 'v) recorded_run" where
  "recorded_checkpoint S ord link sent st =
     (case st of (s, r) \<Rightarrow>
        if rr_failed r then (Err RecClosed, s, r)
        else
          (case recorder_checkpoint S (s, rr_recorder r) of
             (Err e, s, R) \<Rightarrow>
               (Err e, s, \<lparr>rr_inner = snd (acp_cancel ord link sent (rr_inner r)), rr_recorder = R,
                           rr_failed = True\<rparr>)
           | (x, s, R) \<Rightarrow> (x, s, r\<lparr>rr_recorder := R\<rparr>)))"

definition option_json :: "'v json \<Rightarrow> string option \<Rightarrow> 'v" where
  "option_json J x = (case x of Some s \<Rightarrow> j_string J s | None \<Rightarrow> j_null J)"

definition recorded_respond ::
  "('n, 'v) sdk \<Rightarrow> ('v, 's) record_store_ops \<Rightarrow> (pending_map \<Rightarrow> pending_map) \<Rightarrow> (nat \<Rightarrow> string option) \<Rightarrow>
   permission_id \<Rightarrow> string option \<Rightarrow> 's \<times> ('n, 'v) recorded_run \<Rightarrow>
   (unit, recording_error) result \<times> 's \<times> ('n, 'v) recorded_run" where
  "recorded_respond D S ord link i opt st =
     (case st of (s, r) \<Rightarrow>
        if rr_failed r then (Err RecClosed, s, r)
        else if \<not> acp_permission_pending i (rr_inner r) then (Err (RecAgent InvalidPermission), s, r)
        else
          (case rec_permissions (rr_recorder r) i of
             None \<Rightarrow> (Err MissingPermission, s, r)
           | Some index \<Rightarrow>
               if \<not> index < length (rec_records (rr_recorder r)) then (Panic, s, r)
               else
                 (let request = wk_stored (rec_records (rr_recorder r) ! index) in
                    case r_payload (sn_record request) of
                      PPermission _ options \<Rightarrow>
                        if \<exists>x. opt = Some x \<and> x \<notin> set (map po_id options)
                        then (Err (RecAgent InvalidPermission), s, r)
                        else
                          (case recorder_insert S
                                  (PExtension ''agent_bridge'' ''permission_dispatch''
                                    (versioned_state (sdk_json D) 1 ''dispatch_attempted''
                                      [(''option_id'', option_json (sdk_json D) opt)]))
                                  (ra_host (rec_actors (rr_recorder r))) (Some (r_id (sn_record request)))
                                  None Complete (s, rr_recorder r) of
                             (Ok _, s, R) \<Rightarrow>
                               (case acp_respond ord link i opt (rr_inner r) of
                                  (x, inner) \<Rightarrow>
                                    (map_err RecAgent x, s, r\<lparr>rr_inner := inner, rr_recorder := R\<rparr>))
                           | (Err e, s, R) \<Rightarrow> (Err e, s, r\<lparr>rr_recorder := R\<rparr>)
                           | (Panic, s, R) \<Rightarrow> (Panic, s, r\<lparr>rr_recorder := R\<rparr>))
                    | _ \<Rightarrow> (Panic, s, r))))"

definition recorded_cancel ::
  "(pending_map \<Rightarrow> pending_map) \<Rightarrow> (nat \<Rightarrow> string option) \<Rightarrow> string option \<Rightarrow>
   ('n, 'v) recorded_run \<Rightarrow> (unit, recording_error) result \<times> ('n, 'v) recorded_run" where
  "recorded_cancel ord link sent r =
     (case acp_cancel ord link sent (rr_inner r) of
        (x, inner) \<Rightarrow> (map_err RecAgent x, r\<lparr>rr_inner := inner\<rparr>))"

definition ended_text :: string where
  "ended_text = ''Recording ended before a complete transcript was saved.''"

text \<open>\<open>Drop\<close>: the recorder is interrupted, then the run is dropped.\<close>

definition recorded_drop ::
  "('n, 'v) sdk \<Rightarrow> ('v, 's) record_store_ops \<Rightarrow> (pending_map \<Rightarrow> pending_map) \<Rightarrow> (nat \<Rightarrow> string option) \<Rightarrow>
   string option \<Rightarrow> 's \<times> ('n, 'v) recorded_run \<Rightarrow> (acp_session \<times> ('n, 'v) route) \<times> 's \<times> ('n, 'v) recorder" where
  "recorded_drop D S ord link sent st =
     (case st of (s, r) \<Rightarrow>
        if rec_finished (rr_recorder r) then (acp_drop ord link sent (rr_inner r), s, rr_recorder r)
        else
          (let inner = snd (acp_cancel ord link sent (rr_inner r));
               (s, R) = snd (recorder_interrupt D S ended_text (s, rr_recorder r))
           in (acp_drop ord link sent inner, s, R)))"

subsection \<open>The candidate of a structured result\<close>

definition agent_message :: "'v working \<Rightarrow> bool" where
  "agent_message w = (case wk_payload w of PMessage kind _ \<Rightarrow> kind = Agent | _ \<Rightarrow> False)"

definition content_extension :: "'v working \<Rightarrow> bool" where
  "content_extension w =
     (case wk_payload w of
        PExtension namespace name _ \<Rightarrow> namespace = ''acp'' \<and> name = ''message_content''
      | _ \<Rightarrow> False)"

definition candidate_of :: "'v working list \<Rightarrow> (string, json_rejection) result" where
  "candidate_of records =
     (if \<exists>w \<in> set records. content_extension w then Err NonTextOutput
      else
        (case filter agent_message records of
           [] \<Rightarrow> Err MissingOutput
         | [w] \<Rightarrow>
             if sn_state (wk_stored w) = Complete then
               (case wk_payload w of
                  PMessage _ m \<Rightarrow>
                    (case msg_content m of [Text text] \<Rightarrow> Ok text | _ \<Rightarrow> Err NonTextOutput)
                | _ \<Rightarrow> Panic)
             else Err (Incomplete ''output record is not complete'')
         | _ \<Rightarrow> Err AmbiguousOutput))"

definition candidate_sources :: "'v json \<Rightarrow> 'v working list \<Rightarrow> 'v" where
  "candidate_sources J records =
     j_array J (map (\<lambda>w. j_object J
       [(''id'', j_string J (as_str (r_id (sn_record (wk_stored w))))),
        (''revision'', j_number J (unat (sn_revision (wk_stored w))))])
       (filter agent_message records))"

definition json_candidate ::
  "('n, 'v) sdk \<Rightarrow> ('n, 'v) recorded_run \<Rightarrow> 'v \<times> (string, json_rejection) result" where
  "json_candidate D r =
     (candidate_sources (sdk_json D) (rec_records (rr_recorder r)),
      candidate_of (rec_records (rr_recorder r)))"

definition recorded_result_evidence ::
  "('v, 's) record_store_ops \<Rightarrow> 'v \<Rightarrow> 's \<times> ('n, 'v) recorded_run \<Rightarrow>
   (unit, recording_error) result \<times> 's \<times> ('n, 'v) recorded_run" where
  "recorded_result_evidence S data st =
     (case st of (s, r) \<Rightarrow>
        (case result_evidence S ''result_validation'' data (s, rr_recorder r) of
           (x, s, R) \<Rightarrow> (x, s, r\<lparr>rr_recorder := R\<rparr>)))"

end
