(* ===== verification/Recorder_Proofs.thy ===== *)
theory Recorder_Proofs imports Acp_Recorded begin

section \<open>What a recorder leaves in its store\<close>

text \<open>
  The invariant of a recorder and its store, for any store that meets the contract
  \<open>record_store\<close>. The records of the recorder are in the store under the identifiers
  \<open>own_id\<close>, with the snapshots the recorder holds; no later identifier is taken.
\<close>

subsection \<open>Identifiers\<close>

definition own_id :: "'c run_spec \<Rightarrow> nat \<Rightarrow> record_id" where
  "own_id spec n = Ident (record_text (as_str (rs_id spec)) n)"

lemma record_text_inj: "record_text run n = record_text run' n' \<longleftrightarrow> run = run' \<and> n = n'"
proof
  assume "record_text run n = record_text run' n'"
  then have "sized run @ (''/record/'' @ decimal n) = sized run' @ (''/record/'' @ decimal n')"
    by (simp add: record_text_def)
  then show "run = run' \<and> n = n'" by (simp only: sized_append_inj) (simp add: decimal_inj)
qed simp

lemma own_id_inj [simp]: "own_id spec n = own_id spec n' \<longleftrightarrow> n = n'"
  by (simp add: own_id_def record_text_inj)

lemma decimal_last: "decimal n \<noteq> [] \<and> plain_char (last (decimal n))"
proof -
  have ne: "decimal n \<noteq> []" by (subst decimal.simps) simp
  moreover have "is_digit (last (decimal n))"
    using decimal_digits [of n] ne by (simp add: list_all_iff)
  ultimately show ?thesis by (simp add: is_digit_def plain_char_def)
qed

lemma record_text_not_blank: "\<not> blank (record_text run n)"
proof (rule not_blank_plain)
  show "plain_char (hd (record_text run n))" by (simp add: record_text_def plain_char_def)
  show "plain_char (last (record_text run n))" using decimal_last [of n] by (simp add: record_text_def)
  show "record_text run n \<noteq> []" by (simp add: record_text_def)
qed

lemma recorder_draft_Ok:
  "recorder_draft R payload actor reply source state =
     Ok \<lparr>d_id = own_id (rec_spec R) (length (rec_records R)), d_session = rs_session (rec_spec R),
         d_run = Some (rs_id (rec_spec R)), d_actor = actor, d_reply = reply, d_source = source,
         d_payload = payload, d_state = state\<rparr>"
  by (simp add: recorder_draft_def id_new_def record_text_not_blank own_id_def)

subsection \<open>The invariant\<close>

text \<open>A working payload that the rules for checkpoints accept over the stored one.\<close>

definition same_shape :: "'v payload \<Rightarrow> 'v payload \<Rightarrow> bool" where
  "same_shape p q \<longleftrightarrow>
     payload_tag p = payload_tag q \<and> \<not> message_kind_changes p q \<and> (is_request q \<longrightarrow> p = q)"

lemma same_shape_refl [simp]: "same_shape p p"
  by (cases p) (simp_all add: same_shape_def message_kind_changes_def)

lemma same_shape_trans: "same_shape p q \<Longrightarrow> same_shape q r \<Longrightarrow> same_shape p r"
  using payload_tag_is_request by (cases p; cases q; cases r) (auto simp: same_shape_def message_kind_changes_def is_request_def)

definition working_ok :: "('v, 's) record_store_ops \<Rightarrow> 's \<Rightarrow> record_id \<Rightarrow> 'v working \<Rightarrow> bool" where
  "working_ok S s i w \<longleftrightarrow>
     op_get S i s = Ok (wk_stored w) \<and> r_id (sn_record (wk_stored w)) = i \<and>
     same_shape (r_payload (sn_record (wk_stored w))) (wk_payload w) \<and>
     (is_final (sn_state (wk_stored w)) \<or> \<not> wk_dirty w \<longrightarrow> r_payload (sn_record (wk_stored w)) = wk_payload w)"

definition sound ::
  "('v, 's) record_store_ops \<Rightarrow> ('s \<Rightarrow> bool) \<Rightarrow> run_configuration run_spec \<Rightarrow> 's \<times> ('n, 'v) recorder \<Rightarrow> bool" where
  "sound S keep spec st \<longleftrightarrow>
     (case st of (s, R) \<Rightarrow>
        keep s \<and> rec_spec R = spec \<and>
        (\<forall>n < length (rec_records R). working_ok S s (own_id spec n) (rec_records R ! n)) \<and>
        (\<forall>n \<ge> length (rec_records R). op_get S (own_id spec n) s = Err MissingRecord) \<and>
        (rec_finished R \<longrightarrow> (\<forall>w \<in> set (rec_records R). is_final (sn_state (wk_stored w)))))"

text \<open>What the working record made from a draft looks like.\<close>

definition made ::
  "'v payload \<Rightarrow> record_id option \<Rightarrow> source_ref option \<Rightarrow> record_state \<Rightarrow> 'v working \<Rightarrow> bool" where
  "made payload reply source state w \<longleftrightarrow>
     wk_payload w = payload \<and> \<not> wk_dirty w \<and> r_payload (sn_record (wk_stored w)) = payload \<and>
     r_reply (sn_record (wk_stored w)) = reply \<and> sn_source (wk_stored w) = source \<and>
     sn_state (wk_stored w) = state"

abbreviation add_record :: "('n, 'v) recorder \<Rightarrow> 'v working \<Rightarrow> ('n, 'v) recorder" where
  "add_record R w \<equiv> R\<lparr>rec_records := rec_records R @ [w]\<rparr>"

text \<open>Only the fields it reads matter to \<open>sound\<close>.\<close>

lemma sound_cong:
  assumes "rec_spec R' = rec_spec R" and "rec_records R' = rec_records R" and "rec_finished R' = rec_finished R"
  shows "sound S keep spec (s, R') \<longleftrightarrow> sound S keep spec (s, R)"
  using assms by (simp add: sound_def)

context record_store begin

lemma insert_step:
  assumes "sound S inv spec (s, R)" and "rec_finished R \<longrightarrow> state \<noteq> Open"
    and "recorder_insert S payload actor reply source state (s, R) = (x, st)"
  obtains (ok) w s' where "x = Ok (length (rec_records R))" "st = (s', add_record R w)"
      "sound S inv spec (s', add_record R w)" "made payload reply source state w"
      "r_actor (sn_record (wk_stored w)) = actor"
    | (err) e where "x = Err e" "st = (s, R)"
proof -
  let ?i = "own_id spec (length (rec_records R))"
  let ?d = "\<lparr>d_id = ?i, d_session = rs_session spec,
      d_run = Some (rs_id spec), d_actor = actor, d_reply = reply, d_source = source,
      d_payload = payload, d_state = state\<rparr>"
  have I: "inv s" "rec_spec R = spec" "op_get S ?i s = Err MissingRecord"
    using assms(1) by (auto simp: sound_def)
  obtain y s' where app: "op_insert S ?d s = (y, s')" by force
  have run: "recorder_insert S payload actor reply source state (s, R) =
      (case y of
         Ok stored \<Rightarrow> (Ok (length (rec_records R)),
           (s', add_record R \<lparr>wk_stored = stored, wk_payload = payload, wk_dirty = False\<rparr>))
       | Err e \<Rightarrow> (Err (RecStore e), (s', R))
       | Panic \<Rightarrow> (Panic, (s', R)))"
    using I(2) app
    by (simp add: recorder_insert_def recorder_draft_Ok and_then_def on_store_def on_recorder_def split: result.splits)
  show thesis
  proof (cases y)
    case (Ok stored)
    let ?w = "\<lparr>wk_stored = stored, wk_payload = payload, wk_dirty = False\<rparr>"
    have get: "op_get S ?i s' = Ok stored" and new: "same_draft stored ?d"
      using insert_Ok [OF I(1) app [unfolded Ok]] insert_fresh [OF I(1) app [unfolded Ok]] I(3) by simp_all
    have frame: "op_get S i s' = op_get S i s" if "i \<noteq> ?i" for i
      using insert_frame [OF I(1), of i ?d] that app by simp
    have inv': "inv s'" using inv_exec [OF I(1), of "Insert ?d"] app by (simp add: store_exec_def)
    have "sound S inv spec (s', add_record R ?w)"
      using assms(1,2) inv' get new frame
      by (auto simp: sound_def working_ok_def nth_append less_Suc_eq same_draft_def Let_def is_final_def)
    moreover have "made payload reply source state ?w" "r_actor (sn_record (wk_stored ?w)) = actor"
      using new by (simp_all add: made_def same_draft_def Let_def)
    ultimately show thesis using run Ok assms(3) by (intro ok [of s' ?w]) simp_all
  next
    case (Err e)
    with insert_Err [OF I(1)] app have "s' = s" by blast
    with run Err assms(3) show thesis by (intro err) simp_all
  next
    case Panic
    with no_panic [OF I(1), of ?d] app show thesis by simp
  qed
qed

lemma insert_triple:
  assumes "sound S inv spec (s, R)" and "rec_finished R \<longrightarrow> state \<noteq> Open"
  shows "triple ((=) (s, R)) (recorder_insert S payload actor reply source state)
    (\<lambda>n st. \<exists>s' w. n = length (rec_records R) \<and> st = (s', add_record R w) \<and> sound S inv spec st \<and>
       made payload reply source state w \<and> r_actor (sn_record (wk_stored w)) = actor)
    (\<lambda>st. st = (s, R))"
proof -
  obtain x st where run: "recorder_insert S payload actor reply source state (s, R) = (x, st)"
    using prod.exhaust by blast
  show ?thesis
    using assms run by (cases rule: insert_step [OF assms run]) (auto simp: triple_def)
qed

end

subsection \<open>The loops\<close>

text \<open>A working record after a loop: the payload and the attribution stay.\<close>

definition same_work :: "'v working \<Rightarrow> 'v working \<Rightarrow> bool" where
  "same_work w w' \<longleftrightarrow>
     wk_payload w' = wk_payload w \<and> sn_source (wk_stored w') = sn_source (wk_stored w) \<and>
     r_id (sn_record (wk_stored w')) = r_id (sn_record (wk_stored w)) \<and>
     r_reply (sn_record (wk_stored w')) = r_reply (sn_record (wk_stored w)) \<and>
     r_actor (sn_record (wk_stored w')) = r_actor (sn_record (wk_stored w)) \<and>
     (wk_dirty w' \<longrightarrow> wk_dirty w) \<and>
     (is_final (sn_state (wk_stored w)) \<longrightarrow> w' = w)"

lemma same_work_refl [simp]: "same_work w w"
  by (simp add: same_work_def)

definition final_state :: "bool \<Rightarrow> 'v working \<Rightarrow> record_state" where
  "final_state complete w =
     (if is_final (sn_state (wk_stored w)) then sn_state (wk_stored w)
      else if record_complete complete (wk_payload w) then Complete else Interrupted)"

lemma final_state_final [simp]: "is_final (final_state complete w)"
  by (simp add: final_state_def is_final_def)

abbreviation settle :: "'v working \<Rightarrow> 'v snapshot \<Rightarrow> 'v working" where
  "settle w stored \<equiv> w\<lparr>wk_stored := stored, wk_dirty := False\<rparr>"

text \<open>What a loop establishes over the identifiers of its records.\<close>

definition loop_post ::
  "('v, 's) record_store_ops \<Rightarrow> ('s \<Rightarrow> bool) \<Rightarrow> record_id list \<Rightarrow> 'v working list \<Rightarrow> 's \<Rightarrow>
   (unit, recording_error) result \<times> 's \<times> 'v working list \<Rightarrow> bool" where
  "loop_post S keep is ws s res \<longleftrightarrow>
     (case res of (x, s', ws') \<Rightarrow>
        x \<noteq> Panic \<and> keep s' \<and> list_all2 (working_ok S s') is ws' \<and>
        (\<forall>i. i \<notin> set is \<longrightarrow> op_get S i s' = op_get S i s) \<and> list_all2 same_work ws ws')"

context record_store begin

lemma working_step:
  assumes "inv s" and "working_ok S s i w"
    and "op_checkpoint S (r_id (sn_record (wk_stored w))) (sn_revision (wk_stored w)) (wk_payload w) next s = (y, s')"
  obtains (ok) stored where "y = Ok stored" "inv s'" "working_ok S s' i (settle w stored)"
      "\<And>j. j \<noteq> i \<Longrightarrow> op_get S j s' = op_get S j s" "sn_state stored = next"
      "\<not> is_final (sn_state (wk_stored w)) \<Longrightarrow> same_work w (settle w stored)"
    | (err) e where "y = Err e" "s' = s"
proof (cases y)
  case (Ok stored)
  have i: "r_id (sn_record (wk_stored w)) = i" "op_get S i s = Ok (wk_stored w)"
    using assms(2) by (simp_all add: working_ok_def)
  from checkpoint_Ok [OF assms(1) assms(3) [unfolded Ok i]] i(2)
  have rules: "rules_checkpoint (wk_stored w) (sn_revision (wk_stored w)) (wk_payload w) next = Ok stored"
    and get: "op_get S i s' = Ok stored" by auto
  note result = rules_checkpoint_result [OF rules] rules_checkpoint_identity [OF rules]
  have "inv s'"
    using inv_exec [OF assms(1), of "Checkpoint i (sn_revision (wk_stored w)) (wk_payload w) next"] assms(3) i(1)
    by (simp add: store_exec_def)
  moreover have "working_ok S s' i (settle w stored)"
    using get result i(1) by (simp add: working_ok_def same_identity_def)
  moreover have "op_get S j s' = op_get S j s" if "j \<noteq> i" for j
    using checkpoint_frame [OF assms(1) that, of "sn_revision (wk_stored w)" "wk_payload w" "next"] assms(3) i(1)
    by simp
  moreover have "same_work w (settle w stored)" if "\<not> is_final (sn_state (wk_stored w))"
    using result that by (simp add: same_work_def same_identity_def)
  ultimately show thesis using Ok result by (intro ok) simp_all
next
  case (Err e)
  with checkpoint_Err [OF assms(1)] assms(3) show thesis by (intro err) simp_all
next
  case Panic
  with no_panic [OF assms(1)] assms(3) show thesis by (metis fst_conv)
qed

text \<open>One step of a loop in front of the rest.\<close>

lemma loop_cons:
  assumes "loop_post S inv is ws s1 (x, s', ws')" and "distinct (i # is)" and "working_ok S s1 i w'"
    and "same_work w w'" and "\<And>j. j \<noteq> i \<Longrightarrow> op_get S j s1 = op_get S j s"
  shows "loop_post S inv (i # is) (w # ws) s (x, s', w' # ws')"
  using assms by (auto simp: loop_post_def working_ok_def)

lemma loop_stop:
  "inv s \<Longrightarrow> list_all2 (working_ok S s) is ws \<Longrightarrow> loop_post S inv is ws s (Err e, s, ws)"
  "inv s \<Longrightarrow> loop_post S inv [] [] s (Ok (), s, [])"
  by (simp_all add: loop_post_def list.rel_refl)

lemma rest_ok:
  assumes "list_all2 (working_ok S s) is ws" and "i \<notin> set is"
    and "\<And>j. j \<noteq> i \<Longrightarrow> op_get S j s' = op_get S j s"
  shows "list_all2 (working_ok S s') is ws"
proof -
  have "\<forall>j \<in> set is. op_get S j s' = op_get S j s" using assms(2,3) by metis
  with assms(1) show ?thesis by (elim list.rel_mono_strong) (simp add: working_ok_def)
qed

lemma checkpoint_loop:
  assumes "inv s" and "list_all2 (working_ok S s) is ws" and "distinct is"
  shows "loop_post S inv is ws s (checkpoint_records S ws s) \<and>
    list_all2 (\<lambda>w w'. sn_state (wk_stored w') = sn_state (wk_stored w)) ws (snd (snd (checkpoint_records S ws s)))"
  using assms
proof (induction ws arbitrary: s "is")
  case Nil
  then show ?case by (simp add: loop_stop)
next
  case (Cons w ws)
  then obtain i js where "is": "is = i # js" and w: "working_ok S s i w"
      and ws: "list_all2 (working_ok S s) js ws" and d: "distinct (i # js)"
    by (cases "is") auto
  show ?case
  proof (cases "wk_dirty w \<and> \<not> is_final (sn_state (wk_stored w))")
    case True
    obtain y s1 where app: "op_checkpoint S (r_id (sn_record (wk_stored w))) (sn_revision (wk_stored w))
        (wk_payload w) Open s = (y, s1)" by force
    show ?thesis
      using Cons.prems(1) w app
    proof (cases rule: working_step)
      case (ok stored)
      have js: "list_all2 (working_ok S s1) js ws" by (rule rest_ok [OF ws]) (use d ok(4) in auto)
      obtain x s2 ws2 where rest: "checkpoint_records S ws s1 = (x, s2, ws2)" using prod.exhaust by metis
      have IH: "loop_post S inv js ws s1 (x, s2, ws2)"
          "list_all2 (\<lambda>w w'. sn_state (wk_stored w') = sn_state (wk_stored w)) ws ws2"
        using Cons.IH [OF ok(2) js] d rest by simp_all
      from loop_cons [OF IH(1) d ok(3) ok(6) ok(4)] IH(2) ok(5) True show ?thesis
        by (simp add: "is" True app ok(1) rest is_final_def)
    next
      case (err e)
      then show ?thesis using True app Cons.prems by (simp add: loop_stop list.rel_refl)
    qed
  next
    case False
    obtain x s2 ws2 where rest: "checkpoint_records S ws s = (x, s2, ws2)" using prod.exhaust by metis
    have IH: "loop_post S inv js ws s (x, s2, ws2)"
        "list_all2 (\<lambda>w w'. sn_state (wk_stored w') = sn_state (wk_stored w)) ws ws2"
      using Cons.IH [OF Cons.prems(1) ws] d rest by simp_all
    from loop_cons [OF IH(1) d w same_work_refl] IH(2) show ?thesis using False by (auto simp: "is" rest)
  qed
qed

lemma finish_loop:
  assumes "inv s" and "list_all2 (working_ok S s) is ws" and "distinct is"
  shows "loop_post S inv is ws s (finish_records S complete ws s) \<and>
    (fst (finish_records S complete ws s) = Ok () \<longrightarrow>
       list_all2 (\<lambda>w w'. sn_state (wk_stored w') = final_state complete w) ws (snd (snd (finish_records S complete ws s))))"
  using assms
proof (induction ws arbitrary: s "is")
  case Nil
  then show ?case by (simp add: loop_stop)
next
  case (Cons w ws)
  then obtain i js where "is": "is = i # js" and w: "working_ok S s i w"
      and ws: "list_all2 (working_ok S s) js ws" and d: "distinct (i # js)"
    by (cases "is") auto
  show ?case
  proof (cases "is_final (sn_state (wk_stored w))")
    case False
    obtain y s1 where app: "op_checkpoint S (r_id (sn_record (wk_stored w))) (sn_revision (wk_stored w))
        (wk_payload w) (if record_complete complete (wk_payload w) then Complete else Interrupted) s = (y, s1)"
      by force
    show ?thesis
      using Cons.prems(1) w app
    proof (cases rule: working_step)
      case (ok stored)
      have js: "list_all2 (working_ok S s1) js ws" by (rule rest_ok [OF ws]) (use d ok(4) in auto)
      obtain x s2 ws2 where rest: "finish_records S complete ws s1 = (x, s2, ws2)" using prod.exhaust by metis
      have IH: "loop_post S inv js ws s1 (x, s2, ws2)" "x = Ok () \<longrightarrow>
          list_all2 (\<lambda>w w'. sn_state (wk_stored w') = final_state complete w) ws ws2"
        using Cons.IH [OF ok(2) js] d rest by simp_all
      from loop_cons [OF IH(1) d ok(3) ok(6) ok(4)] IH(2) ok(5) False show ?thesis
        by (simp add: "is" app ok(1) rest final_state_def)
    next
      case (err e)
      then show ?thesis using False app Cons.prems by (simp add: loop_stop)
    qed
  next
    case True
    obtain x s2 ws2 where rest: "finish_records S complete ws s = (x, s2, ws2)" using prod.exhaust by metis
    have IH: "loop_post S inv js ws s (x, s2, ws2)" "x = Ok () \<longrightarrow>
        list_all2 (\<lambda>w w'. sn_state (wk_stored w') = final_state complete w) ws ws2"
      using Cons.IH [OF Cons.prems(1) ws] d rest by simp_all
    from loop_cons [OF IH(1) d w same_work_refl] IH(2) show ?thesis
      using True by (auto simp: "is" rest final_state_def)
  qed
qed

text \<open>\<open>sound\<close> in the form the loops use.\<close>

lemma sound_matched:
  "sound S inv spec (s, R) \<longleftrightarrow>
     inv s \<and> rec_spec R = spec \<and>
     list_all2 (working_ok S s) (map (own_id spec) [0..<length (rec_records R)]) (rec_records R) \<and>
     (\<forall>n \<ge> length (rec_records R). op_get S (own_id spec n) s = Err MissingRecord) \<and>
     (rec_finished R \<longrightarrow> (\<forall>w \<in> set (rec_records R). is_final (sn_state (wk_stored w))))"
  by (auto simp: sound_def list_all2_conv_all_nth)

lemma loop_sound:
  assumes "sound S inv spec (s, R)"
    and "loop_post S inv (map (own_id spec) [0..<length (rec_records R)]) (rec_records R) s (x, s', ws)"
  shows "sound S inv spec (s', R\<lparr>rec_records := ws\<rparr>)"
proof -
  have len: "length ws = length (rec_records R)" and same: "list_all2 same_work (rec_records R) ws"
    using assms(2) list_all2_lengthD by (force simp: loop_post_def)+
  have "op_get S (own_id spec n) s' = op_get S (own_id spec n) s" if "n \<ge> length (rec_records R)" for n
  proof -
    have "own_id spec n \<notin> set (map (own_id spec) [0..<length (rec_records R)])" using that by auto
    with assms(2) show ?thesis by (simp add: loop_post_def)
  qed
  moreover have "is_final (sn_state (wk_stored w'))" if "rec_finished R" "w' \<in> set ws" for w'
  proof -
    from that(2) obtain n where n: "n < length ws" "w' = ws ! n" by (auto simp: in_set_conv_nth)
    then have "same_work (rec_records R ! n) w'" using same by (simp add: list_all2_conv_all_nth)
    moreover have "is_final (sn_state (wk_stored (rec_records R ! n)))"
      using assms(1) that(1) n(1) len by (simp add: sound_def)
    ultimately show ?thesis by (simp add: same_work_def)
  qed
  ultimately show ?thesis
    using assms len by (auto simp: sound_matched loop_post_def)
qed

end

end
