(* ===== verification/Recorder_Events.thy ===== *)
theory Recorder_Events imports Recorder_Proofs begin

section \<open>What observing events records\<close>

text \<open>
  Beyond soundness: which text every provider message has in the working records
  (\<open>contents\<close>), and that the records events still write to are open (\<open>handles\<close>).
\<close>

subsection \<open>Texts of messages\<close>

type_synonym texts = "message_kind \<Rightarrow> string \<Rightarrow> string option"

fun chunk_of :: "('n, 'v) acp_event \<Rightarrow> (message_kind \<times> 'n content_chunk) option" where
  "chunk_of (Update (AgentMessageChunk chunk)) = Some (Agent, chunk)"
| "chunk_of (Update (AgentThoughtChunk chunk)) = Some (Reasoning, chunk)"
| "chunk_of _ = None"

text \<open>The text an event adds to the message \<open>(kind, i)\<close>.\<close>

definition chunk_text :: "message_kind \<Rightarrow> string \<Rightarrow> ('n, 'v) acp_event \<Rightarrow> string list" where
  "chunk_text kind i e =
     (case chunk_of e of
        Some (k, chunk) \<Rightarrow>
          (case ch_content chunk of
             TextBlock text \<Rightarrow> if k = kind \<and> ch_message_id chunk = Some i then [text] else []
           | OtherBlock _ \<Rightarrow> [])
      | None \<Rightarrow> [])"

definition message_text :: "('n, 'v) acp_event list \<Rightarrow> texts" where
  "message_text es kind i =
     (let ts = concat (map (chunk_text kind i) es) in if ts = [] then None else Some (concat ts))"

definition put_text :: "message_kind \<Rightarrow> string option \<Rightarrow> string \<Rightarrow> texts \<Rightarrow> texts" where
  "put_text kind native text T =
     (\<lambda>k i. if k = kind \<and> native = Some i then Some text else T k i)"

definition text_so_far :: "message_kind \<Rightarrow> string option \<Rightarrow> texts \<Rightarrow> string" where
  "text_so_far kind native T =
     (case native of None \<Rightarrow> '''' | Some i \<Rightarrow> (case T kind i of Some t \<Rightarrow> t | None \<Rightarrow> ''''))"

definition next_texts :: "('n, 'v) acp_event \<Rightarrow> texts \<Rightarrow> texts" where
  "next_texts e T =
     (case chunk_of e of
        Some (kind, chunk) \<Rightarrow>
          (case ch_content chunk of
             TextBlock text \<Rightarrow>
               put_text kind (ch_message_id chunk) (text_so_far kind (ch_message_id chunk) T @ text) T
           | OtherBlock _ \<Rightarrow> T)
      | None \<Rightarrow> T)"

lemma message_text_snoc: "message_text (es @ [e]) = next_texts e (message_text es)"
proof (intro ext)
  fix kind i
  define ts where "ts = concat (map (chunk_text kind i) es)"
  have before: "message_text es kind i = (if ts = [] then None else Some (concat ts))"
    by (simp add: message_text_def ts_def Let_def)
  have after: "message_text (es @ [e]) kind i =
      (let ts' = ts @ chunk_text kind i e in if ts' = [] then None else Some (concat ts'))"
    by (simp add: message_text_def ts_def)
  show "message_text (es @ [e]) kind i = next_texts e (message_text es) kind i"
  proof (cases "chunk_of e")
    case None
    then show ?thesis by (simp add: before after next_texts_def chunk_text_def)
  next
    case (Some p)
    obtain k chunk where p: "p = (k, chunk)" by force
    show ?thesis
      by (cases "ch_content chunk"; cases "ch_message_id chunk"; cases "k = kind")
        (auto simp: before after next_texts_def chunk_text_def Some p put_text_def text_so_far_def)
  qed
qed

lemma next_texts_other: "chunk_of e = None \<Longrightarrow> next_texts e T = T"
  by (simp add: next_texts_def)

lemma acp_source_inj [simp]: "acp_source i = acp_source j \<longleftrightarrow> i = j"
  by (simp add: acp_source_def)

subsection \<open>Contents and handles\<close>

abbreviation text_message :: "message_kind \<Rightarrow> string \<Rightarrow> 'v payload" where
  "text_message kind text \<equiv> PMessage kind \<lparr>msg_content = [Text text]\<rparr>"

definition message_slot ::
  "('n, 'v) recorder \<Rightarrow> nat \<Rightarrow> message_kind \<Rightarrow> string option \<Rightarrow> string \<Rightarrow> bool" where
  "message_slot R n kind native text \<longleftrightarrow>
     n < length (rec_records R) \<and> wk_payload (rec_records R ! n) = text_message kind text \<and>
     sn_source (wk_stored (rec_records R ! n)) = map_option acp_source native"

definition slot_open :: "('n, 'v) recorder \<Rightarrow> nat \<Rightarrow> bool" where
  "slot_open R n \<longleftrightarrow> n < length (rec_records R) \<and> sn_state (wk_stored (rec_records R ! n)) = Open"

definition contents :: "texts \<Rightarrow> ('n, 'v) recorder \<Rightarrow> bool" where
  "contents T R \<longleftrightarrow>
     (\<forall>kind i. T kind i = None \<longrightarrow> rec_messages R (kind, i) = None) \<and>
     (\<forall>kind i text. T kind i = Some text \<longrightarrow>
        (\<exists>n. rec_messages R (kind, i) = Some n \<and> message_slot R n kind (Some i) text)) \<and>
     (\<forall>n kind i m. n < length (rec_records R) \<longrightarrow> wk_payload (rec_records R ! n) = PMessage kind m \<longrightarrow>
        sn_source (wk_stored (rec_records R ! n)) = Some (acp_source i) \<longrightarrow> rec_messages R (kind, i) = Some n) \<and>
     (\<forall>i n. rec_permissions R i = Some n \<longrightarrow> n < length (rec_records R) \<and> \<not> wk_dirty (rec_records R ! n) \<and>
        (\<exists>title options. wk_payload (rec_records R ! n) = PPermission title options))"

definition handles :: "('n, 'v) recorder \<Rightarrow> bool" where
  "handles R \<longleftrightarrow>
     (\<forall>key n. rec_messages R key = Some n \<longrightarrow> slot_open R n) \<and>
     (\<forall>kind n. rec_anonymous R = Some (kind, n) \<longrightarrow> slot_open R n \<and> (\<exists>text. message_slot R n kind None text)) \<and>
     (\<forall>i n call. rec_tools R i = Some (n, call) \<longrightarrow>
        slot_open R n \<and> tc_id call = i \<and> (\<exists>tool. wk_payload (rec_records R ! n) = PTool tool))"

definition live ::
  "('v, 's) record_store_ops \<Rightarrow> ('s \<Rightarrow> bool) \<Rightarrow> run_configuration run_spec \<Rightarrow> texts \<Rightarrow> 's \<times> ('n, 'v) recorder \<Rightarrow> bool" where
  "live S keep spec T st \<longleftrightarrow>
     sound S keep spec st \<and> \<not> rec_finished (snd st) \<and> contents T (snd st) \<and> handles (snd st)"

definition over ::
  "('v, 's) record_store_ops \<Rightarrow> ('s \<Rightarrow> bool) \<Rightarrow> run_configuration run_spec \<Rightarrow> texts \<Rightarrow> 's \<times> ('n, 'v) recorder \<Rightarrow> bool" where
  "over S keep spec T st \<longleftrightarrow> sound S keep spec st \<and> rec_finished (snd st) \<and> contents T (snd st)"

lemma contentsD:
  assumes "contents T R"
  shows "T kind i = None \<Longrightarrow> rec_messages R (kind, i) = None"
    and "T kind i = Some t \<Longrightarrow>
      \<exists>n. rec_messages R (kind, i) = Some n \<and> message_slot R n kind (Some i) t"
    and "n < length (rec_records R) \<Longrightarrow> wk_payload (rec_records R ! n) = PMessage kind m \<Longrightarrow>
      sn_source (wk_stored (rec_records R ! n)) = Some (acp_source i) \<Longrightarrow> rec_messages R (kind, i) = Some n"
    and "rec_permissions R j = Some n \<Longrightarrow> n < length (rec_records R) \<and> \<not> wk_dirty (rec_records R ! n) \<and>
      (\<exists>title options. wk_payload (rec_records R ! n) = PPermission title options)"
  using assms unfolding contents_def by blast+

lemma contentsI:
  assumes "\<And>kind i. T kind i = None \<Longrightarrow> rec_messages R (kind, i) = None"
    and "\<And>kind i t. T kind i = Some t \<Longrightarrow>
      \<exists>n. rec_messages R (kind, i) = Some n \<and> message_slot R n kind (Some i) t"
    and "\<And>n kind i m. n < length (rec_records R) \<Longrightarrow> wk_payload (rec_records R ! n) = PMessage kind m \<Longrightarrow>
      sn_source (wk_stored (rec_records R ! n)) = Some (acp_source i) \<Longrightarrow> rec_messages R (kind, i) = Some n"
    and "\<And>i n. rec_permissions R i = Some n \<Longrightarrow> n < length (rec_records R) \<and> \<not> wk_dirty (rec_records R ! n) \<and>
      (\<exists>title options. wk_payload (rec_records R ! n) = PPermission title options)"
  shows "contents T R"
  using assms unfolding contents_def by blast

lemma handlesD:
  assumes "handles R"
  shows "rec_messages R key = Some n \<Longrightarrow> slot_open R n"
    and "rec_anonymous R = Some (kind, n) \<Longrightarrow> slot_open R n \<and> (\<exists>t. message_slot R n kind None t)"
    and "rec_tools R i = Some (n, call) \<Longrightarrow>
      slot_open R n \<and> tc_id call = i \<and> (\<exists>tool. wk_payload (rec_records R ! n) = PTool tool)"
  using assms unfolding handles_def by blast+

lemma handlesI:
  assumes "\<And>key n. rec_messages R key = Some n \<Longrightarrow> slot_open R n"
    and "\<And>kind n. rec_anonymous R = Some (kind, n) \<Longrightarrow> slot_open R n \<and> (\<exists>t. message_slot R n kind None t)"
    and "\<And>i n call. rec_tools R i = Some (n, call) \<Longrightarrow>
      slot_open R n \<and> tc_id call = i \<and> (\<exists>tool. wk_payload (rec_records R ! n) = PTool tool)"
  shows "handles R"
  using assms unfolding handles_def by blast

lemma contents_cong:
  assumes "rec_records R' = rec_records R" and "rec_messages R' = rec_messages R"
    and "rec_permissions R' = rec_permissions R"
  shows "contents T R' \<longleftrightarrow> contents T R"
  using assms by (simp add: contents_def message_slot_def)

lemma handles_cong:
  assumes "rec_records R' = rec_records R" and "rec_messages R' = rec_messages R"
    and "rec_tools R' = rec_tools R" and "rec_anonymous R' = rec_anonymous R"
  shows "handles R' \<longleftrightarrow> handles R"
  using assms by (simp add: handles_def message_slot_def slot_open_def)

lemma handles_anonymous:
  assumes "rec_records R' = rec_records R" and "rec_messages R' = rec_messages R"
    and "rec_tools R' = rec_tools R" and "rec_anonymous R' = rec_anonymous R \<or> rec_anonymous R' = None"
  shows "handles R \<Longrightarrow> handles R'"
  using assms by (auto simp: handles_def message_slot_def slot_open_def)

lemma live_cong:
  assumes "rec_spec R' = rec_spec R" and "rec_records R' = rec_records R" and "rec_finished R' = rec_finished R"
    and "rec_messages R' = rec_messages R" and "rec_permissions R' = rec_permissions R"
    and "rec_tools R' = rec_tools R" and "rec_anonymous R' = rec_anonymous R \<or> rec_anonymous R' = None"
  shows "live S keep spec T (s, R) \<Longrightarrow> live S keep spec T (s, R')"
  using assms(3,6,7) sound_cong [OF assms(1-3), of S keep spec s] contents_cong [OF assms(2,4,5), of T]
    handles_anonymous [OF assms(2,4,6)] unfolding live_def snd_conv by metis

subsection \<open>Appending and editing records\<close>

lemma message_slot_add: "message_slot R n kind native text \<Longrightarrow> message_slot (add_record R w) n kind native text"
  by (auto simp: message_slot_def nth_append)

lemma slot_open_add: "slot_open R n \<Longrightarrow> slot_open (add_record R w) n"
  by (auto simp: slot_open_def nth_append)

text \<open>A record that is not a provider message leaves everything as it is.\<close>

lemma contents_add:
  assumes C: "contents T R" and w: "sn_source (wk_stored w) = None \<or> (\<forall>kind m. wk_payload w \<noteq> PMessage kind m)"
  shows "contents T (add_record R w)"
proof (rule contentsI)
  fix kind i t
  assume "T kind i = Some t"
  from contentsD(2) [OF C this] message_slot_add
  show "\<exists>n. rec_messages (add_record R w) (kind, i) = Some n \<and> message_slot (add_record R w) n kind (Some i) t"
    by fastforce
next
  fix n kind i m
  assume n: "n < length (rec_records (add_record R w))" "wk_payload (rec_records (add_record R w) ! n) = PMessage kind m"
    "sn_source (wk_stored (rec_records (add_record R w) ! n)) = Some (acp_source i)"
  with w have "n < length (rec_records R)" by (auto simp: nth_append less_Suc_eq split: if_splits)
  with n contentsD(3) [OF C] show "rec_messages (add_record R w) (kind, i) = Some n" by (simp add: nth_append)
next
  fix i n
  assume "rec_permissions (add_record R w) i = Some n"
  with contentsD(4) [OF C, of i n]
  show "n < length (rec_records (add_record R w)) \<and> \<not> wk_dirty (rec_records (add_record R w) ! n) \<and>
      (\<exists>title options. wk_payload (rec_records (add_record R w) ! n) = PPermission title options)"
    by (auto simp: nth_append)
qed (use contentsD(1) [OF C] in simp)

lemma handles_add:
  assumes H: "handles R"
  shows "handles (add_record R w)"
proof (rule handlesI)
  fix kind n
  assume "rec_anonymous (add_record R w) = Some (kind, n)"
  with handlesD(2) [OF H, of kind n] slot_open_add message_slot_add
  show "slot_open (add_record R w) n \<and> (\<exists>t. message_slot (add_record R w) n kind None t)" by fastforce
next
  fix i n call
  assume "rec_tools (add_record R w) i = Some (n, call)"
  with handlesD(3) [OF H, of i n call] slot_open_add [of R n w]
  show "slot_open (add_record R w) n \<and> tc_id call = i \<and> (\<exists>tool. wk_payload (rec_records (add_record R w) ! n) = PTool tool)"
    by (auto simp: nth_append slot_open_def)
next
  fix key n
  assume "rec_messages (add_record R w) key = Some n"
  then have "slot_open R n" using handlesD(1) [OF H] by simp
  then show "slot_open (add_record R w) n" by (rule slot_open_add)
qed

lemma live_add:
  assumes "live S keep spec T (s, R)" and "sound S keep spec (s', add_record R w)"
    and "sn_source (wk_stored w) = None \<or> (\<forall>kind m. wk_payload w \<noteq> PMessage kind m)"
  shows "live S keep spec T (s', add_record R w)"
  using assms contents_add [OF _ assms(3), of T R] handles_add [of R w] by (auto simp: live_def)

abbreviation edited :: "nat \<Rightarrow> 'v payload \<Rightarrow> ('n, 'v) recorder \<Rightarrow> ('n, 'v) recorder" where
  "edited n p R \<equiv>
     R\<lparr>rec_records := (rec_records R)[n := (rec_records R ! n)\<lparr>wk_payload := p, wk_dirty := True\<rparr>]\<rparr>"

lemma edit_record_eq:
  "n < length (rec_records R) \<Longrightarrow>
   edit_record n f (s, R) = (Ok (), (s, edited n (f (wk_payload (rec_records R ! n))) R))"
  by (simp add: edit_record_def on_recorder_def)

lemma sound_edit:
  assumes "sound S keep spec (s, R)" and "slot_open R n" and "\<not> rec_finished R"
    and "same_shape (wk_payload (rec_records R ! n)) p"
  shows "sound S keep spec (s, edited n p R)"
  using assms by (auto simp: sound_def working_ok_def slot_open_def is_final_def nth_list_update intro: same_shape_trans)

lemma message_slot_edit:
  "message_slot R m kind native text \<Longrightarrow> m \<noteq> n \<Longrightarrow> message_slot (edited n p R) m kind native text"
  by (simp add: message_slot_def)

lemma slot_open_edit [simp]: "slot_open (edited n p R) m \<longleftrightarrow> slot_open R m"
  by (cases "n = m") (auto simp: slot_open_def)

text \<open>An edit that keeps the kind of a record.\<close>

lemma contents_edit_other:
  assumes C: "contents T R" and n: "\<And>kind m. wk_payload (rec_records R ! n) \<noteq> PMessage kind m"
    and p: "\<And>kind m. p \<noteq> PMessage kind m" and perm: "\<And>i. rec_permissions R i \<noteq> Some n"
  shows "contents T (edited n p R)"
proof (rule contentsI)
  fix kind i t
  assume "T kind i = Some t"
  from contentsD(2) [OF C this] obtain m where
    m: "rec_messages R (kind, i) = Some m" "message_slot R m kind (Some i) t" by blast
  then have "m \<noteq> n" using n by (auto simp: message_slot_def)
  then show "\<exists>m. rec_messages (edited n p R) (kind, i) = Some m \<and> message_slot (edited n p R) m kind (Some i) t"
    using m message_slot_edit by fastforce
next
  fix m kind i c
  assume m: "m < length (rec_records (edited n p R))" "wk_payload (rec_records (edited n p R) ! m) = PMessage kind c"
    "sn_source (wk_stored (rec_records (edited n p R) ! m)) = Some (acp_source i)"
  with p have "m \<noteq> n" by auto
  with m contentsD(3) [OF C] show "rec_messages (edited n p R) (kind, i) = Some m" by simp
next
  fix i m
  assume m: "rec_permissions (edited n p R) i = Some m"
  then have "m \<noteq> n" using perm by auto
  with m contentsD(4) [OF C, of i m]
  show "m < length (rec_records (edited n p R)) \<and> \<not> wk_dirty (rec_records (edited n p R) ! m) \<and>
      (\<exists>title options. wk_payload (rec_records (edited n p R) ! m) = PPermission title options)" by simp
qed (use contentsD(1) [OF C] in simp)

lemma handles_edit:
  assumes H: "handles R" and n: "n < length (rec_records R)"
    and tool: "\<And>tool. wk_payload (rec_records R ! n) = PTool tool \<Longrightarrow> \<exists>tool'. p = PTool tool'"
    and message: "\<And>kind t. wk_payload (rec_records R ! n) = text_message kind t \<Longrightarrow> \<exists>t'. p = text_message kind t'"
  shows "handles (edited n p R)"
proof (rule handlesI)
  fix kind m
  assume "rec_anonymous (edited n p R) = Some (kind, m)"
  with handlesD(2) [OF H, of kind m] obtain t where m: "slot_open R m" "message_slot R m kind None t" by auto
  show "slot_open (edited n p R) m \<and> (\<exists>t. message_slot (edited n p R) m kind None t)"
  proof (cases "m = n")
    case True
    then obtain t' where "p = text_message kind t'" using m(2) message by (auto simp: message_slot_def)
    then show ?thesis using True m by (auto simp: message_slot_def)
  next
    case False
    then show ?thesis using m(1) message_slot_edit [OF m(2)] by auto
  qed
next
  fix i m call
  assume "rec_tools (edited n p R) i = Some (m, call)"
  with handlesD(3) [OF H, of i m call] tool n
  show "slot_open (edited n p R) m \<and> tc_id call = i \<and> (\<exists>tool. wk_payload (rec_records (edited n p R) ! m) = PTool tool)"
    by (cases "m = n") auto
qed (use handlesD(1) [OF H] in simp)

lemma liveD:
  assumes "live S keep spec T (s, R)"
  shows "sound S keep spec (s, R)" and "\<not> rec_finished R" and "contents T R" and "handles R"
  using assms by (simp_all add: live_def)

lemma live_edit_tool:
  assumes L: "live S keep spec T (s, R)" and "slot_open R n" and "wk_payload (rec_records R ! n) = PTool tool"
  shows "live S keep spec T (s, edited n (PTool tool') R)"
proof -
  have "contents T (edited n (PTool tool') R)"
    by (rule contents_edit_other [OF liveD(3) [OF L]])
      (use assms(3) contentsD(4) [OF liveD(3) [OF L], of _ n] in auto)
  moreover have "handles (edited n (PTool tool') R)"
    by (rule handles_edit [OF liveD(4) [OF L]]) (use assms(2,3) in \<open>auto simp: slot_open_def\<close>)
  ultimately show ?thesis
    using sound_edit [OF liveD(1) [OF L] assms(2) liveD(2) [OF L]] assms(3) liveD(2) [OF L]
    by (simp add: live_def same_shape_def message_kind_changes_def is_request_def)
qed

text \<open>Text pushed onto a message changes that message's text only.\<close>

lemma contents_edit_message:
  assumes C: "contents T R" and slot: "message_slot R n kind native old"
  shows "contents (put_text kind native new T) (edited n (text_message kind new) R)"
proof (rule contentsI)
  let ?R = "edited n (text_message kind new) R"
  have n: "n < length (rec_records R)" "wk_payload (rec_records R ! n) = text_message kind old"
      "sn_source (wk_stored (rec_records R ! n)) = map_option acp_source native"
    using slot by (simp_all add: message_slot_def)
  {
    fix k i t
    assume T: "put_text kind native new T k i = Some t"
    show "\<exists>m. rec_messages ?R (k, i) = Some m \<and> message_slot ?R m k (Some i) t"
    proof (cases "k = kind \<and> native = Some i")
      case True
      then show ?thesis using T n contentsD(3) [OF C n(1,2)] by (auto simp: put_text_def message_slot_def)
    next
      case False
      then have "T k i = Some t" using T by (auto simp: put_text_def split: if_splits)
      from contentsD(2) [OF C this] obtain m where
        m: "rec_messages R (k, i) = Some m" "message_slot R m k (Some i) t" by blast
      then have "m \<noteq> n" using False n by (cases native) (auto simp: message_slot_def)
      then show ?thesis using m message_slot_edit by fastforce
    qed
  next
    fix k i
    assume "put_text kind native new T k i = None"
    then show "rec_messages ?R (k, i) = None"
      using contentsD(1) [OF C, of k i] by (auto simp: put_text_def split: if_splits)
  next
    fix m k i c
    assume "m < length (rec_records ?R)" "wk_payload (rec_records ?R ! m) = PMessage k c"
      "sn_source (wk_stored (rec_records ?R ! m)) = Some (acp_source i)"
    then show "rec_messages ?R (k, i) = Some m"
      using contentsD(3) [OF C, of m] n by (cases "m = n") auto
  next
    fix i m
    assume "rec_permissions ?R i = Some m"
    then show "m < length (rec_records ?R) \<and> \<not> wk_dirty (rec_records ?R ! m) \<and>
        (\<exists>title options. wk_payload (rec_records ?R ! m) = PPermission title options)"
      using contentsD(4) [OF C, of i m] n by (cases "m = n") auto
  }
qed

lemma live_edit_message:
  assumes L: "live S keep spec T (s, R)" and "slot_open R n" and slot: "message_slot R n kind native old"
  shows "live S keep spec (put_text kind native new T) (s, edited n (text_message kind new) R)"
proof -
  have "handles (edited n (text_message kind new) R)"
    by (rule handles_edit [OF liveD(4) [OF L]]) (use slot in \<open>auto simp: message_slot_def\<close>)
  then show ?thesis
    using contents_edit_message [OF liveD(3) [OF L] slot] slot liveD(2) [OF L]
      sound_edit [OF liveD(1) [OF L] assms(2) liveD(2) [OF L], of "text_message kind new"]
    by (simp add: live_def message_slot_def same_shape_def message_kind_changes_def is_request_def)
qed

end
