(* ===== verification/Recorder_Observe.thy ===== *)
theory Recorder_Observe imports Recorder_Events begin

section \<open>Every event is recorded\<close>

text \<open>
  The operations of the recorder as triples over \<open>live\<close>: they do not panic, an error leaves
  the store and the recorder in agreement, and success leaves the texts the event says.
\<close>

lemma put_text_None [simp]: "put_text kind None t T = T"
  by (simp add: put_text_def)

lemma put_text_put [simp]: "put_text kind native u (put_text kind native t T) = put_text kind native u T"
  by (intro ext) (simp add: put_text_def)

lemma put_text_same: "T kind i = Some t \<Longrightarrow> put_text kind (Some i) t T = T"
  by (intro ext) (auto simp: put_text_def)

lemma push_text_message [simp]: "push_text u (text_message kind t) = text_message kind (t @ u)"
  by (simp add: push_text_def)

lemma serde_no_panic [simp]: "serde x \<noteq> Panic"
  by (simp add: serde_def split: sum.splits)

lemma tool_payload_cases: "tool_payload D call \<noteq> Panic \<and> (\<forall>p. tool_payload D call = Ok p \<longrightarrow> (\<exists>tool. p = PTool tool))"
  by (auto simp: tool_payload_def rbind_eq_Ok rbind_eq_Panic Let_def)

lemma permission_options_no_panic: "permission_options D opts \<noteq> Panic"
  by (induction opts) (auto simp: rbind_eq_Panic)

lemma finished_reason_no_panic: "finished_reason D reason \<noteq> Panic"
  by (auto simp: finished_reason_def rbind_eq_Panic split: stop_reason.splits)

subsection \<open>Changes of the recorder's maps\<close>

lemma live_set_anonymous:
  assumes L: "live S keep spec T (s, R)"
    and "\<And>kind n. a = Some (kind, n) \<Longrightarrow> slot_open R n \<and> (\<exists>t. message_slot R n kind None t)"
  shows "live S keep spec T (s, R\<lparr>rec_anonymous := a\<rparr>)"
proof -
  have "handles (R\<lparr>rec_anonymous := a\<rparr>)"
    by (rule handlesI) (use assms(2) handlesD [OF liveD(4) [OF L]] in \<open>auto simp: slot_open_def message_slot_def\<close>)
  moreover have "contents T (R\<lparr>rec_anonymous := a\<rparr>)"
    using contents_cong [of "R\<lparr>rec_anonymous := a\<rparr>" R T] liveD(3) [OF L] by simp
  moreover have "sound S keep spec (s, R\<lparr>rec_anonymous := a\<rparr>)"
    using sound_cong [of "R\<lparr>rec_anonymous := a\<rparr>" R S keep spec s] liveD(1) [OF L] by simp
  ultimately show ?thesis using liveD(2) [OF L] by (simp add: live_def)
qed

lemma live_set_tool:
  assumes L: "live S keep spec T (s, R)" and "slot_open R n" and "wk_payload (rec_records R ! n) = PTool tool"
  shows "live S keep spec T (s, R\<lparr>rec_tools := (rec_tools R)(tc_id call \<mapsto> (n, call))\<rparr>)"
proof -
  let ?R = "R\<lparr>rec_tools := (rec_tools R)(tc_id call \<mapsto> (n, call))\<rparr>"
  have "handles ?R"
    by (rule handlesI)
      (use assms(2,3) handlesD [OF liveD(4) [OF L]] in \<open>auto simp: slot_open_def message_slot_def split: if_splits\<close>)
  moreover have "contents T ?R" using contents_cong [of ?R R T] liveD(3) [OF L] by simp
  moreover have "sound S keep spec (s, ?R)" using sound_cong [of ?R R S keep spec s] liveD(1) [OF L] by simp
  ultimately show ?thesis using liveD(2) [OF L] by (simp add: live_def)
qed

lemma live_set_permission:
  assumes L: "live S keep spec T (s, R)" and "n < length (rec_records R)" and "\<not> wk_dirty (rec_records R ! n)"
    and "wk_payload (rec_records R ! n) = PPermission title options"
  shows "live S keep spec T (s, R\<lparr>rec_permissions := (rec_permissions R)(i \<mapsto> n)\<rparr>)"
proof -
  let ?R = "R\<lparr>rec_permissions := (rec_permissions R)(i \<mapsto> n)\<rparr>"
  have "contents T ?R"
  proof (rule contentsI)
    fix j m
    assume "rec_permissions ?R j = Some m"
    then show "m < length (rec_records ?R) \<and> \<not> wk_dirty (rec_records ?R ! m) \<and>
        (\<exists>title options. wk_payload (rec_records ?R ! m) = PPermission title options)"
      using assms(2-4) contentsD(4) [OF liveD(3) [OF L], of j m] by (cases "j = i") auto
  qed (use contentsD [OF liveD(3) [OF L]] in \<open>auto simp: message_slot_def\<close>)
  moreover have "handles ?R" using handles_cong [of ?R R] liveD(4) [OF L] by simp
  moreover have "sound S keep spec (s, ?R)" using sound_cong [of ?R R S keep spec s] liveD(1) [OF L] by simp
  ultimately show ?thesis using liveD(2) [OF L] by (simp add: live_def)
qed

text \<open>A new provider message.\<close>

definition enter_message :: "message_kind \<Rightarrow> string option \<Rightarrow> nat \<Rightarrow> ('n, 'v) recorder \<Rightarrow> ('n, 'v) recorder" where
  "enter_message kind native n R =
     (case native of Some i \<Rightarrow> R\<lparr>rec_messages := (rec_messages R)((kind, i) \<mapsto> n)\<rparr> | None \<Rightarrow> R)"

lemma live_new_message:
  assumes L: "live S keep spec T (s, R)" and snd: "sound S keep spec (s', add_record R w)"
    and w: "made (text_message kind '''') reply (map_option acp_source native) Open w"
    and free: "\<And>i. native = Some i \<Longrightarrow> rec_messages R (kind, i) = None"
  shows "live S keep spec (put_text kind native '''' T)
      (s', enter_message kind native (length (rec_records R)) (add_record R w)) \<and>
    slot_open (add_record R w) (length (rec_records R)) \<and>
    message_slot (add_record R w) (length (rec_records R)) kind native ''''"
proof -
  have slot: "slot_open (add_record R w) (length (rec_records R))"
      "message_slot (add_record R w) (length (rec_records R)) kind native ''''"
    using w by (simp_all add: slot_open_def message_slot_def made_def)
  show ?thesis
  proof (cases native)
    case None
    then show ?thesis using live_add [OF L snd] w slot by (simp add: enter_message_def made_def)
  next
    case (Some i)
    let ?n = "length (rec_records R)" and ?R0 = "add_record R w"
    let ?R = "?R0\<lparr>rec_messages := (rec_messages R)((kind, i) \<mapsto> ?n)\<rparr>"
    have C: "contents T R" by (rule liveD(3) [OF L])
    have "contents (put_text kind native '''' T) ?R"
    proof (rule contentsI)
      fix k j t
      assume T: "put_text kind native '''' T k j = Some t"
      show "\<exists>n. rec_messages ?R (k, j) = Some n \<and> message_slot ?R n k (Some j) t"
      proof (cases "k = kind \<and> j = i")
        case True
        then show ?thesis using T slot Some by (auto simp: put_text_def message_slot_def)
      next
        case False
        then have "T k j = Some t" using T Some by (auto simp: put_text_def split: if_splits)
        from contentsD(2) [OF C this] obtain m where "rec_messages R (k, j) = Some m" "message_slot R m k (Some j) t"
          by blast
        then show ?thesis using False message_slot_add [of R m k "Some j" t w] by (auto simp: message_slot_def)
      qed
    next
      fix k j
      assume "put_text kind native '''' T k j = None"
      then show "rec_messages ?R (k, j) = None"
        using contentsD(1) [OF C, of k j] Some by (auto simp: put_text_def split: if_splits)
    next
      fix m k j c
      assume m: "m < length (rec_records ?R)" "wk_payload (rec_records ?R ! m) = PMessage k c"
        "sn_source (wk_stored (rec_records ?R ! m)) = Some (acp_source j)"
      show "rec_messages ?R (k, j) = Some m"
      proof (cases "m = ?n")
        case True
        then show ?thesis using m w Some by (simp add: made_def)
      next
        case False
        with m have "rec_messages R (k, j) = Some m" using contentsD(3) [OF C, of m k c j] by (simp add: nth_append)
        then show ?thesis using free [OF Some] by auto
      qed
    next
      fix j m
      assume "rec_permissions ?R j = Some m"
      then show "m < length (rec_records ?R) \<and> \<not> wk_dirty (rec_records ?R ! m) \<and>
          (\<exists>title options. wk_payload (rec_records ?R ! m) = PPermission title options)"
        using contentsD(4) [OF C, of j m] by (auto simp: nth_append)
    qed
    moreover have "handles ?R"
      by (rule handlesI)
        (use handlesD [OF handles_add [OF liveD(4) [OF L], of w]] slot in
          \<open>auto simp: slot_open_def message_slot_def split: if_splits\<close>)
    moreover have "sound S keep spec (s', ?R)"
      using snd by (simp add: sound_def)
    ultimately show ?thesis using liveD(2) [OF L] slot Some by (simp add: live_def enter_message_def)
  qed
qed

subsection \<open>Insertions\<close>

context record_store begin

lemma insert_live:
  assumes L: "live S inv spec T (s, R)" and "source = None \<or> (\<forall>kind m. payload \<noteq> PMessage kind m)"
  shows "triple ((=) (s, R)) (recorder_insert S payload actor reply source state)
    (\<lambda>n st. \<exists>s' w. n = length (rec_records R) \<and> st = (s', add_record R w) \<and> live S inv spec T st \<and>
       made payload reply source state w)
    (sound S inv spec)"
  by (rule triple_weaken [OF insert_triple [OF liveD(1) [OF L]]])
    (use liveD(1,2) [OF L] assms(2) live_add [OF L] in \<open>auto simp: made_def\<close>)

lemma insert_unit:
  fixes actor :: "('n, 'v) recorder \<Rightarrow> actor_id"
  assumes "source = None \<or> (\<forall>kind m. payload \<noteq> PMessage kind m)"
  shows "triple (live S inv spec T)
    (with_state (\<lambda>(_, R). and_then (recorder_insert S payload (actor R) reply source state) (\<lambda>_. give ())))
    (\<lambda>_. live S inv spec T) (sound S inv spec)"
proof (rule triple_with_state)
  fix st :: "'s \<times> ('n, 'v) recorder"
  assume L: "live S inv spec T st"
  obtain s R where st: "st = (s, R)" by force
  show "triple ((=) st)
      ((\<lambda>(_, R). and_then (recorder_insert S payload (actor R) reply source state) (\<lambda>_. give ())) st)
      (\<lambda>_. live S inv spec T) (sound S inv spec)"
    unfolding st prod.case
    by (rule triple_and_then [OF insert_live [OF L [unfolded st] assms]], rule triple_basic(1)) auto
qed

lemma host_evidence_live [triple_intros]:
  "triple (live S inv spec T) (host_evidence S name data) (\<lambda>_. live S inv spec T) (sound S inv spec)"
  unfolding host_evidence_def by (rule insert_unit) simp

lemma extension_live [triple_intros]:
  "triple (live S inv spec T) (recorder_extension S name data) (\<lambda>_. live S inv spec T) (sound S inv spec)"
  unfolding recorder_extension_def by (rule insert_unit) simp

lemma live_sound: "live S inv spec T st \<Longrightarrow> sound S inv spec st"
  by (simp add: live_def)

lemma lift_live:
  "r \<noteq> Panic \<Longrightarrow> triple (live S inv spec T) (lift_result r) (\<lambda>_. live S inv spec T) (sound S inv spec)"
  by (rule triple_lift) (auto intro: live_sound)

subsection \<open>Messages\<close>

definition ready :: "run_configuration run_spec \<Rightarrow> texts \<Rightarrow> message_kind \<Rightarrow> string option \<Rightarrow> nat \<Rightarrow>
    's \<times> ('n, 'v) recorder \<Rightarrow> bool" where
  "ready spec T kind native n st \<longleftrightarrow>
     (\<exists>old. live S inv spec (put_text kind native old T) st \<and> slot_open (snd st) n \<and>
        message_slot (snd st) n kind native old \<and> (native \<noteq> None \<longrightarrow> old = text_so_far kind native T))"

lemma message_index_ready:
  assumes L: "live S inv spec T (s, R)" and "message_index kind native R = Some n"
  shows "ready spec T kind native n (s, R)"
proof (cases native)
  case None
  then have "rec_anonymous R = Some (kind, n)"
    using assms(2) by (auto simp: message_index_def split: option.splits if_splits)
  with handlesD(2) [OF liveD(4) [OF L]] show ?thesis using L None by (auto simp: ready_def)
next
  case (Some i)
  then have m: "rec_messages R (kind, i) = Some n" using assms(2) by (simp add: message_index_def)
  then obtain t where "T kind i = Some t" using contentsD(1) [OF liveD(3) [OF L], of kind i] by fastforce
  moreover from this contentsD(2) [OF liveD(3) [OF L]] m have "message_slot R n kind (Some i) t" by fastforce
  moreover have "slot_open R n" by (rule handlesD(1) [OF liveD(4) [OF L] m])
  ultimately show ?thesis using L Some by (auto simp: ready_def put_text_same text_so_far_def)
qed

lemma new_message_ready:
  assumes L: "live S inv spec T (s, R)" and "message_index kind native R = None"
  shows "triple ((=) (s, R)) (new_message S kind native) (ready spec T kind native) (sound S inv spec)"
proof -
  have free: "native = Some i \<Longrightarrow> rec_messages R (kind, i) = None" for i
    using assms(2) by (simp add: message_index_def)
  have so_far: "native \<noteq> None \<Longrightarrow> text_so_far kind native T = ''''"
    using free contentsD(2) [OF liveD(3) [OF L]]
    by (fastforce simp: text_so_far_def split: option.splits)
  obtain x st where run: "recorder_insert S (text_message kind '''') (ra_agent (rec_actors R)) None
      (map_option acp_source native) Open (s, R) = (x, st)" using prod.exhaust by blast
  have all: "new_message S kind native (s, R) =
      (case x of
         Ok n \<Rightarrow> (Ok n, (fst st, enter_message kind native n (snd st)))
       | Err e \<Rightarrow> (Err e, st)
       | Panic \<Rightarrow> (Panic, st))"
    using run by (cases native)
      (auto simp: new_message_def and_then_def on_recorder_def enter_message_def split: result.splits prod.splits)
  have fin: "rec_finished R \<longrightarrow> Open \<noteq> Open" using liveD(2) [OF L] by simp
  show ?thesis
    using liveD(1) [OF L] fin run
  proof (cases rule: insert_step)
    case (ok w s')
    from live_new_message [OF L ok(3,4) free]
    have "ready spec T kind native (length (rec_records R))
        (s', enter_message kind native (length (rec_records R)) (add_record R w))"
      using so_far by (cases native) (auto simp: ready_def enter_message_def slot_open_def message_slot_def)
    then show ?thesis using all ok by (simp add: triple_def)
  next
    case (err e)
    then show ?thesis using all liveD(1) [OF L] by (simp add: triple_def)
  qed
qed

lemma edit_ready:
  assumes "ready spec T kind native n (s, R)"
  shows "\<exists>R'. and_then (on_recorder (\<lambda>R. R\<lparr>rec_anonymous := (if native = None then Some (kind, n) else None)\<rparr>))
      (\<lambda>_. edit_record n (push_text u)) (s, R) = (Ok (), (s, R')) \<and>
    live S inv spec (put_text kind native (text_so_far kind native T @ u) T) (s, R')"
proof -
  obtain old where L: "live S inv spec (put_text kind native old T) (s, R)"
      and slot: "slot_open R n" "message_slot R n kind native old"
      and old: "native \<noteq> None \<Longrightarrow> old = text_so_far kind native T"
    using assms by (auto simp: ready_def)
  let ?R = "R\<lparr>rec_anonymous := (if native = None then Some (kind, n) else None)\<rparr>"
  have L': "live S inv spec (put_text kind native old T) (s, ?R)"
    by (rule live_set_anonymous [OF L]) (use slot in \<open>auto split: if_splits\<close>)
  have slot': "slot_open ?R n" "message_slot ?R n kind native old"
    using slot by (simp_all add: slot_open_def message_slot_def)
  have "live S inv spec (put_text kind native (old @ u) T) (s, edited n (text_message kind (old @ u)) ?R)"
    using live_edit_message [OF L' slot', of "old @ u"] by simp
  moreover have "put_text kind native (old @ u) T = put_text kind native (text_so_far kind native T @ u) T"
    using old by (cases native) auto
  moreover have "edit_record n (push_text u) (s, ?R) = (Ok (), (s, edited n (text_message kind (old @ u)) ?R))"
    using slot'(2) edit_record_eq [of n ?R "push_text u" s] by (simp add: message_slot_def)
  ultimately show ?thesis by (simp add: on_recorder_def)
qed

lemma message_live:
  fixes chunk :: "'n content_chunk"
  shows "triple (live S inv spec T) (recorder_message D S kind chunk)
     (\<lambda>_. live S inv spec
        (case ch_content chunk of
           TextBlock u \<Rightarrow> put_text kind (ch_message_id chunk) (text_so_far kind (ch_message_id chunk) T @ u) T
         | OtherBlock _ \<Rightarrow> T))
     (sound S inv spec)"
proof (cases "ch_content chunk")
  case (OtherBlock x)
  have 1: "triple (live S inv spec T) (on_recorder (\<lambda>R. R\<lparr>rec_anonymous := None\<rparr>)) (\<lambda>_. live S inv spec T)
      (sound S inv spec)"
    unfolding on_recorder_def by (rule triple_basic(3)) (auto intro: live_set_anonymous)
  show ?thesis
    unfolding recorder_message_def OtherBlock content_block.case
    by (intro triple_and_then [OF 1] triple_and_then [OF lift_live] extension_live) simp
next
  case (TextBlock u)
  let ?native = "ch_message_id chunk"
  let ?T = "put_text kind ?native (text_so_far kind ?native T @ u) T"
  have edit: "triple (ready spec T kind ?native n)
      (and_then (on_recorder (\<lambda>R. R\<lparr>rec_anonymous := (if ?native = None then Some (kind, n) else None)\<rparr>))
        (\<lambda>_. edit_record n (push_text u)))
      (\<lambda>_. live S inv spec ?T) (sound S inv spec)" for n
    using edit_ready [of spec T kind ?native n _ _ u] by (fastforce simp: triple_def)
  show ?thesis
    unfolding recorder_message_def TextBlock content_block.case
  proof (rule triple_with_state)
    fix st :: "'s \<times> ('n, 'v) recorder"
    assume L: "live S inv spec T st"
    obtain s R where st: "st = (s, R)" by force
    have index: "triple ((=) (s, R))
        (case message_index kind ?native R of Some n \<Rightarrow> give n | None \<Rightarrow> new_message S kind ?native)
        (ready spec T kind ?native) (sound S inv spec)"
    proof (cases "message_index kind ?native R")
      case None
      then show ?thesis using new_message_ready [OF L [unfolded st] None] by simp
    next
      case (Some n)
      show ?thesis
        unfolding Some option.case
        by (rule triple_basic(1)) (use message_index_ready [OF L [unfolded st] Some] in auto)
    qed
    show "triple ((=) st)
        ((\<lambda>(_, R). and_then
            (case message_index kind ?native R of None \<Rightarrow> new_message S kind ?native | Some index \<Rightarrow> give index) (\<lambda>index.
          and_then (on_recorder (\<lambda>R. R\<lparr>rec_anonymous :=
              (if ?native = None then Some (kind, index) else None)\<rparr>)) (\<lambda>_.
            edit_record index (push_text u)))) st)
        (\<lambda>_. live S inv spec ?T) (sound S inv spec)"
      unfolding st prod.case by (rule triple_and_then [OF index edit])
  qed
qed

subsection \<open>Tools\<close>

lemma tool_index_live:
  assumes L: "live S inv spec T (s, R)"
  shows "triple ((=) (s, R))
    (case rec_tools R i of
       Some (index, _) \<Rightarrow> and_then (edit_record index (\<lambda>_. PTool tool)) (\<lambda>_. give index)
     | None \<Rightarrow> recorder_insert S (PTool tool) actor None source Open)
    (\<lambda>n st. live S inv spec T st \<and> slot_open (snd st) n \<and> (\<exists>t. wk_payload (rec_records (snd st) ! n) = PTool t))
    (sound S inv spec)"
proof (cases "rec_tools R i")
  case None
  show ?thesis
    unfolding None option.case
    by (rule triple_weaken [OF insert_live [OF L]]) (auto simp: slot_open_def made_def)
next
  case (Some p)
  obtain n call where p: "p = (n, call)" by force
  with Some have slot: "slot_open R n" "\<exists>t. wk_payload (rec_records R ! n) = PTool t"
    using handlesD(3) [OF liveD(4) [OF L], of i n call] by auto
  then obtain t where t: "wk_payload (rec_records R ! n) = PTool t" by blast
  have "edit_record n (\<lambda>_. PTool tool) (s, R) = (Ok (), (s, edited n (PTool tool) R))"
    using slot(1) by (intro edit_record_eq) (simp add: slot_open_def)
  then show ?thesis
    using live_edit_tool [OF L slot(1) t, of tool] slot(1)
    by (simp add: Some p triple_def slot_open_def)
qed

lemma tool_live:
  "triple (live S inv spec T) (recorder_tool D S call)
     (\<lambda>_ st. live S inv spec T st \<and> rec_tools (snd st) (tc_id call) \<noteq> None) (sound S inv spec)"
  unfolding recorder_tool_def
proof (rule triple_pair, goal_cases)
  case (1 s R)
  show ?case
  proof (cases "tool_payload D call")
    case (Ok payload)
    then obtain tool where tool: "payload = PTool tool" using tool_payload_cases by blast
    have set: "triple
        (\<lambda>st. live S inv spec T st \<and> slot_open (snd st) n \<and> (\<exists>t. wk_payload (rec_records (snd st) ! n) = PTool t))
        (on_recorder (\<lambda>R. R\<lparr>rec_tools := (rec_tools R)(tc_id call \<mapsto> (n, call))\<rparr>))
        (\<lambda>_ st. live S inv spec T st \<and> rec_tools (snd st) (tc_id call) \<noteq> None) (sound S inv spec)" for n
      unfolding on_recorder_def by (rule triple_basic(3)) (auto intro: live_set_tool)
    show ?thesis
      unfolding prod.case
    proof (rule triple_run [where x = "PTool tool"])
      show "lift_result (tool_payload D call) (s, R) = (Ok (PTool tool), (s, R))" by (simp add: Ok tool)
    qed (rule triple_and_then [OF tool_index_live [OF 1] set])
  next
    case (Err e)
    then show ?thesis using liveD(1) [OF 1] by (simp add: triple_def and_then_def)
  next
    case Panic
    then show ?thesis using tool_payload_cases [of D call] by simp
  qed
qed

lemma merged_call_id:
  assumes "sdk_laws D" and "live S inv spec T (s, R)"
  shows "tc_id (merged_call D u R) = tu_id u"
  using assms(1) handlesD(3) [OF liveD(4) [OF assms(2)], of "tu_id u"]
  by (auto simp: merged_call_def sdk_laws_def Let_def split: option.splits)

lemma tool_update_live:
  assumes "sdk_laws D"
  shows "triple (live S inv spec T) (recorder_tool_update D S u)
    (\<lambda>_ st. live S inv spec T st \<and> rec_tools (snd st) (tu_id u) \<noteq> None) (sound S inv spec)"
  unfolding recorder_tool_update_def
proof (rule triple_pair, goal_cases)
  case (1 s R)
  show ?case
    unfolding prod.case merged_call_id [OF assms 1, of u, symmetric]
    by (rule triple_pre [OF tool_live]) (use 1 in simp)
qed

subsection \<open>Permissions and decisions\<close>

lemma stored_at_eq: "n < length (rec_records R) \<Longrightarrow> stored_at n (s, R) = (Ok (wk_stored (rec_records R ! n)), (s, R))"
  by (simp add: stored_at_def)

lemma permission_live:
  assumes "sdk_laws D"
  shows "triple (live S inv spec T) (observe_permission D S i request) (\<lambda>_. live S inv spec T) (sound S inv spec)"
  unfolding observe_permission_def
proof (rule triple_and_then [OF tool_update_live [OF assms]], rule triple_pair, goal_cases)
  case (1 x s R)
  then have L: "live S inv spec T (s, R)" by simp
  from 1 obtain tool call where tool: "rec_tools R (tu_id (pq_tool_call request)) = Some (tool, call)" by auto
  with handlesD(3) [OF liveD(4) [OF L]] have len: "tool < length (rec_records R)" by (auto simp: slot_open_def)
  show ?case
  proof (cases "permission_options D (pq_options request)")
    case (Ok options)
    have set: "triple (\<lambda>st. \<exists>s' w. n = length (rec_records R) \<and> st = (s', add_record R w) \<and> live S inv spec T st \<and>
          made (PPermission title options) reply None Open w)
        (on_recorder (\<lambda>R. R\<lparr>rec_permissions := (rec_permissions R)(i \<mapsto> n)\<rparr>)) (\<lambda>_. live S inv spec T)
        (sound S inv spec)" for n title reply
      unfolding on_recorder_def
      by (rule triple_basic(3)) (auto simp: made_def intro!: live_set_permission)
    show ?thesis
      unfolding prod.case tool option.case
    proof (rule triple_run [where x = options])
      show "lift_result (permission_options D (pq_options request)) (s, R) = (Ok options, (s, R))" by (simp add: Ok)
      show "triple ((=) (s, R))
          (and_then (stored_at tool) (\<lambda>stored.
            and_then
              (recorder_insert S
                (PPermission
                  (case tu_title (pq_tool_call request) of None \<Rightarrow> ''Tool permission'' | Some title \<Rightarrow> title) options)
                (ra_agent (rec_actors R)) (Some (r_id (sn_record stored))) None Open)
              (\<lambda>index. on_recorder (\<lambda>R. R\<lparr>rec_permissions := (rec_permissions R)(i \<mapsto> index)\<rparr>))))
          (\<lambda>_. live S inv spec T) (sound S inv spec)"
        by (rule triple_run, rule stored_at_eq [OF len], rule triple_and_then [OF insert_live [OF L] set]) simp
    qed
  next
    case (Err e)
    then show ?thesis using liveD(1) [OF L] by (simp add: tool triple_def)
  next
    case Panic
    then show ?thesis using permission_options_no_panic [of D] by simp
  qed
qed

end

end
