(* ===== verification/Recorder_Run.thy ===== *)
theory Recorder_Run imports Recorder_Observe begin

section \<open>Decisions, the end, and the recorder as a whole\<close>

subsection \<open>Records whose stored snapshot changes\<close>

abbreviation restored :: "nat \<Rightarrow> 'v snapshot \<Rightarrow> ('n, 'v) recorder \<Rightarrow> ('n, 'v) recorder" where
  "restored n y R \<equiv> R\<lparr>rec_records := (rec_records R)[n := (rec_records R ! n)\<lparr>wk_stored := y\<rparr>]\<rparr>"

text \<open>Loops keep payloads and sources, hence the contents; without a final state, the handles too.\<close>

lemma contents_same_work:
  assumes C: "contents T R" and same: "list_all2 same_work (rec_records R) ws"
  shows "contents T (R\<lparr>rec_records := ws\<rparr>)"
proof -
  have nth: "n < length (rec_records R) \<Longrightarrow> same_work (rec_records R ! n) (ws ! n)" for n
    using same by (simp add: list_all2_conv_all_nth)
  have len: "length ws = length (rec_records R)" using same by (simp add: list_all2_lengthD)
  show ?thesis
  proof (rule contentsI)
    fix kind i t
    assume "T kind i = Some t"
    from contentsD(2) [OF C this] nth
    show "\<exists>n. rec_messages (R\<lparr>rec_records := ws\<rparr>) (kind, i) = Some n \<and>
        message_slot (R\<lparr>rec_records := ws\<rparr>) n kind (Some i) t"
      by (auto simp: message_slot_def len same_work_def)
  next
    fix n kind i m
    assume "n < length (rec_records (R\<lparr>rec_records := ws\<rparr>))"
      "wk_payload (rec_records (R\<lparr>rec_records := ws\<rparr>) ! n) = PMessage kind m"
      "sn_source (wk_stored (rec_records (R\<lparr>rec_records := ws\<rparr>) ! n)) = Some (acp_source i)"
    then show "rec_messages (R\<lparr>rec_records := ws\<rparr>) (kind, i) = Some n"
      using contentsD(3) [OF C, of n kind m i] nth [of n] len by (simp add: same_work_def)
  next
    fix i n
    assume "rec_permissions (R\<lparr>rec_records := ws\<rparr>) i = Some n"
    then show "n < length (rec_records (R\<lparr>rec_records := ws\<rparr>)) \<and> \<not> wk_dirty (rec_records (R\<lparr>rec_records := ws\<rparr>) ! n) \<and>
        (\<exists>title options. wk_payload (rec_records (R\<lparr>rec_records := ws\<rparr>) ! n) = PPermission title options)"
      using contentsD(4) [OF C, of i n] nth [of n] len by (auto simp: same_work_def)
  qed (use contentsD(1) [OF C] in simp)
qed

lemma handles_same_work:
  assumes H: "handles R" and same: "list_all2 same_work (rec_records R) ws"
    and states: "list_all2 (\<lambda>w w'. sn_state (wk_stored w') = sn_state (wk_stored w)) (rec_records R) ws"
  shows "handles (R\<lparr>rec_records := ws\<rparr>)"
proof -
  have nth: "n < length (rec_records R) \<Longrightarrow> same_work (rec_records R ! n) (ws ! n) \<and>
      sn_state (wk_stored (ws ! n)) = sn_state (wk_stored (rec_records R ! n))" for n
    using same states by (simp add: list_all2_conv_all_nth)
  have len: "length ws = length (rec_records R)" using same by (simp add: list_all2_lengthD)
  have "slot_open R n \<Longrightarrow> slot_open (R\<lparr>rec_records := ws\<rparr>) n" for n
    using nth [of n] by (simp add: slot_open_def len)
  moreover have "message_slot R n kind native t \<Longrightarrow> message_slot (R\<lparr>rec_records := ws\<rparr>) n kind native t"
    for n kind native t
    using nth [of n] by (simp add: message_slot_def len same_work_def)
  moreover have "slot_open R n \<Longrightarrow> wk_payload (ws ! n) = wk_payload (rec_records R ! n)" for n
    using nth [of n] by (simp add: slot_open_def same_work_def)
  ultimately show ?thesis
    using H unfolding handles_def by simp metis
qed

lemma restored_request:
  assumes C: "contents T R" and H: "handles R" and p: "wk_payload (rec_records R ! n) = PPermission title options"
  shows "contents T (restored n y R)" and "handles (restored n y R)"
proof -
  have other: "rec_records (restored n y R) ! m = rec_records R ! m" if "m \<noteq> n" for m
    using that by simp
  have msg: "m \<noteq> n" if "message_slot R m kind native t" for m kind native t
    using that p by (auto simp: message_slot_def)
  have keep: "message_slot (restored n y R) m kind native t" if "message_slot R m kind native t" for m kind native t
    using that msg [OF that] by (simp add: message_slot_def)
  show "contents T (restored n y R)"
  proof (rule contentsI)
    fix kind i t
    assume "T kind i = Some t"
    from contentsD(2) [OF C this] keep
    show "\<exists>m. rec_messages (restored n y R) (kind, i) = Some m \<and> message_slot (restored n y R) m kind (Some i) t"
      by fastforce
  next
    fix m kind i c
    assume m: "m < length (rec_records (restored n y R))"
      "wk_payload (rec_records (restored n y R) ! m) = PMessage kind c"
      "sn_source (wk_stored (rec_records (restored n y R) ! m)) = Some (acp_source i)"
    then have "m \<noteq> n" using p by auto
    with m contentsD(3) [OF C, of m kind c i] show "rec_messages (restored n y R) (kind, i) = Some m" by simp
  next
    fix i m
    assume "rec_permissions (restored n y R) i = Some m"
    with contentsD(4) [OF C, of i m]
    show "m < length (rec_records (restored n y R)) \<and> \<not> wk_dirty (rec_records (restored n y R) ! m) \<and>
        (\<exists>title options. wk_payload (rec_records (restored n y R) ! m) = PPermission title options)"
      by (cases "m = n") auto
  qed (use contentsD(1) [OF C] in simp)
  show "handles (restored n y R)"
  proof (rule handlesI)
    fix key m
    assume m: "rec_messages (restored n y R) key = Some m"
    obtain kind i where key: "key = (kind, i)" by force
    obtain t where "T kind i = Some t" using m key contentsD(1) [OF C, of kind i] by fastforce
    from contentsD(2) [OF C this] m key have "message_slot R m kind (Some i) t" by fastforce
    from msg [OF this] handlesD(1) [OF H, of key m] m
    show "slot_open (restored n y R) m" by (simp add: slot_open_def)
  next
    fix kind m
    assume "rec_anonymous (restored n y R) = Some (kind, m)"
    with handlesD(2) [OF H, of kind m] obtain t where m: "slot_open R m" "message_slot R m kind None t" by auto
    with msg [OF m(2)] keep [OF m(2)] show "slot_open (restored n y R) m \<and> (\<exists>t. message_slot (restored n y R) m kind None t)"
      by (auto simp: slot_open_def)
  next
    fix i m call
    assume "rec_tools (restored n y R) i = Some (m, call)"
    with handlesD(3) [OF H, of i m call] have m: "slot_open R m" "tc_id call = i"
        "\<exists>tool. wk_payload (rec_records R ! m) = PTool tool" by auto
    with p have "m \<noteq> n" by auto
    with m show "slot_open (restored n y R) m \<and> tc_id call = i \<and>
        (\<exists>tool. wk_payload (rec_records (restored n y R) ! m) = PTool tool)" by (simp add: slot_open_def)
  qed
qed

context record_store begin

subsection \<open>Decisions\<close>

lemma resolve_step:
  assumes snd: "sound S inv spec (s, R)" and n: "n < length (rec_records R)"
    and d: "d_id d = own_id spec (length (rec_records R))"
    and run: "op_resolve S (own_id spec n) (sn_revision (wk_stored (rec_records R ! n))) d s = (Ok z, s')"
    and w: "w = \<lparr>wk_stored = z, wk_payload = d_payload d, wk_dirty = False\<rparr>" and live: "\<not> rec_finished R"
    and clean: "\<not> wk_dirty (rec_records R ! n)"
  shows "\<exists>y. op_get S (own_id spec n) s' = Ok y \<and> sn_state y = Complete \<and> same_draft z d \<and>
    sound S inv spec (s', add_record (restored n y R) w)"
proof -
  let ?i = "own_id spec n" and ?x = "wk_stored (rec_records R ! n)" and ?R = "\<lambda>y. add_record (restored n y R) w"
  have I: "inv s" "rec_spec R = spec" using snd by (auto simp: sound_def)
  have x: "op_get S ?i s = Ok ?x" "r_id (sn_record ?x) = ?i"
      "is_final (sn_state ?x) \<or> \<not> wk_dirty (rec_records R ! n) \<longrightarrow> r_payload (sn_record ?x) = wk_payload (rec_records R ! n)"
    using snd n by (auto simp: sound_def working_ok_def)
  have fresh: "?i \<noteq> d_id d" using n d by simp
  from resolve_request_read [OF I(1) x(1), of "sn_revision ?x" d] run
  obtain y where y: "op_get S ?i s' = Ok y" "y = ?x \<or> resolve_request ?x (sn_revision ?x) d = Ok y" by auto
  from resolve_Ok [OF I(1) run] y(1)
  have z: "op_get S (d_id d) s' = Ok z" "same_draft z d" and fin: "sn_state y = Complete" by auto
  have same: "r_id (sn_record y) = ?i" "r_payload (sn_record y) = r_payload (sn_record ?x)"
    using y(2) x(2) by (auto simp: resolve_request_Ok_iff)
  have inv': "inv s'"
    using inv_exec [OF I(1), of "Resolve ?i (sn_revision ?x) d"] run by (simp add: store_exec_def)
  have frame: "op_get S j s' = op_get S j s" if "j \<noteq> ?i" "j \<noteq> d_id d" for j
    using resolve_frame [OF I(1) that, of "sn_revision ?x"] run by simp
  have old: "op_get S (own_id spec m) s' = op_get S (own_id spec m) s"
    if "m \<noteq> n" "m \<noteq> length (rec_records R)" for m
    by (rule frame) (use that d in simp_all)
  have "sound S inv spec (s', ?R y)"
    unfolding sound_def prod.case
  proof (intro conjI allI impI)
    fix m
    assume "m < length (rec_records (?R y))"
    then consider "m = n" | "m \<noteq> n" "m < length (rec_records R)" | "m = length (rec_records R)" by force
    then show "working_ok S s' (own_id spec m) (rec_records (?R y) ! m)"
    proof cases
      case 1
      then show ?thesis using n x(3) y(1) same clean by (simp add: working_ok_def nth_append)
    next
      case 2
      then have "working_ok S s (own_id spec m) (rec_records R ! m)" using snd by (simp add: sound_def)
      then show ?thesis using 2 old [of m] by (simp add: working_ok_def nth_append)
    next
      case 3
      then have "rec_records (?R y) ! m = w" by (simp add: nth_append)
      then show ?thesis using z d 3 by (simp add: working_ok_def w same_draft_def Let_def)
    qed
  next
    fix m
    assume "m \<ge> length (rec_records (?R y))"
    then show "op_get S (own_id spec m) s' = Err MissingRecord"
      using old [of m] snd n by (simp add: sound_def)
  qed (use inv' I live in simp_all)
  then show ?thesis using y(1) fin z(2) by blast
qed

lemma resolved_live:
  "triple (live S inv spec T) (observe_resolved S i outcome delivery) (\<lambda>_. live S inv spec T) (sound S inv spec)"
proof (rule triple_fixed, goal_cases)
  case (1 st)
  obtain s R where st: "st = (s, R)" by force
  note L = 1 [unfolded st] and snd = liveD(1) [OF 1 [unfolded st]]
  show ?case
  proof (cases "rec_permissions R i")
    case None
    then show ?thesis using snd by (simp add: triple_def st observe_resolved_def)
  next
    case (Some n)
    then obtain title options where n: "n < length (rec_records R)" "\<not> wk_dirty (rec_records R ! n)"
        "wk_payload (rec_records R ! n) = PPermission title options"
      using contentsD(4) [OF liveD(3) [OF L], of i n] by blast
    let ?x = "wk_stored (rec_records R ! n)" and ?p = "PDecision outcome delivery :: 'v payload"
    let ?d = "\<lparr>d_id = own_id spec (length (rec_records R)), d_session = rs_session spec, d_run = Some (rs_id spec),
        d_actor = ra_host (rec_actors R), d_reply = Some (own_id spec n), d_source = None, d_payload = ?p,
        d_state = Complete\<rparr>"
    have x: "rec_spec R = spec" "inv s" "r_id (sn_record ?x) = own_id spec n"
      using snd n(1) by (auto simp: sound_def working_ok_def)
    obtain y s' where run: "op_resolve S (own_id spec n) (sn_revision ?x) ?d s = (y, s')" by force
    have resolved: "observe_resolved S i outcome delivery (s, R) =
      (case y of
         Ok z \<Rightarrow>
           (case op_get S (own_id spec n) s' of
              Ok v \<Rightarrow> (Ok (), (s', add_record (restored n v R) \<lparr>wk_stored = z, wk_payload = ?p, wk_dirty = False\<rparr>))
            | Err e \<Rightarrow> (Err (RecStore e), (s', R))
            | Panic \<Rightarrow> (Panic, (s', R)))
       | Err e \<Rightarrow> (Err (RecStore e), (s', R))
       | Panic \<Rightarrow> (Panic, (s', R)))"
      using run
      by (simp add: observe_resolved_def Some stored_at_eq [OF n(1)] recorder_draft_Ok x and_then_def on_store_def on_recorder_def Let_def
          split: result.split)
    show ?thesis
    proof (cases y)
      case (Ok z)
      let ?w = "\<lparr>wk_stored = z, wk_payload = ?p, wk_dirty = False\<rparr>"
      have "d_id ?d = own_id spec (length (rec_records R))" "?w = \<lparr>wk_stored = z, wk_payload = d_payload ?d, wk_dirty = False\<rparr>"
        by simp_all
      from resolve_step [OF snd n(1) this(1) run [unfolded Ok] this(2) liveD(2) [OF L] n(2)] obtain v where
        v: "op_get S (own_id spec n) s' = Ok v" "same_draft z ?d" "sound S inv spec (s', add_record (restored n v R) ?w)"
        by blast
      have src: "sn_source (wk_stored ?w) = None" using v(2) by (simp add: same_draft_def Let_def)
      note R = restored_request [OF liveD(3,4) [OF L] n(3), of v]
      have "contents T (add_record (restored n v R) ?w)" by (rule contents_add [OF R(1)]) (use src in simp)
      moreover have "handles (add_record (restored n v R) ?w)" by (rule handles_add [OF R(2)])
      ultimately have "live S inv spec T (s', add_record (restored n v R) ?w)"
        using v(3) liveD(2) [OF L] by (simp add: live_def)
      then show ?thesis
        using v(1) by (simp add: triple_def st resolved Ok)
    next
      case (Err e)
      with resolve_Err [OF x(2)] run have "s' = s" by blast
      then show ?thesis using snd by (simp add: triple_def st resolved Err)
    next
      case Panic
      with no_panic [OF x(2)] run show ?thesis by (metis fst_conv)
    qed
  qed
qed

end

subsection \<open>The end\<close>

text \<open>
  What may be said of the recorder and survives its end: closed under records without a
  source, under the loops and under closing.
\<close>

definition lasting :: "(('n, 'v) recorder \<Rightarrow> bool) \<Rightarrow> bool" where
  "lasting C \<longleftrightarrow>
     (\<forall>R w. C R \<longrightarrow> sn_source (wk_stored w) = None \<longrightarrow> C (add_record R w)) \<and>
     (\<forall>R ws. C R \<longrightarrow> list_all2 same_work (rec_records R) ws \<longrightarrow> C (R\<lparr>rec_records := ws\<rparr>)) \<and>
     (\<forall>R. C R \<longrightarrow> C (R\<lparr>rec_finished := True\<rparr>))"

lemma lasting_contents: "lasting (contents T)"
  unfolding lasting_def using contents_add contents_same_work
  by (auto simp: contents_cong [of "_\<lparr>rec_finished := True\<rparr>"])

lemma lasting_True: "lasting (\<lambda>R. True)"
  by (simp add: lasting_def)

context record_store begin

lemma finish_lasting:
  assumes "lasting C"
  shows "triple (\<lambda>st. sound S inv spec st \<and> C (snd st)) (recorder_finish S complete)
    (\<lambda>_ st. sound S inv spec st \<and> C (snd st) \<and> rec_finished (snd st)) (\<lambda>st. sound S inv spec st \<and> C (snd st))"
proof (rule triple_fixed, goal_cases)
  case (1 st)
  obtain s R where st: "st = (s, R)" by force
  have snd: "sound S inv spec (s, R)" and C: "C R" using 1 st by simp_all
  obtain x s' ws where run: "finish_records S complete (rec_records R) s = (x, s', ws)" using prod.exhaust by metis
  let ?is = "map (own_id spec) [0..<length (rec_records R)]"
  have "inv s" "list_all2 (working_ok S s) ?is (rec_records R)" "distinct ?is"
    using snd by (auto simp: sound_matched distinct_map inj_on_def)
  from finish_loop [OF this, of complete] run
  have post: "loop_post S inv ?is (rec_records R) s (x, s', ws)"
    and final: "x = Ok () \<longrightarrow> list_all2 (\<lambda>w w'. sn_state (wk_stored w') = final_state complete w) (rec_records R) ws"
    by simp_all
  have sound: "sound S inv spec (s', R\<lparr>rec_records := ws\<rparr>)" by (rule loop_sound [OF snd post])
  show ?case
  proof (cases x)
    case (Ok u)
    have "\<forall>w \<in> set ws. is_final (sn_state (wk_stored w))"
      using final Ok by (auto simp: list_all2_conv_all_nth in_set_conv_nth)
    with sound have "sound S inv spec (s', R\<lparr>rec_records := ws, rec_finished := True\<rparr>)" by (auto simp: sound_def)
    moreover have "C (R\<lparr>rec_records := ws, rec_finished := True\<rparr>)"
      using assms C post by (simp add: lasting_def loop_post_def)
    ultimately show ?thesis by (simp add: triple_def st recorder_finish_def and_then_def run Ok on_recorder_def)
  next
    case (Err e)
    moreover have "C (R\<lparr>rec_records := ws\<rparr>)" using assms C post by (simp add: lasting_def loop_post_def)
    ultimately show ?thesis using sound by (simp add: triple_def st recorder_finish_def and_then_def run)
  next
    case Panic
    then show ?thesis using post by (simp add: loop_post_def)
  qed
qed

lemma checkpoint_loop_sound:
  assumes snd: "sound S inv spec (s, R)" and run: "checkpoint_records S (rec_records R) s = (x, s', ws)"
  shows "x \<noteq> Panic" and "sound S inv spec (s', R\<lparr>rec_records := ws\<rparr>)" and "list_all2 same_work (rec_records R) ws"
    and "list_all2 (\<lambda>w w'. sn_state (wk_stored w') = sn_state (wk_stored w)) (rec_records R) ws"
proof -
  let ?is = "map (own_id spec) [0..<length (rec_records R)]"
  have "inv s" "list_all2 (working_ok S s) ?is (rec_records R)" "distinct ?is"
    using snd by (auto simp: sound_matched distinct_map inj_on_def)
  from checkpoint_loop [OF this] run
  have post: "loop_post S inv ?is (rec_records R) s (x, s', ws)"
    and states: "list_all2 (\<lambda>w w'. sn_state (wk_stored w') = sn_state (wk_stored w)) (rec_records R) ws"
    by simp_all
  show "sound S inv spec (s', R\<lparr>rec_records := ws\<rparr>)" by (rule loop_sound [OF snd post])
  show "x \<noteq> Panic" "list_all2 same_work (rec_records R) ws" using post by (simp_all add: loop_post_def)
  show "list_all2 (\<lambda>w w'. sn_state (wk_stored w') = sn_state (wk_stored w)) (rec_records R) ws" by (rule states)
qed

lemma checkpoint_live:
  "triple (live S inv spec T) (recorder_checkpoint S) (\<lambda>_. live S inv spec T) (sound S inv spec)"
proof (rule triple_fixed, goal_cases)
  case (1 st)
  obtain s R where st: "st = (s, R)" by force
  note L = 1 [unfolded st]
  obtain x s' ws where run: "checkpoint_records S (rec_records R) s = (x, s', ws)" using prod.exhaust by metis
  note P = checkpoint_loop_sound [OF liveD(1) [OF L] run]
  have "live S inv spec T (s', R\<lparr>rec_records := ws\<rparr>)"
    using P(2) contents_same_work [OF liveD(3) [OF L] P(3)] handles_same_work [OF liveD(4) [OF L] P(3,4)]
      liveD(2) [OF L] by (simp add: live_def)
  then show ?case
    using P(1) by (cases x) (simp_all add: triple_def st recorder_checkpoint_def run live_sound)
qed

lemma insert_lasting:
  assumes "lasting C"
  shows "triple (\<lambda>st. sound S inv spec st \<and> C (snd st)) (recorder_insert S payload actor reply None Complete)
    (\<lambda>_ st. sound S inv spec st \<and> C (snd st)) (\<lambda>st. sound S inv spec st \<and> C (snd st))"
proof (rule triple_fixed, goal_cases)
  case (1 st)
  obtain s R where st: "st = (s, R)" by force
  have snd: "sound S inv spec (s, R)" and C: "C R" using 1 st by simp_all
  show ?case
    unfolding st
    by (rule triple_weaken [OF insert_triple [OF snd]])
      (use snd C assms in \<open>auto simp: made_def lasting_def\<close>)
qed

lemma evidence_lasting:
  assumes "lasting C"
  shows "triple (\<lambda>st. sound S inv spec st \<and> C (snd st)) (host_evidence S name data)
    (\<lambda>_ st. sound S inv spec st \<and> C (snd st)) (\<lambda>st. sound S inv spec st \<and> C (snd st))"
  unfolding host_evidence_def
proof (rule triple_pair, goal_cases)
  case (1 s R)
  show ?case
    unfolding prod.case
    by (rule triple_and_then [OF triple_pre [OF insert_lasting [OF assms]]], use 1 in simp, rule triple_basic(1), simp)
qed

lemma sound_live_over:
  "sound S inv spec st \<and> contents T (snd st) \<and> rec_finished (snd st) \<longleftrightarrow> over S inv spec T st"
  by (auto simp: over_def)

subsection \<open>One event\<close>

lemma config_live:
  "triple (live S inv spec T) (observe_config D S opts) (\<lambda>_. live S inv spec T) (sound S inv spec)"
  unfolding observe_config_def
proof (rule triple_pair, goal_cases)
  case (1 s R)
  show ?case
  proof (cases "observed_report D opts = rec_last_configuration R")
    case True
    then show ?thesis using 1 by (simp add: triple_def Let_def)
  next
    case False
    let ?R = "R\<lparr>rec_last_configuration := observed_report D opts\<rparr>"
    have L: "live S inv spec T (s, ?R)" by (rule live_cong [OF _ _ _ _ _ _ _ 1]) simp_all
    have "triple ((=) (s, R))
        (and_then (on_recorder (\<lambda>R. R\<lparr>rec_last_configuration := observed_report D opts\<rparr>)) (\<lambda>_.
          and_then (recorder_insert S payload actor None None Complete) (\<lambda>_. give ())))
        (\<lambda>_. live S inv spec T) (sound S inv spec)" for payload actor
      unfolding on_recorder_def
    proof (rule triple_and_then [where Q = "\<lambda>_. (=) (s, ?R)"])
      show "triple ((=) (s, ?R)) (and_then (recorder_insert S payload actor None None Complete) (\<lambda>_. give ()))
          (\<lambda>_. live S inv spec T) (sound S inv spec)"
        by (rule triple_and_then [OF insert_live [OF L]], simp, rule triple_basic(1)) auto
    qed (simp add: triple_def)
    then show ?thesis using False by (simp add: Let_def)
  qed
qed

lemma finished_over:
  "triple (live S inv spec T) (observe_finished D S reason) (\<lambda>_. over S inv spec T) (sound S inv spec)"
  unfolding observe_finished_def
proof (rule triple_pair, goal_cases)
  case (1 s R)
  have fin: "triple (live S inv spec T) (recorder_finish S complete) (\<lambda>_. over S inv spec T) (sound S inv spec)"
    for complete
    by (rule triple_weaken [OF finish_lasting [OF lasting_contents]]) (auto simp: live_def over_def)
  have ins: "triple (live S inv spec T) (recorder_insert S (PRunFinished why) actor None None Complete)
      (\<lambda>_. live S inv spec T) (sound S inv spec)" for why actor
  proof (rule triple_fixed, goal_cases)
    case (1 st)
    obtain s R where st: "st = (s, R)" by force
    show ?case unfolding st by (rule triple_weaken [OF insert_live [OF 1 [unfolded st]]]) auto
  qed
  have set: "triple (live S inv spec T) (on_recorder (\<lambda>R. R\<lparr>rec_input_response := True\<rparr>))
      (\<lambda>_. live S inv spec T) (sound S inv spec)"
    unfolding on_recorder_def by (rule triple_basic(3)) (auto intro: live_cong [rotated 7])
  have ev: "triple ((=) (s, R))
      (if rec_input_receipt R
       then and_then (input_evidence S data) (\<lambda>_. on_recorder (\<lambda>R. R\<lparr>rec_input_response := True\<rparr>))
       else give ())
      (\<lambda>_. live S inv spec T) (sound S inv spec)" for data
  proof (cases "rec_input_receipt R")
    case True
    show ?thesis
      unfolding if_P [OF True] input_evidence_def
      by (rule triple_and_then [OF triple_pre [OF host_evidence_live] set]) (use 1 in simp)
  next
    case False
    then show ?thesis using 1 by (simp add: triple_def)
  qed
  show ?case
    unfolding prod.case
    by (rule triple_and_then [OF ev], rule triple_and_then [OF lift_live [OF finished_reason_no_panic]],
        rule triple_and_then [OF ins fin])
qed

text \<open>Observing an event while the run is live.\<close>

definition observed :: "run_configuration run_spec \<Rightarrow> texts \<Rightarrow> ('n, 'v) acp_event \<Rightarrow> 's \<times> ('n, 'v) recorder \<Rightarrow> bool" where
  "observed spec T event st \<longleftrightarrow>
     (if \<exists>reason. event = Finished reason then over S inv spec (next_texts event T) st
      else live S inv spec (next_texts event T) st)"

lemma observe_event_live:
  fixes D :: "('n, 'v) sdk"
  assumes "sdk_laws D"
  shows "triple (live S inv spec T) (observe_event D S event) (\<lambda>_. observed spec T event) (sound S inv spec)"
proof -
  have live: "triple (live S inv spec T) m (\<lambda>_. observed spec T event) (sound S inv spec)"
    if "triple (live S inv spec T) m (\<lambda>_. live S inv spec T) (sound S inv spec)"
      and "chunk_of event = None" and "\<not> (\<exists>reason. event = Finished reason)"
    for m :: "(unit, 'n, 'v, 's) recording"
    using that(2,3) by (intro triple_weaken [OF that(1)]) (simp_all add: observed_def next_texts_other)
  show ?thesis
  proof (cases event)
    case (Update u)
    show ?thesis
    proof (cases u)
      case (AgentMessageChunk chunk)
      show ?thesis
        unfolding observe_event_def Update AgentMessageChunk acp_event.case session_update.case
        by (rule triple_weaken [OF message_live]) (simp_all add: observed_def next_texts_def)
    next
      case (AgentThoughtChunk chunk)
      show ?thesis
        unfolding observe_event_def Update AgentThoughtChunk acp_event.case session_update.case
        by (rule triple_weaken [OF message_live]) (simp_all add: observed_def next_texts_def)
    next
      case (ToolCallUpdated call)
      have "triple (live S inv spec T) (recorder_tool D S call) (\<lambda>_. live S inv spec T) (sound S inv spec)"
        by (rule triple_weaken [OF tool_live]) auto
      then show ?thesis by (intro live) (simp_all add: observe_event_def Update ToolCallUpdated)
    next
      case (ToolCallFields up)
      have "triple (live S inv spec T) (recorder_tool_update D S up) (\<lambda>_. live S inv spec T) (sound S inv spec)"
        by (rule triple_weaken [OF tool_update_live [OF assms]]) auto
      then show ?thesis by (intro live) (simp_all add: observe_event_def Update ToolCallFields)
    next
      case (ConfigOptionUpdate opts)
      then show ?thesis
        by (intro live) (simp_all add: observe_event_def Update ConfigOptionUpdate config_live)
    next
      case (OtherUpdate x)
      have "triple (live S inv spec T)
          (and_then (lift_result (serde (sdk_other D (OtherUpdate x))))
            (\<lambda>data. recorder_extension S ''session_update'' data))
          (\<lambda>_. live S inv spec T) (sound S inv spec)"
        by (rule triple_and_then [OF lift_live extension_live]) simp
      then show ?thesis by (intro live) (simp_all add: observe_event_def Update OtherUpdate)
    qed
  next
    case (PermissionEvent i request)
    then show ?thesis by (intro live) (simp_all add: observe_event_def permission_live [OF assms])
  next
    case (PermissionResolved i outcome delivery)
    then show ?thesis by (intro live) (simp_all add: observe_event_def resolved_live)
  next
    case (Finished reason)
    show ?thesis
      unfolding observe_event_def Finished acp_event.case
      by (rule triple_weaken [OF finished_over]) (simp_all add: observed_def next_texts_def)
  qed
qed

lemma observe_live:
  assumes "sdk_laws D"
  shows "triple (live S inv spec T) (recorder_observe D S event) (\<lambda>_. observed spec T event) (sound S inv spec)"
  unfolding recorder_observe_def
proof (rule triple_pair, goal_cases)
  case (1 s R)
  have reset: "triple ((=) (s, R)) (if message_chunk event then give () else on_recorder (\<lambda>R. R\<lparr>rec_anonymous := None\<rparr>))
      (\<lambda>_. live S inv spec T) (sound S inv spec)"
    using 1 live_set_anonymous [OF 1, of None] by (simp add: triple_def on_recorder_def)
  show ?case
    unfolding prod.case if_not_P [OF liveD(2) [OF 1]]
    by (rule triple_and_then [OF reset observe_event_live [OF assms]])
qed

end

end
