(* ===== verification/Acp_Context.thy ===== *)
theory Acp_Context imports Acp_Recorder begin

section \<open>Delivering context over ACP (src/acp/context.rs)\<close>

text \<open>
  The encoding of a prepared context into one prompt: the text envelope, image blocks, and
  the receipt that is stored before dispatch. Digest, base64 and the serialized length of
  the protocol crate's blocks are the parameters of \<open>encoder\<close>.
\<close>

datatype context_mode = AppendToNative | AppendImagesToNative

record context_task =
  ct_policy :: context_policy
  ct_prompt :: string
  ct_manifest :: context_manifest
  ct_lookup :: resource_lookup
  ct_limits :: context_limits
  ct_max_bytes :: nat
  ct_mode :: context_mode

datatype prompt_block = TextPrompt string | ImagePrompt string string

record 'v encoder =
  enc_json :: "'v json"
  enc_sha256 :: "string \<Rightarrow> string"
  enc_base64 :: "string \<Rightarrow> string"
  enc_blocks :: "prompt_block list \<Rightarrow> string"

subsection \<open>Evidence\<close>

definition reference_json :: "'v json \<Rightarrow> resource_ref \<Rightarrow> 'v" where
  "reference_json J r =
     j_object J [(''id'', j_string J (as_str (res_id r))), (''revision'', j_string J (res_revision r))]"

definition instruction_json :: "'v json \<Rightarrow> instruction_ref \<Rightarrow> 'v" where
  "instruction_json J i =
     j_object J
       [(''resource'', reference_json J (ins_resource i)),
        (''role'', j_string J (case ins_role i of Base \<Rightarrow> ''base'' | Supplemental \<Rightarrow> ''supplemental''))]"

definition item_json :: "'v json \<Rightarrow> context_item \<Rightarrow> 'v" where
  "item_json J item =
     (case item of
        RecordItem i \<Rightarrow> j_object J [(''type'', j_string J ''record''), (''id'', j_string J (as_str i))]
      | InstructionItem i \<Rightarrow>
          j_object J [(''type'', j_string J ''instruction''), (''instruction'', instruction_json J i)]
      | ResourceItem r \<Rightarrow> j_object J [(''type'', j_string J ''resource''), (''resource'', reference_json J r)])"

definition authority_json :: "'v json \<Rightarrow> instruction_authorization option \<Rightarrow> 'v" where
  "authority_json J auth =
     (case auth of
        None \<Rightarrow> j_null J
      | Some a \<Rightarrow>
          j_object J
            [(''issuer'', j_string J (as_str (ig_issuer (ia_grant a)))),
             (''requester'', j_string J (as_str (ia_requester a))),
             (''subject'', j_string J (as_str (ig_subject (ia_grant a)))),
             (''granted_instructions'',
              j_array J (map (instruction_json J) (ig_instructions (ia_grant a))))])"

definition skill_json :: "'v json \<Rightarrow> skill_request \<Rightarrow> 'v" where
  "skill_json J s =
     (let (delivery, availability, reason) =
        (case sk_delivery s of
           RequireNative \<Rightarrow> (''require_native'', ''resolved'', j_null J)
         | SupplementalText \<Rightarrow> (''supplemental_text'', ''resolved'', j_null J)
         | Omit reason \<Rightarrow> (''omitted'', ''not_checked'', j_string J reason))
      in j_object J
        [(''resource'', reference_json J (sk_resource s)), (''planned_delivery'', j_string J delivery),
         (''local_availability'', j_string J availability), (''native_availability'', j_string J ''unknown''),
         (''native_activation'', j_string J ''not_observed''), (''reason'', reason)])"

definition manifest_json :: "'v json \<Rightarrow> context_manifest \<Rightarrow> 'v" where
  "manifest_json J m =
     j_object J
       [(''records'', j_array J (map (\<lambda>i. j_string J (as_str i)) (cm_records m))),
        (''instructions'', j_array J (map (instruction_json J) (cm_instructions m))),
        (''resources'', j_array J (map (reference_json J) (cm_resources m)))]"

definition policy_evidence :: "'v json \<Rightarrow> 'v prepared_context \<Rightarrow> 'v" where
  "policy_evidence J c =
     j_object J
       [(''skills'', j_array J (map (skill_json J) (pol_skills (pc_policy c)))),
        (''omissions'',
         j_array J (map (\<lambda>o'. j_object J [(''item'', item_json J (om_item o')), (''reason'', j_string J (om_reason o'))])
           (pol_omissions (pc_policy c)))),
        (''instruction_authority'', authority_json J (pol_authorization (pc_policy c))),
        (''requested_context'', manifest_json J (pc_requested_manifest c))]"

subsection \<open>The parts of the envelope\<close>

definition resource_text :: "resource \<Rightarrow> (string, recording_error) result" where
  "resource_text r =
     (if \<not> text_media (rsc_media_type r)
      then Err (UnsupportedContext ''only plain-text and Markdown resources are supported'')
      else if \<not> utf8_ok (rsc_bytes r) then Err (UnsupportedContext ''resource is not UTF-8'')
      else Ok (rsc_bytes r))"

fun encode_instructions :: "'v json \<Rightarrow> prepared_instruction list \<Rightarrow> ('v list, recording_error) result" where
  "encode_instructions J [] = Ok []"
| "encode_instructions J (i # is) =
     (if ins_role (pi_reference i) = Base
      then Err (UnsupportedContext ''ACP text delivery cannot replace base instructions'')
      else
        rbind (encode_instructions J is) (\<lambda>rest.
          Ok (j_object J
                [(''resource'', reference_json J (ins_resource (pi_reference i))),
                 (''role'', j_string J ''supplemental_user_text'')] # rest)))"

definition content_json :: "'v json \<Rightarrow> content \<Rightarrow> 'v" where
  "content_json J c =
     (case c of
        Text t \<Rightarrow> j_object J [(''text'', j_string J t)]
      | Resource r \<Rightarrow> j_object J [(''resource'', reference_json J r)])"

definition state_text :: "record_state \<Rightarrow> string" where
  "state_text s = (case s of Open \<Rightarrow> ''open'' | Complete \<Rightarrow> ''complete'' | Interrupted \<Rightarrow> ''interrupted'')"

definition record_json :: "'v json \<Rightarrow> 'v snapshot \<Rightarrow> ('v, recording_error) result" where
  "record_json J x =
     (case r_payload (sn_record x) of
        PMessage kind m \<Rightarrow>
          rbind
            (case kind of
               User \<Rightarrow> Ok ''user''
             | Agent \<Rightarrow> Ok ''agent''
             | Reasoning \<Rightarrow>
                 Err (UnsupportedContext ''reasoning records require an explicit future delivery policy'')) (\<lambda>kind.
            Ok (j_object J
              [(''id'', j_string J (as_str (r_id (sn_record x)))), (''revision'', j_number J (unat (sn_revision x))),
               (''actor'', j_string J (as_str (r_actor (sn_record x)))), (''kind'', j_string J kind),
               (''state'', j_string J (state_text (sn_state x))),
               (''content'', j_array J (map (content_json J) (msg_content m)))]))
      | _ \<Rightarrow> Err (UnsupportedContext ''selected record is not a conversation message''))"

fun encode_records :: "'v json \<Rightarrow> 'v snapshot list \<Rightarrow> ('v list, recording_error) result" where
  "encode_records J [] = Ok []"
| "encode_records J (x # xs) =
     rbind (record_json J x) (\<lambda>v. rbind (encode_records J xs) (\<lambda>rest. Ok (v # rest)))"

subsection \<open>Images\<close>

definition byte :: "nat \<Rightarrow> char" where
  "byte n = char_of n"

definition image_signature :: "string \<Rightarrow> string \<Rightarrow> bool" where
  "image_signature media bytes =
     (if media = ''image/png'' then
        prefix [byte 0x89, CHR ''P'', CHR ''N'', CHR ''G'', byte 0x0D, byte 0x0A, byte 0x1A, byte 0x0A] bytes
      else if media = ''image/jpeg'' then prefix [byte 0xFF, byte 0xD8, byte 0xFF] bytes
      else if media = ''image/gif'' then prefix ''GIF87a'' bytes \<or> prefix ''GIF89a'' bytes
      else if media = ''image/webp'' then
        prefix ''RIFF'' bytes \<and> length bytes \<ge> 12 \<and> take 4 (drop 8 bytes) = ''WEBP''
      else False)"

text \<open>The base64 length of an image, added to what the images before it take; \<open>usize\<close> is checked.\<close>

definition image_budget :: "nat \<Rightarrow> nat \<Rightarrow> nat \<Rightarrow> nat option" where
  "image_budget used n max_bytes =
     Option.bind (usize_checked_add n 2) (\<lambda>m.
     Option.bind (if m div 3 * 4 < 2 ^ 64 then Some (m div 3 * 4) else None) (\<lambda>k.
     Option.bind (usize_checked_add used k) (\<lambda>used'.
       if used' \<le> max_bytes then Some used' else None)))"

definition too_large :: recording_error where
  "too_large = UnsupportedContext ''encoded prompt exceeds byte limit''"

record 'v encoding_parts =
  ep_resources :: "'v list"
  ep_images :: "prompt_block list"
  ep_image_refs :: "'v list"
  ep_image_bytes :: nat

definition encode_resource ::
  "'v encoder \<Rightarrow> nat \<Rightarrow> bool \<Rightarrow> bool \<Rightarrow> resource \<Rightarrow> 'v encoding_parts \<Rightarrow>
   ('v encoding_parts, recording_error) result" where
  "encode_resource N max_bytes allowed capable r ep =
     (let J = enc_json N in
        if prefix ''image/'' (rsc_media_type r) then
          (if \<not> allowed \<or> \<not> capable then
             Err (UnsupportedContext ''image delivery requires explicit mode and advertised image support'')
           else if \<not> image_signature (rsc_media_type r) (rsc_bytes r) then
             Err (UnsupportedContext ''unsupported image type or invalid signature'')
           else
             (case image_budget (ep_image_bytes ep) (length (rsc_bytes r)) max_bytes of
                None \<Rightarrow> Err too_large
              | Some used' \<Rightarrow>
                  (let descriptor =
                     j_object J
                       [(''reference'', reference_json J (rsc_reference r)),
                        (''media_type'', j_string J (rsc_media_type r)),
                        (''sha256'', j_string J (enc_sha256 N (rsc_bytes r))),
                        (''bytes'', j_number J (length (rsc_bytes r))),
                        (''prompt_block'', j_number J (length (ep_images ep) + 1))]
                   in Ok \<lparr>ep_resources = ep_resources ep @ [descriptor],
                         ep_images = ep_images ep @ [ImagePrompt (enc_base64 N (rsc_bytes r)) (rsc_media_type r)],
                         ep_image_refs = ep_image_refs ep @ [descriptor],
                         ep_image_bytes = used'\<rparr>)))
        else
          rbind (resource_text r) (\<lambda>t.
            Ok (ep\<lparr>ep_resources := ep_resources ep @
              [j_object J
                 [(''reference'', reference_json J (rsc_reference r)),
                  (''media_type'', j_string J (rsc_media_type r)), (''text'', j_string J t)]]\<rparr>)))"

fun encode_resources ::
  "'v encoder \<Rightarrow> nat \<Rightarrow> bool \<Rightarrow> bool \<Rightarrow> resource list \<Rightarrow> 'v encoding_parts \<Rightarrow>
   ('v encoding_parts, recording_error) result" where
  "encode_resources N max_bytes allowed capable [] ep = Ok ep"
| "encode_resources N max_bytes allowed capable (r # rs) ep =
     rbind (encode_resource N max_bytes allowed capable r ep) (encode_resources N max_bytes allowed capable rs)"

subsection \<open>The prompt and its receipt\<close>

text \<open>\<open>receipt[key] = value\<close> on an object.\<close>

definition set_field :: "string \<Rightarrow> 'v \<Rightarrow> (string \<times> 'v) list \<Rightarrow> (string \<times> 'v) list" where
  "set_field k v m =
     (if k \<in> set (map fst m) then map (\<lambda>e. if fst e = k then (k, v) else e) m else m @ [(k, v)])"

definition envelope_json ::
  "'v json \<Rightarrow> string \<Rightarrow> 'v list \<Rightarrow> 'v list \<Rightarrow> 'v list \<Rightarrow> string \<Rightarrow> 'v" where
  "envelope_json J encoding records instructions resources prompt =
     j_object J
       [(''encoding'', j_string J encoding), (''context_mode'', j_string J ''append_to_native''),
        (''history'', j_array J records), (''supplemental_instructions'', j_array J instructions),
        (''resources'', j_array J resources), (''task'', j_string J prompt)]"

definition prepared_fields :: "'v json \<Rightarrow> string \<Rightarrow> string \<Rightarrow> (string \<times> 'v) list" where
  "prepared_fields J encoding wire =
     [(''version'', j_number J 1), (''state'', j_string J ''prepared''), (''encoding'', j_string J encoding),
      (''context_mode'', j_string J ''append_to_native''), (''omissions'', j_array J []),
      (''wire_text'', j_string J wire), (''wire_bytes'', j_number J (length wire))]"

definition image_fields :: "'v json \<Rightarrow> nat \<Rightarrow> 'v list \<Rightarrow> (string \<times> 'v) list \<Rightarrow> (string \<times> 'v) list" where
  "image_fields J used refs flds =
     set_field ''resource_retention'' (j_string J ''supplied_resource_store'')
       (set_field ''images'' (j_array J refs)
         (set_field ''wire_bytes'' (j_number J used) (set_field ''version'' (j_number J 2) flds)))"

definition policy_fields :: "'v json \<Rightarrow> 'v prepared_context \<Rightarrow> (string \<times> 'v) list \<Rightarrow> (string \<times> 'v) list" where
  "policy_fields J c flds =
     (let evidence = policy_evidence J c in
        fold (\<lambda>key. set_field key (j_index J evidence key))
          [''omissions'', ''instruction_authority'', ''requested_context'']
          (set_field ''version'' (j_number J 3) flds))"

definition skill_fields :: "'v json \<Rightarrow> 'v prepared_context \<Rightarrow> (string \<times> 'v) list \<Rightarrow> (string \<times> 'v) list" where
  "skill_fields J c flds =
     set_field ''skills'' (j_index J (policy_evidence J c) ''skills'')
       (set_field ''version'' (j_number J 4) flds)"

definition encode ::
  "'v encoder \<Rightarrow> 'v prepared_context \<Rightarrow> string \<Rightarrow> nat \<Rightarrow> bool \<Rightarrow> bool \<Rightarrow>
   (string \<times> prompt_block list \<times> 'v, recording_error) result" where
  "encode N c prompt max_bytes allowed capable =
     (let J = enc_json N in
        if \<exists>s \<in> set (pol_skills (pc_policy c)). sk_delivery s = RequireNative then
          Err (UnsupportedContext ''this ACP driver cannot guarantee native skill registration or activation'')
        else
          rbind (encode_instructions J (pc_instructions c)) (\<lambda>instructions.
          rbind (encode_records J (pc_records c)) (\<lambda>records.
          rbind (encode_resources N max_bytes allowed capable (pc_resources c)
              \<lparr>ep_resources = [], ep_images = [], ep_image_refs = [], ep_image_bytes = 0\<rparr>) (\<lambda>ep.
            let encoding =
                  (if ep_images ep = [] then ''agent_bridge.text_context.v1'' else ''agent_bridge.media_context.v1'');
                wire = j_text J (envelope_json J encoding records instructions (ep_resources ep) prompt);
                blocks = TextPrompt wire # ep_images ep;
                flds = prepared_fields J encoding wire
            in
              if length wire > max_bytes then Err too_large
              else if ep_image_refs ep \<noteq> [] \<and> length (enc_blocks N blocks) > max_bytes then Err too_large
              else
                (let flds =
                       (if ep_image_refs ep \<noteq> []
                        then image_fields J (length (enc_blocks N blocks)) (ep_image_refs ep) flds else flds);
                     flds =
                       (if pol_omissions (pc_policy c) \<noteq> [] \<or> pol_authorization (pc_policy c) \<noteq> None
                        then policy_fields J c flds else flds);
                     flds = (if pol_skills (pc_policy c) \<noteq> [] then skill_fields J c flds else flds)
                 in Ok (wire, blocks, j_object J flds))))))"

subsection \<open>What a receipt says\<close>

lemma map_fst_set_field: "map fst (set_field k v m) = (if k \<in> set (map fst m) then map fst m else map fst m @ [k])"
proof -
  have "map fst (map (\<lambda>e. if fst e = k then (k, v) else e) m) = map fst m" by (induction m) auto
  then show ?thesis by (simp add: set_field_def)
qed

lemma set_field_distinct: "distinct (map fst m) \<Longrightarrow> distinct (map fst (set_field k v m))"
  by (simp add: map_fst_set_field)

lemma map_of_set_field: "map_of (set_field k v m) k' = (if k' = k then Some v else map_of m k')"
proof (cases "k \<in> set (map fst m)")
  case True
  have "map_of (map (\<lambda>e. if fst e = k then (k, v) else e) xs) k' =
      (if k' = k \<and> k \<in> set (map fst xs) then Some v else map_of xs k')" for xs :: "(string \<times> 'a) list"
  proof (induction xs)
    case (Cons e xs)
    obtain a b where "e = (a, b)" by force
    with Cons show ?case by (cases "a = k") (auto simp: rev_image_eqI)
  qed simp
  with True show ?thesis by (simp add: set_field_def)
next
  case False
  then have "set_field k v m = m @ [(k, v)]" by (simp add: set_field_def)
  moreover have "map_of m k = None" using False by (simp add: map_of_eq_None_iff)
  ultimately show ?thesis by (auto simp: map_add_def split: option.splits)
qed

end
