(* ===== verification/Acp_Start.thy ===== *)
theory Acp_Start imports Acp_Recorded Acp_Context Child_Plan begin

section \<open>Starting recorded runs (src/acp/session.rs, src/acp/structured.rs)\<close>

text \<open>
  Every way to start a recorded run: plain, with prepared context, as a child, for a
  structured result. What the connection answers is the record \<open>acp_env\<close>: whether it is
  closed at the checks and at the dispatch, the error of sending the prompt, the agent's
  image capability. Nothing is sent before \<open>launch\<close>.
\<close>

record acp_env =
  env_ord :: "pending_map \<Rightarrow> pending_map"
  env_link :: "nat \<Rightarrow> string option"
  env_closed :: bool
  env_closed_late :: bool
  env_send :: "prompt_block list \<Rightarrow> string option"
  env_images :: bool

type_synonym ('n, 'v, 's) started_run =
  "(('n, 'v) recorded_run, recording_error) result \<times> 's \<times> acp_session"

subsection \<open>Dispatch\<close>

definition launch ::
  "('n, 'v) sdk \<Rightarrow> ('v, 's) record_store_ops \<Rightarrow> acp_env \<Rightarrow> run_configuration run_spec \<Rightarrow> string \<Rightarrow>
   prompt_block list \<Rightarrow> acp_session \<Rightarrow> 's \<times> ('n, 'v) recorder \<Rightarrow> ('n, 'v, 's) started_run" where
  "launch D S V spec wire blocks sess st =
     (case st of (s, R) \<Rightarrow>
        (case acp_dispatch (env_ord V) (env_link V) (env_closed_late V) (env_send V blocks) spec wire sess of
           (Ok run, sess) \<Rightarrow> (Ok (recorded_new run R), s, sess)
         | (Panic, sess) \<Rightarrow> (Panic, s, sess)
         | (Err e, sess) \<Rightarrow>
             (case recorder_interrupt D S (acp_error_text (sdk_store_text D) e) (s, R) of
                (Ok _, s, R) \<Rightarrow> (Err (RecAgent e), s, sess)
              | (Err e', s, R) \<Rightarrow> (Err e', s, sess)
              | (Panic, s, R) \<Rightarrow> (Panic, s, sess))))"

text \<open>The run is registered, the steps before the dispatch are recorded, then it is dispatched.\<close>

definition record_and_launch ::
  "('n, 'v) sdk \<Rightarrow> ('v, 's) record_store_ops \<Rightarrow> acp_env \<Rightarrow> run_configuration run_spec \<Rightarrow> string \<Rightarrow>
   record_actors \<Rightarrow> (unit, 'n, 'v, 's) recording \<Rightarrow> string \<Rightarrow> prompt_block list \<Rightarrow> acp_session \<Rightarrow> 's \<Rightarrow>
   ('n, 'v, 's) started_run" where
  "record_and_launch D S V spec prompt actors steps wire blocks sess s =
     (case recorder_new D S spec prompt actors s of
        (Err e, s) \<Rightarrow> (Err e, s, sess)
      | (Panic, s) \<Rightarrow> (Panic, s, sess)
      | (Ok R, s) \<Rightarrow>
          (case steps (s, R) of
             (Err e, s, R) \<Rightarrow> (Err e, s, sess)
           | (Panic, s, R) \<Rightarrow> (Panic, s, sess)
           | (Ok _, s, R) \<Rightarrow> launch D S V spec wire blocks sess (s, R)))"

text \<open>The checks every start makes before it touches the store.\<close>

definition preflight :: "acp_env \<Rightarrow> string \<Rightarrow> acp_session \<Rightarrow> (unit, recording_error) result" where
  "preflight V prompt sess =
     (if blank prompt then Err (RecAgent EmptyPrompt)
      else if as_retired sess \<or> \<not> as_quiescent sess then Err (RecAgent SessionUnavailable)
      else if env_closed V then Err (RecAgent AcpClosed)
      else Ok ())"

text \<open>A check that fails returns its error with store and session unchanged.\<close>

definition checked ::
  "('a, recording_error) result \<Rightarrow> 's \<Rightarrow> acp_session \<Rightarrow> ('a \<Rightarrow> ('r, recording_error) result \<times> 's \<times> acp_session) \<Rightarrow>
   ('r, recording_error) result \<times> 's \<times> acp_session" where
  "checked r s sess f =
     (case r of Ok x \<Rightarrow> f x | Err e \<Rightarrow> (Err e, s, sess) | Panic \<Rightarrow> (Panic, s, sess))"

subsection \<open>A plain run\<close>

definition report_steps ::
  "('n, 'v) sdk \<Rightarrow> ('v, 's) record_store_ops \<Rightarrow> 'v option \<Rightarrow> (unit, 'n, 'v, 's) recording" where
  "report_steps D S report =
     and_then (case report of Some r \<Rightarrow> recorder_restoration S r | None \<Rightarrow> give ()) (\<lambda>_.
       execution_evidence D S ''dispatch_attempted'')"

definition start_recorded_with_report ::
  "('n, 'v) sdk \<Rightarrow> ('v, 's) record_store_ops \<Rightarrow> acp_env \<Rightarrow> run_id \<Rightarrow> string \<Rightarrow> record_actors \<Rightarrow> 'v option \<Rightarrow>
   acp_session \<Rightarrow> 's \<Rightarrow> ('n, 'v, 's) started_run" where
  "start_recorded_with_report D S V i prompt actors report sess s =
     checked (preflight V prompt sess) s sess (\<lambda>_.
     checked (map_err RecAgent (acp_run_spec i sess)) s sess (\<lambda>spec.
       record_and_launch D S V spec prompt actors (report_steps D S report) prompt [TextPrompt prompt] sess s))"

definition start_recorded_run ::
  "('n, 'v) sdk \<Rightarrow> ('v, 's) record_store_ops \<Rightarrow> acp_env \<Rightarrow> run_id \<Rightarrow> string \<Rightarrow> record_actors \<Rightarrow>
   acp_session \<Rightarrow> 's \<Rightarrow> ('n, 'v, 's) started_run" where
  "start_recorded_run D S V i prompt actors sess s =
     start_recorded_with_report D S V i prompt actors None sess s"

subsection \<open>A run with prepared context\<close>

record 'v prepared_task =
  pt_prompt :: string
  pt_context :: "'v prepared_context"
  pt_mode :: context_mode
  pt_max_bytes :: nat
  pt_restoration :: "'v option"

definition foreign_issuer :: "'v prepared_context \<Rightarrow> actor_id \<Rightarrow> bool" where
  "foreign_issuer c host =
     (case pol_authorization (pc_policy c) of None \<Rightarrow> False | Some a \<Rightarrow> ig_issuer (ia_grant a) \<noteq> host)"

text \<open>The selected records are still the stored ones.\<close>

fun records_current ::
  "(record_id \<Rightarrow> ('v snapshot, store_error) result) \<Rightarrow> 'v snapshot list \<Rightarrow> (unit, recording_error) result" where
  "records_current get [] = Ok ()"
| "records_current get (x # xs) =
     rbind (map_err RecStore (get (r_id (sn_record x)))) (\<lambda>y.
       if y \<noteq> x then Err (RecStore RevisionConflict) else records_current get xs)"

definition encode_for ::
  "'v encoder \<Rightarrow> acp_env \<Rightarrow> 'v prepared_context \<Rightarrow> string \<Rightarrow> nat \<Rightarrow> context_mode \<Rightarrow>
   (string \<times> prompt_block list \<times> 'v, recording_error) result" where
  "encode_for N V c prompt max_bytes mode = encode N c prompt max_bytes (mode = AppendImagesToNative) (env_images V)"

definition input_steps ::
  "('n, 'v) sdk \<Rightarrow> ('v, 's) record_store_ops \<Rightarrow> 'v \<Rightarrow> (unit, 'n, 'v, 's) recording \<Rightarrow> (unit, 'n, 'v, 's) recording" where
  "input_steps D S receipt between =
     and_then (prepare_input D S receipt) (\<lambda>_.
     and_then between (\<lambda>_.
     and_then (input_dispatch_attempted D S) (\<lambda>_.
       execution_evidence D S ''dispatch_attempted'')))"

definition start_prepared_context_run ::
  "('n, 'v) sdk \<Rightarrow> 'v encoder \<Rightarrow> ('v, 's) record_store_ops \<Rightarrow> acp_env \<Rightarrow> run_id \<Rightarrow> 'v prepared_task \<Rightarrow>
   record_actors \<Rightarrow> acp_session \<Rightarrow> 's \<Rightarrow> ('n, 'v, 's) started_run" where
  "start_prepared_context_run D N S V i task actors sess s =
     checked (preflight V (pt_prompt task) sess) s sess (\<lambda>_.
     checked (map_err RecAgent (acp_run_spec i sess)) s sess (\<lambda>spec.
     checked
       (if foreign_issuer (pt_context task) (ra_host actors) then Err (RecContext InstructionUnauthorized)
        else Ok ()) s sess (\<lambda>_.
     checked (records_current (\<lambda>j. op_get S j s) (pc_records (pt_context task))) s sess (\<lambda>_.
     checked (encode_for N V (pt_context task) (pt_prompt task) (pt_max_bytes task) (pt_mode task)) s sess
       (\<lambda>(wire, blocks, receipt).
       record_and_launch D S V (spec\<lparr>rs_context := pc_manifest (pt_context task)\<rparr>) (pt_prompt task) actors
         (input_steps D S receipt
           (case pt_restoration task of Some r \<Rightarrow> recorder_restoration S r | None \<Rightarrow> give ()))
         wire blocks sess s)))))"

definition prepare_task ::
  "('v, 's) record_store_ops \<Rightarrow> context_task \<Rightarrow> acp_session \<Rightarrow> 's \<Rightarrow> ('v prepared_context, recording_error) result" where
  "prepare_task S task sess s =
     map_err RecContext
       (prepare_with_policy (ct_manifest task) (\<lambda>j. op_get S j s) (ct_lookup task) [as_session_id sess]
         (ct_limits task) (ct_policy task))"

definition start_recorded_context_run ::
  "('n, 'v) sdk \<Rightarrow> 'v encoder \<Rightarrow> ('v, 's) record_store_ops \<Rightarrow> acp_env \<Rightarrow> run_id \<Rightarrow> context_task \<Rightarrow>
   record_actors \<Rightarrow> acp_session \<Rightarrow> 's \<Rightarrow> ('n, 'v, 's) started_run" where
  "start_recorded_context_run D N S V i task actors sess s =
     checked (preflight V (ct_prompt task) sess) s sess (\<lambda>_.
     checked (prepare_task S task sess s) s sess (\<lambda>c.
       start_prepared_context_run D N S V i
         \<lparr>pt_prompt = ct_prompt task, pt_context = c, pt_mode = ct_mode task, pt_max_bytes = ct_max_bytes task,
          pt_restoration = None\<rparr> actors sess s))"

subsection \<open>A child run\<close>

definition start_recorded_child_run ::
  "('n, 'v) sdk \<Rightarrow> 'v encoder \<Rightarrow> ('v, 's) record_store_ops \<Rightarrow> 's execution_store_ops \<Rightarrow> acp_env \<Rightarrow> child_plan \<Rightarrow>
   context_task \<Rightarrow> record_actors \<Rightarrow> acp_session \<Rightarrow> 's \<Rightarrow> ('n, 'v, 's) started_run" where
  "start_recorded_child_run D N S E V plan task actors sess s =
     checked
       (if \<not> as_fresh sess \<or> as_retired sess \<or> \<not> as_quiescent sess then Err (RecAgent SessionUnavailable)
        else if env_closed V then Err (RecAgent AcpClosed)
        else if blank (ct_prompt task) then Err (RecAgent EmptyPrompt)
        else if ra_host actors \<noteq> grant_issuer (child_plan_authority plan) \<or>
                ra_agent actors \<noteq> grant_subject (child_plan_authority plan)
        then Err (RecStore InvalidExecutionRelation)
        else Ok ()) s sess (\<lambda>_.
     checked (prepare_task S task sess s) s sess (\<lambda>c.
     checked (if foreign_issuer c (ra_host actors) then Err (RecContext InstructionUnauthorized) else Ok ())
       s sess (\<lambda>_.
     checked (map_err RecAgent (acp_run_spec (req_id (cp_request plan)) sess)) s sess (\<lambda>spec.
     checked
       (map_err RecStore (child_plan_validate_run S E plan (spec\<lparr>rs_context := pc_manifest c\<rparr>) s)) s sess
       (\<lambda>relation.
     checked (encode_for N V c (ct_prompt task) (ct_max_bytes task) (ct_mode task)) s sess
       (\<lambda>(wire, blocks, receipt).
       record_and_launch D S V (spec\<lparr>rs_context := pc_manifest c\<rparr>) (ct_prompt task) actors
         (and_then (on_store (op_link_execution E relation)) (\<lambda>_. input_steps D S receipt (give ())))
         wire blocks sess s))))))"

subsection \<open>A run with a structured result\<close>

datatype json_output_mode = ValidateReturnedText | RequireNativeEnforcement

record 't json_task =
  jt_prompt :: string
  jt_contract :: "'t json_contract"
  jt_mode :: json_output_mode

record ('n, 'v, 't) json_run =
  jr_inner :: "('n, 'v) recorded_run"
  jr_contract :: "'t json_contract"
  jr_result :: "('t, json_rejection) result option"
  jr_failed :: bool

definition task_wire :: "'v json \<Rightarrow> 't json_task \<Rightarrow> string" where
  "task_wire J task =
     j_text J (j_object J
       [(''task'', j_string J (jt_prompt task)),
        (''output_instructions'', j_string J (jc_instructions (jt_contract task))),
        (''format'', j_string J
          (''Return exactly one JSON value in one assistant message. '' @
           ''No Markdown fences or surrounding prose.''))])"

definition contract_json :: "'v json \<Rightarrow> 't json_contract \<Rightarrow> string \<Rightarrow> 'v" where
  "contract_json J c wire =
     j_object J
       [(''version'', j_number J 1), (''name'', j_string J (jc_name c)), (''revision'', j_string J (jc_revision c)),
        (''mode'', j_string J ''validate_returned_text''), (''native_enforcement'', j_bool J False),
        (''max_validation_bytes'', j_number J (jc_max_bytes c)), (''validator'', j_string J ''serde_deserialize''),
        (''application_validation'', j_bool J (jc_check c \<noteq> None)), (''wire_text'', j_string J wire)]"

text \<open>The wire text, its blocks and, with context, the receipt.\<close>

definition json_wire ::
  "'v encoder \<Rightarrow> ('v, 's) record_store_ops \<Rightarrow> acp_env \<Rightarrow> string \<Rightarrow>
   ('v prepared_context \<times> context_mode \<times> nat) option \<Rightarrow> record_actors \<Rightarrow> 's \<Rightarrow>
   (string \<times> prompt_block list \<times> 'v option, recording_error) result" where
  "json_wire N S V wire context actors s =
     (case context of
        None \<Rightarrow> Ok (wire, [TextPrompt wire], None)
      | Some (c, mode, limit) \<Rightarrow>
          if foreign_issuer c (ra_host actors) then Err (RecContext InstructionUnauthorized)
          else
            rbind (records_current (\<lambda>j. op_get S j s) (pc_records c)) (\<lambda>_.
            rbind (encode_for N V c wire limit mode) (\<lambda>(wire, blocks, receipt). Ok (wire, blocks, Some receipt))))"

definition json_steps ::
  "('n, 'v) sdk \<Rightarrow> ('v, 's) record_store_ops \<Rightarrow> 't json_contract \<Rightarrow> string \<Rightarrow> 'v option \<Rightarrow>
   (unit, 'n, 'v, 's) recording" where
  "json_steps D S c wire receipt =
     and_then (result_evidence S ''result_contract'' (contract_json (sdk_json D) c wire)) (\<lambda>_.
     and_then
       (case receipt of
          Some r \<Rightarrow> and_then (prepare_input D S r) (\<lambda>_. input_dispatch_attempted D S)
        | None \<Rightarrow> give ()) (\<lambda>_.
       execution_evidence D S ''dispatch_attempted''))"

definition start_json_run ::
  "('n, 'v) sdk \<Rightarrow> 'v encoder \<Rightarrow> ('v, 's) record_store_ops \<Rightarrow> acp_env \<Rightarrow> run_id \<Rightarrow> 't json_task \<Rightarrow>
   ('v prepared_context \<times> context_mode \<times> nat) option \<Rightarrow> record_actors \<Rightarrow> acp_session \<Rightarrow> 's \<Rightarrow>
   (('n, 'v, 't) json_run, recording_error) result \<times> 's \<times> acp_session" where
  "start_json_run D N S V i task context actors sess s =
     checked
       (if jt_mode task = RequireNativeEnforcement then Err NativeStructuredOutputUnsupported
        else preflight V (jt_prompt task) sess) s sess (\<lambda>_.
     checked (map_err RecAgent (acp_run_spec i sess)) s sess (\<lambda>spec.
     checked (json_wire N S V (task_wire (sdk_json D) task) context actors s) s sess (\<lambda>(wire, blocks, receipt).
       (case record_and_launch D S V
               (case context of Some (c, _) \<Rightarrow> spec\<lparr>rs_context := pc_manifest c\<rparr> | None \<Rightarrow> spec)
               (jt_prompt task) actors (json_steps D S (jt_contract task) wire receipt) wire blocks sess s of
          (Ok inner, s, sess) \<Rightarrow>
            (Ok \<lparr>jr_inner = inner, jr_contract = jt_contract task, jr_result = None, jr_failed = False\<rparr>, s, sess)
        | (Err e, s, sess) \<Rightarrow> (Err e, s, sess)
        | (Panic, s, sess) \<Rightarrow> (Panic, s, sess)))))"

definition start_recorded_json_run ::
  "('n, 'v) sdk \<Rightarrow> 'v encoder \<Rightarrow> ('v, 's) record_store_ops \<Rightarrow> acp_env \<Rightarrow> run_id \<Rightarrow> 't json_task \<Rightarrow>
   record_actors \<Rightarrow> acp_session \<Rightarrow> 's \<Rightarrow>
   (('n, 'v, 't) json_run, recording_error) result \<times> 's \<times> acp_session" where
  "start_recorded_json_run D N S V i task actors sess s = start_json_run D N S V i task None actors sess s"

definition start_recorded_context_json_run ::
  "('n, 'v) sdk \<Rightarrow> 'v encoder \<Rightarrow> ('v, 's) record_store_ops \<Rightarrow> acp_env \<Rightarrow> run_id \<Rightarrow> 't json_task \<Rightarrow> context_task \<Rightarrow>
   record_actors \<Rightarrow> acp_session \<Rightarrow> 's \<Rightarrow>
   (('n, 'v, 't) json_run, recording_error) result \<times> 's \<times> acp_session" where
  "start_recorded_context_json_run D N S V i task context actors sess s =
     checked
       (if ct_prompt context \<noteq> jt_prompt task
        then Err (UnsupportedContext ''context and result prompts differ'') else Ok ()) s sess (\<lambda>_.
     checked (prepare_task S context sess s) s sess (\<lambda>c.
       start_json_run D N S V i task (Some (c, ct_mode context, ct_max_bytes context)) actors sess s))"

text \<open>
  Settling the result. \<open>reason_text\<close> is the \<open>Debug\<close> text of a stop reason,
  \<open>rejection_json\<close> the derived serialization of a rejection.
\<close>

definition validation_json ::
  "'v json \<Rightarrow> (json_rejection \<Rightarrow> 'v) \<Rightarrow> 't json_contract \<Rightarrow> 'v \<Rightarrow> ('t, json_rejection) result \<Rightarrow> 'v" where
  "validation_json J rejection_json c sources outcome =
     j_object J
       [(''version'', j_number J 1),
        (''contract'', j_object J [(''name'', j_string J (jc_name c)), (''revision'', j_string J (jc_revision c))]),
        (''mode'', j_string J ''validate_returned_text''), (''native_enforcement'', j_bool J False),
        (''sources'', sources),
        (''validation'',
         case outcome of
           Err rejection \<Rightarrow>
             j_object J [(''status'', j_string J ''rejected''), (''rejection'', rejection_json rejection)]
         | _ \<Rightarrow> j_object J [(''status'', j_string J ''valid'')])]"

definition json_outcome ::
  "('n, 'v) sdk \<Rightarrow> (stop_reason \<Rightarrow> string) \<Rightarrow> (string \<Rightarrow> ('t, parse_error) result) \<Rightarrow> stop_reason option \<Rightarrow>
   ('n, 'v, 't) json_run \<Rightarrow> ('t, json_rejection) result" where
  "json_outcome D reason_text parse reason r =
     (if reason = Some StopEndTurn
      then rbind (snd (json_candidate D (jr_inner r))) (contract_validate parse (jr_contract r))
      else Err (Incomplete
        (case reason of
           Some why \<Rightarrow> ''provider stopped: '' @ reason_text why
         | None \<Rightarrow> ''recording or provider error'')))"

definition json_settle ::
  "('n, 'v) sdk \<Rightarrow> ('v, 's) record_store_ops \<Rightarrow> (stop_reason \<Rightarrow> string) \<Rightarrow> (json_rejection \<Rightarrow> 'v) \<Rightarrow>
   (string \<Rightarrow> ('t, parse_error) result) \<Rightarrow> stop_reason option \<Rightarrow> 's \<times> ('n, 'v, 't) json_run \<Rightarrow>
   (unit, recording_error) result \<times> 's \<times> ('n, 'v, 't) json_run" where
  "json_settle D S reason_text rejection_json parse reason st =
     (case st of (s, r) \<Rightarrow>
        (let outcome = json_outcome D reason_text parse reason r;
             sources = fst (json_candidate D (jr_inner r)) in
           (case recorded_result_evidence S
                   (validation_json (sdk_json D) rejection_json (jr_contract r) sources outcome) (s, jr_inner r) of
              (Ok _, s, inner) \<Rightarrow> (Ok (), s, r\<lparr>jr_inner := inner, jr_result := Some outcome\<rparr>)
            | (x, s, inner) \<Rightarrow> (x, s, r\<lparr>jr_inner := inner\<rparr>))))"

text \<open>\<open>next\<close>, as a poll.\<close>

definition json_next ::
  "('n, 'v) sdk \<Rightarrow> ('v, 's) record_store_ops \<Rightarrow> (stop_reason \<Rightarrow> string) \<Rightarrow> (json_rejection \<Rightarrow> 'v) \<Rightarrow>
   (string \<Rightarrow> ('t, parse_error) result) \<Rightarrow> (pending_map \<Rightarrow> pending_map) \<Rightarrow> (nat \<Rightarrow> string option) \<Rightarrow>
   string option \<Rightarrow> bool \<Rightarrow> 's \<times> ('n, 'v, 't) json_run \<Rightarrow>
   (('n, 'v) acp_event option, recording_error) result option \<times> 's \<times> ('n, 'v, 't) json_run" where
  "json_next D S reason_text rejection_json parse ord link sent closed st =
     (case st of (s, r) \<Rightarrow>
        if jr_failed r then (Some (Err RecClosed), s, r)
        else
          (case recorded_next D S ord link sent closed (s, jr_inner r) of
             (None, s, inner) \<Rightarrow> (None, s, r\<lparr>jr_inner := inner\<rparr>)
           | (Some Panic, s, inner) \<Rightarrow> (Some Panic, s, r\<lparr>jr_inner := inner\<rparr>)
           | (Some (Err e), s, inner) \<Rightarrow>
               (case json_settle D S reason_text rejection_json parse None
                       (s, r\<lparr>jr_inner := inner, jr_failed := True\<rparr>) of
                  (Ok _, s, r) \<Rightarrow> (Some (Err e), s, r)
                | (Err e', s, r) \<Rightarrow> (Some (Err e'), s, r)
                | (Panic, s, r) \<Rightarrow> (Some Panic, s, r))
           | (Some (Ok event), s, inner) \<Rightarrow>
               (let r = r\<lparr>jr_inner := inner\<rparr> in
                  (case event of
                     Some (Finished reason) \<Rightarrow>
                       if jr_result r \<noteq> None then (Some (Ok event), s, r)
                       else
                         (case json_settle D S reason_text rejection_json parse (Some reason) (s, r) of
                            (Ok _, s, r) \<Rightarrow> (Some (Ok event), s, r)
                          | (Err e, s, r) \<Rightarrow> (Some (Err e), s, r\<lparr>jr_failed := True\<rparr>)
                          | (Panic, s, r) \<Rightarrow> (Some Panic, s, r))
                   | _ \<Rightarrow> (Some (Ok event), s, r)))))"

end
