(* ===== verification/Recorded_Trace.thy ===== *)
theory Recorded_Trace imports Recorder_Run Acp_Start begin

section \<open>Sequences of steps of a recorded run\<close>

text \<open>
  From a start on: the provider's callbacks, the consumer's calls on the recorded run, and
  mutations of the store by others that do not touch this run's record identifiers, in any
  order. The log is the one of the inner run. A step of the recorded run that fails for good
  (an error of \<open>next\<close> or \<open>checkpoint\<close>) ends the sequence; what it leaves is described beside it.
\<close>

definition own_prefix :: "'c run_spec \<Rightarrow> string" where
  "own_prefix spec = ''run/'' @ sized (as_str (rs_id spec)) @ ''/record/''"

definition own_record :: "'c run_spec \<Rightarrow> record_id \<Rightarrow> bool" where
  "own_record spec i \<longleftrightarrow> prefix (own_prefix spec) (as_str i)"

lemma own_id_own [simp]: "own_record spec (own_id spec n)"
  by (simp add: own_record_def own_id_def own_prefix_def record_text_def)

definition foreign :: "'c run_spec \<Rightarrow> 'v store_op \<Rightarrow> bool" where
  "foreign spec oper =
     (case oper of
        Insert d \<Rightarrow> \<not> own_record spec (d_id d)
      | Checkpoint i _ _ _ \<Rightarrow> \<not> own_record spec i
      | Resolve i _ d \<Rightarrow> \<not> own_record spec i \<and> \<not> own_record spec (d_id d)
      | _ \<Rightarrow> True)"

definition respond_log ::
  "permission_id \<Rightarrow> string option \<Rightarrow> ('n, 'v) recorded_run \<Rightarrow> ('n, 'v) recorded_run \<Rightarrow> ('n, 'v) acp_log list" where
  "respond_log i opt r r' = (if rr_inner r' = rr_inner r then [] else [Decided i opt])"

inductive recorded_trace ::
  "('n, 'v) sdk \<Rightarrow> ('v, 's) record_store_ops \<Rightarrow> (pending_map \<Rightarrow> pending_map) \<Rightarrow> 's \<Rightarrow> ('n, 'v) recorded_run \<Rightarrow>
   ('n, 'v) acp_log list \<Rightarrow> 's \<Rightarrow> ('n, 'v) recorded_run \<Rightarrow> bool"
  for D S ord s0 r0 where
  rec_start: "recorded_trace D S ord s0 r0 [] s0 r0"
| rec_update:
    "recorded_trace D S ord s0 r0 es s r \<Longrightarrow>
     recorded_trace D S ord s0 r0 (es @ [GotUpdate u]) s
       (r\<lparr>rr_inner := snd (acp_update ord link (sdk_category D) u (rr_inner r))\<rparr>)"
| rec_ask:
    "recorded_trace D S ord s0 r0 es s r \<Longrightarrow> token \<notin> fst ` set (asked es) \<Longrightarrow>
     Suc (length (asked es)) < 2 ^ 64 \<Longrightarrow>
     recorded_trace D S ord s0 r0 (es @ [Asked token request]) s
       (r\<lparr>rr_inner := snd (acp_ask ord link request token (rr_inner r))\<rparr>)"
| rec_end:
    "recorded_trace D S ord s0 r0 es s r \<Longrightarrow> \<not> ended es \<Longrightarrow>
     recorded_trace D S ord s0 r0 (es @ [PromptEnded x]) s
       (r\<lparr>rr_inner := snd (acp_complete ord link x (rr_inner r))\<rparr>)"
| rec_next:
    "recorded_trace D S ord s0 r0 es s r \<Longrightarrow>
     recorded_next D S ord link sent closed (s, r) = (Some (Ok x), s', r') \<Longrightarrow>
     recorded_trace D S ord s0 r0 (es @ [NextGot (Ok x)]) s' r'"
| rec_respond:
    "recorded_trace D S ord s0 r0 es s r \<Longrightarrow>
     recorded_respond D S ord link i opt (s, r) = (x, s', r') \<Longrightarrow>
     recorded_trace D S ord s0 r0 (es @ respond_log i opt r r') s' r'"
| rec_cancel:
    "recorded_trace D S ord s0 r0 es s r \<Longrightarrow>
     recorded_trace D S ord s0 r0 (es @ [CancelAsked]) s (snd (recorded_cancel ord link sent r))"
| rec_checkpoint:
    "recorded_trace D S ord s0 r0 es s r \<Longrightarrow>
     recorded_checkpoint S ord link sent (s, r) = (Ok u, s', r') \<Longrightarrow>
     recorded_trace D S ord s0 r0 es s' r'"
| rec_foreign:
    "recorded_trace D S ord s0 r0 es s r \<Longrightarrow> foreign (rec_spec (rr_recorder r)) oper \<Longrightarrow>
     recorded_trace D S ord s0 r0 es (store_exec S oper s) r"

text \<open>The evidence \<open>respond\<close> writes.\<close>

definition dispatch_payload :: "('n, 'v) sdk \<Rightarrow> string option \<Rightarrow> 'v payload" where
  "dispatch_payload D opt =
     PExtension ''agent_bridge'' ''permission_dispatch''
       (versioned_state (sdk_json D) 1 ''dispatch_attempted'' [(''option_id'', option_json (sdk_json D) opt)])"

subsection \<open>The text of a message in the log\<close>

text \<open>The text of the message \<open>(kind, i)\<close> in a sequence of updates.\<close>

definition update_text :: "('n, 'v) session_update list \<Rightarrow> texts" where
  "update_text us = message_text (map Update us)"

fun events_of :: "('n, 'v) acp_log \<Rightarrow> ('n, 'v) acp_event list" where
  "events_of (NextGot (Ok (Some e))) = [e]"
| "events_of _ = []"

lemma update_text_snoc: "update_text (us @ [u]) = next_texts (Update u) (update_text us)"
  by (simp add: update_text_def message_text_snoc)

lemma update_text_events: "update_text (consumed es @ consumed_of e) = fold next_texts (events_of e) (update_text (consumed es))"
proof (cases "\<exists>event. events_of e = [event]")
  case True
  then obtain event where e: "e = NextGot (Ok (Some event))" by (cases e rule: events_of.cases) auto
  show ?thesis
  proof (cases event)
    case (Update u)
    then show ?thesis by (simp add: e update_text_snoc)
  qed (simp_all add: e next_texts_def)
next
  case False
  then have "events_of e = []" "consumed_of e = []" by (cases e rule: events_of.cases; auto)+
  then show ?thesis by simp
qed

subsection \<open>Starts\<close>

definition no_texts :: texts where
  "no_texts kind i = None"

lemma update_text_Nil [simp]: "update_text [] = no_texts"
  by (intro ext) (simp add: update_text_def message_text_def no_texts_def)

context record_store begin

definition unused :: "run_configuration run_spec \<Rightarrow> 's \<Rightarrow> bool" where
  "unused spec s \<longleftrightarrow> inv s \<and> (\<forall>n. op_get S (own_id spec n) s = Err MissingRecord)"

lemma recorder_start_live: "unused spec s \<Longrightarrow> live S inv spec no_texts (s, recorder_start spec actors)"
  by (simp add: live_def sound_def unused_def recorder_start_def contents_def handles_def no_texts_def)

lemma execution_evidence_live:
  "triple (live S inv spec T) (execution_evidence D S st) (\<lambda>_. live S inv spec T) (sound S inv spec)"
  unfolding execution_evidence_def by (rule host_evidence_live)

lemma first_records_live:
  "triple (live S inv spec T)
     (and_then (execution_evidence D S st) (\<lambda>_. recorder_insert S (PMessage User m) actor None None Complete))
     (\<lambda>_. live S inv spec T) (sound S inv spec)"
proof (rule triple_and_then [OF execution_evidence_live], rule triple_fixed, goal_cases)
  case (1 x st)
  obtain s R where st: "st = (s, R)" by force
  show ?case
    unfolding st by (rule triple_weaken [OF insert_live [OF 1 [unfolded st]]]) auto
qed

lemma unused_registered:
  assumes "op_create_session S j s0 = (Ok u, s1)" and "op_register_run S spec' s1 = (Ok b, s2)" and "unused spec s0"
  shows "unused spec s2"
proof -
  have "op_get S i s2 = op_get S i s0" for i
    using get_create [of i j s0] get_register [of i spec' s1] assms(1,2) by simp
  moreover have "inv s2"
    using inv_exec [of s0 "CreateSession j"] inv_exec [of s1 "RegisterRun spec'"] assms
    by (simp add: store_exec_def unused_def)
  ultimately show ?thesis using assms(3) by (simp add: unused_def)
qed

text \<open>A store in which the run can be registered, with its record identifiers free afterwards.\<close>

definition prepares :: "run_configuration run_spec \<Rightarrow> 's \<Rightarrow> bool" where
  "prepares spec s0 \<longleftrightarrow>
     (\<forall>u s1 s2. op_create_session S (rs_session spec) s0 = (Ok u, s1) \<longrightarrow>
        op_register_run S spec s1 = (Ok True, s2) \<longrightarrow> unused spec s2)"

lemma unused_prepares: "unused spec s \<Longrightarrow> prepares spec s"
  using unused_registered by (auto simp: prepares_def)

lemma recorder_new_run:
  assumes "recorder_new D S spec input actors s0 = (Ok R, s)" and "prepares spec s0"
  obtains s2 x where "unused spec s2"
    "and_then (execution_evidence D S ''prepared'') (\<lambda>_.
       recorder_insert S (PMessage User \<lparr>msg_content = [Text input]\<rparr>) (ra_user actors) None None Complete)
       (s2, recorder_start spec actors) = (Ok x, (s, R))"
proof -
  obtain u s1 where create: "op_create_session S (rs_session spec) s0 = (Ok u, s1)"
    using assms(1) by (auto simp: recorder_new_def split: prod.splits result.splits)
  obtain s2 where reg: "op_register_run S spec s1 = (Ok True, s2)"
    using assms(1) create by (auto simp: recorder_new_def split: prod.splits result.splits if_splits)
  have "unused spec s2" using assms(2) create reg unfolding prepares_def by blast
  with assms(1) create reg that show thesis
    by (fastforce simp: recorder_new_def split: prod.splits result.splits if_splits)
qed

lemma recorder_new_live:
  assumes "recorder_new D S spec input actors s0 = (Ok R, s)" and "prepares spec s0"
  shows "live S inv spec no_texts (s, R)"
proof (rule recorder_new_run [OF assms])
  fix s2 x
  assume s2: "unused spec s2" and run: "and_then (execution_evidence D S ''prepared'') (\<lambda>_.
      recorder_insert S (PMessage User \<lparr>msg_content = [Text input]\<rparr>) (ra_user actors) None None Complete)
      (s2, recorder_start spec actors) = (Ok x, (s, R))"
  show ?thesis by (rule triple_Ok [OF first_records_live recorder_start_live [OF s2] run])
qed

text \<open>What every start establishes when it returns a run.\<close>

definition launched :: "('n, 'v) sdk \<Rightarrow> run_configuration run_spec \<Rightarrow> 's \<Rightarrow> ('n, 'v) recorded_run \<Rightarrow> bool" where
  "launched D spec s r \<longleftrightarrow>
     live S inv spec no_texts (s, rr_recorder r) \<and> \<not> rr_failed r \<and> started (rr_inner r)"

lemma record_and_launch_run:
  assumes "record_and_launch D S V spec prompt actors steps wire blocks sess s0 = (Ok r, s, sess')"
  obtains R s1 u where "recorder_new D S spec prompt actors s0 = (Ok R, s1)"
    "steps (s1, R) = (Ok u, (s, rr_recorder r))" "\<not> rr_failed r" "started (rr_inner r)"
proof -
  obtain R s1 where new: "recorder_new D S spec prompt actors s0 = (Ok R, s1)"
    using assms(1) by (auto simp: record_and_launch_def split: prod.splits result.splits)
  obtain u s2 R2 where st: "steps (s1, R) = (Ok u, s2, R2)"
    using assms(1) new by (auto simp: record_and_launch_def split: prod.splits result.splits)
  have run: "launch D S V spec wire blocks sess (s2, R2) = (Ok r, s, sess')"
    using assms(1) new st by (simp add: record_and_launch_def)
  then obtain a where a: "acp_dispatch (env_ord V) (env_link V) (env_closed_late V) (env_send V blocks) spec wire sess =
      (Ok a, sess')" "r = recorded_new a R2" "s = s2"
    by (auto simp: launch_def split: prod.splits result.splits)
  then show thesis using that new st dispatch_started [OF a(1)] by (simp add: recorded_new_def)
qed

lemma record_and_launch_Ok:
  assumes "record_and_launch D S V spec prompt actors steps wire blocks sess s0 = (Ok r, s, sess')"
    and "prepares spec s0"
    and steps: "\<And>st x st'. live S inv spec no_texts st \<Longrightarrow> steps st = (Ok x, st') \<Longrightarrow> live S inv spec no_texts st'"
  shows "launched D spec s r"
proof (rule record_and_launch_run [OF assms(1)])
  fix R s1 u
  assume new: "recorder_new D S spec prompt actors s0 = (Ok R, s1)" and st: "steps (s1, R) = (Ok u, (s, rr_recorder r))"
    and "\<not> rr_failed r" "started (rr_inner r)"
  then show ?thesis using steps [OF recorder_new_live [OF new assms(2)] st] by (simp add: launched_def)
qed

lemma report_steps_live:
  "triple (live S inv spec T) (report_steps D S report) (\<lambda>_. live S inv spec T) (sound S inv spec)"
  unfolding report_steps_def recorder_restoration_def
proof (rule triple_and_then [OF _ execution_evidence_live], cases report)
  case None
  show "triple (live S inv spec T) (case report of None \<Rightarrow> give () | Some r \<Rightarrow> host_evidence S ''restoration'' r)
      (\<lambda>_. live S inv spec T) (sound S inv spec)"
    unfolding None option.case by (rule triple_basic(1))
next
  case (Some r)
  show "triple (live S inv spec T) (case report of None \<Rightarrow> give () | Some r \<Rightarrow> host_evidence S ''restoration'' r)
      (\<lambda>_. live S inv spec T) (sound S inv spec)"
    unfolding Some option.case by (rule host_evidence_live)
qed

lemma start_with_report_run:
  assumes "start_recorded_with_report D S V i prompt actors report sess s0 = (Ok r, s, sess')"
  obtains spec where "acp_run_spec i sess = Ok spec"
    "record_and_launch D S V spec prompt actors (report_steps D S report) prompt [TextPrompt prompt] sess s0 = (Ok r, s, sess')"
  using assms by (cases "acp_run_spec i sess")
    (auto simp: start_recorded_with_report_def checked_def split: result.splits)

lemma start_with_report_launched:
  assumes "start_recorded_with_report D S V i prompt actors report sess s0 = (Ok r, s, sess')"
    and "\<And>spec. acp_run_spec i sess = Ok spec \<Longrightarrow> prepares spec s0"
  shows "\<exists>spec. acp_run_spec i sess = Ok spec \<and> launched D spec s r"
proof -
  obtain spec where spec: "acp_run_spec i sess = Ok spec"
      and run: "record_and_launch D S V spec prompt actors (report_steps D S report) prompt [TextPrompt prompt] sess s0 =
        (Ok r, s, sess')"
    by (rule start_with_report_run [OF assms(1)])
  have "launched D spec s r"
    by (rule record_and_launch_Ok [OF run assms(2) [OF spec]]) (rule triple_Ok [OF report_steps_live])
  with spec show ?thesis by blast
qed

end

subsection \<open>The invariant of a sequence\<close>

context record_store begin

text \<open>Foreign mutations leave this run's records alone.\<close>

lemma foreign_get:
  assumes "inv s" and "foreign spec oper"
  shows "op_get S (own_id spec n) (store_exec S oper s) = op_get S (own_id spec n) s"
proof (cases oper)
  case (Insert d)
  then have "own_id spec n \<noteq> d_id d" using assms(2) own_id_own [of spec n] by (auto simp: foreign_def simp del: own_id_own)
  with Insert insert_frame [OF assms(1)] show ?thesis by (simp add: store_exec_def)
next
  case (Checkpoint i e p st)
  then have "own_id spec n \<noteq> i" using assms(2) own_id_own [of spec n] by (auto simp: foreign_def simp del: own_id_own)
  with Checkpoint checkpoint_frame [OF assms(1)] show ?thesis by (simp add: store_exec_def)
next
  case (Resolve q e d)
  then have "own_id spec n \<noteq> q" "own_id spec n \<noteq> d_id d" using assms(2) own_id_own [of spec n] by (auto simp: foreign_def simp del: own_id_own)
  with Resolve resolve_frame [OF assms(1)] show ?thesis by (simp add: store_exec_def)
qed (simp_all add: store_exec_def get_create get_register)

lemma sound_foreign:
  assumes "sound S inv spec (s, R)" and "foreign spec oper"
  shows "sound S inv spec (store_exec S oper s, R)"
  using assms inv_exec [of s oper] foreign_get [OF _ assms(2), of s]
  by (simp add: sound_def working_ok_def)

lemma checkpoint_over:
  "triple (over S inv spec T) (recorder_checkpoint S) (\<lambda>_. over S inv spec T) (sound S inv spec)"
proof (rule triple_fixed, goal_cases)
  case (1 st)
  obtain s R where st: "st = (s, R)" by force
  have snd: "sound S inv spec (s, R)" and C: "contents T R" "rec_finished R" using 1 st by (simp_all add: over_def)
  obtain x s' ws where run: "checkpoint_records S (rec_records R) s = (x, s', ws)" using prod.exhaust by metis
  from checkpoint_loop_sound [OF snd run] C contents_same_work [OF C(1)] show ?case
    by (cases x) (simp_all add: triple_def st recorder_checkpoint_def run over_def)
qed

text \<open>\<open>respond\<close>: refused, or the evidence is stored and the decision handed to the run.\<close>

lemma respond_cases:
  assumes snd: "sound S inv spec (s, rr_recorder r)" and C: "contents T (rr_recorder r)"
    and run: "recorded_respond D S ord link i opt (s, r) = (x, s', r')"
  obtains (refused) e where "x = Err e" "s' = s" "r' = r"
    | (answered) n w y inner title options where "\<not> rr_failed r" "rec_permissions (rr_recorder r) i = Some n"
        "acp_respond ord link i opt (rr_inner r) = (y, inner)" "x = map_err RecAgent y"
        "r' = r\<lparr>rr_inner := inner, rr_recorder := add_record (rr_recorder r) w\<rparr>"
        "sound S inv spec (s', add_record (rr_recorder r) w)"
        "made (dispatch_payload D opt) (Some (own_id spec n)) None Complete w"
        "op_get S (own_id spec n) s = Ok (wk_stored (rec_records (rr_recorder r) ! n))"
        "r_payload (sn_record (wk_stored (rec_records (rr_recorder r) ! n))) = PPermission title options"
        "opt = None \<or> opt \<in> Some ` set (map po_id options)"
proof -
  let ?R = "rr_recorder r"
  consider (early) e where "x = Err e" "s' = s" "r' = r"
    | (go) n where "\<not> rr_failed r" "acp_permission_pending i (rr_inner r)" "rec_permissions ?R i = Some n"
    using run by (auto simp: recorded_respond_def split: if_splits option.splits)
  then show thesis
  proof cases
    case early
    then show thesis by (rule refused)
  next
    case go
    then obtain title options where n: "n < length (rec_records ?R)" "\<not> wk_dirty (rec_records ?R ! n)"
        "wk_payload (rec_records ?R ! n) = PPermission title options"
      using contentsD(4) [OF C, of i n] by blast
    let ?q = "wk_stored (rec_records ?R ! n)"
    have q: "r_id (sn_record ?q) = own_id spec n" "r_payload (sn_record ?q) = PPermission title options"
        "op_get S (own_id spec n) s = Ok ?q"
      using snd n by (auto simp: sound_def working_ok_def)
    show thesis
    proof (cases "\<exists>o'. opt = Some o' \<and> o' \<notin> set (map po_id options)")
      case True
      then show thesis using run go n(1) q by (intro refused) (auto simp: recorded_respond_def Let_def)
    next
      case False
      obtain y st where ins: "recorder_insert S (dispatch_payload D opt) (ra_host (rec_actors ?R)) (Some (own_id spec n))
          None Complete (s, ?R) = (y, st)" using prod.exhaust by blast
      have res: "recorded_respond D S ord link i opt (s, r) =
          (case (y, st) of
             (Ok _, s, R) \<Rightarrow>
               (case acp_respond ord link i opt (rr_inner r) of
                  (x, inner) \<Rightarrow> (map_err RecAgent x, s, r\<lparr>rr_inner := inner, rr_recorder := R\<rparr>))
           | (Err e, s, R) \<Rightarrow> (Err e, s, r\<lparr>rr_recorder := R\<rparr>)
           | (Panic, s, R) \<Rightarrow> (Panic, s, r\<lparr>rr_recorder := R\<rparr>))"
        using go n(1) q False ins
        by (cases opt) (auto simp: recorded_respond_def Let_def dispatch_payload_def split: result.split prod.split)
      have fin: "rec_finished ?R \<longrightarrow> Complete \<noteq> Open" by simp
      show thesis
        using snd fin ins
      proof (cases rule: insert_step)
        case (ok w s1)
        obtain z inner where "acp_respond ord link i opt (rr_inner r) = (z, inner)" by force
        moreover have "opt = None \<or> opt \<in> Some ` set (map po_id options)" using False by (cases opt) auto
        ultimately show thesis using run res ok go q(2,3) by (intro answered [of n z inner w title options]) simp_all
      next
        case (err e)
        then show thesis using run res by (intro refused [of e]) simp_all
      qed
    qed
  qed
qed

text \<open>What holds along a sequence that has not failed.\<close>

definition healthy ::
  "run_configuration run_spec \<Rightarrow> (pending_map \<Rightarrow> pending_map) \<Rightarrow> ('n, 'v) sdk \<Rightarrow> ('n, 'v) acp_run \<Rightarrow>
   ('n, 'v) acp_log list \<Rightarrow> 's \<Rightarrow> ('n, 'v) recorded_run \<Rightarrow> bool" where
  "healthy spec ord D a0 es s r \<longleftrightarrow>
     \<not> rr_failed r \<and> acp_trace ord (sdk_category D) a0 es (rr_inner r) \<and>
     (if rec_finished (rr_recorder r)
      then over S inv spec (update_text (consumed es)) (s, rr_recorder r) \<and> ar_settled (rr_inner r) \<and>
        (\<exists>reason. finished_with reason es)
      else live S inv spec (update_text (consumed es)) (s, rr_recorder r) \<and> (\<forall>reason. \<not> finished_with reason es))"

lemma healthy_sound: "healthy spec ord D a0 es s r \<Longrightarrow>
    sound S inv spec (s, rr_recorder r) \<and> contents (update_text (consumed es)) (rr_recorder r)"
  by (auto simp: healthy_def live_def over_def split: if_splits)

lemma healthy_inner:
  assumes H: "healthy spec ord D a0 es s r" and "acp_trace ord (sdk_category D) a0 (es @ [e]) inner"
    and "consumed_of e = []" and "\<And>reason. e \<noteq> NextGot (Ok (Some (Finished reason)))"
    and "ar_settled (rr_inner r) \<longrightarrow> ar_settled inner"
  shows "healthy spec ord D a0 (es @ [e]) s (r\<lparr>rr_inner := inner\<rparr>)"
  using assms by (auto simp: healthy_def)

lemma healthy_next:
  assumes H: "healthy spec ord D a0 es s r" and st: "started a0" and D: "sdk_laws D" and ord: "drain_order ord"
    and run: "recorded_next D S ord link sent closed (s, r) = (Some (Ok x), s', r')"
  shows "healthy spec ord D a0 (es @ [NextGot (Ok x)]) s' r'"
proof -
  let ?a = "rr_inner r" and ?R = "rr_recorder r" and ?T = "update_text (consumed es)"
  have ok: "\<not> rr_failed r" and tr: "acp_trace ord (sdk_category D) a0 es ?a" using H by (simp_all add: healthy_def)
  note act = trace_active [OF tr st]
  obtain y inner where nxt: "acp_next ord link closed ?a = (y, inner)" by force
  show ?thesis
  proof (cases x)
    case None
    have settled: "ar_settled ?a \<and> inner = ?a \<and> y = Some (Ok None)"
      by (cases rule: acp_next_cases [OF act, of ord link closed])
        (use run nxt ok None in \<open>auto simp: recorded_next_def split: prod.splits result.splits\<close>)
    then have "acp_next ord link closed ?a = (Some (Ok None), ?a)" using nxt by simp
    then have "acp_trace ord (sdk_category D) a0 (es @ [NextGot (Ok None)]) ?a" by (rule trace_next [OF tr])
    moreover have "s' = s" "r' = r" using run nxt ok settled by (auto simp: recorded_next_def)
    ultimately show ?thesis using H None by (auto simp: healthy_def)
  next
    case (Some event)
    have inner: "y = Some (Ok (Some event))"
      using run nxt ok Some by (auto simp: recorded_next_def split: prod.splits result.splits option.splits)
    have unsettled: "\<not> ar_settled ?a" using nxt inner by (auto simp: acp_next_def)
    then have L: "live S inv spec ?T (s, ?R)" "\<not> finished_with reason es" for reason
      using H by (auto simp: healthy_def split: if_splits)
    obtain u R' where obs: "recorder_observe D S event (s, ?R) = (Ok u, s', R')"
        and r': "r' = r\<lparr>rr_inner := inner, rr_recorder := R'\<rparr>"
      using run nxt ok Some inner by (auto simp: recorded_next_def split: prod.splits result.splits)
    have seen: "observed spec ?T event (s', R')" by (rule triple_Ok [OF observe_live [OF D] L(1) obs])
    have tr': "acp_trace ord (sdk_category D) a0 (es @ [NextGot (Ok (Some event))]) inner"
      by (rule trace_next [OF tr]) (use nxt inner in simp)
    have T: "update_text (consumed (es @ [NextGot (Ok (Some event))])) = next_texts event ?T"
      using update_text_events [of es "NextGot (Ok (Some event))"] by simp
    show ?thesis
    proof (cases "\<exists>reason. event = Finished reason")
      case True
      then have "ar_settled inner"
        using trace_seen [OF tr' st ord] Some by (auto simp: seen_inv_def)
      moreover have "over S inv spec (next_texts event ?T) (s', R')" using seen True by (simp add: observed_def)
      ultimately show ?thesis using ok tr' T Some r' True by (auto simp: healthy_def over_def)
    next
      case False
      then have "live S inv spec (next_texts event ?T) (s', R')" using seen by (simp add: observed_def)
      then show ?thesis using ok tr' T Some r' L(2) False by (auto simp: healthy_def live_def)
    qed
  qed
qed

lemma healthy_step_store:
  assumes "healthy spec ord D a0 es s r" and "sound S inv spec (s', R')"
    and "contents (update_text (consumed es)) R'" and "handles (rr_recorder r) \<longrightarrow> handles R'"
    and "rec_finished R' = rec_finished (rr_recorder r)"
  shows "healthy spec ord D a0 es s' (r\<lparr>rr_recorder := R'\<rparr>)"
  using assms by (auto simp: healthy_def live_def over_def split: if_splits)

lemma trace_healthy:
  assumes "recorded_trace D S ord s0 r0 es s r" and start: "launched D spec s0 r0" and D: "sdk_laws D"
    and "drain_order ord"
  shows "healthy spec ord D (rr_inner r0) es s r"
  using assms(1)
proof (induction rule: recorded_trace.induct)
  case rec_start
  show ?case
    using start by (auto simp: launched_def healthy_def live_def consumed_def finished_with_def intro: trace_start)
next
  case (rec_update es s r u link)
  show ?case
    by (rule healthy_inner [OF rec_update.IH trace_update])
      (use rec_update.IH in \<open>auto simp: healthy_def\<close>)
next
  case (rec_ask es s r token request link)
  show ?case
    by (rule healthy_inner [OF rec_ask.IH trace_ask])
      (use rec_ask in \<open>auto simp: healthy_def\<close>)
next
  case (rec_end es s r x link)
  show ?case
    by (rule healthy_inner [OF rec_end.IH trace_end])
      (use rec_end in \<open>auto simp: healthy_def\<close>)
next
  case (rec_next es s r link sent closed x s' r')
  show ?case
    by (rule healthy_next [OF rec_next.IH _ D assms(4) rec_next.hyps(2)]) (use start in \<open>simp add: launched_def\<close>)
next
  case (rec_respond es s r link i opt x s' r')
  note H = healthy_sound [OF rec_respond.IH]
  show ?case
    using H [THEN conjunct1] H [THEN conjunct2] rec_respond.hyps(2)
  proof (cases rule: respond_cases)
    case (refused e)
    then show ?thesis using rec_respond.IH by (simp add: respond_log_def)
  next
    case (answered n w y inner title options)
    have w: "sn_source (wk_stored w) = None" using answered(7) by (simp add: made_def)
    let ?R = "add_record (rr_recorder r) w"
    have h: "healthy spec ord D (rr_inner r0) es s' (r\<lparr>rr_recorder := ?R\<rparr>)"
      by (rule healthy_step_store [OF rec_respond.IH answered(6) contents_add])
        (use H w handles_add in auto)
    have settled: "ar_settled inner = ar_settled (rr_inner r)"
      using answered(3) callback_frame(15) [of ord link i opt "rr_inner r"] by simp
    show ?thesis
    proof (cases "inner = rr_inner r")
      case True
      then show ?thesis using h answered(5) by (simp add: respond_log_def)
    next
      case False
      have "acp_trace ord (sdk_category D) (rr_inner r0) (es @ [Decided i opt]) inner"
        using trace_respond [of ord "sdk_category D" "rr_inner r0" es "rr_inner r" i opt link] h answered(3)
        by (simp add: healthy_def)
      from healthy_inner [OF h this] settled show ?thesis
        using False answered(5) by (cases r) (simp add: respond_log_def)
    qed
  qed
next
  case (rec_cancel es s r link sent)
  have act: "\<not> ar_settled (rr_inner r) \<longrightarrow> active (run_status_of (ar_run (rr_inner r)))"
    using rec_cancel.IH start trace_active by (fastforce simp: healthy_def launched_def)
  have eq: "snd (recorded_cancel ord link sent r) = r\<lparr>rr_inner := snd (acp_cancel ord link sent (rr_inner r))\<rparr>"
    by (simp add: recorded_cancel_def split: prod.split)
  show ?case
    unfolding eq
  proof (rule healthy_inner [OF rec_cancel.IH trace_cancel])
    show "acp_trace ord (sdk_category D) (rr_inner r0) es (rr_inner r)" using rec_cancel.IH by (simp add: healthy_def)
    show "ar_settled (rr_inner r) \<longrightarrow> ar_settled (snd (acp_cancel ord link sent (rr_inner r)))"
      by (cases rule: cancel_cases [OF act, of ord link sent]) auto
  qed simp_all
next
  case (rec_checkpoint es s r link sent u s' r')
  obtain R' where run: "recorder_checkpoint S (s, rr_recorder r) = (Ok u, s', R')" "r' = r\<lparr>rr_recorder := R'\<rparr>"
    using rec_checkpoint by (auto simp: recorded_checkpoint_def split: if_splits prod.splits result.splits)
  show ?case
    using rec_checkpoint.IH triple_Ok [OF checkpoint_live _ run(1)] triple_Ok [OF checkpoint_over _ run(1)]
    by (auto simp: healthy_def run(2) live_def over_def split: if_splits)
next
  case (rec_foreign es s r oper)
  note H = healthy_sound [OF rec_foreign.IH]
  have "rec_spec (rr_recorder r) = spec" using H by (auto simp: sound_def)
  with rec_foreign.hyps(2) have "sound S inv spec (store_exec S oper s, rr_recorder r)"
    using sound_foreign [OF H [THEN conjunct1]] by blast
  from healthy_step_store [OF rec_foreign.IH this] H show ?case by simp
qed

end

end
