(* ===== verification/Recorded_Ends.thy ===== *)
theory Recorded_Ends imports Recorded_Trace begin

section \<open>How a recorded run ends early\<close>

text \<open>
  An error of the run, and the drop of its handle, interrupt the recorder: a failure record
  is written and every open record is made final.
\<close>

definition failure_in :: "string \<Rightarrow> ('n, 'v) recorder \<Rightarrow> bool" where
  "failure_in msg R \<longleftrightarrow> (\<exists>w \<in> set (rec_records R). wk_payload w = PFailure msg)"

lemma lasting_conj: "lasting C \<Longrightarrow> lasting C' \<Longrightarrow> lasting (\<lambda>R. C R \<and> C' R)"
  by (simp add: lasting_def)

lemma failure_in_same:
  assumes "failure_in msg R" and "list_all2 same_work (rec_records R) ws"
  shows "failure_in msg (R\<lparr>rec_records := ws\<rparr>)"
proof -
  obtain w where w: "w \<in> set (rec_records R)" "wk_payload w = PFailure msg" using assms(1) by (auto simp: failure_in_def)
  then obtain w' where "w' \<in> set ws" "same_work w w'"
    using assms(2) by (metis in_set_conv_nth list_all2_conv_all_nth)
  then show ?thesis using w(2) by (auto simp: failure_in_def same_work_def)
qed

lemma lasting_failure: "lasting (failure_in msg)"
  unfolding lasting_def
proof (intro conjI allI impI)
  show "failure_in msg (add_record R w)" if "failure_in msg R" for R :: "('c, 'd) recorder" and w
    using that by (auto simp: failure_in_def)
  show "failure_in msg (R\<lparr>rec_records := ws\<rparr>)" if "failure_in msg R" "list_all2 same_work (rec_records R) ws"
    for R :: "('c, 'd) recorder" and ws
    using that by (rule failure_in_same)
  show "failure_in msg (R\<lparr>rec_finished := True\<rparr>)" if "failure_in msg R" for R :: "('c, 'd) recorder"
    using that by (simp add: failure_in_def)
qed

text \<open>The errors of interrupting are the store's, and the recorder is not finished then.\<close>

definition steady :: "('a, 'n, 'v, 's) recording \<Rightarrow> bool" where
  "steady m \<longleftrightarrow>
     (\<forall>st x t. m st = (x, t) \<longrightarrow>
        rec_finished (snd t) = rec_finished (snd st) \<and> (\<forall>e. x = Err e \<longrightarrow> (\<exists>f. e = RecStore f)))"

definition failing :: "('a, 'n, 'v, 's) recording \<Rightarrow> bool" where
  "failing m \<longleftrightarrow>
     (\<forall>st e t. m st = (Err e, t) \<longrightarrow> rec_finished (snd t) = rec_finished (snd st) \<and> (\<exists>f. e = RecStore f))"

lemma steady_failing: "steady m \<Longrightarrow> failing m"
  by (simp add: steady_def failing_def)

lemma map_err_Err: "map_err f r = Err e \<longleftrightarrow> (\<exists>e'. r = Err e' \<and> e = f e')"
  by (cases r) auto

lemma steady_basic:
  "steady (give x)" "steady (on_store g)" "(\<And>R. rec_finished (f R) = rec_finished R) \<Longrightarrow> steady (on_recorder f)"
  "steady (lift_result (recorder_draft R payload actor reply source state))"
  by (auto simp: steady_def on_recorder_def on_store_def recorder_draft_Ok map_err_Err split: prod.splits)

lemma steady_and_then: "steady m \<Longrightarrow> (\<And>x. steady (f x)) \<Longrightarrow> steady (and_then m f)"
  unfolding steady_def and_then_def by (fastforce split: prod.splits result.splits)

lemma failing_and_then: "steady m \<Longrightarrow> (\<And>x. failing (f x)) \<Longrightarrow> failing (and_then m f)"
  unfolding steady_def failing_def and_then_def by (fastforce split: prod.splits result.splits)

lemma steady_with_state: "(\<And>st. steady (g st)) \<Longrightarrow> steady (with_state g)"
  by (auto simp: steady_def)

lemma failing_with_state: "(\<And>st. failing (g st)) \<Longrightarrow> failing (with_state g)"
  by (auto simp: failing_def)

lemma steady_insert: "steady (recorder_insert S payload actor reply source state)"
  unfolding recorder_insert_def
  by (rule steady_with_state) (auto intro!: steady_and_then steady_basic split: prod.split)

lemma steady_evidence: "steady (host_evidence S name data)"
  unfolding host_evidence_def
  by (rule steady_with_state) (auto intro!: steady_and_then steady_basic steady_insert split: prod.split)

lemma finish_records_error: "finish_records S complete ws s = (Err e, s', ws') \<Longrightarrow> \<exists>x. e = RecStore x"
  by (induction S complete ws s arbitrary: s' ws' rule: finish_records.induct)
    (auto split: if_splits prod.splits result.splits)

lemma failing_finish: "failing (recorder_finish S complete)"
  by (auto simp: failing_def recorder_finish_def and_then_def on_recorder_def
      split: prod.splits result.splits dest: finish_records_error)

lemma failing_interrupt: "failing (recorder_interrupt D S msg)"
  unfolding recorder_interrupt_def input_evidence_def
  by (rule failing_with_state)
    (auto intro!: failing_and_then steady_basic steady_insert steady_evidence failing_finish
      steady_failing [OF steady_basic(1)] split: prod.split)

text \<open>An event that cannot be recorded leaves the recorder unfinished.\<close>

definition keeps_open :: "('a, 'n, 'v, 's) recording \<Rightarrow> bool" where
  "keeps_open m \<longleftrightarrow> (\<forall>st x t. m st = (x, t) \<longrightarrow> rec_finished (snd t) = rec_finished (snd st))"

definition spares :: "('a, 'n, 'v, 's) recording \<Rightarrow> bool" where
  "spares m \<longleftrightarrow> (\<forall>st e t. m st = (Err e, t) \<longrightarrow> rec_finished (snd t) = rec_finished (snd st))"

named_theorems keeps_rules \<open>operations that leave the end mark alone\<close>

lemma keeps_basic [keeps_rules]:
  "keeps_open (give x)" "keeps_open (fail_with e)" "keeps_open (lift_result r)" "keeps_open (on_store g)"
  "(\<And>R. rec_finished (f R) = rec_finished R) \<Longrightarrow> keeps_open (on_recorder f)"
  by (auto simp: keeps_open_def on_recorder_def on_store_def split: prod.splits)

lemma keeps_and_then [keeps_rules]: "keeps_open m \<Longrightarrow> (\<And>x. keeps_open (f x)) \<Longrightarrow> keeps_open (and_then m f)"
  unfolding keeps_open_def and_then_def by (fastforce split: prod.splits result.splits)

lemma keeps_with_state [keeps_rules]: "(\<And>s R. keeps_open (g (s, R))) \<Longrightarrow> keeps_open (with_state g)"
  by (auto simp: keeps_open_def)

lemma steady_keeps: "steady m \<Longrightarrow> keeps_open m"
  unfolding steady_def keeps_open_def by blast

lemma keeps_insert [keeps_rules]: "keeps_open (recorder_insert S payload actor reply source state)"
  by (rule steady_keeps [OF steady_insert])

lemma keeps_evidence [keeps_rules]: "keeps_open (host_evidence S name data)"
  by (rule steady_keeps [OF steady_evidence])

lemma keeps_spares: "keeps_open m \<Longrightarrow> spares m"
  by (simp add: keeps_open_def spares_def)

lemma spares_and_then: "keeps_open m \<Longrightarrow> (\<And>x. spares (f x)) \<Longrightarrow> spares (and_then m f)"
  unfolding keeps_open_def spares_def and_then_def by (fastforce split: prod.splits result.splits)

lemma spares_with_state: "(\<And>s R. spares (g (s, R))) \<Longrightarrow> spares (with_state g)"
  by (auto simp: spares_def)

lemma keeps_edit [keeps_rules]: "keeps_open (edit_record n f)" "keeps_open (stored_at n)"
  unfolding edit_record_def stored_at_def by (auto intro!: keeps_rules)

lemma keeps_entered [keeps_rules]:
  "keeps_open (on_recorder (\<lambda>R. case native of
     Some i \<Rightarrow> R\<lparr>rec_messages := (rec_messages R)((kind, i) \<mapsto> n)\<rparr> | None \<Rightarrow> R))"
  by (rule keeps_basic(5)) (simp split: option.split)

lemma finish_spares: "spares (recorder_finish S complete)"
  using failing_finish [of S complete] unfolding failing_def spares_def by blast

lemma keeps_events [keeps_rules]:
  "keeps_open (recorder_extension S name data)" "keeps_open (new_message S kind native)"
  "keeps_open (recorder_message D S kind chunk)" "keeps_open (recorder_tool D S call)"
  "keeps_open (recorder_tool_update D S u)" "keeps_open (observe_permission D S i request)"
  "keeps_open (observe_config D S options)" "keeps_open (observe_resolved S i outcome delivery)"
  by (auto simp: recorder_extension_def new_message_def recorder_message_def recorder_tool_def recorder_tool_update_def
      observe_permission_def observe_config_def observe_resolved_def Let_def
      intro!: keeps_rules split: option.split content_block.split)

lemma observe_spares: "spares (recorder_observe D S event)"
proof -
  have "spares (observe_finished D S reason)" for reason
    unfolding observe_finished_def input_evidence_def
    by (rule spares_with_state) (auto intro!: spares_and_then keeps_rules finish_spares)
  then have "spares (observe_event D S event)"
    by (auto simp: observe_event_def intro!: keeps_spares keeps_rules split: acp_event.split session_update.split)
  then show ?thesis
    unfolding recorder_observe_def
    by (intro spares_with_state) (auto intro!: spares_and_then keeps_rules keeps_spares [OF keeps_basic(2)])
qed

context record_store begin

lemma failure_insert_lasting:
  assumes "lasting C"
  shows "triple (\<lambda>st. sound S inv spec st \<and> C (snd st)) (recorder_insert S (PFailure msg) actor reply None Complete)
    (\<lambda>_ st. sound S inv spec st \<and> (C (snd st) \<and> failure_in msg (snd st))) (\<lambda>st. sound S inv spec st \<and> C (snd st))"
proof (rule triple_fixed, goal_cases)
  case (1 st)
  obtain s R where st: "st = (s, R)" by force
  have snd: "sound S inv spec (s, R)" and C: "C R" using 1 st by simp_all
  show ?case
    unfolding st
    by (rule triple_weaken [OF insert_triple [OF snd]])
      (use snd C assms in \<open>auto simp: made_def lasting_def failure_in_def\<close>)
qed

lemma interrupt_failure:
  assumes "lasting C"
  shows "triple (\<lambda>st. sound S inv spec st \<and> C (snd st) \<and> \<not> rec_finished (snd st)) (recorder_interrupt D S msg)
    (\<lambda>_ st. sound S inv spec st \<and> (C (snd st) \<and> failure_in msg (snd st)) \<and> rec_finished (snd st)) (\<lambda>st. sound S inv spec st \<and> C (snd st))"
  unfolding recorder_interrupt_def
proof (rule triple_pair, goal_cases)
  case (1 s R)
  have ev: "triple ((=) (s, R))
      (if rec_input_receipt R \<and> \<not> rec_input_response R
       then input_evidence S (versioned_state (sdk_json D) (rec_input_version R) ''unknown'' []) else give ())
      (\<lambda>_ st. sound S inv spec st \<and> C (snd st)) (\<lambda>st. sound S inv spec st \<and> C (snd st))"
    unfolding input_evidence_def
    by (cases "rec_input_receipt R \<and> \<not> rec_input_response R")
      (use 1 triple_pre [OF evidence_lasting [OF assms]] in \<open>auto simp: triple_def\<close>)
  have fin: "triple (\<lambda>st. sound S inv spec st \<and> (C (snd st) \<and> failure_in msg (snd st))) (recorder_finish S False)
      (\<lambda>_ st. sound S inv spec st \<and> (C (snd st) \<and> failure_in msg (snd st)) \<and> rec_finished (snd st))
      (\<lambda>st. sound S inv spec st \<and> C (snd st))"
    by (rule triple_weaken [OF finish_lasting [OF lasting_conj [OF assms lasting_failure]]]) auto
  have "\<not> rec_finished R" using 1 by simp
  then show ?case
    unfolding prod.case if_not_P [OF \<open>\<not> rec_finished R\<close>]
    by (intro triple_and_then [OF ev] triple_and_then [OF failure_insert_lasting [OF assms]] fin)
qed

text \<open>\<open>next\<close> when the run reports an error: the handle has failed.\<close>

lemma healthy_fails:
  assumes H: "healthy spec ord D a0 es s r"
    and err: "acp_next ord link closed (rr_inner r) = (Some (Err e), inner)"
    and run: "recorded_next D S ord link sent closed (s, r) = (x, s', r')"
  shows "rr_failed r' \<and> sound S inv spec (s', rr_recorder r') \<and>
    ((\<exists>f. x = Some (Err (RecStore f))) \<and> \<not> rec_finished (rr_recorder r') \<or>
     x = Some (Err (RecAgent e)) \<and> over S inv spec (update_text (consumed es)) (s', rr_recorder r') \<and>
       failure_in (acp_error_text (sdk_store_text D) e) (rr_recorder r'))"
proof -
  let ?m = "recorder_interrupt D S (acp_error_text (sdk_store_text D) e)"
  have "\<not> ar_settled (rr_inner r)" using err by (auto simp: acp_next_def)
  then have L: "live S inv spec (update_text (consumed es)) (s, rr_recorder r)" and ok: "\<not> rr_failed r"
    using H by (auto simp: healthy_def split: if_splits)
  obtain y t R where int: "?m (s, rr_recorder r) = (y, t, R)" using prod.exhaust by metis
  have pre: "sound S inv spec (s, rr_recorder r) \<and> contents (update_text (consumed es)) (snd (s, rr_recorder r)) \<and>
      \<not> rec_finished (snd (s, rr_recorder r))"
    using L by (simp add: live_def)
  note post = tripleD [OF interrupt_failure [OF lasting_contents] pre int]
  have r': "x = Some (case y of Ok _ \<Rightarrow> Err (RecAgent e) | Err f \<Rightarrow> Err f | Panic \<Rightarrow> Panic)" "s' = t"
      "r' = \<lparr>rr_inner = inner, rr_recorder = R, rr_failed = True\<rparr>"
    using run ok err int by (simp_all add: recorded_next_def)
  show ?thesis
  proof (cases y)
    case (Ok u)
    then show ?thesis using post(2) r' by (auto simp: over_def)
  next
    case (Err f)
    have "\<not> rec_finished (rr_recorder r)" using L by (simp add: live_def)
    then show ?thesis
      using Err post(3) r' failing_interrupt [of D S "acp_error_text (sdk_store_text D) e", unfolded failing_def, rule_format, OF int [unfolded Err]]
      by auto
  next
    case Panic
    then show ?thesis using post(1) by simp
  qed
qed

text \<open>\<open>next\<close> when the event of the run cannot be recorded.\<close>

lemma healthy_observe_fails:
  assumes H: "healthy spec ord D a0 es s r" and D: "sdk_laws D"
    and nxt: "acp_next ord link closed (rr_inner r) = (Some (Ok (Some event)), inner)"
    and run: "recorded_next D S ord link sent closed (s, r) = (Some (Err f), s', r')"
  shows "rr_failed r' \<and> sound S inv spec (s', rr_recorder r') \<and> \<not> rec_finished (rr_recorder r')"
proof -
  have ok: "\<not> rr_failed r" using H by (simp add: healthy_def)
  have "\<not> ar_settled (rr_inner r)" using nxt by (auto simp: acp_next_def)
  then have L: "live S inv spec (update_text (consumed es)) (s, rr_recorder r)"
    using H by (auto simp: healthy_def split: if_splits)
  obtain e R where obs: "recorder_observe D S event (s, rr_recorder r) = (Err e, s', R)"
      and r': "rr_failed r'" "rr_recorder r' = R"
    using run ok nxt by (auto simp: recorded_next_def split: prod.splits result.splits)
  have "sound S inv spec (s', R)" by (rule triple_Err [OF observe_live [OF D] L obs])
  moreover have "\<not> rec_finished R"
    using observe_spares [of D S event, unfolded spares_def, rule_format, OF obs] liveD(2) [OF L] by simp
  ultimately show ?thesis using r' by simp
qed

text \<open>A failure of \<open>next\<close> is one of the two.\<close>

lemma healthy_next_error:
  assumes H: "healthy spec ord D a0 es s r"
    and run: "recorded_next D S ord link sent closed (s, r) = (Some (Err f), s', r')"
  obtains (failed) e inner where "acp_next ord link closed (rr_inner r) = (Some (Err e), inner)"
    | (unrecorded) event inner where "acp_next ord link closed (rr_inner r) = (Some (Ok (Some event)), inner)"
proof -
  have ok: "\<not> rr_failed r" using H by (simp add: healthy_def)
  obtain y inner where nxt: "acp_next ord link closed (rr_inner r) = (y, inner)" by force
  note unfolded_run = run [unfolded recorded_next_def prod.case if_not_P [OF ok] nxt]
  show thesis
  proof (cases y)
    case (Some z)
    then show thesis
    proof (cases z)
      case (Ok x)
      then show thesis using unfolded_run nxt Some that(2) by (cases x) auto
    next
      case (Err e)
      then show thesis using nxt Some that(1) by simp
    qed (use unfolded_run Some in simp)
  qed (use unfolded_run in simp)
qed

end

end
