(* ===== verification/Write_Ahead.thy ===== *)
theory Write_Ahead imports Recorded_Ends begin

section \<open>Evidence before dispatch\<close>

text \<open>
  What the recorder has written when the prompt is handed to the provider: the payloads in
  order, all complete, and none of them changes afterwards.
\<close>

subsection \<open>The payloads written so far\<close>

definition wrote :: "'v payload list \<Rightarrow> ('n, 'v) recorder \<Rightarrow> bool" where
  "wrote ps R \<longleftrightarrow>
     length ps \<le> length (rec_records R) \<and>
     (\<forall>n < length ps. wk_payload (rec_records R ! n) = ps ! n \<and>
        sn_state (wk_stored (rec_records R ! n)) = Complete)"

definition wrote_exactly :: "'v payload list \<Rightarrow> ('n, 'v) recorder \<Rightarrow> bool" where
  "wrote_exactly ps R \<longleftrightarrow> wrote ps R \<and> length (rec_records R) = length ps"

lemma lasting_wrote:
  fixes ps :: "'v payload list"
  shows "lasting (wrote ps :: ('n, 'v) recorder \<Rightarrow> bool)"
  unfolding lasting_def
proof (intro conjI allI impI)
  show "wrote ps (add_record R w)" if "wrote ps R" for R :: "('n, 'v) recorder" and w
    using that by (simp add: wrote_def nth_append)
  show "wrote ps (R\<lparr>rec_records := ws\<rparr>)" if "wrote ps R" "list_all2 same_work (rec_records R) ws"
    for R :: "('n, 'v) recorder" and ws
  proof -
    have "ws ! n = rec_records R ! n" if "n < length ps" for n
    proof -
      have "n < length (rec_records R)" "is_final (sn_state (wk_stored (rec_records R ! n)))"
        using that \<open>wrote ps R\<close> by (auto simp: wrote_def is_final_def)
      then show ?thesis
        using \<open>list_all2 same_work (rec_records R) ws\<close> by (auto simp: list_all2_conv_all_nth same_work_def)
    qed
    then show ?thesis
      using \<open>wrote ps R\<close> list_all2_lengthD [OF \<open>list_all2 same_work (rec_records R) ws\<close>] by (simp add: wrote_def)
  qed
  show "wrote ps (R\<lparr>rec_finished := True\<rparr>)" if "wrote ps R" for R :: "('n, 'v) recorder"
    using that by (simp add: wrote_def)
qed

text \<open>The payloads of \<open>Recorder::new\<close> and of the steps before a dispatch.\<close>

definition dispatch_evidence :: "('n, 'v) sdk \<Rightarrow> string \<Rightarrow> 'v payload" where
  "dispatch_evidence D st = PExtension ''agent_bridge'' ''run_dispatch'' (versioned_state (sdk_json D) 1 st [])"

definition receipt_evidence :: "'v \<Rightarrow> 'v payload" where
  "receipt_evidence data = PExtension ''agent_bridge'' ''input_receipt'' data"

definition begun_payloads :: "('n, 'v) sdk \<Rightarrow> string \<Rightarrow> 'v payload list" where
  "begun_payloads D prompt = [dispatch_evidence D ''prepared'', PMessage User \<lparr>msg_content = [Text prompt]\<rparr>]"

text \<open>The steps before the dispatch of a run with prepared context.\<close>

definition input_payloads :: "('n, 'v) sdk \<Rightarrow> 'v \<Rightarrow> 'v payload list \<Rightarrow> nat \<Rightarrow> 'v payload list" where
  "input_payloads D receipt between version =
     [receipt_evidence receipt] @ between @
     [receipt_evidence (versioned_state (sdk_json D) version ''dispatch_attempted'' []),
      dispatch_evidence D ''dispatch_attempted'']"

definition restoration_payloads :: "'v option \<Rightarrow> 'v payload list" where
  "restoration_payloads report =
     (case report of None \<Rightarrow> [] | Some r \<Rightarrow> [PExtension ''agent_bridge'' ''restoration'' r])"

context record_store begin

definition writing :: "run_configuration run_spec \<Rightarrow> 'v payload list \<Rightarrow> 's \<times> ('n, 'v) recorder \<Rightarrow> bool" where
  "writing spec ps st \<longleftrightarrow> sound S inv spec st \<and> \<not> rec_finished (snd st) \<and> wrote_exactly ps (snd st)"

lemma writing_insert:
  assumes "writing spec ps (s, R)" and "recorder_insert S p actor reply source Complete (s, R) = (Ok n, s', R')"
  shows "writing spec (ps @ [p]) (s', R') \<and> rec_actors R' = rec_actors R \<and> rec_input_version R' = rec_input_version R"
proof -
  have snd: "sound S inv spec (s, R)" and fin: "rec_finished R \<longrightarrow> Complete \<noteq> Open"
    using assms(1) by (simp_all add: writing_def)
  from snd fin assms(2) show ?thesis
  proof (cases rule: insert_step)
    case (ok w s1)
    then show ?thesis
      using assms(1) by (auto simp: writing_def wrote_exactly_def wrote_def made_def nth_append less_Suc_eq)
  qed simp
qed

lemma writing_evidence:
  assumes "writing spec ps (s, R)" and "host_evidence S name data (s, R) = (Ok u, s', R')"
  shows "writing spec (ps @ [PExtension ''agent_bridge'' name data]) (s', R') \<and>
    rec_actors R' = rec_actors R \<and> rec_input_version R' = rec_input_version R"
  using assms(2) writing_insert [OF assms(1)] by (auto simp: host_evidence_def and_then_Ok)

lemma writing_new:
  assumes "recorder_new D S spec prompt actors s0 = (Ok R, s)" and "unused spec s0"
  shows "writing spec (begun_payloads D prompt) (s, R) \<and> rec_actors R = actors"
proof -
  obtain u s1 where create: "op_create_session S (rs_session spec) s0 = (Ok u, s1)"
    using assms(1) by (auto simp: recorder_new_def split: prod.splits result.splits)
  obtain s2 where reg: "op_register_run S spec s1 = (Ok True, s2)"
    using assms(1) create by (auto simp: recorder_new_def split: prod.splits result.splits if_splits)
  have "writing spec [] (s2, recorder_start spec actors)"
    using recorder_start_live [OF unused_registered [OF create reg assms(2)], of actors]
    by (auto simp: writing_def live_def wrote_exactly_def wrote_def recorder_start_def)
  note 1 = this
  obtain x st where run: "and_then (execution_evidence D S ''prepared'') (\<lambda>_.
      recorder_insert S (PMessage User \<lparr>msg_content = [Text prompt]\<rparr>) (ra_user actors) None None Complete)
      (s2, recorder_start spec actors) = (x, st)" using prod.exhaust by blast
  then obtain n where "x = Ok n" "st = (s, R)"
    using assms(1) create reg by (cases x) (auto simp: recorder_new_def split: prod.splits)
  with run obtain u1 s3 R3 where 2: "execution_evidence D S ''prepared'' (s2, recorder_start spec actors) = (Ok u1, s3, R3)"
      and 3: "recorder_insert S (PMessage User \<lparr>msg_content = [Text prompt]\<rparr>) (ra_user actors) None None Complete (s3, R3) =
        (Ok n, s, R)"
    by (auto simp: and_then_Ok)
  note W = writing_evidence [OF 1 2 [unfolded execution_evidence_def]]
  from W writing_insert [OF W [THEN conjunct1] 3]
  show ?thesis by (simp add: begun_payloads_def dispatch_evidence_def recorder_start_def)
qed

text \<open>Once the steps have succeeded the run is dispatched; whatever then happens, what was written stays.\<close>

lemma launch_wrote:
  fixes R :: "('n, 'v) recorder"
  assumes W: "writing spec ps (s0, R)" and run: "launch D S V spec wire blocks sess (s0, R) = (x, s, sess')"
  shows "\<exists>R'. sound S inv spec (s, R') \<and> wrote ps R' \<and>
    (\<forall>r. x = Ok r \<longrightarrow> R' = R \<and> rr_recorder r = R \<and> s = s0 \<and> ar_input (rr_inner r) = wire \<and>
       run_spec_of (ar_run (rr_inner r)) = spec)"
proof -
  obtain a :: "(('n, 'v) acp_run, acp_error) result" and sess1 where disp: "acp_dispatch (env_ord V) (env_link V) (env_closed_late V) (env_send V blocks) spec wire sess =
      (a, sess1)" by force
  have snd: "sound S inv spec (s0, R)" "wrote ps R" using W by (simp_all add: writing_def wrote_exactly_def)
  show ?thesis
  proof (cases a)
    case (Ok inner)
    have "ar_input inner = wire \<and> run_spec_of (ar_run inner) = spec"
      using disp Ok
      by (auto simp: acp_dispatch_def run_apply_def run_new_def Let_def split: if_splits result.splits option.splits)
    moreover have "x = Ok (recorded_new inner R)" "s = s0" using run disp Ok by (simp_all add: launch_def)
    ultimately show ?thesis using snd by (auto simp: recorded_new_def)
  next
    case (Err e)
    obtain y t R' where int: "recorder_interrupt D S (acp_error_text (sdk_store_text D) e) (s0, R) = (y, t, R')"
      using prod.exhaust by metis
    have pre: "sound S inv spec (s0, R) \<and> wrote ps (snd (s0, R)) \<and> \<not> rec_finished (snd (s0, R))"
      using W snd by (simp add: writing_def)
    note post = tripleD [OF interrupt_failure [OF lasting_wrote] pre int]
    have "s = t" "\<forall>r. x \<noteq> Ok r"
      using run disp Err int by (auto simp: launch_def split: result.splits)
    moreover have "sound S inv spec (t, R') \<and> wrote ps R'" using post by (cases y) auto
    ultimately show ?thesis by blast
  next
    case Panic
    then show ?thesis using run disp snd by (auto simp: launch_def)
  qed
qed

lemma writing_cong:
  "writing spec ps (s, R) \<Longrightarrow> rec_records R' = rec_records R \<Longrightarrow> rec_spec R' = rec_spec R \<Longrightarrow>
   rec_finished R' = rec_finished R \<Longrightarrow> writing spec ps (s, R')"
  by (simp add: writing_def sound_def wrote_exactly_def wrote_def)

lemma writing_restoration:
  assumes "writing spec ps (s, R)"
    and "(case report of None \<Rightarrow> give () | Some r \<Rightarrow> recorder_restoration S r) (s, R) = (Ok u, s', R')"
  shows "writing spec (ps @ restoration_payloads report) (s', R') \<and> rec_input_version R' = rec_input_version R"
  using assms writing_evidence [OF assms(1)]
  by (cases report) (auto simp: restoration_payloads_def recorder_restoration_def)

lemma writing_input:
  assumes W: "writing spec ps (s, R)"
    and run: "input_steps D S receipt (case report of None \<Rightarrow> give () | Some r \<Rightarrow> recorder_restoration S r) (s, R) =
      (Ok u, s', R')"
  shows "\<exists>version. j_as_u64 (sdk_json D) (j_index (sdk_json D) receipt ''version'') = Some version \<and>
    writing spec (ps @ input_payloads D receipt (restoration_payloads report) version) (s', R')"
proof -
  obtain version s1 R1 where v: "j_as_u64 (sdk_json D) (j_index (sdk_json D) receipt ''version'') = Some version"
      and prep: "prepare_input D S receipt (s, R) = (Ok (), s1, R1)"
      and rest: "and_then (case report of None \<Rightarrow> give () | Some r \<Rightarrow> recorder_restoration S r) (\<lambda>_.
        and_then (input_dispatch_attempted D S) (\<lambda>_. execution_evidence D S ''dispatch_attempted'')) (s1, R1) = (Ok u, s', R')"
    using run
    by (cases "j_as_u64 (sdk_json D) (j_index (sdk_json D) receipt ''version'')")
      (auto simp: input_steps_def and_then_Ok prepare_input_def)
  have "writing spec ps (s, R\<lparr>rec_input_version := version\<rparr>)" by (rule writing_cong [OF W]) simp_all
  moreover obtain s2 R2 where "input_evidence S receipt (s, R\<lparr>rec_input_version := version\<rparr>) = (Ok (), s2, R2)"
      "s1 = s2" "R1 = R2\<lparr>rec_input_receipt := True\<rparr>"
    using prep v by (auto simp: prepare_input_def and_then_Ok on_recorder_def)
  ultimately have W2: "writing spec (ps @ [receipt_evidence receipt]) (s2, R2)" "rec_input_version R2 = version"
    using writing_evidence by (fastforce simp: input_evidence_def receipt_evidence_def)+
  have 1: "writing spec (ps @ [receipt_evidence receipt]) (s1, R1)" "rec_input_version R1 = version"
    using W2(2) writing_cong [OF W2(1), of R1]
    by (simp_all add: \<open>s1 = s2\<close> \<open>R1 = R2\<lparr>rec_input_receipt := True\<rparr>\<close>)
  obtain s3 R3 s4 R4 where
      2: "(case report of None \<Rightarrow> give () | Some r \<Rightarrow> recorder_restoration S r) (s1, R1) = (Ok (), s3, R3)"
      and 3: "input_dispatch_attempted D S (s3, R3) = (Ok (), s4, R4)"
      and 4: "execution_evidence D S ''dispatch_attempted'' (s4, R4) = (Ok u, s', R')"
    using rest by (auto simp: and_then_Ok)
  note W3 = writing_restoration [OF 1(1) 2]
  have "input_evidence S (versioned_state (sdk_json D) version ''dispatch_attempted'' []) (s3, R3) = (Ok (), s4, R4)"
    using 3 W3 1(2) by (simp add: input_dispatch_attempted_def)
  note W4 = writing_evidence [OF W3 [THEN conjunct1] this [unfolded input_evidence_def]]
  note W5 = writing_evidence [OF W4 [THEN conjunct1] 4 [unfolded execution_evidence_def]]
  show ?thesis
    using v W5 by (simp add: input_payloads_def receipt_evidence_def dispatch_evidence_def)
qed

lemma prepared_start_cases:
  assumes run: "record_and_launch D S V spec prompt actors
      (input_steps D S receipt (case report of None \<Rightarrow> give () | Some r \<Rightarrow> recorder_restoration S r)) wire blocks sess s0 =
      (x, s, sess')"
    and free: "unused spec s0"
  shows "(\<forall>r. x \<noteq> Ok r) \<and> sess' = sess \<or>
    (\<exists>version R. j_as_u64 (sdk_json D) (j_index (sdk_json D) receipt ''version'') = Some version \<and>
       sound S inv spec (s, R) \<and>
       wrote (begun_payloads D prompt @ input_payloads D receipt (restoration_payloads report) version) R \<and>
       (\<forall>r. x = Ok r \<longrightarrow> rr_recorder r = R \<and> ar_input (rr_inner r) = wire \<and> run_spec_of (ar_run (rr_inner r)) = spec))"
proof -
  let ?steps = "input_steps D S receipt (case report of None \<Rightarrow> give () | Some r \<Rightarrow> recorder_restoration S r)"
  consider (early) "\<forall>r. x \<noteq> Ok r" "sess' = sess"
    | (go) R0 s1 u s2 R2 where "recorder_new D S spec prompt actors s0 = (Ok R0, s1)" "?steps (s1, R0) = (Ok u, s2, R2)"
        "launch D S V spec wire blocks sess (s2, R2) = (x, s, sess')"
    using run by (auto simp: record_and_launch_def split: prod.splits result.splits)
  then show ?thesis
  proof cases
    case early
    then show ?thesis by blast
  next
    case go
    note W = writing_new [OF go(1) free, THEN conjunct1]
    obtain version where v: "j_as_u64 (sdk_json D) (j_index (sdk_json D) receipt ''version'') = Some version"
        "writing spec (begun_payloads D prompt @ input_payloads D receipt (restoration_payloads report) version) (s2, R2)"
      using writing_input [OF W go(2)] by blast
    from launch_wrote [OF v(2) go(3)] v(1) show ?thesis by blast
  qed
qed

end

end
