(* ===== verification/Acp_Continuation.thy ===== *)
theory Acp_Continuation imports Acp_Start begin

section \<open>Native sessions across connections (src/acp/continuation.rs, src/acp/restoration.rs)\<close>

text \<open>
  Creating a native session, handing it off through a saved continuation, resuming it on
  another connection, and restoring a conversation from selected records. What a connection
  negotiated is the record \<open>acp_peer\<close>; the native identifiers it has used are a set; the
  answer of the setup exchange and the derived serialization of \<open>AcpData\<close> are parameters.
  Paths are those of a POSIX host.
\<close>

subsection \<open>Connections and session handles\<close>

record acp_peer =
  pe_closed :: bool
  pe_resume :: bool
  pe_agent :: "(string \<times> string) option"
  pe_scope :: "string option"
  pe_http :: bool
  pe_sse :: bool
  pe_images :: bool

record session_handle =
  sh_session :: acp_session
  sh_native :: string
  sh_cwd :: string

text \<open>\<open>Path::is_absolute\<close>\<close>

definition absolute_path :: "string \<Rightarrow> bool" where
  "absolute_path p \<longleftrightarrow> (case p of c # _ \<Rightarrow> c = CHR ''/'' | [] \<Rightarrow> False)"

definition acp_new_session ::
  "acp_peer \<Rightarrow> (string \<times> config_state, acp_error) result \<Rightarrow> session_id \<Rightarrow> slot_id \<Rightarrow> string \<Rightarrow> mcp_spec list \<Rightarrow>
   string set \<Rightarrow> (session_handle, acp_error) result \<times> string set" where
  "acp_new_session peer setup sid slot cwd servers sessions =
     (if \<not> absolute_path cwd then (Err InvalidWorkingDirectory, sessions)
      else if pe_closed peer then (Err AcpClosed, sessions)
      else
        (case rbind (validate_mcp (pe_http peer) (pe_sse peer) servers) (\<lambda>_. setup) of
           Err e \<Rightarrow> (Err e, sessions)
         | Panic \<Rightarrow> (Panic, sessions)
         | Ok (native, config) \<Rightarrow>
             (case session_new sid slot native config sessions of
                (Ok sess, sessions) \<Rightarrow>
                  (Ok \<lparr>sh_session = sess, sh_native = native, sh_cwd = cwd\<rparr>, sessions)
              | (Err e, sessions) \<Rightarrow> (Err e, sessions)
              | (Panic, sessions) \<Rightarrow> (Panic, sessions))))"

subsection \<open>The continuation store\<close>

record ('v, 's) continuation_store_ops =
  oc_create :: "session_id \<Rightarrow> 's \<Rightarrow> (unit, store_error) result \<times> 's"
  oc_get :: "continuation_id \<Rightarrow> 's \<Rightarrow> ('v continuation_record, store_error) result"
  oc_save :: "'v continuation \<Rightarrow> 's \<Rightarrow> ('v continuation_record, store_error) result \<times> 's"
  oc_claim :: "continuation_id \<Rightarrow> 's \<Rightarrow> ('v continuation_record, store_error) result \<times> 's"

definition memory_continuation_store :: "('v, 'v memory_state) continuation_store_ops" where
  "memory_continuation_store =
     \<lparr>oc_create = memory_create_session, oc_get = memory_get_continuation, oc_save = memory_save_continuation,
      oc_claim = memory_claim_continuation\<rparr>"

record acp_data =
  ad_version :: "32 word"
  ad_cwd :: string
  ad_agent_name :: string
  ad_agent_version :: string

text \<open>The derived serialization; it fails for a path that is not UTF-8.\<close>

record 'v data_codec =
  dc_to_value :: "acp_data \<Rightarrow> 'v option"
  dc_from_value :: "'v \<Rightarrow> acp_data option"

definition adapter_name :: string where
  "adapter_name = ''acp-v1''"

definition connection_scope :: "acp_peer \<Rightarrow> (string, acp_error) result" where
  "connection_scope peer =
     (case pe_scope peer of
        Some scope \<Rightarrow> if blank scope then Err ContinuationScopeRequired else Ok scope
      | None \<Rightarrow> Err ContinuationScopeRequired)"

subsection \<open>Resuming\<close>

text \<open>The checks before anything is reserved or claimed.\<close>

definition resume_checks ::
  "acp_peer \<Rightarrow> 'v data_codec \<Rightarrow> 'v continuation \<Rightarrow> mcp_spec list \<Rightarrow> (acp_data, acp_error) result" where
  "resume_checks peer codec c servers =
     (case dc_from_value codec (k_data c) of
        None \<Rightarrow> Err IncompatibleContinuation
      | Some data \<Rightarrow>
          (case pe_agent peer of
             None \<Rightarrow> Err IncompatibleContinuation
           | Some (name, version) \<Rightarrow>
               if k_adapter c \<noteq> adapter_name then Err IncompatibleContinuation
               else
                 rbind (connection_scope peer) (\<lambda>scope.
                   if k_scope c \<noteq> scope \<or> ad_version data \<noteq> 1 \<or> name \<noteq> ad_agent_name data \<or>
                      version \<noteq> ad_agent_version data
                   then Err IncompatibleContinuation
                   else if \<not> absolute_path (ad_cwd data) then Err InvalidWorkingDirectory
                   else rbind (validate_mcp (pe_http peer) (pe_sse peer) servers) (\<lambda>_. Ok data))))"

definition resumed_session :: "'v continuation \<Rightarrow> continuation_id \<Rightarrow> config_state \<Rightarrow> acp_session" where
  "resumed_session c i config =
     \<lparr>as_session_id = k_session c, as_slot_id = k_slot c, as_predecessor = Some i, as_retired = False,
      as_quiescent = True, as_fresh = False, as_config = config, as_registered = False, as_answers = []\<rparr>"

text \<open>\<open>setup\<close> is the answer of the resume request for the native session and directory.\<close>

definition resume_saved ::
  "acp_peer \<Rightarrow> 'v data_codec \<Rightarrow> ('v, 's) continuation_store_ops \<Rightarrow> (string \<Rightarrow> string \<Rightarrow> (config_state, acp_error) result) \<Rightarrow>
   continuation_id \<Rightarrow> mcp_spec list \<Rightarrow> 's \<Rightarrow> string set \<Rightarrow> (session_handle, acp_error) result \<times> 's \<times> string set" where
  "resume_saved peer codec C setup i servers s sessions =
     (if pe_closed peer then (Err AcpClosed, s, sessions)
      else if \<not> pe_resume peer then (Err ResumeUnsupported, s, sessions)
      else
        (case rbind (map_err AcpStore (oc_get C i s)) (\<lambda>saved.
                rbind (resume_checks peer codec (cr_continuation saved) servers) (\<lambda>data.
                  Ok (cr_continuation saved, data))) of
           Err e \<Rightarrow> (Err e, s, sessions)
         | Panic \<Rightarrow> (Panic, s, sessions)
         | Ok (c, data) \<Rightarrow>
             if k_native_key c \<in> sessions then (Err SessionUnavailable, s, sessions)
             else
               (case oc_claim C i s of
                  (Err e, s) \<Rightarrow> (Err (AcpStore e), s, sessions)
                | (Panic, s) \<Rightarrow> (Panic, s, insert (k_native_key c) sessions)
                | (Ok _, s) \<Rightarrow>
                    (case setup (k_native_key c) (ad_cwd data) of
                       Ok config \<Rightarrow>
                         (Ok \<lparr>sh_session = resumed_session c i config, sh_native = k_native_key c,
                              sh_cwd = ad_cwd data\<rparr>, s, insert (k_native_key c) sessions)
                     | Err e \<Rightarrow> (Err e, s, insert (k_native_key c) sessions)
                     | Panic \<Rightarrow> (Panic, s, insert (k_native_key c) sessions)))))"

subsection \<open>Handing off\<close>

definition handoff_checks :: "acp_peer \<Rightarrow> session_handle \<Rightarrow> (string \<times> acp_data, acp_error) result" where
  "handoff_checks peer h =
     (if as_retired (sh_session h) \<or> \<not> as_quiescent (sh_session h) then Err UnsafeHandoff
      else
        rbind (config_for_run (as_config (sh_session h))) (\<lambda>_.
          if pe_closed peer then Err AcpClosed
          else if \<not> pe_resume peer then Err ResumeUnsupported
          else
            rbind (connection_scope peer) (\<lambda>scope.
              case pe_agent peer of
                None \<Rightarrow> Err IncompatibleContinuation
              | Some (name, version) \<Rightarrow>
                  Ok (scope, \<lparr>ad_version = 1, ad_cwd = sh_cwd h, ad_agent_name = name,
                              ad_agent_version = version\<rparr>))))"

definition handoff_continuation :: "continuation_id \<Rightarrow> string \<Rightarrow> session_handle \<Rightarrow> 'v \<Rightarrow> 'v continuation" where
  "handoff_continuation i scope h data =
     \<lparr>k_id = i, k_session = as_session_id (sh_session h), k_slot = as_slot_id (sh_session h),
      k_adapter = adapter_name, k_scope = scope, k_native_key = sh_native h,
      k_predecessor = as_predecessor (sh_session h), k_data = data\<rparr>"

definition handoff ::
  "acp_peer \<Rightarrow> 'v data_codec \<Rightarrow> ('v, 's) continuation_store_ops \<Rightarrow> continuation_id \<Rightarrow> session_handle \<Rightarrow> 's \<Rightarrow>
   string set \<Rightarrow> ('v continuation_record, acp_error) result \<times> 's \<times> string set" where
  "handoff peer codec C i h s sessions =
     (case handoff_checks peer h of
        Err e \<Rightarrow> (Err e, s, sessions)
      | Panic \<Rightarrow> (Panic, s, sessions)
      | Ok (scope, data) \<Rightarrow>
          (case oc_create C (as_session_id (sh_session h)) s of
             (Err e, s) \<Rightarrow> (Err (AcpStore e), s, sessions)
           | (Panic, s) \<Rightarrow> (Panic, s, sessions)
           | (Ok _, s) \<Rightarrow>
               (case dc_to_value codec data of
                  None \<Rightarrow> (Err IncompatibleContinuation, s, sessions)
                | Some value \<Rightarrow>
                    (case oc_save C (handoff_continuation i scope h value) s of
                       (Err e, s) \<Rightarrow> (Err (AcpStore e), s, sessions)
                     | (Panic, s) \<Rightarrow> (Panic, s, sessions)
                     | (Ok saved, s) \<Rightarrow>
                         if cr_state saved \<noteq> Available \<or> \<not> cr_latest saved
                         then (Err (AcpStore ContinuationClaimed), s, sessions)
                         else (Ok saved, s, sessions - {sh_native h})))))"

end
