(* ===== verification/Acp_Restoration.thy ===== *)
theory Acp_Restoration imports Acp_Continuation begin

section \<open>Restoring a conversation (src/acp/restoration.rs)\<close>

text \<open>
  The two exclusive ways to restore: resuming the saved native session, or a new native
  session whose first run delivers a frozen selection of the stored context.
\<close>

record portable_restore =
  pr_policy :: context_policy
  pr_session :: session_id
  pr_slot :: slot_id
  pr_cwd :: string
  pr_manifest :: context_manifest
  pr_limits :: context_limits
  pr_max_bytes :: nat
  pr_mode :: context_mode

datatype restoration_policy = NativeRestore continuation_id | PortableRestore portable_restore

record 'v pending_context =
  pn_context :: "'v prepared_context"
  pn_mode :: context_mode
  pn_max_bytes :: nat

record 'v restored_session =
  re_handle :: session_handle
  re_pending :: "'v pending_context option"
  re_report :: 'v
  re_report_pending :: bool

subsection \<open>The report\<close>

definition native_report :: "'v json \<Rightarrow> continuation_id \<Rightarrow> 'v" where
  "native_report J i =
     j_object J
       [(''version'', j_number J 1), (''strategy'', j_string J ''native_resume''),
        (''continuation'', j_string J (as_str i)), (''native_context'', j_string J ''reused_uninspected''),
        (''portable_context_replayed'', j_bool J False)]"

definition not_transferred :: "string list" where
  "not_transferred =
     [''history_outside_selection'', ''provider_hidden_state'', ''native_instruction_state'',
      ''provider_configuration'', ''prior_tool_grants'', ''skill_activation_state'']"

definition selected_instruction_json :: "'v json \<Rightarrow> prepared_instruction \<Rightarrow> 'v" where
  "selected_instruction_json J x =
     j_object J
       [(''id'', j_string J (as_str (res_id (ins_resource (pi_reference x))))),
        (''revision'', j_string J (res_revision (ins_resource (pi_reference x)))),
        (''role'', j_string J ''supplemental''), (''delivery'', j_string J ''user_text'')]"

definition portable_fields :: "'v json \<Rightarrow> portable_restore \<Rightarrow> 'v prepared_context \<Rightarrow> (string \<times> 'v) list" where
  "portable_fields J plan c =
     [(''version'', j_number J 1), (''strategy'', j_string J ''portable_selection''),
      (''native_context'', j_string J ''new_session''), (''session_id'', j_string J (as_str (pr_session plan))),
      (''slot_id'', j_string J (as_str (pr_slot plan))),
      (''selected_records'', j_array J (map (\<lambda>x. j_object J
         [(''id'', j_string J (as_str (r_id (sn_record x)))), (''revision'', j_number J (unat (sn_revision x)))])
         (pc_records c))),
      (''selected_resources'', j_array J (map (\<lambda>x. reference_json J (rsc_reference x)) (pc_resources c))),
      (''selected_instructions'', j_array J (map (selected_instruction_json J) (pc_instructions c))),
      (''not_transferred'', j_array J (map (j_string J) not_transferred)),
      (''delivery'', j_string J ''pending_first_run'')]"

definition portable_report :: "'v json \<Rightarrow> portable_restore \<Rightarrow> 'v prepared_context \<Rightarrow> 'v" where
  "portable_report J plan c =
     (let fields = portable_fields J plan c;
          fields = (if pol_omissions (pc_policy c) \<noteq> [] \<or> pol_authorization (pc_policy c) \<noteq> None
                    then set_field ''context_policy'' (policy_evidence J c) (set_field ''version'' (j_number J 2) fields)
                    else fields);
          fields = (if pol_skills (pc_policy c) \<noteq> [] then set_field ''version'' (j_number J 3) fields else fields)
      in j_object J fields)"

subsection \<open>Restoring\<close>

text \<open>
  \<open>lookup\<close> is the resource store, \<open>resume\<close> and \<open>setup\<close> what the requests to the
  provider answer. Everything is resolved and its encoding checked before a session is created.
\<close>

definition portable_prepare ::
  "'v encoder \<Rightarrow> ('v, 's) record_store_ops \<Rightarrow> (resource_ref \<Rightarrow> (resource, resource_error) result) \<Rightarrow> bool \<Rightarrow>
   portable_restore \<Rightarrow> 's \<Rightarrow> ('v prepared_context, recording_error) result" where
  "portable_prepare N S lookup images plan s =
     rbind (map_err RecContext
         (prepare_with_policy (pr_manifest plan) (\<lambda>j. op_get S j s) lookup [pr_session plan] (pr_limits plan)
           (pr_policy plan))) (\<lambda>c.
     rbind (encode N c '''' (pr_max_bytes plan) (pr_mode plan = AppendImagesToNative) images) (\<lambda>_. Ok c))"

definition restore ::
  "acp_peer \<Rightarrow> 'v data_codec \<Rightarrow> 'v encoder \<Rightarrow> ('v, 's) record_store_ops \<Rightarrow> ('v, 's) continuation_store_ops \<Rightarrow>
   (resource_ref \<Rightarrow> (resource, resource_error) result) \<Rightarrow>
   (string \<Rightarrow> string \<Rightarrow> (config_state, acp_error) result) \<Rightarrow> (string \<times> config_state, acp_error) result \<Rightarrow>
   restoration_policy \<Rightarrow> mcp_spec list \<Rightarrow> 's \<Rightarrow> string set \<Rightarrow>
   ('v restored_session, recording_error) result \<times> 's \<times> string set" where
  "restore peer codec N S C lookup resume setup policy servers s sessions =
     (case policy of
        NativeRestore i \<Rightarrow>
          (case resume_saved peer codec C resume i servers s sessions of
             (Ok h, s, sessions) \<Rightarrow>
               (Ok \<lparr>re_handle = h, re_pending = None, re_report = native_report (enc_json N) i,
                    re_report_pending = True\<rparr>, s, sessions)
           | (Err e, s, sessions) \<Rightarrow> (Err (RecAgent e), s, sessions)
           | (Panic, s, sessions) \<Rightarrow> (Panic, s, sessions))
      | PortableRestore plan \<Rightarrow>
          (case portable_prepare N S lookup (pe_images peer) plan s of
             Err e \<Rightarrow> (Err e, s, sessions)
           | Panic \<Rightarrow> (Panic, s, sessions)
           | Ok c \<Rightarrow>
               (case acp_new_session peer setup (pr_session plan) (pr_slot plan) (pr_cwd plan) servers sessions of
                  (Ok h, sessions) \<Rightarrow>
                    (Ok \<lparr>re_handle = h,
                         re_pending = Some \<lparr>pn_context = c, pn_mode = pr_mode plan, pn_max_bytes = pr_max_bytes plan\<rparr>,
                         re_report = portable_report (enc_json N) plan c, re_report_pending = True\<rparr>, s, sessions)
                | (Err e, sessions) \<Rightarrow> (Err (RecAgent e), s, sessions)
                | (Panic, sessions) \<Rightarrow> (Panic, s, sessions))))"

subsection \<open>The restored session\<close>

text \<open>\<open>start_recorded_run\<close>: the pending selection and the report are given up on success only.\<close>

definition restored_start ::
  "('n, 'v) sdk \<Rightarrow> 'v encoder \<Rightarrow> ('v, 's) record_store_ops \<Rightarrow> acp_env \<Rightarrow> run_id \<Rightarrow> string \<Rightarrow> record_actors \<Rightarrow>
   's \<Rightarrow> 'v restored_session \<Rightarrow> (('n, 'v) recorded_run, recording_error) result \<times> 's \<times> 'v restored_session" where
  "restored_start D N S V i prompt actors s r =
     (let report = (if re_report_pending r then Some (re_report r) else None);
          (result, s, sess) =
            (case re_pending r of
               Some p \<Rightarrow>
                 start_prepared_context_run D N S V i
                   \<lparr>pt_prompt = prompt, pt_context = pn_context p, pt_mode = pn_mode p,
                    pt_max_bytes = pn_max_bytes p, pt_restoration = report\<rparr> actors (sh_session (re_handle r)) s
             | None \<Rightarrow> start_recorded_with_report D S V i prompt actors report (sh_session (re_handle r)) s);
          r = r\<lparr>re_handle := (re_handle r)\<lparr>sh_session := sess\<rparr>\<rparr>
      in (result, s,
          case result of Ok _ \<Rightarrow> r\<lparr>re_pending := None, re_report_pending := False\<rparr> | _ \<Rightarrow> r))"

definition into_session :: "'v restored_session \<Rightarrow> (session_handle, recording_error) result" where
  "into_session r =
     (if re_pending r \<noteq> None then Err (UnsupportedContext ''portable context has not been dispatched'')
      else Ok (re_handle r))"

text \<open>The run gives the session back when it is dropped.\<close>

definition restored_return :: "acp_session \<Rightarrow> 'v restored_session \<Rightarrow> 'v restored_session" where
  "restored_return sess r = r\<lparr>re_handle := (re_handle r)\<lparr>sh_session := sess\<rparr>\<rparr>"

subsection \<open>A handed-off session resumes\<close>

text \<open>Deserializing what was serialized gives it back.\<close>

definition codec_faithful :: "'v data_codec \<Rightarrow> bool" where
  "codec_faithful codec \<longleftrightarrow> (\<forall>d v. dc_to_value codec d = Some v \<longrightarrow> dc_from_value codec v = Some d)"

lemma registry_saved:
  assumes "registry_save c g = (Ok r, g')"
  shows "reg_records g' (k_id c) = Some r \<and> cr_continuation r = c"
proof (cases rule: registry_save_cases [of c g])
  case (unchanged e)
  then show ?thesis using assms by auto
next
  case stored
  then show ?thesis using assms by (auto simp: fresh_record_def)
qed

lemma memory_saved:
  assumes "memory_save_continuation c s = (Ok r, s')"
  shows "memory_get_continuation (k_id c) s' = Ok r \<and> cr_continuation r = c"
proof -
  have np: "\<not> ms_poisoned s" using assms by (auto simp: memory_save_continuation_def with_lock_def)
  then obtain g where g: "registry_save c (ms_continuations s) = (Ok r, g)" "s' = s\<lparr>ms_continuations := g\<rparr>"
    using assms by (auto simp: memory_save_continuation_def with_lock_def split: if_splits prod.splits result.splits)
  show ?thesis
    using registry_saved [OF g(1)] np g(2) by (simp add: memory_get_continuation_def read_lock_def registry_get_def ok_or_def)
qed

lemma memory_claims:
  assumes "memory_get_continuation i s = Ok r" and "cr_state r = Available" and "cr_latest r"
  obtains s' where "memory_claim_continuation i s = (Ok (r\<lparr>cr_state := Claimed\<rparr>), s')"
    "memory_get_continuation i s' = Ok (r\<lparr>cr_state := Claimed\<rparr>)"
proof -
  let ?r = "r\<lparr>cr_state := Claimed\<rparr>" and ?g = "ms_continuations s"
  let ?s = "s\<lparr>ms_continuations := ?g\<lparr>reg_records := (reg_records ?g)(i \<mapsto> ?r)\<rparr>\<rparr>"
  have np: "\<not> ms_poisoned s" and r: "reg_records ?g i = Some r"
    using assms(1)
    by (auto simp: memory_get_continuation_def read_lock_def registry_get_def ok_or_def split: if_splits option.splits)
  have "memory_claim_continuation i s = (Ok ?r, ?s)"
    using np r assms(2,3)
    by (simp add: memory_claim_continuation_def with_lock_def registry_claim_def registry_get_def ok_or_def Let_def)
  moreover have "memory_get_continuation i ?s = Ok ?r"
    using np by (simp add: memory_get_continuation_def read_lock_def registry_get_def ok_or_def)
  ultimately show thesis by (rule that)
qed

text \<open>A claimed continuation is not resumed.\<close>

lemma resume_claimed:
  assumes "ms_inv s" and "memory_get_continuation i s = Ok r" and "cr_state r = Claimed"
  shows "fst (resume_saved peer codec memory_continuation_store setup i servers s sessions) \<noteq> Ok h"
proof -
  have "fst (memory_claim_continuation i s) = Err ContinuationClaimed" by (rule memc.claim_claimed [OF assms])
  then obtain s' where "memory_claim_continuation i s = (Err ContinuationClaimed, s')" by (metis prod.collapse)
  then show ?thesis
    by (auto simp: resume_saved_def memory_continuation_store_def split: result.split)
qed

lemma handoff_Ok:
  assumes "handoff peer codec C i h s sessions = (Ok saved, s', sessions')"
  obtains scope name version v s1 where "connection_scope peer = Ok scope" "pe_agent peer = Some (name, version)"
    "dc_to_value codec \<lparr>ad_version = 1, ad_cwd = sh_cwd h, ad_agent_name = name, ad_agent_version = version\<rparr> = Some v"
    "oc_create C (as_session_id (sh_session h)) s = (Ok (), s1)"
    "oc_save C (handoff_continuation i scope h v) s1 = (Ok saved, s')"
    "cr_state saved = Available" "cr_latest saved" "sessions' = sessions - {sh_native h}"
proof -
  obtain scope data where checks: "handoff_checks peer h = Ok (scope, data)"
    using assms by (auto simp: handoff_def split: result.splits)
  then obtain name version where "connection_scope peer = Ok scope" "pe_agent peer = Some (name, version)"
      "data = \<lparr>ad_version = 1, ad_cwd = sh_cwd h, ad_agent_name = name, ad_agent_version = version\<rparr>"
    by (auto simp: handoff_checks_def rbind_eq_Ok split: if_splits option.splits)
  with assms checks that show thesis
    by (fastforce simp: handoff_def split: prod.splits result.splits option.splits if_splits)
qed

text \<open>
  C12: A handed-off session resumes as itself, once. When \<open>handoff\<close> on the in-memory store
  returns, any connection in the same scope to the same agent and version that does not
  hold the native session resumes it with the same owner, slot, native key and directory,
  with the handle as its predecessor; after that no \<open>resume_saved\<close> with the handle succeeds.
\<close>

theorem handoff_resumes:
  assumes "handoff peer codec memory_continuation_store i h s sessions = (Ok saved, s1, sessions1)"
    and "memory_reachable s" and "codec_faithful codec" and "absolute_path (sh_cwd h)"
    and "\<not> pe_closed peer'" and "pe_resume peer'" and "pe_agent peer' = pe_agent peer" and "pe_scope peer' = pe_scope peer"
    and "validate_mcp (pe_http peer') (pe_sse peer') servers = Ok ()" and "sh_native h \<notin> sessions'"
    and "setup (sh_native h) (sh_cwd h) = Ok config"
  shows "sh_native h \<notin> sessions1 \<and>
    (\<exists>s2. resume_saved peer' codec memory_continuation_store setup i servers s1 sessions' =
        (Ok (h\<lparr>sh_session := (sh_session h)\<lparr>as_predecessor := Some i, as_retired := False, as_quiescent := True,
            as_fresh := False, as_config := config, as_registered := False, as_answers := []\<rparr>\<rparr>),
         s2, insert (sh_native h) sessions') \<and>
      (\<forall>peer'' setup'' servers'' sessions'' h''.
         fst (resume_saved peer'' codec memory_continuation_store setup'' i servers'' s2 sessions'') \<noteq> Ok h''))"
proof -
  obtain scope name version v s0 where H: "connection_scope peer = Ok scope" "pe_agent peer = Some (name, version)"
      "dc_to_value codec \<lparr>ad_version = 1, ad_cwd = sh_cwd h, ad_agent_name = name, ad_agent_version = version\<rparr> = Some v"
      "memory_create_session (as_session_id (sh_session h)) s = (Ok (), s0)"
      "memory_save_continuation (handoff_continuation i scope h v) s0 = (Ok saved, s1)"
      "cr_state saved = Available" "cr_latest saved" "sessions1 = sessions - {sh_native h}"
    by (rule handoff_Ok [OF assms(1), unfolded memory_continuation_store_def continuation_store_ops.simps])
  have saved: "memory_get_continuation i s1 = Ok saved" "cr_continuation saved = handoff_continuation i scope h v"
    using memory_saved [OF H(5)] by (simp_all add: handoff_continuation_def)
  obtain s2 where claim: "memory_claim_continuation i s1 = (Ok (saved\<lparr>cr_state := Claimed\<rparr>), s2)"
      and claimed: "memory_get_continuation i s2 = Ok (saved\<lparr>cr_state := Claimed\<rparr>)"
    by (rule memory_claims [OF saved(1) H(6,7)])
  have "connection_scope peer' = Ok scope" using H(1) assms(8) by (simp add: connection_scope_def)
  then have checks: "resume_checks peer' codec (cr_continuation saved) servers =
      Ok \<lparr>ad_version = 1, ad_cwd = sh_cwd h, ad_agent_name = name, ad_agent_version = version\<rparr>"
    using assms(3,4,7,9) H(2,3)
    by (simp add: resume_checks_def saved(2) handoff_continuation_def codec_faithful_def)
  have "memory_reachable s0"
    using memory_exec_reachable [OF assms(2), of "CreateSession (as_session_id (sh_session h))"] H(4)
    by (simp add: store_exec_def memory_store_sel)
  then have "memory_reachable s1"
    using memory_reachable.step [OF _ memory_step.save] H(5) by (metis snd_conv)
  then have "memory_reachable s2"
    using memory_reachable.step [OF _ memory_step.claim] claim by (metis snd_conv)
  then have "fst (resume_saved peer'' codec memory_continuation_store setup'' i servers'' s2 sessions'') \<noteq> Ok h''"
    for peer'' setup'' servers'' sessions'' h''
    using resume_claimed [OF memory_reachable_ms_inv claimed] by simp
  moreover have same: "k_native_key (cr_continuation saved) = sh_native h"
      "resumed_session (cr_continuation saved) i config = (sh_session h)\<lparr>as_predecessor := Some i, as_retired := False,
        as_quiescent := True, as_fresh := False, as_config := config, as_registered := False, as_answers := []\<rparr>"
    by (simp_all add: saved(2) handoff_continuation_def resumed_session_def)
  moreover have "resume_saved peer' codec memory_continuation_store setup i servers s1 sessions' =
      (Ok (h\<lparr>sh_session := (sh_session h)\<lparr>as_predecessor := Some i, as_retired := False, as_quiescent := True,
            as_fresh := False, as_config := config, as_registered := False, as_answers := []\<rparr>\<rparr>),
         s2, insert (sh_native h) sessions')"
    using assms(5,6,10,11) saved(1) checks claim same
    by (simp add: resume_saved_def memory_continuation_store_def)
  ultimately show ?thesis using H(8) by blast
qed

definition sample_data_codec :: "tree data_codec" where
  "sample_data_codec =
     \<lparr>dc_to_value = (\<lambda>d. Some (TArr [TNum (unat (ad_version d)), TStr (ad_cwd d), TStr (ad_agent_name d),
        TStr (ad_agent_version d)])),
      dc_from_value = (\<lambda>v. case v of
          TArr [TNum n, TStr cwd, TStr name, TStr version] \<Rightarrow>
            Some \<lparr>ad_version = word_of_nat n, ad_cwd = cwd, ad_agent_name = name, ad_agent_version = version\<rparr>
        | _ \<Rightarrow> None)\<rparr>"

definition sample_peer :: acp_peer where
  "sample_peer =
     \<lparr>pe_closed = False, pe_resume = True, pe_agent = Some (''agent'', ''1''), pe_scope = Some ''scope'',
      pe_http = False, pe_sse = False, pe_images = False\<rparr>"

definition sample_handle :: session_handle where
  "sample_handle = \<lparr>sh_session = sample_acp_session, sh_native = ''native'', sh_cwd = ''/w''\<rparr>"

lemma sample_handoff:
  "\<exists>saved s1. handoff sample_peer sample_data_codec memory_continuation_store (Ident ''k'') sample_handle
     memory_default {''native''} = (Ok saved, s1, {})"
proof -
  have "\<not> blank ''scope''" "\<not> blank ''native''" "\<not> blank ''acp-v1''"
    by (rule not_blank_plain; simp add: plain_char_def)+
  then show ?thesis
    by (simp add: handoff_def handoff_checks_def sample_handle_def sample_acp_session_def config_for_run_def sample_peer_def
        connection_scope_def memory_continuation_store_def memory_create_session_def with_lock_def memory_default_def
        sample_data_codec_def memory_save_continuation_def registry_save_def continuation_validate_def
        handoff_continuation_def adapter_name_def empty_registry_def registry_previous_def continuation_key_def
        validate_successor_def fresh_record_def)
qed

theorem handoff_resumes_witness:
  "\<exists>s1 s2 h'. resume_saved sample_peer sample_data_codec memory_continuation_store
      (\<lambda>_ _. Ok \<lparr>cs_options = None, cs_requested = [], cs_pending = False, cs_uncertain = False\<rparr>)
      (Ident ''k'') [] s1 {} = (Ok h', s2, {''native''}) \<and> sh_cwd h' = ''/w''"
proof -
  obtain saved s1 where h: "handoff sample_peer sample_data_codec memory_continuation_store (Ident ''k'') sample_handle
      memory_default {''native''} = (Ok saved, s1, {})"
    using sample_handoff by blast
  have "codec_faithful sample_data_codec" by (simp add: codec_faithful_def sample_data_codec_def)
  moreover have "absolute_path (sh_cwd sample_handle)" by (simp add: absolute_path_def sample_handle_def)
  ultimately show ?thesis
    using handoff_resumes [OF h memory_default_reachable, of sample_peer "[]" "{}"]
    by (fastforce simp: sample_peer_def sample_handle_def)
qed

end
