(* ===== verification/Recorded_Sample.thy ===== *)
theory Recorded_Sample imports Recorded_Trace begin

section \<open>A sample recorded run on the in-memory store\<close>

text \<open>
  A run that is started on an empty store, streams one message and ends: it shows that the
  hypotheses of the statements on recorded runs can hold.
\<close>

definition record_ident :: "run_id \<Rightarrow> nat \<Rightarrow> record_id" where
  "record_ident i n = Ident (record_text (as_str i) n)"

lemma record_ident_own: "rs_id spec = i \<Longrightarrow> record_ident i n = own_id spec n"
  by (simp add: record_ident_def own_id_def)

definition sample_sdk :: "(nat, tree) sdk" where
  "sample_sdk =
     \<lparr>sdk_json = tree_json, sdk_chunk = (\<lambda>_. Inr TNull), sdk_other = (\<lambda>_. Inr TNull),
      sdk_call = (\<lambda>_. Inr (TObj [])), sdk_kind = (\<lambda>_. Inr (TStr ''allow_once'')), sdk_stop = (\<lambda>_. TNull),
      sdk_stop_text = (\<lambda>_. Inr ''other''),
      sdk_new_call = (\<lambda>i title. \<lparr>tc_id = i, tc_title = title, tc_status = NativePending, tc_raw_input = None,
        tc_raw_output = None, tc_meta = None, tc_rest = 0\<rparr>),
      sdk_merge = (\<lambda>_ call. call), sdk_category = (\<lambda>_. None), sdk_store_text = (\<lambda>_. ''store'')\<rparr>"

lemma sample_sdk_laws: "sdk_laws sample_sdk"
  by (simp add: sdk_laws_def sample_sdk_def)

definition sample_env :: acp_env where
  "sample_env =
     \<lparr>env_ord = id, env_link = (\<lambda>_. None), env_closed = False, env_closed_late = False,
      env_send = (\<lambda>_. None), env_images = False\<rparr>"

definition sample_actors :: record_actors where
  "sample_actors = \<lparr>ra_user = Ident ''u'', ra_agent = Ident ''a'', ra_host = Ident ''h''\<rparr>"

definition sample_update :: "(nat, tree) session_update" where
  "sample_update =
     AgentMessageChunk \<lparr>ch_content = TextBlock ''Hey'', ch_message_id = Some ''m'', ch_meta = None\<rparr>"

definition sample_reply ::
  "nat \<Rightarrow> string \<Rightarrow> record_id option \<Rightarrow> 'v payload \<Rightarrow> source_ref option \<Rightarrow> record_state \<Rightarrow> 'v working" where
  "sample_reply n actor reply p source state =
     \<lparr>wk_stored =
        \<lparr>sn_record =
           \<lparr>r_id = record_ident (Ident ''r'') n, r_session = Ident ''s'', r_run = Some (Ident ''r''),
            r_sequence = word_of_nat n, r_actor = Ident actor, r_reply = reply, r_payload = p\<rparr>,
         sn_source = source, sn_revision = 0, sn_state = state\<rparr>,
      wk_payload = p, wk_dirty = False\<rparr>"

abbreviation sample_work ::
  "nat \<Rightarrow> string \<Rightarrow> 'v payload \<Rightarrow> source_ref option \<Rightarrow> record_state \<Rightarrow> 'v working" where
  "sample_work n actor p source state \<equiv> sample_reply n actor None p source state"

abbreviation working_id :: "'v working \<Rightarrow> record_id" where
  "working_id w \<equiv> r_id (sn_record (wk_stored w))"

definition sample_mem :: "'v working list \<Rightarrow> 'v memory_state" where
  "sample_mem ws = memory_default
     \<lparr>ms_sessions := [Ident ''s'' \<mapsto> map working_id ws], ms_runs := [Ident ''r'' \<mapsto> Acp_Session.sample_run_spec],
      ms_records := (\<lambda>i. map_option (\<lambda>w. \<lparr>en_initial = wk_stored w, en_current = wk_stored w\<rparr>)
        (find (\<lambda>w. working_id w = i) ws))\<rparr>"

lemma record_ident_inj [simp]: "record_ident i n = record_ident i m \<longleftrightarrow> n = m"
  by (simp add: record_ident_def record_text_inj)

lemma find_snoc: "find P (xs @ [x]) = (case find P xs of Some y \<Rightarrow> Some y | None \<Rightarrow> if P x then Some x else None)"
  by (induction xs) auto

lemma sample_mem_simps [simp]:
  "ms_runs (sample_mem ws) = [Ident ''r'' \<mapsto> Acp_Session.sample_run_spec]"
  "ms_sessions (sample_mem ws) = [Ident ''s'' \<mapsto> map working_id ws]"
  "ms_poisoned (sample_mem ws) \<longleftrightarrow> ms_poisoned (memory_default :: 'v memory_state)"
  for ws :: "'v working list"
  by (simp_all add: sample_mem_def)

lemma sample_mem_get: "ms_records (sample_mem ws) i =
    map_option (\<lambda>w. \<lparr>en_initial = wk_stored w, en_current = wk_stored w\<rparr>) (find (\<lambda>w. working_id w = i) ws)"
  by (simp add: sample_mem_def)

lemma sample_mem_snoc:
  assumes "find (\<lambda>u. working_id u = working_id w) ws = None"
  shows "sample_mem (ws @ [w]) = (sample_mem ws)
    \<lparr>ms_sessions := [Ident ''s'' \<mapsto> map working_id ws @ [working_id w]],
     ms_records := (ms_records (sample_mem ws))(working_id w \<mapsto>
       \<lparr>en_initial = wk_stored w, en_current = wk_stored w\<rparr>)\<rparr>"
proof -
  have "ms_records (sample_mem (ws @ [w])) = (ms_records (sample_mem ws))(working_id w \<mapsto>
      \<lparr>en_initial = wk_stored w, en_current = wk_stored w\<rparr>)"
    using assms by (intro ext) (auto simp: sample_mem_get find_snoc split: option.splits)
  then show ?thesis by (simp add: sample_mem_def)
qed

lemma sample_insert_reply:
  assumes ids: "map working_id (rec_records R) = map (record_ident (Ident ''r'')) [0..<length (rec_records R)]"
    and len: "length (rec_records R) < 2 ^ 64" and spec: "rec_spec R = Acp_Session.sample_run_spec"
    and p: "is_request p \<longrightarrow> state = Open" "\<not> is_response p" "validate p state = Ok ()"
    and reply: "\<And>m. reply = Some m \<Longrightarrow> m \<in> working_id ` set (rec_records R)"
    and w: "w = sample_reply (length (rec_records R)) a reply p source state"
  shows "recorder_insert memory_store p (Ident a) reply source state (sample_mem (rec_records R), R) =
    (Ok (length (rec_records R)), (sample_mem (rec_records R @ [w]), add_record R w))"
proof -
  let ?ws = "rec_records R" and ?i = "record_ident (Ident ''r'') (length (rec_records R))"
  have "?i \<notin> set (map working_id ?ws)" unfolding ids by auto
  then have fresh: "find (\<lambda>u. working_id u = ?i) ?ws = None" by (force simp: find_None_iff)
  have wid: "working_id w = ?i" by (simp add: w sample_reply_def)
  have snoc: "sample_mem (?ws @ [w]) = (sample_mem ?ws)
      \<lparr>ms_sessions := [Ident ''s'' \<mapsto> map working_id ?ws @ [?i]],
       ms_records := (ms_records (sample_mem ?ws))(?i \<mapsto> \<lparr>en_initial = wk_stored w, en_current = wk_stored w\<rparr>)\<rparr>"
    using sample_mem_snoc [of w ?ws] fresh wid by simp
  have "(case reply of None \<Rightarrow> Ok () | Some m \<Rightarrow> if ms_records (sample_mem ?ws) m = None then Err MissingRecord else Ok ()) = Ok ()"
    using reply by (force simp: sample_mem_get find_None_iff split: option.split)
  moreover have "ms_records (sample_mem ?ws) ?i = None" using fresh by (simp add: sample_mem_get)
  ultimately have "memory_insert \<lparr>d_id = ?i, d_session = Ident ''s'', d_run = Some (Ident ''r''), d_actor = Ident a,
      d_reply = reply, d_source = source, d_payload = p, d_state = state\<rparr> (sample_mem ?ws) =
      (Ok (wk_stored w), sample_mem (?ws @ [w]))"
    using p len unfolding snoc
    by (simp add: memory_insert_def with_lock_def prepare_def commit_ok_def commit_def run_belongs_def
        u64_of_usize_def snapshot_of_def Acp_Session.sample_run_spec_def memory_default_def w sample_reply_def)
  then show ?thesis
    using spec
    by (simp add: recorder_insert_def recorder_draft_Ok and_then_def on_store_def on_recorder_def memory_store_sel
        record_ident_def own_id_def Acp_Session.sample_run_spec_def w sample_reply_def)
qed

lemma validate_plain: "\<not> is_request p \<Longrightarrow> \<not> is_response p \<Longrightarrow> validate p state = Ok ()"
  by (cases p) (simp_all add: validate_def is_request_def is_response_def)

lemma sample_insert:
  assumes "map working_id (rec_records R) = map (record_ident (Ident ''r'')) [0..<length (rec_records R)]"
    and "length (rec_records R) < 2 ^ 64" and "rec_spec R = Acp_Session.sample_run_spec"
    and "\<not> is_request p" "\<not> is_response p"
    and "w = sample_work (length (rec_records R)) a p source state"
  shows "recorder_insert memory_store p (Ident a) None source state (sample_mem (rec_records R), R) =
    (Ok (length (rec_records R)), (sample_mem (rec_records R @ [w]), add_record R w))"
  by (rule sample_insert_reply) (use assms validate_plain in simp_all)

subsection \<open>The start\<close>

definition sample_evidence :: "nat \<Rightarrow> string \<Rightarrow> tree working" where
  "sample_evidence n state =
     sample_work n ''h'' (PExtension ''agent_bridge'' ''run_dispatch'' (versioned_state tree_json 1 state []))
       None Complete"

definition sample_first :: "tree working list" where
  "sample_first =
     [sample_evidence 0 ''prepared'',
      sample_work 1 ''u'' (PMessage User \<lparr>msg_content = [Text ''hi'']\<rparr>) None Complete,
      sample_evidence 2 ''dispatch_attempted'']"

definition sample_recorder :: "tree working list \<Rightarrow> (nat, tree) recorder" where
  "sample_recorder ws = (recorder_start Acp_Session.sample_run_spec sample_actors)\<lparr>rec_records := ws\<rparr>"

definition sample_inner :: "(nat, tree) acp_run" where
  "sample_inner =
     \<lparr>ar_session = sample_acp_session\<lparr>as_quiescent := False, as_fresh := False, as_registered := True\<rparr>,
      ar_run = \<lparr>run_spec_of = Acp_Session.sample_run_spec, run_status_of = Starting, run_cancel_requested = False\<rparr>,
      ar_input = ''hi'', ar_settled = False, ar_route = route_new (Ident ''r'')\<rparr>"

definition sample_recorded :: "(nat, tree) recorded_run" where
  "sample_recorded = recorded_new sample_inner (sample_recorder sample_first)"

lemma working_id_sample [simp]: "working_id (sample_reply n a reply p src st) = record_ident (Ident ''r'') n"
  by (simp add: sample_reply_def)

lemma not_blank_hi: "\<not> blank ''hi''"
  by (rule not_blank_plain; simp add: plain_char_def)

lemma sample_inner_dispatch:
  "acp_dispatch id (\<lambda>_. None) False None Acp_Session.sample_run_spec ''hi'' sample_acp_session =
     (Ok sample_inner, ar_session sample_inner)"
  by (simp add: acp_dispatch_def sample_acp_session_def Acp_Session.sample_run_spec_def sample_inner_def not_blank_hi
      config_for_run_def default_run_configuration_def run_apply_def run_new_def Let_def)

lemma sample_acp_run_spec: "acp_run_spec (Ident ''r'') sample_acp_session = Ok Acp_Session.sample_run_spec"
  by (simp add: acp_run_spec_def sample_acp_session_def config_for_run_def Acp_Session.sample_run_spec_def
      default_run_configuration_def)

lemma sample_registered:
  "memory_create_session (Ident ''s'') memory_default = (Ok (), s1) \<Longrightarrow>
   memory_register_run Acp_Session.sample_run_spec s1 = (Ok True, sample_mem [])"
  by (auto simp: memory_create_session_def memory_register_run_def with_lock_def memory_default_def sample_mem_def
      Acp_Session.sample_run_spec_def default_manifest_def)

lemma sample_recorder_insert:
  assumes "map working_id ws = map (record_ident (Ident ''r'')) [0..<length ws]" "length ws < 2 ^ 64"
    and "\<not> is_request p" "\<not> is_response p"
  shows "recorder_insert memory_store p (Ident a) None source state (sample_mem ws, sample_recorder ws) =
    (Ok (length ws), (sample_mem (ws @ [sample_work (length ws) a p source state]),
      sample_recorder (ws @ [sample_work (length ws) a p source state])))"
  using sample_insert [of "sample_recorder ws", OF _ _ _ assms(3,4) HOL.refl, of a source state] assms(1,2)
  by (simp add: sample_recorder_def recorder_start_def)

lemma sample_evidence_insert:
  assumes "map working_id ws = map (record_ident (Ident ''r'')) [0..<length ws]" "length ws < 2 ^ 64"
  shows "execution_evidence sample_sdk memory_store st (sample_mem ws, sample_recorder ws) =
    (Ok (), (sample_mem (ws @ [sample_evidence (length ws) st]), sample_recorder (ws @ [sample_evidence (length ws) st])))"
  using sample_recorder_insert [OF assms, of "PExtension ''agent_bridge'' ''run_dispatch'' (versioned_state tree_json 1 st [])"
      "''h''" None Complete]
  by (simp add: execution_evidence_def host_evidence_def and_then_def with_state_def give_def sample_evidence_def
      sample_sdk_def is_request_def is_response_def sample_recorder_def recorder_start_def sample_actors_def)

lemma sample_spec_session: "rs_session Acp_Session.sample_run_spec = Ident ''s''"
  by (simp add: Acp_Session.sample_run_spec_def)

lemma sample_new:
  "recorder_new sample_sdk memory_store Acp_Session.sample_run_spec ''hi'' sample_actors memory_default =
    (Ok (sample_recorder (butlast sample_first)), sample_mem (butlast sample_first))"
proof -
  obtain s1 :: "tree memory_state" where s1: "memory_create_session (Ident ''s'') memory_default = (Ok (), s1)"
    by (auto simp: memory_create_session_def with_lock_def memory_default_def)
  let ?e = "sample_evidence 0 ''prepared''"
  have e: "execution_evidence sample_sdk memory_store ''prepared'' (sample_mem [], recorder_start Acp_Session.sample_run_spec sample_actors) =
      (Ok (), sample_mem [?e], sample_recorder [?e])"
    using sample_evidence_insert [of "[]" "''prepared''"] by (simp add: sample_recorder_def recorder_start_def)
  have "recorder_insert memory_store (PMessage User \<lparr>msg_content = [Text ''hi'']\<rparr>) (Ident ''u'') None None Complete
      (sample_mem [?e], sample_recorder [?e]) = (Ok 1, sample_mem (butlast sample_first), sample_recorder (butlast sample_first))"
    using sample_recorder_insert [of "[?e]" "PMessage User \<lparr>msg_content = [Text ''hi'']\<rparr>" "''u''" None Complete]
    by (simp add: sample_evidence_def is_request_def is_response_def sample_first_def)
  then show ?thesis
    using s1 e sample_registered [OF s1]
    by (simp add: recorder_new_def memory_store_sel and_then_def sample_spec_session sample_actors_def)
qed

lemma sample_start:
  "start_recorded_run sample_sdk memory_store sample_env (Ident ''r'') ''hi'' sample_actors sample_acp_session
     memory_default = (Ok sample_recorded, sample_mem sample_first, ar_session sample_inner)"
proof -
  have len: "length (butlast sample_first) < 2 ^ 64" by (simp add: sample_first_def)
  have "execution_evidence sample_sdk memory_store ''dispatch_attempted''
      (sample_mem (butlast sample_first), sample_recorder (butlast sample_first)) =
      (Ok (), sample_mem sample_first, sample_recorder sample_first)"
    using sample_evidence_insert [OF _ len, of "''dispatch_attempted''"]
    by (simp add: sample_first_def sample_evidence_def numeral_2_eq_2)
  then show ?thesis
    using sample_new sample_inner_dispatch sample_acp_run_spec
    by (simp add: start_recorded_run_def start_recorded_with_report_def checked_def preflight_def not_blank_hi
        record_and_launch_def report_steps_def launch_def and_then_def give_def sample_recorded_def
        sample_env_def sample_acp_session_def)
qed

subsection \<open>The steps\<close>

definition sample_message :: "tree working" where
  "sample_message =
     sample_work 3 ''a'' (PMessage Agent \<lparr>msg_content = [Text '''']\<rparr>) (Some (acp_source ''m'')) Open"

definition sample_spoken :: "tree working" where
  "sample_spoken = sample_message\<lparr>wk_payload := PMessage Agent \<lparr>msg_content = [Text ''Hey'']\<rparr>, wk_dirty := True\<rparr>"

definition sample_heard :: "(nat, tree) recorder" where
  "sample_heard = (sample_recorder (sample_first @ [sample_spoken]))
     \<lparr>rec_messages := [(Agent, ''m'') \<mapsto> 3]\<rparr>"

lemma sample_first_ids: "map working_id sample_first = map (record_ident (Ident ''r'')) [0..<length sample_first]"
  by (simp add: sample_first_def sample_evidence_def numeral_2_eq_2)

lemma sample_first_length: "length sample_first = 3"
  by (simp add: sample_first_def)

lemma sample_observed:
  "recorder_observe sample_sdk memory_store (Update sample_update) (sample_mem sample_first, sample_recorder sample_first) =
    (Ok (), sample_mem (sample_first @ [sample_spoken]), sample_heard)"
proof -
  have "recorder_insert memory_store (PMessage Agent \<lparr>msg_content = [Text '''']\<rparr>) (Ident ''a'') None
      (Some (acp_source ''m'')) Open (sample_mem sample_first, sample_recorder sample_first) =
      (Ok 3, sample_mem (sample_first @ [sample_message]), sample_recorder (sample_first @ [sample_message]))"
    using sample_recorder_insert [OF sample_first_ids, of "PMessage Agent \<lparr>msg_content = [Text '''']\<rparr>" "''a''"
        "Some (acp_source ''m'')" Open]
    by (simp add: is_request_def is_response_def sample_first_length sample_message_def)
  moreover have "sample_mem (sample_first @ [sample_message]) = sample_mem (sample_first @ [sample_spoken])"
    by (simp add: sample_mem_def sample_first_def sample_evidence_def sample_spoken_def fun_eq_iff sample_message_def)
  ultimately show ?thesis
    by (simp add: recorder_observe_def observe_event_def sample_update_def recorder_message_def and_then_def
        message_index_def new_message_def sample_recorder_def recorder_start_def sample_actors_def on_recorder_def
        modify_def edit_record_def sample_heard_def sample_first_length sample_spoken_def push_text_def list_update_append
        nth_append sample_message_def sample_reply_def)
qed

definition sample_ended :: "(nat, tree) acp_run" where
  "sample_ended = sample_inner\<lparr>ar_route := (route_new (Ident ''r''))
     \<lparr>rt_queue := [Event (Update sample_update), FinishedDelivery (Inr StopEndTurn)], rt_accepting := False\<rparr>\<rparr>"

lemma sample_provider_steps:
  "snd (acp_complete id (\<lambda>_. None) (Inr StopEndTurn)
      (snd (acp_update id (\<lambda>_. None) (sdk_category sample_sdk) sample_update sample_inner))) = sample_ended"
  by (simp add: acp_update_def acp_complete_def sample_inner_def sample_ended_def session_observe_def route_deliver_def
      route_new_def try_send_def event_capacity_def route_complete_def cancel_permissions_def route_close_def
      Let_def sample_update_def)

lemma sample_first_next:
  obtains a b where "acp_next id (\<lambda>_. None) False sample_ended = (Some (Ok (Some (Update sample_update))), a)"
    and "acp_next id (\<lambda>_. None) False a = (Some (Ok (Some (Finished StopEndTurn))), b)"
  by (simp add: sample_ended_def sample_inner_def acp_next_def route_new_def apply_unwrap_def run_apply_def Let_def)

definition sample_end :: "tree working" where
  "sample_end = sample_work 4 ''a'' (PRunFinished ReasonCompleted) None Complete"

lemma upt_4: "[0..<4] = [0..<3] @ [3::nat]"
  by (simp add: upt_rec)

lemma sample_finish:
  "\<exists>s R. recorder_observe sample_sdk memory_store (Finished StopEndTurn)
    (sample_mem (sample_first @ [sample_spoken]), sample_heard) = (Ok (), s, R)"
proof -
  let ?ws = "sample_first @ [sample_spoken, sample_end]"
  let ?R = "sample_heard\<lparr>rec_anonymous := None\<rparr>"
  have "recorder_insert memory_store (PRunFinished ReasonCompleted) (Ident ''a'') None None Complete
      (sample_mem (rec_records ?R), ?R) = (Ok (length (rec_records ?R)),
        (sample_mem (rec_records ?R @ [sample_end]), add_record ?R sample_end))"
    by (rule sample_insert)
      (simp_all add: sample_heard_def sample_recorder_def recorder_start_def sample_first_ids sample_first_length
        sample_spoken_def sample_message_def sample_end_def sample_reply_def is_request_def is_response_def upt_4)
  then have ins: "recorder_insert memory_store (PRunFinished ReasonCompleted) (Ident ''a'') None None Complete
      (sample_mem (sample_first @ [sample_spoken]), ?R) = (Ok 4, (sample_mem ?ws, add_record ?R sample_end))"
    by (simp add: sample_heard_def sample_recorder_def recorder_start_def sample_first_length)
  let ?i = "record_ident (Ident ''r'') 3" and ?p = "PMessage Agent \<lparr>msg_content = [Text ''Hey'']\<rparr> :: tree payload"
  have "ms_records (sample_mem ?ws) ?i = Some \<lparr>en_initial = wk_stored sample_message, en_current = wk_stored sample_message\<rparr>"
    by (simp add: sample_mem_get sample_first_def sample_evidence_def sample_spoken_def sample_message_def sample_reply_def)
  moreover obtain y where "rules_checkpoint (wk_stored sample_message) 0 ?p Complete = Ok y"
  proof -
    have "validate ?p Complete = Ok ()" "\<not> is_request ?p" "\<not> is_final Open"
        "\<not> message_kind_changes (PMessage Agent \<lparr>msg_content = [Text '''']\<rparr>) ?p"
      by (simp_all add: validate_def is_request_def is_response_def message_kind_changes_def is_final_def)
    then show thesis
      using that by (simp add: rules_checkpoint_def sample_message_def sample_reply_def bump_revision_def checked_add_1)
  qed
  ultimately obtain x s where cp: "op_checkpoint memory_store ?i 0 ?p Complete (sample_mem ?ws) = (Ok x, s)"
    by (auto simp: memory_store_sel memory_checkpoint_def with_lock_def memory_default_def)
  have "is_final (sn_state (wk_stored w))" if "w \<in> set sample_first" for w
    using that by (auto simp: sample_first_def sample_evidence_def sample_reply_def is_final_def)
  then have skip: "finish_records memory_store True (sample_first @ ws) t =
      (case finish_records memory_store True ws t of (y, t', ws') \<Rightarrow> (y, t', sample_first @ ws'))" for ws t
    by (simp add: sample_first_def split: prod.split)
  have "\<exists>ws'. finish_records memory_store True ?ws (sample_mem ?ws) = (Ok (), s, ws')"
    unfolding skip
    using cp by (simp add: sample_spoken_def sample_message_def sample_reply_def sample_end_def is_final_def record_complete_def)
  then show ?thesis
    using ins
    by (auto simp: recorder_observe_def observe_event_def observe_finished_def and_then_def on_recorder_def modify_def
        finished_reason_def sample_heard_def sample_recorder_def recorder_start_def sample_actors_def recorder_finish_def)
qed

definition sample_log :: "(nat, tree) acp_log list" where
  "sample_log =
     [GotUpdate sample_update, PromptEnded (Inr StopEndTurn), NextGot (Ok (Some (Update sample_update))),
      NextGot (Ok (Some (Finished StopEndTurn)))]"

lemma sample_heard_trace:
  assumes "acp_next id (\<lambda>_. None) False sample_ended = (Some (Ok (Some (Update sample_update))), a)"
  shows "recorded_trace sample_sdk memory_store id (sample_mem sample_first) sample_recorded (butlast sample_log)
    (sample_mem (sample_first @ [sample_spoken])) \<lparr>rr_inner = a, rr_recorder = sample_heard, rr_failed = False\<rparr>"
proof -
  let ?tr = "recorded_trace sample_sdk memory_store id (sample_mem sample_first) sample_recorded"
  let ?s = "sample_mem sample_first" and ?s' = "sample_mem (sample_first @ [sample_spoken])"
  let ?r = "\<lparr>rr_inner = sample_ended, rr_recorder = sample_recorder sample_first, rr_failed = False\<rparr>"
  have "?tr (([] @ [GotUpdate sample_update]) @ [PromptEnded (Inr StopEndTurn)]) ?s
      (sample_recorded\<lparr>rr_inner := snd (acp_complete id (\<lambda>_. None) (Inr StopEndTurn)
        (snd (acp_update id (\<lambda>_. None) (sdk_category sample_sdk) sample_update (rr_inner sample_recorded))))\<rparr>)"
    using rec_end [OF rec_update [OF rec_start, of sample_sdk memory_store id ?s sample_recorded sample_update "\<lambda>_. None"],
        where link = "\<lambda>_. None" and x = "Inr StopEndTurn"]
    by (simp add: ended_def)
  then have 2: "?tr [GotUpdate sample_update, PromptEnded (Inr StopEndTurn)] ?s ?r"
    using sample_provider_steps by (simp add: sample_recorded_def recorded_new_def)
  have "recorded_next sample_sdk memory_store id (\<lambda>_. None) None False (?s, ?r) =
      (Some (Ok (Some (Update sample_update))), ?s', \<lparr>rr_inner = a, rr_recorder = sample_heard, rr_failed = False\<rparr>)"
    using assms sample_observed by (simp add: recorded_next_def)
  from rec_next [OF 2 this] show ?thesis by (simp add: sample_log_def)
qed

lemma sample_recorded_trace:
  "\<exists>s r. recorded_trace sample_sdk memory_store id (sample_mem sample_first) sample_recorded sample_log s r \<and>
     \<not> rr_failed r"
proof -
  let ?s' = "sample_mem (sample_first @ [sample_spoken])"
  obtain a b where n: "acp_next id (\<lambda>_. None) False sample_ended = (Some (Ok (Some (Update sample_update))), a)"
      "acp_next id (\<lambda>_. None) False a = (Some (Ok (Some (Finished StopEndTurn))), b)"
    by (rule sample_first_next)
  obtain s R where "recorder_observe sample_sdk memory_store (Finished StopEndTurn) (?s', sample_heard) = (Ok (), s, R)"
    using sample_finish by blast
  then have "recorded_next sample_sdk memory_store id (\<lambda>_. None) None False
      (?s', \<lparr>rr_inner = a, rr_recorder = sample_heard, rr_failed = False\<rparr>) =
      (Some (Ok (Some (Finished StopEndTurn))), s, \<lparr>rr_inner = b, rr_recorder = R, rr_failed = False\<rparr>)"
    using n(2) by (simp add: recorded_next_def)
  from rec_next [OF sample_heard_trace [OF n(1)] this] show ?thesis by (fastforce simp: sample_log_def)
qed

lemma sample_unused: "memory_get i memory_default = Err MissingRecord"
  by (simp add: memory_get_def read_lock_def memory_default_def)

subsection \<open>A permission\<close>

definition sample_pid :: permission_id where
  "sample_pid = \<lparr>pid_run = Ident ''r'', pid_sequence = 0\<rparr>"

definition sample_tool_use :: "tree payload" where
  "sample_tool_use = PTool \<lparr>ta_title = ''Tool activity'', ta_status = ToolPending, ta_input = None, ta_output = None,
     ta_extensions = bt_collect [(''acp'', TObj [])]\<rparr>"

definition sample_options :: "permission_option list" where
  "sample_options = [\<lparr>po_id = ''allow'', po_label = ''Allow'', po_effect = ''allow_once''\<rparr>]"

definition sample_asking :: "tree working list" where
  "sample_asking = sample_first @
     [sample_work 3 ''a'' sample_tool_use (Some (acp_source ''t'')) Open,
      sample_reply 4 ''a'' (Some (record_ident (Ident ''r'') 3)) (PPermission ''Tool permission'' sample_options) None Open]"

definition sample_native_call :: "(nat, tree) tool_call" where
  "sample_native_call = sdk_new_call sample_sdk ''t'' ''Tool activity''"

definition sample_asked_recorder :: "(nat, tree) recorder" where
  "sample_asked_recorder = (sample_recorder sample_asking)
     \<lparr>rec_tools := [''t'' \<mapsto> (3, sample_native_call)], rec_permissions := [sample_pid \<mapsto> 4]\<rparr>"

definition sample_waiting :: "(nat, tree) acp_run" where
  "sample_waiting = snd (acp_ask id (\<lambda>_. None) Acp_Session.sample_request 7 sample_inner)"

lemma sample_tool_payload: "tool_payload sample_sdk sample_native_call = Ok sample_tool_use"
  by (simp add: tool_payload_def sample_sdk_def sample_native_call_def sample_tool_use_def serde_def tool_status_of_def
      tree_json_def Let_def)

lemma sample_merged: "rec_tools R ''t'' = None \<Longrightarrow> merged_call sample_sdk (pq_tool_call Acp_Session.sample_request) R = sample_native_call"
  by (simp add: merged_call_def sample_sdk_def sample_native_call_def Acp_Session.sample_request_def)

lemma sample_tool_inserted:
  "recorder_tool_update sample_sdk memory_store (pq_tool_call Acp_Session.sample_request) (sample_mem sample_first, sample_recorder sample_first) =
    (Ok (), sample_mem (butlast sample_asking), (sample_recorder (butlast sample_asking))\<lparr>rec_tools := [''t'' \<mapsto> (3, sample_native_call)]\<rparr>)"
proof -
  have "recorder_insert memory_store sample_tool_use (Ident ''a'') None (Some (acp_source ''t'')) Open
      (sample_mem sample_first, sample_recorder sample_first) =
      (Ok 3, sample_mem (butlast sample_asking), sample_recorder (butlast sample_asking))"
    using sample_recorder_insert [OF sample_first_ids, of sample_tool_use "''a''" "Some (acp_source ''t'')" Open]
    by (simp add: is_request_def is_response_def sample_first_length sample_tool_use_def sample_asking_def butlast_append)
  moreover have "rec_tools (sample_recorder ws) = Map.empty" "ra_agent (rec_actors (sample_recorder ws)) = Ident ''a''" for ws
    by (simp_all add: sample_recorder_def recorder_start_def sample_actors_def)
  moreover have "tc_id sample_native_call = ''t''" by (simp add: sample_native_call_def sample_sdk_def)
  ultimately show ?thesis
    by (simp add: recorder_tool_update_def recorder_tool_def sample_merged sample_tool_payload and_then_def on_recorder_def)
qed

lemma sample_recorder_records [simp]: "rec_records (sample_recorder ws) = ws"
  by (simp add: sample_recorder_def)

lemma not_blank_allow: "\<not> blank ''allow''"
  by (rule not_blank_plain; simp add: plain_char_def)

lemma sample_permission_observed:
  "recorder_observe sample_sdk memory_store (PermissionEvent sample_pid Acp_Session.sample_request)
     (sample_mem sample_first, sample_recorder sample_first) = (Ok (), sample_mem sample_asking, sample_asked_recorder)"
proof -
  let ?R = "(sample_recorder (butlast sample_asking))\<lparr>rec_tools := [''t'' \<mapsto> (3, sample_native_call)]\<rparr>"
  let ?p = "PPermission ''Tool permission'' sample_options :: tree payload"
  have recs: "rec_records ?R = butlast sample_asking" by (simp add: sample_recorder_def)
  have "butlast sample_asking = sample_first @ [sample_work 3 ''a'' sample_tool_use (Some (acp_source ''t'')) Open]"
    by (simp add: sample_asking_def butlast_append)
  note b = this
  have l: "last sample_asking = sample_reply 4 ''a'' (Some (record_ident (Ident ''r'') 3)) ?p None Open"
    by (simp add: sample_asking_def)
  have e: "butlast sample_asking @ [last sample_asking] = sample_asking" and n: "length sample_asking - Suc 0 = 4"
    by (simp_all add: sample_asking_def sample_first_length butlast_append)
  have "recorder_insert memory_store ?p (Ident ''a'') (Some (record_ident (Ident ''r'') 3)) None Open (sample_mem (rec_records ?R), ?R) =
    (Ok (length (rec_records ?R)), (sample_mem (rec_records ?R @ [last sample_asking]), add_record ?R (last sample_asking)))"
  proof (rule sample_insert_reply)
    show "map working_id (rec_records ?R) = map (record_ident (Ident ''r'')) [0..<length (rec_records ?R)]"
      by (simp add: recs b sample_recorder_def recorder_start_def sample_first_ids sample_first_length upt_4)
    show "validate ?p Open = Ok ()"
      using not_blank_allow by (simp add: validate_def sample_options_def is_response_def)
  qed (simp_all add: b l sample_first_length is_request_def is_response_def sample_recorder_def recorder_start_def)
  then have "recorder_insert memory_store ?p (Ident ''a'') (Some (record_ident (Ident ''r'') 3)) None Open
      (sample_mem (butlast sample_asking), ?R) = (Ok 4, sample_mem sample_asking, ?R\<lparr>rec_records := sample_asking\<rparr>)"
    by (simp add: e n)
  moreover have "permission_options sample_sdk (pq_options Acp_Session.sample_request) = Ok sample_options"
      "tu_title (pq_tool_call Acp_Session.sample_request) = None" "tu_id (pq_tool_call Acp_Session.sample_request) = ''t''"
    by (simp_all add: Acp_Session.sample_request_def sample_options_def sample_sdk_def serde_def tree_json_def)
  moreover have "\<not> rec_finished (sample_recorder ws)" "rec_anonymous (sample_recorder ws) = None"
      "ra_agent (rec_actors (sample_recorder ws)) = Ident ''a''" "rec_permissions (sample_recorder ws) = Map.empty" for ws
    by (simp_all add: sample_recorder_def recorder_start_def sample_actors_def)
  moreover have anon: "(sample_recorder ws)\<lparr>rec_anonymous := None\<rparr> = sample_recorder ws" for ws
    by (simp add: sample_recorder_def recorder_start_def)
  moreover have "butlast sample_asking ! 3 = sample_work 3 ''a'' sample_tool_use (Some (acp_source ''t'')) Open"
    by (simp add: b nth_append sample_first_length)
  moreover have "3 < length (butlast sample_asking)" by (simp add: b sample_first_length)
  ultimately show ?thesis
    using sample_tool_inserted
    by (simp add: recorder_observe_def observe_event_def observe_permission_def and_then_def on_recorder_def stored_at_def
        sample_asked_recorder_def anon)
      (simp add: sample_recorder_def)
qed

definition sample_pending :: "(nat, tree) acp_run" where
  "sample_pending = snd (acp_next id (\<lambda>_. None) False sample_waiting)"

lemma sample_waiting_next:
  "acp_next id (\<lambda>_. None) False sample_waiting =
     (Some (Ok (Some (PermissionEvent sample_pid Acp_Session.sample_request))), sample_pending)"
  "ar_route sample_pending = (route_new (Ident ''r''))
     \<lparr>rt_pending := [(sample_pid, \<lparr>pp_options = [''allow''], pp_token = 7\<rparr>)], rt_next := 1\<rparr>"
  by (simp_all add: sample_pending_def sample_waiting_def acp_ask_def sample_inner_def route_new_def route_ask_def
      permission_capacity_def pending_insert_def route_deliver_def try_send_def event_capacity_def Let_def acp_next_def
      apply_unwrap_def run_apply_def sample_pid_def Acp_Session.sample_request_def)

lemma sample_pending_respond:
  "acp_permission_pending sample_pid sample_pending"
  "fst (acp_respond id (\<lambda>_. None) sample_pid (Some ''allow'') sample_pending) = Ok ()"
  "rt_pending (ar_route (snd (acp_respond id (\<lambda>_. None) sample_pid (Some ''allow'') sample_pending))) = []"
  by (simp_all add: acp_permission_pending_def acp_respond_def sample_waiting_next(2) route_respond_def respond_to_def
      route_deliver_def try_send_def event_capacity_def Let_def route_new_def reply_result_def)

lemma sample_asked_trace:
  "recorded_trace sample_sdk memory_store id (sample_mem sample_first) sample_recorded
      [Asked 7 Acp_Session.sample_request, NextGot (Ok (Some (PermissionEvent sample_pid Acp_Session.sample_request)))]
      (sample_mem sample_asking) \<lparr>rr_inner = sample_pending, rr_recorder = sample_asked_recorder, rr_failed = False\<rparr>"
proof -
  let ?tr = "recorded_trace sample_sdk memory_store id (sample_mem sample_first) sample_recorded"
  let ?r = "\<lparr>rr_inner = sample_waiting, rr_recorder = sample_recorder sample_first, rr_failed = False\<rparr>"
  have "?tr ([] @ [Asked 7 Acp_Session.sample_request]) (sample_mem sample_first)
      (sample_recorded\<lparr>rr_inner := snd (acp_ask id (\<lambda>_. None) Acp_Session.sample_request 7 (rr_inner sample_recorded))\<rparr>)"
    by (rule rec_ask [OF rec_start]) (simp_all add: asked_def)
  then have 1: "?tr [Asked 7 Acp_Session.sample_request] (sample_mem sample_first) ?r"
    by (simp add: sample_recorded_def recorded_new_def sample_waiting_def)
  have "recorded_next sample_sdk memory_store id (\<lambda>_. None) None False (sample_mem sample_first, ?r) =
      (Some (Ok (Some (PermissionEvent sample_pid Acp_Session.sample_request))), sample_mem sample_asking,
       \<lparr>rr_inner = sample_pending, rr_recorder = sample_asked_recorder, rr_failed = False\<rparr>)"
    using sample_waiting_next(1) sample_permission_observed by (simp add: recorded_next_def)
  from rec_next [OF 1 this] show ?thesis by simp
qed

end
