(* ===== verification/Recorder_Transcript.thy ===== *)
theory Recorder_Transcript imports Recorded_Ends begin

section \<open>The transcript of a run\<close>

text \<open>
  What a recorder should have written after a sequence of events, said without records, indices
  or maps: a list of entries in the order in which the provider began them. \<open>tells\<close> relates
  the list to the working records; every event the recorder accepts keeps it, and the end
  closes the entries.
\<close>

subsection \<open>Entries\<close>

datatype 'v said =
  Said message_kind "string option" string
| Shown 'v
| Did string "'v tool_activity"
| Noted 'v

record ('n, 'v) heard =
  hd_said :: "'v said list"
  hd_calls :: "string \<rightharpoonup> ('n, 'v) tool_call"
  hd_last :: "message_kind option"

definition heard_nothing :: "('n, 'v) heard" where
  "heard_nothing = \<lparr>hd_said = [], hd_calls = Map.empty, hd_last = None\<rparr>"

fun add_said :: "string \<Rightarrow> 'v said \<Rightarrow> 'v said" where
  "add_said t (Said kind native u) = Said kind native (u @ t)"
| "add_said t x = x"

fun is_message :: "message_kind \<Rightarrow> string \<Rightarrow> 'v said \<Rightarrow> bool" where
  "is_message kind i (Said k native u) \<longleftrightarrow> k = kind \<and> native = Some i"
| "is_message kind i x \<longleftrightarrow> False"

fun is_call :: "string \<Rightarrow> 'v said \<Rightarrow> bool" where
  "is_call i (Did j tool) \<longleftrightarrow> j = i"
| "is_call i x \<longleftrightarrow> False"

text \<open>
  A chunk with an identifier continues its message wherever it began. One without continues the
  last entry, if that came from such a chunk of the same kind just before.
\<close>

definition hear_text :: "message_kind \<Rightarrow> string option \<Rightarrow> string \<Rightarrow> ('n, 'v) heard \<Rightarrow> ('n, 'v) heard" where
  "hear_text kind native t H =
     (let xs = hd_said H in
      case native of
        Some i \<Rightarrow> H\<lparr>hd_last := None, hd_said :=
          (if list_ex (is_message kind i) xs then map (\<lambda>x. if is_message kind i x then add_said t x else x) xs
           else xs @ [Said kind native t])\<rparr>
      | None \<Rightarrow> H\<lparr>hd_last := Some kind, hd_said :=
          (if hd_last H = Some kind then butlast xs @ [add_said t (last xs)] else xs @ [Said kind None t])\<rparr>)"

definition hear_chunk :: "('n, 'v) sdk \<Rightarrow> message_kind \<Rightarrow> 'n content_chunk \<Rightarrow> ('n, 'v) heard \<Rightarrow> ('n, 'v) heard" where
  "hear_chunk D kind chunk H =
     (case ch_content chunk of
        TextBlock t \<Rightarrow> hear_text kind (ch_message_id chunk) t H
      | OtherBlock _ \<Rightarrow>
          (case sdk_chunk D chunk of
             Inr v \<Rightarrow> H\<lparr>hd_said := hd_said H @ [Shown v], hd_last := None\<rparr>
           | Inl _ \<Rightarrow> H))"

definition hear_call :: "('n, 'v) sdk \<Rightarrow> ('n, 'v) tool_call \<Rightarrow> ('n, 'v) heard \<Rightarrow> ('n, 'v) heard" where
  "hear_call D call H =
     (case tool_payload D call of
        Ok (PTool tool) \<Rightarrow>
          (let i = tc_id call; xs = hd_said H in
           H\<lparr>hd_calls := (hd_calls H)(i \<mapsto> call), hd_said :=
             (if list_ex (is_call i) xs then map (\<lambda>x. if is_call i x then Did i tool else x) xs
              else xs @ [Did i tool])\<rparr>)
      | _ \<Rightarrow> H)"

definition updated_call :: "('n, 'v) sdk \<Rightarrow> 'n tool_call_update \<Rightarrow> ('n, 'v) heard \<Rightarrow> ('n, 'v) tool_call" where
  "updated_call D u H =
     (let call = (case hd_calls H (tu_id u) of Some call \<Rightarrow> call | None \<Rightarrow> sdk_new_call D (tu_id u) ''Tool activity'');
          call = sdk_merge D (tu_fields u) call
      in if tu_meta u \<noteq> None then call\<lparr>tc_meta := tu_meta u\<rparr> else call)"

definition hear :: "('n, 'v) sdk \<Rightarrow> ('n, 'v) acp_event \<Rightarrow> ('n, 'v) heard \<Rightarrow> ('n, 'v) heard" where
  "hear D event H =
     (let quiet = H\<lparr>hd_last := None\<rparr> in
      case event of
        Update u \<Rightarrow>
          (case u of
             AgentMessageChunk chunk \<Rightarrow> hear_chunk D Agent chunk H
           | AgentThoughtChunk chunk \<Rightarrow> hear_chunk D Reasoning chunk H
           | ToolCallUpdated call \<Rightarrow> hear_call D call quiet
           | ToolCallFields update \<Rightarrow> hear_call D (updated_call D update quiet) quiet
           | ConfigOptionUpdate _ \<Rightarrow> quiet
           | OtherUpdate _ \<Rightarrow>
               (case sdk_other D u of
                  Inr v \<Rightarrow> H\<lparr>hd_said := hd_said H @ [Noted v], hd_last := None\<rparr>
                | Inl _ \<Rightarrow> quiet))
      | PermissionEvent i request \<Rightarrow> hear_call D (updated_call D (pq_tool_call request) quiet) quiet
      | _ \<Rightarrow> quiet)"

definition transcript :: "('n, 'v) sdk \<Rightarrow> ('n, 'v) acp_event list \<Rightarrow> 'v said list" where
  "transcript D events = hd_said (fold (hear D) events heard_nothing)"

subsection \<open>Entries and records\<close>

text \<open>The record of an entry: its payload, its source and its state, while the run goes on and at its end.\<close>

fun said_entry :: "'v said \<Rightarrow> 'v payload \<times> source_ref option \<times> record_state" where
  "said_entry (Said kind native t) = (PMessage kind \<lparr>msg_content = [Text t]\<rparr>, map_option acp_source native, Open)"
| "said_entry (Shown v) = (PExtension ''acp'' ''message_content'' v, None, Complete)"
| "said_entry (Did i tool) = (PTool tool, Some (acp_source i), Open)"
| "said_entry (Noted v) = (PExtension ''acp'' ''session_update'' v, None, Complete)"

definition closed_entry :: "bool \<Rightarrow> 'v payload \<times> source_ref option \<times> record_state \<Rightarrow> 'v payload \<times> source_ref option \<times> record_state" where
  "closed_entry complete e =
     (case e of (p, source, state) \<Rightarrow>
        (p, source, if is_final state then state else if record_complete complete p then Complete else Interrupted))"

text \<open>What the provider said, as opposed to the input, the host's evidence and decisions.\<close>

definition provider_payload :: "'v payload \<Rightarrow> bool" where
  "provider_payload p =
     (case p of
        PMessage kind _ \<Rightarrow> kind \<noteq> User
      | PTool _ \<Rightarrow> True
      | PExtension namespace _ _ \<Rightarrow> namespace = ''acp''
      | _ \<Rightarrow> False)"

type_synonym 'v entry_view = "'v payload \<times> source_ref option \<times> record_state"

definition entry_of :: "'v working \<Rightarrow> 'v entry_view" where
  "entry_of w = (wk_payload w, sn_source (wk_stored w), sn_state (wk_stored w))"

definition work :: "('n, 'v) recorder \<Rightarrow> 'v entry_view list" where
  "work R = map entry_of (rec_records R)"

lemma work_simps [simp]:
  "length (work R) = length (rec_records R)"
  "work (add_record R w) = work R @ [entry_of w]"
  "rec_records R = [] \<Longrightarrow> work R = []"
  by (simp_all add: work_def)

lemma work_nth: "n < length (rec_records R) \<Longrightarrow> work R ! n = entry_of (rec_records R ! n)"
  by (simp add: work_def)

lemma work_cong: "rec_records R' = rec_records R \<Longrightarrow> work R' = work R"
  by (simp add: work_def)

abbreviation provided :: "'v entry_view \<Rightarrow> bool" where
  "provided e \<equiv> provider_payload (fst e)"

definition message_at :: "message_kind \<Rightarrow> string \<Rightarrow> 'v entry_view \<Rightarrow> bool" where
  "message_at kind i e \<longleftrightarrow> (\<exists>m. fst e = PMessage kind m) \<and> fst (snd e) = Some (acp_source i)"

definition tool_at :: "string \<Rightarrow> 'v entry_view \<Rightarrow> bool" where
  "tool_at i e \<longleftrightarrow> (\<exists>tool. fst e = PTool tool) \<and> fst (snd e) = Some (acp_source i)"

lemma said_entry_at [simp]:
  "message_at kind i (said_entry x) \<longleftrightarrow> is_message kind i x" "tool_at i (said_entry x) \<longleftrightarrow> is_call i x"
  by (cases x; auto simp: message_at_def tool_at_def)+

lemma provided_at: "message_at kind i e \<Longrightarrow> kind \<noteq> User \<Longrightarrow> provided e" "tool_at i e \<Longrightarrow> provided e"
  by (auto simp: message_at_def tool_at_def provider_payload_def)

lemma tool_at_provided: "\<not> provided e \<Longrightarrow> \<not> tool_at i e"
  using provided_at(2) by blast

subsection \<open>The relation\<close>

definition tool_slots :: "'v entry_view list \<Rightarrow> (string \<rightharpoonup> nat \<times> 'c) \<Rightarrow> bool" where
  "tool_slots W tools \<longleftrightarrow>
     (\<forall>i n. n < length W \<and> tool_at i (W ! n) \<longleftrightarrow> (\<exists>c. tools i = Some (n, c)))"

definition last_slot :: "message_kind option \<Rightarrow> 'v entry_view list \<Rightarrow> (message_kind \<times> nat) option \<Rightarrow> bool" where
  "last_slot l W anonymous \<longleftrightarrow>
     (case anonymous of
        None \<Rightarrow> l = None
      | Some (kind, n) \<Rightarrow>
          l = Some kind \<and> n < length W \<and> provided (W ! n) \<and> filter provided (drop (Suc n) W) = [])"

definition tells :: "('n, 'v) heard \<Rightarrow> ('n, 'v) recorder \<Rightarrow> bool" where
  "tells H R \<longleftrightarrow>
     filter provided (work R) = map said_entry (hd_said H) \<and> (\<lambda>i. map_option snd (rec_tools R i)) = hd_calls H \<and>
     tool_slots (work R) (rec_tools R) \<and> last_slot (hd_last H) (work R) (rec_anonymous R)"

lemma tellsD:
  assumes "tells H R"
  shows "filter provided (work R) = map said_entry (hd_said H)" and "hd_calls H i = map_option snd (rec_tools R i)"
    and "tool_slots (work R) (rec_tools R)" and "last_slot (hd_last H) (work R) (rec_anonymous R)"
  using assms by (simp_all add: tells_def fun_eq_iff)

lemma tellsI:
  assumes "filter provided (work R) = map said_entry (hd_said H)" and "\<And>i. hd_calls H i = map_option snd (rec_tools R i)"
    and "tool_slots (work R) (rec_tools R)" and "last_slot (hd_last H) (work R) (rec_anonymous R)"
  shows "tells H R"
  using assms by (simp add: tells_def fun_eq_iff)

lemma tells_cong:
  assumes "work R' = work R" and "rec_tools R' = rec_tools R" and "rec_anonymous R' = rec_anonymous R"
  shows "tells H R' \<longleftrightarrow> tells H R"
  unfolding tells_def assms by (rule HOL.refl)

lemma tells_quiet:
  assumes "tells H R"
  shows "tells (H\<lparr>hd_last := None\<rparr>) (R\<lparr>rec_anonymous := None\<rparr>)"
  by (rule tellsI) (use tellsD [OF assms] work_cong [of "R\<lparr>rec_anonymous := None\<rparr>" R] in \<open>simp_all add: last_slot_def\<close>)

lemma tells_start: "tells heard_nothing (recorder_start spec actors)"
  by (simp add: tells_def tool_slots_def last_slot_def heard_nothing_def recorder_start_def)

lemma tool_slots_add:
  assumes "tool_slots W tools" and "\<And>i. \<not> tool_at i e"
  shows "tool_slots (W @ [e]) tools"
  unfolding tool_slots_def
proof (intro allI)
  fix i n
  show "n < length (W @ [e]) \<and> tool_at i ((W @ [e]) ! n) \<longleftrightarrow> (\<exists>c. tools i = Some (n, c))"
    using assms(1)[unfolded tool_slots_def, rule_format, of n i] assms(2)[of i]
    by (auto simp: nth_append less_Suc_eq)
qed

lemma tool_slots_new:
  assumes "tool_slots W tools" and "tools i = None" and "tool_at i e"
  shows "tool_slots (W @ [e]) (tools(i \<mapsto> (length W, c)))"
  unfolding tool_slots_def
proof (intro allI)
  fix j n
  have "tool_at j e \<longleftrightarrow> j = i" using assms(3) by (auto simp: tool_at_def)
  then show "n < length (W @ [e]) \<and> tool_at j ((W @ [e]) ! n) \<longleftrightarrow> (\<exists>c'. (tools(i \<mapsto> (length W, c))) j = Some (n, c'))"
    using assms(1)[unfolded tool_slots_def, rule_format, of n j] assms(2)
    by (auto simp: nth_append less_Suc_eq)
qed

lemma tool_slots_keep:
  assumes "tool_slots W tools" and "length W' = length W"
    and "\<And>i n. n < length W \<Longrightarrow> tool_at i (W' ! n) \<longleftrightarrow> tool_at i (W ! n)"
    and "\<And>i. map_option fst (tools' i) = map_option fst (tools i)"
  shows "tool_slots W' tools'"
  unfolding tool_slots_def
proof (intro allI)
  fix i n
  have "(\<exists>c. tools' i = Some (n, c)) \<longleftrightarrow> (\<exists>c. tools i = Some (n, c))"
    using assms(4)[of i] by (cases "tools i"; cases "tools' i") auto
  then show "n < length W' \<and> tool_at i (W' ! n) \<longleftrightarrow> (\<exists>c. tools' i = Some (n, c))"
    using assms(1)[unfolded tool_slots_def, rule_format, of n i] assms(2,3) by auto
qed

lemma last_slot_other: "last_slot l W a \<Longrightarrow> \<not> provided e \<Longrightarrow> last_slot l (W @ [e]) a"
  by (auto simp: last_slot_def nth_append split: option.splits)

text \<open>A record the provider did not say leaves the transcript as it is.\<close>

lemma tells_add_other:
  assumes T: "tells H R" and "rec_tools R' = rec_tools R" and "rec_anonymous R' = rec_anonymous R"
    and "work R' = work R @ [e]" and "\<not> provided e"
  shows "tells H R'"
  by (rule tellsI)
    (use tellsD [OF T] assms(5) tool_slots_add [OF tellsD(3) [OF T] tool_at_provided [OF assms(5)]]
      last_slot_other [OF tellsD(4) [OF T]] in \<open>simp_all add: assms(2-4)\<close>)

text \<open>A new entry, remembered as the last one or not.\<close>

lemma tells_add:
  assumes T: "tells H R" and "rec_tools R' = rec_tools R" and "work R' = work R @ [said_entry x]"
    and x: "provided (said_entry x)" "\<And>i. \<not> is_call i x"
    and l: "rec_anonymous R' = map_option (\<lambda>kind. (kind, length (rec_records R))) l"
  shows "tells (H\<lparr>hd_said := hd_said H @ [x], hd_last := l\<rparr>) R'"
proof -
  have "tool_slots (work R @ [said_entry x]) (rec_tools R)"
    by (rule tool_slots_add [OF tellsD(3) [OF T]]) (simp add: x)
  moreover have "last_slot l (work R @ [said_entry x]) (rec_anonymous R')"
    using x(1) l by (cases l) (simp_all add: last_slot_def nth_append)
  moreover have "filter provided (work R @ [said_entry x]) = map said_entry (hd_said H @ [x])"
    using tellsD(1) [OF T] x(1) by simp
  ultimately show ?thesis
    using tellsD(2) [OF T] by (intro tellsI) (simp_all add: assms(2,3))
qed

text \<open>An entry rewritten in place, found by what identifies it.\<close>

lemma update_by:
  assumes "n < length W" and "P (W ! n)" and "\<And>m. m < length W \<Longrightarrow> P (W ! m) \<Longrightarrow> m = n"
  shows "W[n := g (W ! n)] = map (\<lambda>e. if P e then g e else e) W"
proof (rule nth_equalityI)
  fix m
  assume m: "m < length (W[n := g (W ! n)])"
  show "W[n := g (W ! n)] ! m = map (\<lambda>e. if P e then g e else e) W ! m"
  proof (cases "m = n")
    case False
    then have "\<not> P (W ! m)" using assms(3) m by auto
    then show ?thesis using False m by simp
  qed (use assms(1,2) in simp)
qed simp

lemma filter_rewrite:
  assumes "filter Q W = map f xs" and "\<And>e. P e \<Longrightarrow> Q e \<and> Q (g e)" and "\<And>x. P (f x) \<longleftrightarrow> P' x"
    and "\<And>x. P' x \<Longrightarrow> g (f x) = f (h x)"
  shows "filter Q (map (\<lambda>e. if P e then g e else e) W) = map f (map (\<lambda>x. if P' x then h x else x) xs)"
proof -
  have "filter Q (map (\<lambda>e. if P e then g e else e) W) = map (\<lambda>e. if P e then g e else e) (filter Q W)"
    by (induction W) (use assms(2) in auto)
  also have "\<dots> = map f (map (\<lambda>x. if P' x then h x else x) xs)"
    using assms(3,4) by (simp add: assms(1))
  finally show ?thesis .
qed

lemma found_in:
  assumes "filter Q W = map f xs" and "\<And>e. P e \<Longrightarrow> Q e" and "\<And>x. P (f x) \<longleftrightarrow> P' x"
  shows "list_ex P' xs \<longleftrightarrow> (\<exists>n < length W. P (W ! n))"
proof -
  have "(\<exists>n < length W. P (W ! n)) \<longleftrightarrow> (\<exists>e \<in> set (filter Q W). P e)"
    using assms(2) by (auto simp: in_set_conv_nth Bex_def)
  then show ?thesis using assms(3) by (simp add: assms(1) list_ex_iff)
qed

lemma work_edited:
  "n < length (rec_records R) \<Longrightarrow> work (edited n p R) = (work R)[n := (p, snd (work R ! n))]"
  by (simp add: work_def map_update entry_of_def)

subsection \<open>Messages\<close>

text \<open>The message \<open>(kind, i)\<close> of a live recorder.\<close>

lemma message_found:
  assumes C: "contents T R" and T: "tells H R" and "kind \<noteq> User"
  shows "list_ex (is_message kind i) (hd_said H) \<longleftrightarrow> rec_messages R (kind, i) \<noteq> None"
    and "n < length (work R) \<Longrightarrow> message_at kind i (work R ! n) \<Longrightarrow> rec_messages R (kind, i) = Some n"
proof -
  have at: "rec_messages R (kind, i) = Some n" if "n < length (work R)" "message_at kind i (work R ! n)" for n
    using that contentsD(3) [OF C, of n kind _ i] by (auto simp: message_at_def entry_of_def work_nth)
  then show "n < length (work R) \<Longrightarrow> message_at kind i (work R ! n) \<Longrightarrow> rec_messages R (kind, i) = Some n" .
  have "list_ex (is_message kind i) (hd_said H) \<longleftrightarrow> (\<exists>n < length (work R). message_at kind i (work R ! n))"
    by (rule found_in [OF tellsD(1) [OF T]]) (simp_all add: provided_at assms(3))
  also have "\<dots> \<longleftrightarrow> rec_messages R (kind, i) \<noteq> None"
  proof
    assume "rec_messages R (kind, i) \<noteq> None"
    then obtain t where "T kind i = Some t" using contentsD(1) [OF C, of kind i] by fastforce
    from contentsD(2) [OF C this] obtain n where "message_slot R n kind (Some i) t" by blast
    then show "\<exists>n < length (work R). message_at kind i (work R ! n)"
      by (auto simp: message_slot_def message_at_def entry_of_def work_nth)
  qed (use at in auto)
  finally show "list_ex (is_message kind i) (hd_said H) \<longleftrightarrow> rec_messages R (kind, i) \<noteq> None" .
qed

lemma push_said: "is_message kind i x \<Longrightarrow> (push_text t (fst (said_entry x)), snd (said_entry x)) = said_entry (add_said t x)"
  by (cases x) auto

lemma push_provided: "message_at kind i e \<Longrightarrow> kind \<noteq> User \<Longrightarrow> provided (push_text t (fst e), snd e)"
  by (auto simp: message_at_def push_text_def provider_payload_def split: list.split content.split)

lemma push_tool: "tool_at i (push_text t p, q) \<longleftrightarrow> tool_at i (p, q)"
  by (auto simp: tool_at_def push_text_def split: payload.split list.split content.split)

abbreviation pushed :: "nat \<Rightarrow> string \<Rightarrow> ('n, 'v) recorder \<Rightarrow> ('n, 'v) recorder" where
  "pushed n t R \<equiv> edited n (push_text t (wk_payload (rec_records R ! n))) R"

lemma work_pushed:
  "n < length (rec_records R) \<Longrightarrow> work (pushed n t R) = (work R)[n := (push_text t (fst (work R ! n)), snd (work R ! n))]"
  by (subst work_edited) (simp_all add: entry_of_def work_nth)

lemma tool_slots_pushed:
  assumes "tool_slots (work R) tools" and "n < length (rec_records R)"
  shows "tool_slots (work (pushed n t R)) tools"
proof (rule tool_slots_keep [OF assms(1)])
  fix i m
  assume "m < length (work R)"
  then show "tool_at i (work (pushed n t R) ! m) \<longleftrightarrow> tool_at i (work R ! m)"
    unfolding work_pushed [OF assms(2)] by (cases "m = n") (simp_all add: push_tool)
qed simp_all

lemma hear_known_message:
  assumes C: "contents T R" and H: "tells H R" and kind: "kind \<noteq> User"
    and n: "rec_messages R (kind, i) = Some n" "n < length (rec_records R)" "message_at kind i (work R ! n)"
  shows "tells (hear_text kind (Some i) t H) (pushed n t (R\<lparr>rec_anonymous := None\<rparr>))"
proof -
  let ?g = "\<lambda>e. (push_text t (fst e), snd e)" and ?P = "message_at kind i"
  let ?Q = "R\<lparr>rec_anonymous := None\<rparr>"
  let ?R = "pushed n t ?Q"
  have len: "n < length (rec_records ?Q)" and WQ: "work ?Q = work R"
    using n(2) by (simp_all add: work_cong [of ?Q R])
  have "work ?R = (work R)[n := ?g (work R ! n)]" using work_pushed [OF len, of t] by (simp only: WQ)
  also have "\<dots> = map (\<lambda>e. if ?P e then ?g e else e) (work R)"
  proof (rule update_by)
    show "m = n" if "m < length (work R)" "?P (work R ! m)" for m
      using message_found(2) [OF C H kind that] n(1) by simp
  qed (use n in simp_all)
  finally have "filter provided (work ?R) =
      map said_entry (map (\<lambda>x. if is_message kind i x then add_said t x else x) (hd_said H))"
    by (simp only:) (rule filter_rewrite [OF tellsD(1) [OF H]];
      simp add: provided_at(1) [OF _ kind] push_provided [OF _ kind, simplified] push_said)
  moreover have "list_ex (is_message kind i) (hd_said H)"
    using message_found(1) [OF C H kind, of i] n(1) by simp
  moreover have "tool_slots (work ?R) (rec_tools R)"
    by (rule tool_slots_pushed [OF _ len]) (simp only: WQ tellsD(3) [OF H])
  ultimately show ?thesis
    using tellsD(2) [OF H] by (intro tellsI) (simp_all add: hear_text_def Let_def last_slot_def)
qed

lemma hear_last_message:
  assumes H: "tells H R" and a: "rec_anonymous R = Some (kind, n)" and slot: "message_slot R n kind None old"
  shows "tells (hear_text kind None t H) (pushed n t (R\<lparr>rec_anonymous := Some (kind, n)\<rparr>))"
proof -
  let ?Q = "R\<lparr>rec_anonymous := Some (kind, n)\<rparr>" and ?W = "work R"
  let ?R = "pushed n t ?Q"
  have n: "n < length ?W" "provided (?W ! n)" "filter provided (drop (Suc n) ?W) = []" "hd_last H = Some kind"
    using tellsD(4) [OF H] a by (simp_all add: last_slot_def)
  have len: "n < length (rec_records ?Q)" and WQ: "work ?Q = ?W"
    using n(1) by (simp_all add: work_cong [of ?Q R])
  let ?e = "(push_text t (fst (?W ! n)), snd (?W ! n))"
  have W: "work ?R = ?W[n := ?e]" using work_pushed [OF len, of t] by (simp only: WQ)
  have e: "?W ! n = (text_message kind old, None, sn_state (wk_stored (rec_records R ! n)))"
    using slot by (simp add: message_slot_def entry_of_def work_nth)
  have "filter provided ?W = filter provided (take n ?W) @ [?W ! n]"
    by (subst id_take_nth_drop [OF n(1)]) (simp only: filter_append filter.simps n(2,3) if_True)
  with tellsD(1) [OF H] have "map said_entry (hd_said H) = filter provided (take n ?W) @ [?W ! n]" by simp
  then obtain ys y where y: "hd_said H = ys @ [y]" "said_entry y = ?W ! n"
      "filter provided (take n ?W) = map said_entry ys"
    by (auto simp: map_eq_append_conv map_eq_Cons_conv)
  have "y = Said kind None old" using y(2) e by (cases y) auto
  then have e': "?e = said_entry (add_said t y)" using y(2) [symmetric] by simp
  have p: "provided ?e" using n(2) unfolding e by (simp add: provider_payload_def)
  have "filter provided (?W[n := ?e]) = map said_entry (ys @ [add_said t y])"
    unfolding upd_conv_take_nth_drop [OF n(1)] filter_append filter.simps if_P [OF p] n(3) y(3)
    by (simp only: map_append list.map e')
  moreover have "last_slot (Some kind) (?W[n := ?e]) (rec_anonymous ?R)"
    using n p by (simp add: last_slot_def)
  moreover have "tool_slots (work ?R) (rec_tools R)"
    by (rule tool_slots_pushed [OF _ len]) (simp only: WQ tellsD(3) [OF H])
  ultimately show ?thesis
    using tellsD(2) [OF H] n(4) y(1) unfolding W [symmetric]
    by (intro tellsI) (simp_all add: hear_text_def Let_def)
qed

lemma pushed_run:
  assumes "and_then (on_recorder (\<lambda>R. R\<lparr>rec_anonymous := a\<rparr>)) (\<lambda>_. edit_record n (push_text t)) (s, R) = (Ok u, (s', R'))"
    and "n < length (rec_records R)"
  shows "R' = pushed n t (R\<lparr>rec_anonymous := a\<rparr>)"
  using assms edit_record_eq [of n "R\<lparr>rec_anonymous := a\<rparr>" "push_text t" s] by (simp add: on_recorder_def)

lemma hear_new_text:
  assumes "\<not> list_ex (is_message kind i) (hd_said H)"
  shows "hear_text kind (Some i) t (H\<lparr>hd_said := hd_said H @ [Said kind (Some i) '''']\<rparr>) = hear_text kind (Some i) t H"
proof -
  have "map (\<lambda>x. if is_message kind i x then add_said t x else x) (hd_said H) = hd_said H"
    using assms by (auto simp: list_ex_iff intro: map_idI)
  with assms show ?thesis by (simp add: hear_text_def Let_def)
qed

lemma hear_again_text:
  assumes "hd_last H \<noteq> Some kind"
  shows "hear_text kind None t (H\<lparr>hd_said := hd_said H @ [Said kind None ''''], hd_last := Some kind\<rparr>) = hear_text kind None t H"
  using assms by (simp add: hear_text_def Let_def)

context record_store begin

lemma insert_said:
  assumes "sound S inv spec (s, R)" and "rec_finished R \<longrightarrow> state \<noteq> Open"
    and "recorder_insert S payload actor reply source state (s, R) = (Ok n, (s', R'))"
  shows "n = length (rec_records R)" and "\<exists>w. R' = add_record R w \<and> entry_of w = (payload, source, state)"
  by (rule insert_step [OF assms]; auto simp: entry_of_def made_def)+

lemma insert_other_heard:
  assumes "sound S inv spec (s, R)" and "rec_finished R \<longrightarrow> state \<noteq> Open" and "tells H R"
    and "recorder_insert S payload actor reply source state (s, R) = (Ok n, (s', R'))" and "\<not> provider_payload payload"
  shows "tells H R'"
proof -
  obtain w where "R' = add_record R w" "entry_of w = (payload, source, state)"
    using insert_said(2) [OF assms(1,2,4)] by blast
  then show ?thesis using tells_add_other [OF assms(3), of R' "entry_of w"] assms(5) by simp
qed

lemma new_message_said:
  assumes L: "live S inv spec T (s, R)" and "new_message S kind native (s, R) = (Ok n, (s', R'))"
  shows "n = length (rec_records R)" and "work R' = work R @ [said_entry (Said kind native '''')]"
    and "rec_tools R' = rec_tools R"
proof -
  obtain m s1 R1 where ins: "recorder_insert S (text_message kind '''') (ra_agent (rec_actors R)) None
      (map_option acp_source native) Open (s, R) = (Ok m, (s1, R1))"
    and R': "R' = (case native of Some i \<Rightarrow> R1\<lparr>rec_messages := (rec_messages R1)((kind, i) \<mapsto> m)\<rparr> | None \<Rightarrow> R1)" "m = n"
    using assms(2) by (auto simp: new_message_def and_then_Ok on_recorder_def)
  have fin: "rec_finished R \<longrightarrow> Open \<noteq> Open" using liveD(2) [OF L] by simp
  obtain w where w: "R1 = add_record R w" "entry_of w = (text_message kind '''', map_option acp_source native, Open)"
    using insert_said(2) [OF liveD(1) [OF L] fin ins] by blast
  have "rec_records R' = rec_records R1" using R' by (cases native) simp_all
  from work_cong [OF this] w show "work R' = work R @ [said_entry (Said kind native '''')]" by simp
  show "n = length (rec_records R)" using insert_said(1) [OF liveD(1) [OF L] fin ins] R'(2) by simp
  show "rec_tools R' = rec_tools R" using R' w(1) by (cases native) simp_all
qed

lemma text_heard:
  assumes L: "live S inv spec T (s, R)" and H: "tells H R" and kind: "kind \<noteq> User"
    and run: "recorder_message D S kind chunk (s, R) = (Ok u, (s', R'))" and t: "ch_content chunk = TextBlock t"
  shows "tells (hear_text kind (ch_message_id chunk) t H) R'"
proof -
  let ?native = "ch_message_id chunk"
  let ?a = "\<lambda>n. if ?native = None then Some (kind, n) else None"
  have rest: "\<exists>n s1 R1. (case message_index kind ?native R of Some n \<Rightarrow> give n | None \<Rightarrow> new_message S kind ?native) (s, R) =
        (Ok n, (s1, R1)) \<and>
      and_then (on_recorder (\<lambda>R. R\<lparr>rec_anonymous := ?a n\<rparr>)) (\<lambda>_. edit_record n (push_text t)) (s1, R1) = (Ok u, (s', R'))"
    using run by (simp add: recorder_message_def t and_then_Ok [of "case_option _ _ _"])
  show ?thesis
  proof (cases "message_index kind ?native R")
    case (Some n)
    have R: "ready spec T kind ?native n (s, R)" by (rule message_index_ready [OF L Some])
    then obtain old where slot: "message_slot R n kind ?native old" by (auto simp: ready_def)
    then have n: "n < length (rec_records R)" by (simp add: message_slot_def)
    have R': "R' = pushed n t (R\<lparr>rec_anonymous := ?a n\<rparr>)" using rest Some pushed_run [OF _ n] by auto
    show ?thesis
    proof (cases ?native)
      case None
      then have "rec_anonymous R = Some (kind, n)" using Some by (auto simp: message_index_def split: option.splits if_splits)
      from hear_last_message [OF H this slot [unfolded None], of t] show ?thesis using R' None by simp
    next
      case (Some i)
      have "rec_messages R (kind, i) = Some n" using \<open>message_index kind ?native R = Some n\<close> Some by (simp add: message_index_def)
      moreover have "message_at kind i (work R ! n)"
        using slot Some n by (simp add: message_slot_def message_at_def work_nth entry_of_def)
      ultimately show ?thesis using hear_known_message [OF liveD(3) [OF L] H kind _ n, of i t] R' Some by simp
    qed
  next
    case None
    then obtain n s1 R1 where new: "new_message S kind ?native (s, R) = (Ok n, (s1, R1))"
        and run1: "and_then (on_recorder (\<lambda>R. R\<lparr>rec_anonymous := ?a n\<rparr>)) (\<lambda>_. edit_record n (push_text t)) (s1, R1) = (Ok u, (s', R'))"
      using rest by auto
    note said = new_message_said [OF L new]
    have "ready spec T kind ?native n (s1, R1)" using tripleD(2) [OF new_message_ready [OF L None] _ new] by simp
    then obtain T' old where L1: "live S inv spec T' (s1, R1)" and slot: "message_slot R1 n kind ?native old"
      by (auto simp: ready_def)
    then have n: "n < length (rec_records R1)" by (simp add: message_slot_def)
    let ?Q = "R1\<lparr>rec_anonymous := ?a n\<rparr>"
    have R': "R' = pushed n t ?Q" by (rule pushed_run [OF run1 n])
    let ?H = "H\<lparr>hd_said := hd_said H @ [Said kind ?native ''''], hd_last := (if ?native = None then Some kind else None)\<rparr>"
    have T1: "tells ?H ?Q"
    proof (rule tells_add [OF H])
      show "work ?Q = work R @ [said_entry (Said kind ?native '''')]" using said(2) work_cong [of ?Q R1] by simp
    qed (use said kind in \<open>auto simp: provider_payload_def\<close>)
    have slot': "message_slot ?Q n kind ?native old" using slot by (simp add: message_slot_def)
    have len: "n < length (rec_records ?Q)" using n by simp
    show ?thesis
    proof (cases ?native)
      case None
      have "hd_last H \<noteq> Some kind"
        using tellsD(4) [OF H] \<open>message_index kind ?native R = None\<close> None
        by (auto simp: last_slot_def message_index_def split: option.splits if_splits)
      then show ?thesis
        using hear_last_message [of "H\<lparr>hd_said := hd_said H @ [Said kind None []], hd_last := Some kind\<rparr>"
            "R1\<lparr>rec_anonymous := Some (kind, n)\<rparr>" kind n old t] T1 slot' hear_again_text [of H kind t] R' None
        by simp
    next
      case (Some i)
      have C: "contents T' ?Q" using contents_cong [of ?Q R1 T'] liveD(3) [OF L1] by simp
      have at: "message_at kind i (work ?Q ! n)"
        using slot' len Some by (simp add: message_slot_def message_at_def work_nth entry_of_def)
      have known: "rec_messages ?Q (kind, i) = Some n" by (rule message_found(2) [OF C T1 kind _ at]) (use len in simp)
      have fresh: "\<not> list_ex (is_message kind i) (hd_said H)"
        using message_found(1) [OF liveD(3) [OF L] H kind, of i] \<open>message_index kind ?native R = None\<close> Some
        by (simp add: message_index_def)
      have "hear_text kind (Some i) t ?H = hear_text kind (Some i) t H"
        using hear_new_text [OF fresh, of t] Some by (simp add: hear_text_def Let_def)
      then show ?thesis using hear_known_message [OF C T1 kind known len at, of t] R' Some by simp
    qed
  qed
qed

end

subsection \<open>Content and tools\<close>

lemma tells_none: "tells H R \<Longrightarrow> hd_last H = None \<Longrightarrow> rec_anonymous R = None"
  using tellsD(4) [of H R] by (auto simp: last_slot_def split: option.splits)

lemma call_found:
  assumes T: "tells H R"
  shows "list_ex (is_call i) (hd_said H) \<longleftrightarrow> rec_tools R i \<noteq> None"
    and "n < length (work R) \<and> tool_at i (work R ! n) \<longleftrightarrow> (\<exists>c. rec_tools R i = Some (n, c))"
proof -
  show 1: "n < length (work R) \<and> tool_at i (work R ! n) \<longleftrightarrow> (\<exists>c. rec_tools R i = Some (n, c))" for n
    using tellsD(3) [OF T] unfolding tool_slots_def by blast
  have "list_ex (is_call i) (hd_said H) \<longleftrightarrow> (\<exists>n < length (work R). tool_at i (work R ! n))"
    by (rule found_in [OF tellsD(1) [OF T]]) (simp_all add: provided_at)
  also have "\<dots> \<longleftrightarrow> rec_tools R i \<noteq> None"
    using 1 by (cases "rec_tools R i") auto
  finally show "list_ex (is_call i) (hd_said H) \<longleftrightarrow> rec_tools R i \<noteq> None" .
qed

lemma hear_call_Ok:
  "tool_payload D call = Ok (PTool tool) \<Longrightarrow>
   hear_call D call H = H\<lparr>hd_calls := (hd_calls H)(tc_id call \<mapsto> call), hd_said :=
     (if list_ex (is_call (tc_id call)) (hd_said H)
      then map (\<lambda>x. if is_call (tc_id call) x then Did (tc_id call) tool else x) (hd_said H)
      else hd_said H @ [Did (tc_id call) tool])\<rparr>"
  by (simp add: hear_call_def Let_def)

lemma hear_known_call:
  assumes H: "tells H R" and quiet: "hd_last H = None" and n: "rec_tools R (tc_id call) = Some (n, c)"
    and p: "tool_payload D call = Ok (PTool tool)"
  shows "tells (hear_call D call H) ((edited n (PTool tool) R)\<lparr>rec_tools := (rec_tools R)(tc_id call \<mapsto> (n, call))\<rparr>)"
proof -
  let ?i = "tc_id call" and ?g = "\<lambda>e. (PTool tool, snd e)"
  let ?Q = "edited n (PTool tool) R"
  let ?P = "?Q\<lparr>rec_tools := (rec_tools R)(?i \<mapsto> (n, call))\<rparr>"
  have at: "n < length (work R)" "tool_at ?i (work R ! n)" using call_found(2) [OF H, of n ?i] n by auto
  have len: "n < length (rec_records R)" using at(1) by simp
  have W: "work ?P = (work R)[n := ?g (work R ! n)]"
    using work_edited [OF len, of "PTool tool"] work_cong [of ?P ?Q] by simp
  also have "\<dots> = map (\<lambda>e. if tool_at ?i e then ?g e else e) (work R)"
  proof (rule update_by [where P = "tool_at ?i", OF at])
    show "m = n" if "m < length (work R)" "tool_at ?i (work R ! m)" for m
      using call_found(2) [OF H, of m ?i] that n by auto
  qed
  finally have "filter provided (work ?P) =
      map said_entry (map (\<lambda>x. if is_call ?i x then Did ?i tool else x) (hd_said H))"
  proof (simp only:, intro filter_rewrite [OF tellsD(1) [OF H]])
    show "provided e \<and> provided (?g e)" if "tool_at ?i e" for e :: "'b entry_view"
      using provided_at(2) [OF that] by (simp add: provider_payload_def)
    show "?g (said_entry x) = said_entry (Did ?i tool)" if "is_call ?i x" for x
      using that by (cases x) auto
  qed simp
  moreover have "tool_slots (work ?P) (rec_tools ?P)"
  proof (rule tool_slots_keep [OF tellsD(3) [OF H]])
    fix j m
    assume "m < length (work R)"
    then show "tool_at j (work ?P ! m) \<longleftrightarrow> tool_at j (work R ! m)"
      unfolding W using at(2) by (cases "m = n") (auto simp: tool_at_def)
  qed (use n in simp_all)
  moreover have "list_ex (is_call ?i) (hd_said H)" using call_found(1) [OF H, of ?i] n by simp
  ultimately show ?thesis
    using tellsD(2) [OF H] tells_none [OF H quiet] quiet
    by (intro tellsI) (simp_all add: hear_call_Ok [OF p] last_slot_def)
qed

lemma hear_new_call:
  assumes H: "tells H R" and quiet: "hd_last H = None" and n: "rec_tools R (tc_id call) = None"
    and p: "tool_payload D call = Ok (PTool tool)"
    and w: "entry_of w = (PTool tool, Some (acp_source (tc_id call)), Open)"
  shows "tells (hear_call D call H)
    ((add_record R w)\<lparr>rec_tools := (rec_tools R)(tc_id call \<mapsto> (length (rec_records R), call))\<rparr>)"
proof -
  let ?i = "tc_id call"
  let ?P = "(add_record R w)\<lparr>rec_tools := (rec_tools R)(?i \<mapsto> (length (rec_records R), call))\<rparr>"
  have W: "work ?P = work R @ [said_entry (Did ?i tool)]"
    using work_cong [of ?P "add_record R w"] w by simp
  have "tool_slots (work R @ [said_entry (Did ?i tool)]) ((rec_tools R)(?i \<mapsto> (length (work R), call)))"
    by (rule tool_slots_new [OF tellsD(3) [OF H] n]) (simp add: tool_at_def)
  moreover have "\<not> list_ex (is_call ?i) (hd_said H)" using call_found(1) [OF H, of ?i] n by simp
  ultimately show ?thesis
    using tellsD(1,2) [OF H] tells_none [OF H quiet] quiet
    by (intro tellsI) (simp_all add: hear_call_Ok [OF p] last_slot_def W provider_payload_def)
qed

lemma updated_merged: "tells H R \<Longrightarrow> merged_call D u R = updated_call D u H"
  using tellsD(2) [of H R "tu_id u"] by (cases "rec_tools R (tu_id u)") (auto simp: merged_call_def updated_call_def)

text \<open>A record the provider did not say, rewritten.\<close>

lemma tells_replace_other:
  assumes H: "tells H R" and quiet: "rec_anonymous R' = None" "hd_last H = None"
    and n: "n < length (work R)" "\<not> provided (work R ! n)" "\<not> provided e"
    and R': "work R' = (work R)[n := e]" "rec_tools R' = rec_tools R"
  shows "tells H R'"
proof -
  have "filter provided (work R') = filter provided (work R)"
    unfolding R'(1) upd_conv_take_nth_drop [OF n(1)]
    by (subst (3) id_take_nth_drop [OF n(1)]) (simp only: filter_append filter.simps n(2,3) if_False)
  moreover have "tool_slots (work R') (rec_tools R')"
  proof (rule tool_slots_keep [OF tellsD(3) [OF H]])
    fix i m
    assume "m < length (work R)"
    then show "tool_at i (work R' ! m) \<longleftrightarrow> tool_at i (work R ! m)"
      unfolding R'(1) using tool_at_provided [OF n(2)] tool_at_provided [OF n(3)] by (cases "m = n") auto
  qed (simp_all add: R')
  ultimately show ?thesis
    using tellsD(1,2) [OF H] quiet R'(2) by (intro tellsI) (simp_all add: last_slot_def)
qed

context record_store begin

lemma extension_said:
  assumes "sound S inv spec (s, R)" and "\<not> rec_finished R"
    and "recorder_extension S name v (s, R) = (Ok u, (s', R'))"
  shows "\<exists>w. R' = add_record R w \<and> entry_of w = (PExtension ''acp'' name v, None, Complete)"
proof -
  obtain n where "recorder_insert S (PExtension ''acp'' name v) (ra_agent (rec_actors R)) None None Complete (s, R) =
      (Ok n, (s', R'))"
    using assms(3) by (auto simp: recorder_extension_def and_then_Ok)
  from insert_said(2) [OF assms(1) _ this] show ?thesis using assms(2) by simp
qed

lemma message_heard:
  assumes L: "live S inv spec T (s, R)" and H: "tells H R" and kind: "kind \<noteq> User"
    and run: "recorder_message D S kind chunk (s, R) = (Ok u, (s', R'))"
  shows "tells (hear_chunk D kind chunk H) R'"
proof (cases "ch_content chunk")
  case (TextBlock t)
  then show ?thesis using text_heard [OF L H kind run TextBlock] by (simp add: hear_chunk_def)
next
  case (OtherBlock b)
  let ?Q = "R\<lparr>rec_anonymous := None\<rparr>"
  obtain v where v: "sdk_chunk D chunk = Inr v" "recorder_extension S ''message_content'' v (s, ?Q) = (Ok u, (s', R'))"
    using run by (auto simp: recorder_message_def OtherBlock and_then_Ok on_recorder_def serde_def split: sum.splits)
  have "sound S inv spec (s, ?Q)" using sound_cong [of ?Q R S inv spec s] liveD(1) [OF L] by simp
  then obtain w where w: "R' = add_record ?Q w" "entry_of w = said_entry (Shown v)"
    using extension_said [OF _ _ v(2)] liveD(2) [OF L] by auto
  have "tells (H\<lparr>hd_said := hd_said H @ [Shown v], hd_last := None\<rparr>) R'"
  proof (rule tells_add [OF H])
    show "work R' = work R @ [said_entry (Shown v)]"
      unfolding w(1) work_simps(2) w(2) using work_cong [of ?Q R] by simp
  qed (use w in \<open>simp_all add: provider_payload_def\<close>)
  then show ?thesis by (simp add: hear_chunk_def OtherBlock v(1))
qed

lemma tool_heard:
  assumes L: "live S inv spec T (s, R)" and H: "tells H R" and quiet: "hd_last H = None"
    and run: "recorder_tool D S call (s, R) = (Ok u, (s', R'))"
  shows "tells (hear_call D call H) R'"
proof -
  obtain p where "tool_payload D call = Ok p" using run by (auto simp: recorder_tool_def and_then_Ok)
  with tool_payload_cases obtain tool where p: "tool_payload D call = Ok (PTool tool)" by blast
  show ?thesis
  proof (cases "rec_tools R (tc_id call)")
    case None
    obtain n s1 R1 where ins: "recorder_insert S (PTool tool) (ra_agent (rec_actors R)) None (Some (acp_source (tc_id call)))
        Open (s, R) = (Ok n, (s1, R1))" and R': "R' = R1\<lparr>rec_tools := (rec_tools R1)(tc_id call \<mapsto> (n, call))\<rparr>"
      using run by (auto simp: recorder_tool_def p None and_then_Ok on_recorder_def)
    have fin: "rec_finished R \<longrightarrow> Open \<noteq> Open" using liveD(2) [OF L] by simp
    obtain w where w: "R1 = add_record R w" "entry_of w = (PTool tool, Some (acp_source (tc_id call)), Open)"
      using insert_said(2) [OF liveD(1) [OF L] fin ins] by blast
    then show ?thesis
      using hear_new_call [OF H quiet None p w(2)] insert_said(1) [OF liveD(1) [OF L] fin ins] R' by simp
  next
    case (Some q)
    obtain n c where q: "q = (n, c)" by force
    have n: "rec_tools R (tc_id call) = Some (n, c)" using Some q by simp
    have "n < length (rec_records R)" using call_found(2) [OF H, of n "tc_id call"] n by auto
    then have "R' = (edited n (PTool tool) R)\<lparr>rec_tools := (rec_tools R)(tc_id call \<mapsto> (n, call))\<rparr>"
      using run edit_record_eq [of n R "\<lambda>_. PTool tool" s]
      by (auto simp: recorder_tool_def p n and_then_Ok on_recorder_def)
    then show ?thesis using hear_known_call [OF H quiet n p] by simp
  qed
qed

lemma tool_update_heard:
  assumes L: "live S inv spec T (s, R)" and H: "tells H R" and quiet: "hd_last H = None"
    and run: "recorder_tool_update D S u (s, R) = (Ok x, (s', R'))"
  shows "tells (hear_call D (updated_call D u H) H) R'"
  using tool_heard [OF L H quiet, of D "merged_call D u R" x s' R'] run
  by (simp add: recorder_tool_update_def updated_merged [OF H])

end

subsection \<open>The end\<close>

text \<open>The transcript of a run that has ended.\<close>

definition told :: "bool \<Rightarrow> ('n, 'v) heard \<Rightarrow> ('n, 'v) recorder \<Rightarrow> bool" where
  "told complete H R \<longleftrightarrow>
     filter provided (work R) = map (\<lambda>x. closed_entry complete (said_entry x)) (hd_said H)"

lemma fst_closed [simp]: "fst (closed_entry complete e) = fst e"
  by (simp add: closed_entry_def split: prod.split)

lemma told_closed:
  assumes "tells H R" and "work R' = map (closed_entry complete) (work R)"
  shows "told complete H R'"
proof -
  have "filter provided (map (closed_entry complete) W) = map (closed_entry complete) (filter provided W)"
    for W :: "'b entry_view list"
    by (induction W) auto
  then show ?thesis by (simp add: told_def assms(2) tellsD(1) [OF assms(1)])
qed

lemma told_other:
  "told complete H R \<Longrightarrow> work R' = work R @ [e] \<Longrightarrow> \<not> provided e \<Longrightarrow> told complete H R'"
  by (simp add: told_def)

lemma told_cong: "told complete H R \<Longrightarrow> work R' = work R \<Longrightarrow> told complete H R'"
  by (simp add: told_def)

lemma closed_entry_of:
  "same_work w w' \<Longrightarrow> sn_state (wk_stored w') = final_state complete w \<Longrightarrow>
   entry_of w' = closed_entry complete (entry_of w)"
  by (simp add: entry_of_def closed_entry_def same_work_def final_state_def)

lemma same_entry:
  "same_work w w' \<Longrightarrow> sn_state (wk_stored w') = sn_state (wk_stored w) \<Longrightarrow> entry_of w' = entry_of w"
  by (simp add: entry_of_def same_work_def)

lemma closed_entries:
  assumes "list_all2 same_work ws ws'"
    and "list_all2 (\<lambda>w w'. sn_state (wk_stored w') = final_state complete w) ws ws'"
  shows "map entry_of ws' = map (closed_entry complete) (map entry_of ws)"
  using assms by (auto simp: list_all2_conv_all_nth intro!: nth_equalityI closed_entry_of)

lemma same_entries:
  assumes "list_all2 same_work ws ws'" and "list_all2 (\<lambda>w w'. sn_state (wk_stored w') = sn_state (wk_stored w)) ws ws'"
  shows "map entry_of ws' = map entry_of ws"
  using assms by (auto simp: list_all2_conv_all_nth intro!: nth_equalityI same_entry)

context record_store begin

lemma finish_told:
  assumes snd: "sound S inv spec (s, R)" and T: "tells H R"
    and run: "recorder_finish S complete (s, R) = (Ok u, (s', R'))"
  shows "told complete H R'"
proof -
  let ?is = "map (own_id spec) [0..<length (rec_records R)]"
  obtain ws where fin: "finish_records S complete (rec_records R) s = (Ok (), s', ws)"
    and R': "R' = R\<lparr>rec_records := ws, rec_finished := True\<rparr>"
    using run by (auto simp: recorder_finish_def and_then_Ok on_recorder_def split: prod.splits)
  have "inv s" "list_all2 (working_ok S s) ?is (rec_records R)" "distinct ?is"
    using snd by (auto simp: sound_matched distinct_map inj_on_def)
  from finish_loop [OF this, of complete] fin
  have "list_all2 same_work (rec_records R) ws"
      "list_all2 (\<lambda>w w'. sn_state (wk_stored w') = final_state complete w) (rec_records R) ws"
    by (simp_all add: loop_post_def)
  from closed_entries [OF this] have "work R' = map (closed_entry complete) (work R)"
    by (simp add: work_def R')
  with told_closed [OF T] show ?thesis by blast
qed

lemma checkpoint_work:
  assumes snd: "sound S inv spec (s, R)" and run: "recorder_checkpoint S (s, R) = (x, (s', R'))"
  shows "work R' = work R" and "rec_tools R' = rec_tools R" and "rec_anonymous R' = rec_anonymous R"
proof -
  obtain ws where loop: "checkpoint_records S (rec_records R) s = (x, s', ws)" "R' = R\<lparr>rec_records := ws\<rparr>"
    using run by (auto simp: recorder_checkpoint_def split: prod.splits)
  note P = checkpoint_loop_sound [OF snd loop(1)]
  show "work R' = work R" using same_entries [OF P(3,4)] loop(2) by (simp add: work_def)
  show "rec_tools R' = rec_tools R" "rec_anonymous R' = rec_anonymous R" using loop(2) by simp_all
qed

lemma evidence_heard:
  assumes snd: "sound S inv spec (s, R)" and T: "tells H R"
    and run: "host_evidence S name data (s, R) = (Ok u, (s', R'))"
  shows "tells H R'"
proof -
  obtain n where "recorder_insert S (PExtension ''agent_bridge'' name data) (ra_host (rec_actors R)) None None Complete
      (s, R) = (Ok n, (s', R'))"
    using run by (auto simp: host_evidence_def and_then_Ok)
  from insert_other_heard [OF snd _ T this] show ?thesis by (simp add: provider_payload_def)
qed

subsection \<open>Every event\<close>

lemma permission_heard:
  assumes D: "sdk_laws D" and L: "live S inv spec T (s, R)" and H: "tells H R" and quiet: "hd_last H = None"
    and run: "observe_permission D S i request (s, R) = (Ok u, (s', R'))"
  shows "tells (hear_call D (updated_call D (pq_tool_call request) H) H) R'"
proof -
  let ?H = "hear_call D (updated_call D (pq_tool_call request) H) H"
  obtain x s1 R1 where up: "recorder_tool_update D S (pq_tool_call request) (s, R) = (Ok x, (s1, R1))"
    using run by (auto simp: observe_permission_def and_then_Ok)
  have T1: "tells ?H R1" by (rule tool_update_heard [OF L H quiet up])
  have L1: "live S inv spec T (s1, R1)" using triple_Ok [OF tool_update_live [OF D] L up] by simp
  obtain tool c options n title reply R2 where
    ins: "recorder_insert S (PPermission title options) (ra_agent (rec_actors R1)) reply None Open (s1, R1) = (Ok n, (s', R2))"
    and R': "R' = R2\<lparr>rec_permissions := (rec_permissions R2)(i \<mapsto> n)\<rparr>"
    using run up
    by (auto simp: observe_permission_def and_then_Ok on_recorder_def stored_at_def split: option.splits if_splits)
  have fin: "rec_finished R1 \<longrightarrow> Open \<noteq> Open" using liveD(2) [OF L1] by simp
  have "tells ?H R2"
    by (rule insert_other_heard [OF liveD(1) [OF L1] fin T1 ins]) (simp add: provider_payload_def)
  then show ?thesis using tells_cong [of R' R2 ?H] work_cong [of R' R2] by (simp add: R')
qed

lemma config_heard:
  assumes L: "live S inv spec T (s, R)" and H: "tells H R"
    and run: "observe_config D S options (s, R) = (Ok u, (s', R'))"
  shows "tells H R'"
proof (cases "observed_report D options = rec_last_configuration R")
  case True
  then show ?thesis using run H by (simp add: observe_config_def Let_def)
next
  case False
  let ?Q = "R\<lparr>rec_last_configuration := observed_report D options\<rparr>"
  obtain n where ins: "recorder_insert S
      (PExtension ''agent_bridge'' ''configuration_report'' (report_json (sdk_json D) (observed_report D options)))
      (ra_agent (rec_actors R)) None None Complete (s, ?Q) = (Ok n, (s', R'))"
    using run False by (auto simp: observe_config_def Let_def and_then_Ok on_recorder_def)
  have "sound S inv spec (s, ?Q)" using sound_cong [of ?Q R S inv spec s] liveD(1) [OF L] by simp
  moreover have "tells H ?Q" using tells_cong [of ?Q R H] work_cong [of ?Q R] H by simp
  ultimately show ?thesis using insert_other_heard [OF _ _ _ ins] by (simp add: provider_payload_def)
qed

lemma resolved_heard:
  assumes L: "live S inv spec T (s, R)" and H: "tells H R" and quiet: "hd_last H = None"
    and run: "observe_resolved S i outcome delivery (s, R) = (Ok u, (s', R'))"
  shows "tells H R'"
proof -
  obtain n where n: "rec_permissions R i = Some n"
    using run by (auto simp: observe_resolved_def split: option.splits)
  from contentsD(4) [OF liveD(3) [OF L] n] obtain title options where
    p: "n < length (rec_records R)" "wk_payload (rec_records R ! n) = PPermission title options" by blast
  let ?q = "wk_stored (rec_records R ! n)" and ?p = "PDecision outcome delivery :: 'v payload"
  obtain d where d: "recorder_draft R ?p (ra_host (rec_actors R)) (Some (r_id (sn_record ?q))) None Complete = Ok d"
    by (simp add: recorder_draft_Ok)
  obtain y s1 where y: "op_resolve S (r_id (sn_record ?q)) (sn_revision ?q) d s = (y, s1)" by force
  obtain z v where R': "R' = add_record (restored n v R) \<lparr>wk_stored = z, wk_payload = ?p, wk_dirty = False\<rparr>"
    using run
    by (cases y; cases "op_get S (r_id (sn_record ?q)) s1")
      (auto simp: observe_resolved_def n stored_at_eq [OF p(1)] d y and_then_def on_store_def on_recorder_def Let_def)
  let ?e = "(PPermission title options, sn_source v, sn_state v)"
  have "tells H (restored n v R)"
  proof (rule tells_replace_other [OF H])
    show "work (restored n v R) = (work R)[n := ?e]" using p by (simp add: work_def map_update entry_of_def)
    show "rec_anonymous (restored n v R) = None" using tells_none [OF H quiet] by simp
  qed (use p quiet in \<open>simp_all add: work_nth entry_of_def provider_payload_def\<close>)
  from tells_add_other [OF this, of R'] show ?thesis
    unfolding R' work_simps(2) by (simp add: entry_of_def provider_payload_def)
qed

lemma finished_told:
  assumes L: "live S inv spec T (s, R)" and H: "tells H R"
    and run: "observe_finished D S reason (s, R) = (Ok u, (s', R'))"
  shows "told (reason = StopEndTurn \<or> reason = StopRefusal) H R'"
proof -
  obtain s1 R1 s2 R2 why n where
    ev: "(if rec_input_receipt R
        then and_then (input_evidence S (versioned_state (sdk_json D) (rec_input_version R) ''response_received''
            [(''stop_reason'', sdk_stop D reason)])) (\<lambda>_. on_recorder (\<lambda>R. R\<lparr>rec_input_response := True\<rparr>))
        else give ()) (s, R) = (Ok (), (s1, R1))"
    and ins: "recorder_insert S (PRunFinished why) (ra_agent (rec_actors R)) None None Complete (s1, R1) = (Ok n, (s2, R2))"
    and fin: "recorder_finish S (reason = StopEndTurn \<or> reason = StopRefusal) (s2, R2) = (Ok u, (s', R'))"
    using run by (auto simp: observe_finished_def and_then_Ok [of "if _ then _ else _"] and_then_Ok [of "lift_result _"]
        and_then_Ok [of "recorder_insert _ _ _ _ _ _"])
  have R1: "sound S inv spec (s1, R1) \<and> tells H R1"
  proof (cases "rec_input_receipt R")
    case True
    then obtain Q where Q: "host_evidence S ''input_receipt'' (versioned_state (sdk_json D) (rec_input_version R)
        ''response_received'' [(''stop_reason'', sdk_stop D reason)]) (s, R) = (Ok (), (s1, Q))"
        "R1 = Q\<lparr>rec_input_response := True\<rparr>"
      using ev by (auto simp: input_evidence_def and_then_Ok on_recorder_def)
    have "tells H Q" by (rule evidence_heard [OF liveD(1) [OF L] H Q(1)])
    moreover have "sound S inv spec (s1, Q)" using triple_Ok [OF host_evidence_live L Q(1)] by (rule live_sound)
    ultimately show ?thesis
      using tells_cong [of R1 Q H] work_cong [of R1 Q] sound_cong [of R1 Q S inv spec s1] by (simp add: Q(2))
  next
    case False
    then show ?thesis using ev H liveD(1) [OF L] by simp
  qed
  then have "sound S inv spec (s1, R1)" "tells H R1" by simp_all
  note R1 = this
  have "sound S inv spec (s2, R2)" by (rule insert_step [OF R1(1) _ ins]) simp_all
  moreover have "tells H R2"
    by (rule insert_other_heard [OF R1(1) _ R1(2) ins]) (simp_all add: provider_payload_def)
  ultimately show ?thesis using finish_told [OF _ _ fin] by blast
qed

end

text \<open>What a successful observation leaves.\<close>

definition hears :: "('n, 'v) acp_event \<Rightarrow> ('n, 'v) heard \<Rightarrow> ('n, 'v) recorder \<Rightarrow> bool" where
  "hears event H R \<longleftrightarrow>
     (case event of
        Finished reason \<Rightarrow> told (reason = StopEndTurn \<or> reason = StopRefusal) H R
      | _ \<Rightarrow> tells H R)"

context record_store begin

lemma observe_event_heard:
  assumes D: "sdk_laws D" and L: "live S inv spec T (s, R)" and H: "tells H R"
    and quiet: "\<not> message_chunk event \<Longrightarrow> hd_last H = None"
    and run: "observe_event D S event (s, R) = (Ok u, (s', R'))"
  shows "hears event (hear D event H) R'"
proof (cases event)
  case (Update up)
  have same: "H\<lparr>hd_last := None\<rparr> = H" if "\<not> message_chunk event" using quiet [OF that] by simp
  show ?thesis
  proof (cases up)
    case (AgentMessageChunk chunk)
    then show ?thesis
      using message_heard [OF L H, of Agent D chunk] run Update by (simp add: observe_event_def hears_def hear_def)
  next
    case (AgentThoughtChunk chunk)
    then show ?thesis
      using message_heard [OF L H, of Reasoning D chunk] run Update by (simp add: observe_event_def hears_def hear_def)
  next
    case (ToolCallUpdated call)
    then show ?thesis
      using tool_heard [OF L H quiet, of D call] same run Update
      by (simp add: observe_event_def hears_def hear_def Let_def)
  next
    case (ToolCallFields fields)
    then show ?thesis
      using tool_update_heard [OF L H quiet, of D fields] same run Update
      by (simp add: observe_event_def hears_def hear_def Let_def)
  next
    case (ConfigOptionUpdate options)
    then show ?thesis
      using config_heard [OF L H, of D options] same run Update
      by (simp add: observe_event_def hears_def hear_def Let_def)
  next
    case (OtherUpdate x)
    have q: "hd_last H = None" by (rule quiet) (simp add: Update OtherUpdate)
    obtain v where v: "sdk_other D up = Inr v" "recorder_extension S ''session_update'' v (s, R) = (Ok u, (s', R'))"
      using run by (auto simp: observe_event_def Update OtherUpdate and_then_Ok serde_def split: sum.splits)
    from extension_said [OF liveD(1,2) [OF L] v(2)] obtain w where
      w: "R' = add_record R w" "entry_of w = said_entry (Noted v)" by auto
    have "tells (H\<lparr>hd_said := hd_said H @ [Noted v], hd_last := None\<rparr>) R'"
      by (rule tells_add [OF H]) (use w tells_none [OF H q] in \<open>simp_all add: provider_payload_def\<close>)
    then show ?thesis using v(1) q by (simp add: hears_def hear_def Update OtherUpdate Let_def)
  qed
next
  case (PermissionEvent i request)
  then have q: "hd_last H = None" by (intro quiet) simp
  then have "H\<lparr>hd_last := None\<rparr> = H" by simp
  then show ?thesis
    using permission_heard [OF D L H q, of i request] run PermissionEvent
    by (simp add: observe_event_def hears_def hear_def Let_def)
next
  case (PermissionResolved i outcome delivery)
  then have q: "hd_last H = None" by (intro quiet) simp
  then have "H\<lparr>hd_last := None\<rparr> = H" by simp
  then show ?thesis
    using resolved_heard [OF L H q, of i outcome delivery] run PermissionResolved
    by (simp add: observe_event_def hears_def hear_def Let_def)
next
  case (Finished reason)
  then have q: "hd_last H = None" by (intro quiet) simp
  then have "H\<lparr>hd_last := None\<rparr> = H" by simp
  then show ?thesis
    using finished_told [OF L H, of D reason] run Finished
    by (simp add: observe_event_def hears_def hear_def Let_def)
qed

lemma hear_quiet: "\<not> message_chunk event \<Longrightarrow> hear D event (H\<lparr>hd_last := None\<rparr>) = hear D event H"
  by (cases event rule: message_chunk.cases) (auto simp: hear_def updated_call_def Let_def split: sum.split)

lemma observe_heard:
  assumes D: "sdk_laws D" and L: "live S inv spec T (s, R)" and H: "tells H R"
    and run: "recorder_observe D S event (s, R) = (Ok u, (s', R'))"
  shows "hears event (hear D event H) R'"
proof (cases "message_chunk event")
  case True
  then show ?thesis
    using observe_event_heard [OF D L H, where event = event] run liveD(2) [OF L]
    by (simp add: recorder_observe_def and_then_Ok)
next
  case False
  let ?Q = "R\<lparr>rec_anonymous := None\<rparr>"
  have "live S inv spec T (s, ?Q)" by (rule live_set_anonymous [OF L]) simp
  from observe_event_heard [OF D this tells_quiet [OF H], where event = event] False run liveD(2) [OF L] show ?thesis
    by (simp add: recorder_observe_def and_then_Ok on_recorder_def hear_quiet)
qed

subsection \<open>Starts and sequences\<close>

text \<open>Nothing is said before the dispatch.\<close>

lemma live_heard:
  fixes m :: "('x, 'n, 'v, 's) recording"
  assumes "triple (live S inv spec T) m (\<lambda>_. live S inv spec T) E"
    and "\<And>s R u s' R'. live S inv spec T (s, R) \<Longrightarrow> tells H R \<Longrightarrow> m (s, R) = (Ok u, (s', R')) \<Longrightarrow> tells H R'"
  shows "triple (\<lambda>st. live S inv spec T st \<and> tells H (snd st)) m (\<lambda>_ st. live S inv spec T st \<and> tells H (snd st)) E"
  unfolding triple_def
proof (intro allI impI)
  fix st :: "'s \<times> ('n, 'v) recorder"
  assume st: "live S inv spec T st \<and> tells H (snd st)"
  obtain s R where "st = (s, R)" by force
  moreover obtain x s' R' where "m st = (x, (s', R'))" by (metis prod.exhaust)
  ultimately show "case m st of (Ok x, t) \<Rightarrow> live S inv spec T t \<and> tells H (snd t) | (Err e, t) \<Rightarrow> E t | (Panic, t) \<Rightarrow> False"
    using tripleD [OF assms(1)] assms(2) st by (cases x) force+
qed

lemma host_evidence_heard:
  "triple (\<lambda>st. live S inv spec T st \<and> tells H (snd st)) (host_evidence S name data)
     (\<lambda>_ st. live S inv spec T st \<and> tells H (snd st)) (sound S inv spec)"
  by (rule live_heard [OF host_evidence_live]) (rule evidence_heard [OF live_sound])

lemma first_records_heard:
  "triple (\<lambda>st. live S inv spec T st \<and> tells H (snd st))
     (and_then (execution_evidence D S state) (\<lambda>_. recorder_insert S (PMessage User m) actor None None Complete))
     (\<lambda>_ st. live S inv spec T st \<and> tells H (snd st)) (sound S inv spec)"
proof (rule live_heard [OF first_records_live])
  fix s R u s' R'
  assume L: "live S inv spec T (s, R)" and H: "tells H R"
    and "and_then (execution_evidence D S state) (\<lambda>_. recorder_insert S (PMessage User m) actor None None Complete) (s, R) =
      (Ok u, (s', R'))"
  then obtain x s1 R1 where ev: "host_evidence S ''run_dispatch'' (versioned_state (sdk_json D) 1 state []) (s, R) = (Ok x, (s1, R1))"
      and ins: "recorder_insert S (PMessage User m) actor None None Complete (s1, R1) = (Ok u, (s', R'))"
    by (auto simp: and_then_Ok execution_evidence_def)
  have "live S inv spec T (s1, R1) \<and> tells H R1" using triple_Ok [OF host_evidence_heard _ ev] L H by simp
  then have "sound S inv spec (s1, R1)" "tells H R1" using live_sound by blast+
  from insert_other_heard [OF this(1) _ this(2) ins] show "tells H R'" by (simp add: provider_payload_def)
qed

lemma report_steps_heard:
  "triple (\<lambda>st. live S inv spec T st \<and> tells H (snd st)) (report_steps D S report)
     (\<lambda>_ st. live S inv spec T st \<and> tells H (snd st)) (sound S inv spec)"
  unfolding report_steps_def recorder_restoration_def execution_evidence_def
proof (rule triple_and_then [OF _ host_evidence_heard])
  show "triple (\<lambda>st. live S inv spec T st \<and> tells H (snd st))
      (case report of None \<Rightarrow> give () | Some r \<Rightarrow> host_evidence S ''restoration'' r)
      (\<lambda>_ st. live S inv spec T st \<and> tells H (snd st)) (sound S inv spec)"
    by (cases report) (auto intro: triple_basic(1) host_evidence_heard)
qed

end

definition hearing :: "('n, 'v) sdk \<Rightarrow> ('n, 'v) acp_log list \<Rightarrow> ('n, 'v) heard" where
  "hearing D es = fold (hear D) (concat (map events_of es)) heard_nothing"

lemma hearing_append: "hearing D (es @ [e]) = fold (hear D) (events_of e) (hearing D es)"
  by (simp add: hearing_def)

lemma hearing_transcript: "hd_said (hearing D es) = transcript D (concat (map events_of es))"
  by (simp add: hearing_def transcript_def)

text \<open>Along a sequence: the transcript so far, and at the end the closed one.\<close>

definition recorded_so_far :: "('n, 'v) sdk \<Rightarrow> ('n, 'v) acp_log list \<Rightarrow> ('n, 'v) recorder \<Rightarrow> bool" where
  "recorded_so_far D es R \<longleftrightarrow>
     (if rec_finished R
      then \<forall>reason. finished_with reason es \<longrightarrow> told (reason = StopEndTurn \<or> reason = StopRefusal) (hearing D es) R
      else tells (hearing D es) R)"

lemma so_far_quiet:
  assumes "recorded_so_far D es R" and "events_of e = []"
  shows "recorded_so_far D (es @ [e]) R"
proof -
  have "\<not> e = NextGot (Ok (Some (Finished reason)))" for reason using assms(2) by auto
  then show ?thesis using assms by (simp add: recorded_so_far_def hearing_append)
qed

lemma so_far_work:
  assumes "recorded_so_far D es R" and "work R' = work R" and "rec_tools R' = rec_tools R"
    and "rec_anonymous R' = rec_anonymous R" and "rec_finished R' = rec_finished R"
  shows "recorded_so_far D es R'"
  using assms(1) tells_cong [OF assms(2-4)] told_cong [OF _ assms(2)] assms(5) by (auto simp: recorded_so_far_def)

lemma so_far_other:
  assumes "recorded_so_far D es R" and "\<not> provided (entry_of w)"
  shows "recorded_so_far D es (add_record R w)"
  using assms tells_add_other [of "hearing D es" R "add_record R w" "entry_of w"]
    told_other [of _ "hearing D es" R "add_record R w" "entry_of w"] by (auto simp: recorded_so_far_def)

context record_store begin

lemma start_heard:
  assumes "start_recorded_with_report D S V i prompt actors report sess s0 = (Ok r, s, sess')"
    and "\<And>spec. acp_run_spec i sess = Ok spec \<Longrightarrow> prepares spec s0"
  shows "tells heard_nothing (rr_recorder r)"
proof (rule start_with_report_run [OF assms(1)])
  fix spec
  assume spec: "acp_run_spec i sess = Ok spec" and run: "record_and_launch D S V spec prompt actors
      (report_steps D S report) prompt [TextPrompt prompt] sess s0 = (Ok r, s, sess')"
  show ?thesis
  proof (rule record_and_launch_run [OF run])
    fix R s1 u
    assume new: "recorder_new D S spec prompt actors s0 = (Ok R, s1)"
      and st: "report_steps D S report (s1, R) = (Ok u, (s, rr_recorder r))"
    show ?thesis
    proof (rule recorder_new_run [OF new assms(2) [OF spec]])
      fix s2 x
      assume s2: "unused spec s2" and first: "and_then (execution_evidence D S ''prepared'') (\<lambda>_.
          recorder_insert S (PMessage User \<lparr>msg_content = [Text prompt]\<rparr>) (ra_user actors) None None Complete)
          (s2, recorder_start spec actors) = (Ok x, (s1, R))"
      have "live S inv spec no_texts (s1, R) \<and> tells heard_nothing (snd (s1, R))"
        by (rule triple_Ok [OF first_records_heard _ first]) (simp add: recorder_start_live [OF s2] tells_start)
      from triple_Ok [OF report_steps_heard this st] show ?thesis by simp
    qed
  qed
qed

lemma so_far_next:
  assumes D: "sdk_laws D" and H: "healthy spec ord D a0 es s r" and T: "recorded_so_far D es (rr_recorder r)"
    and run: "recorded_next D S ord link sent closed (s, r) = (Some (Ok x), s', r')"
  shows "recorded_so_far D (es @ [NextGot (Ok x)]) (rr_recorder r')"
proof (cases x)
  case None
  have "rr_recorder r' = rr_recorder r"
    using run None H by (auto simp: recorded_next_def healthy_def split: prod.splits result.splits option.splits)
  then show ?thesis using so_far_quiet [OF T, of "NextGot (Ok None)"] None by simp
next
  case (Some event)
  have ok: "\<not> rr_failed r" using H by (simp add: healthy_def)
  obtain inner where nxt: "acp_next ord link closed (rr_inner r) = (Some (Ok (Some event)), inner)"
    using run ok Some by (auto simp: recorded_next_def split: prod.splits result.splits option.splits)
  then have unsettled: "\<not> ar_settled (rr_inner r)" by (auto simp: acp_next_def)
  then have fin: "\<not> rec_finished (rr_recorder r)" and L: "live S inv spec (update_text (consumed es)) (s, rr_recorder r)"
      and none: "\<And>reason. \<not> finished_with reason es"
    using H by (auto simp: healthy_def split: if_splits)
  obtain u R' where obs: "recorder_observe D S event (s, rr_recorder r) = (Ok u, s', R')"
      and r': "rr_recorder r' = R'"
    using run ok Some nxt by (auto simp: recorded_next_def split: prod.splits result.splits)
  have "tells (hearing D es) (rr_recorder r)" using T fin by (simp add: recorded_so_far_def)
  from observe_heard [OF D L this obs] have h: "hears event (hearing D (es @ [NextGot (Ok x)])) R'"
    by (simp add: hearing_append Some)
  have seen: "observed spec (update_text (consumed es)) event (s', R')" by (rule triple_Ok [OF observe_live [OF D] L obs])
  show ?thesis
  proof (cases "\<exists>reason. event = Finished reason")
    case True
    then show ?thesis using h seen none r' Some by (auto simp: hears_def recorded_so_far_def observed_def over_def)
  next
    case False
    then have "tells (hearing D (es @ [NextGot (Ok x)])) R'" using h by (cases event) (simp_all add: hears_def)
    moreover have "\<not> rec_finished R'" using seen False by (auto simp: observed_def live_def)
    ultimately show ?thesis using r' by (simp add: recorded_so_far_def)
  qed
qed

lemma trace_so_far:
  assumes "recorded_trace D S ord s0 r0 es s r" and start: "launched D spec s0 r0" and D: "sdk_laws D"
    and ord: "drain_order ord" and first: "tells heard_nothing (rr_recorder r0)"
  shows "recorded_so_far D es (rr_recorder r)"
  using assms(1)
proof (induction rule: recorded_trace.induct)
  case rec_start
  show ?case using start first by (simp add: recorded_so_far_def launched_def live_def hearing_def)
next
  case (rec_next es s r link sent closed x s' r')
  show ?case by (rule so_far_next [OF D trace_healthy [OF rec_next.hyps(1) start D ord] rec_next.IH rec_next.hyps(2)])
next
  case (rec_respond es s r link i opt x s' r')
  note H = healthy_sound [OF trace_healthy [OF rec_respond.hyps(1) start D ord]]
  have quiet: "recorded_so_far D (es @ respond_log i opt r r') (rr_recorder r')" if "recorded_so_far D es (rr_recorder r')"
    using that so_far_quiet [OF that, of "Decided i opt"] by (simp add: respond_log_def)
  show ?case
    using H [THEN conjunct1] H [THEN conjunct2] rec_respond.hyps(2)
  proof (cases rule: respond_cases)
    case (refused e)
    then show ?thesis using quiet rec_respond.IH by simp
  next
    case (answered n w y inner title options)
    have "\<not> provided (entry_of w)"
      using answered(7) by (simp add: made_def entry_of_def dispatch_payload_def provider_payload_def)
    with so_far_other [OF rec_respond.IH] quiet answered(5) show ?thesis by simp
  qed
next
  case (rec_cancel es s r link sent)
  have "rr_recorder (snd (recorded_cancel ord link sent r)) = rr_recorder r"
    by (simp add: recorded_cancel_def split: prod.split)
  then show ?case using so_far_quiet [OF rec_cancel.IH] by simp
next
  case (rec_checkpoint es s r link sent u s' r')
  obtain R' where run: "recorder_checkpoint S (s, rr_recorder r) = (Ok u, s', R')" "r' = r\<lparr>rr_recorder := R'\<rparr>"
    using rec_checkpoint by (auto simp: recorded_checkpoint_def split: if_splits prod.splits result.splits)
  have snd: "sound S inv spec (s, rr_recorder r)"
    using healthy_sound [OF trace_healthy [OF rec_checkpoint.hyps(1) start D ord]] by blast
  have "rec_finished R' = rec_finished (rr_recorder r)"
    using run(1) by (auto simp: recorder_checkpoint_def split: prod.splits)
  with so_far_work [OF rec_checkpoint.IH checkpoint_work [OF snd run(1)]] show ?case by (simp add: run(2))
qed (simp_all add: so_far_quiet)

text \<open>An interrupted run.\<close>

lemma interrupt_told:
  assumes snd: "sound S inv spec (s, R)" and T: "tells H R" and "\<not> rec_finished R"
    and run: "recorder_interrupt D S msg (s, R) = (Ok u, (s', R'))"
  shows "told False H R'"
proof -
  obtain s1 R1 s2 R2 n where
    ev: "(if rec_input_receipt R \<and> \<not> rec_input_response R
        then input_evidence S (versioned_state (sdk_json D) (rec_input_version R) ''unknown'' []) else give ()) (s, R) =
        (Ok (), (s1, R1))"
    and ins: "recorder_insert S (PFailure msg) (ra_host (rec_actors R)) None None Complete (s1, R1) = (Ok n, (s2, R2))"
    and fin: "recorder_finish S False (s2, R2) = (Ok u, (s', R'))"
    using run assms(3) by (auto simp: recorder_interrupt_def and_then_Ok [of "if _ then _ else _"]
        and_then_Ok [of "recorder_insert _ _ _ _ _ _"])
  have R1: "sound S inv spec (s1, R1) \<and> tells H R1"
  proof (cases "rec_input_receipt R \<and> \<not> rec_input_response R")
    case True
    then have Q: "host_evidence S ''input_receipt'' (versioned_state (sdk_json D) (rec_input_version R) ''unknown'' []) (s, R) =
        (Ok (), (s1, R1))" using ev by (simp add: input_evidence_def)
    have "sound S inv spec (s1, R1) \<and> True"
      using triple_Ok [OF evidence_lasting [OF lasting_True] _ Q] snd by simp
    then show ?thesis using evidence_heard [OF snd T Q] by simp
  next
    case False
    have "(s1, R1) = (s, R)" using ev unfolding if_not_P [OF False] by simp
    then show ?thesis using T snd by simp
  qed
  then have R1: "sound S inv spec (s1, R1)" "tells H R1" by simp_all
  have "sound S inv spec (s2, R2)" by (rule insert_step [OF R1(1) _ ins]) simp_all
  moreover have "tells H R2"
    by (rule insert_other_heard [OF R1(1) _ R1(2) ins]) (simp_all add: provider_payload_def)
  ultimately show ?thesis using finish_told [OF _ _ fin] by blast
qed

end

end
