(* ===== verification/Recorder_Memory.thy ===== *)
theory Recorder_Memory imports Recorder_Transcript Memory_Contracts begin

section \<open>The recorder on the in-memory store\<close>

text \<open>
  On the in-memory store of a registered run an interruption succeeds: the store has no reason
  to refuse what it writes, as long as sequences and revisions are not used up. \<open>registered\<close> is
  the store's invariant with the run in it; the contract holds for it as well.
\<close>

subsection \<open>The run is registered\<close>

definition registered :: "run_configuration run_spec \<Rightarrow> 'v memory_state \<Rightarrow> bool" where
  "registered spec s \<longleftrightarrow> ms_inv s \<and> ms_runs s (rs_id spec) = Some spec"

lemma registered_inv: "registered spec s \<Longrightarrow> ms_inv s"
  by (simp add: registered_def)

lemma memory_runs_kept:
  "ms_runs s i = Some spec \<Longrightarrow> ms_runs (store_exec memory_store oper s) i = Some spec"
  by (auto simp: store_exec_def memory_store_sel memory_create_session_def memory_register_run_def memory_insert_def
      memory_checkpoint_def memory_resolve_def with_lock_def commit_ok_def commit_def Let_def
      split: store_op.splits option.splits result.splits prod.splits if_splits)

lemma registered_exec: "registered spec s \<Longrightarrow> registered spec (store_exec memory_store oper s)"
  by (auto simp: registered_def intro: ms_inv_exec memory_runs_kept)

lemma registered_session:
  assumes "registered spec s"
  shows "\<exists>ids. ms_sessions s (rs_session spec) = Some ids"
  using assms by (auto simp: registered_def ms_inv_def core_inv_def runs_ok_def)

interpretation reg: record_store memory_store "registered spec" for spec
  by (unfold_locales; (rule registered_exec, assumption)?; (drule registered_inv)?)
    (fact mem.get_create mem.get_register | rule mem.insert_known mem.insert_frame mem.insert_Ok mem.insert_fresh mem.insert_Err
      mem.checkpoint_Ok mem.checkpoint_frame mem.checkpoint_Err mem.resolve_known mem.resolve_request_read
      mem.resolve_frame mem.resolve_Ok mem.resolve_Err mem.no_panic; assumption)+

lemma memory_register_new:
  assumes "memory_register_run spec s = (Ok True, s')" and "ms_inv s"
  shows "registered spec s'"
proof -
  have "ms_inv s'" using ms_inv_register_run [OF assms(2), of spec] assms(1) by simp
  moreover have "ms_runs s' (rs_id spec) = Some spec"
    using assms(1) by (auto simp: memory_register_run_def with_lock_def split: option.splits result.splits if_splits)
  ultimately show ?thesis by (simp add: registered_def)
qed

lemma registered_prepares:
  assumes "mem.unused spec s"
  shows "reg.prepares spec spec s"
  unfolding reg.prepares_def
proof (intro allI impI)
  fix u s1 s2
  assume create: "op_create_session memory_store (rs_session spec) s = (Ok u, s1)"
    and reg: "op_register_run memory_store spec s1 = (Ok True, s2)"
  have "mem.unused spec s2" by (rule mem.unused_registered [OF create reg assms])
  moreover have "ms_inv s1"
    using ms_inv_create_session [of s "rs_session spec"] assms create by (simp add: mem.unused_def memory_store_sel)
  then have "registered spec s2" using memory_register_new reg by (simp add: memory_store_sel)
  ultimately show "reg.unused spec spec s2" by (simp add: mem.unused_def reg.unused_def)
qed

subsection \<open>The store accepts\<close>

lemma memory_missing: "memory_get i s = Err MissingRecord \<Longrightarrow> \<not> ms_poisoned s \<and> ms_records s i = None"
  by (auto simp: memory_get_def read_lock_def ok_or_def split: if_splits option.splits)

lemma memory_insert_accepted:
  assumes "registered spec s" and "memory_get (d_id d) s = Err MissingRecord"
    and "d_session d = rs_session spec" "d_run d = Some (rs_id spec)" "d_reply d = None"
    and "\<not> is_request (d_payload d)" "\<not> is_response (d_payload d)"
    and "ms_sessions s (rs_session spec) = Some ids" "length ids < 2 ^ 64"
  shows "\<exists>q. memory_insert d s = (Ok (snapshot_of d q), appended (snapshot_of d q) ids s)"
proof -
  obtain q where q: "u64_of_usize (length ids) = Some q" using assms(9) by (simp add: u64_of_usize_def)
  have "payload_ok (d_payload d) (d_state d)"
    using assms(6,7) by (cases "d_payload d") (simp_all add: payload_ok_def is_request_def is_response_def)
  then have "prepare s d = Ok (snapshot_of d q)"
    using assms q by (simp add: prepare_Ok_iff registered_def)
  then show ?thesis
    using assms memory_missing [OF assms(2)] by (auto simp: memory_insert_def with_lock_def commit_ok_appended)
qed

definition room :: "nat \<Rightarrow> 'v memory_state \<Rightarrow> bool" where
  "room k s \<longleftrightarrow> (\<forall>j ids. ms_sessions s j = Some ids \<longrightarrow> length ids + k \<le> 2 ^ 64)"

definition unexhausted :: "('n, 'v) recorder \<Rightarrow> bool" where
  "unexhausted R \<longleftrightarrow> (\<forall>w \<in> set (rec_records R). sn_revision (wk_stored w) \<noteq> u64_max)"

lemma room_weaken:
  assumes "room (Suc k) s"
  shows "room k s"
  unfolding room_def
proof (intro allI impI)
  fix j ids
  assume "ms_sessions s j = Some ids"
  with assms have "length ids + Suc k \<le> 2 ^ 64" unfolding room_def by blast
  then show "length ids + k \<le> 2 ^ 64" by linarith
qed

lemma recorder_insert_accepted:
  assumes snd: "sound memory_store (registered spec) spec (s, R)" and room: "room (Suc k) s" and un: "unexhausted R"
    and p: "\<not> is_request p" "\<not> is_response p"
  shows "\<exists>w s'. recorder_insert memory_store p actor None source Complete (s, R) =
      (Ok (length (rec_records R)), (s', add_record R w)) \<and> room k s' \<and> unexhausted (add_record R w)"
proof -
  let ?d = "\<lparr>d_id = own_id spec (length (rec_records R)), d_session = rs_session spec, d_run = Some (rs_id spec),
      d_actor = actor, d_reply = None, d_source = source, d_payload = p, d_state = Complete\<rparr>"
  have R: "registered spec s" "rec_spec R = spec" "memory_get (d_id ?d) s = Err MissingRecord"
    using snd by (auto simp: sound_def memory_store_sel)
  obtain ids where ids: "ms_sessions s (rs_session spec) = Some ids" using registered_session [OF R(1)] by blast
  have "length ids + Suc k \<le> 2 ^ 64" using room ids unfolding room_def by blast
  then have len: "length ids < 2 ^ 64" "Suc (length ids + k) \<le> 2 ^ 64" by linarith+
  obtain q where ins: "memory_insert ?d s = (Ok (snapshot_of ?d q), appended (snapshot_of ?d q) ids s)"
    using memory_insert_accepted [OF R(1,3) _ _ _ _ _ ids len(1)] p by auto
  let ?w = "\<lparr>wk_stored = snapshot_of ?d q, wk_payload = p, wk_dirty = False\<rparr>"
  have "recorder_insert memory_store p actor None source Complete (s, R) =
      (Ok (length (rec_records R)), (appended (snapshot_of ?d q) ids s, add_record R ?w))"
    using ins R(2)
    by (simp add: recorder_insert_def recorder_draft_Ok and_then_def on_store_def on_recorder_def memory_store_sel)
  moreover have "room k (appended (snapshot_of ?d q) ids s)"
    using room_weaken [OF room] len(2) by (simp add: room_def appended_def)
  moreover have "unexhausted (add_record R ?w)" using un by (auto simp: unexhausted_def)
  ultimately show ?thesis by blast
qed

text \<open>An open record can be interrupted.\<close>

lemma rules_accept:
  assumes e: "entry_ok i en" and w: "en_current en = wk_stored w" "same_shape (r_payload (sn_record (wk_stored w))) (wk_payload w)"
    and "sn_state (wk_stored w) = Open" and "sn_revision (wk_stored w) \<noteq> u64_max"
  shows "\<exists>x. rules_checkpoint (wk_stored w) (sn_revision (wk_stored w)) (wk_payload w)
    (if record_complete False (wk_payload w) then Complete else Interrupted) = Ok x"
proof -
  let ?p = "wk_payload w" and ?q = "r_payload (sn_record (wk_stored w))"
  let ?next = "if record_complete False ?p then Complete else Interrupted"
  have ok: "payload_ok ?q Open" using e w(1) assms(4) by (simp add: entry_ok_def)
  have "\<not> is_response ?q" using ok by (auto simp: payload_ok_def)
  then have resp: "\<not> is_response ?p" using payload_tag_is_response [of ?q ?p] w(2) by (simp add: same_shape_def)
  have req: "is_request ?p \<Longrightarrow> ?p = ?q \<and> ?next = Interrupted"
    using w(2) by (cases ?p) (auto simp: same_shape_def is_request_def record_complete_def)
  have "payload_ok ?p ?next"
  proof (cases "is_request ?p")
    case True
    then show ?thesis using req ok resp by (cases ?p) (auto simp: payload_ok_def)
  next
    case False
    then show ?thesis using resp by (cases ?p) (auto simp: payload_ok_def is_request_def)
  qed
  then have "validate ?p ?next = Ok ()" by (simp add: validate_Ok_iff)
  moreover have "payload_tag ?q = payload_tag ?p" "\<not> message_kind_changes ?q ?p" using w(2) by (simp_all add: same_shape_def)
  ultimately show ?thesis
    using assms(4,5) req
    by (auto simp: rules_checkpoint_def is_final_def bump_revision_def checked_add_1)
qed

lemma checkpoint_accepted:
  assumes "registered spec s" and w: "working_ok memory_store s i w"
    and "\<not> is_final (sn_state (wk_stored w))" and "sn_revision (wk_stored w) \<noteq> u64_max"
  shows "\<exists>x s'. op_checkpoint memory_store (r_id (sn_record (wk_stored w))) (sn_revision (wk_stored w)) (wk_payload w)
    (if record_complete False (wk_payload w) then Complete else Interrupted) s = (Ok x, s')"
proof -
  have get: "memory_get i s = Ok (wk_stored w)" and i: "r_id (sn_record (wk_stored w)) = i"
    and shape: "same_shape (r_payload (sn_record (wk_stored w))) (wk_payload w)"
    using w by (simp_all add: working_ok_def memory_store_sel)
  from get obtain en where en: "\<not> ms_poisoned s" "ms_records s i = Some en" "en_current en = wk_stored w"
    by (auto simp: memory_get_def read_lock_def ok_or_def split: if_splits option.splits)
  have "entry_ok i en" by (rule ms_inv_entry [OF registered_inv [OF assms(1)] en(2)])
  from rules_accept [OF this en(3) shape _ assms(4)] assms(3) en i show ?thesis
    by (auto simp: memory_store_sel memory_checkpoint_def with_lock_def is_final_def)
qed

lemma finish_accepted:
  assumes "registered spec s" and "list_all2 (working_ok memory_store s) is ws" and "distinct is"
    and "\<forall>w \<in> set ws. sn_revision (wk_stored w) \<noteq> u64_max"
  shows "fst (finish_records memory_store False ws s) = Ok ()"
  using assms
proof (induction ws arbitrary: s "is")
  case (Cons w ws)
  then obtain i js where "is": "is = i # js" and w: "working_ok memory_store s i w"
      and ws: "list_all2 (working_ok memory_store s) js ws" and d: "distinct (i # js)"
    by (cases "is") auto
  show ?case
  proof (cases "is_final (sn_state (wk_stored w))")
    case True
    then show ?thesis
      using Cons.IH [OF Cons.prems(1) ws] d Cons.prems(4) by (cases "finish_records memory_store False ws s") simp
  next
    case False
    obtain x s1 where cp: "op_checkpoint memory_store (r_id (sn_record (wk_stored w))) (sn_revision (wk_stored w))
        (wk_payload w) (if record_complete False (wk_payload w) then Complete else Interrupted) s = (Ok x, s1)"
      using checkpoint_accepted [OF Cons.prems(1) w False] Cons.prems(4) by auto
    show ?thesis
      using Cons.prems(1) w cp
    proof (cases rule: reg.working_step)
      case (ok stored)
      have "list_all2 (working_ok memory_store s1) js ws" by (rule reg.rest_ok [OF ws]) (use d ok(4) in auto)
      from Cons.IH [OF ok(2) this] d Cons.prems(4) show ?thesis
        using cp False by (cases "finish_records memory_store False ws s1") simp
    next
      case (err e)
      then show ?thesis by simp
    qed
  qed
qed simp

lemma plain_payloads:
  "\<not> is_request (PExtension namespace name v)" "\<not> is_response (PExtension namespace name v)"
  "\<not> is_request (PFailure msg)" "\<not> is_response (PFailure msg)"
  by (simp_all add: is_request_def is_response_def)

lemma interrupt_accepted:
  assumes snd: "sound memory_store (registered spec) spec (s, R)" and room: "room 2 s" and un: "unexhausted R"
  shows "\<exists>st. recorder_interrupt D memory_store msg (s, R) = (Ok (), st)"
proof (cases "rec_finished R")
  case True
  then show ?thesis by (simp add: recorder_interrupt_def)
next
  case False
  have evidence: "\<exists>s1 R1. (if rec_input_receipt R \<and> \<not> rec_input_response R
      then input_evidence memory_store (versioned_state (sdk_json D) (rec_input_version R) ''unknown'' []) else give ()) (s, R) =
      (Ok (), (s1, R1)) \<and> sound memory_store (registered spec) spec (s1, R1) \<and> room 1 s1 \<and> unexhausted R1"
  proof (cases "rec_input_receipt R \<and> \<not> rec_input_response R")
    case True
    have "room (Suc 1) s" using room by (simp add: numeral_2_eq_2)
    note insert = recorder_insert_accepted [OF snd this un plain_payloads(1,2)]
    obtain w s1 where ins: "recorder_insert memory_store (PExtension ''agent_bridge'' ''input_receipt''
        (versioned_state (sdk_json D) (rec_input_version R) ''unknown'' [])) (ra_host (rec_actors R)) None None Complete (s, R) =
        (Ok (length (rec_records R)), (s1, add_record R w))" "room 1 s1" "unexhausted (add_record R w)"
      using insert by metis
    have "sound memory_store (registered spec) spec (s1, add_record R w)"
      by (rule reg.insert_step [OF snd _ ins(1)]) simp_all
    then show ?thesis using True ins by (simp add: input_evidence_def host_evidence_def and_then_def)
  next
    case no: False
    moreover have "room 1 s" by (rule room_weaken) (use room in \<open>simp add: numeral_2_eq_2\<close>)
    ultimately show ?thesis using snd un by auto
  qed
  then obtain s1 R1 where ev: "(if rec_input_receipt R \<and> \<not> rec_input_response R
      then input_evidence memory_store (versioned_state (sdk_json D) (rec_input_version R) ''unknown'' []) else give ()) (s, R) =
      (Ok (), (s1, R1))" and R1: "sound memory_store (registered spec) spec (s1, R1)" "room 1 s1" "unexhausted R1"
    by blast
  obtain w s2 where ins: "recorder_insert memory_store (PFailure msg) (ra_host (rec_actors R)) None None Complete (s1, R1) =
      (Ok (length (rec_records R1)), (s2, add_record R1 w))" "unexhausted (add_record R1 w)"
    using recorder_insert_accepted [OF R1(1) R1(2) [unfolded One_nat_def] R1(3) plain_payloads(3,4)] by metis
  let ?R = "add_record R1 w"
  let ?is = "map (own_id spec) [0..<length (rec_records ?R)]"
  have "sound memory_store (registered spec) spec (s2, ?R)"
    by (rule reg.insert_step [OF R1(1) _ ins(1)]) simp_all
  then have "registered spec s2" "list_all2 (working_ok memory_store s2) ?is (rec_records ?R)" "distinct ?is"
    by (auto simp: reg.sound_matched distinct_map inj_on_def)
  from finish_accepted [OF this] ins(2) have "fst (finish_records memory_store False (rec_records ?R) s2) = Ok ()"
    by (simp only: unexhausted_def)
  then show ?thesis
    using False ev ins(1)
    by (auto simp: recorder_interrupt_def and_then_def recorder_finish_def on_recorder_def split: prod.split)
qed

end
