(* ===== verification/Recorded_Props.thy ===== *)
theory Recorded_Props imports Recorded_Sample Recorder_Memory begin

section \<open>Recorded runs on the in-memory store\<close>

text \<open>
  The lemmas of the recorder, proved for every record store, at the interpretation \<open>mem\<close>.
  A sample run, started on an empty store and consumed to its end, shows that the
  hypotheses can hold.
\<close>

subsection \<open>What the invariants say of the store\<close>

definition stored_message ::
  "run_id \<Rightarrow> 'v memory_state \<Rightarrow> message_kind \<Rightarrow> string \<Rightarrow> string \<Rightarrow> nat \<Rightarrow> bool" where
  "stored_message i s kind m t n \<longleftrightarrow>
     (\<exists>x. memory_get (record_ident i n) s = Ok x \<and> is_final (sn_state x) \<and>
        r_payload (sn_record x) = PMessage kind \<lparr>msg_content = [Text t]\<rparr> \<and> sn_source x = Some (acp_source m))"

definition stored_once ::
  "run_id \<Rightarrow> 'v memory_state \<Rightarrow> message_kind \<Rightarrow> string \<Rightarrow> string \<Rightarrow> bool" where
  "stored_once i s kind m t \<longleftrightarrow>
     (\<exists>n. stored_message i s kind m t n \<and>
       (\<forall>n' x c. memory_get (record_ident i n') s = Ok x \<longrightarrow> r_payload (sn_record x) = PMessage kind c \<longrightarrow>
          sn_source x = Some (acp_source m) \<longrightarrow> n' = n))"

text \<open>No record of the run is open; the failure is among them.\<close>

definition sealed :: "run_id \<Rightarrow> 'v memory_state \<Rightarrow> bool" where
  "sealed i s \<longleftrightarrow> (\<forall>n x. memory_get (record_ident i n) s = Ok x \<longrightarrow> is_final (sn_state x))"

definition stored_failure :: "run_id \<Rightarrow> 'v memory_state \<Rightarrow> string \<Rightarrow> bool" where
  "stored_failure i s msg \<longleftrightarrow>
     (\<exists>n x. memory_get (record_ident i n) s = Ok x \<and> is_final (sn_state x) \<and> r_payload (sn_record x) = PFailure msg)"

text \<open>The records of the run, in the order of their identifiers; \<open>W\<close> is what the provider said among them.\<close>

definition stored_entry :: "'v snapshot \<Rightarrow> 'v entry_view" where
  "stored_entry x = (r_payload (sn_record x), sn_source x, sn_state x)"

definition stored_transcript :: "run_id \<Rightarrow> 'v memory_state \<Rightarrow> 'v entry_view list \<Rightarrow> bool" where
  "stored_transcript i s W \<longleftrightarrow>
     (\<exists>xs. (\<forall>n x. memory_get (record_ident i n) s = Ok x \<longleftrightarrow> n < length xs \<and> x = xs ! n) \<and>
       filter provided (map stored_entry xs) = W)"

text \<open>The transcript of a sequence, as it is stored at the end.\<close>

definition final_transcript :: "bool \<Rightarrow> ('n, 'v) sdk \<Rightarrow> ('n, 'v) acp_log list \<Rightarrow> 'v entry_view list" where
  "final_transcript complete D es =
     map (\<lambda>x. closed_entry complete (said_entry x)) (transcript D (concat (map events_of es)))"

lemma over_get:
  assumes snd: "sound memory_store keep spec (s, R)" and fin: "rec_finished R" and i: "rs_id spec = i"
  shows "memory_get (record_ident i n) s = Ok x \<longleftrightarrow> n < length (rec_records R) \<and> x = wk_stored (rec_records R ! n)"
    and "n < length (rec_records R) \<Longrightarrow> is_final (sn_state (wk_stored (rec_records R ! n))) \<and>
      r_payload (sn_record (wk_stored (rec_records R ! n))) = wk_payload (rec_records R ! n)"
proof -
  show "memory_get (record_ident i n) s = Ok x \<longleftrightarrow> n < length (rec_records R) \<and> x = wk_stored (rec_records R ! n)"
    using snd by (cases "n < length (rec_records R)")
      (auto simp: sound_def working_ok_def record_ident_own [OF i] memory_store_sel)
  show "is_final (sn_state (wk_stored (rec_records R ! n))) \<and>
      r_payload (sn_record (wk_stored (rec_records R ! n))) = wk_payload (rec_records R ! n)"
    if "n < length (rec_records R)"
    using snd fin that by (auto simp: sound_def working_ok_def)
qed

lemma over_sealed:
  assumes "sound memory_store keep spec (s, R)" and "rec_finished R" and "rs_id spec = i"
  shows "sealed i s"
  using over_get [OF assms] by (auto simp: sealed_def)

lemma over_failure:
  assumes "sound memory_store keep spec (s, R)" and "rec_finished R" and "rs_id spec = i" and "failure_in msg R"
  shows "stored_failure i s msg"
  using assms(4) over_get [OF assms(1-3)] by (fastforce simp: stored_failure_def failure_in_def in_set_conv_nth)

lemma over_transcript:
  assumes "sound memory_store keep spec (s, R)" and "rec_finished R" and "rs_id spec = i"
    and "told complete (hearing D es) R"
  shows "stored_transcript i s (final_transcript complete D es)"
  unfolding stored_transcript_def
proof (intro exI conjI)
  let ?xs = "map wk_stored (rec_records R)"
  show "\<forall>n x. memory_get (record_ident i n) s = Ok x \<longleftrightarrow> n < length ?xs \<and> x = ?xs ! n"
    using over_get(1) [OF assms(1-3)] by auto
  have "map stored_entry ?xs = work R"
    using over_get(2) [OF assms(1-3)] by (auto simp: work_def stored_entry_def entry_of_def in_set_conv_nth)
  then show "filter provided (map stored_entry ?xs) = final_transcript complete D es"
    using assms(4) by (simp add: told_def final_transcript_def hearing_transcript)
qed

lemma over_stored:
  assumes snd: "sound memory_store keep spec (s, R)" and fin: "rec_finished R" and i: "rs_id spec = i"
    and C: "contents T R" and T: "T kind m = Some t"
  shows "stored_once i s kind m t"
proof -
  note get = over_get [OF snd fin i]
  from contentsD(2) [OF C T] obtain n where n: "rec_messages R (kind, m) = Some n" "message_slot R n kind (Some m) t"
    by blast
  have "stored_message i s kind m t n"
    using n(2) get [of n] by (auto simp: stored_message_def message_slot_def)
  moreover have "n' = n"
    if x: "memory_get (record_ident i n') s = Ok x" "r_payload (sn_record x) = PMessage kind c"
      "sn_source x = Some (acp_source m)" for n' x c
  proof -
    have "n' < length (rec_records R)" "x = wk_stored (rec_records R ! n')" using get(1) x(1) by blast+
    then show ?thesis using contentsD(3) [OF C, of n' kind c m] get(2) [of n'] n(1) x(2,3) by simp
  qed
  ultimately show ?thesis unfolding stored_once_def by blast
qed

text \<open>A start on a reachable store with the run's identifiers unused.\<close>

definition identifiers_free :: "run_id \<Rightarrow> 'v memory_state \<Rightarrow> bool" where
  "identifiers_free i s \<longleftrightarrow> (\<forall>n. memory_get (record_ident i n) s = Err MissingRecord)"

lemma memory_unused:
  "memory_reachable s \<Longrightarrow> identifiers_free i s \<Longrightarrow> rs_id spec = i \<Longrightarrow> mem.unused spec s"
  using memory_reachable_ms_inv
  by (auto simp: mem.unused_def identifiers_free_def memory_store_sel record_ident_own)

lemma acp_run_spec_id: "acp_run_spec i sess = Ok spec \<Longrightarrow> rs_id spec = i"
  by (auto simp: acp_run_spec_def rbind_eq_Ok)

lemma memory_start:
  assumes "start_recorded_run D memory_store V i prompt actors sess s0 = (Ok r0, s1, sess1)"
    and "memory_reachable s0" and "identifiers_free i s0"
  obtains spec where "rs_id spec = i" "reg.launched spec D spec s1 r0" "tells heard_nothing (rr_recorder r0)"
proof -
  note run = assms(1) [unfolded start_recorded_run_def]
  have prep: "reg.prepares spec spec s0" if "acp_run_spec i sess = Ok spec" for spec
    by (rule registered_prepares [OF memory_unused [OF assms(2,3) acp_run_spec_id [OF that]]])
  obtain spec where spec: "acp_run_spec i sess = Ok spec" by (rule mem.start_with_report_run [OF run])
  have "\<exists>spec'. acp_run_spec i sess = Ok spec' \<and> reg.launched spec D spec' s1 r0"
    by (rule reg.start_with_report_launched [OF run]) (use prep spec in auto)
  moreover have "tells heard_nothing (rr_recorder r0)"
    by (rule reg.start_heard [OF run, of spec]) (use prep spec in auto)
  ultimately show thesis using that [OF acp_run_spec_id [OF spec]] spec by auto
qed

lemma memory_trace:
  assumes "start_recorded_run D memory_store V i prompt actors sess s0 = (Ok r0, s1, sess1)"
    and "memory_reachable s0" and "identifiers_free i s0" and "sdk_laws D" and "drain_order ord"
    and "recorded_trace D memory_store ord s1 r0 es s r"
  obtains spec where "rs_id spec = i" "reg.healthy spec spec ord D (rr_inner r0) es s r" "started (rr_inner r0)"
    "recorded_so_far D es (rr_recorder r)"
proof (rule memory_start [OF assms(1-3)])
  fix spec
  assume spec: "rs_id spec = i" "reg.launched spec D spec s1 r0" "tells heard_nothing (rr_recorder r0)"
  show thesis
    using that [OF spec(1) reg.trace_healthy [OF assms(6) spec(2) assms(4,5)] _
        reg.trace_so_far [OF assms(6) spec(2) assms(4,5) spec(3)]] spec(2)
    by (simp add: reg.launched_def)
qed

subsection \<open>The transcript of a finished run\<close>

text \<open>
  C2: The transcript is complete. A run is started on a reachable store where its record
  identifiers are unused, and provider, consumer and other users of the store act in any
  order. When \<open>next\<close> has returned the end of the run, the provider has answered with that
  reason and every update it sent was seen. The store then holds the run's records, and what
  the provider said among them is the transcript of the events in their order: messages with
  and without identifiers, coalesced, content that is no text, tool calls in their last state,
  other updates; each with its text or data, its provider identifier and its final state,
  which is interrupted only for tools that did not end and for runs that did not end their turn.
  Every message with an identifier is in exactly one record.
\<close>

theorem recorded_transcript_complete:
  assumes "start_recorded_run D memory_store V i prompt actors sess s0 = (Ok r0, s1, sess1)"
    and "memory_reachable s0" and "identifiers_free i s0" and "sdk_laws D" and "drain_order ord"
    and "recorded_trace D memory_store ord s1 r0 es s r"
    and "finished_with reason es"
  shows "response es = Some (Inr reason) \<and> consumed es = received es \<and>
    stored_transcript i s (final_transcript (reason = StopEndTurn \<or> reason = StopRefusal) D es) \<and>
    (\<forall>kind m t. update_text (received es) kind m = Some t \<longrightarrow> stored_once i s kind m t)"
proof -
  obtain spec where spec: "rs_id spec = i" and H: "reg.healthy spec spec ord D (rr_inner r0) es s r"
      and st: "started (rr_inner r0)" and T: "recorded_so_far D es (rr_recorder r)"
    by (rule memory_trace [OF assms(1-6)])
  have "seen_inv es (rr_inner r)"
    using H trace_seen [OF _ st assms(5)] by (auto simp: reg.healthy_def)
  then have seen: "response es = Some (Inr reason)" "consumed es = received es"
    using assms(7) by (auto simp: seen_inv_def)
  have over: "sound memory_store (registered spec) spec (s, rr_recorder r)" "rec_finished (rr_recorder r)"
      "contents (update_text (received es)) (rr_recorder r)"
    using H assms(7) seen by (auto simp: reg.healthy_def over_def split: if_splits)
  then have "told (reason = StopEndTurn \<or> reason = StopRefusal) (hearing D es) (rr_recorder r)"
    using T assms(7) by (simp add: recorded_so_far_def)
  with seen over_transcript [OF over(1,2) spec] over_stored [OF over(1,2) spec over(3)] show ?thesis by blast
qed

lemma sample_transcript:
  "final_transcript True sample_sdk sample_log =
     [(PMessage Agent \<lparr>msg_content = [Text ''Hey'']\<rparr>, Some (acp_source ''m''), Complete)]"
  by (simp add: final_transcript_def transcript_def sample_log_def hear_def sample_update_def hear_chunk_def hear_text_def
      heard_nothing_def closed_entry_def is_final_def record_complete_def)

theorem recorded_transcript_complete_witness:
  "\<exists>s r. recorded_trace sample_sdk memory_store id (sample_mem sample_first) sample_recorded sample_log s r \<and>
    stored_transcript (Ident ''r'') s
      [(PMessage Agent \<lparr>msg_content = [Text ''Hey'']\<rparr>, Some (acp_source ''m''), Complete)] \<and>
    stored_once (Ident ''r'') s Agent ''m'' ''Hey''"
proof -
  obtain s r where tr: "recorded_trace sample_sdk memory_store id (sample_mem sample_first) sample_recorded sample_log s r"
    using sample_recorded_trace by blast
  have free: "identifiers_free (Ident ''r'') memory_default" by (simp add: identifiers_free_def sample_unused)
  have fin: "finished_with StopEndTurn sample_log" by (simp add: finished_with_def sample_log_def)
  have "update_text (received sample_log) Agent ''m'' = Some ''Hey''"
    by (simp add: sample_log_def update_text_def message_text_def chunk_text_def sample_update_def)
  with recorded_transcript_complete [OF sample_start memory_default_reachable free sample_sdk_laws
      sample_drain_order tr fin] tr sample_transcript show ?thesis by auto
qed

subsection \<open>Runs that end early\<close>

text \<open>
  A store in which two more records fit into every session and no revision of the run's
  records is used up. Sequences and revisions are 64-bit numbers that start at zero.
\<close>

definition roomy :: "run_id \<Rightarrow> 'v memory_state \<Rightarrow> bool" where
  "roomy i s \<longleftrightarrow>
     room 2 s \<and> (\<forall>n x. memory_get (record_ident i n) s = Ok x \<longrightarrow> sn_revision x \<noteq> u64_max)"

lemma roomy_unexhausted:
  assumes "sound memory_store keep spec (s, R)" and "rs_id spec = i" and "roomy i s"
  shows "unexhausted R"
  unfolding unexhausted_def
proof
  fix w
  assume "w \<in> set (rec_records R)"
  then obtain n where n: "n < length (rec_records R)" "w = rec_records R ! n" by (auto simp: in_set_conv_nth)
  then have "memory_get (record_ident i n) s = Ok (wk_stored w)"
    using assms(1) by (simp add: sound_def working_ok_def memory_store_sel record_ident_own [OF assms(2)])
  then show "sn_revision (wk_stored w) \<noteq> u64_max" using assms(3) by (auto simp: roomy_def)
qed

text \<open>On such a store a recorder that is interrupted or dropped leaves the run sealed.\<close>

lemma interrupt_seals:
  assumes snd: "sound memory_store (registered spec) spec (s, R)" and i: "rs_id spec = i" and "roomy i s"
    and "\<not> rec_finished R"
    and run: "recorder_interrupt D memory_store msg (s, R) = (x, (s', R'))"
  shows "x = Ok () \<and> sealed i s' \<and> stored_failure i s' msg \<and> sound memory_store (registered spec) spec (s', R') \<and>
    rec_finished R' \<and> (tells (hearing D es) R \<longrightarrow> stored_transcript i s' (final_transcript False D es)) \<and>
    (contents T R \<longrightarrow> contents T R')"
proof -
  have "room 2 s" using assms(3) by (simp add: roomy_def)
  from interrupt_accepted [OF snd this roomy_unexhausted [OF snd i assms(3)], of D msg] run have x: "x = Ok ()" by auto
  note int = run [unfolded x]
  have pre: "sound memory_store (registered spec) spec (s, R) \<and> True \<and> \<not> rec_finished (snd (s, R))"
    using snd assms(4) by simp
  have post: "sound memory_store (registered spec) spec (s', R')" "failure_in msg R'" "rec_finished R'"
    using triple_Ok [OF reg.interrupt_failure [OF lasting_True] pre int] by simp_all
  have "contents T R'" if "contents T R"
  proof -
    have "sound memory_store (registered spec) spec (s, R) \<and> contents T (snd (s, R)) \<and> \<not> rec_finished (snd (s, R))"
      using pre that by simp
    from triple_Ok [OF reg.interrupt_failure [OF lasting_contents] this int] show ?thesis by simp
  qed
  moreover have "stored_transcript i s' (final_transcript False D es)" if "tells (hearing D es) R"
    using over_transcript [OF post(1,3) i reg.interrupt_told [OF snd that assms(4)]] run x by blast
  ultimately show ?thesis
    using x post over_sealed [OF post(1,3) i] over_failure [OF post(1,3) i post(2)] by blast
qed

lemma drop_seals:
  assumes snd: "sound memory_store (registered spec) spec (s, rr_recorder r)" and i: "rs_id spec = i" and "roomy i s"
    and "\<not> rec_finished (rr_recorder r)"
    and run: "recorded_drop D memory_store ord link sent (s, r) = (out, s', R')"
  shows "sealed i s' \<and> stored_failure i s' ended_text \<and>
    (tells (hearing D es) (rr_recorder r) \<longrightarrow> stored_transcript i s' (final_transcript False D es)) \<and>
    (contents T (rr_recorder r) \<longrightarrow> (\<forall>kind m t. T kind m = Some t \<longrightarrow> stored_once i s' kind m t))"
proof -
  obtain x t R where int: "recorder_interrupt D memory_store ended_text (s, rr_recorder r) = (x, (t, R))"
    using prod.exhaust by metis
  have eq: "s' = t" "R' = R" using run assms(4) int by (simp_all add: recorded_drop_def Let_def)
  note post = interrupt_seals [OF snd i assms(3,4) int, of es T]
  then show ?thesis using over_stored [of "registered spec" spec t R i T] i eq by blast
qed

lemma drop_finished:
  "rec_finished (rr_recorder r) \<Longrightarrow> recorded_drop D S ord link sent (s, r) = (out, s', R') \<Longrightarrow>
   s' = s \<and> R' = rr_recorder r"
  by (simp add: recorded_drop_def)

text \<open>
  C18: A run that fails leaves a sealed transcript. After any failure of \<open>next\<close> the handle has
  failed: further calls of \<open>next\<close> and \<open>checkpoint\<close> return \<open>Closed\<close> and leave the store alone. If the
  run reported the error, and the store has room for the failure record, that error is what
  \<open>next\<close> returns; no record of the run is open, the store keeps a failure record with the error's
  text and the transcript of what the consumer saw. If an event could not be recorded, or the
  error not be stored, records may be left open: dropping the handle, on a store with room,
  seals the run and stores that recording ended, unless the error is stored already.
\<close>

theorem recorded_failure_sealed:
  assumes "start_recorded_run D memory_store V i prompt actors sess s0 = (Ok r0, s1, sess1)"
    and "memory_reachable s0" and "identifiers_free i s0" and "sdk_laws D" and "drain_order ord"
    and "recorded_trace D memory_store ord s1 r0 es s r"
    and "recorded_next D memory_store ord link sent closed (s, r) = (Some (Err f), s', r')"
    and "recorded_drop D memory_store ord link' sent' (s', r') = (out, s'', R'')"
  shows "recorded_next D memory_store ord link' sent' closed' (s', r') = (Some (Err RecClosed), s', r') \<and>
    recorded_checkpoint memory_store ord link' sent' (s', r') = (Err RecClosed, s', r') \<and>
    (\<forall>e. fst (acp_next ord link closed (rr_inner r)) = Some (Err e) \<longrightarrow> roomy i s \<longrightarrow>
       f = RecAgent e \<and> sealed i s' \<and> stored_failure i s' (acp_error_text (sdk_store_text D) e) \<and>
       stored_transcript i s' (final_transcript False D es) \<and>
       (\<forall>kind m t. update_text (consumed es) kind m = Some t \<longrightarrow> stored_once i s' kind m t)) \<and>
    (roomy i s' \<longrightarrow> sealed i s'' \<and>
       (stored_failure i s'' ended_text \<or>
        (\<exists>e. fst (acp_next ord link closed (rr_inner r)) = Some (Err e) \<and>
           stored_failure i s'' (acp_error_text (sdk_store_text D) e))))"
proof -
  obtain spec where spec: "rs_id spec = i" and H: "reg.healthy spec spec ord D (rr_inner r0) es s r"
      and T: "recorded_so_far D es (rr_recorder r)"
    by (rule memory_trace [OF assms(1-6)])
  have dropped: "sealed i s'' \<and> stored_failure i s'' ended_text"
    if "sound memory_store (registered spec) spec (s', rr_recorder r')" "\<not> rec_finished (rr_recorder r')" "roomy i s'"
    using drop_seals [OF that(1) spec that(3,2) assms(8)] by blast
  show ?thesis
    using H assms(7)
  proof (cases rule: reg.healthy_next_error)
    case (failed e inner)
    note fails = reg.healthy_fails [OF H failed assms(7)]
    have "\<not> ar_settled (rr_inner r)" using failed by (auto simp: acp_next_def)
    then have L: "live memory_store (registered spec) spec (update_text (consumed es)) (s, rr_recorder r)" and ok: "\<not> rr_failed r"
      using H by (auto simp: reg.healthy_def split: if_splits)
    obtain x t R where int: "recorder_interrupt D memory_store (acp_error_text (sdk_store_text D) e) (s, rr_recorder r) = (x, (t, R))"
      using prod.exhaust by metis
    have eq: "x = Ok () \<Longrightarrow> f = RecAgent e" "s' = t" "rr_recorder r' = R"
      using assms(7) ok failed int by (auto simp: recorded_next_def)
    have told: "tells (hearing D es) (rr_recorder r)" using T liveD(2) [OF L] by (simp add: recorded_so_far_def)
    have "f = RecAgent e \<and> sealed i s' \<and> stored_failure i s' (acp_error_text (sdk_store_text D) e) \<and>
        stored_transcript i s' (final_transcript False D es) \<and>
        (\<forall>kind m t. update_text (consumed es) kind m = Some t \<longrightarrow> stored_once i s' kind m t)" if "roomy i s"
      using interrupt_seals [OF liveD(1) [OF L] spec that liveD(2) [OF L] int, of es "update_text (consumed es)"] told
        liveD(3) [OF L] eq over_stored [of "registered spec" spec t R i "update_text (consumed es)"] spec by auto
    moreover have "sealed i s'' \<and> (stored_failure i s'' ended_text \<or>
        stored_failure i s'' (acp_error_text (sdk_store_text D) e))" if "roomy i s'"
    proof (cases "rec_finished (rr_recorder r')")
      case True
      then have "s'' = s'" using drop_finished [OF _ assms(8)] by blast
      then show ?thesis
        using fails True over_sealed [of "registered spec" spec s' "rr_recorder r'" i] spec
          over_failure [of "registered spec" spec s' "rr_recorder r'" i] by blast
    qed (use dropped fails that in blast)
    ultimately show ?thesis
      using fails failed by (simp add: recorded_next_def recorded_checkpoint_def)
  next
    case (unrecorded event inner)
    from reg.healthy_observe_fails [OF H assms(4) unrecorded assms(7)] dropped unrecorded show ?thesis
      by (simp add: recorded_next_def recorded_checkpoint_def)
  qed
qed

text \<open>The run of the sample, whose provider ends it with an error at once.\<close>

definition sample_failed :: "(nat, tree) recorded_run" where
  "sample_failed = sample_recorded\<lparr>rr_inner := snd (acp_complete id (\<lambda>_. None) (Inl ''boom'') sample_inner)\<rparr>"

lemma sample_failed_trace:
  "recorded_trace sample_sdk memory_store id (sample_mem sample_first) sample_recorded [PromptEnded (Inl ''boom'')]
     (sample_mem sample_first) sample_failed"
proof -
  have "recorded_trace sample_sdk memory_store id (sample_mem sample_first) sample_recorded ([] @ [PromptEnded (Inl ''boom'')])
      (sample_mem sample_first)
      (sample_recorded\<lparr>rr_inner := snd (acp_complete id (\<lambda>_. None) (Inl ''boom'') (rr_inner sample_recorded))\<rparr>)"
    by (rule rec_end [OF rec_start]) (simp add: ended_def)
  then show ?thesis by (simp add: sample_failed_def sample_recorded_def recorded_new_def)
qed

lemma sample_interrupt:
  "recorder_interrupt sample_sdk memory_store msg (sample_mem sample_first, sample_recorder sample_first) =
    (Ok (), sample_mem (sample_first @ [sample_work 3 ''h'' (PFailure msg) None Complete]),
     (sample_recorder (sample_first @ [sample_work 3 ''h'' (PFailure msg) None Complete]))\<lparr>rec_finished := True\<rparr>)"
proof -
  let ?w = "sample_work 3 ''h'' (PFailure msg) None Complete"
  have "recorder_insert memory_store (PFailure msg) (Ident ''h'') None None Complete
      (sample_mem sample_first, sample_recorder sample_first) =
      (Ok 3, sample_mem (sample_first @ [?w]), sample_recorder (sample_first @ [?w]))"
    using sample_recorder_insert [OF sample_first_ids, of "PFailure msg" "''h''" None Complete]
    by (simp add: is_request_def is_response_def sample_first_length)
  moreover have "finish_records memory_store False (sample_first @ [?w]) s = (Ok (), s, sample_first @ [?w])" for s
    by (simp add: sample_first_def sample_evidence_def sample_reply_def is_final_def)
  ultimately show ?thesis
    by (simp add: recorder_interrupt_def and_then_def sample_recorder_def recorder_start_def sample_actors_def
        recorder_finish_def on_recorder_def)
qed

lemma sample_failed_next:
  "fst (acp_next id (\<lambda>_. None) False (rr_inner sample_failed)) = Some (Err (Protocol ''boom''))"
  by (simp add: sample_failed_def acp_complete_def sample_inner_def route_new_def route_complete_def route_deliver_def
      try_send_def event_capacity_def cancel_permissions_def route_close_def acp_next_def apply_unwrap_def run_apply_def Let_def)

lemma sample_roomy:
  assumes "\<forall>w \<in> set ws. sn_revision (wk_stored w) = 0" and "length ws < 2 ^ 63"
  shows "roomy (Ident ''r'') (sample_mem ws)"
proof -
  have "sn_revision x \<noteq> u64_max" if "memory_get j (sample_mem ws) = Ok x" for j x
  proof -
    from that obtain w where w: "find (\<lambda>w. working_id w = j) ws = Some w" "x = wk_stored w"
      by (auto simp: memory_get_def read_lock_def ok_or_def sample_mem_get split: if_splits option.splits)
    then have "w \<in> set ws" by (auto simp: find_Some_iff)
    then show ?thesis using assms(1) w(2) by simp
  qed
  moreover have "room 2 (sample_mem ws)" using assms(2) by (simp add: room_def)
  ultimately show ?thesis by (simp add: roomy_def)
qed

theorem recorded_failure_sealed_witness:
  "\<exists>s r. recorded_next sample_sdk memory_store id (\<lambda>_. None) None False (sample_mem sample_first, sample_failed) =
      (Some (Err (RecAgent (Protocol ''boom''))), s, r) \<and>
    sealed (Ident ''r'') s \<and> stored_failure (Ident ''r'') s ''ACP connection failed: boom''"
proof -
  have free: "identifiers_free (Ident ''r'') memory_default" by (simp add: identifiers_free_def sample_unused)
  have roomy: "roomy (Ident ''r'') (sample_mem sample_first)"
    by (rule sample_roomy) (simp_all add: sample_first_def sample_evidence_def sample_reply_def)
  obtain s r where run: "recorded_next sample_sdk memory_store id (\<lambda>_. None) None False (sample_mem sample_first, sample_failed) =
      (Some (Err (RecAgent (Protocol ''boom''))), s, r)"
    using sample_failed_next sample_interrupt
    by (cases "acp_next id (\<lambda>_. None) False (rr_inner sample_failed)")
      (simp add: recorded_next_def sample_failed_def sample_recorded_def recorded_new_def)
  obtain out s'' R'' where drop: "recorded_drop sample_sdk memory_store id (\<lambda>_. None) None (s, r) = (out, s'', R'')"
    using prod.exhaust by metis
  from recorded_failure_sealed [OF sample_start memory_default_reachable free sample_sdk_laws sample_drain_order
      sample_failed_trace run drop] sample_failed_next roomy run
  show ?thesis by (auto simp: acp_error_text_def)
qed

text \<open>
  C19: Dropping the handle seals the transcript. Whenever a recorded run that has not failed is
  dropped and the store has room, no record of the run is left open and every message is
  stored as far as the consumer saw it. If the run had not ended, its open records were
  written in their last state and made final, and a failure record says that recording ended.
\<close>

theorem recorded_drop_seals:
  assumes "start_recorded_run D memory_store V i prompt actors sess s0 = (Ok r0, s1, sess1)"
    and "memory_reachable s0" and "identifiers_free i s0" and "sdk_laws D" and "drain_order ord"
    and "recorded_trace D memory_store ord s1 r0 es s r" and "roomy i s"
    and "recorded_drop D memory_store ord link sent (s, r) = (out, s', R')"
  shows "sealed i s' \<and> (\<forall>kind m t. update_text (consumed es) kind m = Some t \<longrightarrow> stored_once i s' kind m t) \<and>
    (if \<exists>reason. finished_with reason es then s' = s
     else stored_failure i s' ended_text \<and> stored_transcript i s' (final_transcript False D es))"
proof -
  obtain spec where spec: "rs_id spec = i" and H: "reg.healthy spec spec ord D (rr_inner r0) es s r"
      and T: "recorded_so_far D es (rr_recorder r)"
    by (rule memory_trace [OF assms(1-6)])
  note H' = reg.healthy_sound [OF H]
  show ?thesis
  proof (cases "rec_finished (rr_recorder r)")
    case True
    then have "\<exists>reason. finished_with reason es" using H by (simp add: reg.healthy_def)
    moreover have "s' = s" using drop_finished [OF True assms(8)] by blast
    ultimately show ?thesis
      using H' over_sealed [OF _ True spec] over_stored [OF _ True spec] by auto
  next
    case False
    then have "\<not> (\<exists>reason. finished_with reason es)" using H by (simp add: reg.healthy_def)
    moreover have "tells (hearing D es) (rr_recorder r)" using T False by (simp add: recorded_so_far_def)
    ultimately show ?thesis
      using drop_seals [OF _ spec assms(7) False assms(8), of es "update_text (consumed es)"] H' by auto
  qed
qed

lemma sample_heard_open: "\<not> sealed (Ident ''r'') (sample_mem (sample_first @ [sample_spoken]))"
proof -
  have "memory_get (record_ident (Ident ''r'') 3) (sample_mem (sample_first @ [sample_spoken])) = Ok (wk_stored sample_message)"
    by (simp add: memory_get_def read_lock_def ok_or_def sample_mem_get sample_first_def sample_evidence_def
        sample_spoken_def sample_message_def sample_reply_def memory_default_def)
  moreover have "\<not> is_final (sn_state (wk_stored sample_message))"
    by (simp add: sample_message_def sample_reply_def is_final_def)
  ultimately show ?thesis unfolding sealed_def by blast
qed

theorem recorded_drop_seals_witness:
  "\<exists>r. recorded_trace sample_sdk memory_store id (sample_mem sample_first) sample_recorded (butlast sample_log)
      (sample_mem (sample_first @ [sample_spoken])) r \<and>
    \<not> sealed (Ident ''r'') (sample_mem (sample_first @ [sample_spoken])) \<and>
    (let s' = fst (snd (recorded_drop sample_sdk memory_store id (\<lambda>_. None) None (sample_mem (sample_first @ [sample_spoken]), r)))
     in sealed (Ident ''r'') s' \<and> stored_failure (Ident ''r'') s' ended_text \<and>
        stored_once (Ident ''r'') s' Agent ''m'' ''Hey'')"
proof -
  let ?s = "sample_mem (sample_first @ [sample_spoken])"
  obtain a where "acp_next id (\<lambda>_. None) False sample_ended = (Some (Ok (Some (Update sample_update))), a)"
    using sample_first_next by metis
  from sample_heard_trace [OF this] obtain r where
    tr: "recorded_trace sample_sdk memory_store id (sample_mem sample_first) sample_recorded (butlast sample_log) ?s r" by blast
  have free: "identifiers_free (Ident ''r'') memory_default" by (simp add: identifiers_free_def sample_unused)
  have roomy: "roomy (Ident ''r'') ?s"
    by (rule sample_roomy) (simp_all add: sample_first_def sample_evidence_def sample_reply_def sample_spoken_def sample_message_def)
  obtain out s' R' where run: "recorded_drop sample_sdk memory_store id (\<lambda>_. None) None (?s, r) = (out, s', R')"
    using prod.exhaust by metis
  have "\<not> (\<exists>reason. finished_with reason (butlast sample_log))" by (simp add: finished_with_def sample_log_def)
  moreover have "update_text (consumed (butlast sample_log)) Agent ''m'' = Some ''Hey''"
    by (simp add: sample_log_def consumed_def update_text_def message_text_def chunk_text_def sample_update_def)
  ultimately show ?thesis
    using recorded_drop_seals [OF sample_start memory_default_reachable free sample_sdk_laws sample_drain_order tr roomy run]
      tr run sample_heard_open by (auto simp: Let_def)
qed

subsection \<open>Decisions\<close>

text \<open>The stored permission request, and the evidence that a decision on it was handed on.\<close>

definition stored_request :: "run_id \<Rightarrow> 'v memory_state \<Rightarrow> nat \<Rightarrow> permission_option list \<Rightarrow> bool" where
  "stored_request i s n options \<longleftrightarrow>
     (\<exists>x title. memory_get (record_ident i n) s = Ok x \<and> r_payload (sn_record x) = PPermission title options)"

definition stored_dispatch :: "('n, 'v) sdk \<Rightarrow> run_id \<Rightarrow> 'v memory_state \<Rightarrow> nat \<Rightarrow> string option \<Rightarrow> nat \<Rightarrow> bool" where
  "stored_dispatch D i s n opt m \<longleftrightarrow>
     (\<exists>x. memory_get (record_ident i m) s = Ok x \<and> r_payload (sn_record x) = dispatch_payload D opt \<and>
        r_reply (sn_record x) = Some (record_ident i n) \<and> sn_state x = Complete)"

text \<open>
  C20: A decision reaches the agent only after its evidence is stored. When \<open>respond\<close> changes the
  run at all (removes the permission, sends the answer), the permission belongs to a stored
  request of this run that offers the chosen option, and the store holds a complete record,
  not there before, that replies to the request and says which option was dispatched.
\<close>

theorem recorded_respond_evidence:
  assumes "start_recorded_run D memory_store V i prompt actors sess s0 = (Ok r0, s1, sess1)"
    and "memory_reachable s0" and "identifiers_free i s0" and "sdk_laws D" and "drain_order ord"
    and "recorded_trace D memory_store ord s1 r0 es s r"
    and "recorded_respond D memory_store ord link q opt (s, r) = (x, s', r')"
    and "rr_inner r' \<noteq> rr_inner r"
  shows "\<exists>n m options. rec_permissions (rr_recorder r) q = Some n \<and> stored_request i s n options \<and>
    (opt = None \<or> opt \<in> Some ` set (map po_id options)) \<and>
    memory_get (record_ident i m) s = Err MissingRecord \<and> stored_dispatch D i s' n opt m"
proof -
  obtain spec where spec: "rs_id spec = i" and H: "reg.healthy spec spec ord D (rr_inner r0) es s r"
    by (rule memory_trace [OF assms(1-6)])
  note H' = reg.healthy_sound [OF H]
  note own = record_ident_own [OF spec] memory_store_sel
  show ?thesis
    using H' [THEN conjunct1] H' [THEN conjunct2] assms(7)
  proof (cases rule: reg.respond_cases)
    case (refused e)
    then show ?thesis using assms(8) by simp
  next
    case (answered n w y inner title options)
    let ?m = "length (rec_records (rr_recorder r))"
    have "stored_request i s n options" using answered(8,9) by (auto simp: stored_request_def own)
    moreover have "memory_get (record_ident i ?m) s = Err MissingRecord"
      using H' by (auto simp: sound_def own)
    moreover have "working_ok memory_store s' (own_id spec ?m) w"
      using answered(6) by (auto simp: sound_def nth_append)
    then have "stored_dispatch D i s' n opt ?m"
      using answered(7) by (auto simp: stored_dispatch_def working_ok_def made_def own)
    ultimately show ?thesis using answered(2,10) by blast
  qed
qed

lemma sample_asked_permission:
  "rec_permissions sample_asked_recorder sample_pid = Some 4" "rec_records sample_asked_recorder = sample_asking"
  "length sample_asking = 5" "wk_stored (sample_asking ! 4) = wk_stored (last sample_asking)"
  "r_payload (sn_record (wk_stored (last sample_asking))) = PPermission ''Tool permission'' sample_options"
  "r_id (sn_record (wk_stored (last sample_asking))) = record_ident (Ident ''r'') 4"
  "ra_host (rec_actors sample_asked_recorder) = Ident ''h''" "po_id ` set sample_options = {''allow''}"
  by (simp_all add: sample_asked_recorder_def sample_asking_def sample_first_length sample_reply_def nth_append
      sample_recorder_def recorder_start_def sample_actors_def sample_options_def)

lemma upt_5: "[0..<5] = [0..<4] @ [4::nat]"
  by (simp add: upt_rec)

lemma sample_dispatched:
  "\<exists>s R. recorder_insert memory_store (dispatch_payload sample_sdk opt) (Ident ''h'') (Some (record_ident (Ident ''r'') 4))
     None Complete (sample_mem sample_asking, sample_asked_recorder) = (Ok 5, s, R)"
proof -
  let ?R = sample_asked_recorder
  define w where "w = sample_reply 5 ''h'' (Some (record_ident (Ident ''r'') 4)) (dispatch_payload sample_sdk opt) None Complete"
  have "recorder_insert memory_store (dispatch_payload sample_sdk opt) (Ident ''h'') (Some (record_ident (Ident ''r'') 4))
      None Complete (sample_mem (rec_records ?R), ?R) =
      (Ok (length (rec_records ?R)), (sample_mem (rec_records ?R @ [w]), add_record ?R w))"
  proof (rule sample_insert_reply)
    show "map working_id (rec_records ?R) = map (record_ident (Ident ''r'')) [0..<length (rec_records ?R)]"
      by (simp add: sample_asked_permission upt_5 upt_4 sample_asking_def sample_first_ids sample_first_length)
    show "validate (dispatch_payload sample_sdk opt) Complete = Ok ()"
      by (rule validate_plain) (simp_all add: dispatch_payload_def is_request_def is_response_def)
  qed (auto simp: sample_asked_permission w_def dispatch_payload_def is_request_def is_response_def sample_asked_recorder_def
      sample_recorder_def recorder_start_def sample_asking_def sample_first_length)
  then show ?thesis by (simp add: sample_asked_permission)
qed

theorem recorded_respond_evidence_witness:
  "\<exists>r s' r' m. recorded_respond sample_sdk memory_store id (\<lambda>_. None) sample_pid (Some ''allow'') (sample_mem sample_asking, r) =
      (Ok (), s', r') \<and> stored_dispatch sample_sdk (Ident ''r'') s' 4 (Some ''allow'') m"
proof -
  let ?r = "\<lparr>rr_inner = sample_pending, rr_recorder = sample_asked_recorder, rr_failed = False\<rparr>"
  have free: "identifiers_free (Ident ''r'') memory_default" by (simp add: identifiers_free_def sample_unused)
  obtain s R where ins: "recorder_insert memory_store (dispatch_payload sample_sdk (Some ''allow'')) (Ident ''h'')
      (Some (record_ident (Ident ''r'') 4)) None Complete (sample_mem sample_asking, sample_asked_recorder) = (Ok 5, s, R)"
    using sample_dispatched by blast
  obtain b where b: "acp_respond id (\<lambda>_. None) sample_pid (Some ''allow'') sample_pending = (Ok (), b)" "b \<noteq> sample_pending"
    using sample_pending_respond sample_waiting_next(2)
    by (cases "acp_respond id (\<lambda>_. None) sample_pid (Some ''allow'') sample_pending") fastforce
  have run: "recorded_respond sample_sdk memory_store id (\<lambda>_. None) sample_pid (Some ''allow'')
      (sample_mem sample_asking, ?r) = (Ok (), s, ?r\<lparr>rr_inner := b, rr_recorder := R\<rparr>)"
    using ins [unfolded dispatch_payload_def] b(1) sample_pending_respond(1)
    by (simp add: recorded_respond_def sample_asked_permission Let_def)
  have "rr_inner (?r\<lparr>rr_inner := b, rr_recorder := R\<rparr>) \<noteq> rr_inner ?r" using b(2) by simp
  with recorded_respond_evidence [OF sample_start memory_default_reachable free sample_sdk_laws sample_drain_order
      sample_asked_trace run] sample_asked_permission(1) run show ?thesis by auto
qed

end
