(* ===== verification/Start_Props.thy ===== *)
theory Start_Props imports Write_Ahead Acp_Restoration Recorded_Props begin

section \<open>Starting runs with prepared context\<close>

text \<open>
  What the receipt of an encoding says, that it is stored before the prompt is sent, and that
  a restored conversation delivers the selection it was restored with.
\<close>

subsection \<open>The encoding and its receipt\<close>

definition receipt_number :: "'v prepared_context \<Rightarrow> 'v list \<Rightarrow> nat" where
  "receipt_number c image_refs =
     (if pol_skills (pc_policy c) \<noteq> [] then 4
      else if pol_omissions (pc_policy c) \<noteq> [] \<or> pol_authorization (pc_policy c) \<noteq> None then 3
      else if image_refs \<noteq> [] then 2 else 1)"

lemma fold_set_field_distinct:
  "distinct (map fst m) \<Longrightarrow> distinct (map fst (fold (\<lambda>key. set_field key (f key)) keys m))"
  by (induction keys arbitrary: m) (simp_all add: set_field_distinct)

lemma map_of_fold_set_field:
  "map_of (fold (\<lambda>key. set_field key (f key)) keys m) k = (if k \<in> set keys then Some (f k) else map_of m k)"
  by (induction keys arbitrary: m) (auto simp: map_of_set_field)

lemma prepared_fields_of:
  "distinct (map fst (prepared_fields J encoding wire))"
  "map_of (prepared_fields J encoding wire) ''wire_text'' = Some (j_string J wire)"
  "map_of (prepared_fields J encoding wire) ''version'' = Some (j_number J 1)"
  by (simp_all add: prepared_fields_def)

lemma image_fields_of:
  "distinct (map fst m) \<Longrightarrow> distinct (map fst (image_fields J used refs m))"
  "map_of (image_fields J used refs m) ''wire_text'' = map_of m ''wire_text''"
  "map_of (image_fields J used refs m) ''version'' = Some (j_number J 2)"
  by (simp_all add: image_fields_def set_field_distinct map_of_set_field)

lemma policy_fields_of:
  "distinct (map fst m) \<Longrightarrow> distinct (map fst (policy_fields J c m))"
  "map_of (policy_fields J c m) ''wire_text'' = map_of m ''wire_text''"
  "map_of (policy_fields J c m) ''version'' = Some (j_number J 3)"
  by (simp_all add: policy_fields_def Let_def map_of_set_field set_field_distinct)

lemma skill_fields_of:
  "distinct (map fst m) \<Longrightarrow> distinct (map fst (skill_fields J c m))"
  "map_of (skill_fields J c m) ''wire_text'' = map_of m ''wire_text''"
  "map_of (skill_fields J c m) ''version'' = Some (j_number J 4)"
  by (simp_all add: skill_fields_def map_of_set_field set_field_distinct)

text \<open>The last step of \<open>encode\<close>: the limits, and the fields of the receipt.\<close>

definition receipt_fields ::
  "'v encoder \<Rightarrow> 'v prepared_context \<Rightarrow> string \<Rightarrow> string \<Rightarrow> prompt_block list \<Rightarrow> 'v list \<Rightarrow> (string \<times> 'v) list" where
  "receipt_fields N c encoding wire blocks refs =
     (let J = enc_json N;
          flds = prepared_fields J encoding wire;
          flds = (if refs \<noteq> [] then image_fields J (length (enc_blocks N blocks)) refs flds else flds);
          flds = (if pol_omissions (pc_policy c) \<noteq> [] \<or> pol_authorization (pc_policy c) \<noteq> None
                  then policy_fields J c flds else flds)
      in if pol_skills (pc_policy c) \<noteq> [] then skill_fields J c flds else flds)"

lemma receipt_fields_of:
  "distinct (map fst (receipt_fields N c encoding wire blocks refs))"
  "map_of (receipt_fields N c encoding wire blocks refs) ''wire_text'' = Some (j_string (enc_json N) wire)"
  "map_of (receipt_fields N c encoding wire blocks refs) ''version'' =
     Some (j_number (enc_json N) (receipt_number c refs))"
  unfolding receipt_fields_def Let_def receipt_number_def
  by (simp_all add: image_fields_of policy_fields_of skill_fields_of prepared_fields_of
      del: map_of_eq_Some_iff Some_eq_map_of_iff)

definition encode_last ::
  "'v encoder \<Rightarrow> 'v prepared_context \<Rightarrow> nat \<Rightarrow> string \<Rightarrow> string \<Rightarrow> prompt_block list \<Rightarrow> 'v list \<Rightarrow>
   (string \<times> prompt_block list \<times> 'v, recording_error) result" where
  "encode_last N c max_bytes encoding wire blocks refs =
     (if length wire > max_bytes then Err too_large
      else if refs \<noteq> [] \<and> length (enc_blocks N blocks) > max_bytes then Err too_large
      else Ok (wire, blocks, j_object (enc_json N) (receipt_fields N c encoding wire blocks refs)))"

lemma encode_eq:
  "encode N c prompt max_bytes allowed capable =
     (if \<exists>s \<in> set (pol_skills (pc_policy c)). sk_delivery s = RequireNative then
        Err (UnsupportedContext ''this ACP driver cannot guarantee native skill registration or activation'')
      else
        rbind (encode_instructions (enc_json N) (pc_instructions c)) (\<lambda>instructions.
        rbind (encode_records (enc_json N) (pc_records c)) (\<lambda>records.
        rbind (encode_resources N max_bytes allowed capable (pc_resources c)
            \<lparr>ep_resources = [], ep_images = [], ep_image_refs = [], ep_image_bytes = 0\<rparr>) (\<lambda>ep.
          let encoding =
                (if ep_images ep = [] then ''agent_bridge.text_context.v1'' else ''agent_bridge.media_context.v1'');
              wire = j_text (enc_json N)
                (envelope_json (enc_json N) encoding records instructions (ep_resources ep) prompt)
          in encode_last N c max_bytes encoding wire (TextPrompt wire # ep_images ep) (ep_image_refs ep)))))"
  unfolding encode_def encode_last_def receipt_fields_def Let_def ..

lemma encode_steps:
  assumes "encode N c prompt max_bytes allowed capable = Ok out"
  obtains instructions records ep encoding wire where
    "\<forall>s \<in> set (pol_skills (pc_policy c)). sk_delivery s \<noteq> RequireNative"
    "encode_instructions (enc_json N) (pc_instructions c) = Ok instructions"
    "encode_records (enc_json N) (pc_records c) = Ok records"
    "encode_resources N max_bytes allowed capable (pc_resources c)
       \<lparr>ep_resources = [], ep_images = [], ep_image_refs = [], ep_image_bytes = 0\<rparr> = Ok ep"
    "encode_last N c max_bytes encoding wire (TextPrompt wire # ep_images ep) (ep_image_refs ep) = Ok out"
  using assms unfolding encode_eq by (auto simp: rbind_eq_Ok Let_def split: if_splits)

lemma encode_receipt:
  assumes "encode N c prompt max_bytes allowed capable = Ok (wire, blocks, receipt)"
  shows "\<exists>encoding refs. receipt = j_object (enc_json N) (receipt_fields N c encoding wire blocks refs)"
  by (rule encode_steps [OF assms]) (auto simp: encode_last_def split: if_splits)

definition is_image :: "resource \<Rightarrow> bool" where
  "is_image r \<longleftrightarrow> prefix ''image/'' (rsc_media_type r)"

definition image_block :: "'v encoder \<Rightarrow> resource \<Rightarrow> prompt_block" where
  "image_block N r = ImagePrompt (enc_base64 N (rsc_bytes r)) (rsc_media_type r)"

definition base64_length :: "resource \<Rightarrow> nat" where
  "base64_length r = (length (rsc_bytes r) + 2) div 3 * 4"

lemma image_budget_Some:
  "image_budget used n max_bytes = Some used' \<longleftrightarrow>
     n + 2 < 2 ^ 64 \<and> (n + 2) div 3 * 4 < 2 ^ 64 \<and> used + (n + 2) div 3 * 4 < 2 ^ 64 \<and>
     used' = used + (n + 2) div 3 * 4 \<and> used' \<le> max_bytes"
  by (auto simp: image_budget_def usize_checked_add_def split: bind_splits if_splits)

lemma encode_resources_Ok:
  assumes "encode_resources N max_bytes allowed capable rs ep = Ok ep'"
  shows "ep_images ep' = ep_images ep @ map (image_block N) (filter is_image rs) \<and>
    length (ep_image_refs ep') = length (ep_image_refs ep) + length (filter is_image rs) \<and>
    ep_image_bytes ep' = ep_image_bytes ep + sum_list (map base64_length (filter is_image rs)) \<and>
    (\<forall>r \<in> set rs. if is_image r then allowed \<and> capable \<and> image_signature (rsc_media_type r) (rsc_bytes r) \<and>
       ep_image_bytes ep' \<le> max_bytes else text_media (rsc_media_type r) \<and> utf8_ok (rsc_bytes r))"
  using assms
proof (induction rs arbitrary: ep)
  case (Cons r rs)
  obtain ep1 where 1: "encode_resource N max_bytes allowed capable r ep = Ok ep1"
      and 2: "encode_resources N max_bytes allowed capable rs ep1 = Ok ep'"
    using Cons.prems by (auto simp: rbind_eq_Ok)
  note IH = Cons.IH [OF 2]
  show ?case
  proof (cases "is_image r")
    case True
    then have "allowed" "capable" "image_signature (rsc_media_type r) (rsc_bytes r)"
        "ep_images ep1 = ep_images ep @ [image_block N r]" "length (ep_image_refs ep1) = Suc (length (ep_image_refs ep))"
        "ep_image_bytes ep1 = ep_image_bytes ep + base64_length r" "ep_image_bytes ep1 \<le> max_bytes"
      using 1
      by (auto simp: encode_resource_def is_image_def Let_def image_budget_Some image_block_def base64_length_def
          split: if_splits option.splits)
    moreover have "ep_image_bytes ep' \<le> max_bytes"
    proof (cases "\<exists>x \<in> set rs. is_image x")
      case True
      then show ?thesis using IH by auto
    next
      case False
      then have "filter is_image rs = []" by (simp add: filter_empty_conv)
      then show ?thesis using IH calculation(7) by simp
    qed
    ultimately show ?thesis using IH True by auto
  next
    case False
    then have "ep_images ep1 = ep_images ep" "ep_image_refs ep1 = ep_image_refs ep" "ep_image_bytes ep1 = ep_image_bytes ep"
        "text_media (rsc_media_type r)" "utf8_ok (rsc_bytes r)"
      using 1 by (auto simp: encode_resource_def is_image_def Let_def rbind_eq_Ok resource_text_def split: if_splits)
    then show ?thesis using IH False by auto
  qed
qed simp

lemma encode_instructions_Ok:
  "encode_instructions J is = Ok vs \<Longrightarrow> \<forall>i \<in> set is. ins_role (pi_reference i) = Supplemental"
proof (induction "is" arbitrary: vs)
  case (Cons i "is")
  then show ?case by (cases "ins_role (pi_reference i)") (auto simp: rbind_eq_Ok)
qed simp

definition conversation :: "'v snapshot \<Rightarrow> bool" where
  "conversation x \<longleftrightarrow> (\<exists>kind m. r_payload (sn_record x) = PMessage kind m \<and> kind \<noteq> Reasoning)"

lemma record_json_Ok: "record_json J x = Ok v \<Longrightarrow> conversation x"
  by (cases "r_payload (sn_record x)")
    (auto simp: record_json_def conversation_def rbind_eq_Ok split: message_kind.splits)

lemma encode_records_Ok: "encode_records J xs = Ok vs \<Longrightarrow> \<forall>x \<in> set xs. conversation x"
  by (induction xs arbitrary: vs) (auto simp: rbind_eq_Ok dest: record_json_Ok)

text \<open>
  C27: An encoded prompt keeps the caller's limits and capabilities. When \<open>encode\<close> succeeds, the
  wire text fits the byte limit, and with images also the serialized blocks and the sum of
  the base64 lengths do; images are delivered exactly when the context has image resources,
  in their order, only with the explicit mode and the advertised capability, each with a
  matching signature; everything else is text; no base instruction, reasoning record or
  natively required skill is delivered. The receipt quotes the wire text and its version
  says which extensions it carries.
\<close>

theorem encode_within_limits:
  assumes "json_laws (enc_json N)" and "encode N c prompt max_bytes allowed capable = Ok (wire, blocks, receipt)"
  shows "length wire \<le> max_bytes \<and> blocks = TextPrompt wire # map (image_block N) (filter is_image (pc_resources c)) \<and>
    (filter is_image (pc_resources c) \<noteq> [] \<longrightarrow> allowed \<and> capable \<and> length (enc_blocks N blocks) \<le> max_bytes \<and>
       sum_list (map base64_length (filter is_image (pc_resources c))) \<le> max_bytes) \<and>
    (\<forall>r \<in> set (pc_resources c). if is_image r then image_signature (rsc_media_type r) (rsc_bytes r)
       else text_media (rsc_media_type r) \<and> utf8_ok (rsc_bytes r)) \<and>
    (\<forall>i \<in> set (pc_instructions c). ins_role (pi_reference i) = Supplemental) \<and>
    (\<forall>x \<in> set (pc_records c). conversation x) \<and>
    (\<forall>s \<in> set (pol_skills (pc_policy c)). sk_delivery s \<noteq> RequireNative) \<and>
    j_index (enc_json N) receipt ''wire_text'' = j_string (enc_json N) wire \<and>
    j_as_u64 (enc_json N) (j_index (enc_json N) receipt ''version'') =
      Some (if pol_skills (pc_policy c) \<noteq> [] then 4
            else if pol_omissions (pc_policy c) \<noteq> [] \<or> pol_authorization (pc_policy c) \<noteq> None then 3
            else if filter is_image (pc_resources c) \<noteq> [] then 2 else 1)"
proof -
  obtain instructions records ep encoding w where
      skills: "\<forall>s \<in> set (pol_skills (pc_policy c)). sk_delivery s \<noteq> RequireNative"
      and ins: "encode_instructions (enc_json N) (pc_instructions c) = Ok instructions"
      and recs: "encode_records (enc_json N) (pc_records c) = Ok records"
      and res: "encode_resources N max_bytes allowed capable (pc_resources c)
        \<lparr>ep_resources = [], ep_images = [], ep_image_refs = [], ep_image_bytes = 0\<rparr> = Ok ep"
      and last: "encode_last N c max_bytes encoding w (TextPrompt w # ep_images ep) (ep_image_refs ep) = Ok (wire, blocks, receipt)"
    by (rule encode_steps [OF assms(2)])
  let ?images = "filter is_image (pc_resources c)"
  note R = encode_resources_Ok [OF res]
  have "length (ep_image_refs ep) = length ?images" using R by simp
  then have refs: "ep_image_refs ep = [] \<longleftrightarrow> ?images = []" by (simp flip: length_0_conv)
  have L: "length wire \<le> max_bytes" "wire = w" "blocks = TextPrompt w # ep_images ep"
      "?images \<noteq> [] \<longrightarrow> length (enc_blocks N blocks) \<le> max_bytes"
      "receipt = j_object (enc_json N) (receipt_fields N c encoding w blocks (ep_image_refs ep))"
    using last refs by (auto simp: encode_last_def split: if_splits)
  have fields: "j_index (enc_json N) receipt ''wire_text'' = j_string (enc_json N) wire"
      "j_index (enc_json N) receipt ''version'' = j_number (enc_json N) (receipt_number c (ep_image_refs ep))"
    unfolding L(5) by (simp_all only: json_index_object [OF assms(1) receipt_fields_of(1) receipt_fields_of(2)]
        json_index_object [OF assms(1) receipt_fields_of(1) receipt_fields_of(3)] L(2))
  have version: "j_as_u64 (enc_json N) (j_index (enc_json N) receipt ''version'') = Some (receipt_number c (ep_image_refs ep))"
    unfolding fields(2) by (rule json_lawsD(3) [OF assms(1)]) (simp add: receipt_number_def)
  have images: "?images \<noteq> [] \<longrightarrow> allowed \<and> capable \<and> sum_list (map base64_length ?images) \<le> max_bytes"
    using R by (auto simp: filter_empty_conv split: if_splits)
  have each: "\<forall>r \<in> set (pc_resources c). if is_image r then image_signature (rsc_media_type r) (rsc_bytes r)
      else text_media (rsc_media_type r) \<and> utf8_ok (rsc_bytes r)"
    using R by (auto split: if_splits)
  have "blocks = TextPrompt wire # map (image_block N) ?images" using R L by simp
  moreover have num: "receipt_number c (ep_image_refs ep) =
      (if pol_skills (pc_policy c) \<noteq> [] then 4
       else if pol_omissions (pc_policy c) \<noteq> [] \<or> pol_authorization (pc_policy c) \<noteq> None then 3
       else if ?images \<noteq> [] then 2 else 1)"
    by (simp add: receipt_number_def refs)
  ultimately show ?thesis
    using L(1,4) images each encode_instructions_Ok [OF ins] encode_records_Ok [OF recs] skills fields(1)
      version [unfolded num]
    by (intro conjI impI; blast)
qed

definition sample_encoder :: "tree encoder" where
  "sample_encoder =
     \<lparr>enc_json = tree_json, enc_sha256 = (\<lambda>_. ''00''), enc_base64 = (\<lambda>_. ''AAAA''), enc_blocks = (\<lambda>_. ''[]'')\<rparr>"

definition sample_selection :: "resource list \<Rightarrow> tree prepared_context" where
  "sample_selection resources =
     \<lparr>pc_requested_manifest = default_manifest, pc_policy = default_policy, pc_manifest = default_manifest,
      pc_records = [], pc_instructions = [], pc_resources = resources, pc_resource_bytes = 0\<rparr>"

definition sample_image :: resource where
  "sample_image =
     \<lparr>rsc_reference = \<lparr>res_id = Ident ''i'', res_revision = ''1''\<rparr>, rsc_media_type = ''image/gif'',
      rsc_bytes = ''GIF89a''\<rparr>"

lemma sample_encoder_json [simp]: "enc_json sample_encoder = tree_json"
  by (simp add: sample_encoder_def)

lemma sample_encode:
  "\<exists>blocks receipt. encode sample_encoder (sample_selection resources) prompt 100 allowed capable =
     Ok (''{}'', blocks, receipt)"
  if "resources = [] \<or> resources = [sample_image] \<and> allowed \<and> capable"
  using that
  by (auto simp: encode_eq sample_selection_def default_policy_def encode_last_def Let_def encode_resource_def
      sample_image_def image_signature_def image_budget_def usize_checked_add_def sample_encoder_def tree_json_def)

theorem encode_within_limits_witness:
  "\<exists>wire blocks receipt. encode sample_encoder (sample_selection [sample_image]) ''hi'' 100 True True =
      Ok (wire, blocks, receipt) \<and> length wire \<le> 100 \<and>
    j_as_u64 tree_json (j_index tree_json receipt ''version'') = Some 2"
proof -
  obtain blocks receipt where e: "encode sample_encoder (sample_selection [sample_image]) ''hi'' 100 True True =
      Ok (''{}'', blocks, receipt)"
    using sample_encode [of "[sample_image]" True True] by blast
  have "filter is_image (pc_resources (sample_selection [sample_image])) \<noteq> []"
    by (simp add: sample_selection_def is_image_def sample_image_def)
  with encode_within_limits [OF _ e] e show ?thesis
    by (simp add: tree_json_laws) (simp add: sample_selection_def default_policy_def)
qed

subsection \<open>The receipt precedes the prompt\<close>

definition stored_evidence :: "run_id \<Rightarrow> 'v memory_state \<Rightarrow> 'v payload list \<Rightarrow> bool" where
  "stored_evidence i s ps \<longleftrightarrow>
     (\<forall>n < length ps. \<exists>x. memory_get (record_ident i n) s = Ok x \<and> r_payload (sn_record x) = ps ! n \<and>
        sn_state x = Complete)"

lemma wrote_stored:
  assumes "sound memory_store ms_inv spec (s, R)" and "rs_id spec = i" and "wrote ps R"
  shows "stored_evidence i s ps"
  unfolding stored_evidence_def
proof (intro allI impI)
  fix n assume n: "n < length ps"
  then have "working_ok memory_store s (own_id spec n) (rec_records R ! n)"
    using assms(1,3) by (auto simp: sound_def wrote_def)
  then show "\<exists>x. memory_get (record_ident i n) s = Ok x \<and> r_payload (sn_record x) = ps ! n \<and> sn_state x = Complete"
    using assms(2,3) n
    by (auto simp: working_ok_def wrote_def record_ident_own memory_store_sel is_final_def)
qed

text \<open>A start that returned a run or touched the session has passed its checks.\<close>

lemma checked_passed:
  assumes "checked r s sess f = (x, s', sess')" and "(\<exists>y. x = Ok y) \<or> sess' \<noteq> sess"
  obtains y where "r = Ok y" "f y = (x, s', sess')"
  using assms by (cases r) (auto simp: checked_def)

lemma prepared_run:
  assumes "start_prepared_context_run D N S V i task actors sess s = (x, s', sess')"
    and "(\<exists>r. x = Ok r) \<or> sess' \<noteq> sess"
  obtains spec wire blocks receipt where "rs_id spec = i" "rs_context spec = pc_manifest (pt_context task)"
    "records_current (\<lambda>j. op_get S j s) (pc_records (pt_context task)) = Ok ()"
    "encode_for N V (pt_context task) (pt_prompt task) (pt_max_bytes task) (pt_mode task) = Ok (wire, blocks, receipt)"
    "record_and_launch D S V spec (pt_prompt task) actors
       (input_steps D S receipt (case pt_restoration task of None \<Rightarrow> give () | Some r \<Rightarrow> recorder_restoration S r))
       wire blocks sess s = (x, s', sess')"
proof -
  note touched = assms(2)
  note run = assms(1) [unfolded start_prepared_context_run_def]
  obtain u where run: "checked (map_err RecAgent (acp_run_spec i sess)) s sess (\<lambda>spec.
     checked
       (if foreign_issuer (pt_context task) (ra_host actors) then Err (RecContext InstructionUnauthorized)
        else Ok ()) s sess (\<lambda>_.
     checked (records_current (\<lambda>j. op_get S j s) (pc_records (pt_context task))) s sess (\<lambda>_.
     checked (encode_for N V (pt_context task) (pt_prompt task) (pt_max_bytes task) (pt_mode task)) s sess
       (\<lambda>(wire, blocks, receipt).
       record_and_launch D S V (spec\<lparr>rs_context := pc_manifest (pt_context task)\<rparr>) (pt_prompt task) actors
         (input_steps D S receipt
           (case pt_restoration task of Some r \<Rightarrow> recorder_restoration S r | None \<Rightarrow> give ()))
         wire blocks sess s)))) = (x, s', sess')"
    by (rule checked_passed [OF run touched])
  obtain spec where spec: "map_err RecAgent (acp_run_spec i sess) = Ok spec" by (rule checked_passed [OF run touched])
  note run = run [unfolded spec checked_def result.case, folded checked_def]
  obtain v where iss: "(if foreign_issuer (pt_context task) (ra_host actors) then Err (RecContext InstructionUnauthorized)
        else Ok ()) = Ok v" by (rule checked_passed [OF run touched])
  note run = run [unfolded iss checked_def result.case, folded checked_def]
  obtain w where cur: "records_current (\<lambda>j. op_get S j s) (pc_records (pt_context task)) = Ok w"
    by (rule checked_passed [OF run touched])
  note run = run [unfolded cur checked_def result.case, folded checked_def]
  obtain e where enc: "encode_for N V (pt_context task) (pt_prompt task) (pt_max_bytes task) (pt_mode task) = Ok e"
    by (rule checked_passed [OF run touched])
  obtain wire blocks receipt where e: "e = (wire, blocks, receipt)" by (cases e)
  note run = run [unfolded enc e checked_def result.case prod.case]
  have "rs_id spec = i" using spec by (cases "acp_run_spec i sess") (auto dest: acp_run_spec_id)
  then show thesis using that [OF _ _ _ _ run] cur enc e by simp
qed

text \<open>
  C3: Nothing reaches the provider before its evidence is stored. If a run with prepared
  context touches the session at all (which every attempt to send the prompt does), then the
  store holds, complete and in this order, the note that the run was prepared, the user's
  task, the receipt, the restoration report if there is one, and the notes that the dispatch
  is attempted; the receipt quotes the very text that is the run's input, the run's manifest
  is that of the context, and the selected records were still the stored ones.
\<close>

theorem context_dispatch_write_ahead:
  assumes "start_prepared_context_run D N memory_store V i task actors sess s = (x, s', sess')"
    and "memory_reachable s" and "identifiers_free i s" and "(\<exists>r. x = Ok r) \<or> sess' \<noteq> sess"
    and "json_laws (sdk_json D)" and "enc_json N = sdk_json D"
  shows "\<exists>wire blocks receipt version.
    encode_for N V (pt_context task) (pt_prompt task) (pt_max_bytes task) (pt_mode task) = Ok (wire, blocks, receipt) \<and>
    j_index (sdk_json D) receipt ''wire_text'' = j_string (sdk_json D) wire \<and>
    stored_evidence i s' (begun_payloads D (pt_prompt task) @
      input_payloads D receipt (restoration_payloads (pt_restoration task)) version) \<and>
    records_current (\<lambda>j. memory_get j s) (pc_records (pt_context task)) = Ok () \<and>
    (\<forall>r. x = Ok r \<longrightarrow> ar_input (rr_inner r) = wire \<and>
       rs_context (run_spec_of (ar_run (rr_inner r))) = pc_manifest (pt_context task))"
proof -
  obtain spec wire blocks receipt where spec: "rs_id spec = i" "rs_context spec = pc_manifest (pt_context task)"
      and cur: "records_current (\<lambda>j. op_get memory_store j s) (pc_records (pt_context task)) = Ok ()"
      and enc: "encode_for N V (pt_context task) (pt_prompt task) (pt_max_bytes task) (pt_mode task) = Ok (wire, blocks, receipt)"
      and run: "record_and_launch D memory_store V spec (pt_prompt task) actors
        (input_steps D memory_store receipt
          (case pt_restoration task of None \<Rightarrow> give () | Some r \<Rightarrow> recorder_restoration memory_store r))
        wire blocks sess s = (x, s', sess')"
    by (rule prepared_run [OF assms(1,4)])
  obtain version R where R: "sound memory_store ms_inv spec (s', R)"
      "wrote (begun_payloads D (pt_prompt task) @ input_payloads D receipt (restoration_payloads (pt_restoration task)) version) R"
      "\<forall>r. x = Ok r \<longrightarrow> rr_recorder r = R \<and> ar_input (rr_inner r) = wire \<and> run_spec_of (ar_run (rr_inner r)) = spec"
    using mem.prepared_start_cases [OF run memory_unused [OF assms(2,3) spec(1)]] assms(4) by blast
  obtain encoding refs where "receipt = j_object (enc_json N) (receipt_fields N (pt_context task) encoding wire blocks refs)"
    using encode_receipt [OF enc [unfolded encode_for_def]] by blast
  then have "j_index (sdk_json D) receipt ''wire_text'' = j_string (sdk_json D) wire"
    using json_index_object [OF assms(5) receipt_fields_of(1) receipt_fields_of(2)] assms(6) by metis
  with enc cur R wrote_stored [OF R(1) spec(1) R(2)] spec(2) show ?thesis
    by (fastforce simp: memory_store_sel)
qed


definition sample_task :: "tree prepared_task" where
  "sample_task =
     \<lparr>pt_prompt = ''hi'', pt_context = sample_selection [], pt_mode = AppendToNative, pt_max_bytes = 100,
      pt_restoration = None\<rparr>"

definition ready :: "(nat, tree) recorder \<Rightarrow> bool" where
  "ready R \<longleftrightarrow> map working_id (rec_records R) = map (record_ident (Ident ''r'')) [0..<length (rec_records R)] \<and>
     rec_spec R = Acp_Session.sample_run_spec \<and> rec_actors R = sample_actors"

lemma ready_evidence:
  assumes "ready R" and "length (rec_records R) < 2 ^ 64"
  shows "\<exists>w. host_evidence memory_store name data (sample_mem (rec_records R), R) =
      (Ok (), (sample_mem (rec_records (add_record R w)), add_record R w)) \<and> ready (add_record R w)"
proof -
  let ?w = "sample_work (length (rec_records R)) ''h'' (PExtension ''agent_bridge'' name data) None Complete"
  have "recorder_insert memory_store (PExtension ''agent_bridge'' name data) (Ident ''h'') None None Complete
      (sample_mem (rec_records R), R) = (Ok (length (rec_records R)), (sample_mem (rec_records R @ [?w]), add_record R ?w))"
    by (rule sample_insert) (use assms in \<open>simp_all add: ready_def is_request_def is_response_def\<close>)
  then have "host_evidence memory_store name data (sample_mem (rec_records R), R) =
      (Ok (), (sample_mem (rec_records (add_record R ?w)), add_record R ?w))"
    using assms by (simp add: host_evidence_def and_then_def with_state_def give_def ready_def sample_actors_def)
  moreover have "ready (add_record R ?w)" using assms by (simp add: ready_def)
  ultimately show ?thesis by blast
qed

lemma ready_steps:
  assumes R: "ready R" "length (rec_records R) = 2"
    and version: "j_as_u64 tree_json (j_index tree_json receipt ''version'') = Some version"
  shows "\<exists>s R'. input_steps sample_sdk memory_store receipt (give ()) (sample_mem (rec_records R), R) = (Ok (), s, R')"
proof -
  let ?R = "R\<lparr>rec_input_version := version\<rparr>"
  have "ready ?R" "length (rec_records ?R) < 2 ^ 64" using R by (simp_all add: ready_def)
  from ready_evidence [OF this, of "''input_receipt''" receipt] obtain w where
    1: "input_evidence memory_store receipt (sample_mem (rec_records ?R), ?R) =
      (Ok (), (sample_mem (rec_records (add_record ?R w)), add_record ?R w))" "ready (add_record ?R w)"
    by (auto simp: input_evidence_def)
  let ?R1 = "(add_record ?R w)\<lparr>rec_input_receipt := True\<rparr>"
  have "ready ?R1" "length (rec_records ?R1) < 2 ^ 64" using 1(2) R(2) by (simp_all add: ready_def)
  from ready_evidence [OF this, of "''input_receipt''" "versioned_state tree_json version ''dispatch_attempted'' []"]
  obtain w2 where 2: "input_dispatch_attempted sample_sdk memory_store (sample_mem (rec_records ?R1), ?R1) =
      (Ok (), (sample_mem (rec_records (add_record ?R1 w2)), add_record ?R1 w2))" "ready (add_record ?R1 w2)"
    by (auto simp: input_dispatch_attempted_def input_evidence_def sample_sdk_def)
  have "length (rec_records (add_record ?R1 w2)) < 2 ^ 64" using R(2) by simp
  from ready_evidence [OF 2(2) this, of "''run_dispatch''" "versioned_state tree_json 1 ''dispatch_attempted'' []"]
  obtain w3 where 3: "execution_evidence sample_sdk memory_store ''dispatch_attempted''
      (sample_mem (rec_records (add_record ?R1 w2)), add_record ?R1 w2) =
      (Ok (), (sample_mem (rec_records (add_record (add_record ?R1 w2) w3)), add_record (add_record ?R1 w2) w3))"
    by (auto simp: execution_evidence_def sample_sdk_def)
  have "prepare_input sample_sdk memory_store receipt (sample_mem (rec_records R), R) =
      (Ok (), sample_mem (rec_records ?R1), ?R1)"
    using 1(1) version by (simp add: prepare_input_def and_then_def on_recorder_def sample_sdk_def)
  then show ?thesis using 2(1) 3 by (simp add: input_steps_def and_then_def give_def)
qed

theorem context_dispatch_write_ahead_witness:
  "\<exists>x s' sess'. start_prepared_context_run sample_sdk sample_encoder memory_store sample_env (Ident ''r'') sample_task
      sample_actors sample_acp_session memory_default = (x, s', sess') \<and> sess' \<noteq> sample_acp_session \<and>
    (\<exists>receipt version. j_index tree_json receipt ''wire_text'' = j_string tree_json ''{}'' \<and>
      stored_evidence (Ident ''r'') s'
        (begun_payloads sample_sdk ''hi'' @ input_payloads sample_sdk receipt [] version))"
proof -
  obtain blocks receipt where e: "encode sample_encoder (sample_selection []) ''hi'' 100 False False = Ok (''{}'', blocks, receipt)"
    using sample_encode [of "[]"] by blast
  then obtain encoding refs where
      r: "receipt = j_object tree_json (receipt_fields sample_encoder (sample_selection []) encoding ''{}'' blocks refs)"
    using encode_receipt by fastforce
  have "j_index tree_json receipt ''version'' = j_number tree_json (receipt_number (sample_selection []) refs)"
    unfolding r using json_index_object [OF tree_json_laws receipt_fields_of(1) receipt_fields_of(3)] by simp
  then have version: "j_as_u64 tree_json (j_index tree_json receipt ''version'') = Some (receipt_number (sample_selection []) refs)"
    by (simp add: json_lawsD(3) [OF tree_json_laws] receipt_number_def)
  let ?R = "sample_recorder (butlast sample_first)"
  have R: "ready ?R" "length (rec_records ?R) = 2" "rec_records ?R = butlast sample_first"
    by (simp_all add: ready_def sample_recorder_def recorder_start_def sample_first_def sample_evidence_def)
  from ready_steps [OF R(1,2) version] obtain s R' where
    steps: "input_steps sample_sdk memory_store receipt (give ()) (sample_mem (butlast sample_first), ?R) = (Ok (), s, R')"
    unfolding R(3) by blast
  have spec: "Acp_Session.sample_run_spec\<lparr>rs_context := default_manifest\<rparr> = Acp_Session.sample_run_spec"
    by (simp add: Acp_Session.sample_run_spec_def)
  have "\<not> blank ''{}''" by (rule not_blank_plain; simp add: plain_char_def)
  then obtain inner :: "(nat, tree) acp_run" where "acp_dispatch id (\<lambda>_. None) False None Acp_Session.sample_run_spec ''{}'' sample_acp_session =
     (Ok inner, ar_session sample_inner)"
    by (simp add: acp_dispatch_def sample_acp_session_def Acp_Session.sample_run_spec_def sample_inner_def
      config_for_run_def default_run_configuration_def run_apply_def run_new_def Let_def)
  then have run: "start_prepared_context_run sample_sdk sample_encoder memory_store sample_env (Ident ''r'') sample_task
      sample_actors sample_acp_session memory_default = (Ok (recorded_new inner R'), s, ar_session sample_inner)"
    using e steps sample_new sample_acp_run_spec spec
    by (simp add: start_prepared_context_run_def checked_def preflight_def not_blank_hi record_and_launch_def launch_def
        sample_task_def sample_selection_def default_policy_def foreign_issuer_def encode_for_def
        sample_env_def sample_acp_session_def)
  have "ar_session sample_inner \<noteq> sample_acp_session" by (simp add: sample_inner_def sample_acp_session_def)
  moreover have "identifiers_free (Ident ''r'') (memory_default :: tree memory_state)"
    by (simp add: identifiers_free_def sample_unused)
  moreover have "enc_json sample_encoder = sdk_json sample_sdk" "json_laws (sdk_json sample_sdk)"
    "sdk_json sample_sdk = tree_json" by (simp_all add: sample_sdk_def tree_json_laws)
  moreover have "encode_for sample_encoder sample_env (pt_context sample_task) (pt_prompt sample_task)
      (pt_max_bytes sample_task) (pt_mode sample_task) = Ok (''{}'', blocks, receipt)"
    "pt_prompt sample_task = ''hi''" "restoration_payloads (pt_restoration sample_task) = []"
    using e by (simp_all add: sample_task_def encode_for_def sample_env_def restoration_payloads_def)
  ultimately have "ar_session sample_inner \<noteq> sample_acp_session \<and>
      j_index tree_json receipt ''wire_text'' = j_string tree_json ''{}'' \<and>
      (\<exists>version. stored_evidence (Ident ''r'') s (begun_payloads sample_sdk ''hi'' @ input_payloads sample_sdk receipt [] version))"
    using context_dispatch_write_ahead [OF run memory_default_reachable] by fastforce
  then show ?thesis using run by blast
qed

end
