(* ===== verification/Sqlite_Driver.thy ===== *)
theory Sqlite_Driver imports Effects Store_Interface begin

section \<open>The SQLite driver (src/records/sqlite.rs, src/records/sqlite/codec.rs)\<close>

text \<open>
  How the code reaches the database. Every call of the driver may fail: \<open>dv_fault\<close> says
  with which error the n-th call of an operation does, \<open>dv_violation\<close> is the error of a
  statement that breaks a constraint of the schema. A transaction works on its own view of
  the tables and replaces the committed ones when its commit succeeds. The JSON documents in
  text columns are written and read by serde; its two directions are parameters.
\<close>

subsection \<open>Errors and calls\<close>

datatype sqlite_code = ReadOnlyCode | DatabaseBusy | DatabaseLocked | OtherCode

record sqlite_error =
  se_code :: "sqlite_code option"
  se_text :: string

definition database_error :: "sqlite_error \<Rightarrow> store_error" where
  "database_error e =
     (if se_code e = Some ReadOnlyCode then ReadOnly
      else if se_code e = Some DatabaseBusy \<or> se_code e = Some DatabaseLocked then Busy
      else Database (se_text e))"

record driver =
  dv_fault :: "nat \<Rightarrow> sqlite_error option"
  dv_violation :: sqlite_error

text \<open>Inside an operation: the number of calls made, and the tables as this transaction sees them.\<close>

type_synonym ('a, 't) sql = "('a, store_error, nat \<times> 't) operation"

definition driver_call :: "driver \<Rightarrow> ('a, 't) sql \<Rightarrow> ('a, 't) sql" where
  "driver_call D q st =
     (case dv_fault D (fst st) of
        Some e \<Rightarrow> (Err (database_error e), Suc (fst st), snd st)
      | None \<Rightarrow> q (Suc (fst st), snd st))"

definition query :: "driver \<Rightarrow> ('t \<Rightarrow> 'a) \<Rightarrow> ('a, 't) sql" where
  "query D f = driver_call D (\<lambda>(n, d). (Ok (f d), n, d))"

text \<open>A statement that changes tables, or breaks a constraint and changes nothing.\<close>

definition execute :: "driver \<Rightarrow> ('t \<Rightarrow> ('a \<times> 't) option) \<Rightarrow> ('a, 't) sql" where
  "execute D f = driver_call D (\<lambda>(n, d).
     (case f d of
        None \<Rightarrow> (Err (database_error (dv_violation D)), n, d)
      | Some (x, d') \<Rightarrow> (Ok x, n, d')))"

text \<open>Stepping through the rows of a statement; the last step finds no more.\<close>

fun fetch_rows :: "driver \<Rightarrow> ('r \<Rightarrow> ('a, 't) sql) \<Rightarrow> 'r list \<Rightarrow> ('a list, 't) sql" where
  "fetch_rows D f [] = and_then (query D (\<lambda>_. ())) (\<lambda>_. give [])"
| "fetch_rows D f (r # rs) =
     and_then (query D (\<lambda>_. ())) (\<lambda>_.
     and_then (f r) (\<lambda>x.
     and_then (fetch_rows D f rs) (\<lambda>xs. give (x # xs))))"

subsection \<open>Transactions\<close>

record 't connection =
  cn_poisoned :: bool
  cn_tables :: 't

text \<open>\<open>SqliteStore::write\<close>: an error rolls the transaction back.\<close>

definition transaction :: "driver \<Rightarrow> ('a, 't) sql \<Rightarrow> ('a, 't) sql" where
  "transaction D action =
     and_then (query D (\<lambda>_. ())) (\<lambda>_.
     and_then action (\<lambda>x.
     and_then (query D (\<lambda>_. ())) (\<lambda>_. give x)))"

definition sqlite_write ::
  "driver \<Rightarrow> ('a, 't) sql \<Rightarrow> 't connection \<Rightarrow> ('a, store_error) result \<times> 't connection" where
  "sqlite_write D action c =
     (if cn_poisoned c then (Err Poisoned, c)
      else
        (case transaction D action (0, cn_tables c) of
           (Ok x, _, d) \<Rightarrow> (Ok x, c\<lparr>cn_tables := d\<rparr>)
         | (Err e, _) \<Rightarrow> (Err e, c)
         | (Panic, _) \<Rightarrow> (Panic, c\<lparr>cn_poisoned := True\<rparr>)))"

text \<open>Reading under the lock.\<close>

definition sqlite_read :: "('a, 't) sql \<Rightarrow> 't connection \<Rightarrow> ('a, store_error) result" where
  "sqlite_read action c =
     (if cn_poisoned c then Err Poisoned else fst (action (0, cn_tables c)))"

subsection \<open>Documents\<close>

text \<open>
  \<open>Document\<close> wraps a value with its version. \<open>fo_to_string\<close> is \<open>serde_json::to_string\<close> of the
  wrapped value, \<open>parse\<close> reads a wrapped \<open>Value\<close>, \<open>fo_from_value\<close> is \<open>serde_json::from_value\<close>.
\<close>

record ('x, 'v) format =
  fo_to_string :: "nat \<Rightarrow> 'x \<Rightarrow> (string, string) result"
  fo_from_value :: "'v \<Rightarrow> ('x, string) result"

definition data_version :: nat where
  "data_version = 2"

definition codec_encode :: "('x, 'v) format \<Rightarrow> 'x \<Rightarrow> (string, store_error) result" where
  "codec_encode f x = map_err CorruptData (fo_to_string f data_version x)"

definition codec_decode ::
  "(string \<Rightarrow> (nat \<times> 'v, string) result) \<Rightarrow> ('x, 'v) format \<Rightarrow> string \<Rightarrow> ('x, store_error) result" where
  "codec_decode parse f s =
     rbind (map_err CorruptData (parse s)) (\<lambda>(version, data).
       if version \<noteq> 1 \<and> version \<noteq> data_version then Err (UnsupportedDataVersion version)
       else map_err CorruptData (fo_from_value f data))"

text \<open>A value whose document reads back as itself.\<close>

definition reads_back :: "(string \<Rightarrow> (nat \<times> 'v, string) result) \<Rightarrow> ('x, 'v) format \<Rightarrow> 'x \<Rightarrow> bool" where
  "reads_back parse f x \<longleftrightarrow> (\<exists>s. codec_encode f x = Ok s \<and> codec_decode parse f s = Ok x)"

text \<open>\<open>Option::map(..).transpose()\<close>\<close>

definition transpose_map :: "('a \<Rightarrow> ('b, 'e) result) \<Rightarrow> 'a option \<Rightarrow> ('b option, 'e) result" where
  "transpose_map f x = (case x of None \<Rightarrow> Ok None | Some a \<Rightarrow> rbind (f a) (\<lambda>b. Ok (Some b)))"

lemma transpose_map_simps [simp]:
  "transpose_map f None = Ok None"
  "transpose_map f (Some a) = rbind (f a) (\<lambda>b. Ok (Some b))"
  by (simp_all add: transpose_map_def)

lemma transpose_map_Ok:
  "transpose_map f x = Ok y \<longleftrightarrow>
     (case x of None \<Rightarrow> y = None | Some a \<Rightarrow> \<exists>b. f a = Ok b \<and> y = Some b)"
  by (cases x) (auto simp: rbind_eq_Ok)

subsection \<open>Running without a fault\<close>

text \<open>
  \<open>runs D m d r d'\<close>: from the tables \<open>d\<close> the operation ends with \<open>r\<close> and \<open>d'\<close>, unless a call of
  the driver fails. The rules below execute an operation call by call.
\<close>

definition fault_of :: "driver \<Rightarrow> store_error \<Rightarrow> bool" where
  "fault_of D e \<longleftrightarrow> (\<exists>k f. dv_fault D k = Some f \<and> e = database_error f)"

definition runs :: "driver \<Rightarrow> ('a, 't) sql \<Rightarrow> 't \<Rightarrow> ('a, store_error) result \<Rightarrow> 't \<Rightarrow> bool" where
  "runs D m d r d' \<longleftrightarrow>
     (\<forall>n. (\<exists>e st. fault_of D e \<and> m (n, d) = (Err e, st)) \<or> (\<exists>n'. m (n, d) = (r, n', d')))"

named_theorems runs_intros \<open>rules for running an operation\<close>

lemma runs_and_then [runs_intros]:
  assumes "runs D m d (Ok x) d1" and "runs D (f x) d1 r d2"
  shows "runs D (and_then m f) d r d2"
  unfolding runs_def
proof
  fix n
  from assms(1) consider e st where "fault_of D e" "m (n, d) = (Err e, st)"
    | n1 where "m (n, d) = (Ok x, n1, d1)" unfolding runs_def by blast
  then show "(\<exists>e st. fault_of D e \<and> and_then m f (n, d) = (Err e, st)) \<or> (\<exists>n'. and_then m f (n, d) = (r, n', d2))"
  proof cases
    case 1
    then show ?thesis by (cases st) auto
  next
    case 2
    with assms(2) show ?thesis unfolding runs_def by (auto simp: and_then_def)
  qed
qed

lemma runs_stops:
  assumes "runs D m d (Err e) d1"
  shows "runs D (and_then m f) d (Err e) d1"
  unfolding runs_def
proof
  fix n
  from assms consider e' st where "fault_of D e'" "m (n, d) = (Err e', st)"
    | n1 where "m (n, d) = (Err e, n1, d1)" unfolding runs_def by blast
  then show "(\<exists>e st. fault_of D e \<and> and_then m f (n, d) = (Err e, st)) \<or> (\<exists>n'. and_then m f (n, d) = (Err e, n', d1))"
    by cases (auto simp: and_then_def)
qed

lemma runs_give [runs_intros]: "runs D (give x) d (Ok x) d"
  by (simp add: runs_def)

lemma runs_lift [runs_intros]: "runs D (lift_result r) d r d"
  by (simp add: runs_def)

lemma runs_fail [runs_intros]: "runs D (fail_with e) d (Err e) d"
  by (simp add: runs_def)

lemma runs_call:
  assumes "\<And>n. \<exists>n'. q (n, d) = (r, n', d')"
  shows "runs D (driver_call D q) d r d'"
  using assms by (force simp: runs_def driver_call_def fault_of_def split: option.splits)

lemma runs_query [runs_intros]: "runs D (query D f) d (Ok (f d)) d"
  unfolding query_def by (rule runs_call) simp

lemma runs_execute [runs_intros]: "f d = Some (x, d') \<Longrightarrow> runs D (execute D f) d (Ok x) d'"
  unfolding execute_def by (rule runs_call) simp

lemma runs_violation: "f d = None \<Longrightarrow> runs D (execute D f) d (Err (database_error (dv_violation D))) d"
  unfolding execute_def by (rule runs_call) simp

lemma runs_fetch [runs_intros]:
  assumes "list_all2 (\<lambda>r x. runs D (f r) d (Ok x) d) rs xs"
  shows "runs D (fetch_rows D f rs) d (Ok xs) d"
  using assms
proof (induction rs xs rule: list_all2_induct)
  case Nil
  show ?case by (auto intro!: runs_intros)
next
  case (Cons r rs x xs)
  then show ?case by (auto intro!: runs_intros)
qed

text \<open>What a transaction delivers: the result with the new state, or a fault with the old one.\<close>

definition delivered ::
  "driver \<Rightarrow> ('a, store_error) result \<times> 'c \<Rightarrow> 'c \<Rightarrow> ('a, store_error) result \<Rightarrow> 'c \<Rightarrow> bool" where
  "delivered D out c r c' \<longleftrightarrow> out = (r, c') \<or> (\<exists>e. fault_of D e \<and> out = (Err e, c))"

lemma delivered_write:
  assumes "runs D action (cn_tables c) r d" and "\<not> cn_poisoned c" and "r \<noteq> Panic"
  shows "delivered D (sqlite_write D action c) c r
    (case r of Ok _ \<Rightarrow> c\<lparr>cn_tables := d\<rparr> | _ \<Rightarrow> c)"
proof (cases r)
  case (Ok x)
  have "runs D (transaction D action) (cn_tables c) (Ok x) d"
    unfolding transaction_def
    by (rule runs_and_then [OF runs_query] runs_and_then [OF assms(1) [unfolded Ok]] runs_give)+
  then have "(\<exists>e st. fault_of D e \<and> transaction D action (0, cn_tables c) = (Err e, st)) \<or>
      (\<exists>n'. transaction D action (0, cn_tables c) = (Ok x, n', d))"
    unfolding runs_def by blast
  then show ?thesis
    using assms(2) by (elim disjE exE conjE) (force simp: delivered_def sqlite_write_def Ok split: prod.splits)+
next
  case (Err e)
  have "runs D (transaction D action) (cn_tables c) (Err e) d"
    unfolding transaction_def
    by (rule runs_and_then [OF runs_query] runs_stops [OF assms(1) [unfolded Err]])+
  then have "(\<exists>e' st. fault_of D e' \<and> transaction D action (0, cn_tables c) = (Err e', st)) \<or>
      (\<exists>n'. transaction D action (0, cn_tables c) = (Err e, n', d))"
    unfolding runs_def by blast
  then show ?thesis
    using assms(2) by (elim disjE exE conjE) (force simp: delivered_def sqlite_write_def Err split: prod.splits)+
qed (use assms(3) in simp)

lemma read_delivers:
  assumes "runs D action (cn_tables c) r d" and "\<not> cn_poisoned c"
  shows "sqlite_read action c = r \<or> (\<exists>e. fault_of D e \<and> sqlite_read action c = Err e)"
  using assms unfolding runs_def sqlite_read_def by (metis (no_types) fst_conv)

text \<open>Whatever fails, a failed write leaves the committed tables alone.\<close>

lemma sqlite_write_Err: "sqlite_write D action c = (Err e, c') \<Longrightarrow> c' = c"
  by (auto simp: sqlite_write_def split: if_splits prod.splits result.splits)


text \<open>Operations that only read.\<close>

named_theorems reads_intros \<open>rules for operations that leave the tables alone\<close>

definition reads_only :: "('a, 't) sql \<Rightarrow> bool" where
  "reads_only m \<longleftrightarrow> (\<forall>st. snd (snd (m st)) = snd st)"

lemma reads_only_basic [reads_intros]:
  "reads_only (give x)" "reads_only (lift_result r)" "reads_only (fail_with e)" "reads_only (query D f)"
  by (simp_all add: reads_only_def query_def driver_call_def split: option.splits)

lemma reads_only_and_then [reads_intros]:
  "reads_only m \<Longrightarrow> (\<And>x. reads_only (f x)) \<Longrightarrow> reads_only (and_then m f)"
  by (simp add: reads_only_def and_then_def split: prod.splits result.splits) (metis snd_conv)

lemma reads_onlyD: "reads_only m \<Longrightarrow> m st = (r, st') \<Longrightarrow> snd st' = snd st"
  unfolding reads_only_def by (metis snd_conv)

lemma reads_only_fetch [reads_intros]: "(\<And>r. reads_only (f r)) \<Longrightarrow> reads_only (fetch_rows D f rs)"
  by (induction rs) (auto intro!: reads_intros)

lemma query_Ok: "query D f st = (Ok x, st') \<Longrightarrow> x = f (snd st) \<and> snd st' = snd st"
  by (auto simp: query_def driver_call_def split: option.splits prod.splits)

end
