(* ===== verification/Sqlite_Rows.thy ===== *)
theory Sqlite_Rows imports Sqlite_Driver Memory_Store begin

section \<open>Tables and rows (src/records/sqlite.rs and its migrations)\<close>

text \<open>
  The tables of the migrated schema as lists of rows in insertion order, the constraints and
  triggers the migrations declare, and how a row becomes a snapshot, a run or a continuation.
  Text columns are byte strings, integer columns are signed 64-bit integers.
\<close>

subsection \<open>Tables\<close>

record session_row =
  sw_id :: string
  sw_next :: int

record run_row =
  nw_id :: string
  nw_session :: string
  nw_slot :: string
  nw_context :: string
  nw_config :: "string option"
  nw_continuation :: "string option"

record record_row =
  rw_id :: string
  rw_session :: string
  rw_run :: "string option"
  rw_sequence :: int
  rw_actor :: string
  rw_reply :: "string option"
  rw_source :: "string option"
  rw_payload :: string
  rw_state :: string
  rw_revision :: int
  rw_initial :: "string option"

record continuation_row =
  cw_id :: string
  cw_session :: string
  cw_adapter :: string
  cw_scope :: string
  cw_key :: string
  cw_predecessor :: "string option"
  cw_descriptor :: string
  cw_state :: string
  cw_latest :: bool

record relation_row =
  lw_child :: string
  lw_parent :: string
  lw_json :: string

record change_row =
  hw_record :: string
  hw_session :: string
  hw_position :: int

record version_row =
  vw_id :: string
  vw_revision :: string
  vw_media :: string
  vw_sha :: string

record tables =
  tb_sessions :: "session_row list"
  tb_runs :: "run_row list"
  tb_records :: "record_row list"
  tb_decisions :: "(string \<times> string) list"
  tb_continuations :: "continuation_row list"
  tb_relations :: "relation_row list"
  tb_epoch :: string
  tb_position :: int
  tb_changes :: "change_row list"
  tb_blobs :: "(string \<times> string) list"
  tb_versions :: "version_row list"

definition i64_max :: int where
  "i64_max = 9223372036854775807"

text \<open>A lookup by a unique column.\<close>

definition row_by :: "('r \<Rightarrow> 'k) \<Rightarrow> 'k \<Rightarrow> 'r list \<Rightarrow> 'r option" where
  "row_by key k rows = find (\<lambda>r. key r = k) rows"

definition has_row :: "('r \<Rightarrow> 'k) \<Rightarrow> 'k \<Rightarrow> 'r list \<Rightarrow> bool" where
  "has_row key k rows \<longleftrightarrow> (\<exists>r \<in> set rows. key r = k)"

lemma row_by_Some: "row_by key k rows = Some r \<Longrightarrow> r \<in> set rows \<and> key r = k"
  by (auto simp: row_by_def find_Some_iff)

lemma row_by_None: "row_by key k rows = None \<longleftrightarrow> \<not> has_row key k rows"
  by (auto simp: row_by_def has_row_def find_None_iff)

subsection \<open>Documents\<close>

record 'v initial_content =
  ic_payload :: "'v payload"
  ic_state :: record_state

record 'v formats =
  fm_parse :: "string \<Rightarrow> (nat \<times> 'v, string) result"
  fm_payload :: "('v payload, 'v) format"
  fm_source :: "(source_ref, 'v) format"
  fm_manifest :: "(context_manifest, 'v) format"
  fm_config :: "(run_configuration, 'v) format"
  fm_initial :: "('v initial_content, 'v) format"
  fm_continuation :: "('v continuation, 'v) format"
  fm_relation :: "(execution_relation, 'v) format"

subsection \<open>Columns\<close>

definition state_name :: "record_state \<Rightarrow> string" where
  "state_name s = (case s of Open \<Rightarrow> ''open'' | Complete \<Rightarrow> ''complete'' | Interrupted \<Rightarrow> ''interrupted'')"

definition parse_state :: "string \<Rightarrow> (record_state, store_error) result" where
  "parse_state s =
     (if s = ''open'' then Ok Open
      else if s = ''complete'' then Ok Complete
      else if s = ''interrupted'' then Ok Interrupted
      else Err (CorruptData ''invalid record state''))"

definition column_id :: "string \<Rightarrow> ('k ident, store_error) result" where
  "column_id s =
     map_err (\<lambda>_. CorruptData ''an identifier cannot be empty or whitespace-only'') (id_try_from s)"

definition column_number :: "int \<Rightarrow> (u64, store_error) result" where
  "column_number n =
     (if n < 0 then Err (CorruptData ''negative sequence or revision'') else Ok (word_of_int n))"

text \<open>\<open>x as i64\<close>\<close>

definition as_i64 :: "u64 \<Rightarrow> int" where
  "as_i64 x = sint x"

subsection \<open>Records\<close>

text \<open>\<open>rules::validate\<close> has one error, whose text is recorded.\<close>

definition check_stored :: "'v payload \<Rightarrow> record_state \<Rightarrow> (unit, store_error) result" where
  "check_stored p s = map_err (\<lambda>_. CorruptData ''record store: InvalidPayload'') (validate p s)"

definition row_current :: "'v formats \<Rightarrow> record_row \<Rightarrow> ('v snapshot, store_error) result" where
  "row_current K r =
     rbind (column_id (rw_id r)) (\<lambda>i.
     rbind (column_id (rw_session r)) (\<lambda>session.
     rbind (transpose_map column_id (rw_run r)) (\<lambda>run.
     rbind (column_number (rw_sequence r)) (\<lambda>sequence.
     rbind (column_id (rw_actor r)) (\<lambda>actor.
     rbind (transpose_map column_id (rw_reply r)) (\<lambda>reply.
     rbind (codec_decode (fm_parse K) (fm_payload K) (rw_payload r)) (\<lambda>payload.
     rbind (transpose_map (codec_decode (fm_parse K) (fm_source K)) (rw_source r)) (\<lambda>source.
     rbind (column_number (rw_revision r)) (\<lambda>revision.
     rbind (parse_state (rw_state r)) (\<lambda>state.
       Ok \<lparr>sn_record =
             \<lparr>r_id = i, r_session = session, r_run = run, r_sequence = sequence, r_actor = actor,
              r_reply = reply, r_payload = payload\<rparr>,
           sn_source = source, sn_revision = revision, sn_state = state\<rparr>))))))))))"

text \<open>\<open>RowData::decode\<close>\<close>

definition row_decode :: "'v formats \<Rightarrow> record_row \<Rightarrow> ('v entry, store_error) result" where
  "row_decode K r =
     rbind (row_current K r) (\<lambda>current.
     rbind (check_stored (r_payload (sn_record current)) (sn_state current)) (\<lambda>_.
       (case rw_initial r of
          Some s \<Rightarrow>
            rbind (codec_decode (fm_parse K) (fm_initial K) s) (\<lambda>content.
            rbind (check_stored (ic_payload content) (ic_state content)) (\<lambda>_.
              Ok \<lparr>en_initial = current
                    \<lparr>sn_record := (sn_record current)\<lparr>r_payload := ic_payload content\<rparr>,
                     sn_state := ic_state content, sn_revision := 0\<rparr>,
                  en_current = current\<rparr>))
        | None \<Rightarrow>
            if sn_revision current \<noteq> 0 then Err (CorruptData ''updated record has no creation snapshot'')
            else Ok \<lparr>en_initial = current, en_current = current\<rparr>)))"

definition sql_entry :: "driver \<Rightarrow> 'v formats \<Rightarrow> record_id \<Rightarrow> ('v entry option, tables) sql" where
  "sql_entry D K i =
     and_then (query D (\<lambda>d. row_by rw_id (as_str i) (tb_records d))) (\<lambda>row.
       lift_result (transpose_map (row_decode K) row))"

definition sql_session_sequence :: "driver \<Rightarrow> session_id \<Rightarrow> (int, tables) sql" where
  "sql_session_sequence D i =
     and_then (query D (\<lambda>d. map_option sw_next (row_by sw_id (as_str i) (tb_sessions d)))) (\<lambda>x.
       lift_result (ok_or MissingSession x))"

subsection \<open>Runs\<close>

definition run_decode :: "'v formats \<Rightarrow> run_id \<Rightarrow> run_row \<Rightarrow> (spec, store_error) result" where
  "run_decode K i r =
     rbind (column_id (nw_session r)) (\<lambda>session.
     rbind (column_id (nw_slot r)) (\<lambda>slot.
     rbind (codec_decode (fm_parse K) (fm_manifest K) (nw_context r)) (\<lambda>context.
     rbind (transpose_map (codec_decode (fm_parse K) (fm_config K)) (nw_config r)) (\<lambda>config.
     rbind (transpose_map column_id (nw_continuation r)) (\<lambda>continuation.
       Ok \<lparr>rs_id = i, rs_session = session, rs_slot = slot, rs_context = context,
           rs_config = (case config of Some c \<Rightarrow> c | None \<Rightarrow> default_run_configuration),
           rs_continuation = continuation\<rparr>)))))"

definition sql_read_run :: "driver \<Rightarrow> 'v formats \<Rightarrow> run_id \<Rightarrow> (spec option, tables) sql" where
  "sql_read_run D K i =
     and_then (query D (\<lambda>d. row_by nw_id (as_str i) (tb_runs d))) (\<lambda>row.
       lift_result (transpose_map (run_decode K i) row))"

subsection \<open>Statements\<close>

text \<open>
  The triggers of the change feed: every insertion and every new revision of a record moves
  it to the next position of the clock, which must stay an integer.
\<close>

definition next_position :: "tables \<Rightarrow> int option" where
  "next_position d = (if tb_position d < i64_max then Some (tb_position d + 1) else None)"

definition insert_change :: "record_row \<Rightarrow> tables \<Rightarrow> tables option" where
  "insert_change r d =
     (case next_position d of
        None \<Rightarrow> None
      | Some p \<Rightarrow>
          if has_row hw_record (rw_id r) (tb_changes d) \<or> has_row hw_position p (tb_changes d) then None
          else Some (d\<lparr>tb_position := p,
            tb_changes := tb_changes d @ [\<lparr>hw_record = rw_id r, hw_session = rw_session r, hw_position = p\<rparr>]\<rparr>))"

definition move_change :: "string \<Rightarrow> tables \<Rightarrow> tables option" where
  "move_change i d =
     (case next_position d of
        None \<Rightarrow> None
      | Some p \<Rightarrow>
          if has_row hw_record i (tb_changes d) \<and> has_row hw_position p (tb_changes d) then None
          else Some (d\<lparr>tb_position := p,
            tb_changes := map (\<lambda>h. if hw_record h = i then h\<lparr>hw_position := p\<rparr> else h) (tb_changes d)\<rparr>))"

text \<open>The constraints on a row of the records table.\<close>

definition record_row_ok :: "tables \<Rightarrow> record_row \<Rightarrow> bool" where
  "record_row_ok d r \<longleftrightarrow>
     \<not> has_row rw_id (rw_id r) (tb_records d) \<and>
     \<not> has_row (\<lambda>x. (rw_session x, rw_sequence x)) (rw_session r, rw_sequence r) (tb_records d) \<and>
     has_row sw_id (rw_session r) (tb_sessions d) \<and>
     0 \<le> rw_sequence r \<and>
     rw_state r \<in> {''open'', ''complete'', ''interrupted''} \<and>
     (\<forall>p. rw_reply r = Some p \<longrightarrow> p = rw_id r \<or> has_row rw_id p (tb_records d)) \<and>
     (\<forall>n. rw_run r = Some n \<longrightarrow> has_row (\<lambda>x. (nw_id x, nw_session x)) (n, rw_session r) (tb_runs d))"

definition insert_record :: "record_row \<Rightarrow> tables \<Rightarrow> tables option" where
  "insert_record r d =
     (if record_row_ok d r then insert_change r (d\<lparr>tb_records := tb_records d @ [r]\<rparr>) else None)"

definition bump_session :: "string \<Rightarrow> tables \<Rightarrow> tables option" where
  "bump_session i d =
     (if \<exists>x \<in> set (tb_sessions d). sw_id x = i \<and> \<not> sw_next x < i64_max then None
      else Some (d\<lparr>tb_sessions :=
        map (\<lambda>x. if sw_id x = i then x\<lparr>sw_next := sw_next x + 1\<rparr> else x) (tb_sessions d)\<rparr>))"

text \<open>The statement of \<open>update_row\<close>; it answers how many rows it changed.\<close>

definition update_record ::
  "string \<Rightarrow> int \<Rightarrow> string \<Rightarrow> string \<Rightarrow> int \<Rightarrow> string option \<Rightarrow> tables \<Rightarrow> (nat \<times> tables) option" where
  "update_record i expected payload state revision initial d =
     (let hit = (\<lambda>r. rw_id r = i \<and> rw_revision r = expected);
          n = length (filter hit (tb_records d));
          d' = d\<lparr>tb_records := map (\<lambda>r. if hit r
                 then r\<lparr>rw_payload := payload, rw_state := state, rw_revision := revision,
                        rw_initial := (case rw_initial r of Some s \<Rightarrow> Some s | None \<Rightarrow> initial)\<rparr>
                 else r) (tb_records d)\<rparr>
      in if n = 0 then Some (0, d)
         else if revision < 0 \<or> state \<notin> {''open'', ''complete'', ''interrupted''} then None
         else if revision = expected then Some (n, d')
         else map_option (\<lambda>d. (n, d)) (move_change i d'))"

definition as_statement :: "(tables \<Rightarrow> tables option) \<Rightarrow> tables \<Rightarrow> (unit \<times> tables) option" where
  "as_statement f d = map_option (\<lambda>d. ((), d)) (f d)"

lemma as_statement_Some [simp]: "as_statement f d = Some (u, d') \<longleftrightarrow> f d = Some d'"
  by (auto simp: as_statement_def)

end
