(* ===== verification/Sqlite_Store.thy ===== *)
theory Sqlite_Store imports Sqlite_Rows begin

section \<open>The SQLite store (src/records/sqlite.rs, sqlite/continuation.rs, sqlite/execution.rs)\<close>

text \<open>
  Every operation of \<open>RecordStore\<close>, \<open>ContinuationStore\<close> and \<open>ExecutionStore\<close> for
  \<open>SqliteStore\<close>, statement by statement, inside the transaction that \<open>write\<close> opens.
\<close>

type_synonym sqlite = "tables connection"

subsection \<open>Preparing and writing records\<close>

definition sql_prepare :: "driver \<Rightarrow> 'v formats \<Rightarrow> 'v draft \<Rightarrow> ('v snapshot, tables) sql" where
  "sql_prepare D K d =
     and_then (lift_result (validate (d_payload d) (d_state d))) (\<lambda>_.
     and_then (sql_session_sequence D (d_session d)) (\<lambda>sequence.
     if sequence = i64_max then fail_with SequenceExhausted
     else
       and_then (case d_run d of
           None \<Rightarrow> give ()
         | Some i \<Rightarrow>
             and_then (sql_read_run D K i) (\<lambda>x.
             and_then (lift_result (ok_or MissingRun x)) (\<lambda>run.
               if rs_session run \<noteq> d_session d then fail_with WrongSession else give ()))) (\<lambda>_.
       and_then (case d_reply d of
           None \<Rightarrow> give ()
         | Some i \<Rightarrow>
             and_then (sql_entry D K i) (\<lambda>x. if x = None then fail_with MissingRecord else give ())) (\<lambda>_.
         lift_result (rbind (column_number sequence) (\<lambda>n. Ok (snapshot_of d n)))))))"

text \<open>The row of a new record; its documents are written first.\<close>

definition record_row_of :: "'v formats \<Rightarrow> 'v snapshot \<Rightarrow> (record_row, store_error) result" where
  "record_row_of K x =
     rbind (transpose_map (codec_encode (fm_source K)) (sn_source x)) (\<lambda>source.
     rbind (codec_encode (fm_payload K) (r_payload (sn_record x))) (\<lambda>payload.
       Ok \<lparr>rw_id = as_str (r_id (sn_record x)), rw_session = as_str (r_session (sn_record x)),
           rw_run = map_option as_str (r_run (sn_record x)), rw_sequence = as_i64 (r_sequence (sn_record x)),
           rw_actor = as_str (r_actor (sn_record x)), rw_reply = map_option as_str (r_reply (sn_record x)),
           rw_source = source, rw_payload = payload, rw_state = state_name (sn_state x),
           rw_revision = 0, rw_initial = None\<rparr>))"

definition sql_insert_row :: "driver \<Rightarrow> 'v formats \<Rightarrow> 'v snapshot \<Rightarrow> (unit, tables) sql" where
  "sql_insert_row D K x =
     and_then (lift_result (record_row_of K x)) (\<lambda>row.
     and_then (execute D (as_statement (insert_record row))) (\<lambda>_.
       execute D (as_statement (bump_session (as_str (r_session (sn_record x)))))))"

definition revision_i64 :: "u64 \<Rightarrow> (int, store_error) result" where
  "revision_i64 n = (if unat n \<le> nat i64_max then Ok (int (unat n)) else Err SequenceExhausted)"

definition sql_update_row :: "driver \<Rightarrow> 'v formats \<Rightarrow> 'v snapshot \<Rightarrow> 'v snapshot \<Rightarrow> (unit, tables) sql" where
  "sql_update_row D K old new =
     (if old = new then give ()
      else
        and_then (lift_result (revision_i64 (sn_revision new))) (\<lambda>revision.
        and_then (lift_result
            (if sn_revision old = 0
             then rbind (codec_encode (fm_initial K)
                    \<lparr>ic_payload = r_payload (sn_record old), ic_state = sn_state old\<rparr>) (\<lambda>s. Ok (Some s))
             else Ok None)) (\<lambda>initial.
        and_then (lift_result (codec_encode (fm_payload K) (r_payload (sn_record new)))) (\<lambda>payload.
        and_then (execute D (update_record (as_str (r_id (sn_record old))) (as_i64 (sn_revision old))
            payload (state_name (sn_state new)) revision initial)) (\<lambda>changed.
          if changed \<noteq> 1 then fail_with RevisionConflict else give ())))))"

subsection \<open>RecordStore\<close>

definition insert_session :: "string \<Rightarrow> tables \<Rightarrow> tables option" where
  "insert_session i d =
     (if has_row sw_id i (tb_sessions d) then Some d
      else Some (d\<lparr>tb_sessions := tb_sessions d @ [\<lparr>sw_id = i, sw_next = 0\<rparr>]\<rparr>))"

definition sqlite_create_session :: "driver \<Rightarrow> session_id \<Rightarrow> sqlite \<Rightarrow> (unit, store_error) result \<times> sqlite" where
  "sqlite_create_session D i = sqlite_write D (execute D (as_statement (insert_session (as_str i))))"

definition sql_continuation_usable :: "driver \<Rightarrow> 'v formats \<Rightarrow> spec \<Rightarrow>
    (continuation_id \<Rightarrow> ('v continuation_record option, tables) sql) \<Rightarrow> (unit, tables) sql" where
  "sql_continuation_usable D K spec read =
     (case rs_continuation spec of
        None \<Rightarrow> give ()
      | Some i \<Rightarrow>
          and_then (read i) (\<lambda>x.
          and_then (lift_result (ok_or MissingContinuation x)) (\<lambda>saved.
            if continuation_usable spec saved then give () else fail_with InvalidContinuation)))"

fun sql_context_final :: "driver \<Rightarrow> 'v formats \<Rightarrow> record_id list \<Rightarrow> (unit, tables) sql" where
  "sql_context_final D K [] = give ()"
| "sql_context_final D K (i # is) =
     and_then (sql_entry D K i) (\<lambda>x.
     and_then (lift_result (ok_or MissingRecord x)) (\<lambda>existing.
       if \<not> is_final (sn_state (en_current existing)) then fail_with OpenContextRecord
       else sql_context_final D K is))"

definition run_row_of :: "'v formats \<Rightarrow> spec \<Rightarrow> (run_row, store_error) result" where
  "run_row_of K spec =
     rbind (codec_encode (fm_manifest K) (rs_context spec)) (\<lambda>context.
     rbind (codec_encode (fm_config K) (rs_config spec)) (\<lambda>config.
       Ok \<lparr>nw_id = as_str (rs_id spec), nw_session = as_str (rs_session spec), nw_slot = as_str (rs_slot spec),
           nw_context = context, nw_config = Some config,
           nw_continuation = map_option as_str (rs_continuation spec)\<rparr>))"

definition insert_run :: "run_row \<Rightarrow> tables \<Rightarrow> tables option" where
  "insert_run r d =
     (if has_row nw_id (nw_id r) (tb_runs d) \<or> \<not> has_row sw_id (nw_session r) (tb_sessions d) \<or>
         (\<exists>i. nw_continuation r = Some i \<and> \<not> has_row cw_id i (tb_continuations d))
      then None else Some (d\<lparr>tb_runs := tb_runs d @ [r]\<rparr>))"

subsection \<open>Continuations\<close>

definition continuation_state_of :: "string \<Rightarrow> (continuation_state, store_error) result" where
  "continuation_state_of s =
     (if s = ''available'' then Ok Available
      else if s = ''claimed'' then Ok Claimed
      else Err (CorruptData ''invalid continuation state''))"

definition continuation_decode ::
  "'v formats \<Rightarrow> continuation_id \<Rightarrow> continuation_row \<Rightarrow> ('v continuation_record, store_error) result" where
  "continuation_decode K i r =
     rbind (codec_decode (fm_parse K) (fm_continuation K) (cw_descriptor r)) (\<lambda>c.
     rbind (continuation_validate c) (\<lambda>_.
       if k_id c \<noteq> i \<or> as_str (k_session c) \<noteq> cw_session r \<or> k_adapter c \<noteq> cw_adapter r \<or>
          k_scope c \<noteq> cw_scope r \<or> k_native_key c \<noteq> cw_key r \<or>
          map_option as_str (k_predecessor c) \<noteq> cw_predecessor r
       then Err (CorruptData ''continuation descriptor does not match its indexed identity'')
       else
         rbind (continuation_state_of (cw_state r)) (\<lambda>state.
           Ok \<lparr>cr_continuation = c, cr_state = state, cr_latest = cw_latest r\<rparr>)))"

definition sql_read_continuation ::
  "driver \<Rightarrow> 'v formats \<Rightarrow> continuation_id \<Rightarrow> ('v continuation_record option, tables) sql" where
  "sql_read_continuation D K i =
     and_then (query D (\<lambda>d. row_by cw_id (as_str i) (tb_continuations d))) (\<lambda>row.
       lift_result (transpose_map (continuation_decode K i) row))"

definition row_native_key :: "continuation_row \<Rightarrow> native_key" where
  "row_native_key r = (cw_adapter r, cw_scope r, cw_key r)"

text \<open>The row with \<open>latest = 1\<close> of a native key; the partial index allows at most one.\<close>

definition latest_row :: "native_key \<Rightarrow> tables \<Rightarrow> continuation_row option" where
  "latest_row key d = find (\<lambda>r. row_native_key r = key \<and> cw_latest r) (tb_continuations d)"

definition demote_row :: "string \<Rightarrow> tables \<Rightarrow> tables option" where
  "demote_row i d =
     Some (d\<lparr>tb_continuations :=
       map (\<lambda>r. if cw_id r = i then r\<lparr>cw_latest := False\<rparr> else r) (tb_continuations d)\<rparr>)"

definition insert_continuation :: "continuation_row \<Rightarrow> tables \<Rightarrow> tables option" where
  "insert_continuation r d =
     (if has_row cw_id (cw_id r) (tb_continuations d) \<or> \<not> has_row sw_id (cw_session r) (tb_sessions d) \<or>
         (\<exists>p. cw_predecessor r = Some p \<and>
            (p \<noteq> cw_id r \<and> \<not> has_row cw_id p (tb_continuations d) \<or>
             has_row cw_predecessor (Some p) (tb_continuations d))) \<or>
         cw_latest r \<and> latest_row (row_native_key r) d \<noteq> None
      then None else Some (d\<lparr>tb_continuations := tb_continuations d @ [r]\<rparr>))"

definition continuation_row_of :: "'v formats \<Rightarrow> 'v continuation \<Rightarrow> (continuation_row, store_error) result" where
  "continuation_row_of K c =
     rbind (codec_encode (fm_continuation K) c) (\<lambda>descriptor.
       Ok \<lparr>cw_id = as_str (k_id c), cw_session = as_str (k_session c), cw_adapter = k_adapter c,
           cw_scope = k_scope c, cw_key = k_native_key c, cw_predecessor = map_option as_str (k_predecessor c),
           cw_descriptor = descriptor, cw_state = ''available'', cw_latest = True\<rparr>)"

definition sql_previous ::
  "driver \<Rightarrow> 'v formats \<Rightarrow> 'v continuation \<Rightarrow> ('v continuation_record option, tables) sql" where
  "sql_previous D K c =
     and_then (query D (\<lambda>d. map_option cw_id (latest_row (continuation_key c) d))) (\<lambda>x.
       (case x of
          None \<Rightarrow> give None
        | Some i \<Rightarrow> and_then (lift_result (column_id i)) (sql_read_continuation D K)))"

definition sql_save_continuation ::
  "driver \<Rightarrow> 'v formats \<Rightarrow> 'v continuation \<Rightarrow> ('v continuation_record, tables) sql" where
  "sql_save_continuation D K c =
     and_then (sql_session_sequence D (k_session c)) (\<lambda>_.
     and_then (lift_result (continuation_validate c)) (\<lambda>_.
     and_then (sql_read_continuation D K (k_id c)) (\<lambda>existing.
       (case existing of
          Some r \<Rightarrow> lift_result (if cr_continuation r = c then Ok r else Err IdentityConflict)
        | None \<Rightarrow>
            and_then (sql_previous D K c) (\<lambda>previous.
            and_then (lift_result (validate_successor c previous)) (\<lambda>_.
            and_then (case previous of
                None \<Rightarrow> give ()
              | Some p \<Rightarrow> execute D (as_statement (demote_row (as_str (k_id (cr_continuation p)))))) (\<lambda>_.
            and_then (lift_result (continuation_row_of K c)) (\<lambda>row.
            and_then (execute D (as_statement (insert_continuation row))) (\<lambda>_.
              give (fresh_record c))))))))))"

definition sqlite_save_continuation ::
  "driver \<Rightarrow> 'v formats \<Rightarrow> 'v continuation \<Rightarrow> sqlite \<Rightarrow> ('v continuation_record, store_error) result \<times> sqlite" where
  "sqlite_save_continuation D K c = sqlite_write D (sql_save_continuation D K c)"

definition sqlite_get_continuation ::
  "driver \<Rightarrow> 'v formats \<Rightarrow> continuation_id \<Rightarrow> sqlite \<Rightarrow> ('v continuation_record, store_error) result" where
  "sqlite_get_continuation D K i =
     sqlite_read (and_then (sql_read_continuation D K i) (\<lambda>x. lift_result (ok_or MissingContinuation x)))"

definition claim_row :: "string \<Rightarrow> tables \<Rightarrow> tables option" where
  "claim_row i d =
     Some (d\<lparr>tb_continuations :=
       map (\<lambda>r. if cw_id r = i then r\<lparr>cw_state := ''claimed''\<rparr> else r) (tb_continuations d)\<rparr>)"

definition sql_claim_continuation ::
  "driver \<Rightarrow> 'v formats \<Rightarrow> continuation_id \<Rightarrow> ('v continuation_record, tables) sql" where
  "sql_claim_continuation D K i =
     and_then (sql_read_continuation D K i) (\<lambda>x.
     and_then (lift_result (ok_or MissingContinuation x)) (\<lambda>r.
       if cr_state r \<noteq> Available \<or> \<not> cr_latest r then fail_with ContinuationClaimed
       else
         and_then (execute D (as_statement (claim_row (as_str i)))) (\<lambda>_.
           give (r\<lparr>cr_state := Claimed\<rparr>))))"

definition sqlite_claim_continuation ::
  "driver \<Rightarrow> 'v formats \<Rightarrow> continuation_id \<Rightarrow> sqlite \<Rightarrow> ('v continuation_record, store_error) result \<times> sqlite" where
  "sqlite_claim_continuation D K i = sqlite_write D (sql_claim_continuation D K i)"

subsection \<open>Runs and records\<close>

definition sql_register_run :: "driver \<Rightarrow> 'v formats \<Rightarrow> spec \<Rightarrow> (bool, tables) sql" where
  "sql_register_run D K spec =
     and_then (sql_read_run D K (rs_id spec)) (\<lambda>existing.
       (case existing of
          Some e \<Rightarrow> lift_result (if e = spec then Ok False else Err IdentityConflict)
        | None \<Rightarrow>
            and_then (sql_session_sequence D (rs_session spec)) (\<lambda>_.
            and_then (sql_continuation_usable D K spec (sql_read_continuation D K)) (\<lambda>_.
            and_then (sql_context_final D K (cm_records (rs_context spec))) (\<lambda>_.
            and_then (lift_result (run_row_of K spec)) (\<lambda>row.
            and_then (execute D (as_statement (insert_run row))) (\<lambda>_.
              give True)))))))"

definition sqlite_register_run ::
  "driver \<Rightarrow> 'v formats \<Rightarrow> spec \<Rightarrow> sqlite \<Rightarrow> (bool, store_error) result \<times> sqlite" where
  "sqlite_register_run D K spec = sqlite_write D (sql_register_run D K spec)"

definition sql_insert :: "driver \<Rightarrow> 'v formats \<Rightarrow> 'v draft \<Rightarrow> ('v snapshot, tables) sql" where
  "sql_insert D K d =
     (if is_response (d_payload d) then fail_with InvalidDecision
      else
        and_then (sql_entry D K (d_id d)) (\<lambda>existing.
          (case existing of
             Some en \<Rightarrow> lift_result (if same_draft (en_initial en) d then Ok (en_current en) else Err IdentityConflict)
           | None \<Rightarrow>
               if is_request (d_payload d) \<and> d_state d \<noteq> Open then fail_with InvalidPayload
               else
                 and_then (sql_prepare D K d) (\<lambda>x.
                 and_then (sql_insert_row D K x) (\<lambda>_. give x)))))"

definition sqlite_insert ::
  "driver \<Rightarrow> 'v formats \<Rightarrow> 'v draft \<Rightarrow> sqlite \<Rightarrow> ('v snapshot, store_error) result \<times> sqlite" where
  "sqlite_insert D K d = sqlite_write D (sql_insert D K d)"

definition sql_checkpoint ::
  "driver \<Rightarrow> 'v formats \<Rightarrow> record_id \<Rightarrow> u64 \<Rightarrow> 'v payload \<Rightarrow> record_state \<Rightarrow> ('v snapshot, tables) sql" where
  "sql_checkpoint D K i expected p state =
     and_then (sql_entry D K i) (\<lambda>x.
     and_then (lift_result (ok_or MissingRecord x)) (\<lambda>en.
     and_then (lift_result (rules_checkpoint (en_current en) expected p state)) (\<lambda>new.
     and_then (sql_update_row D K (en_current en) new) (\<lambda>_. give new))))"

definition sqlite_checkpoint ::
  "driver \<Rightarrow> 'v formats \<Rightarrow> record_id \<Rightarrow> u64 \<Rightarrow> 'v payload \<Rightarrow> record_state \<Rightarrow> sqlite \<Rightarrow>
   ('v snapshot, store_error) result \<times> sqlite" where
  "sqlite_checkpoint D K i expected p state = sqlite_write D (sql_checkpoint D K i expected p state)"

definition insert_decision :: "string \<Rightarrow> string \<Rightarrow> tables \<Rightarrow> tables option" where
  "insert_decision request response d =
     (if has_row fst request (tb_decisions d) \<or> has_row snd response (tb_decisions d) \<or>
         \<not> has_row rw_id request (tb_records d) \<or> \<not> has_row rw_id response (tb_records d)
      then None else Some (d\<lparr>tb_decisions := tb_decisions d @ [(request, response)]\<rparr>))"

definition sql_resolve ::
  "driver \<Rightarrow> 'v formats \<Rightarrow> record_id \<Rightarrow> u64 \<Rightarrow> 'v draft \<Rightarrow> ('v snapshot, tables) sql" where
  "sql_resolve D K request expected d =
     and_then (query D (\<lambda>t. map_option snd (row_by fst (as_str request) (tb_decisions t)))) (\<lambda>decided.
       (case decided of
          Some response \<Rightarrow>
            and_then (lift_result (column_id response)) (\<lambda>i.
            and_then (sql_entry D K i) (\<lambda>x.
            and_then (lift_result (ok_or MissingRecord x)) (\<lambda>en.
              lift_result (if same_draft (en_initial en) d then Ok (en_current en) else Err AlreadyResolved))))
        | None \<Rightarrow>
            and_then (sql_entry D K (d_id d)) (\<lambda>taken.
              if taken \<noteq> None then fail_with IdentityConflict
              else
                and_then (sql_entry D K request) (\<lambda>x.
                and_then (lift_result (ok_or MissingRecord x)) (\<lambda>en.
                and_then (lift_result (resolve_request (en_current en) expected d)) (\<lambda>resolved.
                and_then (sql_prepare D K d) (\<lambda>response.
                and_then (sql_update_row D K (en_current en) resolved) (\<lambda>_.
                and_then (sql_insert_row D K response) (\<lambda>_.
                and_then (execute D (as_statement
                    (insert_decision (as_str request) (as_str (r_id (sn_record response)))))) (\<lambda>_.
                  give response))))))))))"

definition sqlite_resolve ::
  "driver \<Rightarrow> 'v formats \<Rightarrow> record_id \<Rightarrow> u64 \<Rightarrow> 'v draft \<Rightarrow> sqlite \<Rightarrow> ('v snapshot, store_error) result \<times> sqlite" where
  "sqlite_resolve D K request expected d = sqlite_write D (sql_resolve D K request expected d)"

definition sqlite_get :: "driver \<Rightarrow> 'v formats \<Rightarrow> record_id \<Rightarrow> sqlite \<Rightarrow> ('v snapshot, store_error) result" where
  "sqlite_get D K i =
     sqlite_read (and_then (sql_entry D K i) (\<lambda>x. lift_result (ok_or MissingRecord (map_option en_current x))))"

definition sqlite_get_run :: "driver \<Rightarrow> 'v formats \<Rightarrow> run_id \<Rightarrow> sqlite \<Rightarrow> (spec, store_error) result" where
  "sqlite_get_run D K i =
     sqlite_read (and_then (sql_read_run D K i) (\<lambda>x. lift_result (ok_or MissingRun x)))"

text \<open>The page query: \<open>sequence > after ORDER BY sequence LIMIT limit\<close>.\<close>

definition page_rows :: "string \<Rightarrow> int \<Rightarrow> nat \<Rightarrow> tables \<Rightarrow> record_row list" where
  "page_rows session after limit d =
     take limit (sort_key rw_sequence
       (filter (\<lambda>r. rw_session r = session \<and> after < rw_sequence r) (tb_records d)))"

definition decode_current :: "'v formats \<Rightarrow> record_row \<Rightarrow> ('v snapshot, tables) sql" where
  "decode_current K r = lift_result (rbind (row_decode K r) (\<lambda>en. Ok (en_current en)))"

definition sql_list :: "driver \<Rightarrow> 'v formats \<Rightarrow> session_id \<Rightarrow> u64 option \<Rightarrow> nat \<Rightarrow> ('v snapshot list, tables) sql" where
  "sql_list D K session after limit =
     and_then (sql_session_sequence D session) (\<lambda>_.
       (case (case after of
                None \<Rightarrow> Some (-1)
              | Some n \<Rightarrow> if unat n \<le> nat i64_max then Some (int (unat n)) else None) of
          None \<Rightarrow> give []
        | Some after \<Rightarrow>
            and_then (query D (\<lambda>_. ())) (\<lambda>_.
            and_then (query D (page_rows (as_str session) after limit)) (\<lambda>rows.
              fetch_rows D (decode_current K) rows))))"

definition sqlite_list ::
  "driver \<Rightarrow> 'v formats \<Rightarrow> session_id \<Rightarrow> u64 option \<Rightarrow> nat \<Rightarrow> sqlite \<Rightarrow> ('v snapshot list, store_error) result" where
  "sqlite_list D K session after limit c =
     (if \<not> (1 \<le> limit \<and> limit \<le> 1000) then Err InvalidPageSize
      else sqlite_read (sql_list D K session after limit) c)"

subsection \<open>Execution relations\<close>

definition relation_decode ::
  "'v formats \<Rightarrow> run_id \<Rightarrow> relation_row \<Rightarrow> (execution_relation, store_error) result" where
  "relation_decode K child r =
     rbind (codec_decode (fm_parse K) (fm_relation K) (lw_json r)) (\<lambda>e.
       if er_child e \<noteq> child \<or> as_str (er_parent e) \<noteq> lw_parent r
       then Err (CorruptData ''execution relation identity mismatch'') else Ok e)"

definition sql_read_relation ::
  "driver \<Rightarrow> 'v formats \<Rightarrow> run_id \<Rightarrow> (execution_relation option, tables) sql" where
  "sql_read_relation D K child =
     and_then (query D (\<lambda>d. row_by lw_child (as_str child) (tb_relations d))) (\<lambda>row.
       (case row of
          None \<Rightarrow> give None
        | Some r \<Rightarrow>
            and_then (lift_result (relation_decode K child r)) (\<lambda>e.
            and_then (sql_read_run D K (er_parent e)) (\<lambda>x.
            and_then (lift_result (ok_or MissingRun x)) (\<lambda>parent.
            and_then (sql_read_run D K child) (\<lambda>y.
            and_then (lift_result (ok_or MissingRun y)) (\<lambda>spec.
            and_then (lift_result (map_err (\<lambda>_. CorruptData ''invalid execution relation'')
                (relation_validate e parent spec))) (\<lambda>_.
              give (Some e)))))))))"

text \<open>The loop over the recorded children of the new child.\<close>

fun sql_descendants_fit ::
  "driver \<Rightarrow> 'v formats \<Rightarrow> execution_relation \<Rightarrow> string list \<Rightarrow> (unit, tables) sql" where
  "sql_descendants_fit D K e [] = give ()"
| "sql_descendants_fit D K e (s # ss) =
     and_then (lift_result (column_id s)) (\<lambda>i.
     and_then (sql_read_relation D K i) (\<lambda>x.
       if \<exists>edge. x = Some edge \<and> er_parent_authority edge \<noteq> er_child_authority e
       then fail_with InvalidExecutionRelation
       else sql_descendants_fit D K e ss))"

fun sql_context_in_session ::
  "driver \<Rightarrow> 'v formats \<Rightarrow> session_id \<Rightarrow> record_id list \<Rightarrow> (unit, tables) sql" where
  "sql_context_in_session D K sess [] = give ()"
| "sql_context_in_session D K sess (i # is) =
     and_then (sql_entry D K i) (\<lambda>x.
     and_then (lift_result (ok_or MissingRecord x)) (\<lambda>en.
       if r_session (sn_record (en_current en)) \<noteq> sess then fail_with WrongSession
       else sql_context_in_session D K sess is))"

lemma sql_read_relation_reads [reads_intros]: "reads_only (sql_read_relation D K i)"
  unfolding sql_read_relation_def sql_read_run_def by (auto intro!: reads_intros split: option.splits)

lemma sql_read_relation_row:
  "sql_read_relation D K i st = (Ok (Some e), st') \<Longrightarrow> as_str i \<in> lw_child ` set (tb_relations (snd st))"
  by (auto simp: sql_read_relation_def and_then_def image_iff dest!: query_Ok
      split: result.splits prod.splits option.splits) (metis row_by_Some)

text \<open>
  The walk from the parent up. It ends because the runs it has seen are distinct children of
  recorded relations.
\<close>

function sql_ancestors ::
  "driver \<Rightarrow> 'v formats \<Rightarrow> run_id \<Rightarrow> run_id \<Rightarrow> run_id list \<Rightarrow> (unit, tables) sql" where
  "sql_ancestors D K child ancestor visited st =
     (if ancestor = child \<or> ancestor \<in> set visited then (Err ExecutionCycle, st)
      else
        (case sql_read_relation D K ancestor st of
           (Ok (Some edge), st') \<Rightarrow> sql_ancestors D K child (er_parent edge) (ancestor # visited) st'
         | (Ok None, st') \<Rightarrow> (Ok (), st')
         | (Err e, st') \<Rightarrow> (Err e, st')
         | (Panic, st') \<Rightarrow> (Panic, st')))"
  by pat_completeness auto
termination
proof (relation "measure (\<lambda>(D, K, child, a, visited, st).
    card (lw_child ` set (tb_relations (snd st)) - as_str ` set visited))", goal_cases)
  case 1
  show ?case by simp
next
  case (2 D K child a visited st y st' x edge)
  then have read: "sql_read_relation D K a st = (Ok (Some edge), st')" by simp
  have "snd st' = snd st" by (rule reads_onlyD [OF sql_read_relation_reads read])
  moreover have "as_str a \<in> lw_child ` set (tb_relations (snd st))" by (rule sql_read_relation_row [OF read])
  moreover have "as_str a \<notin> as_str ` set visited" using 2(1) by (auto dest: ident.expand)
  ultimately have "lw_child ` set (tb_relations (snd st')) - as_str ` set (a # visited)
      \<subset> lw_child ` set (tb_relations (snd st)) - as_str ` set visited" by auto
  then show ?case by (simp add: psubset_card_mono)
qed

declare sql_ancestors.simps [simp del]

definition relation_row_of :: "'v formats \<Rightarrow> execution_relation \<Rightarrow> (relation_row, store_error) result" where
  "relation_row_of K e =
     rbind (codec_encode (fm_relation K) e) (\<lambda>json.
       Ok \<lparr>lw_child = as_str (er_child e), lw_parent = as_str (er_parent e), lw_json = json\<rparr>)"

definition insert_relation :: "relation_row \<Rightarrow> tables \<Rightarrow> tables option" where
  "insert_relation r d =
     (if has_row lw_child (lw_child r) (tb_relations d) \<or> \<not> has_row nw_id (lw_child r) (tb_runs d) \<or>
         \<not> has_row nw_id (lw_parent r) (tb_runs d) \<or> lw_child r = lw_parent r
      then None else Some (d\<lparr>tb_relations := tb_relations d @ [r]\<rparr>))"

definition child_rows :: "string \<Rightarrow> tables \<Rightarrow> string list" where
  "child_rows parent d = map lw_child (filter (\<lambda>r. lw_parent r = parent) (tb_relations d))"

definition sql_link_execution :: "driver \<Rightarrow> 'v formats \<Rightarrow> execution_relation \<Rightarrow> (execution_relation, tables) sql" where
  "sql_link_execution D K e =
     and_then (sql_read_relation D K (er_child e)) (\<lambda>existing.
       (case existing of
          Some x \<Rightarrow> lift_result (if x = e then Ok x else Err ExecutionRelationConflict)
        | None \<Rightarrow>
            and_then (sql_read_run D K (er_parent e)) (\<lambda>x.
            and_then (lift_result (ok_or MissingRun x)) (\<lambda>parent.
            and_then (sql_read_run D K (er_child e)) (\<lambda>y.
            and_then (lift_result (ok_or MissingRun y)) (\<lambda>child.
            and_then (lift_result (relation_validate e parent child)) (\<lambda>_.
            and_then (sql_read_relation D K (er_parent e)) (\<lambda>up.
              if \<exists>edge. up = Some edge \<and> er_child_authority edge \<noteq> er_parent_authority e
              then fail_with InvalidExecutionRelation
              else
                and_then (query D (\<lambda>_. ())) (\<lambda>_.
                and_then (query D (child_rows (as_str (er_child e)))) (\<lambda>rows.
                and_then (fetch_rows D give rows) (\<lambda>descendants.
                and_then (sql_descendants_fit D K e descendants) (\<lambda>_.
                and_then (sql_context_in_session D K (rs_session child) (cm_records (rs_context child))) (\<lambda>_.
                and_then (sql_ancestors D K (er_child e) (er_parent e) []) (\<lambda>_.
                and_then (lift_result (relation_row_of K e)) (\<lambda>row.
                and_then (execute D (as_statement (insert_relation row))) (\<lambda>_.
                  give e))))))))))))))))"

definition sqlite_link_execution ::
  "driver \<Rightarrow> 'v formats \<Rightarrow> execution_relation \<Rightarrow> sqlite \<Rightarrow> (execution_relation, store_error) result \<times> sqlite" where
  "sqlite_link_execution D K e = sqlite_write D (sql_link_execution D K e)"

definition sqlite_execution_parent ::
  "driver \<Rightarrow> 'v formats \<Rightarrow> run_id \<Rightarrow> sqlite \<Rightarrow> (execution_relation option, store_error) result" where
  "sqlite_execution_parent D K child = sqlite_read (sql_read_relation D K child)"

fun sql_children :: "driver \<Rightarrow> 'v formats \<Rightarrow> string list \<Rightarrow> (execution_relation list, tables) sql" where
  "sql_children D K [] = give []"
| "sql_children D K (s # ss) =
     and_then (lift_result (column_id s)) (\<lambda>i.
     and_then (sql_read_relation D K i) (\<lambda>x.
     and_then (lift_result (ok_or MissingRun x)) (\<lambda>e.
     and_then (sql_children D K ss) (\<lambda>es. give (e # es)))))"

definition sqlite_execution_children ::
  "driver \<Rightarrow> 'v formats \<Rightarrow> run_id \<Rightarrow> sqlite \<Rightarrow> (execution_relation list, store_error) result" where
  "sqlite_execution_children D K parent =
     sqlite_read
       (and_then (query D (\<lambda>_. ())) (\<lambda>_.
        and_then (query D (\<lambda>d. sort_key (\<lambda>s. s) (child_rows (as_str parent) d))) (\<lambda>rows.
        and_then (fetch_rows D give rows) (sql_children D K))))"

end
