(* ===== verification/Sqlite_View.thy ===== *)
theory Sqlite_View imports Sqlite_Store Memory_Contracts begin

section \<open>What the tables mean\<close>

text \<open>
  The abstraction of the SQLite tables: the state of the in-memory store they represent. The
  invariant says that every row decodes, that keys are unique, that the rows of a session
  carry consecutive sequence numbers, that the change feed has one position per record, and
  that the represented state satisfies the invariant of the in-memory store.
\<close>

subsection \<open>The represented state\<close>

definition ok_value :: "('a, 'e) result \<Rightarrow> 'a option" where
  "ok_value r = (case r of Ok x \<Rightarrow> Some x | _ \<Rightarrow> None)"

lemma ok_value_simps [simp]: "ok_value (Ok x) = Some x" "ok_value (Err e) = None" "ok_value Panic = None"
  by (simp_all add: ok_value_def)

definition session_rows :: "string \<Rightarrow> tables \<Rightarrow> record_row list" where
  "session_rows i d = filter (\<lambda>r. rw_session r = i) (tb_records d)"

definition view_sessions :: "tables \<Rightarrow> session_id \<rightharpoonup> record_id list" where
  "view_sessions d i =
     map_option (\<lambda>_. map (\<lambda>r. Ident (rw_id r)) (session_rows (as_str i) d)) (row_by sw_id (as_str i) (tb_sessions d))"

definition view_records :: "'v formats \<Rightarrow> tables \<Rightarrow> record_id \<rightharpoonup> 'v entry" where
  "view_records K d i = Option.bind (row_by rw_id (as_str i) (tb_records d)) (\<lambda>r. ok_value (row_decode K r))"

definition view_runs :: "'v formats \<Rightarrow> tables \<Rightarrow> run_id \<rightharpoonup> spec" where
  "view_runs K d i = Option.bind (row_by nw_id (as_str i) (tb_runs d)) (\<lambda>r. ok_value (run_decode K i r))"

definition view_decisions :: "tables \<Rightarrow> record_id \<rightharpoonup> record_id" where
  "view_decisions d i = map_option (\<lambda>p. Ident (snd p)) (row_by fst (as_str i) (tb_decisions d))"

definition view_continuations :: "'v formats \<Rightarrow> tables \<Rightarrow> continuation_id \<rightharpoonup> 'v continuation_record" where
  "view_continuations K d i =
     Option.bind (row_by cw_id (as_str i) (tb_continuations d)) (\<lambda>r. ok_value (continuation_decode K i r))"

definition view_latest :: "tables \<Rightarrow> native_key \<rightharpoonup> continuation_id" where
  "view_latest d key = map_option (\<lambda>r. Ident (cw_id r)) (latest_row key d)"

definition view_relation :: "'v formats \<Rightarrow> relation_row \<Rightarrow> (run_id \<times> execution_relation) option" where
  "view_relation K r = map_option (\<lambda>e. (Ident (lw_child r), e)) (ok_value (relation_decode K (Ident (lw_child r)) r))"

definition view_relations :: "'v formats \<Rightarrow> tables \<Rightarrow> relations" where
  "view_relations K d = List.map_filter (view_relation K) (tb_relations d)"

definition tables_view :: "'v formats \<Rightarrow> tables \<Rightarrow> 'v memory_state" where
  "tables_view K d =
     \<lparr>ms_poisoned = False, ms_relations = view_relations K d,
      ms_continuations = \<lparr>reg_records = view_continuations K d, reg_latest = view_latest d\<rparr>,
      ms_sessions = view_sessions d, ms_runs = view_runs K d, ms_records = view_records K d,
      ms_decisions = view_decisions d\<rparr>"

lemma tables_view_sel [simp]:
  "ms_poisoned (tables_view K d) = False"
  "ms_relations (tables_view K d) = view_relations K d"
  "ms_continuations (tables_view K d) = \<lparr>reg_records = view_continuations K d, reg_latest = view_latest d\<rparr>"
  "ms_sessions (tables_view K d) = view_sessions d"
  "ms_runs (tables_view K d) = view_runs K d"
  "ms_records (tables_view K d) = view_records K d"
  "ms_decisions (tables_view K d) = view_decisions d"
  by (simp_all add: tables_view_def)

subsection \<open>The invariant\<close>

text \<open>
  A payload that serde reads back as it was written: in its own document, and in the initial document
  that the first revision of the record keeps, where it is nested one level deeper.
\<close>

definition payload_storable :: "'v formats \<Rightarrow> 'v payload \<Rightarrow> bool" where
  "payload_storable K p \<longleftrightarrow>
     reads_back (fm_parse K) (fm_payload K) p \<and>
     (\<forall>s. reads_back (fm_parse K) (fm_initial K) \<lparr>ic_payload = p, ic_state = s\<rparr>)"

definition record_row_wf :: "'v formats \<Rightarrow> record_row \<Rightarrow> bool" where
  "record_row_wf K r \<longleftrightarrow>
     (\<exists>en. row_decode K r = Ok en \<and> payload_storable K (r_payload (sn_record (en_current en)))) \<and>
     (rw_initial r = None \<longleftrightarrow> rw_revision r = 0) \<and> rw_revision r \<le> i64_max"

definition feed_ok :: "tables \<Rightarrow> bool" where
  "feed_ok d \<longleftrightarrow>
     distinct (map hw_record (tb_changes d)) \<and> distinct (map hw_position (tb_changes d)) \<and>
     (\<forall>h \<in> set (tb_changes d). 1 \<le> hw_position h \<and> hw_position h \<le> tb_position d) \<and>
     0 \<le> tb_position d \<and> tb_position d \<le> i64_max \<and>
     (\<forall>r \<in> set (tb_records d). rw_revision r < tb_position d) \<and>
     map (\<lambda>h. (hw_record h, hw_session h)) (tb_changes d) = map (\<lambda>r. (rw_id r, rw_session r)) (tb_records d)"

definition sessions_wf :: "tables \<Rightarrow> bool" where
  "sessions_wf d \<longleftrightarrow>
     distinct (map sw_id (tb_sessions d)) \<and>
     (\<forall>x \<in> set (tb_sessions d). \<not> blank (sw_id x) \<and> sw_next x = int (length (session_rows (sw_id x) d)) \<and>
        sw_next x \<le> i64_max) \<and>
     (\<forall>i. map rw_sequence (session_rows i d) = map int [0..<length (session_rows i d)])"

definition rows_wf :: "'v formats \<Rightarrow> tables \<Rightarrow> bool" where
  "rows_wf K d \<longleftrightarrow>
     distinct (map rw_id (tb_records d)) \<and> (\<forall>r \<in> set (tb_records d). record_row_wf K r) \<and>
     distinct (map nw_id (tb_runs d)) \<and>
     (\<forall>r \<in> set (tb_runs d). \<not> blank (nw_id r) \<and> (\<exists>spec. run_decode K (Ident (nw_id r)) r = Ok spec)) \<and>
     distinct (map cw_id (tb_continuations d)) \<and>
     (\<forall>r \<in> set (tb_continuations d). \<not> blank (cw_id r) \<and>
        (\<exists>c. continuation_decode K (Ident (cw_id r)) r = Ok c)) \<and>
     distinct (map lw_child (tb_relations d)) \<and>
     (\<forall>r \<in> set (tb_relations d). \<exists>e. relation_decode K (Ident (lw_child r)) r = Ok e) \<and>
     distinct (map fst (tb_decisions d))"

definition tables_ok :: "'v formats \<Rightarrow> tables \<Rightarrow> bool" where
  "tables_ok K d \<longleftrightarrow> rows_wf K d \<and> sessions_wf d \<and> feed_ok d \<and> ms_inv (tables_view K d)"

text \<open>The integer range of SQLite is not exhausted.\<close>

definition has_room :: "tables \<Rightarrow> bool" where
  "has_room d \<longleftrightarrow>
     tb_position d + 1 < i64_max \<and> (\<forall>x \<in> set (tb_sessions d). sw_next x < i64_max) \<and>
     (\<forall>r \<in> set (tb_records d). rw_revision r < i64_max)"

text \<open>
  What a transaction does to the change feed: the clock moves by at most \<open>n\<close>, and a record
  that is new or has changed sits behind the old clock.
\<close>

definition feed_moves :: "int \<Rightarrow> tables \<Rightarrow> tables \<Rightarrow> bool" where
  "feed_moves n d d' \<longleftrightarrow>
     tb_epoch d' = tb_epoch d \<and> tb_position d \<le> tb_position d' \<and> tb_position d' \<le> tb_position d + n \<and>
     (\<forall>r \<in> set (tb_records d').
        r \<in> set (tb_records d) \<and> (\<forall>h \<in> set (tb_changes d'). hw_record h = rw_id r \<longrightarrow> h \<in> set (tb_changes d)) \<or>
        (\<forall>h \<in> set (tb_changes d'). hw_record h = rw_id r \<longrightarrow> tb_position d < hw_position h))"

lemma feed_moves_same:
  "tb_records d' = tb_records d \<Longrightarrow> tb_changes d' = tb_changes d \<Longrightarrow> tb_position d' = tb_position d \<Longrightarrow>
   tb_epoch d' = tb_epoch d \<Longrightarrow> 0 \<le> n \<Longrightarrow> feed_moves n d d'"
  by (simp add: feed_moves_def)

lemma feed_moves_refl [simp]: "0 \<le> n \<Longrightarrow> feed_moves n d d"
  by (rule feed_moves_same) simp_all

lemma feed_moves_le: "feed_moves n d d' \<Longrightarrow> n \<le> m \<Longrightarrow> feed_moves m d d'"
  by (auto simp: feed_moves_def)

lemma feed_moves_trans:
  assumes a: "feed_moves n d d'" and b: "feed_moves m d' d''"
  shows "feed_moves (n + m) d d''"
proof -
  have "r \<in> set (tb_records d) \<and> (\<forall>h \<in> set (tb_changes d''). hw_record h = rw_id r \<longrightarrow> h \<in> set (tb_changes d)) \<or>
      (\<forall>h \<in> set (tb_changes d''). hw_record h = rw_id r \<longrightarrow> tb_position d < hw_position h)"
    if r: "r \<in> set (tb_records d'')" for r
  proof -
    from b r consider
        "r \<in> set (tb_records d')" "\<forall>h \<in> set (tb_changes d''). hw_record h = rw_id r \<longrightarrow> h \<in> set (tb_changes d')"
      | "\<forall>h \<in> set (tb_changes d''). hw_record h = rw_id r \<longrightarrow> tb_position d' < hw_position h"
      unfolding feed_moves_def by blast
    then show ?thesis
    proof cases
      case 1
      with a show ?thesis unfolding feed_moves_def by blast
    next
      case 2
      have "tb_position d \<le> tb_position d'" using a by (simp add: feed_moves_def)
      with 2 show ?thesis by fastforce
    qed
  qed
  then show ?thesis using a b by (simp add: feed_moves_def)
qed

text \<open>
  Every revision took a position of its own, so the clock of the change feed bounds all of
  the counters.
\<close>

lemma feed_counts:
  assumes "feed_ok d"
  shows "int (length (tb_records d)) \<le> tb_position d"
proof -
  have "set (map hw_position (tb_changes d)) \<subseteq> {1..tb_position d}" using assms by (auto simp: feed_ok_def)
  then have "card (set (map hw_position (tb_changes d))) \<le> card {1..tb_position d}" by (intro card_mono) simp_all
  moreover have "card (set (map hw_position (tb_changes d))) = length (map hw_position (tb_changes d))"
    by (rule distinct_card) (use assms in \<open>simp add: feed_ok_def\<close>)
  moreover have "length (tb_changes d) = length (tb_records d)" using assms unfolding feed_ok_def by (metis length_map)
  ultimately have "length (tb_records d) \<le> nat (tb_position d)" by simp
  moreover have "0 \<le> tb_position d" using assms by (simp add: feed_ok_def)
  ultimately show ?thesis by linarith
qed

lemma has_room_clock:
  assumes "sessions_wf d" and "feed_ok d" and "tb_position d + 1 < i64_max"
  shows "has_room d"
proof -
  have "sw_next x < i64_max" if "x \<in> set (tb_sessions d)" for x
  proof -
    have "sw_next x = int (length (session_rows (sw_id x) d))" using assms(1) that by (simp add: sessions_wf_def)
    also have "\<dots> \<le> int (length (tb_records d))" unfolding session_rows_def by (simp add: length_filter_le)
    finally show ?thesis using feed_counts [OF assms(2)] assms(3) by linarith
  qed
  moreover have "rw_revision r < i64_max" if "r \<in> set (tb_records d)" for r
    using assms(2,3) that by (fastforce simp: feed_ok_def)
  ultimately show ?thesis using assms(3) by (simp add: has_room_def)
qed

subsection \<open>Lookups\<close>

lemma row_by_append:
  "row_by key k (rows @ [r]) = (case row_by key k rows of Some x \<Rightarrow> Some x | None \<Rightarrow> if key r = k then Some r else None)"
  by (induction rows) (auto simp: row_by_def)

lemma row_by_map: "(\<And>r. key (f r) = key r) \<Longrightarrow> row_by key k (map f rows) = map_option f (row_by key k rows)"
  by (induction rows) (auto simp: row_by_def)

lemma row_by_member: "distinct (map key rows) \<Longrightarrow> r \<in> set rows \<Longrightarrow> row_by key (key r) rows = Some r"
  by (induction rows) (auto simp: row_by_def)

lemma row_by_iff: "distinct (map key rows) \<Longrightarrow> row_by key k rows = Some r \<longleftrightarrow> r \<in> set rows \<and> key r = k"
  using row_by_Some row_by_member by metis

lemma has_row_iff: "has_row key k rows \<longleftrightarrow> row_by key k rows \<noteq> None"
  by (simp add: row_by_None)

lemma column_id_Ok [simp]: "column_id s = Ok i \<longleftrightarrow> \<not> blank s \<and> i = Ident s"
  by (auto simp: column_id_def id_try_from_def id_new_def)

lemma column_number_Ok: "column_number n = Ok w \<longleftrightarrow> 0 \<le> n \<and> w = word_of_int n"
  by (auto simp: column_number_def)

lemma parse_state_name [simp]: "parse_state (state_name s) = Ok s"
  by (cases s) (simp_all add: parse_state_def state_name_def)

lemma as_i64_small:
  assumes "unat x \<le> nat i64_max"
  shows "as_i64 x = int (unat x)"
proof -
  have "int (unat x) \<le> int (nat i64_max)" using assms by (simp only: of_nat_le_iff)
  moreover have "int (nat i64_max) = i64_max" by (simp add: i64_max_def)
  ultimately have le: "uint x \<le> i64_max" by (simp only: uint_nat)
  have "signed_take_bit 63 (uint x) = uint x"
  proof (rule signed_take_bit_int_eq_self)
    show "- (2 ^ 63) \<le> uint x" by (rule order_trans [OF _ uint_ge_0]) simp
    show "uint x < 2 ^ 63" using le by (simp add: i64_max_def)
  qed
  then show ?thesis by (simp add: as_i64_def sint_uint)
qed

lemma word_of_column:
  assumes "0 \<le> n" and "n \<le> i64_max"
  shows "unat (word_of_int n :: u64) = nat n"
proof -
  have "uint (word_of_int n :: u64) = n"
    using assms by (simp add: uint_word_of_int i64_max_def)
  then show ?thesis by (simp only: unat_eq_nat_uint)
qed

lemma word_of_unat: "word_of_int (int (unat (x :: u64))) = x"
  by simp

end
