(* ===== verification/Sqlite_Reads.thy ===== *)
theory Sqlite_Reads imports Sqlite_View begin

section \<open>Reading the tables\<close>

text \<open>
  On well-formed tables every read answers what the represented in-memory state answers, and
  the loops over several reads agree with the loops of the in-memory store.
\<close>

declare operation_simps [simp del]

named_theorems sql_simps \<open>operations whose result is known\<close>

lemma and_then_known [sql_simps]:
  "and_then (give x) f = f x"
  "and_then (fail_with e) f = fail_with e"
  "and_then (lift_result (Ok x)) f = f x"
  "and_then (lift_result (Err e)) f = fail_with e"
  "lift_result (Ok x) = give x"
  "lift_result (Err e) = fail_with e"
  by (simp_all add: fun_eq_iff operation_simps)

lemma and_then_assoc: "and_then (and_then m f) g = and_then m (\<lambda>x. and_then (f x) g)"
  by (auto simp: fun_eq_iff and_then_def split: prod.splits result.splits)

lemma and_then_cases [sql_simps]:
  "and_then (if b then m else n) f = (if b then and_then m f else and_then n f)"
  by simp

lemma column_id_known [sql_simps]: "\<not> blank s \<Longrightarrow> column_id s = Ok (Ident s)"
  by simp

lemma tables_okD:
  assumes "tables_ok K d"
  shows "rows_wf K d" and "sessions_wf d" and "feed_ok d" and "ms_inv (tables_view K d)"
  using assms by (simp_all add: tables_ok_def)

lemma transpose_known: "(\<And>a. x = Some a \<Longrightarrow> f a = Ok (g a)) \<Longrightarrow> transpose_map f x = Ok (map_option g x)"
  by (cases x) simp_all

lemma bind_known: "(\<And>a. x = Some a \<Longrightarrow> \<exists>b. f a = Ok b) \<Longrightarrow>
    transpose_map f x = Ok (Option.bind x (\<lambda>a. ok_value (f a)))"
  by (cases x) (simp_all, metis ok_value_simps(1) rbind.simps(1))

subsection \<open>Rows\<close>

lemma record_row_at:
  assumes "rows_wf K d" and "row_by rw_id k (tb_records d) = Some r"
  shows "r \<in> set (tb_records d)" and "rw_id r = k" and "record_row_wf K r"
  using assms row_by_Some by (fastforce simp: rows_wf_def)+

lemma runs_entry [runs_intros]:
  assumes "tables_ok K d"
  shows "runs D (sql_entry D K i) d (Ok (view_records K d i)) d"
proof -
  have "\<exists>en. row_decode K r = Ok en" if "row_by rw_id (as_str i) (tb_records d) = Some r" for r
    using record_row_at(3) [OF tables_okD(1) [OF assms] that] by (auto simp: record_row_wf_def)
  then have "transpose_map (row_decode K) (row_by rw_id (as_str i) (tb_records d)) = Ok (view_records K d i)"
    unfolding view_records_def by (rule bind_known)
  moreover have "runs D (lift_result (transpose_map (row_decode K) (row_by rw_id (as_str i) (tb_records d)))) d
      (transpose_map (row_decode K) (row_by rw_id (as_str i) (tb_records d))) d" by (rule runs_lift)
  ultimately show ?thesis unfolding sql_entry_def by (intro runs_and_then [OF runs_query]) simp
qed

lemma session_length:
  assumes "sessions_wf d" and "row_by sw_id (as_str i) (tb_sessions d) = Some x"
  shows "sw_next x = int (length (session_rows (as_str i) d))" and "sw_next x \<le> i64_max"
    and "\<not> blank (as_str i)"
  using assms row_by_Some unfolding sessions_wf_def by metis+

definition session_size :: "record_id list \<Rightarrow> int" where
  "session_size ids = int (length ids)"

lemma runs_session_sequence [runs_intros]:
  assumes "tables_ok K d"
  shows "runs D (sql_session_sequence D i) d (ok_or MissingSession (map_option session_size (view_sessions d i))) d"
proof -
  have eq: "map_option sw_next (row_by sw_id (as_str i) (tb_sessions d)) = map_option session_size (view_sessions d i)"
    using session_length(1) [OF tables_okD(2) [OF assms]]
    by (cases "row_by sw_id (as_str i) (tb_sessions d)") (simp_all add: view_sessions_def session_size_def)
  show ?thesis
    unfolding sql_session_sequence_def
    by (rule runs_and_then [OF runs_query]) (simp only: eq, rule runs_lift)
qed

lemma runs_read_run [runs_intros]:
  assumes "tables_ok K d"
  shows "runs D (sql_read_run D K i) d (Ok (view_runs K d i)) d"
proof -
  have "\<exists>spec. run_decode K i r = Ok spec" if "row_by nw_id (as_str i) (tb_runs d) = Some r" for r
    using row_by_Some [OF that] tables_okD(1) [OF assms] unfolding rows_wf_def by (metis ident.exhaust_sel)
  then have "transpose_map (run_decode K i) (row_by nw_id (as_str i) (tb_runs d)) = Ok (view_runs K d i)"
    unfolding view_runs_def by (rule bind_known)
  then show ?thesis
    unfolding sql_read_run_def by (intro runs_and_then [OF runs_query]) (simp add: runs_intros)
qed

lemma runs_read_continuation [runs_intros]:
  assumes "tables_ok K d"
  shows "runs D (sql_read_continuation D K i) d (Ok (view_continuations K d i)) d"
proof -
  have "\<exists>c. continuation_decode K i r = Ok c" if "row_by cw_id (as_str i) (tb_continuations d) = Some r" for r
    using row_by_Some [OF that] tables_okD(1) [OF assms] unfolding rows_wf_def by (metis ident.exhaust_sel)
  then have "transpose_map (continuation_decode K i) (row_by cw_id (as_str i) (tb_continuations d)) =
      Ok (view_continuations K d i)"
    unfolding view_continuations_def by (rule bind_known)
  then show ?thesis
    unfolding sql_read_continuation_def by (intro runs_and_then [OF runs_query]) (simp add: runs_intros)
qed

subsection \<open>Relations\<close>

lemma map_of_map_filter:
  assumes "distinct (map key rows)"
    and "\<And>r. r \<in> set rows \<Longrightarrow> \<exists>v. f r = Some (Ident (key r), v)"
  shows "map_of (List.map_filter f rows) i = Option.bind (row_by key (as_str i) rows) (\<lambda>r. map_option snd (f r))"
  using assms
proof (induction rows)
  case (Cons r rows)
  obtain v where v: "f r = Some (Ident (key r), v)" using Cons.prems(2) by auto
  have IH: "map_of (List.map_filter f rows) i = Option.bind (row_by key (as_str i) rows) (\<lambda>r. map_option snd (f r))"
    using Cons by simp
  have "i = Ident (key r) \<longleftrightarrow> key r = as_str i" by (metis ident.sel ident.exhaust_sel)
  then show ?case using v IH by (auto simp: List.map_filter_simps row_by_def)
qed (simp add: row_by_def List.map_filter_simps)

lemma view_relation_row:
  assumes "rows_wf K d" and "r \<in> set (tb_relations d)"
  shows "\<exists>e. relation_decode K (Ident (lw_child r)) r = Ok e \<and> view_relation K r = Some (Ident (lw_child r), e)"
  using assms by (fastforce simp: rows_wf_def view_relation_def)

lemma map_of_view_relations:
  assumes "rows_wf K d"
  shows "map_of (view_relations K d) i =
    Option.bind (row_by lw_child (as_str i) (tb_relations d)) (\<lambda>r. ok_value (relation_decode K i r))"
proof -
  have "map_of (view_relations K d) i =
      Option.bind (row_by lw_child (as_str i) (tb_relations d)) (\<lambda>r. map_option snd (view_relation K r))"
    unfolding view_relations_def
    using assms view_relation_row [OF assms] by (intro map_of_map_filter) (simp add: rows_wf_def, blast)
  also have "\<dots> = Option.bind (row_by lw_child (as_str i) (tb_relations d)) (\<lambda>r. ok_value (relation_decode K i r))"
  proof (cases "row_by lw_child (as_str i) (tb_relations d)")
    case (Some r)
    then have "Ident (lw_child r) = i" using row_by_Some by fastforce
    then show ?thesis using Some by (simp add: view_relation_def option.map_comp o_def option.map_ident)
  qed simp
  finally show ?thesis .
qed

lemma relations_inv_view: "tables_ok K d \<Longrightarrow> relations_inv (view_runs K d) (view_relations K d)"
  using tables_okD(4) by (fastforce simp: ms_inv_def core_inv_def)

lemma runs_read_relation [runs_intros]:
  assumes ok: "tables_ok K d"
  shows "runs D (sql_read_relation D K i) d (Ok (map_of (view_relations K d) i)) d"
proof (cases "row_by lw_child (as_str i) (tb_relations d)")
  case None
  then have "map_of (view_relations K d) i = None" by (simp add: map_of_view_relations [OF tables_okD(1) [OF ok]])
  then show ?thesis
    unfolding sql_read_relation_def
    by (intro runs_and_then [OF runs_query]) (simp add: None runs_intros)
next
  case (Some r)
  then have "r \<in> set (tb_relations d)" "Ident (lw_child r) = i" using row_by_Some by fastforce+
  then obtain e where e: "relation_decode K i r = Ok e"
    using view_relation_row [OF tables_okD(1) [OF ok]] by blast
  then have at: "map_of (view_relations K d) i = Some e"
    using Some by (simp add: map_of_view_relations [OF tables_okD(1) [OF ok]])
  then obtain ps cs where "view_runs K d (er_parent e) = Some ps" "view_runs K d i = Some cs"
      "relation_validate e ps cs = Ok ()"
    using relations_inv_view [OF ok] unfolding relations_inv_def by blast
  then show ?thesis
    unfolding sql_read_relation_def at
    by (intro runs_and_then [OF runs_query])
      (auto simp: Some e sql_simps intro!: runs_and_then [OF runs_read_run [OF ok]] runs_give)
qed

subsection \<open>Loops over reads\<close>

lemmas after_query = runs_and_then [OF runs_query]
lemmas after_entry = runs_and_then [OF runs_entry]
lemmas after_run = runs_and_then [OF runs_read_run]
lemmas after_relation = runs_and_then [OF runs_read_relation]
lemmas after_continuation = runs_and_then [OF runs_read_continuation]

lemma runs_context_final:
  assumes "tables_ok K d"
  shows "runs D (sql_context_final D K is) d (context_final (view_records K d) is) d"
proof (induction "is")
  case Nil
  show ?case by (auto intro: runs_intros)
next
  case (Cons i "is")
  show ?case
  proof (cases "view_records K d i")
    case None
    then show ?thesis by (auto simp: sql_simps intro!: after_entry [OF assms] runs_fail)
  next
    case (Some en)
    then show ?thesis using Cons by (auto simp: sql_simps intro!: after_entry [OF assms] runs_fail)
  qed
qed

lemma runs_context_in_session:
  assumes "tables_ok K d"
  shows "runs D (sql_context_in_session D K sess is) d (context_in_session (view_records K d) sess is) d"
proof (induction "is")
  case Nil
  show ?case by (auto intro: runs_intros)
next
  case (Cons i "is")
  show ?case
  proof (cases "view_records K d i")
    case None
    then show ?thesis by (auto simp: sql_simps intro!: after_entry [OF assms] runs_fail)
  next
    case (Some en)
    then show ?thesis using Cons by (auto simp: sql_simps intro!: after_entry [OF assms] runs_fail)
  qed
qed

text \<open>The walk over the parents is the walk of the in-memory store.\<close>

lemma runs_ancestors:
  assumes ok: "tables_ok K d"
  shows "runs D (sql_ancestors D K child a visited) d
    (if ancestors_clear (view_relations K d) child a visited then Ok () else Err ExecutionCycle) d"
  unfolding runs_def
proof
  fix n
  show "(\<exists>e st. fault_of D e \<and> sql_ancestors D K child a visited (n, d) = (Err e, st)) \<or>
      (\<exists>n'. sql_ancestors D K child a visited (n, d) =
        (if ancestors_clear (view_relations K d) child a visited then Ok () else Err ExecutionCycle, n', d))"
  proof (induction "view_relations K d" child a visited arbitrary: n rule: ancestors_clear.induct)
    case (1 child a visited)
    show ?case
    proof (cases "a = child \<or> a \<in> set visited")
      case True
      then show ?thesis
        by (simp add: sql_ancestors.simps [of D K child a] ancestors_clear.simps [of _ child a])
    next
      case False
      from runs_read_relation [OF ok, of D a] consider
          e st where "fault_of D e" "sql_read_relation D K a (n, d) = (Err e, st)"
        | n' where "sql_read_relation D K a (n, d) = (Ok (map_of (view_relations K d) a), n', d)"
        unfolding runs_def by blast
      then show ?thesis
      proof cases
        case (1 e st)
        then show ?thesis using False by (auto simp: sql_ancestors.simps [of D K child a])
      next
        case (2 n')
        show ?thesis
        proof (cases "map_of (view_relations K d) a")
          case None
          with 2 False show ?thesis
            by (simp add: sql_ancestors.simps [of D K child a] ancestors_clear.simps [of _ child a])
        next
          case (Some edge)
          from "1.hyps" [OF False Some, of n'] 2 False Some show ?thesis
            by (simp add: sql_ancestors.simps [of D K child a] ancestors_clear.simps [of _ child a])
        qed
      qed
    qed
  qed
qed

lemma runs_descendants_fit:
  assumes ok: "tables_ok K d" and "\<forall>s \<in> set ss. \<not> blank s"
  shows "runs D (sql_descendants_fit D K e ss) d
    (if \<exists>s \<in> set ss. \<exists>edge. map_of (view_relations K d) (Ident s) = Some edge \<and>
          er_parent_authority edge \<noteq> er_child_authority e
     then Err InvalidExecutionRelation else Ok ()) d"
  using assms(2)
proof (induction ss)
  case Nil
  show ?case by (simp add: runs_intros)
next
  case (Cons s ss)
  show ?case
  proof (cases "\<exists>edge. map_of (view_relations K d) (Ident s) = Some edge \<and>
      er_parent_authority edge \<noteq> er_child_authority e")
    case True
    then show ?thesis
      using Cons.prems by (simp add: sql_simps) (rule after_relation [OF ok], auto intro: runs_fail)
  next
    case False
    then have "runs D (sql_descendants_fit D K e (s # ss)) d
      (if \<exists>s \<in> set ss. \<exists>edge. map_of (view_relations K d) (Ident s) = Some edge \<and>
          er_parent_authority edge \<noteq> er_child_authority e
       then Err InvalidExecutionRelation else Ok ()) d"
      using Cons by (simp add: sql_simps split del: if_split) (rule after_relation [OF ok], simp add: False split del: if_split)
    moreover have "(\<exists>x \<in> set (s # ss). \<exists>edge. map_of (view_relations K d) (Ident x) = Some edge \<and>
          er_parent_authority edge \<noteq> er_child_authority e) \<longleftrightarrow>
        (\<exists>x \<in> set ss. \<exists>edge. map_of (view_relations K d) (Ident x) = Some edge \<and>
          er_parent_authority edge \<noteq> er_child_authority e)" using False by auto
    ultimately show ?thesis by (simp only:)
  qed
qed

subsection \<open>Preparing a record\<close>

lemma runs_prepare:
  assumes ok: "tables_ok K d" and room: "has_room d"
  shows "runs D (sql_prepare D K dr) d (prepare (tables_view K d) dr) d"
proof (cases "validate (d_payload dr) (d_state dr)")
  case (Ok u)
  show ?thesis
  proof (cases "row_by sw_id (as_str (d_session dr)) (tb_sessions d)")
    case None
    then have "view_sessions d (d_session dr) = None" by (simp add: view_sessions_def)
    then show ?thesis
      using Ok runs_session_sequence [OF ok, of D "d_session dr"]
      by (auto simp: sql_prepare_def prepare_def sql_simps intro: runs_stops)
  next
    case (Some x)
    define ids where "ids = map (\<lambda>r. Ident (rw_id r) :: record_id) (session_rows (as_str (d_session dr)) d)"
    have ids: "view_sessions d (d_session dr) = Some ids" by (simp add: view_sessions_def Some ids_def)
    have "x \<in> set (tb_sessions d)" using row_by_Some [OF Some] by blast
    then have less: "int (length ids) < i64_max"
      using room session_length(1) [OF tables_okD(2) [OF ok] Some] by (auto simp: has_room_def ids_def)
    then have seq: "column_number (int (length ids)) = Ok (word_of_nat (length ids))"
        "u64_of_usize (length ids) = Some (word_of_nat (length ids))"
      by (simp_all add: column_number_def u64_of_usize_def i64_max_def)
    let ?rest = "\<lambda>_. and_then (case d_reply dr of
           None \<Rightarrow> give ()
         | Some i \<Rightarrow> and_then (sql_entry D K i) (\<lambda>x. if x = None then fail_with MissingRecord else give ())) (\<lambda>_.
         lift_result (rbind (column_number (int (length ids))) (\<lambda>n. Ok (snapshot_of dr n))))"
    have reply: "runs D (?rest ()) d
      (rbind (case d_reply dr of None \<Rightarrow> Ok ()
        | Some reply \<Rightarrow> if view_records K d reply = None then Err MissingRecord else Ok ())
        (\<lambda>_. Ok (snapshot_of dr (word_of_nat (length ids))))) d"
    proof (cases "d_reply dr")
      case (Some i)
      then show ?thesis
        using seq by (auto simp: sql_simps and_then_assoc intro!: after_entry [OF ok] runs_give runs_fail)
    qed (simp add: seq sql_simps runs_intros)
    have run: "runs D (and_then (case d_run dr of
           None \<Rightarrow> give ()
         | Some i \<Rightarrow>
             and_then (sql_read_run D K i) (\<lambda>x.
             and_then (lift_result (ok_or MissingRun x)) (\<lambda>run.
               if rs_session run \<noteq> d_session dr then fail_with WrongSession else give ()))) ?rest) d
      (rbind (run_belongs (view_runs K d) (d_session dr) (d_run dr)) (\<lambda>_.
        rbind (case d_reply dr of None \<Rightarrow> Ok ()
          | Some reply \<Rightarrow> if view_records K d reply = None then Err MissingRecord else Ok ())
          (\<lambda>_. Ok (snapshot_of dr (word_of_nat (length ids)))))) d"
    proof (cases "d_run dr")
      case None
      then show ?thesis using reply by (simp add: sql_simps run_belongs_def)
    next
      case (Some i)
      show ?thesis
      proof (cases "view_runs K d i")
        case None
        then show ?thesis
          using Some by (auto simp: run_belongs_def sql_simps and_then_assoc intro!: after_run [OF ok] runs_fail)
      next
        case (Some sp)
        with \<open>d_run dr = Some i\<close> reply show ?thesis
          by (auto simp: run_belongs_def sql_simps and_then_assoc intro!: after_run [OF ok] runs_fail)
      qed
    qed
    have head: "runs D (sql_session_sequence D (d_session dr)) d (Ok (int (length ids))) d"
      using runs_session_sequence [OF ok, of D "d_session dr"] ids by (simp add: session_size_def)
    have "prepare (tables_view K d) dr =
      rbind (run_belongs (view_runs K d) (d_session dr) (d_run dr)) (\<lambda>_.
        rbind (case d_reply dr of None \<Rightarrow> Ok ()
          | Some reply \<Rightarrow> if view_records K d reply = None then Err MissingRecord else Ok ())
          (\<lambda>_. Ok (snapshot_of dr (word_of_nat (length ids)))))"
      using Ok ids seq(2) by (simp add: prepare_def cong: option.case_cong)
    with run less show ?thesis
      by (simp add: sql_prepare_def Ok sql_simps runs_and_then [OF head])
  qed
qed (auto simp: sql_prepare_def prepare_def sql_simps intro: runs_intros)

subsection \<open>The latest continuation\<close>

lemma runs_previous:
  assumes ok: "tables_ok K d"
  shows "runs D (sql_previous D K c) d
    (Ok (registry_previous \<lparr>reg_records = view_continuations K d, reg_latest = view_latest d\<rparr> c)) d"
proof (cases "latest_row (continuation_key c) d")
  case None
  then show ?thesis
    unfolding sql_previous_def
    by (intro runs_and_then [OF runs_query]) (simp add: registry_previous_def view_latest_def runs_intros)
next
  case (Some r)
  then have "r \<in> set (tb_continuations d)" by (auto simp: latest_row_def find_Some_iff)
  then have "\<not> blank (cw_id r)" using tables_okD(1) [OF ok] by (simp add: rows_wf_def)
  then show ?thesis
    unfolding sql_previous_def
    by (intro runs_and_then [OF runs_query])
      (simp add: Some registry_previous_def view_latest_def sql_simps runs_read_continuation [OF ok])
qed

end
