(* ===== verification/Sqlite_Writes.thy ===== *)
theory Sqlite_Writes imports Sqlite_Reads begin

section \<open>Changing the tables\<close>

text \<open>
  What the writing statements do to well-formed tables: the constraints hold, the rows stay
  well-formed, and the represented state changes as the in-memory store changes it.
\<close>

definition shape_ok :: "'v formats \<Rightarrow> tables \<Rightarrow> bool" where
  "shape_ok K d \<longleftrightarrow> rows_wf K d \<and> sessions_wf d \<and> feed_ok d"

lemma tables_ok_iff: "tables_ok K d \<longleftrightarrow> shape_ok K d \<and> ms_inv (tables_view K d)"
  by (auto simp: tables_ok_def shape_ok_def)

lemma shape_okD: "shape_ok K d \<Longrightarrow> rows_wf K d" "shape_ok K d \<Longrightarrow> sessions_wf d" "shape_ok K d \<Longrightarrow> feed_ok d"
  by (simp_all add: shape_ok_def)

lemma runs_statement: "f d = Some d' \<Longrightarrow> runs D (execute D (as_statement f)) d (Ok ()) d'"
  by (rule runs_execute) simp

text \<open>Documents of a draft that read back as themselves, and identifiers as the constructor makes them.\<close>

definition draft_storable :: "'v formats \<Rightarrow> 'v draft \<Rightarrow> bool" where
  "draft_storable K d \<longleftrightarrow>
     id_ok (d_id d) \<and> id_ok (d_actor d) \<and> payload_storable K (d_payload d) \<and>
     (\<forall>s. d_source d = Some s \<longrightarrow> reads_back (fm_parse K) (fm_source K) s)"

lemma run_decode_Ok:
  "run_decode K i r = Ok spec \<Longrightarrow> rs_id spec = i \<and> as_str (rs_session spec) = nw_session r"
  by (auto simp: run_decode_def rbind_eq_Ok)

lemma row_current_Ok:
  "row_current K r = Ok x \<Longrightarrow>
     as_str (r_id (sn_record x)) = rw_id r \<and> as_str (r_session (sn_record x)) = rw_session r \<and>
     \<not> blank (rw_id r) \<and> 0 \<le> rw_sequence r \<and> r_sequence (sn_record x) = word_of_int (rw_sequence r) \<and>
     0 \<le> rw_revision r \<and> sn_revision x = word_of_int (rw_revision r) \<and> rw_state r = state_name (sn_state x)"
  by (auto simp: row_current_def rbind_eq_Ok column_number_Ok parse_state_def state_name_def split: if_splits)

lemma row_decode_current: "row_decode K r = Ok en \<Longrightarrow> row_current K r = Ok (en_current en)"
  by (auto simp: row_decode_def rbind_eq_Ok split: option.splits if_splits)

lemma view_records_row:
  assumes "rows_wf K d" and "view_records K d i = Some en"
  obtains r where "row_by rw_id (as_str i) (tb_records d) = Some r" "r \<in> set (tb_records d)" "rw_id r = as_str i"
    "row_decode K r = Ok en" "record_row_wf K r"
proof -
  from assms(2) obtain r where r: "row_by rw_id (as_str i) (tb_records d) = Some r" "ok_value (row_decode K r) = Some en"
    by (auto simp: view_records_def bind_eq_Some_conv)
  then have "row_decode K r = Ok en" by (cases "row_decode K r") auto
  then show thesis using that r record_row_at [OF assms(1) r(1)] by blast
qed

lemma view_records_None:
  assumes "rows_wf K d"
  shows "view_records K d i = None \<longleftrightarrow> \<not> has_row rw_id (as_str i) (tb_records d)"
proof -
  have "\<exists>en. row_decode K r = Ok en" if "row_by rw_id (as_str i) (tb_records d) = Some r" for r
    using record_row_at(3) [OF assms that] by (auto simp: record_row_wf_def)
  then show ?thesis
    by (cases "row_by rw_id (as_str i) (tb_records d)") (auto simp: view_records_def has_row_iff)
qed

lemma view_runs_row:
  assumes "rows_wf K d" and "view_runs K d i = Some spec"
  shows "has_row (\<lambda>x. (nw_id x, nw_session x)) (as_str i, as_str (rs_session spec)) (tb_runs d)"
    and "has_row nw_id (as_str i) (tb_runs d)" and "\<not> blank (as_str i)"
proof -
  from assms(2) obtain r where r: "row_by nw_id (as_str i) (tb_runs d) = Some r" "ok_value (run_decode K i r) = Some spec"
    by (auto simp: view_runs_def bind_eq_Some_conv)
  then have "run_decode K i r = Ok spec" by (cases "run_decode K i r") auto
  then show "has_row (\<lambda>x. (nw_id x, nw_session x)) (as_str i, as_str (rs_session spec)) (tb_runs d)"
      "has_row nw_id (as_str i) (tb_runs d)" "\<not> blank (as_str i)"
    using row_by_Some [OF r(1)] assms(1) run_decode_Ok by (fastforce simp: has_row_def rows_wf_def)+
qed

lemma view_sessions_row:
  assumes "view_sessions d i = Some ids"
  shows "has_row sw_id (as_str i) (tb_sessions d)" and "length ids = length (session_rows (as_str i) d)"
    and "ids = map (\<lambda>r. Ident (rw_id r)) (session_rows (as_str i) d)"
  using assms by (auto simp: view_sessions_def has_row_iff)

lemma same_string: "as_str i = as_str j \<longleftrightarrow> i = j"
  by (metis ident.expand)

subsection \<open>A new record\<close>

definition record_row_of_texts :: "'v snapshot \<Rightarrow> string option \<Rightarrow> string \<Rightarrow> record_row" where
  "record_row_of_texts x source payload =
     \<lparr>rw_id = as_str (r_id (sn_record x)), rw_session = as_str (r_session (sn_record x)),
      rw_run = map_option as_str (r_run (sn_record x)), rw_sequence = as_i64 (r_sequence (sn_record x)),
      rw_actor = as_str (r_actor (sn_record x)), rw_reply = map_option as_str (r_reply (sn_record x)),
      rw_source = source, rw_payload = payload, rw_state = state_name (sn_state x),
      rw_revision = 0, rw_initial = None\<rparr>"

lemma record_row_of_storable:
  assumes "draft_storable K dr"
  obtains source payload where "record_row_of K (snapshot_of dr q) = Ok (record_row_of_texts (snapshot_of dr q) source payload)"
    "transpose_map (codec_decode (fm_parse K) (fm_source K)) source = Ok (d_source dr)"
    "codec_decode (fm_parse K) (fm_payload K) payload = Ok (d_payload dr)"
proof -
  obtain payload where p: "codec_encode (fm_payload K) (d_payload dr) = Ok payload"
      "codec_decode (fm_parse K) (fm_payload K) payload = Ok (d_payload dr)"
    using assms by (auto simp: draft_storable_def payload_storable_def reads_back_def)
  obtain source where s: "transpose_map (codec_encode (fm_source K)) (d_source dr) = Ok source"
      "transpose_map (codec_decode (fm_parse K) (fm_source K)) source = Ok (d_source dr)"
  proof (cases "d_source dr")
    case None
    then show ?thesis using that [of None] by simp
  next
    case (Some src)
    then obtain t where "codec_encode (fm_source K) src = Ok t" "codec_decode (fm_parse K) (fm_source K) t = Ok src"
      using assms by (auto simp: draft_storable_def reads_back_def)
    then show ?thesis using that [of "Some t"] Some by simp
  qed
  show thesis
    by (rule that [OF _ s(2) p(2)]) (simp add: record_row_of_def p(1) s(1) record_row_of_texts_def)
qed

lemma ids_nonblank_reply:
  "rows_wf K d \<Longrightarrow> view_records K d i \<noteq> None \<Longrightarrow> \<not> blank (as_str i)"
  using view_records_row row_decode_current row_current_Ok by (metis not_None_eq)

lemma column_id_of: "\<not> blank (as_str i) \<Longrightarrow> column_id (as_str i) = Ok i"
  by simp

lemma columns_of:
  "\<forall>i. x = Some i \<longrightarrow> \<not> blank (as_str i) \<Longrightarrow> transpose_map column_id (map_option as_str x) = Ok x"
  by (cases x) (simp_all add: column_id_of del: column_id_Ok)

text \<open>The row of an accepted draft reads back as its snapshot.\<close>

lemma new_row_decodes:
  assumes "draft_storable K dr" and "validate (d_payload dr) (d_state dr) = Ok ()"
    and "transpose_map (codec_decode (fm_parse K) (fm_source K)) source = Ok (d_source dr)"
    and "codec_decode (fm_parse K) (fm_payload K) payload = Ok (d_payload dr)"
    and "unat q \<le> nat i64_max" and "\<not> blank (as_str (d_session dr))"
    and "\<forall>i. d_run dr = Some i \<longrightarrow> \<not> blank (as_str i)" and "\<forall>i. d_reply dr = Some i \<longrightarrow> \<not> blank (as_str i)"
  shows "row_decode K (record_row_of_texts (snapshot_of dr q) source payload) =
    Ok \<lparr>en_initial = snapshot_of dr q, en_current = snapshot_of dr q\<rparr>"
proof -
  have ids: "\<not> blank (as_str (d_id dr))" "\<not> blank (as_str (d_actor dr))"
    using assms(1) by (simp_all add: draft_storable_def id_ok_def)
  have num: "column_number (as_i64 q) = Ok q" "column_number 0 = Ok 0"
    using assms(5) as_i64_small [of q] by (simp_all add: column_number_Ok)
  have "row_current K (record_row_of_texts (snapshot_of dr q) source payload) = Ok (snapshot_of dr q)"
    using assms(3,4,6-8) ids num
    by (simp add: row_current_def record_row_of_texts_def snapshot_of_def column_id_of columns_of del: column_id_Ok)
  then show ?thesis
    using assms(2) by (simp add: row_decode_def check_stored_def) (simp add: record_row_of_texts_def)
qed

definition inserted :: "record_row \<Rightarrow> tables \<Rightarrow> tables" where
  "inserted row d =
     d\<lparr>tb_records := tb_records d @ [row], tb_position := tb_position d + 1,
       tb_changes := tb_changes d @
         [\<lparr>hw_record = rw_id row, hw_session = rw_session row, hw_position = tb_position d + 1\<rparr>],
       tb_sessions := map (\<lambda>x. if sw_id x = rw_session row then x\<lparr>sw_next := sw_next x + 1\<rparr> else x) (tb_sessions d)\<rparr>"

lemma session_rows_inserted:
  "session_rows i (inserted row d) = session_rows i d @ (if rw_session row = i then [row] else [])"
  by (simp add: session_rows_def inserted_def)

text \<open>What the row must satisfy; \<open>fits\<close> collects the facts the constraints ask for.\<close>

definition fits :: "'v formats \<Rightarrow> tables \<Rightarrow> record_row \<Rightarrow> bool" where
  "fits K d row \<longleftrightarrow>
     \<not> has_row rw_id (rw_id row) (tb_records d) \<and>
     has_row sw_id (rw_session row) (tb_sessions d) \<and>
     rw_sequence row = int (length (session_rows (rw_session row) d)) \<and>
     rw_state row \<in> {''open'', ''complete'', ''interrupted''} \<and>
     (\<forall>p. rw_reply row = Some p \<longrightarrow> has_row rw_id p (tb_records d)) \<and>
     (\<forall>n. rw_run row = Some n \<longrightarrow> has_row (\<lambda>x. (nw_id x, nw_session x)) (n, rw_session row) (tb_runs d)) \<and>
     rw_revision row = 0 \<and> rw_initial row = None \<and> record_row_wf K row"

lemma feed_records: "feed_ok d \<Longrightarrow> map hw_record (tb_changes d) = map rw_id (tb_records d)"
  unfolding feed_ok_def by (metis (no_types, lifting) fst_conv map_map o_def map_eq_conv list.map_comp)

lemma has_row_set: "has_row key k rows \<longleftrightarrow> k \<in> set (map key rows)"
  by (auto simp: has_row_def)

lemma insert_record_fits:
  assumes ok: "shape_ok K d" and fit: "fits K d row" and room: "tb_position d < i64_max"
  shows "insert_record row d =
    Some (d\<lparr>tb_records := tb_records d @ [row], tb_position := tb_position d + 1,
      tb_changes := tb_changes d @
        [\<lparr>hw_record = rw_id row, hw_session = rw_session row, hw_position = tb_position d + 1\<rparr>]\<rparr>)"
proof -
  have "\<not> has_row (\<lambda>x. (rw_session x, rw_sequence x)) (rw_session row, rw_sequence row) (tb_records d)"
  proof
    assume "has_row (\<lambda>x. (rw_session x, rw_sequence x)) (rw_session row, rw_sequence row) (tb_records d)"
    then obtain r where "r \<in> set (session_rows (rw_session row) d)" "rw_sequence r = rw_sequence row"
      by (auto simp: has_row_def session_rows_def)
    then have "rw_sequence row \<in> set (map int [0..<length (session_rows (rw_session row) d)])"
      using shape_okD(2) [OF ok] unfolding sessions_wf_def by (metis image_eqI list.set_map)
    then show False using fit by (auto simp: fits_def)
  qed
  then have "record_row_ok d row" using fit by (auto simp: fits_def record_row_ok_def)
  moreover have "\<not> has_row hw_record (rw_id row) (tb_changes d)"
    using fit feed_records [OF shape_okD(3) [OF ok]] by (simp add: fits_def has_row_set del: set_map)
  moreover have "\<not> has_row hw_position (tb_position d + 1) (tb_changes d)"
    using shape_okD(3) [OF ok] by (fastforce simp: feed_ok_def has_row_def)
  ultimately show ?thesis
    using room by (simp add: insert_record_def insert_change_def next_position_def)
qed

lemma shape_inserted:
  assumes ok: "shape_ok K d" and fit: "fits K d row" and room: "tb_position d < i64_max"
    and next_room: "\<forall>x \<in> set (tb_sessions d). sw_next x < i64_max"
  shows "shape_ok K (inserted row d)"
proof -
  have "rows_wf K (inserted row d)"
  proof -
    have "record_row_wf K row" using fit by (simp add: fits_def)
    moreover have "rw_id row \<notin> set (map rw_id (tb_records d))" using fit by (simp add: fits_def has_row_set)
    ultimately show ?thesis using shape_okD(1) [OF ok] by (auto simp: rows_wf_def inserted_def)
  qed
  moreover have "sessions_wf (inserted row d)"
    unfolding sessions_wf_def
  proof (intro conjI allI ballI)
    have W: "sessions_wf d" by (rule shape_okD(2) [OF ok])
    have "map sw_id (tb_sessions (inserted row d)) = map sw_id (tb_sessions d)"
      by (simp add: inserted_def)
    then show "distinct (map sw_id (tb_sessions (inserted row d)))" using W by (simp add: sessions_wf_def)
    fix x assume "x \<in> set (tb_sessions (inserted row d))"
    then obtain y where y: "y \<in> set (tb_sessions d)"
        "x = (if sw_id y = rw_session row then y\<lparr>sw_next := sw_next y + 1\<rparr> else y)"
      by (auto simp: inserted_def)
    moreover have "\<not> blank (sw_id y) \<and> sw_next y = int (length (session_rows (sw_id y) d)) \<and> sw_next y < i64_max"
      using W y(1) next_room by (simp add: sessions_wf_def)
    ultimately show "\<not> blank (sw_id x)" "sw_next x = int (length (session_rows (sw_id x) (inserted row d)))"
        "sw_next x \<le> i64_max" by (auto simp: session_rows_inserted split: if_splits)
  next
    fix i
    have "map rw_sequence (session_rows i d) = map int [0..<length (session_rows i d)]"
      using shape_okD(2) [OF ok] by (simp add: sessions_wf_def)
    then show "map rw_sequence (session_rows i (inserted row d)) = map int [0..<length (session_rows i (inserted row d))]"
      using fit by (simp add: session_rows_inserted fits_def)
  qed
  moreover have "feed_ok (inserted row d)"
  proof -
    have F: "feed_ok d" by (rule shape_okD(3) [OF ok])
    have "rw_id row \<notin> set (map hw_record (tb_changes d))"
      using fit feed_records [OF F] by (simp add: fits_def has_row_set del: set_map)
    moreover have "tb_position d + 1 \<notin> set (map hw_position (tb_changes d))"
      using F by (fastforce simp: feed_ok_def)
    moreover have "\<forall>x \<in> set (tb_records (inserted row d)). rw_revision x < tb_position d + 1"
      using F fit by (fastforce simp: feed_ok_def inserted_def fits_def)
    moreover have "\<forall>h \<in> set (tb_changes (inserted row d)). 1 \<le> hw_position h \<and> hw_position h \<le> tb_position d + 1"
      using F by (fastforce simp: feed_ok_def inserted_def)
    ultimately show ?thesis using F room by (simp add: feed_ok_def inserted_def)
  qed
  ultimately show ?thesis by (simp add: shape_ok_def)
qed

lemma feed_moves_inserted:
  assumes ok: "shape_ok K d" and fit: "fits K d row"
  shows "feed_moves 1 d (inserted row d)"
proof -
  have F: "feed_ok d" by (rule shape_okD(3) [OF ok])
  have new: "hw_record h \<noteq> rw_id row" if "h \<in> set (tb_changes d)" for h
  proof
    assume "hw_record h = rw_id row"
    then have "rw_id row \<in> set (map rw_id (tb_records d))"
      using that unfolding feed_records [OF F, symmetric] by (metis image_eqI set_map)
    moreover have "\<not> has_row rw_id (rw_id row) (tb_records d)" using fit by (simp add: fits_def)
    ultimately show False by (simp add: has_row_set)
  qed
  have "r \<in> set (tb_records d) \<and> (\<forall>h \<in> set (tb_changes (inserted row d)). hw_record h = rw_id r \<longrightarrow> h \<in> set (tb_changes d)) \<or>
      (\<forall>h \<in> set (tb_changes (inserted row d)). hw_record h = rw_id r \<longrightarrow> tb_position d < hw_position h)"
    if "r \<in> set (tb_records (inserted row d))" for r
  proof (cases "rw_id r = rw_id row")
    case True
    then show ?thesis using new by (auto simp: inserted_def)
  next
    case False
    then show ?thesis using that by (auto simp: inserted_def)
  qed
  then show ?thesis by (simp add: feed_moves_def) (simp add: inserted_def)
qed

lemma view_inserted:
  assumes "shape_ok K d" and "fits K d row" and "row_decode K row = Ok \<lparr>en_initial = x, en_current = x\<rparr>"
    and "view_sessions d (r_session (sn_record x)) = Some ids"
  shows "tables_view K (inserted row d) = appended x ids (tables_view K d)"
proof -
  have cur: "as_str (r_id (sn_record x)) = rw_id row" "as_str (r_session (sn_record x)) = rw_session row"
    using row_current_Ok [OF row_decode_current [OF assms(3)]] by simp_all
  have new: "row_by rw_id (rw_id row) (tb_records d) = None" using assms(2) by (simp add: fits_def row_by_None)
  have "view_records K (inserted row d) = (view_records K d)(r_id (sn_record x) \<mapsto> \<lparr>en_initial = x, en_current = x\<rparr>)"
  proof
    fix i
    show "view_records K (inserted row d) i =
        ((view_records K d)(r_id (sn_record x) \<mapsto> \<lparr>en_initial = x, en_current = x\<rparr>)) i"
      using new assms(3) cur(1) same_string [of i "r_id (sn_record x)"]
      by (cases "i = r_id (sn_record x)") (simp_all add: view_records_def inserted_def row_by_append split: option.split)
  qed
  moreover have "view_sessions (inserted row d) = (view_sessions d)(r_session (sn_record x) \<mapsto> ids @ [r_id (sn_record x)])"
  proof
    fix i
    have "Ident (rw_id row) = r_id (sn_record x)" using cur(1) by (metis ident.exhaust_sel)
    moreover have "row_by sw_id k (tb_sessions (inserted row d)) =
        map_option (\<lambda>y. if sw_id y = rw_session row then y\<lparr>sw_next := sw_next y + 1\<rparr> else y) (row_by sw_id k (tb_sessions d))" for k
      unfolding inserted_def by (simp add: row_by_map)
    ultimately show "view_sessions (inserted row d) i =
        ((view_sessions d)(r_session (sn_record x) \<mapsto> ids @ [r_id (sn_record x)])) i"
      using cur(2) assms(4) same_string [of i "r_session (sn_record x)"]
      by (cases "i = r_session (sn_record x)")
        (auto simp: view_sessions_def session_rows_inserted option.map_comp o_def)
  qed
  moreover have "view_runs K (inserted row d) = view_runs K d" "view_decisions (inserted row d) = view_decisions d"
      "view_continuations K (inserted row d) = view_continuations K d" "view_latest (inserted row d) = view_latest d"
      "view_relations K (inserted row d) = view_relations K d"
    by (simp_all add: fun_eq_iff view_runs_def view_decisions_def view_continuations_def view_latest_def latest_row_def
        view_relations_def inserted_def)
  ultimately show ?thesis by (simp add: tables_view_def appended_def)
qed

lemma runs_insert_row:
  assumes ok: "shape_ok K d" and store: "draft_storable K dr" and valid: "validate (d_payload dr) (d_state dr) = Ok ()"
    and new: "view_records K d (d_id dr) = None"
    and ids: "view_sessions d (d_session dr) = Some ids" "u64_of_usize (length ids) = Some q"
    and run: "\<forall>i. d_run dr = Some i \<longrightarrow> (\<exists>spec. view_runs K d i = Some spec \<and> rs_session spec = d_session dr)"
    and reply: "\<forall>p. d_reply dr = Some p \<longrightarrow> view_records K d p \<noteq> None"
    and room: "tb_position d < i64_max" "\<forall>x \<in> set (tb_sessions d). sw_next x < i64_max"
  obtains row where "runs D (sql_insert_row D K (snapshot_of dr q)) d (Ok ()) (inserted row d)"
    "shape_ok K (inserted row d)" "rw_id row = as_str (d_id dr)"
    "tables_view K (inserted row d) = appended (snapshot_of dr q) ids (tables_view K d)"
    "feed_moves 1 d (inserted row d)"
proof -
  obtain source payload where row: "record_row_of K (snapshot_of dr q) = Ok (record_row_of_texts (snapshot_of dr q) source payload)"
      and texts: "transpose_map (codec_decode (fm_parse K) (fm_source K)) source = Ok (d_source dr)"
        "codec_decode (fm_parse K) (fm_payload K) payload = Ok (d_payload dr)"
    by (rule record_row_of_storable [OF store])
  let ?row = "record_row_of_texts (snapshot_of dr q) source payload"
  obtain x where x: "row_by sw_id (as_str (d_session dr)) (tb_sessions d) = Some x"
    using ids(1) by (auto simp: view_sessions_def)
  have len: "int (length ids) < i64_max" "\<not> blank (as_str (d_session dr))"
    using session_length [OF shape_okD(2) [OF ok] x] row_by_Some [OF x] room(2) view_sessions_row(2) [OF ids(1)] by auto
  have q: "unat q = length ids" by (rule u64_of_usize_Some [OF ids(2)])
  with len have small: "unat q \<le> nat i64_max" by simp
  have dec: "row_decode K ?row = Ok \<lparr>en_initial = snapshot_of dr q, en_current = snapshot_of dr q\<rparr>"
    by (rule new_row_decodes [OF store valid texts small len(2)])
      (use run reply view_runs_row(3) [OF shape_okD(1) [OF ok]] ids_nonblank_reply [OF shape_okD(1) [OF ok]] in blast)+
  have fit: "fits K d ?row"
    unfolding fits_def
  proof (intro conjI allI impI)
    show "\<not> has_row rw_id (rw_id ?row) (tb_records d)"
      using new view_records_None [OF shape_okD(1) [OF ok]] by (simp add: record_row_of_texts_def)
    show "has_row sw_id (rw_session ?row) (tb_sessions d)"
      using view_sessions_row(1) [OF ids(1)] by (simp add: record_row_of_texts_def)
    show "rw_sequence ?row = int (length (session_rows (rw_session ?row) d))"
      using as_i64_small [OF small] q view_sessions_row(2) [OF ids(1)] by (simp add: record_row_of_texts_def)
    show "rw_state ?row \<in> {''open'', ''complete'', ''interrupted''}"
      by (cases "d_state dr") (simp_all add: record_row_of_texts_def state_name_def)
    show "has_row rw_id p (tb_records d)" if "rw_reply ?row = Some p" for p
      using that reply view_records_None [OF shape_okD(1) [OF ok]] by (auto simp: record_row_of_texts_def)
    show "has_row (\<lambda>x. (nw_id x, nw_session x)) (n, rw_session ?row) (tb_runs d)" if "rw_run ?row = Some n" for n
      using that run view_runs_row(1) [OF shape_okD(1) [OF ok]] by (fastforce simp: record_row_of_texts_def)
    show "rw_revision ?row = 0" "rw_initial ?row = None" by (simp_all add: record_row_of_texts_def)
    show "record_row_wf K ?row"
      using dec store
      by (simp add: record_row_wf_def draft_storable_def) (simp add: record_row_of_texts_def i64_max_def)
  qed
  let ?d1 = "d\<lparr>tb_records := tb_records d @ [?row], tb_position := tb_position d + 1,
      tb_changes := tb_changes d @
        [\<lparr>hw_record = rw_id ?row, hw_session = rw_session ?row, hw_position = tb_position d + 1\<rparr>]\<rparr>"
  have 1: "insert_record ?row d = Some ?d1" by (rule insert_record_fits [OF ok fit room(1)])
  have sess: "as_str (r_session (sn_record (snapshot_of dr q))) = rw_session ?row"
    by (simp add: record_row_of_texts_def)
  have 2: "bump_session (as_str (r_session (sn_record (snapshot_of dr q)))) ?d1 = Some (inserted ?row d)"
    unfolding sess using room(2) by (auto simp: bump_session_def inserted_def)
  have "runs D (sql_insert_row D K (snapshot_of dr q)) d (Ok ()) (inserted ?row d)"
    unfolding sql_insert_row_def row
    by (simp only: and_then_known)
      (rule runs_and_then, rule runs_statement, rule 1, rule runs_statement, rule 2)
  moreover have "shape_ok K (inserted ?row d)" by (rule shape_inserted [OF ok fit room])
  moreover have "tables_view K (inserted ?row d) = appended (snapshot_of dr q) ids (tables_view K d)"
    by (rule view_inserted [OF ok fit dec]) (simp add: ids)
  moreover have "rw_id ?row = as_str (d_id dr)" by (simp add: record_row_of_texts_def)
  ultimately show thesis using that feed_moves_inserted [OF ok fit] by blast
qed

subsection \<open>A new revision\<close>

definition revised_row :: "string \<Rightarrow> string \<Rightarrow> int \<Rightarrow> string option \<Rightarrow> record_row \<Rightarrow> record_row" where
  "revised_row payload state revision initial r =
     r\<lparr>rw_payload := payload, rw_state := state, rw_revision := revision,
       rw_initial := (case rw_initial r of Some s \<Rightarrow> Some s | None \<Rightarrow> initial)\<rparr>"

definition revised :: "string \<Rightarrow> record_row \<Rightarrow> tables \<Rightarrow> tables" where
  "revised i row d =
     d\<lparr>tb_records := map (\<lambda>r. if rw_id r = i then row else r) (tb_records d), tb_position := tb_position d + 1,
       tb_changes := map (\<lambda>h. if hw_record h = i then h\<lparr>hw_position := tb_position d + 1\<rparr> else h) (tb_changes d)\<rparr>"

definition revise :: "'v payload \<Rightarrow> record_state \<Rightarrow> u64 \<Rightarrow> 'v snapshot \<Rightarrow> 'v snapshot" where
  "revise p st rv x = x\<lparr>sn_record := (sn_record x)\<lparr>r_payload := p\<rparr>, sn_state := st, sn_revision := rv\<rparr>"

lemma filter_key_once:
  "distinct (map key rows) \<Longrightarrow> r \<in> set rows \<Longrightarrow> length (filter (\<lambda>x. key x = key r) rows) = 1"
proof (induction rows)
  case (Cons x rows)
  show ?case
  proof (cases "key x = key r")
    case True
    with Cons.prems have "x = r" "\<forall>y \<in> set rows. key y \<noteq> key r" by (auto, metis image_eqI)
    with True show ?thesis by (simp add: filter_empty_conv)
  next
    case False
    with Cons show ?thesis by auto
  qed
qed simp

lemma update_record_one:
  assumes ok: "shape_ok K d" and r: "r \<in> set (tb_records d)" and room: "tb_position d < i64_max"
    and rev: "0 \<le> revision" "revision \<noteq> rw_revision r"
  shows "update_record (rw_id r) (rw_revision r) payload (state_name st) revision initial d =
    Some (1, revised (rw_id r) (revised_row payload (state_name st) revision initial r) d)"
proof -
  let ?hit = "\<lambda>x. rw_id x = rw_id r \<and> rw_revision x = rw_revision r"
  have dist: "distinct (map rw_id (tb_records d))" using shape_okD(1) [OF ok] by (simp add: rows_wf_def)
  have only: "x = r" if "x \<in> set (tb_records d)" "rw_id x = rw_id r" for x
    using row_by_iff [OF dist, of "rw_id r"] that r by (metis option.inject)
  then have "filter ?hit (tb_records d) = filter (\<lambda>x. rw_id x = rw_id r) (tb_records d)"
    by (auto intro: filter_cong)
  moreover have "length (filter (\<lambda>x. rw_id x = rw_id r) (tb_records d)) = 1"
    by (rule filter_key_once [OF dist r])
  moreover have "map (\<lambda>x. if ?hit x then x\<lparr>rw_payload := payload, rw_state := state_name st, rw_revision := revision,
      rw_initial := (case rw_initial x of Some s \<Rightarrow> Some s | None \<Rightarrow> initial)\<rparr> else x) (tb_records d) =
      map (\<lambda>x. if rw_id x = rw_id r then revised_row payload (state_name st) revision initial r else x) (tb_records d)"
    using only by (auto simp: revised_row_def)
  moreover have "state_name st \<in> {''open'', ''complete'', ''interrupted''}" by (cases st) (simp_all add: state_name_def)
  moreover have "\<not> has_row hw_position (tb_position d + 1) (tb_changes d)"
    using shape_okD(3) [OF ok] by (fastforce simp: feed_ok_def has_row_def)
  ultimately show ?thesis
    using rev room unfolding update_record_def Let_def
    by (simp add: move_change_def next_position_def revised_def)
qed

lemma revised_current:
  assumes "row_current K r = Ok cur" and "codec_decode (fm_parse K) (fm_payload K) payload = Ok p"
  shows "row_current K (revised_row payload (state_name st) (int (unat rv)) initial r) = Ok (revise p st rv cur)"
  using assms by (auto simp: row_current_def rbind_eq_Ok revised_row_def revise_def column_number_Ok simp del: column_id_Ok)

lemma revised_decodes:
  assumes "row_decode K r = Ok en" and "record_row_wf K r"
    and p: "codec_decode (fm_parse K) (fm_payload K) payload = Ok p" and valid: "validate p st = Ok ()"
    and rv: "unat rv \<le> nat i64_max"
    and initial: "sn_revision (en_current en) = 0 \<Longrightarrow> \<exists>s. initial = Some s \<and>
      codec_decode (fm_parse K) (fm_initial K) s =
        Ok \<lparr>ic_payload = r_payload (sn_record (en_current en)), ic_state = sn_state (en_current en)\<rparr>"
  shows "row_decode K (revised_row payload (state_name st) (int (unat rv)) initial r) =
    Ok (en\<lparr>en_current := revise p st rv (en_current en)\<rparr>)"
proof -
  let ?cur = "en_current en" and ?row = "revised_row payload (state_name st) (int (unat rv)) initial r"
  have cur: "row_current K r = Ok ?cur" by (rule row_decode_current [OF assms(1)])
  have new: "row_current K ?row = Ok (revise p st rv ?cur)" by (rule revised_current [OF cur p])
  have check: "check_stored p st = Ok ()" using valid by (simp add: check_stored_def)
  have R: "0 \<le> rw_revision r" "sn_revision ?cur = word_of_int (rw_revision r)" "rw_revision r \<le> i64_max"
    using row_current_Ok [OF cur] assms(2) by (simp_all add: record_row_wf_def)
  have zero: "sn_revision ?cur = 0 \<longleftrightarrow> rw_revision r = 0"
  proof
    assume "sn_revision ?cur = 0"
    then have "nat (rw_revision r) = 0" using word_of_column [OF R(1,3)] R(2) by simp
    then show "rw_revision r = 0" using R(1) by simp
  qed (simp add: R(2))
  show ?thesis
  proof (cases "rw_initial r")
    case None
    then have "rw_revision r = 0" using assms(2) by (simp add: record_row_wf_def)
    with zero have z: "sn_revision ?cur = 0" by simp
    from initial [OF z] obtain s where s: "initial = Some s" "codec_decode (fm_parse K) (fm_initial K) s =
        Ok \<lparr>ic_payload = r_payload (sn_record ?cur), ic_state = sn_state ?cur\<rparr>" by blast
    have "\<lparr>en_initial = ?cur, en_current = ?cur\<rparr> = en"
        and old: "check_stored (r_payload (sn_record ?cur)) (sn_state ?cur) = Ok ()"
      using assms(1) cur None by (auto simp: row_decode_def rbind_eq_Ok split: if_splits)
    then have "en_initial en = ?cur" by (metis entry.select_convs(1))
    then have "en\<lparr>en_current := revise p st rv ?cur\<rparr> =
        \<lparr>en_initial = ?cur, en_current = revise p st rv ?cur\<rparr>" by simp
    moreover have "(revise p st rv ?cur)\<lparr>sn_record := (sn_record (revise p st rv ?cur))\<lparr>r_payload := r_payload (sn_record ?cur)\<rparr>,
        sn_state := sn_state ?cur, sn_revision := 0\<rparr> = ?cur"
      using z by (simp add: revise_def)
    ultimately show ?thesis
      unfolding row_decode_def new using check s old None
      by (simp add: revise_def) (simp add: revised_row_def)
  next
    case (Some s)
    obtain content where c: "codec_decode (fm_parse K) (fm_initial K) s = Ok content"
        "check_stored (ic_payload content) (ic_state content) = Ok ()"
        "en = \<lparr>en_initial = ?cur\<lparr>sn_record := (sn_record ?cur)\<lparr>r_payload := ic_payload content\<rparr>,
                     sn_state := ic_state content, sn_revision := 0\<rparr>, en_current = ?cur\<rparr>"
      using assms(1) cur Some by (auto simp: row_decode_def rbind_eq_Ok)
    have "en_initial en = ?cur\<lparr>sn_record := (sn_record ?cur)\<lparr>r_payload := ic_payload content\<rparr>,
        sn_state := ic_state content, sn_revision := 0\<rparr>" using c(3) by (metis entry.select_convs(1))
    then have "en\<lparr>en_current := revise p st rv ?cur\<rparr> =
        \<lparr>en_initial = (revise p st rv ?cur)
           \<lparr>sn_record := (sn_record (revise p st rv ?cur))\<lparr>r_payload := ic_payload content\<rparr>,
            sn_state := ic_state content, sn_revision := 0\<rparr>,
         en_current = revise p st rv ?cur\<rparr>" by (simp add: revise_def)
    moreover have "rw_initial ?row = Some s" by (simp add: revised_row_def Some)
    moreover have "check_stored (r_payload (sn_record (revise p st rv ?cur))) (sn_state (revise p st rv ?cur)) = Ok ()"
      using check by (simp add: revise_def)
    ultimately show ?thesis unfolding row_decode_def new using c(1,2) by simp
  qed
qed

lemma map_change_ids:
  "map (\<lambda>h. (hw_record h, hw_session h)) (map (\<lambda>h. if hw_record h = i then h\<lparr>hw_position := p\<rparr> else h) hs) =
   map (\<lambda>h. (hw_record h, hw_session h)) hs"
  by simp

lemma distinct_moved:
  assumes "distinct (map hw_record hs)" and "distinct (map hw_position hs)" and "p \<notin> set (map hw_position hs)"
  shows "distinct (map hw_position (map (\<lambda>h. if hw_record h = i then h\<lparr>hw_position := p\<rparr> else h) hs))"
  using assms by (induction hs) (auto simp: image_iff)

lemma revised_sel [simp]:
  "tb_runs (revised i row d) = tb_runs d" "tb_sessions (revised i row d) = tb_sessions d"
  "tb_decisions (revised i row d) = tb_decisions d" "tb_continuations (revised i row d) = tb_continuations d"
  "tb_relations (revised i row d) = tb_relations d" "tb_position (revised i row d) = tb_position d + 1"
  by (simp_all add: revised_def)

lemma revised_changes: "tb_changes (revised i row d) =
    map (\<lambda>h. if hw_record h = i then h\<lparr>hw_position := tb_position d + 1\<rparr> else h) (tb_changes d)"
  by (simp add: revised_def)

lemma shape_revised:
  assumes ok: "shape_ok K d" and r: "r \<in> set (tb_records d)" "rw_id r = i" and room: "tb_position d < i64_max"
    and same: "rw_id row = i" "rw_session row = rw_session r" "rw_sequence row = rw_sequence r" and wf: "record_row_wf K row"
    and rev: "rw_revision row \<le> tb_position d"
  shows "shape_ok K (revised i row d)"
proof -
  have dist: "distinct (map rw_id (tb_records d))" using shape_okD(1) [OF ok] by (simp add: rows_wf_def)
  have only: "x = r" if "x \<in> set (tb_records d)" "rw_id x = i" for x
    using row_by_iff [OF dist, of i] that r by (metis option.inject)
  have ids: "map rw_id (tb_records (revised i row d)) = map rw_id (tb_records d)"
    using same(1) by (simp add: revised_def)
  have "distinct (map rw_id (tb_records (revised i row d)))" by (simp only: ids dist)
  moreover have "\<forall>x \<in> set (tb_records (revised i row d)). record_row_wf K x"
    using shape_okD(1) [OF ok] wf by (auto simp: rows_wf_def revised_def)
  ultimately have "rows_wf K (revised i row d)" using shape_okD(1) [OF ok] by (simp add: rows_wf_def)
  moreover have seqs: "map rw_sequence (session_rows k (revised i row d)) = map rw_sequence (session_rows k d)" for k
    using only same
    by (simp add: session_rows_def revised_def filter_map o_def cong: map_cong)
       (rule map_cong [OF filter_cong], auto)
  then have "length (session_rows k (revised i row d)) = length (session_rows k d)" for k
    by (metis length_map)
  note lengths = this
  have "sessions_wf (revised i row d)"
    unfolding sessions_wf_def revised_sel seqs lengths
    using shape_okD(2) [OF ok] unfolding sessions_wf_def .
  moreover have "feed_ok (revised i row d)"
  proof -
    have F: "feed_ok d" by (rule shape_okD(3) [OF ok])
    have "tb_position d + 1 \<notin> set (map hw_position (tb_changes d))" using F by (fastforce simp: feed_ok_def)
    then have "distinct (map hw_position (tb_changes (revised i row d)))"
      unfolding revised_changes using F unfolding feed_ok_def by (intro distinct_moved) simp_all
    moreover have "map (\<lambda>h. (hw_record h, hw_session h)) (tb_changes (revised i row d)) =
        map (\<lambda>r. (rw_id r, rw_session r)) (tb_records (revised i row d))"
    proof -
      have "map (\<lambda>r. (rw_id r, rw_session r)) (tb_records (revised i row d)) =
          map (\<lambda>r. (rw_id r, rw_session r)) (tb_records d)"
        using only same by (auto simp: revised_def)
      then show ?thesis using F by (simp only: feed_ok_def revised_changes map_change_ids)
    qed
    moreover have "map hw_record (tb_changes (revised i row d)) = map hw_record (tb_changes d)"
      by (simp add: revised_def)
    moreover have "\<forall>h \<in> set (tb_changes (revised i row d)). 1 \<le> hw_position h \<and> hw_position h \<le> tb_position d + 1"
      using F by (fastforce simp: feed_ok_def revised_changes)
    moreover have "\<forall>x \<in> set (tb_records (revised i row d)). rw_revision x < tb_position d + 1"
      using F rev by (fastforce simp: feed_ok_def revised_def)
    ultimately show ?thesis using F room unfolding feed_ok_def revised_sel by simp
  qed
  ultimately show ?thesis by (simp add: shape_ok_def)
qed

lemma feed_moves_revised:
  assumes "rw_id row = i"
  shows "feed_moves 1 d (revised i row d)"
proof -
  have "r \<in> set (tb_records d) \<and> (\<forall>h \<in> set (tb_changes (revised i row d)). hw_record h = rw_id r \<longrightarrow> h \<in> set (tb_changes d)) \<or>
      (\<forall>h \<in> set (tb_changes (revised i row d)). hw_record h = rw_id r \<longrightarrow> tb_position d < hw_position h)"
    if "r \<in> set (tb_records (revised i row d))" for r
    using that assms by (cases "rw_id r = i") (auto simp: revised_def)
  then show ?thesis by (simp add: feed_moves_def) (simp add: revised_def)
qed

lemma view_revised:
  assumes ok: "shape_ok K d" and r: "row_by rw_id (as_str i) (tb_records d) = Some r"
    and row: "row_decode K row = Ok en" "rw_id row = as_str i" "rw_session row = rw_session r"
  shows "tables_view K (revised (as_str i) row d) =
    (tables_view K d)\<lparr>ms_records := (view_records K d)(i \<mapsto> en)\<rparr>"
proof -
  have dist: "distinct (map rw_id (tb_records d))" using shape_okD(1) [OF ok] by (simp add: rows_wf_def)
  have only: "x = r" if "x \<in> set (tb_records d)" "rw_id x = as_str i" for x
    using row_by_iff [OF dist, of "as_str i"] that r by (metis option.inject)
  have "row_by rw_id k (tb_records (revised (as_str i) row d)) =
      map_option (\<lambda>x. if rw_id x = as_str i then row else x) (row_by rw_id k (tb_records d))" for k
    using row(2) unfolding revised_def by (simp add: row_by_map)
  note lookup = this
  have "view_records K (revised (as_str i) row d) = (view_records K d)(i \<mapsto> en)"
  proof
    fix k
    show "view_records K (revised (as_str i) row d) k = ((view_records K d)(i \<mapsto> en)) k"
    proof (cases "k = i")
      case True
      then show ?thesis using lookup [of "as_str i"] r row(1) row_by_Some [OF r] by (simp add: view_records_def)
    next
      case False
      then have "as_str k \<noteq> as_str i" by (simp add: same_string)
      then have "row_by rw_id (as_str k) (tb_records (revised (as_str i) row d)) = row_by rw_id (as_str k) (tb_records d)"
        using lookup [of "as_str k"] row_by_Some by (cases "row_by rw_id (as_str k) (tb_records d)") fastforce+
      then show ?thesis using False by (simp add: view_records_def)
    qed
  qed
  moreover have "view_sessions (revised (as_str i) row d) = view_sessions d"
  proof -
    have "map rw_id (session_rows k (revised (as_str i) row d)) = map rw_id (session_rows k d)" for k
      using only row(2,3)
      by (simp add: session_rows_def revised_def filter_map o_def cong: map_cong)
         (rule map_cong [OF filter_cong], auto)
    then have "map (\<lambda>r. Ident (rw_id r) :: record_id) (session_rows k (revised (as_str i) row d)) =
        map (\<lambda>r. Ident (rw_id r)) (session_rows k d)" for k
      by (metis (no_types, lifting) list.map_comp map_eq_conv o_def)
    then show ?thesis by (simp add: fun_eq_iff view_sessions_def)
  qed
  moreover have "view_runs K (revised (as_str i) row d) = view_runs K d"
      "view_decisions (revised (as_str i) row d) = view_decisions d"
      "view_continuations K (revised (as_str i) row d) = view_continuations K d"
      "view_latest (revised (as_str i) row d) = view_latest d"
      "view_relations K (revised (as_str i) row d) = view_relations K d"
    by (simp_all add: fun_eq_iff view_runs_def view_decisions_def view_continuations_def view_latest_def latest_row_def
        view_relations_def revised_def)
  ultimately show ?thesis by (simp add: tables_view_def)
qed

end
