(* ===== verification/Sqlite_Effects.thy ===== *)
theory Sqlite_Effects imports Sqlite_Writes begin

section \<open>The writing statements of the SQLite store\<close>

text \<open>
  Each statement, or group of statements, that an operation issues after its checks: it runs
  on well-formed tables, keeps them well-formed, and changes the represented state in the one
  place the in-memory store changes.
\<close>

subsection \<open>A new revision of a record\<close>

lemma stored_revision:
  assumes "record_row_wf K r" and "row_decode K r = Ok en"
  shows "as_i64 (sn_revision (en_current en)) = rw_revision r" and "0 \<le> rw_revision r"
    and "unat (sn_revision (en_current en)) = nat (rw_revision r)"
proof -
  have R: "0 \<le> rw_revision r" "sn_revision (en_current en) = word_of_int (rw_revision r)" "rw_revision r \<le> i64_max"
    using row_current_Ok [OF row_decode_current [OF assms(2)]] assms(1) by (simp_all add: record_row_wf_def)
  show U: "unat (sn_revision (en_current en)) = nat (rw_revision r)" unfolding R(2) by (rule word_of_column [OF R(1,3)])
  then have "unat (sn_revision (en_current en)) \<le> nat i64_max" using R by simp
  then show "as_i64 (sn_revision (en_current en)) = rw_revision r" using U R(1) by (simp add: as_i64_small)
  show "0 \<le> rw_revision r" by (rule R(1))
qed

lemma initial_document:
  assumes "record_row_wf K r" and "row_decode K r = Ok en"
  obtains initial where
    "(if sn_revision (en_current en) = 0
      then rbind (codec_encode (fm_initial K)
             \<lparr>ic_payload = r_payload (sn_record (en_current en)), ic_state = sn_state (en_current en)\<rparr>) (\<lambda>s. Ok (Some s))
      else Ok None) = Ok initial"
    "sn_revision (en_current en) = 0 \<Longrightarrow> \<exists>s. initial = Some s \<and>
      codec_decode (fm_parse K) (fm_initial K) s =
        Ok \<lparr>ic_payload = r_payload (sn_record (en_current en)), ic_state = sn_state (en_current en)\<rparr>"
proof (cases "sn_revision (en_current en) = 0")
  case True
  have "payload_storable K (r_payload (sn_record (en_current en)))"
    using assms by (auto simp: record_row_wf_def)
  then obtain s where s: "codec_encode (fm_initial K)
        \<lparr>ic_payload = r_payload (sn_record (en_current en)), ic_state = sn_state (en_current en)\<rparr> = Ok s"
      "codec_decode (fm_parse K) (fm_initial K) s =
        Ok \<lparr>ic_payload = r_payload (sn_record (en_current en)), ic_state = sn_state (en_current en)\<rparr>"
    unfolding payload_storable_def reads_back_def by blast
  show thesis by (rule that [of "Some s"]) (use True s in simp_all)
next
  case False
  show thesis by (rule that [of None]) (use False in simp_all)
qed

lemma runs_update_row:
  assumes ok: "shape_ok K d" and en: "view_records K d i = Some en"
    and room: "has_room d" and next_rev: "unat rv = Suc (unat (sn_revision (en_current en)))"
    and valid: "validate p st = Ok ()" and again: "payload_storable K p"
  obtains d' where "runs D (sql_update_row D K (en_current en) (revise p st rv (en_current en))) d (Ok ()) d'"
    "shape_ok K d'" "tables_view K d' = (tables_view K d)\<lparr>ms_records := (view_records K d)
        (i \<mapsto> en\<lparr>en_current := revise p st rv (en_current en)\<rparr>)\<rparr>"
    "tb_position d' = tb_position d + 1" "tb_sessions d' = tb_sessions d" "tb_decisions d' = tb_decisions d"
    "feed_moves 1 d d'"
proof -
  obtain r where r: "row_by rw_id (as_str i) (tb_records d) = Some r" "r \<in> set (tb_records d)" "rw_id r = as_str i"
      "row_decode K r = Ok en" "record_row_wf K r"
    by (rule view_records_row [OF shape_okD(1) [OF ok] en])
  note rev = stored_revision [OF r(5,4)]
  have less: "rw_revision r < i64_max" using room r(2) by (simp add: has_room_def)
  then have small: "unat rv \<le> nat i64_max" using next_rev rev(2,3) by simp
  have num: "int (unat rv) = rw_revision r + 1" using next_rev rev(2,3) by simp
  obtain initial where initial: "(if sn_revision (en_current en) = 0
      then rbind (codec_encode (fm_initial K)
             \<lparr>ic_payload = r_payload (sn_record (en_current en)), ic_state = sn_state (en_current en)\<rparr>) (\<lambda>s. Ok (Some s))
      else Ok None) = Ok initial"
    "sn_revision (en_current en) = 0 \<Longrightarrow> \<exists>s. initial = Some s \<and>
      codec_decode (fm_parse K) (fm_initial K) s =
        Ok \<lparr>ic_payload = r_payload (sn_record (en_current en)), ic_state = sn_state (en_current en)\<rparr>"
    using initial_document [OF r(5,4)] by blast
  obtain doc where doc: "codec_encode (fm_payload K) p = Ok doc" "codec_decode (fm_parse K) (fm_payload K) doc = Ok p"
    using again by (auto simp: payload_storable_def reads_back_def)
  let ?new = "revise p st rv (en_current en)"
  let ?row = "revised_row doc (state_name st) (int (unat rv)) initial r"
  have sel: "sn_revision ?new = rv" "r_payload (sn_record ?new) = p" "sn_state ?new = st" by (simp_all add: revise_def)
  have differ: "en_current en \<noteq> ?new" using next_rev sel(1) by (metis n_not_Suc_n)
  have rv: "revision_i64 rv = Ok (int (unat rv))" using small by (simp only: revision_i64_def if_True)
  have ident: "as_str (r_id (sn_record (en_current en))) = rw_id r"
    using row_current_Ok [OF row_decode_current [OF r(4)]] by simp
  have pos: "tb_position d < i64_max" using room by (simp add: has_room_def)
  have step: "update_record (rw_id r) (rw_revision r) doc (state_name st) (int (unat rv)) initial d =
      Some (1, revised (rw_id r) ?row d)"
    by (rule update_record_one [OF ok r(2) pos]) (use num rev(2) in simp_all)
  have dec: "row_decode K ?row = Ok (en\<lparr>en_current := ?new\<rparr>)"
    by (rule revised_decodes [OF r(4,5) doc(2) valid small initial(2)])
  have wf: "record_row_wf K ?row"
  proof -
    have "rw_initial ?row \<noteq> None"
    proof (cases "rw_initial r")
      case None
      then have "unat (sn_revision (en_current en)) = 0" using r(5) rev(3) by (simp add: record_row_wf_def)
      then have "sn_revision (en_current en) = 0" by (simp only: unsigned_eq_0_iff)
      from initial(2) [OF this] None show ?thesis by (auto simp: revised_row_def)
    qed (simp add: revised_row_def)
    moreover have "rw_revision ?row = rw_revision r + 1" unfolding num by (simp add: revised_row_def)
    ultimately show ?thesis
      using dec again sel(2) less rev(2) by (simp add: record_row_wf_def)
  qed
  have same: "rw_id ?row = rw_id r" "rw_session ?row = rw_session r" "rw_sequence ?row = rw_sequence r"
    by (simp_all add: revised_row_def)
  show thesis
  proof (rule that [of "revised (rw_id r) ?row d"])
    have "rw_revision r < tb_position d" using shape_okD(3) [OF ok] r(2) by (simp add: feed_ok_def)
    then have bound: "rw_revision ?row \<le> tb_position d" using num by (simp add: revised_row_def)
    show "runs D (sql_update_row D K (en_current en) ?new) d (Ok ()) (revised (rw_id r) ?row d)"
      unfolding sql_update_row_def
      by (simp only: differ if_False sel rv initial(1) doc(1) ident rev(1) and_then_known)
        (rule runs_and_then, rule runs_execute, rule step, simp add: runs_intros)
    show "shape_ok K (revised (rw_id r) ?row d)" by (rule shape_revised [OF ok r(2) HOL.refl pos same wf bound])
    show "tables_view K (revised (rw_id r) ?row d) = (tables_view K d)\<lparr>ms_records := (view_records K d)
        (i \<mapsto> en\<lparr>en_current := ?new\<rparr>)\<rparr>"
      unfolding r(3) by (rule view_revised [OF ok r(1) dec]) (use same r(3) in simp_all)
    show "feed_moves 1 d (revised (rw_id r) ?row d)" by (rule feed_moves_revised [OF same(1)])
  qed simp_all
qed

end
