(* ===== verification/Sqlite_Links.thy ===== *)
theory Sqlite_Links imports Sqlite_Effects begin

section \<open>Sessions, runs, decisions and relations in the tables\<close>

lemma untouched:
  assumes "tb_records d' = tb_records d" and "tb_sessions d' = tb_sessions d"
    and "tb_changes d' = tb_changes d" and "tb_position d' = tb_position d"
  shows "sessions_wf d' = sessions_wf d" and "feed_ok d' = feed_ok d"
  by (simp_all add: assms sessions_wf_def session_rows_def feed_ok_def)

subsection \<open>A new session\<close>

lemma rows_of_unknown_session:
  assumes ok: "tables_ok K d" and none: "view_sessions d i = None"
  shows "session_rows (as_str i) d = []"
proof (rule ccontr)
  assume "session_rows (as_str i) d \<noteq> []"
  then obtain r where r: "r \<in> set (tb_records d)" "rw_session r = as_str i"
    unfolding session_rows_def by (metis (mono_tags, lifting) filter_False)
  have rows: "rows_wf K d" using tables_okD(1) [OF ok] .
  then obtain en where en: "row_decode K r = Ok en" using r(1) by (auto simp: rows_wf_def record_row_wf_def)
  have "row_by rw_id (rw_id r) (tb_records d) = Some r"
    using rows r(1) by (intro row_by_member) (simp_all add: rows_wf_def)
  then have "view_records K d (Ident (rw_id r)) = Some en" using en by (simp add: view_records_def)
  moreover have "records_ok (view_sessions d) (view_runs K d) (view_records K d)"
    using tables_okD(4) [OF ok] by (simp add: ms_inv_def core_inv_def)
  ultimately have "view_sessions d (r_session (sn_record (en_current en))) \<noteq> None"
    unfolding records_ok_def by blast
  moreover have "r_session (sn_record (en_current en)) = i"
    using row_current_Ok [OF row_decode_current [OF en]] r(2) by (simp add: same_string [symmetric])
  ultimately show False using none by simp
qed

lemma session_inserted:
  assumes ok: "tables_ok K d" and i: "id_ok i"
  obtains d' where "insert_session (as_str i) d = Some d'" "shape_ok K d'"
    "tables_view K d' = (case view_sessions d i of Some _ \<Rightarrow> tables_view K d
       | None \<Rightarrow> (tables_view K d)\<lparr>ms_sessions := (view_sessions d)(i \<mapsto> [])\<rparr>)"
    "feed_moves 2 d d'"
proof (cases "view_sessions d i")
  case (Some ids)
  show thesis
    by (rule that [of d])
      (use Some view_sessions_row(1) [OF Some] ok in \<open>simp_all add: insert_session_def tables_ok_iff\<close>)
next
  case None
  then have new: "\<not> has_row sw_id (as_str i) (tb_sessions d)"
    by (simp add: view_sessions_def row_by_None)
  let ?d = "d\<lparr>tb_sessions := tb_sessions d @ [\<lparr>sw_id = as_str i, sw_next = 0\<rparr>]\<rparr>"
  have rows: "session_rows k ?d = session_rows k d" for k by (simp add: session_rows_def)
  have shape: "shape_ok K d" using ok by (simp add: tables_ok_iff)
  have "sessions_wf ?d"
    using shape_okD(2) [OF shape] new i rows_of_unknown_session [OF ok None]
    by (auto simp: sessions_wf_def rows has_row_def id_ok_def i64_max_def)
  moreover have "rows_wf K ?d" "feed_ok ?d" using shape by (simp_all add: shape_ok_def rows_wf_def feed_ok_def)
  ultimately have shape': "shape_ok K ?d" by (simp add: shape_ok_def)
  have "row_by sw_id (as_str i) (tb_sessions d) = None" using new by (simp add: row_by_None)
  then have "view_sessions ?d = (view_sessions d)(i \<mapsto> [])"
    using rows_of_unknown_session [OF ok None]
    by (auto simp: fun_eq_iff view_sessions_def rows row_by_append same_string split: option.splits)
  moreover have "view_records K ?d = view_records K d" "view_runs K ?d = view_runs K d"
      "view_decisions ?d = view_decisions d" "view_continuations K ?d = view_continuations K d"
      "view_latest ?d = view_latest d" "view_relations K ?d = view_relations K d"
    by (simp_all add: fun_eq_iff view_records_def view_runs_def view_decisions_def view_continuations_def
        view_latest_def latest_row_def view_relations_def)
  ultimately show thesis
    by (intro that [OF _ shape']) (simp_all add: insert_session_def new None tables_view_def feed_moves_same)
qed

subsection \<open>A new run\<close>

definition spec_storable :: "'v formats \<Rightarrow> spec \<Rightarrow> bool" where
  "spec_storable K spec \<longleftrightarrow>
     id_ok (rs_id spec) \<and> id_ok (rs_slot spec) \<and> reads_back (fm_parse K) (fm_manifest K) (rs_context spec) \<and>
     reads_back (fm_parse K) (fm_config K) (rs_config spec)"

lemma view_continuations_row:
  assumes "rows_wf K d" and "view_continuations K d i = Some c"
  obtains r where "row_by cw_id (as_str i) (tb_continuations d) = Some r" "r \<in> set (tb_continuations d)"
    "cw_id r = as_str i" "continuation_decode K i r = Ok c" "\<not> blank (as_str i)"
proof -
  from assms(2) obtain r where r: "row_by cw_id (as_str i) (tb_continuations d) = Some r"
      "ok_value (continuation_decode K i r) = Some c"
    by (auto simp: view_continuations_def bind_eq_Some_conv)
  then have "continuation_decode K i r = Ok c" by (cases "continuation_decode K i r") auto
  then show thesis using that r row_by_Some [OF r(1)] assms(1) by (fastforce simp: rows_wf_def)
qed

lemma view_sessions_ids: "sessions_wf d \<Longrightarrow> view_sessions d i \<noteq> None \<Longrightarrow> \<not> blank (as_str i)"
  using row_by_Some unfolding view_sessions_def sessions_wf_def by fastforce

lemma view_runs_None: "rows_wf K d \<Longrightarrow> view_runs K d i = None \<longleftrightarrow> row_by nw_id (as_str i) (tb_runs d) = None"
proof (cases "row_by nw_id (as_str i) (tb_runs d)")
  case (Some r)
  moreover assume "rows_wf K d"
  ultimately have "\<exists>spec. run_decode K i r = Ok spec"
    using row_by_Some [OF Some] unfolding rows_wf_def by (metis ident.exhaust_sel)
  then show ?thesis by (auto simp: view_runs_def Some)
qed (simp add: view_runs_def)

lemma run_inserted:
  assumes ok: "tables_ok K d" and store: "spec_storable K spec" and new: "view_runs K d (rs_id spec) = None"
    and sess: "view_sessions d (rs_session spec) \<noteq> None"
    and cont: "\<And>i. rs_continuation spec = Some i \<Longrightarrow> view_continuations K d i \<noteq> None"
  obtains row where "run_row_of K spec = Ok row" and "insert_run row d = Some (d\<lparr>tb_runs := tb_runs d @ [row]\<rparr>)"
    and "shape_ok K (d\<lparr>tb_runs := tb_runs d @ [row]\<rparr>)"
    and "tables_view K (d\<lparr>tb_runs := tb_runs d @ [row]\<rparr>) =
      (tables_view K d)\<lparr>ms_runs := (view_runs K d)(rs_id spec \<mapsto> spec)\<rparr>"
proof -
  have shape: "shape_ok K d" using ok by (simp add: tables_ok_iff)
  obtain ctx config where
      c: "codec_encode (fm_manifest K) (rs_context spec) = Ok ctx"
         "codec_decode (fm_parse K) (fm_manifest K) ctx = Ok (rs_context spec)"
      and f: "codec_encode (fm_config K) (rs_config spec) = Ok config"
         "codec_decode (fm_parse K) (fm_config K) config = Ok (rs_config spec)"
    using store by (auto simp: spec_storable_def reads_back_def)
  define row where "row = \<lparr>nw_id = as_str (rs_id spec), nw_session = as_str (rs_session spec),
      nw_slot = as_str (rs_slot spec), nw_context = ctx, nw_config = Some config,
      nw_continuation = map_option as_str (rs_continuation spec)\<rparr>"
  have of_spec: "run_row_of K spec = Ok row" by (simp add: run_row_of_def c(1) f(1) row_def)
  have blanks: "\<not> blank (as_str (rs_session spec))" "\<not> blank (as_str (rs_slot spec))" "\<not> blank (as_str (rs_id spec))"
    using view_sessions_ids [OF shape_okD(2) [OF shape] sess] store by (simp_all add: spec_storable_def id_ok_def)
  have conts: "\<forall>i. rs_continuation spec = Some i \<longrightarrow> \<not> blank (as_str i) \<and> has_row cw_id (as_str i) (tb_continuations d)"
  proof (intro allI impI)
    fix i assume "rs_continuation spec = Some i"
    then obtain c where "view_continuations K d i = Some c" using cont by blast
    then obtain r where "row_by cw_id (as_str i) (tb_continuations d) = Some r" "\<not> blank (as_str i)"
      by (rule view_continuations_row [OF shape_okD(1) [OF shape]])
    then show "\<not> blank (as_str i) \<and> has_row cw_id (as_str i) (tb_continuations d)" by (simp add: has_row_iff)
  qed
  have decoded: "run_decode K (rs_id spec) row = Ok spec"
    using conts by (simp add: run_decode_def row_def column_id_of [OF blanks(1)] column_id_of [OF blanks(2)] c(2) f(2)
        columns_of del: column_id_Ok)
  let ?d = "d\<lparr>tb_runs := tb_runs d @ [row]\<rparr>"
  have fresh: "row_by nw_id (as_str (rs_id spec)) (tb_runs d) = None"
    using new view_runs_None [OF shape_okD(1) [OF shape]] by blast
  have "has_row sw_id (as_str (rs_session spec)) (tb_sessions d)" using sess view_sessions_row(1) by blast
  then have insert: "insert_run row d = Some ?d"
    using conts fresh by (auto simp: insert_run_def row_def row_by_None)
  have "rows_wf K ?d"
    using shape_okD(1) [OF shape] fresh decoded blanks(3)
    by (auto simp: rows_wf_def row_def row_by_None has_row_def)
  moreover have "sessions_wf ?d" "feed_ok ?d"
    using shape untouched [of ?d d] by (simp_all add: shape_ok_def)
  ultimately have shape': "shape_ok K ?d" by (simp add: shape_ok_def)
  have "view_runs K ?d = (view_runs K d)(rs_id spec \<mapsto> spec)"
    using fresh decoded by (auto simp: fun_eq_iff view_runs_def row_by_append row_def same_string split: option.split)
  moreover have "view_records K ?d = view_records K d" "view_sessions ?d = view_sessions d"
      "view_decisions ?d = view_decisions d" "view_continuations K ?d = view_continuations K d"
      "view_latest ?d = view_latest d" "view_relations K ?d = view_relations K d"
    by (simp_all add: fun_eq_iff view_records_def view_sessions_def session_rows_def view_decisions_def
        view_continuations_def view_latest_def latest_row_def view_relations_def)
  ultimately have "tables_view K ?d = (tables_view K d)\<lparr>ms_runs := (view_runs K d)(rs_id spec \<mapsto> spec)\<rparr>"
    by (simp add: tables_view_def)
  with of_spec insert shape' show thesis by (rule that)
qed

subsection \<open>A decision\<close>

lemma decision_inserted:
  assumes shape: "shape_ok K d" and new: "view_decisions d q = None"
    and unused: "\<not> has_row snd (as_str i) (tb_decisions d)"
    and "view_records K d q \<noteq> None" and "view_records K d i \<noteq> None"
  defines "d' \<equiv> d\<lparr>tb_decisions := tb_decisions d @ [(as_str q, as_str i)]\<rparr>"
  shows "insert_decision (as_str q) (as_str i) d = Some d'" and "shape_ok K d'"
    and "tables_view K d' = (tables_view K d)\<lparr>ms_decisions := (view_decisions d)(q \<mapsto> i)\<rparr>"
proof -
  have fresh: "row_by fst (as_str q) (tb_decisions d) = None" using new by (simp add: view_decisions_def)
  show "insert_decision (as_str q) (as_str i) d = Some d'"
    using assms(3-5) fresh view_records_None [OF shape_okD(1) [OF shape]]
    by (simp add: insert_decision_def d'_def row_by_None)
  have "as_str q \<notin> fst ` set (tb_decisions d)" using fresh by (auto simp: row_by_None has_row_def)
  then have "rows_wf K d'" using shape_okD(1) [OF shape] by (auto simp: rows_wf_def d'_def)
  then show "shape_ok K d'" using shape untouched [of d' d] by (simp add: shape_ok_def d'_def)
  have "view_decisions d' = (view_decisions d)(q \<mapsto> i)"
    using fresh by (auto simp: fun_eq_iff view_decisions_def d'_def row_by_append same_string split: option.split)
  moreover have "view_records K d' = view_records K d" "view_sessions d' = view_sessions d"
      "view_runs K d' = view_runs K d" "view_continuations K d' = view_continuations K d"
      "view_latest d' = view_latest d" "view_relations K d' = view_relations K d"
    by (simp_all add: d'_def fun_eq_iff view_records_def view_sessions_def session_rows_def view_runs_def
        view_continuations_def view_latest_def latest_row_def view_relations_def)
  ultimately show "tables_view K d' = (tables_view K d)\<lparr>ms_decisions := (view_decisions d)(q \<mapsto> i)\<rparr>"
    by (simp add: tables_view_def)
qed

lemma decision_unused:
  assumes ok: "tables_ok K d" and none: "view_records K d i = None"
  shows "\<not> has_row snd (as_str i) (tb_decisions d)"
proof
  assume "has_row snd (as_str i) (tb_decisions d)"
  then obtain p where p: "p \<in> set (tb_decisions d)" "snd p = as_str i" by (auto simp: has_row_def)
  have "distinct (map fst (tb_decisions d))" using tables_okD(1) [OF ok] by (simp add: rows_wf_def)
  then have "view_decisions d (Ident (fst p)) = Some i"
    using row_by_member [of fst "tb_decisions d" p] p by (simp add: view_decisions_def)
  then show False using ms_inv_known_decision [OF tables_okD(4) [OF ok]] none by fastforce
qed

subsection \<open>An execution relation\<close>

lemma relation_inserted:
  assumes ok: "tables_ok K d" and store: "reads_back (fm_parse K) (fm_relation K) e"
    and new: "map_of (view_relations K d) (er_child e) = None"
    and runs: "view_runs K d (er_parent e) \<noteq> None" "view_runs K d (er_child e) \<noteq> None" "er_parent e \<noteq> er_child e"
  obtains row where "relation_row_of K e = Ok row"
    "insert_relation row d = Some (d\<lparr>tb_relations := tb_relations d @ [row]\<rparr>)"
    "shape_ok K (d\<lparr>tb_relations := tb_relations d @ [row]\<rparr>)"
    "tables_view K (d\<lparr>tb_relations := tb_relations d @ [row]\<rparr>) =
      (tables_view K d)\<lparr>ms_relations := put_relation e (view_relations K d)\<rparr>"
proof -
  have shape: "shape_ok K d" using ok by (simp add: tables_ok_iff)
  obtain json where j: "codec_encode (fm_relation K) e = Ok json" "codec_decode (fm_parse K) (fm_relation K) json = Ok e"
    using store by (auto simp: reads_back_def)
  define row where "row = \<lparr>lw_child = as_str (er_child e), lw_parent = as_str (er_parent e), lw_json = json\<rparr>"
  have of_e: "relation_row_of K e = Ok row" by (simp add: relation_row_of_def j(1) row_def)
  have decoded: "relation_decode K (er_child e) row = Ok e" by (simp add: relation_decode_def row_def j(2))
  let ?d = "d\<lparr>tb_relations := tb_relations d @ [row]\<rparr>"
  have fresh: "row_by lw_child (as_str (er_child e)) (tb_relations d) = None"
  proof (rule ccontr)
    assume "row_by lw_child (as_str (er_child e)) (tb_relations d) \<noteq> None"
    then obtain r where r: "row_by lw_child (as_str (er_child e)) (tb_relations d) = Some r" by blast
    then have "r \<in> set (tb_relations d)" "Ident (lw_child r) = er_child e" using row_by_Some by fastforce+
    then have "\<exists>x. relation_decode K (er_child e) r = Ok x" using view_relation_row [OF shape_okD(1) [OF shape]] by metis
    then show False using new r by (auto simp: map_of_view_relations [OF shape_okD(1) [OF shape]])
  qed
  have insert: "insert_relation row d = Some ?d"
    using fresh runs view_runs_None [OF shape_okD(1) [OF shape]]
    by (simp add: insert_relation_def row_def row_by_None [symmetric] same_string)
  have "rows_wf K ?d"
    using shape_okD(1) [OF shape] fresh decoded by (auto simp: rows_wf_def row_def row_by_None has_row_def)
  moreover have "sessions_wf ?d" "feed_ok ?d"
    using shape untouched [of ?d d] by (simp_all add: shape_ok_def)
  ultimately have shape': "shape_ok K ?d" by (simp add: shape_ok_def)
  have "view_relation K row = Some (er_child e, e)" using decoded by (simp add: view_relation_def row_def)
  then have "view_relations K ?d = put_relation e (view_relations K d)"
    by (simp add: view_relations_def put_relation_def List.map_filter_def)
  moreover have "view_records K ?d = view_records K d" "view_sessions ?d = view_sessions d"
      "view_decisions ?d = view_decisions d" "view_continuations K ?d = view_continuations K d"
      "view_latest ?d = view_latest d" "view_runs K ?d = view_runs K d"
    by (simp_all add: fun_eq_iff view_records_def view_sessions_def session_rows_def view_decisions_def
        view_continuations_def view_latest_def latest_row_def view_runs_def)
  ultimately have "tables_view K ?d = (tables_view K d)\<lparr>ms_relations := put_relation e (view_relations K d)\<rparr>"
    by (simp add: tables_view_def)
  with of_e insert shape' show thesis by (rule that)
qed

end
