(* ===== verification/Sqlite_Chains.thy ===== *)
theory Sqlite_Chains imports Sqlite_Links begin

section \<open>Continuations in the tables\<close>

text \<open>
  Saving demotes the latest row of the native key before it inserts the successor, and
  claiming rewrites one column; the represented registry changes as the in-memory one.
\<close>

subsection \<open>Rows and what they represent\<close>

lemma continuation_decode_fields:
  assumes "continuation_decode K i r = Ok c"
  shows "k_id (cr_continuation c) = i" and "row_native_key r = continuation_key (cr_continuation c)"
    and "cr_latest c = cw_latest r" and "cw_predecessor r = map_option as_str (k_predecessor (cr_continuation c))"
  using assms
  by (auto simp: continuation_decode_def rbind_eq_Ok row_native_key_def continuation_key_def split: if_splits)

lemma continuation_decode_latest:
  "continuation_decode K i r = Ok c \<Longrightarrow>
     continuation_decode K i (r\<lparr>cw_latest := b\<rparr>) = Ok (c\<lparr>cr_latest := b\<rparr>)"
  by (auto simp: continuation_decode_def rbind_eq_Ok split: if_splits)

lemma claimed_state: "continuation_state_of ''claimed'' = Ok Claimed"
  by (simp add: continuation_state_of_def)

lemma continuation_decode_state:
  assumes "continuation_decode K i r = Ok c" and "continuation_state_of name = Ok state"
  shows "continuation_decode K i (r\<lparr>cw_state := name\<rparr>) = Ok (c\<lparr>cr_state := state\<rparr>)"
proof (cases "codec_decode (fm_parse K) (fm_continuation K) (cw_descriptor r)")
  case (Ok k)
  show ?thesis
  proof (cases "continuation_validate k")
    case valid: (Ok u)
    show ?thesis
      using assms(1) unfolding continuation_decode_def
      by (cases "continuation_state_of (cw_state r)") (auto simp: Ok valid assms(2) simp del: de_Morgan_disj split: if_split_asm)
  qed (use assms(1) Ok in \<open>simp_all add: continuation_decode_def\<close>)
qed (use assms(1) in \<open>simp_all add: continuation_decode_def\<close>)

lemmas continuation_decode_claimed = continuation_decode_state [OF _ claimed_state]

text \<open>Changing the row of one continuation.\<close>

lemma continuation_changed:
  assumes shape: "shape_ok K d" and r: "row_by cw_id (as_str i) (tb_continuations d) = Some r"
    and c: "continuation_decode K i (g r) = Ok c" and key: "\<And>x. cw_id (g x) = cw_id x"
  defines "d' \<equiv> d\<lparr>tb_continuations := map (\<lambda>x. if cw_id x = as_str i then g x else x) (tb_continuations d)\<rparr>"
  shows "shape_ok K d'" and "view_continuations K d' = (view_continuations K d)(i \<mapsto> c)"
proof -
  let ?f = "\<lambda>x. if cw_id x = as_str i then g x else x"
  have W: "rows_wf K d" by (rule shape_okD(1) [OF shape])
  have dist: "distinct (map cw_id (tb_continuations d))" using W by (simp add: rows_wf_def)
  have only: "x = r" if "x \<in> set (tb_continuations d)" "cw_id x = as_str i" for x
    using row_by_iff [OF dist, of "as_str i"] that r by (metis option.inject)
  have ids: "map cw_id (tb_continuations d') = map cw_id (tb_continuations d)" using key by (simp add: d'_def)
  have rows: "\<not> blank (cw_id x) \<and> (\<exists>c. continuation_decode K (Ident (cw_id x)) x = Ok c)"
    if "x \<in> set (tb_continuations d')" for x
  proof -
    from that obtain y where y: "y \<in> set (tb_continuations d)" "x = ?f y" by (auto simp: d'_def)
    show ?thesis
    proof (cases "cw_id y = as_str i")
      case True
      then have "y = r" using only y(1) by blast
      then show ?thesis using True c key y W by (auto simp: rows_wf_def)
    qed (use y W in \<open>auto simp: rows_wf_def\<close>)
  qed
  have "rows_wf K d'"
    using W rows dist unfolding rows_wf_def ids by (simp add: d'_def)
  then show "shape_ok K d'" using shape untouched [of d' d] by (simp add: shape_ok_def d'_def)
  have lookup: "row_by cw_id k (tb_continuations d') = map_option ?f (row_by cw_id k (tb_continuations d))" for k
    unfolding d'_def by (simp add: row_by_map key)
  show "view_continuations K d' = (view_continuations K d)(i \<mapsto> c)"
  proof
    fix k
    show "view_continuations K d' k = ((view_continuations K d)(i \<mapsto> c)) k"
    proof (cases "k = i")
      case True
      then show ?thesis using lookup [of "as_str i"] r row_by_Some [OF r] c by (simp add: view_continuations_def)
    next
      case False
      then have "as_str k \<noteq> as_str i" by (simp add: same_string)
      then have "row_by cw_id (as_str k) (tb_continuations d') = row_by cw_id (as_str k) (tb_continuations d)"
        using lookup [of "as_str k"] row_by_Some by (cases "row_by cw_id (as_str k) (tb_continuations d)") fastforce+
      then show ?thesis using False by (simp add: view_continuations_def)
    qed
  qed
qed

lemma view_untouched:
  assumes "tb_records d' = tb_records d" and "tb_sessions d' = tb_sessions d" and "tb_runs d' = tb_runs d"
    and "tb_decisions d' = tb_decisions d" and "tb_relations d' = tb_relations d"
  shows "view_records K d' = view_records K d" and "view_sessions d' = view_sessions d"
    and "view_runs K d' = view_runs K d" and "view_decisions d' = view_decisions d"
    and "view_relations K d' = view_relations K d"
  by (simp_all add: assms fun_eq_iff view_records_def view_sessions_def session_rows_def view_runs_def
      view_decisions_def view_relations_def)

subsection \<open>The latest row\<close>

lemma registry_view_inv: "tables_ok K d \<Longrightarrow> reg_inv \<lparr>reg_records = view_continuations K d, reg_latest = view_latest d\<rparr>"
  using tables_okD(4) by (fastforce simp: ms_inv_def core_inv_def conts_ok_def)

lemma continuation_row_view:
  assumes "rows_wf K d" and "r \<in> set (tb_continuations d)"
  obtains c where "continuation_decode K (Ident (cw_id r)) r = Ok c"
    "view_continuations K d (Ident (cw_id r)) = Some c"
proof -
  from assms obtain c where c: "continuation_decode K (Ident (cw_id r)) r = Ok c" by (auto simp: rows_wf_def)
  moreover have "row_by cw_id (cw_id r) (tb_continuations d) = Some r"
    using assms by (intro row_by_member) (simp_all add: rows_wf_def)
  ultimately show thesis by (intro that) (simp_all add: view_continuations_def)
qed

lemma latest_row_Some: "latest_row key d = Some r \<Longrightarrow> r \<in> set (tb_continuations d) \<and> row_native_key r = key \<and> cw_latest r"
  by (auto simp: latest_row_def find_Some_iff)

text \<open>A latest row is the row of the latest continuation of its native key.\<close>

lemma latest_row_unique:
  assumes ok: "tables_ok K d" and r: "r \<in> set (tb_continuations d)" "cw_latest r"
  shows "latest_row (row_native_key r) d = Some r"
proof -
  let ?g = "\<lparr>reg_records = view_continuations K d, reg_latest = view_latest d\<rparr>"
  have W: "rows_wf K d" by (rule tables_okD(1) [OF ok])
  obtain c where c: "continuation_decode K (Ident (cw_id r)) r = Ok c"
      "view_continuations K d (Ident (cw_id r)) = Some c" by (rule continuation_row_view [OF W r(1)])
  note F = continuation_decode_fields [OF c(1)]
  have "reg_latest ?g (continuation_key (cr_continuation c)) = Some (Ident (cw_id r))"
    using reg_invD(3) [OF registry_view_inv [OF ok], of "Ident (cw_id r)" c] c(2) F(3) r(2) by simp
  then obtain x where x: "latest_row (row_native_key r) d = Some x" "cw_id x = cw_id r"
    using F(2) by (auto simp: view_latest_def)
  have dist: "distinct (map cw_id (tb_continuations d))" using W by (simp add: rows_wf_def)
  have "row_by cw_id (cw_id x) (tb_continuations d) = Some x"
    using latest_row_Some [OF x(1)] by (intro row_by_member [OF dist]) blast
  moreover have "row_by cw_id (cw_id x) (tb_continuations d) = Some r"
    unfolding x(2) by (rule row_by_member [OF dist r(1)])
  ultimately show ?thesis using x(1) by simp
qed

lemma find_map_same:
  "(\<And>x. x \<in> set xs \<Longrightarrow> P (f x) = P x) \<Longrightarrow> find P (map f xs) = map_option f (find P xs)"
  by (induction xs) auto

lemma find_append_one:
  "find P (xs @ [x]) = (case find P xs of Some y \<Rightarrow> Some y | None \<Rightarrow> if P x then Some x else None)"
  by (induction xs) (auto split: option.splits)

subsection \<open>Claiming\<close>

lemma continuation_claimed:
  assumes ok: "tables_ok K d" and c: "view_continuations K d i = Some c"
  obtains d' where "claim_row (as_str i) d = Some d'" "shape_ok K d'"
    "tables_view K d' = (tables_view K d)\<lparr>ms_continuations :=
      \<lparr>reg_records = (view_continuations K d)(i \<mapsto> c\<lparr>cr_state := Claimed\<rparr>), reg_latest = view_latest d\<rparr>\<rparr>"
    "feed_moves 2 d d'"
proof -
  have shape: "shape_ok K d" using ok by (simp add: tables_ok_iff)
  obtain r where r: "row_by cw_id (as_str i) (tb_continuations d) = Some r" "continuation_decode K i r = Ok c"
    by (rule view_continuations_row [OF shape_okD(1) [OF shape] c])
  let ?g = "\<lambda>x. x\<lparr>cw_state := ''claimed''\<rparr>" and ?f = "\<lambda>x. if cw_id x = as_str i then x\<lparr>cw_state := ''claimed''\<rparr> else x"
  define d' where "d' = d\<lparr>tb_continuations := map ?f (tb_continuations d)\<rparr>"
  note D = continuation_changed [where g = ?g, OF shape r(1) continuation_decode_claimed [OF r(2)], simplified, folded d'_def]
  have "latest_row key d' = map_option ?f (latest_row key d)" for key
    unfolding latest_row_def d'_def by (simp, rule find_map_same) (simp add: row_native_key_def)
  then have "view_latest d' = view_latest d"
    by (auto simp: fun_eq_iff view_latest_def option.map_comp o_def intro!: option.map_cong)
  moreover have "claim_row (as_str i) d = Some d'" by (simp add: claim_row_def d'_def)
  moreover have same: "tb_records d' = tb_records d" "tb_sessions d' = tb_sessions d" "tb_runs d' = tb_runs d"
      "tb_decisions d' = tb_decisions d" "tb_relations d' = tb_relations d" and feed: "feed_moves 2 d d'"
    by (simp_all add: d'_def feed_moves_same)
  ultimately show thesis
    using D feed by (intro that [of d']) (simp_all add: tables_view_def view_untouched [OF same])
qed

subsection \<open>Saving\<close>

definition demoted :: "'v continuation_record option \<Rightarrow> tables \<Rightarrow> tables" where
  "demoted previous d =
     (case previous of
        None \<Rightarrow> d
      | Some p \<Rightarrow> d\<lparr>tb_continuations := map (\<lambda>r. if cw_id r = as_str (k_id (cr_continuation p))
            then r\<lparr>cw_latest := False\<rparr> else r) (tb_continuations d)\<rparr>)"

lemma demoted_sel [simp]:
  "tb_records (demoted p d) = tb_records d" "tb_sessions (demoted p d) = tb_sessions d"
  "tb_runs (demoted p d) = tb_runs d" "tb_decisions (demoted p d) = tb_decisions d"
  "tb_relations (demoted p d) = tb_relations d" "tb_changes (demoted p d) = tb_changes d"
  "tb_position (demoted p d) = tb_position d" "tb_epoch (demoted p d) = tb_epoch d"
  by (simp_all add: demoted_def split: option.split)

lemma demoted_columns:
  "map cw_id (tb_continuations (demoted p d)) = map cw_id (tb_continuations d)"
  "map cw_predecessor (tb_continuations (demoted p d)) = map cw_predecessor (tb_continuations d)"
  by (auto simp: demoted_def split: option.split)

lemma demoted_has_row:
  "has_row cw_id k (tb_continuations (demoted p d)) = has_row cw_id k (tb_continuations d)"
  "has_row cw_predecessor q (tb_continuations (demoted p d)) = has_row cw_predecessor q (tb_continuations d)"
  by (simp_all only: has_row_set demoted_columns)

lemma demoted_effect:
  assumes ok: "tables_ok K d"
    and p: "previous = registry_previous \<lparr>reg_records = view_continuations K d, reg_latest = view_latest d\<rparr> c"
  shows "shape_ok K (demoted previous d)"
    and "view_continuations K (demoted previous d) = demote previous (view_continuations K d)"
    and "latest_row key (demoted previous d) = (if key = continuation_key c then None else latest_row key d)"
proof -
  let ?g = "\<lparr>reg_records = view_continuations K d, reg_latest = view_latest d\<rparr>"
  have shape: "shape_ok K d" using ok by (simp add: tables_ok_iff)
  have inv: "reg_inv ?g" by (rule registry_view_inv [OF ok])
  have "shape_ok K (demoted previous d) \<and>
    view_continuations K (demoted previous d) = demote previous (view_continuations K d) \<and>
    latest_row key (demoted previous d) = (if key = continuation_key c then None else latest_row key d)"
  proof (cases previous)
    case None
    then have "view_latest d (continuation_key c) = None" using registry_previous_None [OF inv] p by simp
    then show ?thesis using None shape by (simp add: demoted_def demote_def view_latest_def)
  next
    case (Some x)
    note P = registry_previous_Some [OF inv p [symmetric, unfolded Some]]
    let ?i = "k_id (cr_continuation x)"
    let ?f = "\<lambda>r. if cw_id r = as_str ?i then r\<lparr>cw_latest := False\<rparr> else r"
    obtain r where r: "row_by cw_id (as_str ?i) (tb_continuations d) = Some r" "continuation_decode K ?i r = Ok x"
        "r \<in> set (tb_continuations d)" "cw_id r = as_str ?i"
      using view_continuations_row [OF shape_okD(1) [OF shape], of ?i x] P(1) by auto
    note F = continuation_decode_fields [OF r(2)]
    have latest: "latest_row (continuation_key c) d = Some r"
      using latest_row_unique [OF ok r(3)] F(2,3) P(2,3) by simp
    have d: "demoted previous d = d\<lparr>tb_continuations := map ?f (tb_continuations d)\<rparr>" by (simp add: demoted_def Some)
    note D = continuation_changed [where g = "\<lambda>x. x\<lparr>cw_latest := False\<rparr>", OF shape r(1) continuation_decode_latest [OF r(2)], simplified,
        folded d]
    have "latest_row key (demoted previous d) = (if key = continuation_key c then None else latest_row key d)"
    proof (cases "key = continuation_key c")
      case True
      have none: "\<not> (row_native_key (?f y) = key \<and> cw_latest (?f y))" if "y \<in> set (tb_continuations d)" for y
      proof
        assume y: "row_native_key (?f y) = key \<and> cw_latest (?f y)"
        then have "cw_id y \<noteq> as_str ?i" by (auto split: if_splits)
        with y have "latest_row key d = Some y" using latest_row_unique [OF ok that] by simp
        with latest True r(4) \<open>cw_id y \<noteq> as_str ?i\<close> show False by simp
      qed
      then have "find (\<lambda>r. row_native_key r = key \<and> cw_latest r) (map ?f (tb_continuations d)) = None"
        unfolding find_None_iff set_map by blast
      then show ?thesis using True unfolding d latest_row_def by simp
    next
      case False
      have "find (\<lambda>r. row_native_key r = key \<and> cw_latest r) (map ?f (tb_continuations d)) =
          map_option ?f (find (\<lambda>r. row_native_key r = key \<and> cw_latest r) (tb_continuations d))"
      proof (rule find_map_same)
        fix y assume y: "y \<in> set (tb_continuations d)"
        show "(row_native_key (?f y) = key \<and> cw_latest (?f y)) = (row_native_key y = key \<and> cw_latest y)"
        proof (cases "cw_id y = as_str ?i")
          case True
          have "distinct (map cw_id (tb_continuations d))"
            using shape_okD(1) [OF shape] by (simp add: rows_wf_def)
          then have "row_by cw_id (cw_id y) (tb_continuations d) = Some y" using y by (intro row_by_member)
          then have "y = r" using True r(1) by simp
          then show ?thesis using False F(2) P(3) by (auto simp: row_native_key_def)
        qed simp
      qed
      then have "latest_row key (demoted previous d) = map_option ?f (latest_row key d)"
        unfolding d latest_row_def by simp
      moreover have "?f y = y" if "latest_row key d = Some y" for y
      proof -
        have y: "y \<in> set (tb_continuations d)" "row_native_key y = key" using latest_row_Some [OF that] by blast+
        have "distinct (map cw_id (tb_continuations d))"
          using shape_okD(1) [OF shape] by (simp add: rows_wf_def)
        then have "row_by cw_id (cw_id y) (tb_continuations d) = Some y" using y(1) by (intro row_by_member)
        then have "cw_id y = as_str ?i \<Longrightarrow> y = r" using r(1) by simp
        then show ?thesis using y(2) False F(2) P(3) by auto
      qed
      ultimately show ?thesis using False by (cases "latest_row key d") simp_all
    qed
    then show ?thesis using D by (simp add: demote_def Some)
  qed
  then show "shape_ok K (demoted previous d)"
    and "view_continuations K (demoted previous d) = demote previous (view_continuations K d)"
    and "latest_row key (demoted previous d) = (if key = continuation_key c then None else latest_row key d)"
    by blast+
qed

lemma continuation_saved:
  fixes K :: "'v formats" and c :: "'v continuation" and d :: tables
  defines "g \<equiv> \<lparr>reg_records = view_continuations K d, reg_latest = view_latest d\<rparr>"
  assumes ok: "tables_ok K d" and store: "reads_back (fm_parse K) (fm_continuation K) c" "id_ok (k_id c)"
    and sess: "view_sessions d (k_session c) \<noteq> None" and valid: "continuation_ok c"
    and new: "view_continuations K d (k_id c) = None"
    and succ: "validate_successor c (registry_previous g c) = Ok ()"
  obtains row d' where "continuation_row_of K c = Ok row"
    and "insert_continuation row (demoted (registry_previous g c) d) = Some d'" and "shape_ok K d'"
    and "tables_view K d' = (tables_view K d)\<lparr>ms_continuations :=
      \<lparr>reg_records = (demote (registry_previous g c) (view_continuations K d))(k_id c \<mapsto> fresh_record c),
       reg_latest = (view_latest d)(continuation_key c \<mapsto> k_id c)\<rparr>\<rparr>"
    and "feed_moves 2 d d'"
proof -
  let ?p = "registry_previous g c"
  let ?d = "demoted ?p d"
  note D = demoted_effect [OF ok, of ?p c, folded g_def, OF HOL.refl]
  have shape: "shape_ok K d" using ok by (simp add: tables_ok_iff)
  have inv: "reg_inv g" unfolding g_def by (rule registry_view_inv [OF ok])
  obtain descriptor where t: "codec_encode (fm_continuation K) c = Ok descriptor"
      "codec_decode (fm_parse K) (fm_continuation K) descriptor = Ok c"
    using store(1) by (auto simp: reads_back_def)
  define row where "row = \<lparr>cw_id = as_str (k_id c), cw_session = as_str (k_session c), cw_adapter = k_adapter c,
      cw_scope = k_scope c, cw_key = k_native_key c, cw_predecessor = map_option as_str (k_predecessor c),
      cw_descriptor = descriptor, cw_state = ''available'', cw_latest = True\<rparr>"
  define d' where "d' = ?d\<lparr>tb_continuations := tb_continuations ?d @ [row]\<rparr>"
  have of_c: "continuation_row_of K c = Ok row" by (simp add: continuation_row_of_def t(1) row_def)
  have "continuation_validate c = Ok ()" using valid by (simp add: continuation_validate_Ok_iff)
  then have decoded: "continuation_decode K (k_id c) row = Ok (fresh_record c)"
    using t(2) by (simp add: continuation_decode_def row_def continuation_state_of_def fresh_record_def)
  have key: "row_native_key row = continuation_key c" by (simp add: row_native_key_def row_def continuation_key_def)
  have fresh: "\<not> has_row cw_id (as_str (k_id c)) (tb_continuations d)"
  proof
    assume "has_row cw_id (as_str (k_id c)) (tb_continuations d)"
    then obtain r where "r \<in> set (tb_continuations d)" "cw_id r = as_str (k_id c)" by (auto simp: has_row_def)
    then show False using new continuation_row_view [OF shape_okD(1) [OF shape], of r] by force
  qed
  have pred: "has_row cw_id (as_str p) (tb_continuations d) \<and>
      \<not> has_row cw_predecessor (Some (as_str p)) (tb_continuations d)" if p: "k_predecessor c = Some p" for p
  proof -
    obtain x where x: "?p = Some x" "k_id (cr_continuation x) = p"
      using succ p by (auto simp: validate_successor_Ok_iff split: option.splits)
    note P = registry_previous_Some [OF inv x(1), unfolded x(2)]
    have "view_continuations K d p = Some x" using P(1) by (simp add: g_def)
    then have there: "has_row cw_id (as_str p) (tb_continuations d)"
      using view_continuations_row [OF shape_okD(1) [OF shape], of p x] by (metis has_row_iff option.distinct(1))
    have "cw_predecessor r \<noteq> Some (as_str p)" if rin: "r \<in> set (tb_continuations d)" for r
    proof
      assume rp: "cw_predecessor r = Some (as_str p)"
      obtain y where y: "continuation_decode K (Ident (cw_id r)) r = Ok y"
          "view_continuations K d (Ident (cw_id r)) = Some y"
        by (rule continuation_row_view [OF shape_okD(1) [OF shape] rin])
      then have "k_predecessor (cr_continuation y) = Some p"
        using continuation_decode_fields(4) [OF y(1)] rp
        by (cases "k_predecessor (cr_continuation y)") (simp_all add: same_string)
      then obtain q where "reg_records g p = Some q" "\<not> cr_latest q"
        using reg_invD(5) [OF inv, of "Ident (cw_id r)" y p] y(2) by (auto simp: g_def)
      then show False using P(1,2) by simp
    qed
    then show ?thesis using there by (auto simp: has_row_def)
  qed
  have sel: "cw_id row = as_str (k_id c)" "cw_session row = as_str (k_session c)" "cw_latest row"
      "cw_predecessor row = map_option as_str (k_predecessor c)" by (simp_all add: row_def)
  have "has_row sw_id (cw_session row) (tb_sessions ?d)"
    using sess view_sessions_row(1) by (auto simp: sel(2))
  moreover have "\<not> has_row cw_id (cw_id row) (tb_continuations ?d)" using fresh by (simp add: sel(1) demoted_has_row)
  moreover have "\<not> (\<exists>p. cw_predecessor row = Some p \<and>
      (p \<noteq> cw_id row \<and> \<not> has_row cw_id p (tb_continuations ?d) \<or>
       has_row cw_predecessor (Some p) (tb_continuations ?d)))"
    using pred unfolding sel demoted_has_row by (cases "k_predecessor c") simp_all
  moreover have "latest_row (row_native_key row) ?d = None" using D(3) [of "row_native_key row"] key by simp
  ultimately have insert: "insert_continuation row ?d = Some d'"
    unfolding insert_continuation_def d'_def by simp
  have "rows_wf K ?d" by (rule shape_okD(1) [OF D(1)])
  moreover have "as_str (k_id c) \<notin> cw_id ` set (tb_continuations ?d)"
    using fresh demoted_has_row(1) [of "as_str (k_id c)" ?p d] by (simp add: has_row_set)
  moreover have "\<not> blank (cw_id row)" "continuation_decode K (Ident (cw_id row)) row = Ok (fresh_record c)"
    using store(2) decoded by (simp_all add: sel(1) id_ok_def)
  ultimately have "rows_wf K d'" unfolding rows_wf_def d'_def by (simp add: sel(1))
  then have shape': "shape_ok K d'"
    using shape untouched [of d' d] by (simp add: shape_ok_def d'_def)
  have "row_by cw_id (as_str (k_id c)) (tb_continuations ?d) = None"
    using fresh by (simp add: row_by_None demoted_has_row)
  then have "view_continuations K d' = (view_continuations K ?d)(k_id c \<mapsto> fresh_record c)"
    using decoded
    by (auto simp: fun_eq_iff view_continuations_def d'_def row_by_append row_def same_string split: option.split)
  moreover have "latest_row k d' = (if k = continuation_key c then Some row else latest_row k d)" for k
  proof -
    have "latest_row k d' = (case latest_row k ?d of Some r \<Rightarrow> Some r
        | None \<Rightarrow> if row_native_key row = k \<and> cw_latest row then Some row else None)"
      unfolding latest_row_def d'_def by (simp add: find_append_one)
    then show ?thesis using D(3) [of k] key by (auto simp: row_def split: option.split)
  qed
  then have "view_latest d' = (view_latest d)(continuation_key c \<mapsto> k_id c)"
    by (auto simp: fun_eq_iff view_latest_def row_def)
  moreover have same: "tb_records d' = tb_records d" "tb_sessions d' = tb_sessions d" "tb_runs d' = tb_runs d"
      "tb_decisions d' = tb_decisions d" "tb_relations d' = tb_relations d" and feed: "feed_moves 2 d d'"
    by (simp_all add: d'_def feed_moves_same)
  ultimately have "tables_view K d' = (tables_view K d)\<lparr>ms_continuations :=
      \<lparr>reg_records = (demote ?p (view_continuations K d))(k_id c \<mapsto> fresh_record c),
       reg_latest = (view_latest d)(continuation_key c \<mapsto> k_id c)\<rparr>\<rparr>"
    using D(2) by (simp add: tables_view_def view_untouched [OF same])
  with of_c insert shape' feed show thesis by (intro that)
qed

end
