(* ===== verification/Sqlite_Refine.thy ===== *)
theory Sqlite_Refine imports Sqlite_Chains begin

section \<open>The SQLite store refines the in-memory store\<close>

text \<open>
  \<open>mirrors\<close>: run on well-formed tables, a transaction answers what the in-memory operation
  answers on the represented state and leaves tables that represent the state it leaves; an
  error leaves both as they were. One lemma per operation.
\<close>

definition mirrors ::
  "driver \<Rightarrow> 'v formats \<Rightarrow> ('a, tables) sql \<Rightarrow> tables \<Rightarrow> ('a, store_error) result \<times> 'v memory_state \<Rightarrow> bool" where
  "mirrors D K m d out \<longleftrightarrow>
     (case fst out of
        Ok x \<Rightarrow> \<exists>d'. runs D m d (Ok x) d' \<and> shape_ok K d' \<and> tables_view K d' = snd out \<and>
          feed_moves 2 d d'
      | Err e \<Rightarrow> (\<exists>d'. runs D m d (Err e) d') \<and> snd out = tables_view K d
      | Panic \<Rightarrow> False)"

lemma mirrors_Ok:
  "runs D m d (Ok x) d' \<Longrightarrow> shape_ok K d' \<Longrightarrow> tables_view K d' = s \<Longrightarrow> feed_moves 2 d d' \<Longrightarrow>
   mirrors D K m d (Ok x, s)"
  by (auto simp: mirrors_def)

lemma mirrors_Err: "runs D m d (Err e) d' \<Longrightarrow> mirrors D K m d (Err e, tables_view K d)"
  by (auto simp: mirrors_def)

lemma mirrors_same: "tables_ok K d \<Longrightarrow> runs D m d (Ok x) d \<Longrightarrow> mirrors D K m d (Ok x, tables_view K d)"
  by (rule mirrors_Ok [where d' = d]) (simp_all add: tables_ok_iff)

lemma mirrors_fail: "mirrors D K (fail_with e) d (Err e, tables_view K d)"
  by (rule mirrors_Err [OF runs_fail])

lemma mirrors_give: "tables_ok K d \<Longrightarrow> mirrors D K (give x) d (Ok x, tables_view K d)"
  by (rule mirrors_same [OF _ runs_give])

lemma mirrors_after: "runs D m d (Ok x) d \<Longrightarrow> mirrors D K (f x) d out \<Longrightarrow> mirrors D K (and_then m f) d out"
  by (auto simp: mirrors_def intro: runs_and_then split: result.splits)

lemma mirrors_stops: "runs D m d (Err e) d' \<Longrightarrow> mirrors D K (and_then m f) d (Err e, tables_view K d)"
  by (rule mirrors_Err [OF runs_stops])

lemmas mirrors_query = mirrors_after [OF runs_query]
lemmas mirrors_entry = mirrors_after [OF runs_entry]
lemmas mirrors_run = mirrors_after [OF runs_read_run]
lemmas mirrors_relation = mirrors_after [OF runs_read_relation]
lemmas mirrors_continuation = mirrors_after [OF runs_read_continuation]

text \<open>What a mirrored transaction delivers through the connection.\<close>

definition represents :: "'v formats \<Rightarrow> sqlite \<Rightarrow> 'v memory_state \<Rightarrow> bool" where
  "represents K c s \<longleftrightarrow> \<not> cn_poisoned c \<and> tables_ok K (cn_tables c) \<and> tables_view K (cn_tables c) = s"

lemma mirrors_delivered:
  assumes m: "mirrors D K m (cn_tables c) out" and c: "represents K c s" and inv: "ms_inv (snd out)"
  obtains c' where "delivered D (sqlite_write D m c) c (fst out) c'" "represents K c' (snd out)"
    "feed_moves 2 (cn_tables c) (cn_tables c')"
proof (cases "fst out")
  case (Ok x)
  with m obtain d' where d: "runs D m (cn_tables c) (Ok x) d'" "shape_ok K d'" "tables_view K d' = snd out"
      "feed_moves 2 (cn_tables c) d'" by (auto simp: mirrors_def)
  have "delivered D (sqlite_write D m c) c (Ok x) (c\<lparr>cn_tables := d'\<rparr>)"
    using delivered_write [OF d(1)] c by (simp add: represents_def)
  moreover have "represents K (c\<lparr>cn_tables := d'\<rparr>) (snd out)"
    using c d(2,3) inv by (simp add: represents_def tables_ok_iff)
  ultimately show thesis using d(4) Ok by (intro that [of "c\<lparr>cn_tables := d'\<rparr>"]) simp_all
next
  case (Err e)
  with m obtain d' where d: "runs D m (cn_tables c) (Err e) d'" "snd out = tables_view K (cn_tables c)"
    by (auto simp: mirrors_def)
  have "delivered D (sqlite_write D m c) c (Err e) c"
    using delivered_write [OF d(1)] c by (simp add: represents_def)
  then show thesis using c d(2) Err by (intro that [of c]) (simp_all add: represents_def)
qed (use m in \<open>simp add: mirrors_def\<close>)

lemma with_lock_free:
  "\<not> ms_poisoned s \<Longrightarrow> fst (body s) \<noteq> Panic \<Longrightarrow> with_lock body s = body s"
  by (auto simp: with_lock_def split: prod.splits result.splits)

subsection \<open>Sessions\<close>

lemma mirrors_create_session:
  assumes ok: "tables_ok K d" and i: "id_ok i"
  shows "mirrors D K (execute D (as_statement (insert_session (as_str i)))) d
    (memory_create_session i (tables_view K d))"
proof -
  obtain d' where d': "insert_session (as_str i) d = Some d'" "shape_ok K d'"
    "tables_view K d' = (case view_sessions d i of Some _ \<Rightarrow> tables_view K d
       | None \<Rightarrow> (tables_view K d)\<lparr>ms_sessions := (view_sessions d)(i \<mapsto> [])\<rparr>)"
    "feed_moves 2 d d'" by (rule session_inserted [OF ok i])
  have "memory_create_session i (tables_view K d) = (Ok (), tables_view K d')"
    unfolding d'(3) by (simp add: memory_create_session_def with_lock_def split: option.split)
  with d' show ?thesis by (auto intro!: mirrors_Ok runs_statement)
qed

subsection \<open>Runs\<close>

lemma runs_continuation_usable:
  assumes ok: "tables_ok K d"
  shows "runs D (sql_continuation_usable D K spec (sql_read_continuation D K)) d
    (case rs_continuation spec of None \<Rightarrow> Ok ()
     | Some i \<Rightarrow> rbind (registry_get i \<lparr>reg_records = view_continuations K d, reg_latest = view_latest d\<rparr>)
         (\<lambda>saved. if continuation_usable spec saved then Ok () else Err InvalidContinuation)) d"
proof (cases "rs_continuation spec")
  case (Some i)
  then show ?thesis
    by (cases "view_continuations K d i")
      (auto simp: sql_continuation_usable_def registry_get_def sql_simps
        intro!: after_continuation [OF ok] runs_give runs_fail)
qed (simp add: sql_continuation_usable_def runs_give)

lemma mirrors_register_run:
  assumes ok: "tables_ok K d" and store: "spec_storable K spec"
  shows "mirrors D K (sql_register_run D K spec) d (memory_register_run spec (tables_view K d))"
proof (cases "view_runs K d (rs_id spec)")
  case (Some old)
  then have "memory_register_run spec (tables_view K d) =
      (if old = spec then Ok False else Err IdentityConflict, tables_view K d)"
    by (simp add: memory_register_run_def with_lock_def)
  then show ?thesis
    unfolding sql_register_run_def
    using ok by (auto simp: Some sql_simps intro!: mirrors_run mirrors_give mirrors_fail)
next
  case new: None
  define usable where "usable = (case rs_continuation spec of None \<Rightarrow> Ok ()
     | Some i \<Rightarrow> rbind (registry_get i \<lparr>reg_records = view_continuations K d, reg_latest = view_latest d\<rparr>)
         (\<lambda>saved. if continuation_usable spec saved then Ok () else Err InvalidContinuation))"
  define final where "final = context_final (view_records K d) (cm_records (rs_context spec))"
  have np: "usable \<noteq> Panic" "final \<noteq> Panic"
    by (auto simp: usable_def final_def rbind_eq_Panic split: option.splits)
  note U = runs_continuation_usable [OF ok, of D spec, folded usable_def]
  note F = runs_context_final [OF ok, of D "cm_records (rs_context spec)", folded final_def]
  show ?thesis
  proof (cases "view_sessions d (rs_session spec)")
    case None
    then have "memory_register_run spec (tables_view K d) = (Err MissingSession, tables_view K d)"
      using new by (simp add: memory_register_run_def with_lock_def)
    moreover have "runs D (sql_session_sequence D (rs_session spec)) d (Err MissingSession) d"
      using runs_session_sequence [OF ok, of D "rs_session spec"] None by simp
    ultimately show ?thesis
      unfolding sql_register_run_def by (simp, intro mirrors_run [OF ok]) (simp add: new mirrors_stops)
  next
    case (Some ids)
    have seq: "runs D (sql_session_sequence D (rs_session spec)) d (Ok (session_size ids)) d"
      using runs_session_sequence [OF ok, of D "rs_session spec"] Some by simp
    have mem: "memory_register_run spec (tables_view K d) =
        (case usable of Err e \<Rightarrow> (Err e, tables_view K d) | Panic \<Rightarrow> (Panic, tables_view K d)
         | Ok _ \<Rightarrow> (case final of Err e \<Rightarrow> (Err e, tables_view K d) | Panic \<Rightarrow> (Panic, tables_view K d)
            | Ok _ \<Rightarrow> (Ok True, (tables_view K d)\<lparr>ms_runs := (view_runs K d)(rs_id spec \<mapsto> spec)\<rparr>)))"
    proof -
      have "(case rs_continuation spec of None \<Rightarrow> Ok ()
         | Some i \<Rightarrow> rbind (registry_get i (ms_continuations (tables_view K d)))
             (\<lambda>saved. if continuation_usable spec saved then Ok () else Err InvalidContinuation)) = usable"
        by (simp only: usable_def tables_view_sel)
      note fold = this final_def [symmetric]
      show ?thesis
        unfolding memory_register_run_def with_lock_def
        by (simp only: tables_view_sel(1,4,5,6) new Some option.case option.distinct fold if_False)
          (use np in \<open>simp split: result.split\<close>)
    qed
    consider e where "usable = Err e" | e where "usable = Ok ()" "final = Err e" | "usable = Ok ()" "final = Ok ()"
      using np by (cases usable; cases final) auto
    then show ?thesis
    proof cases
      case (1 e)
      then show ?thesis
        using U unfolding mem sql_register_run_def
        by (simp, intro mirrors_run [OF ok]) (simp add: new mirrors_after [OF seq] mirrors_stops)
    next
      case (2 e)
      then show ?thesis
        using U F unfolding mem sql_register_run_def
        by (simp, intro mirrors_run [OF ok]) (simp add: new mirrors_after [OF seq] mirrors_after mirrors_stops)
    next
      case 3
      have cont: "view_continuations K d i \<noteq> None" if "rs_continuation spec = Some i" for i
        using 3(1) that by (auto simp: usable_def rbind_eq_Ok registry_get_def)
      obtain row where row: "run_row_of K spec = Ok row"
          "insert_run row d = Some (d\<lparr>tb_runs := tb_runs d @ [row]\<rparr>)"
          "shape_ok K (d\<lparr>tb_runs := tb_runs d @ [row]\<rparr>)"
          "tables_view K (d\<lparr>tb_runs := tb_runs d @ [row]\<rparr>) =
            (tables_view K d)\<lparr>ms_runs := (view_runs K d)(rs_id spec \<mapsto> spec)\<rparr>"
        using run_inserted [OF ok store new _ cont] Some by blast
      have "runs D (sql_register_run D K spec) d (Ok True) (d\<lparr>tb_runs := tb_runs d @ [row]\<rparr>)"
        unfolding sql_register_run_def
        by (rule after_run [OF ok], simp only: new option.case,
          rule runs_and_then [OF seq], rule runs_and_then [OF U [unfolded 3]],
          rule runs_and_then [OF F [unfolded 3]], simp only: row(1) and_then_known,
          rule runs_and_then, rule runs_statement, rule row(2), rule runs_give)
      moreover have "feed_moves 2 d (d\<lparr>tb_runs := tb_runs d @ [row]\<rparr>)" by (rule feed_moves_same) simp_all
      ultimately show ?thesis using 3 row unfolding mem by (simp add: mirrors_Ok)
    qed
  qed
qed

subsection \<open>Records\<close>

lemma prepared_record:
  assumes ok: "tables_ok K d" and prep: "prepare (tables_view K d) dr = Ok x"
  obtains ids q where "view_sessions d (d_session dr) = Some ids" "u64_of_usize (length ids) = Some q"
    "x = snapshot_of dr q" "validate (d_payload dr) (d_state dr) = Ok ()"
    "\<forall>i. d_run dr = Some i \<longrightarrow> (\<exists>spec. view_runs K d i = Some spec \<and> rs_session spec = d_session dr)"
    "\<forall>p. d_reply dr = Some p \<longrightarrow> view_records K d p \<noteq> None"
  using prep by (auto simp: prepare_Ok_iff validate_Ok_iff)

lemma mirrors_insert:
  assumes ok: "tables_ok K d" and room: "has_room d" and store: "draft_storable K dr"
  shows "mirrors D K (sql_insert D K dr) d (memory_insert dr (tables_view K d))"
proof -
  note mem = memory_insert_def with_lock_def
  consider "is_response (d_payload dr)"
    | en where "\<not> is_response (d_payload dr)" "view_records K d (d_id dr) = Some en"
    | "\<not> is_response (d_payload dr)" "view_records K d (d_id dr) = None"
        "is_request (d_payload dr)" "d_state dr \<noteq> Open"
    | "\<not> is_response (d_payload dr)" "view_records K d (d_id dr) = None"
        "\<not> (is_request (d_payload dr) \<and> d_state dr \<noteq> Open)"
    by (cases "view_records K d (d_id dr)") auto
  then show ?thesis
  proof cases
    case 1
    then show ?thesis by (simp add: sql_insert_def mem mirrors_fail)
  next
    case (2 en)
    then show ?thesis
      using ok by (auto simp: sql_insert_def mem sql_simps intro!: mirrors_entry mirrors_give mirrors_fail)
  next
    case 3
    then show ?thesis
      using ok by (auto simp: sql_insert_def mem sql_simps intro!: mirrors_entry mirrors_fail)
  next
    case 4
    note P = runs_prepare [OF ok room, of D dr]
    show ?thesis
    proof (cases "prepare (tables_view K d) dr")
      case (Err e)
      then have "memory_insert dr (tables_view K d) = (Err e, tables_view K d)" using 4 by (auto simp: mem)
      moreover have "mirrors D K (sql_insert D K dr) d (Err e, tables_view K d)"
        unfolding sql_insert_def using 4 P Err
        by (simp only: if_False) (rule mirrors_entry [OF ok], simp, rule mirrors_stops)
      ultimately show ?thesis by simp
    next
      case (Ok x)
      obtain ids q where p: "view_sessions d (d_session dr) = Some ids" "u64_of_usize (length ids) = Some q"
          "x = snapshot_of dr q" "validate (d_payload dr) (d_state dr) = Ok ()"
          "\<forall>i. d_run dr = Some i \<longrightarrow> (\<exists>spec. view_runs K d i = Some spec \<and> rs_session spec = d_session dr)"
          "\<forall>p. d_reply dr = Some p \<longrightarrow> view_records K d p \<noteq> None"
        by (rule prepared_record [OF ok Ok])
      have "shape_ok K d" "tb_position d < i64_max" "\<forall>x \<in> set (tb_sessions d). sw_next x < i64_max"
        using ok room by (simp_all add: tables_ok_iff has_room_def)
      then obtain row where row: "runs D (sql_insert_row D K x) d (Ok ()) (inserted row d)"
          "shape_ok K (inserted row d)" "tables_view K (inserted row d) = appended x ids (tables_view K d)"
          "feed_moves 1 d (inserted row d)"
        unfolding p(3) using runs_insert_row [OF _ store p(4) 4(2) p(1,2,5,6)] by blast
      have "memory_insert dr (tables_view K d) = (Ok x, appended x ids (tables_view K d))"
        using 4 Ok p(1,3) commit_ok_appended [of "tables_view K d" x ids] by (auto simp: mem)
      moreover have "runs D (sql_insert D K dr) d (Ok x) (inserted row d)"
        unfolding sql_insert_def using 4
        by (simp only: if_False) (rule after_entry [OF ok], simp, rule runs_and_then [OF P [unfolded Ok]],
          rule runs_and_then [OF row(1)], rule runs_give)
      moreover have "feed_moves 2 d (inserted row d)" by (rule feed_moves_le [OF row(4)]) simp
      ultimately show ?thesis using row(2,3) by (simp add: mirrors_Ok)
    qed simp
  qed
qed

text \<open>A checkpoint writes a revision, or finds the record as the caller wants it.\<close>

lemma mirrors_checkpoint:
  assumes ok: "tables_ok K d" and room: "has_room d" and store: "payload_storable K p"
  shows "mirrors D K (sql_checkpoint D K i expected p st) d (memory_checkpoint i expected p st (tables_view K d))"
proof -
  note mem = memory_checkpoint_def with_lock_def
  show ?thesis
  proof (cases "view_records K d i")
    case None
    then show ?thesis
      unfolding sql_checkpoint_def by (simp add: mem, intro mirrors_entry [OF ok]) (simp add: sql_simps mirrors_fail)
  next
    case (Some en)
    show ?thesis
    proof (cases "rules_checkpoint (en_current en) expected p st")
      case (Err e)
      with Some show ?thesis
        unfolding sql_checkpoint_def by (simp add: mem, intro mirrors_entry [OF ok]) (simp add: sql_simps mirrors_fail)
    next
      case (Ok x)
      have out: "memory_checkpoint i expected p st (tables_view K d) =
          (Ok x, (tables_view K d)\<lparr>ms_records := (view_records K d)(i \<mapsto> en\<lparr>en_current := x\<rparr>)\<rparr>)"
        using Some Ok by (simp add: mem)
      have step: "runs D (sql_checkpoint D K i expected p st) d (Ok x) d'"
        if "runs D (sql_update_row D K (en_current en) x) d (Ok ()) d'" for d'
        unfolding sql_checkpoint_def
        by (rule after_entry [OF ok]) (simp add: Some Ok sql_simps runs_and_then [OF that] runs_give)
      from Ok show ?thesis
      proof (cases rule: rules_checkpoint_Ok_cases)
        case repeat
        have "runs D (sql_update_row D K (en_current en) x) d (Ok ()) d"
          unfolding repeat(1) sql_update_row_def by (simp add: runs_give)
        moreover have "(tables_view K d)\<lparr>ms_records := (view_records K d)(i \<mapsto> en\<lparr>en_current := x\<rparr>)\<rparr> = tables_view K d"
          using Some repeat(1) by (simp add: tables_view_def fun_upd_idem)
        ultimately show ?thesis unfolding out using mirrors_same [OF ok step] by simp
      next
        case (applied rv)
        have x: "x = revise p st rv (en_current en)" using applied by (simp add: revise_def)
        have rv: "unat rv = Suc (unat (sn_revision (en_current en)))"
          using checked_add_Some [OF applied(7)] applied(1) by simp
        have valid: "validate p st = Ok ()" using applied(6) by (simp add: validate_Ok_iff)
        have shape: "shape_ok K d" using ok by (simp add: tables_ok_iff)
        obtain d' where d': "runs D (sql_update_row D K (en_current en) x) d (Ok ()) d'" "shape_ok K d'"
            "tables_view K d' = (tables_view K d)\<lparr>ms_records := (view_records K d)(i \<mapsto> en\<lparr>en_current := x\<rparr>)\<rparr>"
            "feed_moves 1 d d'"
          unfolding x
          by (rule runs_update_row [OF shape Some room rv valid store]) blast
        show ?thesis unfolding out by (rule mirrors_Ok [OF step [OF d'(1)] d'(2,3)]) (rule feed_moves_le [OF d'(4)], simp)
      qed
    qed simp
  qed
qed

subsection \<open>Resolution\<close>

lemma resolution_revises:
  assumes inv: "ms_inv s" and en: "ms_records s q = Some en"
    and res: "resolve_request (en_current en) expected dr = Ok x"
  obtains rv where "x = revise (r_payload (sn_record (en_current en))) Complete rv (en_current en)"
    "unat rv = Suc (unat (sn_revision (en_current en)))"
    "validate (r_payload (sn_record (en_current en))) Complete = Ok ()"
proof -
  obtain rv where rv: "checked_add (sn_revision (en_current en)) 1 = Some rv"
      "x = (en_current en)\<lparr>sn_state := Complete, sn_revision := rv\<rparr>"
      "response_fits (r_payload (sn_record (en_current en))) (d_payload dr)"
    using res by (auto simp: resolve_request_Ok_iff)
  have "is_request (r_payload (sn_record (en_current en)))" using response_fits_kinds [OF rv(3)] by simp
  then have "\<not> is_response (r_payload (sn_record (en_current en)))" using request_not_response by blast
  moreover have "payload_ok (r_payload (sn_record (en_current en))) (sn_state (en_current en))"
    using ms_inv_entry [OF inv en] by (simp add: entry_ok_def)
  ultimately have "payload_ok (r_payload (sn_record (en_current en))) Complete" by (auto simp: payload_ok_def)
  then show thesis
    using rv checked_add_Some [OF rv(1)] by (intro that) (simp_all add: revise_def validate_Ok_iff)
qed

lemma current_payload_storable:
  assumes "rows_wf K d" and "view_records K d i = Some en"
  shows "payload_storable K (r_payload (sn_record (en_current en)))"
  using view_records_row [OF assms] unfolding record_row_wf_def by (metis result.inject(1))

lemma runs_resolution:
  assumes ok: "tables_ok K d" and room: "has_room d" and store: "draft_storable K dr"
    and undecided: "view_decisions d q = None" and new: "view_records K d (d_id dr) = None"
    and en: "view_records K d q = Some en"
    and res: "resolve_request (en_current en) expected dr = Ok x"
    and prep: "prepare (tables_view K d) dr = Ok y"
  obtains ids d1 d2 d3 where "view_sessions d (d_session dr) = Some ids"
    "runs D (sql_update_row D K (en_current en) x) d (Ok ()) d1"
    "runs D (sql_insert_row D K y) d1 (Ok ()) d2"
    "insert_decision (as_str q) (as_str (d_id dr)) d2 = Some d3" "r_id (sn_record y) = d_id dr" "shape_ok K d3"
    "tables_view K d3 = appended y ids (decided q en x (d_id dr) (tables_view K d))"
    "feed_moves 2 d d3"
proof -
  have shape: "shape_ok K d" using ok by (simp add: tables_ok_iff)
  obtain rv where x: "x = revise (r_payload (sn_record (en_current en))) Complete rv (en_current en)"
      "unat rv = Suc (unat (sn_revision (en_current en)))"
      "validate (r_payload (sn_record (en_current en))) Complete = Ok ()"
    by (rule resolution_revises [OF tables_okD(4) [OF ok] _ res, of q]) (simp_all add: en)
  obtain d1 where d1: "runs D (sql_update_row D K (en_current en) x) d (Ok ()) d1" "shape_ok K d1"
      "tables_view K d1 = (tables_view K d)\<lparr>ms_records := (view_records K d)(q \<mapsto> en\<lparr>en_current := x\<rparr>)\<rparr>"
      "tb_position d1 = tb_position d + 1" "tb_sessions d1 = tb_sessions d" "tb_decisions d1 = tb_decisions d"
      "feed_moves 1 d d1"
    unfolding x(1)
    by (rule runs_update_row [OF shape en room x(2,3) current_payload_storable [OF shape_okD(1) [OF shape] en]]) blast
  have v1: "view_records K d1 = (view_records K d)(q \<mapsto> en\<lparr>en_current := x\<rparr>)" "view_sessions d1 = view_sessions d"
      "view_runs K d1 = view_runs K d"
    using arg_cong [OF d1(3), of ms_records] arg_cong [OF d1(3), of ms_sessions] arg_cong [OF d1(3), of ms_runs]
    by simp_all
  have ne: "d_id dr \<noteq> q" using new en by auto
  obtain ids k where p: "view_sessions d (d_session dr) = Some ids" "u64_of_usize (length ids) = Some k"
      "y = snapshot_of dr k" "validate (d_payload dr) (d_state dr) = Ok ()"
      "\<forall>i. d_run dr = Some i \<longrightarrow> (\<exists>spec. view_runs K d i = Some spec \<and> rs_session spec = d_session dr)"
      "\<forall>p. d_reply dr = Some p \<longrightarrow> view_records K d p \<noteq> None"
    by (rule prepared_record [OF ok prep])
  have "tb_position d1 < i64_max" "\<forall>x \<in> set (tb_sessions d1). sw_next x < i64_max"
    using room by (simp_all add: d1(4,5) has_room_def)
  moreover have "view_records K d1 (d_id dr) = None" using new ne by (simp add: v1)
  moreover have "\<forall>p. d_reply dr = Some p \<longrightarrow> view_records K d1 p \<noteq> None" using p(6) by (auto simp: v1)
  ultimately obtain row where row: "runs D (sql_insert_row D K y) d1 (Ok ()) (inserted row d1)"
      "shape_ok K (inserted row d1)" "tables_view K (inserted row d1) = appended y ids (tables_view K d1)"
      "feed_moves 1 d1 (inserted row d1)"
    using runs_insert_row [OF d1(2) store p(4) _ _ p(2), of D, folded p(3)] p(1,5) v1(2,3) by metis
  let ?d2 = "inserted row d1"
  have v2: "view_records K ?d2 = (view_records K d1)(d_id dr \<mapsto> \<lparr>en_initial = y, en_current = y\<rparr>)"
      "view_decisions ?d2 = view_decisions d1"
    using arg_cong [OF row(3), of ms_records] arg_cong [OF row(3), of ms_decisions] p(3) by (simp_all add: appended_def)
  have "view_decisions d1 = view_decisions d" using arg_cong [OF d1(3), of ms_decisions] by simp
  then have u: "view_decisions ?d2 q = None" using undecided v2(2) by simp
  have "tb_decisions ?d2 = tb_decisions d" using d1(6) by (simp add: inserted_def)
  then have unused: "\<not> has_row snd (as_str (d_id dr)) (tb_decisions ?d2)" using decision_unused [OF ok new] by simp
  have here: "view_records K ?d2 q \<noteq> None" "view_records K ?d2 (d_id dr) \<noteq> None" by (simp_all add: v2 v1)
  note D = decision_inserted [OF row(2) u unused here]
  show thesis
  proof (rule that [OF p(1) d1(1) row(1) D(1) _ D(2)])
    show "r_id (sn_record y) = d_id dr" by (simp add: p(3))
    show "tables_view K (?d2\<lparr>tb_decisions := tb_decisions ?d2 @ [(as_str q, as_str (d_id dr))]\<rparr>) =
        appended y ids (decided q en x (d_id dr) (tables_view K d))"
      unfolding D(3) row(3) d1(3) v2(2)
      using \<open>view_decisions d1 = view_decisions d\<close> by (simp add: appended_def decided_def p(3))
    have "feed_moves 2 d ?d2" using feed_moves_trans [OF d1(7) row(4)] by simp
    then show "feed_moves 2 d (?d2\<lparr>tb_decisions := tb_decisions ?d2 @ [(as_str q, as_str (d_id dr))]\<rparr>)"
      by (simp add: feed_moves_def)
  qed
qed

lemma mirrors_resolve:
  assumes ok: "tables_ok K d" and room: "has_room d" and store: "draft_storable K dr"
  shows "mirrors D K (sql_resolve D K q expected dr) d (memory_resolve q expected dr (tables_view K d))"
proof -
  note mem = memory_resolve_def with_lock_def
  show ?thesis
  proof (cases "view_decisions d q")
    case (Some i)
    then obtain p where p: "row_by fst (as_str q) (tb_decisions d) = Some p" "i = Ident (snd p)"
      by (auto simp: view_decisions_def)
    obtain en where en: "view_records K d i = Some en"
      using ms_inv_known_decision [OF tables_okD(4) [OF ok], of q i] Some by auto
    then have "\<not> blank (snd p)" using ids_nonblank_reply [OF tables_okD(1) [OF ok], of i] p(2) by simp
    then have i: "column_id (snd p) = Ok i" using p(2) by simp
    show ?thesis
      unfolding sql_resolve_def
      by (rule mirrors_query)
        (auto simp: p(1) i Some en mem sql_simps intro!: mirrors_entry [OF ok] mirrors_give [OF ok] mirrors_fail)
  next
    case undecided: None
    then have none: "row_by fst (as_str q) (tb_decisions d) = None" by (simp add: view_decisions_def)
    consider "view_records K d (d_id dr) \<noteq> None" | "view_records K d (d_id dr) = None" "view_records K d q = None"
      | en where "view_records K d (d_id dr) = None" "view_records K d q = Some en"
      by (cases "view_records K d q") auto
    then show ?thesis
    proof cases
      case 1
      then show ?thesis
        unfolding sql_resolve_def
        by (intro mirrors_query) (auto simp: none undecided mem intro!: mirrors_entry [OF ok] mirrors_fail)
    next
      case 2
      then show ?thesis
        unfolding sql_resolve_def
        by (intro mirrors_query) (auto simp: none undecided mem sql_simps intro!: mirrors_entry [OF ok] mirrors_fail)
    next
      case (3 en)
      note P = runs_prepare [OF ok room, of D dr]
      show ?thesis
      proof (cases "resolve_request (en_current en) expected dr")
        case (Err e)
        with 3 show ?thesis
          unfolding sql_resolve_def
          by (intro mirrors_query) (auto simp: none undecided mem sql_simps intro!: mirrors_entry [OF ok] mirrors_fail)
      next
        case (Ok x)
        show ?thesis
        proof (cases "prepare (tables_view K d) dr")
          case (Err e)
          have "memory_resolve q expected dr (tables_view K d) = (Err e, tables_view K d)"
            using 3 Ok Err undecided by (simp add: mem)
          moreover have "runs D (sql_resolve D K q expected dr) d (Err e) d"
            unfolding sql_resolve_def
            by (rule after_query, simp add: none, rule after_entry [OF ok], simp add: 3, rule after_entry [OF ok],
                simp add: 3 Ok sql_simps, rule runs_stops, rule P [unfolded Err])
          ultimately show ?thesis by (simp add: mirrors_Err)
        next
          case prep: (Ok y)
          obtain ids d1 d2 d3 where r: "view_sessions d (d_session dr) = Some ids"
              "runs D (sql_update_row D K (en_current en) x) d (Ok ()) d1"
              "runs D (sql_insert_row D K y) d1 (Ok ()) d2"
              "insert_decision (as_str q) (as_str (d_id dr)) d2 = Some d3" "r_id (sn_record y) = d_id dr" "shape_ok K d3"
              "tables_view K d3 = appended y ids (decided q en x (d_id dr) (tables_view K d))"
              "feed_moves 2 d d3"
            by (rule runs_resolution [OF ok room store undecided 3 Ok prep])
          have "r_session (sn_record y) = d_session dr" using prep by (auto simp: prepare_Ok_iff)
          then have "commit_ok y (decided q en x (d_id dr) (tables_view K d)) =
              (Ok y, appended y ids (decided q en x (d_id dr) (tables_view K d)))"
            using r(1) by (intro commit_ok_appended) (simp add: decided_def)
          then have "memory_resolve q expected dr (tables_view K d) =
              (Ok y, appended y ids (decided q en x (d_id dr) (tables_view K d)))"
            using 3 Ok prep undecided r(5) by (simp add: mem decided_def)
          moreover have "runs D (sql_resolve D K q expected dr) d (Ok y) d3"
            unfolding sql_resolve_def
            by (rule after_query, simp add: none, rule after_entry [OF ok], simp add: 3, rule after_entry [OF ok],
                simp add: 3 Ok sql_simps, rule runs_and_then [OF P [unfolded prep]], rule runs_and_then [OF r(2)],
                rule runs_and_then [OF r(3)], rule runs_and_then, rule runs_statement, simp add: r(5), rule r(4),
                rule runs_give)
          ultimately show ?thesis using r(6,7,8) by (simp add: mirrors_Ok)
        qed simp
      qed simp
    qed
  qed
qed

subsection \<open>Continuations\<close>

definition continuation_storable :: "'v formats \<Rightarrow> 'v continuation \<Rightarrow> bool" where
  "continuation_storable K c \<longleftrightarrow> id_ok (k_id c) \<and> reads_back (fm_parse K) (fm_continuation K) c"

lemma runs_demote:
  "runs D (case previous of
      None \<Rightarrow> give ()
    | Some p \<Rightarrow> execute D (as_statement (demote_row (as_str (k_id (cr_continuation p)))))) d (Ok ()) (demoted previous d)"
  by (cases previous) (auto simp: demoted_def demote_row_def intro!: runs_give runs_statement)

lemma mirrors_save_continuation:
  fixes K :: "'v formats"
  assumes ok: "tables_ok K d" and store: "continuation_storable K c"
  shows "mirrors D K (sql_save_continuation D K c) d (memory_save_continuation c (tables_view K d))"
proof -
  let ?g = "\<lparr>reg_records = view_continuations K d, reg_latest = view_latest d\<rparr>"
  note S = runs_session_sequence [OF ok, of D "k_session c"]
  show ?thesis
  proof (cases "view_sessions d (k_session c)")
    case None
    then have "memory_save_continuation c (tables_view K d) = (Err MissingSession, tables_view K d)"
      by (simp add: memory_save_continuation_eq)
    then show ?thesis using S None unfolding sql_save_continuation_def by (simp add: mirrors_stops)
  next
    case (Some ids)
    then have seq: "runs D (sql_session_sequence D (k_session c)) d (Ok (session_size ids)) d" using S by simp
    have mem: "memory_save_continuation c (tables_view K d) =
        (fst (registry_save c ?g), (tables_view K d)\<lparr>ms_continuations := snd (registry_save c ?g)\<rparr>)"
      using Some by (simp add: memory_save_continuation_eq)
    have same: "(tables_view K d)\<lparr>ms_continuations := ?g\<rparr> = tables_view K d" by (simp add: tables_view_def)
    show ?thesis
    proof (cases "continuation_validate c")
      case (Err e)
      then have "registry_save c ?g = (Err e, ?g)" by (simp add: registry_save_def)
      then show ?thesis
        unfolding mem sql_save_continuation_def using Err
        by (simp add: same, intro mirrors_after [OF seq]) (simp add: sql_simps mirrors_fail)
    next
      case valid: (Ok u)
      show ?thesis
      proof (cases "view_continuations K d (k_id c)")
        case (Some r)
        then have "registry_save c ?g = (if cr_continuation r = c then Ok r else Err IdentityConflict, ?g)"
          using valid by (simp add: registry_save_def)
        then show ?thesis
          unfolding mem sql_save_continuation_def
          by (intro mirrors_after [OF seq], simp only: valid and_then_known, intro mirrors_continuation [OF ok])
            (simp add: Some same sql_simps mirrors_give [OF ok] mirrors_fail)
      next
        case new: None
        let ?p = "registry_previous ?g c"
        note P = runs_previous [OF ok, of D c]
        show ?thesis
        proof (cases "validate_successor c ?p")
          case (Err e)
          then have "registry_save c ?g = (Err e, ?g)" using valid new by (simp add: registry_save_def)
          moreover have "runs D (sql_save_continuation D K c) d (Err e) d"
            unfolding sql_save_continuation_def
            by (rule runs_and_then [OF seq], simp only: valid and_then_known, rule after_continuation [OF ok],
              simp only: new option.case, rule runs_and_then [OF P], simp only: Err and_then_known, rule runs_fail)
          ultimately show ?thesis unfolding mem by (simp add: same mirrors_Err)
        next
          case succ: (Ok u')
          have okc: "continuation_ok c" using valid by (simp add: continuation_validate_Ok_iff)
          obtain row d' where row: "continuation_row_of K c = Ok row"
              "insert_continuation row (demoted ?p d) = Some d'" "shape_ok K d'"
              "tables_view K d' = (tables_view K d)\<lparr>ms_continuations :=
                \<lparr>reg_records = (demote ?p (view_continuations K d))(k_id c \<mapsto> fresh_record c),
                 reg_latest = (view_latest d)(continuation_key c \<mapsto> k_id c)\<rparr>\<rparr>"
              "feed_moves 2 d d'"
            using continuation_saved [OF ok _ _ _ okc new] succ store Some
            unfolding continuation_storable_def by (metis option.distinct(1) old.unit.exhaust)
          have "registry_save c ?g = (Ok (fresh_record c),
              \<lparr>reg_records = (demote ?p (view_continuations K d))(k_id c \<mapsto> fresh_record c),
               reg_latest = (view_latest d)(continuation_key c \<mapsto> k_id c)\<rparr>)"
            using valid new succ by (simp add: registry_save_def)
          moreover have "runs D (sql_save_continuation D K c) d (Ok (fresh_record c)) d'"
            unfolding sql_save_continuation_def
            by (rule runs_and_then [OF seq], simp only: valid and_then_known, rule after_continuation [OF ok],
              simp only: new option.case, rule runs_and_then [OF P], simp only: succ and_then_known,
              rule runs_and_then [OF runs_demote], simp only: row(1) and_then_known,
              rule runs_and_then, rule runs_statement, rule row(2), rule runs_give)
          ultimately show ?thesis unfolding mem using row(3,4,5) by (simp add: mirrors_Ok)
        qed simp
      qed
    qed simp
  qed
qed

lemma mirrors_claim_continuation:
  assumes ok: "tables_ok K d"
  shows "mirrors D K (sql_claim_continuation D K i) d (memory_claim_continuation i (tables_view K d))"
proof -
  let ?g = "\<lparr>reg_records = view_continuations K d, reg_latest = view_latest d\<rparr>"
  have mem: "memory_claim_continuation i (tables_view K d) =
      (fst (registry_claim i ?g), (tables_view K d)\<lparr>ms_continuations := snd (registry_claim i ?g)\<rparr>)"
    by (simp add: memory_claim_continuation_eq)
  have same: "(tables_view K d)\<lparr>ms_continuations := ?g\<rparr> = tables_view K d" by (simp add: tables_view_def)
  show ?thesis
  proof (cases "view_continuations K d i")
    case None
    then have "registry_claim i ?g = (Err MissingContinuation, ?g)" by (simp add: registry_claim_def registry_get_def)
    then show ?thesis
      unfolding mem sql_claim_continuation_def
      by (simp add: same, intro mirrors_continuation [OF ok]) (simp add: None sql_simps mirrors_fail)
  next
    case (Some c)
    show ?thesis
    proof (cases "cr_state c \<noteq> Available \<or> \<not> cr_latest c")
      case True
      then have "registry_claim i ?g = (Err ContinuationClaimed, ?g)"
        using Some by (auto simp: registry_claim_def registry_get_def)
      then show ?thesis
        unfolding mem sql_claim_continuation_def using True
        by (simp add: same, intro mirrors_continuation [OF ok]) (simp add: Some sql_simps mirrors_fail)
    next
      case False
      obtain d' where d': "claim_row (as_str i) d = Some d'" "shape_ok K d'"
          "tables_view K d' = (tables_view K d)\<lparr>ms_continuations :=
            \<lparr>reg_records = (view_continuations K d)(i \<mapsto> c\<lparr>cr_state := Claimed\<rparr>), reg_latest = view_latest d\<rparr>\<rparr>"
          "feed_moves 2 d d'" by (rule continuation_claimed [OF ok Some])
      have "registry_claim i ?g = (Ok (c\<lparr>cr_state := Claimed\<rparr>),
          \<lparr>reg_records = (view_continuations K d)(i \<mapsto> c\<lparr>cr_state := Claimed\<rparr>), reg_latest = view_latest d\<rparr>)"
        using False Some by (simp add: registry_claim_def registry_get_def Let_def)
      moreover have "runs D (sql_claim_continuation D K i) d (Ok (c\<lparr>cr_state := Claimed\<rparr>)) d'"
        unfolding sql_claim_continuation_def
        by (rule after_continuation [OF ok], simp only: Some ok_or_def option.case and_then_known False if_False,
          rule runs_and_then, rule runs_statement, rule d'(1), rule runs_give)
      ultimately show ?thesis unfolding mem using d' by (simp add: mirrors_Ok)
    qed
  qed
qed

end
