(* ===== verification/Sqlite_Answers.thy ===== *)
theory Sqlite_Answers imports Sqlite_Refine begin

section \<open>Relations and reads of the SQLite store\<close>

subsection \<open>Recorded relations\<close>

lemma view_relations_set:
  "rows_wf K d \<Longrightarrow> (i, e) \<in> set (view_relations K d) \<longleftrightarrow>
     (\<exists>r \<in> set (tb_relations d). i = Ident (lw_child r) \<and> relation_decode K i r = Ok e)"
  using view_relation_row unfolding view_relations_def
  by (force simp: List.map_filter_def view_relation_def)

lemma relation_decode_fields:
  "relation_decode K i r = Ok e \<Longrightarrow> er_child e = i \<and> as_str (er_parent e) = lw_parent r"
  by (auto simp: relation_decode_def rbind_eq_Ok split: if_splits)

lemma view_relations_keys: "rows_wf K d \<Longrightarrow> map fst (view_relations K d) = map (\<lambda>r. Ident (lw_child r)) (tb_relations d)"
proof -
  assume W: "rows_wf K d"
  have "map fst (List.map_filter (view_relation K) rs) = map (\<lambda>r. Ident (lw_child r)) rs"
    if "\<forall>r \<in> set rs. \<exists>e. view_relation K r = Some (Ident (lw_child r), e)" for rs
    using that by (induction rs) (auto simp: List.map_filter_simps)
  then show ?thesis using view_relation_row [OF W] unfolding view_relations_def by metis
qed

lemma view_relations_map_of:
  assumes "rows_wf K d"
  shows "map_of (view_relations K d) i = Some e \<longleftrightarrow> (i, e) \<in> set (view_relations K d)"
proof -
  have "distinct (map lw_child (tb_relations d))" using assms by (simp add: rows_wf_def)
  then have "distinct (map (\<lambda>r. Ident (lw_child r) :: run_id) (tb_relations d))" by (simp add: distinct_map inj_on_def)
  then have "distinct (map fst (view_relations K d))" by (simp only: view_relations_keys [OF assms])
  then show ?thesis using map_of_eq_Some_iff by metis
qed

lemma child_row_run:
  assumes ok: "tables_ok K d" and s: "s \<in> set (child_rows i d)"
  shows "\<not> blank s"
proof -
  have W: "rows_wf K d" by (rule tables_okD(1) [OF ok])
  from s obtain r where r: "r \<in> set (tb_relations d)" "lw_child r = s" by (auto simp: child_rows_def)
  then obtain e where "map_of (view_relations K d) (Ident s) = Some e"
    using view_relation_row [OF W r(1)] view_relations_map_of [OF W] view_relations_set [OF W] by metis
  then obtain cs where "view_runs K d (Ident s) = Some cs"
    using relations_inv_view [OF ok] unfolding relations_inv_def by blast
  then show ?thesis using view_runs_row(3) [OF W] by fastforce
qed

lemma descendants_differ:
  assumes W: "rows_wf K d"
  shows "(\<exists>s \<in> set (child_rows (as_str i) d). \<exists>edge. map_of (view_relations K d) (Ident s) = Some edge \<and>
        er_parent_authority edge \<noteq> a) \<longleftrightarrow>
    (\<exists>edge \<in> set (map snd (view_relations K d)). er_parent edge = i \<and> er_parent_authority edge \<noteq> a)" (is "?L \<longleftrightarrow> ?R")
proof
  assume ?L
  then obtain s edge where "s \<in> set (child_rows (as_str i) d)" and e: "(Ident s, edge) \<in> set (view_relations K d)"
      "er_parent_authority edge \<noteq> a" by (auto simp: view_relations_map_of [OF W])
  then obtain x where x: "x \<in> set (tb_relations d)" "lw_parent x = as_str i" "lw_child x = s" by (auto simp: child_rows_def)
  from e(1) obtain r where r: "r \<in> set (tb_relations d)" "lw_child r = s" "relation_decode K (Ident s) r = Ok edge"
    by (auto simp: view_relations_set [OF W])
  have dist: "distinct (map lw_child (tb_relations d))" using W by (simp add: rows_wf_def)
  have "row_by lw_child s (tb_relations d) = Some x" "row_by lw_child s (tb_relations d) = Some r"
    using row_by_member [OF dist] x r by metis+
  then have "er_parent edge = i" using relation_decode_fields [OF r(3)] x(2) by (simp add: same_string)
  with e show ?R by force
next
  assume ?R
  then obtain j edge where e: "(j, edge) \<in> set (view_relations K d)" "er_parent edge = i" "er_parent_authority edge \<noteq> a"
    by auto
  then obtain r where r: "r \<in> set (tb_relations d)" "j = Ident (lw_child r)" "relation_decode K j r = Ok edge"
    by (auto simp: view_relations_set [OF W])
  then have "lw_child r \<in> set (child_rows (as_str i) d)"
    using relation_decode_fields [OF r(3)] e(2) by (auto simp: child_rows_def)
  moreover have "map_of (view_relations K d) (Ident (lw_child r)) = Some edge"
    using e(1) r(2) by (simp add: view_relations_map_of [OF W])
  ultimately show ?L using e(3) by blast
qed

lemma runs_fetch_give: "runs D (fetch_rows D give rows) d (Ok rows) d"
  by (rule runs_fetch) (simp add: list_all2_same runs_give)

subsection \<open>Linking\<close>

definition relation_storable :: "'v formats \<Rightarrow> execution_relation \<Rightarrow> bool" where
  "relation_storable K e \<longleftrightarrow> reads_back (fm_parse K) (fm_relation K) e"

text \<open>The checks after the two runs are known, in the order of the code.\<close>

definition link_checks :: "'v memory_state \<Rightarrow> execution_relation \<Rightarrow> spec \<Rightarrow> spec \<Rightarrow> (unit, store_error) result" where
  "link_checks s e parent child =
     rbind (relation_validate e parent child) (\<lambda>_.
     if (case map_of (ms_relations s) (er_parent e) of
           None \<Rightarrow> False
         | Some edge \<Rightarrow> er_child_authority edge \<noteq> er_parent_authority e) \<or>
        (\<exists>edge \<in> set (map snd (ms_relations s)).
           er_parent edge = er_child e \<and> er_parent_authority edge \<noteq> er_child_authority e)
     then Err InvalidExecutionRelation
     else rbind (context_in_session (ms_records s) (rs_session child) (cm_records (rs_context child))) (\<lambda>_.
       if ancestors_clear (ms_relations s) (er_child e) (er_parent e) [] then Ok () else Err ExecutionCycle))"

lemma link_checks_no_panic [simp]: "link_checks s e parent child \<noteq> Panic"
  by (auto simp: link_checks_def rbind_eq_Panic)

lemma memory_link_checks:
  assumes "\<not> ms_poisoned s" and "map_of (ms_relations s) (er_child e) = None"
    and "ms_runs s (er_parent e) = Some parent" and "ms_runs s (er_child e) = Some child"
  shows "memory_link_execution e s =
    (case link_checks s e parent child of
       Ok _ \<Rightarrow> (Ok e, s\<lparr>ms_relations := put_relation e (ms_relations s)\<rparr>)
     | Err err \<Rightarrow> (Err err, s) | Panic \<Rightarrow> (Panic, s))"
  using assms relation_validate_no_panic [of e parent child]
    context_in_session_no_panic [of "ms_records s" "rs_session child" "cm_records (rs_context child)"]
  unfolding memory_link_execution_def with_lock_def link_checks_def
  by (cases "relation_validate e parent child";
      cases "context_in_session (ms_records s) (rs_session child) (cm_records (rs_context child))")
    auto

lemma mirrors_link:
  assumes ok: "tables_ok K d" and store: "relation_storable K e"
  shows "mirrors D K (sql_link_execution D K e) d (memory_link_execution e (tables_view K d))"
proof -
  let ?s = "tables_view K d"
  have W: "rows_wf K d" by (rule tables_okD(1) [OF ok])
  note mem = memory_link_execution_def with_lock_def
  consider x where "map_of (view_relations K d) (er_child e) = Some x"
    | "map_of (view_relations K d) (er_child e) = None" "view_runs K d (er_parent e) = None"
    | parent where "map_of (view_relations K d) (er_child e) = None" "view_runs K d (er_parent e) = Some parent"
        "view_runs K d (er_child e) = None"
    | parent child where "map_of (view_relations K d) (er_child e) = None" "view_runs K d (er_parent e) = Some parent"
        "view_runs K d (er_child e) = Some child"
    by (cases "map_of (view_relations K d) (er_child e)"; cases "view_runs K d (er_parent e)";
        cases "view_runs K d (er_child e)") auto
  then show ?thesis
  proof cases
    case (1 x)
    then have "memory_link_execution e ?s = (if x = e then Ok x else Err ExecutionRelationConflict, ?s)"
      by (simp add: mem)
    then show ?thesis
      unfolding sql_link_execution_def
      by (simp only:, intro mirrors_relation [OF ok]) (simp add: 1 sql_simps mirrors_give [OF ok] mirrors_fail)
  next
    case 2
    then have "memory_link_execution e ?s = (Err MissingRun, ?s)" by (simp add: mem)
    then show ?thesis
      unfolding sql_link_execution_def
      by (simp only:, intro mirrors_relation [OF ok], simp only: 2 option.case, intro mirrors_run [OF ok])
        (simp add: 2 sql_simps mirrors_fail)
  next
    case (3 parent)
    then have "memory_link_execution e ?s = (Err MissingRun, ?s)" by (simp add: mem)
    then show ?thesis
      unfolding sql_link_execution_def
      by (simp only:, intro mirrors_relation [OF ok], simp only: 3 option.case, intro mirrors_run [OF ok],
          simp only: 3 ok_or_simps and_then_known, intro mirrors_run [OF ok])
        (simp add: 3 sql_simps mirrors_fail)
  next
    case (4 parent child)
    define up where "up \<longleftrightarrow> (\<exists>edge. map_of (view_relations K d) (er_parent e) = Some edge \<and>
        er_child_authority edge \<noteq> er_parent_authority e)"
    define down where "down \<longleftrightarrow> (\<exists>edge \<in> set (map snd (view_relations K d)).
        er_parent edge = er_child e \<and> er_parent_authority edge \<noteq> er_child_authority e)"
    define ctx where "ctx = context_in_session (view_records K d) (rs_session child) (cm_records (rs_context child))"
    define clear where "clear \<longleftrightarrow> ancestors_clear (view_relations K d) (er_child e) (er_parent e) []"
    have mem: "memory_link_execution e ?s =
        (case link_checks ?s e parent child of
           Ok _ \<Rightarrow> (Ok e, ?s\<lparr>ms_relations := put_relation e (view_relations K d)\<rparr>)
         | Err err \<Rightarrow> (Err err, ?s) | Panic \<Rightarrow> (Panic, ?s))"
      using memory_link_checks [of ?s e parent child] 4 unfolding tables_view_sel by blast
    have checks: "link_checks ?s e parent child =
        rbind (relation_validate e parent child) (\<lambda>_. if up \<or> down then Err InvalidExecutionRelation
          else rbind ctx (\<lambda>_. if clear then Ok () else Err ExecutionCycle))"
      unfolding link_checks_def up_def down_def ctx_def clear_def tables_view_sel
      by (cases "map_of (view_relations K d) (er_parent e)") simp_all
    have rows: "runs D (and_then (query D (\<lambda>_. ())) (\<lambda>_.
        and_then (query D (child_rows (as_str (er_child e)))) (\<lambda>rows. and_then (fetch_rows D give rows) f))) d r d'"
      if "runs D (f (child_rows (as_str (er_child e)) d)) d r d'" for f :: "string list \<Rightarrow> ('x, tables) sql" and r d'
      by (rule after_query, rule after_query, rule runs_and_then [OF runs_fetch_give], rule that)
    note B = runs_descendants_fit [OF ok, of "child_rows (as_str (er_child e)) d" D e]
    have B': "runs D (sql_descendants_fit D K e (child_rows (as_str (er_child e)) d)) d
        (if down then Err InvalidExecutionRelation else Ok ()) d"
      using B child_row_run [OF ok] unfolding descendants_differ [OF W] down_def by blast
    note C = runs_context_in_session [OF ok, of D "rs_session child" "cm_records (rs_context child)", folded ctx_def]
    note A = runs_ancestors [OF ok, of D "er_child e" "er_parent e" "[]", folded clear_def]
    note start = after_relation [OF ok] after_run [OF ok]
    have go: "runs D (sql_link_execution D K e) d r d'"
      if "runs D (and_then (lift_result (relation_validate e parent child)) (\<lambda>_.
            and_then (sql_read_relation D K (er_parent e)) (\<lambda>up.
              if \<exists>edge. up = Some edge \<and> er_child_authority edge \<noteq> er_parent_authority e
              then fail_with InvalidExecutionRelation
              else
                and_then (query D (\<lambda>_. ())) (\<lambda>_.
                and_then (query D (child_rows (as_str (er_child e)))) (\<lambda>rows.
                and_then (fetch_rows D give rows) (\<lambda>descendants.
                and_then (sql_descendants_fit D K e descendants) (\<lambda>_.
                and_then (sql_context_in_session D K (rs_session child) (cm_records (rs_context child))) (\<lambda>_.
                and_then (sql_ancestors D K (er_child e) (er_parent e) []) (\<lambda>_.
                and_then (lift_result (relation_row_of K e)) (\<lambda>row.
                and_then (execute D (as_statement (insert_relation row))) (\<lambda>_.
                  give e))))))))))) d r d'" for r d'
      unfolding sql_link_execution_def
      by (rule start(1), simp only: 4 option.case, rule start(2), simp only: 4 ok_or_simps and_then_known,
          rule start(2), simp only: 4 ok_or_simps and_then_known, rule that)
    show ?thesis
    proof (cases "relation_validate e parent child")
      case (Err err)
      then have "runs D (sql_link_execution D K e) d (Err err) d"
        by (intro go) (simp add: sql_simps runs_fail)
      then show ?thesis unfolding mem checks by (simp add: Err mirrors_Err)
    next
      case valid: (Ok u)
      have go2: "runs D (sql_link_execution D K e) d r d'"
        if "\<not> up" and "runs D (and_then (sql_descendants_fit D K e (child_rows (as_str (er_child e)) d)) (\<lambda>_.
            and_then (sql_context_in_session D K (rs_session child) (cm_records (rs_context child))) (\<lambda>_.
            and_then (sql_ancestors D K (er_child e) (er_parent e) []) (\<lambda>_.
            and_then (lift_result (relation_row_of K e)) (\<lambda>row.
            and_then (execute D (as_statement (insert_relation row))) (\<lambda>_. give e)))))) d r d'" for r d'
        by (rule go, simp only: valid and_then_known, rule start(1),
            simp only: up_def [symmetric] that(1) if_False, rule rows, rule that(2))
      consider "up" | "\<not> up" "down" | err where "\<not> up" "\<not> down" "ctx = Err err"
        | "\<not> up" "\<not> down" "ctx = Ok ()" "\<not> clear" | "\<not> up" "\<not> down" "ctx = Ok ()" "clear"
        using context_in_session_no_panic unfolding ctx_def
        by (cases "context_in_session (view_records K d) (rs_session child) (cm_records (rs_context child))") auto
      then show ?thesis
      proof cases
        case 1
        then have "runs D (sql_link_execution D K e) d (Err InvalidExecutionRelation) d"
          by (intro go) (simp only: valid and_then_known, rule start(1),
              simp only: up_def [symmetric] if_True, rule runs_fail)
        then show ?thesis unfolding mem checks using 1 by (simp add: valid mirrors_Err)
      next
        case 2
        then have "runs D (sql_link_execution D K e) d (Err InvalidExecutionRelation) d"
          by (intro go2) (simp, rule runs_stops, use B' in simp)
        then show ?thesis unfolding mem checks using 2 by (simp add: valid mirrors_Err)
      next
        case (3 err)
        then have "runs D (sql_link_execution D K e) d (Err err) d"
          by (intro go2) (simp, rule runs_and_then, use B' in simp, rule runs_stops, use C in simp)
        then show ?thesis unfolding mem checks using 3 by (simp add: valid mirrors_Err)
      next
        case 4
        then have "runs D (sql_link_execution D K e) d (Err ExecutionCycle) d"
          by (intro go2) (simp, rule runs_and_then, use B' in simp, rule runs_and_then, use C in simp, rule runs_stops, use A in simp)
        then show ?thesis unfolding mem checks using 4 by (simp add: valid mirrors_Err)
      next
        case 5
        have "er_parent e \<noteq> er_child e" using valid relation_validate_Ok_iff by blast
        then obtain row where row: "relation_row_of K e = Ok row"
            "insert_relation row d = Some (d\<lparr>tb_relations := tb_relations d @ [row]\<rparr>)"
            "shape_ok K (d\<lparr>tb_relations := tb_relations d @ [row]\<rparr>)"
            "tables_view K (d\<lparr>tb_relations := tb_relations d @ [row]\<rparr>) =
              ?s\<lparr>ms_relations := put_relation e (view_relations K d)\<rparr>"
          using relation_inserted [OF ok store [unfolded relation_storable_def]]
            \<open>map_of (view_relations K d) (er_child e) = None\<close> \<open>view_runs K d (er_parent e) = Some parent\<close>
            \<open>view_runs K d (er_child e) = Some child\<close> by blast
        have "runs D (sql_link_execution D K e) d (Ok e) (d\<lparr>tb_relations := tb_relations d @ [row]\<rparr>)"
          using 5
          by (intro go2) (simp, rule runs_and_then, use B' in simp, rule runs_and_then, use C in simp, rule runs_and_then, use A in simp,
              simp only: row(1) and_then_known, rule runs_and_then, rule runs_statement, rule row(2), rule runs_give)
        moreover have "feed_moves 2 d (d\<lparr>tb_relations := tb_relations d @ [row]\<rparr>)" by (rule feed_moves_same) simp_all
        ultimately show ?thesis unfolding mem checks using 5 row(3,4) by (simp add: valid mirrors_Ok)
      qed
    qed simp
  qed
qed

subsection \<open>Reads\<close>

text \<open>A read answers what the in-memory store answers, or the fault of a call.\<close>

definition answers :: "driver \<Rightarrow> ('a, store_error) result \<Rightarrow> ('a, store_error) result \<Rightarrow> bool" where
  "answers D out r \<longleftrightarrow> out = r \<or> (\<exists>e. fault_of D e \<and> out = Err e)"

lemma answers_read:
  assumes "represents K c s" and "runs D m (cn_tables c) r d"
  shows "answers D (sqlite_read m c) r"
  using read_delivers [OF assms(2)] assms(1) by (auto simp: answers_def represents_def)

lemma representsD:
  assumes "represents K c s"
  shows "tables_ok K (cn_tables c)" and "s = tables_view K (cn_tables c)" and "\<not> ms_poisoned s"
  using assms by (auto simp: represents_def)

lemma answers_get:
  assumes "represents K c s"
  shows "answers D (sqlite_get D K i c) (memory_get i s)"
proof -
  note R = representsD [OF assms]
  have "runs D (and_then (sql_entry D K i) (\<lambda>x. lift_result (ok_or MissingRecord (map_option en_current x))))
      (cn_tables c) (memory_get i s) (cn_tables c)"
    by (rule after_entry [OF R(1)]) (simp add: R(2) memory_get_def read_lock_def runs_lift)
  then show ?thesis unfolding sqlite_get_def by (rule answers_read [OF assms])
qed

lemma answers_get_run:
  assumes "represents K c s"
  shows "answers D (sqlite_get_run D K i c) (memory_get_run i s)"
proof -
  note R = representsD [OF assms]
  have "runs D (and_then (sql_read_run D K i) (\<lambda>x. lift_result (ok_or MissingRun x)))
      (cn_tables c) (memory_get_run i s) (cn_tables c)"
    by (rule after_run [OF R(1)]) (simp add: R(2) memory_get_run_def read_lock_def runs_lift)
  then show ?thesis unfolding sqlite_get_run_def by (rule answers_read [OF assms])
qed

lemma answers_get_continuation:
  assumes "represents K c s"
  shows "answers D (sqlite_get_continuation D K i c) (memory_get_continuation i s)"
proof -
  note R = representsD [OF assms]
  have "runs D (and_then (sql_read_continuation D K i) (\<lambda>x. lift_result (ok_or MissingContinuation x)))
      (cn_tables c) (memory_get_continuation i s) (cn_tables c)"
    by (rule after_continuation [OF R(1)])
      (simp add: R(2) memory_get_continuation_def read_lock_def registry_get_def runs_lift)
  then show ?thesis unfolding sqlite_get_continuation_def by (rule answers_read [OF assms])
qed

lemma answers_parent:
  assumes "represents K c s"
  shows "answers D (sqlite_execution_parent D K i c) (memory_execution_parent i s)"
proof -
  note R = representsD [OF assms]
  have "runs D (sql_read_relation D K i) (cn_tables c) (memory_execution_parent i s) (cn_tables c)"
    using runs_read_relation [OF R(1), of D i] by (simp add: R(2) memory_execution_parent_def read_lock_def)
  then show ?thesis unfolding sqlite_execution_parent_def by (rule answers_read [OF assms])
qed

subsection \<open>Pages of a session\<close>

lemma sorted_filter_above:
  "filter (\<lambda>r. a < key r) (rows :: 'r list) = drop k rows"
  if "map key rows = map int [0..<length rows]" and "int k = a + 1"
proof -
  have nth: "key (rows ! j) = int j" if "j < length rows" for j
    using \<open>map key rows = map int [0..<length rows]\<close> that by (metis add_0 length_map map_nth nth_map nth_upt)
  have "rows = take k rows @ drop k rows" by simp
  moreover have "filter (\<lambda>r. a < key r) (take k rows) = []"
    using that(2) nth by (auto simp: filter_empty_conv in_set_conv_nth)
  moreover have "filter (\<lambda>r. a < key r) (drop k rows) = drop k rows"
    using that(2) nth by (auto simp: filter_id_conv in_set_conv_nth)
  ultimately show ?thesis by (metis append_Nil filter_append)
qed

lemma page_rows_drop:
  assumes ok: "sessions_wf d" and k: "int k = after + 1"
  shows "page_rows i after limit d = take limit (drop k (session_rows i d))"
proof -
  have seqs: "map rw_sequence (session_rows i d) = map int [0..<length (session_rows i d)]"
    using ok by (simp add: sessions_wf_def)
  have "filter (\<lambda>r. rw_session r = i \<and> after < rw_sequence r) (tb_records d) =
      filter (\<lambda>r. after < rw_sequence r) (session_rows i d)" by (simp add: session_rows_def conj_commute)
  also have "\<dots> = drop k (session_rows i d)" by (rule sorted_filter_above [OF seqs k])
  finally have rows: "filter (\<lambda>r. rw_session r = i \<and> after < rw_sequence r) (tb_records d) = drop k (session_rows i d)" .
  have "sorted (map rw_sequence (drop k (session_rows i d)))"
    unfolding drop_map [symmetric] seqs by (simp add: sorted_wrt_map drop_upt flip: drop_map)
  then show ?thesis unfolding page_rows_def rows by (simp add: sorted_sort_id sort_key_id_if_sorted)
qed

lemma decode_current_runs:
  assumes ok: "tables_ok K d" and r: "r \<in> set (tb_records d)"
  shows "runs D (decode_current K r) d (Ok (en_current (the (view_records K d (Ident (rw_id r)))))) d"
proof -
  have W: "rows_wf K d" by (rule tables_okD(1) [OF ok])
  then obtain en where en: "row_decode K r = Ok en" using r by (auto simp: rows_wf_def record_row_wf_def)
  have "row_by rw_id (rw_id r) (tb_records d) = Some r"
    using W r by (intro row_by_member) (simp_all add: rows_wf_def)
  then have "view_records K d (Ident (rw_id r)) = Some en" using en by (simp add: view_records_def)
  then show ?thesis using runs_lift [of D "Ok (en_current en)" d] by (simp add: decode_current_def en)
qed

lemma runs_page:
  assumes ok: "tables_ok K d" and ids: "view_sessions d i = Some ids" and k: "int k = after + 1"
  shows "runs D (and_then (query D (\<lambda>_. ())) (\<lambda>_.
      and_then (query D (page_rows (as_str i) after limit)) (\<lambda>rows. fetch_rows D (decode_current K) rows))) d
    (Ok (map (\<lambda>i. en_current (the (view_records K d i))) (take limit (drop k ids)))) d"
proof -
  let ?rows = "take limit (drop k (session_rows (as_str i) d))"
  have page: "page_rows (as_str i) after limit d = ?rows" by (rule page_rows_drop [OF tables_okD(2) [OF ok] k])
  have "ids = map (\<lambda>r. Ident (rw_id r)) (session_rows (as_str i) d)" by (rule view_sessions_row(3) [OF ids])
  then have xs: "map (\<lambda>i. en_current (the (view_records K d i))) (take limit (drop k ids)) =
      map (\<lambda>r. en_current (the (view_records K d (Ident (rw_id r))))) ?rows"
    by (simp add: drop_map take_map)
  have "list_all2 (\<lambda>r x. runs D (decode_current K r) d (Ok x) d) ?rows
      (map (\<lambda>r. en_current (the (view_records K d (Ident (rw_id r))))) ?rows)"
    using decode_current_runs [OF ok, of _ D]
    by (auto simp: list_all2_map2 list_all2_same session_rows_def dest!: in_set_takeD in_set_dropD)
  then show ?thesis
    unfolding xs by (intro after_query) (simp only: page, rule runs_fetch)
qed

lemma list_start_next: "list_start (Some n) = (if unat n + 1 < 2 ^ 64 then unat n + 1 else 2 ^ 64 - 1)"
proof (cases "checked_add n 1")
  case None
  then have "\<not> unat n + 1 < 2 ^ 64" by (simp add: checked_add_def split: if_splits)
  then show ?thesis using None by (simp only: list_start_def option.case if_False)
next
  case (Some m)
  then have "unat n + 1 < 2 ^ 64" by (simp add: checked_add_def split: if_splits)
  then show ?thesis using Some checked_add_Some [OF Some] by (simp only: list_start_def option.case if_True unsigned_1)
qed

lemma answers_list:
  assumes c: "represents K c s"
  shows "answers D (sqlite_list D K i after limit c) (fst (memory_list i after limit s))"
proof (cases "1 \<le> limit \<and> limit \<le> 1000")
  case True
  note R = representsD [OF c]
  let ?d = "cn_tables c"
  have inv: "ms_inv (tables_view K ?d)" by (rule tables_okD(4) [OF R(1)])
  have "runs D (sql_list D K i after limit) ?d (fst (memory_list i after limit s)) ?d"
  proof (cases "view_sessions ?d i")
    case None
    then show ?thesis
      using True runs_session_sequence [OF R(1), of D i]
      by (simp add: R(2) memory_list_eq [OF inv] sql_list_def runs_stops)
  next
    case (Some ids)
    then have seq: "runs D (sql_session_sequence D i) ?d (Ok (session_size ids)) ?d"
      using runs_session_sequence [OF R(1), of D i] by simp
    have mem: "fst (memory_list i after limit s) =
        Ok (map (\<lambda>i. en_current (the (view_records K ?d i))) (take limit (drop (list_start after) ids)))"
      using True Some by (simp add: R(2) memory_list_eq [OF inv])
    obtain x where "row_by sw_id (as_str i) (tb_sessions ?d) = Some x"
      using Some by (auto simp: view_sessions_def)
    then have len: "int (length ids) \<le> i64_max"
      using session_length(1,2) [OF tables_okD(2) [OF R(1)]] view_sessions_row(2) [OF Some] by metis
    show ?thesis
    proof (cases after)
      case None
      then show ?thesis
        unfolding mem sql_list_def by (simp, intro runs_and_then [OF seq] runs_page [OF R(1) Some]) (simp add: list_start_def)
    next
      case (Some n)
      show ?thesis
      proof (cases "unat n \<le> nat i64_max")
        case True
        have "runs D (sql_list D K i after limit) ?d
            (Ok (map (\<lambda>i. en_current (the (view_records K ?d i))) (take limit (drop (list_start after) ids)))) ?d"
          unfolding sql_list_def Some option.case
          by (rule runs_and_then [OF seq], simp only: True if_True option.case)
            (rule runs_page [OF R(1) \<open>view_sessions ?d i = Some ids\<close>],
              use True in \<open>simp add: list_start_next i64_max_def\<close>)
        then show ?thesis by (simp only: mem)
      next
        case False
        then have "length ids \<le> list_start after" using len by (simp add: Some list_start_next i64_max_def)
        then have none: "drop (list_start after) ids = []" by simp
        have "runs D (sql_list D K i after limit) ?d (Ok []) ?d"
          unfolding sql_list_def Some option.case
          by (rule runs_and_then [OF seq], simp only: False if_False option.case, rule runs_give)
        then show ?thesis by (simp only: mem none) simp
      qed
    qed
  qed
  then have "answers D (sqlite_read (sql_list D K i after limit) c) (fst (memory_list i after limit s))"
    by (rule answers_read [OF c])
  then show ?thesis using True by (simp add: sqlite_list_def)
next
  case False
  then show ?thesis by (auto simp: answers_def sqlite_list_def memory_list_def)
qed

text \<open>Children, in the order of their identifiers.\<close>

lemma map_sort_key: "map f (sort_key (\<lambda>x. key (f x)) xs) = sort_key key (map f xs)"
proof -
  have "map f (insort_key (\<lambda>x. key (f x)) x ys) = insort_key key (f x) (map f ys)" for x ys
    by (induction ys) auto
  then show ?thesis by (induction xs) simp_all
qed

lemma runs_children:
  assumes ok: "tables_ok K d" and "\<forall>e \<in> set es. map_of (view_relations K d) (er_child e) = Some e \<and> \<not> blank (as_str (er_child e))"
  shows "runs D (sql_children D K (map (\<lambda>e. as_str (er_child e)) es)) d (Ok es) d"
  using assms(2)
proof (induction es)
  case (Cons e es)
  then have "column_id (as_str (er_child e)) = Ok (er_child e)" by simp
  then show ?case
    using Cons by (simp add: sql_simps) (rule after_relation [OF ok], simp add: sql_simps, rule runs_and_then, simp, rule runs_give)
qed (simp add: runs_give)

lemma child_rows_edges:
  assumes W: "rows_wf K d"
  shows "child_rows (as_str p) d =
    map (\<lambda>e. as_str (er_child e)) (filter (\<lambda>e. er_parent e = p) (map snd (view_relations K d)))"
proof -
  have "map lw_child (filter (\<lambda>r. lw_parent r = as_str p) rows) =
      map (\<lambda>e. as_str (er_child e)) (filter (\<lambda>e. er_parent e = p) (map snd (List.map_filter (view_relation K) rows)))"
    if "set rows \<subseteq> set (tb_relations d)" for rows
    using that
  proof (induction rows)
    case (Cons r rows)
    then obtain e where e: "relation_decode K (Ident (lw_child r)) r = Ok e" "view_relation K r = Some (Ident (lw_child r), e)"
      using view_relation_row [OF W, of r] by auto
    have "er_child e = Ident (lw_child r)" "as_str (er_parent e) = lw_parent r"
      using relation_decode_fields [OF e(1)] by auto
    moreover from this have "er_parent e = p \<longleftrightarrow> lw_parent r = as_str p" by (metis same_string)
    ultimately show ?case using Cons e(2) by (simp add: List.map_filter_simps)
  qed (simp add: List.map_filter_simps)
  then show ?thesis by (simp add: child_rows_def view_relations_def)
qed

lemma answers_children:
  assumes c: "represents K c s"
  shows "answers D (sqlite_execution_children D K p c) (memory_execution_children p s)"
proof -
  note R = representsD [OF c]
  let ?d = "cn_tables c"
  have W: "rows_wf K ?d" by (rule tables_okD(1) [OF R(1)])
  define es where "es = sort_key (\<lambda>e. as_str (er_child e)) (filter (\<lambda>e. er_parent e = p) (map snd (view_relations K ?d)))"
  have rows: "sort_key (\<lambda>s. s) (child_rows (as_str p) ?d) = map (\<lambda>e. as_str (er_child e)) es"
    unfolding es_def child_rows_edges [OF W] by (rule map_sort_key [where key = "\<lambda>s. s", symmetric])
  have es: "map_of (view_relations K ?d) (er_child e) = Some e \<and> \<not> blank (as_str (er_child e))" if e: "e \<in> set es" for e
  proof -
    from e obtain i where i: "(i, e) \<in> set (view_relations K ?d)" "er_parent e = p" by (auto simp: es_def)
    then have "er_child e = i" using view_relations_set [OF W] relation_decode_fields by blast
    moreover have "as_str (er_child e) \<in> set (child_rows (as_str p) ?d)"
      unfolding child_rows_edges [OF W] using i by force
    ultimately show ?thesis using i(1) view_relations_map_of [OF W] child_row_run [OF R(1)] by simp
  qed
  have "runs D (and_then (query D (\<lambda>_. ())) (\<lambda>_.
        and_then (query D (\<lambda>d. sort_key (\<lambda>s. s) (child_rows (as_str p) d))) (\<lambda>rows.
        and_then (fetch_rows D give rows) (sql_children D K)))) ?d (memory_execution_children p s) ?d"
  proof -
    have "memory_execution_children p s = Ok es"
      by (simp add: memory_execution_children_def read_lock_def R(2) es_def)
    then show ?thesis
      by (simp only:) (rule after_query, rule after_query, rule runs_and_then, rule runs_fetch_give,
        simp only: rows, rule runs_children [OF R(1)], use es in blast)
  qed
  then show ?thesis unfolding sqlite_execution_children_def by (rule answers_read [OF c])
qed

end
