(* ===== verification/Sqlite_Calls.thy ===== *)
theory Sqlite_Calls imports Sqlite_Answers begin

section \<open>Sequences of calls on the SQLite store\<close>

text \<open>
  The calls of the three store traits as data, and a client that makes one after the other. A call that meets a fault of the driver answers the fault and leaves the tables; any
  other call answers what the in-memory store answers.
\<close>

datatype 'v store_call =
  RecordCall "'v store_op"
| LinkCall execution_relation
| SaveCall "'v continuation"
| ClaimCall continuation_id
| GetCall record_id
| GetRunCall run_id
| ListCall session_id "u64 option" nat
| GetContinuationCall continuation_id
| ParentCall run_id
| ChildrenCall run_id

datatype 'v store_answer =
  Done
| Registered bool
| RecordAnswer "'v snapshot"
| Linked execution_relation
| Kept "'v continuation_record"
| Spec spec
| Page "'v snapshot list"
| Parent "execution_relation option"
| Children "execution_relation list"

definition answer_with :: "('a \<Rightarrow> 'b) \<Rightarrow> ('a, store_error) result \<times> 's \<Rightarrow> ('b, store_error) result \<times> 's" where
  "answer_with f out = (rbind (fst out) (\<lambda>x. Ok (f x)), snd out)"

definition sqlite_call ::
  "driver \<Rightarrow> 'v formats \<Rightarrow> 'v store_call \<Rightarrow> sqlite \<Rightarrow> ('v store_answer, store_error) result \<times> sqlite" where
  "sqlite_call D K call c =
     (case call of
        RecordCall oper \<Rightarrow>
          (case oper of
             CreateSession i \<Rightarrow> answer_with (\<lambda>_. Done) (sqlite_create_session D i c)
           | RegisterRun spec \<Rightarrow> answer_with Registered (sqlite_register_run D K spec c)
           | Insert d \<Rightarrow> answer_with RecordAnswer (sqlite_insert D K d c)
           | Checkpoint i e p n \<Rightarrow> answer_with RecordAnswer (sqlite_checkpoint D K i e p n c)
           | Resolve i e d \<Rightarrow> answer_with RecordAnswer (sqlite_resolve D K i e d c))
      | LinkCall e \<Rightarrow> answer_with Linked (sqlite_link_execution D K e c)
      | SaveCall k \<Rightarrow> answer_with Kept (sqlite_save_continuation D K k c)
      | ClaimCall i \<Rightarrow> answer_with Kept (sqlite_claim_continuation D K i c)
      | GetCall i \<Rightarrow> answer_with RecordAnswer (sqlite_get D K i c, c)
      | GetRunCall i \<Rightarrow> answer_with Spec (sqlite_get_run D K i c, c)
      | ListCall i after limit \<Rightarrow> answer_with Page (sqlite_list D K i after limit c, c)
      | GetContinuationCall i \<Rightarrow> answer_with Kept (sqlite_get_continuation D K i c, c)
      | ParentCall i \<Rightarrow> answer_with Parent (sqlite_execution_parent D K i c, c)
      | ChildrenCall i \<Rightarrow> answer_with Children (sqlite_execution_children D K i c, c))"

definition memory_call ::
  "'v store_call \<Rightarrow> 'v memory_state \<Rightarrow> ('v store_answer, store_error) result \<times> 'v memory_state" where
  "memory_call call s =
     (case call of
        RecordCall oper \<Rightarrow>
          (case oper of
             CreateSession i \<Rightarrow> answer_with (\<lambda>_. Done) (memory_create_session i s)
           | RegisterRun spec \<Rightarrow> answer_with Registered (memory_register_run spec s)
           | Insert d \<Rightarrow> answer_with RecordAnswer (memory_insert d s)
           | Checkpoint i e p n \<Rightarrow> answer_with RecordAnswer (memory_checkpoint i e p n s)
           | Resolve i e d \<Rightarrow> answer_with RecordAnswer (memory_resolve i e d s))
      | LinkCall e \<Rightarrow> answer_with Linked (memory_link_execution e s)
      | SaveCall k \<Rightarrow> answer_with Kept (memory_save_continuation k s)
      | ClaimCall i \<Rightarrow> answer_with Kept (memory_claim_continuation i s)
      | GetCall i \<Rightarrow> answer_with RecordAnswer (memory_get i s, s)
      | GetRunCall i \<Rightarrow> answer_with Spec (memory_get_run i s, s)
      | ListCall i after limit \<Rightarrow> answer_with Page (memory_list i after limit s)
      | GetContinuationCall i \<Rightarrow> answer_with Kept (memory_get_continuation i s, s)
      | ParentCall i \<Rightarrow> answer_with Parent (memory_execution_parent i s, s)
      | ChildrenCall i \<Rightarrow> answer_with Children (memory_execution_children i s, s))"

text \<open>
  What the types of the program give: identifiers are not blank; and what is asked of serde:
  the documents of the call read back as the values they were written from.
\<close>

definition call_storable :: "'v formats \<Rightarrow> 'v store_call \<Rightarrow> bool" where
  "call_storable K call =
     (case call of
        RecordCall oper \<Rightarrow>
          (case oper of
             CreateSession i \<Rightarrow> id_ok i
           | RegisterRun spec \<Rightarrow> spec_storable K spec
           | Insert d \<Rightarrow> draft_storable K d
           | Checkpoint i e p n \<Rightarrow> payload_storable K p
           | Resolve i e d \<Rightarrow> draft_storable K d)
      | LinkCall e \<Rightarrow> relation_storable K e
      | SaveCall k \<Rightarrow> continuation_storable K k
      | _ \<Rightarrow> True)"

text \<open>A client that makes calls in turn; each call meets a driver of its own, with its own faults.\<close>

fun run_calls ::
  "'v formats \<Rightarrow> (driver \<times> 'v store_call) list \<Rightarrow> sqlite \<Rightarrow> ('v store_answer, store_error) result list \<times> sqlite" where
  "run_calls K [] c = ([], c)"
| "run_calls K ((D, call) # calls) c =
     (case sqlite_call D K call c of (r, c') \<Rightarrow> (case run_calls K calls c' of (rs, c'') \<Rightarrow> (r # rs, c'')))"

text \<open>A database that was just migrated; the epoch of its change feed is random.\<close>

definition migrated :: "string \<Rightarrow> tables" where
  "migrated epoch =
     \<lparr>tb_sessions = [], tb_runs = [], tb_records = [], tb_decisions = [], tb_continuations = [],
      tb_relations = [], tb_epoch = epoch, tb_position = 0, tb_changes = [], tb_blobs = [], tb_versions = []\<rparr>"

definition fresh_sqlite :: "string \<Rightarrow> sqlite" where
  "fresh_sqlite epoch = \<lparr>cn_poisoned = False, cn_tables = migrated epoch\<rparr>"

lemma migrated_represents: "represents K (fresh_sqlite epoch) memory_default"
proof -
  have view: "tables_view K (migrated epoch) = memory_default"
    by (simp add: tables_view_def migrated_def memory_default_def fun_eq_iff view_relations_def view_continuations_def
        view_latest_def latest_row_def view_sessions_def view_runs_def view_records_def view_decisions_def
        row_by_def List.map_filter_simps empty_registry_def)
  have "shape_ok K (migrated epoch)"
    by (simp add: shape_ok_def rows_wf_def sessions_wf_def feed_ok_def migrated_def session_rows_def i64_max_def)
  then show ?thesis
    using view ms_inv_default by (simp add: represents_def fresh_sqlite_def tables_ok_iff)
qed

subsection \<open>One call\<close>

definition refines_step ::
  "driver \<Rightarrow> 'v formats \<Rightarrow> sqlite \<Rightarrow> ('a, store_error) result \<times> sqlite \<Rightarrow>
   ('a, store_error) result \<times> 'v memory_state \<Rightarrow> bool" where
  "refines_step D K c out mem \<longleftrightarrow>
     (\<exists>c'. delivered D out c (fst mem) c' \<and> represents K c' (snd mem) \<and>
        feed_moves 2 (cn_tables c) (cn_tables c'))"

lemma refines_answer:
  "refines_step D K c out mem \<Longrightarrow> refines_step D K c (answer_with f out) (answer_with f mem)"
  by (auto simp: refines_step_def answer_with_def delivered_def)

lemma refines_mirrored:
  assumes "mirrors D K m (cn_tables c) out" and "represents K c s" and "ms_inv (snd out)"
  shows "refines_step D K c (sqlite_write D m c) out"
proof -
  obtain c' where "delivered D (sqlite_write D m c) c (fst out) c'" "represents K c' (snd out)"
      "feed_moves 2 (cn_tables c) (cn_tables c')"
    by (rule mirrors_delivered [OF assms])
  then show ?thesis unfolding refines_step_def by blast
qed

lemma refines_read:
  assumes "answers D r r'" and "represents K c s"
  shows "refines_step D K c (r, c) (r', s)"
  using assms by (auto simp: refines_step_def answers_def delivered_def)

lemma call_refines:
  assumes c: "represents K c s" and store: "call_storable K call"
    and room: "tb_position (cn_tables c) + 1 < i64_max"
  shows "refines_step D K c (sqlite_call D K call c) (memory_call call s)"
proof -
  note R = representsD [OF c]
  have inv: "ms_inv s" using tables_okD(4) [OF R(1)] R(2) by simp
  have roomy: "has_room (cn_tables c)"
    by (rule has_room_clock [OF tables_okD(2) [OF R(1)] tables_okD(3) [OF R(1)] room])
  note step = refines_answer [OF refines_mirrored [OF _ c]]
  show ?thesis
  proof (cases call)
    case (RecordCall oper)
    show ?thesis
    proof (cases oper)
      case (CreateSession i)
      with RecordCall store have "id_ok i" by (simp add: call_storable_def)
      then show ?thesis
        unfolding RecordCall CreateSession sqlite_call_def memory_call_def store_call.case store_op.case sqlite_create_session_def
        by (intro step) (use mirrors_create_session [OF R(1)] R(2) inv in \<open>auto intro: inv_intros\<close>)
    next
      case (RegisterRun spec)
      with RecordCall store have "spec_storable K spec" by (simp add: call_storable_def)
      then show ?thesis
        unfolding RecordCall RegisterRun sqlite_call_def memory_call_def store_call.case store_op.case sqlite_register_run_def
        by (intro step) (use mirrors_register_run [OF R(1)] R(2) inv in \<open>auto intro: inv_intros\<close>)
    next
      case (Insert d)
      with RecordCall store have "draft_storable K d" by (simp add: call_storable_def)
      then show ?thesis
        unfolding RecordCall Insert sqlite_call_def memory_call_def store_call.case store_op.case sqlite_insert_def
        by (intro step) (use mirrors_insert [OF R(1) roomy] R(2) inv in \<open>auto intro: inv_intros\<close>)
    next
      case (Checkpoint i e p n)
      with RecordCall store have "payload_storable K p" by (simp add: call_storable_def)
      then show ?thesis
        unfolding RecordCall Checkpoint sqlite_call_def memory_call_def store_call.case store_op.case sqlite_checkpoint_def
        by (intro step) (use mirrors_checkpoint [OF R(1) roomy] R(2) inv in \<open>auto intro: inv_intros\<close>)
    next
      case (Resolve i e d)
      with RecordCall store have "draft_storable K d" by (simp add: call_storable_def)
      then show ?thesis
        unfolding RecordCall Resolve sqlite_call_def memory_call_def store_call.case store_op.case sqlite_resolve_def
        by (intro step) (use mirrors_resolve [OF R(1) roomy] R(2) inv in \<open>auto intro: inv_intros\<close>)
    qed
  next
    case (LinkCall e)
    with store have "relation_storable K e" by (simp add: call_storable_def)
    then show ?thesis
      unfolding LinkCall sqlite_call_def memory_call_def store_call.case sqlite_link_execution_def
      by (intro step) (use mirrors_link [OF R(1)] R(2) inv in \<open>auto intro: inv_intros\<close>)
  next
    case (SaveCall k)
    with store have "continuation_storable K k" by (simp add: call_storable_def)
    then show ?thesis
      unfolding SaveCall sqlite_call_def memory_call_def store_call.case sqlite_save_continuation_def
      by (intro step) (use mirrors_save_continuation [OF R(1)] R(2) inv in \<open>auto intro: inv_intros\<close>)
  next
    case (ClaimCall i)
    show ?thesis
      unfolding ClaimCall sqlite_call_def memory_call_def store_call.case sqlite_claim_continuation_def
      by (intro step) (use mirrors_claim_continuation [OF R(1)] R(2) inv in \<open>auto intro: inv_intros\<close>)
  next
    case (ListCall i after limit)
    have "memory_list i after limit s = (fst (memory_list i after limit s), s)"
      by (simp add: memory_list_eq [OF inv])
    then show ?thesis
      unfolding ListCall sqlite_call_def memory_call_def store_call.case
      by (metis refines_answer refines_read [OF answers_list [OF c] c])
  qed (simp_all add: sqlite_call_def memory_call_def refines_answer refines_read [OF _ c] answers_get [OF c]
      answers_get_run [OF c] answers_get_continuation [OF c] answers_parent [OF c] answers_children [OF c])
qed

subsection \<open>Many calls\<close>

text \<open>
  The in-memory store behind a connection that loses calls: a call with a fault answers it and
  does nothing.
\<close>

fun lossy_run ::
  "('q \<Rightarrow> 's \<Rightarrow> ('a, 'e) result \<times> 's) \<Rightarrow> 'e option list \<Rightarrow> 'q list \<Rightarrow> 's \<Rightarrow> ('a, 'e) result list \<times> 's" where
  "lossy_run exec (f # fs) (call # calls) s =
     (case (case f of None \<Rightarrow> exec call s | Some e \<Rightarrow> (Err e, s)) of
        (r, t) \<Rightarrow> (case lossy_run exec fs calls t of (rs, u) \<Rightarrow> (r # rs, u)))"
| "lossy_run exec _ _ s = ([], s)"

definition may_fail :: "driver \<times> 'q \<Rightarrow> store_error option \<Rightarrow> bool" where
  "may_fail x f \<longleftrightarrow> (\<forall>e. f = Some e \<longrightarrow> fault_of (fst x) e)"

lemma calls_refine:
  assumes "\<forall>call \<in> snd ` set calls. call_storable K call"
  shows "represents K c s \<Longrightarrow> tb_position (cn_tables c) + 2 * int (length calls) < i64_max \<Longrightarrow>
    \<exists>faults. list_all2 may_fail calls faults \<and>
      fst (run_calls K calls c) = fst (lossy_run memory_call faults (map snd calls) s) \<and>
      represents K (snd (run_calls K calls c)) (snd (lossy_run memory_call faults (map snd calls) s))"
  using assms
proof (induction calls arbitrary: c s)
  case (Cons x calls)
  obtain D call where x: "x = (D, call)" by (cases x)
  have "refines_step D K c (sqlite_call D K call c) (memory_call call s)"
    by (rule call_refines [OF Cons.prems(1)]) (use Cons.prems in \<open>simp_all add: x\<close>)
  then obtain f r t c' where step: "sqlite_call D K call c = (r, c')"
      "(case f of None \<Rightarrow> memory_call call s | Some e \<Rightarrow> (Err e, s)) = (r, t)" "represents K c' t"
      "\<forall>e. f = Some e \<longrightarrow> fault_of D e" "tb_position (cn_tables c') \<le> tb_position (cn_tables c) + 2"
  proof -
    assume goal: "\<And>r c' f t. sqlite_call D K call c = (r, c') \<Longrightarrow>
      (case f of None \<Rightarrow> memory_call call s | Some e \<Rightarrow> (Err e, s)) = (r, t) \<Longrightarrow> represents K c' t \<Longrightarrow>
      \<forall>e. f = Some e \<longrightarrow> fault_of D e \<Longrightarrow> tb_position (cn_tables c') \<le> tb_position (cn_tables c) + 2 \<Longrightarrow> thesis"
    assume "refines_step D K c (sqlite_call D K call c) (memory_call call s)"
    then consider c' where "sqlite_call D K call c = (fst (memory_call call s), c')"
        "represents K c' (snd (memory_call call s))" "tb_position (cn_tables c') \<le> tb_position (cn_tables c) + 2"
      | e where "fault_of D e" "sqlite_call D K call c = (Err e, c)"
      by (auto simp: refines_step_def delivered_def feed_moves_def)
    then show thesis
    proof cases
      case (1 c')
      then show ?thesis
        by (cases "memory_call call s") (intro goal [of _ c' None "snd (memory_call call s)"], simp_all)
    next
      case (2 e)
      then show ?thesis using Cons.prems(1) by (intro goal [of _ c "Some e" s]) simp_all
    qed
  qed
  have "tb_position (cn_tables c') + 2 * int (length calls) < i64_max" using step(5) Cons.prems(2) by simp
  from Cons.IH [OF step(3) this] Cons.prems(3) obtain fs where fs: "list_all2 may_fail calls fs"
      "fst (run_calls K calls c') = fst (lossy_run memory_call fs (map snd calls) t)"
      "represents K (snd (run_calls K calls c')) (snd (lossy_run memory_call fs (map snd calls) t))" by auto
  have "may_fail x f" using step(4) by (simp add: may_fail_def x)
  then show ?case
    by (intro exI [of _ "f # fs"])
      (use fs step(1,2,4) in \<open>auto simp: split_beta x\<close>)
qed simp

lemma calls_represent:
  assumes "\<forall>call \<in> snd ` set calls. call_storable K call" and "2 * int (length calls) < i64_max"
  obtains s where "represents K (snd (run_calls K calls (fresh_sqlite epoch))) s"
  using calls_refine [OF assms(1) migrated_represents, of epoch] assms(2)
  by (auto simp: fresh_sqlite_def migrated_def)

end
