(* ===== verification/Sqlite_Feed.thy ===== *)
theory Sqlite_Feed imports Sqlite_Calls begin

section \<open>The change feed (src/records/sqlite/changes.rs)\<close>

text \<open>
  \<open>ChangeStore\<close> for \<open>SqliteStore\<close>: pages of current records and pages of changed records, each
  read with the clock in one transaction; and the client of docs/state-sync.md that keeps a
  projection of one session.
\<close>

record change_cursor =
  cu_epoch :: string
  cu_session :: session_id
  cu_position :: u64

record 'v state_page =
  pg_records :: "'v snapshot list"
  pg_cursor :: change_cursor
  pg_next_after :: "u64 option"
  pg_full :: bool

definition sql_clock :: "driver \<Rightarrow> session_id \<Rightarrow> (change_cursor, tables) sql" where
  "sql_clock D session =
     and_then (sql_session_sequence D session) (\<lambda>_.
     and_then (query D (\<lambda>d. (tb_epoch d, tb_position d))) (\<lambda>(epoch, position).
     and_then (lift_result (column_number position)) (\<lambda>n.
       give \<lparr>cu_epoch = epoch, cu_session = session, cu_position = n\<rparr>)))"

definition cursor_validate :: "change_cursor \<Rightarrow> change_cursor \<Rightarrow> (unit, store_error) result" where
  "cursor_validate cursor head =
     (if cu_epoch cursor \<noteq> cu_epoch head \<or> cu_session cursor \<noteq> cu_session head \<or>
         unat (cu_position head) < unat (cu_position cursor)
      then Err InvalidChangeCursor else Ok ())"

definition sql_snapshot_page ::
  "driver \<Rightarrow> 'v formats \<Rightarrow> session_id \<Rightarrow> change_cursor option \<Rightarrow> u64 option \<Rightarrow> nat \<Rightarrow> ('v state_page, tables) sql" where
  "sql_snapshot_page D K session cursor after limit =
     and_then (sql_clock D session) (\<lambda>head.
     and_then (case cursor of
         None \<Rightarrow> give head
       | Some c \<Rightarrow> and_then (lift_result (cursor_validate c head)) (\<lambda>_. give c)) (\<lambda>cursor.
     and_then (lift_result
         (case after of
            None \<Rightarrow> Ok (-1)
          | Some n \<Rightarrow> if unat n \<le> nat i64_max then Ok (int (unat n)) else Err InvalidChangeCursor)) (\<lambda>after.
     and_then (query D (\<lambda>_. ())) (\<lambda>_.
     and_then (query D (page_rows (as_str session) after limit)) (\<lambda>rows.
     and_then (fetch_rows D (decode_current K) rows) (\<lambda>records.
       give \<lparr>pg_records = records, pg_cursor = cursor,
             pg_next_after = (if records = [] then None else Some (r_sequence (sn_record (last records)))),
             pg_full = (length records = limit)\<rparr>))))))"

definition sqlite_snapshot_page ::
  "driver \<Rightarrow> 'v formats \<Rightarrow> session_id \<Rightarrow> change_cursor option \<Rightarrow> u64 option \<Rightarrow> nat \<Rightarrow> sqlite \<Rightarrow>
   ('v state_page, store_error) result" where
  "sqlite_snapshot_page D K session cursor after limit c =
     (if \<not> (1 \<le> limit \<and> limit \<le> 1000) then Err InvalidPageSize
      else if after \<noteq> None \<and> cursor = None then Err InvalidChangeCursor
      else sqlite_read (transaction D (sql_snapshot_page D K session cursor after limit)) c)"

text \<open>The records of a session whose position exceeds the cursor's, joined with their rows.\<close>

definition change_rows :: "string \<Rightarrow> int \<Rightarrow> nat \<Rightarrow> tables \<Rightarrow> (record_row \<times> int) list" where
  "change_rows session position limit d =
     take limit (List.map_filter
       (\<lambda>h. map_option (\<lambda>r. (r, hw_position h)) (row_by rw_id (hw_record h) (tb_records d)))
       (sort_key hw_position (filter (\<lambda>h. hw_session h = session \<and> position < hw_position h) (tb_changes d))))"

definition decode_change :: "'v formats \<Rightarrow> record_row \<times> int \<Rightarrow> ('v snapshot \<times> u64, tables) sql" where
  "decode_change K x =
     lift_result (rbind (row_decode K (fst x)) (\<lambda>en.
       rbind (column_number (snd x)) (\<lambda>n. Ok (en_current en, n))))"

definition sql_changes ::
  "driver \<Rightarrow> 'v formats \<Rightarrow> change_cursor \<Rightarrow> nat \<Rightarrow> ('v state_page, tables) sql" where
  "sql_changes D K cursor limit =
     and_then (sql_clock D (cu_session cursor)) (\<lambda>head.
     and_then (lift_result (cursor_validate cursor head)) (\<lambda>_.
     and_then (query D (\<lambda>_. ())) (\<lambda>_.
     and_then (query D (change_rows (as_str (cu_session cursor)) (as_i64 (cu_position cursor)) limit)) (\<lambda>rows.
     and_then (fetch_rows D (decode_change K) rows) (\<lambda>rows.
     and_then (lift_result
         (if length rows = limit then (if rows = [] then Panic else Ok (snd (last rows)))
          else Ok (cu_position head))) (\<lambda>position.
       give \<lparr>pg_records = map fst rows, pg_cursor = head\<lparr>cu_position := position\<rparr>,
             pg_next_after = None, pg_full = (length rows = limit)\<rparr>))))))"

definition sqlite_changes ::
  "driver \<Rightarrow> 'v formats \<Rightarrow> change_cursor \<Rightarrow> nat \<Rightarrow> sqlite \<Rightarrow> ('v state_page, store_error) result" where
  "sqlite_changes D K cursor limit c =
     (if \<not> (1 \<le> limit \<and> limit \<le> 1000) then Err InvalidPageSize
      else sqlite_read (transaction D (sql_changes D K cursor limit)) c)"

subsection \<open>The client\<close>

text \<open>Upsert by identifier, accepting only newer revisions.\<close>

type_synonym 'v projection = "record_id \<rightharpoonup> 'v snapshot"

definition apply_record :: "'v snapshot \<Rightarrow> 'v projection \<Rightarrow> 'v projection" where
  "apply_record x p =
     (case p (r_id (sn_record x)) of
        Some old \<Rightarrow> if unat (sn_revision old) < unat (sn_revision x) then p(r_id (sn_record x) \<mapsto> x) else p
      | None \<Rightarrow> p(r_id (sn_record x) \<mapsto> x))"

definition apply_page :: "'v snapshot list \<Rightarrow> 'v projection \<Rightarrow> 'v projection" where
  "apply_page xs p = fold apply_record xs p"

datatype 'v sync_client =
  Scanning change_cursor "u64 option" "'v projection"
| Following change_cursor "'v projection"

definition after_scan :: "'v state_page \<Rightarrow> 'v projection \<Rightarrow> 'v sync_client" where
  "after_scan page p =
     (if pg_full page then Scanning (pg_cursor page) (pg_next_after page) (apply_page (pg_records page) p)
      else Following (pg_cursor page) (apply_page (pg_records page) p))"

text \<open>
  A database and one client of it. Between any two reads of the client the store may run any
  call. Every step meets a driver of its own, with its own faults. A read that fails changes
  nothing, so it is no step.
\<close>

inductive sync_step ::
  "'v formats \<Rightarrow> session_id \<Rightarrow> sqlite \<times> 'v sync_client option \<Rightarrow> sqlite \<times> 'v sync_client option \<Rightarrow> bool"
  for K session where
  other_call: "call_storable K call \<Longrightarrow> tb_position (cn_tables c) + 1 < i64_max \<Longrightarrow>
    sync_step K session (c, client) (snd (sqlite_call D K call c), client)"
| start: "sqlite_snapshot_page D K session None None limit c = Ok page \<Longrightarrow>
    sync_step K session (c, client) (c, Some (after_scan page Map.empty))"
| scan: "sqlite_snapshot_page D K session (Some cursor) after limit c = Ok page \<Longrightarrow>
    sync_step K session (c, Some (Scanning cursor after p)) (c, Some (after_scan page p))"
| follow: "sqlite_changes D K cursor limit c = Ok page \<Longrightarrow>
    sync_step K session (c, Some (Following cursor p))
      (c, Some (Following (pg_cursor page) (apply_page (pg_records page) p)))"

inductive_cases sync_stepE: "sync_step K session (c, client) t"

inductive sync_reachable :: "'v formats \<Rightarrow> session_id \<Rightarrow> string \<Rightarrow> sqlite \<times> 'v sync_client option \<Rightarrow> bool"
  for K session epoch where
  init: "sync_reachable K session epoch (fresh_sqlite epoch, None)"
| step: "sync_reachable K session epoch s \<Longrightarrow> sync_step K session s t \<Longrightarrow> sync_reachable K session epoch t"

text \<open>Following the changes until a page is not full, with fuel for the number of pages.\<close>

fun follow_changes ::
  "driver \<Rightarrow> 'v formats \<Rightarrow> nat \<Rightarrow> sqlite \<Rightarrow> nat \<Rightarrow> change_cursor \<Rightarrow> 'v projection \<Rightarrow>
   (change_cursor \<times> 'v projection, store_error) result option" where
  "follow_changes D K limit c 0 cursor p = None"
| "follow_changes D K limit c (Suc n) cursor p =
     (case sqlite_changes D K cursor limit c of
        Ok page \<Rightarrow>
          if pg_full page
          then follow_changes D K limit c n (pg_cursor page) (apply_page (pg_records page) p)
          else Some (Ok (pg_cursor page, apply_page (pg_records page) p))
      | Err e \<Rightarrow> Some (Err e)
      | Panic \<Rightarrow> Some Panic)"

end
