(* ===== verification/Sqlite_Sync.thy ===== *)
theory Sqlite_Sync imports Sqlite_Feed begin

section \<open>Synchronization through the change feed\<close>

subsection \<open>What the two reads answer\<close>

lemma runs_transaction:
  assumes "runs D m d r d'" and "r \<noteq> Panic"
  shows "runs D (transaction D m) d r d'"
proof (cases r)
  case (Ok x)
  show ?thesis
    unfolding transaction_def Ok
    by (rule runs_and_then [OF runs_query] runs_and_then [OF assms(1) [unfolded Ok]] runs_give)+
next
  case (Err e)
  show ?thesis
    unfolding transaction_def Err
    by (rule runs_and_then [OF runs_query] runs_stops [OF assms(1) [unfolded Err]])+
qed (use assms(2) in simp)

definition feed_head :: "session_id \<Rightarrow> tables \<Rightarrow> change_cursor" where
  "feed_head i d = \<lparr>cu_epoch = tb_epoch d, cu_session = i, cu_position = word_of_int (tb_position d)\<rparr>"

lemma feed_head_position: "tables_ok K d \<Longrightarrow> int (unat (cu_position (feed_head i d))) = tb_position d"
  using tables_okD(3) [of K d] word_of_column [of "tb_position d"] by (simp add: feed_ok_def feed_head_def)

lemma runs_clock:
  assumes ok: "tables_ok K d"
  shows "runs D (sql_clock D i) d (rbind (ok_or MissingSession (view_sessions d i)) (\<lambda>_. Ok (feed_head i d))) d"
proof (cases "view_sessions d i")
  case None
  then have "runs D (sql_session_sequence D i) d (Err MissingSession) d"
    using runs_session_sequence [OF ok, of D i] by simp
  then show ?thesis unfolding sql_clock_def by (simp add: None runs_stops)
next
  case (Some ids)
  then have seq: "runs D (sql_session_sequence D i) d (Ok (session_size ids)) d"
    using runs_session_sequence [OF ok, of D i] by simp
  have "0 \<le> tb_position d" using tables_okD(3) [OF ok] by (simp add: feed_ok_def)
  then have "column_number (tb_position d) = Ok (word_of_int (tb_position d))" by (simp add: column_number_def)
  then show ?thesis
    unfolding sql_clock_def
    by (intro runs_and_then [OF seq] after_query) (simp add: Some sql_simps feed_head_def runs_give)
qed

text \<open>The current snapshot behind an identifier.\<close>

definition current_at :: "'v formats \<Rightarrow> tables \<Rightarrow> record_id \<Rightarrow> 'v snapshot" where
  "current_at K d i = en_current (the (view_records K d i))"

definition snapshot_answer ::
  "'v formats \<Rightarrow> tables \<Rightarrow> session_id \<Rightarrow> change_cursor option \<Rightarrow> u64 option \<Rightarrow> nat \<Rightarrow> ('v state_page, store_error) result" where
  "snapshot_answer K d i cursor after limit =
     rbind (ok_or MissingSession (view_sessions d i)) (\<lambda>ids.
     rbind (case cursor of
         None \<Rightarrow> Ok (feed_head i d)
       | Some c \<Rightarrow> rbind (cursor_validate c (feed_head i d)) (\<lambda>_. Ok c)) (\<lambda>cursor.
     if \<exists>n. after = Some n \<and> nat i64_max < unat n then Err InvalidChangeCursor
     else
       (let records = map (current_at K d) (take limit (drop (list_start after) ids))
        in Ok \<lparr>pg_records = records, pg_cursor = cursor,
               pg_next_after = (if records = [] then None else Some (r_sequence (sn_record (last records)))),
               pg_full = (length records = limit)\<rparr>)))"

lemma cursor_validate_no_panic [simp]: "cursor_validate c h \<noteq> Panic"
  by (simp add: cursor_validate_def)

lemma runs_snapshot_page:
  assumes ok: "tables_ok K d"
  shows "runs D (sql_snapshot_page D K i cursor after limit) d (snapshot_answer K d i cursor after limit) d"
proof (cases "view_sessions d i")
  case None
  then have "runs D (sql_clock D i) d (Err MissingSession) d" using runs_clock [OF ok, of D i] by simp
  then show ?thesis unfolding sql_snapshot_page_def by (simp add: snapshot_answer_def None runs_stops)
next
  case (Some ids)
  then have head: "runs D (sql_clock D i) d (Ok (feed_head i d)) d" using runs_clock [OF ok, of D i] by simp
  define chosen where "chosen = (case cursor of
         None \<Rightarrow> Ok (feed_head i d)
       | Some c \<Rightarrow> rbind (cursor_validate c (feed_head i d)) (\<lambda>_. Ok c))"
  have choose: "runs D (case cursor of
         None \<Rightarrow> give (feed_head i d)
       | Some c \<Rightarrow> and_then (lift_result (cursor_validate c (feed_head i d))) (\<lambda>_. give c)) d chosen d"
  proof (cases cursor)
    case (Some c)
    then show ?thesis
      by (cases "cursor_validate c (feed_head i d)") (simp_all add: chosen_def sql_simps runs_give runs_fail)
  qed (simp add: chosen_def runs_give)
  have np: "chosen \<noteq> Panic" by (auto simp: chosen_def rbind_eq_Panic split: option.split)
  show ?thesis
  proof (cases chosen)
    case (Err e)
    have "runs D (sql_snapshot_page D K i cursor after limit) d (Err e) d"
      unfolding sql_snapshot_page_def by (rule runs_and_then [OF head], rule runs_stops, rule choose [unfolded Err])
    then show ?thesis by (simp add: snapshot_answer_def Some chosen_def [symmetric] Err)
  next
    case (Ok cur)
    show ?thesis
    proof (cases "\<exists>n. after = Some n \<and> nat i64_max < unat n")
      case True
      then obtain n where n: "after = Some n" "\<not> unat n \<le> nat i64_max" by auto
      have "runs D (sql_snapshot_page D K i cursor after limit) d (Err InvalidChangeCursor) d"
        unfolding sql_snapshot_page_def
        by (rule runs_and_then [OF head], rule runs_and_then, rule choose [unfolded Ok],
            simp only: n(1) option.case n(2) if_False and_then_known, rule runs_fail)
      then show ?thesis using True by (simp add: snapshot_answer_def Some chosen_def [symmetric] Ok)
    next
      case False
      define a where "a = (case after of None \<Rightarrow> -1 | Some n \<Rightarrow> int (unat n))"
      have a: "(case after of None \<Rightarrow> Ok (-1)
          | Some n \<Rightarrow> if unat n \<le> nat i64_max then Ok (int (unat n)) else Err InvalidChangeCursor) = Ok a"
        using False by (auto simp: a_def split: option.split)
      have k: "int (list_start after) = a + 1"
        using False by (cases after) (auto simp: a_def list_start_def [of None] list_start_next i64_max_def not_less)
      have "runs D (and_then (query D (\<lambda>_. ())) (\<lambda>_.
          and_then (query D (page_rows (as_str i) a limit)) (\<lambda>rows.
          and_then (fetch_rows D (decode_current K) rows) f))) d r d"
        if "runs D (f (map (current_at K d) (take limit (drop (list_start after) ids)))) d r d" for f r
      proof -
        let ?rows = "take limit (drop (list_start after) (session_rows (as_str i) d))"
        have page: "page_rows (as_str i) a limit d = ?rows" by (rule page_rows_drop [OF tables_okD(2) [OF ok] k])
        have "ids = map (\<lambda>r. Ident (rw_id r)) (session_rows (as_str i) d)" by (rule view_sessions_row(3) [OF Some])
        then have xs: "map (current_at K d) (take limit (drop (list_start after) ids)) =
            map (\<lambda>r. current_at K d (Ident (rw_id r))) ?rows" by (simp add: drop_map take_map)
        have "list_all2 (\<lambda>r x. runs D (decode_current K r) d (Ok x) d) ?rows
            (map (\<lambda>r. current_at K d (Ident (rw_id r))) ?rows)"
          using decode_current_runs [OF ok, of _ D]
          by (auto simp: current_at_def list_all2_map2 list_all2_same session_rows_def dest!: in_set_takeD in_set_dropD)
        then have "runs D (fetch_rows D (decode_current K) ?rows) d
            (Ok (map (current_at K d) (take limit (drop (list_start after) ids)))) d" unfolding xs by (rule runs_fetch)
        then show ?thesis by (intro after_query) (simp only: page, rule runs_and_then, assumption, rule that)
      qed
      note rows = this
      let ?records = "map (current_at K d) (take limit (drop (list_start after) ids))"
      have answer: "snapshot_answer K d i cursor after limit =
          Ok \<lparr>pg_records = ?records, pg_cursor = cur,
              pg_next_after = (if ?records = [] then None else Some (r_sequence (sn_record (last ?records)))),
              pg_full = (length ?records = limit)\<rparr>"
        unfolding snapshot_answer_def Some chosen_def [symmetric] Ok using False
        by (simp only: ok_or_simps rbind.simps if_False Let_def)
      have "runs D (sql_snapshot_page D K i cursor after limit) d (snapshot_answer K d i cursor after limit) d"
        unfolding sql_snapshot_page_def answer
        by (rule runs_and_then [OF head], rule runs_and_then, rule choose [unfolded Ok], simp only: a and_then_known,
            rule rows, rule runs_give)
      then show ?thesis .
    qed
  qed (use np in simp)
qed

lemma snapshot_page_Ok:
  assumes c: "represents K c s" and page: "sqlite_snapshot_page D K i cursor after limit c = Ok page"
  shows "snapshot_answer K (cn_tables c) i cursor after limit = Ok page" and "1 \<le> limit"
    and "after \<noteq> None \<Longrightarrow> cursor \<noteq> None"
proof -
  note R = representsD [OF c]
  have "sqlite_read (transaction D (sql_snapshot_page D K i cursor after limit)) c = Ok page"
    and guards: "1 \<le> limit" "after \<noteq> None \<Longrightarrow> cursor \<noteq> None"
    using page by (auto simp: sqlite_snapshot_page_def split: if_splits)
  moreover have "answers D (sqlite_read (transaction D (sql_snapshot_page D K i cursor after limit)) c)
      (snapshot_answer K (cn_tables c) i cursor after limit)"
  proof (rule answers_read [OF c], rule runs_transaction [OF runs_snapshot_page [OF R(1)]])
    show "snapshot_answer K (cn_tables c) i cursor after limit \<noteq> Panic"
      by (auto simp: snapshot_answer_def rbind_eq_Panic Let_def split: option.splits)
  qed
  ultimately show "snapshot_answer K (cn_tables c) i cursor after limit = Ok page" by (auto simp: answers_def)
qed (use page in \<open>auto simp: sqlite_snapshot_page_def split: if_splits\<close>)

subsection \<open>Pages of changes\<close>

text \<open>The changes behind a position, in order.\<close>

definition pending :: "tables \<Rightarrow> session_id \<Rightarrow> int \<Rightarrow> change_row list" where
  "pending d i p = sort_key hw_position (filter (\<lambda>h. hw_session h = as_str i \<and> p < hw_position h) (tb_changes d))"

lemma pending_set: "set (pending d i p) = {h \<in> set (tb_changes d). hw_session h = as_str i \<and> p < hw_position h}"
  by (auto simp: pending_def)

lemma pending_sorted:
  assumes "feed_ok d"
  shows "sorted_wrt (<) (map hw_position (pending d i p))"
proof -
  have "distinct (map hw_position (tb_changes d))" using assms by (simp add: feed_ok_def)
  then have "distinct (map hw_position (filter (\<lambda>h. hw_session h = as_str i \<and> p < hw_position h) (tb_changes d)))"
    by (rule distinct_map_filter)
  then have "distinct (map hw_position (pending d i p))"
    unfolding pending_def by (simp add: distinct_map)
  then show ?thesis by (simp add: strict_sorted_iff pending_def)
qed

lemma sorted_wrt_tail:
  fixes key :: "'r \<Rightarrow> int"
  assumes "sorted_wrt (<) (map key xs)" and "1 \<le> n" and "n \<le> length xs"
  shows "filter (\<lambda>x. key (last (take n xs)) < key x) xs = drop n xs"
proof -
  have nth: "key (xs ! i) < key (xs ! j)" if "i < j" "j < length xs" for i j :: nat
    using assms(1) that by (simp add: sorted_wrt_iff_nth_less)
  have lt: "last (take n xs) = xs ! (n - 1)" using assms(2,3) by (subst last_conv_nth) auto
  have "\<not> key (xs ! (n - 1)) < key x" if "x \<in> set (take n xs)" for x
  proof -
    from that obtain j where j: "j < n" "x = xs ! j" using assms(3) by (auto simp: in_set_conv_nth)
    show ?thesis
    proof (cases "j = n - 1")
      case False
      then have "key (xs ! j) < key (xs ! (n - 1))" using j(1) assms(2,3) by (intro nth) linarith+
      then show ?thesis using j(2) by simp
    qed (use j(2) in simp)
  qed
  then have "filter (\<lambda>x. key (xs ! (n - 1)) < key x) (take n xs) = []" by (simp add: filter_empty_conv)
  moreover have "filter (\<lambda>x. key (xs ! (n - 1)) < key x) (drop n xs) = drop n xs"
    using nth assms(2,3) by (auto simp: filter_id_conv in_set_conv_nth)
  ultimately show ?thesis unfolding lt by (metis append_Nil append_take_drop_id filter_append)
qed

text \<open>What remains after a full page.\<close>

lemma pending_rest:
  assumes F: "feed_ok d" and n: "1 \<le> n" "n \<le> length (pending d i p)"
  defines "q \<equiv> hw_position (last (take n (pending d i p)))"
  shows "pending d i q = drop n (pending d i p)" and "p < q" and "q \<le> tb_position d"
proof -
  have "take n (pending d i p) \<noteq> []" using n by (cases "pending d i p") auto
  then have "last (take n (pending d i p)) \<in> set (pending d i p)" by (metis in_set_takeD last_in_set)
  then show p: "p < q" and "q \<le> tb_position d" using F by (auto simp: q_def pending_set feed_ok_def)
  have "pending d i q = filter (\<lambda>h. q < hw_position h) (pending d i p)"
    using p unfolding pending_def filter_sort by (simp add: conj_ac) (rule arg_cong [where f = "sort_key hw_position"], auto intro!: filter_cong)
  also have "\<dots> = drop n (pending d i p)"
    unfolding q_def by (rule sorted_wrt_tail [OF pending_sorted [OF F] n])
  finally show "pending d i q = drop n (pending d i p)" .
qed

definition change_ident :: "change_row \<Rightarrow> record_id" where
  "change_ident h = Ident (hw_record h)"

lemma change_row_record:
  assumes ok: "tables_ok K d" and h: "h \<in> set (tb_changes d)"
  obtains r where "r \<in> set (tb_records d)" "rw_id r = hw_record h" "rw_session r = hw_session h"
    "row_by rw_id (hw_record h) (tb_records d) = Some r"
proof -
  have "(hw_record h, hw_session h) \<in> set (map (\<lambda>h. (hw_record h, hw_session h)) (tb_changes d))" using h by simp
  then have "(hw_record h, hw_session h) \<in> set (map (\<lambda>r. (rw_id r, rw_session r)) (tb_records d))"
    using tables_okD(3) [OF ok] by (simp add: feed_ok_def del: set_map)
  then obtain r where r: "r \<in> set (tb_records d)" "rw_id r = hw_record h" "rw_session r = hw_session h" by auto
  have "distinct (map rw_id (tb_records d))" using tables_okD(1) [OF ok] by (simp add: rows_wf_def)
  then have "row_by rw_id (hw_record h) (tb_records d) = Some r" using r(1) unfolding r(2) [symmetric] by (intro row_by_member)
  with r show thesis by (rule that)
qed

definition changes_answer ::
  "'v formats \<Rightarrow> tables \<Rightarrow> change_cursor \<Rightarrow> nat \<Rightarrow> ('v state_page, store_error) result" where
  "changes_answer K d cursor limit =
     rbind (ok_or MissingSession (view_sessions d (cu_session cursor))) (\<lambda>_.
     rbind (cursor_validate cursor (feed_head (cu_session cursor) d)) (\<lambda>_.
       (let hs = take limit (pending d (cu_session cursor) (int (unat (cu_position cursor))))
        in Ok \<lparr>pg_records = map (\<lambda>h. current_at K d (change_ident h)) hs,
               pg_cursor = (feed_head (cu_session cursor) d)\<lparr>cu_position :=
                 (if length hs = limit then word_of_int (hw_position (last hs))
                  else cu_position (feed_head (cu_session cursor) d))\<rparr>,
               pg_next_after = None, pg_full = (length hs = limit)\<rparr>)))"

lemma change_rows_pending:
  assumes ok: "tables_ok K d"
  shows "change_rows (as_str i) p limit d =
    map (\<lambda>h. (the (row_by rw_id (hw_record h) (tb_records d)), hw_position h)) (take limit (pending d i p))"
proof -
  have "List.map_filter (\<lambda>h. map_option (\<lambda>r. (r, hw_position h)) (row_by rw_id (hw_record h) (tb_records d))) hs =
      map (\<lambda>h. (the (row_by rw_id (hw_record h) (tb_records d)), hw_position h)) hs"
    if "set hs \<subseteq> set (tb_changes d)" for hs
    using that
  proof (induction hs)
    case (Cons h hs)
    then obtain r where "row_by rw_id (hw_record h) (tb_records d) = Some r"
      using change_row_record [OF ok, of h] by auto
    with Cons show ?case by (simp add: List.map_filter_simps)
  qed (simp add: List.map_filter_simps)
  moreover have "set (pending d i p) \<subseteq> set (tb_changes d)" by (auto simp: pending_set)
  ultimately show ?thesis unfolding change_rows_def pending_def [symmetric] by (simp add: take_map)
qed

lemma decode_change_runs:
  assumes ok: "tables_ok K d" and h: "h \<in> set (tb_changes d)"
  shows "runs D (decode_change K (the (row_by rw_id (hw_record h) (tb_records d)), hw_position h)) d
    (Ok (current_at K d (change_ident h), word_of_int (hw_position h))) d"
proof -
  obtain r where r: "r \<in> set (tb_records d)" "rw_id r = hw_record h" "row_by rw_id (hw_record h) (tb_records d) = Some r"
    by (rule change_row_record [OF ok h])
  obtain en where en: "row_decode K r = Ok en"
    using tables_okD(1) [OF ok] r(1) by (auto simp: rows_wf_def record_row_wf_def)
  then have "current_at K d (change_ident h) = en_current en"
    by (simp add: current_at_def change_ident_def view_records_def r(3))
  moreover have "1 \<le> hw_position h" using tables_okD(3) [OF ok] h by (simp add: feed_ok_def)
  ultimately show ?thesis by (simp add: decode_change_def r(3) en column_number_def sql_simps runs_give)
qed

lemma cursor_small:
  assumes ok: "tables_ok K d" and "cursor_validate cursor (feed_head i d) = Ok u"
  shows "as_i64 (cu_position cursor) = int (unat (cu_position cursor))"
    and "int (unat (cu_position cursor)) \<le> tb_position d" and "cu_epoch cursor = tb_epoch d" and "cu_session cursor = i"
proof -
  have v: "unat (cu_position cursor) \<le> unat (cu_position (feed_head i d))" "cu_epoch cursor = tb_epoch d"
      "cu_session cursor = i"
    using assms(2) by (auto simp: cursor_validate_def feed_head_def split: if_splits)
  show le: "int (unat (cu_position cursor)) \<le> tb_position d"
    using v(1) unfolding feed_head_position [OF ok, of i, symmetric] by (simp only: of_nat_le_iff)
  have "tb_position d \<le> i64_max" using tables_okD(3) [OF ok] by (simp add: feed_ok_def)
  then have "unat (cu_position cursor) \<le> nat i64_max" using le by linarith
  then show "as_i64 (cu_position cursor) = int (unat (cu_position cursor))" by (rule as_i64_small)
  show "cu_epoch cursor = tb_epoch d" "cu_session cursor = i" using v by simp_all
qed

lemma runs_changes:
  assumes ok: "tables_ok K d" and limit: "1 \<le> limit"
  shows "runs D (sql_changes D K cursor limit) d (changes_answer K d cursor limit) d"
proof (cases "view_sessions d (cu_session cursor)")
  case None
  then have "runs D (sql_clock D (cu_session cursor)) d (Err MissingSession) d"
    using runs_clock [OF ok, of D "cu_session cursor"] by simp
  then show ?thesis unfolding sql_changes_def by (simp add: changes_answer_def None runs_stops)
next
  case (Some ids)
  let ?i = "cu_session cursor"
  have head: "runs D (sql_clock D ?i) d (Ok (feed_head ?i d)) d" using runs_clock [OF ok, of D ?i] Some by simp
  show ?thesis
  proof (cases "cursor_validate cursor (feed_head ?i d)")
    case (Err e)
    have "runs D (sql_changes D K cursor limit) d (Err e) d"
      unfolding sql_changes_def by (rule runs_and_then [OF head], simp only: Err and_then_known, rule runs_fail)
    then show ?thesis by (simp add: changes_answer_def Some Err)
  next
    case (Ok u)
    let ?hs = "take limit (pending d ?i (int (unat (cu_position cursor))))"
    let ?xs = "map (\<lambda>h. (current_at K d (change_ident h), word_of_int (hw_position h) :: u64)) ?hs"
    have rows: "change_rows (as_str ?i) (as_i64 (cu_position cursor)) limit d =
        map (\<lambda>h. (the (row_by rw_id (hw_record h) (tb_records d)), hw_position h)) ?hs"
      unfolding cursor_small(1) [OF ok Ok] by (rule change_rows_pending [OF ok])
    have "list_all2 (\<lambda>r x. runs D (decode_change K r) d (Ok x) d)
        (map (\<lambda>h. (the (row_by rw_id (hw_record h) (tb_records d)), hw_position h)) ?hs) ?xs"
      using decode_change_runs [OF ok, of _ D]
      by (auto simp: list_all2_map1 list_all2_map2 list_all2_same pending_set dest!: in_set_takeD)
    then have fetch: "runs D (fetch_rows D (decode_change K)
        (map (\<lambda>h. (the (row_by rw_id (hw_record h) (tb_records d)), hw_position h)) ?hs)) d (Ok ?xs) d"
      by (rule runs_fetch)
    have "?hs \<noteq> [] \<or> length ?hs \<noteq> limit" using limit by auto
    then have position: "(if length ?xs = limit then (if ?xs = [] then Panic else Ok (snd (last ?xs)))
        else Ok (cu_position (feed_head ?i d))) =
        Ok (if length ?hs = limit then word_of_int (hw_position (last ?hs)) else cu_position (feed_head ?i d))"
      by (auto simp: last_map)
    have answer: "changes_answer K d cursor limit = Ok \<lparr>pg_records = map fst ?xs,
        pg_cursor = (feed_head ?i d)\<lparr>cu_position :=
          (if length ?hs = limit then word_of_int (hw_position (last ?hs)) else cu_position (feed_head ?i d))\<rparr>,
        pg_next_after = None, pg_full = (length ?xs = limit)\<rparr>"
      by (simp add: changes_answer_def Some Ok Let_def)
    show ?thesis
      unfolding sql_changes_def answer
      by (rule runs_and_then [OF head], simp only: Ok and_then_known, rule after_query, rule after_query,
          simp only: rows, rule runs_and_then, rule fetch, simp only: position and_then_known, rule runs_give)
  qed simp
qed

lemma changes_answers:
  assumes c: "represents K c s" and limit: "1 \<le> limit" "limit \<le> 1000"
  shows "answers D (sqlite_changes D K cursor limit c) (changes_answer K (cn_tables c) cursor limit)"
proof -
  have "changes_answer K (cn_tables c) cursor limit \<noteq> Panic"
    by (auto simp: changes_answer_def rbind_eq_Panic Let_def)
  from answers_read [OF c runs_transaction [OF runs_changes [OF representsD(1) [OF c] limit(1)] this]]
  show ?thesis using limit by (simp add: sqlite_changes_def)
qed

lemma changes_Ok:
  assumes c: "represents K c s" and page: "sqlite_changes D K cursor limit c = Ok page"
  shows "changes_answer K (cn_tables c) cursor limit = Ok page" and "1 \<le> limit"
proof -
  show limit: "1 \<le> limit" using page by (auto simp: sqlite_changes_def split: if_splits)
  have "limit \<le> 1000" using page by (auto simp: sqlite_changes_def split: if_splits)
  from changes_answers [OF c limit this, of D cursor] page
  show "changes_answer K (cn_tables c) cursor limit = Ok page" by (auto simp: answers_def)
qed

end
