(* ===== verification/Sqlite_Client.thy ===== *)
theory Sqlite_Client imports Sqlite_Sync begin

section \<open>The projection a client keeps\<close>

text \<open>
  The invariant of a synchronizing client: what it holds are versions of the session's records,
  and every record it does not hold in its current version sits behind its cursor. Writes keep
  it because they move what they change behind the clock, reads because they are complete up
  to the position they answer.
\<close>

subsection \<open>Records only evolve\<close>

lemma memory_call_exec: "snd (memory_call (RecordCall oper) s) = store_exec memory_store oper s"
  by (cases oper) (simp_all add: memory_call_def answer_with_def store_exec_def memory_store_sel)

lemma memory_call_evolves:
  assumes inv: "ms_inv s" and np: "\<not> ms_poisoned s" and en: "ms_records s i = Some en"
  shows "\<exists>en'. ms_records (snd (memory_call call s)) i = Some en' \<and> snapshot_evolves (en_current en) (en_current en')"
proof (cases call)
  case (RecordCall oper)
  have "memory_get i s = Ok (en_current en)" using np en by (simp add: memory_get_Ok)
  then obtain y where "memory_get i (store_exec memory_store oper s) = Ok y" "snapshot_evolves (en_current en) y"
    using mem.evolves_steps [OF store_steps.step [OF store_steps.refl] inv, of i "en_current en" oper]
    by (auto simp: memory_store_sel)
  then show ?thesis unfolding RecordCall memory_call_exec by (auto simp: memory_get_Ok)
next
  case (LinkCall e)
  then show ?thesis
    using en by (rule_tac memory_link_cases [of e s]) (auto simp: memory_call_def answer_with_def)
next
  case (ListCall j after limit)
  then show ?thesis using en by (simp add: memory_call_def answer_with_def memory_list_eq [OF inv])
qed (use en in \<open>simp_all add: memory_call_def answer_with_def memory_save_continuation_eq memory_claim_continuation_eq\<close>)

lemma memory_call_sessions:
  assumes inv: "ms_inv s" and known: "ms_sessions s i \<noteq> None"
  shows "ms_sessions (snd (memory_call call s)) i \<noteq> None"
proof (cases call)
  case (RecordCall oper)
  show ?thesis
    unfolding RecordCall memory_call_exec
  proof (cases oper)
    case (CreateSession j)
    then show "ms_sessions (store_exec memory_store oper s) i \<noteq> None"
      using known by (rule_tac memory_create_session_cases [of j s]) (auto simp: store_exec_def memory_store_sel)
  next
    case (RegisterRun spec)
    then show "ms_sessions (store_exec memory_store oper s) i \<noteq> None"
      using known by (rule_tac memory_register_run_cases [of spec s]) (auto simp: store_exec_def memory_store_sel)
  next
    case (Insert x)
    then show "ms_sessions (store_exec memory_store oper s) i \<noteq> None"
      using known by (rule_tac memory_insert_cases [of x s]) (auto simp: store_exec_def memory_store_sel appended_def)
  next
    case (Checkpoint j e p n)
    then show "ms_sessions (store_exec memory_store oper s) i \<noteq> None"
      using known by (rule_tac memory_checkpoint_cases [of j e p n s]) (auto simp: store_exec_def memory_store_sel)
  next
    case (Resolve q e x)
    then show "ms_sessions (store_exec memory_store oper s) i \<noteq> None"
      using known by (rule_tac memory_resolve_shape [OF inv, of q e x])
        (auto simp: store_exec_def memory_store_sel appended_def decided_def)
  qed
next
  case (LinkCall e)
  then show ?thesis
    using known by (rule_tac memory_link_cases [of e s]) (auto simp: memory_call_def answer_with_def)
next
  case (ListCall j after limit)
  then show ?thesis using known by (simp add: memory_call_def answer_with_def memory_list_eq [OF inv])
qed (use known in \<open>simp_all add: memory_call_def answer_with_def memory_save_continuation_eq memory_claim_continuation_eq\<close>)

subsection \<open>The invariant\<close>

definition covered ::
  "'v formats \<Rightarrow> tables \<Rightarrow> session_id \<Rightarrow> int \<Rightarrow> int \<Rightarrow> 'v projection \<Rightarrow> bool" where
  "covered K d i ahead pos p \<longleftrightarrow>
     (\<forall>r \<in> set (tb_records d). rw_session r = as_str i \<longrightarrow> rw_sequence r < ahead \<longrightarrow>
        (\<forall>h \<in> set (tb_changes d). hw_record h = rw_id r \<longrightarrow> pos < hw_position h) \<or>
        p (Ident (rw_id r)) = Some (current_at K d (Ident (rw_id r))))"

definition versions :: "'v formats \<Rightarrow> tables \<Rightarrow> session_id \<Rightarrow> 'v projection \<Rightarrow> bool" where
  "versions K d i p \<longleftrightarrow>
     (\<forall>j x. p j = Some x \<longrightarrow> (\<exists>en. view_records K d j = Some en \<and>
        r_session (sn_record (en_current en)) = i \<and> snapshot_evolves x (en_current en)))"

definition cursor_ok :: "tables \<Rightarrow> session_id \<Rightarrow> change_cursor \<Rightarrow> bool" where
  "cursor_ok d i cur \<longleftrightarrow> cu_epoch cur = tb_epoch d \<and> cu_session cur = i \<and> int (unat (cu_position cur)) \<le> tb_position d"

definition client_inv :: "'v formats \<Rightarrow> tables \<Rightarrow> session_id \<Rightarrow> 'v sync_client option \<Rightarrow> bool" where
  "client_inv K d i client \<longleftrightarrow>
     (client \<noteq> None \<longrightarrow> view_sessions d i \<noteq> None) \<and>
     (case client of
        None \<Rightarrow> True
      | Some (Scanning cur after p) \<Rightarrow>
          cursor_ok d i cur \<and> versions K d i p \<and>
          covered K d i (int (list_start after)) (int (unat (cu_position cur))) p
      | Some (Following cur p) \<Rightarrow>
          cursor_ok d i cur \<and> versions K d i p \<and> covered K d i (i64_max + 1) (int (unat (cu_position cur))) p)"

subsection \<open>Writes keep it\<close>

lemma same_row_current:
  assumes "rows_wf K d" and "rows_wf K d'" and "r \<in> set (tb_records d)" and "r \<in> set (tb_records d')"
  shows "current_at K d' (Ident (rw_id r)) = current_at K d (Ident (rw_id r))"
proof -
  have "row_by rw_id (rw_id r) (tb_records d) = Some r" "row_by rw_id (rw_id r) (tb_records d') = Some r"
    using assms by (auto simp: rows_wf_def intro: row_by_member)
  then show ?thesis by (simp add: current_at_def view_records_def)
qed

lemma covered_moves:
  assumes "covered K d i ahead pos p" and "feed_moves n d d'" and "rows_wf K d" and "rows_wf K d'"
    and "pos \<le> tb_position d"
  shows "covered K d' i ahead pos p"
  unfolding covered_def
proof (intro ballI impI)
  fix r assume r: "r \<in> set (tb_records d')" "rw_session r = as_str i" "rw_sequence r < ahead"
  from assms(2) r(1) consider
      "r \<in> set (tb_records d)" "\<forall>h \<in> set (tb_changes d'). hw_record h = rw_id r \<longrightarrow> h \<in> set (tb_changes d)"
    | "\<forall>h \<in> set (tb_changes d'). hw_record h = rw_id r \<longrightarrow> tb_position d < hw_position h"
    unfolding feed_moves_def by blast
  then show "(\<forall>h \<in> set (tb_changes d'). hw_record h = rw_id r \<longrightarrow> pos < hw_position h) \<or>
      p (Ident (rw_id r)) = Some (current_at K d' (Ident (rw_id r)))"
  proof cases
    case 1
    have "current_at K d' (Ident (rw_id r)) = current_at K d (Ident (rw_id r))"
      by (rule same_row_current [OF assms(3,4) 1(1) r(1)])
    with 1 assms(1) r show ?thesis unfolding covered_def by metis
  next
    case 2
    with assms(5) show ?thesis by fastforce
  qed
qed

lemma versions_call:
  assumes v: "versions K d i p" and view: "tables_view K d' = snd (memory_call call (tables_view K d))"
    and inv: "ms_inv (tables_view K d)"
  shows "versions K d' i p"
  unfolding versions_def
proof (intro allI impI)
  fix j x assume "p j = Some x"
  with v obtain en where en: "view_records K d j = Some en" "r_session (sn_record (en_current en)) = i"
      "snapshot_evolves x (en_current en)" unfolding versions_def by blast
  have "\<exists>en'. view_records K d' j = Some en' \<and> snapshot_evolves (en_current en) (en_current en')"
    using memory_call_evolves [OF inv, of j en call] en(1) by (simp add: view [symmetric])
  then obtain en' where en': "view_records K d' j = Some en'" "snapshot_evolves (en_current en) (en_current en')" by blast
  have "r_session (sn_record (en_current en')) = i"
    using en(2) en'(2) by (simp add: snapshot_evolves_def same_identity_def)
  with en'(1) snapshot_evolves_trans [OF en(3) en'(2)]
  show "\<exists>en. view_records K d' j = Some en \<and> r_session (sn_record (en_current en)) = i \<and> snapshot_evolves x (en_current en)"
    by blast
qed

lemma cursor_moves: "cursor_ok d i cur \<Longrightarrow> feed_moves n d d' \<Longrightarrow> cursor_ok d' i cur"
  by (auto simp: cursor_ok_def feed_moves_def)

lemma client_inv_call:
  assumes inv: "client_inv K (cn_tables c) i client" and c: "represents K c s"
    and store: "call_storable K call" and room: "tb_position (cn_tables c) + 1 < i64_max"
  shows "client_inv K (cn_tables (snd (sqlite_call D K call c))) i client \<and>
    (\<exists>t. represents K (snd (sqlite_call D K call c)) t)"
proof -
  from call_refines [OF c store room, of D] consider
      c' where "snd (sqlite_call D K call c) = c'" "represents K c' (snd (memory_call call s))"
        "feed_moves 2 (cn_tables c) (cn_tables c')"
    | "snd (sqlite_call D K call c) = c"
    by (auto simp: refines_step_def delivered_def)
  then show ?thesis
  proof cases
    case (1 c')
    note R = representsD [OF c] and R' = representsD [OF 1(2)]
    have view: "tables_view K (cn_tables c') = snd (memory_call call (tables_view K (cn_tables c)))"
      using R(2) R'(2) by simp
    have known: "view_sessions (cn_tables c) i \<noteq> None \<longrightarrow> view_sessions (cn_tables c') i \<noteq> None"
      using memory_call_sessions [OF tables_okD(4) [OF R(1)], of i call] by (simp add: view [symmetric])
    note M = cursor_moves [OF _ 1(3)] versions_call [OF _ view tables_okD(4) [OF R(1)]]
      covered_moves [OF _ 1(3) tables_okD(1) [OF R(1)] tables_okD(1) [OF R'(1)]]
    have "client_inv K (cn_tables c') i client"
      using inv M known unfolding client_inv_def
      by (auto split: option.splits sync_client.splits simp: cursor_ok_def)
    then show ?thesis using 1(1,2) by blast
  next
    case 2
    then show ?thesis using inv c by auto
  qed
qed

subsection \<open>Applying pages\<close>

lemma apply_current:
  assumes v: "versions K d i p" and inv: "ms_inv (tables_view K d)"
    and en: "view_records K d j = Some en" "r_session (sn_record (en_current en)) = i"
  shows "apply_record (current_at K d j) p = p(j \<mapsto> current_at K d j)"
    and "versions K d i (p(j \<mapsto> current_at K d j))"
proof -
  have cur: "current_at K d j = en_current en" by (simp add: current_at_def en(1))
  have id: "r_id (sn_record (en_current en)) = j"
    using ms_inv_entry [OF inv, of j en] en(1) by (simp add: entry_ok_def)
  show "apply_record (current_at K d j) p = p(j \<mapsto> current_at K d j)"
  proof (cases "p j")
    case (Some old)
    with v en(1) have ev: "snapshot_evolves old (en_current en)" unfolding versions_def by fastforce
    show ?thesis
    proof (cases "unat (sn_revision old) < unat (sn_revision (en_current en))")
      case False
      with ev have "sn_revision old = sn_revision (en_current en)"
        by (simp add: snapshot_evolves_def word_unat_eq_iff)
      with ev have "old = en_current en" by (simp add: snapshot_evolves_def)
      with Some False show ?thesis by (simp add: apply_record_def cur id fun_upd_idem)
    qed (simp add: apply_record_def cur id Some)
  qed (simp add: apply_record_def cur id)
  show "versions K d i (p(j \<mapsto> current_at K d j))"
    using v en cur unfolding versions_def by auto
qed

lemma apply_currents:
  assumes inv: "ms_inv (tables_view K d)"
  shows "\<forall>j \<in> set js. \<exists>en. view_records K d j = Some en \<and> r_session (sn_record (en_current en)) = i \<Longrightarrow>
    versions K d i p \<Longrightarrow>
    versions K d i (apply_page (map (current_at K d) js) p) \<and>
    (\<forall>j. apply_page (map (current_at K d) js) p j = (if j \<in> set js then Some (current_at K d j) else p j))"
proof (induction js arbitrary: p)
  case (Cons j js)
  then obtain en where en: "view_records K d j = Some en" "r_session (sn_record (en_current en)) = i" by auto
  note A = apply_current [OF Cons.prems(2) inv en]
  have eq: "apply_page (map (current_at K d) (j # js)) p = apply_page (map (current_at K d) js) (p(j \<mapsto> current_at K d j))"
    by (simp add: apply_page_def A(1))
  have IH: "versions K d i (apply_page (map (current_at K d) js) (p(j \<mapsto> current_at K d j))) \<and>
      (\<forall>k. apply_page (map (current_at K d) js) (p(j \<mapsto> current_at K d j)) k =
        (if k \<in> set js then Some (current_at K d k) else (p(j \<mapsto> current_at K d j)) k))"
    by (rule Cons.IH [OF _ A(2)]) (use Cons.prems(1) in simp)
  show ?case
  proof (intro conjI allI)
    show "versions K d i (apply_page (map (current_at K d) (j # js)) p)" unfolding eq by (rule IH [THEN conjunct1])
    fix k
    show "apply_page (map (current_at K d) (j # js)) p k = (if k \<in> set (j # js) then Some (current_at K d k) else p k)"
      unfolding eq using spec [OF conjunct2 [OF IH], of k] by simp
  qed
qed (simp add: apply_page_def)

subsection \<open>Reads keep it\<close>

lemma session_row_ids:
  assumes ok: "tables_ok K d" and ids: "view_sessions d i = Some ids"
    and r: "r \<in> set (tb_records d)" "rw_session r = as_str i"
  obtains k where "k < length ids" "ids ! k = Ident (rw_id r)" "rw_sequence r = int k"
proof -
  let ?rows = "session_rows (as_str i) d"
  have "r \<in> set ?rows" using r by (simp add: session_rows_def)
  then obtain k where k: "k < length ?rows" "r = ?rows ! k" by (metis in_set_conv_nth)
  have "map rw_sequence ?rows = map int [0..<length ?rows]"
    using tables_okD(2) [OF ok] by (simp add: sessions_wf_def)
  then have "rw_sequence r = int k" using k by (metis add_0 length_map map_nth nth_map nth_upt)
  moreover have "ids = map (\<lambda>r. Ident (rw_id r)) ?rows" by (rule view_sessions_row(3) [OF ids])
  ultimately show thesis using k by (intro that [of k]) simp_all
qed

lemma session_ids_here:
  assumes ok: "tables_ok K d" and ids: "view_sessions d i = Some ids" and j: "j \<in> set ids"
  shows "\<exists>en. view_records K d j = Some en \<and> r_session (sn_record (en_current en)) = i"
proof -
  from j obtain k where "k < length ids" "ids ! k = j" by (metis in_set_conv_nth)
  then show ?thesis using session_record [OF tables_okD(4) [OF ok], of i ids k] ids by auto
qed

lemma session_short:
  assumes ok: "tables_ok K d" and ids: "view_sessions d i = Some ids"
  shows "int (length ids) \<le> i64_max"
proof -
  obtain x where "row_by sw_id (as_str i) (tb_sessions d) = Some x" using ids by (auto simp: view_sessions_def)
  then show ?thesis
    using session_length(1,2) [OF tables_okD(2) [OF ok]] view_sessions_row(2) [OF ids] by metis
qed

lemma scan_keeps:
  assumes ok: "tables_ok K d" and ids: "view_sessions d i = Some ids" and limit: "1 \<le> limit"
    and cur: "cursor_ok d i cur" and v: "versions K d i p"
    and cov: "covered K d i (int (list_start after)) (int (unat (cu_position cur))) p"
    and page: "pg_records page = map (current_at K d) (take limit (drop (list_start after) ids))"
      "pg_cursor page = cur" "pg_full page = (length (pg_records page) = limit)"
      "pg_next_after page = (if pg_records page = [] then None else Some (r_sequence (sn_record (last (pg_records page)))))"
  shows "client_inv K d i (Some (after_scan page p))"
proof -
  let ?k = "list_start after" and ?js = "take limit (drop (list_start after) ids)"
  let ?q = "apply_page (pg_records page) p" and ?n = "length (take limit (drop (list_start after) ids))"
  have inv: "ms_inv (tables_view K d)" by (rule tables_okD(4) [OF ok])
  have here: "\<forall>j \<in> set ?js. \<exists>en. view_records K d j = Some en \<and> r_session (sn_record (en_current en)) = i"
    using session_ids_here [OF ok ids] by (auto dest: in_set_takeD in_set_dropD)
  have A: "versions K d i ?q" "\<And>j. ?q j = (if j \<in> set ?js then Some (current_at K d j) else p j)"
    using apply_currents [OF inv here v] unfolding page(1) by blast+
  have cov': "covered K d i (int (?k + ?n)) (int (unat (cu_position cur))) ?q"
    unfolding covered_def
  proof (intro ballI impI)
    fix r assume r: "r \<in> set (tb_records d)" "rw_session r = as_str i" "rw_sequence r < int (?k + ?n)"
    obtain m where m: "m < length ids" "ids ! m = Ident (rw_id r)" "rw_sequence r = int m"
      by (rule session_row_ids [OF ok ids r(1,2)])
    show "(\<forall>h \<in> set (tb_changes d). hw_record h = rw_id r \<longrightarrow> int (unat (cu_position cur)) < hw_position h) \<or>
        ?q (Ident (rw_id r)) = Some (current_at K d (Ident (rw_id r)))"
    proof (cases "m < ?k")
      case True
      then have "rw_sequence r < int ?k" using m(3) by simp
      with cov r(1,2) have "(\<forall>h \<in> set (tb_changes d). hw_record h = rw_id r \<longrightarrow> int (unat (cu_position cur)) < hw_position h) \<or>
          p (Ident (rw_id r)) = Some (current_at K d (Ident (rw_id r)))" unfolding covered_def by blast
      then show ?thesis by (auto simp: A(2))
    next
      case False
      have "m < ?k + ?n" using r(3) unfolding m(3) by (simp only: of_nat_less_iff)
      then have "m - ?k < ?n" using False by linarith
      moreover have "?k + (m - ?k) = m" "?k \<le> length ids" using False m(1) by simp_all
      ultimately have "?js ! (m - ?k) = ids ! m" by (simp add: nth_drop)
      then have "Ident (rw_id r) \<in> set ?js" using m(2) \<open>m - ?k < ?n\<close> by (metis nth_mem)
      then show ?thesis by (simp add: A(2))
    qed
  qed
  show ?thesis
  proof (cases "pg_full page")
    case True
    then have n: "?n = limit" using page(1,3) by simp
    then have ne: "?js \<noteq> []" using limit by auto
    have last: "last ?js = ids ! (?k + limit - 1)" "?k + limit - 1 < length ids"
      using n limit by (simp_all add: last_conv_nth ne)
    obtain en where en: "view_records K d (ids ! (?k + limit - 1)) = Some en"
        "unat (r_sequence (sn_record (en_current en))) = ?k + limit - 1"
      using session_record [OF inv, of i ids "?k + limit - 1"] ids last(2) by auto
    have "last (pg_records page) = en_current en"
      unfolding page(1) using en(1) last(1) by (simp add: last_map [OF ne] current_at_def)
    then have after: "pg_next_after page = Some (r_sequence (sn_record (en_current en)))"
      using page(1,4) ne by simp
    have "?k + limit < 2 ^ 64" using last(2) session_short [OF ok ids] limit by (simp add: i64_max_def)
    then have "list_start (pg_next_after page) = ?k + limit"
      unfolding after list_start_next en(2) using limit by simp
    then show ?thesis
      using True cur A(1) cov' n ids by (simp add: client_inv_def after_scan_def page(2))
  next
    case False
    then have "length ids \<le> ?k + ?n" using page(1,3) by auto
    then have all: "covered K d i (i64_max + 1) (int (unat (cu_position cur))) ?q"
      unfolding covered_def
    proof (intro ballI impI)
      fix r assume len: "length ids \<le> ?k + ?n" and r: "r \<in> set (tb_records d)" "rw_session r = as_str i"
      obtain m where "m < length ids" "rw_sequence r = int m"
        by (rule session_row_ids [OF ok ids r])
      then have "rw_sequence r < int (?k + ?n)" using len by simp
      with cov' r show "(\<forall>h \<in> set (tb_changes d). hw_record h = rw_id r \<longrightarrow> int (unat (cu_position cur)) < hw_position h) \<or>
        ?q (Ident (rw_id r)) = Some (current_at K d (Ident (rw_id r)))" unfolding covered_def by blast
    qed
    then show ?thesis using False cur A(1) ids by (simp add: client_inv_def after_scan_def page(2))
  qed
qed

lemma cursor_ok_head: "tables_ok K d \<Longrightarrow> cursor_ok d i (feed_head i d)"
  using feed_head_position [of K d i] by (simp add: cursor_ok_def) (simp add: feed_head_def)

lemma covered_none: "tables_ok K d \<Longrightarrow> covered K d i 0 pos p"
  unfolding covered_def
proof (intro ballI impI)
  fix r assume ok: "tables_ok K d" and r: "r \<in> set (tb_records d)" and neg: "rw_sequence r < 0"
  then obtain en where "row_decode K r = Ok en" by (auto simp: tables_ok_def rows_wf_def record_row_wf_def)
  from row_current_Ok [OF row_decode_current [OF this]] neg
  show "(\<forall>h \<in> set (tb_changes d). hw_record h = rw_id r \<longrightarrow> pos < hw_position h) \<or>
      p (Ident (rw_id r)) = Some (current_at K d (Ident (rw_id r)))" by simp
qed

lemma snapshot_answer_Ok:
  assumes "snapshot_answer K d i cursor after limit = Ok page"
  obtains ids where "view_sessions d i = Some ids"
    "pg_records page = map (current_at K d) (take limit (drop (list_start after) ids))"
    "pg_cursor page = (case cursor of None \<Rightarrow> feed_head i d | Some c \<Rightarrow> c)"
    "pg_full page = (length (pg_records page) = limit)"
    "pg_next_after page = (if pg_records page = [] then None else Some (r_sequence (sn_record (last (pg_records page)))))"
  using assms by (auto simp: snapshot_answer_def rbind_eq_Ok Let_def split: if_splits option.splits)

lemma client_inv_start:
  assumes c: "represents K c s" and page: "sqlite_snapshot_page D K i None None limit c = Ok page"
  shows "client_inv K (cn_tables c) i (Some (after_scan page Map.empty))"
proof -
  note R = representsD [OF c] and P = snapshot_page_Ok [OF c page]
  obtain ids where P1: "view_sessions (cn_tables c) i = Some ids"
    "pg_records page = map (current_at K (cn_tables c)) (take limit (drop (list_start None) ids))"
    "pg_cursor page = feed_head i (cn_tables c)" "pg_full page = (length (pg_records page) = limit)"
    "pg_next_after page = (if pg_records page = [] then None else Some (r_sequence (sn_record (last (pg_records page)))))"
    by (rule snapshot_answer_Ok [OF P(1)]) simp
  show ?thesis
    by (rule scan_keeps [OF R(1) P1(1) P(2) cursor_ok_head [OF R(1)] _ _ P1(2,3,4,5)])
      (simp_all add: versions_def list_start_def covered_none [OF R(1)])
qed

lemma client_inv_scan:
  assumes c: "represents K c s" and page: "sqlite_snapshot_page D K i (Some cur) after limit c = Ok page"
    and inv: "client_inv K (cn_tables c) i (Some (Scanning cur after p))"
  shows "client_inv K (cn_tables c) i (Some (after_scan page p))"
proof -
  note R = representsD [OF c] and P = snapshot_page_Ok [OF c page]
  obtain ids where P1: "view_sessions (cn_tables c) i = Some ids"
    "pg_records page = map (current_at K (cn_tables c)) (take limit (drop (list_start after) ids))"
    "pg_cursor page = cur" "pg_full page = (length (pg_records page) = limit)"
    "pg_next_after page = (if pg_records page = [] then None else Some (r_sequence (sn_record (last (pg_records page)))))"
    by (rule snapshot_answer_Ok [OF P(1)]) simp
  show ?thesis
    by (rule scan_keeps [OF R(1) P1(1) P(2) _ _ _ P1(2,3,4,5)]) (use inv in \<open>simp_all add: client_inv_def\<close>)
qed

lemma changes_answer_Ok:
  assumes "changes_answer K d cursor limit = Ok page"
  defines "hs \<equiv> take limit (pending d (cu_session cursor) (int (unat (cu_position cursor))))"
  shows "cursor_validate cursor (feed_head (cu_session cursor) d) = Ok ()"
    and "pg_records page = map (current_at K d) (map change_ident hs)"
    and "pg_cursor page = (feed_head (cu_session cursor) d)\<lparr>cu_position :=
      (if length hs = limit then word_of_int (hw_position (last hs)) else cu_position (feed_head (cu_session cursor) d))\<rparr>"
    and "pg_full page = (length hs = limit)"
  using assms by (auto simp: changes_answer_def rbind_eq_Ok Let_def)

text \<open>The position a page of changes answers.\<close>

lemma changes_position:
  assumes ok: "tables_ok K d" and limit: "1 \<le> limit" and page: "changes_answer K d cursor limit = Ok page"
  defines "hs \<equiv> take limit (pending d (cu_session cursor) (int (unat (cu_position cursor))))"
  shows "int (unat (cu_position (pg_cursor page))) = (if pg_full page then hw_position (last hs) else tb_position d)"
    and "cursor_ok d (cu_session cursor) (pg_cursor page)"
proof -
  note P = changes_answer_Ok [OF page, folded hs_def]
  have F: "feed_ok d" by (rule tables_okD(3) [OF ok])
  show pos: "int (unat (cu_position (pg_cursor page))) = (if pg_full page then hw_position (last hs) else tb_position d)"
  proof (cases "pg_full page")
    case True
    then have "length hs = limit" by (simp add: P(4))
    then have "hs \<noteq> []" using limit by auto
    then have "last hs \<in> set (tb_changes d)" unfolding hs_def by (metis (no_types, lifting) in_set_takeD last_in_set mem_Collect_eq pending_set)
    then have "0 \<le> hw_position (last hs)" "hw_position (last hs) \<le> i64_max" using F by (fastforce simp: feed_ok_def)+
    then show ?thesis using True by (simp add: P(3) P(4) word_of_column)
  next
    case False
    then show ?thesis using feed_head_position [OF ok] by (simp add: P(3) P(4))
  qed
  have "hw_position (last hs) \<le> tb_position d" if "pg_full page"
  proof -
    have "hs \<noteq> []" using that limit P(4) by auto
    then have "last hs \<in> set (tb_changes d)" unfolding hs_def by (metis (no_types, lifting) in_set_takeD last_in_set mem_Collect_eq pending_set)
    then show ?thesis using F by (simp add: feed_ok_def)
  qed
  then show "cursor_ok d (cu_session cursor) (pg_cursor page)"
    unfolding cursor_ok_def pos by (simp add: P(3)) (simp add: feed_head_def)
qed

lemma client_inv_follow:
  assumes c: "represents K c s" and page: "sqlite_changes D K cur limit c = Ok page"
    and inv: "client_inv K (cn_tables c) i (Some (Following cur p))"
  shows "client_inv K (cn_tables c) i (Some (Following (pg_cursor page) (apply_page (pg_records page) p)))"
proof -
  let ?d = "cn_tables c"
  note R = representsD [OF c] and P = changes_Ok [OF c page]
  have cur: "cursor_ok ?d i cur" and v: "versions K ?d i p"
      and cov: "covered K ?d i (i64_max + 1) (int (unat (cu_position cur))) p"
    using inv by (simp_all add: client_inv_def)
  have i: "cu_session cur = i" using cur by (simp add: cursor_ok_def)
  define hs where "hs = take limit (pending ?d i (int (unat (cu_position cur))))"
  note A = changes_answer_Ok [OF P(1), unfolded i, folded hs_def]
  note B = changes_position [OF R(1) P(2,1), unfolded i, folded hs_def]
  have F: "feed_ok ?d" by (rule tables_okD(3) [OF R(1)])
  have inv': "ms_inv (tables_view K ?d)" by (rule tables_okD(4) [OF R(1)])
  have here: "\<exists>en. view_records K ?d (change_ident h) = Some en \<and> r_session (sn_record (en_current en)) = i"
    if h: "h \<in> set (tb_changes ?d)" "hw_session h = as_str i" for h
  proof -
    obtain r where r: "r \<in> set (tb_records ?d)" "rw_session r = hw_session h"
        "row_by rw_id (hw_record h) (tb_records ?d) = Some r"
      by (rule change_row_record [OF R(1) h(1)])
    obtain en where en: "row_decode K r = Ok en"
      using tables_okD(1) [OF R(1)] r(1) by (auto simp: rows_wf_def record_row_wf_def)
    have "r_session (sn_record (en_current en)) = i"
      using row_current_Ok [OF row_decode_current [OF en]] r(2) h(2) by (simp add: same_string [symmetric])
    then show ?thesis by (simp add: view_records_def change_ident_def r(3) en)
  qed
  have js: "\<forall>j \<in> set (map change_ident hs). \<exists>en. view_records K ?d j = Some en \<and> r_session (sn_record (en_current en)) = i"
    using here unfolding hs_def by (auto simp: pending_set dest!: in_set_takeD)
  let ?q = "apply_page (pg_records page) p"
  have Q: "versions K ?d i ?q" "\<And>j. ?q j = (if j \<in> change_ident ` set hs then Some (current_at K ?d j) else p j)"
    using apply_currents [OF inv' js v] unfolding A(2) by (blast, simp)
  have got: "h \<in> set hs" if h: "h \<in> set (pending ?d i (int (unat (cu_position cur))))"
      "hw_position h \<le> int (unat (cu_position (pg_cursor page)))" for h
  proof (cases "pg_full page")
    case True
    then have len: "length hs = limit" by (simp add: A(4))
    then have n: "limit \<le> length (pending ?d i (int (unat (cu_position cur))))" unfolding hs_def by simp
    have "h \<notin> set (pending ?d i (hw_position (last hs)))" using h(2) True B(1) by (simp add: pending_set)
    then have "h \<notin> set (drop limit (pending ?d i (int (unat (cu_position cur)))))"
      unfolding hs_def pending_rest(1) [OF F P(2) n] .
    then show ?thesis using h(1) unfolding hs_def by (metis Un_iff append_take_drop_id set_append)
  next
    case False
    then have "length hs \<noteq> limit" by (simp add: A(4))
    then have "hs = pending ?d i (int (unat (cu_position cur)))" unfolding hs_def by (simp add: min_def split: if_splits)
    then show ?thesis using h(1) by simp
  qed
  have "covered K ?d i (i64_max + 1) (int (unat (cu_position (pg_cursor page)))) ?q"
    unfolding covered_def
  proof (intro ballI impI)
    fix r assume r: "r \<in> set (tb_records ?d)" "rw_session r = as_str i" "rw_sequence r < i64_max + 1"
    show "(\<forall>h \<in> set (tb_changes ?d). hw_record h = rw_id r \<longrightarrow> int (unat (cu_position (pg_cursor page))) < hw_position h) \<or>
        ?q (Ident (rw_id r)) = Some (current_at K ?d (Ident (rw_id r)))"
    proof (rule disjCI)
      assume "?q (Ident (rw_id r)) \<noteq> Some (current_at K ?d (Ident (rw_id r)))"
      then have no: "Ident (rw_id r) \<notin> change_ident ` set hs"
          "p (Ident (rw_id r)) \<noteq> Some (current_at K ?d (Ident (rw_id r)))"
        by (auto simp: Q(2) split: if_splits)
      with cov r have behind: "\<forall>h \<in> set (tb_changes ?d). hw_record h = rw_id r \<longrightarrow> int (unat (cu_position cur)) < hw_position h"
        unfolding covered_def by blast
      show "\<forall>h \<in> set (tb_changes ?d). hw_record h = rw_id r \<longrightarrow> int (unat (cu_position (pg_cursor page))) < hw_position h"
      proof (intro ballI impI)
        fix h assume h: "h \<in> set (tb_changes ?d)" "hw_record h = rw_id r"
        obtain x where "x \<in> set (tb_records ?d)" "rw_id x = hw_record h" "rw_session x = hw_session h"
          by (rule change_row_record [OF R(1) h(1)])
        moreover have "distinct (map rw_id (tb_records ?d))" using tables_okD(1) [OF R(1)] by (simp add: rows_wf_def)
        ultimately have "hw_session h = as_str i" using r(1,2) h(2) by (metis row_by_member option.inject)
        then have "h \<in> set (pending ?d i (int (unat (cu_position cur))))" using h behind by (simp add: pending_set)
        moreover have "h \<notin> set hs" using no(1) h(2) by (metis change_ident_def image_eqI)
        ultimately show "int (unat (cu_position (pg_cursor page))) < hw_position h" using got by (meson not_le)
      qed
    qed
  qed
  then show ?thesis using B(2) Q(1) inv by (simp add: client_inv_def)
qed

end
