(* ===== verification/Sqlite_Props.thy ===== *)
theory Sqlite_Props imports Sqlite_Client begin

section \<open>Properties of the SQLite store\<close>

text \<open>
  What the SQLite store promises, for every driver: the answers of the in-memory store with
  whole calls lost to faults, well-typed rows, no trace of a failed call, and a change feed that
  brings a client to the current records in finitely many pages.
\<close>

subsection \<open>A concrete format\<close>

text \<open>Documents that spell the place of a value in a list, for a database with few values.\<close>

definition listed :: "'x list \<Rightarrow> ('x, nat) format" where
  "listed xs =
     \<lparr>fo_to_string = (\<lambda>v x. (case find (\<lambda>n. xs ! n = x) [0..<length xs] of
        Some n \<Rightarrow> Ok (replicate n (CHR ''x'')) | None \<Rightarrow> Err ''unknown'')),
      fo_from_value = (\<lambda>n. if n < length xs then Ok (xs ! n) else Err ''unknown'')\<rparr>"

definition spell :: "string \<Rightarrow> (nat \<times> nat, string) result" where
  "spell s = Ok (2, length s)"

lemma listed_encode: "codec_encode (listed xs) x = Ok s \<Longrightarrow> x \<in> set xs"
  by (auto simp: codec_encode_def listed_def find_Some_iff split: option.splits)

lemma listed_reads_back: "x \<in> set xs \<Longrightarrow> reads_back spell (listed xs) x"
proof -
  assume "x \<in> set xs"
  then have "find (\<lambda>n. xs ! n = x) [0..<length xs] \<noteq> None" by (auto simp: find_None_iff in_set_conv_nth)
  then obtain n where n: "find (\<lambda>n. xs ! n = x) [0..<length xs] = Some n" by blast
  then have "n < length xs" "xs ! n = x" by (auto simp: find_Some_iff)
  then show ?thesis
    using n by (simp add: reads_back_def codec_encode_def codec_decode_def listed_def spell_def data_version_def)
qed

definition sample_payloads :: "nat payload list" where
  "sample_payloads = [PQuestion sample_question, PAnswer Declined Stored]"

definition sample_formats :: "nat formats" where
  "sample_formats =
     \<lparr>fm_parse = spell, fm_payload = listed sample_payloads, fm_source = listed [],
      fm_manifest = listed [default_manifest], fm_config = listed [default_run_configuration],
      fm_initial = listed [\<lparr>ic_payload = p, ic_state = s\<rparr>. p \<leftarrow> sample_payloads, s \<leftarrow> [Open, Complete, Interrupted]],
      fm_continuation = listed [sample_continuation], fm_relation = listed [sample_rel1]\<rparr>"

definition sample_driver :: "nat option \<Rightarrow> driver" where
  "sample_driver bad =
     \<lparr>dv_fault = (\<lambda>n. if bad = Some n then Some \<lparr>se_code = Some DatabaseBusy, se_text = ''busy''\<rparr> else None),
      dv_violation = \<lparr>se_code = Some OtherCode, se_text = ''constraint''\<rparr>\<rparr>"

definition sample_calls :: "nat store_call list" where
  "sample_calls =
     [RecordCall (CreateSession (Ident ''s'')), RecordCall (Insert sample_draft),
      RecordCall (Resolve (Ident ''q'') 0 (sample_answer ''d'')), GetCall (Ident ''q''),
      SaveCall sample_continuation, ClaimCall (Ident ''k'')]"

lemma sample_payload_storable:
  assumes "p \<in> set sample_payloads"
  shows "payload_storable sample_formats p"
  unfolding payload_storable_def
proof (intro conjI allI)
  show "reads_back (fm_parse sample_formats) (fm_payload sample_formats) p"
    using assms by (simp add: sample_formats_def listed_reads_back)
  show "reads_back (fm_parse sample_formats) (fm_initial sample_formats) \<lparr>ic_payload = p, ic_state = s\<rparr>" for s
    using assms by (cases s) (auto simp: sample_formats_def intro!: listed_reads_back)
qed

lemma sample_storable:
  "payload_storable sample_formats (PQuestion sample_question)" "payload_storable sample_formats (PAnswer Declined Stored)"
  by (rule sample_payload_storable, simp add: sample_payloads_def)+

lemma sample_calls_storable: "\<forall>call \<in> set sample_calls. call_storable sample_formats call"
proof -
  have ids: "id_ok (Ident [CHR ''s''] :: session_id)" "id_ok (Ident ''q'' :: record_id)" "id_ok (Ident ''a'' :: actor_id)"
      "id_ok (Ident ''d'' :: record_id)" "id_ok (Ident ''u'' :: actor_id)" "id_ok (Ident ''k'' :: continuation_id)"
    by (simp_all add: id_ok_def) (rule not_blank_plain; simp add: plain_char_def)+
  then show ?thesis
    by (simp add: sample_calls_def call_storable_def draft_storable_def continuation_storable_def sample_draft_def
        sample_answer_def sample_storable)
      (simp add: sample_formats_def sample_payloads_def listed_reads_back sample_continuation_def)
qed

text \<open>The second and the fifth call meet a busy database.\<close>

definition sample_trace :: "(driver \<times> nat store_call) list" where
  "sample_trace = zip (map sample_driver [None, Some 4, None, None, Some 2, None]) sample_calls"

lemma sample_trace_length: "length sample_trace = 6"
  by (simp add: sample_trace_def sample_calls_def)

lemma sample_trace_storable: "\<forall>call \<in> snd ` set sample_trace. call_storable sample_formats call"
  using sample_calls_storable by (auto simp: sample_trace_def dest: set_zip_rightD)

subsection \<open>Refinement\<close>

text \<open>
  C1: The SQLite store refines the in-memory store. Whatever calls a client makes after the
  migration, reads and writes of records, runs, continuations and relations, and whichever calls
  of the driver fail: each call either answers a fault of the driver and changes nothing, or
  answers exactly what the in-memory store answers after the calls that did not fail, and the
  tables represent that store's state.
\<close>

theorem sqlite_refines_memory:
  assumes "\<forall>call \<in> snd ` set calls. call_storable K call" and "2 * int (length calls) < i64_max"
  shows "\<exists>faults. list_all2 may_fail calls faults \<and>
    fst (run_calls K calls (fresh_sqlite epoch)) = fst (lossy_run memory_call faults (map snd calls) memory_default) \<and>
    tables_view K (cn_tables (snd (run_calls K calls (fresh_sqlite epoch)))) =
      snd (lossy_run memory_call faults (map snd calls) memory_default)"
  using calls_refine [OF assms(1) migrated_represents, of epoch] assms(2)
  by (fastforce simp: fresh_sqlite_def migrated_def represents_def)

theorem sqlite_refines_memory_witness:
  "\<exists>faults. list_all2 may_fail sample_trace faults \<and>
    fst (run_calls sample_formats sample_trace (fresh_sqlite ''e'')) =
      fst (lossy_run memory_call faults (map snd sample_trace) memory_default) \<and>
    tables_view sample_formats
        (cn_tables (snd (run_calls sample_formats sample_trace (fresh_sqlite ''e'')))) =
      snd (lossy_run memory_call faults (map snd sample_trace) memory_default)"
  using sqlite_refines_memory [OF sample_trace_storable, of "''e''"]
  by (simp add: sample_trace_length i64_max_def)

subsection \<open>Synchronization\<close>

lemma sync_reachable_inv:
  assumes "sync_reachable K i epoch st"
  shows "client_inv K (cn_tables (fst st)) i (snd st) \<and> (\<exists>s. represents K (fst st) s)"
  using assms(1)
proof induction
  case init
  show ?case using migrated_represents by (auto simp: client_inv_def)
next
  case (step s t)
  obtain c client where s: "s = (c, client)" by (cases s)
  obtain m where inv: "client_inv K (cn_tables c) i client" and c: "represents K c m"
    using step.IH by (auto simp: s)
  note call = conjunct1 [OF client_inv_call [OF inv c]] conjunct2 [OF client_inv_call [OF inv c]]
  from step.hyps(2) [unfolded s] show ?case
    by (rule sync_stepE)
      (use inv c in \<open>auto intro: call dest: client_inv_start [OF c] client_inv_scan [OF c] client_inv_follow [OF c]\<close>)
qed

text \<open>The current records of a session.\<close>

definition session_projection :: "'v formats \<Rightarrow> tables \<Rightarrow> session_id \<Rightarrow> 'v projection" where
  "session_projection K d i =
     (\<lambda>j. Option.bind (view_records K d j) (\<lambda>en.
        if r_session (sn_record (en_current en)) = i then Some (en_current en) else None))"

lemma row_on_feed:
  assumes F: "feed_ok d" and r: "r \<in> set (tb_records d)"
  obtains h where "h \<in> set (tb_changes d)" "hw_record h = rw_id r" "hw_position h \<le> tb_position d"
proof -
  have "map (\<lambda>h. (hw_record h, hw_session h)) (tb_changes d) = map (\<lambda>r. (rw_id r, rw_session r)) (tb_records d)"
    using F by (simp add: feed_ok_def)
  from arg_cong [OF this, of set] have "(rw_id r, rw_session r) \<in> (\<lambda>h. (hw_record h, hw_session h)) ` set (tb_changes d)"
    using r by auto
  then obtain h where "h \<in> set (tb_changes d)" "hw_record h = rw_id r" by auto
  then show thesis using F that by (auto simp: feed_ok_def)
qed

lemma caught_up:
  assumes ok: "tables_ok K d" and inv: "client_inv K d i (Some (Following cur p))"
    and head: "int (unat (cu_position cur)) = tb_position d"
  shows "p = session_projection K d i"
proof
  fix j
  have v: "versions K d i p" and cov: "covered K d i (i64_max + 1) (tb_position d) p"
    using inv head by (simp_all add: client_inv_def)
  show "p j = session_projection K d i j"
  proof (cases "session_projection K d i j")
    case None
    have "p j = None"
    proof (rule ccontr)
      assume "p j \<noteq> None"
      then show False using v None unfolding versions_def session_projection_def by fastforce
    qed
    then show ?thesis using None by simp
  next
    case (Some x)
    then obtain en where en: "view_records K d j = Some en" "r_session (sn_record (en_current en)) = i" "x = en_current en"
      by (auto simp: session_projection_def bind_eq_Some_conv split: if_splits)
    obtain r where mem: "r \<in> set (tb_records d)" "rw_id r = as_str j" and r: "row_decode K r = Ok en"
      by (rule view_records_row [OF tables_okD(1) [OF ok] en(1)])
    note cur = row_current_Ok [OF row_decode_current [OF r]]
    have j: "Ident (rw_id r) = j" using mem(2) by simp
    obtain h where "h \<in> set (tb_changes d)" "hw_record h = rw_id r" "hw_position h \<le> tb_position d"
      by (rule row_on_feed [OF tables_okD(3) [OF ok] mem(1)])
    moreover have "rw_session r = as_str i" using cur en(2) by simp
    moreover obtain ids where ids: "view_sessions d i = Some ids" using inv by (auto simp: client_inv_def)
    moreover obtain m where "m < length ids" "rw_sequence r = int m"
      by (rule session_row_ids [OF ok ids mem(1) \<open>rw_session r = as_str i\<close>])
    then have "rw_sequence r < i64_max + 1" using session_short [OF ok ids] by simp
    ultimately have "p (Ident (rw_id r)) = Some (current_at K d (Ident (rw_id r)))"
      using cov mem(1) unfolding covered_def by fastforce
    then show ?thesis using Some en by (simp add: j current_at_def)
  qed
qed

lemma follow_changes_step:
  assumes D: "\<And>k. dv_fault D k = None" and limit: "1 \<le> limit" "limit \<le> 1000"
    and c: "represents K c s" and inv: "client_inv K (cn_tables c) i (Some (Following cur p))"
  obtains page where "sqlite_changes D K cur limit c = Ok page"
    "changes_answer K (cn_tables c) cur limit = Ok page" "cu_session cur = i"
proof -
  let ?d = "cn_tables c"
  have cur: "cursor_ok ?d i cur" and known: "view_sessions ?d i \<noteq> None" using inv by (simp_all add: client_inv_def)
  then have i: "cu_session cur = i" by (simp add: cursor_ok_def)
  have "cursor_validate cur (feed_head i ?d) = Ok ()"
    using cur feed_head_position [OF representsD(1) [OF c], of i]
    unfolding cursor_validate_def cursor_ok_def by (auto simp: feed_head_def not_less simp flip: of_nat_le_iff [where 'a = int])
  then obtain page where page: "changes_answer K ?d cur limit = Ok page"
    using known by (auto simp: changes_answer_def i Let_def)
  have "sqlite_changes D K cur limit c = Ok page"
    using changes_answers [OF c limit, of D cur] by (simp add: page answers_def fault_of_def D)
  then show thesis using page i by (rule that)
qed

lemma follow_changes_ends_from:
  assumes D: "\<And>k. dv_fault D k = None" and limit: "1 \<le> limit" "limit \<le> 1000" and c: "represents K c s"
  shows "client_inv K (cn_tables c) i (Some (Following cur p)) \<Longrightarrow>
    length (pending (cn_tables c) i (int (unat (cu_position cur)))) div limit < n \<Longrightarrow>
    \<exists>cur'. follow_changes D K limit c n cur p = Some (Ok (cur', session_projection K (cn_tables c) i))"
proof (induction n arbitrary: cur p)
  case (Suc n)
  let ?d = "cn_tables c" and ?ps = "pending (cn_tables c) i (int (unat (cu_position cur)))"
  obtain page where page: "sqlite_changes D K cur limit c = Ok page" "changes_answer K ?d cur limit = Ok page"
      "cu_session cur = i"
    by (rule follow_changes_step [OF D limit c Suc.prems(1)])
  note inv = client_inv_follow [OF c page(1) Suc.prems(1)]
  note pos = changes_position(1) [OF representsD(1) [OF c] limit(1) page(2), unfolded page(3)]
  show ?case
  proof (cases "pg_full page")
    case True
    then have n: "limit \<le> length ?ps" using changes_answer_Ok(4) [OF page(2)] by (simp add: page(3))
    have "pending ?d i (int (unat (cu_position (pg_cursor page)))) = drop limit ?ps"
      using pending_rest(1) [OF tables_okD(3) [OF representsD(1) [OF c]] limit(1) n] True pos by simp
    then have "length (pending ?d i (int (unat (cu_position (pg_cursor page))))) div limit < n"
      using Suc.prems(2) le_div_geq [of limit "length ?ps"] limit(1) n by simp
    from Suc.IH [OF inv this] show ?thesis using True page(1) by simp
  next
    case False
    then have "apply_page (pg_records page) p = session_projection K ?d i"
      using caught_up [OF representsD(1) [OF c] inv] pos by simp
    then show ?thesis using False page(1) by simp
  qed
qed simp

lemma pending_short: "feed_ok d \<Longrightarrow> length (pending d i p) \<le> length (tb_records d)"
proof -
  assume "feed_ok d"
  then have "length (map (\<lambda>h. (hw_record h, hw_session h)) (tb_changes d)) = length (map (\<lambda>r. (rw_id r, rw_session r)) (tb_records d))"
    unfolding feed_ok_def by (metis (no_types, lifting))
  then have "length (tb_changes d) = length (tb_records d)" by simp
  then show ?thesis unfolding pending_def length_sort
    using length_filter_le [of "\<lambda>h. hw_session h = as_str i \<and> p < hw_position h" "tb_changes d"] by linarith
qed

subsection \<open>A concrete client\<close>

definition sample_db0 :: sqlite where
  "sample_db0 = \<lparr>cn_poisoned = False, cn_tables = (migrated ''e'')\<lparr>tb_sessions := [\<lparr>sw_id = ''s'', sw_next = 0\<rparr>]\<rparr>\<rparr>"

lemma sample_call: "driver_call (sample_driver None) q st = q (Suc (fst st), snd st)"
 by (simp add: driver_call_def sample_driver_def)
lemmas sample_run_sql = operation_simps sample_call and_then_def query_def execute_def split_beta

lemma sample_create: "sqlite_call (sample_driver None) sample_formats (RecordCall (CreateSession (Ident ''s''))) (fresh_sqlite ''e'') = (Ok Done, sample_db0)"
    by (simp add: sqlite_call_def sqlite_create_session_def sqlite_write_def transaction_def sample_run_sql fresh_sqlite_def insert_session_def as_statement_def answer_with_def
        has_row_def migrated_def sample_db0_def)

lemma sample_scan: "sqlite_snapshot_page (sample_driver None) sample_formats (Ident ''s'') None None 2 sample_db0 =
   Ok \<lparr>pg_records = [], pg_cursor = \<lparr>cu_epoch = ''e'', cu_session = Ident ''s'', cu_position = 0\<rparr>, pg_next_after = None, pg_full = False\<rparr>"
    by (simp add: sqlite_snapshot_page_def sqlite_read_def sql_snapshot_page_def sql_clock_def sql_session_sequence_def transaction_def sample_run_sql answer_with_def row_by_def column_number_def page_rows_def 
        has_row_def migrated_def sample_db0_def)



definition sample_row :: record_row where
  "sample_row = \<lparr>rw_id = ''q'', rw_session = ''s'', rw_run = None, rw_sequence = 0, rw_actor = ''a'', rw_reply = None,
    rw_source = None, rw_payload = [], rw_state = ''open'', rw_revision = 0, rw_initial = None\<rparr>"

definition sample_db :: sqlite where
  "sample_db = \<lparr>cn_poisoned = False, cn_tables = (migrated ''e'')\<lparr>tb_sessions := [\<lparr>sw_id = ''s'', sw_next = 1\<rparr>],
     tb_records := [sample_row], tb_position := 1, tb_changes := [\<lparr>hw_record = ''q'', hw_session = ''s'', hw_position = 1\<rparr>]\<rparr>\<rparr>"

lemma sample_document: "codec_encode (fm_payload sample_formats) (PQuestion sample_question) = Ok []"
  by (simp add: codec_encode_def listed_def sample_payloads_def data_version_def upt_rec sample_formats_def)

lemma sample_sql_insert: "snd (sqlite_call (sample_driver None) sample_formats (RecordCall (Insert sample_draft)) sample_db0) = sample_db"
    by (simp add: sqlite_call_def sqlite_insert_def sqlite_write_def transaction_def sample_run_sql
        as_statement_def answer_with_def sample_draft_def i64_max_def is_response_def is_request_def validate_def sample_question_ok
        has_row_def migrated_def sample_db0_def sql_insert_def sql_entry_def row_by_def sql_prepare_def
        sql_session_sequence_def column_number_def snapshot_of_def sql_insert_row_def record_row_of_def sample_document
        insert_record_def record_row_ok_def state_name_def insert_change_def next_position_def bump_session_def as_i64_def
        sample_db_def sample_row_def)


definition sample_cursor :: "u64 \<Rightarrow> change_cursor" where
  "sample_cursor n = \<lparr>cu_epoch = ''e'', cu_session = Ident ''s'', cu_position = n\<rparr>"

lemma sample_reachable:
  "sync_reachable sample_formats (Ident ''s'') ''e'' (sample_db, Some (Following (sample_cursor 0) Map.empty))"
proof -
  have S: "call_storable sample_formats call" if "call \<in> set sample_calls" for call
    using that sample_calls_storable by blast
  have "call_storable sample_formats (RecordCall (CreateSession (Ident ''s'')))" by (rule S) (simp add: sample_calls_def)
  from sync_reachable.step [OF sync_reachable.init sync_step.other_call [OF this, where D = "sample_driver None"]]
  have a: "sync_reachable sample_formats (Ident ''s'') ''e'' (sample_db0, None)"
    by (simp add: fresh_sqlite_def migrated_def i64_max_def flip: sample_create [THEN arg_cong [of _ _ snd], simplified])
  have b: "sync_reachable sample_formats (Ident ''s'') ''e'' (sample_db0, Some (Following (sample_cursor 0) Map.empty))"
    using sync_reachable.step [OF a sync_step.start [OF sample_scan]] by (simp add: after_scan_def apply_page_def sample_cursor_def)
  have "call_storable sample_formats (RecordCall (Insert sample_draft))" by (rule S) (simp add: sample_calls_def)
  from sync_reachable.step [OF b sync_step.other_call [OF this, where D = "sample_driver None"]]
  show ?thesis by (simp add: sample_sql_insert) (simp add: sample_db0_def migrated_def i64_max_def)
qed


lemma sample_faultless: "dv_fault (sample_driver None) k = None"
  by (simp add: sample_driver_def)

lemma sample_page:
  obtains page where "sqlite_changes (sample_driver None) sample_formats (sample_cursor 0) 2 sample_db = Ok page" "\<not> pg_full page"
proof -
  obtain s where inv: "client_inv sample_formats (cn_tables sample_db) (Ident ''s'') (Some (Following (sample_cursor 0) Map.empty))"
      and c: "represents sample_formats sample_db s"
    using sync_reachable_inv [OF sample_reachable] by auto
  obtain page where page: "sqlite_changes (sample_driver None) sample_formats (sample_cursor 0) 2 sample_db = Ok page"
      "changes_answer sample_formats (cn_tables sample_db) (sample_cursor 0) 2 = Ok page"
    by (rule follow_changes_step [OF sample_faultless _ _ c inv, where limit = 2]) auto
  have "length (tb_records (cn_tables sample_db)) = 1" by (simp add: sample_db_def)
  then have "length (pending (cn_tables sample_db) i n) \<le> 1" for i n
    using pending_short [OF tables_okD(3) [OF representsD(1) [OF c]]] by metis
  then have "length (take 2 (pending (cn_tables sample_db) i n)) < 2" for i n
    by (metis length_take min.strict_coboundedI1 le_less_trans one_less_numeral_iff semiring_norm(76))
  then have "length (take 2 (pending (cn_tables sample_db) i n)) \<noteq> 2" for i n by (simp add: nat_neq_iff)
  then have "\<not> pg_full page" using changes_answer_Ok(4) [OF page(2)] by metis
  with page(1) show thesis by (rule that)
qed

subsection \<open>Convergence\<close>

text \<open>
  C10: A client that follows the change feed converges. From any interleaving of store calls,
  faults, a scan in pages and reads of the feed: whenever a page of changes is not full, the
  client holds exactly the current versions of all records of the session, including those that
  other calls wrote between its pages, and nothing else.
\<close>

theorem projection_converges:
  assumes "sync_reachable K i epoch (c, Some (Following cur p))"
    and "sqlite_changes D K cur limit c = Ok page" and "\<not> pg_full page"
  shows "apply_page (pg_records page) p = session_projection K (cn_tables c) i"
proof -
  obtain s where inv: "client_inv K (cn_tables c) i (Some (Following cur p))" and c: "represents K c s"
    using sync_reachable_inv [OF assms(1)] by auto
  note P = changes_Ok [OF c assms(2)]
  have "int (unat (cu_position (pg_cursor page))) = tb_position (cn_tables c)"
    using changes_position(1) [OF representsD(1) [OF c] P(2,1)] assms(3) by simp
  with client_inv_follow [OF c assms(2) inv] show ?thesis
    by (rule caught_up [OF representsD(1) [OF c]])
qed

theorem projection_converges_witness:
  "\<exists>page. sqlite_changes (sample_driver None) sample_formats (sample_cursor 0) 2 sample_db = Ok page \<and>
     apply_page (pg_records page) Map.empty = session_projection sample_formats (cn_tables sample_db) (Ident ''s'')"
proof -
  obtain page where "sqlite_changes (sample_driver None) sample_formats (sample_cursor 0) 2 sample_db = Ok page" "\<not> pg_full page"
    by (rule sample_page)
  with projection_converges [OF sample_reachable this] show ?thesis by blast
qed

text \<open>
  C30: Following the feed ends. Once a client has scanned a session, and while nothing else
  writes and no call of the driver fails, reading pages of changes until one is not full takes
  at most one page more than the records of the database divided by the page size, answers no
  error, and leaves the client with exactly the current records of the session.
\<close>

theorem follow_changes_ends:
  assumes "sync_reachable K i epoch (c, Some (Following cur p))"
    and "\<forall>k. dv_fault D' k = None" and "1 \<le> limit" and "limit \<le> 1000"
    and "length (tb_records (cn_tables c)) div limit < n"
  shows "\<exists>cur'. follow_changes D' K limit c n cur p = Some (Ok (cur', session_projection K (cn_tables c) i))"
proof -
  obtain s where inv: "client_inv K (cn_tables c) i (Some (Following cur p))" and c: "represents K c s"
    using sync_reachable_inv [OF assms(1)] by auto
  have "length (pending (cn_tables c) i (int (unat (cu_position cur)))) div limit < n"
    using div_le_mono [OF pending_short [OF tables_okD(3) [OF representsD(1) [OF c]]], of i _ limit] assms(5)
    by (rule le_less_trans)
  with assms(2) show ?thesis by (intro follow_changes_ends_from [OF _ assms(3,4) c inv]) simp_all
qed

theorem follow_changes_ends_witness:
  "\<exists>cur'. follow_changes (sample_driver None) sample_formats 1 sample_db 2 (sample_cursor 0) Map.empty =
     Some (Ok (cur', session_projection sample_formats (cn_tables sample_db) (Ident ''s'')))"
  by (rule follow_changes_ends [OF sample_reachable]) (simp_all add: sample_faultless sample_db_def)

end
