(* ===== verification/Sqlite_Archive.thy ===== *)
theory Sqlite_Archive imports Sqlite_Props Resources begin

section \<open>The resource archive in SQLite (src/records/sqlite/resources.rs)\<close>

text \<open>
  \<open>ResourceStore\<close> and \<open>ResourceArchive\<close> for \<open>SqliteStore\<close>: versions name their bytes by
  digest, equal bytes are kept once, and every read checks the digest. \<open>hex\<close> stands for
  \<open>format!("{:x}", Sha256::digest(bytes))\<close>.
\<close>

type_synonym ('a, 't) archive = "('a, resource_error, nat \<times> 't) operation"

definition in_archive :: "('a, 't) sql \<Rightarrow> ('a, 't) archive" where
  "in_archive m st = (map_err StoreFailed (fst (m st)), snd (m st))"

definition version_key :: "version_row \<Rightarrow> string \<times> string" where
  "version_key v = (vw_id v, vw_revision v)"

text \<open>The left join of a version with its blob.\<close>

definition archive_row :: "resource_ref \<Rightarrow> tables \<Rightarrow> (version_row \<times> string option) option" where
  "archive_row r d =
     map_option (\<lambda>v. (v, map_option snd (row_by fst (vw_sha v) (tb_blobs d))))
       (row_by version_key (as_str (res_id r), res_revision r) (tb_versions d))"

definition archive_decode ::
  "(string \<Rightarrow> string) \<Rightarrow> resource_ref \<Rightarrow> version_row \<times> string option \<Rightarrow> (resource, resource_error) result" where
  "archive_decode hex r x =
     rbind (ok_or (StoreFailed (CorruptData ''resource blob missing'')) (snd x)) (\<lambda>bytes.
       if hex bytes \<noteq> vw_sha (fst x) then Err (StoreFailed (CorruptData ''resource digest mismatch''))
       else Ok \<lparr>rsc_reference = r, rsc_media_type = vw_media (fst x), rsc_bytes = bytes\<rparr>)"

definition archive_read :: "driver \<Rightarrow> (string \<Rightarrow> string) \<Rightarrow> resource_ref \<Rightarrow> (resource, tables) archive" where
  "archive_read D hex r =
     and_then (in_archive (query D (archive_row r))) (\<lambda>row.
       lift_result (rbind (ok_or Missing row) (archive_decode hex r)))"

definition sqlite_get_resource ::
  "driver \<Rightarrow> (string \<Rightarrow> string) \<Rightarrow> resource_ref \<Rightarrow> sqlite \<Rightarrow> (resource, resource_error) result" where
  "sqlite_get_resource D hex r c =
     (if blank (res_revision r) then Err Invalid
      else if cn_poisoned c then Err ResourcesPoisoned
      else fst (archive_read D hex r (0, cn_tables c)))"

text \<open>\<open>INSERT OR IGNORE\<close> of a blob, and the insertion of a version, whose blob must exist.\<close>

definition insert_blob :: "string \<Rightarrow> string \<Rightarrow> tables \<Rightarrow> tables option" where
  "insert_blob sha bytes d =
     Some (if has_row fst sha (tb_blobs d) then d else d\<lparr>tb_blobs := tb_blobs d @ [(sha, bytes)]\<rparr>)"

definition insert_version :: "version_row \<Rightarrow> tables \<Rightarrow> tables option" where
  "insert_version v d =
     (if has_row version_key (version_key v) (tb_versions d) \<or> \<not> has_row fst (vw_sha v) (tb_blobs d) then None
      else Some (d\<lparr>tb_versions := tb_versions d @ [v]\<rparr>))"

text \<open>A read whose \<open>Missing\<close> is an answer.\<close>

definition unless_missing :: "('a, 't) archive \<Rightarrow> ('a option, 't) archive" where
  "unless_missing m st =
     (case m st of
        (Ok x, st) \<Rightarrow> (Ok (Some x), st)
      | (Err e, st) \<Rightarrow> (if e = Missing then (Ok None, st) else (Err e, st))
      | (Panic, st) \<Rightarrow> (Panic, st))"

text \<open>The row \<open>query_row\<close> expects; rusqlite reports an absent one as an error.\<close>

definition blob_bytes :: "driver \<Rightarrow> string \<Rightarrow> (string, tables) sql" where
  "blob_bytes D sha =
     and_then (query D (\<lambda>d. map_option snd (row_by fst sha (tb_blobs d)))) (\<lambda>x.
       lift_result (ok_or (Database ''Query returned no rows'') x))"

definition stored_version :: "(string \<Rightarrow> string) \<Rightarrow> resource \<Rightarrow> version_row" where
  "stored_version hex r =
     \<lparr>vw_id = as_str (res_id (rsc_reference r)), vw_revision = res_revision (rsc_reference r),
      vw_media = rsc_media_type r, vw_sha = hex (rsc_bytes r)\<rparr>"

definition archive_store :: "driver \<Rightarrow> (string \<Rightarrow> string) \<Rightarrow> resource \<Rightarrow> (resource, tables) archive" where
  "archive_store D hex r =
     and_then (in_archive (execute D (as_statement (insert_blob (hex (rsc_bytes r)) (rsc_bytes r))))) (\<lambda>_.
     and_then (in_archive (blob_bytes D (hex (rsc_bytes r)))) (\<lambda>bytes.
     if bytes \<noteq> rsc_bytes r
     then fail_with (StoreFailed (CorruptData ''resource blob conflicts with digest''))
     else
       and_then (in_archive (execute D (as_statement (insert_version (stored_version hex r))))) (\<lambda>_.
       and_then (in_archive (query D (\<lambda>_. ()))) (\<lambda>_. give r))))"

definition archive_put :: "driver \<Rightarrow> (string \<Rightarrow> string) \<Rightarrow> resource \<Rightarrow> (resource, tables) archive" where
  "archive_put D hex r =
     and_then (in_archive (query D (\<lambda>_. ()))) (\<lambda>_.
     and_then (unless_missing (archive_read D hex (rsc_reference r))) (\<lambda>existing.
       (case existing of
          Some x \<Rightarrow> lift_result (if x = r then Ok x else Err RevisionConflicts)
        | None \<Rightarrow> archive_store D hex r)))"

definition sqlite_put_resource ::
  "driver \<Rightarrow> (string \<Rightarrow> string) \<Rightarrow> resource \<Rightarrow> sqlite \<Rightarrow> (resource, resource_error) result \<times> sqlite" where
  "sqlite_put_resource D hex r c =
     (if blank (res_revision (rsc_reference r)) \<or> blank (rsc_media_type r) then (Err Invalid, c)
      else if cn_poisoned c then (Err ResourcesPoisoned, c)
      else
        (case archive_put D hex r (0, cn_tables c) of
           (Ok x, _, d) \<Rightarrow> (Ok x, c\<lparr>cn_tables := d\<rparr>)
         | (Err e, _) \<Rightarrow> (Err e, c)
         | (Panic, _) \<Rightarrow> (Panic, c\<lparr>cn_poisoned := True\<rparr>)))"

subsection \<open>What the archive holds\<close>

definition archived :: "(string \<Rightarrow> string) \<Rightarrow> tables \<Rightarrow> resource_ref \<rightharpoonup> resource" where
  "archived hex d r = Option.bind (archive_row r d) (\<lambda>x. ok_value (archive_decode hex r x))"

definition archive_ok :: "(string \<Rightarrow> string) \<Rightarrow> tables \<Rightarrow> bool" where
  "archive_ok hex d \<longleftrightarrow>
     distinct (map fst (tb_blobs d)) \<and> (\<forall>b \<in> set (tb_blobs d). fst b = hex (snd b)) \<and>
     distinct (map version_key (tb_versions d)) \<and>
     (\<forall>v \<in> set (tb_versions d). has_row fst (vw_sha v) (tb_blobs d))"

lemma archive_ok_migrated: "archive_ok hex (migrated epoch)"
  by (simp add: archive_ok_def migrated_def)

lemma archived_same: "tb_blobs d' = tb_blobs d \<Longrightarrow> tb_versions d' = tb_versions d \<Longrightarrow>
    archived hex d' = archived hex d \<and> archive_ok hex d' = archive_ok hex d"
  by (simp add: fun_eq_iff archived_def archive_row_def archive_ok_def)

text \<open>A version of the archive with its bytes.\<close>

lemma archive_version:
  assumes ok: "archive_ok hex d" and v: "row_by version_key (as_str (res_id r), res_revision r) (tb_versions d) = Some v"
  obtains bytes where "archive_row r d = Some (v, Some bytes)" "row_by fst (vw_sha v) (tb_blobs d) = Some (vw_sha v, bytes)"
    "hex bytes = vw_sha v"
    "archived hex d r = Some \<lparr>rsc_reference = r, rsc_media_type = vw_media v, rsc_bytes = bytes\<rparr>"
proof -
  have "has_row fst (vw_sha v) (tb_blobs d)" using ok row_by_Some [OF v] by (simp add: archive_ok_def)
  then obtain b where b: "row_by fst (vw_sha v) (tb_blobs d) = Some b" by (auto simp: has_row_iff)
  from row_by_Some [OF b] ok have h: "hex (snd b) = vw_sha v" "fst b = vw_sha v" by (auto simp: archive_ok_def)
  have "archive_row r d = Some (v, Some (snd b))" by (simp add: archive_row_def v b)
  then show thesis
    using h b by (intro that [of "snd b"]) (auto simp: archived_def archive_decode_def prod_eq_iff)
qed

lemma archive_read_cases:
  assumes ok: "archive_ok hex d"
  obtains e n' where "fault_of D e" "archive_read D hex r (n, d) = (Err (StoreFailed e), n', d)"
  | n' where "archive_read D hex r (n, d) = (ok_or Missing (archived hex d r), n', d)"
proof (cases "dv_fault D n")
  case (Some e)
  then show thesis
    using that(1) [of "database_error e"]
    by (fastforce simp: fault_of_def archive_read_def in_archive_def query_def driver_call_def)
next
  case None
  have "rbind (ok_or Missing (archive_row r d)) (archive_decode hex r) = ok_or Missing (archived hex d r)"
  proof (cases "row_by version_key (as_str (res_id r), res_revision r) (tb_versions d)")
    case None
    then show ?thesis by (simp add: archived_def archive_row_def)
  next
    case (Some v)
    show ?thesis
      by (rule archive_version [OF ok Some]) (simp add: archive_decode_def)
  qed
  then show thesis
    using None that(2) by (simp add: archive_read_def in_archive_def query_def driver_call_def operation_simps and_then_def)
qed

text \<open>Adding a version with its blob.\<close>

lemma version_key_stored: "version_key (stored_version hex r) = (as_str (res_id ref), res_revision ref) \<longleftrightarrow> rsc_reference r = ref"
  by (cases "rsc_reference r"; cases ref; cases "res_id (rsc_reference r)"; cases "res_id ref")
    (auto simp: version_key_def stored_version_def)

lemma insert_blob_effect:
  assumes ok: "archive_ok hex d" and ins: "insert_blob (hex bytes) bytes d = Some d1"
  shows "archive_ok hex d1" and "archived hex d1 = archived hex d" and "has_row fst (hex bytes) (tb_blobs d1)"
    and "tb_versions d1 = tb_versions d"
proof -
  have d1: "d1 = (if has_row fst (hex bytes) (tb_blobs d) then d else d\<lparr>tb_blobs := tb_blobs d @ [(hex bytes, bytes)]\<rparr>)"
    using ins by (simp add: insert_blob_def)
  show "archive_ok hex d1" using ok by (auto simp: d1 archive_ok_def has_row_def)
  show "has_row fst (hex bytes) (tb_blobs d1)" by (auto simp: d1 has_row_def)
  show "tb_versions d1 = tb_versions d" by (simp add: d1)
  show "archived hex d1 = archived hex d"
  proof
    fix r
    show "archived hex d1 r = archived hex d r"
    proof (cases "row_by version_key (as_str (res_id r), res_revision r) (tb_versions d)")
      case (Some v)
      show ?thesis
        by (rule archive_version [OF ok Some])
          (simp add: archived_def archive_row_def Some d1 row_by_append archive_decode_def)
    qed (simp add: archived_def archive_row_def d1)
  qed
qed

lemma insert_version_effect:
  assumes ok: "archive_ok hex d" and new: "archived hex d (rsc_reference r) = None"
    and blob: "row_by fst (hex (rsc_bytes r)) (tb_blobs d) = Some (hex (rsc_bytes r), rsc_bytes r)"
  shows "insert_version (stored_version hex r) d = Some (d\<lparr>tb_versions := tb_versions d @ [stored_version hex r]\<rparr>)"
    and "archive_ok hex (d\<lparr>tb_versions := tb_versions d @ [stored_version hex r]\<rparr>)"
    and "archived hex (d\<lparr>tb_versions := tb_versions d @ [stored_version hex r]\<rparr>) =
      (archived hex d)(rsc_reference r \<mapsto> r)"
proof -
  let ?v = "stored_version hex r"
  have absent: "row_by version_key (as_str (res_id (rsc_reference r)), res_revision (rsc_reference r)) (tb_versions d) = None"
    using archive_version [OF ok] new by (metis option.distinct(1) option.exhaust)
  have fresh: "\<not> has_row version_key (version_key ?v) (tb_versions d)"
    using absent by (simp add: has_row_iff version_key_stored [THEN iffD2, OF HOL.refl])
  have here: "has_row fst (vw_sha ?v) (tb_blobs d)" using blob by (simp add: has_row_iff stored_version_def)
  show "insert_version ?v d = Some (d\<lparr>tb_versions := tb_versions d @ [?v]\<rparr>)"
    using fresh here by (simp add: insert_version_def)
  show "archive_ok hex (d\<lparr>tb_versions := tb_versions d @ [?v]\<rparr>)"
    using ok fresh here by (auto simp: archive_ok_def has_row_def)
  show "archived hex (d\<lparr>tb_versions := tb_versions d @ [?v]\<rparr>) = (archived hex d)(rsc_reference r \<mapsto> r)"
  proof
    fix ref
    show "archived hex (d\<lparr>tb_versions := tb_versions d @ [?v]\<rparr>) ref = ((archived hex d)(rsc_reference r \<mapsto> r)) ref"
    proof (cases "ref = rsc_reference r")
      case True
      have "row_by version_key (as_str (res_id ref), res_revision ref) (tb_versions d @ [?v]) = Some ?v"
        using absent version_key_stored [of hex r ref] unfolding True by (simp add: row_by_append)
      then show ?thesis
        using blob unfolding True
        by (simp add: archived_def archive_row_def archive_decode_def stored_version_def)
    next
      case False
      then have "row_by version_key (as_str (res_id ref), res_revision ref) (tb_versions d @ [?v]) =
          row_by version_key (as_str (res_id ref), res_revision ref) (tb_versions d)"
        using version_key_stored [of hex r ref] by (simp add: row_by_append split: option.splits)
      then show ?thesis using False by (simp add: archived_def archive_row_def)
    qed
  qed
qed

lemma in_archive_and_then:
  "and_then (in_archive m) f st =
     (case m st of (Ok x, st) \<Rightarrow> f x st | (Err e, st) \<Rightarrow> (Err (StoreFailed e), st) | (Panic, st) \<Rightarrow> (Panic, st))"
  by (cases "m st"; cases "fst (m st)") (auto simp: and_then_def in_archive_def)

lemma call_then:
  "and_then (driver_call D q) f (n, d) =
     (case dv_fault D n of
        Some e \<Rightarrow> (Err (database_error e), Suc n, d)
      | None \<Rightarrow> and_then q f (Suc n, d))"
  by (simp add: and_then_def driver_call_def split: option.splits)

lemma call_cases:
  obtains e where "dv_fault D n = Some e" | "dv_fault D n = None"
  by (cases "dv_fault D n") auto

text \<open>What a put does to the tables, if it answers a resource; it never panics.\<close>

definition put_effect :: "(string \<Rightarrow> string) \<Rightarrow> resource \<Rightarrow> tables \<Rightarrow> (resource, resource_error) result \<Rightarrow> tables \<Rightarrow> bool" where
  "put_effect hex r d x d' \<longleftrightarrow>
     x \<noteq> Panic \<and>
     (\<forall>y. x = Ok y \<longrightarrow> y = r \<and> archive_ok hex d' \<and> archived hex d (rsc_reference r) \<in> {None, Some r} \<and>
        archived hex d' = (archived hex d)(rsc_reference r \<mapsto> r))"

lemma put_effect_Err: "put_effect hex r d (Err e) d'"
  by (simp add: put_effect_def)

lemma put_new_effect:
  assumes ok: "archive_ok hex d" and new: "archived hex d (rsc_reference r) = None"
  shows "put_effect hex r d (fst (archive_store D hex r (n, d))) (snd (snd (archive_store D hex r (n, d))))"
proof (cases "\<exists>e. fst (archive_store D hex r (n, d)) = Err e")
  case True
  then show ?thesis by (auto simp: put_effect_Err)
next
  case False
  obtain d1 where d1: "insert_blob (hex (rsc_bytes r)) (rsc_bytes r) d = Some d1" by (simp add: insert_blob_def)
  note E = insert_blob_effect [OF ok d1]
  obtain bytes where b: "row_by fst (hex (rsc_bytes r)) (tb_blobs d1) = Some (hex (rsc_bytes r), bytes)"
    using E(3) row_by_Some by (fastforce simp: has_row_iff)
  note exec = in_archive_and_then execute_def driver_call_def as_statement_def d1 blob_bytes_def query_def b call_then
    operation_simps
  have n0: "dv_fault D n = None"
    using False unfolding archive_store_def by (rule_tac call_cases [of D n]) (auto simp: exec)
  have n1: "dv_fault D (Suc n) = None"
    using False unfolding archive_store_def by (rule_tac call_cases [of D "Suc n"]) (auto simp: exec n0)
  have same: "bytes = rsc_bytes r"
    using False unfolding archive_store_def by (rule_tac ccontr) (auto simp: exec n0 n1)
  note V = insert_version_effect [OF E(1) _ b [unfolded same]]
  have n2: "dv_fault D (Suc (Suc n)) = None"
    using False unfolding archive_store_def
    by (rule_tac call_cases [of D "Suc (Suc n)"]) (auto simp: exec n0 n1 same)
  have n3: "dv_fault D (Suc (Suc (Suc n))) = None"
    using False unfolding archive_store_def
    by (rule_tac call_cases [of D "Suc (Suc (Suc n))"]) (auto simp: exec n0 n1 n2 same V(1) E(2) new)
  show ?thesis
    using V(2,3) new unfolding archive_store_def by (simp add: exec n0 n1 n2 n3 same V(1) E(2) put_effect_def)
qed

lemma archive_put_effect:
  assumes ok: "archive_ok hex d"
  shows "put_effect hex r d (fst (archive_put D hex r (0, d))) (snd (snd (archive_put D hex r (0, d))))"
proof (cases "dv_fault D 0")
  case (Some e)
  then show ?thesis
    by (simp add: archive_put_def in_archive_and_then query_def driver_call_def put_effect_Err)
next
  case None
  have start: "archive_put D hex r (0, d) =
      and_then (unless_missing (archive_read D hex (rsc_reference r))) (\<lambda>existing.
       (case existing of
          Some x \<Rightarrow> lift_result (if x = r then Ok x else Err RevisionConflicts)
        | None \<Rightarrow> archive_store D hex r)) (1, d)"
    by (simp add: archive_put_def in_archive_and_then query_def driver_call_def None)
  show ?thesis
  proof (cases rule: archive_read_cases [OF ok, of D "rsc_reference r" 1])
    case (1 e n')
    then show ?thesis by (simp add: start and_then_def unless_missing_def put_effect_Err)
  next
    case (2 n')
    show ?thesis
    proof (cases "archived hex d (rsc_reference r)")
      case None
      from put_new_effect [OF ok None] show ?thesis using 2 None
        by (simp add: start and_then_def [of "unless_missing _"] unless_missing_def)
    next
      case (Some x)
      then show ?thesis using 2 ok
        by (auto simp: start and_then_def [of "unless_missing _"] unless_missing_def operation_simps put_effect_def)
    qed
  qed
qed

lemma sqlite_put_cases:
  assumes ok: "archive_ok hex (cn_tables c)"
  obtains e where "sqlite_put_resource D hex r c = (Err e, c)"
  | d' where "sqlite_put_resource D hex r c = (Ok r, c\<lparr>cn_tables := d'\<rparr>)" "archive_ok hex d'"
    "archived hex (cn_tables c) (rsc_reference r) \<in> {None, Some r}"
    "archived hex d' = (archived hex (cn_tables c))(rsc_reference r \<mapsto> r)"
    "\<not> cn_poisoned c" "\<not> blank (res_revision (rsc_reference r))"
proof -
  obtain x n d' where out: "archive_put D hex r (0, cn_tables c) = (x, n, d')" by (rule prod_cases3)
  have eff: "put_effect hex r (cn_tables c) x d'" using archive_put_effect [OF ok, of r D] by (simp add: out)
  consider "blank (res_revision (rsc_reference r)) \<or> blank (rsc_media_type r)"
    | "\<not> (blank (res_revision (rsc_reference r)) \<or> blank (rsc_media_type r))" "cn_poisoned c"
    | "\<not> (blank (res_revision (rsc_reference r)) \<or> blank (rsc_media_type r))" "\<not> cn_poisoned c" by blast
  then show thesis
  proof cases
    case 1
    then show ?thesis by (intro that(1) [of Invalid]) (simp add: sqlite_put_resource_def)
  next
    case 2
    then show ?thesis by (intro that(1) [of ResourcesPoisoned]) (simp add: sqlite_put_resource_def)
  next
    case 3
    then show ?thesis
      using eff that(1) [of "case x of Err e \<Rightarrow> e | _ \<Rightarrow> Invalid"] that(2) [of d']
      by (cases x) (auto simp: sqlite_put_resource_def put_effect_def out)
  qed
qed

lemma sqlite_get_cases:
  assumes ok: "archive_ok hex (cn_tables c)" and free: "\<not> cn_poisoned c" and rev: "\<not> blank (res_revision r)"
  shows "sqlite_get_resource D hex r c = ok_or Missing (archived hex (cn_tables c) r) \<or>
    (\<exists>e. fault_of D e \<and> sqlite_get_resource D hex r c = Err (StoreFailed e))"
  by (rule archive_read_cases [OF ok, of D r 0]) (use free rev in \<open>auto simp: sqlite_get_resource_def\<close>)

subsection \<open>The archive contract\<close>

text \<open>A driver whose calls succeed.\<close>

definition reliable :: driver where
  "reliable = \<lparr>dv_fault = (\<lambda>_. None), dv_violation = \<lparr>se_code = None, se_text = ''''\<rparr>\<rparr>"

definition archive_inv :: "(string \<Rightarrow> string) \<Rightarrow> sqlite \<Rightarrow> bool" where
  "archive_inv hex c \<longleftrightarrow> archive_ok hex (cn_tables c) \<and> \<not> cn_poisoned c"

lemma reliable_get:
  assumes "archive_inv hex c"
  shows "sqlite_get_resource reliable hex r c =
    (if blank (res_revision r) then Err Invalid else ok_or Missing (archived hex (cn_tables c) r))"
proof (cases "blank (res_revision r)")
  case False
  have "\<not> fault_of reliable e" for e by (simp add: fault_of_def reliable_def)
  then show ?thesis
    using sqlite_get_cases [OF _ _ False, of hex c reliable] assms False by (auto simp: archive_inv_def)
qed (simp add: sqlite_get_resource_def)

lemma ok_value_Some: "ok_value r = Some x \<longleftrightarrow> r = Ok x"
  by (cases r) simp_all

lemma archived_reference: "archived hex d r = Some x \<Longrightarrow> rsc_reference x = r"
  by (auto simp: archived_def archive_decode_def ok_value_Some bind_eq_Some_conv rbind_eq_Ok split: if_splits)

interpretation sqlarch: resource_archive "sqlite_put_resource D hex" "sqlite_get_resource reliable hex" "archive_inv hex"
  for D hex
proof
  fix s r x s' ref
  assume inv: "archive_inv hex s"
  then have ok: "archive_ok hex (cn_tables s)" and free: "\<not> cn_poisoned s" by (simp_all add: archive_inv_def)
  show "archive_inv hex (snd (sqlite_put_resource D hex r s))"
    by (rule sqlite_put_cases [OF ok, of D r]) (use ok free in \<open>simp_all add: archive_inv_def\<close>)
  then show "sqlite_put_resource D hex r s = (Ok x, s') \<Longrightarrow>
      x = r \<and> sqlite_get_resource reliable hex (rsc_reference r) s' = Ok r"
    by (rule_tac sqlite_put_cases [OF ok, of D r]) (auto simp: reliable_get)
  show "sqlite_get_resource reliable hex ref s = Ok x \<Longrightarrow> rsc_reference x = ref"
    by (auto simp: reliable_get [OF inv] archived_reference split: if_splits)
  assume get: "sqlite_get_resource reliable hex ref s = Ok x"
  show "sqlite_get_resource reliable hex ref (snd (sqlite_put_resource D hex r s)) = Ok x"
  proof (rule sqlite_put_cases [OF ok, of D r])
    fix e assume "sqlite_put_resource D hex r s = (Err e, s)"
    then show ?thesis using get by simp
  next
    fix d' assume put: "sqlite_put_resource D hex r s = (Ok r, s\<lparr>cn_tables := d'\<rparr>)" "archive_ok hex d'"
      "archived hex (cn_tables s) (rsc_reference r) \<in> {None, Some r}"
      "archived hex d' = (archived hex (cn_tables s))(rsc_reference r \<mapsto> r)"
    then have "archive_inv hex (s\<lparr>cn_tables := d'\<rparr>)" using free by (simp add: archive_inv_def)
    then show ?thesis using get put by (auto simp: reliable_get inv split: if_splits)
  qed
qed

subsection \<open>The other tables\<close>

named_theorems archive_intros \<open>rules for operations that leave the archive alone\<close>

definition leaves_archive :: "('a, tables) sql \<Rightarrow> bool" where
  "leaves_archive m \<longleftrightarrow>
     (\<forall>st. tb_blobs (snd (snd (m st))) = tb_blobs (snd st) \<and> tb_versions (snd (snd (m st))) = tb_versions (snd st))"

lemma leaves_reads: "reads_only m \<Longrightarrow> leaves_archive m"
  by (simp add: leaves_archive_def reads_only_def)

lemma leaves_and_then [archive_intros]:
  "leaves_archive m \<Longrightarrow> (\<And>x. leaves_archive (f x)) \<Longrightarrow> leaves_archive (and_then m f)"
  unfolding leaves_archive_def and_then_def by (auto split: prod.splits result.splits) (metis snd_conv)+

lemma leaves_execute:
  assumes "\<And>d x d'. f d = Some (x, d') \<Longrightarrow> tb_blobs d' = tb_blobs d \<and> tb_versions d' = tb_versions d"
  shows "leaves_archive (execute D f)"
  using assms by (auto simp: leaves_archive_def execute_def driver_call_def split: option.splits prod.splits)

lemma leaves_statement [archive_intros]:
  "leaves_archive (execute D (as_statement (insert_session i)))"
  "leaves_archive (execute D (as_statement (insert_run r)))"
  "leaves_archive (execute D (as_statement (insert_record row)))"
  "leaves_archive (execute D (as_statement (bump_session i)))"
  "leaves_archive (execute D (as_statement (insert_decision i j)))"
  "leaves_archive (execute D (as_statement (insert_continuation k)))"
  "leaves_archive (execute D (as_statement (demote_row i)))"
  "leaves_archive (execute D (as_statement (claim_row i)))"
  "leaves_archive (execute D (as_statement (insert_relation e)))"
  "leaves_archive (execute D (update_record i expected payload state revision initial))"
  by (rule leaves_execute,
      auto simp: insert_session_def insert_run_def insert_record_def insert_change_def bump_session_def
        insert_decision_def insert_continuation_def demote_row_def claim_row_def insert_relation_def
        update_record_def move_change_def Let_def split: if_splits option.splits)+

lemma leaves_if [archive_intros]:
  "(b \<Longrightarrow> leaves_archive m) \<Longrightarrow> (\<not> b \<Longrightarrow> leaves_archive n) \<Longrightarrow> leaves_archive (if b then m else n)"
  by simp

lemma leaves_option [archive_intros]:
  "leaves_archive m \<Longrightarrow> (\<And>a. leaves_archive (f a)) \<Longrightarrow> leaves_archive (case x of None \<Rightarrow> m | Some a \<Rightarrow> f a)"
  by (cases x) simp_all

lemma reads_only_rows [reads_intros]:
  "reads_only (sql_session_sequence D s)" "reads_only (sql_entry D K i)" "reads_only (sql_read_run D K j)"
  "reads_only (sql_read_continuation D K k)"
  by (auto simp: sql_session_sequence_def sql_entry_def sql_read_run_def sql_read_continuation_def intro!: reads_intros)

lemma reads_only_context_final [reads_intros]: "reads_only (sql_context_final D K is)"
  by (induction "is") (auto intro!: reads_intros split: if_split)

lemma reads_only_descendants [reads_intros]: "reads_only (sql_descendants_fit D K e ss)"
  by (induction ss) (auto intro!: reads_intros split: if_split)

lemma reads_only_context_in_session [reads_intros]: "reads_only (sql_context_in_session D K s is)"
  by (induction "is") (auto intro!: reads_intros split: if_split)

lemma reads_only_ancestors [reads_intros]: "reads_only (sql_ancestors D K child a visited)"
  unfolding reads_only_def
proof (rule allI)
  fix st
  show "snd (snd (sql_ancestors D K child a visited st)) = snd st"
  proof (induction D K child a visited st rule: sql_ancestors.induct)
    case (1 D K child a visited st)
    show ?case
      using 1 reads_onlyD [OF sql_read_relation_reads, of D K a st]
      by (subst sql_ancestors.simps) (auto split: prod.splits result.splits option.splits)
  qed
qed

lemmas leaves_reading [archive_intros] =
  reads_intros(1-4) [THEN leaves_reads] reads_only_fetch [THEN leaves_reads]
  reads_only_rows [THEN leaves_reads] sql_read_relation_reads [THEN leaves_reads]
  reads_only_context_final [THEN leaves_reads] reads_only_descendants [THEN leaves_reads]
  reads_only_context_in_session [THEN leaves_reads] reads_only_ancestors [THEN leaves_reads]

lemma leaves_parts [archive_intros]:
  "leaves_archive (sql_prepare D K d)" "leaves_archive (sql_insert_row D K x)" "leaves_archive (sql_update_row D K x y)"
  "leaves_archive (sql_previous D K k)"
  "leaves_archive (sql_continuation_usable D K spec (sql_read_continuation D K))"
  unfolding sql_prepare_def sql_insert_row_def sql_update_row_def sql_previous_def sql_continuation_usable_def
  by (intro archive_intros)+

lemma leaves_operations [archive_intros]:
  "leaves_archive (sql_register_run D K spec)" "leaves_archive (sql_insert D K d)"
  "leaves_archive (sql_checkpoint D K i n p s)" "leaves_archive (sql_resolve D K i n d)"
  "leaves_archive (sql_link_execution D K e)" "leaves_archive (sql_save_continuation D K k)"
  "leaves_archive (sql_claim_continuation D K j)"
  unfolding sql_register_run_def sql_insert_def sql_checkpoint_def sql_resolve_def sql_link_execution_def
    sql_save_continuation_def sql_claim_continuation_def
  by (intro archive_intros reads_intros)+

lemma leaves_write:
  assumes "leaves_archive m"
  shows "tb_blobs (cn_tables (snd (sqlite_write D m c))) = tb_blobs (cn_tables c) \<and>
    tb_versions (cn_tables (snd (sqlite_write D m c))) = tb_versions (cn_tables c)"
proof -
  have "leaves_archive (transaction D m)"
    unfolding transaction_def by (intro archive_intros assms)
  then have "tb_blobs (snd (snd (transaction D m (0, cn_tables c)))) = tb_blobs (cn_tables c)"
      "tb_versions (snd (snd (transaction D m (0, cn_tables c)))) = tb_versions (cn_tables c)"
    by (simp_all add: leaves_archive_def)
  then show ?thesis by (auto simp: sqlite_write_def split: prod.splits result.splits)
qed

lemma answered_state: "snd (answer_with f out) = snd out"
  by (simp add: answer_with_def)

lemma call_leaves_archive:
  "tb_blobs (cn_tables (snd (sqlite_call D K call c))) = tb_blobs (cn_tables c) \<and>
   tb_versions (cn_tables (snd (sqlite_call D K call c))) = tb_versions (cn_tables c)"
proof (cases call)
  case (RecordCall oper)
  then show ?thesis
    by (cases oper) (simp_all add: sqlite_call_def answered_state sqlite_create_session_def sqlite_register_run_def
        sqlite_insert_def sqlite_checkpoint_def sqlite_resolve_def leaves_write archive_intros)
qed (simp_all add: sqlite_call_def answered_state sqlite_link_execution_def sqlite_save_continuation_def
    sqlite_claim_continuation_def leaves_write archive_intros)

subsection \<open>Immutable revisions next to the other tables\<close>

text \<open>A client of the database that archives resources and calls the stores, with faults at will.\<close>

datatype 'v archive_call = PutCall resource | OnStore "'v store_call"

fun archive_run ::
  "'v formats \<Rightarrow> (string \<Rightarrow> string) \<Rightarrow> (driver \<times> 'v archive_call) list \<Rightarrow> sqlite \<Rightarrow> sqlite" where
  "archive_run K hex [] c = c"
| "archive_run K hex ((D, PutCall r) # calls) c =
     archive_run K hex calls (snd (sqlite_put_resource D hex r c))"
| "archive_run K hex ((D, OnStore call) # calls) c =
     archive_run K hex calls (snd (sqlite_call D K call c))"

lemma archive_run_keeps:
  assumes "archive_ok hex (cn_tables c)"
  shows "archive_ok hex (cn_tables (archive_run K hex calls c)) \<and>
    archived hex (cn_tables c) \<subseteq>\<^sub>m archived hex (cn_tables (archive_run K hex calls c))"
  using assms
proof (induction K hex calls c rule: archive_run.induct)
  case (2 K hex D r calls c)
  show ?case
  proof (rule sqlite_put_cases [OF "2.prems", of D r])
    fix e assume "sqlite_put_resource D hex r c = (Err e, c)"
    then show ?thesis using 2 by simp
  next
    fix d' assume put: "sqlite_put_resource D hex r c = (Ok r, c\<lparr>cn_tables := d'\<rparr>)" "archive_ok hex d'"
      "archived hex (cn_tables c) (rsc_reference r) \<in> {None, Some r}"
      "archived hex d' = (archived hex (cn_tables c))(rsc_reference r \<mapsto> r)"
    then have le: "archived hex (cn_tables c) \<subseteq>\<^sub>m archived hex d'" by (auto simp: map_le_def)
    have "archive_ok hex (cn_tables (archive_run K hex calls (c\<lparr>cn_tables := d'\<rparr>))) \<and>
        archived hex d' \<subseteq>\<^sub>m archived hex (cn_tables (archive_run K hex calls (c\<lparr>cn_tables := d'\<rparr>)))"
      using "2.IH" put(1,2) by simp
    then show ?thesis using map_le_trans [OF le] put(1) by simp
  qed
next
  case (3 K hex D call calls c)
  have "archived hex (cn_tables (snd (sqlite_call D K call c))) = archived hex (cn_tables c) \<and>
      archive_ok hex (cn_tables (snd (sqlite_call D K call c))) = archive_ok hex (cn_tables c)"
    using call_leaves_archive [of D K call c] by (intro archived_same) simp_all
  then show ?case using 3 by simp
qed simp

text \<open>
  C28: A resource revision in SQLite is immutable and intact. After a put has succeeded on any
  database that puts and store calls have produced, with faults of the driver at any of their
  statements, reading that exact reference later never answers anything but the put resource,
  byte for byte, or an error of the driver or of the lock: no later put or store call replaces
  it, no digest mismatch and no missing blob occurs. This holds for every digest function; a
  collision is refused by the put instead.
\<close>

theorem sqlite_archive_immutable:
  assumes "sqlite_put_resource D hex r (archive_run K hex before (fresh_sqlite epoch)) = (Ok x, c)"
  shows "x = r \<and>
    (sqlite_get_resource D' hex (rsc_reference r) (archive_run K hex later c) \<in> {Ok r, Err ResourcesPoisoned} \<or>
     (\<exists>e. fault_of D' e \<and>
        sqlite_get_resource D' hex (rsc_reference r) (archive_run K hex later c) = Err (StoreFailed e)))"
proof -
  let ?c0 = "archive_run K hex before (fresh_sqlite epoch)" and ?c1 = "archive_run K hex later c"
  have ok: "archive_ok hex (cn_tables ?c0)"
    using archive_run_keeps [of hex "fresh_sqlite epoch" K before] archive_ok_migrated by (simp add: fresh_sqlite_def)
  have c: "x = r" "archive_ok hex (cn_tables c)" "archived hex (cn_tables c) (rsc_reference r) = Some r"
      "\<not> blank (res_revision (rsc_reference r))"
    by (rule sqlite_put_cases [OF ok, of D r]; use assms in simp)+
  have "archived hex (cn_tables ?c1) (rsc_reference r) = Some r" "archive_ok hex (cn_tables ?c1)"
    using archive_run_keeps [OF c(2), of K later] c(3) by (auto simp: map_le_def dom_def)
  then show ?thesis
    using sqlite_get_cases [of hex ?c1 "rsc_reference r" D'] c(1,4)
    by (cases "cn_poisoned ?c1") (auto simp: sqlite_get_resource_def)
qed

theorem sqlite_archive_immutable_witness:
  "\<exists>c. sqlite_put_resource reliable (\<lambda>_. ''h'') (sample_resource ''x'') (fresh_sqlite ''e'') = (Ok (sample_resource ''x''), c) \<and>
     sqlite_get_resource reliable (\<lambda>_. ''h'') (rsc_reference (sample_resource ''x''))
       (archive_run sample_formats (\<lambda>_. ''h'') [(reliable, PutCall (sample_resource ''other''))] c) \<in>
     {Ok (sample_resource ''x''), Err ResourcesPoisoned}"
proof -
  let ?c = "snd (sqlite_put_resource reliable (\<lambda>_. ''h'') (sample_resource ''x'') (fresh_sqlite ''e''))"
  have put: "sqlite_put_resource reliable (\<lambda>_. ''h'') (sample_resource ''x'')
      (archive_run sample_formats (\<lambda>_. ''h'') [] (fresh_sqlite ''e'')) = (Ok (sample_resource ''x''), ?c)"
    by (simp add: sqlite_put_resource_def archive_put_def archive_store_def in_archive_and_then query_def execute_def
        driver_call_def call_then blob_bytes_def operation_simps reliable_def unless_missing_def archive_read_def
        archive_row_def as_statement_def insert_blob_def insert_version_def has_row_def row_by_def fresh_sqlite_def
        migrated_def and_then_def in_archive_def sample_resource_def sample_resource_not_blank stored_version_def)
  have "\<not> fault_of reliable e" for e by (simp add: fault_of_def reliable_def)
  with sqlite_archive_immutable [OF put, of reliable "[(reliable, PutCall (sample_resource ''other''))]"] put
  show ?thesis by auto
qed

end
