(* ===== verification/Sqlite_Recovery.thy ===== *)
theory Sqlite_Recovery imports Sqlite_Props Json begin

section \<open>The recovery inventory (src/records/sqlite/recovery.rs)\<close>

text \<open>
  What a host reads after a restart: pages of the identifiers of sessions, runs, interactions
  and continuations, with the evidence the records hold about each run. Text columns compare
  bytewise, as SQLite's default collation does. \<open>extract\<close> stands for SQLite's \<open>json_extract\<close>.
\<close>

record run_recovery =
  rv_id :: run_id
  rv_session :: session_id
  rv_slot :: slot_id
  rv_dispatch :: string
  rv_completion :: "completion_reason option"
  rv_issues :: "string list"

record interaction_recovery =
  iv_id :: record_id
  iv_session :: session_id
  iv_run :: "run_id option"
  iv_kind :: string
  iv_state :: record_state
  iv_source :: "source_ref option"

definition discovery_limit :: "nat \<Rightarrow> (nat, store_error) result" where
  "discovery_limit n =
     (if \<not> (1 \<le> n \<and> n \<le> 1000) then Err (CorruptData ''discovery limit must be 1..=1000'') else Ok n)"

text \<open>\<open>WHERE (?1 IS NULL OR id > ?1) ORDER BY id LIMIT ?2\<close>\<close>

definition key_page :: "('r \<Rightarrow> string) \<Rightarrow> string option \<Rightarrow> nat \<Rightarrow> 'r list \<Rightarrow> 'r list" where
  "key_page key after n rows =
     take n (sort_key key (filter (\<lambda>r. case after of None \<Rightarrow> True | Some a \<Rightarrow> a < key r) rows))"

text \<open>Preparing the query, checking the limit, running it.\<close>

definition sql_page :: "driver \<Rightarrow> ('r \<Rightarrow> string) \<Rightarrow> string option \<Rightarrow> nat \<Rightarrow> (tables \<Rightarrow> 'r list) \<Rightarrow> ('r list, tables) sql" where
  "sql_page D key after count rows =
     and_then (query D (\<lambda>_. ())) (\<lambda>_.
     and_then (lift_result (discovery_limit count)) (\<lambda>n.
       query D (\<lambda>d. key_page key after n (rows d))))"

definition sqlite_discover_sessions ::
  "driver \<Rightarrow> string option \<Rightarrow> nat \<Rightarrow> sqlite \<Rightarrow> (session_id list, store_error) result" where
  "sqlite_discover_sessions D after count =
     sqlite_read
       (and_then (sql_page D (\<lambda>s. s) after count (\<lambda>d. map sw_id (tb_sessions d))) (\<lambda>ids.
         fetch_rows D (\<lambda>s. lift_result (column_id s)) ids))"

definition sqlite_discover_continuations ::
  "driver \<Rightarrow> 'v formats \<Rightarrow> string option \<Rightarrow> nat \<Rightarrow> sqlite \<Rightarrow> ('v continuation_record list, store_error) result" where
  "sqlite_discover_continuations D K after count =
     sqlite_read
       (and_then (query D (\<lambda>_. ())) (\<lambda>_.
        and_then (sql_page D (\<lambda>s. s) after count (\<lambda>d. map cw_id (tb_continuations d))) (\<lambda>ids.
         fetch_rows D (\<lambda>s.
           and_then (lift_result (column_id s)) (\<lambda>i.
           and_then (sql_read_continuation D K i) (\<lambda>x. lift_result (ok_or MissingContinuation x)))) ids)))"

subsection \<open>Runs\<close>

record run_scan =
  rc_dispatch :: string
  rc_completion :: "completion_reason option"
  rc_open :: bool
  rc_failure :: bool
  rc_contract :: bool
  rc_validation :: bool

definition scan_start :: run_scan where
  "scan_start = \<lparr>rc_dispatch = ''missing_evidence'', rc_completion = None, rc_open = False, rc_failure = False,
     rc_contract = False, rc_validation = False\<rparr>"

definition scan_dispatch :: "'v json \<Rightarrow> 'v \<Rightarrow> run_scan \<Rightarrow> (run_scan, store_error) result" where
  "scan_dispatch J data s =
     (case (j_as_u64 J (j_index J data ''version''), j_as_str J (j_index J data ''state'')) of
        (Some version, Some state) \<Rightarrow>
          if version = 1 \<and> state = ''prepared''
          then Ok (if rc_dispatch s = ''missing_evidence'' then s\<lparr>rc_dispatch := ''not_dispatched''\<rparr> else s)
          else if version = 1 \<and> state = ''dispatch_attempted'' then Ok (s\<lparr>rc_dispatch := ''attempted''\<rparr>)
          else Err (CorruptData ''unsupported run dispatch evidence; inspect raw history'')
      | _ \<Rightarrow> Err (CorruptData ''unsupported run dispatch evidence; inspect raw history''))"

definition settled_validation :: "'v json \<Rightarrow> 'v \<Rightarrow> bool" where
  "settled_validation J data \<longleftrightarrow>
     j_as_u64 J (j_index J data ''version'') = Some 1 \<and>
     j_as_str J (j_index J (j_index J data ''validation'') ''status'') \<in> {Some ''valid'', Some ''rejected''}"

definition scan_payload :: "'v json \<Rightarrow> 'v payload \<Rightarrow> run_scan \<Rightarrow> (run_scan, store_error) result" where
  "scan_payload J p s =
     (case p of
        PRunFinished reason \<Rightarrow> Ok (s\<lparr>rc_completion := Some reason\<rparr>)
      | PFailure _ \<Rightarrow> Ok (s\<lparr>rc_failure := True\<rparr>)
      | PExtension namespace name data \<Rightarrow>
          if namespace \<noteq> ''agent_bridge'' then Ok s
          else if name = ''run_dispatch'' then scan_dispatch J data s
          else if name = ''result_contract'' then Ok (s\<lparr>rc_contract := True\<rparr>)
          else if name = ''result_validation'' \<and> settled_validation J data then Ok (s\<lparr>rc_validation := True\<rparr>)
          else Ok s
      | _ \<Rightarrow> Ok s)"

definition scan_row :: "'v formats \<Rightarrow> 'v json \<Rightarrow> string \<times> string \<Rightarrow> run_scan \<Rightarrow> (run_scan, store_error) result" where
  "scan_row K J r s =
     rbind (codec_decode (fm_parse K) (fm_payload K) (fst r)) (\<lambda>p.
     rbind (parse_state (snd r)) (\<lambda>state.
       scan_payload J p (s\<lparr>rc_open := rc_open s \<or> state = Open\<rparr>)))"

fun scan_rows ::
  "driver \<Rightarrow> 'v formats \<Rightarrow> 'v json \<Rightarrow> (string \<times> string) list \<Rightarrow> run_scan \<Rightarrow> (run_scan, tables) sql" where
  "scan_rows D K J [] s = and_then (query D (\<lambda>_. ())) (\<lambda>_. give s)"
| "scan_rows D K J (r # rs) s =
     and_then (query D (\<lambda>_. ())) (\<lambda>_.
     and_then (lift_result (scan_row K J r s)) (scan_rows D K J rs))"

text \<open>\<open>SELECT payload_json, state ... WHERE run_id = ?1 ORDER BY sequence\<close>\<close>

definition run_rows :: "string \<Rightarrow> tables \<Rightarrow> (string \<times> string) list" where
  "run_rows i d =
     map (\<lambda>r. (rw_payload r, rw_state r))
       (sort_key rw_sequence (filter (\<lambda>r. rw_run r = Some i) (tb_records d)))"

definition scan_issues :: "run_scan \<Rightarrow> string list" where
  "scan_issues s =
     (if rc_completion s = None then [''completion_unknown''] else []) @
     (if rc_open s then [''open_records''] else []) @
     (if rc_failure s then [''recorded_failure''] else []) @
     (if rc_contract s \<and> \<not> rc_validation s then [''validation_missing''] else [])"

definition run_report :: "run_id \<Rightarrow> spec \<Rightarrow> run_scan \<Rightarrow> run_recovery" where
  "run_report i spec s =
     \<lparr>rv_id = i, rv_session = rs_session spec, rv_slot = rs_slot spec, rv_dispatch = rc_dispatch s,
      rv_completion = rc_completion s, rv_issues = scan_issues s\<rparr>"

definition sql_discover_run :: "driver \<Rightarrow> 'v formats \<Rightarrow> 'v json \<Rightarrow> string \<Rightarrow> (run_recovery, tables) sql" where
  "sql_discover_run D K J text =
     and_then (lift_result (column_id text)) (\<lambda>i.
     and_then (sql_read_run D K i) (\<lambda>x.
     and_then (lift_result (ok_or MissingRun x)) (\<lambda>spec.
     and_then (query D (\<lambda>_. ())) (\<lambda>_.
     and_then (query D (run_rows (as_str i))) (\<lambda>rows.
     and_then (scan_rows D K J rows scan_start) (\<lambda>s.
       give (run_report i spec s)))))))"

definition sqlite_discover_runs ::
  "driver \<Rightarrow> 'v formats \<Rightarrow> 'v json \<Rightarrow> string option \<Rightarrow> nat \<Rightarrow> sqlite \<Rightarrow> (run_recovery list, store_error) result" where
  "sqlite_discover_runs D K J after count =
     sqlite_read
       (and_then (query D (\<lambda>_. ())) (\<lambda>_.
        and_then (sql_page D (\<lambda>s. s) after count (\<lambda>d. map nw_id (tb_runs d))) (\<lambda>ids.
          fetch_rows D (sql_discover_run D K J) ids)))"

subsection \<open>Interactions\<close>

text \<open>SQL values; a comparison with \<open>NULL\<close> does not hold.\<close>

datatype sql_value = SqlNull | SqlInt int | SqlText string

definition sql_same :: "sql_value \<Rightarrow> sql_value \<Rightarrow> bool" where
  "sql_same a b \<longleftrightarrow> a = b \<and> a \<noteq> SqlNull"

definition tool_evidence :: "(string \<Rightarrow> string \<Rightarrow> sql_value) \<Rightarrow> string \<Rightarrow> bool" where
  "tool_evidence extract doc \<longleftrightarrow>
     extract doc ''$.data.data.namespace'' = SqlText ''agent_bridge'' \<and>
     extract doc ''$.data.data.name'' = SqlText ''tool_invocation''"

text \<open>The receipt of a returned invocation, in the same session.\<close>

definition outcome_of :: "(string \<Rightarrow> string \<Rightarrow> sql_value) \<Rightarrow> record_row \<Rightarrow> record_row \<Rightarrow> bool" where
  "outcome_of extract r outcome \<longleftrightarrow>
     rw_session outcome = rw_session r \<and> tool_evidence extract (rw_payload outcome) \<and>
     extract (rw_payload outcome) ''$.data.data.data.version'' = SqlInt 1 \<and>
     sql_same (extract (rw_payload outcome) ''$.data.data.data.invocation_id'')
       (extract (rw_payload r) ''$.data.data.data.invocation_id'') \<and>
     extract (rw_payload outcome) ''$.data.data.data.state'' = SqlText ''returned''"

definition unsettled_row :: "(string \<Rightarrow> string \<Rightarrow> sql_value) \<Rightarrow> tables \<Rightarrow> record_row \<Rightarrow> bool" where
  "unsettled_row extract d r \<longleftrightarrow>
     (let kind = extract (rw_payload r) ''$.data.type'' in
      kind \<in> {SqlText ''permission'', SqlText ''question''} \<and> \<not> has_row fst (rw_id r) (tb_decisions d) \<or>
      kind = SqlText ''decision'' \<or>
      kind = SqlText ''tool'' \<and> rw_state r \<noteq> ''complete'' \<or>
      tool_evidence extract (rw_payload r) \<and>
        extract (rw_payload r) ''$.data.data.data.state'' = SqlText ''dispatch_attempted'' \<and>
        \<not> (\<exists>outcome \<in> set (tb_records d). outcome_of extract r outcome))"

definition interaction_kind :: "'v payload \<Rightarrow> string" where
  "interaction_kind p =
     (case p of
        PPermission _ _ \<Rightarrow> ''permission_without_decision''
      | PQuestion _ \<Rightarrow> ''question_without_answer''
      | PDecision _ _ \<Rightarrow> ''permission_delivery_unacknowledged''
      | PTool _ \<Rightarrow> ''provider_tool_incomplete''
      | _ \<Rightarrow> ''application_tool_outcome_unknown'')"

definition interaction_report :: "'v snapshot \<Rightarrow> interaction_recovery" where
  "interaction_report x =
     \<lparr>iv_id = r_id (sn_record x), iv_session = r_session (sn_record x), iv_run = r_run (sn_record x),
      iv_kind = interaction_kind (r_payload (sn_record x)), iv_state = sn_state x, iv_source = sn_source x\<rparr>"

definition sqlite_discover_interactions ::
  "driver \<Rightarrow> 'v formats \<Rightarrow> (string \<Rightarrow> string \<Rightarrow> sql_value) \<Rightarrow> string option \<Rightarrow> nat \<Rightarrow> sqlite \<Rightarrow>
   (interaction_recovery list, store_error) result" where
  "sqlite_discover_interactions D K extract after count =
     sqlite_read
       (and_then (sql_page D rw_id after count (\<lambda>d. filter (unsettled_row extract d) (tb_records d))) (\<lambda>rows.
         fetch_rows D (\<lambda>r.
           and_then (decode_current K r) (\<lambda>x. give (interaction_report x))) rows))"

end
