(* ===== verification/Sqlite_Inventory.thy ===== *)
theory Sqlite_Inventory imports Sqlite_Recovery begin

section \<open>What the recovery inventory reports\<close>

text \<open>
  The report of a run as a function of the run's records alone, and the proof that the scan over
  the rows of the tables computes it: one entry per run of the represented store, in the order of
  the identifiers, whatever calls led to the tables.
\<close>

subsection \<open>The report of a history\<close>

definition run_history :: "'v memory_state \<Rightarrow> spec \<Rightarrow> 'v snapshot list" where
  "run_history s spec =
     filter (\<lambda>x. r_run (sn_record x) = Some (rs_id spec))
       (map (\<lambda>j. en_current (the (ms_records s j)))
         (case ms_sessions s (rs_session spec) of None \<Rightarrow> [] | Some ids \<Rightarrow> ids))"

definition finish_of :: "'v snapshot \<Rightarrow> completion_reason option" where
  "finish_of x = (case r_payload (sn_record x) of PRunFinished reason \<Rightarrow> Some reason | _ \<Rightarrow> None)"

definition marked :: "string \<Rightarrow> 'v snapshot \<Rightarrow> 'v option" where
  "marked name x =
     (case r_payload (sn_record x) of
        PExtension namespace n data \<Rightarrow> if namespace = ''agent_bridge'' \<and> n = name then Some data else None
      | _ \<Rightarrow> None)"

definition dispatch_state :: "'v json \<Rightarrow> 'v \<Rightarrow> string option" where
  "dispatch_state J data =
     (if j_as_u64 J (j_index J data ''version'') = Some 1 then j_as_str J (j_index J data ''state'') else None)"

definition is_failure :: "'v snapshot \<Rightarrow> bool" where
  "is_failure x \<longleftrightarrow> (case r_payload (sn_record x) of PFailure _ \<Rightarrow> True | _ \<Rightarrow> False)"

definition readable_evidence :: "'v json \<Rightarrow> 'v snapshot \<Rightarrow> bool" where
  "readable_evidence J x \<longleftrightarrow>
     (case marked ''run_dispatch'' x of
        None \<Rightarrow> True
      | Some data \<Rightarrow> dispatch_state J data \<in> {Some ''prepared'', Some ''dispatch_attempted''})"

definition history_dispatch :: "'v json \<Rightarrow> 'v snapshot list \<Rightarrow> string" where
  "history_dispatch J xs =
     (if \<exists>x \<in> set xs. Option.bind (marked ''run_dispatch'' x) (dispatch_state J) = Some ''dispatch_attempted''
      then ''attempted''
      else if \<exists>x \<in> set xs. marked ''run_dispatch'' x \<noteq> None then ''not_dispatched''
      else ''missing_evidence'')"

definition history_completion :: "'v snapshot list \<Rightarrow> completion_reason option" where
  "history_completion xs =
     (case rev (List.map_filter finish_of xs) of [] \<Rightarrow> None | reason # _ \<Rightarrow> Some reason)"

definition contract_marked :: "'v snapshot \<Rightarrow> bool" where
  "contract_marked x \<longleftrightarrow> marked ''result_contract'' x \<noteq> None"

definition validation_marked :: "'v json \<Rightarrow> 'v snapshot \<Rightarrow> bool" where
  "validation_marked J x \<longleftrightarrow> (case marked ''result_validation'' x of None \<Rightarrow> False | Some data \<Rightarrow> settled_validation J data)"

definition history_issues :: "'v json \<Rightarrow> 'v snapshot list \<Rightarrow> string list" where
  "history_issues J xs =
     (if \<exists>x \<in> set xs. finish_of x \<noteq> None then [] else [''completion_unknown'']) @
     (if \<exists>x \<in> set xs. sn_state x = Open then [''open_records''] else []) @
     (if \<exists>x \<in> set xs. is_failure x then [''recorded_failure''] else []) @
     (if (\<exists>x \<in> set xs. contract_marked x) \<and> \<not> (\<exists>x \<in> set xs. validation_marked J x)
      then [''validation_missing''] else [])"

definition history_report :: "'v json \<Rightarrow> 'v memory_state \<Rightarrow> spec \<Rightarrow> run_recovery" where
  "history_report J s spec =
     \<lparr>rv_id = rs_id spec, rv_session = rs_session spec, rv_slot = rs_slot spec,
      rv_dispatch = history_dispatch J (run_history s spec),
      rv_completion = history_completion (run_history s spec),
      rv_issues = history_issues J (run_history s spec)\<rparr>"

subsection \<open>The scan\<close>

definition scan_snapshot :: "'v json \<Rightarrow> 'v snapshot \<Rightarrow> run_scan \<Rightarrow> (run_scan, store_error) result" where
  "scan_snapshot J x s =
     scan_payload J (r_payload (sn_record x)) (s\<lparr>rc_open := rc_open s \<or> sn_state x = Open\<rparr>)"

fun scan_all :: "'v json \<Rightarrow> 'v snapshot list \<Rightarrow> run_scan \<Rightarrow> (run_scan, store_error) result" where
  "scan_all J [] s = Ok s"
| "scan_all J (x # xs) s = rbind (scan_snapshot J x s) (scan_all J xs)"

lemma scan_all_snoc: "scan_all J (xs @ [x]) s = rbind (scan_all J xs s) (scan_snapshot J x)"
proof (induction xs arbitrary: s)
  case Nil
  show ?case by (cases "scan_snapshot J x s") simp_all
next
  case (Cons a xs)
  then show ?case by (cases "scan_snapshot J a s") simp_all
qed

text \<open>What the scan has seen.\<close>

definition seen :: "'v json \<Rightarrow> 'v snapshot list \<Rightarrow> run_scan" where
  "seen J xs =
     \<lparr>rc_dispatch = history_dispatch J xs, rc_completion = history_completion xs,
      rc_open = (\<exists>x \<in> set xs. sn_state x = Open), rc_failure = (\<exists>x \<in> set xs. is_failure x),
      rc_contract = (\<exists>x \<in> set xs. contract_marked x), rc_validation = (\<exists>x \<in> set xs. validation_marked J x)\<rparr>"

lemma seen_start: "scan_start = seen J []"
  by (simp add: scan_start_def seen_def history_dispatch_def history_completion_def List.map_filter_simps)

lemma completion_snoc:
  "history_completion (xs @ [x]) = (case finish_of x of Some reason \<Rightarrow> Some reason | None \<Rightarrow> history_completion xs)"
  by (auto simp: history_completion_def map_filter_def split: option.splits list.splits)

lemma dispatch_names:
  "history_dispatch J xs = ''attempted'' \<or> history_dispatch J xs = ''not_dispatched'' \<or> history_dispatch J xs = ''missing_evidence''"
  by (simp add: history_dispatch_def)

lemmas scan_defs = scan_snapshot_def scan_payload_def scan_dispatch_def dispatch_state_def

lemma dispatch_snoc:
  "history_dispatch J (xs @ [x]) =
     (case marked ''run_dispatch'' x of
        None \<Rightarrow> history_dispatch J xs
      | Some data \<Rightarrow>
          if dispatch_state J data = Some ''dispatch_attempted'' then ''attempted''
          else if history_dispatch J xs = ''missing_evidence'' then ''not_dispatched'' else history_dispatch J xs)"
  by (simp add: history_dispatch_def bex_Un split: option.splits)

lemmas seen_defs = scan_snapshot_def scan_payload_def seen_def readable_evidence_def dispatch_snoc completion_snoc
  finish_of_def is_failure_def contract_marked_def validation_marked_def

lemma seen_snoc:
  "scan_snapshot J x (seen J xs) =
     (if readable_evidence J x then Ok (seen J (xs @ [x]))
      else Err (CorruptData ''unsupported run dispatch evidence; inspect raw history''))"
proof (cases "r_payload (sn_record x)")
  case (PExtension namespace n data)
  show ?thesis
  proof (cases "namespace = ''agent_bridge''")
    case True
    then have marked: "marked name x = (if n = name then Some data else None)" for name
      by (simp add: marked_def PExtension)
    consider (dispatch) "n = ''run_dispatch''" | (contract) "n = ''result_contract''"
      | (validation) "n = ''result_validation''"
      | (other) "n \<noteq> ''run_dispatch''" "n \<noteq> ''result_contract''" "n \<noteq> ''result_validation''" by blast
    then show ?thesis
    proof cases
      case dispatch
      show ?thesis
        by (simp add: seen_defs PExtension True marked dispatch bex_Un scan_dispatch_def dispatch_state_def disj_commute split: option.split)
    qed (simp_all add: seen_defs PExtension True marked bex_Un disj_commute)
  next
    case False
    then have "marked name x = None" for name by (simp add: marked_def PExtension)
    then show ?thesis using False by (simp add: seen_defs PExtension bex_Un disj_commute)
  qed
qed (simp_all add: seen_defs marked_def bex_Un disj_commute)

lemma scan_all_seen:
  "scan_all J xs scan_start =
     (if \<forall>x \<in> set xs. readable_evidence J x then Ok (seen J xs)
      else Err (CorruptData ''unsupported run dispatch evidence; inspect raw history''))"
proof (induction xs rule: rev_induct)
  case (snoc x xs)
  then show ?case by (auto simp: scan_all_snoc seen_snoc)
qed (simp add: seen_start)

subsection \<open>The rows of a run\<close>

lemma row_current_content:
  "row_current K r = Ok x \<Longrightarrow>
     map_option as_str (r_run (sn_record x)) = rw_run r \<and>
     codec_decode (fm_parse K) (fm_payload K) (rw_payload r) = Ok (r_payload (sn_record x)) \<and>
     parse_state (rw_state r) = Ok (sn_state x)"
  by (cases "rw_run r") (auto simp: row_current_def rbind_eq_Ok)

lemma scan_row_snapshot:
  assumes "row_current K r = Ok x"
  shows "scan_row K J (rw_payload r, rw_state r) s = scan_snapshot J x s"
  using row_current_content [OF assms] by (simp add: scan_row_def scan_snapshot_def)

lemma runs_scan:
  assumes "list_all2 (\<lambda>r x. \<forall>s. scan_row K J r s = scan_snapshot J x s) rows xs"
  shows "runs D (scan_rows D K J rows s) d (scan_all J xs s) d"
  using assms
proof (induction rows xs arbitrary: s rule: list_all2_induct)
  case Nil
  show ?case by (auto intro!: runs_intros)
next
  case (Cons r rows x xs)
  have "runs D (and_then (lift_result (scan_row K J r s)) (scan_rows D K J rows)) d (scan_all J (x # xs) s) d"
  proof (cases "scan_snapshot J x s")
    case (Ok t)
    then show ?thesis using Cons by (simp add: sql_simps)
  next
    case (Err e)
    then show ?thesis using Cons(1) by (simp add: sql_simps runs_fail)
  next
    case Panic
    then show ?thesis using Cons(1) by (simp add: runs_def and_then_def lift_result_def)
  qed
  then show ?case by (simp, intro after_query)
qed

lemma run_rows_session:
  assumes ok: "tables_ok K d" and run: "view_runs K d i = Some spec"
  shows "run_rows (as_str i) d =
    map (\<lambda>r. (rw_payload r, rw_state r))
      (filter (\<lambda>r. rw_run r = Some (as_str i)) (session_rows (as_str (rs_session spec)) d))"
proof -
  have same: "rw_session r = as_str (rs_session spec)" if r: "r \<in> set (tb_records d)" "rw_run r = Some (as_str i)" for r
  proof -
    obtain en where en: "row_decode K r = Ok en" "view_records K d (Ident (rw_id r)) = Some en"
      using tables_okD(1) [OF ok] r(1) row_by_member [of rw_id "tb_records d" r]
      by (fastforce simp: rows_wf_def record_row_wf_def view_records_def)
    note cur = row_decode_current [OF en(1)]
    have "map_option as_str (r_run (sn_record (en_current en))) = Some (as_str i)"
      using row_current_content [OF cur] r(2) by simp
    then have "r_run (sn_record (en_current en)) = Some i" by (auto simp: same_string)
    then have "rs_session spec = r_session (sn_record (en_current en))"
      using tables_okD(4) [OF ok] en(2) run by (fastforce simp: ms_inv_def core_inv_def records_ok_def)
    then show ?thesis using row_current_Ok [OF cur] by simp
  qed
  have rows: "filter (\<lambda>r. rw_run r = Some (as_str i)) (tb_records d) =
      filter (\<lambda>r. rw_run r = Some (as_str i)) (session_rows (as_str (rs_session spec)) d)"
    using same by (auto simp: session_rows_def intro!: filter_cong)
  have "sorted (map rw_sequence (session_rows (as_str (rs_session spec)) d))"
    using tables_okD(2) [OF ok] by (simp add: sessions_wf_def sorted_map [where f = int])
  then have "sorted (map rw_sequence (filter (\<lambda>r. rw_run r = Some (as_str i)) (session_rows (as_str (rs_session spec)) d)))"
    by (rule sorted_filter)
  then show ?thesis unfolding run_rows_def rows by (simp add: sort_key_id_if_sorted)
qed

lemma run_history_rows:
  assumes ok: "tables_ok K d" and run: "view_runs K d i = Some spec"
  shows "list_all2 (\<lambda>r x. \<forall>s. scan_row K J r s = scan_snapshot J x s) (run_rows (as_str i) d)
    (run_history (tables_view K d) spec)"
proof -
  let ?rows = "session_rows (as_str (rs_session spec)) d"
  have inv: "runs_ok (view_sessions d) (view_runs K d) (view_records K d)"
    using tables_okD(4) [OF ok] by (simp add: ms_inv_def core_inv_def)
  have id: "rs_id spec = i" and "view_sessions d (rs_session spec) \<noteq> None"
    using inv run by (simp_all add: runs_ok_def)
  then obtain ids where ids: "view_sessions d (rs_session spec) = Some ids" by auto
  define cur where "cur r = en_current (the (view_records K d (Ident (rw_id r))))" for r :: record_row
  have cur: "row_current K r = Ok (cur r)" if r: "r \<in> set (tb_records d)" for r
  proof -
    obtain en where en: "row_decode K r = Ok en" "view_records K d (Ident (rw_id r)) = Some en"
      using tables_okD(1) [OF ok] r row_by_member [of rw_id "tb_records d" r]
      by (fastforce simp: rows_wf_def record_row_wf_def view_records_def)
    then show ?thesis by (simp add: cur_def row_decode_current)
  qed
  have mem: "set ?rows \<subseteq> set (tb_records d)" by (auto simp: session_rows_def)
  have "r_run (sn_record (cur r)) = Some i \<longleftrightarrow> rw_run r = Some (as_str i)" if "r \<in> set ?rows" for r
    using row_current_content [OF cur [of r]] that mem by (cases "r_run (sn_record (cur r))") (auto simp: same_string)
  then have "run_history (tables_view K d) spec = map cur (filter (\<lambda>r. rw_run r = Some (as_str i)) ?rows)"
    using view_sessions_row(3) [OF ids]
    by (simp add: run_history_def ids id filter_map o_def cur_def [symmetric] cong: filter_cong)
  then show ?thesis
    unfolding run_rows_session [OF ok run]
    by (auto simp: list_all2_map1 list_all2_map2 list_all2_same intro!: scan_row_snapshot cur dest: mem [THEN subsetD])
qed

subsection \<open>The inventory\<close>

text \<open>What the inventory of a store's state is: the reference the queries are compared with.\<close>

definition history_answer :: "'v json \<Rightarrow> 'v memory_state \<Rightarrow> spec \<Rightarrow> (run_recovery, store_error) result" where
  "history_answer J s spec =
     (if \<forall>x \<in> set (run_history s spec). readable_evidence J x then Ok (history_report J s spec)
      else Err (CorruptData ''unsupported run dispatch evidence; inspect raw history''))"

fun gather :: "('a, 'e) result list \<Rightarrow> ('a list, 'e) result" where
  "gather [] = Ok []"
| "gather (r # rs) = rbind r (\<lambda>x. rbind (gather rs) (\<lambda>xs. Ok (x # xs)))"

definition keys_after :: "string option \<Rightarrow> (string \<Rightarrow> bool) \<Rightarrow> string set" where
  "keys_after after known = {k. known k \<and> (case after of None \<Rightarrow> True | Some a \<Rightarrow> a < k)}"

definition run_inventory ::
  "'v json \<Rightarrow> string option \<Rightarrow> nat \<Rightarrow> 'v memory_state \<Rightarrow> (run_recovery list, store_error) result" where
  "run_inventory J after count s =
     (if 1 \<le> count \<and> count \<le> 1000 then
        gather (map (\<lambda>k. history_answer J s (the (ms_runs s (Ident k))))
          (take count (sorted_list_of_set (keys_after after (\<lambda>k. ms_runs s (Ident k) \<noteq> None)))))
      else Err (CorruptData ''discovery limit must be 1..=1000''))"

lemma gather_no_panic: "(\<And>y. y \<in> set ys \<Longrightarrow> y \<noteq> Panic) \<Longrightarrow> gather ys \<noteq> Panic"
  by (induction ys) (auto simp: rbind_eq_Panic)

lemma runs_gather:
  assumes "\<And>r. r \<in> set rs \<Longrightarrow> runs D (f r) d (g r) d" and "\<And>r. r \<in> set rs \<Longrightarrow> g r \<noteq> Panic"
  shows "runs D (fetch_rows D f rs) d (gather (map g rs)) d"
  using assms
proof (induction rs)
  case (Cons r rs)
  have step: "runs D (f r) d (g r) d" and rest: "runs D (fetch_rows D f rs) d (gather (map g rs)) d"
    using Cons by simp_all
  show ?case
  proof (cases "g r")
    case (Ok x)
    show ?thesis
    proof (cases "gather (map g rs)")
      case (Ok xs)
      then show ?thesis
        using step rest \<open>g r = Ok x\<close> by (auto intro!: runs_intros intro: after_query)
    next
      case (Err e)
      then show ?thesis
        using step rest \<open>g r = Ok x\<close>
        by (simp, intro after_query runs_and_then [OF step [unfolded \<open>g r = Ok x\<close>]] runs_stops) simp
    next
      case Panic
      then show ?thesis using gather_no_panic [of "map g rs"] Cons.prems(2) by (simp add: image_iff) (metis list.set_intros(2))
    qed
  next
    case (Err e)
    then show ?thesis using step by (simp, intro after_query runs_stops) simp
  next
    case Panic
    then show ?thesis using Cons.prems(2) by simp
  qed
qed (auto intro!: runs_intros)

lemma key_page_keys:
  assumes "distinct keys" and "\<And>k. k \<in> set keys \<longleftrightarrow> known k"
  shows "key_page (\<lambda>s. s) after n keys = take n (sorted_list_of_set (keys_after after known))"
proof -
  let ?ks = "filter (\<lambda>k. case after of None \<Rightarrow> True | Some a \<Rightarrow> a < k) keys"
  have "set ?ks = keys_after after known" using assms(2) by (auto simp: keys_after_def)
  moreover have "sorted_list_of_set (set ?ks) = sort ?ks"
    using assms(1) by (simp only: sorted_list_of_set_sort_remdups distinct_filter remdups_id_iff_distinct distinct_remdups_id)
  ultimately show ?thesis by (simp add: key_page_def)
qed

lemma runs_page_keys:
  assumes "distinct (rows d)" and "\<And>k. k \<in> set (rows d) \<longleftrightarrow> known k"
  shows "runs D (sql_page D (\<lambda>s. s) after count rows) d
    (if 1 \<le> count \<and> count \<le> 1000 then Ok (take count (sorted_list_of_set (keys_after after known)))
     else Err (CorruptData ''discovery limit must be 1..=1000'')) d"
  unfolding sql_page_def
proof (rule after_query, cases "1 \<le> count \<and> count \<le> 1000")
  case True
  then show "runs D (and_then (lift_result (discovery_limit count)) (\<lambda>n. query D (\<lambda>d. key_page (\<lambda>s. s) after n (rows d)))) d
    (if 1 \<le> count \<and> count \<le> 1000 then Ok (take count (sorted_list_of_set (keys_after after known)))
     else Err (CorruptData ''discovery limit must be 1..=1000'')) d"
    using runs_query [of D "\<lambda>d. key_page (\<lambda>s. s) after count (rows d)" d]
    by (simp add: discovery_limit_def sql_simps key_page_keys [OF assms])
qed (auto simp: discovery_limit_def sql_simps runs_fail)

lemma runs_discover_run:
  assumes ok: "tables_ok K d" and run: "view_runs K d (Ident k) = Some spec"
  shows "runs D (sql_discover_run D K J k) d (history_answer J (tables_view K d) spec) d"
proof -
  obtain r where "row_by nw_id k (tb_runs d) = Some r" using run by (auto simp: view_runs_def bind_eq_Some_conv)
  then have "\<not> blank k" using row_by_Some tables_okD(1) [OF ok] unfolding rows_wf_def by metis
  then have id: "column_id k = Ok (Ident k)" by simp
  have spec: "rs_id spec = Ident k" using tables_okD(4) [OF ok] run by (simp add: ms_inv_def core_inv_def runs_ok_def)
  note scan = runs_scan [OF run_history_rows [OF ok run, unfolded ident.sel], of D J scan_start d]
  have last: "runs D (and_then (scan_rows D K J (run_rows k d) scan_start) (\<lambda>s. give (run_report (Ident k) spec s))) d
      (history_answer J (tables_view K d) spec) d"
  proof (cases "\<forall>x \<in> set (run_history (tables_view K d) spec). readable_evidence J x")
    case True
    have report: "run_report (Ident k) spec (seen J xs) = \<lparr>rv_id = rs_id spec, rv_session = rs_session spec,
        rv_slot = rs_slot spec, rv_dispatch = history_dispatch J xs, rv_completion = history_completion xs,
        rv_issues = history_issues J xs\<rparr>" for xs :: "'a snapshot list"
      by (auto simp: run_report_def scan_issues_def seen_def history_issues_def spec history_completion_def map_filter_def
          filter_empty_conv split: list.splits)
    have "runs D (scan_rows D K J (run_rows k d) scan_start) d (Ok (seen J (run_history (tables_view K d) spec))) d"
      using scan True by (simp add: scan_all_seen)
    then show ?thesis
      by (rule runs_and_then) (simp add: report history_answer_def True history_report_def runs_give)
  next
    case False
    then show ?thesis using scan by (simp only: scan_all_seen history_answer_def if_False) (rule runs_stops)
  qed
  show ?thesis
    unfolding sql_discover_run_def id
    by (simp add: sql_simps, rule after_run [OF ok], simp add: run ok_or_def sql_simps, intro after_query)
      (rule last)
qed

theorem discover_runs_answers:
  assumes c: "represents K c s"
  shows "answers D (sqlite_discover_runs D K J after count c) (run_inventory J after count s)"
proof -
  note R = representsD [OF c]
  let ?d = "cn_tables c" and ?known = "\<lambda>k. ms_runs s (Ident k) \<noteq> None"
  have W: "rows_wf K ?d" by (rule tables_okD(1) [OF R(1)])
  have known: "k \<in> set (map nw_id (tb_runs ?d)) \<longleftrightarrow> ?known k" for k
  proof
    assume "k \<in> set (map nw_id (tb_runs ?d))"
    then obtain r where "r \<in> set (tb_runs ?d)" "nw_id r = k" by auto
    moreover from this have "row_by nw_id k (tb_runs ?d) = Some r" using W by (auto simp: rows_wf_def row_by_iff)
    ultimately show "?known k" using W by (fastforce simp: R(2) view_runs_def rows_wf_def)
  next
    assume "?known k"
    then obtain r where "row_by nw_id k (tb_runs ?d) = Some r" by (auto simp: R(2) view_runs_def bind_eq_Some_conv)
    then show "k \<in> set (map nw_id (tb_runs ?d))" by (auto dest: row_by_Some)
  qed
  have dist: "distinct (map nw_id (tb_runs ?d))" using W by (simp add: rows_wf_def)
  note page = runs_page_keys [of "\<lambda>d. map nw_id (tb_runs d)", OF dist known, of D after count]
  have "runs D (and_then (sql_page D (\<lambda>s. s) after count (\<lambda>d. map nw_id (tb_runs d))) (fetch_rows D (sql_discover_run D K J)))
      ?d (run_inventory J after count s) ?d"
  proof (cases "1 \<le> count \<and> count \<le> 1000")
    case True
    let ?keys = "take count (sorted_list_of_set (keys_after after ?known))"
    have "finite (keys_after after ?known)"
      by (rule finite_subset [of _ "set (map nw_id (tb_runs ?d))"]) (unfold keys_after_def, blast intro: known [THEN iffD2], rule finite_set)
    then have "ms_runs s (Ident k) = Some (the (ms_runs s (Ident k)))" if "k \<in> set ?keys" for k
      using that by (auto simp: keys_after_def dest!: in_set_takeD)
    then have "runs D (sql_discover_run D K J k) ?d (history_answer J s (the (ms_runs s (Ident k)))) ?d" if "k \<in> set ?keys" for k
      using runs_discover_run [OF R(1), of k "the (ms_runs s (Ident k))" D J] that by (simp add: R(2))
    then have "runs D (fetch_rows D (sql_discover_run D K J) ?keys) ?d
        (gather (map (\<lambda>k. history_answer J s (the (ms_runs s (Ident k)))) ?keys)) ?d"
      by (rule runs_gather) (simp_all add: history_answer_def)
    then show ?thesis using page True by (intro runs_and_then [of D _ _ ?keys]) (simp_all add: run_inventory_def)
  next
    case False
    then show ?thesis using page by (simp only: run_inventory_def if_False) (rule runs_stops)
  qed
  then show ?thesis unfolding sqlite_discover_runs_def by (intro answers_read [OF c] after_query)
qed

subsection \<open>The property\<close>

definition inventory_draft :: "nat draft" where
  "inventory_draft = sample_draft\<lparr>d_run := Some (Ident ''n'')\<rparr>"

definition inventory_spec :: spec where
  "inventory_spec =
     \<lparr>rs_id = Ident ''n'', rs_session = Ident ''s'', rs_slot = Ident ''t'', rs_context = default_manifest,
      rs_config = default_run_configuration, rs_continuation = None\<rparr>"

definition inventory_trace :: "(driver \<times> nat store_call) list" where
  "inventory_trace =
     map (Pair (sample_driver None))
       [RecordCall (CreateSession (Ident ''s'')), RecordCall (RegisterRun inventory_spec), RecordCall (Insert inventory_draft)]"

lemma inventory_storable: "\<forall>call \<in> snd ` set inventory_trace. call_storable sample_formats call"
proof -
  have ids: "id_ok (Ident [CHR ''s''] :: session_id)" "id_ok (Ident ''q'' :: record_id)" "id_ok (Ident ''a'' :: actor_id)"
      "id_ok (Ident ''n'' :: run_id)" "id_ok (Ident ''t'' :: slot_id)"
    by (simp_all add: id_ok_def) (rule not_blank_plain; simp add: plain_char_def)+
  then show ?thesis
    by (simp add: inventory_trace_def call_storable_def draft_storable_def spec_storable_def inventory_draft_def sample_draft_def
        inventory_spec_def sample_storable)
      (simp add: sample_formats_def sample_payloads_def listed_reads_back)
qed

text \<open>
  C29: The recovery inventory of runs is exact. After any sequence of store calls, whichever of
  them failed, a page of the inventory answers a fault of its driver or exactly one report per run
  of the represented store, in the order of the identifiers from the given key on, at most the
  requested number: the last reason the run's records report as its end, the strongest dispatch
  evidence among them, and the issues that hold of them; it is refused if the page size is out of
  range or a run's dispatch evidence cannot be read.
\<close>

theorem run_inventory_exact:
  assumes "\<forall>call \<in> snd ` set calls. call_storable K call" and "2 * int (length calls) < i64_max"
  shows "answers D (sqlite_discover_runs D K J after count (snd (run_calls K calls (fresh_sqlite epoch))))
    (run_inventory J after count (tables_view K (cn_tables (snd (run_calls K calls (fresh_sqlite epoch))))))"
proof -
  obtain s where s: "represents K (snd (run_calls K calls (fresh_sqlite epoch))) s"
    by (rule calls_represent [OF assms])
  show ?thesis using discover_runs_answers [OF s] representsD(2) [OF s] by simp
qed

theorem run_inventory_exact_witness:
  "\<forall>(J :: nat json) D count. answers D
     (sqlite_discover_runs D sample_formats J None count
       (snd (run_calls sample_formats inventory_trace (fresh_sqlite ''e''))))
     (run_inventory J None count
       (tables_view sample_formats (cn_tables (snd (run_calls sample_formats inventory_trace (fresh_sqlite ''e''))))))"
  by (intro allI run_inventory_exact [OF inventory_storable]) (simp add: inventory_trace_def i64_max_def)

end
