(* ===== verification/Host_Storage.thy ===== *)
theory Host_Storage imports Sqlite_Calls begin

section \<open>Bounded waits around the store (src/host/storage.rs)\<close>

text \<open>
  A host reaches its synchronous store through a worker thread with a queue of eight jobs. A call
  waits for its job at most until a deadline; a call that gives up marks the worker as failed.
  The threads take their steps in any order: \<open>worker_next\<close> says what each step does and when it
  is possible. Atomic reads and writes, channel operations and the run of a job under the writer
  gate are single steps; deadlines may expire at any time. A job is an argument \<open>exec\<close> interprets.
\<close>

subsection \<open>Budget and writer gates\<close>

text \<open>
  \<open>bu_writers\<close> holds weak references to gates, \<open>bu_strong\<close> their strong counts. The name of a
  new gate is an argument.
\<close>

record budget =
  bu_active :: nat
  bu_limit :: nat
  bu_poisoned :: bool
  bu_writers :: "string \<rightharpoonup> nat"
  bu_strong :: "nat \<Rightarrow> nat"

definition budget_new :: "nat \<Rightarrow> budget" where
  "budget_new limit =
     \<lparr>bu_active = 0, bu_limit = limit, bu_poisoned = False, bu_writers = Map.empty, bu_strong = (\<lambda>_. 0)\<rparr>"

definition budget_reserve :: "budget \<Rightarrow> (unit, store_error) result \<times> budget" where
  "budget_reserve b =
     (if bu_active b < bu_limit b then (Ok (), b\<lparr>bu_active := bu_active b + 1\<rparr>) else (Err StorageOverloaded, b))"

text \<open>\<open>Permit::drop\<close>\<close>

definition permit_drop :: "budget \<Rightarrow> budget" where
  "permit_drop b = b\<lparr>bu_active := bu_active b - 1\<rparr>"

definition writer_gate :: "string \<Rightarrow> nat \<Rightarrow> budget \<Rightarrow> (nat, store_error) result \<times> budget" where
  "writer_gate path fresh b =
     (if bu_poisoned b then (Err StorageUnavailable, b)
      else
        (let live = (\<lambda>p. Option.bind (bu_writers b p) (\<lambda>g. if 0 < bu_strong b g then Some g else None)) in
         (case live path of
            Some g \<Rightarrow> (Ok g, b\<lparr>bu_writers := live, bu_strong := (bu_strong b)(g := bu_strong b g + 1)\<rparr>)
          | None \<Rightarrow> (Ok fresh, b\<lparr>bu_writers := live(path \<mapsto> fresh), bu_strong := (bu_strong b)(fresh := 1)\<rparr>))))"

definition gate_drop :: "nat \<Rightarrow> budget \<Rightarrow> budget" where
  "gate_drop g b = b\<lparr>bu_strong := (bu_strong b)(g := bu_strong b g - 1)\<rparr>"

text \<open>\<open>receive\<close>: a message, no sender left, or the deadline.\<close>

datatype 'a received = Message 'a | Disconnected | Expired

definition host_receive :: "'a received \<Rightarrow> ('a, store_error) result" where
  "host_receive m =
     (case m of Message x \<Rightarrow> Ok x | Disconnected \<Rightarrow> Err StorageUnavailable | Expired \<Rightarrow> Err StorageTimedOut)"

text \<open>
  \<open>Budget::execute\<close>: the answer, and whether the work still holds its permit, which
  \<open>permit_drop\<close> returns when the work ends. \<open>spawned\<close> says whether the thread starts.
\<close>

definition budget_execute :: "bool \<Rightarrow> 'a received \<Rightarrow> budget \<Rightarrow> ('a, store_error) result \<times> budget \<times> bool" where
  "budget_execute spawned m b =
     (case budget_reserve b of
        (Ok _, b') \<Rightarrow>
          if spawned then (host_receive m, b', True) else (Err StorageUnavailable, permit_drop b', False)
      | (Err e, b') \<Rightarrow> (Err e, b', False)
      | (Panic, b') \<Rightarrow> (Panic, b', False))"

lemma reserve_bounded:
  "budget_reserve b = (r, b') \<Longrightarrow> bu_active b \<le> bu_limit b \<Longrightarrow> bu_active b' \<le> bu_limit b'"
  by (auto simp: budget_reserve_def split: if_splits)

lemma reserve_permits:
  "budget_reserve b = (r, b') \<Longrightarrow> bu_active b' = bu_active b + (if r = Ok () then 1 else 0)"
  by (auto simp: budget_reserve_def split: if_splits)

text \<open>Handles on gates come and go; a gate with a live handle stays the gate of its path.\<close>

inductive gate_steps :: "nat \<Rightarrow> budget \<Rightarrow> budget \<Rightarrow> bool" for g where
  refl: "gate_steps g b b"
| open_gate: "gate_steps g b b1 \<Longrightarrow> g \<noteq> fresh \<Longrightarrow> gate_steps g b (snd (writer_gate path fresh b1))"
| drop_gate: "gate_steps g b b1 \<Longrightarrow> h \<noteq> g \<or> 1 < bu_strong b1 g \<Longrightarrow> gate_steps g b (gate_drop h b1)"

lemma writer_gate_again:
  assumes "\<not> bu_poisoned b" and "bu_writers b path = Some g" and "0 < bu_strong b g"
  shows "fst (writer_gate path fresh b) = Ok g"
  using assms by (simp add: writer_gate_def)

lemma writer_gate_shared:
  assumes "writer_gate path fresh b = (Ok g, b1)" and "gate_steps g b1 b2"
  shows "fst (writer_gate path fresh' b2) = Ok g"
proof -
  have "\<not> bu_poisoned b1 \<and> bu_writers b1 path = Some g \<and> 0 < bu_strong b1 g"
    using assms(1) by (auto simp: writer_gate_def Let_def bind_eq_Some_conv split: if_splits option.splits)
  with assms(2) have "\<not> bu_poisoned b2 \<and> bu_writers b2 path = Some g \<and> 0 < bu_strong b2 g"
  proof (induction)
    case (open_gate b b1 fresh p)
    then show ?case by (auto simp: writer_gate_def Let_def split: option.splits)
  next
    case (drop_gate b b1 h)
    then show ?case by (auto simp: gate_drop_def)
  qed simp
  then show ?thesis using writer_gate_again by blast
qed

subsection \<open>The worker\<close>

text \<open>
  A call reads the flag, sends its job and waits; it ends refused, with its job's result, or
  having given up. \<open>Stopping\<close> is the moment between giving up and setting the flag.
\<close>

datatype 'a call_phase =
  Checked | Waiting | Stopping store_error
| TurnedAway store_error | Returned "('a, store_error) result" | GaveUp store_error

datatype thread_phase =
  Opening | Opened "(unit, store_error) result" | Receiving | Entering nat | Working nat | Leaving | Ended

datatype owner_phase = Starting_up | Giving_up store_error | Owned | Not_started store_error | Gone

record ('j, 'a, 's) worker =
  wo_store :: 's
  wo_poisoned :: bool
  wo_failed :: bool
  wo_thread :: thread_phase
  wo_owner :: owner_phase
  wo_ready :: "(unit, store_error) result option"
  wo_queue :: "nat list"
  wo_calls :: "nat \<rightharpoonup> 'j \<times> 'a call_phase"
  wo_replies :: "nat \<rightharpoonup> ('a, store_error) result"
  wo_begun :: "nat list"
  wo_sent :: "nat list"
  wo_log :: "(nat option \<times> 'j) list"

datatype 'j worker_event =
  OtherWriter 'j
| ThreadOpens "(unit, store_error) result" | ThreadReady | ThreadReceives | ThreadEnters | ThreadWorks | ThreadLeaves
| OwnerReceives "unit received" | OwnerStops | OwnerDrops
| CallBegins nat 'j | CallSends nat | CallReceives "unit received" nat | CallStops nat

text \<open>\<open>start_serialized\<close> up to the wait for the thread; the store is whatever the database holds.\<close>

definition worker_new :: "'s \<Rightarrow> ('j, 'a, 's) worker" where
  "worker_new s =
     \<lparr>wo_store = s, wo_poisoned = False, wo_failed = False, wo_thread = Opening, wo_owner = Starting_up, wo_ready = None,
      wo_queue = [], wo_calls = Map.empty, wo_replies = Map.empty, wo_begun = [], wo_sent = [], wo_log = []\<rparr>"

definition worker_start :: "bool \<Rightarrow> 's \<Rightarrow> budget \<Rightarrow> (('j, 'a, 's) worker, store_error) result \<times> budget" where
  "worker_start spawned s b =
     (case budget_reserve b of
        (Ok _, b') \<Rightarrow> if spawned then (Ok (worker_new s), b') else (Err StorageUnavailable, permit_drop b')
      | (Err e, b') \<Rightarrow> (Err e, b')
      | (Panic, b') \<Rightarrow> (Panic, b'))"

text \<open>The thread ends: the queue is dropped with its receiver.\<close>

definition thread_end :: "('j, 'a, 's) worker \<Rightarrow> ('j, 'a, 's) worker" where
  "thread_end w = w\<lparr>wo_thread := Ended, wo_queue := []\<rparr>"

definition set_phase :: "nat \<Rightarrow> 'a call_phase \<Rightarrow> ('j, 'a, 's) worker \<Rightarrow> ('j, 'a, 's) worker" where
  "set_phase c p w = w\<lparr>wo_calls := (wo_calls w)(c \<mapsto> (fst (the (wo_calls w c)), p))\<rparr>"

definition phase_of :: "nat \<Rightarrow> ('j, 'a, 's) worker \<Rightarrow> 'a call_phase option" where
  "phase_of c w = map_option snd (wo_calls w c)"

text \<open>Is the sender of the call's reply still somewhere?\<close>

definition job_alive :: "nat \<Rightarrow> ('j, 'a, 's) worker \<Rightarrow> bool" where
  "job_alive c w \<longleftrightarrow> c \<in> set (wo_queue w) \<or> wo_thread w = Entering c \<or> wo_thread w = Working c"

definition call_open :: "('j, 'a, 's) worker \<Rightarrow> nat \<Rightarrow> bool" where
  "call_open w c \<longleftrightarrow>
     (case phase_of c w of Some Checked \<Rightarrow> True | Some Waiting \<Rightarrow> True | Some (Stopping e) \<Rightarrow> True | _ \<Rightarrow> False)"

text \<open>Another writer of the same database, under the same gate.\<close>

definition other_writer ::
  "('j \<Rightarrow> 's \<Rightarrow> ('a, store_error) result \<times> 's) \<Rightarrow> 'j \<Rightarrow> ('j, 'a, 's) worker \<Rightarrow> ('j, 'a, 's) worker option" where
  "other_writer exec j w =
     (if wo_poisoned w then None
      else
        (case wo_thread w of
           Working _ \<Rightarrow> None
         | Leaving \<Rightarrow> None
         | _ \<Rightarrow>
           (case exec j (wo_store w) of
              (r, s) \<Rightarrow> Some (w\<lparr>wo_store := s, wo_log := wo_log w @ [(None, j)],
                wo_poisoned := (case r of Panic \<Rightarrow> True | _ \<Rightarrow> False)\<rparr>))))"

subsection \<open>The thread\<close>

definition thread_opens ::
  "(unit, store_error) result \<Rightarrow> ('j, 'a, 's) worker \<Rightarrow> ('j, 'a, 's) worker option" where
  "thread_opens factory w =
     (case wo_thread w of
        Opening \<Rightarrow>
          if wo_poisoned w \<or> wo_failed w then Some (w\<lparr>wo_thread := Opened (Err StorageUnavailable)\<rparr>)
          else
            (case factory of
               Panic \<Rightarrow> Some (thread_end (w\<lparr>wo_poisoned := True\<rparr>))
             | r \<Rightarrow> Some (w\<lparr>wo_thread := Opened r\<rparr>))
      | _ \<Rightarrow> None)"

definition thread_ready :: "('j, 'a, 's) worker \<Rightarrow> ('j, 'a, 's) worker option" where
  "thread_ready w =
     (case wo_thread w of
        Opened (Ok _) \<Rightarrow>
          if wo_owner w = Starting_up then Some (w\<lparr>wo_ready := Some (Ok ()), wo_thread := Receiving\<rparr>)
          else Some (thread_end w)
      | Opened (Err e) \<Rightarrow> Some (thread_end (w\<lparr>wo_ready := Some (Err e)\<rparr>))
      | _ \<Rightarrow> None)"

definition thread_receives :: "('j, 'a, 's) worker \<Rightarrow> ('j, 'a, 's) worker option" where
  "thread_receives w =
     (case wo_thread w of
        Receiving \<Rightarrow>
          (case wo_queue w of
             c # cs \<Rightarrow> Some (w\<lparr>wo_thread := Entering c, wo_queue := cs\<rparr>)
           | [] \<Rightarrow>
             (case wo_owner w of
                Not_started e \<Rightarrow> Some (thread_end w)
              | Gone \<Rightarrow> Some (thread_end w)
              | _ \<Rightarrow> None))
      | _ \<Rightarrow> None)"

definition thread_enters :: "('j, 'a, 's) worker \<Rightarrow> ('j, 'a, 's) worker option" where
  "thread_enters w =
     (case wo_thread w of
        Entering c \<Rightarrow>
          if wo_poisoned w then Some (thread_end w)
          else if wo_failed w then Some (thread_end w)
          else Some (w\<lparr>wo_thread := Working c\<rparr>)
      | _ \<Rightarrow> None)"

text \<open>A job that panics unwinds the thread with the gate in its hand.\<close>

definition thread_works ::
  "('j \<Rightarrow> 's \<Rightarrow> ('a, store_error) result \<times> 's) \<Rightarrow> ('j, 'a, 's) worker \<Rightarrow> ('j, 'a, 's) worker option" where
  "thread_works exec w =
     (case wo_thread w of
        Working c \<Rightarrow>
          (let j = fst (the (wo_calls w c)) in
           (case exec j (wo_store w) of
              (r, s) \<Rightarrow>
                (let w' = w\<lparr>wo_store := s, wo_log := wo_log w @ [(Some c, j)]\<rparr> in
                 (case r of
                    Panic \<Rightarrow> Some (thread_end (w'\<lparr>wo_poisoned := True\<rparr>))
                  | _ \<Rightarrow> Some (w'\<lparr>wo_replies := (wo_replies w)(c \<mapsto> r), wo_thread := Leaving\<rparr>)))))
      | _ \<Rightarrow> None)"

definition thread_leaves :: "('j, 'a, 's) worker \<Rightarrow> ('j, 'a, 's) worker option" where
  "thread_leaves w =
     (case wo_thread w of
        Leaving \<Rightarrow> if wo_failed w then Some (thread_end w) else Some (w\<lparr>wo_thread := Receiving\<rparr>)
      | _ \<Rightarrow> None)"

subsection \<open>The owner\<close>

definition owner_receives :: "unit received \<Rightarrow> ('j, 'a, 's) worker \<Rightarrow> ('j, 'a, 's) worker option" where
  "owner_receives m w =
     (if wo_owner w \<noteq> Starting_up then None
      else
        (case (m, wo_ready w) of
           (Message _, Some (Ok _)) \<Rightarrow> Some (w\<lparr>wo_owner := Owned\<rparr>)
         | (Message _, Some (Err e)) \<Rightarrow> Some (w\<lparr>wo_owner := Giving_up e\<rparr>)
         | (Disconnected, None) \<Rightarrow> if wo_thread w = Ended then Some (w\<lparr>wo_owner := Giving_up StorageUnavailable\<rparr>) else None
         | (Expired, None) \<Rightarrow> Some (w\<lparr>wo_owner := Giving_up StorageTimedOut\<rparr>)
         | _ \<Rightarrow> None))"

definition owner_stops :: "('j, 'a, 's) worker \<Rightarrow> ('j, 'a, 's) worker option" where
  "owner_stops w =
     (case wo_owner w of
        Giving_up e \<Rightarrow> Some (w\<lparr>wo_failed := True, wo_owner := Not_started e\<rparr>)
      | _ \<Rightarrow> None)"

text \<open>\<open>Worker::drop\<close>; no call borrows the worker any more.\<close>

definition owner_drops :: "('j, 'a, 's) worker \<Rightarrow> ('j, 'a, 's) worker option" where
  "owner_drops w =
     (if wo_owner w = Owned \<and> \<not> list_ex (call_open w) (wo_begun w)
      then Some (w\<lparr>wo_failed := True, wo_owner := Gone\<rparr>) else None)"

subsection \<open>Calls\<close>

definition call_begins :: "nat \<Rightarrow> 'j \<Rightarrow> ('j, 'a, 's) worker \<Rightarrow> ('j, 'a, 's) worker option" where
  "call_begins c j w =
     (if wo_owner w \<noteq> Owned \<or> wo_calls w c \<noteq> None then None
      else Some (w\<lparr>wo_begun := wo_begun w @ [c],
        wo_calls := (wo_calls w)(c \<mapsto> (j, if wo_failed w then TurnedAway StorageUnavailable else Checked))\<rparr>))"

text \<open>\<open>try_send\<close> on the channel of eight jobs\<close>

definition call_sends :: "nat \<Rightarrow> ('j, 'a, 's) worker \<Rightarrow> ('j, 'a, 's) worker option" where
  "call_sends c w =
     (case phase_of c w of
        Some Checked \<Rightarrow>
          if wo_thread w = Ended then Some (set_phase c (TurnedAway StorageUnavailable) w)
          else if 8 \<le> length (wo_queue w) then Some (set_phase c (TurnedAway StorageOverloaded) w)
          else Some ((set_phase c Waiting w)\<lparr>wo_queue := wo_queue w @ [c], wo_sent := wo_sent w @ [c]\<rparr>)
      | _ \<Rightarrow> None)"

definition call_receives :: "unit received \<Rightarrow> nat \<Rightarrow> ('j, 'a, 's) worker \<Rightarrow> ('j, 'a, 's) worker option" where
  "call_receives m c w =
     (case phase_of c w of
        Some Waiting \<Rightarrow>
          (case (m, wo_replies w c) of
             (Message _, Some r) \<Rightarrow> Some (set_phase c (Returned r) w)
           | (Disconnected, None) \<Rightarrow> if job_alive c w then None else Some (set_phase c (Stopping StorageUnavailable) w)
           | (Expired, None) \<Rightarrow> Some (set_phase c (Stopping StorageTimedOut) w)
           | _ \<Rightarrow> None)
      | _ \<Rightarrow> None)"

definition call_stops :: "nat \<Rightarrow> ('j, 'a, 's) worker \<Rightarrow> ('j, 'a, 's) worker option" where
  "call_stops c w =
     (case phase_of c w of
        Some (Stopping e) \<Rightarrow> Some ((set_phase c (GaveUp e) w)\<lparr>wo_failed := True\<rparr>)
      | _ \<Rightarrow> None)"

subsection \<open>Steps\<close>

fun worker_next ::
  "('j \<Rightarrow> 's \<Rightarrow> ('a, store_error) result \<times> 's) \<Rightarrow> 'j worker_event \<Rightarrow> ('j, 'a, 's) worker \<Rightarrow> ('j, 'a, 's) worker option" where
  "worker_next exec (OtherWriter j) w = other_writer exec j w"
| "worker_next exec (ThreadOpens r) w = thread_opens r w"
| "worker_next exec ThreadReady w = thread_ready w"
| "worker_next exec ThreadReceives w = thread_receives w"
| "worker_next exec ThreadEnters w = thread_enters w"
| "worker_next exec ThreadWorks w = thread_works exec w"
| "worker_next exec ThreadLeaves w = thread_leaves w"
| "worker_next exec (OwnerReceives m) w = owner_receives m w"
| "worker_next exec OwnerStops w = owner_stops w"
| "worker_next exec OwnerDrops w = owner_drops w"
| "worker_next exec (CallBegins c j) w = call_begins c j w"
| "worker_next exec (CallSends c) w = call_sends c w"
| "worker_next exec (CallReceives m c) w = call_receives m c w"
| "worker_next exec (CallStops c) w = call_stops c w"

inductive worker_steps ::
  "('j \<Rightarrow> 's \<Rightarrow> ('a, store_error) result \<times> 's) \<Rightarrow> ('j, 'a, 's) worker \<Rightarrow> ('j, 'a, 's) worker \<Rightarrow> bool" for exec where
  refl: "worker_steps exec w w"
| step: "worker_steps exec w w1 \<Longrightarrow> worker_next exec ev w1 = Some w2 \<Longrightarrow> worker_steps exec w w2"

text \<open>A list of events, each of them possible.\<close>

fun worker_run ::
  "('j \<Rightarrow> 's \<Rightarrow> ('a, store_error) result \<times> 's) \<Rightarrow> 'j worker_event list \<Rightarrow> ('j, 'a, 's) worker \<Rightarrow> ('j, 'a, 's) worker option" where
  "worker_run exec [] w = Some w"
| "worker_run exec (ev # evs) w = Option.bind (worker_next exec ev w) (worker_run exec evs)"

lemma worker_run_steps: "worker_run exec evs w1 = Some w2 \<Longrightarrow> worker_steps exec w w1 \<Longrightarrow> worker_steps exec w w2"
  by (induction evs arbitrary: w1) (auto simp: bind_eq_Some_conv intro: worker_steps.step)

end
