(* ===== verification/Host_Storage_Props.thy ===== *)
theory Host_Storage_Props imports Host_Storage Sqlite_Props begin

section \<open>What the bounded worker promises\<close>

text \<open>
  Two invariants of every interleaving: the store is the outcome of the jobs in the log and each
  answer is the one its job gave there; jobs are run at most once, in the order they were sent.
\<close>

subsection \<open>The log of jobs\<close>

definition store_after ::
  "('j \<Rightarrow> 's \<Rightarrow> ('a, store_error) result \<times> 's) \<Rightarrow> 's \<Rightarrow> (nat option \<times> 'j) list \<Rightarrow> 's" where
  "store_after exec s log = fold (\<lambda>x t. snd (exec (snd x) t)) log s"

definition answered_at ::
  "('j \<Rightarrow> 's \<Rightarrow> ('a, store_error) result \<times> 's) \<Rightarrow> 's \<Rightarrow> (nat option \<times> 'j) list \<Rightarrow> nat \<Rightarrow> ('a, store_error) result \<Rightarrow> bool" where
  "answered_at exec s log c r \<longleftrightarrow>
     (\<exists>i < length log. fst (log ! i) = Some c \<and> r = fst (exec (snd (log ! i)) (store_after exec s (take i log))))"

lemma store_after_snoc [simp]: "store_after exec s (log @ [x]) = snd (exec (snd x) (store_after exec s log))"
  by (simp add: store_after_def)

lemma answered_at_mono: "answered_at exec s log c r \<Longrightarrow> answered_at exec s (log @ [x]) c r"
  by (fastforce simp: answered_at_def nth_append)

lemma answered_at_last: "answered_at exec s (log @ [(Some c, j)]) c (fst (exec j (store_after exec s log)))"
  unfolding answered_at_def by (rule exI [of _ "length log"]) simp

definition log_inv ::
  "('j \<Rightarrow> 's \<Rightarrow> ('a, store_error) result \<times> 's) \<Rightarrow> 's \<Rightarrow> ('j, 'a, 's) worker \<Rightarrow> bool" where
  "log_inv exec s w \<longleftrightarrow>
     wo_store w = store_after exec s (wo_log w) \<and>
     (\<forall>c r. wo_replies w c = Some r \<longrightarrow> answered_at exec s (wo_log w) c r) \<and>
     (\<forall>c r. phase_of c w = Some (Returned r) \<longrightarrow> wo_replies w c = Some r)"

lemma log_inv_frame:
  assumes "log_inv exec s w" and "wo_store w' = wo_store w" and "wo_log w' = wo_log w" and "wo_replies w' = wo_replies w"
    and "\<And>c r. phase_of c w' = Some (Returned r) \<Longrightarrow> phase_of c w = Some (Returned r) \<or> wo_replies w c = Some r"
  shows "log_inv exec s w'"
  using assms unfolding log_inv_def by metis

subsection \<open>The order of jobs\<close>

text \<open>The calls whose jobs the worker ran, and the job it holds.\<close>

definition own_jobs :: "('j, 'a, 's) worker \<Rightarrow> nat list" where
  "own_jobs w = List.map_filter fst (wo_log w)"

definition in_hand :: "('j, 'a, 's) worker \<Rightarrow> nat list" where
  "in_hand w = (case wo_thread w of Entering c \<Rightarrow> [c] | Working c \<Rightarrow> [c] | _ \<Rightarrow> [])"

definition was_sent :: "'a call_phase \<Rightarrow> bool" where
  "was_sent p \<longleftrightarrow> (case p of Checked \<Rightarrow> False | TurnedAway e \<Rightarrow> False | _ \<Rightarrow> True)"

definition order_inv :: "('j, 'a, 's) worker \<Rightarrow> bool" where
  "order_inv w \<longleftrightarrow>
     (\<exists>rest. wo_sent w = own_jobs w @ in_hand w @ wo_queue w @ rest \<and> (wo_thread w \<noteq> Ended \<longrightarrow> rest = [])) \<and>
     distinct (wo_sent w) \<and> length (wo_queue w) \<le> 8 \<and>
     (\<forall>c \<in> set (wo_sent w). \<exists>p. phase_of c w = Some p \<and> was_sent p) \<and>
     (\<forall>c p. phase_of c w = Some p \<and> was_sent p \<longrightarrow> c \<in> set (wo_sent w)) \<and>
     (\<forall>c r. wo_replies w c = Some r \<longrightarrow> c \<in> set (own_jobs w)) \<and>
     (\<forall>c j. (Some c, j) \<in> set (wo_log w) \<longrightarrow> (\<exists>p. wo_calls w c = Some (j, p)))"

lemma own_jobs_snoc [simp]:
  "List.map_filter fst (log @ [(None, j)]) = List.map_filter fst log"
  "List.map_filter fst (log @ [(Some c, j)]) = List.map_filter fst log @ [c]"
  by (simp_all add: map_filter_def)

lemma order_invD:
  assumes "order_inv w"
  shows "\<exists>rest. wo_sent w = own_jobs w @ in_hand w @ wo_queue w @ rest \<and> (wo_thread w \<noteq> Ended \<longrightarrow> rest = [])"
    and "distinct (wo_sent w)" and "length (wo_queue w) \<le> 8"
    and "c \<in> set (wo_sent w) \<Longrightarrow> \<exists>p. phase_of c w = Some p \<and> was_sent p"
    and "phase_of c w = Some p \<Longrightarrow> was_sent p \<Longrightarrow> c \<in> set (wo_sent w)"
    and "wo_replies w c = Some r \<Longrightarrow> c \<in> set (own_jobs w)"
    and "(Some c, j) \<in> set (wo_log w) \<Longrightarrow> \<exists>p. wo_calls w c = Some (j, p)"
  using assms by (auto simp: order_inv_def)

text \<open>Steps that leave calls, queue and log alone, or only drop what was queued.\<close>

lemma order_inv_frame:
  assumes inv: "order_inv w" and same: "wo_sent w' = wo_sent w" "own_jobs w' = own_jobs w" "wo_replies w' = wo_replies w"
      "set (wo_log w') \<inter> {x. fst x \<noteq> None} = set (wo_log w) \<inter> {x. fst x \<noteq> None}"
      "\<And>c. map_option fst (wo_calls w' c) = map_option fst (wo_calls w c)"
    and phase: "\<And>c. map_option was_sent (phase_of c w') = map_option was_sent (phase_of c w)"
    and queue: "in_hand w' @ wo_queue w' = in_hand w @ wo_queue w \<and> (wo_thread w = Ended \<longrightarrow> wo_thread w' = Ended) \<and>
         length (wo_queue w') \<le> length (wo_queue w) \<or>
       in_hand w' @ wo_queue w' = [] \<and> wo_thread w' = Ended"
  shows "order_inv w'"
proof -
  note R = order_invD [OF inv]
  obtain rest where rest: "wo_sent w = own_jobs w @ in_hand w @ wo_queue w @ rest" "wo_thread w \<noteq> Ended \<longrightarrow> rest = []"
    using R(1) by blast
  have "\<exists>rest. wo_sent w' = own_jobs w' @ in_hand w' @ wo_queue w' @ rest \<and> (wo_thread w' \<noteq> Ended \<longrightarrow> rest = [])"
    using queue
  proof
    assume "in_hand w' @ wo_queue w' = in_hand w @ wo_queue w \<and> (wo_thread w = Ended \<longrightarrow> wo_thread w' = Ended) \<and>
      length (wo_queue w') \<le> length (wo_queue w)"
    then show ?thesis using rest same by (intro exI [of _ rest]) (metis append_assoc)
  qed (use rest same in simp)
  moreover have "length (wo_queue w') \<le> 8" using queue R(3) by auto
  moreover have "\<exists>p. phase_of c w' = Some p \<and> was_sent p" if "c \<in> set (wo_sent w')" for c
    using R(4) [of c] that phase [of c] by (auto simp: same)
  moreover have "c \<in> set (wo_sent w')" if "phase_of c w' = Some p" "was_sent p" for c p
    using R(5) [of c] that phase [of c] by (cases "phase_of c w") (auto simp: same)
  moreover have "\<exists>p. wo_calls w' c = Some (j, p)" if "(Some c, j) \<in> set (wo_log w')" for c j
  proof -
    have "(Some c, j) \<in> set (wo_log w)" using that same(4) by auto
    from R(7) [OF this] show ?thesis using same(5) [of c] by (cases "wo_calls w' c") auto
  qed
  ultimately show ?thesis using R(2,6) unfolding order_inv_def by (simp add: same)
qed

text \<open>Steps of the protocol that neither send nor run a job.\<close>

definition quiet :: "('j, 'a, 's) worker \<Rightarrow> ('j, 'a, 's) worker \<Rightarrow> bool" where
  "quiet w w' \<longleftrightarrow>
     wo_store w' = wo_store w \<and> wo_log w' = wo_log w \<and> wo_replies w' = wo_replies w \<and> wo_sent w' = wo_sent w \<and>
     (\<forall>c. map_option fst (wo_calls w' c) = map_option fst (wo_calls w c) \<and>
        map_option was_sent (phase_of c w') = map_option was_sent (phase_of c w)) \<and>
     (\<forall>c r. phase_of c w' = Some (Returned r) \<longrightarrow> phase_of c w = Some (Returned r) \<or> wo_replies w c = Some r) \<and>
     (in_hand w' @ wo_queue w' = in_hand w @ wo_queue w \<and> (wo_thread w = Ended \<longrightarrow> wo_thread w' = Ended) \<and>
         length (wo_queue w') \<le> length (wo_queue w) \<or>
       in_hand w' @ wo_queue w' = [] \<and> wo_thread w' = Ended)"

lemmas thread_splits = if_split_asm thread_phase.split_asm result.split_asm list.split_asm owner_phase.split_asm
lemmas call_splits = if_split_asm option.split_asm call_phase.split_asm received.split_asm
lemmas framed = quiet_def in_hand_def phase_of_def thread_end_def was_sent_def

lemma thread_quiet:
  "thread_opens r w = Some w' \<Longrightarrow> quiet w w'" "thread_ready w = Some w' \<Longrightarrow> quiet w w'"
  "thread_receives w = Some w' \<Longrightarrow> quiet w w'" "thread_enters w = Some w' \<Longrightarrow> quiet w w'"
  "thread_leaves w = Some w' \<Longrightarrow> quiet w w'"
  by (auto simp: thread_opens_def thread_ready_def thread_receives_def thread_enters_def thread_leaves_def framed
      split: thread_splits)

lemma owner_quiet:
  "owner_receives m w = Some w' \<Longrightarrow> quiet w w'" "owner_stops w = Some w' \<Longrightarrow> quiet w w'"
  "owner_drops w = Some w' \<Longrightarrow> quiet w w'"
  by (auto simp: owner_receives_def owner_stops_def owner_drops_def framed
      split: if_split_asm received.split_asm option.split_asm result.split_asm owner_phase.split_asm)

lemma call_quiet:
  "call_receives m c w = Some w' \<Longrightarrow> quiet w w'" "call_stops c w = Some w' \<Longrightarrow> quiet w w'"
  by (auto simp: call_receives_def call_stops_def set_phase_def framed split: call_splits)

lemma order_inv_quiet: "order_inv w \<Longrightarrow> quiet w w' \<Longrightarrow> order_inv w'"
  by (rule order_inv_frame) (auto simp: quiet_def own_jobs_def)

lemma log_inv_quiet: "log_inv exec s w \<Longrightarrow> quiet w w' \<Longrightarrow> log_inv exec s w'"
  by (rule log_inv_frame) (auto simp: quiet_def)

lemma log_inv_sends:
  assumes "log_inv exec s w" and "call_begins c j w = Some w' \<or> call_sends c w = Some w'"
  shows "log_inv exec s w'"
  using assms(2) by (intro log_inv_frame [OF assms(1)])
    (auto simp: call_begins_def call_sends_def set_phase_def phase_of_def split: if_split_asm option.split_asm call_phase.split_asm)

lemmas quiet_steps = thread_quiet owner_quiet call_quiet

lemma order_inv_step:
  assumes inv: "order_inv w" and step: "worker_next exec ev w = Some w'"
  shows "order_inv w'"
proof (cases ev)
  case (OtherWriter j)
  then show ?thesis
    using step by (intro order_inv_frame [OF inv])
      (auto simp: other_writer_def own_jobs_def in_hand_def phase_of_def split: if_split_asm thread_phase.split_asm prod.split_asm)
next
  case ThreadWorks
  then obtain c where c: "wo_thread w = Working c"
    using step by (auto simp: thread_works_def split: thread_phase.splits)
  let ?j = "fst (the (wo_calls w c))"
  have w': "wo_log w' = wo_log w @ [(Some c, ?j)]" "wo_calls w' = wo_calls w" "wo_sent w' = wo_sent w"
      "wo_replies w' = wo_replies w \<or> (\<exists>r. wo_replies w' = (wo_replies w)(c \<mapsto> r))"
      "wo_queue w' = wo_queue w \<and> wo_thread w' = Leaving \<or> wo_queue w' = [] \<and> wo_thread w' = Ended"
    using step c ThreadWorks by (auto simp: thread_works_def thread_end_def Let_def split: if_split_asm thread_phase.split_asm prod.split_asm result.split_asm)
  then have own: "own_jobs w' = own_jobs w @ [c]" "in_hand w = [c]" "in_hand w' = []"
    using c by (auto simp: own_jobs_def in_hand_def)
  have phase: "phase_of c w' = phase_of c w" for c using w'(2) by (simp add: phase_of_def)
  note R = order_invD [OF inv]
  obtain rest where rest: "wo_sent w = own_jobs w @ in_hand w @ wo_queue w @ rest" "wo_thread w \<noteq> Ended \<longrightarrow> rest = []"
    using R(1) by blast
  have "\<exists>p. wo_calls w c = Some (?j, p)" using R(4) [of c] rest own(2) by (auto simp: phase_of_def)
  moreover have "\<exists>rest. wo_sent w' = own_jobs w' @ in_hand w' @ wo_queue w' @ rest \<and> (wo_thread w' \<noteq> Ended \<longrightarrow> rest = [])"
    using rest w'(3,5) own(1-3) c by auto
  moreover have "length (wo_queue w') \<le> 8" using R(3) w'(5) by auto
  moreover have "d \<in> set (own_jobs w')" if "wo_replies w' d = Some r" for d r
    using that R(6) [of d] w'(4) own(1) by (auto split: if_splits)
  moreover have "\<exists>p. wo_calls w' d = Some (i, p)" if "(Some d, i) \<in> set (wo_log w')" for d i
    using that R(7) [of d i] \<open>\<exists>p. wo_calls w c = Some (?j, p)\<close> by (auto simp: w'(1,2))
  ultimately show ?thesis
    unfolding order_inv_def phase w'(3) using R(2,4,5) by blast
next
  case (CallBegins c j)
  then have new: "wo_calls w c = None" and "\<exists>p. wo_calls w' = (wo_calls w)(c \<mapsto> (j, p)) \<and> \<not> was_sent p"
      and same: "wo_log w' = wo_log w" "wo_sent w' = wo_sent w" "wo_replies w' = wo_replies w" "wo_queue w' = wo_queue w"
        "wo_thread w' = wo_thread w"
    using step by (auto simp: call_begins_def was_sent_def simp del: not_None_eq split: if_splits)
  then obtain p where p: "wo_calls w' = (wo_calls w)(c \<mapsto> (j, p))" "\<not> was_sent p" by blast
  have "own_jobs w' = own_jobs w" "in_hand w' = in_hand w" using same by (simp_all add: own_jobs_def in_hand_def)
  moreover have phase: "phase_of d w' = (if d = c then Some p else phase_of d w)" for d
    by (simp add: phase_of_def p(1))
  moreover have "c \<notin> set (wo_sent w)" using order_invD(4) [OF inv, of c] new by (auto simp: phase_of_def)
  ultimately have others: "phase_of d w' = phase_of d w" if "d \<in> set (wo_sent w)" for d
    using that by auto
  have eqs: "own_jobs w' = own_jobs w" "in_hand w' = in_hand w" using same by (simp_all add: own_jobs_def in_hand_def)
  show ?thesis
    unfolding order_inv_def same eqs
  proof (intro conjI ballI allI impI)
    show "\<exists>q. phase_of d w' = Some q \<and> was_sent q" if "d \<in> set (wo_sent w)" for d
      using order_invD(4) [OF inv that] others [OF that] by simp
    show "d \<in> set (wo_sent w)" if "phase_of d w' = Some q \<and> was_sent q" for d q
      using order_invD(5) [OF inv, of d q] that p(2) by (cases "d = c") (auto simp: phase_of_def p(1))
    show "\<exists>q. wo_calls w' d = Some (i, q)" if "(Some d, i) \<in> set (wo_log w)" for d i
      using order_invD(7) [OF inv that] new by (auto simp: p(1))
  qed (use order_invD(1-3,6) [OF inv] in simp_all)
next
  case (CallSends c)
  then have c: "phase_of c w = Some Checked"
    using step by (auto simp: call_sends_def split: option.splits call_phase.splits)
  show ?thesis
  proof (cases "wo_thread w = Ended \<or> 8 \<le> length (wo_queue w)")
    case True
    then show ?thesis
      using step CallSends c by (intro order_inv_frame [OF inv])
        (auto simp: call_sends_def set_phase_def phase_of_def own_jobs_def in_hand_def was_sent_def split: if_splits)
  next
    case False
    then have w': "w' = (set_phase c Waiting w)\<lparr>wo_queue := wo_queue w @ [c], wo_sent := wo_sent w @ [c]\<rparr>"
      using step CallSends c by (simp add: call_sends_def)
    have new: "c \<notin> set (wo_sent w)" using order_invD(4) [OF inv, of c] c by (auto simp: was_sent_def)
    have eqs: "own_jobs w' = own_jobs w" "in_hand w' = in_hand w" "wo_sent w' = wo_sent w @ [c]" "wo_queue w' = wo_queue w @ [c]"
        "wo_replies w' = wo_replies w" "wo_log w' = wo_log w" "wo_thread w' = wo_thread w"
      by (simp_all add: w' own_jobs_def in_hand_def set_phase_def)
    obtain j where j: "wo_calls w c = Some (j, Checked)" using c by (auto simp: phase_of_def)
    have phase: "phase_of d w' = (if d = c then Some Waiting else phase_of d w)" for d
      by (simp add: w' set_phase_def phase_of_def)
    show ?thesis
      unfolding order_inv_def
    proof (intro conjI ballI allI impI)
      show "\<exists>rest. wo_sent w' = own_jobs w' @ in_hand w' @ wo_queue w' @ rest \<and> (wo_thread w' \<noteq> Ended \<longrightarrow> rest = [])"
        using order_invD(1) [OF inv] False by (auto simp: eqs)
      show "\<exists>q. phase_of d w' = Some q \<and> was_sent q" if "d \<in> set (wo_sent w')" for d
        using order_invD(4) [OF inv, of d] that by (auto simp: phase eqs was_sent_def)
      show "d \<in> set (wo_sent w')" if "phase_of d w' = Some q \<and> was_sent q" for d q
        using order_invD(5) [OF inv, of d q] that by (auto simp: phase eqs split: if_splits)
      show "\<exists>q. wo_calls w' d = Some (i, q)" if "(Some d, i) \<in> set (wo_log w')" for d i
        using order_invD(7) [OF inv, of d i] that j by (auto simp: eqs w' set_phase_def)
    qed (use order_invD(2,3,6) [OF inv] new False in \<open>auto simp: eqs\<close>)
  qed
qed (use step in \<open>auto intro: order_inv_quiet [OF inv] quiet_steps\<close>)

lemma log_inv_step:
  assumes inv: "log_inv exec s w" and order: "order_inv w" and step: "worker_next exec ev w = Some w'"
  shows "log_inv exec s w'"
proof (cases ev)
  case (OtherWriter j)
  then have "wo_store w' = snd (exec j (wo_store w))" "wo_log w' = wo_log w @ [(None, j)]"
      "wo_replies w' = wo_replies w" "wo_calls w' = wo_calls w"
    using step by (auto simp: other_writer_def split: if_split_asm thread_phase.split_asm prod.split_asm result.split_asm)
  then show ?thesis using inv by (auto simp: log_inv_def phase_of_def intro: answered_at_mono)
next
  case ThreadWorks
  then obtain c where c: "wo_thread w = Working c"
    using step by (auto simp: thread_works_def split: thread_phase.splits)
  let ?j = "fst (the (wo_calls w c))"
  have w': "wo_store w' = snd (exec ?j (wo_store w))" "wo_log w' = wo_log w @ [(Some c, ?j)]" "wo_calls w' = wo_calls w"
      "wo_replies w' = wo_replies w \<or> wo_replies w' = (wo_replies w)(c \<mapsto> fst (exec ?j (wo_store w)))"
    using step c ThreadWorks by (auto simp: thread_works_def thread_end_def Let_def split: if_split_asm thread_phase.split_asm prod.split_asm result.split_asm)
  have "c \<notin> set (own_jobs w)" using order_invD(1,2) [OF order] c by (auto simp: in_hand_def)
  then have none: "wo_replies w c = None" using order_invD(6) [OF order, of c] by (cases "wo_replies w c") auto
  have store: "wo_store w = store_after exec s (wo_log w)" using inv by (simp add: log_inv_def)
  have kept: "answered_at exec s (wo_log w') d r" if "wo_replies w d = Some r" for d r
  proof -
    have "answered_at exec s (wo_log w) d r" using inv that by (simp add: log_inv_def)
    then show ?thesis unfolding w'(2) by (rule answered_at_mono)
  qed
  have "answered_at exec s (wo_log w') d r" if "wo_replies w' d = Some r" for d r
  proof (cases "wo_replies w d = Some r")
    case False
    then have "d = c" "r = fst (exec ?j (store_after exec s (wo_log w)))"
      using that w'(4) store by (cases "d = c"; force)+
    then show ?thesis using answered_at_last [of exec s "wo_log w" c ?j] by (simp add: w'(2))
  qed (rule kept)
  moreover have "wo_replies w' d = Some r" if "phase_of d w' = Some (Returned r)" for d r
  proof -
    have "wo_replies w d = Some r" using inv that unfolding log_inv_def phase_of_def w'(3) by blast
    then show ?thesis using none w'(4) by auto
  qed
  moreover have "wo_store w' = store_after exec s (wo_log w')" by (simp add: w'(1,2) store)
  ultimately show ?thesis unfolding log_inv_def by blast
qed (use step in \<open>auto intro: log_inv_quiet [OF inv] log_inv_sends [OF inv] quiet_steps\<close>)

subsection \<open>Every interleaving\<close>

lemma worker_new_inv: "order_inv (worker_new s)" "log_inv exec s (worker_new s)"
  by (simp_all add: order_inv_def log_inv_def worker_new_def own_jobs_def in_hand_def phase_of_def store_after_def
      List.map_filter_simps)

lemma worker_invs:
  fixes w :: "('j, 'a, 's) worker"
  assumes "worker_steps exec (worker_new s) w"
  shows "order_inv w \<and> log_inv exec s w"
  using assms
proof (induction "worker_new s :: ('j, 'a, 's) worker" w rule: worker_steps.induct)
  case refl
  show ?case using worker_new_inv(1) worker_new_inv(2) by (rule conjI)
next
  case (step w1 ev w2)
  then show ?case by (metis order_inv_step log_inv_step)
qed

subsection \<open>Fail-stop\<close>





















lemma jobs_once:
  fixes w :: "('j, 'a, 's) worker"
  assumes "worker_steps exec (worker_new s) w"
  shows "distinct (own_jobs w)" and "prefix (own_jobs w) (wo_sent w)" and "length (wo_queue w) \<le> 8"
    and "phase_of c w = Some (TurnedAway e) \<Longrightarrow> c \<notin> set (own_jobs w)"
proof -
  have inv: "order_inv w" using worker_invs [OF assms] by simp
  show pre: "prefix (own_jobs w) (wo_sent w)" using order_invD(1) [OF inv] by (auto simp: prefix_def)
  show "distinct (own_jobs w)" using order_invD(2) [OF inv] pre by (auto simp: prefix_def)
  show "length (wo_queue w) \<le> 8" by (rule order_invD(3) [OF inv])
  show "c \<notin> set (own_jobs w)" if "phase_of c w = Some (TurnedAway e)"
    using order_invD(4) [OF inv, of c] that set_mono_prefix [OF pre] by (auto simp: was_sent_def)
qed

lemma run_calls_log:
  "snd (run_calls K (map snd log) c) = store_after (\<lambda>j. sqlite_call (fst j) K (snd j)) c log"
  "i < length log \<Longrightarrow> fst (run_calls K (map snd log) c) ! i =
     fst (sqlite_call (fst (snd (log ! i))) K (snd (snd (log ! i)))
       (store_after (\<lambda>j. sqlite_call (fst j) K (snd j)) c (take i log)))"
proof (induction log arbitrary: c i)
  case (Cons x log)
  {
    case 1
    show ?case using Cons.IH(1) by (cases x; cases "snd x") (auto simp: store_after_def split_beta)
  next
    case 2
    then show ?case
      using Cons.IH(2) by (cases x; cases "snd x"; cases i) (auto simp: store_after_def split_beta)
  }
qed (simp_all add: store_after_def)

subsection \<open>The properties\<close>

text \<open>
  C9: The store behind the host's worker is linearizable. In every interleaving of callers,
  worker thread and other writers of the database, with deadlines that expire anywhere: the
  tables represent what the in-memory store holds after the logged jobs one after the other, with
  whole jobs lost to faults of the driver, each answer a caller got is the answer of its own job in
  that sequence, and the worker runs its jobs at most once, in the order they were sent.
\<close>

theorem host_store_linearizable:
  fixes w :: "(driver \<times> 'v store_call, 'v store_answer, sqlite) worker"
  assumes "worker_steps (\<lambda>j. sqlite_call (fst j) K (snd j)) (worker_new (fresh_sqlite epoch)) w"
    and "\<forall>x \<in> set (wo_log w). call_storable K (snd (snd x))" and "2 * int (length (wo_log w)) < i64_max"
  shows "\<exists>faults. list_all2 may_fail (map snd (wo_log w)) faults \<and>
    tables_view K (cn_tables (wo_store w)) =
      snd (lossy_run memory_call faults (map (snd \<circ> snd) (wo_log w)) memory_default) \<and>
    (\<forall>c r. phase_of c w = Some (Returned r) \<longrightarrow>
       (\<exists>i < length (wo_log w). fst (wo_log w ! i) = Some c \<and>
          r = fst (lossy_run memory_call faults (map (snd \<circ> snd) (wo_log w)) memory_default) ! i)) \<and>
    distinct (own_jobs w) \<and> prefix (own_jobs w) (wo_sent w)"
proof -
  let ?log = "wo_log w" and ?exec = "\<lambda>j. sqlite_call (fst j) K (snd j)"
  have inv: "log_inv ?exec (fresh_sqlite epoch) w" using worker_invs [OF assms(1)] by simp
  have "\<forall>call \<in> snd ` set (map snd ?log). call_storable K call" using assms(2) by auto
  from calls_refine [OF this migrated_represents, of epoch] assms(3)
  obtain faults where faults: "list_all2 may_fail (map snd ?log) faults"
      "fst (run_calls K (map snd ?log) (fresh_sqlite epoch)) =
        fst (lossy_run memory_call faults (map snd (map snd ?log)) memory_default)"
      "represents K (snd (run_calls K (map snd ?log) (fresh_sqlite epoch)))
        (snd (lossy_run memory_call faults (map snd (map snd ?log)) memory_default))"
    by (auto simp: fresh_sqlite_def migrated_def)
  have store: "wo_store w = snd (run_calls K (map snd ?log) (fresh_sqlite epoch))"
    using inv by (simp add: log_inv_def run_calls_log(1))
  have "\<exists>i < length ?log. fst (?log ! i) = Some c \<and>
      r = fst (lossy_run memory_call faults (map (snd \<circ> snd) ?log) memory_default) ! i"
    if "phase_of c w = Some (Returned r)" for c r
  proof -
    have "answered_at ?exec (fresh_sqlite epoch) ?log c r" using inv that by (simp add: log_inv_def)
    then obtain i where i: "i < length ?log" "fst (?log ! i) = Some c"
        "r = fst (?exec (snd (?log ! i)) (store_after ?exec (fresh_sqlite epoch) (take i ?log)))"
      by (auto simp: answered_at_def)
    then show ?thesis using run_calls_log(2) [OF i(1), of K "fresh_sqlite epoch"] faults(2) by auto
  qed
  moreover have "tables_view K (cn_tables (wo_store w)) =
      snd (lossy_run memory_call faults (map (snd \<circ> snd) ?log) memory_default)"
    using representsD(2) [OF faults(3)] by (simp add: store)
  ultimately show ?thesis using faults(1) jobs_once(1,2) [OF assms(1)] by blast
qed

definition sample_job :: "driver \<times> nat store_call" where
  "sample_job = (sample_driver None, RecordCall (CreateSession (Ident ''s'')))"

definition sample_exec :: "driver \<times> nat store_call \<Rightarrow> sqlite \<Rightarrow> (nat store_answer, store_error) result \<times> sqlite" where
  "sample_exec j = sqlite_call (fst j) sample_formats (snd j)"

definition sample_events :: "(driver \<times> nat store_call) worker_event list" where
  "sample_events =
     [ThreadOpens (Ok ()), ThreadReady, OwnerReceives (Message ()), CallBegins 0 sample_job, CallSends 0,
      ThreadReceives, ThreadEnters, ThreadWorks, CallReceives (Message ()) 0]"

definition sample_worker :: "(driver \<times> nat store_call, nat store_answer, sqlite) worker" where
  "sample_worker =
     \<lparr>wo_store = sample_db0, wo_poisoned = False, wo_failed = False, wo_thread = Leaving, wo_owner = Owned,
      wo_ready = Some (Ok ()), wo_queue = [], wo_calls = [0 \<mapsto> (sample_job, Returned (Ok Done))],
      wo_replies = [0 \<mapsto> Ok Done], wo_begun = [0], wo_sent = [0], wo_log = [(Some 0, sample_job)]\<rparr>"

lemmas worker_eval = other_writer_def thread_opens_def thread_ready_def thread_receives_def thread_enters_def
  thread_works_def thread_leaves_def owner_receives_def owner_stops_def owner_drops_def call_begins_def
  call_sends_def call_receives_def call_stops_def thread_end_def set_phase_def phase_of_def worker_new_def Let_def

lemma sample_worker_steps: "worker_steps sample_exec (worker_new (fresh_sqlite ''e'')) sample_worker"
proof (rule worker_run_steps [OF _ worker_steps.refl])
  show "worker_run sample_exec sample_events (worker_new (fresh_sqlite ''e'')) = Some sample_worker"
    by (simp add: sample_events_def sample_worker_def worker_eval sample_exec_def sample_job_def sample_create)
qed

theorem host_store_linearizable_witness:
  "\<exists>faults. tables_view sample_formats (cn_tables (wo_store sample_worker)) =
      snd (lossy_run memory_call faults [RecordCall (CreateSession (Ident ''s''))] (memory_default :: nat memory_state)) \<and>
    Ok Done = fst (lossy_run memory_call faults [RecordCall (CreateSession (Ident ''s''))] (memory_default :: nat memory_state)) ! 0"
proof -
  have steps: "worker_steps (\<lambda>j. sqlite_call (fst j) sample_formats (snd j)) (worker_new (fresh_sqlite ''e'')) sample_worker"
    using sample_worker_steps by (simp add: sample_exec_def [abs_def])
  have log: "wo_log sample_worker = [(Some 0, sample_job)]" "phase_of 0 sample_worker = Some (Returned (Ok Done))"
    by (simp_all add: sample_worker_def phase_of_def)
  have storable: "\<forall>x \<in> set (wo_log sample_worker). call_storable sample_formats (snd (snd x))"
    using sample_calls_storable by (simp add: log sample_job_def sample_calls_def)
  have short: "2 * int (length (wo_log sample_worker)) < i64_max" by (simp add: log i64_max_def)
  from host_store_linearizable [OF steps storable short] obtain faults where
    faults: "tables_view sample_formats (cn_tables (wo_store sample_worker)) =
        snd (lossy_run memory_call faults (map (snd \<circ> snd) (wo_log sample_worker)) memory_default)"
      "\<forall>c r. phase_of c sample_worker = Some (Returned r) \<longrightarrow>
        (\<exists>i < length (wo_log sample_worker). fst (wo_log sample_worker ! i) = Some c \<and>
          r = fst (lossy_run memory_call faults (map (snd \<circ> snd) (wo_log sample_worker)) memory_default) ! i)" by blast
  from faults(2) log(2) have "\<exists>i < length (wo_log sample_worker). fst (wo_log sample_worker ! i) = Some 0 \<and>
      Ok Done = fst (lossy_run memory_call faults (map (snd \<circ> snd) (wo_log sample_worker)) memory_default) ! i" by blast
  then show ?thesis using faults(1) by (intro exI [of _ faults]) (simp add: log(1) sample_job_def)
qed







end
