(* ===== verification/Host_Hub.thy ===== *)
theory Host_Hub imports Tools Records Complex_Main begin

section \<open>Application tools that run in the host's client (src/host/tool_hub.rs)\<close>

text \<open>
  The hub binds grants to provider sessions and forwards each tool call of a provider to the
  application on the other side of the host's output, which replies later. \<open>hub_next\<close> says what
  each step of the tasks does: one step per region under a lock, per atomic access or message.
  Receipts go to the store of the binding; its answers are arguments of the steps, and \<open>hu_receipts\<close>
  lists the drafts it acknowledged. Serde, the numbers of JSON (\<open>N\<close>) and the MCP transport are parameters.
\<close>

subsection \<open>JSON limits\<close>

text \<open>
  \<open>N v\<close> is \<open>Some\<close> for a number: its value as a double, if that is finite. \<open>valid_json\<close> is called
  at depth 0; its second argument is what is left to the depth limit.
\<close>

fun valid_json :: "'v json \<Rightarrow> ('v \<Rightarrow> real option option) \<Rightarrow> nat \<Rightarrow> 'v \<Rightarrow> bool" where
  "valid_json J N 0 v = False"
| "valid_json J N (Suc n) v =
     (case j_as_array J v of
        Some xs \<Rightarrow> list_all (valid_json J N n) xs
      | None \<Rightarrow>
        (case j_as_object J v of
           Some m \<Rightarrow> list_all (valid_json J N n) (map snd m)
         | None \<Rightarrow>
           (case N v of
              Some x \<Rightarrow>
                (case x of
                   None \<Rightarrow> False
                 | Some r \<Rightarrow> r \<noteq> of_int \<lfloor>r\<rfloor> \<or> \<bar>r\<bar> \<le> 9007199254740991)
            | None \<Rightarrow> True)))"

definition json_fits :: "'v json \<Rightarrow> ('v \<Rightarrow> real option option) \<Rightarrow> 'v \<Rightarrow> bool" where
  "json_fits J N v \<longleftrightarrow> length (j_text J v) \<le> 65536 \<and> valid_json J N 17 v"

text \<open>\<open>string\<close> of src/host/main.rs\<close>

definition string_param :: "'v json \<Rightarrow> 'v \<Rightarrow> string \<Rightarrow> (string, string) result" where
  "string_param J params key =
     (case j_as_str J (j_index J params key) of
        Some s \<Rightarrow> if s = [] then Err ''missing or empty string parameter'' else Ok s
      | None \<Rightarrow> Err ''missing or empty string parameter'')"

subsection \<open>State\<close>

record 'v hub_definition =
  hd_name :: string
  hd_revision :: string
  hd_description :: string
  hd_schema :: 'v

type_synonym scope_key = "string \<times> string"

definition scope_key :: "tool_scope \<Rightarrow> scope_key" where
  "scope_key s = (as_str (scope_session s), as_str (scope_slot s))"

text \<open>
  \<open>bo_activity\<close> is the number of a cancellation token, \<open>bo_used\<close> the permits in use of four,
  \<open>bo_clear\<close> whether \<open>begin\<close> has passed its check.
\<close>

record bound =
  bo_scope :: tool_scope
  bo_lifetime_cancelled :: bool
  bo_activity :: "nat option"
  bo_used :: nat
  bo_retired :: bool
  bo_clear :: bool

record pending =
  pe_binding :: string
  pe_session :: string
  pe_slot :: string

datatype 'v call_step =
  Admitted | Attempted | Sent | Answering 'v
| Ending "('v, tool_error) result" | Returning "('v, tool_error) result" | Over "('v, tool_error) result"

text \<open>A call in flight: its guard, and the response channel.\<close>

record 'v hub_call =
  hc_binding :: string
  hc_reference :: tool_ref
  hc_input :: 'v
  hc_activity :: nat
  hc_settled :: bool
  hc_question_cancelled :: bool
  hc_response :: "'v option"
  hc_step :: "'v call_step"

datatype hub_event = ToolCall string string | ToolCancel string string

record 'v hub =
  hu_definitions :: "'v hub_definition list"
  hu_used :: "scope_key list"
  hu_bindings :: "scope_key \<rightharpoonup> string"
  hu_bounds :: "string \<rightharpoonup> bound"
  hu_pending :: "string \<rightharpoonup> pending"
  hu_active :: nat
  hu_stopped :: bool
  hu_cancelled :: "nat \<Rightarrow> bool"
  hu_token :: nat
  hu_calls :: "string \<rightharpoonup> 'v hub_call"
  hu_events :: "hub_event list"
  hu_receipts :: "'v draft list"

subsection \<open>Registration and grants\<close>

text \<open>\<open>invoke\<close> stands for the closure that calls the broker.\<close>

fun register_all ::
  "'v json \<Rightarrow> ('v \<Rightarrow> ('v \<Rightarrow> bool, string) result) \<Rightarrow> (tool_ref \<Rightarrow> 'v handler) \<Rightarrow> 'v hub_definition list \<Rightarrow>
   'v tool_registry \<Rightarrow> ('v tool_registry, tool_error) result" where
  "register_all J build invoke [] reg = Ok reg"
| "register_all J build invoke (d # ds) reg =
     (let reference = \<lparr>tool_name = hd_name d, tool_revision = hd_revision d\<rparr> in
      (case tool_register_dynamic J build
          \<lparr>td_reference = reference, td_description = hd_description d, td_input_schema = hd_schema d\<rparr>
          (invoke reference) reg of
         (Ok _, reg') \<Rightarrow> register_all J build invoke ds reg'
       | (Err e, reg') \<Rightarrow> Err e
       | (Panic, reg') \<Rightarrow> Panic))"

definition empty_hub :: "'v hub_definition list \<Rightarrow> 'v hub" where
  "empty_hub ds =
     \<lparr>hu_definitions = ds, hu_used = [], hu_bindings = Map.empty, hu_bounds = Map.empty, hu_pending = Map.empty,
      hu_active = 0, hu_stopped = False, hu_cancelled = (\<lambda>_. False), hu_token = 0, hu_calls = Map.empty,
      hu_events = [], hu_receipts = []\<rparr>"

definition hub_new ::
  "'v json \<Rightarrow> ('v \<Rightarrow> ('v \<Rightarrow> bool, string) result) \<Rightarrow> (tool_ref \<Rightarrow> 'v handler) \<Rightarrow> (tool_error \<Rightarrow> string) \<Rightarrow>
   'v hub_definition list \<Rightarrow> nat \<Rightarrow> ('v tool_registry \<times> 'v hub, string) result" where
  "hub_new J build invoke error_text ds timeout_ms =
     (if 16 < length ds \<or> \<not> (50 \<le> timeout_ms \<and> timeout_ms \<le> 300000) then Err ''tool limits exceeded''
      else rbind (map_err error_text (register_all J build invoke ds [])) (\<lambda>reg. Ok (reg, empty_hub ds)))"

fun stale_grant :: "'v hub_definition list \<Rightarrow> string list \<Rightarrow> tool_ref list \<Rightarrow> bool" where
  "stale_grant ds names [] = False"
| "stale_grant ds names (t # ts) =
     (tool_name t \<in> set names \<or>
      \<not> list_ex (\<lambda>d. hd_name d = tool_name t \<and> hd_revision d = tool_revision t) ds \<or>
      stale_grant ds (tool_name t # names) ts)"

definition hub_validate :: "tool_ref list \<Rightarrow> 'v hub \<Rightarrow> (unit, string) result" where
  "hub_validate tools h =
     (if 16 < length tools \<or> stale_grant (hu_definitions h) [] tools
      then Err ''unknown, duplicate, or stale tool grant'' else Ok ())"

text \<open>
  \<open>bind\<close>: the answer is the binding's id, if any tools were granted. \<open>fresh\<close> is a new identity,
  \<open>transport\<close> the error if the MCP endpoint could not be opened.
\<close>

definition hub_bind ::
  "tool_scope \<Rightarrow> tool_ref list \<Rightarrow> string \<Rightarrow> string option \<Rightarrow> 'v hub \<Rightarrow> (string option, string) result \<times> 'v hub" where
  "hub_bind scope tools fresh transport h =
     (case hub_validate tools h of
        Ok _ \<Rightarrow>
          if tools = [] then (Ok None, h)
          else if 128 \<le> length (hu_used h) \<or> scope_key scope \<in> set (hu_used h)
          then (Err ''tool scope already used or host scope limit reached; restart the host before granting tools to a native continuation'', h)
          else
            (let h' = h\<lparr>hu_used := hu_used h @ [scope_key scope]\<rparr>;
                 state = \<lparr>bo_scope = scope, bo_lifetime_cancelled = False, bo_activity = None, bo_used = 0,
                   bo_retired = False, bo_clear = False\<rparr>
             in (case transport of
                   None \<Rightarrow>
                     (Ok (Some fresh), h'\<lparr>hu_bounds := (hu_bounds h')(fresh \<mapsto> state),
                        hu_bindings := (hu_bindings h')(scope_key scope \<mapsto> fresh)\<rparr>)
                 | Some e \<Rightarrow> (Err e, h')))
      | Err e \<Rightarrow> (Err e, h)
      | Panic \<Rightarrow> (Panic, h))"

subsection \<open>Bindings\<close>

definition set_bound :: "string \<Rightarrow> bound \<Rightarrow> 'v hub \<Rightarrow> 'v hub" where
  "set_bound b x h = h\<lparr>hu_bounds := (hu_bounds h)(b \<mapsto> x)\<rparr>"

definition cancel_token :: "nat \<Rightarrow> 'v hub \<Rightarrow> 'v hub" where
  "cancel_token t h = h\<lparr>hu_cancelled := (hu_cancelled h)(t := True)\<rparr>"

text \<open>\<open>Binding::end\<close>, under the lock of the activity.\<close>

definition binding_end :: "string \<Rightarrow> 'v hub \<Rightarrow> 'v hub" where
  "binding_end b h =
     (case hu_bounds h b of
        None \<Rightarrow> h
      | Some x \<Rightarrow>
        (case bo_activity x of
           None \<Rightarrow> h
         | Some t \<Rightarrow>
             cancel_token t (set_bound b (x\<lparr>bo_activity := None, bo_retired := bo_retired x \<or> bo_used x \<noteq> 0\<rparr>) h)))"

text \<open>The rest of \<open>Binding::begin\<close>: the check, and the new activity.\<close>

definition binding_check :: "string \<Rightarrow> 'v hub \<Rightarrow> (unit, string) result \<times> 'v hub" where
  "binding_check b h =
     (case hu_bounds h b of
        Some x \<Rightarrow>
          if bo_retired x
          then (Err ''tool binding retired after an uncertain invocation; create a fresh session'', set_bound b (x\<lparr>bo_clear := False\<rparr>) h)
          else (Ok (), set_bound b (x\<lparr>bo_clear := True\<rparr>) h)
      | None \<Rightarrow> (Err ''unknown binding'', h))"

definition binding_set :: "string \<Rightarrow> 'v hub \<Rightarrow> 'v hub" where
  "binding_set b h =
     (case hu_bounds h b of
        None \<Rightarrow> h
      | Some x \<Rightarrow>
          (set_bound b (x\<lparr>bo_activity := Some (hu_token h), bo_clear := False\<rparr>) h)\<lparr>hu_token := Suc (hu_token h)\<rparr>)"

definition binding_begin :: "string \<Rightarrow> 'v hub \<Rightarrow> (unit, string) result \<times> 'v hub" where
  "binding_begin b h =
     (case binding_check b (binding_end b h) of
        (Ok _, h') \<Rightarrow> (Ok (), binding_set b h')
      | (Err e, h') \<Rightarrow> (Err e, h')
      | (Panic, h') \<Rightarrow> (Panic, h'))"

definition binding_drop :: "string \<Rightarrow> 'v hub \<Rightarrow> 'v hub" where
  "binding_drop b h =
     (let h' = binding_end b h in
      (case hu_bounds h' b of
         None \<Rightarrow> h'
       | Some x \<Rightarrow>
           (set_bound b (x\<lparr>bo_lifetime_cancelled := True\<rparr>) h')
             \<lparr>hu_bindings := (hu_bindings h')(scope_key (bo_scope x) := None)\<rparr>))"

subsection \<open>Replies\<close>

definition owner_matches :: "'v json \<Rightarrow> 'v \<Rightarrow> pending \<Rightarrow> bool" where
  "owner_matches J params entry \<longleftrightarrow>
     j_as_str J (j_index J params ''binding_id'') = Some (pe_binding entry) \<and>
     j_as_str J (j_index J params ''session_id'') = Some (pe_session entry) \<and>
     j_as_str J (j_index J params ''slot_id'') = Some (pe_slot entry)"

definition outcome_valid :: "'v json \<Rightarrow> ('v \<Rightarrow> real option option) \<Rightarrow> 'v \<Rightarrow> bool" where
  "outcome_valid J N v \<longleftrightarrow>
     json_fits J N v \<and>
     (case j_as_str J (j_index J v ''kind'') of
        None \<Rightarrow> False
      | Some kind \<Rightarrow>
          if kind = ''success'' then j_get J v ''value'' \<noteq> None
          else if kind = ''error'' then j_as_str J (j_index J v ''message'') \<noteq> None
          else False)"

text \<open>Sending fails once the call has stopped waiting.\<close>

definition hub_reply :: "'v json \<Rightarrow> ('v \<Rightarrow> real option option) \<Rightarrow> 'v \<Rightarrow> 'v hub \<Rightarrow> (unit, string) result \<times> 'v hub" where
  "hub_reply J N params h =
     (case string_param J params ''call_id'' of
        Err e \<Rightarrow> (Err e, h)
      | Panic \<Rightarrow> (Panic, h)
      | Ok c \<Rightarrow>
        (case hu_pending h c of
           None \<Rightarrow> (Err ''tool call is not pending'', h)
         | Some entry \<Rightarrow>
             if \<not> owner_matches J params entry then (Err ''tool result belongs to another binding or scope'', h)
             else
               (let outcome = j_index J params ''outcome'' in
                if \<not> outcome_valid J N outcome then (Err ''invalid tool result'', h)
                else
                  (let h' = h\<lparr>hu_pending := (hu_pending h)(c := None)\<rparr> in
                   (case hu_calls h c of
                      Some k \<Rightarrow>
                        if hc_step k = Sent
                        then (Ok (), h'\<lparr>hu_calls := (hu_calls h')(c \<mapsto> k\<lparr>hc_response := Some outcome\<rparr>)\<rparr>)
                        else (Err ''tool call already ended'', h')
                    | None \<Rightarrow> (Err ''tool call already ended'', h'))))))"

record question_owner =
  qw_call :: string
  qw_binding :: string
  qw_scope :: tool_scope

definition hub_question_owner :: "'v json \<Rightarrow> 'v \<Rightarrow> 'v hub \<Rightarrow> (question_owner, string) result" where
  "hub_question_owner J params h =
     rbind (string_param J params ''call_id'') (\<lambda>c.
       (case hu_pending h c of
          None \<Rightarrow> Err ''invocation is not pending''
        | Some entry \<Rightarrow>
            if \<not> owner_matches J params entry \<or> (case hu_calls h c of None \<Rightarrow> True | Some k \<Rightarrow> hc_question_cancelled k)
            then Err ''question belongs to another or ended invocation''
            else
              (case hu_bounds h (pe_binding entry) of
                 Some x \<Rightarrow> Ok \<lparr>qw_call = c, qw_binding = pe_binding entry, qw_scope = bo_scope x\<rparr>
               | None \<Rightarrow> Panic)))"

subsection \<open>Receipts and events\<close>

definition receipt_json ::
  "'v json \<Rightarrow> string \<Rightarrow> string \<Rightarrow> tool_scope \<Rightarrow> tool_ref \<Rightarrow> string \<Rightarrow> (string \<times> 'v) list \<Rightarrow> 'v" where
  "receipt_json J c b scope reference state extra =
     j_object J
       ([(''version'', j_number J 1), (''invocation_id'', j_string J c), (''binding_id'', j_string J b),
         (''scope'', j_object J [(''session'', j_string J (as_str (scope_session scope))),
            (''slot'', j_string J (as_str (scope_slot scope)))]),
         (''tool'', j_object J [(''name'', j_string J (tool_name reference)), (''revision'', j_string J (tool_revision reference))]),
         (''issuer'', j_string J ''host''), (''subject'', j_string J ''assistant''), (''state'', j_string J state)] @ extra)"

definition receipt_draft ::
  "'v json \<Rightarrow> string \<Rightarrow> string \<Rightarrow> tool_scope \<Rightarrow> tool_ref \<Rightarrow> string \<Rightarrow> (string \<times> 'v) list \<Rightarrow> 'v draft" where
  "receipt_draft J c b scope reference state extra =
     \<lparr>d_id = Ident (c @ ''-'' @ state), d_session = scope_session scope, d_run = None, d_actor = Ident ''host'', d_reply = None,
      d_source = None,
      d_payload = PExtension ''agent_bridge'' ''tool_invocation'' (receipt_json J c b scope reference state extra),
      d_state = Complete\<rparr>"

text \<open>\<open>CallGuard::receipt\<close>; \<open>stored\<close> is the error of the store, if it fails.\<close>

definition guard_receipt ::
  "'v json \<Rightarrow> string option \<Rightarrow> string \<Rightarrow> 'v hub_call \<Rightarrow> string \<Rightarrow> (string \<times> 'v) list \<Rightarrow> 'v hub \<Rightarrow>
   (unit, tool_error) result \<times> 'v hub" where
  "guard_receipt J stored c k state extra h =
     (case hu_bounds h (hc_binding k) of
        None \<Rightarrow> (Panic, h)
      | Some x \<Rightarrow>
        (case stored of
           None \<Rightarrow>
             (Ok (), h\<lparr>hu_receipts := hu_receipts h @
                [receipt_draft J c (hc_binding k) (bo_scope x) (hc_reference k) state extra]\<rparr>)
         | Some e \<Rightarrow> (Err (HandlerError (''tool evidence unavailable: '' @ e)), h)))"

text \<open>\<open>Output::emit\<close>: a full channel stops the host.\<close>

definition hub_emit :: "bool \<Rightarrow> hub_event \<Rightarrow> 'v hub \<Rightarrow> 'v hub" where
  "hub_emit room ev h = (if room then h\<lparr>hu_events := hu_events h @ [ev]\<rparr> else h\<lparr>hu_stopped := True\<rparr>)"

subsection \<open>Invocations\<close>

definition set_call :: "string \<Rightarrow> 'v hub_call \<Rightarrow> 'v hub \<Rightarrow> 'v hub" where
  "set_call c k h = h\<lparr>hu_calls := (hu_calls h)(c \<mapsto> k)\<rparr>"

text \<open>\<open>Broker::invoke\<close> up to the guard; the permits are taken under the lock of the activity.\<close>

definition invoke_admits ::
  "'v json \<Rightarrow> ('v \<Rightarrow> real option option) \<Rightarrow> string \<Rightarrow> tool_ref \<Rightarrow> tool_scope \<Rightarrow> 'v \<Rightarrow> 'v hub \<Rightarrow>
   (unit, tool_error) result \<times> 'v hub" where
  "invoke_admits J N c reference scope input h =
     (if \<not> json_fits J N input then (Err (InvalidArguments ''input exceeds JSON transport limits''), h)
      else
        (case hu_bindings h (scope_key scope) of
           None \<Rightarrow> (Err NotGranted, h)
         | Some b \<Rightarrow>
        (case hu_bounds h b of
           None \<Rightarrow> (Err NotGranted, h)
         | Some x \<Rightarrow>
        (case bo_activity x of
           None \<Rightarrow> (Err NotGranted, h)
         | Some t \<Rightarrow>
             if hu_cancelled h t \<or> bo_retired x then (Err NotGranted, h)
             else if 16 \<le> hu_active h then (Err (HandlerError ''tool call capacity reached''), h)
             else if 4 \<le> bo_used x then (Err (HandlerError ''binding call capacity reached''), h)
             else
               (Ok (), set_call c
                  \<lparr>hc_binding = b, hc_reference = reference, hc_input = input, hc_activity = t, hc_settled = False,
                   hc_question_cancelled = False, hc_response = None, hc_step = Admitted\<rparr>
                  (set_bound b (x\<lparr>bo_used := Suc (bo_used x)\<rparr>) (h\<lparr>hu_active := Suc (hu_active h)\<rparr>)))))))"

definition call_cancelled :: "bool \<Rightarrow> 'v hub_call \<Rightarrow> 'v hub \<Rightarrow> bool" where
  "call_cancelled context_cancelled k h \<longleftrightarrow>
     hu_cancelled h (hc_activity k) \<or>
     (case hu_bounds h (hc_binding k) of None \<Rightarrow> True | Some x \<Rightarrow> bo_lifetime_cancelled x) \<or>
     hu_stopped h \<or> context_cancelled"

definition invoke_attempts ::
  "'v json \<Rightarrow> string option \<Rightarrow> string \<Rightarrow> 'v hub_call \<Rightarrow> 'v hub \<Rightarrow> 'v hub" where
  "invoke_attempts J stored c k h =
     (case guard_receipt J stored c k ''dispatch_attempted'' [(''input'', hc_input k)] h of
        (Ok _, h') \<Rightarrow> set_call c (k\<lparr>hc_step := Attempted\<rparr>) h'
      | (Err e, h') \<Rightarrow> set_call c (k\<lparr>hc_step := Ending (Err e)\<rparr>) h'
      | (Panic, h') \<Rightarrow> set_call c (k\<lparr>hc_step := Ending Panic\<rparr>) h')"

definition invoke_sends :: "bool \<Rightarrow> bool \<Rightarrow> string \<Rightarrow> 'v hub_call \<Rightarrow> 'v hub \<Rightarrow> 'v hub" where
  "invoke_sends context_cancelled room c k h =
     (if call_cancelled context_cancelled k h then set_call c (k\<lparr>hc_step := Ending (Err ToolCancelled)\<rparr>) h
      else
        (case hu_bounds h (hc_binding k) of
           None \<Rightarrow> set_call c (k\<lparr>hc_step := Ending Panic\<rparr>) h
         | Some x \<Rightarrow>
             hub_emit room (ToolCall c (hc_binding k))
               (set_call c (k\<lparr>hc_step := Sent\<rparr>)
                 (h\<lparr>hu_pending := (hu_pending h)(c \<mapsto>
                    \<lparr>pe_binding = hc_binding k, pe_session = as_str (scope_session (bo_scope x)),
                     pe_slot = as_str (scope_slot (bo_scope x))\<rparr>)\<rparr>))))"

text \<open>The biased \<open>select!\<close>; \<open>None\<close> if nothing is ready.\<close>

definition invoke_selects :: "bool \<Rightarrow> bool \<Rightarrow> string \<Rightarrow> 'v hub_call \<Rightarrow> 'v hub \<Rightarrow> 'v hub option" where
  "invoke_selects context_cancelled timed_out c k h =
     (if call_cancelled context_cancelled k h then Some (set_call c (k\<lparr>hc_step := Ending (Err ToolCancelled)\<rparr>) h)
      else
        (case hc_response k of
           Some outcome \<Rightarrow> Some (set_call c (k\<lparr>hc_step := Answering outcome\<rparr>) h)
         | None \<Rightarrow>
             if hu_pending h c = None then Some (set_call c (k\<lparr>hc_step := Ending (Err ToolCancelled)\<rparr>) h)
             else if timed_out
             then Some (set_call c (k\<lparr>hc_step := Ending (Err (HandlerError ''application tool timed out; outcome unknown''))\<rparr>) h)
             else None))"

text \<open>What the provider gets for an outcome.\<close>

definition outcome_result :: "'v json \<Rightarrow> 'v \<Rightarrow> ('v, tool_error) result" where
  "outcome_result J outcome =
     (if j_is J (j_index J outcome ''kind'') ''success'' then Ok (j_index J outcome ''value'')
      else (case j_as_str J (j_index J outcome ''message'') of Some m \<Rightarrow> Err (HandlerError m) | None \<Rightarrow> Panic))"

definition invoke_answers :: "'v json \<Rightarrow> string option \<Rightarrow> 'v \<Rightarrow> string \<Rightarrow> 'v hub_call \<Rightarrow> 'v hub \<Rightarrow> 'v hub" where
  "invoke_answers J stored outcome c k h =
     (case guard_receipt J stored c k ''returned'' [(''outcome'', outcome)] h of
        (Ok _, h') \<Rightarrow>
          set_call c (k\<lparr>hc_settled := True,
            hc_step := Ending (outcome_result J outcome)\<rparr>) h'
      | (Err e, h') \<Rightarrow> set_call c (k\<lparr>hc_step := Ending (Err e)\<rparr>) h'
      | (Panic, h') \<Rightarrow> set_call c (k\<lparr>hc_step := Ending Panic\<rparr>) h')"

text \<open>\<open>CallGuard::drop\<close> after its first statement.\<close>

definition retire_binding :: "string \<Rightarrow> nat \<Rightarrow> 'v hub \<Rightarrow> 'v hub" where
  "retire_binding b t h =
     (case hu_bounds h b of
        None \<Rightarrow> cancel_token t h
      | Some x \<Rightarrow>
          (let h' = cancel_token t (set_bound b (x\<lparr>bo_retired := True, bo_activity := None\<rparr>) h) in
           (case bo_activity x of None \<Rightarrow> h' | Some current \<Rightarrow> cancel_token current h')))"

definition guard_ends ::
  "'v json \<Rightarrow> bool \<Rightarrow> string option \<Rightarrow> ('v, tool_error) result \<Rightarrow> string \<Rightarrow> 'v hub_call \<Rightarrow> 'v hub \<Rightarrow> 'v hub" where
  "guard_ends J room stored r c k h =
     (let h' = set_call c (k\<lparr>hc_step := Returning r\<rparr>) (h\<lparr>hu_pending := (hu_pending h)(c := None)\<rparr>) in
      if hc_settled k then h'
      else
        snd (guard_receipt J stored c k ''unknown''
          [(''reason'', j_string J ''invocation ended without an acknowledged, recorded result'')]
          (hub_emit room (ToolCancel c (hc_binding k)) (retire_binding (hc_binding k) (hc_activity k) h'))))"

definition permits_return :: "('v, tool_error) result \<Rightarrow> string \<Rightarrow> 'v hub_call \<Rightarrow> 'v hub \<Rightarrow> 'v hub" where
  "permits_return r c k h =
     (let h' = set_call c (k\<lparr>hc_step := Over r\<rparr>) (h\<lparr>hu_active := hu_active h - 1\<rparr>) in
      (case hu_bounds h' (hc_binding k) of
         None \<Rightarrow> h'
       | Some x \<Rightarrow> set_bound (hc_binding k) (x\<lparr>bo_used := bo_used x - 1\<rparr>) h'))"

subsection \<open>Steps\<close>

datatype 'v hub_step =
  Binds tool_scope "tool_ref list" string "string option"
| EndsActivity string | ChecksBinding string | SetsActivity string | DropsBinding string
| Replies 'v | Stops
| Invokes string tool_ref tool_scope 'v
| Attempts string "string option"
| Sends string bool bool
| Selects string bool bool
| Abandons string
| Answers string "string option"
| GuardCancels string
| GuardEnds string bool "string option"
| PermitsReturn string

text \<open>The owner of a binding acts on it until it drops it.\<close>

definition owned_binding :: "string \<Rightarrow> 'v hub \<Rightarrow> bool" where
  "owned_binding b h \<longleftrightarrow> (case hu_bounds h b of None \<Rightarrow> False | Some x \<Rightarrow> \<not> bo_lifetime_cancelled x)"

definition on_call :: "string \<Rightarrow> 'v hub \<Rightarrow> ('v hub_call \<Rightarrow> 'v hub option) \<Rightarrow> 'v hub option" where
  "on_call c h f = Option.bind (hu_calls h c) f"

fun hub_next :: "'v json \<Rightarrow> ('v \<Rightarrow> real option option) \<Rightarrow> 'v hub_step \<Rightarrow> 'v hub \<Rightarrow> 'v hub option" where
  "hub_next J N (Binds scope tools fresh transport) h =
     (if hu_bounds h fresh = None then Some (snd (hub_bind scope tools fresh transport h)) else None)"
| "hub_next J N (EndsActivity b) h = (if owned_binding b h then Some (binding_end b h) else None)"
| "hub_next J N (ChecksBinding b) h = (if owned_binding b h then Some (snd (binding_check b h)) else None)"
| "hub_next J N (SetsActivity b) h =
     (case hu_bounds h b of
        Some x \<Rightarrow>
          if bo_clear x \<and> bo_activity x = None \<and> \<not> bo_lifetime_cancelled x then Some (binding_set b h) else None
      | None \<Rightarrow> None)"
| "hub_next J N (DropsBinding b) h = (if owned_binding b h then Some (binding_drop b h) else None)"
| "hub_next J N (Replies params) h = Some (snd (hub_reply J N params h))"
| "hub_next J N Stops h = Some (h\<lparr>hu_stopped := True\<rparr>)"
| "hub_next J N (Invokes c reference scope input) h =
     (if hu_calls h c = None then Some (snd (invoke_admits J N c reference scope input h)) else None)"
| "hub_next J N (Attempts c stored) h =
     on_call c h (\<lambda>k. if hc_step k = Admitted then Some (invoke_attempts J stored c k h) else None)"
| "hub_next J N (Sends c context_cancelled room) h =
     on_call c h (\<lambda>k. if hc_step k = Attempted then Some (invoke_sends context_cancelled room c k h) else None)"
| "hub_next J N (Selects c context_cancelled timed_out) h =
     on_call c h (\<lambda>k. if hc_step k = Sent then invoke_selects context_cancelled timed_out c k h else None)"
| "hub_next J N (Abandons c) h =
     on_call c h (\<lambda>k. if hc_step k = Sent then Some (set_call c (k\<lparr>hc_step := Ending (Err ToolCancelled)\<rparr>) h) else None)"
| "hub_next J N (Answers c stored) h =
     on_call c h (\<lambda>k. case hc_step k of Answering v \<Rightarrow> Some (invoke_answers J stored v c k h) | _ \<Rightarrow> None)"
| "hub_next J N (GuardCancels c) h =
     on_call c h (\<lambda>k. case hc_step k of
       Ending r \<Rightarrow> Some (set_call c (k\<lparr>hc_question_cancelled := True\<rparr>) h) | _ \<Rightarrow> None)"
| "hub_next J N (GuardEnds c room stored) h =
     on_call c h (\<lambda>k. case hc_step k of
       Ending r \<Rightarrow> if hc_question_cancelled k then Some (guard_ends J room stored r c k h) else None | _ \<Rightarrow> None)"
| "hub_next J N (PermitsReturn c) h =
     on_call c h (\<lambda>k. case hc_step k of Returning r \<Rightarrow> Some (permits_return r c k h) | _ \<Rightarrow> None)"

inductive hub_steps :: "'v json \<Rightarrow> ('v \<Rightarrow> real option option) \<Rightarrow> 'v hub \<Rightarrow> 'v hub \<Rightarrow> bool" for J N where
  refl: "hub_steps J N h h"
| step: "hub_steps J N h h1 \<Longrightarrow> hub_next J N ev h1 = Some h2 \<Longrightarrow> hub_steps J N h h2"

fun hub_run :: "'v json \<Rightarrow> ('v \<Rightarrow> real option option) \<Rightarrow> 'v hub_step list \<Rightarrow> 'v hub \<Rightarrow> 'v hub option" where
  "hub_run J N [] h = Some h"
| "hub_run J N (ev # evs) h = Option.bind (hub_next J N ev h) (hub_run J N evs)"

lemma hub_run_steps: "hub_run J N evs h1 = Some h2 \<Longrightarrow> hub_steps J N h h1 \<Longrightarrow> hub_steps J N h h2"
  by (induction evs arbitrary: h1) (auto simp: bind_eq_Some_conv intro: hub_steps.step)

lemma hub_steps_trans: "hub_steps J N h1 h2 \<Longrightarrow> hub_steps J N h h1 \<Longrightarrow> hub_steps J N h h2"
  by (induction rule: hub_steps.induct) (auto intro: hub_steps.step)

end
