(* ===== verification/Host_Hub_Props.thy ===== *)
theory Host_Hub_Props imports Host_Hub begin

section \<open>What the tool hub promises\<close>

text \<open>
  Invariants of every interleaving of bindings, calls and replies: each call has its evidence,
  an outcome is valid and used once, and a binding on which a call ended without a recorded
  outcome admits no further call.
\<close>

subsection \<open>Growth\<close>

text \<open>What no step takes back: scopes, retirement, receipts, events.\<close>

definition bound_grows :: "bound \<Rightarrow> bound \<Rightarrow> bool" where
  "bound_grows x x' \<longleftrightarrow>
     bo_scope x' = bo_scope x \<and> (bo_retired x \<longrightarrow> bo_retired x') \<and> (bo_lifetime_cancelled x \<longrightarrow> bo_lifetime_cancelled x')"

definition grows :: "'v hub \<Rightarrow> 'v hub \<Rightarrow> bool" where
  "grows h h' \<longleftrightarrow>
     (\<forall>b x. hu_bounds h b = Some x \<longrightarrow> (\<exists>x'. hu_bounds h' b = Some x' \<and> bound_grows x x')) \<and>
     set (hu_receipts h) \<subseteq> set (hu_receipts h') \<and> set (hu_events h) \<subseteq> set (hu_events h')"

named_theorems grows_intros \<open>steps that take nothing back\<close>

lemma bound_grows_trans: "bound_grows x y \<Longrightarrow> bound_grows y z \<Longrightarrow> bound_grows x z"
  by (auto simp: bound_grows_def)

lemma grows_boundD: "grows h h' \<Longrightarrow> hu_bounds h b = Some x \<Longrightarrow> \<exists>x'. hu_bounds h' b = Some x' \<and> bound_grows x x'"
  by (simp add: grows_def)

lemma grows_refl [grows_intros]: "grows h h"
  by (simp add: grows_def bound_grows_def)

lemma grows_trans:
  assumes "grows h h1" and "grows h1 h2"
  shows "grows h h2"
  unfolding grows_def
proof (intro conjI allI impI)
  fix b x assume "hu_bounds h b = Some x"
  from grows_boundD [OF assms(1) this] obtain y where "hu_bounds h1 b = Some y" "bound_grows x y" by blast
  moreover from grows_boundD [OF assms(2) this(1)] obtain z where "hu_bounds h2 b = Some z" "bound_grows y z" by blast
  ultimately show "\<exists>z. hu_bounds h2 b = Some z \<and> bound_grows x z" by (blast intro: bound_grows_trans)
qed (use assms in \<open>auto simp: grows_def\<close>)

lemma grows_set_bound [grows_intros]:
  assumes "grows h0 h" and "hu_bounds h b = Some x" and "bound_grows x x'"
  shows "grows h0 (set_bound b x' h)"
  by (rule grows_trans [OF assms(1)]) (use assms(2,3) in \<open>auto simp: grows_def set_bound_def bound_grows_def\<close>)

lemma grows_basic [grows_intros]:
  "grows h0 h \<Longrightarrow> grows h0 (cancel_token t h)" "grows h0 h \<Longrightarrow> grows h0 (set_call c k h)"
  "grows h0 h \<Longrightarrow> grows h0 (h\<lparr>hu_calls := cs\<rparr>)"
  "grows h0 h \<Longrightarrow> grows h0 (h\<lparr>hu_pending := p\<rparr>)" "grows h0 h \<Longrightarrow> grows h0 (h\<lparr>hu_active := n\<rparr>)"
  "grows h0 h \<Longrightarrow> grows h0 (h\<lparr>hu_stopped := s\<rparr>)" "grows h0 h \<Longrightarrow> grows h0 (hub_emit room ev h)"
  "grows h0 h \<Longrightarrow> grows h0 (h\<lparr>hu_bindings := m\<rparr>)" "grows h0 h \<Longrightarrow> grows h0 (h\<lparr>hu_token := n\<rparr>)"
  "grows h0 h \<Longrightarrow> grows h0 (h\<lparr>hu_used := u\<rparr>)" "grows h0 h \<Longrightarrow> grows h0 (snd (guard_receipt J stored c k state extra h))"
  by (auto simp: grows_def cancel_token_def set_call_def hub_emit_def guard_receipt_def split: option.splits)

lemma grows_receipt: "grows h0 h \<Longrightarrow> guard_receipt J stored c k state extra h = (r, h') \<Longrightarrow> grows h0 h'"
  using grows_basic(11) [of h0 h J stored c k state extra] by simp

lemma grows_end [grows_intros]: "grows h0 h \<Longrightarrow> grows h0 (binding_end b h)"
  by (auto simp: binding_end_def bound_grows_def intro!: grows_intros split: option.split)

lemma grows_retire [grows_intros]: "grows h0 h \<Longrightarrow> grows h0 (retire_binding b t h)"
  by (auto simp: retire_binding_def Let_def bound_grows_def intro!: grows_intros split: option.split)

lemma grows_evidence [grows_intros]:
  "grows h0 h \<Longrightarrow> grows h0 (invoke_attempts J stored c k h)"
  "grows h0 h \<Longrightarrow> grows h0 (invoke_answers J stored v c k h)"
  by (auto simp: invoke_attempts_def invoke_answers_def split: result.split prod.split
      intro!: grows_basic(2) elim: grows_receipt)

lemma grows_call [grows_intros]:
  "grows h0 h \<Longrightarrow> grows h0 (invoke_sends ctx room c k h)"
  "grows h0 h \<Longrightarrow> grows h0 (guard_ends J room stored r c k h)"
  "grows h0 h \<Longrightarrow> grows h0 (permits_return r c k h)"
  "grows h0 h \<Longrightarrow> grows h0 (snd (invoke_admits J N c reference scope input h))"
  by (auto simp: invoke_sends_def guard_ends_def permits_return_def invoke_admits_def Let_def bound_grows_def set_call_def
      split: option.split intro!: grows_intros)

lemma grows_selects: "invoke_selects ctx timed_out c k h = Some h' \<Longrightarrow> grows h h'"
  by (auto simp: invoke_selects_def split: option.split_asm if_split_asm intro!: grows_intros)

lemma grows_binding [grows_intros]:
  "grows h0 h \<Longrightarrow> grows h0 (snd (binding_check b h))" "grows h0 h \<Longrightarrow> grows h0 (binding_set b h)"
  "grows h0 h \<Longrightarrow> grows h0 (binding_drop b h)" "grows h0 h \<Longrightarrow> grows h0 (snd (hub_reply J N params h))"
  by (auto simp: binding_check_def binding_set_def binding_drop_def hub_reply_def Let_def bound_grows_def
      split: option.split result.split intro!: grows_intros)

lemma on_call_Some:
  "on_call c h f = Some h' \<longleftrightarrow> (\<exists>k. hu_calls h c = Some k \<and> f k = Some h')"
  by (simp add: on_call_def bind_eq_Some_conv)

lemma in_step:
  "(case st of Answering v \<Rightarrow> f v | _ \<Rightarrow> None) = Some y \<longleftrightarrow> (\<exists>v. st = Answering v \<and> f v = Some y)"
  "(case st of Ending r \<Rightarrow> g r | _ \<Rightarrow> None) = Some y \<longleftrightarrow> (\<exists>r. st = Ending r \<and> g r = Some y)"
  "(case st of Returning r \<Rightarrow> g r | _ \<Rightarrow> None) = Some y \<longleftrightarrow> (\<exists>r. st = Returning r \<and> g r = Some y)"
  by (cases st; simp)+

lemma grows_step:
  assumes "hub_next J N ev h = Some h'"
  shows "grows h h'"
proof (cases ev)
  case (Binds scope tools fresh transport)
  then show ?thesis
    using assms by (auto simp: hub_bind_def Let_def grows_def bound_grows_def split: result.splits option.splits if_split_asm)
next
  case (Selects c ctx timed_out)
  then show ?thesis using assms grows_selects by (auto simp: on_call_Some split: if_split_asm)
qed (use assms in \<open>auto simp: on_call_Some in_step split: if_split_asm option.split_asm intro!: grows_intros\<close>)

subsection \<open>Evidence of a call\<close>

definition attempted_draft :: "'v json \<Rightarrow> string \<Rightarrow> 'v hub_call \<Rightarrow> tool_scope \<Rightarrow> 'v draft" where
  "attempted_draft J c k scope =
     receipt_draft J c (hc_binding k) scope (hc_reference k) ''dispatch_attempted'' [(''input'', hc_input k)]"

definition returned_draft :: "'v json \<Rightarrow> string \<Rightarrow> 'v hub_call \<Rightarrow> tool_scope \<Rightarrow> 'v \<Rightarrow> 'v draft" where
  "returned_draft J c k scope outcome =
     receipt_draft J c (hc_binding k) scope (hc_reference k) ''returned'' [(''outcome'', outcome)]"

lemma outcome_result_total: "outcome_valid J N v \<Longrightarrow> outcome_result J v \<noteq> Panic"
  by (auto simp: outcome_valid_def outcome_result_def j_is_def split: option.splits if_splits)

fun step_result :: "'v call_step \<Rightarrow> ('v, tool_error) result option" where
  "step_result (Ending r) = Some r"
| "step_result (Returning r) = Some r"
| "step_result (Over r) = Some r"
| "step_result _ = None"

fun guard_gone :: "'v call_step \<Rightarrow> bool" where
  "guard_gone (Returning r) = True"
| "guard_gone (Over r) = True"
| "guard_gone _ = False"

fun dispatching :: "'v call_step \<Rightarrow> bool" where
  "dispatching Attempted = True"
| "dispatching Sent = True"
| "dispatching (Answering v) = True"
| "dispatching _ = False"

definition call_ok :: "'v json \<Rightarrow> ('v \<Rightarrow> real option option) \<Rightarrow> 'v hub \<Rightarrow> string \<Rightarrow> 'v hub_call \<Rightarrow> bool" where
  "call_ok J N h c k \<longleftrightarrow>
     (\<exists>x. hu_bounds h (hc_binding k) = Some x \<and>
        (\<forall>v. hc_response k = Some v \<or> hc_step k = Answering v \<longrightarrow> outcome_valid J N v) \<and>
        (dispatching (hc_step k) \<longrightarrow> attempted_draft J c k (bo_scope x) \<in> set (hu_receipts h)) \<and>
        (hc_settled k \<longrightarrow>
           attempted_draft J c k (bo_scope x) \<in> set (hu_receipts h) \<and>
           (\<exists>v. outcome_valid J N v \<and> returned_draft J c k (bo_scope x) v \<in> set (hu_receipts h) \<and>
              step_result (hc_step k) = Some (outcome_result J v))) \<and>
        (\<not> hc_settled k \<longrightarrow> (\<forall>r. step_result (hc_step k) = Some r \<longrightarrow> (\<exists>e. r = Err e)) \<and>
           (guard_gone (hc_step k) \<longrightarrow> bo_retired x)))"

lemma call_ok_grows:
  assumes "call_ok J N h c k" and "grows h h'"
  shows "call_ok J N h' c k"
proof -
  obtain x where x: "hu_bounds h (hc_binding k) = Some x" using assms(1) by (auto simp: call_ok_def)
  obtain x' where x': "hu_bounds h' (hc_binding k) = Some x'" "bound_grows x x'"
    using grows_boundD [OF assms(2) x] by blast
  have "set (hu_receipts h) \<subseteq> set (hu_receipts h')" using assms(2) by (simp add: grows_def)
  then show ?thesis using assms(1) x x' unfolding call_ok_def bound_grows_def by (auto 4 3)
qed

definition calls_ok :: "'v json \<Rightarrow> ('v \<Rightarrow> real option option) \<Rightarrow> 'v hub \<Rightarrow> bool" where
  "calls_ok J N h \<longleftrightarrow> (\<forall>c k. hu_calls h c = Some k \<longrightarrow> call_ok J N h c k)"

lemma calls_ok_change:
  assumes "calls_ok J N h" and "grows h h'" and "\<And>d. d \<noteq> c \<Longrightarrow> hu_calls h' d = hu_calls h d"
    and "\<And>k. hu_calls h' c = Some k \<Longrightarrow> call_ok J N h' c k"
  shows "calls_ok J N h'"
  unfolding calls_ok_def
proof (intro allI impI)
  fix d k assume d: "hu_calls h' d = Some k"
  show "call_ok J N h' d k"
  proof (cases "d = c")
    case False
    then have "hu_calls h d = Some k" using d assms(3) by simp
    then show ?thesis using assms(1) call_ok_grows [OF _ assms(2)] by (auto simp: calls_ok_def)
  qed (use d assms(4) in simp)
qed

lemma calls_ok_same:
  assumes "calls_ok J N h" and "grows h h'" and "hu_calls h' = hu_calls h"
  shows "calls_ok J N h'"
  using assms(1,3) call_ok_grows [OF _ assms(2)] unfolding calls_ok_def by metis

lemma calls_ok_at: "calls_ok J N h \<Longrightarrow> hu_calls h c = Some k \<Longrightarrow> call_ok J N h c k"
  by (simp add: calls_ok_def)

text \<open>A step of a call that gives it the state \<open>k'\<close>.\<close>

definition same_call :: "'v hub_call \<Rightarrow> 'v hub_call \<Rightarrow> bool" where
  "same_call k k' \<longleftrightarrow>
     hc_binding k' = hc_binding k \<and> hc_reference k' = hc_reference k \<and> hc_input k' = hc_input k \<and>
     hc_activity k' = hc_activity k"

lemma call_ok_moves:
  assumes ok: "call_ok J N h c k" and grows: "grows h h'" and same: "same_call k k'"
    and valid: "\<And>v. hc_response k' = Some v \<or> hc_step k' = Answering v \<Longrightarrow> outcome_valid J N v"
    and dispatch: "dispatching (hc_step k') \<Longrightarrow> dispatching (hc_step k) \<or>
      (\<exists>x. hu_bounds h (hc_binding k) = Some x \<and> attempted_draft J c k (bo_scope x) \<in> set (hu_receipts h'))"
    and settled: "hc_settled k' \<Longrightarrow> hc_settled k \<and> step_result (hc_step k') = step_result (hc_step k)"
    and unsettled: "\<And>r. \<not> hc_settled k' \<Longrightarrow> step_result (hc_step k') = Some r \<Longrightarrow> \<exists>e. r = Err e"
    and gone: "\<not> hc_settled k' \<Longrightarrow> guard_gone (hc_step k') \<Longrightarrow>
      \<not> hc_settled k \<and> guard_gone (hc_step k) \<or> (\<exists>x. hu_bounds h' (hc_binding k) = Some x \<and> bo_retired x)"
  shows "call_ok J N h' c k'"
proof -
  have ok': "call_ok J N h' c k" by (rule call_ok_grows [OF ok grows])
  obtain x where x: "hu_bounds h (hc_binding k) = Some x" using ok by (auto simp: call_ok_def)
  obtain x' where x': "hu_bounds h' (hc_binding k) = Some x'" "bound_grows x x'" using grows_boundD [OF grows x] by blast
  have drafts: "attempted_draft J c k' s = attempted_draft J c k s" "returned_draft J c k' s v = returned_draft J c k s v" for s v
    using same by (simp_all add: attempted_draft_def returned_draft_def same_call_def)
  have "dispatching (hc_step k') \<Longrightarrow> attempted_draft J c k (bo_scope x') \<in> set (hu_receipts h')"
    using dispatch ok' x x' by (auto simp: call_ok_def bound_grows_def)
  moreover have "guard_gone (hc_step k') \<Longrightarrow> \<not> hc_settled k' \<Longrightarrow> bo_retired x'"
    using gone ok' x' by (auto simp: call_ok_def)
  moreover have "hc_binding k' = hc_binding k" using same by (simp add: same_call_def)
  ultimately show ?thesis
    using ok' valid settled unsettled x' unfolding call_ok_def drafts by auto
qed

lemma receipt_cases:
  assumes "hu_bounds h (hc_binding k) = Some x"
  shows "guard_receipt J None c k state extra h =
      (Ok (), h\<lparr>hu_receipts := hu_receipts h @ [receipt_draft J c (hc_binding k) (bo_scope x) (hc_reference k) state extra]\<rparr>)"
    and "guard_receipt J (Some e) c k state extra h = (Err (HandlerError (''tool evidence unavailable: '' @ e)), h)"
  using assms by (simp_all add: guard_receipt_def)

lemma receipt_calls: "guard_receipt J stored c k state extra h = (r, h') \<Longrightarrow> hu_calls h' = hu_calls h"
  by (auto simp: guard_receipt_def split: option.splits)

lemma calls_ok_put:
  assumes "calls_ok J N h" and "grows h h'" and "hu_calls h' = (hu_calls h)(c \<mapsto> k)" and "call_ok J N h' c k"
  shows "calls_ok J N h'"
  by (rule calls_ok_change [OF assms(1,2), of c]) (use assms(3,4) in \<open>auto split: if_splits\<close>)

text \<open>Steps that bring a call no further in its evidence.\<close>

lemma calls_ok_move:
  assumes all: "calls_ok J N h" and c: "hu_calls h c = Some k" and grows: "grows h h'"
    and calls: "hu_calls h' = (hu_calls h)(c \<mapsto> k')" and same: "same_call k k'" "hc_settled k' = hc_settled k"
    and response: "\<And>v. hc_response k' = Some v \<or> hc_step k' = Answering v \<Longrightarrow>
      hc_response k = Some v \<or> hc_step k = Answering v \<or> outcome_valid J N v"
    and dispatch: "dispatching (hc_step k') \<Longrightarrow> dispatching (hc_step k)"
    and result: "step_result (hc_step k') = step_result (hc_step k) \<or>
      \<not> hc_settled k \<and> (\<forall>r. step_result (hc_step k') = Some r \<longrightarrow> (\<exists>e. r = Err e))"
    and gone: "\<not> hc_settled k \<Longrightarrow> guard_gone (hc_step k') \<Longrightarrow>
      guard_gone (hc_step k) \<or> (\<exists>x. hu_bounds h' (hc_binding k) = Some x \<and> bo_retired x)"
  shows "calls_ok J N h'"
proof (rule calls_ok_put [OF all grows calls])
  have ok: "call_ok J N h c k" by (rule calls_ok_at [OF all c])
  show "call_ok J N h' c k'"
  proof (rule call_ok_moves [OF ok grows same(1)])
    show "outcome_valid J N v" if "hc_response k' = Some v \<or> hc_step k' = Answering v" for v
      using response [OF that] ok by (auto simp: call_ok_def)
    show "hc_settled k \<and> step_result (hc_step k') = step_result (hc_step k)" if "hc_settled k'"
      using that result same(2) by auto
    show "\<exists>e. r = Err e" if "\<not> hc_settled k'" "step_result (hc_step k') = Some r" for r
      using that result same(2) ok by (auto simp: call_ok_def)
  qed (use dispatch gone same(2) in auto)
qed

lemma attempts_ok:
  assumes all: "calls_ok J N h" and c: "hu_calls h c = Some k" and step: "hc_step k = Admitted"
  shows "calls_ok J N (invoke_attempts J stored c k h)"
proof -
  have ok: "call_ok J N h c k" using all c by (rule calls_ok_at)
  then obtain x where x: "hu_bounds h (hc_binding k) = Some x" by (auto simp: call_ok_def)
  have unsettled: "\<not> hc_settled k" using ok step by (auto simp: call_ok_def)
  have grows: "grows h (invoke_attempts J stored c k h)" by (intro grows_intros)
  show ?thesis
  proof (cases stored)
    case None
    then have h': "invoke_attempts J stored c k h = set_call c (k\<lparr>hc_step := Attempted\<rparr>)
        (h\<lparr>hu_receipts := hu_receipts h @ [attempted_draft J c k (bo_scope x)]\<rparr>)"
      by (simp add: invoke_attempts_def receipt_cases [OF x] attempted_draft_def)
    show ?thesis
    proof (rule calls_ok_put [OF all grows])
      show "call_ok J N (invoke_attempts J stored c k h) c (k\<lparr>hc_step := Attempted\<rparr>)"
        by (rule call_ok_moves [OF ok grows])
          (use ok x unsettled in \<open>auto simp: same_call_def call_ok_def h' set_call_def attempted_draft_def\<close>)
    qed (simp add: h' set_call_def)
  next
    case (Some e)
    then have h': "invoke_attempts J stored c k h =
        set_call c (k\<lparr>hc_step := Ending (Err (HandlerError (''tool evidence unavailable: '' @ e)))\<rparr>) h"
      by (simp add: invoke_attempts_def receipt_cases [OF x])
    show ?thesis
      by (rule calls_ok_move [OF all c grows, where k' = "k\<lparr>hc_step := Ending (Err (HandlerError (''tool evidence unavailable: '' @ e)))\<rparr>"])
        (use unsettled in \<open>simp_all add: h' set_call_def same_call_def\<close>)
  qed
qed

lemma answers_ok:
  assumes all: "calls_ok J N h" and c: "hu_calls h c = Some k" and step: "hc_step k = Answering v"
  shows "calls_ok J N (invoke_answers J stored v c k h)"
proof -
  have ok: "call_ok J N h c k" using all c by (rule calls_ok_at)
  then obtain x where x: "hu_bounds h (hc_binding k) = Some x" by (auto simp: call_ok_def)
  have unsettled: "\<not> hc_settled k" and valid: "outcome_valid J N v" using ok step by (auto simp: call_ok_def)
  have grows: "grows h (invoke_answers J stored v c k h)" by (intro grows_intros)
  show ?thesis
  proof (cases stored)
    case None
    then have h': "invoke_answers J stored v c k h =
        set_call c (k\<lparr>hc_settled := True, hc_step := Ending (outcome_result J v)\<rparr>)
          (h\<lparr>hu_receipts := hu_receipts h @ [returned_draft J c k (bo_scope x) v]\<rparr>)"
      by (simp add: invoke_answers_def receipt_cases [OF x] returned_draft_def)
    show ?thesis
    proof (rule calls_ok_put [OF all grows])
      have ok': "call_ok J N (invoke_answers J stored v c k h) c k" by (rule call_ok_grows [OF ok grows])
      have "hu_bounds (invoke_answers J stored v c k h) (hc_binding k) = Some x" using x by (simp add: h' set_call_def)
      then show "call_ok J N (invoke_answers J stored v c k h) c (k\<lparr>hc_settled := True, hc_step := Ending (outcome_result J v)\<rparr>)"
        using ok' valid step unfolding call_ok_def by (auto simp: h' set_call_def attempted_draft_def returned_draft_def)
    qed (simp add: h' set_call_def)
  next
    case (Some e)
    then have h': "invoke_answers J stored v c k h =
        set_call c (k\<lparr>hc_step := Ending (Err (HandlerError (''tool evidence unavailable: '' @ e)))\<rparr>) h"
      by (simp add: invoke_answers_def receipt_cases [OF x])
    show ?thesis
      by (rule calls_ok_move [OF all c grows, where k' = "k\<lparr>hc_step := Ending (Err (HandlerError (''tool evidence unavailable: '' @ e)))\<rparr>"])
        (use unsettled in \<open>simp_all add: h' set_call_def same_call_def\<close>)
  qed
qed

lemma guard_ends_calls: "hu_calls (guard_ends J room stored r c k h) = (hu_calls h)(c \<mapsto> k\<lparr>hc_step := Returning r\<rparr>)"
  by (auto simp: guard_ends_def Let_def guard_receipt_def hub_emit_def retire_binding_def set_call_def cancel_token_def
      set_bound_def split: option.split)

lemma guard_ends_retires:
  assumes "hu_bounds h (hc_binding k) = Some x" and "\<not> hc_settled k"
  shows "\<exists>x'. hu_bounds (guard_ends J room stored r c k h) (hc_binding k) = Some x' \<and> bo_retired x' \<and> bo_activity x' = None"
  using assms by (auto simp: guard_ends_def Let_def guard_receipt_def hub_emit_def retire_binding_def set_call_def cancel_token_def
      set_bound_def split: option.split)

lemma string_param_total: "string_param J params key \<noteq> Panic"
  by (simp add: string_param_def split: option.split)

text \<open>A reply is refused, comes too late, or reaches the call.\<close>

definition reply_reaches ::
  "'v json \<Rightarrow> ('v \<Rightarrow> real option option) \<Rightarrow> 'v \<Rightarrow> 'v hub \<Rightarrow> string \<Rightarrow> 'v hub_call \<Rightarrow> 'v hub \<Rightarrow> bool" where
  "reply_reaches J N params h c k h' \<longleftrightarrow>
     string_param J params ''call_id'' = Ok c \<and>
     (\<exists>entry. hu_pending h c = Some entry \<and> owner_matches J params entry) \<and>
     outcome_valid J N (j_index J params ''outcome'') \<and> hu_calls h c = Some k \<and> hc_step k = Sent \<and>
     h' = h\<lparr>hu_pending := (hu_pending h)(c := None),
       hu_calls := (hu_calls h)(c \<mapsto> k\<lparr>hc_response := Some (j_index J params ''outcome'')\<rparr>)\<rparr>"

lemma hub_reply_cases:
  obtains (refused) e where "hub_reply J N params h = (Err e, h)"
  | (late) c where "hub_reply J N params h = (Err ''tool call already ended'', h\<lparr>hu_pending := (hu_pending h)(c := None)\<rparr>)"
  | (reached) c k h' where "hub_reply J N params h = (Ok (), h')" "reply_reaches J N params h c k h'"
proof (cases "string_param J params ''call_id''")
  case (Err e)
  then show ?thesis by (intro refused [of e]) (simp add: hub_reply_def)
next
  case Panic
  then show ?thesis using string_param_total [of J params "''call_id''"] by simp
next
  case (Ok c)
  show ?thesis
  proof (cases "hu_pending h c")
    case None
    then show ?thesis using Ok by (intro refused) (simp add: hub_reply_def)
  next
    case (Some entry)
    show ?thesis
    proof (cases "owner_matches J params entry \<and> outcome_valid J N (j_index J params ''outcome'')")
      case False
      then show ?thesis
        using Ok Some by (cases "owner_matches J params entry") (intro refused, simp add: hub_reply_def Let_def)+
    next
      case True
      show ?thesis
      proof (cases "\<exists>k. hu_calls h c = Some k \<and> hc_step k = Sent")
        case True
        then obtain k where "hu_calls h c = Some k" "hc_step k = Sent" by blast
        then show ?thesis
          using \<open>owner_matches J params entry \<and> _\<close> Ok Some
          by (intro reached) (auto simp: hub_reply_def Let_def reply_reaches_def)
      next
        case False
        then show ?thesis
          using \<open>owner_matches J params entry \<and> _\<close> Ok Some
          by (intro late [of c]) (auto simp: hub_reply_def Let_def split: option.split)
      qed
    qed
  qed
qed

lemma replies_ok:
  assumes all: "calls_ok J N h"
  shows "calls_ok J N (snd (hub_reply J N params h))"
proof -
  have grows: "grows h (snd (hub_reply J N params h))" by (intro grows_intros)
  show ?thesis
  proof (cases J N params h rule: hub_reply_cases)
    case (reached c k h')
    then have c: "hu_calls h c = Some k" "outcome_valid J N (j_index J params ''outcome'')"
      "hu_calls (snd (hub_reply J N params h)) = (hu_calls h)(c \<mapsto> k\<lparr>hc_response := Some (j_index J params ''outcome'')\<rparr>)"
      by (simp_all add: reply_reaches_def)
    show ?thesis by (rule calls_ok_move [OF all c(1) grows c(3)]) (use c(2) in \<open>auto simp: same_call_def\<close>)
  qed (use calls_ok_same [OF all grows] in simp_all)
qed

text \<open>A call that is admitted.\<close>

definition new_call :: "string \<Rightarrow> tool_ref \<Rightarrow> 'v \<Rightarrow> nat \<Rightarrow> 'v hub_call" where
  "new_call b reference input t =
     \<lparr>hc_binding = b, hc_reference = reference, hc_input = input, hc_activity = t, hc_settled = False,
      hc_question_cancelled = False, hc_response = None, hc_step = Admitted\<rparr>"

definition admits :: "string \<Rightarrow> tool_ref \<Rightarrow> tool_scope \<Rightarrow> 'v \<Rightarrow> 'v hub \<Rightarrow> string \<Rightarrow> bound \<Rightarrow> nat \<Rightarrow> 'v hub \<Rightarrow> bool" where
  "admits c reference scope input h b x t h' \<longleftrightarrow>
     hu_bindings h (scope_key scope) = Some b \<and> hu_bounds h b = Some x \<and> bo_activity x = Some t \<and>
     \<not> hu_cancelled h t \<and> \<not> bo_retired x \<and> hu_active h < 16 \<and> bo_used x < 4 \<and>
     h' = set_call c (new_call b reference input t)
       (set_bound b (x\<lparr>bo_used := Suc (bo_used x)\<rparr>) (h\<lparr>hu_active := Suc (hu_active h)\<rparr>))"

lemma invoke_admits_cases:
  obtains (refused) e where "invoke_admits J N c reference scope input h = (Err e, h)"
  | (admitted) b x t h' where "invoke_admits J N c reference scope input h = (Ok (), h')" "admits c reference scope input h b x t h'"
proof (cases "\<exists>b x t. hu_bindings h (scope_key scope) = Some b \<and> hu_bounds h b = Some x \<and> bo_activity x = Some t")
  case False
  then show ?thesis
    by (intro refused [of "if json_fits J N input then NotGranted else InvalidArguments ''input exceeds JSON transport limits''"])
      (simp add: invoke_admits_def split: option.split)
next
  case True
  then obtain b x t where b: "hu_bindings h (scope_key scope) = Some b" "hu_bounds h b = Some x" "bo_activity x = Some t" by blast
  show ?thesis
  proof (cases "json_fits J N input \<and> \<not> hu_cancelled h t \<and> \<not> bo_retired x \<and> hu_active h < 16 \<and> bo_used x < 4")
    case True
    then show ?thesis using b by (intro admitted) (auto simp: invoke_admits_def admits_def new_call_def)
  next
    case False
    then have "\<exists>e. invoke_admits J N c reference scope input h = (Err e, h)"
      using b by (auto simp: invoke_admits_def)
    then show ?thesis using refused by blast
  qed
qed

lemma admits_ok:
  assumes all: "calls_ok J N h"
  shows "calls_ok J N (snd (invoke_admits J N c reference scope input h))"
proof -
  have grows: "grows h (snd (invoke_admits J N c reference scope input h))" by (intro grows_intros)
  show ?thesis
  proof (cases J N c reference scope input h rule: invoke_admits_cases)
    case (admitted b x t h')
    show ?thesis
      by (rule calls_ok_put [OF all grows, where c = c and k = "new_call b reference input t"])
        (use admitted in \<open>simp_all add: admits_def set_call_def set_bound_def call_ok_def new_call_def\<close>)
  qed (use all in simp)
qed

lemma calls_ok_step:
  assumes all: "calls_ok J N h" and step: "hub_next J N ev h = Some h'"
  shows "calls_ok J N h'"
proof -
  note grows = grows_step [OF step]
  have unsettled: "\<not> hc_settled k" if "hu_calls h c = Some k" "step_result (hc_step k) = None" for c k
    using calls_ok_at [OF all that(1)] that(2) by (auto simp: call_ok_def)
  show ?thesis
  proof (cases ev)
    case (Binds scope tools fresh transport)
    then show ?thesis
      using step by (intro calls_ok_same [OF all grows])
        (auto simp: hub_bind_def Let_def split: result.split option.split if_split_asm)
  next
    case (EndsActivity b)
    then show ?thesis
      using step by (intro calls_ok_same [OF all grows])
        (auto simp: binding_end_def cancel_token_def set_bound_def split: option.split if_split_asm)
  next
    case (ChecksBinding b)
    then show ?thesis
      using step by (intro calls_ok_same [OF all grows])
        (auto simp: binding_check_def set_bound_def split: option.split if_split_asm)
  next
    case (SetsActivity b)
    then show ?thesis
      using step by (intro calls_ok_same [OF all grows])
        (auto simp: binding_set_def set_bound_def split: option.split_asm if_split_asm)
  next
    case (DropsBinding b)
    then show ?thesis
      using step by (intro calls_ok_same [OF all grows])
        (auto simp: binding_drop_def binding_end_def cancel_token_def set_bound_def Let_def split: option.split if_split_asm)
  next
    case (Replies params)
    then show ?thesis using step replies_ok [OF all] by auto
  next
    case Stops
    then show ?thesis using step by (intro calls_ok_same [OF all grows]) auto
  next
    case (Invokes c reference scope input)
    then show ?thesis using step admits_ok [OF all] by (auto split: if_split_asm)
  next
    case (Attempts c stored)
    then show ?thesis using step attempts_ok [OF all] by (auto simp: on_call_Some split: if_split_asm)
  next
    case (Sends c ctx room)
    then obtain k where k: "hu_calls h c = Some k" "hc_step k = Attempted" "h' = invoke_sends ctx room c k h"
      using step by (auto simp: on_call_Some split: if_split_asm)
    then obtain st where st: "hu_calls h' = (hu_calls h)(c \<mapsto> k\<lparr>hc_step := st\<rparr>)" "st = Sent \<or> st = Ending (Err ToolCancelled)"
      using calls_ok_at [OF all k(1)]
      by (auto simp: invoke_sends_def call_ok_def hub_emit_def set_call_def split: if_split_asm option.split_asm)
    show ?thesis
      by (rule calls_ok_move [OF all k(1) grows st(1)]) (use unsettled [OF k(1)] k(2) st(2) in \<open>auto simp: same_call_def\<close>)
  next
    case (Selects c ctx timed_out)
    then obtain k where k: "hu_calls h c = Some k" "hc_step k = Sent" "invoke_selects ctx timed_out c k h = Some h'"
      using step by (auto simp: on_call_Some split: if_split_asm)
    then obtain st where st: "hu_calls h' = (hu_calls h)(c \<mapsto> k\<lparr>hc_step := st\<rparr>)"
        "(\<exists>v. st = Answering v \<and> hc_response k = Some v) \<or> (\<exists>e. st = Ending (Err e))"
      by (auto simp: invoke_selects_def set_call_def split: if_split_asm option.split_asm)
    show ?thesis
      by (rule calls_ok_move [OF all k(1) grows st(1)]) (use unsettled [OF k(1)] k(2) st(2) in \<open>auto simp: same_call_def\<close>)
  next
    case (Abandons c)
    then obtain k where k: "hu_calls h c = Some k" "hc_step k = Sent" "h' = set_call c (k\<lparr>hc_step := Ending (Err ToolCancelled)\<rparr>) h"
      using step by (auto simp: on_call_Some split: if_split_asm)
    show ?thesis
      by (rule calls_ok_move [OF all k(1) grows, where k' = "k\<lparr>hc_step := Ending (Err ToolCancelled)\<rparr>"])
        (use unsettled [OF k(1)] k in \<open>simp_all add: set_call_def same_call_def\<close>)
  next
    case (Answers c stored)
    then show ?thesis using step answers_ok [OF all] by (auto simp: on_call_Some in_step)
  next
    case (GuardCancels c)
    then obtain k r where k: "hu_calls h c = Some k" "hc_step k = Ending r" "h' = set_call c (k\<lparr>hc_question_cancelled := True\<rparr>) h"
      using step by (auto simp: on_call_Some in_step)
    show ?thesis
      by (rule calls_ok_move [OF all k(1) grows, where k' = "k\<lparr>hc_question_cancelled := True\<rparr>"]) (use k in \<open>simp_all add: set_call_def same_call_def\<close>)
  next
    case (GuardEnds c room stored)
    then obtain k r where k: "hu_calls h c = Some k" "hc_step k = Ending r" "h' = guard_ends J room stored r c k h"
      using step by (auto simp: on_call_Some in_step split: if_split_asm)
    obtain x where x: "hu_bounds h (hc_binding k) = Some x" using calls_ok_at [OF all k(1)] by (auto simp: call_ok_def)
    show ?thesis
    proof (rule calls_ok_move [OF all k(1) grows])
      show "hu_calls h' = (hu_calls h)(c \<mapsto> k\<lparr>hc_step := Returning r\<rparr>)" by (simp add: k(3) guard_ends_calls)
    qed (use k(2) guard_ends_retires [OF x, of J room stored r c] in \<open>auto simp: same_call_def k(3)\<close>)
  next
    case (PermitsReturn c)
    then obtain k r where k: "hu_calls h c = Some k" "hc_step k = Returning r" "h' = permits_return r c k h"
      using step by (auto simp: on_call_Some in_step)
    show ?thesis
    proof (rule calls_ok_move [OF all k(1) grows])
      show "hu_calls h' = (hu_calls h)(c \<mapsto> k\<lparr>hc_step := Over r\<rparr>)"
        by (auto simp: k(3) permits_return_def set_call_def set_bound_def Let_def split: option.split)
    qed (use k(2) in \<open>auto simp: same_call_def\<close>)
  qed
qed

subsection \<open>Progress of calls\<close>

fun early :: "'v call_step \<Rightarrow> bool" where
  "early Admitted = True"
| "early Attempted = True"
| "early _ = False"

fun is_over :: "'v call_step \<Rightarrow> bool" where
  "is_over (Over r) = True"
| "is_over _ = False"

definition call_later :: "'v hub_call \<Rightarrow> 'v hub_call \<Rightarrow> bool" where
  "call_later k k' \<longleftrightarrow>
     same_call k k' \<and> (hc_settled k \<longrightarrow> hc_settled k') \<and> (early (hc_step k') \<longrightarrow> early (hc_step k)) \<and>
     (guard_gone (hc_step k) \<longrightarrow> guard_gone (hc_step k') \<and> hc_settled k' = hc_settled k) \<and>
     (is_over (hc_step k) \<longrightarrow> is_over (hc_step k'))"

lemma call_later_refl: "call_later k k"
  by (simp add: call_later_def same_call_def)

lemma call_later_trans: "call_later k k1 \<Longrightarrow> call_later k1 k2 \<Longrightarrow> call_later k k2"
  by (auto simp: call_later_def same_call_def)

text \<open>A step that neither admits a call nor returns its permits.\<close>

definition calls_move :: "'v hub \<Rightarrow> 'v hub \<Rightarrow> bool" where
  "calls_move h h' \<longleftrightarrow>
     hu_calls h' = hu_calls h \<or>
     (\<exists>c k k'. hu_calls h c = Some k \<and> hu_calls h' = (hu_calls h)(c \<mapsto> k') \<and> call_later k k' \<and>
        (is_over (hc_step k') \<longleftrightarrow> is_over (hc_step k)))"

definition permits_stay :: "'v hub \<Rightarrow> 'v hub \<Rightarrow> bool" where
  "permits_stay h h' \<longleftrightarrow>
     hu_active h' = hu_active h \<and>
     (\<forall>b x'. hu_bounds h' b = Some x' \<longrightarrow>
        (case hu_bounds h b of None \<Rightarrow> bo_used x' = 0 | Some x \<Rightarrow> bo_used x' = bo_used x))"

lemma permits_stay_same: "hu_active h' = hu_active h \<Longrightarrow> hu_bounds h' = hu_bounds h \<Longrightarrow> permits_stay h h'"
  by (simp add: permits_stay_def)

lemma guard_ends_permits: "permits_stay h (guard_ends J room stored r c k h)"
  by (auto simp: guard_ends_def Let_def guard_receipt_def hub_emit_def retire_binding_def set_call_def cancel_token_def
      set_bound_def permits_stay_def split: option.split)

lemma receipt_keeps:
  assumes "guard_receipt J stored c k state extra h = (r, h')"
  shows "hu_active h' = hu_active h" "hu_bounds h' = hu_bounds h" "hu_calls h' = hu_calls h"
  using assms by (auto simp: guard_receipt_def split: option.splits)

lemma calls_moveI:
  "hu_calls h c = Some k \<Longrightarrow> hu_calls h' = (hu_calls h)(c \<mapsto> k') \<Longrightarrow> call_later k k' \<Longrightarrow>
   is_over (hc_step k') = is_over (hc_step k) \<Longrightarrow> calls_move h h'"
  unfolding calls_move_def by blast

lemma set_call_moves:
  assumes c: "hu_calls h c = Some k" and k': "call_later k k'" "is_over (hc_step k') = is_over (hc_step k)"
    and h1: "hu_active h1 = hu_active h" "hu_bounds h1 = hu_bounds h" "hu_calls h1 = hu_calls h"
  shows "calls_move h (set_call c k' h1) \<and> permits_stay h (set_call c k' h1)"
proof
  show "calls_move h (set_call c k' h1)" by (rule calls_moveI [OF c _ k']) (simp add: set_call_def h1)
  show "permits_stay h (set_call c k' h1)" by (rule permits_stay_same) (simp_all add: set_call_def h1)
qed

lemma attempts_moves:
  assumes c: "hu_calls h c = Some k" and step: "hc_step k = Admitted"
  shows "calls_move h (invoke_attempts J stored c k h) \<and> permits_stay h (invoke_attempts J stored c k h)"
proof -
  obtain r h1 where eq: "guard_receipt J stored c k ''dispatch_attempted'' [(''input'', hc_input k)] h = (r, h1)"
    by (cases "guard_receipt J stored c k ''dispatch_attempted'' [(''input'', hc_input k)] h")
  have "\<exists>k'. invoke_attempts J stored c k h = set_call c k' h1 \<and> call_later k k' \<and> \<not> is_over (hc_step k')"
    using step by (cases r) (auto simp: invoke_attempts_def eq call_later_def same_call_def)
  then show ?thesis using set_call_moves [OF c _ _ receipt_keeps [OF eq]] step by auto
qed

lemma answers_moves:
  assumes c: "hu_calls h c = Some k" and step: "hc_step k = Answering v"
  shows "calls_move h (invoke_answers J stored v c k h) \<and> permits_stay h (invoke_answers J stored v c k h)"
proof -
  obtain r h1 where eq: "guard_receipt J stored c k ''returned'' [(''outcome'', v)] h = (r, h1)"
    by (cases "guard_receipt J stored c k ''returned'' [(''outcome'', v)] h")
  have "\<exists>k'. invoke_answers J stored v c k h = set_call c k' h1 \<and> call_later k k' \<and> \<not> is_over (hc_step k')"
    using step by (cases r) (auto simp: invoke_answers_def eq call_later_def same_call_def)
  then show ?thesis using set_call_moves [OF c _ _ receipt_keeps [OF eq]] step by auto
qed

lemma sends_moves:
  assumes c: "hu_calls h c = Some k" and step: "hc_step k = Attempted"
  shows "calls_move h (invoke_sends ctx room c k h) \<and> permits_stay h (invoke_sends ctx room c k h)"
proof -
  have "\<exists>k'. hu_calls (invoke_sends ctx room c k h) = (hu_calls h)(c \<mapsto> k') \<and> call_later k k' \<and> \<not> is_over (hc_step k')"
    using step by (auto simp: invoke_sends_def call_later_def same_call_def set_call_def hub_emit_def split: option.split)
  moreover have "hu_active (invoke_sends ctx room c k h) = hu_active h" "hu_bounds (invoke_sends ctx room c k h) = hu_bounds h"
    by (auto simp: invoke_sends_def set_call_def hub_emit_def split: option.split)
  ultimately show ?thesis using calls_moveI [OF c] permits_stay_same step by fastforce
qed

lemma selects_moves:
  assumes c: "hu_calls h c = Some k" and step: "hc_step k = Sent" and "invoke_selects ctx timed_out c k h = Some h'"
  shows "calls_move h h' \<and> permits_stay h h'"
proof -
  have "\<exists>k'. h' = set_call c k' h \<and> call_later k k' \<and> \<not> is_over (hc_step k')"
    using assms(3) step by (auto simp: invoke_selects_def call_later_def same_call_def split: if_split_asm option.split_asm)
  then show ?thesis using set_call_moves [OF c, of _ h] step by auto
qed

lemma reply_moves: "calls_move h (snd (hub_reply J N params h)) \<and> permits_stay h (snd (hub_reply J N params h))"
proof (cases J N params h rule: hub_reply_cases)
  case (reached c k h')
  then show ?thesis
    by (auto simp: reply_reaches_def permits_stay_same call_later_def same_call_def intro!: calls_moveI [of h c k])
qed (simp_all add: calls_move_def permits_stay_same)

definition new_bound :: "tool_scope \<Rightarrow> bound" where
  "new_bound scope = \<lparr>bo_scope = scope, bo_lifetime_cancelled = False, bo_activity = None, bo_used = 0, bo_retired = False, bo_clear = False\<rparr>"

lemma hub_bind_cases:
  "snd (hub_bind scope tools fresh transport h) = h \<or>
   (\<exists>u. snd (hub_bind scope tools fresh transport h) = h\<lparr>hu_used := u\<rparr>) \<or>
   scope_key scope \<notin> set (hu_used h) \<and> length (hu_used h) < 128 \<and>
     snd (hub_bind scope tools fresh transport h) =
       h\<lparr>hu_used := hu_used h @ [scope_key scope], hu_bounds := (hu_bounds h)(fresh \<mapsto> new_bound scope),
         hu_bindings := (hu_bindings h)(scope_key scope \<mapsto> fresh)\<rparr>"
proof (cases "hub_validate tools h")
  case (Ok u)
  then show ?thesis
    by (cases transport) (auto simp: hub_bind_def Let_def new_bound_def)
qed (simp_all add: hub_bind_def)

lemma binding_end_cases:
  "binding_end b h = h \<and> (\<forall>x. hu_bounds h b = Some x \<longrightarrow> bo_activity x = None) \<or>
   (\<exists>x t. hu_bounds h b = Some x \<and> bo_activity x = Some t \<and>
      binding_end b h = h\<lparr>hu_bounds := (hu_bounds h)(b \<mapsto> x\<lparr>bo_activity := None, bo_retired := bo_retired x \<or> bo_used x \<noteq> 0\<rparr>),
        hu_cancelled := (hu_cancelled h)(t := True)\<rparr>)"
proof (cases "hu_bounds h b")
  case (Some x)
  then show ?thesis by (cases "bo_activity x") (simp_all add: binding_end_def cancel_token_def set_bound_def)
qed (simp add: binding_end_def)

lemma bindings_move:
  "calls_move h (binding_end b h)" "permits_stay h (binding_end b h)"
  "calls_move h (snd (binding_check b h))" "permits_stay h (snd (binding_check b h))"
  "calls_move h (binding_set b h)" "permits_stay h (binding_set b h)"
  "calls_move h (binding_drop b h)" "permits_stay h (binding_drop b h)"
  using binding_end_cases [of b h]
  by (auto simp: binding_check_def binding_set_def binding_drop_def set_bound_def Let_def calls_move_def permits_stay_def
      split: option.splits if_split_asm)

lemma moves_step:
  assumes step: "hub_next J N ev h = Some h'" and "\<And>c r s i. ev \<noteq> Invokes c r s i" and "\<And>c. ev \<noteq> PermitsReturn c"
  shows "calls_move h h' \<and> permits_stay h h'"
proof (cases ev)
  case (Binds scope tools fresh transport)
  then show ?thesis
    using step hub_bind_cases [of scope tools fresh transport h]
    by (auto simp: calls_move_def permits_stay_def new_bound_def split: option.split if_split_asm)
next
  case (Replies params)
  then show ?thesis using step reply_moves [of h J N params] by simp
next
  case (Abandons c)
  then obtain k where k: "hu_calls h c = Some k" "hc_step k = Sent" "h' = set_call c (k\<lparr>hc_step := Ending (Err ToolCancelled)\<rparr>) h"
    using step by (auto simp: on_call_Some split: if_split_asm)
  show ?thesis unfolding k(3) by (rule set_call_moves [OF k(1)]) (use k(2) in \<open>simp_all add: call_later_def same_call_def\<close>)
next
  case (GuardCancels c)
  then obtain k r where k: "hu_calls h c = Some k" "hc_step k = Ending r" "h' = set_call c (k\<lparr>hc_question_cancelled := True\<rparr>) h"
    using step by (auto simp: on_call_Some in_step)
  show ?thesis unfolding k(3) by (rule set_call_moves [OF k(1)]) (use k(2) in \<open>simp_all add: call_later_def same_call_def\<close>)
next
  case (GuardEnds c room stored)
  then obtain k r where k: "hu_calls h c = Some k" "hc_step k = Ending r" "h' = guard_ends J room stored r c k h"
    using step by (auto simp: on_call_Some in_step split: if_split_asm)
  have "calls_move h h'"
    unfolding k(3) by (rule calls_moveI [OF k(1) guard_ends_calls]) (use k(2) in \<open>simp_all add: call_later_def same_call_def\<close>)
  then show ?thesis by (simp add: k(3) guard_ends_permits)
next
  case Stops
  then show ?thesis using step by (auto simp: calls_move_def permits_stay_same)
qed (use assms in \<open>auto simp: on_call_Some in_step attempts_moves answers_moves sends_moves bindings_move
  dest: selects_moves split: if_split_asm option.split_asm\<close>)

subsection \<open>Permits\<close>

definition live_calls :: "'v hub \<Rightarrow> string set" where
  "live_calls h = {c. \<exists>k. hu_calls h c = Some k \<and> \<not> is_over (hc_step k)}"

definition live_on :: "string \<Rightarrow> 'v hub \<Rightarrow> string set" where
  "live_on b h = {c. \<exists>k. hu_calls h c = Some k \<and> \<not> is_over (hc_step k) \<and> hc_binding k = b}"

definition permits_ok :: "'v hub \<Rightarrow> bool" where
  "permits_ok h \<longleftrightarrow>
     finite (dom (hu_calls h)) \<and> hu_active h = card (live_calls h) \<and> hu_active h \<le> 16 \<and>
     (\<forall>b x. hu_bounds h b = Some x \<longrightarrow> bo_used x = card (live_on b h) \<and> bo_used x \<le> 4) \<and>
     (\<forall>c k. hu_calls h c = Some k \<longrightarrow> hu_bounds h (hc_binding k) \<noteq> None)"

lemma calls_move_at:
  assumes "calls_move h h'"
  shows "hu_calls h d = None \<Longrightarrow> hu_calls h' d = None"
    and "hu_calls h d = Some k \<Longrightarrow> \<exists>k'. hu_calls h' d = Some k' \<and> call_later k k' \<and> is_over (hc_step k') = is_over (hc_step k)"
  using assms call_later_refl unfolding calls_move_def by fastforce+

lemma live_at:
  assumes "calls_move h h'"
  shows "(\<exists>k. hu_calls h' d = Some k \<and> \<not> is_over (hc_step k) \<and> P (hc_binding k)) \<longleftrightarrow>
    (\<exists>k. hu_calls h d = Some k \<and> \<not> is_over (hc_step k) \<and> P (hc_binding k))"
proof (cases "hu_calls h d")
  case None
  then show ?thesis using calls_move_at(1) [OF assms] by simp
next
  case (Some k)
  obtain k' where "hu_calls h' d = Some k'" "call_later k k'" "is_over (hc_step k') = is_over (hc_step k)"
    using calls_move_at(2) [OF assms Some] by blast
  then show ?thesis using Some by (simp add: call_later_def same_call_def)
qed

lemma live_same:
  assumes "calls_move h h'"
  shows "live_calls h' = live_calls h" and "live_on b h' = live_on b h"
  using live_at [OF assms, where P = "\<lambda>_. True"] live_at [OF assms, where P = "\<lambda>a. a = b"]
  by (simp_all add: live_calls_def live_on_def)

lemma permits_okD:
  assumes "permits_ok h"
  shows "finite (dom (hu_calls h))" and "hu_active h = card (live_calls h)" and "hu_active h \<le> 16"
    and "hu_bounds h b = Some x \<Longrightarrow> bo_used x = card (live_on b h)" and "hu_bounds h b = Some x \<Longrightarrow> bo_used x \<le> 4"
    and "hu_calls h c = Some k \<Longrightarrow> \<exists>x. hu_bounds h (hc_binding k) = Some x"
  using assms unfolding permits_ok_def by (blast, blast, blast, blast, blast, metis not_None_eq)

lemma permits_ok_move:
  assumes ok: "permits_ok h" and "calls_move h h'" and "permits_stay h h'" and "grows h h'"
  shows "permits_ok h'"
proof -
  have "bo_used x = card (live_on b h') \<and> bo_used x \<le> 4" if x: "hu_bounds h' b = Some x" for b x
  proof (cases "hu_bounds h b")
    case None
    then have "hc_binding k \<noteq> b" if "hu_calls h c = Some k" for c k
      using permits_okD(6) [OF ok that] by auto
    then have "live_on b h = {}" by (auto simp: live_on_def)
    then show ?thesis using assms(3) None x live_same(2) [OF assms(2)] by (fastforce simp: permits_stay_def)
  next
    case (Some y)
    then have "bo_used x = bo_used y" using assms(3) x by (fastforce simp: permits_stay_def)
    then show ?thesis using permits_okD(4,5) [OF ok Some] live_same(2) [OF assms(2), of b] by simp
  qed
  moreover have "hu_bounds h' (hc_binding k) \<noteq> None" if "hu_calls h' c = Some k" for c k
  proof -
    have "hu_calls h c \<noteq> None" using calls_move_at(1) [OF assms(2), of c] that by auto
    then obtain j where j: "hu_calls h c = Some j" by blast
    then have "hc_binding j = hc_binding k"
      using calls_move_at(2) [OF assms(2) j] that by (auto simp: call_later_def same_call_def)
    then obtain x where "hu_bounds h (hc_binding k) = Some x" using permits_okD(6) [OF ok j] by auto
    then show ?thesis using grows_boundD [OF assms(4)] by fastforce
  qed
  moreover have "finite (dom (hu_calls h'))" using ok assms(2) by (auto simp: permits_ok_def calls_move_def)
  moreover have "hu_active h' = card (live_calls h') \<and> hu_active h' \<le> 16"
    using permits_okD(2,3) [OF ok] assms(3) live_same(1) [OF assms(2)] by (simp add: permits_stay_def)
  ultimately show ?thesis unfolding permits_ok_def by blast
qed

lemma live_finite: "permits_ok h \<Longrightarrow> finite (live_calls h) \<and> finite (live_on b h)"
  unfolding permits_ok_def live_calls_def live_on_def by (auto elim!: finite_subset [rotated])

lemma permits_ok_admits:
  assumes ok: "permits_ok h" and new: "hu_calls h c = None" and admits: "admits c reference scope input h b x t h'"
  shows "permits_ok h'"
proof -
  have x: "hu_bounds h b = Some x" "bo_used x < 4" using admits by (simp_all add: admits_def)
  have h': "hu_calls h' = (hu_calls h)(c \<mapsto> new_call b reference input t)"
      "hu_bounds h' = (hu_bounds h)(b \<mapsto> x\<lparr>bo_used := Suc (bo_used x)\<rparr>)" "hu_active h' = Suc (hu_active h)"
    using admits by (auto simp: admits_def set_call_def set_bound_def)
  have "live_calls h' = insert c (live_calls h)" "live_on d h' = (if d = b then insert c (live_on b h) else live_on d h)" for d
    using new by (auto simp: live_calls_def live_on_def h'(1) new_call_def)
  moreover have "c \<notin> live_calls h" "c \<notin> live_on b h" using new by (simp_all add: live_calls_def live_on_def)
  ultimately have cards: "card (live_calls h') = Suc (hu_active h)"
      "card (live_on d h') = (if d = b then Suc (card (live_on b h)) else card (live_on d h))" for d
    using live_finite [OF ok, of b] permits_okD(2) [OF ok] by simp_all
  show ?thesis
    unfolding permits_ok_def cards
  proof (intro conjI allI impI)
    show "finite (dom (hu_calls h'))" using permits_okD(1) [OF ok] by (simp add: h'(1))
    have "hu_active h < 16" using admits by (simp add: admits_def)
    then show "hu_active h' \<le> 16" by (simp add: h'(3))
    fix d y assume "hu_bounds h' d = Some y"
    then show "bo_used y = (if d = b then Suc (card (live_on b h)) else card (live_on d h))" "bo_used y \<le> 4"
      using permits_okD(4,5) [OF ok, of d y] x(2) permits_okD(4) [OF ok x(1)] by (cases "d = b"; auto simp: h'(2))+
  next
    show "hu_bounds h' (hc_binding j) \<noteq> None" if "hu_calls h' d = Some j" for d j
      using that permits_okD(6) [OF ok, of d j] by (auto simp: h'(1,2) new_call_def split: if_splits)
  qed (simp add: h'(3))
qed

lemma permits_ok_return:
  assumes ok: "permits_ok h" and c: "hu_calls h c = Some k" and step: "hc_step k = Returning r"
  shows "permits_ok (permits_return r c k h)"
proof -
  obtain x where x: "hu_bounds h (hc_binding k) = Some x" using ok c by (fastforce simp: permits_ok_def)
  let ?h = "permits_return r c k h"
  have h': "hu_calls ?h = (hu_calls h)(c \<mapsto> k\<lparr>hc_step := Over r\<rparr>)"
      "hu_bounds ?h = (hu_bounds h)(hc_binding k \<mapsto> x\<lparr>bo_used := bo_used x - 1\<rparr>)" "hu_active ?h = hu_active h - 1"
    using x by (simp_all add: permits_return_def set_call_def set_bound_def)
  have "live_calls ?h = live_calls h - {c}"
      "live_on d ?h = (if d = hc_binding k then live_on (hc_binding k) h - {c} else live_on d h)" for d
    using c by (auto simp: live_calls_def live_on_def h'(1))
  moreover have "c \<in> live_calls h" "c \<in> live_on (hc_binding k) h" using c step by (simp_all add: live_calls_def live_on_def)
  ultimately have cards: "card (live_calls ?h) = hu_active h - 1"
      "card (live_on d ?h) = (if d = hc_binding k then card (live_on (hc_binding k) h) - 1 else card (live_on d h))" for d
    using live_finite [OF ok, of "hc_binding k"] permits_okD(2) [OF ok] by simp_all
  show ?thesis
    unfolding permits_ok_def cards
  proof (intro conjI allI impI)
    show "finite (dom (hu_calls ?h))" using permits_okD(1) [OF ok] by (simp add: h'(1))
    show "hu_active ?h \<le> 16" using permits_okD(3) [OF ok] by (simp add: h'(3))
    fix d y assume "hu_bounds ?h d = Some y"
    then show "bo_used y = (if d = hc_binding k then card (live_on (hc_binding k) h) - 1 else card (live_on d h))" "bo_used y \<le> 4"
      using permits_okD(4,5) [OF ok, of d y] permits_okD(4,5) [OF ok x] by (cases "d = hc_binding k"; auto simp: h'(2))+
  next
    show "hu_bounds ?h (hc_binding j) \<noteq> None" if "hu_calls ?h d = Some j" for d j
      using that permits_okD(6) [OF ok, of d j] by (auto simp: h'(1,2) split: if_splits)
  qed (simp add: h'(3))
qed

lemma permits_ok_step:
  assumes ok: "permits_ok h" and step: "hub_next J N ev h = Some h'"
  shows "permits_ok h'"
proof -
  consider (admit) c reference scope input where "ev = Invokes c reference scope input" | (ends) c where "ev = PermitsReturn c"
    | (other) "\<And>c r s i. ev \<noteq> Invokes c r s i" "\<And>c. ev \<noteq> PermitsReturn c" by blast
  then show ?thesis
  proof cases
    case admit
    then have new: "hu_calls h c = None" and h': "h' = snd (invoke_admits J N c reference scope input h)"
      using step by (auto split: if_split_asm)
    show ?thesis
      by (cases J N c reference scope input h rule: invoke_admits_cases) (use ok new h' permits_ok_admits in auto)
  next
    case ends
    then show ?thesis using step permits_ok_return [OF ok] by (auto simp: on_call_Some in_step)
  next
    case other
    then show ?thesis using moves_step [OF step] permits_ok_move [OF ok _ _ grows_step [OF step]] by blast
  qed
qed

subsection \<open>One activity at a time\<close>

text \<open>
  A call in flight on a binding that is not retired belongs to the binding's current activity.
\<close>

definition activity_ok :: "'v hub \<Rightarrow> bool" where
  "activity_ok h \<longleftrightarrow>
     (\<forall>c k x. hu_calls h c = Some k \<and> \<not> is_over (hc_step k) \<and> hu_bounds h (hc_binding k) = Some x \<and> \<not> bo_retired x \<longrightarrow>
        bo_activity x = Some (hc_activity k))"

lemma activity_okD:
  "activity_ok h \<Longrightarrow> hu_calls h c = Some k \<Longrightarrow> \<not> is_over (hc_step k) \<Longrightarrow> hu_bounds h (hc_binding k) = Some x \<Longrightarrow>
   \<not> bo_retired x \<Longrightarrow> bo_activity x = Some (hc_activity k)"
  by (simp add: activity_ok_def)

text \<open>Bindings whose activity a step leaves alone, or that are retired or without calls afterwards.\<close>

lemma activity_ok_move:
  assumes ok: "activity_ok h" and calls: "calls_move h h'"
    and bounds: "\<And>c k x. hu_calls h c = Some k \<Longrightarrow> \<not> is_over (hc_step k) \<Longrightarrow> hu_bounds h' (hc_binding k) = Some x \<Longrightarrow>
      \<not> bo_retired x \<Longrightarrow> \<exists>y. hu_bounds h (hc_binding k) = Some y \<and> \<not> bo_retired y \<and> bo_activity x = bo_activity y"
  shows "activity_ok h'"
  unfolding activity_ok_def
proof (intro allI impI, elim conjE)
  fix c k' x assume k': "hu_calls h' c = Some k'" "\<not> is_over (hc_step k')" "hu_bounds h' (hc_binding k') = Some x" "\<not> bo_retired x"
  then have "hu_calls h c \<noteq> None" using calls_move_at(1) [OF calls, of c] by auto
  then obtain k where k: "hu_calls h c = Some k" by blast
  then have later: "call_later k k'" "\<not> is_over (hc_step k)" using calls_move_at(2) [OF calls k] k' by auto
  then have same: "hc_binding k' = hc_binding k" "hc_activity k' = hc_activity k" by (simp_all add: call_later_def same_call_def)
  from bounds [OF k later(2) k'(3) [unfolded same] k'(4)] obtain y where
    "hu_bounds h (hc_binding k) = Some y" "\<not> bo_retired y" "bo_activity x = bo_activity y" by blast
  then show "bo_activity x = Some (hc_activity k')" using activity_okD [OF ok k later(2)] same by simp
qed

lemma activity_ok_same: "activity_ok h \<Longrightarrow> calls_move h h' \<Longrightarrow> hu_bounds h' = hu_bounds h \<Longrightarrow> activity_ok h'"
  by (rule activity_ok_move) auto

lemma bounds_same:
  "hu_bounds (invoke_attempts J stored c k h) = hu_bounds h" "hu_bounds (invoke_answers J stored v c k h) = hu_bounds h"
  "hu_bounds (invoke_sends ctx room c k h) = hu_bounds h" "hu_bounds (snd (hub_reply J N params h)) = hu_bounds h"
  "invoke_selects ctx timed_out c k h = Some h' \<Longrightarrow> hu_bounds h' = hu_bounds h"
proof -
  show "hu_bounds (snd (hub_reply J N params h)) = hu_bounds h"
    by (cases J N params h rule: hub_reply_cases) (simp_all add: reply_reaches_def)
  show "hu_bounds (invoke_attempts J stored c k h) = hu_bounds h" "hu_bounds (invoke_answers J stored v c k h) = hu_bounds h"
    by (auto simp: invoke_attempts_def invoke_answers_def set_call_def dest: receipt_keeps(2) split: prod.split result.split)
qed (auto simp: invoke_sends_def invoke_selects_def set_call_def hub_emit_def split: option.splits if_split_asm)

lemma end_activity:
  assumes permits: "permits_ok h" and c: "hu_calls h c = Some k" "\<not> is_over (hc_step k)"
    and x: "hu_bounds (binding_end b h) (hc_binding k) = Some x" "\<not> bo_retired x"
  shows "\<exists>y. hu_bounds h (hc_binding k) = Some y \<and> \<not> bo_retired y \<and> bo_activity x = bo_activity y"
proof -
  have "c \<in> live_on (hc_binding k) h" using c by (simp add: live_on_def)
  then have "bo_used y \<noteq> 0" if "hu_bounds h (hc_binding k) = Some y" for y
    using permits_okD(4) [OF permits that] live_finite [OF permits, of "hc_binding k"] by auto
  then show ?thesis using binding_end_cases [of b h] x by (auto split: if_splits)
qed

lemma activity_ok_admits:
  assumes ok: "activity_ok h" and admits: "admits c reference scope input h b x t h'"
  shows "activity_ok h'"
  unfolding activity_ok_def
proof (intro allI impI, elim conjE)
  have h': "hu_calls h' = (hu_calls h)(c \<mapsto> new_call b reference input t)"
      "hu_bounds h' = (hu_bounds h)(b \<mapsto> x\<lparr>bo_used := Suc (bo_used x)\<rparr>)" and b: "hu_bounds h b = Some x" "bo_activity x = Some t"
    using admits by (auto simp: admits_def set_call_def set_bound_def)
  fix d k y assume d: "hu_calls h' d = Some k" "\<not> is_over (hc_step k)" "hu_bounds h' (hc_binding k) = Some y" "\<not> bo_retired y"
  show "bo_activity y = Some (hc_activity k)"
  proof (cases "d = c")
    case True
    then show ?thesis using d b(2) by (auto simp: h' new_call_def)
  next
    case False
    then have k: "hu_calls h d = Some k" using d(1) by (simp add: h'(1))
    show ?thesis
      using activity_okD [OF ok k d(2)] d(3,4) b(1) by (cases "hc_binding k = b") (auto simp: h'(2))
  qed
qed

lemma activity_ok_return:
  assumes ok: "activity_ok h" and c: "hu_calls h c = Some k"
  shows "activity_ok (permits_return r c k h)"
  unfolding activity_ok_def
proof (intro allI impI, elim conjE)
  let ?h = "permits_return r c k h"
  have calls: "hu_calls ?h = (hu_calls h)(c \<mapsto> k\<lparr>hc_step := Over r\<rparr>)"
    by (auto simp: permits_return_def set_call_def set_bound_def Let_def split: option.split)
  have bounds: "\<exists>x. hu_bounds h b = Some x \<and> bo_activity x = bo_activity y \<and> bo_retired x = bo_retired y"
    if "hu_bounds ?h b = Some y" for b y
    using that by (auto simp: permits_return_def set_call_def set_bound_def Let_def split: option.splits if_splits)
  fix d j y assume d: "hu_calls ?h d = Some j" "\<not> is_over (hc_step j)" "hu_bounds ?h (hc_binding j) = Some y" "\<not> bo_retired y"
  then have "hu_calls h d = Some j" by (auto simp: calls split: if_splits)
  then show "bo_activity y = Some (hc_activity j)"
    using bounds [OF d(3)] activity_okD [OF ok _ d(2)] d(4) by auto
qed

lemma activity_ok_step:
  assumes ok: "activity_ok h" and permits: "permits_ok h" and step: "hub_next J N ev h = Some h'"
  shows "activity_ok h'"
proof (cases ev)
  case (Binds scope tools fresh transport)
  then have h': "h' = snd (hub_bind scope tools fresh transport h)" and fresh: "hu_bounds h fresh = None"
    using step by (auto split: if_split_asm)
  have "calls_move h h'" using moves_step [OF step] Binds by simp
  then show ?thesis
  proof (rule activity_ok_move [OF ok])
    fix c k x assume "hu_calls h c = Some k" "hu_bounds h' (hc_binding k) = Some x" "\<not> bo_retired x"
    moreover from this have "hc_binding k \<noteq> fresh" using permits_okD(6) [OF permits] fresh by force
    ultimately have "hu_bounds h (hc_binding k) = Some x"
      using hub_bind_cases [of scope tools fresh transport h] by (auto simp: h')
    then show "\<exists>y. hu_bounds h (hc_binding k) = Some y \<and> \<not> bo_retired y \<and> bo_activity x = bo_activity y"
      using \<open>\<not> bo_retired x\<close> by blast
  qed
next
  case (EndsActivity b)
  then have "h' = binding_end b h" using step by (auto split: if_split_asm)
  then show ?thesis using activity_ok_move [OF ok bindings_move(1)] end_activity [OF permits] by blast
next
  case (ChecksBinding b)
  then have h': "h' = snd (binding_check b h)" using step by (auto split: if_split_asm)
  show ?thesis
    unfolding h' by (rule activity_ok_move [OF ok bindings_move(3)])
      (auto simp: binding_check_def set_bound_def split: option.splits if_splits)
next
  case (SetsActivity b)
  then obtain x where x: "hu_bounds h b = Some x" "bo_activity x = None" "h' = binding_set b h"
    using step by (auto split: if_split_asm option.split_asm)
  show ?thesis
    unfolding x(3)
  proof (rule activity_ok_move [OF ok bindings_move(5)])
    fix c k y assume c: "hu_calls h c = Some k" "\<not> is_over (hc_step k)" "hu_bounds (binding_set b h) (hc_binding k) = Some y"
      "\<not> bo_retired y"
    then show "\<exists>y'. hu_bounds h (hc_binding k) = Some y' \<and> \<not> bo_retired y' \<and> bo_activity y = bo_activity y'"
      using activity_okD [OF ok c(1,2)] x(1,2) by (auto simp: binding_set_def set_bound_def split: if_splits)
  qed
next
  case (DropsBinding b)
  then have h': "h' = binding_drop b h" using step by (auto split: if_split_asm)
  show ?thesis
    unfolding h'
  proof (rule activity_ok_move [OF ok bindings_move(7)])
    fix c k y assume c: "hu_calls h c = Some k" "\<not> is_over (hc_step k)" "hu_bounds (binding_drop b h) (hc_binding k) = Some y"
      "\<not> bo_retired y"
    then obtain z where "hu_bounds (binding_end b h) (hc_binding k) = Some z" "\<not> bo_retired z" "bo_activity y = bo_activity z"
      by (auto simp: binding_drop_def Let_def set_bound_def split: option.splits if_splits)
    then show "\<exists>y'. hu_bounds h (hc_binding k) = Some y' \<and> \<not> bo_retired y' \<and> bo_activity y = bo_activity y'"
      using end_activity [OF permits c(1,2), of b z] by auto
  qed
next
  case (Replies params)
  then show ?thesis using step activity_ok_same [OF ok] reply_moves [of h J N params] bounds_same(4) [of J N params h] by simp
next
  case (Invokes c reference scope input)
  then have h': "h' = snd (invoke_admits J N c reference scope input h)" using step by (auto split: if_split_asm)
  show ?thesis
    by (cases J N c reference scope input h rule: invoke_admits_cases) (use ok h' activity_ok_admits in auto)
next
  case (GuardEnds c room stored)
  then obtain k r where k: "hu_calls h c = Some k" "hc_step k = Ending r" "h' = guard_ends J room stored r c k h"
    using step by (auto simp: on_call_Some in_step split: if_split_asm)
  have move: "calls_move h h'" using moves_step [OF step] GuardEnds by simp
  show ?thesis
  proof (rule activity_ok_move [OF ok move])
    fix d j y assume "hu_calls h d = Some j" "\<not> is_over (hc_step j)" "hu_bounds h' (hc_binding j) = Some y" "\<not> bo_retired y"
    then show "\<exists>y'. hu_bounds h (hc_binding j) = Some y' \<and> \<not> bo_retired y' \<and> bo_activity y = bo_activity y'"
      by (auto simp: k(3) guard_ends_def Let_def guard_receipt_def hub_emit_def retire_binding_def set_call_def cancel_token_def
        set_bound_def split: option.splits if_splits)
  qed
next
  case (PermitsReturn c)
  then show ?thesis using step activity_ok_return [OF ok] by (auto simp: on_call_Some in_step)
qed (rule activity_ok_same [OF ok]; use step moves_step [OF step] in
  \<open>auto simp: on_call_Some in_step set_call_def bounds_same(1-4) dest: bounds_same(5) split: if_split_asm\<close>)+

subsection \<open>Reachable hubs\<close>

lemma later_step:
  assumes step: "hub_next J N ev h = Some h'" and c: "hu_calls h c = Some k"
  shows "\<exists>k'. hu_calls h' c = Some k' \<and> call_later k k'"
proof -
  consider (admit) d reference scope input where "ev = Invokes d reference scope input" | (ends) d where "ev = PermitsReturn d"
    | (other) "\<And>c r s i. ev \<noteq> Invokes c r s i" "\<And>c. ev \<noteq> PermitsReturn c" by blast
  then show ?thesis
  proof cases
    case admit
    then have d: "hu_calls h d = None" and h': "h' = snd (invoke_admits J N d reference scope input h)"
      using step by (auto split: if_split_asm)
    then have "hu_calls h' c = Some k"
      by (cases J N d reference scope input h rule: invoke_admits_cases)
        (use c in \<open>auto simp: admits_def set_call_def set_bound_def\<close>)
    then show ?thesis using call_later_refl by blast
  next
    case ends
    then obtain j r where j: "hu_calls h d = Some j" "hc_step j = Returning r" "h' = permits_return r d j h"
      using step by (auto simp: on_call_Some in_step)
    then have "hu_calls h' = (hu_calls h)(d \<mapsto> j\<lparr>hc_step := Over r\<rparr>)"
      by (auto simp: permits_return_def set_call_def set_bound_def Let_def split: option.split)
    then show ?thesis using c j call_later_refl by (auto simp: call_later_def same_call_def)
  next
    case other
    then show ?thesis using moves_step [OF step] calls_move_at(2) [OF _ c, of h'] by blast
  qed
qed

lemma later_steps: "hub_steps J N h h' \<Longrightarrow> hu_calls h c = Some k \<Longrightarrow> \<exists>k'. hu_calls h' c = Some k' \<and> call_later k k'"
proof (induction rule: hub_steps.induct)
  case (refl h)
  then show ?case using call_later_refl by blast
next
  case (step h h1 ev h2)
  then obtain k1 where "hu_calls h1 c = Some k1" "call_later k k1" by blast
  then show ?case using later_step [OF step.hyps(2)] call_later_trans by blast
qed

lemma grows_steps: "hub_steps J N h h' \<Longrightarrow> grows h h'"
  by (induction rule: hub_steps.induct) (auto intro: grows_refl grows_trans grows_step)

text \<open>Events and pending entries name calls as they are.\<close>

definition announced_ok :: "'v json \<Rightarrow> 'v hub \<Rightarrow> bool" where
  "announced_ok J h \<longleftrightarrow>
     (\<forall>c b. ToolCall c b \<in> set (hu_events h) \<longrightarrow>
        (\<exists>k x. hu_calls h c = Some k \<and> hc_binding k = b \<and> hu_bounds h b = Some x \<and>
           attempted_draft J c k (bo_scope x) \<in> set (hu_receipts h)))"

definition pending_ok :: "'v hub \<Rightarrow> bool" where
  "pending_ok h \<longleftrightarrow>
     (\<forall>c e. hu_pending h c = Some e \<longrightarrow>
        (\<exists>k x. hu_calls h c = Some k \<and> hu_bounds h (hc_binding k) = Some x \<and>
           pe_binding e = hc_binding k \<and> pe_session e = as_str (scope_session (bo_scope x)) \<and>
           pe_slot e = as_str (scope_slot (bo_scope x))))"

lemma events_step:
  assumes "hub_next J N ev h = Some h'" and "ToolCall c b \<in> set (hu_events h')" and "ToolCall c b \<notin> set (hu_events h)"
  shows "\<exists>k. hu_calls h c = Some k \<and> hc_step k = Attempted \<and> hc_binding k = b"
proof -
  have ends: "ToolCall c b \<notin> set (hu_events (guard_ends J room stored r d k h))" for room stored r d k
    using assms(3) by (auto simp: guard_ends_def Let_def guard_receipt_def hub_emit_def retire_binding_def set_call_def
      cancel_token_def set_bound_def split: option.split)
  have "hu_events (invoke_attempts J stored d k h) = hu_events h" "hu_events (invoke_answers J stored v d k h) = hu_events h" for stored d k v
    by (auto simp: invoke_attempts_def invoke_answers_def guard_receipt_def set_call_def split: prod.split result.split option.split)
  moreover have "hu_events (snd (hub_reply J N params h)) = hu_events h" for params
    by (cases J N params h rule: hub_reply_cases) (simp_all add: reply_reaches_def)
  moreover have "hu_events (snd (invoke_admits J N d reference scope input h)) = hu_events h" for d reference scope input
    by (cases J N d reference scope input h rule: invoke_admits_cases) (simp_all add: admits_def set_call_def set_bound_def)
  moreover have "hu_events (snd (hub_bind scope tools fresh transport h)) = hu_events h" for scope tools fresh transport
    using hub_bind_cases [of scope tools fresh transport h] by auto
  moreover have "hu_events (binding_end d h) = hu_events h" for d using binding_end_cases [of d h] by auto
  ultimately show ?thesis
    using assms ends
    by (cases ev) (auto simp: on_call_Some in_step binding_check_def binding_set_def binding_drop_def Let_def set_bound_def
      invoke_sends_def invoke_selects_def permits_return_def hub_emit_def set_call_def split: if_split_asm option.split_asm)
qed

lemma pending_step:
  assumes "hub_next J N ev h = Some h'" and "hu_pending h' c = Some e" and "hu_pending h c \<noteq> Some e"
  shows "\<exists>k x. hu_calls h c = Some k \<and> hc_step k = Attempted \<and> hu_bounds h (hc_binding k) = Some x \<and>
    pe_binding e = hc_binding k \<and> pe_session e = as_str (scope_session (bo_scope x)) \<and> pe_slot e = as_str (scope_slot (bo_scope x))"
proof -
  have "hu_pending (guard_ends J room stored r d k h) = (hu_pending h)(d := None)" for room stored r d k
    by (auto simp: guard_ends_def Let_def guard_receipt_def hub_emit_def retire_binding_def set_call_def
      cancel_token_def set_bound_def split: option.split)
  moreover have "hu_pending (invoke_attempts J stored d k h) = hu_pending h"
      "hu_pending (invoke_answers J stored v d k h) = hu_pending h" for stored d k v
    by (auto simp: invoke_attempts_def invoke_answers_def guard_receipt_def set_call_def split: prod.split result.split option.split)
  moreover have "hu_pending (snd (hub_reply J N params h)) d = Some y \<Longrightarrow> hu_pending h d = Some y" for params d y
    by (cases J N params h rule: hub_reply_cases) (auto simp: reply_reaches_def split: if_splits)
  moreover have "hu_pending (snd (invoke_admits J N d reference scope input h)) = hu_pending h" for d reference scope input
    by (cases J N d reference scope input h rule: invoke_admits_cases) (simp_all add: admits_def set_call_def set_bound_def)
  moreover have "hu_pending (snd (hub_bind scope tools fresh transport h)) = hu_pending h" for scope tools fresh transport
    using hub_bind_cases [of scope tools fresh transport h] by auto
  moreover have "hu_pending (binding_end d h) = hu_pending h" for d using binding_end_cases [of d h] by auto
  ultimately show ?thesis
    using assms
    by (cases ev) (auto simp: on_call_Some in_step binding_check_def binding_set_def binding_drop_def Let_def set_bound_def
      invoke_sends_def invoke_selects_def permits_return_def hub_emit_def set_call_def split: if_split_asm option.split_asm)
qed

lemma announced_ok_step:
  assumes ok: "announced_ok J h" and calls: "calls_ok J N h" and step: "hub_next J N ev h = Some h'"
  shows "announced_ok J h'"
  unfolding announced_ok_def
proof (intro allI impI)
  fix c b assume new: "ToolCall c b \<in> set (hu_events h')"
  have "\<exists>k x. hu_calls h c = Some k \<and> hc_binding k = b \<and> hu_bounds h b = Some x \<and>
      attempted_draft J c k (bo_scope x) \<in> set (hu_receipts h)"
  proof (cases "ToolCall c b \<in> set (hu_events h)")
    case True
    then show ?thesis using ok by (simp add: announced_ok_def)
  next
    case False
    then obtain k where k: "hu_calls h c = Some k" "hc_step k = Attempted" "hc_binding k = b"
      using events_step [OF step new] by blast
    then show ?thesis using calls_ok_at [OF calls k(1)] by (auto simp: call_ok_def)
  qed
  then obtain k x where k: "hu_calls h c = Some k" "hc_binding k = b" "hu_bounds h b = Some x"
      "attempted_draft J c k (bo_scope x) \<in> set (hu_receipts h)" by blast
  have grows: "grows h h'" by (rule grows_step [OF step])
  obtain x' where x': "hu_bounds h' b = Some x'" "bo_scope x' = bo_scope x"
    using grows_boundD [OF grows k(3)] by (auto simp: bound_grows_def)
  obtain k' where k': "hu_calls h' c = Some k'" "same_call k k'"
    using later_step [OF step k(1)] by (auto simp: call_later_def)
  then have "attempted_draft J c k' s = attempted_draft J c k s" for s by (simp add: attempted_draft_def same_call_def)
  then show "\<exists>k x. hu_calls h' c = Some k \<and> hc_binding k = b \<and> hu_bounds h' b = Some x \<and>
      attempted_draft J c k (bo_scope x) \<in> set (hu_receipts h')"
    using k x' k' grows by (intro exI [of _ k'] exI [of _ x']) (auto simp: same_call_def grows_def)
qed

lemma pending_ok_step:
  assumes ok: "pending_ok h" and step: "hub_next J N ev h = Some h'"
  shows "pending_ok h'"
  unfolding pending_ok_def
proof (intro allI impI)
  fix c e assume e: "hu_pending h' c = Some e"
  have "\<exists>k x. hu_calls h c = Some k \<and> hu_bounds h (hc_binding k) = Some x \<and>
      pe_binding e = hc_binding k \<and> pe_session e = as_str (scope_session (bo_scope x)) \<and> pe_slot e = as_str (scope_slot (bo_scope x))"
  proof (cases "hu_pending h c = Some e")
    case True
    then show ?thesis using ok by (simp add: pending_ok_def)
  next
    case False
    then show ?thesis using pending_step [OF step e] by blast
  qed
  then obtain k x where k: "hu_calls h c = Some k" "hu_bounds h (hc_binding k) = Some x"
      "pe_binding e = hc_binding k" "pe_session e = as_str (scope_session (bo_scope x))"
      "pe_slot e = as_str (scope_slot (bo_scope x))" by blast
  obtain x' where "hu_bounds h' (hc_binding k) = Some x'" "bo_scope x' = bo_scope x"
    using grows_boundD [OF grows_step [OF step] k(2)] by (auto simp: bound_grows_def)
  moreover obtain k' where "hu_calls h' c = Some k'" "same_call k k'"
    using later_step [OF step k(1)] by (auto simp: call_later_def)
  ultimately show "\<exists>k x. hu_calls h' c = Some k \<and> hu_bounds h' (hc_binding k) = Some x \<and>
      pe_binding e = hc_binding k \<and> pe_session e = as_str (scope_session (bo_scope x)) \<and> pe_slot e = as_str (scope_slot (bo_scope x))"
    using k(3-5) by (auto simp: same_call_def)
qed

definition hub_inv :: "'v json \<Rightarrow> ('v \<Rightarrow> real option option) \<Rightarrow> 'v hub \<Rightarrow> bool" where
  "hub_inv J N h \<longleftrightarrow> calls_ok J N h \<and> permits_ok h \<and> activity_ok h \<and> announced_ok J h \<and> pending_ok h"

lemma hub_inv_empty: "hub_inv J N (empty_hub ds)"
  by (simp add: hub_inv_def empty_hub_def calls_ok_def permits_ok_def activity_ok_def announced_ok_def pending_ok_def live_calls_def)

lemma hub_inv_steps:
  assumes "hub_steps J N (empty_hub ds) h"
  shows "hub_inv J N h"
  using assms
proof (induction "empty_hub ds" h rule: hub_steps.induct)
  case (step h1 ev h2)
  then show ?case
    unfolding hub_inv_def
    using calls_ok_step permits_ok_step activity_ok_step announced_ok_step pending_ok_step by metis
qed (rule hub_inv_empty)

text \<open>A call whose response is in, or given up, never becomes pending again.\<close>

definition closed :: "string \<Rightarrow> 'v hub \<Rightarrow> bool" where
  "closed c h \<longleftrightarrow> (\<exists>k. hu_calls h c = Some k \<and> \<not> early (hc_step k)) \<and> hu_pending h c = None"

lemma closed_step:
  assumes step: "hub_next J N ev h = Some h'" and "closed c h"
  shows "closed c h'"
proof -
  obtain k where k: "hu_calls h c = Some k" "\<not> early (hc_step k)" "hu_pending h c = None" using assms(2) by (auto simp: closed_def)
  have "hu_pending h' c = None"
  proof (cases "hu_pending h' c")
    case (Some e)
    then show ?thesis using pending_step [OF step Some] k by auto
  qed
  then show ?thesis using later_step [OF step k(1)] k(2) by (auto simp: closed_def call_later_def)
qed

lemma closed_steps: "hub_steps J N h h' \<Longrightarrow> closed c h \<Longrightarrow> closed c h'"
  by (induction rule: hub_steps.induct) (auto intro: closed_step)

subsection \<open>A concrete call\<close>

definition tree_number :: "tree \<Rightarrow> real option option" where
  "tree_number v = (case v of TNum n \<Rightarrow> Some (Some (real n)) | _ \<Rightarrow> None)"

definition sample_scope :: tool_scope where
  "sample_scope = \<lparr>scope_session = Ident ''s'', scope_slot = Ident ''l''\<rparr>"

definition hub_tool :: tool_ref where
  "hub_tool = \<lparr>tool_name = ''t'', tool_revision = ''1''\<rparr>"

definition hub_sample_definitions :: "tree hub_definition list" where
  "hub_sample_definitions = [\<lparr>hd_name = ''t'', hd_revision = ''1'', hd_description = ''d'', hd_schema = TObj []\<rparr>]"

text \<open>A call that has been sent, in the first activity of its binding.\<close>

definition hub_sample_steps :: "tree hub_step list" where
  "hub_sample_steps =
     [Binds sample_scope [hub_tool] ''b'' None, EndsActivity ''b'', ChecksBinding ''b'', SetsActivity ''b'',
      Invokes ''c'' hub_tool sample_scope TNull, Attempts ''c'' None, Sends ''c'' False True]"

definition sample_hub_call :: "tree hub_call" where
  "sample_hub_call =
     \<lparr>hc_binding = ''b'', hc_reference = hub_tool, hc_input = TNull, hc_activity = 0, hc_settled = False,
      hc_question_cancelled = False, hc_response = None, hc_step = Sent\<rparr>"

definition sample_hub :: "tree hub" where
  "sample_hub =
     \<lparr>hu_definitions = hub_sample_definitions, hu_used = [(''s'', ''l'')], hu_bindings = [(''s'', ''l'') \<mapsto> ''b''],
      hu_bounds = [''b'' \<mapsto> \<lparr>bo_scope = sample_scope, bo_lifetime_cancelled = False, bo_activity = Some 0, bo_used = 1,
        bo_retired = False, bo_clear = False\<rparr>],
      hu_pending = [''c'' \<mapsto> \<lparr>pe_binding = ''b'', pe_session = ''s'', pe_slot = ''l''\<rparr>], hu_active = 1, hu_stopped = False,
      hu_cancelled = (\<lambda>_. False), hu_token = 1, hu_calls = [''c'' \<mapsto> sample_hub_call], hu_events = [ToolCall ''c'' ''b''],
      hu_receipts = [attempted_draft tree_json ''c'' sample_hub_call sample_scope]\<rparr>"

lemmas hub_eval = hub_bind_def hub_validate_def binding_end_def binding_check_def binding_set_def invoke_admits_def
  invoke_attempts_def invoke_sends_def invoke_selects_def guard_receipt_def hub_emit_def set_call_def set_bound_def cancel_token_def on_call_def
  owned_binding_def call_cancelled_def scope_key_def Let_def

lemma sample_fits: "json_fits tree_json tree_number TNull"
proof -
  have "(17 :: nat) = Suc 16" by simp
  then have "valid_json tree_json tree_number 17 TNull"
    by (simp only: valid_json.simps) (simp add: tree_json_def tree_number_def)
  then show ?thesis by (simp add: json_fits_def tree_json_def)
qed

lemma sample_hub_steps: "hub_steps tree_json tree_number (empty_hub hub_sample_definitions) sample_hub"
proof (rule hub_run_steps [OF _ hub_steps.refl])
  show "hub_run tree_json tree_number hub_sample_steps (empty_hub hub_sample_definitions) = Some sample_hub"
    by (simp add: hub_sample_steps_def hub_eval empty_hub_def hub_sample_definitions_def hub_tool_def sample_scope_def sample_fits)
      (simp add: sample_hub_def sample_hub_call_def hub_tool_def sample_scope_def hub_sample_definitions_def attempted_draft_def)
qed

subsection \<open>The properties\<close>

text \<open>
  C11: Every tool call that reaches the application is on record first, and its outcome before the
  provider gets it. At any point of any interleaving, with receipts the store may refuse and an
  output that may be full: an announced call has its acknowledged \<open>dispatch_attempted\<close> receipt;
  when a call has ended, its result is no panic, and either an acknowledged \<open>returned\<close> receipt
  holds a valid outcome and the result is that outcome, or the result is an error and its binding
  is retired as soon as its guard is gone.
\<close>

theorem hub_call_evidence:
  assumes "hub_steps J N (empty_hub ds) h" and "hu_calls h c = Some k"
  shows "\<exists>x. hu_bounds h (hc_binding k) = Some x \<and>
    (ToolCall c (hc_binding k) \<in> set (hu_events h) \<longrightarrow> attempted_draft J c k (bo_scope x) \<in> set (hu_receipts h)) \<and>
    (\<forall>r. step_result (hc_step k) = Some r \<longrightarrow>
       (\<exists>v. outcome_valid J N v \<and> r = outcome_result J v \<and> r \<noteq> Panic \<and>
          attempted_draft J c k (bo_scope x) \<in> set (hu_receipts h) \<and>
          returned_draft J c k (bo_scope x) v \<in> set (hu_receipts h)) \<or>
       (\<exists>e. r = Err e) \<and> (guard_gone (hc_step k) \<longrightarrow> bo_retired x))"
proof -
  have inv: "calls_ok J N h" "announced_ok J h" using hub_inv_steps [OF assms(1), of ] by (simp_all add: hub_inv_def)
  have ok: "call_ok J N h c k" by (rule calls_ok_at [OF inv(1) assms(2)])
  then obtain x where x: "hu_bounds h (hc_binding k) = Some x" by (auto simp: call_ok_def)
  have announced: "attempted_draft J c k (bo_scope x) \<in> set (hu_receipts h)" if "ToolCall c (hc_binding k) \<in> set (hu_events h)"
    using inv(2) that assms(2) x by (fastforce simp: announced_ok_def)
  have "(\<exists>v. outcome_valid J N v \<and> r = outcome_result J v \<and> r \<noteq> Panic \<and>
          attempted_draft J c k (bo_scope x) \<in> set (hu_receipts h) \<and> returned_draft J c k (bo_scope x) v \<in> set (hu_receipts h)) \<or>
       (\<exists>e. r = Err e) \<and> (guard_gone (hc_step k) \<longrightarrow> bo_retired x)" if r: "step_result (hc_step k) = Some r" for r
    using ok x r outcome_result_total [of J N] by (cases "hc_settled k") (auto simp: call_ok_def)
  then show ?thesis using x announced by blast
qed

theorem hub_call_evidence_witness:
  "\<exists>x. hu_bounds sample_hub ''b'' = Some x \<and>
     attempted_draft tree_json ''c'' sample_hub_call (bo_scope x) \<in> set (hu_receipts sample_hub)"
proof -
  have "hu_calls sample_hub ''c'' = Some sample_hub_call" by (simp add: sample_hub_def)
  from hub_call_evidence [OF sample_hub_steps this] show ?thesis by (auto simp: sample_hub_def sample_hub_call_def)
qed

text \<open>
  C24: A reply settles a call once, and only the right one. When a reply is accepted, it named a
  call that was waiting, with the binding, session and slot of that call, and carried a valid outcome;
  whatever happens afterwards, every further reply for the call is refused without a change.
\<close>

theorem hub_reply_once:
  assumes "hub_steps J N (empty_hub ds) h" and "hub_reply J N params h = (Ok (), h')"
    and "hub_steps J N h' h''" and "string_param J params' ''call_id'' = string_param J params ''call_id''"
  shows "hub_reply J N params' h'' = (Err ''tool call is not pending'', h'') \<and>
    (\<exists>c k x. string_param J params ''call_id'' = Ok c \<and> hu_calls h c = Some k \<and> hc_step k = Sent \<and>
       hu_bounds h (hc_binding k) = Some x \<and>
       j_as_str J (j_index J params ''binding_id'') = Some (hc_binding k) \<and>
       j_as_str J (j_index J params ''session_id'') = Some (as_str (scope_session (bo_scope x))) \<and>
       j_as_str J (j_index J params ''slot_id'') = Some (as_str (scope_slot (bo_scope x))) \<and>
       outcome_valid J N (j_index J params ''outcome''))"
proof -
  obtain c k where r: "reply_reaches J N params h c k h'"
    by (cases J N params h rule: hub_reply_cases) (use assms(2) in auto)
  then have c: "string_param J params ''call_id'' = Ok c" "hu_calls h c = Some k" "hc_step k = Sent" "closed c h'"
    by (auto simp: reply_reaches_def closed_def)
  have "closed c h''" by (rule closed_steps [OF assms(3) c(4)])
  then have "hub_reply J N params' h'' = (Err ''tool call is not pending'', h'')"
    using assms(4) c(1) by (simp add: hub_reply_def closed_def)
  moreover obtain e where e: "hu_pending h c = Some e" "owner_matches J params e" using r by (auto simp: reply_reaches_def)
  have "pending_ok h" using hub_inv_steps [OF assms(1)] by (simp add: hub_inv_def)
  then obtain x where "hu_bounds h (hc_binding k) = Some x" "pe_binding e = hc_binding k"
      "pe_session e = as_str (scope_session (bo_scope x))" "pe_slot e = as_str (scope_slot (bo_scope x))"
    using e(1) c(2) by (fastforce simp: pending_ok_def)
  ultimately show ?thesis using r c e(2) by (auto simp: owner_matches_def reply_reaches_def)
qed

definition sample_reply :: tree where
  "sample_reply =
     TObj [(''call_id'', TStr ''c''), (''binding_id'', TStr ''b''), (''session_id'', TStr ''s''), (''slot_id'', TStr ''l''),
       (''outcome'', TObj [(''kind'', TStr ''success''), (''value'', TNull)])]"

lemma tree_access: "j_as_object tree_json (TObj m) = Some m" "j_as_str tree_json (TStr s) = Some s" "j_text tree_json v = ''{}''"
  by (simp_all add: tree_json_def)

lemma sample_outcome: "outcome_valid tree_json tree_number (TObj [(''kind'', TStr ''success''), (''value'', TNull)])"
proof -
  have "valid_json tree_json tree_number (Suc (Suc n)) (TObj [(''kind'', TStr ''success''), (''value'', TNull)])" for n
    by (simp add: tree_json_def tree_number_def)
  from this [of 15] have "valid_json tree_json tree_number 17 (TObj [(''kind'', TStr ''success''), (''value'', TNull)])"
    by simp
  then show ?thesis by (simp add: outcome_valid_def json_fits_def j_index_def j_get_def tree_access)
qed

theorem hub_reply_once_witness:
  "\<exists>h. hub_reply tree_json tree_number sample_reply sample_hub = (Ok (), h) \<and>
     hub_reply tree_json tree_number sample_reply h = (Err ''tool call is not pending'', h)"
proof -
  have "string_param tree_json sample_reply ''call_id'' = Ok ''c''"
      "owner_matches tree_json sample_reply \<lparr>pe_binding = ''b'', pe_session = ''s'', pe_slot = ''l''\<rparr>"
      "j_index tree_json sample_reply ''outcome'' = TObj [(''kind'', TStr ''success''), (''value'', TNull)]"
    by (simp_all add: string_param_def owner_matches_def sample_reply_def j_index_def j_get_def tree_json_def)
  then obtain h where h: "hub_reply tree_json tree_number sample_reply sample_hub = (Ok (), h)"
    using sample_outcome by (simp add: hub_reply_def sample_hub_def sample_hub_call_def Let_def)
  from hub_reply_once [OF sample_hub_steps h hub_steps.refl HOL.refl] show ?thesis using h by blast
qed

text \<open>
  C23: After an uncertain call its binding is dead. Once the guard of a call that has no recorded
  outcome is gone, whatever happens afterwards: the binding is retired, \<open>begin\<close> refuses to start
  another activity on it, and no further call is admitted on it.
\<close>

theorem hub_uncertain_retires:
  assumes "hub_steps J N (empty_hub ds) h" and "hu_calls h c = Some k" and "guard_gone (hc_step k)" and "\<not> hc_settled k"
    and "hub_steps J N h h'"
  shows "(\<exists>x. hu_bounds h' (hc_binding k) = Some x \<and> bo_retired x) \<and>
    fst (binding_begin (hc_binding k) h') = Err ''tool binding retired after an uncertain invocation; create a fresh session'' \<and>
    (hu_bindings h' (scope_key scope) = Some (hc_binding k) \<longrightarrow>
       (\<exists>e. invoke_admits J N d reference scope input h' = (Err e, h')))"
proof -
  have "call_ok J N h c k" using hub_inv_steps [OF assms(1)] calls_ok_at assms(2) by (auto simp: hub_inv_def)
  then obtain x where "hu_bounds h (hc_binding k) = Some x" "bo_retired x" using assms(3,4) by (auto simp: call_ok_def)
  then obtain x' where x': "hu_bounds h' (hc_binding k) = Some x'" "bo_retired x'"
    using grows_boundD [OF grows_steps [OF assms(5)]] by (fastforce simp: bound_grows_def)
  have "fst (binding_begin (hc_binding k) h') = Err ''tool binding retired after an uncertain invocation; create a fresh session''"
    using binding_end_cases [of "hc_binding k" h'] x' by (auto simp: binding_begin_def binding_check_def)
  moreover have "\<exists>e. invoke_admits J N d reference scope input h' = (Err e, h')"
    if "hu_bindings h' (scope_key scope) = Some (hc_binding k)"
    by (cases J N d reference scope input h' rule: invoke_admits_cases) (use that x' in \<open>auto simp: admits_def\<close>)
  ultimately show ?thesis using x' by blast
qed

theorem hub_uncertain_retires_witness:
  "\<exists>h x. hub_run tree_json tree_number [Selects ''c'' False True, GuardCancels ''c'', GuardEnds ''c'' True None] sample_hub = Some h \<and>
     hu_bounds h ''b'' = Some x \<and> bo_retired x \<and>
     fst (binding_begin ''b'' h) = Err ''tool binding retired after an uncertain invocation; create a fresh session''"
proof -
  obtain h where run: "hub_run tree_json tree_number [Selects ''c'' False True, GuardCancels ''c'', GuardEnds ''c'' True None] sample_hub = Some h"
    and k: "hu_calls h ''c'' = Some (sample_hub_call\<lparr>hc_question_cancelled := True,
      hc_step := Returning (Err (HandlerError ''application tool timed out; outcome unknown''))\<rparr>)"
    by (simp add: hub_eval sample_hub_def sample_hub_call_def guard_ends_def retire_binding_def)
  have steps: "hub_steps tree_json tree_number (empty_hub hub_sample_definitions) h"
    by (rule hub_run_steps [OF run sample_hub_steps])
  show ?thesis
    using hub_uncertain_retires [OF steps k _ _ hub_steps.refl] run by (fastforce simp: sample_hub_call_def)
qed

text \<open>
  C39: Calls in flight are bounded and belong to one run. At any point at most sixteen calls are in
  flight, at most four on one binding, and on a binding that is not retired each of them was
  admitted in the activity that is still the current one: work that is left over from an earlier
  activity never meets a live binding.
\<close>

theorem hub_calls_bounded:
  assumes "hub_steps J N (empty_hub ds) h"
  shows "finite (live_calls h) \<and> card (live_calls h) \<le> 16 \<and> card (live_on b h) \<le> 4 \<and>
    (\<forall>c k x. hu_calls h c = Some k \<and> \<not> is_over (hc_step k) \<and> hu_bounds h (hc_binding k) = Some x \<and> \<not> bo_retired x \<longrightarrow>
       bo_activity x = Some (hc_activity k))"
proof -
  have inv: "permits_ok h" "activity_ok h" using hub_inv_steps [OF assms] by (simp_all add: hub_inv_def)
  have "card (live_on b h) \<le> 4"
  proof (cases "hu_bounds h b")
    case None
    then have "live_on b h = {}" using permits_okD(6) [OF inv(1)] by (force simp: live_on_def)
    then show ?thesis by simp
  next
    case (Some x)
    then show ?thesis using permits_okD(4,5) [OF inv(1)] by simp
  qed
  then show ?thesis
    using permits_okD(2,3) [OF inv(1)] live_finite [OF inv(1)] inv(2) by (auto simp: activity_ok_def)
qed

theorem hub_calls_bounded_witness:
  "card (live_calls sample_hub) \<le> 16 \<and> ''c'' \<in> live_on ''b'' sample_hub"
  using hub_calls_bounded [OF sample_hub_steps, of "''b''"]
  by (simp add: live_on_def) (simp add: sample_hub_def sample_hub_call_def)

end
