(* ===== verification/Host_Session.thy ===== *)
theory Host_Session imports Acp_Restoration Tools begin

section \<open>Run options and restored sessions of the host (src/host/interactions.rs, src/host/recovery.rs)\<close>

text \<open>
  What a client of the host sends along with a run or a restoration, checked and turned into the
  library's types, and the session and run handles that choose between the library's variants.
  Identities are arguments; the texts of the library's errors are parameters.
\<close>

subsection \<open>Selected context\<close>

record text_item =
  tr_id :: resource_id
  tr_revision :: string
  tr_media_type :: string
  tr_text :: string

record context_selection =
  sl_mode :: string
  sl_records :: "record_id list"
  sl_resources :: "text_item list"

definition text_reference :: "text_item \<Rightarrow> resource_ref" where
  "text_reference r = \<lparr>res_id = tr_id r, res_revision = tr_revision r\<rparr>"

definition text_content :: "text_item \<Rightarrow> resource" where
  "text_content r = \<lparr>rsc_reference = text_reference r, rsc_media_type = tr_media_type r, rsc_bytes = tr_text r\<rparr>"

fun put_texts ::
  "(resource_error \<Rightarrow> string) \<Rightarrow> text_item list \<Rightarrow> context_manifest \<times> resource_state \<Rightarrow>
   (context_manifest \<times> resource_state, string) result" where
  "put_texts error_text [] st = Ok st"
| "put_texts error_text (r # rs) (m, s) =
     (if tr_media_type r \<notin> {''text/plain'', ''text/markdown''}
      then Err ''context resources must be plain text or Markdown''
      else
        (case resources_put (text_content r) s of
           (Ok _, s) \<Rightarrow> put_texts error_text rs (m\<lparr>cm_resources := cm_resources m @ [text_reference r]\<rparr>, s)
         | (Err e, s) \<Rightarrow> Err (error_text e)
         | (Panic, s) \<Rightarrow> Panic))"

text \<open>\<open>Selection::prepare\<close>\<close>

definition selection_prepare ::
  "(resource_error \<Rightarrow> string) \<Rightarrow> context_selection \<Rightarrow> (context_manifest \<times> resource_state, string) result" where
  "selection_prepare error_text sel =
     (if sl_mode sel \<noteq> ''append_to_native'' then Err ''only append_to_native text context is supported''
      else if 128 < length (sl_records sel) + length (sl_resources sel) then Err ''context exceeds 128 items''
      else put_texts error_text (sl_resources sel)
        (default_manifest\<lparr>cm_records := sl_records sel\<rparr>, resources_default))"

definition host_limits :: context_limits where
  "host_limits = \<lparr>max_items = 128, max_resource_bytes = 262144\<rparr>"

definition selected_task :: "string \<Rightarrow> context_manifest \<Rightarrow> resource_state \<Rightarrow> context_task" where
  "selected_task prompt m s =
     \<lparr>ct_policy = default_policy, ct_prompt = prompt, ct_manifest = m, ct_lookup = (\<lambda>r. resources_get r s),
      ct_limits = host_limits, ct_max_bytes = 524288, ct_mode = AppendToNative\<rparr>"

subsection \<open>Result contracts\<close>

record 'v result_definition =
  rd_name :: string
  rd_revision :: string
  rd_schema :: 'v
  rd_max_bytes :: nat
  rd_mode :: string

definition definition_contract ::
  "'v json \<Rightarrow> ('v \<Rightarrow> ('v \<Rightarrow> bool, string) result) \<Rightarrow> (tool_error \<Rightarrow> string) \<Rightarrow> 'v result_definition \<Rightarrow>
   ('v json_contract, string) result" where
  "definition_contract J build error_text d =
     (if rd_mode d \<noteq> ''validate_returned_text'' then Err ''native result enforcement is unsupported''
      else if 65536 < rd_max_bytes d then Err ''result validation limit exceeds 65536 bytes''
      else
        rbind (map_err error_text (compile_schema J build (rd_schema d))) (\<lambda>valid.
        rbind
          (map_err (\<lambda>_. ''contract name, revision, instructions, and validation byte limit must be nonempty'')
            (contract_new (rd_name d) (rd_revision d)
              (''Return JSON matching this schema: '' @ j_text J (rd_schema d)) (rd_max_bytes d))) (\<lambda>c.
          Ok (with_validation
            (\<lambda>v. if valid v then Ok () else Err ''result does not match the registered schema'') c))))"

subsection \<open>Runs\<close>

datatype ('n, 'v) hosted_run = PlainRun "('n, 'v) recorded_run" | JsonRun "('n, 'v, 'v) json_run"

fun hosted_inner :: "('n, 'v) hosted_run \<Rightarrow> ('n, 'v) recorded_run" where
  "hosted_inner (PlainRun r) = r"
| "hosted_inner (JsonRun r) = jr_inner r"

fun hosted_update :: "('n, 'v) recorded_run \<Rightarrow> ('n, 'v) hosted_run \<Rightarrow> ('n, 'v) hosted_run" where
  "hosted_update inner (PlainRun r) = PlainRun inner"
| "hosted_update inner (JsonRun r) = JsonRun (r\<lparr>jr_inner := inner\<rparr>)"

definition hosted_permission_pending :: "permission_id \<Rightarrow> ('n, 'v) hosted_run \<Rightarrow> bool" where
  "hosted_permission_pending i r = acp_permission_pending i (rr_inner (hosted_inner r))"

definition hosted_respond ::
  "('n, 'v) sdk \<Rightarrow> ('v, 's) record_store_ops \<Rightarrow> (pending_map \<Rightarrow> pending_map) \<Rightarrow> (nat \<Rightarrow> string option) \<Rightarrow>
   permission_id \<Rightarrow> string option \<Rightarrow> 's \<times> ('n, 'v) hosted_run \<Rightarrow>
   (unit, recording_error) result \<times> 's \<times> ('n, 'v) hosted_run" where
  "hosted_respond D S ord link i opt st =
     (case recorded_respond D S ord link i opt (fst st, hosted_inner (snd st)) of
        (x, s, inner) \<Rightarrow> (x, s, hosted_update inner (snd st)))"

definition hosted_cancel ::
  "(pending_map \<Rightarrow> pending_map) \<Rightarrow> (nat \<Rightarrow> string option) \<Rightarrow> string option \<Rightarrow> ('n, 'v) hosted_run \<Rightarrow>
   (unit, recording_error) result \<times> ('n, 'v) hosted_run" where
  "hosted_cancel ord link sent r =
     (case recorded_cancel ord link sent (hosted_inner r) of (x, inner) \<Rightarrow> (x, hosted_update inner r))"

definition hosted_next ::
  "('n, 'v) sdk \<Rightarrow> ('v, 's) record_store_ops \<Rightarrow> (stop_reason \<Rightarrow> string) \<Rightarrow> (json_rejection \<Rightarrow> 'v) \<Rightarrow>
   (string \<Rightarrow> ('v, parse_error) result) \<Rightarrow> (pending_map \<Rightarrow> pending_map) \<Rightarrow> (nat \<Rightarrow> string option) \<Rightarrow>
   string option \<Rightarrow> bool \<Rightarrow> 's \<times> ('n, 'v) hosted_run \<Rightarrow>
   (('n, 'v) acp_event option, recording_error) result option \<times> 's \<times> ('n, 'v) hosted_run" where
  "hosted_next D S reason_text rejection_json parse ord link sent closed st =
     (case snd st of
        PlainRun r \<Rightarrow>
          (case recorded_next D S ord link sent closed (fst st, r) of (x, s, r) \<Rightarrow> (x, s, PlainRun r))
      | JsonRun r \<Rightarrow>
          (case json_next D S reason_text rejection_json parse ord link sent closed (fst st, r) of
             (x, s, r) \<Rightarrow> (x, s, JsonRun r)))"

definition hosted_result :: "'v json \<Rightarrow> (json_rejection \<Rightarrow> 'v) \<Rightarrow> ('n, 'v) hosted_run \<Rightarrow> 'v" where
  "hosted_result J rejection_json run =
     (case run of
        PlainRun r \<Rightarrow> j_null J
      | JsonRun r \<Rightarrow>
          (case jr_result r of
             Some (Ok v) \<Rightarrow> j_object J [(''status'', j_string J ''valid''), (''value'', v)]
           | Some (Err e) \<Rightarrow> j_object J [(''status'', j_string J ''rejected''), (''rejection'', rejection_json e)]
           | _ \<Rightarrow> j_object J [(''status'', j_string J ''unavailable'')]))"

subsection \<open>Sessions\<close>

datatype 'v hosted_session = ActiveSession session_handle | RestoredSession "'v restored_session"

definition started_as :: "('r \<Rightarrow> ('n, 'v) hosted_run) \<Rightarrow> session_handle \<Rightarrow>
   ('r, recording_error) result \<times> 's \<times> acp_session \<Rightarrow>
   (('n, 'v) hosted_run, recording_error) result \<times> 's \<times> 'v hosted_session" where
  "started_as wrap h out =
     (case out of (x, s, sess) \<Rightarrow> (rbind x (\<lambda>r. Ok (wrap r)), s, ActiveSession (h\<lparr>sh_session := sess\<rparr>)))"

text \<open>\<open>Session::start\<close>; \<open>run_context\<close> and \<open>contract\<close> are the run's options.\<close>

definition hosted_start ::
  "('n, 'v) sdk \<Rightarrow> 'v encoder \<Rightarrow> ('v, 's) record_store_ops \<Rightarrow> acp_env \<Rightarrow> run_id \<Rightarrow> string \<Rightarrow>
   (context_manifest \<times> resource_state) option \<Rightarrow> 'v json_contract option \<Rightarrow> record_actors \<Rightarrow>
   's \<Rightarrow> 'v hosted_session \<Rightarrow> (('n, 'v) hosted_run, recording_error) result \<times> 's \<times> 'v hosted_session" where
  "hosted_start D N S V i prompt run_context contract actors s hs =
     (case hs of
        RestoredSession r \<Rightarrow>
          if run_context \<noteq> None \<or> contract \<noteq> None
          then (Err (UnsupportedContext ''first restored run must use its frozen selection without run options''), s, hs)
          else
            (case restored_start D N S V i prompt actors s r of
               (x, s, r) \<Rightarrow> (rbind x (\<lambda>run. Ok (PlainRun run)), s, RestoredSession r))
      | ActiveSession h \<Rightarrow>
          (case contract of
             Some c \<Rightarrow>
               (let task = \<lparr>jt_prompt = prompt, jt_contract = c, jt_mode = ValidateReturnedText\<rparr> in
                started_as JsonRun h
                  (case run_context of
                     Some (m, rs) \<Rightarrow>
                       start_recorded_context_json_run D N S V i task (selected_task prompt m rs) actors (sh_session h) s
                   | None \<Rightarrow> start_recorded_json_run D N S V i task actors (sh_session h) s))
           | None \<Rightarrow>
               started_as PlainRun h
                 (case run_context of
                    Some (m, rs) \<Rightarrow>
                      start_recorded_context_run D N S V i (selected_task prompt m rs) actors (sh_session h) s
                  | None \<Rightarrow> start_recorded_run D S V i prompt actors (sh_session h) s)))"

fun into_active :: "'v hosted_session \<Rightarrow> ('v hosted_session, recording_error) result" where
  "into_active (RestoredSession r) = rbind (into_session r) (\<lambda>h. Ok (ActiveSession h))"
| "into_active (ActiveSession h) = Ok (ActiveSession h)"

text \<open>\<open>Session::handoff\<close>; \<open>fresh\<close> is a new continuation identity.\<close>

definition hosted_handoff ::
  "acp_peer \<Rightarrow> 'v data_codec \<Rightarrow> ('v, 's) continuation_store_ops \<Rightarrow> (recording_error \<Rightarrow> string) \<Rightarrow>
   (acp_error \<Rightarrow> string) \<Rightarrow> string \<Rightarrow> 'v hosted_session \<Rightarrow> 's \<Rightarrow> string set \<Rightarrow>
   (string, string) result \<times> 's \<times> string set" where
  "hosted_handoff peer codec C recording_text agent_text fresh hs s sessions =
     (case (case hs of ActiveSession h \<Rightarrow> Ok h | RestoredSession r \<Rightarrow> map_err recording_text (into_session r)) of
        Err e \<Rightarrow> (Err e, s, sessions)
      | Panic \<Rightarrow> (Panic, s, sessions)
      | Ok h \<Rightarrow>
          (case handoff peer codec C (Ident fresh) h s sessions of
             (x, s, sessions) \<Rightarrow> (rbind (map_err agent_text x) (\<lambda>_. Ok fresh), s, sessions)))"

subsection \<open>Restoration requests\<close>

datatype host_restore = HostNative session_id continuation_id | HostPortable session_id context_selection

fun host_restore_session :: "host_restore \<Rightarrow> session_id" where
  "host_restore_session (HostNative sid k) = sid"
| "host_restore_session (HostPortable sid sel) = sid"

definition portable_plan :: "session_id \<Rightarrow> slot_id \<Rightarrow> string \<Rightarrow> context_manifest \<Rightarrow> portable_restore" where
  "portable_plan sid slot workspace m =
     \<lparr>pr_policy = default_policy, pr_session = sid, pr_slot = slot, pr_cwd = workspace, pr_manifest = m,
      pr_limits = host_limits, pr_max_bytes = 524288, pr_mode = AppendToNative\<rparr>"

text \<open>\<open>Restore::prepare\<close>; \<open>fresh\<close> is a new slot identity.\<close>

definition restore_prepare ::
  "'v json \<Rightarrow> ('v, 's) record_store_ops \<Rightarrow> ('v, 's) continuation_store_ops \<Rightarrow> (store_error \<Rightarrow> string) \<Rightarrow>
   (resource_error \<Rightarrow> string) \<Rightarrow> string \<Rightarrow> string \<Rightarrow> host_restore \<Rightarrow> 's \<Rightarrow>
   (restoration_policy \<times> resource_state \<times> slot_id, string) result \<times> 's" where
  "restore_prepare J S C store_text archive_text workspace fresh plan s =
     (case plan of
        HostNative sid k \<Rightarrow>
          (rbind (map_err store_text (oc_get C k s)) (\<lambda>saved.
             if k_session (cr_continuation saved) \<noteq> sid \<or>
                \<not> j_is J (j_index J (k_data (cr_continuation saved)) ''cwd'') workspace
             then Err ''continuation session/workspace mismatch''
             else Ok (NativeRestore k, resources_default, k_slot (cr_continuation saved))), s)
      | HostPortable sid sel \<Rightarrow>
          (case op_list S sid None 1 s of
             (x, s) \<Rightarrow>
               (rbind (map_err store_text x) (\<lambda>_.
                rbind (selection_prepare archive_text sel) (\<lambda>(m, rs).
                  Ok (PortableRestore (portable_plan sid (Ident fresh) workspace m), rs, Ident fresh))), s)))"

subsection \<open>What a selection resolves to\<close>

text \<open>A list of texts that one store can hold: references that repeat carry the same text.\<close>

definition texts_ok :: "text_item list \<Rightarrow> bool" where
  "texts_ok rs \<longleftrightarrow>
     (\<forall>r \<in> set rs. tr_media_type r \<in> {''text/plain'', ''text/markdown''} \<and> \<not> blank (tr_revision r)) \<and>
     (\<forall>r \<in> set rs. \<forall>r' \<in> set rs. text_reference r = text_reference r' \<longrightarrow> r = r')"

definition holds_texts :: "text_item list \<Rightarrow> resource_state \<Rightarrow> bool" where
  "holds_texts rs s \<longleftrightarrow>
     \<not> rst_poisoned s \<and> resources_inv s \<and>
     (\<forall>k x. rst_resources s k = Some x \<longleftrightarrow> (\<exists>r \<in> set rs. k = resource_key (text_reference r) \<and> x = text_content r))"

lemma text_media_plain: "\<not> blank ''text/plain''" "\<not> blank ''text/markdown''"
  by (rule not_blank_plain; simp add: plain_char_def)+

lemma text_content_inj: "text_content r = text_content r' \<longleftrightarrow> (r :: text_item) = r'"
  by (cases r; cases r') (auto simp: text_content_def text_reference_def)

lemma holds_none: "holds_texts [] resources_default"
  by (simp add: holds_texts_def inv_intros) (simp add: resources_default_def)

text \<open>One more text: it is stored, or what is stored already is the same, or its reference conflicts.\<close>

lemma put_text_cases:
  assumes "holds_texts before s" and "tr_media_type r \<in> {''text/plain'', ''text/markdown''}"
  obtains (ok) s' where "resources_put (text_content r) s = (Ok (text_content r), s')" "holds_texts (before @ [r]) s'"
      "\<not> blank (tr_revision r)" "\<forall>q \<in> set before. text_reference q = text_reference r \<longrightarrow> q = r"
  | (refused) e s' where "resources_put (text_content r) s = (Err e, s')"
      "blank (tr_revision r) \<or> (\<exists>q \<in> set before. text_reference q = text_reference r \<and> q \<noteq> r)"
proof -
  let ?k = "resource_key (text_reference r)"
  have s: "\<not> rst_poisoned s" "resources_inv s"
      "\<And>k x. rst_resources s k = Some x \<longleftrightarrow> (\<exists>q \<in> set before. k = resource_key (text_reference q) \<and> x = text_content q)"
    using assms(1) by (auto simp: holds_texts_def)
  have media: "\<not> blank (tr_media_type r)" using assms(2) text_media_plain by auto
  have key: "rsc_reference (text_content r) = text_reference r" "res_revision (text_reference r) = tr_revision r"
      "rsc_media_type (text_content r) = tr_media_type r"
    by (simp_all add: text_content_def text_reference_def)
  show thesis
  proof (cases "blank (tr_revision r)")
    case True
    then show thesis using key by (intro refused [of Invalid s]) (simp_all add: resources_put_def)
  next
    case False
    show thesis
    proof (cases "rst_resources s ?k")
      case None
      have fresh: "\<forall>q \<in> set before. text_reference q \<noteq> text_reference r"
      proof (intro ballI notI)
        fix q assume "q \<in> set before" "text_reference q = text_reference r"
        then have "rst_resources s ?k = Some (text_content q)" unfolding s(3) by (intro bexI [of _ q]) simp_all
        then show False using None by simp
      qed
      let ?s = "s\<lparr>rst_resources := (rst_resources s)(?k \<mapsto> text_content r)\<rparr>"
      have put: "resources_put (text_content r) s = (Ok (text_content r), ?s)"
        using None False media s(1) key by (simp add: resources_put_def)
      have "resources_inv ?s" using resources_inv_put [OF s(2), of "text_content r"] put by simp
      then have "holds_texts (before @ [r]) ?s"
        using s fresh by (auto simp: holds_texts_def resource_key_inj)
      with put False fresh show thesis by (intro ok) auto
    next
      case (Some x)
      then obtain q where q: "q \<in> set before" "text_reference q = text_reference r" "x = text_content q"
        using s(3) by (auto simp: resource_key_inj)
      show thesis
      proof (cases "q = r")
        case True
        then have put: "resources_put (text_content r) s = (Ok (text_content r), s)"
          using Some False media s(1) key q(3) by (simp add: resources_put_def)
        have uniq: "\<forall>q' \<in> set before. text_reference q' = text_reference r \<longrightarrow> q' = r"
        proof (intro ballI impI)
          fix q' assume "q' \<in> set before" "text_reference q' = text_reference r"
          then have "rst_resources s ?k = Some (text_content q')" unfolding s(3) by (intro bexI [of _ q']) simp_all
          then show "q' = r" using Some q(3) True by (simp add: text_content_inj)
        qed
        have "holds_texts (before @ [r]) s" using assms(1) q(1) True by (auto simp: holds_texts_def)
        with put False uniq show thesis by (intro ok) auto
      next
        case False': False
        then have "resources_put (text_content r) s = (Err RevisionConflicts, s)"
          using Some False media s(1) key q(3) by (simp add: resources_put_def text_content_inj)
        with q False' show thesis by (intro refused) auto
      qed
    qed
  qed
qed

lemma put_texts_Ok:
  assumes "holds_texts before s"
  shows "put_texts error_text rs (m, s) = Ok (m', s') \<Longrightarrow>
      holds_texts (before @ rs) s' \<and> m' = m\<lparr>cm_resources := cm_resources m @ map text_reference rs\<rparr> \<and> (texts_ok before \<longrightarrow> texts_ok (before @ rs))"
    and "texts_ok (before @ rs) \<Longrightarrow> \<exists>out. put_texts error_text rs (m, s) = Ok out"
  using assms
proof (induction rs arbitrary: m s before)
  case (Cons r rs)
  {
    case 1
    then have media: "tr_media_type r \<in> {''text/plain'', ''text/markdown''}" by (auto split: if_splits)
    show ?case
    proof (rule put_text_cases [OF 1(2) media])
      fix s1
      assume ok: "resources_put (text_content r) s = (Ok (text_content r), s1)" "holds_texts (before @ [r]) s1"
        "\<not> blank (tr_revision r)" "\<forall>q \<in> set before. text_reference q = text_reference r \<longrightarrow> q = r"
      have "put_texts error_text rs (m\<lparr>cm_resources := cm_resources m @ [text_reference r]\<rparr>, s1) = Ok (m', s')"
        using 1(1) media ok(1) by (auto split: if_splits)
      from Cons.IH(1) [OF this ok(2)] show ?thesis using ok(3,4) media by (fastforce simp: texts_ok_def)
    next
      fix e s1
      assume "resources_put (text_content r) s = (Err e, s1)"
      then show ?thesis using 1(1) media by (auto split: if_splits)
    qed
  next
    case 2
    then have media: "tr_media_type r \<in> {''text/plain'', ''text/markdown''}" by (simp add: texts_ok_def)
    show ?case
    proof (rule put_text_cases [OF 2(2) media])
      fix s1
      assume ok: "resources_put (text_content r) s = (Ok (text_content r), s1)" "holds_texts (before @ [r]) s1"
      show ?thesis using Cons.IH(2) [OF _ ok(2)] 2(1) media ok(1) by (auto split: if_splits)
    next
      fix e s1
      assume "blank (tr_revision r) \<or> (\<exists>q \<in> set before. text_reference q = text_reference r \<and> q \<noteq> r)"
      then show ?thesis using 2(1) by (auto simp: texts_ok_def)
    qed
  }
qed auto

lemma texts_held:
  assumes "holds_texts rs s" and "\<forall>r \<in> set rs. \<not> blank (tr_revision r)"
  shows "resources_get ref s = Ok x \<longleftrightarrow> (\<exists>r \<in> set rs. ref = text_reference r \<and> x = text_content r)"
proof -
  have "rst_resources s (resource_key ref) = Some x \<longleftrightarrow>
      (\<exists>r \<in> set rs. resource_key ref = resource_key (text_reference r) \<and> x = text_content r)"
    using assms(1) unfolding holds_texts_def by blast
  then have "rst_resources s (resource_key ref) = Some x \<longleftrightarrow> (\<exists>r \<in> set rs. ref = text_reference r \<and> x = text_content r)"
    by (simp only: resource_key_inj)
  moreover have "\<not> rst_poisoned s" using assms(1) by (simp add: holds_texts_def)
  ultimately show ?thesis using assms(2)
    by (auto simp: resources_get_def ok_or_def text_reference_def split: option.split)
qed

lemma selection_prepared:
  assumes "selection_prepare error_text sel = Ok (m, s)"
  shows "m = default_manifest\<lparr>cm_records := sl_records sel, cm_resources := map text_reference (sl_resources sel)\<rparr>"
    and "resources_get ref s = Ok x \<longleftrightarrow> (\<exists>r \<in> set (sl_resources sel). ref = text_reference r \<and> x = text_content r)"
    and "length (sl_records sel) + length (sl_resources sel) \<le> 128" and "sl_mode sel = ''append_to_native''"
    and "texts_ok (sl_resources sel)"
proof -
  have put: "put_texts error_text (sl_resources sel) (default_manifest\<lparr>cm_records := sl_records sel\<rparr>, resources_default) = Ok (m, s)"
    using assms by (auto simp: selection_prepare_def split: if_splits)
  note P = put_texts_Ok(1) [OF holds_none put, simplified]
  have ok: "texts_ok (sl_resources sel)" using P by (simp add: texts_ok_def)
  show "m = default_manifest\<lparr>cm_records := sl_records sel, cm_resources := map text_reference (sl_resources sel)\<rparr>"
    using P by (simp add: default_manifest_def)
  show "resources_get ref s = Ok x \<longleftrightarrow> (\<exists>r \<in> set (sl_resources sel). ref = text_reference r \<and> x = text_content r)"
    by (rule texts_held) (use P ok in \<open>auto simp: texts_ok_def\<close>)
  show "length (sl_records sel) + length (sl_resources sel) \<le> 128" "sl_mode sel = ''append_to_native''"
    using assms by (auto simp: selection_prepare_def split: if_splits)
  show "texts_ok (sl_resources sel)" by (rule ok)
qed

lemma selection_accepted:
  "(\<exists>out. selection_prepare error_text sel = Ok out) \<longleftrightarrow>
     sl_mode sel = ''append_to_native'' \<and> length (sl_records sel) + length (sl_resources sel) \<le> 128 \<and>
     texts_ok (sl_resources sel)"
proof -
  have "\<exists>out. selection_prepare error_text sel = Ok out"
    if "sl_mode sel = ''append_to_native''" "length (sl_records sel) + length (sl_resources sel) \<le> 128" "texts_ok (sl_resources sel)"
    using put_texts_Ok(2) [OF holds_none, of "sl_resources sel"] that by (simp add: selection_prepare_def)
  then show ?thesis using selection_prepared(3-5) [of error_text sel] by fastforce
qed

subsection \<open>Restoring what was asked for\<close>

text \<open>The content of a saved continuation never changes, whatever happens to the store.\<close>

lemma registry_keeps_content:
  assumes "reg_inv g" and "reg_records g i = Some r"
  shows "\<exists>r'. reg_records (snd (registry_save c g)) i = Some r' \<and> cr_continuation r' = cr_continuation r"
    and "\<exists>r'. reg_records (snd (registry_claim j g)) i = Some r' \<and> cr_continuation r' = cr_continuation r"
proof -
  show "\<exists>r'. reg_records (snd (registry_save c g)) i = Some r' \<and> cr_continuation r' = cr_continuation r"
    by (cases rule: registry_save_cases [of c g])
      (use assms registry_previous_Some(1) [OF assms(1), of c] in \<open>auto simp: demote_def split: option.splits\<close>)
  show "\<exists>r'. reg_records (snd (registry_claim j g)) i = Some r' \<and> cr_continuation r' = cr_continuation r"
    by (cases rule: registry_claim_cases [of j g]) (use assms in auto)
qed

lemma continuations_untouched:
  "ms_continuations (store_exec memory_store oper s) = ms_continuations s"
  "ms_continuations (snd (memory_link_execution e s)) = ms_continuations s"
  by (auto simp: store_exec_def memory_store_sel memory_create_session_def memory_register_run_def memory_insert_def
      memory_checkpoint_def memory_resolve_def memory_link_execution_def with_lock_def commit_ok_def commit_def Let_def
      split: store_op.splits option.splits result.splits prod.splits if_splits)

definition keeps_contents :: "'v memory_state \<Rightarrow> 'v memory_state \<Rightarrow> bool" where
  "keeps_contents s t \<longleftrightarrow>
     (\<forall>i r. memory_get_continuation i s = Ok r \<longrightarrow>
        (\<forall>r'. memory_get_continuation i t = Ok r' \<longrightarrow> cr_continuation r' = cr_continuation r))"

lemma memory_content:
  "memory_get_continuation i s = Ok r \<longleftrightarrow> \<not> ms_poisoned s \<and> reg_records (ms_continuations s) i = Some r"
  by (auto simp: memory_get_continuation_def read_lock_def registry_get_def ok_or_def split: option.splits)

lemma step_keeps_content:
  assumes "memory_step s t" and "ms_inv s" and "reg_records (ms_continuations s) i = Some r"
  shows "\<exists>r'. reg_records (ms_continuations t) i = Some r' \<and> cr_continuation r' = cr_continuation r"
proof -
  have g: "reg_inv (ms_continuations s)" using assms(2) by (simp add: ms_inv_def core_inv_def conts_ok_def)
  show ?thesis
    using assms(1)
  proof cases
    case (save c)
    have "ms_continuations t = ms_continuations s \<or> ms_continuations t = snd (registry_save c (ms_continuations s))"
      by (auto simp: save memory_save_continuation_def with_lock_def split: prod.splits result.splits)
    then show ?thesis using registry_keeps_content(1) [OF g assms(3), of c] assms(3) by metis
  next
    case (claim j)
    have "ms_continuations t = ms_continuations s \<or> ms_continuations t = snd (registry_claim j (ms_continuations s))"
      by (auto simp: claim memory_claim_continuation_def with_lock_def split: prod.splits result.splits)
    then show ?thesis using registry_keeps_content(2) [OF g assms(3), of j] assms(3) by metis
  qed (use assms(3) in \<open>simp_all add: continuations_untouched\<close>)
qed

lemma steps_keep_contents:
  assumes "memory_step\<^sup>*\<^sup>* s t" and "ms_inv s"
  shows "keeps_contents s t"
proof -
  have "\<exists>r'. reg_records (ms_continuations t) i = Some r' \<and> cr_continuation r' = cr_continuation r"
    if "reg_records (ms_continuations s) i = Some r" for i r
    using assms that
  proof (induction arbitrary: r rule: converse_rtranclp_induct)
    case (step s1 s2)
    obtain r2 where "reg_records (ms_continuations s2) i = Some r2" "cr_continuation r2 = cr_continuation r"
      using step_keeps_content [OF step.hyps(1) step.prems] by blast
    then show ?case using step.IH [OF ms_inv_step [OF step.hyps(1) step.prems(1)]] by metis
  qed simp
  then show ?thesis by (fastforce simp: keeps_contents_def memory_content)
qed

text \<open>A resumed session is the one its continuation describes.\<close>

lemma resumed_as_saved:
  assumes "resume_saved peer codec C setup i servers s sessions = (Ok h, s', sessions')"
  obtains saved data config where "oc_get C i s = Ok saved" "dc_from_value codec (k_data (cr_continuation saved)) = Some data"
    "sh_session h = resumed_session (cr_continuation saved) i config" "sh_cwd h = ad_cwd data"
proof -
  let ?checks = "rbind (map_err AcpStore (oc_get C i s)) (\<lambda>saved.
      rbind (resume_checks peer codec (cr_continuation saved) servers) (\<lambda>data. Ok (cr_continuation saved, data)))"
  obtain c data where checks: "?checks = Ok (c, data)"
    using assms by (cases ?checks) (auto simp: resume_saved_def split: if_splits)
  have h: "(\<exists>config. sh_session h = resumed_session c i config) \<and> sh_cwd h = ad_cwd data"
    using assms by (auto simp: resume_saved_def checks split: if_splits result.splits prod.splits)
  from checks obtain saved where saved: "oc_get C i s = Ok saved" "resume_checks peer codec (cr_continuation saved) servers = Ok data"
      "c = cr_continuation saved"
    by (auto simp: rbind_eq_Ok)
  from saved(2) have "dc_from_value codec (k_data (cr_continuation saved)) = Some data"
    by (auto simp: resume_checks_def rbind_eq_Ok split: option.splits if_splits)
  then show thesis using that saved(1,3) h by blast
qed

lemma new_session_owner:
  "acp_new_session peer setup sid slot cwd servers sessions = (Ok h, sessions') \<Longrightarrow>
     as_session_id (sh_session h) = sid \<and> as_slot_id (sh_session h) = slot \<and> sh_cwd h = cwd"
  by (auto simp: acp_new_session_def session_new_def split: result.splits prod.splits if_splits)

text \<open>A portable restoration waits with the context its manifest selects.\<close>

lemma portable_pending:
  assumes "restore peer codec N S C lookup resume setup (PortableRestore (portable_plan sid slot workspace m)) servers s sessions =
      (Ok r, s', sessions')" and "cm_instructions m = []"
  obtains c where "re_pending r = Some \<lparr>pn_context = c, pn_mode = AppendToNative, pn_max_bytes = 524288\<rparr>"
    "pc_manifest c = m" "context_exact (\<lambda>j. op_get S j s) lookup [sid] c"
    "as_session_id (sh_session (re_handle r)) = sid" "as_slot_id (sh_session (re_handle r)) = slot" "sh_cwd (re_handle r) = workspace"
proof -
  let ?plan = "portable_plan sid slot workspace m"
  have plan: "pr_session ?plan = sid" "pr_slot ?plan = slot" "pr_cwd ?plan = workspace" "pr_mode ?plan = AppendToNative"
      "pr_max_bytes ?plan = 524288" "pr_manifest ?plan = m" "pr_limits ?plan = host_limits" "pr_policy ?plan = default_policy"
    by (simp_all add: portable_plan_def)
  obtain c where c: "portable_prepare N S lookup (pe_images peer) ?plan s = Ok c"
    using assms(1) by (auto simp: restore_def split: result.splits)
  then obtain h where h: "acp_new_session peer setup sid slot workspace servers sessions = (Ok h, sessions')"
      "re_handle r = h" "re_pending r = Some \<lparr>pn_context = c, pn_mode = AppendToNative, pn_max_bytes = 524288\<rparr>"
    using assms(1) by (auto simp: restore_def plan split: result.splits prod.splits)
  note r = h(3) new_session_owner [OF h(1), folded h(2)]
  have "prepare_with_policy m (\<lambda>j. op_get S j s) lookup [sid] host_limits default_policy = Ok c"
    using c by (auto simp: portable_prepare_def plan rbind_eq_Ok)
  then obtain sel omitted forbidden sel' forbidden' c0 where P:
      "apply_omissions (pol_omissions default_policy) m [] [] = Ok (sel, omitted, forbidden)"
      "apply_skills (pol_skills default_policy) omitted sel forbidden = Ok (sel', forbidden')"
      "prepare_inner sel' (\<lambda>j. op_get S j s) lookup [sid] host_limits forbidden' = Ok c0"
      "c = c0\<lparr>pc_requested_manifest := m, pc_policy := default_policy\<rparr>"
    by (rule prepare_with_policy_Ok)
  then have "sel' = m" by (simp add: default_policy_def)
  then have "pc_manifest c = m" "context_exact (\<lambda>j. op_get S j s) lookup [sid] c"
    using prepare_inner_ok [OF P(3)] by (auto simp: P(4) context_exact_def)
  then show thesis using r that by blast
qed

lemma restore_native:
  assumes "restore peer codec N S C lookup resume setup (NativeRestore k) servers s sessions = (Ok r, s', sessions')"
  obtains h where "resume_saved peer codec C resume k servers s sessions = (Ok h, s', sessions')"
    "re_handle r = h" "re_pending r = None"
proof -
  obtain x s1 sessions1 where x: "resume_saved peer codec C resume k servers s sessions = (x, s1, sessions1)"
    by (rule prod_cases3)
  show thesis using assms that x by (cases x) (auto simp: restore_def x)
qed

lemma native_prepared:
  assumes "restore_prepare J S memory_continuation_store store_text archive_text workspace fresh (HostNative sid k) s0 =
      (Ok (policy, rs, slot), s1)"
  obtains saved where "memory_get_continuation k s0 = Ok saved" "k_session (cr_continuation saved) = sid"
    "j_as_str J (j_index J (k_data (cr_continuation saved)) ''cwd'') = Some workspace"
    "policy = NativeRestore k" "slot = k_slot (cr_continuation saved)" "s1 = s0"
proof (cases "memory_get_continuation k s0")
  case (Ok saved)
  then have "k_session (cr_continuation saved) = sid"
      "j_is J (j_index J (k_data (cr_continuation saved)) ''cwd'') workspace"
      "policy = NativeRestore k" "slot = k_slot (cr_continuation saved)" "s1 = s0"
    using assms by (simp_all add: restore_prepare_def memory_continuation_store_def split: if_splits)
  then show thesis using that [OF Ok] by (simp add: j_is_def)
qed (use assms in \<open>simp_all add: restore_prepare_def memory_continuation_store_def\<close>)

lemma portable_prepared:
  assumes "restore_prepare J S C store_text archive_text workspace fresh (HostPortable sid sel) s0 = (Ok (policy, rs, slot), s1)"
  obtains m where "selection_prepare archive_text sel = Ok (m, rs)" "slot = Ident fresh"
    "policy = PortableRestore (portable_plan sid slot workspace m)"
proof -
  obtain x s where x: "op_list S sid None 1 s0 = (x, s)" by force
  with assms have "rbind (map_err store_text x) (\<lambda>_. rbind (selection_prepare archive_text sel) (\<lambda>(m, rs).
      Ok (PortableRestore (portable_plan sid (Ident fresh) workspace m), rs, Ident fresh))) = Ok (policy, rs, slot)"
    by (simp add: restore_prepare_def)
  then obtain y where "selection_prepare archive_text sel = Ok y"
      "(case y of (m, rs) \<Rightarrow> Ok (PortableRestore (portable_plan sid (Ident fresh) workspace m), rs, Ident fresh)) =
       (Ok (policy, rs, slot) :: (restoration_policy \<times> resource_state \<times> slot_id, string) result)"
    unfolding rbind_eq_Ok by blast
  then show thesis using that by (cases y) auto
qed

subsection \<open>The properties\<close>

text \<open>
  C37: A context selection of a host client becomes exactly what it says. It is accepted if and
  only if its mode is supported, it has at most 128 items, every text has a plain media type and a
  revision, and references that repeat carry the same text; then the manifest lists its records and
  references in order, and the resource store holds its texts, byte for byte, and nothing else.
\<close>

theorem host_selection_exact:
  "((\<exists>out. selection_prepare error_text sel = Ok out) \<longleftrightarrow>
      sl_mode sel = ''append_to_native'' \<and> length (sl_records sel) + length (sl_resources sel) \<le> 128 \<and>
      texts_ok (sl_resources sel)) \<and>
   (\<forall>m s. selection_prepare error_text sel = Ok (m, s) \<longrightarrow>
      m = default_manifest\<lparr>cm_records := sl_records sel, cm_resources := map text_reference (sl_resources sel)\<rparr> \<and>
      (\<forall>ref x. resources_get ref s = Ok x \<longleftrightarrow>
         (\<exists>r \<in> set (sl_resources sel). ref = text_reference r \<and> x = text_content r)))"
  using selection_accepted [of error_text sel] selection_prepared(1,2) [of error_text sel] by blast

definition sample_text_selection :: context_selection where
  "sample_text_selection =
     \<lparr>sl_mode = ''append_to_native'', sl_records = [],
      sl_resources = [\<lparr>tr_id = Ident ''d'', tr_revision = ''1'', tr_media_type = ''text/plain'', tr_text = ''x''\<rparr>]\<rparr>"

theorem host_selection_exact_witness:
  "\<exists>m s. selection_prepare (\<lambda>_. ''e'') sample_text_selection = Ok (m, s) \<and>
     resources_get \<lparr>res_id = Ident ''d'', res_revision = ''1''\<rparr> s = Ok (sample_resource ''x'')"
proof -
  have "texts_ok (sl_resources sample_text_selection)"
    by (simp add: texts_ok_def sample_text_selection_def sample_resource_not_blank)
  then obtain m s where ms: "selection_prepare (\<lambda>_. ''e'') sample_text_selection = Ok (m, s)"
    using host_selection_exact [of "\<lambda>_. ''e''" sample_text_selection] by (force simp: sample_text_selection_def)
  have "text_reference r = \<lparr>res_id = Ident ''d'', res_revision = ''1''\<rparr> \<and> text_content r = sample_resource ''x''"
    if "r \<in> set (sl_resources sample_text_selection)" for r
    using that by (simp add: sample_text_selection_def text_reference_def text_content_def sample_resource_def)
  moreover have "sl_resources sample_text_selection \<noteq> []" by (simp add: sample_text_selection_def)
  ultimately have "resources_get \<lparr>res_id = Ident ''d'', res_revision = ''1''\<rparr> s = Ok (sample_resource ''x'')"
    using host_selection_exact [of "\<lambda>_. ''e''" sample_text_selection] ms by (metis list.set_intros(1) neq_Nil_conv)
  then show ?thesis using ms by blast
qed

text \<open>
  C26: A host restores what its client asked for. If the request is prepared on a reachable store and,
  after any changes of the store, the restoration succeeds, then the session belongs to the requested
  conversation and to the slot the client is told, and works in the requested directory. A native
  restoration continues the requested continuation with nothing to replay; a portable one holds back,
  for its first run, exactly the selected records as they are stored at that moment and exactly the
  texts of the request.
\<close>

theorem host_restore_exact:
  assumes "restore_prepare J memory_store memory_continuation_store store_text archive_text workspace fresh plan s0 =
      (Ok (policy, rs, slot), s1)"
    and "memory_reachable s0" and "memory_step\<^sup>*\<^sup>* s1 s"
    and "restore peer codec N memory_store memory_continuation_store (\<lambda>ref. resources_get ref rs) resume setup policy servers s
      sessions = (Ok r, s2, sessions')"
    and "\<forall>v d. dc_from_value codec v = Some d \<longrightarrow> j_as_str J (j_index J v ''cwd'') = Some (ad_cwd d)"
  shows "as_session_id (sh_session (re_handle r)) = host_restore_session plan \<and>
    as_slot_id (sh_session (re_handle r)) = slot \<and> sh_cwd (re_handle r) = workspace \<and>
    (case plan of
       HostNative sid k \<Rightarrow> as_predecessor (sh_session (re_handle r)) = Some k \<and> re_pending r = None
     | HostPortable sid sel \<Rightarrow>
         (\<exists>p. re_pending r = Some p \<and>
            map (\<lambda>j. memory_get j s) (sl_records sel) = map Ok (pc_records (pn_context p)) \<and>
            set (pc_resources (pn_context p)) = text_content ` set (sl_resources sel)))"
proof (cases plan)
  case (HostNative sid k)
  obtain saved where saved: "memory_get_continuation k s0 = Ok saved" "k_session (cr_continuation saved) = sid"
      "j_as_str J (j_index J (k_data (cr_continuation saved)) ''cwd'') = Some workspace"
      "policy = NativeRestore k" "slot = k_slot (cr_continuation saved)" "s1 = s0"
    by (rule native_prepared [OF assms(1) [unfolded HostNative]])
  obtain h where h: "resume_saved peer codec memory_continuation_store resume k servers s sessions = (Ok h, s2, sessions')"
      "re_handle r = h" "re_pending r = None"
    by (rule restore_native [OF assms(4) [unfolded saved(4)]])
  obtain now data config where now: "memory_get_continuation k s = Ok now"
      "dc_from_value codec (k_data (cr_continuation now)) = Some data"
      "sh_session h = resumed_session (cr_continuation now) k config" "sh_cwd h = ad_cwd data"
    by (rule resumed_as_saved [OF h(1)]) (simp add: memory_continuation_store_def)
  have same: "cr_continuation now = cr_continuation saved"
    using steps_keep_contents [OF assms(3) [unfolded saved(6)] memory_reachable_ms_inv [OF assms(2)]] saved(1) now(1)
    unfolding keeps_contents_def by blast
  have "j_as_str J (j_index J (k_data (cr_continuation now)) ''cwd'') = Some (ad_cwd data)"
    using assms(5) now(2) by blast
  then have "ad_cwd data = workspace" using saved(3) by (simp add: same)
  moreover have "as_session_id (sh_session h) = sid" "as_slot_id (sh_session h) = slot"
      "as_predecessor (sh_session h) = Some k"
    unfolding now(3) same saved(5) using saved(2) by (simp_all add: resumed_session_def)
  ultimately show ?thesis unfolding HostNative h(2) using now(4) h(3) by simp
next
  case (HostPortable sid sel)
  obtain m where sel: "selection_prepare archive_text sel = Ok (m, rs)" and slot: "slot = Ident fresh"
      "policy = PortableRestore (portable_plan sid slot workspace m)"
    by (rule portable_prepared [OF assms(1) [unfolded HostPortable]])
  note m = selection_prepared(1,2) [OF sel]
  obtain c where c: "re_pending r = Some \<lparr>pn_context = c, pn_mode = AppendToNative, pn_max_bytes = 524288\<rparr>"
      "pc_manifest c = m" "context_exact (\<lambda>j. op_get memory_store j s) (\<lambda>ref. resources_get ref rs) [sid] c"
      "as_session_id (sh_session (re_handle r)) = sid" "as_slot_id (sh_session (re_handle r)) = slot"
      "sh_cwd (re_handle r) = workspace"
    by (rule portable_pending [OF assms(4) [unfolded slot(2)]]) (simp add: m(1) default_manifest_def)
  have exact: "map (\<lambda>j. memory_get j s) (sl_records sel) = map Ok (pc_records c)"
      "\<forall>x \<in> set (pc_resources c). resources_get (rsc_reference x) rs = Ok x"
      "set (map text_reference (sl_resources sel)) \<subseteq> rsc_reference ` set (pc_resources c)"
    using c(2,3) by (simp_all add: context_exact_def m(1) memory_store_sel)
  have "text_content t \<in> set (pc_resources c)" if t: "t \<in> set (sl_resources sel)" for t
  proof -
    obtain x where x: "x \<in> set (pc_resources c)" "rsc_reference x = text_reference t" using exact(3) t by force
    have "resources_get (text_reference t) rs = Ok (text_content t)" using m(2) t by blast
    then show ?thesis using exact(2) x by fastforce
  qed
  moreover have "set (pc_resources c) \<subseteq> text_content ` set (sl_resources sel)" using exact(2) m(2) by blast
  ultimately have "set (pc_resources c) = text_content ` set (sl_resources sel)" by blast
  then show ?thesis using c(1,4,5,6) exact(1) by (simp add: HostPortable)
qed

definition sample_restore_codec :: "tree data_codec" where
  "sample_restore_codec =
     \<lparr>dc_to_value = (\<lambda>d. Some (TObj [(''cwd'', TStr (ad_cwd d))])),
      dc_from_value = (\<lambda>v. map_option (\<lambda>cwd. \<lparr>ad_version = 1, ad_cwd = cwd, ad_agent_name = ''agent'', ad_agent_version = ''1''\<rparr>)
        (j_as_str tree_json (j_index tree_json v ''cwd'')))\<rparr>"

lemma not_blank_scope: "\<not> blank ''scope''"
  by (rule not_blank_plain) (simp_all add: plain_char_def)

definition sample_saved :: "tree continuation" where
  "sample_saved =
     \<lparr>k_id = Ident ''k'', k_session = Ident ''s'', k_slot = Ident ''l'', k_adapter = adapter_name, k_scope = ''scope'',
      k_native_key = ''native'', k_predecessor = None, k_data = TObj [(''cwd'', TStr ''/w'')]\<rparr>"

definition sample_saved_store :: "tree memory_state" where
  "sample_saved_store = snd (memory_save_continuation sample_saved (snd (memory_create_session (Ident ''s'') memory_default)))"

lemma sample_saved_reachable: "memory_reachable sample_saved_store"
proof -
  have "memory_reachable (snd (memory_create_session (Ident ''s'') memory_default) :: tree memory_state)"
    using memory_exec_reachable [OF memory_default_reachable, of "CreateSession (Ident ''s'')"]
    by (simp add: store_exec_def memory_store_sel)
  then show ?thesis unfolding sample_saved_store_def by (rule memory_reachable.step) (rule memory_step.save)
qed

lemma sample_saved_get:
  "memory_get_continuation (Ident ''k'') sample_saved_store = Ok (fresh_record sample_saved)"
  "\<exists>s. memory_claim_continuation (Ident ''k'') sample_saved_store = (Ok ((fresh_record sample_saved)\<lparr>cr_state := Claimed\<rparr>), s)"
proof -
  have "\<not> blank ''native''" "\<not> blank ''acp-v1''"
    by (rule not_blank_plain; simp add: plain_char_def)+
  then show "memory_get_continuation (Ident ''k'') sample_saved_store = Ok (fresh_record sample_saved)"
    "\<exists>s. memory_claim_continuation (Ident ''k'') sample_saved_store = (Ok ((fresh_record sample_saved)\<lparr>cr_state := Claimed\<rparr>), s)"
    by (simp_all add: sample_saved_store_def memory_get_continuation_def memory_claim_continuation_def read_lock_def
        registry_get_def registry_claim_def ok_or_def memory_create_session_def with_lock_def memory_default_def
        memory_save_continuation_def registry_save_def continuation_validate_def sample_saved_def adapter_name_def
        empty_registry_def registry_previous_def continuation_key_def validate_successor_def fresh_record_def demote_def
        not_blank_scope Let_def)
qed

lemma sample_resume:
  "\<exists>s sessions. resume_saved sample_peer sample_restore_codec memory_continuation_store (\<lambda>native cwd. Ok config) (Ident ''k'') []
     sample_saved_store {} =
   (Ok \<lparr>sh_session = resumed_session sample_saved (Ident ''k'') config, sh_native = ''native'', sh_cwd = ''/w''\<rparr>, s, sessions)"
proof -
  obtain s where claim: "memory_claim_continuation (Ident ''k'') sample_saved_store =
      (Ok ((fresh_record sample_saved)\<lparr>cr_state := Claimed\<rparr>), s)"
    using sample_saved_get(2) by blast
  have saved: "k_data sample_saved = TObj [(''cwd'', TStr ''/w'')]" "k_adapter sample_saved = adapter_name"
      "k_scope sample_saved = ''scope''" "k_native_key sample_saved = ''native''"
    by (simp_all add: sample_saved_def)
  have data: "dc_from_value sample_restore_codec (TObj [(''cwd'', TStr ''/w'')]) =
      Some \<lparr>ad_version = 1, ad_cwd = ''/w'', ad_agent_name = ''agent'', ad_agent_version = ''1''\<rparr>"
    by (simp add: sample_restore_codec_def j_index_def j_get_def tree_json_def)
  have "resume_checks sample_peer sample_restore_codec sample_saved [] =
      Ok \<lparr>ad_version = 1, ad_cwd = ''/w'', ad_agent_name = ''agent'', ad_agent_version = ''1''\<rparr>"
    by (simp add: resume_checks_def saved data sample_peer_def connection_scope_def not_blank_scope absolute_path_def)
  then show ?thesis
    by (simp add: resume_saved_def memory_continuation_store_def sample_peer_def sample_saved_get(1) claim
        fresh_record_def saved)
qed

theorem host_restore_exact_witness:
  "\<forall>N answer. \<exists>r s sessions. restore sample_peer sample_restore_codec (N :: tree encoder) memory_store memory_continuation_store
      (\<lambda>ref. resources_get ref resources_default)
      (\<lambda>_ _. Ok \<lparr>cs_options = None, cs_requested = [], cs_pending = False, cs_uncertain = False\<rparr>) answer
      (NativeRestore (Ident ''k'')) [] sample_saved_store {} = (Ok r, s, sessions) \<and>
    as_slot_id (sh_session (re_handle r)) = Ident ''l'' \<and> sh_cwd (re_handle r) = ''/w''"
proof (intro allI)
  fix N :: "tree encoder" and answer
  let ?resume = "\<lambda>_ _. Ok \<lparr>cs_options = None, cs_requested = [], cs_pending = False, cs_uncertain = False\<rparr>"
  have prep: "restore_prepare tree_json memory_store memory_continuation_store (\<lambda>_. ''e'') (\<lambda>_. ''e'') ''/w'' ''f''
      (HostNative (Ident ''s'') (Ident ''k'')) sample_saved_store =
      (Ok (NativeRestore (Ident ''k''), resources_default, Ident ''l''), sample_saved_store)"
    by (simp add: restore_prepare_def memory_continuation_store_def sample_saved_get fresh_record_def sample_saved_def j_is_def
        j_index_def j_get_def tree_json_def)
  have codec: "\<forall>v d. dc_from_value sample_restore_codec v = Some d \<longrightarrow>
      j_as_str tree_json (j_index tree_json v ''cwd'') = Some (ad_cwd d)"
    by (auto simp: sample_restore_codec_def)
  obtain s sessions h where "resume_saved sample_peer sample_restore_codec memory_continuation_store ?resume (Ident ''k'') []
      sample_saved_store {} = (Ok h, s, sessions)"
    using sample_resume by blast
  then obtain r where r: "restore sample_peer sample_restore_codec N memory_store memory_continuation_store
      (\<lambda>ref. resources_get ref resources_default) ?resume answer (NativeRestore (Ident ''k'')) [] sample_saved_store {} =
      (Ok r, s, sessions)"
    by (simp add: restore_def)
  show "\<exists>r s sessions. restore sample_peer sample_restore_codec N memory_store memory_continuation_store
      (\<lambda>ref. resources_get ref resources_default) ?resume answer (NativeRestore (Ident ''k'')) [] sample_saved_store {} =
      (Ok r, s, sessions) \<and> as_slot_id (sh_session (re_handle r)) = Ident ''l'' \<and> sh_cwd (re_handle r) = ''/w''"
    using host_restore_exact [OF prep sample_saved_reachable rtranclp.rtrancl_refl r codec] r by blast
qed

end
