(* ===== verification/Host_Questions.thy ===== *)
theory Host_Questions imports Questions Host_Hub begin

section \<open>Questions of application tools (src/host/questions.rs)\<close>

text \<open>
  A tool that runs in the host's client may ask the user. The service opens the question on behalf
  of the pending tool call, lists it, routes answers to its responder and closes it when it is
  answered or when the call ends. \<open>service_next\<close> says what each step of the tasks does: one step per
  region under a lock, per call of a responder, per poll. The store is any record store \<open>S\<close>.
  The replies to the client are the final states of requests and tasks; \<open>qs_output\<close> has the events.
  A reply that finds the channel full is a step \<open>HostStops\<close>. The flag of the exit code is left out.
\<close>

subsection \<open>State\<close>

text \<open>
  A question with its gate and the task that asked it: waiting, with the result it got, after its
  report, and gone. \<open>hq_resolved\<close> is the entry's flag.
\<close>

datatype 'v ask_task =
  Asking
| Told "('v snapshot, question_error) result"
| Lingering "('v snapshot, question_error) result"
| Left "('v snapshot, question_error) result option"

record 'v host_question =
  hq_owner :: question_owner
  hq_shared :: "'v shared"
  hq_gate :: "'v gate"
  hq_resolved :: bool
  hq_task :: "'v ask_task"

text \<open>
  A request of the client between its steps; the last four are final, and so is the task of a
  question that was opened.
\<close>

datatype 'v question_request =
  AskRequested question_owner 'v
| AnswerRequested 'v
| AnswerFound 'v string answer_outcome
| AnswerStored 'v string answer_outcome "'v snapshot"
| AskOpened string
| AskRefused string
| AnswerAccepted 'v string answer_outcome "'v snapshot"
| AnswerRefused string

text \<open>
  \<open>qs_questions\<close> holds every question that was opened, \<open>qs_entries\<close> the keys of the service's
  map, \<open>qs_poisoned\<close> whether a task panicked under its lock, \<open>qs_used\<close> the permits in use of 32,
  \<open>qs_ended\<close> the cancelled tool calls.
\<close>

record ('v, 's) question_service =
  qs_store :: 's
  qs_questions :: "string \<rightharpoonup> 'v host_question"
  qs_entries :: "string list"
  qs_requests :: "nat \<rightharpoonup> 'v question_request"
  qs_used :: nat
  qs_ended :: "string \<Rightarrow> bool"
  qs_poisoned :: bool
  qs_stopped :: bool
  qs_output :: "'v list"

definition service_new :: "'s \<Rightarrow> ('v, 's) question_service" where
  "service_new s =
     \<lparr>qs_store = s, qs_questions = Map.empty, qs_entries = [], qs_requests = Map.empty, qs_used = 0,
      qs_ended = (\<lambda>_. False), qs_poisoned = False, qs_stopped = False, qs_output = []\<rparr>"

text \<open>Serde's decoders and the texts of errors are parameters.\<close>

record 'v question_codec =
  qc_json :: "'v json"
  qc_number :: "'v \<Rightarrow> real option option"
  qc_question :: "'v \<Rightarrow> (question, string) result"
  qc_question_json :: "question \<Rightarrow> 'v"
  qc_outcome :: "'v \<Rightarrow> (answer_outcome, string) result"
  qc_store_text :: "store_error \<Rightarrow> string"
  qc_error_text :: "question_error \<Rightarrow> string"

definition call_of :: "('v, 's) question_service \<Rightarrow> string \<Rightarrow> string" where
  "call_of v i = (case qs_questions v i of Some q \<Rightarrow> qw_call (hq_owner q) | None \<Rightarrow> [])"

definition set_question :: "string \<Rightarrow> 'v host_question \<Rightarrow> ('v, 's) question_service \<Rightarrow> ('v, 's) question_service" where
  "set_question i q v = v\<lparr>qs_questions := (qs_questions v)(i \<mapsto> q)\<rparr>"

definition set_request :: "nat \<Rightarrow> 'v question_request \<Rightarrow> ('v, 's) question_service \<Rightarrow> ('v, 's) question_service" where
  "set_request n r v = v\<lparr>qs_requests := (qs_requests v)(n \<mapsto> r)\<rparr>"

definition permit_back :: "('v, 's) question_service \<Rightarrow> ('v, 's) question_service" where
  "permit_back v = v\<lparr>qs_used := qs_used v - 1\<rparr>"

text \<open>\<open>Output::emit\<close>, which adds the version; a full channel stops the host.\<close>

definition service_emit ::
  "'v question_codec \<Rightarrow> bool \<Rightarrow> (string \<times> 'v) list \<Rightarrow> ('v, 's) question_service \<Rightarrow> ('v, 's) question_service" where
  "service_emit Q room fs v =
     (if room
      then v\<lparr>qs_output := qs_output v @ [j_object (qc_json Q) (fs @ [(''version'', j_number (qc_json Q) 1)])]\<rparr>
      else v\<lparr>qs_stopped := True\<rparr>)"

subsection \<open>Frames\<close>

definition owner_fields :: "'v json \<Rightarrow> question_owner \<Rightarrow> (string \<times> 'v) list" where
  "owner_fields J w =
     [(''call_id'', j_string J (qw_call w)), (''binding_id'', j_string J (qw_binding w)),
      (''session_id'', j_string J (as_str (scope_session (qw_scope w)))),
      (''slot_id'', j_string J (as_str (scope_slot (qw_scope w))))]"

text \<open>\<open>Entry::frame\<close>; the request of an entry is a question.\<close>

definition question_frame :: "'v question_codec \<Rightarrow> 'v host_question \<Rightarrow> (string \<times> 'v) list" where
  "question_frame Q q =
     (let J = qc_json Q; request = sh_request (hq_shared q) in
      [(''question_id'', j_string J (as_str (r_id (sn_record request)))),
       (''revision'', j_string J (decimal (unat (sn_revision request))))] @
      owner_fields J (hq_owner q) @
      [(''definition'', case r_payload (sn_record request) of PQuestion d \<Rightarrow> qc_question_json Q d | _ \<Rightarrow> j_null J)])"

definition entry_matches :: "'v json \<Rightarrow> 'v \<Rightarrow> ('v, 's) question_service \<Rightarrow> 'v host_question \<Rightarrow> bool" where
  "entry_matches J params v q \<longleftrightarrow>
     (let w = hq_owner q in
      j_as_str J (j_index J params ''call_id'') = Some (qw_call w) \<and>
      j_as_str J (j_index J params ''binding_id'') = Some (qw_binding w) \<and>
      j_as_str J (j_index J params ''session_id'') = Some (as_str (scope_session (qw_scope w))) \<and>
      j_as_str J (j_index J params ''slot_id'') = Some (as_str (scope_slot (qw_scope w))) \<and>
      j_as_str J (j_index J params ''revision'') = Some (decimal (unat (sn_revision (sh_request (hq_shared q))))) \<and>
      \<not> qs_ended v (qw_call w))"

subsection \<open>Asking\<close>

definition field_exceeds :: "question_field \<Rightarrow> bool" where
  "field_exceeds f =
     (case qf_kind f of
        TextField n \<Rightarrow> 16384 < n
      | IntegerField mn mx \<Rightarrow> mn < -9007199254740991 \<or> 9007199254740991 < mx
      | _ \<Rightarrow> False)"

definition asked_question :: "'v question_codec \<Rightarrow> 'v \<Rightarrow> (question, string) result" where
  "asked_question Q params =
     (let J = qc_json Q; d = j_index J params ''definition'' in
      if 16384 < length (j_text J d) \<or> \<not> valid_json J (qc_number Q) 17 d then Err ''question exceeds JSON limits''
      else
        rbind (qc_question Q d) (\<lambda>q.
        rbind (map_err (qc_store_text Q) (question_validate q)) (\<lambda>_.
          if list_ex field_exceeds (q_fields q) then Err ''question field exceeds transport bounds'' else Ok q)))"

definition question_draft :: "question_owner \<Rightarrow> string \<Rightarrow> question \<Rightarrow> 'v draft" where
  "question_draft w fresh q =
     \<lparr>d_id = Ident fresh, d_session = scope_session (qw_scope w), d_run = None, d_actor = Ident ''host'', d_reply = None,
      d_source = Some \<lparr>src_namespace = ''agent_bridge.tool_invocation'', src_id = qw_call w\<rparr>,
      d_payload = PQuestion q, d_state = Open\<rparr>"

definition entry_open :: "('v, 's) question_service \<Rightarrow> string \<Rightarrow> bool" where
  "entry_open v i \<longleftrightarrow> (case qs_questions v i of Some q \<Rightarrow> \<not> hq_resolved q | None \<Rightarrow> False)"

text \<open>\<open>Service::open\<close>, under the lock of the entries; \<open>fresh\<close> is a new identity.\<close>

definition service_open ::
  "('v, 's) record_store_ops \<Rightarrow> 'v question_codec \<Rightarrow> question_owner \<Rightarrow> 'v \<Rightarrow> string \<Rightarrow> ('v, 's) question_service \<Rightarrow>
   (unit, string) result \<times> ('v, 's) question_service" where
  "service_open S Q w params fresh v =
     (case asked_question Q params of
        Err e \<Rightarrow> (Err e, v)
      | Panic \<Rightarrow> (Panic, v)
      | Ok question \<Rightarrow>
          if qs_poisoned v then (Panic, v) else
          (let live = filter (\<lambda>i. \<not> qs_ended v (call_of v i)) (qs_entries v);
               same = filter (\<lambda>i. call_of v i = qw_call w) live;
               v' = v\<lparr>qs_entries := live\<rparr>
           in
             if qs_ended v (qw_call w) \<or> qs_stopped v then (Err ''invocation ended'', v')
             else if 128 \<le> length live \<or> 8 \<le> length same \<or>
                     list_ex (entry_open v) same
             then (Err ''question limit reached or invocation already has a pending question'', v')
             else
               (case question_open S (question_draft w fresh question) (Ident ''host'') (qs_store v) of
                  (Ok (sh, g), s) \<Rightarrow>
                    (Ok (), (set_question fresh
                        \<lparr>hq_owner = w, hq_shared = sh, hq_gate = g, hq_resolved = False, hq_task = Asking\<rparr> v')
                      \<lparr>qs_store := s, qs_entries := live @ [fresh]\<rparr>)
                | (Err e, s) \<Rightarrow> (Err (qc_error_text Q e), v'\<lparr>qs_store := s\<rparr>)
                | (Panic, s) \<Rightarrow> (Panic, v'\<lparr>qs_store := s, qs_poisoned := True\<rparr>))))"

definition ask_opens ::
  "('v, 's) record_store_ops \<Rightarrow> 'v question_codec \<Rightarrow> nat \<Rightarrow> string \<Rightarrow> bool \<Rightarrow> question_owner \<Rightarrow> 'v \<Rightarrow>
   ('v, 's) question_service \<Rightarrow> ('v, 's) question_service" where
  "ask_opens S Q n fresh room w params v =
     (case service_open S Q w params fresh v of
        (Ok _, v') \<Rightarrow>
          service_emit Q room
            (question_frame Q (the (qs_questions v' fresh)) @ [(''event'', j_string (qc_json Q) ''question_opened'')])
            (set_request n (AskOpened fresh) v')
      | (Err e, v') \<Rightarrow> permit_back (set_request n (AskRefused e) v')
      | (Panic, v') \<Rightarrow> permit_back (set_request n (AskRefused ''panic'') v'))"

text \<open>
  The biased \<open>select!\<close> of the asking task: the answer, then the host's stop. Leaving it drops the
  pending question, and so does a panic, which ends the task. \<open>None\<close> if nothing is ready.
\<close>

definition ask_polls ::
  "('v, 's) record_store_ops \<Rightarrow> string \<Rightarrow> 'v host_question \<Rightarrow> ('v, 's) question_service \<Rightarrow> ('v, 's) question_service option" where
  "ask_polls S i q v =
     (case question_poll S (hq_shared q) (qs_ended v (qw_call (hq_owner q))) (qs_store v, hq_gate q) of
        (Some r, sg) \<Rightarrow>
          (case question_drop S (hq_shared q) sg of
              (s, g) \<Rightarrow>
                (case r of
                   Panic \<Rightarrow> Some (permit_back ((set_question i (q\<lparr>hq_gate := g, hq_task := Left (Some r)\<rparr>) v)\<lparr>qs_store := s\<rparr>))
                 | _ \<Rightarrow> Some ((set_question i (q\<lparr>hq_gate := g, hq_task := Told r\<rparr>) v)\<lparr>qs_store := s\<rparr>)))
      | (None, sg) \<Rightarrow>
          if qs_stopped v
          then (case question_drop S (hq_shared q) sg of
                  (s, g) \<Rightarrow> Some (permit_back ((set_question i (q\<lparr>hq_gate := g, hq_task := Left None\<rparr>) v)\<lparr>qs_store := s\<rparr>)))
          else None)"

definition ask_reports ::
  "'v question_codec \<Rightarrow> string \<Rightarrow> bool \<Rightarrow> ('v snapshot, question_error) result \<Rightarrow> 'v host_question \<Rightarrow>
   ('v, 's) question_service \<Rightarrow> ('v, 's) question_service" where
  "ask_reports Q i room r q v =
     permit_back (service_emit Q room
       ([(''event'', j_string (qc_json Q) ''question_closed''), (''question_id'', j_string (qc_json Q) i)] @
         owner_fields (qc_json Q) (hq_owner q))
       (set_question i (q\<lparr>hq_resolved := True, hq_task := Lingering r\<rparr>) v))"

definition ask_ends ::
  "string \<Rightarrow> ('v snapshot, question_error) result \<Rightarrow> 'v host_question \<Rightarrow> ('v, 's) question_service \<Rightarrow>
   ('v, 's) question_service option" where
  "ask_ends i r q v =
     (if qs_ended v (qw_call (hq_owner q)) \<or> qs_stopped v
      then Some ((set_question i (q\<lparr>hq_task := Left (Some r)\<rparr>) v)
        \<lparr>qs_entries := if qs_poisoned v then qs_entries v else removeAll i (qs_entries v)\<rparr>)
      else None)"

subsection \<open>Answering and listing\<close>

definition service_find ::
  "'v question_codec \<Rightarrow> 'v \<Rightarrow> ('v, 's) question_service \<Rightarrow> (string \<times> answer_outcome, string) result" where
  "service_find Q params v =
     (let J = qc_json Q in
      rbind (string_param J params ''question_id'') (\<lambda>i.
        if qs_poisoned v then Panic else
        (case (if i \<in> set (qs_entries v) then qs_questions v i else None) of
           None \<Rightarrow> Err ''question is no longer live''
         | Some q \<Rightarrow>
             if \<not> entry_matches J params v q then Err ''stale or foreign question response''
             else
               (let value = j_index J params ''outcome'' in
                if 60000 < length (j_text J value) \<or> \<not> valid_json J (qc_number Q) 17 value
                then Err ''answer exceeds JSON limits''
                else rbind (qc_outcome Q value) (\<lambda>outcome. Ok (i, outcome))))))"

definition answer_finds ::
  "'v question_codec \<Rightarrow> nat \<Rightarrow> 'v \<Rightarrow> ('v, 's) question_service \<Rightarrow> ('v, 's) question_service" where
  "answer_finds Q n params v =
     (case service_find Q params v of
        Ok (i, outcome) \<Rightarrow> set_request n (AnswerFound params i outcome) v
      | Err e \<Rightarrow> permit_back (set_request n (AnswerRefused e) v)
      | Panic \<Rightarrow> permit_back (set_request n (AnswerRefused ''panic'') v))"

definition answer_stores ::
  "('v, 's) record_store_ops \<Rightarrow> 'v question_codec \<Rightarrow> nat \<Rightarrow> 'v \<Rightarrow> string \<Rightarrow> answer_outcome \<Rightarrow> 'v host_question \<Rightarrow>
   ('v, 's) question_service \<Rightarrow> ('v, 's) question_service" where
  "answer_stores S Q n params i outcome q v =
     (case responder_answer S (hq_shared q) (Ident ''user'') outcome (qs_store v, hq_gate q) of
        (r, s, g) \<Rightarrow>
          (let v' = (set_question i (q\<lparr>hq_gate := g\<rparr>) v)\<lparr>qs_store := s\<rparr> in
           (case r of
              Ok x \<Rightarrow> set_request n (AnswerStored params i outcome x) v'
            | Err e \<Rightarrow> permit_back (set_request n (AnswerRefused (qc_error_text Q e)) v')
            | Panic \<Rightarrow> permit_back (set_request n (AnswerRefused ''panic'') v'))))"

definition answer_marks ::
  "nat \<Rightarrow> 'v \<Rightarrow> string \<Rightarrow> answer_outcome \<Rightarrow> 'v snapshot \<Rightarrow> 'v host_question \<Rightarrow> ('v, 's) question_service \<Rightarrow>
   ('v, 's) question_service" where
  "answer_marks n params i outcome x q v =
     permit_back (set_request n (AnswerAccepted params i outcome x) (set_question i (q\<lparr>hq_resolved := True\<rparr>) v))"

definition question_listed :: "'v json \<Rightarrow> 'v \<Rightarrow> ('v, 's) question_service \<Rightarrow> string \<Rightarrow> bool" where
  "question_listed J params v i \<longleftrightarrow>
     (case qs_questions v i of
        None \<Rightarrow> False
      | Some q \<Rightarrow>
          \<not> hq_resolved q \<and> \<not> qs_ended v (qw_call (hq_owner q)) \<and>
          (case j_get J params ''session_id'' of
             None \<Rightarrow> True
           | Some x \<Rightarrow> j_as_str J x = Some (as_str (scope_session (qw_scope (hq_owner q))))))"

definition service_pending :: "'v question_codec \<Rightarrow> 'v \<Rightarrow> ('v, 's) question_service \<Rightarrow> ('v, string) result" where
  "service_pending Q params v =
     (let J = qc_json Q in
      if qs_poisoned v then Panic
      else Ok (j_array J (map (\<lambda>i. j_object J (question_frame Q (the (qs_questions v i))))
        (sort (filter (question_listed J params v) (qs_entries v))))))"

subsection \<open>Steps\<close>

datatype 'v service_step =
  Dispatches nat "question_owner option" 'v
| Opens nat string bool | Polls string | Reports string bool | Ends string
| Finds nat | Stores nat | Marks nat
| CallEnds string | HostStops | Others "'v store_op"

definition on_request ::
  "nat \<Rightarrow> ('v, 's) question_service \<Rightarrow> ('v question_request \<Rightarrow> ('v, 's) question_service option) \<Rightarrow>
   ('v, 's) question_service option" where
  "on_request n v f = Option.bind (qs_requests v n) f"

definition on_question ::
  "string \<Rightarrow> ('v, 's) question_service \<Rightarrow> ('v host_question \<Rightarrow> ('v, 's) question_service option) \<Rightarrow>
   ('v, 's) question_service option" where
  "on_question i v f = Option.bind (qs_questions v i) f"

text \<open>\<open>Service::dispatch\<close> takes the permit; without one the request is refused.\<close>

definition service_dispatch ::
  "nat \<Rightarrow> question_owner option \<Rightarrow> 'v \<Rightarrow> ('v, 's) question_service \<Rightarrow> ('v, 's) question_service" where
  "service_dispatch n owner params v =
     (if 32 \<le> qs_used v
      then set_request n
        (case owner of Some w \<Rightarrow> AskRefused ''too many question operations'' | None \<Rightarrow> AnswerRefused ''too many question operations'') v
      else (set_request n (case owner of Some w \<Rightarrow> AskRequested w params | None \<Rightarrow> AnswerRequested params) v)
        \<lparr>qs_used := qs_used v + 1\<rparr>)"

fun service_next ::
  "('v, 's) record_store_ops \<Rightarrow> 'v question_codec \<Rightarrow> 'v service_step \<Rightarrow> ('v, 's) question_service \<Rightarrow>
   ('v, 's) question_service option" where
  "service_next S Q (Dispatches n owner params) v =
     (if qs_requests v n = None then Some (service_dispatch n owner params v) else None)"
| "service_next S Q (Opens n fresh room) v =
     on_request n v (\<lambda>r. case r of
       AskRequested w params \<Rightarrow>
         if qs_questions v fresh = None then Some (ask_opens S Q n fresh room w params v) else None
     | _ \<Rightarrow> None)"
| "service_next S Q (Polls i) v = on_question i v (\<lambda>q. if hq_task q = Asking then ask_polls S i q v else None)"
| "service_next S Q (Reports i room) v =
     on_question i v (\<lambda>q. case hq_task q of Told r \<Rightarrow> Some (ask_reports Q i room r q v) | _ \<Rightarrow> None)"
| "service_next S Q (Ends i) v =
     on_question i v (\<lambda>q. case hq_task q of Lingering r \<Rightarrow> ask_ends i r q v | _ \<Rightarrow> None)"
| "service_next S Q (Finds n) v =
     on_request n v (\<lambda>r. case r of AnswerRequested params \<Rightarrow> Some (answer_finds Q n params v) | _ \<Rightarrow> None)"
| "service_next S Q (Stores n) v =
     on_request n v (\<lambda>r. case r of
       AnswerFound params i outcome \<Rightarrow> on_question i v (\<lambda>q. Some (answer_stores S Q n params i outcome q v)) | _ \<Rightarrow> None)"
| "service_next S Q (Marks n) v =
     on_request n v (\<lambda>r. case r of
       AnswerStored params i outcome x \<Rightarrow> on_question i v (\<lambda>q. Some (answer_marks n params i outcome x q v)) | _ \<Rightarrow> None)"
| "service_next S Q (CallEnds c) v = Some (v\<lparr>qs_ended := (qs_ended v)(c := True)\<rparr>)"
| "service_next S Q HostStops v = Some (v\<lparr>qs_stopped := True\<rparr>)"
| "service_next S Q (Others oper) v = Some (v\<lparr>qs_store := store_exec S oper (qs_store v)\<rparr>)"

inductive service_steps ::
  "('v, 's) record_store_ops \<Rightarrow> 'v question_codec \<Rightarrow> ('v, 's) question_service \<Rightarrow> ('v, 's) question_service \<Rightarrow> bool"
  for S Q where
  refl: "service_steps S Q v v"
| step: "service_steps S Q v v1 \<Longrightarrow> service_next S Q ev v1 = Some v2 \<Longrightarrow> service_steps S Q v v2"

fun service_run ::
  "('v, 's) record_store_ops \<Rightarrow> 'v question_codec \<Rightarrow> 'v service_step list \<Rightarrow> ('v, 's) question_service \<Rightarrow>
   ('v, 's) question_service option" where
  "service_run S Q [] v = Some v"
| "service_run S Q (ev # evs) v = Option.bind (service_next S Q ev v) (service_run S Q evs)"

lemma service_run_steps: "service_run S Q evs v1 = Some v2 \<Longrightarrow> service_steps S Q v v1 \<Longrightarrow> service_steps S Q v v2"
  by (induction evs arbitrary: v1) (auto simp: bind_eq_Some_conv intro: service_steps.step)

end
