(* ===== verification/Host_Questions_Props.thy ===== *)
theory Host_Questions_Props imports Host_Questions Host_Hub_Props begin

section \<open>Properties of the question service\<close>

text \<open>
  An invariant of every interleaving of asking, answering, ending calls and other writers of the
  store: the gates know what the store holds, an accepted answer is the stored one and the one the
  asker gets, and a call has one open question at most. It is proved for every record store.
\<close>

subsection \<open>One gate and the store\<close>

lemma store_steps_trans: "store_steps S t u \<Longrightarrow> store_steps S s t \<Longrightarrow> store_steps S s u"
  by (induction rule: store_steps.induct) (auto intro: store_steps.step)

lemma store_steps_exec: "store_steps S s (store_exec S oper s)"
  by (rule store_steps.step [OF store_steps.refl])

context record_store
begin

lemma resolve_moves: "store_steps S s (fst (snd (responder_resolve S sh actor outcome acc (s, g))))"
proof (cases "gate_poisoned g \<or> gate_resolved g \<noteq> None")
  case True
  then show ?thesis by (auto simp: responder_resolve_def intro: store_steps.refl)
next
  case False
  let ?q = "r_id (sn_record (sh_request sh))" and ?e = "sn_revision (sh_request sh)"
  let ?d = "answer_draft sh (Ident (answer_text (as_str ?q))) actor outcome"
  have "fst (snd (responder_resolve S sh actor outcome acc (s, g))) = store_exec S (Resolve ?q ?e ?d) s"
    using False
    by (auto simp: responder_resolve_unresolved store_exec_def split: prod.splits result.splits)
  then show ?thesis using store_steps_exec by simp
qed

lemma open_moves: "store_steps S s (snd (question_open S d host s))"
  using store_steps_exec [of S s "Insert d"]
  by (auto simp: question_open_def store_exec_def intro: store_steps.refl split: result.splits prod.splits)

lemma poll_moves: "store_steps S s (fst (snd (question_poll S sh cancelled (s, g))))"
  using resolve_moves [of s sh "sh_host sh" AnswerCancelled True g]
  by (auto simp: question_poll_def responder_cancel_def intro: store_steps.refl split: option.splits prod.splits)

lemma drop_moves: "store_steps S s (fst (question_drop S sh (s, g)))"
  using resolve_moves [of s sh "sh_host sh" AnswerCancelled True g] by (simp add: question_drop_def responder_cancel_def)

lemma gate_moves: "store_steps S s t \<Longrightarrow> gate_inv S inv sh (s, g) \<Longrightarrow> gate_inv S inv sh (t, g)"
proof (induction rule: store_steps.induct)
  case (step s t oper)
  then show ?case using gate_step [OF question_step.other, of sh t g oper] by blast
qed

lemma polled_answer:
  assumes "gate_inv S inv sh (s, g)" and "question_poll S sh cancelled (s, g) = (Some (Ok x), s', g')"
  shows "gate_resolved g' = Some x"
proof (cases "gate_channel g")
  case (Some y)
  then show ?thesis using assms by (auto simp: question_poll_def gate_inv_def)
next
  case None
  then have "responder_resolve S sh (sh_host sh) AnswerCancelled True (s, g) = (Ok x, s', g')"
    using assms(2) by (auto simp: question_poll_def responder_cancel_def split: if_splits prod.splits)
  then show ?thesis using gate_resolve(4) [OF assms(1), of "sh_host sh" AnswerCancelled True x] by simp
qed

text \<open>An accepted answer is the user's, with exactly the outcome.\<close>

lemma answered_exactly:
  assumes "gate_inv S inv sh (s, g)" and "responder_answer S sh actor outcome (s, g) = (Ok x, s', g')"
  shows "gate_resolved g' = Some x \<and> r_actor (sn_record x) = actor \<and> r_payload (sn_record x) = PAnswer outcome Stored"
proof -
  have "gate_resolved g' = Some x"
    using gate_resolve(4) [OF assms(1), of actor outcome False x] assms(2) by (simp add: responder_answer_def)
  moreover have "r_actor (sn_record x) = actor \<and> r_payload (sn_record x) = PAnswer outcome Stored"
  proof (cases "gate_resolved g")
    case (Some y)
    then show ?thesis using assms responder_answer_eq(1) [OF assms(1) Some, of actor outcome] by (auto split: if_splits)
  next
    case None
    let ?q = "r_id (sn_record (sh_request sh))"
    let ?d = "answer_draft sh (Ident (answer_text (as_str ?q))) actor outcome"
    have g: "\<not> gate_poisoned g" "inv s" using assms(1) by (simp_all add: gate_inv_def)
    have "op_resolve S ?q (sn_revision (sh_request sh)) ?d s = (Ok x, s')"
      using assms(2) None g(1)
      by (auto simp: responder_answer_def responder_resolve_unresolved split: prod.splits result.splits)
    then have "same_draft x ?d" using resolve_Ok [OF g(2)] by blast
    then show ?thesis by (simp add: same_draft_def answer_draft_def Let_def)
  qed
  ultimately show ?thesis by blast
qed

end

subsection \<open>The invariant\<close>

fun told :: "'v ask_task \<Rightarrow> ('v snapshot, question_error) result option" where
  "told Asking = None"
| "told (Told r) = Some r"
| "told (Lingering r) = Some r"
| "told (Left r) = r"

definition question_ok ::
  "('v, 's) record_store_ops \<Rightarrow> ('s \<Rightarrow> bool) \<Rightarrow> 's \<Rightarrow> string \<Rightarrow> 'v host_question \<Rightarrow> bool" where
  "question_ok S ok s i q \<longleftrightarrow>
     gate_inv S ok (hq_shared q) (s, hq_gate q) \<and> r_id (sn_record (sh_request (hq_shared q))) = Ident i \<and>
     (\<forall>x. told (hq_task q) = Some (Ok x) \<longrightarrow> gate_resolved (hq_gate q) = Some x) \<and>
     (hq_resolved q \<longrightarrow> hq_task q = Asking \<longrightarrow> gate_resolved (hq_gate q) \<noteq> None)"

text \<open>The parameters name the question, its revision and the call it belongs to.\<close>

definition names_question :: "'v question_codec \<Rightarrow> 'v \<Rightarrow> string \<Rightarrow> 'v host_question \<Rightarrow> bool" where
  "names_question Q params i q \<longleftrightarrow>
     (let J = qc_json Q; w = hq_owner q in
      string_param J params ''question_id'' = Ok i \<and>
      j_as_str J (j_index J params ''call_id'') = Some (qw_call w) \<and>
      j_as_str J (j_index J params ''binding_id'') = Some (qw_binding w) \<and>
      j_as_str J (j_index J params ''session_id'') = Some (as_str (scope_session (qw_scope w))) \<and>
      j_as_str J (j_index J params ''slot_id'') = Some (as_str (scope_slot (qw_scope w))) \<and>
      j_as_str J (j_index J params ''revision'') = Some (decimal (unat (sn_revision (sh_request (hq_shared q))))))"

definition answer_named ::
  "'v question_codec \<Rightarrow> ('v, 's) question_service \<Rightarrow> 'v \<Rightarrow> string \<Rightarrow> answer_outcome \<Rightarrow> bool" where
  "answer_named Q v params i outcome \<longleftrightarrow>
     qc_outcome Q (j_index (qc_json Q) params ''outcome'') = Ok outcome \<and>
     (\<exists>q. qs_questions v i = Some q \<and> names_question Q params i q)"

definition answer_settled ::
  "'v question_codec \<Rightarrow> ('v, 's) question_service \<Rightarrow> 'v \<Rightarrow> string \<Rightarrow> answer_outcome \<Rightarrow> 'v snapshot \<Rightarrow> bool" where
  "answer_settled Q v params i outcome x \<longleftrightarrow>
     answer_named Q v params i outcome \<and> r_actor (sn_record x) = Ident ''user'' \<and>
     r_payload (sn_record x) = PAnswer outcome Stored \<and>
     (\<exists>q. qs_questions v i = Some q \<and> gate_resolved (hq_gate q) = Some x)"

fun request_ok :: "'v question_codec \<Rightarrow> ('v, 's) question_service \<Rightarrow> 'v question_request \<Rightarrow> bool" where
  "request_ok Q v (AnswerFound params i outcome) = answer_named Q v params i outcome"
| "request_ok Q v (AnswerStored params i outcome x) = answer_settled Q v params i outcome x"
| "request_ok Q v (AnswerAccepted params i outcome x) = answer_settled Q v params i outcome x"
| "request_ok Q v r = True"

definition entries_ok :: "('v, 's) question_service \<Rightarrow> bool" where
  "entries_ok v \<longleftrightarrow>
     distinct (qs_entries v) \<and> set (qs_entries v) \<subseteq> dom (qs_questions v) \<and> length (qs_entries v) \<le> 128 \<and>
     (\<forall>c. length (filter (\<lambda>i. call_of v i = c) (qs_entries v)) \<le> 8) \<and>
     (\<forall>i \<in> set (qs_entries v). \<forall>j \<in> set (qs_entries v).
        call_of v i = call_of v j \<longrightarrow> entry_open v i \<longrightarrow> entry_open v j \<longrightarrow> i = j)"

lemma filter_single:
  assumes "distinct xs" and "\<And>i j. i \<in> set xs \<Longrightarrow> j \<in> set xs \<Longrightarrow> P i \<Longrightarrow> P j \<Longrightarrow> i = j"
  shows "length (filter P xs) \<le> 1"
proof -
  have "card (set (filter P xs)) \<le> Suc 0" unfolding card_le_Suc0_iff_eq [OF finite_set] using assms(2) by auto
  then show ?thesis using distinct_card [of "filter P xs"] assms(1) by simp
qed

definition service_inv ::
  "('v, 's) record_store_ops \<Rightarrow> ('s \<Rightarrow> bool) \<Rightarrow> 'v question_codec \<Rightarrow> ('v, 's) question_service \<Rightarrow> bool" where
  "service_inv S ok Q v \<longleftrightarrow>
     ok (qs_store v) \<and> (\<forall>i q. qs_questions v i = Some q \<longrightarrow> question_ok S ok (qs_store v) i q) \<and>
     (\<forall>n r. qs_requests v n = Some r \<longrightarrow> request_ok Q v r) \<and> entries_ok v"

text \<open>What only grows: a question keeps its owner, its request and its answer.\<close>

definition question_grows :: "'v host_question \<Rightarrow> 'v host_question \<Rightarrow> bool" where
  "question_grows q q' \<longleftrightarrow>
     hq_owner q' = hq_owner q \<and> hq_shared q' = hq_shared q \<and> (hq_resolved q \<longrightarrow> hq_resolved q') \<and>
     (\<forall>x. gate_resolved (hq_gate q) = Some x \<longrightarrow> gate_resolved (hq_gate q') = Some x)"

definition service_grows :: "('v, 's) question_service \<Rightarrow> ('v, 's) question_service \<Rightarrow> bool" where
  "service_grows v v' \<longleftrightarrow>
     (\<forall>i q. qs_questions v i = Some q \<longrightarrow> (\<exists>q'. qs_questions v' i = Some q' \<and> question_grows q q'))"

lemma growsD:
  "service_grows v v' \<Longrightarrow> qs_questions v i = Some q \<Longrightarrow> \<exists>q'. qs_questions v' i = Some q' \<and> question_grows q q'"
  unfolding service_grows_def by blast

lemma grows_same: "qs_questions v' = qs_questions v \<Longrightarrow> service_grows v v'"
  by (auto simp: service_grows_def question_grows_def)

lemma grows_at:
  assumes "qs_questions v' = (qs_questions v)(i \<mapsto> q')" and "\<And>q. qs_questions v i = Some q \<Longrightarrow> question_grows q q'"
  shows "service_grows v v'"
  using assms by (auto simp: service_grows_def) (auto simp: question_grows_def)

lemma names_grows: "question_grows q q' \<Longrightarrow> names_question Q params i q' = names_question Q params i q"
  by (simp add: names_question_def question_grows_def)

lemma named_grows: "service_grows v v' \<Longrightarrow> answer_named Q v params i outcome \<Longrightarrow> answer_named Q v' params i outcome"
  unfolding answer_named_def service_grows_def using names_grows by metis

lemma settled_grows:
  "service_grows v v' \<Longrightarrow> answer_settled Q v params i outcome x \<Longrightarrow> answer_settled Q v' params i outcome x"
proof -
  assume g: "service_grows v v'" and a: "answer_settled Q v params i outcome x"
  then obtain q where "qs_questions v i = Some q" "gate_resolved (hq_gate q) = Some x"
    by (auto simp: answer_settled_def)
  with growsD [OF g] obtain q' where "qs_questions v' i = Some q'" "gate_resolved (hq_gate q') = Some x"
    unfolding question_grows_def by blast
  then show ?thesis using a named_grows [OF g] by (auto simp: answer_settled_def)
qed

lemma request_grows: "service_grows v v' \<Longrightarrow> request_ok Q v r \<Longrightarrow> request_ok Q v' r"
  by (cases r) (auto intro: named_grows settled_grows)

lemma call_grows: "service_grows v v' \<Longrightarrow> i \<in> dom (qs_questions v) \<Longrightarrow> call_of v' i = call_of v i"
  by (fastforce simp: call_of_def service_grows_def question_grows_def)

lemma open_grows: "service_grows v v' \<Longrightarrow> i \<in> dom (qs_questions v) \<Longrightarrow> entry_open v' i \<Longrightarrow> entry_open v i"
  by (fastforce simp: entry_open_def service_grows_def question_grows_def)

text \<open>Entries stay within their limits when some are removed and questions only grow.\<close>

lemma entries_shrink:
  assumes "entries_ok v" and "service_grows v v'" and "qs_entries v' = filter P (qs_entries v)"
  shows "entries_ok v'"
proof -
  have dom: "i \<in> dom (qs_questions v) \<and> i \<in> dom (qs_questions v')" if "i \<in> set (qs_entries v)" for i
    using assms(1,2) that by (fastforce simp: entries_ok_def service_grows_def)
  have "length (filter (\<lambda>i. call_of v' i = c) (qs_entries v')) \<le> 8" for c
  proof -
    have "filter (\<lambda>i. call_of v' i = c) (qs_entries v') = filter P (filter (\<lambda>i. call_of v i = c) (qs_entries v))"
      unfolding assms(3) filter_filter by (rule filter_cong) (use dom call_grows [OF assms(2)] in auto)
    then have "length (filter (\<lambda>i. call_of v' i = c) (qs_entries v')) \<le> length (filter (\<lambda>i. call_of v i = c) (qs_entries v))"
      using length_filter_le by metis
    then show ?thesis using assms(1) unfolding entries_ok_def using le_trans by blast
  qed
  moreover have "i = j" if "i \<in> set (qs_entries v')" "j \<in> set (qs_entries v')" "call_of v' i = call_of v' j"
      "entry_open v' i" "entry_open v' j" for i j
  proof -
    have i: "i \<in> set (qs_entries v)" "j \<in> set (qs_entries v)" using that(1,2) assms(3) by auto
    then have "call_of v i = call_of v j" "entry_open v i" "entry_open v j"
      using that(3-5) dom call_grows [OF assms(2)] open_grows [OF assms(2)] by metis+
    then show ?thesis using i assms(1) unfolding entries_ok_def by blast
  qed
  moreover have "length (qs_entries v') \<le> 128"
    using assms(1) length_filter_le [of P "qs_entries v"] unfolding entries_ok_def assms(3) by linarith
  moreover have "distinct (qs_entries v')" "set (qs_entries v') \<subseteq> dom (qs_questions v')"
    using assms(1,3) dom by (auto simp: entries_ok_def)
  ultimately show ?thesis unfolding entries_ok_def by blast
qed

lemma entries_same: "entries_ok v \<Longrightarrow> service_grows v v' \<Longrightarrow> qs_entries v' = qs_entries v \<Longrightarrow> entries_ok v'"
  using entries_shrink [of v v' "\<lambda>_. True"] by simp

lemma entries_add:
  assumes "entries_ok v" and "qs_questions v i = None" and "length (qs_entries v) < 128"
    and "length (filter (\<lambda>j. call_of v j = c) (qs_entries v)) < 8"
    and "\<forall>j \<in> set (qs_entries v). call_of v j = c \<longrightarrow> \<not> entry_open v j"
    and "qs_questions v' = (qs_questions v)(i \<mapsto> q)" and "qw_call (hq_owner q) = c" and "qs_entries v' = qs_entries v @ [i]"
  shows "entries_ok v'"
proof -
  have old: "call_of v' j = call_of v j \<and> entry_open v' j = entry_open v j \<and> j \<noteq> i" if "j \<in> set (qs_entries v)" for j
  proof -
    have "j \<noteq> i" using assms(1,2) that by (auto simp: entries_ok_def)
    then show ?thesis by (simp add: call_of_def entry_open_def assms(6))
  qed
  have new: "call_of v' i = c" by (simp add: call_of_def assms(6,7))
  have calls: "filter (\<lambda>j. call_of v' j = d) (qs_entries v) = filter (\<lambda>j. call_of v j = d) (qs_entries v)" for d
    by (rule filter_cong) (simp_all add: old)
  have "length (filter (\<lambda>j. call_of v' j = d) (qs_entries v')) \<le> 8" for d
    using assms(1,4) new by (cases "d = c") (auto simp: assms(8) calls entries_ok_def)
  moreover have "\<forall>j \<in> set (qs_entries v'). \<forall>k \<in> set (qs_entries v').
      call_of v' j = call_of v' k \<longrightarrow> entry_open v' j \<longrightarrow> entry_open v' k \<longrightarrow> j = k"
  proof (intro ballI impI)
    fix j k
    assume jk: "j \<in> set (qs_entries v')" "k \<in> set (qs_entries v')" "call_of v' j = call_of v' k" "entry_open v' j" "entry_open v' k"
    have no: False if "l \<in> set (qs_entries v)" "call_of v' l = c" "entry_open v' l" for l
      using assms(5) old [OF that(1)] that by simp
    consider "j \<in> set (qs_entries v)" "k \<in> set (qs_entries v)" | "j = i" "k = i"
      | "j = i" "k \<in> set (qs_entries v)" | "k = i" "j \<in> set (qs_entries v)"
      using jk(1,2) assms(8) by auto
    then show "j = k"
    proof cases
      case 1
      then show ?thesis using jk(3-5) assms(1) old unfolding entries_ok_def by metis
    qed (use jk(3-5) no new in auto)
  qed
  moreover have "distinct (qs_entries v')" "set (qs_entries v') \<subseteq> dom (qs_questions v')" "length (qs_entries v') \<le> 128"
    using assms(1,3) old by (auto simp: entries_ok_def assms(6,8))
  ultimately show ?thesis unfolding entries_ok_def by blast
qed

subsection \<open>Every step keeps it\<close>

text \<open>A step changes one question and one request at most.\<close>

definition changes_one ::
  "('v, 's) record_store_ops \<Rightarrow> ('s \<Rightarrow> bool) \<Rightarrow> ('v, 's) question_service \<Rightarrow> ('v, 's) question_service \<Rightarrow> bool" where
  "changes_one S ok v v' \<longleftrightarrow>
     qs_questions v' = qs_questions v \<or>
     (\<exists>i q. qs_questions v' = (qs_questions v)(i \<mapsto> q) \<and> question_ok S ok (qs_store v') i q \<and>
        (\<forall>q0. qs_questions v i = Some q0 \<longrightarrow> question_grows q0 q))"

definition requests_one :: "'v question_codec \<Rightarrow> ('v, 's) question_service \<Rightarrow> ('v, 's) question_service \<Rightarrow> bool" where
  "requests_one Q v v' \<longleftrightarrow>
     qs_requests v' = qs_requests v \<or> (\<exists>n r. qs_requests v' = (qs_requests v)(n \<mapsto> r) \<and> request_ok Q v' r)"

lemma requests_same: "qs_requests v' = qs_requests v \<Longrightarrow> requests_one Q v v'"
  by (simp add: requests_one_def)

lemma request_set: "qs_requests v' = (qs_requests v)(n \<mapsto> r) \<Longrightarrow> request_ok Q v' r \<Longrightarrow> requests_one Q v v'"
  unfolding requests_one_def by blast

lemma changes_grows: "changes_one S ok v v' \<Longrightarrow> service_grows v v'"
  unfolding changes_one_def using grows_same grows_at by metis

context record_store
begin

lemma questions_moved:
  "store_steps S s t \<Longrightarrow> question_ok S inv s i q \<Longrightarrow> question_ok S inv t i q"
  by (auto simp: question_ok_def intro: gate_moves)

lemma inv_moves: "store_steps S s t \<Longrightarrow> inv s \<Longrightarrow> inv t"
  by (induction rule: store_steps.induct) (auto intro: inv_exec)

lemma service_invI:
  assumes "service_inv S inv Q v" and "store_steps S (qs_store v) (qs_store v')" and "changes_one S inv v v'"
    and "requests_one Q v v'" and "entries_ok v'"
  shows "service_inv S inv Q v'"
proof -
  have "question_ok S inv (qs_store v') i q" if "qs_questions v' i = Some q" for i q
    using assms(1,3) that questions_moved [OF assms(2)]
    by (auto simp: service_inv_def changes_one_def split: if_splits)
  moreover have "request_ok Q v' r" if "qs_requests v' n = Some r" for n r
    using assms(1,4) that request_grows [OF changes_grows [OF assms(3)]]
    by (auto simp: service_inv_def requests_one_def split: if_splits)
  ultimately show ?thesis using assms(1,5) inv_moves [OF assms(2)] by (auto simp: service_inv_def)
qed

lemma service_inv_new: "inv s \<Longrightarrow> service_inv S inv Q (service_new s)"
  by (simp add: service_inv_def service_new_def entries_ok_def)

text \<open>Steps that only touch requests, permits, output, flags or the store.\<close>

lemma keeps_questions:
  assumes "service_inv S inv Q v" and "store_steps S (qs_store v) (qs_store v')" and "qs_questions v' = qs_questions v"
    and "qs_entries v' = filter P (qs_entries v)" and "requests_one Q v v'"
  shows "service_inv S inv Q v'"
proof -
  have c: "changes_one S inv v v'" using assms(3) by (simp add: changes_one_def)
  have "entries_ok v'"
    using assms(1) by (intro entries_shrink [OF _ changes_grows [OF c] assms(4)]) (simp add: service_inv_def)
  with service_invI [OF assms(1,2) c assms(5)] show ?thesis by blast
qed

text \<open>Steps that change one question.\<close>

lemma keeps_question:
  assumes "service_inv S inv Q v" and "store_steps S (qs_store v) (qs_store v')"
    and "qs_questions v' = (qs_questions v)(i \<mapsto> q')" and "question_ok S inv (qs_store v') i q'"
    and "qs_questions v i = Some q" and "question_grows q q'"
    and "qs_entries v' = filter P (qs_entries v)" and "requests_one Q v v'"
  shows "service_inv S inv Q v'"
proof -
  have c: "changes_one S inv v v'" unfolding changes_one_def using assms(3-6) by (intro disjI2 exI conjI) auto
  have "entries_ok v'"
    using assms(1) by (intro entries_shrink [OF _ changes_grows [OF c] assms(7)]) (simp add: service_inv_def)
  with service_invI [OF assms(1,2) c assms(8)] show ?thesis by blast
qed

end

context record_store
begin

lemma poll_drop:
  assumes "gate_inv S inv sh (s, g)" and "question_poll S sh cancelled (s, g) = (r, s1, g1)"
    and "question_drop S sh (s1, g1) = (s2, g2)"
  shows "gate_inv S inv sh (s2, g2)" and "store_steps S s s2"
    and "gate_resolved g = Some x \<Longrightarrow> gate_resolved g2 = Some x"
    and "r = Some (Ok x) \<Longrightarrow> gate_resolved g2 = Some x"
proof -
  note P = gate_step [OF question_step.poll assms(1), of cancelled, unfolded assms(2)]
  then have g1: "gate_inv S inv sh (s1, g1)" by simp
  note D = gate_step [OF question_step.drop g1, unfolded assms(3)]
  show "gate_inv S inv sh (s2, g2)" using D by simp
  show "store_steps S s s2"
    using store_steps_trans [OF drop_moves [of s1 sh g1] poll_moves [of s sh cancelled g, unfolded assms(2) fst_conv snd_conv]]
      assms(3) by simp
  show "gate_resolved g = Some x \<Longrightarrow> gate_resolved g2 = Some x" using P D by simp
  show "r = Some (Ok x) \<Longrightarrow> gate_resolved g2 = Some x"
    using polled_answer [OF assms(1)] assms(2) D by fastforce
qed

lemma service_question: "service_inv S inv Q v \<Longrightarrow> qs_questions v i = Some q \<Longrightarrow> question_ok S inv (qs_store v) i q"
  by (simp add: service_inv_def)

lemma polls_keep:
  assumes "service_inv S inv Q v" and "qs_questions v i = Some q" and "hq_task q = Asking" and "ask_polls S i q v = Some v'"
  shows "service_inv S inv Q v'"
proof -
  let ?c = "qs_ended v (qw_call (hq_owner q))"
  have ok: "question_ok S inv (qs_store v) i q" by (rule service_question [OF assms(1,2)])
  then have g: "gate_inv S inv (hq_shared q) (qs_store v, hq_gate q)" by (simp add: question_ok_def)
  obtain r s1 g1 where poll: "question_poll S (hq_shared q) ?c (qs_store v, hq_gate q) = (r, s1, g1)" by (rule prod_cases3)
  obtain s2 g2 where drop: "question_drop S (hq_shared q) (s1, g1) = (s2, g2)" by force
  note D = poll_drop [OF g poll drop]
  let ?q = "\<lambda>t. q\<lparr>hq_gate := g2, hq_task := t\<rparr>"
  obtain t where v': "qs_questions v' = (qs_questions v)(i \<mapsto> ?q t)" "qs_store v' = s2" "qs_entries v' = qs_entries v"
      "qs_requests v' = qs_requests v" "told t = r" "t \<noteq> Asking"
    using assms(4) poll drop
    by (cases r) (auto simp: ask_polls_def set_question_def permit_back_def split: if_splits result.splits)
  have "question_ok S inv s2 i (?q t)" using D ok v'(5,6) by (auto simp: question_ok_def)
  moreover have "question_grows q (?q t)" using D(3) by (auto simp: question_grows_def)
  ultimately show ?thesis
    using keeps_question [OF assms(1) _ v'(1) _ assms(2), of "\<lambda>_. True"] D(2) v' by (simp add: requests_one_def)
qed

lemma reports_keep:
  assumes "service_inv S inv Q v" and "qs_questions v i = Some q" and "hq_task q = Told r"
  shows "service_inv S inv Q (ask_reports Q i room r q v)"
proof -
  let ?q = "q\<lparr>hq_resolved := True, hq_task := Lingering r\<rparr>"
  have "question_ok S inv (qs_store v) i ?q"
    using service_question [OF assms(1,2)] assms(3) by (simp add: question_ok_def)
  then show ?thesis
    by (intro keeps_question [OF assms(1), where i = i and q = q and q' = ?q and P = "\<lambda>_. True"])
      (auto simp: ask_reports_def permit_back_def service_emit_def set_question_def question_grows_def requests_one_def
        assms(2) intro: store_steps.refl)
qed

lemma ends_keep:
  assumes "service_inv S inv Q v" and "qs_questions v i = Some q" and "hq_task q = Lingering r" and "ask_ends i r q v = Some v'"
  shows "service_inv S inv Q v'"
proof -
  let ?q = "q\<lparr>hq_task := Left (Some r)\<rparr>"
  have "question_ok S inv (qs_store v) i ?q"
    using service_question [OF assms(1,2)] assms(3) by (simp add: question_ok_def)
  then show ?thesis
    using assms(2,4)
    by (intro keeps_question [OF assms(1), where i = i and q = q and q' = ?q and P = "\<lambda>j. qs_poisoned v \<or> j \<noteq> i"])
      (auto simp: ask_ends_def set_question_def question_grows_def requests_one_def removeAll_filter_not_eq fun_eq_iff
        intro: store_steps.refl filter_cong split: if_splits)
qed

end

context record_store
begin

text \<open>\<open>service_open\<close> refuses, with some ended entries removed, or adds one question.\<close>

lemma service_open_cases:
  assumes "service_inv S inv Q v" and "qs_questions v fresh = None"
  obtains (refused) e v' P where "service_open S Q w params fresh v = (e, v')" "e \<noteq> Ok ()" "qs_questions v' = qs_questions v"
      "qs_entries v' = filter P (qs_entries v)" "qs_requests v' = qs_requests v" "store_steps S (qs_store v) (qs_store v')"
  | (opened) v' q where "service_open S Q w params fresh v = (Ok (), v')" "qs_questions v' = (qs_questions v)(fresh \<mapsto> q)"
      "question_ok S inv (qs_store v') fresh q" "qs_requests v' = qs_requests v"
      "store_steps S (qs_store v) (qs_store v')" "entries_ok v'"
proof -
  let ?live = "filter (\<lambda>i. \<not> qs_ended v (call_of v i)) (qs_entries v)"
  let ?same = "filter (\<lambda>i. call_of v i = qw_call w) ?live"
  have all: "qs_entries v = filter (\<lambda>_. True) (qs_entries v)" by simp
  show thesis
  proof (cases "asked_question Q params")
    case (Ok question)
    let ?d = "question_draft w fresh question"
    consider (poisoned) "qs_poisoned v" "service_open S Q w params fresh v = (Panic, v)"
      | (limits) e v' where "service_open S Q w params fresh v = (Err e, v')" "v' = v\<lparr>qs_entries := ?live\<rparr>"
      | (opens) "length ?live < 128" "length ?same < 8" "\<not> list_ex (entry_open v) ?same"
        "service_open S Q w params fresh v =
          (case question_open S ?d (Ident ''host'') (qs_store v) of
             (Ok (sh, g), s) \<Rightarrow>
               (Ok (), (set_question fresh \<lparr>hq_owner = w, hq_shared = sh, hq_gate = g, hq_resolved = False, hq_task = Asking\<rparr>
                   (v\<lparr>qs_entries := ?live\<rparr>))\<lparr>qs_store := s, qs_entries := ?live @ [fresh]\<rparr>)
           | (Err e, s) \<Rightarrow> (Err (qc_error_text Q e), v\<lparr>qs_entries := ?live, qs_store := s\<rparr>)
           | (Panic, s) \<Rightarrow> (Panic, v\<lparr>qs_entries := ?live, qs_store := s, qs_poisoned := True\<rparr>))"
    proof -
      let ?full = "128 \<le> length ?live \<or> 8 \<le> length ?same \<or> list_ex (entry_open v) ?same"
      have eq: "service_open S Q w params fresh v =
          (if qs_poisoned v then (Panic, v)
           else if qs_ended v (qw_call w) \<or> qs_stopped v then (Err ''invocation ended'', v\<lparr>qs_entries := ?live\<rparr>)
           else if ?full then (Err ''question limit reached or invocation already has a pending question'', v\<lparr>qs_entries := ?live\<rparr>)
           else
             (case question_open S ?d (Ident ''host'') (qs_store v) of
                (Ok (sh, g), s) \<Rightarrow>
                  (Ok (), (set_question fresh \<lparr>hq_owner = w, hq_shared = sh, hq_gate = g, hq_resolved = False, hq_task = Asking\<rparr>
                      (v\<lparr>qs_entries := ?live\<rparr>))\<lparr>qs_store := s, qs_entries := ?live @ [fresh]\<rparr>)
              | (Err e, s) \<Rightarrow> (Err (qc_error_text Q e), v\<lparr>qs_entries := ?live, qs_store := s\<rparr>)
              | (Panic, s) \<Rightarrow> (Panic, v\<lparr>qs_entries := ?live, qs_store := s, qs_poisoned := True\<rparr>)))"
        by (simp add: service_open_def Ok Let_def)
      show thesis
        by (cases "qs_poisoned v"; cases "qs_ended v (qw_call w) \<or> qs_stopped v"; cases ?full) (use eq that in \<open>auto simp: not_le\<close>)
    qed
    then show thesis
    proof cases
      case poisoned
      then show ?thesis by (intro refused [of Panic v "\<lambda>_. True"]) (simp_all add: store_steps.refl)
    next
      case limits
      then show ?thesis by (intro refused [of "Err e" v']) (auto intro: store_steps.refl)
    next
      case opens
      obtain r s where q: "question_open S ?d (Ident ''host'') (qs_store v) = (r, s)" by force
      have moves: "store_steps S (qs_store v) s" using open_moves [of "qs_store v" ?d "Ident ''host''"] q by simp
      show ?thesis
      proof (cases r)
        case Ok': (Ok x)
        obtain sh g where x: "x = (sh, g)" by force
        let ?q = "\<lparr>hq_owner = w, hq_shared = sh, hq_gate = g, hq_resolved = False, hq_task = Asking\<rparr>"
        let ?v = "(set_question fresh ?q (v\<lparr>qs_entries := ?live\<rparr>))\<lparr>qs_store := s, qs_entries := ?live @ [fresh]\<rparr>"
        let ?mid = "v\<lparr>qs_entries := ?live\<rparr>"
        have inv: "inv (qs_store v)" "entries_ok v" using assms(1) by (simp_all add: service_inv_def)
        have ok: "question_ok S inv s fresh ?q"
          using open_gate [OF inv(1) q [unfolded Ok' x]] by (auto simp: question_ok_def question_draft_def)
        have "entries_ok ?mid"
          by (rule entries_shrink [OF inv(2) grows_same, where P = "\<lambda>i. \<not> qs_ended v (call_of v i)"]) simp_all
        moreover have "call_of ?mid = call_of v" "entry_open ?mid = entry_open v"
          by (simp_all add: fun_eq_iff call_of_def entry_open_def)
        ultimately have "entries_ok ?v"
          by (intro entries_add [of ?mid fresh "qw_call w" ?v ?q])
            (use opens(1-3) assms(2) in \<open>auto simp: set_question_def list_ex_iff\<close>)
        then show ?thesis
          using opens(4) q Ok' x ok moves by (intro opened [of ?v ?q]) (simp_all add: set_question_def)
      next
        case (Err e)
        then show ?thesis using opens(4) q moves
          by (intro refused [of "Err (qc_error_text Q e)" "v\<lparr>qs_entries := ?live, qs_store := s\<rparr>"
              "\<lambda>i. \<not> qs_ended v (call_of v i)"]) simp_all
      next
        case Panic
        then show ?thesis using opens(4) q moves
          by (intro refused [of Panic "v\<lparr>qs_entries := ?live, qs_store := s, qs_poisoned := True\<rparr>"
              "\<lambda>i. \<not> qs_ended v (call_of v i)"]) simp_all
      qed
    qed
  next
    case (Err e)
    then show thesis by (intro refused [of "Err e" v "\<lambda>_. True"]) (simp_all add: service_open_def store_steps.refl)
  next
    case Panic
    then show thesis by (intro refused [of Panic v "\<lambda>_. True"]) (simp_all add: service_open_def store_steps.refl)
  qed
qed

end

context record_store
begin

lemma opens_keep:
  assumes "service_inv S inv Q v" and "qs_questions v fresh = None"
  shows "service_inv S inv Q (ask_opens S Q n fresh room w params v)"
proof (rule service_open_cases [OF assms, of w params])
  let ?v2 = "ask_opens S Q n fresh room w params v"
  fix e v' P
  assume refused: "service_open S Q w params fresh v = (e, v')" "e \<noteq> Ok ()" "qs_questions v' = qs_questions v"
    "qs_entries v' = filter P (qs_entries v)" "qs_requests v' = qs_requests v" "store_steps S (qs_store v) (qs_store v')"
  obtain e' where v2: "?v2 = permit_back (set_request n (AskRefused e') v')"
    using refused(1,2) by (cases e) (auto simp: ask_opens_def)
  have "requests_one Q v ?v2"
    by (rule request_set [of _ _ n "AskRefused e'"]) (simp_all add: v2 permit_back_def set_request_def refused(5))
  moreover have "qs_questions ?v2 = qs_questions v" "qs_entries ?v2 = filter P (qs_entries v)" "qs_store ?v2 = qs_store v'"
    by (simp_all add: v2 permit_back_def set_request_def refused(3,4))
  ultimately show ?thesis using keeps_questions [OF assms(1), of ?v2 P] refused(6) by simp
next
  let ?v2 = "ask_opens S Q n fresh room w params v"
  fix v' q
  assume opened: "service_open S Q w params fresh v = (Ok (), v')" "qs_questions v' = (qs_questions v)(fresh \<mapsto> q)"
    "question_ok S inv (qs_store v') fresh q" "qs_requests v' = qs_requests v" "store_steps S (qs_store v) (qs_store v')"
    "entries_ok v'"
  have v2: "qs_questions ?v2 = (qs_questions v)(fresh \<mapsto> q)" "qs_store ?v2 = qs_store v'" "qs_entries ?v2 = qs_entries v'"
      "qs_requests ?v2 = (qs_requests v)(n \<mapsto> AskOpened fresh)"
    using opened by (simp_all add: ask_opens_def service_emit_def set_request_def)
  have "changes_one S inv v ?v2"
    unfolding changes_one_def using v2(1,2) opened(3) assms(2) by (intro disjI2 exI conjI) auto
  moreover have "entries_ok ?v2"
    by (rule entries_same [OF opened(6)]) (simp_all add: v2 opened(2) grows_same)
  moreover have "requests_one Q v ?v2" by (rule request_set [OF v2(4)]) simp
  ultimately show ?thesis using service_invI [OF assms(1), of ?v2] opened(5) v2(2) by simp
qed

lemma finds_keep:
  assumes "service_inv S inv Q v"
  shows "service_inv S inv Q (answer_finds Q n params v)"
proof -
  define v2 where "v2 = answer_finds Q n params v"
  have named: "answer_named Q v params i outcome" if find: "service_find Q params v = Ok (i, outcome)" for i outcome
  proof -
    have i: "string_param (qc_json Q) params ''question_id'' = Ok i"
      using find by (auto simp: service_find_def Let_def rbind_eq_Ok split: option.splits if_splits)
    then obtain q where "qs_questions v i = Some q" "entry_matches (qc_json Q) params v q"
        "qc_outcome Q (j_index (qc_json Q) params ''outcome'') = Ok outcome"
      using find by (auto simp: service_find_def Let_def rbind_eq_Ok split: option.splits if_splits)
    then show ?thesis using i by (auto simp: answer_named_def names_question_def entry_matches_def Let_def)
  qed
  moreover have same: "service_grows v v2"
    by (rule grows_same) (auto simp: v2_def answer_finds_def permit_back_def set_request_def split: result.splits)
  moreover have "\<exists>x. qs_requests v2 = (qs_requests v)(n \<mapsto> x) \<and> request_ok Q v2 x"
  proof (cases "service_find Q params v")
    case (Ok p)
    obtain i outcome where p: "p = (i, outcome)" by force
    have "qs_requests v2 = (qs_requests v)(n \<mapsto> AnswerFound params i outcome)"
      by (simp add: v2_def answer_finds_def set_request_def Ok p)
    moreover have "answer_named Q v2 params i outcome" by (rule named_grows [OF same named [OF Ok [unfolded p]]])
    ultimately show ?thesis by (intro exI [of _ "AnswerFound params i outcome"]) simp
  next
    case (Err e)
    then show ?thesis
      by (intro exI [of _ "AnswerRefused e"]) (simp add: v2_def answer_finds_def set_request_def permit_back_def)
  next
    case Panic
    then show ?thesis
      by (intro exI [of _ "AnswerRefused ''panic''"]) (simp add: v2_def answer_finds_def set_request_def permit_back_def)
  qed
  ultimately have "requests_one Q v v2" using request_set by blast
  moreover have "qs_questions v2 = qs_questions v" "qs_entries v2 = qs_entries v" "qs_store v2 = qs_store v"
    by (auto simp: v2_def answer_finds_def permit_back_def set_request_def split: result.splits)
  ultimately show ?thesis
    using keeps_questions [OF assms, of v2 "\<lambda>_. True"] store_steps.refl [of S "qs_store v"] by (simp add: v2_def)
qed

lemma stores_keep:
  assumes "service_inv S inv Q v" and "qs_requests v n = Some (AnswerFound params i outcome)" and "qs_questions v i = Some q"
  shows "service_inv S inv Q (answer_stores S Q n params i outcome q v)"
proof -
  let ?sh = "hq_shared q"
  define v2 where "v2 = answer_stores S Q n params i outcome q v"
  have ok: "question_ok S inv (qs_store v) i q" by (rule service_question [OF assms(1,3)])
  then have g: "gate_inv S inv ?sh (qs_store v, hq_gate q)" by (simp add: question_ok_def)
  obtain r s g' where ans: "responder_answer S ?sh (Ident ''user'') outcome (qs_store v, hq_gate q) = (r, s, g')"
    by (rule prod_cases3)
  note step = gate_step [OF question_step.answer g, of "Ident ''user''" outcome, unfolded ans]
  let ?q = "q\<lparr>hq_gate := g'\<rparr>"
  have v2: "qs_questions v2 = (qs_questions v)(i \<mapsto> ?q)" "qs_store v2 = s" "qs_entries v2 = qs_entries v"
    by (cases r; simp add: v2_def answer_stores_def ans set_question_def set_request_def permit_back_def)+
  have grows: "question_grows q ?q" using step by (simp add: question_grows_def)
  have named: "answer_named Q v params i outcome" using assms(1,2) by (fastforce simp: service_inv_def)
  have "service_grows v v2" by (rule grows_at [OF v2(1)]) (use assms(3) grows in simp)
  note named2 = named_grows [OF this named]
  have "answer_settled Q v2 params i outcome x" if "r = Ok x" for x
    using answered_exactly [OF g ans [unfolded that]] named2 v2(1) by (simp add: answer_settled_def)
  note settled = this
  have "requests_one Q v v2"
  proof (cases r)
    case (Ok x)
    have "qs_requests v2 = (qs_requests v)(n \<mapsto> AnswerStored params i outcome x)"
      by (simp add: v2_def answer_stores_def ans set_question_def set_request_def Ok)
    then show ?thesis by (rule request_set) (simp add: settled [OF Ok])
  next
    case (Err e)
    have "qs_requests v2 = (qs_requests v)(n \<mapsto> AnswerRefused (qc_error_text Q e))"
      by (simp add: v2_def answer_stores_def ans set_question_def set_request_def permit_back_def Err)
    then show ?thesis by (rule request_set) simp
  next
    case Panic
    have "qs_requests v2 = (qs_requests v)(n \<mapsto> AnswerRefused ''panic'')"
      by (simp add: v2_def answer_stores_def ans set_question_def set_request_def permit_back_def Panic)
    then show ?thesis by (rule request_set) simp
  qed
  moreover have "question_ok S inv s i ?q" using step ok by (auto simp: question_ok_def)
  moreover have "store_steps S (qs_store v) s"
    using resolve_moves [of "qs_store v" ?sh "Ident ''user''" outcome False "hq_gate q"] ans by (simp add: responder_answer_def)
  ultimately show ?thesis
    using keeps_question [OF assms(1) _ v2(1) _ assms(3) grows, of "\<lambda>_. True"] v2(2,3) by (simp add: v2_def)
qed

lemma marks_keep:
  assumes "service_inv S inv Q v" and "qs_requests v n = Some (AnswerStored params i outcome x)" and "qs_questions v i = Some q"
  shows "service_inv S inv Q (answer_marks n params i outcome x q v)"
proof -
  let ?q = "q\<lparr>hq_resolved := True\<rparr>"
  define v2 where "v2 = answer_marks n params i outcome x q v"
  have v2: "qs_questions v2 = (qs_questions v)(i \<mapsto> ?q)" "qs_store v2 = qs_store v" "qs_entries v2 = qs_entries v"
      "qs_requests v2 = (qs_requests v)(n \<mapsto> AnswerAccepted params i outcome x)"
    by (simp_all add: v2_def answer_marks_def set_question_def set_request_def permit_back_def)
  have grows: "question_grows q ?q" by (simp add: question_grows_def)
  have "service_grows v v2" by (rule grows_at [OF v2(1)]) (use assms(3) grows in simp)
  moreover have "answer_settled Q v params i outcome x" using assms(1,2) by (fastforce simp: service_inv_def)
  moreover note settled = this
  ultimately have "answer_settled Q v2 params i outcome x" by (blast intro: settled_grows)
  then have "requests_one Q v v2" by (intro request_set [OF v2(4)]) simp
  moreover have "question_ok S inv (qs_store v2) i ?q"
    using service_question [OF assms(1,3)] settled assms(3) by (simp add: question_ok_def v2(2) answer_settled_def)
  ultimately show ?thesis
    using keeps_question [OF assms(1) _ v2(1) _ assms(3) grows, of "\<lambda>_. True"] v2(2,3) store_steps.refl [of S "qs_store v"]
    unfolding v2_def by simp
qed

lemma service_inv_next:
  assumes "service_inv S inv Q v" and "service_next S Q ev v = Some v'"
  shows "service_inv S inv Q v'"
proof (cases ev)
  case (Dispatches n owner params)
  then have v': "v' = service_dispatch n owner params v" using assms(2) by (simp split: if_splits)
  obtain r where "qs_requests v' = (qs_requests v)(n \<mapsto> r)" "request_ok Q v' r"
    unfolding v' service_dispatch_def set_request_def by (cases owner; cases "32 \<le> qs_used v") simp_all
  then have "requests_one Q v v'" by (rule request_set)
  moreover have "qs_store v' = qs_store v" "qs_questions v' = qs_questions v" "qs_entries v' = qs_entries v"
    unfolding v' service_dispatch_def set_request_def by simp_all
  ultimately show ?thesis
    using keeps_questions [OF assms(1), of v' "\<lambda>_. True"] store_steps.refl [of S "qs_store v"] by simp
next
  case (Opens n fresh room)
  then obtain r where r: "qs_requests v n = Some r" using assms(2) by (auto simp: on_request_def bind_eq_Some_conv)
  show ?thesis
    using assms Opens r opens_keep [OF assms(1)] by (cases r) (auto simp: on_request_def split: if_splits)
next
  case (Polls i)
  then show ?thesis
    using assms polls_keep by (auto simp: on_question_def bind_eq_Some_conv split: if_splits)
next
  case (Reports i room)
  then obtain q where q: "qs_questions v i = Some q" using assms(2) by (auto simp: on_question_def bind_eq_Some_conv)
  show ?thesis
    using assms Reports q reports_keep [OF assms(1) q] by (cases "hq_task q") (auto simp: on_question_def)
next
  case (Ends i)
  then obtain q where q: "qs_questions v i = Some q" using assms(2) by (auto simp: on_question_def bind_eq_Some_conv)
  show ?thesis
    using assms Ends q ends_keep [OF assms(1) q] by (cases "hq_task q") (auto simp: on_question_def)
next
  case (Finds n)
  then obtain r where r: "qs_requests v n = Some r" using assms(2) by (auto simp: on_request_def bind_eq_Some_conv)
  show ?thesis
    using assms Finds r finds_keep [OF assms(1)] by (cases r) (auto simp: on_request_def)
next
  case (Stores n)
  then obtain r where r: "qs_requests v n = Some r" using assms(2) by (auto simp: on_request_def bind_eq_Some_conv)
  show ?thesis
    using assms Stores r stores_keep [OF assms(1)] by (cases r) (auto simp: on_request_def on_question_def bind_eq_Some_conv)
next
  case (Marks n)
  then obtain r where r: "qs_requests v n = Some r" using assms(2) by (auto simp: on_request_def bind_eq_Some_conv)
  show ?thesis
    using assms Marks r marks_keep [OF assms(1)] by (cases r) (auto simp: on_request_def on_question_def bind_eq_Some_conv)
next
  case (Others oper)
  then have "v' = v\<lparr>qs_store := store_exec S oper (qs_store v)\<rparr>" using assms(2) by simp
  then show ?thesis
    using keeps_questions [OF assms(1), of v' "\<lambda>_. True"] store_steps_exec [of S "qs_store v" oper] requests_same [of v' v]
    by simp
next
  case (CallEnds c)
  then have "v' = v\<lparr>qs_ended := (qs_ended v)(c := True)\<rparr>" using assms(2) by simp
  then show ?thesis
    using keeps_questions [OF assms(1), of v' "\<lambda>_. True"] store_steps.refl [of S "qs_store v"] requests_same [of v' v] by simp
next
  case HostStops
  then have "v' = v\<lparr>qs_stopped := True\<rparr>" using assms(2) by simp
  then show ?thesis
    using keeps_questions [OF assms(1), of v' "\<lambda>_. True"] store_steps.refl [of S "qs_store v"] requests_same [of v' v] by simp
qed

lemma service_inv_steps: "service_steps S Q v v' \<Longrightarrow> service_inv S inv Q v \<Longrightarrow> service_inv S inv Q v'"
  by (induction rule: service_steps.induct) (auto intro: service_inv_next)

end

subsection \<open>The properties\<close>

definition sample_owner :: question_owner where
  "sample_owner = \<lparr>qw_call = ''c'', qw_binding = ''b'', qw_scope = sample_scope\<rparr>"

definition sample_question_codec :: "tree question_codec" where
  "sample_question_codec =
     \<lparr>qc_json = tree_json, qc_number = tree_number, qc_question = (\<lambda>_. Ok sample_question), qc_question_json = (\<lambda>_. TNull),
      qc_outcome = (\<lambda>_. Ok Declined), qc_store_text = (\<lambda>_. ''e''), qc_error_text = (\<lambda>_. ''e'')\<rparr>"

definition sample_ask :: tree where
  "sample_ask = TObj [(''definition'', TNull)]"

definition sample_decline :: tree where
  "sample_decline =
     TObj [(''question_id'', TStr ''q''), (''call_id'', TStr ''c''), (''binding_id'', TStr ''b''), (''session_id'', TStr ''s''),
       (''slot_id'', TStr ''l''), (''revision'', TStr ''0''), (''outcome'', TNull)]"

definition sample_desk :: "tree memory_state" where
  "sample_desk = snd (memory_create_session (Ident ''s'') memory_default)"

text \<open>The service once the question has been asked, and once it has been answered.\<close>

definition sample_asked :: "(tree, tree memory_state) question_service option" where
  "sample_asked =
     service_run memory_store sample_question_codec [Dispatches 0 (Some sample_owner) sample_ask, Opens 0 ''q'' True]
       (service_new sample_desk)"

definition sample_request :: "tree snapshot" where
  "sample_request = snapshot_of (question_draft sample_owner ''q'' sample_question) 0"

definition sample_open_question :: "tree host_question" where
  "sample_open_question =
     \<lparr>hq_owner = sample_owner, hq_shared = \<lparr>sh_request = sample_request, sh_host = Ident ''host''\<rparr>, hq_gate = fresh_gate,
      hq_resolved = False, hq_task = Asking\<rparr>"

lemma sample_desk_reachable: "memory_reachable sample_desk"
  using memory_exec_reachable [OF memory_default_reachable, of "CreateSession (Ident ''s'')"]
  by (simp add: store_exec_def memory_store_sel sample_desk_def)

lemma sample_valid: "valid_json tree_json tree_number 17 TNull"
proof -
  have "(17 :: nat) = Suc 16" by simp
  then show ?thesis by (simp only: valid_json.simps) (simp add: tree_json_def tree_number_def)
qed

lemma sample_desk_open:
  "\<exists>t. question_open memory_store (question_draft sample_owner ''q'' sample_question) (Ident ''host'') sample_desk =
         (Ok (\<lparr>sh_request = sample_request, sh_host = Ident ''host''\<rparr>, fresh_gate), t) \<and>
       ms_poisoned t = False \<and> ms_decisions t = Map.empty \<and> ms_sessions t = [Ident ''s'' \<mapsto> [Ident ''q'']] \<and>
       ms_records t = [Ident ''q'' \<mapsto> \<lparr>en_initial = sample_request, en_current = sample_request\<rparr>]"
  by (simp add: question_open_def memory_store_sel memory_get_eq sample_desk_def question_draft_def sample_owner_def
      sample_scope_def sample_request_def sample_run)

lemma sample_asked_eq:
  "\<exists>v. sample_asked = Some v \<and> qs_questions v = [''q'' \<mapsto> sample_open_question] \<and> qs_entries v = [''q''] \<and>
     qs_requests v = [0 \<mapsto> AskOpened ''q''] \<and> qs_used v = 1 \<and> qs_ended v = (\<lambda>_. False) \<and> \<not> qs_poisoned v \<and>
     ms_poisoned (qs_store v) = False \<and> ms_decisions (qs_store v) = Map.empty \<and>
     ms_sessions (qs_store v) = [Ident ''s'' \<mapsto> [Ident ''q'']] \<and>
     ms_records (qs_store v) = [Ident ''q'' \<mapsto> \<lparr>en_initial = sample_request, en_current = sample_request\<rparr>]"
proof -
  have asked: "asked_question sample_question_codec sample_ask = Ok sample_question"
    by (simp add: asked_question_def sample_question_codec_def sample_ask_def j_index_def j_get_def tree_access
        sample_valid sample_question_ok Let_def)
      (simp add: sample_question_def field_exceeds_def)
  show ?thesis
    using sample_desk_open
    by (auto simp: sample_asked_def service_dispatch_def service_new_def set_request_def on_request_def ask_opens_def
        service_open_def asked Let_def set_question_def service_emit_def sample_open_question_def)
qed

lemma memory_service_inv:
  "memory_reachable s \<Longrightarrow> service_steps memory_store Q (service_new s) v \<Longrightarrow> service_inv memory_store ms_inv Q v"
  using mem.service_inv_steps mem.service_inv_new memory_reachable_ms_inv by blast

text \<open>
  C38: A call has one open question at most. At any point of any interleaving the service lists at
  most 128 questions and eight of a call, and of the questions of one call at most one is unresolved;
  one whose asker still waits without an answer is unresolved, so the user never sees two of them.
\<close>

theorem host_question_single:
  assumes "memory_reachable s" and "service_steps memory_store Q (service_new s) v"
  shows "length (qs_entries v) \<le> 128 \<and> length (filter (\<lambda>i. call_of v i = c) (qs_entries v)) \<le> 8 \<and>
    length (filter (\<lambda>i. call_of v i = c \<and> entry_open v i) (qs_entries v)) \<le> 1 \<and>
    (\<forall>i q. qs_questions v i = Some q \<and> hq_task q = Asking \<and> gate_resolved (hq_gate q) = None \<longrightarrow> entry_open v i)"
proof -
  have inv: "service_inv memory_store ms_inv Q v" by (rule memory_service_inv [OF assms])
  then have e: "entries_ok v" by (simp add: service_inv_def)
  have "length (filter (\<lambda>i. call_of v i = c \<and> entry_open v i) (qs_entries v)) \<le> 1"
    by (rule filter_single) (use e in \<open>auto simp: entries_ok_def\<close>)
  moreover have "entry_open v i"
    if "qs_questions v i = Some q \<and> hq_task q = Asking \<and> gate_resolved (hq_gate q) = None" for i q
    using mem.service_question [OF inv, of i q] that by (auto simp: question_ok_def entry_open_def)
  ultimately show ?thesis using e unfolding entries_ok_def by blast
qed

theorem host_question_single_witness:
  "\<exists>v. sample_asked = Some v \<and> length (filter (\<lambda>i. call_of v i = ''c'' \<and> entry_open v i) (qs_entries v)) \<le> 1 \<and> entry_open v ''q''"
proof -
  obtain v where v: "sample_asked = Some v" "qs_questions v = [''q'' \<mapsto> sample_open_question]" using sample_asked_eq by blast
  have "service_steps memory_store sample_question_codec (service_new sample_desk) v"
    by (rule service_run_steps [OF v(1) [unfolded sample_asked_def] service_steps.refl])
  from host_question_single [OF sample_desk_reachable this, of "''c''"] v show ?thesis
    by (auto simp: sample_open_question_def fresh_gate_def)
qed

text \<open>
  C25: An accepted answer is the user's, and it is the one that counts. When the service has accepted
  an answer, its parameters named the question, its revision and its call, the store holds the answer
  with exactly the decoded outcome, as the user's reply to the question, and if the asking tool gets
  an answer then it is this one.
\<close>

theorem host_answer_exact:
  assumes "memory_reachable s" and "service_steps memory_store Q (service_new s) v"
    and "qs_requests v n = Some (AnswerAccepted params i outcome x)"
  shows "\<exists>q. qs_questions v i = Some q \<and> names_question Q params i q \<and>
    qc_outcome Q (j_index (qc_json Q) params ''outcome'') = Ok outcome \<and>
    memory_get (r_id (sn_record x)) (qs_store v) = Ok x \<and> r_reply (sn_record x) = Some (Ident i) \<and>
    r_actor (sn_record x) = Ident ''user'' \<and> r_payload (sn_record x) = PAnswer outcome Stored \<and>
    (\<forall>y. told (hq_task q) = Some (Ok y) \<longrightarrow> y = x)"
proof -
  have inv: "service_inv memory_store ms_inv Q v" by (rule memory_service_inv [OF assms(1,2)])
  then have "answer_settled Q v params i outcome x" using assms(3) by (fastforce simp: service_inv_def)
  then obtain q where q: "qs_questions v i = Some q" "names_question Q params i q" "gate_resolved (hq_gate q) = Some x"
      "qc_outcome Q (j_index (qc_json Q) params ''outcome'') = Ok outcome"
      "r_actor (sn_record x) = Ident ''user''" "r_payload (sn_record x) = PAnswer outcome Stored"
    by (auto simp: answer_settled_def answer_named_def)
  have "question_ok memory_store ms_inv (qs_store v) i q" by (rule mem.service_question [OF inv q(1)])
  then show ?thesis using q by (auto simp: question_ok_def gate_inv_def memory_store_sel)
qed

lemma decimal_0: "decimal 0 = ''0''"
  by (subst decimal.simps) (simp add: char_of_def bit_0)

lemma sample_declines:
  assumes "sample_asked = Some v"
  shows "\<exists>u x. service_run memory_store sample_question_codec [Dispatches 1 None sample_decline, Finds 1, Stores 1, Marks 1] v = Some u \<and>
     qs_requests u 1 = Some (AnswerAccepted sample_decline ''q'' Declined x)"
proof -
  note a = sample_asked_eq [unfolded assms, simplified]
  have find: "service_find sample_question_codec sample_decline (v\<lparr>qs_requests := f, qs_used := n\<rparr>) = Ok (''q'', Declined)" for f n
    using a
    by (simp add: service_find_def sample_question_codec_def sample_decline_def string_param_def j_index_def j_get_def tree_access
        sample_valid Let_def entry_matches_def sample_open_question_def sample_owner_def sample_scope_def sample_request_def
        snapshot_of_def decimal_0)
  have "\<exists>x s g. responder_answer memory_store (hq_shared sample_open_question) (Ident ''user'') Declined (qs_store v, fresh_gate) = (Ok x, s, g)"
  proof -
    let ?d = "answer_draft (hq_shared sample_open_question) (Ident (answer_text ''q'')) (Ident ''user'') Declined"
    have "\<exists>x. fst (memory_resolve (Ident ''q'') 0 ?d (qs_store v)) = Ok x"
      unfolding memory_resolve_def with_lock_def
      by (simp add: a) (simp add: a sample_run sample_request_def question_draft_def sample_owner_def sample_scope_def
          sample_open_question_def answer_draft_def Let_def answer_text_def)
    then show ?thesis
      unfolding responder_answer_def
      by (subst responder_resolve_unresolved)
        (auto simp: fresh_gate_def memory_store_sel sample_open_question_def sample_request_def question_draft_def snapshot_of_def
          split: prod.splits)
  qed
  then show ?thesis
    using a
    by (auto simp: service_dispatch_def set_request_def on_request_def on_question_def answer_finds_def find
        answer_stores_def answer_marks_def sample_open_question_def set_question_def permit_back_def)
qed

theorem host_answer_exact_witness:
  "\<exists>v u x. sample_asked = Some v \<and>
     service_run memory_store sample_question_codec [Dispatches 1 None sample_decline, Finds 1, Stores 1, Marks 1] v = Some u \<and>
     r_payload (sn_record x) = PAnswer Declined Stored \<and> memory_get (r_id (sn_record x)) (qs_store u) = Ok x"
proof -
  obtain v where v: "sample_asked = Some v" using sample_asked_eq by blast
  have steps: "service_steps memory_store sample_question_codec (service_new sample_desk) v"
    by (rule service_run_steps [OF v [unfolded sample_asked_def] service_steps.refl])
  obtain u x where u: "service_run memory_store sample_question_codec [Dispatches 1 None sample_decline, Finds 1, Stores 1, Marks 1] v = Some u"
      "qs_requests u 1 = Some (AnswerAccepted sample_decline ''q'' Declined x)" using sample_declines [OF v] by blast
  from host_answer_exact [OF sample_desk_reachable service_run_steps [OF u(1) steps] u(2)] v u(1) show ?thesis by blast
qed

end
