(* ===== verification/Spec2Isabelle.thy ===== *)
theory Spec2Isabelle imports Child_Plan Context_Prep Questions Tools Structured Receipts Start_Props Sqlite_Props Sqlite_Archive Sqlite_Inventory Host_Storage_Props Host_Hub_Props Host_Session Host_Questions_Props begin

text \<open>
  agent-bridge: a verification development. Paths below are relative to src/.

  The program. agent-bridge connects an application to coding agents that speak ACP. A session
  holds the records of a conversation; a run is one exchange with an agent, recorded while it
  streams. Everything that matters is evidence in a record store: what the user asked, what context
  was sent, what the agent said and did, which permissions were asked and given, how the run ended.
  The library (src/src) has two stores (in memory, SQLite), the ACP client with its recorder, context
  preparation, questions and application tools. The host (src/host) serves the library to another
  process over JSON lines.

  Conventions. \<open>('a, 'e) result\<close> is Rust's \<open>Result\<close> with a third constructor \<open>Panic\<close>; errors
  are the source's enums. An operation that changes state takes and returns it; HashMaps are partial
  maps, BTreeMaps sorted lists (Btree), strings lists of bytes, u64 is a 64-bit word, usize a natural
  number with the checks the source makes. A trait is a record of its operations; what its clients
  rely on is a locale, interpreted on the model's own stores. Third-party code is a parameter:
  serde_json (the record \<open>json\<close> with \<open>json_laws\<close>, theory Json), derived serializers, digests,
  the SQLite driver, the transport of the ACP SDK, the clock and identities. A loop that awaits is
  modelled as one poll; an interleaving is a list or an inductive closure of steps.

  Foundations.
  Prelude (results, bounded integers, trimming), Btree, Json, Text_Format (decimal numbers and
  length-prefixed names), Effects (operations that return a result and a state).
  Ids is src/id.rs; Data_Model is src/model.rs, src/authority.rs and src/configuration.rs;
  Run_Lifecycle is the state machine of src/run.rs: a terminal status absorbs every event and a
  requested cancellation is kept.

  Record rules and stores.
  Records (src/records.rs, src/records/question.rs): payloads, drafts, snapshots. Rules
  (src/records/rules.rs): which payload a state admits, compare-and-swap checkpoints, resolving a
  request. Continuations (src/records/continuation.rs): single-use handoffs of native sessions and the
  locale \<open>continuation_store\<close>. Execution and Child_Plan (src/execution.rs): recorded children and
  what a plan admits. Store_Interface: the traits as records, the locales \<open>record_store\<close> and
  \<open>execution_store\<close> with the lemmas every store shares. Memory_Store is src/records/memory.rs;
  Memory_Proofs has its invariant (dense sequences, one response per request, acyclic relations),
  Memory_Contracts the interpretations and the properties over reachable stores: finalized records
  are immutable, requests resolve once, claims are granted once, authority narrows, nothing panics.
  Resources and Context_Prep (src/context.rs): the archive contract and the preparation of a context
  with all its limits and policies. Questions (src/questions.rs), Tools (src/tools.rs,
  src/tools/dynamic.rs, src/mcp.rs), Structured (src/structured.rs), Receipts
  (src/records/receipts.rs).

  The ACP client.
  Acp_Config (src/acp/configuration.rs) is the option catalog and the exchange that changes one
  option. Acp_Route and Acp_Session (src/acp/session.rs) are the bounded channel of 256 events between
  the provider's callbacks and the consumer, the pending permission requests (at most 32 at a time),
  and a session's runs. Acp_Recorder and Acp_Recorded (src/acp/recording.rs) are the recorder, every event of
  it, and the recorded run. Acp_Context is src/acp/context.rs, Acp_Start every way to start a run
  (src/acp/session.rs, src/acp/structured.rs), Acp_Continuation and Acp_Restoration are
  src/acp/continuation.rs and src/acp/restoration.rs.
  Recorder_Proofs, Recorder_Events, Recorder_Observe and Recorder_Run prove the recorder's invariant
  inside \<open>record_store\<close>, hence for every store that meets the contract: the working records are
  the stored ones, and their contents are the provider's updates. Recorded_Trace and Recorded_Ends add
  other writers of the store, the end of a run, errors and drops. Recorder_Transcript says what a
  recorder should have written after a sequence of events, as a list of entries without records,
  indices or maps (\<open>hear\<close>, \<open>transcript\<close>), and shows that every recorded event keeps the records
  and that list in step (\<open>tells\<close>) and that the end closes it (\<open>told\<close>). Recorder_Memory shows
  that the in-memory store accepts what an interruption writes. Recorded_Sample is an evaluated run
  for the witnesses; Recorded_Props are the properties on the in-memory store. Write_Ahead and
  Start_Props show which evidence is stored before the prompt is sent.

  The SQLite store.
  Sqlite_Driver: every call of the driver may fail, a transaction commits or leaves no trace.
  Sqlite_Rows: the tables of the migrations (src/records/sqlite/migrations) with their constraints and
  triggers, rows and the versioned documents of src/records/sqlite/codec.rs. Sqlite_Store: every
  operation of the three store traits, statement by statement (src/records/sqlite.rs,
  sqlite/continuation.rs, sqlite/execution.rs). Sqlite_View maps tables to the in-memory state they
  represent; Sqlite_Reads, Sqlite_Writes, Sqlite_Effects, Sqlite_Links, Sqlite_Chains, Sqlite_Refine
  and Sqlite_Answers build the simulation; Sqlite_Calls is its form for sequences of calls in which any
  call may meet faults of the driver, each call with its own. Sqlite_Feed, Sqlite_Sync and
  Sqlite_Client are the change feed (sqlite/changes.rs) and a client that follows it as host/state.ts does;
  Sqlite_Recovery and Sqlite_Inventory the recovery listings (sqlite/recovery.rs); Sqlite_Archive the
  resource archive (sqlite/resources.rs), an interpretation of the contract that the in-memory archive
  meets. Sqlite_Props has the properties: refinement of the in-memory store, convergence and
  termination of the feed.

  The host.
  Host_Storage (host/storage.rs) is the worker thread in front of a store, with permits, the gate
  shared by writers of a file and the queue of eight jobs; Host_Storage_Props shows that it is
  linearizable and fail-stop. Host_Hub (host/tool_hub.rs) forwards tool calls to the application;
  Host_Hub_Props shows evidence before effect, one reply per call, retirement after an uncertain call,
  and at most sixteen calls in flight, four on a binding. Host_Session (host/interactions.rs,
  host/recovery.rs) is what a client may send along with a run or a restoration. Host_Questions
  (host/questions.rs) lets the tools of the application ask the user; Host_Questions_Props shows, for
  the contract of record stores, one open question per call and that an accepted answer is the
  user's, stored, and the asker's.

  Granularity. Transactions of SQLite are atomic, as its exclusive write lock makes them. The worker,
  the hub and the questions take one step per locked region, atomic access or channel operation; a job runs in
  one step under the gate; in the hub the removal of a call's entry and the retirement of its
  binding are one step, and so are entering a pending call and announcing it. \<open>acp_next\<close> looks at the
  overflow mark at every poll, the source once per call of \<open>next\<close>: a wait that is pending when the
  channel overflows takes one more delivery before the error. \<open>follow_changes\<close> is the paging loop of
  host/state.ts without its limit of 1000 pages and without the saving of the state between pages.

  Bounds. The schema check is called with fuel 17 because the source stops at depth 16, and so is
  \<open>valid_json\<close>; both answer for every value. Counters that the source keeps in u64 are words; the
  statements on permission requests assume fewer than 2^64 of them, the ones on SQLite fewer calls
  than its signed 64-bit clock can count (\<open>2 * length calls < i64_max\<close>), and documents that read
  back as they were written (\<open>payload_storable\<close>, \<open>call_storable\<close>): serde_json reads 128 levels of
  nesting and writes any depth, so a payload at that limit is stored and can not be read back. The
  statements on runs that fail or are dropped assume a store with room for two more records in a
  session and for one more revision of each record (\<open>roomy\<close>). \<open>follow_changes\<close> has fuel for one page more than the records divided by the page size, which is shown to be enough. No other
  definition has fuel: all are total.

  Not modelled: providers (finding and starting executables), the main loop and the line protocol of
  the host (host/main.rs, host/output.rs), its views of receipts (host/receipts.rs), the local socket of the hub, the connection of the ACP SDK beneath a
  session, opening and migrating a database file, deleting a native session. These are input, output
  and process control, or forward to what is modelled.
\<close>

end
